(* ===== verification/Prelude.thy ===== *)
theory Prelude
  imports Main "HOL-Library.Word" "HOL-Library.Monad_Syntax"
begin

text \<open>
  What every component of the development shares: the narrowing conversion of C's \<open>short\<close>,
  generic facts on lists and options that the component theories use as simp rules, and the
  collections of named facts.
\<close>

named_theorems region_simps \<open>point-set semantics of the region operations\<close>

subsection \<open>The 16-bit \<open>short\<close> of the C code\<close>

text \<open>
  Values of type \<open>short\<close> are kept as integers; an assignment from \<open>int\<close> to \<open>short\<close> that can
  lose bits is written with the conversion below (two's complement, as gcc and MSVC define it).
\<close>

definition to_short :: "int \<Rightarrow> int" where
  "to_short i = (i + 32768) mod 65536 - 32768"

definition is_short :: "int \<Rightarrow> bool" where
  "is_short i \<longleftrightarrow> - 32768 \<le> i \<and> i \<le> 32767"

lemma to_short_is_short [simp]: "is_short (to_short i)"
proof -
  have "0 \<le> (i + 32768) mod 65536" and "(i + 32768) mod 65536 < 65536"
    by simp_all
  then show ?thesis by (simp add: to_short_def is_short_def)
qed

lemma to_short_id [simp]: "is_short i \<Longrightarrow> to_short i = i"
  by (simp add: to_short_def is_short_def)

subsection \<open>Lists\<close>

lemma takeWhile_append_all:
  "(\<forall>x \<in> set xs. P x) \<Longrightarrow> takeWhile P (xs @ ys) = xs @ takeWhile P ys"
  by (induction xs) auto

lemma dropWhile_append_all:
  "(\<forall>x \<in> set xs. P x) \<Longrightarrow> dropWhile P (xs @ ys) = dropWhile P ys"
  by (induction xs) auto

lemma takeWhile_hd_neg: "ys = [] \<or> \<not> P (hd ys) \<Longrightarrow> takeWhile P ys = []"
  by (cases ys) auto

lemma dropWhile_hd_neg: "ys = [] \<or> \<not> P (hd ys) \<Longrightarrow> dropWhile P ys = ys"
  by (cases ys) auto

lemma length_dropWhile_less [termination_simp]: "length (dropWhile P xs) < Suc (length xs)"
  by (rule le_imp_less_Suc, rule length_dropWhile_le)

lemma map2_same_length_const:
  "length xs = length ys \<Longrightarrow> (\<And>y. y \<in> set ys \<Longrightarrow> f y = c) \<Longrightarrow>
   map2 (\<lambda>x y. g x (f y)) xs ys = map (\<lambda>x. g x c) xs"
  by (induction xs ys rule: list_induct2) auto

end
