(* ===== verification/Xregion_Band.thy ===== *)
theory Xregion_Band
  imports Prelude
begin

text \<open>
  The mathematics behind the y-x-banded rectangle arrays of \<open>common/Xregion/Region.c\<close>: one
  scanline of a region is a list of half-open x-intervals with gaps between them, a region is a
  list of bands. Nothing here models code; the abstract specification of the region operations
  is stated over it.
\<close>

subsection \<open>Scanlines: separated interval lists\<close>

type_synonym ivl = "int \<times> int"

definition xset :: "ivl list \<Rightarrow> int set" where
  "xset xs = (\<Union>p \<in> set xs. {fst p..<snd p})"

definition sep :: "ivl list \<Rightarrow> bool" where
  "sep xs \<longleftrightarrow> (\<forall>p \<in> set xs. fst p < snd p) \<and> sorted_wrt (\<lambda>p q. snd p < fst q) xs"

lemma xset_simps [simp]:
  "xset [] = {}"
  "xset (p # xs) = {fst p..<snd p} \<union> xset xs"
  "xset (xs @ ys) = xset xs \<union> xset ys"
  by (auto simp: xset_def)

lemma sep_Nil [simp]: "sep []"
  by (simp add: sep_def)

lemma sep_Cons:
  "sep (p # xs) \<longleftrightarrow> fst p < snd p \<and> (\<forall>q \<in> set xs. snd p < fst q) \<and> sep xs"
  by (auto simp: sep_def)

lemma sep_append:
  "sep (xs @ ys) \<longleftrightarrow> sep xs \<and> sep ys \<and> (\<forall>p \<in> set xs. \<forall>q \<in> set ys. snd p < fst q)"
  by (auto simp: sep_def sorted_wrt_append)

lemma sep_nonempty: "sep xs \<Longrightarrow> p \<in> set xs \<Longrightarrow> fst p < snd p"
  by (simp add: sep_def)

lemma xset_eq_empty: "sep xs \<Longrightarrow> xset xs = {} \<longleftrightarrow> xs = []"
  by (cases xs) (auto simp: sep_Cons)

lemma sep_Cons_least: "sep (p # xs) \<Longrightarrow> x \<in> xset xs \<Longrightarrow> snd p < x"
  by (fastforce simp: sep_Cons xset_def)

lemma sep_Cons_above: "sep (p # xs) \<Longrightarrow> x \<in> xset (p # xs) \<Longrightarrow> fst p \<le> x"
  by (force simp: sep_Cons xset_def)

lemma sep_Cons_first_gap: "sep (p # xs) \<Longrightarrow> snd p \<notin> xset (p # xs)"
  using sep_Cons_least [of p xs "snd p"] by auto

text \<open>A set of columns has at most one separated interval list.\<close>

lemma sep_Cons_hd_fst:
  assumes "sep (p # xs)" and "sep (q # ys)" and "xset (p # xs) = xset (q # ys)"
  shows "fst p = fst q"
proof -
  have "fst p \<in> xset (p # xs)" and "fst q \<in> xset (q # ys)"
    using assms by (auto simp: sep_Cons)
  then show ?thesis
    using assms sep_Cons_above by (metis antisym)
qed

lemma sep_Cons_hd_snd_le:
  assumes "sep (p # xs)" and "sep (q # ys)" and "xset (p # xs) = xset (q # ys)"
  shows "snd p \<le> snd q"
proof (rule ccontr)
  assume "\<not> snd p \<le> snd q"
  moreover have "fst p = fst q" using assms by (rule sep_Cons_hd_fst)
  moreover have "fst q < snd q" using assms(2) by (simp add: sep_Cons)
  ultimately have "snd q \<in> xset (p # xs)" by simp
  with assms(3) sep_Cons_first_gap [OF assms(2)] show False by simp
qed

lemma sep_unique: "sep xs \<Longrightarrow> sep ys \<Longrightarrow> xset xs = xset ys \<Longrightarrow> xs = ys"
proof (induction xs arbitrary: ys)
  case Nil
  then show ?case using xset_eq_empty by force
next
  case (Cons p xs)
  then obtain q ys' where ys: "ys = q # ys'"
    using xset_eq_empty [OF Cons.prems(1)] by (cases ys) auto
  have pq: "p = q"
    using Cons.prems unfolding ys
    by (intro prod_eqI sep_Cons_hd_fst antisym sep_Cons_hd_snd_le) auto
  have "xset xs = xset (p # xs) - {fst p..<snd p}" if "sep (p # xs)" for xs
    using that sep_Cons_least [OF that] by auto fastforce
  then have "xset xs = xset ys'"
    using Cons.prems pq ys by metis
  with Cons show ?case by (auto simp: pq ys sep_Cons)
qed

subsection \<open>Bands\<close>

text \<open>A band is a vertical range \<open>[y1, y2)\<close> and the scanline all its rows share.\<close>

type_synonym band = "int \<times> int \<times> ivl list"

definition good_band :: "band \<Rightarrow> bool" where
  "good_band b = (case b of (y1, y2, xs) \<Rightarrow> y1 < y2 \<and> xs \<noteq> [] \<and> sep xs)"

text \<open>Consecutive bands are ordered, and touching bands have different scanlines.\<close>

definition link :: "band \<Rightarrow> band \<Rightarrow> bool" where
  "link a b \<longleftrightarrow> fst (snd a) \<le> fst b \<and> (fst (snd a) = fst b \<longrightarrow> snd (snd a) \<noteq> snd (snd b))"

definition good_bands :: "band list \<Rightarrow> bool" where
  "good_bands bs \<longleftrightarrow> (\<forall>b \<in> set bs. good_band b) \<and> successively link bs"

definition band_row :: "band list \<Rightarrow> int \<Rightarrow> int set" where
  "band_row bs y = (\<Union>(y1, y2, xs) \<in> set bs. if y1 \<le> y \<and> y < y2 then xset xs else {})"

lemma good_band_simp [simp]: "good_band (y1, y2, xs) \<longleftrightarrow> y1 < y2 \<and> xs \<noteq> [] \<and> sep xs"
  by (simp add: good_band_def)

declare link_def [simp]

lemma band_row_simps [simp]:
  "band_row [] y = {}"
  "band_row ((y1, y2, xs) # bs) y = (if y1 \<le> y \<and> y < y2 then xset xs else {}) \<union> band_row bs y"
  "band_row (as @ bs) y = band_row as y \<union> band_row bs y"
  by (auto simp: band_row_def)

lemma good_bands_Nil [simp]: "good_bands []"
  by (simp add: good_bands_def)

lemma good_bands_Cons:
  "good_bands (b # bs) \<longleftrightarrow> good_band b \<and> (bs = [] \<or> link b (hd bs)) \<and> good_bands bs"
  by (auto simp: good_bands_def successively_Cons)

lemma good_bands_append:
  "good_bands (as @ bs) \<longleftrightarrow>
     good_bands as \<and> good_bands bs \<and> (as = [] \<or> bs = [] \<or> link (last as) (hd bs))"
  by (auto simp: good_bands_def successively_append_iff)

lemma good_bands_Cons_below:
  "good_bands ((y1, y2, xs) # bs) \<Longrightarrow> (z1, z2, zs) \<in> set bs \<Longrightarrow> y2 \<le> z1 \<and> z1 < z2"
proof (induction bs arbitrary: y1 y2 xs)
  case (Cons b bs)
  obtain u1 u2 us where b: "b = (u1, u2, us)" by (cases b)
  from Cons.prems(1) have "y2 \<le> u1" "u1 < u2" and g: "good_bands ((u1, u2, us) # bs)"
    by (auto simp: b good_bands_Cons)
  with Cons.prems(2) Cons.IH [OF g] show ?case by (auto simp: b)
qed simp

lemma band_row_below:
  "good_bands ((y1, y2, xs) # bs) \<Longrightarrow> y < y2 \<Longrightarrow> band_row bs y = {}"
  using good_bands_Cons_below by (fastforce simp: band_row_def)

lemma band_row_before: "good_bands ((y1, y2, xs) # bs) \<Longrightarrow> y < y1 \<Longrightarrow> band_row ((y1, y2, xs) # bs) y = {}"
  by (frule band_row_below [of y1 y2 xs bs y]) (auto simp: good_bands_Cons)

lemma band_row_first:
  "good_bands ((y1, y2, xs) # bs) \<Longrightarrow> y1 \<le> y \<Longrightarrow> y < y2 \<Longrightarrow> band_row ((y1, y2, xs) # bs) y = xset xs"
  by (simp add: band_row_below)

lemma band_row_after: "y2 \<le> y \<Longrightarrow> band_row ((y1, y2, xs) # bs) y = band_row bs y"
  by simp

text \<open>At the end of the first band the scanline changes: the bands are as tall as possible.\<close>

lemma band_row_changes:
  assumes "good_bands ((y1, y2, xs) # bs)"
  shows "band_row ((y1, y2, xs) # bs) y2 \<noteq> xset xs"
proof (cases bs)
  case Nil
  then show ?thesis using assms by (auto simp: good_bands_Cons xset_eq_empty dest: sym)
next
  case (Cons b bs')
  obtain z1 z2 zs where b: "b = (z1, z2, zs)" by (cases b)
  have g: "good_bands ((z1, z2, zs) # bs')" and l: "y2 \<le> z1" "y2 = z1 \<longrightarrow> xs \<noteq> zs"
    and s: "sep xs" "sep zs" "xs \<noteq> []"
    using assms by (auto simp: Cons b good_bands_Cons)
  show ?thesis
  proof (cases "y2 = z1")
    case True
    then have "band_row ((y1, y2, xs) # bs) y2 = xset zs"
      using g band_row_first [OF g, of z1] by (simp add: Cons b good_bands_Cons)
    with True l s show ?thesis using sep_unique by auto
  next
    case False
    then have "band_row ((y1, y2, xs) # bs) y2 = {}"
      using l band_row_before [OF g, of y2] by (simp add: Cons b)
    with s show ?thesis using xset_eq_empty by fastforce
  qed
qed

lemma good_bands_first_le:
  assumes a: "good_bands ((y1, y2, xs) # as)" and b: "good_bands ((z1, z2, zs) # bs)"
    and eq: "\<And>y. band_row ((y1, y2, xs) # as) y = band_row ((z1, z2, zs) # bs) y"
  shows "y1 \<le> z1"
proof (rule ccontr)
  assume "\<not> y1 \<le> z1"
  then have "band_row ((z1, z2, zs) # bs) z1 = {}"
    using band_row_before [OF a, of z1] eq [of z1] by simp
  then show False using band_row_first [OF b, of z1] b by (auto simp: good_bands_Cons xset_eq_empty)
qed

lemma good_bands_first_height:
  assumes a: "good_bands ((y1, y2, xs) # as)" and b: "good_bands ((y1, z2, zs) # bs)"
    and eq: "\<And>y. band_row ((y1, y2, xs) # as) y = band_row ((y1, z2, zs) # bs) y"
    and x: "xset xs = xset zs"
  shows "y2 \<le> z2"
proof (rule ccontr)
  assume "\<not> y2 \<le> z2"
  then have "band_row ((y1, y2, xs) # as) z2 = xset xs"
    using band_row_first [OF a, of z2] b by (simp add: good_bands_Cons)
  then show False using band_row_changes [OF b] eq [of z2] x by simp
qed

text \<open>The banded form of a point set is unique.\<close>

lemma good_bands_unique:
  "good_bands as \<Longrightarrow> good_bands bs \<Longrightarrow> (\<And>y. band_row as y = band_row bs y) \<Longrightarrow> as = bs"
proof (induction as arbitrary: bs)
  case Nil
  show ?case
  proof (cases bs)
    case (Cons b bs')
    obtain z1 z2 zs where b: "b = (z1, z2, zs)" by (cases b)
    with Nil.prems(2) Nil.prems(3) [of z1] show ?thesis
      using band_row_first [of z1 z2 zs bs' z1] by (auto simp: Cons good_bands_Cons xset_eq_empty)
  qed simp
next
  case (Cons a as)
  obtain y1 y2 xs where a: "a = (y1, y2, xs)" by (cases a)
  have ga: "good_bands ((y1, y2, xs) # as)" using Cons.prems(1) by (simp add: a)
  have "bs \<noteq> []"
    using Cons.prems(3) [of y1] band_row_first [OF ga, of y1] ga
    by (auto simp: a good_bands_Cons xset_eq_empty)
  then obtain z1 z2 zs bs' where bs: "bs = (z1, z2, zs) # bs'" by (metis list.exhaust prod_cases3)
  have gb: "good_bands ((z1, z2, zs) # bs')" using Cons.prems(2) by (simp add: bs)
  have eq: "band_row ((y1, y2, xs) # as) y = band_row ((z1, z2, zs) # bs') y" for y
    using Cons.prems(3) by (simp only: a bs)
  have y1: "y1 = z1"
    using good_bands_first_le [OF ga gb eq] good_bands_first_le [OF gb ga eq [symmetric]] by simp
  have x: "xset xs = xset zs"
    using eq [of y1] band_row_first [OF ga, of y1] band_row_first [OF gb, of y1] ga gb y1
    by (simp add: good_bands_Cons)
  then have xs: "xs = zs" using ga gb sep_unique by (auto simp: good_bands_Cons)
  have y2: "y2 = z2"
    using good_bands_first_height [of y1 y2 xs as z2 zs bs'] good_bands_first_height [of y1 z2 zs bs' y2 xs as]
      ga gb eq x y1 by force
  have "band_row as y = band_row bs' y" for y
    using eq [of y] band_row_below [OF ga, of y] band_row_below [OF gb, of y] y1 y2
    by (cases "y < y2") auto
  then have "as = bs'" using Cons.IH [of bs'] ga gb by (auto simp: good_bands_Cons)
  then show ?case by (simp add: a bs y1 y2 xs)
qed

end
