(* ===== verification/Xregion_Box.thy ===== *)
theory Xregion_Box
  imports Xregion_Band
begin

text \<open>
  The data of \<open>common/Xregion\<close>: boxes, the region structure, the store of regions the
  operations work on, and the operations that only read or rewrite one region. A \<open>Region\<close> of
  the C code is a pointer, so the operations take addresses into a store and their results are
  stated for every way the addresses may coincide. The live part of the \<open>rects\<close> array is a
  list (so \<open>numRects\<close> is its length); the capacity \<open>size\<close> is kept apart from it.
\<close>

subsection \<open>Boxes and regions\<close>

record box =
  bx1 :: int
  bx2 :: int
  by1 :: int
  by2 :: int

record region =
  rsize :: int
  rects :: "box list"
  extents :: box

type_synonym ptr = nat
type_synonym store = "ptr \<Rightarrow> region"

abbreviation numRects :: "region \<Rightarrow> nat" where
  "numRects r \<equiv> length (rects r)"

definition empty_box :: box where
  "empty_box = \<lparr>bx1 = 0, bx2 = 0, by1 = 0, by2 = 0\<rparr>"

definition EXTENTCHECK :: "box \<Rightarrow> box \<Rightarrow> bool" where
  "EXTENTCHECK r1 r2 \<longleftrightarrow>
     bx2 r1 > bx1 r2 \<and> bx1 r1 < bx2 r2 \<and> by2 r1 > by1 r2 \<and> by1 r1 < by2 r2"

definition INBOX :: "box \<Rightarrow> int \<Rightarrow> int \<Rightarrow> bool" where
  "INBOX r x y \<longleftrightarrow> bx2 r > x \<and> bx1 r \<le> x \<and> by2 r > y \<and> by1 r \<le> y"

subsection \<open>Memory\<close>

text \<open>
  The allocator of the C library: an allocation of a positive number of bytes succeeds
  (memory exhaustion is not modelled), \<open>malloc(0)\<close> returns some pointer, and \<open>realloc(p, 0)\<close>
  frees its argument and returns NULL, as glibc documents. A region whose \<open>rects\<close> pointer has
  become NULL has no further defined behaviour: the operations return \<open>None\<close>.
\<close>

definition sizeof_BOX :: int where
  "sizeof_BOX = 8"

definition Xmalloc_ok :: "int \<Rightarrow> bool" where
  "Xmalloc_ok n \<longleftrightarrow> 0 \<le> n"

definition Xrealloc_ok :: "int \<Rightarrow> bool" where
  "Xrealloc_ok n \<longleftrightarrow> 0 < n"

definition MEMCHECK :: "region \<Rightarrow> region option" where
  "MEMCHECK reg =
     (if int (numRects reg) \<ge> rsize reg - 1
      then if Xrealloc_ok (2 * sizeof_BOX * rsize reg) then Some (reg\<lparr>rsize := rsize reg * 2\<rparr>) else None
      else Some reg)"

text \<open>\<open>MEMCHECK\<close>, the write at \<open>pNextRect\<close> and the increment of \<open>numRects\<close>.\<close>

definition add_box :: "region \<Rightarrow> box \<Rightarrow> region option" where
  "add_box reg b = do { reg \<leftarrow> MEMCHECK reg; Some (reg\<lparr>rects := rects reg @ [b]\<rparr>) }"

definition size_ok :: "region \<Rightarrow> bool" where
  "size_ok r \<longleftrightarrow> 1 \<le> rsize r \<and> int (numRects r) \<le> rsize r"

text \<open>The state \<open>r'\<close> is \<open>r\<close> with the boxes \<open>bs\<close> written behind its last one.\<close>

definition appended :: "region \<Rightarrow> box list \<Rightarrow> region \<Rightarrow> bool" where
  "appended r bs r' \<longleftrightarrow> rects r' = rects r @ bs \<and> extents r' = extents r \<and> size_ok r'"

lemma MEMCHECK_room:
  "size_ok r \<Longrightarrow> \<exists>r'. MEMCHECK r = Some r' \<and> rects r' = rects r \<and> extents r' = extents r \<and>
     size_ok r' \<and> int (numRects r') < rsize r'"
  by (auto simp: MEMCHECK_def size_ok_def Xrealloc_ok_def sizeof_BOX_def)

lemma add_box_appended:
  assumes "size_ok r"
  obtains r' where "add_box r b = Some r'" and "appended r [b] r'"
  using MEMCHECK_room [OF assms] by (auto simp: add_box_def appended_def size_ok_def)

lemma appended_size_ok: "appended r bs r' \<Longrightarrow> size_ok r'"
  by (simp add: appended_def)

lemma appended_refl: "size_ok r \<Longrightarrow> appended r [] r"
  by (simp add: appended_def)

lemma appended_trans: "appended r as r' \<Longrightarrow> appended r' bs r'' \<Longrightarrow> appended r (as @ bs) r''"
  by (simp add: appended_def)

subsection \<open>The abstract reading of a box list\<close>

definition box_at :: "int \<Rightarrow> int \<Rightarrow> ivl \<Rightarrow> box" where
  "box_at y1 y2 p = \<lparr>bx1 = fst p, bx2 = snd p, by1 = y1, by2 = y2\<rparr>"

definition boxes_of :: "band \<Rightarrow> box list" where
  "boxes_of b = (case b of (y1, y2, xs) \<Rightarrow> map (box_at y1 y2) xs)"

definition flat :: "band list \<Rightarrow> box list" where
  "flat bs = concat (map boxes_of bs)"

definition ivl_of :: "box \<Rightarrow> ivl" where
  "ivl_of b = (bx1 b, bx2 b)"

fun bands_of :: "box list \<Rightarrow> band list" where
  "bands_of [] = []"
| "bands_of (b # bs) =
     (by1 b, by2 b, map ivl_of (b # takeWhile (\<lambda>c. by1 c = by1 b) bs)) #
     bands_of (dropWhile (\<lambda>c. by1 c = by1 b) bs)"

definition wf_rects :: "box list \<Rightarrow> bool" where
  "wf_rects bs \<longleftrightarrow> good_bands (bands_of bs) \<and> flat (bands_of bs) = bs"

definition row :: "box list \<Rightarrow> int \<Rightarrow> int set" where
  "row bs y = {x. \<exists>b \<in> set bs. INBOX b x y}"

definition pts :: "region \<Rightarrow> (int \<times> int) set" where
  "pts r = {(x, y). \<exists>b \<in> set (rects r). INBOX b x y}"

definition extents_of :: "box list \<Rightarrow> box" where
  "extents_of bs =
     \<lparr>bx1 = Min (set (map bx1 bs)), bx2 = Max (set (map bx2 bs)),
      by1 = by1 (hd bs), by2 = by2 (last bs)\<rparr>"

text \<open>
  The invariant of a region: a banded, coalesced array within its capacity whose extents are
  the bounding box (the extents of an empty region are never relied on).
\<close>

definition wf_region :: "region \<Rightarrow> bool" where
  "wf_region r \<longleftrightarrow>
     wf_rects (rects r) \<and> size_ok r \<and> (rects r \<noteq> [] \<longrightarrow> extents r = extents_of (rects r))"

lemma box_at_simps [simp]:
  "bx1 (box_at y1 y2 p) = fst p" "bx2 (box_at y1 y2 p) = snd p"
  "by1 (box_at y1 y2 p) = y1" "by2 (box_at y1 y2 p) = y2"
  by (simp_all add: box_at_def)

lemma ivl_of_box_at [simp]: "ivl_of (box_at y1 y2 p) = p"
  by (simp add: ivl_of_def)

lemma box_at_eq_iff [simp]: "box_at y1 y2 p = box_at z1 z2 q \<longleftrightarrow> y1 = z1 \<and> y2 = z2 \<and> p = q"
  by (auto simp: box_at_def prod_eq_iff)

lemma box_at_cases: "\<exists>p. b = box_at (by1 b) (by2 b) p"
  by (rule exI [of _ "ivl_of b"]) (simp add: box_at_def ivl_of_def)

lemma boxes_of_simp [simp]: "boxes_of (y1, y2, xs) = map (box_at y1 y2) xs"
  by (simp add: boxes_of_def)

lemma flat_simps [simp]:
  "flat [] = []" "flat (b # bs) = boxes_of b @ flat bs" "flat (as @ bs) = flat as @ flat bs"
  by (simp_all add: flat_def)

lemma flat_eq_Nil: "good_bands bs \<Longrightarrow> flat bs = [] \<longleftrightarrow> bs = []"
  by (cases bs) (auto simp: good_bands_Cons boxes_of_def split: prod.splits)

lemma set_flat: "b \<in> set (flat bs) \<longleftrightarrow> (\<exists>(y1, y2, xs) \<in> set bs. \<exists>p \<in> set xs. b = box_at y1 y2 p)"
  by (force simp: flat_def boxes_of_def)

lemma row_append [simp]: "row (as @ bs) y = row as y \<union> row bs y"
  by (auto simp: row_def)

lemma row_Nil [simp]: "row [] y = {}"
  by (simp add: row_def)

lemma row_band: "row (map (box_at y1 y2) xs) y = (if y1 \<le> y \<and> y < y2 then xset xs else {})"
  by (force simp: row_def INBOX_def xset_def)

lemma row_flat: "row (flat bs) y = band_row bs y"
  by (induction bs) (auto simp: boxes_of_def row_band split: prod.splits)

lemma pts_row: "pts r = {(x, y). x \<in> row (rects r) y}"
  by (auto simp: pts_def row_def)

lemma pts_iff: "(x, y) \<in> pts r \<longleftrightarrow> x \<in> row (rects r) y"
  by (simp add: pts_row)

lemma flat_first_band:
  assumes "good_bands ((y1, y2, xs) # bs)"
  shows "takeWhile (\<lambda>c. by1 c = y1) (flat ((y1, y2, xs) # bs)) = map (box_at y1 y2) xs"
    and "dropWhile (\<lambda>c. by1 c = y1) (flat ((y1, y2, xs) # bs)) = flat bs"
proof -
  have rest: "by1 c \<noteq> y1" if "c \<in> set (flat bs)" for c
    using that good_bands_Cons_below [OF assms] assms by (force simp: set_flat good_bands_Cons)
  then have "flat bs = [] \<or> by1 (hd (flat bs)) \<noteq> y1"
    by (cases "flat bs") auto
  then show "takeWhile (\<lambda>c. by1 c = y1) (flat ((y1, y2, xs) # bs)) = map (box_at y1 y2) xs"
    and "dropWhile (\<lambda>c. by1 c = y1) (flat ((y1, y2, xs) # bs)) = flat bs"
    using takeWhile_hd_neg [of "flat bs" "\<lambda>c. by1 c = y1"] dropWhile_hd_neg [of "flat bs" "\<lambda>c. by1 c = y1"]
    by (simp_all add: takeWhile_append_all dropWhile_append_all)
qed

lemma bands_of_flat: "good_bands bs \<Longrightarrow> bands_of (flat bs) = bs"
proof (induction bs)
  case (Cons b bs)
  obtain y1 y2 xs where b: "b = (y1, y2, xs)" by (cases b)
  then obtain p xs' where xs: "xs = p # xs'"
    using Cons.prems by (cases xs) (auto simp: good_bands_Cons)
  from Cons show ?case
    using flat_first_band [of y1 y2 xs bs]
    by (simp add: b xs good_bands_Cons comp_def)
qed simp

lemma wf_rects_iff: "wf_rects rs \<longleftrightarrow> (\<exists>bs. good_bands bs \<and> rs = flat bs)"
  using bands_of_flat by (metis wf_rects_def)

lemma wf_rects_flat: "good_bands bs \<Longrightarrow> wf_rects (flat bs)"
  by (auto simp: wf_rects_iff)

lemma wf_rectsE:
  assumes "wf_rects rs"
  obtains bs where "good_bands bs" and "rs = flat bs"
  using assms by (auto simp: wf_rects_iff)

lemma wf_rects_unique:
  "wf_rects as \<Longrightarrow> wf_rects bs \<Longrightarrow> (\<And>y. row as y = row bs y) \<Longrightarrow> as = bs"
  by (metis good_bands_unique row_flat wf_rectsE)

end
