(* ===== verification/Xregion_Op.thy ===== *)
theory Xregion_Op
  imports Xregion_Box
begin

text \<open>
  The generic region operator of \<open>common/Xregion/Region.c\<close>: \<open>miCoalesce\<close>, the band loop of
  \<open>miRegionOp\<close> and the treatment of the left-over bands. The callbacks that handle one band are
  the interface of the locale below; every fact about \<open>miRegionOp\<close> is proved once inside it.
  A cursor into the \<open>rects\<close> array of a source region is the list of boxes from the cursor on.
\<close>

type_synonym overlap_fun = "region \<Rightarrow> box list \<Rightarrow> box list \<Rightarrow> int \<Rightarrow> int \<Rightarrow> region option"
type_synonym band_fun = "region \<Rightarrow> box list \<Rightarrow> int \<Rightarrow> int \<Rightarrow> region option"

subsection \<open>Coalescing\<close>

text \<open>The loop that compares the boxes of the previous and the current band.\<close>

fun bands_match :: "box list \<Rightarrow> box list \<Rightarrow> bool" where
  "bands_match (p # ps) (c # cs) =
     (if bx1 p \<noteq> bx1 c \<or> bx2 p \<noteq> bx2 c then False else bands_match ps cs)"
| "bands_match _ _ = True"

text \<open>
  The loop \<open>while (pRegEnd[-1].y1 == pRegEnd->y1) pRegEnd--\<close>. It runs only when the array ends
  with a band other than the current one, so it stops before the start of the array.
\<close>

fun last_band_start :: "box list \<Rightarrow> nat \<Rightarrow> nat" where
  "last_band_start rs 0 = 0"
| "last_band_start rs (Suc i) =
     (if by1 (rs ! i) = by1 (rs ! Suc i) then last_band_start rs i else Suc i)"

definition miCoalesce :: "region \<Rightarrow> nat \<Rightarrow> nat \<Rightarrow> region \<times> nat" where
  "miCoalesce pReg prevStart curStart =
     (let rs = rects pReg;
          prevNumRects = curStart - prevStart;
          prevBoxes = take prevNumRects (drop prevStart rs);
          bandY1 = by1 (rs ! curStart);
          curBoxes = takeWhile (\<lambda>b. by1 b = bandY1) (drop curStart rs);
          curNumRects = length curBoxes;
          more = drop (curStart + curNumRects) rs;
          curStart' = (if more \<noteq> [] then last_band_start rs (length rs - 1) else curStart)
      in if curNumRects = prevNumRects \<and> curNumRects \<noteq> 0 \<and>
            by2 (rs ! prevStart) = by1 (rs ! curStart) \<and> bands_match prevBoxes curBoxes
         then (pReg\<lparr>rects := take prevStart rs @
                              map2 (\<lambda>p c. p\<lparr>by2 := by2 c\<rparr>) prevBoxes curBoxes @ more\<rparr>,
               if more = [] then prevStart else curStart')
         else (pReg, curStart'))"

text \<open>\<open>if (newReg->numRects != curBand) prevBand = miCoalesce (newReg, prevBand, curBand)\<close>\<close>

definition coalesce_new :: "region \<Rightarrow> nat \<Rightarrow> nat \<Rightarrow> region \<times> nat" where
  "coalesce_new newReg prevBand curBand =
     (if numRects newReg \<noteq> curBand then miCoalesce newReg prevBand curBand else (newReg, prevBand))"

subsection \<open>The band loop\<close>

definition call_band :: "bool \<Rightarrow> band_fun option \<Rightarrow> band_fun" where
  "call_band c fn newReg rs bandTop bandBot =
     (case fn of Some g \<Rightarrow> if c then g newReg rs bandTop bandBot else Some newReg | None \<Rightarrow> Some newReg)"

text \<open>The band that does not intersect, if any; also yields \<open>ytop\<close>.\<close>

definition nonoverlap_step ::
  "band_fun option \<Rightarrow> band_fun option \<Rightarrow> region \<Rightarrow> box list \<Rightarrow> box list \<Rightarrow> int \<Rightarrow> (region \<times> int) option" where
  "nonoverlap_step fn1 fn2 newReg band1 band2 ybot =
     (let r1 = hd band1; r2 = hd band2
      in if by1 r1 < by1 r2
         then let bandTop = max (by1 r1) ybot; bandBot = min (by2 r1) (by1 r2)
              in do { newReg \<leftarrow> call_band (bandTop \<noteq> bandBot) fn1 newReg band1 bandTop bandBot; Some (newReg, by1 r2) }
         else if by1 r2 < by1 r1
         then let bandTop = max (by1 r2) ybot; bandBot = min (by2 r2) (by1 r1)
              in do { newReg \<leftarrow> call_band (bandTop \<noteq> bandBot) fn2 newReg band2 bandTop bandBot; Some (newReg, by1 r1) }
         else Some (newReg, by1 r1))"

text \<open>One round of the loop, without the advance of the two cursors.\<close>

definition op_body ::
  "overlap_fun \<Rightarrow> band_fun option \<Rightarrow> band_fun option \<Rightarrow> box list \<Rightarrow> box list \<Rightarrow> int \<Rightarrow> nat \<Rightarrow> region
   \<Rightarrow> (region \<times> nat) option" where
  "op_body overlapFunc fn1 fn2 band1 band2 ybot prevBand newReg =
     do {
       let curBand = numRects newReg;
       (newReg, ytop) \<leftarrow> nonoverlap_step fn1 fn2 newReg band1 band2 ybot;
       let (newReg, prevBand) = coalesce_new newReg prevBand curBand;
       let ybot = min (by2 (hd band1)) (by2 (hd band2));
       let curBand = numRects newReg;
       newReg \<leftarrow> (if ybot > ytop then overlapFunc newReg band1 band2 ytop ybot else Some newReg);
       Some (coalesce_new newReg prevBand curBand)
     }"

text \<open>The boxes of the band at the cursor (\<open>r1\<close> up to \<open>r1BandEnd\<close>) and the cursor behind it.\<close>

definition band_of :: "box list \<Rightarrow> box list" where
  "band_of r = takeWhile (\<lambda>b. by1 b = by1 (hd r)) r"

definition after_band :: "box list \<Rightarrow> box list" where
  "after_band r = dropWhile (\<lambda>b. by1 b = by1 (hd r)) r"

text \<open>The \<open>do ... while ((r1 != r1End) \<and> (r2 != r2End))\<close> loop; both cursors are valid at its start.\<close>

function op_loop ::
  "overlap_fun \<Rightarrow> band_fun option \<Rightarrow> band_fun option \<Rightarrow> box list \<Rightarrow> box list \<Rightarrow> int \<Rightarrow> nat \<Rightarrow> region
   \<Rightarrow> (box list \<times> box list \<times> int \<times> nat \<times> region) option" where
  "op_loop overlapFunc fn1 fn2 r1 r2 ybot prevBand newReg =
     (if r1 = [] \<or> r2 = [] then Some (r1, r2, ybot, prevBand, newReg)
      else case op_body overlapFunc fn1 fn2 (band_of r1) (band_of r2) ybot prevBand newReg of
        None \<Rightarrow> None
      | Some (newReg', prevBand') \<Rightarrow>
          (let ybot' = min (by2 (hd r1)) (by2 (hd r2))
           in op_loop overlapFunc fn1 fn2
                (if by2 (hd r1) = ybot' then after_band r1 else r1)
                (if by2 (hd r2) = ybot' then after_band r2 else r2)
                ybot' prevBand' newReg'))"
  by pat_completeness auto

lemma after_band_shorter: "r \<noteq> [] \<Longrightarrow> length (after_band r) < length r"
  by (cases r) (auto simp: after_band_def length_dropWhile_less)

lemma after_band_le: "length (after_band r) \<le> length r"
  by (simp add: after_band_def length_dropWhile_le)

termination op_loop
proof (relation "measure (\<lambda>(_, _, _, r1, r2, _). length r1 + length r2)", goal_cases)
  case (2 _ _ _ r1 r2)
  then show ?case
    using after_band_shorter [of r1] after_band_shorter [of r2] after_band_le [of r1]
      after_band_le [of r2]
    by (auto simp: min_def)
qed simp

declare op_loop.simps [simp del]

text \<open>The left-over bands of one region.\<close>

function op_rest :: "band_fun \<Rightarrow> region \<Rightarrow> box list \<Rightarrow> int \<Rightarrow> region option" where
  "op_rest g newReg r ybot =
     (if r = [] then Some newReg
      else case g newReg (band_of r) (max (by1 (hd r)) ybot) (by2 (hd r)) of
        None \<Rightarrow> None
      | Some newReg' \<Rightarrow> op_rest g newReg' (after_band r) ybot)"
  by pat_completeness auto

termination op_rest
  by (relation "measure (\<lambda>(_, _, r, _). length r)") (auto simp: after_band_shorter)

declare op_rest.simps [simp del]

definition op_tail ::
  "band_fun option \<Rightarrow> band_fun option \<Rightarrow> box list \<Rightarrow> box list \<Rightarrow> int \<Rightarrow> nat \<Rightarrow> region \<Rightarrow> region option" where
  "op_tail fn1 fn2 r1 r2 ybot prevBand newReg =
     do {
       let curBand = numRects newReg;
       newReg \<leftarrow>
         (if r1 \<noteq> [] then (case fn1 of Some g \<Rightarrow> op_rest g newReg r1 ybot | None \<Rightarrow> Some newReg)
          else if r2 \<noteq> [] then (case fn2 of Some g \<Rightarrow> op_rest g newReg r2 ybot | None \<Rightarrow> Some newReg)
          else Some newReg);
       Some (fst (coalesce_new newReg prevBand curBand))
     }"

text \<open>The final clean-up: give back memory when less than half of it is used.\<close>

definition op_cleanup :: "region \<Rightarrow> region" where
  "op_cleanup newReg =
     (if int (numRects newReg) < rsize newReg div 2
      then if numRects newReg \<noteq> 0 then newReg\<lparr>rsize := int (numRects newReg)\<rparr> else newReg\<lparr>rsize := 1\<rparr>
      else newReg)"

text \<open>
  The capacity is computed after \<open>EMPTY_REGION(newReg)\<close>, so a source that is the destination
  counts with zero boxes. A call with an empty source would read past its array: \<open>None\<close>.
\<close>

definition miRegionOp ::
  "store \<Rightarrow> ptr \<Rightarrow> ptr \<Rightarrow> ptr \<Rightarrow> overlap_fun \<Rightarrow> band_fun option \<Rightarrow> band_fun option \<Rightarrow> store option" where
  "miRegionOp h newReg reg1 reg2 overlapFunc fn1 fn2 =
     (let r1 = rects (h reg1);
          r2 = rects (h reg2);
          h = h(newReg := (h newReg)\<lparr>rects := []\<rparr>);
          sz = max (int (numRects (h reg1))) (int (numRects (h reg2))) * 2
      in if \<not> Xmalloc_ok (sizeof_BOX * sz) then Some (h(newReg := (h newReg)\<lparr>rsize := 0\<rparr>))
         else if r1 = [] \<or> r2 = [] then None
         else
           let ybot = (if by1 (extents (h reg1)) < by1 (extents (h reg2))
                       then by1 (extents (h reg1)) else by1 (extents (h reg2)))
           in do {
             (r1, r2, ybot, prevBand, new) \<leftarrow>
               op_loop overlapFunc fn1 fn2 r1 r2 ybot 0 ((h newReg)\<lparr>rsize := sz\<rparr>);
             new \<leftarrow> op_tail fn1 fn2 r1 r2 ybot prevBand new;
             Some (h(newReg := op_cleanup new))
           })"

subsection \<open>Adding a band to a coalesced list of bands\<close>

definition add_band :: "band list \<Rightarrow> band \<Rightarrow> band list" where
  "add_band bs c =
     (case c of (y1, y2, xs) \<Rightarrow>
        if xs = [] then bs
        else if bs \<noteq> [] \<and> fst (snd (last bs)) = y1 \<and> snd (snd (last bs)) = xs
        then butlast bs @ [(fst (last bs), y2, xs)]
        else bs @ [c])"

definition ends_by :: "band list \<Rightarrow> int \<Rightarrow> bool" where
  "ends_by bs y \<longleftrightarrow> (\<forall>(y1, y2, xs) \<in> set bs. y2 \<le> y)"

lemma ends_by_append [simp]: "ends_by (as @ bs) y \<longleftrightarrow> ends_by as y \<and> ends_by bs y"
  by (simp add: ends_by_def ball_Un)

lemma ends_by_Nil [simp]: "ends_by [] y"
  by (simp add: ends_by_def)

lemma ends_by_Cons [simp]: "ends_by ((y1, y2, xs) # bs) y \<longleftrightarrow> y2 \<le> y \<and> ends_by bs y"
  by (auto simp: ends_by_def)

lemma ends_by_mono: "ends_by bs y \<Longrightarrow> y \<le> z \<Longrightarrow> ends_by bs z"
  by (fastforce simp: ends_by_def)

lemma band_last_cases:
  obtains "bs = []" | as u v us where "bs = as @ [(u, v, us)]"
  by (metis rev_exhaust prod_cases3)

lemma add_band_rows:
  "ends_by bs y1 \<Longrightarrow> xs = [] \<or> y1 < y2 \<Longrightarrow> good_bands bs \<Longrightarrow>
   band_row (add_band bs (y1, y2, xs)) y = band_row bs y \<union> (if y1 \<le> y \<and> y < y2 then xset xs else {})"
  by (cases bs rule: band_last_cases)
    (auto simp: add_band_def good_bands_append good_bands_Cons split: if_splits)

lemma add_band_good:
  "good_bands bs \<Longrightarrow> ends_by bs y1 \<Longrightarrow> xs = [] \<or> y1 < y2 \<Longrightarrow> sep xs \<Longrightarrow> good_bands (add_band bs (y1, y2, xs))"
  by (cases bs rule: band_last_cases) (auto simp: add_band_def good_bands_append good_bands_Cons)

lemma add_band_ends:
  "ends_by bs z \<Longrightarrow> xs = [] \<or> y2 \<le> z \<Longrightarrow> ends_by (add_band bs (y1, y2, xs)) z"
  by (cases bs rule: band_last_cases) (auto simp: add_band_def intro: ends_by_mono)

lemma ends_by_rows: "ends_by bs z \<Longrightarrow> z \<le> y \<Longrightarrow> band_row bs y = {}"
  by (fastforce simp: ends_by_def band_row_def)

lemma ends_by_boxes: "good_bands bs \<Longrightarrow> ends_by bs z \<Longrightarrow> b \<in> set (flat bs) \<Longrightarrow> by1 b < z"
  by (fastforce simp: ends_by_def set_flat good_bands_def good_band_def)

lemma add_band_link:
  "xs \<noteq> [] \<Longrightarrow> link (last (add_band bs (y1, y2, xs))) d = link (y1, y2, xs) d"
  by (cases bs rule: band_last_cases) (auto simp: add_band_def link_def split: prod.splits)

lemma add_band_nonempty: "xs \<noteq> [] \<Longrightarrow> add_band bs (y1, y2, xs) \<noteq> []"
  by (auto simp: add_band_def)

subsection \<open>\<open>miCoalesce\<close> implements it\<close>

lemma bands_match_iff:
  "length us = length xs \<Longrightarrow> bands_match (map (box_at u v) us) (map (box_at y1 y2) xs) \<longleftrightarrow> us = xs"
  by (induction us xs rule: list_induct2) (auto simp: prod_eq_iff)

lemma map2_box_at:
  "length us = length xs \<Longrightarrow>
   map2 (\<lambda>p c. p\<lparr>by2 := by2 c\<rparr>) (map (box_at u v) us) (map (box_at y1 y2) xs) = map (box_at u y2) us"
  by (induction us xs rule: list_induct2) (auto simp: box_at_def)

lemma miCoalesce_correct:
  assumes rs: "rects reg = flat bs @ flat ((y1, y2, xs) # cs)"
    and bs: "good_bands bs" "ends_by bs y1" and cs: "good_bands ((y1, y2, xs) # cs)"
    and res: "miCoalesce reg (length (flat (butlast bs))) (length (flat bs)) = (reg', start)"
  shows "reg' = reg\<lparr>rects := flat (add_band bs (y1, y2, xs) @ cs)\<rparr>"
    and "cs = [] \<Longrightarrow> start = length (flat (butlast (add_band bs (y1, y2, xs))))"
proof -
  have xs: "xs \<noteq> []" and gc: "good_bands cs" using cs by (auto simp: good_bands_Cons)
  have hd: "by1 (rects reg ! length (flat bs)) = y1"
    using xs by (cases xs) (simp_all add: rs nth_append)
  have cur: "takeWhile (\<lambda>b. by1 b = y1) (drop (length (flat bs)) (rects reg)) = map (box_at y1 y2) xs"
    using flat_first_band(1) [OF cs] by (simp add: rs)
  have more: "drop (length (flat bs) + length xs) (rects reg) = flat cs" by (simp add: rs)
  have same: "reg\<lparr>rects := flat bs @ map (box_at y1 y2) xs @ flat cs\<rparr> = reg"
    using rs by (cases reg) simp
  have "reg' = reg\<lparr>rects := flat (add_band bs (y1, y2, xs) @ cs)\<rparr> \<and>
        (cs = [] \<longrightarrow> start = length (flat (butlast (add_band bs (y1, y2, xs)))))"
  proof (cases bs rule: band_last_cases)
    case 1
    with res xs hd cur more same show ?thesis
      by (auto simp: miCoalesce_def Let_def add_band_def split: if_splits)
  next
    case (2 as u v us)
    have us: "us \<noteq> []" using bs(1) by (simp add: 2 good_bands_append good_bands_Cons)
    have prev: "by2 (rects reg ! length (flat as)) = v"
      using us by (cases us) (simp_all add: rs 2 nth_append)
    have boxes: "take (length us) (drop (length (flat as)) (rects reg)) = map (box_at u v) us"
      and pre: "take (length (flat as)) (rects reg) = flat as"
      by (simp_all add: rs 2)
    have eq: "add_band bs (y1, y2, xs) =
       (if v = y1 \<and> us = xs then as @ [(u, y2, xs)] else bs @ [(y1, y2, xs)])"
      using xs by (auto simp: add_band_def 2)
    have butlast: "flat (butlast bs) = flat as" and len: "length (flat bs) - length (flat as) = length us"
      by (simp_all add: 2)
    define S where "S = last_band_start (rects reg) (length (rects reg) - 1)"
    have "miCoalesce reg (length (flat as)) (length (flat bs)) =
       (if v = y1 \<and> us = xs
        then (reg\<lparr>rects := flat as @ map (box_at u y2) us @ flat cs\<rparr>, if cs = [] then length (flat as) else S)
        else (reg, if cs = [] then length (flat bs) else S))"
      unfolding miCoalesce_def Let_def hd cur length_map more prev boxes pre len flat_eq_Nil [OF gc]
      using us xs by (auto simp: S_def bands_match_iff map2_box_at)
    then show ?thesis
      using res same unfolding eq butlast by (auto simp: 2 butlast_append)
  qed
  then show "reg' = reg\<lparr>rects := flat (add_band bs (y1, y2, xs) @ cs)\<rparr>"
    and "cs = [] \<Longrightarrow> start = length (flat (butlast (add_band bs (y1, y2, xs))))"
    by auto
qed

end
