(* ===== verification/Xregion_OpCorrect.thy ===== *)
theory Xregion_OpCorrect
  imports Xregion_Op
begin

text \<open>
  Correctness of \<open>miRegionOp\<close> for callbacks that keep their contract: the locale states what
  \<open>overlapFunc\<close>, \<open>nonOverlap1Func\<close> and \<open>nonOverlap2Func\<close> owe, and the band loop, the treatment
  of the left-over bands and the operator itself are proved once inside it.
\<close>

subsection \<open>The contract of the band callbacks\<close>

definition copies_band :: "band_fun \<Rightarrow> bool" where
  "copies_band g \<longleftrightarrow>
     (\<forall>r u v xs y1 y2. size_ok r \<longrightarrow>
        (\<exists>r'. g r (map (box_at u v) xs) y1 y2 = Some r' \<and> appended r (map (box_at y1 y2) xs) r'))"

definition combines_bands :: "(bool \<Rightarrow> bool \<Rightarrow> bool) \<Rightarrow> overlap_fun \<Rightarrow> bool" where
  "combines_bands f ovl \<longleftrightarrow>
     (\<forall>r u v xs z w ys y1 y2.
        size_ok r \<and> sep xs \<and> sep ys \<and> xs \<noteq> [] \<and> ys \<noteq> [] \<and> y1 < y2 \<and> (\<forall>b \<in> set (rects r). by1 b < y1) \<longrightarrow>
        (\<exists>r' out. ovl r (map (box_at u v) xs) (map (box_at z w) ys) y1 y2 = Some r' \<and>
           appended r (map (box_at y1 y2) out) r' \<and> sep out \<and>
           xset out = {x. f (x \<in> xset xs) (x \<in> xset ys)}))"

definition band_fun_ok :: "bool \<Rightarrow> band_fun option \<Rightarrow> bool" where
  "band_fun_ok keep fn \<longleftrightarrow> (case fn of None \<Rightarrow> \<not> keep | Some g \<Rightarrow> keep \<and> copies_band g)"

definition row_spec :: "(bool \<Rightarrow> bool \<Rightarrow> bool) \<Rightarrow> band list \<Rightarrow> band list \<Rightarrow> int \<Rightarrow> int set" where
  "row_spec f B1 B2 y = {x. f (x \<in> band_row B1 y) (x \<in> band_row B2 y)}"

text \<open>The invariant of the band loop, over the bands still to come and the bands produced.\<close>

definition op_inv ::
  "(bool \<Rightarrow> bool \<Rightarrow> bool) \<Rightarrow> band list \<Rightarrow> band list \<Rightarrow> band list \<Rightarrow> band list \<Rightarrow> int \<Rightarrow> band list \<Rightarrow> bool" where
  "op_inv f B1 B2 b1 b2 ybot bs \<longleftrightarrow>
     good_bands b1 \<and> good_bands b2 \<and> good_bands bs \<and> ends_by bs ybot \<and>
     (\<forall>y < ybot. band_row bs y = row_spec f B1 B2 y) \<and>
     (\<forall>y \<ge> ybot. band_row b1 y = band_row B1 y \<and> band_row b2 y = band_row B2 y) \<and>
     (b1 \<noteq> [] \<longrightarrow> ybot < fst (snd (hd b1))) \<and> (b2 \<noteq> [] \<longrightarrow> ybot < fst (snd (hd b2))) \<and>
     (b1 \<noteq> [] \<and> b2 \<noteq> [] \<longrightarrow> ybot \<le> fst (hd b1) \<or> ybot \<le> fst (hd b2))"

text \<open>How the loop's variables represent it.\<close>

definition op_rep :: "region \<Rightarrow> nat \<Rightarrow> band list \<Rightarrow> bool" where
  "op_rep nr prev bs \<longleftrightarrow> rects nr = flat bs \<and> prev = length (flat (butlast bs)) \<and> size_ok nr"

lemma length_flat_add_band: "length (flat (add_band bs (t, b, xs))) \<le> length (flat bs) + length xs"
  by (cases bs rule: band_last_cases) (auto simp: add_band_def)

lemma coalesce_new_correct:
  assumes rep: "op_rep nr prev bs" and app: "appended nr (map (box_at t b) xs) nr'"
    and good: "good_bands bs" "ends_by bs t" "xs = [] \<or> t < b" "sep xs"
  shows "\<exists>nr'' prev'. coalesce_new nr' prev (numRects nr) = (nr'', prev') \<and>
           op_rep nr'' prev' (add_band bs (t, b, xs)) \<and> extents nr'' = extents nr"
proof (cases "xs = []")
  case True
  with rep app show ?thesis
    by (auto simp: coalesce_new_def op_rep_def appended_def add_band_def)
next
  case False
  obtain nr'' prev' where res: "miCoalesce nr' prev (numRects nr) = (nr'', prev')" by fastforce
  have single: "good_bands [(t, b, xs)]" using good False by (simp add: good_bands_Cons)
  have rects: "rects nr' = flat bs @ flat [(t, b, xs)]" using rep app by (simp add: op_rep_def appended_def)
  have co: "miCoalesce nr' (length (flat (butlast bs))) (length (flat bs)) = (nr'', prev')"
    using res rep by (simp add: op_rep_def)
  have new: "nr'' = nr'\<lparr>rects := flat (add_band bs (t, b, xs))\<rparr>"
      "prev' = length (flat (butlast (add_band bs (t, b, xs))))"
    using miCoalesce_correct [OF rects good(1,2) single co] by simp_all
  have "op_rep nr'' prev' (add_band bs (t, b, xs))"
    using app rep length_flat_add_band [of bs t b xs]
    by (auto simp: new op_rep_def appended_def size_ok_def)
  with res False app rep show ?thesis
    by (auto simp: coalesce_new_def op_rep_def appended_def new)
qed

lemma copies_bandD:
  "copies_band g \<Longrightarrow> size_ok r \<Longrightarrow>
   \<exists>r'. g r (map (box_at u v) xs) y1 y2 = Some r' \<and> appended r (map (box_at y1 y2) xs) r'"
  by (auto simp: copies_band_def)

lemma call_band_correct:
  assumes "band_fun_ok keep fn" and "size_ok r" and "t \<le> b"
  shows "\<exists>r'. call_band (t \<noteq> b) fn r (map (box_at u v) xs) t b = Some r' \<and>
           appended r (map (box_at t b) (if keep \<and> t < b then xs else [])) r'"
  using assms copies_bandD [of "the fn" r u v xs t b]
  by (auto simp: call_band_def band_fun_ok_def appended_refl split: option.splits)

lemma flat_band_of:
  "good_bands ((u1, u2, us) # bs) \<Longrightarrow> band_of (flat ((u1, u2, us) # bs)) = map (box_at u1 u2) us"
  "good_bands ((u1, u2, us) # bs) \<Longrightarrow> after_band (flat ((u1, u2, us) # bs)) = flat bs"
  using flat_first_band [of u1 u2 us bs]
  by (cases us; auto simp: band_of_def after_band_def good_bands_Cons)+

lemma hd_flat:
  assumes "good_bands ((u1, u2, us) # bs)"
  shows "by1 (hd (flat ((u1, u2, us) # bs))) = u1" and "by2 (hd (flat ((u1, u2, us) # bs))) = u2"
    and "flat ((u1, u2, us) # bs) \<noteq> []"
    and "hd (map (box_at u1 u2) us) = hd (flat ((u1, u2, us) # bs))"
  using assms by (cases us; simp add: good_bands_Cons)+

lemma row_spec_current:
  assumes inv: "op_inv f B1 B2 ((u1, u2, us) # b1) ((v1, v2, vs) # b2) ybot bs"
    and y: "ybot \<le> y" "y < min u2 v2"
  shows "row_spec f B1 B2 y = {x. f (u1 \<le> y \<and> x \<in> xset us) (v1 \<le> y \<and> x \<in> xset vs)}"
proof -
  have g: "good_bands ((u1, u2, us) # b1)" "good_bands ((v1, v2, vs) # b2)"
    and "band_row B1 y = band_row ((u1, u2, us) # b1) y" "band_row B2 y = band_row ((v1, v2, vs) # b2) y"
    using inv y(1) unfolding op_inv_def by metis+
  then show ?thesis using y(2) band_row_below [OF g(1), of y] band_row_below [OF g(2), of y]
    by (auto simp: row_spec_def)
qed

lemma op_inv_advance:
  assumes inv: "op_inv f B1 B2 ((u1, u2, us) # b1) ((v1, v2, vs) # b2) ybot bs"
    and bs': "good_bands bs'" "ends_by bs' (min u2 v2)" "\<forall>y < min u2 v2. band_row bs' y = row_spec f B1 B2 y"
  shows "op_inv f B1 B2
     (if u2 = min u2 v2 then b1 else (u1, u2, us) # b1)
     (if v2 = min u2 v2 then b2 else (v1, v2, vs) # b2) (min u2 v2) bs'"
proof -
  have g: "good_bands ((u1, u2, us) # b1)" "good_bands ((v1, v2, vs) # b2)" and y: "ybot < min u2 v2"
    and rows: "\<forall>y \<ge> ybot. band_row ((u1, u2, us) # b1) y = band_row B1 y \<and>
      band_row ((v1, v2, vs) # b2) y = band_row B2 y"
    using inv by (auto simp: op_inv_def)
  have next1: "b1 \<noteq> [] \<Longrightarrow> u2 \<le> fst (hd b1) \<and> u2 < fst (snd (hd b1))"
    and next2: "b2 \<noteq> [] \<Longrightarrow> v2 \<le> fst (hd b2) \<and> v2 < fst (snd (hd b2))"
    using g by (cases b1; cases b2; auto simp: good_bands_Cons good_band_def)+
  have "\<forall>y \<ge> min u2 v2. band_row (if u2 = min u2 v2 then b1 else (u1, u2, us) # b1) y = band_row B1 y \<and>
      band_row (if v2 = min u2 v2 then b2 else (v1, v2, vs) # b2) y = band_row B2 y"
  proof (intro allI impI)
    fix y assume "min u2 v2 \<le> y"
    then show "band_row (if u2 = min u2 v2 then b1 else (u1, u2, us) # b1) y = band_row B1 y \<and>
      band_row (if v2 = min u2 v2 then b2 else (v1, v2, vs) # b2) y = band_row B2 y"
      using rows [rule_format, of y] y by auto
  qed
  moreover have "good_bands b1" "good_bands b2" using g by (simp_all add: good_bands_Cons)
  ultimately show ?thesis
    unfolding op_inv_def using bs' g next1 next2 by (auto simp: min_def)
qed

text \<open>The first left-over band is clipped at the rows already done.\<close>

fun clip_first :: "int \<Rightarrow> band list \<Rightarrow> band list" where
  "clip_first ybot [] = []"
| "clip_first ybot ((u1, u2, us) # b) = (max u1 ybot, u2, us) # b"

lemma clip_first_later: "b = [] \<or> ybot \<le> fst (hd b) \<Longrightarrow> clip_first ybot b = b"
  by (cases "(ybot, b)" rule: clip_first.cases) auto

lemma clip_first_good:
  "good_bands b \<Longrightarrow> b \<noteq> [] \<longrightarrow> ybot < fst (snd (hd b)) \<Longrightarrow> good_bands (clip_first ybot b)"
  by (cases "(ybot, b)" rule: clip_first.cases) (auto simp: good_bands_Cons)

lemma clip_first_rows:
  "good_bands b \<Longrightarrow> band_row (clip_first ybot b) y = (if ybot \<le> y then band_row b y else {}) \<or>
     (b \<noteq> [] \<and> fst (snd (hd b)) \<le> ybot)"
proof (cases "(ybot, b)" rule: clip_first.cases)
  case (2 y0 u1 u2 us b')
  assume "good_bands b"
  then show ?thesis
    using 2 band_row_below [of u1 u2 us b' y] by auto
qed auto

lemma op_rest_correct:
  assumes g: "copies_band g"
  shows "good_bands b \<Longrightarrow> size_ok nr \<Longrightarrow> b \<noteq> [] \<longrightarrow> ybot < fst (snd (hd b)) \<Longrightarrow>
    \<exists>nr'. op_rest g nr (flat b) ybot = Some nr' \<and> appended nr (flat (clip_first ybot b)) nr'"
proof (induction b arbitrary: nr)
  case Nil
  then show ?case by (simp add: op_rest.simps appended_refl)
next
  case (Cons c b)
  obtain u1 u2 us where c: "c = (u1, u2, us)" by (cases c)
  have gc: "good_bands ((u1, u2, us) # b)" and gb: "good_bands b"
    and below: "b = [] \<or> ybot \<le> fst (hd b)" and rest: "b \<noteq> [] \<longrightarrow> ybot < fst (snd (hd b))"
    using Cons.prems by (cases b; auto simp: c good_bands_Cons good_band_def)+
  obtain nr1 where call: "g nr (map (box_at u1 u2) us) (max u1 ybot) u2 = Some nr1"
    and app: "appended nr (map (box_at (max u1 ybot) u2) us) nr1"
    using copies_bandD [OF g Cons.prems(2)] by blast
  obtain nr2 where "op_rest g nr1 (flat b) ybot = Some nr2" "appended nr1 (flat (clip_first ybot b)) nr2"
    using Cons.IH [OF gb appended_size_ok [OF app] rest] by blast
  moreover have "op_rest g nr (flat (c # b)) ybot = op_rest g nr1 (flat b) ybot"
    using call unfolding c
    by (subst op_rest.simps) (simp only: hd_flat [OF gc] flat_band_of [OF gc] if_False option.case)
  ultimately show ?case
    using appended_trans [OF app] by (auto simp: c clip_first_later [OF below])
qed

lemma coalesce_rest_correct:
  assumes rep: "op_rep nr prev bs" and bs: "good_bands bs" "ends_by bs y1"
    and cs: "good_bands ((y1, y2, xs) # cs)" and app: "appended nr (flat ((y1, y2, xs) # cs)) nr'"
  shows "rects (fst (coalesce_new nr' prev (numRects nr))) = flat (add_band bs (y1, y2, xs) @ cs) \<and>
     size_ok (fst (coalesce_new nr' prev (numRects nr))) \<and>
     extents (fst (coalesce_new nr' prev (numRects nr))) = extents nr"
proof -
  obtain nr'' start where co:
      "miCoalesce nr' (length (flat (butlast bs))) (length (flat bs)) = (nr'', start)" by fastforce
  have rects: "rects nr' = flat bs @ flat ((y1, y2, xs) # cs)"
    using rep app by (simp add: op_rep_def appended_def)
  have "nr'' = nr'\<lparr>rects := flat (add_band bs (y1, y2, xs) @ cs)\<rparr>"
    by (rule miCoalesce_correct(1) [OF rects bs cs co])
  moreover have "coalesce_new nr' prev (numRects nr) = (nr'', start)"
    using co rep rects hd_flat(3) [OF cs] by (simp add: coalesce_new_def op_rep_def)
  ultimately show ?thesis
    using app rep length_flat_add_band [of bs y1 y2 xs] by (auto simp: size_ok_def appended_def op_rep_def)
qed

lemma add_rest_good:
  assumes bs: "good_bands bs" "ends_by bs y1" and cs: "good_bands ((y1, y2, xs) # cs)"
  shows "good_bands (add_band bs (y1, y2, xs) @ cs)"
    and "band_row (add_band bs (y1, y2, xs) @ cs) y = band_row bs y \<union> band_row ((y1, y2, xs) # cs) y"
proof -
  have xs: "xs \<noteq> []" "sep xs" "y1 < y2" and "good_bands cs" and "cs = [] \<or> link (y1, y2, xs) (hd cs)"
    using cs by (auto simp: good_bands_Cons)
  then show "good_bands (add_band bs (y1, y2, xs) @ cs)"
    using add_band_good [OF bs] add_band_link [OF xs(1), of bs y1 y2 "hd cs"]
    by (auto simp: good_bands_append)
  show "band_row (add_band bs (y1, y2, xs) @ cs) y = band_row bs y \<union> band_row ((y1, y2, xs) # cs) y"
    using add_band_rows [OF bs(2) _ bs(1), of xs y2 y] xs by auto
qed

lemma op_cleanup_simps [simp]:
  "rects (op_cleanup r) = rects r" "extents (op_cleanup r) = extents r"
  by (simp_all add: op_cleanup_def)

lemma op_cleanup_size: "size_ok r \<Longrightarrow> size_ok (op_cleanup r)"
  by (auto simp: op_cleanup_def size_ok_def Suc_leI)

lemma extents_first:
  "wf_region r \<Longrightarrow> rects r \<noteq> [] \<Longrightarrow> by1 (extents r) = by1 (hd (rects r))"
  by (simp add: wf_region_def extents_of_def)

locale band_callbacks =
  fixes f :: "bool \<Rightarrow> bool \<Rightarrow> bool"
    and ovl :: overlap_fun
    and fn1 :: "band_fun option"
    and fn2 :: "band_fun option"
  assumes f_none: "\<not> f False False"
    and ovl_ok: "combines_bands f ovl"
    and fn1_ok: "band_fun_ok (f True False) fn1"
    and fn2_ok: "band_fun_ok (f False True) fn2"
begin

lemma f_only:
  "{x. f (x \<in> A) False} = (if f True False then A else {})"
  "{x. f False (x \<in> A)} = (if f False True then A else {})"
  using f_none by (auto; metis (full_types))+

lemma nonoverlap_step_correct:
  assumes inv: "op_inv f B1 B2 ((u1, u2, us) # b1) ((v1, v2, vs) # b2) ybot bs" and nr: "size_ok nr"
  shows "\<exists>nr' t b xs.
    nonoverlap_step fn1 fn2 nr (map (box_at u1 u2) us) (map (box_at v1 v2) vs) ybot = Some (nr', max u1 v1) \<and>
    appended nr (map (box_at t b) xs) nr' \<and> sep xs \<and> ybot \<le> t \<and> (xs = [] \<or> t < b) \<and>
    (xs \<noteq> [] \<longrightarrow> b \<le> max u1 v1 \<and> b \<le> min u2 v2) \<and>
    (\<forall>y. ybot \<le> y \<and> y < min (max u1 v1) (min u2 v2) \<longrightarrow>
       (if t \<le> y \<and> y < b then xset xs else {}) = row_spec f B1 B2 y)"
proof -
  have us: "us \<noteq> []" "sep us" "u1 < u2" and vs: "vs \<noteq> []" "sep vs" "v1 < v2"
    and y: "ybot < u2" "ybot < v2" "ybot \<le> u1 \<or> ybot \<le> v1"
    using inv by (auto simp: op_inv_def good_bands_Cons)
  then have hd: "by1 (hd (map (box_at u1 u2) us)) = u1" "by2 (hd (map (box_at u1 u2) us)) = u2"
      "by1 (hd (map (box_at v1 v2) vs)) = v1" "by2 (hd (map (box_at v1 v2) vs)) = v2"
    by (cases us; cases vs; simp)+
  note spec = row_spec_current [OF inv]
  consider "u1 < v1" | "v1 < u1" | "u1 = v1" by linarith
  then show ?thesis
  proof cases
    case 1
    define t b where tb: "t = max u1 ybot" "b = min u2 v1"
    define zs where "zs = (if f True False \<and> t < b then us else [])"
    obtain nr' where call: "call_band (t \<noteq> b) fn1 nr (map (box_at u1 u2) us) t b = Some nr'"
      and app: "appended nr (map (box_at t b) zs) nr'"
      using call_band_correct [OF fn1_ok nr, of t b u1 u2 us] 1 y us by (auto simp: tb zs_def)
    have "nonoverlap_step fn1 fn2 nr (map (box_at u1 u2) us) (map (box_at v1 v2) vs) ybot = Some (nr', max u1 v1)"
      using call 1 hd by (simp add: nonoverlap_step_def tb)
    moreover have "sep zs \<and> ybot \<le> t \<and> (zs = [] \<or> t < b) \<and> (zs \<noteq> [] \<longrightarrow> b \<le> max u1 v1 \<and> b \<le> min u2 v2)"
      using us vs 1 by (auto simp: zs_def tb)
    moreover have "(if t \<le> y \<and> y < b then xset zs else {}) = row_spec f B1 B2 y"
      if "ybot \<le> y" "y < min (max u1 v1) (min u2 v2)" for y
      using that 1 spec [of y] f_none by (auto simp: tb zs_def f_only)
    ultimately show ?thesis using app by blast
  next
    case 2
    define t b where tb: "t = max v1 ybot" "b = min v2 u1"
    define zs where "zs = (if f False True \<and> t < b then vs else [])"
    obtain nr' where call: "call_band (t \<noteq> b) fn2 nr (map (box_at v1 v2) vs) t b = Some nr'"
      and app: "appended nr (map (box_at t b) zs) nr'"
      using call_band_correct [OF fn2_ok nr, of t b v1 v2 vs] 2 y vs by (auto simp: tb zs_def)
    have "nonoverlap_step fn1 fn2 nr (map (box_at u1 u2) us) (map (box_at v1 v2) vs) ybot = Some (nr', max u1 v1)"
      using call 2 hd by (simp add: nonoverlap_step_def tb)
    moreover have "sep zs \<and> ybot \<le> t \<and> (zs = [] \<or> t < b) \<and> (zs \<noteq> [] \<longrightarrow> b \<le> max u1 v1 \<and> b \<le> min u2 v2)"
      using us vs 2 by (auto simp: zs_def tb)
    moreover have "(if t \<le> y \<and> y < b then xset zs else {}) = row_spec f B1 B2 y"
      if "ybot \<le> y" "y < min (max u1 v1) (min u2 v2)" for y
      using that 2 spec [of y] f_none by (auto simp: tb zs_def f_only)
    ultimately show ?thesis using app by blast
  next
    case 3
    have "row_spec f B1 B2 y = {}" if "ybot \<le> y" "y < u1" "y < min u2 v2" for y
      using that 3 spec [of y] f_none by auto
    with 3 nr hd show ?thesis
      by (intro exI [of _ nr] exI [of _ ybot] exI [of _ ybot] exI [of _ "[]"])
        (auto simp: nonoverlap_step_def appended_refl)
  qed
qed

lemma op_body_correct:
  assumes inv: "op_inv f B1 B2 ((u1, u2, us) # b1) ((v1, v2, vs) # b2) ybot bs"
    and rep: "op_rep nr prev bs"
  shows "\<exists>nr' prev' bs'.
    op_body ovl fn1 fn2 (map (box_at u1 u2) us) (map (box_at v1 v2) vs) ybot prev nr = Some (nr', prev') \<and>
    op_rep nr' prev' bs' \<and> extents nr' = extents nr \<and> good_bands bs' \<and> ends_by bs' (min u2 v2) \<and>
    (\<forall>y < min u2 v2. band_row bs' y = row_spec f B1 B2 y)"
proof -
  let ?top = "max u1 v1" and ?bot = "min u2 v2"
  have bs: "good_bands bs" "ends_by bs ybot" and prior: "\<forall>y < ybot. band_row bs y = row_spec f B1 B2 y"
    and y: "ybot < ?bot" "ybot \<le> ?top"
    and us: "us \<noteq> []" "sep us" and vs: "vs \<noteq> []" "sep vs"
    using inv by (auto simp: op_inv_def good_bands_Cons)
  have hd: "min (by2 (hd (map (box_at u1 u2) us))) (by2 (hd (map (box_at v1 v2) vs))) = ?bot"
    using us vs by (cases us; cases vs; simp)
  obtain nr1 t b xs where step:
      "nonoverlap_step fn1 fn2 nr (map (box_at u1 u2) us) (map (box_at v1 v2) vs) ybot = Some (nr1, ?top)"
    and app1: "appended nr (map (box_at t b) xs) nr1" and xs: "sep xs" "xs = [] \<or> t < b" and t: "ybot \<le> t"
    and b: "xs \<noteq> [] \<longrightarrow> b \<le> ?top \<and> b \<le> ?bot"
    and new: "\<forall>y. ybot \<le> y \<and> y < min ?top ?bot \<longrightarrow>
        (if t \<le> y \<and> y < b then xset xs else {}) = row_spec f B1 B2 y"
    using nonoverlap_step_correct [OF inv, of nr] rep by (auto simp: op_rep_def)
  let ?bs1 = "add_band bs (t, b, xs)"
  have ends: "ends_by bs t" "ends_by bs ?top" "ends_by bs ?bot" using bs(2) t y by (auto intro: ends_by_mono)
  obtain nr2 prev2 where co1: "coalesce_new nr1 prev (numRects nr) = (nr2, prev2)"
    and rep2: "op_rep nr2 prev2 ?bs1" and ext2: "extents nr2 = extents nr"
    using coalesce_new_correct [OF rep app1 bs(1) ends(1) xs(2,1)] by blast
  have bs1: "good_bands ?bs1" "ends_by ?bs1 ?top" "ends_by ?bs1 ?bot"
    using bs ends xs b by (auto intro: add_band_good add_band_ends)
  have rows1: "band_row ?bs1 y = row_spec f B1 B2 y" if "y < min ?top ?bot" for y
    using add_band_rows [OF ends(1) xs(2) bs(1), of y] that t new prior ends_by_rows [OF bs(2), of y]
    by (cases "y < ybot") auto
  have body: "op_body ovl fn1 fn2 (map (box_at u1 u2) us) (map (box_at v1 v2) vs) ybot prev nr =
     Option.bind (if ?bot > ?top then ovl nr2 (map (box_at u1 u2) us) (map (box_at v1 v2) vs) ?top ?bot else Some nr2)
       (\<lambda>nr3. Some (coalesce_new nr3 prev2 (numRects nr2)))"
    by (simp only: op_body_def step Let_def bind.simps prod.case co1 hd)
  show ?thesis
  proof (cases "?bot > ?top")
    case True
    have "\<forall>c \<in> set (rects nr2). by1 c < ?top"
      using rep2 ends_by_boxes [OF bs1(1,2)] by (simp add: op_rep_def)
    then obtain nr3 out where ov: "ovl nr2 (map (box_at u1 u2) us) (map (box_at v1 v2) vs) ?top ?bot = Some nr3"
      and app3: "appended nr2 (map (box_at ?top ?bot) out) nr3" and out: "sep out"
        "xset out = {x. f (x \<in> xset us) (x \<in> xset vs)}"
      using ovl_ok [unfolded combines_bands_def, rule_format, of nr2 us vs ?top ?bot u1 u2 v1 v2]
        us vs rep2 True by (auto simp: op_rep_def)
    have lt: "out = [] \<or> ?top < ?bot" using True by simp
    let ?bs2 = "add_band ?bs1 (?top, ?bot, out)"
    obtain nr4 prev4 where co3: "coalesce_new nr3 prev2 (numRects nr2) = (nr4, prev4)"
      and rep4: "op_rep nr4 prev4 ?bs2" and ext4: "extents nr4 = extents nr2"
      using coalesce_new_correct [OF rep2 app3 bs1(1,2) lt out(1)] by blast
    have "band_row ?bs2 y = row_spec f B1 B2 y" if "y < ?bot" for y
      using add_band_rows [OF bs1(2) lt bs1(1), of y] that rows1 [of y] out(2) y
        ends_by_rows [OF bs1(2), of y] row_spec_current [OF inv, of y]
      by (cases "y < ?top") auto
    moreover have "good_bands ?bs2" "ends_by ?bs2 ?bot"
      using bs1 lt out by (auto intro: add_band_good add_band_ends)
    moreover have "op_body ovl fn1 fn2 (map (box_at u1 u2) us) (map (box_at v1 v2) vs) ybot prev nr = Some (nr4, prev4)"
      by (simp only: body True if_True ov co3 bind.simps)
    ultimately show ?thesis using rep4 ext4 ext2 by (metis (no_types, lifting))
  next
    case False
    then have "op_body ovl fn1 fn2 (map (box_at u1 u2) us) (map (box_at v1 v2) vs) ybot prev nr = Some (nr2, prev2)"
      by (simp only: body if_False bind.simps coalesce_new_def) simp
    moreover have "\<forall>y < ?bot. band_row ?bs1 y = row_spec f B1 B2 y" using rows1 False by simp
    ultimately show ?thesis using bs1 rep2 ext2 by (metis (no_types, lifting))
  qed
qed

lemma op_loop_correct:
  "op_inv f B1 B2 b1 b2 ybot bs \<Longrightarrow> op_rep nr prev bs \<Longrightarrow>
   \<exists>b1' b2' ybot' prev' nr' bs'.
     op_loop ovl fn1 fn2 (flat b1) (flat b2) ybot prev nr = Some (flat b1', flat b2', ybot', prev', nr') \<and>
     op_inv f B1 B2 b1' b2' ybot' bs' \<and> op_rep nr' prev' bs' \<and> extents nr' = extents nr \<and> (b1' = [] \<or> b2' = [])"
proof (induction "length b1 + length b2" arbitrary: b1 b2 ybot bs nr prev rule: less_induct)
  case less
  show ?case
  proof (cases "b1 = [] \<or> b2 = []")
    case True
    then have "flat b1 = [] \<or> flat b2 = []" by auto
    then have "op_loop ovl fn1 fn2 (flat b1) (flat b2) ybot prev nr = Some (flat b1, flat b2, ybot, prev, nr)"
      by (subst op_loop.simps) simp
    with less.prems True show ?thesis by blast
  next
    case False
    then obtain u1 u2 us c1 v1 v2 vs c2 where b: "b1 = (u1, u2, us) # c1" "b2 = (v1, v2, vs) # c2"
      by (metis neq_Nil_conv prod_cases3)
    have g: "good_bands ((u1, u2, us) # c1)" "good_bands ((v1, v2, vs) # c2)"
      using less.prems(1) by (auto simp: op_inv_def b)
    let ?d1 = "if u2 = min u2 v2 then c1 else (u1, u2, us) # c1"
    let ?d2 = "if v2 = min u2 v2 then c2 else (v1, v2, vs) # c2"
    obtain nr1 prev1 bs1 where body:
        "op_body ovl fn1 fn2 (map (box_at u1 u2) us) (map (box_at v1 v2) vs) ybot prev nr = Some (nr1, prev1)"
      and rep1: "op_rep nr1 prev1 bs1" and ext1: "extents nr1 = extents nr"
      and bs1: "good_bands bs1" "ends_by bs1 (min u2 v2)" "\<forall>y < min u2 v2. band_row bs1 y = row_spec f B1 B2 y"
      using op_body_correct [OF less.prems(1) [unfolded b] less.prems(2)] by blast
    have inv1: "op_inv f B1 B2 ?d1 ?d2 (min u2 v2) bs1"
      by (rule op_inv_advance [OF less.prems(1) [unfolded b] bs1])
    have shorter: "length ?d1 + length ?d2 < length b1 + length b2" by (auto simp: b)
    have "op_loop ovl fn1 fn2 (flat b1) (flat b2) ybot prev nr =
          op_loop ovl fn1 fn2 (flat ?d1) (flat ?d2) (min u2 v2) prev1 nr1"
      unfolding b
      by (subst op_loop.simps)
        (simp only: hd_flat [OF g(1)] hd_flat [OF g(2)] flat_band_of [OF g(1)] flat_band_of [OF g(2)]
          body simp_thms if_False option.case prod.case Let_def if_distrib [of flat])
    then show ?thesis using less.hyps [OF shorter inv1 rep1] ext1 by (metis (no_types, lifting))
  qed
qed

lemma tail_rows:
  assumes inv: "op_inv f B1 B2 b1 b2 ybot bs" and one: "b1 = [] \<or> b2 = []" and y: "ybot \<le> y"
  shows "row_spec f B1 B2 y = (if f True False then band_row b1 y else {}) \<union> (if f False True then band_row b2 y else {})"
proof -
  have "band_row b1 y = band_row B1 y \<and> band_row b2 y = band_row B2 y"
    using inv y by (simp add: op_inv_def)
  then have "row_spec f B1 B2 y = {x. f (x \<in> band_row b1 y) (x \<in> band_row b2 y)}"
    by (simp add: row_spec_def)
  with one show ?thesis
    by (elim disjE) (simp_all only: band_row_simps(1) empty_iff f_only if_cancel Un_empty_left Un_empty_right)
qed

lemma op_tail_correct:
  assumes inv: "op_inv f B1 B2 b1 b2 ybot bs" and rep: "op_rep nr prev bs" and one: "b1 = [] \<or> b2 = []"
  shows "\<exists>nr' bs'. op_tail fn1 fn2 (flat b1) (flat b2) ybot prev nr = Some nr' \<and> rects nr' = flat bs' \<and>
    good_bands bs' \<and> size_ok nr' \<and> extents nr' = extents nr \<and> (\<forall>y. band_row bs' y = row_spec f B1 B2 y)"
proof -
  have g: "good_bands b1" "good_bands b2" and bs: "good_bands bs" "ends_by bs ybot" and nr: "size_ok nr"
    and next1: "b1 \<noteq> [] \<longrightarrow> ybot < fst (snd (hd b1))" and next2: "b2 \<noteq> [] \<longrightarrow> ybot < fst (snd (hd b2))"
    and rows: "\<forall>y < ybot. band_row bs y = row_spec f B1 B2 y"
    using inv rep by (auto simp: op_inv_def op_rep_def)
  define rest where "rest = clip_first ybot
     (if b1 \<noteq> [] then if f True False then b1 else [] else if f False True then b2 else [])"
  have "\<exists>nr1. op_tail fn1 fn2 (flat b1) (flat b2) ybot prev nr = Some (fst (coalesce_new nr1 prev (numRects nr))) \<and>
    appended nr (flat rest) nr1"
    using fn1_ok fn2_ok op_rest_correct [OF _ g(1) nr next1, of "the fn1"]
      op_rest_correct [OF _ g(2) nr next2, of "the fn2"] flat_eq_Nil [OF g(1)] flat_eq_Nil [OF g(2)] nr
    by (auto simp: op_tail_def rest_def band_fun_ok_def appended_refl split: option.splits)
  then obtain nr1 where tail: "op_tail fn1 fn2 (flat b1) (flat b2) ybot prev nr =
        Some (fst (coalesce_new nr1 prev (numRects nr)))" and app: "appended nr (flat rest) nr1" by blast
  have good: "good_bands rest"
    unfolding rest_def using g next1 next2 by (auto intro: clip_first_good)
  have all: "row_spec f B1 B2 y = band_row bs y \<union> band_row rest y" for y
    using rows [rule_format, of y] tail_rows [OF inv one, of y] one next1 next2 ends_by_rows [OF bs(2), of y]
      clip_first_rows [OF g(1), of ybot y] clip_first_rows [OF g(2), of ybot y]
    by (cases "ybot \<le> y") (auto simp: rest_def split: if_splits)
  show ?thesis
  proof (cases rest)
    case Nil
    then have "rects nr1 = rects nr \<and> size_ok nr1 \<and> extents nr1 = extents nr"
      using app by (auto simp: appended_def)
    with tail bs(1) all rep Nil show ?thesis
      by (intro exI [of _ nr1] exI [of _ bs]) (auto simp: coalesce_new_def op_rep_def)
  next
    case (Cons c cs)
    obtain y1 y2 xs where c: "c = (y1, y2, xs)" by (cases c)
    have "ybot \<le> y1" using Cons
      by (cases "(ybot, b1)" rule: clip_first.cases; cases "(ybot, b2)" rule: clip_first.cases)
        (auto simp: rest_def c split: if_splits)
    then have ends: "ends_by bs y1" using bs(2) ends_by_mono by blast
    have goodc: "good_bands ((y1, y2, xs) # cs)" and appc: "appended nr (flat ((y1, y2, xs) # cs)) nr1"
      using good app by (simp_all only: Cons c)
    have "\<forall>y. band_row (add_band bs (y1, y2, xs) @ cs) y = row_spec f B1 B2 y"
      using add_rest_good(2) [OF bs(1) ends goodc] all by (simp only: Cons c) blast
    then show ?thesis
      using tail coalesce_rest_correct [OF rep bs(1) ends goodc appc] add_rest_good(1) [OF bs(1) ends goodc]
      by blast
  qed
qed

lemma op_inv_initial:
  assumes g: "good_bands ((u1, u2, us) # b1)" "good_bands ((v1, v2, vs) # b2)"
  shows "op_inv f ((u1, u2, us) # b1) ((v1, v2, vs) # b2) ((u1, u2, us) # b1) ((v1, v2, vs) # b2) (min u1 v1) []"
proof -
  have "row_spec f ((u1, u2, us) # b1) ((v1, v2, vs) # b2) y = {}" if "y < min u1 v1" for y
    using that band_row_before [OF g(1), of y] band_row_before [OF g(2), of y] f_none
    by (simp only: row_spec_def min_less_iff_conj empty_iff simp_thms Collect_empty_eq)
  then show ?thesis using g by (auto simp: op_inv_def good_bands_Cons)
qed

text \<open>
  The operator: unless both sources are the destination, the bands it leaves in the destination
  are well formed and cover exactly the points the predicate selects.
\<close>

lemma miRegionOp_correct:
  assumes wf: "wf_region (h reg1)" "wf_region (h reg2)"
    and ne: "rects (h reg1) \<noteq> []" "rects (h reg2) \<noteq> []"
    and dest: "\<not> (newReg = reg1 \<and> newReg = reg2)"
  shows "\<exists>new. miRegionOp h newReg reg1 reg2 ovl fn1 fn2 = Some (h(newReg := new)) \<and>
    wf_rects (rects new) \<and> size_ok new \<and> extents new = extents (h newReg) \<and>
    (\<forall>y. row (rects new) y = {x. f (x \<in> row (rects (h reg1)) y) (x \<in> row (rects (h reg2)) y)})"
proof -
  obtain B1 B2 where B: "good_bands B1" "rects (h reg1) = flat B1" "good_bands B2" "rects (h reg2) = flat B2"
    using wf by (auto simp: wf_region_def elim!: wf_rectsE)
  then have "B1 \<noteq> []" "B2 \<noteq> []" using ne by auto
  then obtain u1 u2 us b1 v1 v2 vs b2 where b: "B1 = (u1, u2, us) # b1" "B2 = (v1, v2, vs) # b2"
    by (metis neq_Nil_conv prod_cases3)
  have g: "good_bands ((u1, u2, us) # b1)" "good_bands ((v1, v2, vs) # b2)" using B by (simp_all add: b)
  define h0 where "h0 = h(newReg := (h newReg)\<lparr>rects := []\<rparr>)"
  define sz where "sz = max (int (numRects (h0 reg1))) (int (numRects (h0 reg2))) * 2"
  have ext: "extents (h0 r) = extents (h r)" for r by (simp add: h0_def)
  have sz: "2 \<le> sz"
  proof -
    have "1 \<le> numRects (h0 reg1) \<or> 1 \<le> numRects (h0 reg2)"
      using dest ne by (auto simp: h0_def Suc_le_eq)
    then show ?thesis unfolding sz_def by linarith
  qed
  then have alloc: "Xmalloc_ok (sizeof_BOX * sz)" by (simp add: Xmalloc_ok_def sizeof_BOX_def)
  define start where "start = (h0 newReg)\<lparr>rsize := sz\<rparr>"
  have ybot: "(if by1 (extents (h0 reg1)) < by1 (extents (h0 reg2)) then by1 (extents (h0 reg1))
      else by1 (extents (h0 reg2))) = min u1 v1"
    unfolding ext extents_first [OF wf(1) ne(1)] extents_first [OF wf(2) ne(2)] B(2,4) b
      hd_flat(1) [OF g(1)] hd_flat(1) [OF g(2)] by simp
  have rep: "op_rep start 0 []" using sz by (simp add: op_rep_def start_def h0_def size_ok_def)
  obtain c1 c2 ybot' prev' nr' bs' where loop:
      "op_loop ovl fn1 fn2 (flat B1) (flat B2) (min u1 v1) 0 start = Some (flat c1, flat c2, ybot', prev', nr')"
    and inv: "op_inv f B1 B2 c1 c2 ybot' bs'" and rep': "op_rep nr' prev' bs'"
    and ext': "extents nr' = extents start" and one: "c1 = [] \<or> c2 = []"
    using op_loop_correct [OF op_inv_initial [OF g] rep] unfolding b [symmetric] by blast
  obtain new bs where tail: "op_tail fn1 fn2 (flat c1) (flat c2) ybot' prev' nr' = Some new"
    and new: "rects new = flat bs" "good_bands bs" "size_ok new" "extents new = extents nr'"
      "\<forall>y. band_row bs y = row_spec f B1 B2 y"
    using op_tail_correct [OF inv rep' one] by blast
  have "miRegionOp h newReg reg1 reg2 ovl fn1 fn2 = Some (h0(newReg := op_cleanup new))"
    using ne loop tail
    by (simp only: miRegionOp_def Let_def h0_def [symmetric] sz_def [symmetric] alloc ybot
        start_def [symmetric] B(2,4) simp_thms if_False bind.simps prod.case)
  moreover have "h0(newReg := op_cleanup new) = h(newReg := op_cleanup new)" by (simp add: h0_def)
  moreover have "row (rects (op_cleanup new)) y = {x. f (x \<in> row (rects (h reg1)) y) (x \<in> row (rects (h reg2)) y)}" for y
    using new(5) by (simp add: new(1) B(2,4) row_flat row_spec_def)
  moreover have "extents (op_cleanup new) = extents (h newReg)"
    using new(4) ext' by (simp add: start_def ext)
  ultimately show ?thesis
    using op_cleanup_size [OF new(3)] wf_rects_flat [OF new(2)] new(1) by auto
qed

end

end
