(* ===== verification/Xregion_Callbacks.thy ===== *)
theory Xregion_Callbacks
  imports Xregion_OpCorrect
begin

text \<open>
  The band callbacks of \<open>Region.c\<close> for intersection, union and subtraction, and the proof that
  each keeps the contract \<open>miRegionOp\<close> relies on: three interpretations of the locale of
  \<open>Xregion_OpCorrect\<close>.
\<close>

subsection \<open>The callbacks\<close>

fun miIntersectO :: overlap_fun where
  "miIntersectO pReg (r1 # r1s) (r2 # r2s) y1 y2 =
     do {
       let x1 = max (bx1 r1) (bx1 r2);
       let x2 = min (bx2 r1) (bx2 r2);
       pReg \<leftarrow> (if x1 < x2 then add_box pReg \<lparr>bx1 = x1, bx2 = x2, by1 = y1, by2 = y2\<rparr> else Some pReg);
       (if bx2 r1 < bx2 r2 then miIntersectO pReg r1s (r2 # r2s) y1 y2
        else if bx2 r2 < bx2 r1 then miIntersectO pReg (r1 # r1s) r2s y1 y2
        else miIntersectO pReg r1s r2s y1 y2)
     }"
| "miIntersectO pReg r1 r2 y1 y2 = Some pReg"

fun miUnionNonO :: band_fun where
  "miUnionNonO pReg [] y1 y2 = Some pReg"
| "miUnionNonO pReg (r # rs) y1 y2 =
     do {
       pReg \<leftarrow> add_box pReg \<lparr>bx1 = bx1 r, bx2 = bx2 r, by1 = y1, by2 = y2\<rparr>;
       miUnionNonO pReg rs y1 y2
     }"

definition MERGERECT :: "region \<Rightarrow> box \<Rightarrow> int \<Rightarrow> int \<Rightarrow> region option" where
  "MERGERECT pReg r y1 y2 =
     (let prev = last (rects pReg)
      in if numRects pReg \<noteq> 0 \<and> by1 prev = y1 \<and> by2 prev = y2 \<and> bx2 prev \<ge> bx1 r
         then if bx2 prev < bx2 r
              then Some (pReg\<lparr>rects := butlast (rects pReg) @ [prev\<lparr>bx2 := bx2 r\<rparr>]\<rparr>)
              else Some pReg
         else add_box pReg \<lparr>bx1 = bx1 r, bx2 = bx2 r, by1 = y1, by2 = y2\<rparr>)"

fun miUnionO :: overlap_fun where
  "miUnionO pReg (r1 # r1s) (r2 # r2s) y1 y2 =
     (if bx1 r1 < bx1 r2
      then do { pReg \<leftarrow> MERGERECT pReg r1 y1 y2; miUnionO pReg r1s (r2 # r2s) y1 y2 }
      else do { pReg \<leftarrow> MERGERECT pReg r2 y1 y2; miUnionO pReg (r1 # r1s) r2s y1 y2 })"
| "miUnionO pReg (r1 # r1s) [] y1 y2 =
     do { pReg \<leftarrow> MERGERECT pReg r1 y1 y2; miUnionO pReg r1s [] y1 y2 }"
| "miUnionO pReg [] (r2 # r2s) y1 y2 =
     do { pReg \<leftarrow> MERGERECT pReg r2 y1 y2; miUnionO pReg [] r2s y1 y2 }"
| "miUnionO pReg [] [] y1 y2 = Some pReg"

fun miSubtractNonO1 :: band_fun where
  "miSubtractNonO1 pReg [] y1 y2 = Some pReg"
| "miSubtractNonO1 pReg (r # rs) y1 y2 =
     do {
       pReg \<leftarrow> add_box pReg \<lparr>bx1 = bx1 r, bx2 = bx2 r, by1 = y1, by2 = y2\<rparr>;
       miSubtractNonO1 pReg rs y1 y2
     }"

text \<open>The left fence \<open>x1\<close> after an advance of the minuend cursor.\<close>

definition next_fence :: "box list \<Rightarrow> int \<Rightarrow> int" where
  "next_fence r1 x1 = (if r1 \<noteq> [] then bx1 (hd r1) else x1)"

fun subtract_loop :: "region \<Rightarrow> box list \<Rightarrow> box list \<Rightarrow> int \<Rightarrow> int \<Rightarrow> int \<Rightarrow> region option" where
  "subtract_loop pReg (r1 # r1s) (r2 # r2s) x1 y1 y2 =
     (if bx2 r2 \<le> x1 then subtract_loop pReg (r1 # r1s) r2s x1 y1 y2
      else if bx1 r2 \<le> x1
      then let x1 = bx2 r2
           in if x1 \<ge> bx2 r1 then subtract_loop pReg r1s (r2 # r2s) (next_fence r1s x1) y1 y2
              else subtract_loop pReg (r1 # r1s) r2s x1 y1 y2
      else if bx1 r2 < bx2 r1
      then do {
             pReg \<leftarrow> add_box pReg \<lparr>bx1 = x1, bx2 = bx1 r2, by1 = y1, by2 = y2\<rparr>;
             let x1 = bx2 r2;
             (if x1 \<ge> bx2 r1 then subtract_loop pReg r1s (r2 # r2s) (next_fence r1s x1) y1 y2
              else subtract_loop pReg (r1 # r1s) r2s x1 y1 y2)
           }
      else do {
             pReg \<leftarrow> (if bx2 r1 > x1 then add_box pReg \<lparr>bx1 = x1, bx2 = bx2 r1, by1 = y1, by2 = y2\<rparr>
                     else Some pReg);
             subtract_loop pReg r1s (r2 # r2s) (next_fence r1s x1) y1 y2
           })"
| "subtract_loop pReg (r1 # r1s) [] x1 y1 y2 =
     do {
       pReg \<leftarrow> add_box pReg \<lparr>bx1 = x1, bx2 = bx2 r1, by1 = y1, by2 = y2\<rparr>;
       subtract_loop pReg r1s [] (next_fence r1s x1) y1 y2
     }"
| "subtract_loop pReg [] r2 x1 y1 y2 = Some pReg"

definition miSubtractO :: overlap_fun where
  "miSubtractO pReg r1 r2 y1 y2 = subtract_loop pReg r1 r2 (bx1 (hd r1)) y1 y2"

subsection \<open>They keep the contract\<close>

lemma sep_ConsI:
  assumes "fst p < snd p" and "sep xs" and "\<And>x. x \<in> xset xs \<Longrightarrow> snd p < x"
  shows "sep (p # xs)"
proof -
  have "snd p < fst q" if "q \<in> set xs" for q
    using that sep_nonempty [OF assms(2) that] assms(3) [of "fst q"] by (auto simp: xset_def)
  with assms show ?thesis by (simp add: sep_Cons)
qed

lemma xset_box: "\<lparr>bx1 = a, bx2 = b, by1 = y1, by2 = y2\<rparr> = box_at y1 y2 (a, b)"
  by (simp add: box_at_def)

lemma miUnionNonO_copies: "copies_band miUnionNonO"
proof -
  have "size_ok r \<Longrightarrow> \<exists>r'. miUnionNonO r (map (box_at u v) xs) y1 y2 = Some r' \<and>
      appended r (map (box_at y1 y2) xs) r'" for r u v xs y1 y2
  proof (induction xs arbitrary: r)
    case (Cons p xs)
    obtain r1 where "add_box r (box_at y1 y2 p) = Some r1" and app: "appended r [box_at y1 y2 p] r1"
      using add_box_appended [OF Cons.prems] by blast
    with Cons.IH [OF appended_size_ok [OF app]] show ?case
      by (auto simp: xset_box dest: appended_trans [OF app])
  qed (simp add: appended_refl)
  then show ?thesis by (simp add: copies_band_def)
qed

lemma miSubtractNonO1_eq: "miSubtractNonO1 r rs y1 y2 = miUnionNonO r rs y1 y2"
  by (induction r rs y1 y2 rule: miUnionNonO.induct) (auto split: bind_split)

lemma miSubtractNonO1_copies: "copies_band miSubtractNonO1"
  using miUnionNonO_copies by (simp add: copies_band_def miSubtractNonO1_eq)

text \<open>What a callback leaves behind a region when it emits a scanline.\<close>

definition emits :: "region option \<Rightarrow> region \<Rightarrow> int \<Rightarrow> int \<Rightarrow> int set \<Rightarrow> bool" where
  "emits res r y1 y2 X \<longleftrightarrow>
     (\<exists>r' out. res = Some r' \<and> appended r (map (box_at y1 y2) out) r' \<and> sep out \<and> xset out = X)"

lemma emits_none: "size_ok r \<Longrightarrow> X = {} \<Longrightarrow> emits (Some r) r y1 y2 X"
  by (auto simp: emits_def intro!: exI [of _ "[]"] appended_refl)

lemma emits_add:
  assumes "size_ok r" and "a < b"
    and more: "\<And>r'. size_ok r' \<Longrightarrow> emits (cont r') r' y1 y2 X" and above: "\<And>x. x \<in> X \<Longrightarrow> b < x"
    and Y: "Y = {a..<b} \<union> X"
  shows "emits (add_box r \<lparr>bx1 = a, bx2 = b, by1 = y1, by2 = y2\<rparr> \<bind> cont) r y1 y2 Y"
proof -
  obtain r1 where r1: "add_box r (box_at y1 y2 (a, b)) = Some r1" and app: "appended r [box_at y1 y2 (a, b)] r1"
    using add_box_appended [OF assms(1)] by blast
  obtain r2 out where "cont r1 = Some r2" "appended r1 (map (box_at y1 y2) out) r2" "sep out" "xset out = X"
    using more [OF appended_size_ok [OF app]] by (auto simp: emits_def)
  then show ?thesis
    using r1 appended_trans [OF app] sep_ConsI [of "(a, b)" out] above \<open>a < b\<close>
    unfolding emits_def xset_box Y
    by (intro exI [of _ r2] exI [of _ "(a, b) # out"]) auto
qed

lemma miIntersectO_emits:
  "sep xs \<Longrightarrow> sep ys \<Longrightarrow> size_ok r \<Longrightarrow>
   emits (miIntersectO r (map (box_at u v) xs) (map (box_at z w) ys) y1 y2) r y1 y2 (xset xs \<inter> xset ys)"
proof (induction "length xs + length ys" arbitrary: xs ys r rule: less_induct)
  case less
  show ?case
  proof (cases "xs = [] \<or> ys = []")
    case True
    then show ?thesis using less.prems by (cases xs) (auto intro: emits_none)
  next
    case False
    then obtain p xs' q ys' where l: "xs = p # xs'" "ys = q # ys'" by (meson neq_Nil_conv)
    let ?a = "max (fst p) (fst q)" and ?b = "min (snd p) (snd q)"
    let ?xs = "if snd p \<le> snd q then xs' else xs" and ?ys = "if snd q \<le> snd p then ys' else ys"
    have s: "sep (p # xs')" "sep (q # ys')" using less.prems by (simp_all add: l)
    have gap: "x \<in> xset xs' \<Longrightarrow> snd p < x" "x \<in> xset ys' \<Longrightarrow> snd q < x" for x
      using sep_Cons_least [OF s(1)] sep_Cons_least [OF s(2)] by auto
    define cont where "cont r = miIntersectO r (map (box_at u v) ?xs) (map (box_at z w) ?ys) y1 y2" for r
    have ne: "fst p < snd p" "fst q < snd q" and ss: "sep xs'" "sep ys'" using s by (simp_all add: sep_Cons)
    have "length ?xs + length ?ys < length xs + length ys" and "sep ?xs" and "sep ?ys"
      using s ss by (auto simp: l)
    then have cont: "emits (cont r) r y1 y2 (xset ?xs \<inter> xset ?ys)" if "size_ok r" for r
      using less.hyps that unfolding cont_def by blast
    have unfold: "miIntersectO r (map (box_at u v) xs) (map (box_at z w) ys) y1 y2 =
        (if ?a < ?b then add_box r \<lparr>bx1 = ?a, bx2 = ?b, by1 = y1, by2 = y2\<rparr> \<bind> cont else cont r)"
      by (auto simp: l cont_def cong: bind_option_cong)
    have rest: "xset xs \<inter> xset ys = {?a..<?b} \<union> (xset ?xs \<inter> xset ?ys)"
      using gap by (auto simp: l; force)
    have above: "?b < x" if "x \<in> xset ?xs \<inter> xset ?ys" for x
      using that gap by (auto split: if_splits)
    show ?thesis
      unfolding unfold
      using emits_add [OF less.prems(3) _ cont above rest] cont [OF less.prems(3)] rest by auto
  qed
qed

lemma miIntersectO_combines: "combines_bands (\<and>) miIntersectO"
  using miIntersectO_emits by (simp add: combines_bands_def emits_def Collect_conj_eq)

interpretation intersect_op: band_callbacks "(\<and>)" miIntersectO None None
  by unfold_locales (simp_all add: band_fun_ok_def miIntersectO_combines)

text \<open>\<open>MERGERECT\<close> on the scanline emitted so far.\<close>

definition merge_ivl :: "ivl list \<Rightarrow> ivl \<Rightarrow> ivl list" where
  "merge_ivl acc p =
     (if acc \<noteq> [] \<and> fst p \<le> snd (last acc)
      then if snd (last acc) < snd p then butlast acc @ [(fst (last acc), snd p)] else acc
      else acc @ [p])"

lemma merge_ivl_correct:
  assumes acc: "sep acc" and p: "fst p < snd p" and order: "acc \<noteq> [] \<longrightarrow> fst (last acc) \<le> fst p"
  shows "sep (merge_ivl acc p)" and "xset (merge_ivl acc p) = xset acc \<union> {fst p..<snd p}"
    and "merge_ivl acc p \<noteq> []" and "fst (last (merge_ivl acc p)) \<le> fst p"
proof -
  have "sep (merge_ivl acc p) \<and> xset (merge_ivl acc p) = xset acc \<union> {fst p..<snd p} \<and>
     merge_ivl acc p \<noteq> [] \<and> fst (last (merge_ivl acc p)) \<le> fst p"
  proof (cases acc rule: rev_cases)
    case Nil
    then show ?thesis using p by (simp add: merge_ivl_def sep_Cons)
  next
    case (snoc as q)
    then have "fst q \<le> fst p" "fst q < snd q" and "\<forall>a \<in> set as. snd a < fst q"
      using acc order by (auto simp: sep_append sep_Cons)
    then show ?thesis
      using acc p snoc by (auto simp: merge_ivl_def sep_append sep_Cons)
  qed
  then show "sep (merge_ivl acc p)" and "xset (merge_ivl acc p) = xset acc \<union> {fst p..<snd p}"
    and "merge_ivl acc p \<noteq> []" and "fst (last (merge_ivl acc p)) \<le> fst p" by auto
qed

text \<open>The region after \<open>acc\<close> was emitted behind \<open>base\<close>, in a band below it.\<close>

definition emitted :: "region \<Rightarrow> int \<Rightarrow> int \<Rightarrow> ivl list \<Rightarrow> region \<Rightarrow> bool" where
  "emitted base y1 y2 acc r \<longleftrightarrow> appended base (map (box_at y1 y2) acc) r \<and> sep acc \<and> (\<forall>b \<in> set (rects base). by1 b < y1)"

lemma MERGERECT_step:
  assumes r: "emitted base y1 y2 acc r" and p: "fst p < snd p" "acc \<noteq> [] \<longrightarrow> fst (last acc) \<le> fst p"
  shows "\<exists>r'. MERGERECT r (box_at u v p) y1 y2 = Some r' \<and> emitted base y1 y2 (merge_ivl acc p) r'"
proof (cases acc rule: rev_cases)
  case Nil
  then have old: "rects r \<noteq> [] \<Longrightarrow> by1 (last (rects r)) < y1"
    using r by (auto simp: emitted_def appended_def)
  obtain r1 where r1: "add_box r (box_at y1 y2 p) = Some r1" and "appended r [box_at y1 y2 p] r1"
    using r add_box_appended [of r "box_at y1 y2 p"] by (auto simp: emitted_def appended_def)
  then have "emitted base y1 y2 (merge_ivl acc p) r1"
    using r p Nil by (auto simp: emitted_def appended_def merge_ivl_def sep_Cons)
  moreover have "MERGERECT r (box_at u v p) y1 y2 = Some r1"
    using old r1 by (auto simp: MERGERECT_def Let_def xset_box)
  ultimately show ?thesis by blast
next
  case (snoc as q)
  have rects: "rects r = rects base @ map (box_at y1 y2) as @ [box_at y1 y2 q]"
    using r by (simp add: emitted_def appended_def snoc)
  show ?thesis
  proof (cases "fst p \<le> snd q")
    case True
    have "MERGERECT r (box_at u v p) y1 y2 = Some (r\<lparr>rects := rects base @ map (box_at y1 y2) (merge_ivl acc p)\<rparr>)"
      using True rects by (cases r) (simp add: MERGERECT_def Let_def snoc merge_ivl_def box_at_def butlast_append)
    moreover have "emitted base y1 y2 (merge_ivl acc p) (r\<lparr>rects := rects base @ map (box_at y1 y2) (merge_ivl acc p)\<rparr>)"
      using r merge_ivl_correct(1) [of acc p] p True rects
      by (auto simp: emitted_def appended_def size_ok_def snoc merge_ivl_def)
    ultimately show ?thesis by blast
  next
    case False
    obtain r1 where r1: "add_box r (box_at y1 y2 p) = Some r1" and "appended r [box_at y1 y2 p] r1"
      using r add_box_appended [of r "box_at y1 y2 p"] by (auto simp: emitted_def appended_def)
    then have "emitted base y1 y2 (merge_ivl acc p) r1"
      using r p False merge_ivl_correct(1) [of acc p] by (auto simp: emitted_def appended_def merge_ivl_def snoc)
    moreover have "MERGERECT r (box_at u v p) y1 y2 = Some r1"
      using False r1 by (simp add: MERGERECT_def Let_def rects xset_box)
    ultimately show ?thesis by blast
  qed
qed

lemma miUnionO_emitted:
  "emitted base y1 y2 acc r \<Longrightarrow> sep xs \<Longrightarrow> sep ys \<Longrightarrow>
   acc \<noteq> [] \<longrightarrow> (\<forall>p \<in> set xs \<union> set ys. fst (last acc) \<le> fst p) \<Longrightarrow>
   \<exists>r' out. miUnionO r (map (box_at u v) xs) (map (box_at z w) ys) y1 y2 = Some r' \<and>
     emitted base y1 y2 out r' \<and> xset out = xset acc \<union> xset xs \<union> xset ys"
proof (induction "length xs + length ys" arbitrary: xs ys acc r rule: less_induct)
  case less
  show ?case
  proof (cases "xs = [] \<and> ys = []")
    case True
    then show ?thesis using less.prems by auto
  next
    case False
    define left where "left \<longleftrightarrow> xs \<noteq> [] \<and> (ys \<noteq> [] \<longrightarrow> fst (hd xs) < fst (hd ys))"
    define p where "p = (if left then hd xs else hd ys)"
    define xs' where "xs' = (if left then tl xs else xs)"
    define ys' where "ys' = (if left then ys else tl ys)"
    have mem: "p \<in> set xs \<union> set ys" and p: "fst p < snd p"
      using False less.prems(2,3) sep_nonempty by (auto simp: p_def left_def)
    have order: "acc \<noteq> [] \<longrightarrow> fst (last acc) \<le> fst p" using less.prems(4) mem by auto
    obtain r1 where step0: "MERGERECT r (box_at 0 0 p) y1 y2 = Some r1"
      and r1: "emitted base y1 y2 (merge_ivl acc p) r1"
      using MERGERECT_step [OF less.prems(1) p order] by blast
    have step: "MERGERECT r (box_at u v p) y1 y2 = Some r1" for u v
      using step0 unfolding MERGERECT_def box_at_simps .
    have acc: "sep acc" using less.prems(1) by (simp add: emitted_def)
    note merged = merge_ivl_correct [OF acc p order]
    have s': "sep xs'" "sep ys'" "length xs' + length ys' < length xs + length ys"
      using less.prems(2,3) False by (cases xs; cases ys; auto simp: xs'_def ys'_def left_def sep_Cons)+
    have sets: "xset acc \<union> xset xs \<union> xset ys = xset (merge_ivl acc p) \<union> xset xs' \<union> xset ys'"
      using False unfolding merged(2) by (cases xs; cases ys; auto simp: xs'_def ys'_def p_def left_def)
    have "fst p \<le> fst q" if "q \<in> set xs' \<union> set ys'" for q
      using that less.prems(2,3) False
      by (cases xs; cases ys; fastforce simp: xs'_def ys'_def p_def left_def sep_Cons split: if_splits)
    then have order': "merge_ivl acc p \<noteq> [] \<longrightarrow> (\<forall>q \<in> set xs' \<union> set ys'. fst (last (merge_ivl acc p)) \<le> fst q)"
      using merged(4) by force
    have "miUnionO r (map (box_at u v) xs) (map (box_at z w) ys) y1 y2 =
        miUnionO r1 (map (box_at u v) xs') (map (box_at z w) ys') y1 y2"
      using False step by (cases xs; cases ys; auto simp: xs'_def ys'_def p_def left_def split: if_splits)
    then show ?thesis using less.hyps [OF s'(3) r1 s'(1,2) order'] by (simp only: sets)
  qed
qed

lemma miUnionO_combines: "combines_bands (\<or>) miUnionO"
  unfolding combines_bands_def
proof (intro allI impI)
  fix r u v xs z w ys y1 y2
  assume "size_ok r \<and> sep xs \<and> sep ys \<and> xs \<noteq> [] \<and> ys \<noteq> [] \<and> y1 < y2 \<and> (\<forall>b \<in> set (rects r). by1 b < y1)"
  then show "\<exists>r' out. miUnionO r (map (box_at u v) xs) (map (box_at z w) ys) y1 y2 = Some r' \<and>
      appended r (map (box_at y1 y2) out) r' \<and> sep out \<and> xset out = {x. x \<in> xset xs \<or> x \<in> xset ys}"
    using miUnionO_emitted [of r y1 y2 "[]" r xs ys u v z w]
    by (auto simp: emitted_def appended_refl Collect_disj_eq)
qed

interpretation union_op: band_callbacks "(\<or>)" miUnionO "Some miUnionNonO" "Some miUnionNonO"
  by unfold_locales (simp_all add: band_fun_ok_def miUnionO_combines miUnionNonO_copies)

lemma subtract_loop_emits:
  "sep xs \<Longrightarrow> sep ys \<Longrightarrow> size_ok r \<Longrightarrow> xs \<noteq> [] \<longrightarrow> fst (hd xs) \<le> x1 \<and> x1 < snd (hd xs) \<Longrightarrow>
   emits (subtract_loop r (map (box_at u v) xs) (map (box_at z w) ys) x1 y1 y2) r y1 y2
     ((if xs = [] then {} else {x1..<snd (hd xs)} \<union> xset (tl xs)) - xset ys)"
proof (induction "length xs + length ys" arbitrary: xs ys r x1 rule: less_induct)
  case less
  show ?case
  proof (cases xs)
    case Nil
    then show ?thesis using less.prems by (auto intro: emits_none)
  next
    case (Cons p xs')
    have s: "sep (p # xs')" and x1: "fst p \<le> x1" "x1 < snd p" using less.prems by (simp_all add: Cons)
    have gap: "x \<in> xset xs' \<Longrightarrow> snd p < x" for x using sep_Cons_least [OF s] .
    have next_xs: "sep xs'" "xs' \<noteq> [] \<longrightarrow> fst (hd xs') \<le> next_fence (map (box_at u v) xs') c \<and>
        next_fence (map (box_at u v) xs') c < snd (hd xs')" for c
      using s by (auto simp: sep_Cons next_fence_def sep_nonempty hd_map)
    have all': "(if xs' = [] then {} else {next_fence (map (box_at u v) xs') c..<snd (hd xs')} \<union> xset (tl xs')) = xset xs'" for c
      by (cases xs') (auto simp: next_fence_def)
    have adv: "emits (subtract_loop r' (map (box_at u v) xs') (map (box_at z w) zs)
        (next_fence (map (box_at u v) xs') c) y1 y2) r' y1 y2 (xset xs' - xset zs)"
      if "sep zs" "size_ok r'" "length zs \<le> length ys" for r' c zs
      using less.hyps [of xs' zs r' "next_fence (map (box_at u v) xs') c"] that next_xs all'
      by (simp add: Cons)
    show ?thesis
    proof (cases ys)
      case Nil
      then show ?thesis
        using emits_add [OF less.prems(3) x1(2), where cont = "\<lambda>r'. subtract_loop r' (map (box_at u v) xs') []
            (next_fence (map (box_at u v) xs') x1) y1 y2" and X = "xset xs'" and Y = "{x1..<snd p} \<union> xset xs'"]
          adv [of "[]"] gap by (simp add: Cons)
    next
      case (Cons q ys')
      note ys = Cons
      have t: "sep (q # ys')" and q: "fst q < snd q" using less.prems(2) by (simp_all add: ys sep_Cons)
      have gap': "x \<in> xset ys' \<Longrightarrow> snd q < x" for x using sep_Cons_least [OF t] .
      have stay: "emits (subtract_loop r' (map (box_at u v) (p # xs')) (map (box_at z w) ys') c y1 y2) r' y1 y2
          ({c..<snd p} \<union> xset xs' - xset ys')"
        if "size_ok r'" "fst p \<le> c" "c < snd p" for r' c
        using less.hyps [of "p # xs'" ys' r' c] that s t by (simp add: \<open>xs = p # xs'\<close> ys sep_Cons)
      have adv': "emits (subtract_loop r' (map (box_at u v) xs') (map (box_at z w) (q # ys'))
        (next_fence (map (box_at u v) xs') c) y1 y2) r' y1 y2 (xset xs' - xset (q # ys'))"
        if "size_ok r'" for r' c using adv [of "q # ys'" r' c] that t by (simp add: ys)
      consider "snd q \<le> x1" | "x1 < snd q" "fst q \<le> x1" "snd p \<le> snd q"
        | "x1 < snd q" "fst q \<le> x1" "snd q < snd p" | "x1 < fst q" "fst q < snd p" "snd p \<le> snd q"
        | "x1 < fst q" "fst q < snd p" "snd q < snd p" | "snd p \<le> fst q"
        using q by linarith
      then show ?thesis
      proof cases
        case 1
        have "{x1..<snd p} \<union> xset xs' - xset ys' = {x1..<snd p} \<union> xset xs' - xset ys"
          by (rule set_eqI) (use 1 x1 in \<open>auto simp: ys dest: gap\<close>)
        then show ?thesis using stay [OF less.prems(3) x1] 1 by (simp add: \<open>xs = p # xs'\<close> ys)
      next
        case 2
        have "xset xs' - xset (q # ys') = {x1..<snd p} \<union> xset xs' - xset ys" using 2 by (auto simp: ys)
        then show ?thesis using adv' [OF less.prems(3)] 2 by (simp add: \<open>xs = p # xs'\<close> ys Let_def)
      next
        case 3
        have "{snd q..<snd p} \<union> xset xs' - xset ys' = {x1..<snd p} \<union> xset xs' - xset ys"
          by (rule set_eqI) (use 3 gap in \<open>auto simp: ys dest: gap\<close>)
        then show ?thesis using stay [OF less.prems(3), of "snd q"] 3 x1 by (simp add: \<open>xs = p # xs'\<close> ys Let_def)
      next
        case 4
        have Y: "{x1..<snd p} \<union> xset xs' - xset ys = {x1..<fst q} \<union> (xset xs' - xset (q # ys'))"
        proof (rule set_eqI)
          fix x
          show "x \<in> {x1..<snd p} \<union> xset xs' - xset ys \<longleftrightarrow> x \<in> {x1..<fst q} \<union> (xset xs' - xset (q # ys'))"
            using 4 q gap [of x] gap' [of x] by (auto simp: ys)
        qed
        have "emits (add_box r \<lparr>bx1 = x1, bx2 = fst q, by1 = y1, by2 = y2\<rparr> \<bind>
            (\<lambda>r'. subtract_loop r' (map (box_at u v) xs') (map (box_at z w) (q # ys'))
              (next_fence (map (box_at u v) xs') (snd q)) y1 y2)) r y1 y2 ({x1..<snd p} \<union> xset xs' - xset ys)"
          by (rule emits_add [OF less.prems(3) 4(1) adv' _ Y]) (use 4 gap in \<open>auto dest: gap\<close>)
        then show ?thesis using 4 by (simp add: \<open>xs = p # xs'\<close> ys Let_def)
      next
        case 5
        have Y: "{x1..<snd p} \<union> xset xs' - xset ys = {x1..<fst q} \<union> ({snd q..<snd p} \<union> xset xs' - xset ys')"
        proof (rule set_eqI)
          fix x
          show "x \<in> {x1..<snd p} \<union> xset xs' - xset ys \<longleftrightarrow> x \<in> {x1..<fst q} \<union> ({snd q..<snd p} \<union> xset xs' - xset ys')"
            using 5 q gap [of x] gap' [of x] by (auto simp: ys)
        qed
        have "fst p \<le> snd q" using 5 x1 q by simp
        then have "emits (add_box r \<lparr>bx1 = x1, bx2 = fst q, by1 = y1, by2 = y2\<rparr> \<bind>
            (\<lambda>r'. subtract_loop r' (map (box_at u v) (p # xs')) (map (box_at z w) ys') (snd q) y1 y2))
            r y1 y2 ({x1..<snd p} \<union> xset xs' - xset ys)"
          by (intro emits_add [OF less.prems(3) 5(1) stay _ Y]) (use 5 q in \<open>auto dest: gap\<close>)
        then show ?thesis using 5 q by (simp add: \<open>xs = p # xs'\<close> ys Let_def)
      next
        case 6
        have Y: "{x1..<snd p} \<union> xset xs' - xset ys = {x1..<snd p} \<union> (xset xs' - xset (q # ys'))"
        proof (rule set_eqI)
          fix x
          show "x \<in> {x1..<snd p} \<union> xset xs' - xset ys \<longleftrightarrow> x \<in> {x1..<snd p} \<union> (xset xs' - xset (q # ys'))"
            using 6 q gap [of x] gap' [of x] by (auto simp: ys)
        qed
        have "emits (add_box r \<lparr>bx1 = x1, bx2 = snd p, by1 = y1, by2 = y2\<rparr> \<bind>
            (\<lambda>r'. subtract_loop r' (map (box_at u v) xs') (map (box_at z w) (q # ys'))
              (next_fence (map (box_at u v) xs') x1) y1 y2)) r y1 y2 ({x1..<snd p} \<union> xset xs' - xset ys)"
          by (rule emits_add [OF less.prems(3) x1(2) adv' _ Y]) (auto dest: gap)
        then show ?thesis using 6 x1 q by (simp add: \<open>xs = p # xs'\<close> ys Let_def)
      qed
    qed
  qed
qed

lemma miSubtractO_combines: "combines_bands (\<lambda>a b. a \<and> \<not> b) miSubtractO"
  unfolding combines_bands_def
proof (intro allI impI)
  fix r u v xs z w ys y1 y2
  assume "size_ok r \<and> sep xs \<and> sep ys \<and> xs \<noteq> [] \<and> ys \<noteq> [] \<and> y1 < y2 \<and> (\<forall>b \<in> set (rects r). by1 b < y1)"
  then show "\<exists>r' out. miSubtractO r (map (box_at u v) xs) (map (box_at z w) ys) y1 y2 = Some r' \<and>
      appended r (map (box_at y1 y2) out) r' \<and> sep out \<and> xset out = {x. x \<in> xset xs \<and> x \<notin> xset ys}"
    using subtract_loop_emits [of xs ys r "fst (hd xs)" u v z w y1 y2]
    by (cases xs) (auto simp: emits_def miSubtractO_def sep_Cons set_diff_eq)
qed

interpretation subtract_op: band_callbacks "\<lambda>a b. a \<and> \<not> b" miSubtractO "Some miSubtractNonO1" None
  by unfold_locales (simp_all add: band_fun_ok_def miSubtractO_combines miSubtractNonO1_copies)

end
