(* ===== verification/Xregion_Set.thy ===== *)
theory Xregion_Set
  imports Xregion_Callbacks
begin

text \<open>
  The set operations of \<open>Region.c\<close> on the store of regions, and their specification: the
  destination becomes the union, intersection or difference of the point sets the sources had
  before the call, its representation stays well formed, and no other region changes, whichever
  of the three addresses coincide.
\<close>

subsection \<open>Creation, copying and extents\<close>

definition XCreateRegion :: region where
  "XCreateRegion = \<lparr>rsize = 1, rects = [], extents = empty_box\<rparr>"

record XRectangle =
  rect_x :: int
  rect_y :: int
  rect_width :: int
  rect_height :: int

text \<open>\<open>width\<close> and \<open>height\<close> are \<open>unsigned short\<close>.\<close>

definition XClipBox :: "region \<Rightarrow> XRectangle" where
  "XClipBox r =
     \<lparr>rect_x = bx1 (extents r), rect_y = by1 (extents r),
      rect_width = (bx2 (extents r) - bx1 (extents r)) mod 65536,
      rect_height = (by2 (extents r) - by1 (extents r)) mod 65536\<rparr>"

fun extents_loop :: "box list \<Rightarrow> box \<Rightarrow> box" where
  "extents_loop [] e = e"
| "extents_loop (b # bs) e =
     (let e = (if bx1 b < bx1 e then e\<lparr>bx1 := bx1 b\<rparr> else e);
          e = (if bx2 b > bx2 e then e\<lparr>bx2 := bx2 b\<rparr> else e)
      in extents_loop bs e)"

definition miSetExtents :: "region \<Rightarrow> region" where
  "miSetExtents pReg =
     (if numRects pReg = 0 then pReg\<lparr>extents := empty_box\<rparr>
      else let pBox = hd (rects pReg); pBoxEnd = last (rects pReg)
           in pReg\<lparr>extents := extents_loop (rects pReg)
                \<lparr>bx1 = bx1 pBox, bx2 = bx2 pBoxEnd, by1 = by1 pBox, by2 = by2 pBoxEnd\<rparr>\<rparr>)"

definition miRegionCopy :: "store \<Rightarrow> ptr \<Rightarrow> ptr \<Rightarrow> store option" where
  "miRegionCopy h dstrgn rgn =
     (if dstrgn \<noteq> rgn
      then let d = h dstrgn; s = h rgn
           in if rsize d < int (numRects s) \<and> \<not> Xrealloc_ok (int (numRects s) * sizeof_BOX) then None
              else Some (h(dstrgn :=
                     \<lparr>rsize = (if rsize d < int (numRects s) then int (numRects s) else rsize d),
                      rects = rects s, extents = extents s\<rparr>))
      else Some h)"

subsection \<open>Intersection, union, subtraction\<close>

definition XIntersectRegion :: "store \<Rightarrow> ptr \<Rightarrow> ptr \<Rightarrow> ptr \<Rightarrow> store option" where
  "XIntersectRegion h reg1 reg2 newReg =
     do {
       h \<leftarrow> (if numRects (h reg1) = 0 \<or> numRects (h reg2) = 0 \<or>
                \<not> EXTENTCHECK (extents (h reg1)) (extents (h reg2))
             then Some (h(newReg := (h newReg)\<lparr>rects := []\<rparr>))
             else miRegionOp h newReg reg1 reg2 miIntersectO None None);
       Some (h(newReg := miSetExtents (h newReg)))
     }"

text \<open>An assignment to one field of the destination's extents.\<close>

definition set_extents :: "store \<Rightarrow> ptr \<Rightarrow> (box \<Rightarrow> box) \<Rightarrow> store" where
  "set_extents h p f = h(p := (h p)\<lparr>extents := f (extents (h p))\<rparr>)"

definition union_extents :: "store \<Rightarrow> ptr \<Rightarrow> ptr \<Rightarrow> ptr \<Rightarrow> store" where
  "union_extents h reg1 reg2 newReg =
     (let h = set_extents h newReg (\<lambda>e. e\<lparr>bx1 := min (bx1 (extents (h reg1))) (bx1 (extents (h reg2)))\<rparr>);
          h = set_extents h newReg (\<lambda>e. e\<lparr>by1 := min (by1 (extents (h reg1))) (by1 (extents (h reg2)))\<rparr>);
          h = set_extents h newReg (\<lambda>e. e\<lparr>bx2 := max (bx2 (extents (h reg1))) (bx2 (extents (h reg2)))\<rparr>)
      in set_extents h newReg (\<lambda>e. e\<lparr>by2 := max (by2 (extents (h reg1))) (by2 (extents (h reg2)))\<rparr>))"

definition covers_extents :: "box \<Rightarrow> box \<Rightarrow> bool" where
  "covers_extents e1 e2 \<longleftrightarrow>
     bx1 e1 \<le> bx1 e2 \<and> by1 e1 \<le> by1 e2 \<and> bx2 e1 \<ge> bx2 e2 \<and> by2 e1 \<ge> by2 e2"

definition XUnionRegion :: "store \<Rightarrow> ptr \<Rightarrow> ptr \<Rightarrow> ptr \<Rightarrow> store option" where
  "XUnionRegion h reg1 reg2 newReg =
     (if reg1 = reg2 \<or> numRects (h reg1) = 0
      then if newReg \<noteq> reg2 then miRegionCopy h newReg reg2 else Some h
      else if numRects (h reg2) = 0
      then if newReg \<noteq> reg1 then miRegionCopy h newReg reg1 else Some h
      else if numRects (h reg1) = 1 \<and> covers_extents (extents (h reg1)) (extents (h reg2))
      then if newReg \<noteq> reg1 then miRegionCopy h newReg reg1 else Some h
      else if numRects (h reg2) = 1 \<and> covers_extents (extents (h reg2)) (extents (h reg1))
      then if newReg \<noteq> reg2 then miRegionCopy h newReg reg2 else Some h
      else do {
        h \<leftarrow> miRegionOp h newReg reg1 reg2 miUnionO (Some miUnionNonO) (Some miUnionNonO);
        Some (union_extents h reg1 reg2 newReg)
      })"

definition XSubtractRegion :: "store \<Rightarrow> ptr \<Rightarrow> ptr \<Rightarrow> ptr \<Rightarrow> store option" where
  "XSubtractRegion h regM regS regD =
     (if numRects (h regM) = 0 \<or> numRects (h regS) = 0 \<or>
         \<not> EXTENTCHECK (extents (h regM)) (extents (h regS))
      then miRegionCopy h regD regM
      else do {
        h \<leftarrow> miRegionOp h regD regM regS miSubtractO (Some miSubtractNonO1) None;
        Some (h(regD := miSetExtents (h regD)))
      })"

text \<open>\<open>tra\<close> and \<open>trb\<close> are the addresses of the two temporary regions it creates.\<close>

definition XXorRegion :: "store \<Rightarrow> ptr \<Rightarrow> ptr \<Rightarrow> ptr \<Rightarrow> ptr \<Rightarrow> ptr \<Rightarrow> store option" where
  "XXorRegion h sra srb dr tra trb =
     do {
       let h = h(tra := XCreateRegion);
       let h = h(trb := XCreateRegion);
       h \<leftarrow> XSubtractRegion h sra srb tra;
       h \<leftarrow> XSubtractRegion h srb sra trb;
       XUnionRegion h tra trb dr
     }"

text \<open>\<open>region\<close> is the address of the local one-rectangle region.\<close>

definition XUnionRectWithRegion :: "store \<Rightarrow> XRectangle \<Rightarrow> ptr \<Rightarrow> ptr \<Rightarrow> ptr \<Rightarrow> store option" where
  "XUnionRectWithRegion h rect source dest region =
     (if rect_width rect = 0 \<or> rect_height rect = 0 then Some h
      else let b = \<lparr>bx1 = rect_x rect, bx2 = to_short (rect_x rect + rect_width rect),
                    by1 = rect_y rect, by2 = to_short (rect_y rect + rect_height rect)\<rparr>
           in XUnionRegion (h(region := \<lparr>rsize = 1, rects = [b], extents = b\<rparr>)) region source dest)"

subsection \<open>Bounding boxes\<close>

definition is_bbox :: "box \<Rightarrow> (int \<times> int) set \<Rightarrow> bool" where
  "is_bbox e P \<longleftrightarrow>
     (\<forall>(x, y) \<in> P. bx1 e \<le> x \<and> x < bx2 e \<and> by1 e \<le> y \<and> y < by2 e) \<and>
     (\<exists>y. (bx1 e, y) \<in> P) \<and> (\<exists>y. (bx2 e - 1, y) \<in> P) \<and> (\<exists>x. (x, by1 e) \<in> P) \<and> (\<exists>x. (x, by2 e - 1) \<in> P)"

lemma is_bboxD:
  assumes "is_bbox e P"
  shows "(x, y) \<in> P \<Longrightarrow> bx1 e \<le> x \<and> x < bx2 e \<and> by1 e \<le> y \<and> y < by2 e"
    and "\<exists>y. (bx1 e, y) \<in> P" and "\<exists>y. (bx2 e - 1, y) \<in> P"
    and "\<exists>x. (x, by1 e) \<in> P" and "\<exists>x. (x, by2 e - 1) \<in> P"
  using assms unfolding is_bbox_def by blast+

lemma is_bbox_le:
  assumes "is_bbox e P" and "is_bbox e' P"
  shows "bx1 e \<le> bx1 e'" "bx2 e' \<le> bx2 e" "by1 e \<le> by1 e'" "by2 e' \<le> by2 e"
  using is_bboxD(1) [OF assms(1)] is_bboxD(2-) [OF assms(2)] by (fast | force)+

lemma is_bbox_unique: "is_bbox e P \<Longrightarrow> is_bbox e' P \<Longrightarrow> e = e'"
  by (rule box.equality) (simp_all add: antisym is_bbox_le)

lemma is_bbox_Un:
  assumes "is_bbox e1 P" and "is_bbox e2 Q"
  shows "is_bbox \<lparr>bx1 = min (bx1 e1) (bx1 e2), bx2 = max (bx2 e1) (bx2 e2),
                  by1 = min (by1 e1) (by1 e2), by2 = max (by2 e1) (by2 e2)\<rparr> (P \<union> Q)"
proof -
  note a = is_bboxD [OF assms(1)] and b = is_bboxD [OF assms(2)]
  have "\<exists>y. (min (bx1 e1) (bx1 e2), y) \<in> P \<union> Q" using a(2) b(2) by (cases "bx1 e1 \<le> bx1 e2") (auto simp: min_def)
  moreover have "\<exists>y. (max (bx2 e1) (bx2 e2) - 1, y) \<in> P \<union> Q" using a(3) b(3) by (cases "bx2 e1 \<le> bx2 e2") (auto simp: max_def)
  moreover have "\<exists>x. (x, min (by1 e1) (by1 e2)) \<in> P \<union> Q" using a(4) b(4) by (cases "by1 e1 \<le> by1 e2") (auto simp: min_def)
  moreover have "\<exists>x. (x, max (by2 e1) (by2 e2) - 1) \<in> P \<union> Q" using a(5) b(5) by (cases "by2 e1 \<le> by2 e2") (auto simp: max_def)
  moreover have "min (bx1 e1) (bx1 e2) \<le> x \<and> x < max (bx2 e1) (bx2 e2) \<and>
      min (by1 e1) (by1 e2) \<le> y \<and> y < max (by2 e1) (by2 e2)" if "(x, y) \<in> P \<union> Q" for x y
    using that a(1) [of x y] b(1) [of x y] by (auto simp: min_def max_def)
  ultimately show ?thesis unfolding is_bbox_def box.select_convs by blast
qed

lemma good_bands_snoc_above:
  "good_bands (bs @ [(u, v, us)]) \<Longrightarrow> ends_by bs u"
proof (induction bs)
  case (Cons b bs)
  obtain y1 y2 xs where b: "b = (y1, y2, xs)" by (cases b)
  with Cons show ?case
    using good_bands_Cons_below [of y1 y2 xs "bs @ [(u, v, us)]" u v us] by (auto simp: good_bands_Cons)
qed simp

lemma wf_rects_bounds:
  assumes "wf_rects rs" and "b \<in> set rs"
  shows "bx1 b < bx2 b" "by1 b < by2 b" "by1 (hd rs) \<le> by1 b" "by2 b \<le> by2 (last rs)"
proof -
  obtain bs where bs: "good_bands bs" "rs = flat bs" using assms(1) by (rule wf_rectsE)
  obtain y1 y2 xs p where m: "(y1, y2, xs) \<in> set bs" "p \<in> set xs" "b = box_at y1 y2 p"
    using assms(2) by (auto simp: bs(2) set_flat)
  have "good_band (y1, y2, xs)" using bs(1) m(1) by (auto simp: good_bands_def)
  then show "bx1 b < bx2 b" "by1 b < by2 b" using m sep_nonempty by auto
  obtain u1 u2 us bs' where c: "bs = (u1, u2, us) # bs'" using m(1) by (metis list.set_cases prod_cases3)
  have "by1 (hd rs) = u1" using hd_flat(1) [of u1 u2 us bs'] bs c by simp
  then show "by1 (hd rs) \<le> by1 b"
    using good_bands_Cons_below [of u1 u2 us bs' y1 y2 xs] bs(1) m c by (auto simp: good_bands_Cons)
  obtain as v1 v2 vs where d: "bs = as @ [(v1, v2, vs)]"
    using m(1) by (cases bs rule: band_last_cases) auto
  have "vs \<noteq> []" "v1 < v2" using bs(1) by (auto simp: d good_bands_append good_bands_Cons)
  then have "by2 (last rs) = v2" by (simp add: bs(2) d last_map)
  then show "by2 b \<le> by2 (last rs)"
    using good_bands_snoc_above [of as v1 v2 vs] bs(1) m d \<open>v1 < v2\<close> by (force simp: ends_by_def)
qed

lemma extents_of_bbox:
  assumes wf: "wf_rects rs" and ne: "rs \<noteq> []"
  shows "is_bbox (extents_of rs) {(x, y). x \<in> row rs y}"
proof -
  note b = wf_rects_bounds [OF wf]
  have "Min (set (map bx1 rs)) \<in> bx1 ` set rs" "Max (set (map bx2 rs)) \<in> bx2 ` set rs"
    using Min_in [of "set (map bx1 rs)"] Max_in [of "set (map bx2 rs)"] ne by simp_all
  then obtain c d where c: "c \<in> set rs" "Min (set (map bx1 rs)) = bx1 c"
    and d: "d \<in> set rs" "Max (set (map bx2 rs)) = bx2 d" by (elim imageE) metis
  have inP: "(x, y) \<in> {(x, y). x \<in> row rs y}" if "a \<in> set rs" "INBOX a x y" for a x y
    using that by (auto simp: row_def)
  have "(bx1 c, by1 c) \<in> {(x, y). x \<in> row rs y}" "(bx2 d - 1, by1 d) \<in> {(x, y). x \<in> row rs y}"
    using inP [OF c(1)] inP [OF d(1)] b(1,2) [OF c(1)] b(1,2) [OF d(1)] by (simp_all add: INBOX_def)
  moreover have "(bx1 (hd rs), by1 (hd rs)) \<in> {(x, y). x \<in> row rs y}"
    "(bx1 (last rs), by2 (last rs) - 1) \<in> {(x, y). x \<in> row rs y}"
    using inP [of "hd rs"] inP [of "last rs"] b(1,2) [of "hd rs"] b(1,2) [of "last rs"] ne
    by (simp_all add: INBOX_def)
  moreover have "bx1 (extents_of rs) \<le> x \<and> x < bx2 (extents_of rs) \<and> by1 (extents_of rs) \<le> y \<and> y < by2 (extents_of rs)"
    if x: "x \<in> row rs y" for x y
  proof -
    obtain a where a: "a \<in> set rs" "INBOX a x y" using x by (auto simp: row_def)
    have "Min (bx1 ` set rs) \<le> bx1 a" "bx2 a \<le> Max (bx2 ` set rs)" using a(1) by simp_all
    then show ?thesis using a(2) b(3,4) [OF a(1)] by (simp add: extents_of_def INBOX_def)
  qed
  moreover have "bx1 (extents_of rs) = bx1 c" "bx2 (extents_of rs) = bx2 d"
      "by1 (extents_of rs) = by1 (hd rs)" "by2 (extents_of rs) = by2 (last rs)"
    by (simp_all only: extents_of_def box.select_convs c d)
  ultimately show ?thesis unfolding is_bbox_def by auto
qed

lemma wf_region_bbox: "wf_region r \<Longrightarrow> rects r \<noteq> [] \<Longrightarrow> is_bbox (extents r) (pts r)"
  using extents_of_bbox [of "rects r"] by (simp add: wf_region_def pts_row)

lemma wf_regionI:
  assumes "wf_rects (rects r)" and "size_ok r" and "rects r \<noteq> [] \<Longrightarrow> is_bbox (extents r) (pts r)"
  shows "wf_region r"
  using assms is_bbox_unique [of "extents r" "pts r" "extents_of (rects r)"] extents_of_bbox [of "rects r"]
  by (auto simp: wf_region_def pts_row)

lemma Min_insert_min: "finite S \<Longrightarrow> Min (insert (min a b) S) = Min (insert a (insert (b :: int) S))"
  by (cases "S = {}") (simp_all add: min.assoc)

lemma Max_insert_max: "finite S \<Longrightarrow> Max (insert (max a b) S) = Max (insert a (insert (b :: int) S))"
  by (cases "S = {}") (simp_all add: max.assoc)

lemma extents_loop_spec:
  "by1 (extents_loop bs e) = by1 e" "by2 (extents_loop bs e) = by2 e"
  "bx1 (extents_loop bs e) = Min (insert (bx1 e) (bx1 ` set bs))"
  "bx2 (extents_loop bs e) = Max (insert (bx2 e) (bx2 ` set bs))"
proof (induction bs arbitrary: e)
  case (Cons b bs)
  { case 1 show ?case by (simp add: Let_def Cons.IH(1))
  next case 2 show ?case by (simp add: Let_def Cons.IH(2))
  next case 3
    have "bx1 (extents_loop (b # bs) e) = Min (insert (min (bx1 e) (bx1 b)) (bx1 ` set bs))"
      by (auto simp: Let_def Cons.IH(3) min_def intro: arg_cong [of _ _ "\<lambda>a. Min (insert a (bx1 ` set bs))"])
    then show ?case by (simp only: Min_insert_min finite_imageI finite_set list.set image_insert)
  next case 4
    have "bx2 (extents_loop (b # bs) e) = Max (insert (max (bx2 e) (bx2 b)) (bx2 ` set bs))"
      by (auto simp: Let_def Cons.IH(4) max_def intro: arg_cong [of _ _ "\<lambda>a. Max (insert a (bx2 ` set bs))"])
    then show ?case by (simp only: Max_insert_max finite_imageI finite_set list.set image_insert)
  }
qed simp_all

lemma miSetExtents_simps [simp]:
  "rects (miSetExtents r) = rects r" "rsize (miSetExtents r) = rsize r"
  by (simp_all add: miSetExtents_def Let_def)

lemma miSetExtents_extents:
  assumes "rects r \<noteq> []"
  shows "extents (miSetExtents r) = extents_of (rects r)"
proof -
  have "insert (bx1 (hd (rects r))) (bx1 ` set (rects r)) = bx1 ` set (rects r)"
    "insert (bx2 (last (rects r))) (bx2 ` set (rects r)) = bx2 ` set (rects r)"
    using assms by (simp_all add: insert_absorb)
  then show ?thesis using assms
    by (intro box.equality) (simp_all add: miSetExtents_def Let_def extents_loop_spec extents_of_def)
qed

lemma miSetExtents_wf: "wf_rects (rects r) \<Longrightarrow> size_ok r \<Longrightarrow> wf_region (miSetExtents r)"
  by (simp add: wf_region_def size_ok_def miSetExtents_extents)

lemma pts_miSetExtents [simp]: "pts (miSetExtents r) = pts r"
  by (simp add: pts_def)

lemma pts_empty: "rects r = [] \<Longrightarrow> pts r = {}"
  by (simp add: pts_def)

lemma wf_rects_Nil [simp]: "wf_rects []"
  by (simp add: wf_rects_def)

lemma wf_XCreateRegion [simp]: "wf_region XCreateRegion" "pts XCreateRegion = {}"
  by (simp_all add: XCreateRegion_def wf_region_def size_ok_def pts_def)

lemma wf_region_size: "wf_region r \<Longrightarrow> size_ok r"
  by (simp add: wf_region_def)

subsection \<open>Correctness\<close>

text \<open>What each of the operations promises.\<close>

definition stores :: "store option \<Rightarrow> store \<Rightarrow> ptr \<Rightarrow> (int \<times> int) set \<Rightarrow> bool" where
  "stores res h p P \<longleftrightarrow>
     (\<exists>h'. res = Some h' \<and> wf_region (h' p) \<and> pts (h' p) = P \<and> (\<forall>q. q \<noteq> p \<longrightarrow> h' q = h q))"

lemma storesE:
  assumes "stores res h p P"
  obtains h' where "res = Some h'" and "wf_region (h' p)" and "pts (h' p) = P" and "\<And>q. q \<noteq> p \<Longrightarrow> h' q = h q"
  using assms by (auto simp: stores_def)

lemma miRegionCopy_stores:
  "wf_region (h s) \<Longrightarrow> size_ok (h d) \<Longrightarrow> stores (miRegionCopy h d s) h d (pts (h s))"
  by (auto simp: stores_def miRegionCopy_def Let_def Xrealloc_ok_def sizeof_BOX_def wf_region_def size_ok_def pts_def)

lemma copy_or_keep_stores:
  "wf_region (h s) \<Longrightarrow> size_ok (h d) \<Longrightarrow>
   stores (if d \<noteq> s then miRegionCopy h d s else Some h) h d (pts (h s))"
  using miRegionCopy_stores [of h s d] by (auto simp: stores_def)

lemma EXTENTCHECK_disjoint:
  assumes "wf_region r" "wf_region s" and "rects r \<noteq> []" "rects s \<noteq> []"
    and "\<not> EXTENTCHECK (extents r) (extents s)"
  shows "pts r \<inter> pts s = {}"
  using wf_region_bbox [of r] wf_region_bbox [of s] assms
  by (fastforce simp: is_bbox_def EXTENTCHECK_def)

lemma XIntersectRegion_stores:
  assumes wf: "wf_region (h reg1)" "wf_region (h reg2)" and new: "size_ok (h newReg)"
    and dest: "\<not> (newReg = reg1 \<and> newReg = reg2)"
  shows "stores (XIntersectRegion h reg1 reg2 newReg) h newReg (pts (h reg1) \<inter> pts (h reg2))"
proof (cases "rects (h reg1) = [] \<or> rects (h reg2) = [] \<or> \<not> EXTENTCHECK (extents (h reg1)) (extents (h reg2))")
  case True
  then have "pts (h reg1) \<inter> pts (h reg2) = {}"
    using EXTENTCHECK_disjoint [OF wf] pts_empty by blast
  then show ?thesis
    using True new by (auto simp: stores_def XIntersectRegion_def pts_def size_ok_def intro!: miSetExtents_wf)
next
  case False
  then obtain new where op: "miRegionOp h newReg reg1 reg2 miIntersectO None None = Some (h(newReg := new))"
    and wf': "wf_rects (rects new)" "size_ok new"
    and rows: "\<forall>y. row (rects new) y = {x. x \<in> row (rects (h reg1)) y \<and> x \<in> row (rects (h reg2)) y}"
    using intersect_op.miRegionOp_correct [of h reg1 reg2 newReg] wf dest by blast
  have "pts new = pts (h reg1) \<inter> pts (h reg2)" using rows by (auto simp: pts_row)
  then show ?thesis
    using False op wf' by (auto simp: stores_def XIntersectRegion_def intro: miSetExtents_wf)
qed

lemma XSubtractRegion_stores:
  assumes wf: "wf_region (h regM)" "wf_region (h regS)" and new: "size_ok (h regD)"
    and dest: "\<not> (regD = regM \<and> regD = regS)"
  shows "stores (XSubtractRegion h regM regS regD) h regD (pts (h regM) - pts (h regS))"
proof (cases "rects (h regM) = [] \<or> rects (h regS) = [] \<or> \<not> EXTENTCHECK (extents (h regM)) (extents (h regS))")
  case True
  then have "pts (h regM) - pts (h regS) = pts (h regM)"
    using EXTENTCHECK_disjoint [OF wf] pts_empty by blast
  then show ?thesis
    using True miRegionCopy_stores [OF wf(1) new] by (simp add: XSubtractRegion_def)
next
  case False
  then obtain new where op: "miRegionOp h regD regM regS miSubtractO (Some miSubtractNonO1) None = Some (h(regD := new))"
    and wf': "wf_rects (rects new)" "size_ok new"
    and rows: "\<forall>y. row (rects new) y = {x. x \<in> row (rects (h regM)) y \<and> x \<notin> row (rects (h regS)) y}"
    using subtract_op.miRegionOp_correct [of h regM regS regD] wf dest by blast
  have "pts new = pts (h regM) - pts (h regS)" using rows by (auto simp: pts_row)
  then show ?thesis
    using False op wf' by (auto simp: stores_def XSubtractRegion_def intro: miSetExtents_wf)
qed

lemma single_covers:
  assumes "wf_region r" "wf_region s" and "numRects r = 1" "rects s \<noteq> []"
    and "covers_extents (extents r) (extents s)"
  shows "pts s \<subseteq> pts r"
proof -
  obtain b where b: "rects r = [b]" using assms(3) by (auto simp: length_Suc_conv)
  have "extents r = b" using assms(1) b by (cases b) (simp add: wf_region_def extents_of_def)
  then show ?thesis
    using wf_region_bbox [OF assms(2,4)] assms(5) b
    by (fastforce simp: is_bbox_def covers_extents_def pts_def INBOX_def)
qed

definition union_box :: "box \<Rightarrow> box \<Rightarrow> box" where
  "union_box e1 e2 = \<lparr>bx1 = min (bx1 e1) (bx1 e2), bx2 = max (bx2 e1) (bx2 e2),
                      by1 = min (by1 e1) (by1 e2), by2 = max (by2 e1) (by2 e2)\<rparr>"

text \<open>The assignments give the bounding box of both also when the destination is one of them.\<close>

lemma union_extents_eq:
  assumes "extents new = extents (h newReg)"
  shows "union_extents (h(newReg := new)) reg1 reg2 newReg =
    h(newReg := new\<lparr>extents := union_box (extents (h reg1)) (extents (h reg2))\<rparr>)"
  using assms
  by (cases "extents (h newReg)"; cases "reg1 = newReg"; cases "reg2 = newReg")
     (simp_all add: union_extents_def set_extents_def union_box_def Let_def)

lemma XUnionRegion_stores:
  assumes wf: "wf_region (h reg1)" "wf_region (h reg2)" and new: "size_ok (h newReg)"
  shows "stores (XUnionRegion h reg1 reg2 newReg) h newReg (pts (h reg1) \<union> pts (h reg2))"
proof -
  consider "pts (h reg1) \<union> pts (h reg2) = pts (h reg2)" "reg1 = reg2 \<or> rects (h reg1) = []"
    | "pts (h reg1) \<union> pts (h reg2) = pts (h reg1)" "\<not> (reg1 = reg2 \<or> rects (h reg1) = [])"
      "rects (h reg2) = [] \<or> numRects (h reg1) = 1 \<and> covers_extents (extents (h reg1)) (extents (h reg2))"
    | "pts (h reg1) \<union> pts (h reg2) = pts (h reg2)" "\<not> (reg1 = reg2 \<or> rects (h reg1) = [])"
      "\<not> (rects (h reg2) = [] \<or> numRects (h reg1) = 1 \<and> covers_extents (extents (h reg1)) (extents (h reg2)))"
      "numRects (h reg2) = 1 \<and> covers_extents (extents (h reg2)) (extents (h reg1))"
    | "\<not> (reg1 = reg2 \<or> rects (h reg1) = [])"
      "\<not> (rects (h reg2) = [] \<or> numRects (h reg1) = 1 \<and> covers_extents (extents (h reg1)) (extents (h reg2)))"
      "\<not> (numRects (h reg2) = 1 \<and> covers_extents (extents (h reg2)) (extents (h reg1)))"
    using single_covers [OF wf] single_covers [OF wf(2,1)] pts_empty [of "h reg1"] pts_empty [of "h reg2"] by blast
  then show ?thesis
  proof cases
    case 1
    then show ?thesis using copy_or_keep_stores [OF wf(2) new] by (simp add: XUnionRegion_def)
  next
    case 2
    then show ?thesis using copy_or_keep_stores [OF wf(1) new] by (auto simp: XUnionRegion_def)
  next
    case 3
    then show ?thesis using copy_or_keep_stores [OF wf(2) new] by (auto simp: XUnionRegion_def)
  next
    case 4
    then have ne: "rects (h reg1) \<noteq> []" "rects (h reg2) \<noteq> []" and dest: "\<not> (newReg = reg1 \<and> newReg = reg2)" by auto
    obtain new where op: "miRegionOp h newReg reg1 reg2 miUnionO (Some miUnionNonO) (Some miUnionNonO) = Some (h(newReg := new))"
      and wf': "wf_rects (rects new)" "size_ok new" and ext: "extents new = extents (h newReg)"
      and rows: "\<forall>y. row (rects new) y = {x. x \<in> row (rects (h reg1)) y \<or> x \<in> row (rects (h reg2)) y}"
      using union_op.miRegionOp_correct [of h reg1 reg2 newReg] wf ne dest by blast
    have pts: "pts new = pts (h reg1) \<union> pts (h reg2)" using rows by (auto simp: pts_row)
    let ?new = "new\<lparr>extents := union_box (extents (h reg1)) (extents (h reg2))\<rparr>"
    have "XUnionRegion h reg1 reg2 newReg = Some (h(newReg := ?new))"
      using 4 op union_extents_eq [of new h newReg reg1 reg2, OF ext] by (auto simp: XUnionRegion_def)
    moreover have pts': "pts ?new = pts (h reg1) \<union> pts (h reg2)" using pts by (simp add: pts_def)
    moreover have "wf_region ?new"
      using wf' is_bbox_Un [OF wf_region_bbox [OF wf(1) ne(1)] wf_region_bbox [OF wf(2) ne(2)]] pts'
      by (intro wf_regionI) (simp_all add: size_ok_def union_box_def)
    ultimately show ?thesis by (simp add: stores_def)
  qed
qed

lemma XXorRegion_stores:
  assumes wf: "wf_region (h sra)" "wf_region (h srb)" and new: "size_ok (h dr)"
    and fresh: "tra \<noteq> trb" "tra \<notin> {sra, srb, dr}" "trb \<notin> {sra, srb, dr}"
  shows "\<exists>h'. XXorRegion h sra srb dr tra trb = Some h' \<and> wf_region (h' dr) \<and>
    pts (h' dr) = (pts (h sra) - pts (h srb)) \<union> (pts (h srb) - pts (h sra)) \<and>
    (\<forall>q. q \<notin> {tra, trb, dr} \<longrightarrow> h' q = h q)"
proof -
  define h0 where "h0 = h(tra := XCreateRegion, trb := XCreateRegion)"
  have h0: "h0 q = h q" if "q \<notin> {tra, trb}" for q using that by (simp add: h0_def)
  have t: "size_ok (h0 tra)" "size_ok (h0 trb)" using fresh by (auto simp: h0_def intro: wf_region_size)
  have h0': "h0 sra = h sra" "h0 srb = h srb" "h0 dr = h dr" using fresh by (simp_all add: h0)
  have "stores (XSubtractRegion h0 sra srb tra) h0 tra (pts (h0 sra) - pts (h0 srb))"
    using wf fresh t by (intro XSubtractRegion_stores) (auto simp: h0')
  then obtain h1 where h1: "XSubtractRegion h0 sra srb tra = Some h1" "wf_region (h1 tra)"
      "pts (h1 tra) = pts (h sra) - pts (h srb)" "\<And>q. q \<noteq> tra \<Longrightarrow> h1 q = h0 q"
    unfolding h0' by (erule storesE)
  have h1': "h1 sra = h sra" "h1 srb = h srb" "h1 dr = h dr" "h1 trb = h0 trb"
    using fresh h1(4) by (auto simp: h0')
  have "stores (XSubtractRegion h1 srb sra trb) h1 trb (pts (h1 srb) - pts (h1 sra))"
    using wf fresh t by (intro XSubtractRegion_stores) (auto simp: h1')
  then obtain h2 where h2: "XSubtractRegion h1 srb sra trb = Some h2" "wf_region (h2 trb)"
      "pts (h2 trb) = pts (h srb) - pts (h sra)" "\<And>q. q \<noteq> trb \<Longrightarrow> h2 q = h1 q"
    unfolding h1' by (erule storesE)
  have h2': "h2 tra = h1 tra" "h2 dr = h dr" using fresh h2(4) by (auto simp: h1')
  have "stores (XUnionRegion h2 tra trb dr) h2 dr (pts (h2 tra) \<union> pts (h2 trb))"
    using h1(2) h2(2) new by (intro XUnionRegion_stores) (auto simp: h2')
  then obtain h3 where h3: "XUnionRegion h2 tra trb dr = Some h3" "wf_region (h3 dr)"
      "pts (h3 dr) = pts (h2 tra) \<union> pts (h2 trb)" "\<And>q. q \<noteq> dr \<Longrightarrow> h3 q = h2 q"
    by (erule storesE)
  have "XXorRegion h sra srb dr tra trb = Some h3"
    using h1(1) h2(1) h3(1) by (simp add: XXorRegion_def Let_def h0_def)
  moreover have "h3 q = h q" if "q \<notin> {tra, trb, dr}" for q
    using that h1(4) [of q] h2(4) [of q] h3(4) [of q] h0 [of q] by simp
  moreover have "pts (h3 dr) = (pts (h sra) - pts (h srb)) \<union> (pts (h srb) - pts (h sra))"
    by (simp only: h3(3) h2' h1(3) h2(3))
  ultimately show ?thesis using h3(2) by blast
qed

lemma single_box_region:
  assumes "bx1 b < bx2 b" "by1 b < by2 b"
  shows "wf_region \<lparr>rsize = 1, rects = [b], extents = b\<rparr>"
    and "pts \<lparr>rsize = 1, rects = [b], extents = b\<rparr> = {bx1 b..<bx2 b} \<times> {by1 b..<by2 b}"
  using assms
  by (cases b; auto simp: wf_region_def wf_rects_def size_ok_def good_bands_Cons sep_Cons ivl_of_def box_at_def
      extents_of_def pts_def INBOX_def)+

lemma XUnionRectWithRegion_stores:
  assumes wf: "wf_region (h source)" and new: "size_ok (h dest)" and loc: "region \<noteq> source" "region \<noteq> dest"
    and rect: "is_short (rect_x rect + rect_width rect)" "is_short (rect_y rect + rect_height rect)"
      "0 < rect_width rect" "0 < rect_height rect"
  shows "\<exists>h'. XUnionRectWithRegion h rect source dest region = Some h' \<and> wf_region (h' dest) \<and>
    pts (h' dest) = {rect_x rect..<rect_x rect + rect_width rect} \<times> {rect_y rect..<rect_y rect + rect_height rect}
                    \<union> pts (h source) \<and>
    (\<forall>q. q \<noteq> dest \<and> q \<noteq> region \<longrightarrow> h' q = h q)"
proof -
  let ?b = "\<lparr>bx1 = rect_x rect, bx2 = to_short (rect_x rect + rect_width rect),
             by1 = rect_y rect, by2 = to_short (rect_y rect + rect_height rect)\<rparr>"
  let ?h = "h(region := \<lparr>rsize = 1, rects = [?b], extents = ?b\<rparr>)"
  have b: "bx1 ?b < bx2 ?b" "by1 ?b < by2 ?b" using rect by simp_all
  have "stores (XUnionRegion ?h region source dest) ?h dest (pts (?h region) \<union> pts (?h source))"
    using wf new loc single_box_region [OF b] by (intro XUnionRegion_stores) auto
  then obtain h' where h': "XUnionRegion ?h region source dest = Some h'" "wf_region (h' dest)"
      "pts (h' dest) = pts (?h region) \<union> pts (?h source)" "\<And>q. q \<noteq> dest \<Longrightarrow> h' q = ?h q"
    by (erule storesE)
  have "XUnionRectWithRegion h rect source dest region = Some h'"
    using rect h'(1) by (simp add: XUnionRectWithRegion_def Let_def)
  moreover have "pts (h' dest) = {rect_x rect..<rect_x rect + rect_width rect} \<times>
      {rect_y rect..<rect_y rect + rect_height rect} \<union> pts (h source)"
    using h'(3) loc(1) rect single_box_region(2) [OF b] by simp
  moreover have "\<forall>q. q \<noteq> dest \<and> q \<noteq> region \<longrightarrow> h' q = h q" using h'(4) by simp
  ultimately show ?thesis using h'(2) by blast
qed

subsection \<open>The contract of the set operations\<close>

text \<open>
  The store the witnesses run on: address 0 holds an L-shape of two bands, address 1 a rectangle
  that overlaps it, every other address a freshly created region.
\<close>

definition demo_store :: store where
  "demo_store =
     (\<lambda>_. XCreateRegion)
     (0 := \<lparr>rsize = 4,
            rects = [\<lparr>bx1 = 0, bx2 = 4, by1 = 0, by2 = 2\<rparr>, \<lparr>bx1 = 6, bx2 = 8, by1 = 0, by2 = 2\<rparr>,
                     \<lparr>bx1 = 0, bx2 = 8, by1 = 2, by2 = 5\<rparr>],
            extents = \<lparr>bx1 = 0, bx2 = 8, by1 = 0, by2 = 5\<rparr>\<rparr>,
      1 := \<lparr>rsize = 1, rects = [\<lparr>bx1 = 2, bx2 = 7, by1 = 1, by2 = 3\<rparr>],
            extents = \<lparr>bx1 = 2, bx2 = 7, by1 = 1, by2 = 3\<rparr>\<rparr>)"

lemma demo_store_wf: "wf_region (demo_store 0)" "wf_region (demo_store 1)" "wf_region (demo_store 2)"
  "size_ok (demo_store 0)" "size_ok (demo_store 1)" "size_ok (demo_store 2)" "size_ok (demo_store 3)"
  by (simp_all add: demo_store_def XCreateRegion_def wf_region_def wf_rects_def good_bands_Cons sep_Cons size_ok_def
      extents_of_def box_at_def ivl_of_def)

text \<open>
  C2: \<open>XUnionRegion\<close> returns with the destination holding the union of the point sets its sources
  had, again banded, coalesced, within its capacity and with exact extents; no other region of the
  store changes. It holds for every way the three addresses may coincide.
\<close>

theorem XUnionRegion_union:
  assumes "wf_region (h reg1)" and "wf_region (h reg2)" and "size_ok (h newReg)"
  shows "\<exists>h'. XUnionRegion h reg1 reg2 newReg = Some h' \<and> wf_region (h' newReg) \<and>
     pts (h' newReg) = pts (h reg1) \<union> pts (h reg2) \<and> (\<forall>q. q \<noteq> newReg \<longrightarrow> h' q = h q)"
  using XUnionRegion_stores [OF assms] by (simp add: stores_def)

lemma XUnionRegion_union_witness:
  "\<exists>h'. XUnionRegion demo_store 0 1 1 = Some h' \<and> wf_region (h' 1) \<and>
     pts (h' 1) = pts (demo_store 0) \<union> pts (demo_store 1) \<and> (\<forall>q. q \<noteq> 1 \<longrightarrow> h' q = demo_store q)"
  by (rule XUnionRegion_union) (use demo_store_wf in simp_all)

text \<open>
  C20: \<open>XIntersectRegion\<close> returns with the destination holding the intersection, with the same
  guarantees, unless all three arguments are one region.
\<close>

theorem XIntersectRegion_intersection:
  assumes "wf_region (h reg1)" and "wf_region (h reg2)" and "size_ok (h newReg)"
    and "newReg \<noteq> reg1 \<or> newReg \<noteq> reg2"
  shows "\<exists>h'. XIntersectRegion h reg1 reg2 newReg = Some h' \<and> wf_region (h' newReg) \<and>
     pts (h' newReg) = pts (h reg1) \<inter> pts (h reg2) \<and> (\<forall>q. q \<noteq> newReg \<longrightarrow> h' q = h q)"
  using XIntersectRegion_stores [OF assms(1-3)] assms(4) by (auto simp: stores_def)

lemma XIntersectRegion_intersection_witness:
  "\<exists>h'. XIntersectRegion demo_store 0 1 0 = Some h' \<and> wf_region (h' 0) \<and>
     pts (h' 0) = pts (demo_store 0) \<inter> pts (demo_store 1) \<and> (\<forall>q. q \<noteq> 0 \<longrightarrow> h' q = demo_store q)"
  by (rule XIntersectRegion_intersection) (use demo_store_wf in simp_all)

text \<open>
  C21: \<open>XSubtractRegion\<close> returns with the destination holding the difference, with the same
  guarantees, unless all three arguments are one region.
\<close>

theorem XSubtractRegion_difference:
  assumes "wf_region (h regM)" and "wf_region (h regS)" and "size_ok (h regD)"
    and "regD \<noteq> regM \<or> regD \<noteq> regS"
  shows "\<exists>h'. XSubtractRegion h regM regS regD = Some h' \<and> wf_region (h' regD) \<and>
     pts (h' regD) = pts (h regM) - pts (h regS) \<and> (\<forall>q. q \<noteq> regD \<longrightarrow> h' q = h q)"
  using XSubtractRegion_stores [OF assms(1-3)] assms(4) by (auto simp: stores_def)

lemma XSubtractRegion_difference_witness:
  "\<exists>h'. XSubtractRegion demo_store 0 1 1 = Some h' \<and> wf_region (h' 1) \<and>
     pts (h' 1) = pts (demo_store 0) - pts (demo_store 1) \<and> (\<forall>q. q \<noteq> 1 \<longrightarrow> h' q = demo_store q)"
  by (rule XSubtractRegion_difference) (use demo_store_wf in simp_all)

text \<open>
  C28: \<open>XXorRegion\<close> returns with the destination holding the symmetric difference, again well
  formed; only the destination and its two temporaries change.
\<close>

theorem XXorRegion_symmetric_difference:
  assumes "wf_region (h sra)" and "wf_region (h srb)" and "size_ok (h dr)"
    and "tra \<noteq> trb" and "tra \<notin> {sra, srb, dr}" and "trb \<notin> {sra, srb, dr}"
  shows "\<exists>h'. XXorRegion h sra srb dr tra trb = Some h' \<and> wf_region (h' dr) \<and>
    pts (h' dr) = (pts (h sra) - pts (h srb)) \<union> (pts (h srb) - pts (h sra)) \<and>
    (\<forall>q. q \<notin> {tra, trb, dr} \<longrightarrow> h' q = h q)"
  by (rule XXorRegion_stores) (fact assms)+

lemma XXorRegion_symmetric_difference_witness:
  "\<exists>h'. XXorRegion demo_store 0 1 0 2 3 = Some h' \<and> wf_region (h' 0) \<and>
    pts (h' 0) = (pts (demo_store 0) - pts (demo_store 1)) \<union> (pts (demo_store 1) - pts (demo_store 0)) \<and>
    (\<forall>q. q \<notin> {2, 3, 0} \<longrightarrow> h' q = demo_store q)"
  by (rule XXorRegion_symmetric_difference) (use demo_store_wf in simp_all)

text \<open>
  \<open>XUnionRectWithRegion\<close> adds exactly the points of the rectangle, for rectangles whose far
  corner still fits a \<open>short\<close>.
\<close>

theorem XUnionRectWithRegion_adds_rectangle:
  assumes "wf_region (h source)" and "size_ok (h dest)" and "region \<noteq> source" and "region \<noteq> dest"
    and "is_short (rect_x rect + rect_width rect)" and "is_short (rect_y rect + rect_height rect)"
    and "0 < rect_width rect" and "0 < rect_height rect"
  shows "\<exists>h'. XUnionRectWithRegion h rect source dest region = Some h' \<and> wf_region (h' dest) \<and>
    pts (h' dest) = {rect_x rect..<rect_x rect + rect_width rect} \<times> {rect_y rect..<rect_y rect + rect_height rect}
                    \<union> pts (h source) \<and>
    (\<forall>q. q \<noteq> dest \<and> q \<noteq> region \<longrightarrow> h' q = h q)"
  by (rule XUnionRectWithRegion_stores) (fact assms)+

lemma XUnionRectWithRegion_adds_rectangle_witness:
  "\<exists>h'. XUnionRectWithRegion demo_store \<lparr>rect_x = -1, rect_y = 3, rect_width = 4, rect_height = 6\<rparr> 0 0 3 = Some h' \<and>
    wf_region (h' 0) \<and> pts (h' 0) = {-1..<3} \<times> {3..<9} \<union> pts (demo_store 0) \<and>
    (\<forall>q. q \<noteq> 0 \<and> q \<noteq> 3 \<longrightarrow> h' q = demo_store q)"
  using XUnionRectWithRegion_adds_rectangle
    [of demo_store 0 0 3 "\<lparr>rect_x = -1, rect_y = 3, rect_width = 4, rect_height = 6\<rparr>"]
  by (simp add: demo_store_wf is_short_def)

end
