(* ===== verification/Xregion_Query.thy ===== *)
theory Xregion_Query
  imports Xregion_Set
begin

text \<open>
  The operations of \<open>Region.c\<close> that only inspect a region (\<open>XEmptyRegion\<close>, \<open>XEqualRegion\<close>,
  \<open>XPointInRegion\<close>, \<open>XRectInRegion\<close>) and the one that moves it in place (\<open>XOffsetRegion\<close>). The
  inspections agree with the point set; equality of the representations is equality of the
  point sets because the banded form is unique.
\<close>

subsection \<open>The operations\<close>

definition XEmptyRegion :: "region \<Rightarrow> bool" where
  "XEmptyRegion r = (if numRects r = 0 then True else False)"

fun rects_equal :: "box list \<Rightarrow> box list \<Rightarrow> bool" where
  "rects_equal (a # as) (b # bs) =
     (if bx1 a \<noteq> bx1 b then False
      else if bx2 a \<noteq> bx2 b then False
      else if by1 a \<noteq> by1 b then False
      else if by2 a \<noteq> by2 b then False
      else rects_equal as bs)"
| "rects_equal _ _ = True"

definition XEqualRegion :: "region \<Rightarrow> region \<Rightarrow> bool" where
  "XEqualRegion r1 r2 =
     (if numRects r1 \<noteq> numRects r2 then False
      else if numRects r1 = 0 then True
      else if bx1 (extents r1) \<noteq> bx1 (extents r2) then False
      else if bx2 (extents r1) \<noteq> bx2 (extents r2) then False
      else if by1 (extents r1) \<noteq> by1 (extents r2) then False
      else if by2 (extents r1) \<noteq> by2 (extents r2) then False
      else rects_equal (rects r1) (rects r2))"

fun some_rect_has :: "box list \<Rightarrow> int \<Rightarrow> int \<Rightarrow> bool" where
  "some_rect_has [] x y = False"
| "some_rect_has (b # bs) x y = (if INBOX b x y then True else some_rect_has bs x y)"

definition XPointInRegion :: "region \<Rightarrow> int \<Rightarrow> int \<Rightarrow> bool" where
  "XPointInRegion pRegion x y =
     (if numRects pRegion = 0 then False
      else if \<not> INBOX (extents pRegion) x y then False
      else some_rect_has (rects pRegion) x y)"

datatype rect_result = RectangleOut | RectangleIn | RectanglePart

text \<open>The loop over the boxes; a \<open>break\<close> returns the current \<open>ry\<close> and \<open>partIn\<close>.\<close>

fun rect_in_loop :: "box list \<Rightarrow> box \<Rightarrow> int \<Rightarrow> int \<Rightarrow> bool \<Rightarrow> bool \<Rightarrow> int \<times> bool" where
  "rect_in_loop [] prect rx ry partIn partOut = (ry, partIn)"
| "rect_in_loop (pbox # pboxes) prect rx ry partIn partOut =
     (if by2 pbox \<le> ry then rect_in_loop pboxes prect rx ry partIn partOut
      else if by1 pbox > ry \<and> (partIn \<or> by1 pbox \<ge> by2 prect) then (ry, partIn)
      else
        let partOut = (partOut \<or> by1 pbox > ry);
            ry = (if by1 pbox > ry then by1 pbox else ry)
        in if bx2 pbox \<le> rx then rect_in_loop pboxes prect rx ry partIn partOut
           else if bx1 pbox > rx \<and> partIn then (ry, partIn)
           else
             let partOut = (partOut \<or> bx1 pbox > rx)
             in if bx1 pbox < bx2 prect \<and> partOut then (ry, True)
                else
                  let partIn = (partIn \<or> bx1 pbox < bx2 prect)
                  in if bx2 pbox \<ge> bx2 prect
                     then let ry = by2 pbox
                          in if ry \<ge> by2 prect then (ry, partIn)
                             else rect_in_loop pboxes prect (bx1 prect) ry partIn partOut
                     else (ry, partIn))"

definition XRectInRegion :: "region \<Rightarrow> int \<Rightarrow> int \<Rightarrow> int \<Rightarrow> int \<Rightarrow> rect_result" where
  "XRectInRegion reg rx ry rwidth rheight =
     (let prect = \<lparr>bx1 = to_short rx, bx2 = to_short (rwidth + rx), by1 = to_short ry, by2 = to_short (rheight + ry)\<rparr>
      in if numRects reg = 0 \<or> \<not> EXTENTCHECK (extents reg) prect then RectangleOut
         else let (ry, partIn) = rect_in_loop (rects reg) prect rx ry False False
              in if partIn then (if ry < by2 prect then RectanglePart else RectangleIn) else RectangleOut)"

definition offset_box :: "box \<Rightarrow> int \<Rightarrow> int \<Rightarrow> box" where
  "offset_box b x y =
     \<lparr>bx1 = to_short (bx1 b + x), bx2 = to_short (bx2 b + x), by1 = to_short (by1 b + y), by2 = to_short (by2 b + y)\<rparr>"

definition XOffsetRegion :: "region \<Rightarrow> int \<Rightarrow> int \<Rightarrow> region" where
  "XOffsetRegion pRegion x y =
     pRegion\<lparr>rects := map (\<lambda>pbox. offset_box pbox x y) (rects pRegion),
             extents := offset_box (extents pRegion) x y\<rparr>"

subsection \<open>Equality and membership\<close>

lemma rects_equal_iff: "length as = length bs \<Longrightarrow> rects_equal as bs \<longleftrightarrow> as = bs"
  by (induction as bs rule: list_induct2) (auto intro: box.equality)

lemma XEqualRegion_iff:
  assumes "wf_region r1" and "wf_region r2"
  shows "XEqualRegion r1 r2 \<longleftrightarrow> pts r1 = pts r2"
proof
  assume "XEqualRegion r1 r2"
  then have "rects r1 = rects r2" by (auto simp: XEqualRegion_def rects_equal_iff split: if_splits)
  then show "pts r1 = pts r2" by (simp add: pts_def)
next
  assume p: "pts r1 = pts r2"
  have "row (rects r1) y = row (rects r2) y" for y
    using p by (auto simp: set_eq_iff pts_row)
  then have eq: "rects r1 = rects r2"
    using assms by (intro wf_rects_unique) (auto simp: wf_region_def)
  then have "rects r1 \<noteq> [] \<Longrightarrow> extents r1 = extents r2" using assms by (simp add: wf_region_def)
  with eq show "XEqualRegion r1 r2"
    by (simp add: XEqualRegion_def rects_equal_iff)
qed

lemma some_rect_has_iff: "some_rect_has bs x y \<longleftrightarrow> (\<exists>b \<in> set bs. INBOX b x y)"
  by (induction bs) auto

lemma XPointInRegion_iff:
  assumes "wf_region r"
  shows "XPointInRegion r x y \<longleftrightarrow> (x, y) \<in> pts r"
proof (cases "rects r = []")
  case False
  have "(x, y) \<in> pts r \<Longrightarrow> INBOX (extents r) x y"
    using is_bboxD(1) [OF wf_region_bbox [OF assms False]] by (auto simp: INBOX_def)
  then show ?thesis using False by (auto simp: XPointInRegion_def some_rect_has_iff pts_def)
qed (simp add: XPointInRegion_def pts_def)

lemma XEmptyRegion_iff: "wf_region r \<Longrightarrow> XEmptyRegion r \<longleftrightarrow> pts r = {}"
proof -
  assume wf: "wf_region r"
  have "rects r \<noteq> [] \<Longrightarrow> pts r \<noteq> {}"
    using is_bboxD(2) [OF wf_region_bbox [OF wf]] by auto
  then show ?thesis by (auto simp: XEmptyRegion_def pts_empty)
qed

subsection \<open>The order of the boxes\<close>

definition box_before :: "box \<Rightarrow> box \<Rightarrow> bool" where
  "box_before a b \<longleftrightarrow> by1 a = by1 b \<and> by2 a = by2 b \<and> bx2 a < bx1 b \<or> by2 a \<le> by1 b"

definition box_ok :: "box \<Rightarrow> bool" where
  "box_ok b \<longleftrightarrow> bx1 b < bx2 b \<and> by1 b < by2 b"

definition yx_sorted :: "box list \<Rightarrow> bool" where
  "yx_sorted rs \<longleftrightarrow> sorted_wrt box_before rs \<and> (\<forall>b \<in> set rs. box_ok b)"

lemma yx_sorted_Cons:
  "yx_sorted (b # bs) \<longleftrightarrow> box_ok b \<and> (\<forall>c \<in> set bs. box_before b c) \<and> yx_sorted bs"
  by (auto simp: yx_sorted_def)

lemma yx_sorted_append:
  "yx_sorted (as @ bs) \<longleftrightarrow> yx_sorted as \<and> yx_sorted bs \<and> (\<forall>a \<in> set as. \<forall>b \<in> set bs. box_before a b)"
  by (auto simp: yx_sorted_def sorted_wrt_append)

lemma yx_sorted_band:
  "y1 < y2 \<Longrightarrow> sep xs \<Longrightarrow> yx_sorted (map (box_at y1 y2) xs)"
  by (induction xs) (auto simp: yx_sorted_Cons sep_Cons box_ok_def box_before_def yx_sorted_def)

lemma yx_sorted_flat: "good_bands bs \<Longrightarrow> yx_sorted (flat bs)"
proof (induction bs)
  case (Cons b bs)
  obtain y1 y2 xs where b: "b = (y1, y2, xs)" by (cases b)
  have "y2 \<le> by1 c" if "c \<in> set (flat bs)" for c
    using that good_bands_Cons_below [of y1 y2 xs bs] Cons.prems by (fastforce simp: b set_flat)
  with Cons show ?case
    by (auto simp: b yx_sorted_append yx_sorted_band good_bands_Cons box_before_def)
qed (simp add: yx_sorted_def)

lemma wf_rects_yx_sorted: "wf_rects rs \<Longrightarrow> yx_sorted rs"
  by (auto elim!: wf_rectsE intro: yx_sorted_flat)

subsection \<open>Rectangle in region\<close>

definition covered :: "box list \<Rightarrow> int \<Rightarrow> int \<Rightarrow> bool" where
  "covered bs x y \<longleftrightarrow> (\<exists>b \<in> set bs. INBOX b x y)"

lemma covered_simps [simp]:
  "covered [] x y = False" "covered (b # bs) x y \<longleftrightarrow> INBOX b x y \<or> covered bs x y"
  by (simp_all add: covered_def)

text \<open>The points of the rectangle above row \<open>ry\<close>, and all of it.\<close>

definition rect_above :: "box \<Rightarrow> int \<Rightarrow> (int \<times> int) set" where
  "rect_above R ry = {bx1 R..<bx2 R} \<times> {by1 R..<ry}"

text \<open>What the loop keeps: rows above \<open>ry\<close> are decided, the rest depends on the boxes to come.\<close>

definition rect_inv :: "(int \<times> int) set \<Rightarrow> box list \<Rightarrow> box \<Rightarrow> int \<Rightarrow> bool \<Rightarrow> bool \<Rightarrow> bool" where
  "rect_inv P bs R ry partIn partOut \<longleftrightarrow>
     yx_sorted bs \<and> box_ok R \<and> by1 R \<le> ry \<and> ry < by2 R \<and> \<not> (partIn \<and> partOut) \<and>
     (if partIn then by1 R < ry \<and> rect_above R ry \<subseteq> P else rect_above R ry \<inter> P = {}) \<and>
     (partOut \<longrightarrow> \<not> rect_above R (by2 R) \<subseteq> P) \<and> (\<not> partIn \<longrightarrow> \<not> partOut \<longrightarrow> ry = by1 R) \<and>
     (\<forall>x y. ry \<le> y \<longrightarrow> bx1 R \<le> x \<longrightarrow> ((x, y) \<in> P \<longleftrightarrow> covered bs x y))"

definition rect_answer :: "(int \<times> int) set \<Rightarrow> box \<Rightarrow> int \<times> bool \<Rightarrow> bool" where
  "rect_answer P R res \<longleftrightarrow>
     (if snd res
      then if fst res < by2 R then rect_above R (by2 R) \<inter> P \<noteq> {} \<and> \<not> rect_above R (by2 R) \<subseteq> P
           else rect_above R (by2 R) \<subseteq> P
      else rect_above R (by2 R) \<inter> P = {})"

lemma rect_above_iff: "(x, y) \<in> rect_above R ry \<longleftrightarrow> bx1 R \<le> x \<and> x < bx2 R \<and> by1 R \<le> y \<and> y < ry"
  by (auto simp: rect_above_def)

lemma answer_part:
  assumes "ry < by2 R" and "(x, y) \<in> rect_above R (by2 R)" "(x, y) \<in> P"
    and "(x', y') \<in> rect_above R (by2 R)" "(x', y') \<notin> P"
  shows "rect_answer P R (ry, True)"
  using assms unfolding rect_answer_def by auto

lemma answer_out:
  assumes "\<And>x y. (x, y) \<in> rect_above R (by2 R) \<Longrightarrow> (x, y) \<notin> P"
  shows "rect_answer P R (ry, False)"
  using assms unfolding rect_answer_def by auto

lemma answer_in:
  assumes "by2 R \<le> ry" and "\<And>x y. (x, y) \<in> rect_above R (by2 R) \<Longrightarrow> (x, y) \<in> P"
  shows "rect_answer P R (ry, True)"
  using assms unfolding rect_answer_def by auto

text \<open>If the loop stops at row \<open>ry\<close> with nothing of the rectangle in the rows left, the flags decide.\<close>

lemma rect_inv_uncovered:
  assumes inv: "rect_inv P bs R ry partIn partOut"
    and rest: "\<And>x y. (x, y) \<in> rect_above R (by2 R) \<Longrightarrow> ry \<le> y \<Longrightarrow> (x, y) \<notin> P"
  shows "rect_answer P R (ry, partIn)"
proof (cases partIn)
  case True
  have R: "box_ok R" "by1 R < ry" "ry < by2 R" "rect_above R ry \<subseteq> P" using inv True by (auto simp: rect_inv_def)
  then have "(bx1 R, by1 R) \<in> rect_above R ry" "(bx1 R, by1 R) \<in> rect_above R (by2 R)" "(bx1 R, ry) \<in> rect_above R (by2 R)"
    by (auto simp: rect_above_iff box_ok_def)
  then show ?thesis using R rest [of "bx1 R" ry] True answer_part [of ry R "bx1 R" "by1 R" P "bx1 R" ry] by auto
next
  case False
  have "(x, y) \<notin> P" if "(x, y) \<in> rect_above R (by2 R)" for x y
  proof (cases "ry \<le> y")
    case True then show ?thesis using rest that by blast
  next
    case f: False
    then have "(x, y) \<in> rect_above R ry" using that by (auto simp: rect_above_iff)
    then show ?thesis using inv False by (auto simp: rect_inv_def)
  qed
  then show ?thesis using False answer_out by simp
qed

lemma rect_inv_skip_band:
  assumes "rect_inv P (b # bs) R ry partIn partOut" and "by2 b \<le> ry \<or> bx2 b \<le> bx1 R"
  shows "rect_inv P bs R ry partIn partOut"
proof -
  have "\<not> INBOX b x y" if "ry \<le> y" "bx1 R \<le> x" for x y using that assms(2) by (auto simp: INBOX_def)
  then show ?thesis using assms(1) by (auto simp: rect_inv_def yx_sorted_Cons)
qed

text \<open>No box covers the rows between \<open>ry\<close> and the first box that starts below it.\<close>

lemma covered_from_hd:
  assumes "yx_sorted (b # bs)" and "covered (b # bs) x y"
  shows "by1 b \<le> y" and "y < by2 b \<Longrightarrow> bx1 b \<le> x" and "\<not> INBOX b x y \<Longrightarrow> y < by2 b \<Longrightarrow> bx2 b < x"
proof -
  have before: "\<And>c. c \<in> set bs \<Longrightarrow> box_before b c" and ok: "box_ok b" using assms(1) by (auto simp: yx_sorted_Cons)
  have "by1 b \<le> y \<and> (y < by2 b \<longrightarrow> bx1 b \<le> x) \<and> (\<not> INBOX b x y \<longrightarrow> y < by2 b \<longrightarrow> bx2 b < x)"
  proof (cases "INBOX b x y")
    case True then show ?thesis by (auto simp: INBOX_def)
  next
    case False
    then obtain c where "c \<in> set bs" "INBOX c x y" using assms(2) by (auto simp: covered_def)
    then show ?thesis using before [of c] ok by (auto simp: INBOX_def box_before_def box_ok_def)
  qed
  then show "by1 b \<le> y" and "y < by2 b \<Longrightarrow> bx1 b \<le> x" and "\<not> INBOX b x y \<Longrightarrow> y < by2 b \<Longrightarrow> bx2 b < x" by auto
qed

lemma rect_inv_missed_rows:
  assumes inv: "rect_inv P (b # bs) R ry False partOut" and b: "ry < by1 b" "by1 b < by2 R"
  shows "rect_inv P (b # bs) R (by1 b) False True"
proof -
  have s: "yx_sorted (b # bs)" "box_ok R" "by1 R \<le> ry"
    and rest: "\<And>x y. ry \<le> y \<Longrightarrow> bx1 R \<le> x \<Longrightarrow> ((x, y) \<in> P \<longleftrightarrow> covered (b # bs) x y)"
    and above: "\<And>x y. (x, y) \<in> rect_above R ry \<Longrightarrow> (x, y) \<notin> P"
    using inv by (auto simp: rect_inv_def)
  have none: "(x, y) \<notin> P" if "(x, y) \<in> rect_above R (by1 b)" for x y
  proof (cases "ry \<le> y")
    case True
    then show ?thesis using that rest [of y x] covered_from_hd(1) [OF s(1), of x y] by (auto simp: rect_above_iff)
  next
    case False
    then show ?thesis using that above [of x y] by (auto simp: rect_above_iff)
  qed
  moreover have "(bx1 R, ry) \<in> rect_above R (by1 b)" using s b by (auto simp: rect_above_iff box_ok_def)
  then have "(bx1 R, ry) \<in> rect_above R (by2 R)" "(bx1 R, ry) \<notin> P" using b none by (auto simp: rect_above_iff)
  ultimately show ?thesis using s b rest unfolding rect_inv_def by auto
qed

lemma rect_inv_in_point:
  assumes "rect_inv P bs R ry True partOut"
  shows "(bx1 R, by1 R) \<in> rect_above R (by2 R)" and "(bx1 R, by1 R) \<in> P"
proof -
  have "(bx1 R, by1 R) \<in> rect_above R ry" "rect_above R ry \<subseteq> P"
    using assms by (auto simp: rect_inv_def rect_above_iff box_ok_def)
  then show "(bx1 R, by1 R) \<in> P" by blast
  show "(bx1 R, by1 R) \<in> rect_above R (by2 R)" using assms by (auto simp: rect_inv_def rect_above_iff box_ok_def)
qed

lemma rect_inv_left_gap:
  assumes "rect_inv P (b # bs) R ry partIn partOut" and "ry < by1 b \<or> bx1 R < bx1 b \<and> ry < by2 b"
  shows "(bx1 R, ry) \<in> rect_above R (by2 R)" and "(bx1 R, ry) \<notin> P"
proof -
  show "(bx1 R, ry) \<in> rect_above R (by2 R)" using assms(1) by (auto simp: rect_inv_def rect_above_def box_ok_def)
  have "yx_sorted (b # bs)" "(bx1 R, ry) \<in> P \<longleftrightarrow> covered (b # bs) (bx1 R) ry" using assms(1) by (auto simp: rect_inv_def)
  then show "(bx1 R, ry) \<notin> P" using assms(2) covered_from_hd(1,2) [of b bs "bx1 R" ry] by auto
qed

lemma rect_inv_out:
  assumes "rect_inv P bs R ry False partOut"
    and "(x, y) \<in> rect_above R (by2 R)" "(x, y) \<notin> P"
  shows "rect_inv P bs R ry False True"
proof -
  have "\<not> rect_above R (by2 R) \<subseteq> P" using assms(2,3) by blast
  then show ?thesis using assms(1) unfolding rect_inv_def by simp
qed

text \<open>The rows the current box decides, when it reaches the right edge of the rectangle.\<close>

lemma rect_inv_band_in:
  assumes inv: "rect_inv P (b # bs) R ry partIn False" and b: "by1 b \<le> ry" "ry < by2 b" "bx1 b \<le> bx1 R" "bx2 R \<le> bx2 b"
  shows "rect_above R (by2 b) \<inter> rect_above R (by2 R) \<subseteq> P"
    and "by2 b < by2 R \<Longrightarrow> rect_inv P bs R (by2 b) True False"
proof -
  have above: "rect_above R ry \<subseteq> P"
    using inv by (cases partIn) (auto simp: rect_inv_def rect_above_def)
  have rest: "\<And>x y. ry \<le> y \<Longrightarrow> bx1 R \<le> x \<Longrightarrow> ((x, y) \<in> P \<longleftrightarrow> covered (b # bs) x y)"
    using inv by (auto simp: rect_inv_def)
  have all: "(x, y) \<in> P" if "(x, y) \<in> rect_above R (by2 b)" for x y
  proof (cases "ry \<le> y")
    case True
    then show ?thesis using that rest [of y x] b by (auto simp: rect_above_iff INBOX_def)
  next
    case False
    then have "(x, y) \<in> rect_above R ry" using that by (auto simp: rect_above_iff)
    then show ?thesis using above by blast
  qed
  then show "rect_above R (by2 b) \<inter> rect_above R (by2 R) \<subseteq> P" by auto
  assume lt: "by2 b < by2 R"
  have "(x, y) \<in> P \<longleftrightarrow> covered bs x y" if "by2 b \<le> y" "bx1 R \<le> x" for x y
    using that rest [of y x] b by (auto simp: INBOX_def)
  then show "rect_inv P bs R (by2 b) True False"
    using lt all inv b unfolding rect_inv_def by (auto simp: yx_sorted_Cons)
qed

lemma rect_inv_band_out:
  assumes inv: "rect_inv P (b # bs) R ry False True" and b: "by1 b \<le> ry" "ry < by2 b" "bx2 R \<le> bx1 b"
  shows "rect_above R (by2 b) \<inter> P = {}"
    and "by2 b < by2 R \<Longrightarrow> rect_inv P bs R (by2 b) False True"
proof -
  have above: "rect_above R ry \<inter> P = {}" and s: "yx_sorted (b # bs)" using inv by (auto simp: rect_inv_def)
  have rest: "\<And>x y. ry \<le> y \<Longrightarrow> bx1 R \<le> x \<Longrightarrow> ((x, y) \<in> P \<longleftrightarrow> covered (b # bs) x y)"
    using inv by (auto simp: rect_inv_def)
  have none: "(x, y) \<notin> P" if "(x, y) \<in> rect_above R (by2 b)" for x y
  proof (cases "ry \<le> y")
    case True
    then show ?thesis using that rest [of y x] b covered_from_hd(2) [OF s, of x y] by (auto simp: rect_above_iff)
  next
    case False
    then have "(x, y) \<in> rect_above R ry" using that by (auto simp: rect_above_iff)
    then show ?thesis using above by blast
  qed
  then show "rect_above R (by2 b) \<inter> P = {}" by auto
  assume lt: "by2 b < by2 R"
  have "(x, y) \<in> P \<longleftrightarrow> covered bs x y" if "by2 b \<le> y" "bx1 R \<le> x" for x y
    using that rest [of y x] b by (auto simp: INBOX_def)
  then show "rect_inv P bs R (by2 b) False True"
    using lt none inv b unfolding rect_inv_def by (auto simp: yx_sorted_Cons)
qed

text \<open>One box, once the rows above it have been accounted for.\<close>

lemma rect_in_loop_box:
  assumes IH: "\<And>ry partIn partOut. rect_inv P bs R ry partIn partOut \<Longrightarrow>
      rect_answer P R (rect_in_loop bs R (bx1 R) ry partIn partOut)"
    and inv: "rect_inv P (b # bs) R ry partIn partOut" and b: "by1 b \<le> ry" "ry < by2 b"
  shows "rect_answer P R (rect_in_loop (b # bs) R (bx1 R) ry partIn partOut)"
proof -
  have R: "ry < by2 R" "by1 R \<le> ry" "box_ok R" and s: "yx_sorted (b # bs)" and flags: "\<not> (partIn \<and> partOut)"
    and rest: "\<And>x y. ry \<le> y \<Longrightarrow> bx1 R \<le> x \<Longrightarrow> ((x, y) \<in> P \<longleftrightarrow> covered (b # bs) x y)"
    using inv by (auto simp: rect_inv_def)
  have lt: "bx1 R < bx2 R" using R(3) by (simp add: box_ok_def)
  consider "bx2 b \<le> bx1 R" | "bx1 R < bx2 b" "bx1 R < bx1 b" "partIn"
    | "bx1 R < bx2 b" "\<not> partIn" "bx1 b < bx2 R" "partOut \<or> bx1 R < bx1 b"
    | "bx1 R < bx2 b" "bx2 R \<le> bx1 b" "\<not> partIn"
    | "bx1 R < bx2 b" "\<not> partOut" "bx1 b \<le> bx1 R" "bx2 R \<le> bx2 b"
    | "bx1 R < bx2 b" "\<not> partOut" "bx1 b \<le> bx1 R" "bx2 b < bx2 R"
    using lt flags by (cases "bx2 b \<le> bx1 R"; cases "bx1 b \<le> bx1 R"; cases "bx1 b < bx2 R"; cases "bx2 R \<le> bx2 b")
      (simp_all add: not_le not_less, blast+)
  then show ?thesis
  proof cases
    case 1
    then show ?thesis using IH [OF rect_inv_skip_band [OF inv]] b by simp
  next
    case 2
    then have i: "rect_inv P (b # bs) R ry True partOut" and gap: "ry < by1 b \<or> bx1 R < bx1 b \<and> ry < by2 b"
      using inv b by simp_all
    show ?thesis
      using answer_part [OF R(1) rect_inv_in_point [OF i] rect_inv_left_gap [OF i gap]] 2 b by simp
  next
    case 3
    then have out: "\<not> rect_above R (by2 R) \<subseteq> P"
      using rect_inv_left_gap [OF inv] b inv by (auto simp: rect_inv_def)
    have "(max (bx1 b) (bx1 R), ry) \<in> P" "(max (bx1 b) (bx1 R), ry) \<in> rect_above R (by2 R)"
      using 3 b R s rest [of ry "max (bx1 b) (bx1 R)"]
      by (auto simp: INBOX_def rect_above_iff box_ok_def max_def yx_sorted_Cons)
    then have "rect_answer P R (ry, True)" using out R(1) by (auto simp: rect_answer_def)
    then show ?thesis using 3 b by simp
  next
    case 4
    then have gap: "bx1 R < bx1 b" "bx2 R \<le> bx2 b" using R(3) s by (auto simp: box_ok_def yx_sorted_Cons)
    have "rect_inv P (b # bs) R ry False True"
      using rect_inv_out [of P "b # bs" R ry partOut] rect_inv_left_gap [OF inv] inv 4 gap b by auto
    note out = rect_inv_band_out [OF this b 4(2)]
    have "by2 R \<le> by2 b \<Longrightarrow> rect_above R (by2 R) \<subseteq> rect_above R (by2 b)" by (auto simp: rect_above_iff)
    then have "by2 R \<le> by2 b \<Longrightarrow> rect_answer P R (by2 b, False)"
      using out(1) by (intro answer_out) blast
    then show ?thesis using 4 gap b IH [OF out(2)] by (simp add: Let_def)
  next
    case 5
    then have lt: "bx1 b < bx2 R" using R(3) by (auto simp: box_ok_def)
    have "rect_inv P (b # bs) R ry partIn False" using inv 5 by simp
    note band = rect_inv_band_in [OF this b 5(3,4)]
    have "by2 R \<le> by2 b \<Longrightarrow> rect_answer P R (by2 b, True)"
      using band(1) by (intro answer_in) (auto simp: rect_above_iff)
    then show ?thesis using 5 b lt IH [OF band(2)] by (simp add: Let_def)
  next
    case 6
    then have lt: "bx1 b < bx2 R" using R(3) by (auto simp: box_ok_def)
    have "(bx1 R, ry) \<in> P" "(bx1 R, ry) \<in> rect_above R (by2 R)" "(bx2 b, ry) \<in> rect_above R (by2 R)"
      using rest [of ry "bx1 R"] 6 b R by (auto simp: INBOX_def rect_above_iff box_ok_def)
    moreover have "(bx2 b, ry) \<notin> P"
      using rest [of ry "bx2 b"] covered_from_hd(3) [OF s, of "bx2 b" ry] 6 b by (auto simp: INBOX_def)
    ultimately have "rect_answer P R (ry, True)" using answer_part [OF R(1)] by blast
    then show ?thesis using 6 b lt by simp
  qed
qed

lemma rect_in_loop_answer:
  "rect_inv P bs R ry partIn partOut \<Longrightarrow> rect_answer P R (rect_in_loop bs R (bx1 R) ry partIn partOut)"
proof (induction bs arbitrary: ry partIn partOut)
  case Nil
  have "(x, y) \<notin> P" if "(x, y) \<in> rect_above R (by2 R)" "ry \<le> y" for x y
    using Nil that by (auto simp: rect_inv_def rect_above_iff)
  then show ?case using rect_inv_uncovered [OF Nil] by simp
next
  case (Cons b bs)
  note inv = Cons.prems
  have ok: "by1 b < by2 b" using inv by (auto simp: rect_inv_def yx_sorted_Cons box_ok_def)
  consider "by2 b \<le> ry" | "ry < by1 b" "partIn" | "ry < by1 b" "\<not> partIn" "by2 R \<le> by1 b"
    | "ry < by1 b" "\<not> partIn" "by1 b < by2 R" | "by1 b \<le> ry" "ry < by2 b" by linarith
  then show ?case
  proof cases
    case 1
    then show ?thesis using Cons.IH [OF rect_inv_skip_band [OF inv]] by simp
  next
    case 2
    then have i: "rect_inv P (b # bs) R ry True partOut" and gap: "ry < by1 b \<or> bx1 R < bx1 b \<and> ry < by2 b"
      using inv by simp_all
    have "ry < by2 R" using inv by (simp add: rect_inv_def)
    then show ?thesis
      using answer_part [OF _ rect_inv_in_point [OF i] rect_inv_left_gap [OF i gap]] 2 ok by simp
  next
    case 3
    have "(x, y) \<notin> P" if "(x, y) \<in> rect_above R (by2 R)" "ry \<le> y" for x y
      using inv that 3 covered_from_hd(1) [of b bs x y] by (auto simp: rect_inv_def rect_above_iff)
    then show ?thesis using rect_inv_uncovered [OF inv] 3 ok by simp
  next
    case 4
    then have "rect_inv P (b # bs) R (by1 b) False True" using rect_inv_missed_rows inv by simp
    then have "rect_answer P R (rect_in_loop (b # bs) R (bx1 R) (by1 b) False True)"
      using Cons.IH ok by (intro rect_in_loop_box) auto
    moreover have "rect_in_loop (b # bs) R (bx1 R) ry partIn partOut = rect_in_loop (b # bs) R (bx1 R) (by1 b) False True"
      using 4 ok by simp
    ultimately show ?thesis by simp
  next
    case 5
    then show ?thesis using Cons.IH inv by (intro rect_in_loop_box) auto
  qed
qed

definition rect_pts :: "int \<Rightarrow> int \<Rightarrow> int \<Rightarrow> int \<Rightarrow> (int \<times> int) set" where
  "rect_pts x y w h = {x..<x + w} \<times> {y..<y + h}"

text \<open>The answer \<open>XRectInRegion\<close> should give.\<close>

definition rect_status :: "(int \<times> int) set \<Rightarrow> (int \<times> int) set \<Rightarrow> rect_result" where
  "rect_status P R =
     (if R \<inter> P = {} then RectangleOut else if R \<subseteq> P then RectangleIn else RectanglePart)"

lemma EXTENTCHECK_rect:
  assumes "wf_region r" and "rects r \<noteq> []" and "\<not> EXTENTCHECK (extents r) R"
  shows "rect_above R (by2 R) \<inter> pts r = {}"
  using is_bboxD(1) [OF wf_region_bbox [OF assms(1,2)]] assms(3)
  by (fastforce simp: EXTENTCHECK_def rect_above_iff)

lemma XRectInRegion_status:
  assumes wf: "wf_region r" and R: "0 < w" "0 < h" "is_short x" "is_short y" "is_short (x + w)" "is_short (y + h)"
  shows "XRectInRegion r x y w h = rect_status (pts r) (rect_pts x y w h)"
proof -
  define R where "R = \<lparr>bx1 = x, bx2 = x + w, by1 = y, by2 = y + h\<rparr>"
  have conv: "\<lparr>bx1 = to_short x, bx2 = to_short (w + x), by1 = to_short y, by2 = to_short (h + y)\<rparr> = R"
    using assms by (simp add: R_def add.commute)
  have sel: "bx1 R = x" "by1 R = y" "bx2 R = x + w" "by2 R = y + h" by (simp_all add: R_def)
  have RP: "rect_above R (by2 R) = rect_pts x y w h" by (simp add: R_def rect_above_def rect_pts_def)
  have ne: "(x, y) \<in> rect_pts x y w h" using R by (auto simp: rect_pts_def)
  show ?thesis
  proof (cases "rects r = [] \<or> \<not> EXTENTCHECK (extents r) R")
    case True
    then have "rect_pts x y w h \<inter> pts r = {}" using EXTENTCHECK_rect [OF wf] pts_empty RP by blast
    then show ?thesis using True by (simp add: XRectInRegion_def conv rect_status_def)
  next
    case False
    have "yx_sorted (rects r)" using wf by (auto simp: wf_region_def intro: wf_rects_yx_sorted)
    then have "rect_inv (pts r) (rects r) R y False False"
      using R(1,2) by (auto simp: rect_inv_def sel box_ok_def rect_above_def covered_def pts_def)
    from rect_in_loop_answer [OF this]
    have "rect_answer (pts r) R (rect_in_loop (rects r) R x y False False)" by (simp only: sel)
    moreover obtain ry partIn where res: "rect_in_loop (rects r) R x y False False = (ry, partIn)" by fastforce
    ultimately have ans: "rect_answer (pts r) R (ry, partIn)" by simp
    have "XRectInRegion r x y w h =
        (if partIn then (if ry < by2 R then RectanglePart else RectangleIn) else RectangleOut)"
      using False by (simp add: XRectInRegion_def conv res)
    moreover have "rect_pts x y w h \<subseteq> pts r \<Longrightarrow> rect_pts x y w h \<inter> pts r \<noteq> {}" using ne by blast
    ultimately show ?thesis
      using ans unfolding rect_answer_def RP rect_status_def
      by (cases partIn; cases "ry < by2 R") simp_all
  qed
qed

subsection \<open>Translation\<close>

definition shift_ivl :: "int \<Rightarrow> ivl \<Rightarrow> ivl" where
  "shift_ivl d p = (fst p + d, snd p + d)"

definition shift_band :: "int \<Rightarrow> int \<Rightarrow> band \<Rightarrow> band" where
  "shift_band x y b = (case b of (y1, y2, xs) \<Rightarrow> (y1 + y, y2 + y, map (shift_ivl x) xs))"

lemma sep_shift [simp]: "sep (map (shift_ivl x) xs) \<longleftrightarrow> sep xs"
  by (induction xs) (auto simp: sep_Cons shift_ivl_def)

lemma good_bands_shift: "good_bands bs \<Longrightarrow> good_bands (map (shift_band x y) bs)"
proof (induction bs)
  case (Cons b bs)
  have "inj (shift_ivl x)" by (auto simp: inj_def shift_ivl_def prod_eq_iff)
  then have "map (shift_ivl x) as = map (shift_ivl x) cs \<longleftrightarrow> as = cs" for as cs by (simp add: inj_map_eq_map)
  with Cons show ?case
    by (cases bs) (auto simp: good_bands_Cons shift_band_def split: prod.splits)
qed simp

definition move_box :: "int \<Rightarrow> int \<Rightarrow> box \<Rightarrow> box" where
  "move_box x y b = \<lparr>bx1 = bx1 b + x, bx2 = bx2 b + x, by1 = by1 b + y, by2 = by2 b + y\<rparr>"

lemma flat_shift: "flat (map (shift_band x y) bs) = map (move_box x y) (flat bs)"
  by (induction bs) (auto simp: shift_band_def boxes_of_def shift_ivl_def move_box_def box_at_def split: prod.splits)

lemma wf_rects_move: "wf_rects rs \<Longrightarrow> wf_rects (map (move_box x y) rs)"
  by (metis flat_shift good_bands_shift wf_rectsE wf_rects_flat)

definition fits_short :: "box \<Rightarrow> bool" where
  "fits_short e \<longleftrightarrow> is_short (bx1 e) \<and> is_short (bx2 e) \<and> is_short (by1 e) \<and> is_short (by2 e)"

lemma offset_box_move: "fits_short (move_box x y b) \<Longrightarrow> offset_box b x y = move_box x y b"
  by (simp add: offset_box_def move_box_def fits_short_def)

lemma box_in_extents:
  assumes "wf_region r" and "b \<in> set (rects r)"
  shows "bx1 (extents r) \<le> bx1 b \<and> bx1 b < bx2 b \<and> bx2 b \<le> bx2 (extents r) \<and>
    by1 (extents r) \<le> by1 b \<and> by1 b < by2 b \<and> by2 b \<le> by2 (extents r)"
proof -
  have "rects r \<noteq> []" using assms(2) by auto
  then have ext: "extents r = extents_of (rects r)" and wf: "wf_rects (rects r)" using assms(1) by (auto simp: wf_region_def)
  have "Min (bx1 ` set (rects r)) \<le> bx1 b" "bx2 b \<le> Max (bx2 ` set (rects r))" using assms(2) by simp_all
  then show ?thesis using wf_rects_bounds [OF wf assms(2)] by (simp add: ext extents_of_def)
qed

definition shift_pts :: "int \<Rightarrow> int \<Rightarrow> (int \<times> int) set \<Rightarrow> (int \<times> int) set" where
  "shift_pts x y P = {(a, b). (a - x, b - y) \<in> P}"

lemma shift_pts_iff [simp]: "(a, b) \<in> shift_pts x y P \<longleftrightarrow> (a - x, b - y) \<in> P"
  by (simp add: shift_pts_def)

lemma is_bbox_move: "is_bbox e P \<Longrightarrow> is_bbox (move_box x y e) (shift_pts x y P)"
proof -
  assume b: "is_bbox e P"
  have "\<exists>v. (bx1 e + x, v) \<in> shift_pts x y P" "\<exists>v. (bx2 e + x - 1, v) \<in> shift_pts x y P"
    using is_bboxD(2,3) [OF b] by (metis shift_pts_iff add_diff_cancel_right' diff_add_eq)+
  moreover have "\<exists>v. (v, by1 e + y) \<in> shift_pts x y P" "\<exists>v. (v, by2 e + y - 1) \<in> shift_pts x y P"
    using is_bboxD(4,5) [OF b] by (metis shift_pts_iff add_diff_cancel_right' diff_add_eq)+
  moreover have "bx1 e + x \<le> a \<and> a < bx2 e + x \<and> by1 e + y \<le> c \<and> c < by2 e + y" if "(a, c) \<in> shift_pts x y P" for a c
    using that is_bboxD(1) [OF b, of "a - x" "c - y"] by auto
  ultimately show ?thesis unfolding is_bbox_def move_box_def box.select_convs by blast
qed

lemma XOffsetRegion_move:
  assumes wf: "wf_region r" and fit: "rects r \<noteq> [] \<Longrightarrow> fits_short (move_box x y (extents r))"
  shows "wf_region (XOffsetRegion r x y)" and "pts (XOffsetRegion r x y) = shift_pts x y (pts r)"
proof -
  have fits: "fits_short (move_box x y b)" if "b \<in> set (rects r)" for b
  proof -
    have "fits_short (move_box x y (extents r))" using that by (intro fit) auto
    then show ?thesis using box_in_extents [OF wf that] by (simp add: fits_short_def move_box_def is_short_def)
  qed
  have rects: "rects (XOffsetRegion r x y) = map (move_box x y) (rects r)"
    using offset_box_move [OF fits] by (simp add: XOffsetRegion_def)
  have "INBOX (move_box x y c) a b \<longleftrightarrow> INBOX c (a - x) (b - y)" for c a b by (auto simp: INBOX_def move_box_def)
  then show p: "pts (XOffsetRegion r x y) = shift_pts x y (pts r)"
    unfolding pts_def shift_pts_def rects by auto
  show "wf_region (XOffsetRegion r x y)"
  proof (rule wf_regionI)
    show "wf_rects (rects (XOffsetRegion r x y))" using wf by (simp add: rects wf_region_def wf_rects_move)
    show "size_ok (XOffsetRegion r x y)" using wf by (simp add: XOffsetRegion_def size_ok_def wf_region_def)
    assume "rects (XOffsetRegion r x y) \<noteq> []"
    then have ne: "rects r \<noteq> []" by (simp add: XOffsetRegion_def)
    then have "extents (XOffsetRegion r x y) = move_box x y (extents r)"
      using offset_box_move [OF fit] by (simp add: XOffsetRegion_def)
    then show "is_bbox (extents (XOffsetRegion r x y)) (pts (XOffsetRegion r x y))"
      using is_bbox_move [OF wf_region_bbox [OF wf ne]] p by simp
  qed
qed

subsection \<open>The contract of the queries\<close>

text \<open>
  two regions are equal for \<open>XEqualRegion\<close>, which compares the arrays, exactly when they hold
  the same points: the banded, coalesced form of a set of points is unique.
\<close>

theorem XEqualRegion_canonical:
  assumes "wf_region r1" and "wf_region r2"
  shows "XEqualRegion r1 r2 \<longleftrightarrow> pts r1 = pts r2"
  by (rule XEqualRegion_iff) (fact assms)+

lemma XEqualRegion_canonical_witness:
  "XEqualRegion (demo_store 0) (demo_store 1) \<longleftrightarrow> pts (demo_store 0) = pts (demo_store 1)"
  by (rule XEqualRegion_canonical) (use demo_store_wf in simp_all)

text \<open>
  \<open>XPointInRegion\<close> decides membership, and \<open>XEmptyRegion\<close> emptiness, of the point set; the
  early test against the extents never gives a wrong answer.
\<close>

theorem XPointInRegion_membership:
  assumes "wf_region r"
  shows "(XPointInRegion r x y \<longleftrightarrow> (x, y) \<in> pts r) \<and> (XEmptyRegion r \<longleftrightarrow> pts r = {})"
  using XPointInRegion_iff [OF assms] XEmptyRegion_iff [OF assms] by simp

lemma XPointInRegion_membership_witness:
  "(XPointInRegion (demo_store 0) 6 1 \<longleftrightarrow> (6, 1) \<in> pts (demo_store 0)) \<and>
   (XEmptyRegion (demo_store 0) \<longleftrightarrow> pts (demo_store 0) = {})"
  by (rule XPointInRegion_membership) (use demo_store_wf in simp)

text \<open>
  \<open>XRectInRegion\<close> answers \<open>RectangleOut\<close>, \<open>RectangleIn\<close> or \<open>RectanglePart\<close> exactly as the
  rectangle is disjoint from, contained in or partly covered by the region, for non-empty
  rectangles whose corners fit a \<open>short\<close>. All the early exits of its loop are sound.
\<close>

theorem XRectInRegion_exact:
  assumes "wf_region r" and "0 < w" and "0 < h"
    and "is_short x" and "is_short y" and "is_short (x + w)" and "is_short (y + h)"
  shows "XRectInRegion r x y w h = rect_status (pts r) (rect_pts x y w h)"
  by (rule XRectInRegion_status) (fact assms)+

lemma XRectInRegion_exact_witness:
  "XRectInRegion (demo_store 0) 3 1 2 2 = rect_status (pts (demo_store 0)) (rect_pts 3 1 2 2)"
  by (rule XRectInRegion_exact) (use demo_store_wf in \<open>simp_all add: is_short_def\<close>)

text \<open>
  \<open>XOffsetRegion\<close> moves the point set by the given distance and keeps the region well formed
  whenever the moved bounding box still fits a \<open>short\<close>.
\<close>

theorem XOffsetRegion_translates:
  assumes "wf_region r" and "fits_short (move_box x y (extents r))"
  shows "wf_region (XOffsetRegion r x y) \<and> pts (XOffsetRegion r x y) = shift_pts x y (pts r)"
  using XOffsetRegion_move [OF assms(1), of x y] assms(2) by simp

lemma XOffsetRegion_translates_witness:
  "wf_region (XOffsetRegion (demo_store 0) 5 (-7)) \<and>
   pts (XOffsetRegion (demo_store 0) 5 (-7)) = shift_pts 5 (-7) (pts (demo_store 0))"
  by (rule XOffsetRegion_translates)
    (use demo_store_wf in \<open>simp_all add: fits_short_def move_box_def is_short_def demo_store_def\<close>)

end
