(* ===== verification/Xregion_Shrink.thy ===== *)
theory Xregion_Shrink
  imports Xregion_Query
begin

text \<open>
  \<open>Compress\<close> and \<open>XShrinkRegion\<close> of \<open>Region.c\<close>: every point of the result is decided by a run of
  points of the region, computed in logarithmically many region operations by doubling the
  length of the run. The loop is a partial function, so that it returns is part of what is
  proved.
\<close>

unbundle bit_operations_syntax

subsection \<open>The operations\<close>

definition ZOpRegion :: "bool \<Rightarrow> store \<Rightarrow> ptr \<Rightarrow> ptr \<Rightarrow> ptr \<Rightarrow> store option" where
  "ZOpRegion grow h a b c = (if grow then XUnionRegion h a b c else XIntersectRegion h a b c)"

definition ZShiftRegion :: "bool \<Rightarrow> store \<Rightarrow> ptr \<Rightarrow> int \<Rightarrow> store" where
  "ZShiftRegion xdir h a b = h(a := if xdir then XOffsetRegion (h a) b 0 else XOffsetRegion (h a) 0 b)"

definition ZCopyRegion :: "store \<Rightarrow> ptr \<Rightarrow> ptr \<Rightarrow> store option" where
  "ZCopyRegion h a b = XUnionRegion h a a b"

text \<open>\<open>dx\<close> and \<open>shift\<close> are unsigned; \<open>shift\<close> starts at 1 and stays at most \<open>dx\<close> until the loop ends.\<close>

partial_function (option) compress_loop ::
  "store \<Rightarrow> ptr \<Rightarrow> ptr \<Rightarrow> ptr \<Rightarrow> nat \<Rightarrow> bool \<Rightarrow> bool \<Rightarrow> nat \<Rightarrow> store option" where
  "compress_loop h r s t dx xdir grow shift =
     (if dx = 0 then Some h
      else do {
        (h, dx) \<leftarrow>
          (if dx AND shift \<noteq> 0
           then do {
             let h = ZShiftRegion xdir h r (- int shift);
             h \<leftarrow> ZOpRegion grow h r s r;
             Some (h, dx - shift)
           }
           else Some (h, dx));
        (if dx = 0 then Some h
         else do {
           h \<leftarrow> ZCopyRegion h s t;
           let h = ZShiftRegion xdir h s (- int shift);
           h \<leftarrow> ZOpRegion grow h s t s;
           compress_loop h r s t dx xdir grow (2 * shift)
         })
      })"

definition Compress :: "store \<Rightarrow> ptr \<Rightarrow> ptr \<Rightarrow> ptr \<Rightarrow> nat \<Rightarrow> bool \<Rightarrow> bool \<Rightarrow> store option" where
  "Compress h r s t dx xdir grow =
     do {
       let shift = 1;
       h \<leftarrow> ZCopyRegion h r s;
       compress_loop h r s t dx xdir grow shift
     }"

text \<open>\<open>s\<close> and \<open>t\<close> are the addresses of the two scratch regions it creates.\<close>

definition XShrinkRegion :: "store \<Rightarrow> ptr \<Rightarrow> int \<Rightarrow> int \<Rightarrow> ptr \<Rightarrow> ptr \<Rightarrow> store option" where
  "XShrinkRegion h r dx dy s t =
     (if dx = 0 \<and> dy = 0 then Some h
      else do {
        let h = h(s := XCreateRegion);
        let h = h(t := XCreateRegion);
        let grow = dx < 0;
        let dx = (if grow then - dx else dx);
        h \<leftarrow> (if dx \<noteq> 0 then Compress h r s t (2 * nat dx) True grow else Some h);
        let grow = dy < 0;
        let dy = (if grow then - dy else dy);
        h \<leftarrow> (if dy \<noteq> 0 then Compress h r s t (2 * nat dy) False grow else Some h);
        Some (h(r := XOffsetRegion (h r) dx dy))
      })"

subsection \<open>Runs of points\<close>

definition step_to :: "bool \<Rightarrow> int \<Rightarrow> int \<times> int \<Rightarrow> int \<times> int" where
  "step_to xdir m p = (if xdir then (fst p + m, snd p) else (fst p, snd p + m))"

text \<open>The points that head a run of length \<open>n\<close>: all of it, or some of it when growing, in \<open>P\<close>.\<close>

definition run_pts :: "bool \<Rightarrow> bool \<Rightarrow> nat \<Rightarrow> (int \<times> int) set \<Rightarrow> (int \<times> int) set" where
  "run_pts grow xdir n P =
     {p. if grow then \<exists>m<n. step_to xdir (int m) p \<in> P else \<forall>m<n. step_to xdir (int m) p \<in> P}"

lemma step_to_add: "step_to xdir a (step_to xdir b p) = step_to xdir (a + b) p"
  by (simp add: step_to_def add.commute add.left_commute)

lemma step_to_0 [simp]: "step_to xdir 0 p = p"
  by (simp add: step_to_def)

lemma run_pts_1 [simp]: "run_pts grow xdir (Suc 0) P = P"
  by (simp add: run_pts_def)

lemma ex_less_add: "(\<exists>m<a + b. Q (m :: nat)) \<longleftrightarrow> (\<exists>m<a. Q m) \<or> (\<exists>m<b. Q (a + m))"
  by (metis add_diff_inverse_nat add_less_cancel_left trans_less_add1)

lemma all_less_add: "(\<forall>m<a + b. Q (m :: nat)) \<longleftrightarrow> (\<forall>m<a. Q m) \<and> (\<forall>m<b. Q (a + m))"
  using ex_less_add [of a b "\<lambda>m. \<not> Q m"] by blast

text \<open>A run of length \<open>a + b\<close> is a run of length \<open>a\<close> and, \<open>a\<close> further on, one of length \<open>b\<close>.\<close>

lemma run_pts_add:
  "p \<in> run_pts grow xdir (a + b) P \<longleftrightarrow>
     (if grow then p \<in> run_pts grow xdir a P \<or> step_to xdir (int a) p \<in> run_pts grow xdir b P
      else p \<in> run_pts grow xdir a P \<and> step_to xdir (int a) p \<in> run_pts grow xdir b P)"
  by (simp add: run_pts_def ex_less_add all_less_add step_to_add add.commute)

definition in_box :: "box \<Rightarrow> (int \<times> int) set \<Rightarrow> bool" where
  "in_box e P \<longleftrightarrow> (\<forall>(x, y) \<in> P. bx1 e \<le> x \<and> x < bx2 e \<and> by1 e \<le> y \<and> y < by2 e)"

text \<open>The box with room for a run that starts \<open>d\<close> points earlier.\<close>

definition stretch :: "bool \<Rightarrow> int \<Rightarrow> box \<Rightarrow> box" where
  "stretch xdir d e = (if xdir then e\<lparr>bx1 := bx1 e - d\<rparr> else e\<lparr>by1 := by1 e - d\<rparr>)"

lemma in_box_run:
  assumes "in_box e P" and "0 < n"
  shows "in_box (stretch xdir (int n - 1) e) (run_pts grow xdir n P)"
proof -
  have "bx1 (stretch xdir (int n - 1) e) \<le> x \<and> x < bx2 (stretch xdir (int n - 1) e) \<and>
      by1 (stretch xdir (int n - 1) e) \<le> y \<and> y < by2 (stretch xdir (int n - 1) e)"
    if "(x, y) \<in> run_pts grow xdir n P" for x y
  proof -
    have "\<exists>m<n. step_to xdir (int m) (x, y) \<in> P"
      using that assms(2) by (cases grow) (auto simp: run_pts_def)
    then obtain m where "m < n" "step_to xdir (int m) (x, y) \<in> P" by blast
    then show ?thesis using assms(1) by (auto simp: in_box_def step_to_def stretch_def split: if_splits)
  qed
  then show ?thesis by (auto simp: in_box_def)
qed

lemma in_box_extents:
  assumes "wf_region r" and "rects r \<noteq> []" and "in_box e (pts r)"
  shows "bx1 e \<le> bx1 (extents r) \<and> bx2 (extents r) \<le> bx2 e \<and> by1 e \<le> by1 (extents r) \<and> by2 (extents r) \<le> by2 e \<and>
    bx1 (extents r) < bx2 (extents r) \<and> by1 (extents r) < by2 (extents r)"
proof -
  note b = is_bboxD [OF wf_region_bbox [OF assms(1,2)]]
  obtain p q u v where m: "(bx1 (extents r), p) \<in> pts r" "(bx2 (extents r) - 1, q) \<in> pts r"
    "(u, by1 (extents r)) \<in> pts r" "(v, by2 (extents r) - 1) \<in> pts r" using b(2-5) by blast
  have e: "\<And>x y. (x, y) \<in> pts r \<Longrightarrow> bx1 e \<le> x \<and> x < bx2 e \<and> by1 e \<le> y \<and> y < by2 e"
    using assms(3) by (auto simp: in_box_def)
  show ?thesis using e [OF m(1)] e [OF m(2)] e [OF m(3)] e [OF m(4)] b(1) [OF m(1)] b(1) [OF m(3)] by simp
qed

lemma is_short_between: "is_short a \<Longrightarrow> is_short c \<Longrightarrow> a \<le> b \<Longrightarrow> b \<le> c \<Longrightarrow> is_short b"
  by (simp add: is_short_def)

lemma ZShiftRegion_run:
  assumes wf: "wf_region (h a)" and box: "in_box (stretch xdir d e) (pts (h a))"
    and room: "fits_short e" "fits_short (stretch xdir D e)" "d + int k \<le> D" "0 \<le> d"
  shows "wf_region (ZShiftRegion xdir h a (- int k) a)"
    and "pts (ZShiftRegion xdir h a (- int k) a) = {p. step_to xdir (int k) p \<in> pts (h a)}"
    and "q \<noteq> a \<Longrightarrow> ZShiftRegion xdir h a (- int k) q = h q"
proof -
  have fit: "fits_short (move_box (if xdir then - int k else 0) (if xdir then 0 else - int k) (extents (h a)))"
    if "rects (h a) \<noteq> []"
    using in_box_extents [OF wf that box] room
    by (auto simp: fits_short_def move_box_def stretch_def is_short_def split: if_splits)
  have shift: "ZShiftRegion xdir h a (- int k) a =
      XOffsetRegion (h a) (if xdir then - int k else 0) (if xdir then 0 else - int k)"
    by (simp add: ZShiftRegion_def)
  show "wf_region (ZShiftRegion xdir h a (- int k) a)"
    and "pts (ZShiftRegion xdir h a (- int k) a) = {p. step_to xdir (int k) p \<in> pts (h a)}"
    unfolding shift using XOffsetRegion_move [OF wf fit] by (auto simp: shift_pts_def step_to_def)
  show "q \<noteq> a \<Longrightarrow> ZShiftRegion xdir h a (- int k) q = h q" by (simp add: ZShiftRegion_def)
qed

lemma ZOpRegion_run:
  assumes wf: "wf_region (h a)" "wf_region (h b)" and ne: "a \<noteq> b"
    and a: "pts (h a) = {p. step_to xdir (int k) p \<in> run_pts grow xdir n P}"
    and b: "pts (h b) = run_pts grow xdir k P"
  shows "stores (ZOpRegion grow h a b a) h a (run_pts grow xdir (k + n) P)"
proof -
  have "run_pts grow xdir (k + n) P = (if grow then pts (h a) \<union> pts (h b) else pts (h a) \<inter> pts (h b))"
    unfolding a b by (auto simp: run_pts_add)
  then show ?thesis
    using XUnionRegion_stores [of h a b a] XIntersectRegion_stores [of h a b a] wf ne wf_region_size [OF wf(1)]
    by (simp add: ZOpRegion_def)
qed

subsection \<open>The doubling loop\<close>

text \<open>
  At the head of the loop \<open>r\<close> holds the runs of length \<open>n + 1\<close> and \<open>s\<close> those of length \<open>shift\<close>
  (the invariant the comment at \<open>Compress\<close> states); \<open>t\<close> and the rest of the store are as before.
\<close>

definition compress_inv ::
  "store \<Rightarrow> ptr \<Rightarrow> ptr \<Rightarrow> ptr \<Rightarrow> bool \<Rightarrow> bool \<Rightarrow> (int \<times> int) set \<Rightarrow> nat \<Rightarrow> nat \<Rightarrow> store \<Rightarrow> bool" where
  "compress_inv h0 r s t xdir grow P n shift h \<longleftrightarrow>
     wf_region (h r) \<and> wf_region (h s) \<and> size_ok (h t) \<and>
     pts (h r) = run_pts grow xdir (n + 1) P \<and> pts (h s) = run_pts grow xdir shift P \<and>
     (\<forall>q. q \<notin> {r, s, t} \<longrightarrow> h q = h0 q)"

lemma compress_add_run:
  assumes inv: "compress_inv h0 r s t xdir grow P n shift h" and ne: "r \<noteq> s" "r \<noteq> t"
    and room: "in_box e P" "fits_short e" "fits_short (stretch xdir (int D) e)" "n + shift \<le> D"
  shows "\<exists>h'. ZOpRegion grow (ZShiftRegion xdir h r (- int shift)) r s r = Some h' \<and>
    compress_inv h0 r s t xdir grow P (n + shift) shift h'"
proof -
  define h1 where "h1 = ZShiftRegion xdir h r (- int shift)"
  have wf: "wf_region (h r)" "wf_region (h s)" and p: "pts (h r) = run_pts grow xdir (n + 1) P"
    "pts (h s) = run_pts grow xdir shift P" and frame: "\<forall>q. q \<notin> {r, s, t} \<longrightarrow> h q = h0 q" "size_ok (h t)"
    using inv by (auto simp: compress_inv_def)
  have "in_box (stretch xdir (int n) e) (pts (h r))"
    using in_box_run [OF room(1), of "n + 1" xdir grow] p by simp
  note h1 = ZShiftRegion_run [of h r xdir "int n" e "int D" shift, OF wf(1) this room(2,3), folded h1_def]
  have s: "h1 s = h s" using h1(3) ne room(4) by simp
  have "stores (ZOpRegion grow h1 r s r) h1 r (run_pts grow xdir (shift + (n + 1)) P)"
    using h1(1,2) room(4) wf(2) p ne s by (intro ZOpRegion_run) auto
  then obtain h2 where h2: "ZOpRegion grow h1 r s r = Some h2" "wf_region (h2 r)"
      "pts (h2 r) = run_pts grow xdir (shift + (n + 1)) P" "\<And>q. q \<noteq> r \<Longrightarrow> h2 q = h1 q"
    by (erule storesE)
  have other: "h2 q = h q" if "q \<noteq> r" for q using h2(4) [OF that] h1(3) [OF _ _ that] room(4) by simp
  have "compress_inv h0 r s t xdir grow P (n + shift) shift h2"
    using h2(2,3) other [of s] other [of t] ne wf p frame other
    by (simp add: compress_inv_def add.commute add.left_commute)
  then show ?thesis using h2(1) unfolding h1_def by blast
qed

lemma compress_double:
  assumes inv: "compress_inv h0 r s t xdir grow P n shift h" and ne: "r \<noteq> s" "r \<noteq> t" "s \<noteq> t" and pos: "0 < shift"
    and room: "in_box e P" "fits_short e" "fits_short (stretch xdir (int D) e)" "2 * shift \<le> D"
  shows "\<exists>h1 h2. ZCopyRegion h s t = Some h1 \<and> ZOpRegion grow (ZShiftRegion xdir h1 s (- int shift)) s t s = Some h2 \<and>
    compress_inv h0 r s t xdir grow P n (2 * shift) h2"
proof -
  have wf: "wf_region (h r)" "wf_region (h s)" "size_ok (h t)" and p: "pts (h r) = run_pts grow xdir (n + 1) P"
    "pts (h s) = run_pts grow xdir shift P" and frame: "\<forall>q. q \<notin> {r, s, t} \<longrightarrow> h q = h0 q"
    using inv by (auto simp: compress_inv_def)
  have "stores (ZCopyRegion h s t) h t (pts (h s) \<union> pts (h s))"
    unfolding ZCopyRegion_def using wf by (intro XUnionRegion_stores) auto
  then obtain h1 where h1: "ZCopyRegion h s t = Some h1" "wf_region (h1 t)" "pts (h1 t) = pts (h s)"
      "\<And>q. q \<noteq> t \<Longrightarrow> h1 q = h q"
    by (elim storesE) simp
  have s1: "h1 s = h s" using h1(4) ne by simp
  define h2 where "h2 = ZShiftRegion xdir h1 s (- int shift)"
  have b: "in_box (stretch xdir (int shift - 1) e) (pts (h1 s))"
    using in_box_run [OF room(1) pos, of xdir grow] p s1 by simp
  have wf1: "wf_region (h1 s)" using wf s1 by simp
  note z = ZShiftRegion_run [of h1 s xdir "int shift - 1" e "int D" shift, OF wf1 b room(2,3), folded h2_def]
  have t: "h2 t = h1 t" using z(3) ne room(4) pos by simp
  have "stores (ZOpRegion grow h2 s t s) h2 s (run_pts grow xdir (shift + shift) P)"
    using z(1,2) room(4) pos h1(2,3) p ne s1 t by (intro ZOpRegion_run) auto
  then obtain h3 where h3: "ZOpRegion grow h2 s t s = Some h3" "wf_region (h3 s)"
      "pts (h3 s) = run_pts grow xdir (shift + shift) P" "\<And>q. q \<noteq> s \<Longrightarrow> h3 q = h2 q"
    by (erule storesE)
  have other: "h3 q = h1 q" if "q \<noteq> s" for q using h3(4) [OF that] z(3) [OF _ _ that] room(4) pos by simp
  have "compress_inv h0 r s t xdir grow P n (2 * shift) h3"
    using h3(2,3) other h1 ne wf p frame wf_region_size [OF h1(2)]
    by (simp add: compress_inv_def mult_2)
  then show ?thesis using h1(1) h3(1) unfolding h2_def by blast
qed

lemma and_power_of_two: "(2 ^ k * j) AND (2 ^ k) \<noteq> (0 :: nat) \<longleftrightarrow> odd j"
proof -
  have "(2 ^ k * j) AND (2 ^ k) = (0 :: nat) \<longleftrightarrow> \<not> bit (2 ^ k * j) k" by (rule and_exp_eq_0_iff_not_bit)
  then show ?thesis by (simp add: bit_iff_odd)
qed

lemma compress_loop_run:
  assumes ne: "r \<noteq> s" "r \<noteq> t" "s \<noteq> t"
    and room: "in_box e P" "fits_short e" "fits_short (stretch xdir (int D) e)"
  shows "compress_inv h0 r s t xdir grow P n (2 ^ k) h \<Longrightarrow> 2 ^ k * j + n = D \<Longrightarrow>
    \<exists>h'. compress_loop h r s t (2 ^ k * j) xdir grow (2 ^ k) = Some h' \<and>
      (\<exists>shift. compress_inv h0 r s t xdir grow P D shift h')"
proof (induction j arbitrary: h k n rule: less_induct)
  case (less j)
  show ?case
  proof (cases "j = 0")
    case True
    then show ?thesis using less.prems by (auto simp: compress_loop.simps)
  next
    case False
    define n' where "n' = (if odd j then n + 2 ^ k else n)"
    define j' where "j' = j div 2"
    have j: "2 ^ k * j = (if odd j then 2 ^ k else 0) + 2 ^ (Suc k) * j'" and lt: "j' < j" and D: "2 ^ (Suc k) * j' + n' = D"
      using False less.prems(2) by (auto simp: j'_def n'_def algebra_simps elim!: oddE evenE)
    define start where "start = (if (2 ^ k * j) AND 2 ^ k \<noteq> 0
           then do { let h = ZShiftRegion xdir h r (- int (2 ^ k)); h \<leftarrow> ZOpRegion grow h r s r; Some (h, 2 ^ k * j - 2 ^ k) }
           else Some (h, 2 ^ k * j))"
    have "\<exists>h1. start = Some (h1, 2 ^ (Suc k) * j') \<and> compress_inv h0 r s t xdir grow P n' (2 ^ k) h1"
    proof (cases "odd j")
      case True
      then have "n + 2 ^ k \<le> D" using D by (simp add: n'_def)
      then obtain h1 where "ZOpRegion grow (ZShiftRegion xdir h r (- int (2 ^ k))) r s r = Some h1"
        "compress_inv h0 r s t xdir grow P (n + 2 ^ k) (2 ^ k) h1"
        using compress_add_run [OF less.prems(1) ne(1,2) room] by blast
      then show ?thesis unfolding start_def and_power_of_two using True j by (simp add: n'_def)
    next
      case even: False
      then show ?thesis unfolding start_def and_power_of_two using less.prems(1) j by (simp add: n'_def)
    qed
    then obtain h1 where h1: "start = Some (h1, 2 ^ (Suc k) * j')" "compress_inv h0 r s t xdir grow P n' (2 ^ k) h1" by blast
    have step: "compress_loop h r s t (2 ^ k * j) xdir grow (2 ^ k) =
        (if j' = 0 then Some h1
         else do { h \<leftarrow> ZCopyRegion h1 s t; h \<leftarrow> ZOpRegion grow (ZShiftRegion xdir h s (- int (2 ^ k))) s t s;
           compress_loop h r s t (2 ^ (Suc k) * j') xdir grow (2 ^ (Suc k)) })"
      using False h1(1) by (subst compress_loop.simps, fold start_def) simp
    show ?thesis
    proof (cases "j' = 0")
      case True
      then show ?thesis using step h1(2) D by auto
    next
      case more: False
      then have "2 * 2 ^ k \<le> D" using D by (cases j') auto
      then obtain h2 h3 where "ZCopyRegion h1 s t = Some h2"
          "ZOpRegion grow (ZShiftRegion xdir h2 s (- int (2 ^ k))) s t s = Some h3"
          "compress_inv h0 r s t xdir grow P n' (2 ^ (Suc k)) h3"
        using compress_double [OF h1(2) ne _ room] by auto
      then show ?thesis using step more less.IH [OF lt _ D] by simp
    qed
  qed
qed

lemma Compress_run:
  assumes ne: "r \<noteq> s" "r \<noteq> t" "s \<noteq> t" and wf: "wf_region (h r)" "size_ok (h s)" "size_ok (h t)"
    and room: "in_box e (pts (h r))" "fits_short e" "fits_short (stretch xdir (int D) e)"
  shows "\<exists>h'. Compress h r s t D xdir grow = Some h' \<and> wf_region (h' r) \<and> wf_region (h' s) \<and> size_ok (h' t) \<and>
    pts (h' r) = run_pts grow xdir (D + 1) (pts (h r)) \<and> (\<forall>q. q \<notin> {r, s, t} \<longrightarrow> h' q = h q)"
proof -
  have "stores (ZCopyRegion h r s) h s (pts (h r) \<union> pts (h r))"
    unfolding ZCopyRegion_def using wf by (intro XUnionRegion_stores) auto
  then obtain h1 where h1: "ZCopyRegion h r s = Some h1" "wf_region (h1 s)" "pts (h1 s) = pts (h r)"
      "\<And>q. q \<noteq> s \<Longrightarrow> h1 q = h q"
    by (elim storesE) simp
  have "compress_inv h r s t xdir grow (pts (h r)) 0 (2 ^ 0) h1"
    using h1 ne wf by (simp add: compress_inv_def)
  from compress_loop_run [OF ne room this, of D]
  obtain h' shift where "compress_loop h1 r s t D xdir grow 1 = Some h'"
      "compress_inv h r s t xdir grow (pts (h r)) D shift h'" by auto
  then show ?thesis using h1(1) by (auto simp: Compress_def compress_inv_def)
qed

subsection \<open>Shrinking and growing\<close>

text \<open>
  What shrinking by \<open>d\<close> along one axis means: all points within \<open>d\<close> belong to the set; a negative
  \<open>d\<close> grows: some point within \<open>-d\<close> does.
\<close>

definition shrink_pts :: "bool \<Rightarrow> int \<Rightarrow> (int \<times> int) set \<Rightarrow> (int \<times> int) set" where
  "shrink_pts xdir d P =
     {p. if d < 0 then \<exists>m. \<bar>m\<bar> \<le> - d \<and> step_to xdir m p \<in> P else \<forall>m. \<bar>m\<bar> \<le> d \<longrightarrow> step_to xdir m p \<in> P}"

lemma ex_centred: "(\<exists>m. \<bar>m\<bar> \<le> int u \<and> Q m) \<longleftrightarrow> (\<exists>n < 2 * u + 1. Q (int n - int u))"
proof
  assume "\<exists>m. \<bar>m\<bar> \<le> int u \<and> Q m"
  then obtain m where m: "\<bar>m\<bar> \<le> int u" "Q m" by blast
  then have "nat (m + int u) < 2 * u + 1" "Q (int (nat (m + int u)) - int u)" by auto
  then show "\<exists>n < 2 * u + 1. Q (int n - int u)" by blast
next
  assume "\<exists>n < 2 * u + 1. Q (int n - int u)"
  then obtain n where "n < 2 * u + 1" "Q (int n - int u)" by blast
  then show "\<exists>m. \<bar>m\<bar> \<le> int u \<and> Q m" by (intro exI [of _ "int n - int u"]) auto
qed

lemma run_centred:
  "step_to xdir (- \<bar>d\<bar>) p \<in> run_pts (d < 0) xdir (2 * nat \<bar>d\<bar> + 1) P \<longleftrightarrow> p \<in> shrink_pts xdir d P"
proof -
  have u: "int (nat \<bar>d\<bar>) = \<bar>d\<bar>" by simp
  have ex: "(\<exists>m. \<bar>m\<bar> \<le> \<bar>d\<bar> \<and> Q m) \<longleftrightarrow> (\<exists>n < 2 * nat \<bar>d\<bar> + 1. Q (int n - \<bar>d\<bar>))" for Q
    using ex_centred [of "nat \<bar>d\<bar>" Q] by (simp only: u)
  have all: "(\<forall>m. \<bar>m\<bar> \<le> \<bar>d\<bar> \<longrightarrow> Q m) \<longleftrightarrow> (\<forall>n < 2 * nat \<bar>d\<bar> + 1. Q (int n - \<bar>d\<bar>))" for Q
    using ex [of "\<lambda>m. \<not> Q m"] by blast
  show ?thesis
  proof (cases "d < 0")
    case True
    then have "\<bar>d\<bar> = - d" by simp
    then show ?thesis using True ex [of "\<lambda>m. step_to xdir m p \<in> P"]
      by (simp only: run_pts_def shrink_pts_def mem_Collect_eq if_True step_to_add diff_conv_add_uminus)
  next
    case False
    then have "\<bar>d\<bar> = d" by simp
    then show ?thesis using False all [of "\<lambda>m. step_to xdir m p \<in> P"]
      by (simp only: run_pts_def shrink_pts_def mem_Collect_eq if_False step_to_add diff_conv_add_uminus)
  qed
qed

lemma step_to_commute: "step_to True a (step_to False b p) = step_to False b (step_to True a p)"
  by (simp add: step_to_def)

lemma shrink_step: "step_to True a p \<in> shrink_pts False d Q \<longleftrightarrow> p \<in> shrink_pts False d {q. step_to True a q \<in> Q}"
  by (simp add: shrink_pts_def step_to_commute)

definition room_to_shrink :: "box \<Rightarrow> int \<Rightarrow> int \<Rightarrow> bool" where
  "room_to_shrink e dx dy \<longleftrightarrow>
     fits_short e \<and> fits_short (stretch False (2 * \<bar>dy\<bar>) (stretch True (2 * \<bar>dx\<bar>) e)) \<and>
     fits_short (move_box \<bar>dx\<bar> \<bar>dy\<bar> e)"

text \<open>One axis of the shrink, which does nothing for distance 0.\<close>

lemma shrink_axis:
  assumes ne: "r \<noteq> s" "r \<noteq> t" "s \<noteq> t" and wf: "wf_region (h r)" "size_ok (h s)" "size_ok (h t)"
    and room: "in_box e (pts (h r))" "fits_short e" "fits_short (stretch xdir (2 * int u) e)"
  shows "\<exists>h'. (if u \<noteq> 0 then Compress h r s t (2 * u) xdir grow else Some h) = Some h' \<and>
    wf_region (h' r) \<and> size_ok (h' s) \<and> size_ok (h' t) \<and>
    pts (h' r) = run_pts grow xdir (2 * u + 1) (pts (h r)) \<and> (\<forall>q. q \<notin> {r, s, t} \<longrightarrow> h' q = h q)"
proof (cases "u = 0")
  case True
  then show ?thesis using wf by simp
next
  case False
  obtain h' where "Compress h r s t (2 * u) xdir grow = Some h'" "wf_region (h' r)" "wf_region (h' s)" "size_ok (h' t)"
    "pts (h' r) = run_pts grow xdir (2 * u + 1) (pts (h r))" "\<forall>q. q \<notin> {r, s, t} \<longrightarrow> h' q = h q"
    using Compress_run [OF ne wf room(1,2), of xdir "2 * u" grow] room(3) by auto
  then show ?thesis using False wf_region_size by auto
qed

lemma XShrinkRegion_pts:
  assumes wf: "wf_region (h r)" and ne: "r \<noteq> s" "r \<noteq> t" "s \<noteq> t" and room: "room_to_shrink (extents (h r)) dx dy"
  shows "\<exists>h'. XShrinkRegion h r dx dy s t = Some h' \<and> wf_region (h' r) \<and>
    pts (h' r) = shrink_pts False dy (shrink_pts True dx (pts (h r))) \<and> (\<forall>q. q \<notin> {r, s, t} \<longrightarrow> h' q = h q)"
proof (cases "dx = 0 \<and> dy = 0")
  case True
  then show ?thesis using wf by (simp add: XShrinkRegion_def shrink_pts_def step_to_def)
next
  case False
  define e where "e = extents (h r)"
  define u where "u = nat \<bar>dx\<bar>"
  define v where "v = nat \<bar>dy\<bar>"
  define e1 where "e1 = stretch True (2 * int u) e"
  define h0 where "h0 = h(s := XCreateRegion, t := XCreateRegion)"
  have uv: "\<bar>dx\<bar> = int u" "\<bar>dy\<bar> = int v" by (simp_all add: u_def v_def)
  have fits: "fits_short e" "fits_short (stretch False (2 * int v) e1)" "fits_short (move_box (int u) (int v) e)"
    using room by (simp_all add: room_to_shrink_def uv e_def e1_def)
  then have fits1: "fits_short e1" by (auto simp: fits_short_def e1_def stretch_def)
  have h0: "h0 r = h r" "size_ok (h0 s)" "size_ok (h0 t)" using ne by (simp_all add: h0_def wf_region_size)
  have "in_box e (pts (h r))"
    using is_bboxD(1) [OF wf_region_bbox [OF wf]] pts_empty [of "h r"] by (auto simp: in_box_def e_def)
  then have box: "in_box e (pts (h0 r))" by (simp add: h0)
  obtain h1 where h1: "(if u \<noteq> 0 then Compress h0 r s t (2 * u) True (dx < 0) else Some h0) = Some h1"
    "wf_region (h1 r)" "size_ok (h1 s)" "size_ok (h1 t)"
    "pts (h1 r) = run_pts (dx < 0) True (2 * u + 1) (pts (h r))" "\<And>q. q \<notin> {r, s, t} \<Longrightarrow> h1 q = h0 q"
    using shrink_axis [OF ne _ h0(2,3) box fits(1) fits1 [unfolded e1_def], of "dx < 0"] wf h0(1) by auto
  have box1: "in_box e1 (pts (h1 r))"
    using in_box_run [OF box, of "2 * u + 1" True "dx < 0"] h1(5) by (simp add: h0 e1_def)
  obtain h2 where h2: "(if v \<noteq> 0 then Compress h1 r s t (2 * v) False (dy < 0) else Some h1) = Some h2"
    "wf_region (h2 r)" "pts (h2 r) = run_pts (dy < 0) False (2 * v + 1) (pts (h1 r))"
    "\<And>q. q \<notin> {r, s, t} \<Longrightarrow> h2 q = h1 q"
    using shrink_axis [OF ne h1(2-4) box1 fits1 fits(2), of "dy < 0"] by auto
  have box2: "in_box (stretch False (2 * int v) e1) (pts (h2 r))"
    using in_box_run [OF box1, of "2 * v + 1" False "dy < 0"] h2(3) by simp
  have "fits_short (move_box (int u) (int v) (extents (h2 r)))" if "rects (h2 r) \<noteq> []"
    using in_box_extents [OF h2(2) that box2] fits
    by (simp add: fits_short_def move_box_def stretch_def e1_def is_short_def)
  note off = XOffsetRegion_move [OF h2(2) this]
  define h3 where "h3 = h2(r := XOffsetRegion (h2 r) (int u) (int v))"
  have dx: "(if dx < 0 then - dx else dx) = int u" and dy: "(if dy < 0 then - dy else dy) = int v"
    using uv by auto
  have run: "XShrinkRegion h r dx dy s t = Some h3"
    using False h1(1) h2(1) by (auto simp: XShrinkRegion_def Let_def dx dy h3_def h0_def [symmetric] split: if_splits)
  have "(x, y) \<in> pts (h3 r) \<longleftrightarrow> (x, y) \<in> shrink_pts False dy (shrink_pts True dx (pts (h r)))" for x y
  proof -
    have "(x, y) \<in> pts (h3 r) \<longleftrightarrow> step_to False (- \<bar>dy\<bar>) (step_to True (- \<bar>dx\<bar>) (x, y)) \<in> pts (h2 r)"
      by (simp add: h3_def off(2) step_to_def uv)
    also have "\<dots> \<longleftrightarrow> step_to True (- \<bar>dx\<bar>) (x, y) \<in> shrink_pts False dy (pts (h1 r))"
      unfolding h2(3) v_def by (rule run_centred)
    also have "\<dots> \<longleftrightarrow> (x, y) \<in> shrink_pts False dy (shrink_pts True dx (pts (h r)))"
      unfolding shrink_step h1(5) u_def run_centred by simp
    finally show ?thesis .
  qed
  moreover have "h3 q = h q" if "q \<notin> {r, s, t}" for q
    using that h1(6) [OF that] h2(4) [OF that] by (simp add: h3_def h0_def)
  moreover have "wf_region (h3 r)" using off(1) by (simp add: h3_def)
  ultimately show ?thesis using run by (auto simp: set_eq_iff)
qed

text \<open>
  C27: \<open>XShrinkRegion\<close> returns, and leaves the points all of whose neighbours within the given
  distance along each axis belonged to the region; with a negative distance, the points that had
  such a neighbour. The region stays well formed and only it and the two scratch regions change.
  The doubling loop of \<open>Compress\<close> needs room for runs that start twice the distance earlier.
\<close>

theorem XShrinkRegion_erodes:
  assumes "wf_region (h r)" and "r \<noteq> s" and "r \<noteq> t" and "s \<noteq> t" and "room_to_shrink (extents (h r)) dx dy"
  shows "\<exists>h'. XShrinkRegion h r dx dy s t = Some h' \<and> wf_region (h' r) \<and>
    pts (h' r) = shrink_pts False dy (shrink_pts True dx (pts (h r))) \<and> (\<forall>q. q \<notin> {r, s, t} \<longrightarrow> h' q = h q)"
  by (rule XShrinkRegion_pts) (fact assms)+

lemma XShrinkRegion_erodes_witness:
  "\<exists>h'. XShrinkRegion demo_store 0 1 (-2) 2 3 = Some h' \<and> wf_region (h' 0) \<and>
    pts (h' 0) = shrink_pts False (-2) (shrink_pts True 1 (pts (demo_store 0))) \<and>
    (\<forall>q. q \<notin> {0, 2, 3} \<longrightarrow> h' q = demo_store q)"
  by (rule XShrinkRegion_erodes)
    (use demo_store_wf in \<open>simp_all add: room_to_shrink_def fits_short_def stretch_def move_box_def is_short_def demo_store_def\<close>)

end
