(* ===== verification/Rfb_Rect.thy ===== *)
theory Rfb_Rect
  imports Prelude
begin

text \<open>
  \<open>rfb::Point\<close> and \<open>rfb::Rect\<close> of \<open>common/rfb/Rect.h\<close>, and what each operation does to the set of
  pixels a rectangle covers. The fields are C++ \<open>int\<close>s holding screen coordinates, far from the
  bounds of \<open>int\<close>; only \<open>area\<close> multiplies, and its conversion to \<open>unsigned int\<close> is written out.
\<close>

subsection \<open>Points\<close>

record Point =
  px :: int
  py :: int

definition point_negate :: "Point \<Rightarrow> Point" where
  "point_negate p = \<lparr>px = - px p, py = - py p\<rparr>"

definition point_equals :: "Point \<Rightarrow> Point \<Rightarrow> bool" where
  "point_equals p q \<longleftrightarrow> px p = px q \<and> py p = py q"

definition point_translate :: "Point \<Rightarrow> Point \<Rightarrow> Point" where
  "point_translate p q = \<lparr>px = px p + px q, py = py p + py q\<rparr>"

definition point_subtract :: "Point \<Rightarrow> Point \<Rightarrow> Point" where
  "point_subtract p q = \<lparr>px = px p - px q, py = py p - py q\<rparr>"

subsection \<open>Rectangles\<close>

record Rect =
  r_tl :: Point
  r_br :: Point

definition mkRect :: "int \<Rightarrow> int \<Rightarrow> int \<Rightarrow> int \<Rightarrow> Rect" where
  "mkRect x1 y1 x2 y2 = \<lparr>r_tl = \<lparr>px = x1, py = y1\<rparr>, r_br = \<lparr>px = x2, py = y2\<rparr>\<rparr>"

definition setXYWH :: "int \<Rightarrow> int \<Rightarrow> int \<Rightarrow> int \<Rightarrow> Rect" where
  "setXYWH x y w h = \<lparr>r_tl = \<lparr>px = x, py = y\<rparr>, r_br = \<lparr>px = x + w, py = y + h\<rparr>\<rparr>"

definition rect_is_empty :: "Rect \<Rightarrow> bool" where
  "rect_is_empty r \<longleftrightarrow> px (r_tl r) \<ge> px (r_br r) \<or> py (r_tl r) \<ge> py (r_br r)"

definition rect_intersect :: "Rect \<Rightarrow> Rect \<Rightarrow> Rect" where
  "rect_intersect a r =
     (let tx = max (px (r_tl a)) (px (r_tl r));
          ty = max (py (r_tl a)) (py (r_tl r))
      in \<lparr>r_tl = \<lparr>px = tx, py = ty\<rparr>,
          r_br = \<lparr>px = max (min (px (r_br a)) (px (r_br r))) tx, py = max (min (py (r_br a)) (py (r_br r))) ty\<rparr>\<rparr>)"

definition union_boundary :: "Rect \<Rightarrow> Rect \<Rightarrow> Rect" where
  "union_boundary a r =
     (if rect_is_empty r then a
      else if rect_is_empty a then r
      else \<lparr>r_tl = \<lparr>px = min (px (r_tl a)) (px (r_tl r)), py = min (py (r_tl a)) (py (r_tl r))\<rparr>,
            r_br = \<lparr>px = max (px (r_br a)) (px (r_br r)), py = max (py (r_br a)) (py (r_br r))\<rparr>\<rparr>)"

definition rect_translate :: "Rect \<Rightarrow> Point \<Rightarrow> Rect" where
  "rect_translate r p = \<lparr>r_tl = point_translate (r_tl r) p, r_br = point_translate (r_br r) p\<rparr>"

definition rect_equals :: "Rect \<Rightarrow> Rect \<Rightarrow> bool" where
  "rect_equals a r \<longleftrightarrow> point_equals (r_tl r) (r_tl a) \<and> point_equals (r_br r) (r_br a)"

definition rect_clear :: Rect where
  "rect_clear = \<lparr>r_tl = \<lparr>px = 0, py = 0\<rparr>, r_br = \<lparr>px = 0, py = 0\<rparr>\<rparr>"

definition enclosed_by :: "Rect \<Rightarrow> Rect \<Rightarrow> bool" where
  "enclosed_by a r \<longleftrightarrow>
     px (r_tl a) \<ge> px (r_tl r) \<and> py (r_tl a) \<ge> py (r_tl r) \<and> px (r_br a) \<le> px (r_br r) \<and> py (r_br a) \<le> py (r_br r)"

definition rect_overlaps :: "Rect \<Rightarrow> Rect \<Rightarrow> bool" where
  "rect_overlaps a r \<longleftrightarrow>
     px (r_tl a) < px (r_br r) \<and> py (r_tl a) < py (r_br r) \<and> px (r_br a) > px (r_tl r) \<and> py (r_br a) > py (r_tl r)"

definition rect_width :: "Rect \<Rightarrow> int" where
  "rect_width r = px (r_br r) - px (r_tl r)"

definition rect_height :: "Rect \<Rightarrow> int" where
  "rect_height r = py (r_br r) - py (r_tl r)"

definition rect_area :: "Rect \<Rightarrow> int" where
  "rect_area r =
     (if rect_is_empty r then 0
      else (px (r_br r) - px (r_tl r)) * (py (r_br r) - py (r_tl r)) mod 2 ^ 32)"

definition rect_dimensions :: "Rect \<Rightarrow> Point" where
  "rect_dimensions r = \<lparr>px = rect_width r, py = rect_height r\<rparr>"

definition rect_contains :: "Rect \<Rightarrow> Point \<Rightarrow> bool" where
  "rect_contains r p \<longleftrightarrow>
     px (r_tl r) \<le> px p \<and> py (r_tl r) \<le> py p \<and> px (r_br r) > px p \<and> py (r_br r) > py p"

subsection \<open>The pixels of a rectangle\<close>

definition rpts :: "Rect \<Rightarrow> (int \<times> int) set" where
  "rpts r = {px (r_tl r)..<px (r_br r)} \<times> {py (r_tl r)..<py (r_br r)}"

lemma rpts_iff: "(x, y) \<in> rpts r \<longleftrightarrow> px (r_tl r) \<le> x \<and> x < px (r_br r) \<and> py (r_tl r) \<le> y \<and> y < py (r_br r)"
  by (auto simp: rpts_def)

lemma rpts_empty: "rpts r = {} \<longleftrightarrow> rect_is_empty r"
  by (auto simp: rpts_def rect_is_empty_def)

lemma rpts_mkRect [simp]: "rpts (mkRect x1 y1 x2 y2) = {x1..<x2} \<times> {y1..<y2}"
  by (simp add: rpts_def mkRect_def)

lemma rpts_intersect: "rpts (rect_intersect a b) = rpts a \<inter> rpts b"
  by (auto simp: rpts_def rect_intersect_def Let_def)

lemma rpts_translate: "(x, y) \<in> rpts (rect_translate r p) \<longleftrightarrow> (x - px p, y - py p) \<in> rpts r"
  by (auto simp: rpts_iff rect_translate_def point_translate_def)

lemma rect_contains_iff: "rect_contains r p \<longleftrightarrow> (px p, py p) \<in> rpts r"
  by (auto simp: rect_contains_def rpts_iff)

lemma rect_equals_iff: "rect_equals a b \<longleftrightarrow> a = b"
  by (cases a; cases b; cases "r_tl a"; cases "r_br a"; cases "r_tl b"; cases "r_br b")
    (auto simp: rect_equals_def point_equals_def)

lemma enclosed_by_iff: "\<not> rect_is_empty a \<Longrightarrow> enclosed_by a b \<longleftrightarrow> rpts a \<subseteq> rpts b"
  by (auto simp: enclosed_by_def rpts_def rect_is_empty_def times_subset_iff)

lemma rect_overlaps_iff:
  assumes "\<not> rect_is_empty a" and "\<not> rect_is_empty b"
  shows "rect_overlaps a b \<longleftrightarrow> rpts a \<inter> rpts b \<noteq> {}"
proof -
  have "rpts a \<inter> rpts b = rpts (rect_intersect a b)" by (simp add: rpts_intersect)
  then show ?thesis
    using assms by (simp add: rpts_empty) (auto simp: rect_overlaps_def rect_is_empty_def rect_intersect_def Let_def)
qed

lemma union_boundary_covers: "rpts a \<union> rpts b \<subseteq> rpts (union_boundary a b)"
  using rpts_empty [of a] rpts_empty [of b] by (auto simp: union_boundary_def rpts_iff)

lemma union_boundary_least:
  assumes "rpts a \<union> rpts b \<subseteq> rpts c"
  shows "rpts (union_boundary a b) \<subseteq> rpts c"
proof (cases "rect_is_empty a \<or> rect_is_empty b")
  case True
  then show ?thesis using assms by (auto simp: union_boundary_def)
next
  case False
  then have "enclosed_by a c" "enclosed_by b c" using assms by (simp_all add: enclosed_by_iff)
  with False show ?thesis by (auto simp: union_boundary_def enclosed_by_def rpts_iff)
qed

lemma rect_area_card:
  assumes "rect_width r < 65536" and "rect_height r < 65536"
  shows "rect_area r = int (card (rpts r))"
proof (cases "rect_is_empty r")
  case True
  then show ?thesis using rpts_empty [of r] by (simp add: rect_area_def)
next
  case False
  then have pos: "0 < rect_width r" "0 < rect_height r" by (auto simp: rect_is_empty_def rect_width_def rect_height_def)
  then have "rect_width r * rect_height r \<le> 65535 * 65535" using assms by (intro mult_mono) auto
  then have "rect_width r * rect_height r < 2 ^ 32" by simp
  moreover have "0 \<le> rect_width r * rect_height r" using pos by simp
  ultimately have "rect_area r = rect_width r * rect_height r"
    using False by (simp add: rect_area_def rect_width_def rect_height_def)
  then show ?thesis using pos by (simp add: rpts_def card_cartesian_product rect_width_def rect_height_def)
qed

subsection \<open>The contract\<close>

text \<open>
  \<open>Rect::intersect\<close> covers exactly the common pixels, also when there are none, and
  \<open>Rect::union_boundary\<close> is the least rectangle that covers both arguments.
\<close>

theorem rect_lattice:
  "rpts (rect_intersect a b) = rpts a \<inter> rpts b \<and>
   rpts a \<union> rpts b \<subseteq> rpts (union_boundary a b) \<and>
   (rpts a \<union> rpts b \<subseteq> rpts c \<longrightarrow> rpts (union_boundary a b) \<subseteq> rpts c)"
  using union_boundary_least rpts_intersect union_boundary_covers by simp

lemma rect_lattice_witness:
  "rpts (union_boundary (mkRect 0 0 2 2) (mkRect 5 1 9 4)) \<subseteq> rpts (mkRect 0 0 9 4)"
  using rect_lattice [of "mkRect 0 0 2 2" "mkRect 5 1 9 4" "mkRect 0 0 9 4"] by auto

end
