(* ===== verification/Rfb_Region.thy ===== *)
theory Rfb_Region
  imports Xregion_Shrink Rfb_Rect "HOL-Library.Signed_Division"
begin

text \<open>
  The C++ class \<open>rfb::Region\<close> (\<open>common/rfb/Region.h\<close>, \<open>Region.cxx\<close>) over the Xregion model. A
  method takes the store and the address of the \<open>xrgn\<close> structure of each object involved, so
  that calls on one object twice are covered; the value-level forms used by the callers below
  run the method on a store of distinct objects. The locale at the end states what the callers
  rely on.
\<close>

subsection \<open>Construction and assignment\<close>

text \<open>\<open>_RectRegion\<close>: a temporary one-rectangle region, only ever passed as a source.\<close>

definition RectRegion :: "Rect \<Rightarrow> region" where
  "RectRegion r =
     (let e = \<lparr>bx1 = to_short (px (r_tl r)), bx2 = to_short (px (r_br r)),
               by1 = to_short (py (r_tl r)), by2 = to_short (py (r_br r))\<rparr>
      in \<lparr>rsize = 1, rects = (if rect_is_empty r then [] else [e]), extents = e\<rparr>)"

definition region_clear :: "region \<Rightarrow> region" where
  "region_clear xrgn = xrgn\<lparr>rects := [], extents := empty_box\<rparr>"

text \<open>\<open>reset\<close> writes \<open>rects[0]\<close>, so it needs a capacity of at least one box.\<close>

definition region_reset :: "region \<Rightarrow> Rect \<Rightarrow> region option" where
  "region_reset xrgn r =
     (if rect_is_empty r then Some (region_clear xrgn)
      else if rsize xrgn < 1 then None
      else let e = \<lparr>bx1 = to_short (px (r_tl r)), bx2 = to_short (px (r_br r)),
                    by1 = to_short (py (r_tl r)), by2 = to_short (py (r_br r))\<rparr>
           in Some (xrgn\<lparr>rects := [e], extents := e\<rparr>))"

definition Region_of_rect :: "Rect \<Rightarrow> region option" where
  "Region_of_rect r = region_reset XCreateRegion r"

definition Region_copy_at :: "store \<Rightarrow> ptr \<Rightarrow> ptr \<Rightarrow> store option" where
  "Region_copy_at h this r = XUnionRegion (h(this := XCreateRegion)) this r this"

definition op_assign_at :: "store \<Rightarrow> ptr \<Rightarrow> ptr \<Rightarrow> store option" where
  "op_assign_at h this r = (let h = h(this := region_clear (h this)) in XUnionRegion h this r this)"

definition copyFrom_at :: "store \<Rightarrow> ptr \<Rightarrow> ptr \<Rightarrow> store option" where
  "copyFrom_at h this r = XUnionRegion h r r this"

definition assign_intersect_at :: "store \<Rightarrow> ptr \<Rightarrow> ptr \<Rightarrow> store option" where
  "assign_intersect_at h this r = XIntersectRegion h this r this"

definition assign_union_at :: "store \<Rightarrow> ptr \<Rightarrow> ptr \<Rightarrow> store option" where
  "assign_union_at h this r = XUnionRegion h this r this"

definition assign_subtract_at :: "store \<Rightarrow> ptr \<Rightarrow> ptr \<Rightarrow> store option" where
  "assign_subtract_at h this r = XSubtractRegion h this r this"

text \<open>The operators that return a new region, whose object is \<open>ret\<close>.\<close>

definition intersect_at :: "store \<Rightarrow> ptr \<Rightarrow> ptr \<Rightarrow> ptr \<Rightarrow> store option" where
  "intersect_at h this r ret = XIntersectRegion (h(ret := XCreateRegion)) this r ret"

definition union_at :: "store \<Rightarrow> ptr \<Rightarrow> ptr \<Rightarrow> ptr \<Rightarrow> store option" where
  "union_at h this r ret = XUnionRegion (h(ret := XCreateRegion)) this r ret"

definition subtract_at :: "store \<Rightarrow> ptr \<Rightarrow> ptr \<Rightarrow> ptr \<Rightarrow> store option" where
  "subtract_at h this r ret = XSubtractRegion (h(ret := XCreateRegion)) this r ret"

definition region_translate :: "region \<Rightarrow> Point \<Rightarrow> region" where
  "region_translate xrgn delta = XOffsetRegion xrgn (px delta) (py delta)"

definition region_equals :: "region \<Rightarrow> region \<Rightarrow> bool" where
  "region_equals xrgn r = XEqualRegion xrgn r"

definition region_numRects :: "region \<Rightarrow> nat" where
  "region_numRects xrgn = numRects xrgn"

definition region_is_empty :: "region \<Rightarrow> bool" where
  "region_is_empty xrgn \<longleftrightarrow> region_numRects xrgn = 0"

definition get_bounding_rect :: "region \<Rightarrow> Rect" where
  "get_bounding_rect xrgn =
     mkRect (bx1 (extents xrgn)) (by1 (extents xrgn)) (bx2 (extents xrgn)) (by2 (extents xrgn))"

fun add_ordered :: "store \<Rightarrow> ptr \<Rightarrow> Rect list \<Rightarrow> ptr \<Rightarrow> store option" where
  "add_ordered h this [] rr = Some h"
| "add_ordered h this (r # rs) rr =
     do { h \<leftarrow> XUnionRegion (h(rr := RectRegion r)) this rr this; add_ordered h this rs rr }"

definition setOrderedRects_at :: "store \<Rightarrow> ptr \<Rightarrow> Rect list \<Rightarrow> ptr \<Rightarrow> store option" where
  "setOrderedRects_at h this rs rr = (let h = h(this := region_clear (h this)) in add_ordered h this rs rr)"

text \<open>\<open>setExtentsAndOrderedRects\<close>; a \<open>ShortRect\<close> is the box with the same corners.\<close>

definition setExtentsAndOrderedRects :: "region \<Rightarrow> box \<Rightarrow> box list \<Rightarrow> region option" where
  "setExtentsAndOrderedRects xrgn ext rs =
     (let nRects = int (length rs)
      in if rsize xrgn < nRects \<and> \<not> Xrealloc_ok (nRects * sizeof_BOX) then None
         else Some \<lparr>rsize = (if rsize xrgn < nRects then nRects else rsize xrgn), rects = rs, extents = ext\<rparr>)"

subsection \<open>Value-level forms\<close>

text \<open>A store whose first objects are the given ones.\<close>

definition cells :: "region list \<Rightarrow> store" where
  "cells rs p = (if p < length rs then rs ! p else XCreateRegion)"

definition on_two :: "(store \<Rightarrow> ptr \<Rightarrow> ptr \<Rightarrow> store option) \<Rightarrow> region \<Rightarrow> region \<Rightarrow> region option" where
  "on_two f this r = map_option (\<lambda>h. h 0) (f (cells [this, r]) 0 1)"

definition into_new :: "(store \<Rightarrow> ptr \<Rightarrow> ptr \<Rightarrow> ptr \<Rightarrow> store option) \<Rightarrow> region \<Rightarrow> region \<Rightarrow> region option" where
  "into_new f this r = map_option (\<lambda>h. h 2) (f (cells [this, r]) 0 1 2)"

definition op_assign :: "region \<Rightarrow> region \<Rightarrow> region option" where
  "op_assign = on_two op_assign_at"

definition assign_intersect :: "region \<Rightarrow> region \<Rightarrow> region option" where
  "assign_intersect = on_two assign_intersect_at"

definition assign_union :: "region \<Rightarrow> region \<Rightarrow> region option" where
  "assign_union = on_two assign_union_at"

definition assign_subtract :: "region \<Rightarrow> region \<Rightarrow> region option" where
  "assign_subtract = on_two assign_subtract_at"

definition region_intersect :: "region \<Rightarrow> region \<Rightarrow> region option" where
  "region_intersect = into_new intersect_at"

definition region_union :: "region \<Rightarrow> region \<Rightarrow> region option" where
  "region_union = into_new union_at"

definition region_subtract :: "region \<Rightarrow> region \<Rightarrow> region option" where
  "region_subtract = into_new subtract_at"

definition Region_copy :: "region \<Rightarrow> region option" where
  "Region_copy r = on_two Region_copy_at XCreateRegion r"

subsection \<open>Listing the rectangles\<close>

text \<open>
  \<open>get_rects\<close>: the boxes of one band after the other, in the asked order, each cut into pieces of
  at most \<open>maxArea\<close> pixels where its width allows it. The indices run past both ends of the
  array, hence \<open>int\<close>. A negative \<open>maxArea\<close> would not stop the inner loop.
\<close>

partial_function (option) push_pieces :: "box \<Rightarrow> int \<Rightarrow> int \<Rightarrow> Rect list option" where
  "push_pieces b y h =
     (let h = (if h > by2 b - y then by2 b - y else h);
          r = mkRect (bx1 b) y (bx2 b) (y + h);
          y = y + h
      in if y < by2 b then do { rs \<leftarrow> push_pieces b y h; Some (r # rs) } else Some [r])"

definition push_box :: "box \<Rightarrow> int \<Rightarrow> Rect list option" where
  "push_box b maxArea =
     (let y = by1 b;
          h = maxArea sdiv (bx2 b - bx1 b);
          h = (if h = 0 then by2 b - y else h)
      in push_pieces b y h)"

text \<open>Counts the boxes of the band at \<open>i\<close>; yields \<open>firstInNextBand\<close>, \<open>nRects\<close> and \<open>nRectsInBand\<close>.\<close>

fun scan_band :: "box list \<Rightarrow> int \<Rightarrow> int \<Rightarrow> int \<Rightarrow> nat \<Rightarrow> nat \<Rightarrow> int \<times> nat \<times> nat" where
  "scan_band rs yInc i firstInNextBand 0 nRectsInBand = (firstInNextBand, 0, nRectsInBand)"
| "scan_band rs yInc i firstInNextBand (Suc nRects) nRectsInBand =
     (if by1 (rs ! nat firstInNextBand) = by1 (rs ! nat i)
      then scan_band rs yInc i (firstInNextBand + yInc) nRects (nRectsInBand + 1)
      else (firstInNextBand, Suc nRects, nRectsInBand))"

fun push_band :: "box list \<Rightarrow> int \<Rightarrow> int \<Rightarrow> nat \<Rightarrow> int \<Rightarrow> Rect list option" where
  "push_band rs xInc i 0 maxArea = Some []"
| "push_band rs xInc i (Suc nRectsInBand) maxArea =
     do {
       r1 \<leftarrow> push_box (rs ! nat i) maxArea;
       r2 \<leftarrow> push_band rs xInc (i + xInc) nRectsInBand maxArea;
       Some (r1 @ r2)
     }"

lemma scan_band_le: "fst (snd (scan_band rs yInc i f n k)) \<le> n"
  by (induction rs yInc i f n k rule: scan_band.induct) (auto intro: le_SucI)

function get_rects_loop :: "box list \<Rightarrow> int \<Rightarrow> int \<Rightarrow> int \<Rightarrow> nat \<Rightarrow> int \<Rightarrow> Rect list option" where
  "get_rects_loop rs xInc yInc i nRects maxArea =
     (if nRects > 0
      then let (firstInNextBand, nRects', nRectsInBand) = scan_band rs yInc i i nRects 0;
               i' = (if xInc \<noteq> yInc then firstInNextBand - yInc else i)
           in do {
             r1 \<leftarrow> push_band rs xInc i' nRectsInBand maxArea;
             r2 \<leftarrow> get_rects_loop rs xInc yInc firstInNextBand nRects' maxArea;
             Some (r1 @ r2)
           }
      else Some [])"
  by pat_completeness auto

termination get_rects_loop
proof (relation "measure (\<lambda>(_, _, _, _, n, _). n)", goal_cases)
  case (2 rs xInc yInc i nRects maxArea x f y n' k i' r1)
  then obtain m where m: "nRects = Suc m" by (cases nRects) auto
  then have "n' = fst (snd (scan_band rs yInc i (i + yInc) m 1))" using 2 by (metis One_nat_def add_0 fst_conv plus_1_eq_Suc scan_band.simps(2) snd_conv)
  then show ?case using scan_band_le [of rs yInc i "i + yInc" m 1] m by simp
qed simp

declare get_rects_loop.simps [simp del]

definition get_rects :: "region \<Rightarrow> bool \<Rightarrow> bool \<Rightarrow> int \<Rightarrow> Rect list option" where
  "get_rects xrgn left2right topdown maxArea =
     (let nRects = numRects xrgn;
          xInc = (if left2right then 1 else - 1);
          yInc = (if topdown then 1 else - 1);
          i = (if topdown then 0 else int nRects - 1)
      in get_rects_loop (rects xrgn) xInc yInc i nRects maxArea)"

subsection \<open>The order of the rectangles\<close>

fun push_all :: "box list \<Rightarrow> int \<Rightarrow> Rect list option" where
  "push_all [] maxArea = Some []"
| "push_all (b # bs) maxArea = do { r1 \<leftarrow> push_box b maxArea; r2 \<leftarrow> push_all bs maxArea; Some (r1 @ r2) }"

lemma push_all_append:
  "push_all (as @ bs) m = do { r1 \<leftarrow> push_all as m; r2 \<leftarrow> push_all bs m; Some (r1 @ r2) }"
  by (induction as) (auto split: bind_split)

lemma push_band_forward:
  "k + n \<le> length rs \<Longrightarrow> push_band rs 1 (int k) n m = push_all (take n (drop k rs)) m"
proof (induction n arbitrary: k)
  case (Suc n)
  then have "take (Suc n) (drop k rs) = rs ! k # take n (drop (Suc k) rs)" by (simp add: Cons_nth_drop_Suc [symmetric])
  with Suc.IH [of "Suc k"] Suc.prems show ?case by (simp add: add.commute)
qed simp

lemma push_band_backward:
  "k + n \<le> length rs \<Longrightarrow> push_band rs (- 1) (int (k + n) - 1) n m = push_all (rev (take n (drop k rs))) m"
proof (induction n)
  case (Suc n)
  then have "rev (take (Suc n) (drop k rs)) = rs ! (k + n) # rev (take n (drop k rs))"
    by (simp add: take_Suc_conv_app_nth)
  with Suc show ?case by (simp add: nat_add_distrib)
qed simp

lemma scan_band_forward:
  "k + n = length rs \<Longrightarrow> scan_band rs 1 i (int k) n c =
     (let t = length (takeWhile (\<lambda>b. by1 b = by1 (rs ! nat i)) (drop k rs)) in (int (k + t), n - t, c + t))"
proof (induction n arbitrary: k c)
  case (Suc n)
  then have "drop k rs = rs ! k # drop (Suc k) rs" by (simp add: Cons_nth_drop_Suc)
  with Suc.IH [of "Suc k" "Suc c"] Suc.prems show ?case by (simp add: Let_def add.commute)
qed simp

lemma scan_band_backward:
  "n \<le> length rs \<Longrightarrow> scan_band rs (- 1) i (int n - 1) n c =
     (let t = length (takeWhile (\<lambda>b. by1 b = by1 (rs ! nat i)) (rev (take n rs))) in (int n - 1 - int t, n - t, c + t))"
proof (induction n arbitrary: c)
  case (Suc n)
  then have "rev (take (Suc n) rs) = rs ! n # rev (take n rs)" by (simp add: take_Suc_conv_app_nth)
  with Suc.IH [of "Suc c"] Suc.prems show ?case by (simp add: Let_def)
qed simp

definition in_order :: "bool \<Rightarrow> 'a list \<Rightarrow> 'a list" where
  "in_order forward xs = (if forward then xs else rev xs)"

definition ordered :: "bool \<Rightarrow> bool \<Rightarrow> band list \<Rightarrow> box list" where
  "ordered left2right topdown bs = concat (map (\<lambda>b. in_order left2right (boxes_of b)) (in_order topdown bs))"

definition step_of :: "bool \<Rightarrow> int" where
  "step_of forward = (if forward then 1 else - 1)"

lemma push_band_order:
  assumes "k + n \<le> length rs"
  shows "push_band rs (step_of l) (if l then int k else int (k + n) - 1) n m = push_all (in_order l (take n (drop k rs))) m"
  using push_band_forward [OF assms] push_band_backward [OF assms] by (simp add: step_of_def in_order_def)

lemma boxes_ne: "good_bands (b # bs) \<Longrightarrow> boxes_of b \<noteq> []"
  by (cases b) (simp add: good_bands_Cons)

lemma band_takeWhile:
  assumes "good_bands (b # bs)"
  shows "takeWhile (\<lambda>c. by1 c = by1 (hd (boxes_of b))) (flat (b # bs)) = boxes_of b"
proof -
  obtain y1 y2 xs where b: "b = (y1, y2, xs)" by (cases b)
  have "by1 (hd (boxes_of b)) = y1" using boxes_ne [OF assms] by (simp add: b hd_map)
  then show ?thesis using flat_first_band(1) [of y1 y2 xs bs] assms by (simp add: b)
qed

lemma get_rects_loop_down:
  "good_bands bs \<Longrightarrow> drop k rs = flat bs \<Longrightarrow> k + n = length rs \<Longrightarrow>
   get_rects_loop rs (step_of l) 1 (int k) n m = push_all (ordered l True bs) m"
proof (induction bs arbitrary: k n)
  case Nil
  then have "n = 0" by simp
  then show ?case by (simp add: get_rects_loop.simps ordered_def in_order_def)
next
  case (Cons b bs)
  let ?t = "length (boxes_of b)"
  have ne: "boxes_of b \<noteq> []" using Cons.prems(1) by (rule boxes_ne)
  have drop: "drop k rs = boxes_of b @ flat bs" using Cons.prems(2) by simp
  have n: "n = ?t + length (flat bs)" using Cons.prems(2,3) by (metis add_left_cancel append_take_drop_id diff_add_inverse drop length_append length_drop)
  then have pos: "0 < n" using ne by simp
  have "rs ! k = hd (boxes_of b)" using drop ne pos Cons.prems(3) by (metis hd_append2 hd_drop_conv_nth less_add_same_cancel1)
  then have "takeWhile (\<lambda>c. by1 c = by1 (rs ! nat (int k))) (drop k rs) = boxes_of b"
    using band_takeWhile [OF Cons.prems(1)] Cons.prems(2) by simp
  then have scan: "scan_band rs 1 (int k) (int k) n 0 = (int (k + ?t), length (flat bs), ?t)"
    using scan_band_forward [OF Cons.prems(3), of "int k" 0] n by (simp add: Let_def)
  have take: "take ?t (drop k rs) = boxes_of b" using drop by simp
  have band: "push_band rs (step_of l) (if l then int k else int (k + ?t) - 1) ?t m = push_all (in_order l (boxes_of b)) m"
    using push_band_order [of k ?t rs l m] n Cons.prems(3) take by simp
  have "drop (k + ?t) rs = flat bs" using drop by (metis add.commute append_eq_conv_conj drop_drop)
  then have rest: "get_rects_loop rs (step_of l) 1 (int (k + ?t)) (length (flat bs)) m = push_all (ordered l True bs) m"
    using Cons.IH [of "k + ?t" "length (flat bs)"] Cons.prems n by (simp add: good_bands_Cons)
  have start: "(if step_of l \<noteq> 1 then int (k + ?t) - 1 else int k) = (if l then int k else int (k + ?t) - 1)"
    by (simp add: step_of_def)
  have split: "ordered l True (b # bs) = in_order l (boxes_of b) @ ordered l True bs"
    by (simp add: ordered_def in_order_def)
  show ?case
    unfolding get_rects_loop.simps [of rs "step_of l" 1 "int k" n m] scan Let_def prod.case start band rest split push_all_append
    using pos by simp
qed

lemma get_rects_loop_up:
  "good_bands bs \<Longrightarrow> take n rs = flat bs \<Longrightarrow> n \<le> length rs \<Longrightarrow>
   get_rects_loop rs (step_of l) (- 1) (int n - 1) n m = push_all (ordered l False bs) m"
proof (induction bs arbitrary: n rule: rev_induct)
  case Nil
  then have "n = 0" by auto
  then show ?case by (simp add: get_rects_loop.simps ordered_def in_order_def)
next
  case (snoc b bs)
  let ?t = "length (boxes_of b)" and ?k = "length (flat bs)"
  have gb: "good_bands [b]" "good_bands bs" using snoc.prems(1) by (simp_all add: good_bands_append)
  have ne: "boxes_of b \<noteq> []" using gb(1) by (rule boxes_ne)
  have take: "take n rs = flat bs @ boxes_of b" using snoc.prems(2) by simp
  have n: "n = ?k + ?t" using take snoc.prems(3) by (metis length_append length_take min.absorb2)
  obtain y1 y2 xs where b: "b = (y1, y2, xs)" by (cases b)
  have y: "by1 c = y1" if "c \<in> set (boxes_of b)" for c using that by (auto simp: b)
  have other: "by1 c \<noteq> y1" if c: "c \<in> set (flat bs)" for c
  proof -
    obtain z1 z2 zs where "(z1, z2, zs) \<in> set bs" "by1 c = z1" using c by (force simp: set_flat)
    moreover have "ends_by bs y1" using good_bands_snoc_above snoc.prems(1) by (simp add: b)
    moreover have "good_band (z1, z2, zs)" using calculation(1) gb(2) by (auto simp: good_bands_def)
    ultimately show ?thesis by (force simp: ends_by_def)
  qed
  have "take n rs \<noteq> []" by (simp add: take ne)
  then have "last (take n rs) = take n rs ! (n - 1)" using snoc.prems(3) by (simp add: last_conv_nth min_absorb2)
  then have "rs ! (n - 1) = last (take n rs)" using n ne by (cases "boxes_of b") simp_all
  then have last: "by1 (rs ! (n - 1)) = y1" using take ne y by simp
  have idx: "nat (int n - 1) = n - 1" by simp
  have "flat bs = [] \<or> by1 (last (flat bs)) \<noteq> y1" using other [of "last (flat bs)"] last_in_set by auto
  then have "takeWhile (\<lambda>c. by1 c = y1) (rev (take n rs)) = rev (boxes_of b)"
    unfolding take rev_append using y other
    by (subst takeWhile_append_all) (auto intro!: takeWhile_hd_neg simp: hd_rev)
  then have "scan_band rs (- 1) (int n - 1) (int n - 1) n 0 = (int n - 1 - int ?t, n - ?t, ?t)"
    using scan_band_backward [OF snoc.prems(3), of "int n - 1" 0] last by (simp add: Let_def idx)
  then have scan: "scan_band rs (- 1) (int n - 1) (int n - 1) n 0 = (int ?k - 1, ?k, ?t)" using n by simp
  have "take ?t (drop ?k rs) = boxes_of b"
    using take n by (metis append_eq_conv_conj take_drop add.commute)
  then have band: "push_band rs (step_of l) (if l then int ?k else int (?k + ?t) - 1) ?t m = push_all (in_order l (boxes_of b)) m"
    using push_band_order [of ?k ?t rs l m] n snoc.prems(3) by simp
  have "take ?k rs = flat bs" using take n by (metis append_eq_conv_conj take_take min.absorb1 le_add1)
  then have rest: "get_rects_loop rs (step_of l) (- 1) (int ?k - 1) ?k m = push_all (ordered l False bs) m"
    using snoc.IH [of ?k] gb(2) n snoc.prems(3) by simp
  have start: "(if step_of l \<noteq> - 1 then int ?k - 1 - - 1 else int n - 1) = (if l then int ?k else int (?k + ?t) - 1)"
    using n by (simp add: step_of_def)
  have split: "ordered l False (bs @ [b]) = in_order l (boxes_of b) @ ordered l False bs"
    by (simp add: ordered_def in_order_def)
  have pos: "0 < n" using n ne by simp
  show ?case
    unfolding get_rects_loop.simps [of rs "step_of l" "- 1" "int n - 1" n m] scan Let_def prod.case start band rest split push_all_append
    using pos by simp
qed

lemma get_rects_ordered:
  assumes "wf_region r"
  shows "get_rects r l t m = push_all (ordered l t (bands_of (rects r))) m"
proof -
  have "good_bands (bands_of (rects r))" "rects r = flat (bands_of (rects r))"
    using assms by (simp_all add: wf_region_def wf_rects_def)
  then show ?thesis
    using get_rects_loop_down [of "bands_of (rects r)" 0 "rects r" "numRects r" l m]
      get_rects_loop_up [of "bands_of (rects r)" "numRects r" "rects r" l m]
    by (cases t) (simp_all add: get_rects_def Let_def step_of_def)
qed

subsection \<open>The pieces of one box\<close>

definition box_rpts :: "box \<Rightarrow> (int \<times> int) set" where
  "box_rpts b = {bx1 b..<bx2 b} \<times> {by1 b..<by2 b}"

text \<open>The rectangles \<open>rs\<close> cut the columns of \<open>b\<close> from row \<open>y\<close> on into slices, top to bottom.\<close>

definition slices :: "box \<Rightarrow> int \<Rightarrow> int \<Rightarrow> Rect list \<Rightarrow> bool" where
  "slices b y h rs \<longleftrightarrow>
     (\<Union>r \<in> set rs. {py (r_tl r)..<py (r_br r)}) = {y..<by2 b} \<and>
     (\<forall>r \<in> set rs. px (r_tl r) = bx1 b \<and> px (r_br r) = bx2 b \<and> y \<le> py (r_tl r) \<and> py (r_br r) \<le> by2 b \<and>
        0 < rect_height r \<and> rect_height r \<le> h) \<and>
     sorted_wrt (\<lambda>r s. py (r_br r) \<le> py (r_tl s)) rs"

lemma slices_Cons:
  assumes "slices b (y + h') h' rs" and "0 < h'" and "h' \<le> h" and "y + h' < by2 b"
  shows "slices b y h (mkRect (bx1 b) y (bx2 b) (y + h') # rs)"
proof -
  have "(\<Union>r \<in> set rs. {py (r_tl r)..<py (r_br r)}) = {y + h'..<by2 b}" using assms(1) by (simp add: slices_def)
  moreover have "{y..<by2 b} = {y..<y + h'} \<union> {y + h'..<by2 b}" using assms by auto
  ultimately show ?thesis
    using assms by (force simp: slices_def mkRect_def rect_height_def)
qed

lemma push_pieces_slices:
  "y < by2 b \<Longrightarrow> 0 < h \<Longrightarrow> \<exists>rs. push_pieces b y h = Some rs \<and> slices b y h rs"
proof (induction "nat (by2 b - y)" arbitrary: y h rule: less_induct)
  case less
  define h' where "h' = (if h > by2 b - y then by2 b - y else h)"
  have h': "0 < h'" "h' \<le> h" "y + h' \<le> by2 b" using less.prems by (auto simp: h'_def)
  let ?r = "mkRect (bx1 b) y (bx2 b) (y + h')"
  have step: "push_pieces b y h = (if y + h' < by2 b then do { rs \<leftarrow> push_pieces b (y + h') h'; Some (?r # rs) } else Some [?r])"
    by (subst push_pieces.simps) (simp only: Let_def h'_def)
  show ?case
  proof (cases "y + h' < by2 b")
    case True
    then obtain rs where rs: "push_pieces b (y + h') h' = Some rs" "slices b (y + h') h' rs"
      using less.hyps [of "y + h'" h'] h' by fastforce
    then show ?thesis using step True slices_Cons [OF rs(2) h'(1,2) True] by simp
  next
    case False
    then have "y + h' = by2 b" using h' by simp
    then show ?thesis using step h' by (auto simp: slices_def mkRect_def rect_height_def)
  qed
qed

lemma sdiv_nonneg: "0 \<le> a \<Longrightarrow> 0 < b \<Longrightarrow> a sdiv b = a div (b :: int)"
  by (cases "a = 0") (auto simp: signed_divide_int_def)

text \<open>The height of the pieces of a box.\<close>

definition piece_height :: "box \<Rightarrow> int \<Rightarrow> int" where
  "piece_height b maxArea =
     (if maxArea < bx2 b - bx1 b then by2 b - by1 b else maxArea div (bx2 b - bx1 b))"

lemma push_box_slices:
  assumes "box_ok b" and "0 \<le> m"
  shows "\<exists>rs. push_box b m = Some rs \<and> slices b (by1 b) (piece_height b m) rs"
proof -
  have b: "0 < bx2 b - bx1 b" "by1 b < by2 b" using assms(1) by (auto simp: box_ok_def)
  have q: "m sdiv (bx2 b - bx1 b) = m div (bx2 b - bx1 b)" using sdiv_nonneg b(1) assms(2) by simp
  have "m div (bx2 b - bx1 b) = 0 \<longleftrightarrow> m < bx2 b - bx1 b" using b assms(2) by (auto simp: zdiv_eq_0_iff)
  then have h: "(if m div (bx2 b - bx1 b) = 0 then by2 b - by1 b else m div (bx2 b - bx1 b)) = piece_height b m"
    by (simp add: piece_height_def)
  have "0 < piece_height b m" using b assms(2) by (auto simp: piece_height_def pos_imp_zdiv_pos_iff)
  then show ?thesis using push_pieces_slices [of "by1 b" b "piece_height b m"] b
    by (simp add: push_box_def q h)
qed

lemma slices_rpts:
  assumes "slices b (by1 b) h rs"
  shows "(\<Union>r \<in> set rs. rpts r) = box_rpts b"
proof -
  have u: "(\<Union>r \<in> set rs. {py (r_tl r)..<py (r_br r)}) = {by1 b..<by2 b}" and
    c: "\<And>r. r \<in> set rs \<Longrightarrow> rpts r = {bx1 b..<bx2 b} \<times> {py (r_tl r)..<py (r_br r)}"
    using assms by (auto simp: slices_def rpts_def)
  have "(\<Union>r \<in> set rs. rpts r) = (\<Union>r \<in> set rs. {bx1 b..<bx2 b} \<times> {py (r_tl r)..<py (r_br r)})" using c by simp
  also have "\<dots> = {bx1 b..<bx2 b} \<times> (\<Union>r \<in> set rs. {py (r_tl r)..<py (r_br r)})" by blast
  finally show ?thesis by (simp add: u box_rpts_def)
qed

lemma push_box_whole:
  assumes "box_ok b"
  shows "push_box b 0 = Some [mkRect (bx1 b) (by1 b) (bx2 b) (by2 b)]"
proof -
  have "by1 b < by2 b" using assms by (simp add: box_ok_def)
  then show ?thesis by (simp add: push_box_def signed_divide_int_def push_pieces.simps [of b "by1 b"])
qed

text \<open>The pieces of a list of boxes, in order.\<close>

lemma push_all_pieces:
  assumes "\<forall>b \<in> set bs. box_ok b" and "0 \<le> m"
  shows "\<exists>pieces. push_all bs m = Some (concat pieces) \<and>
    list_all2 (\<lambda>b rs. slices b (by1 b) (piece_height b m) rs) bs pieces"
  using assms(1)
proof (induction bs)
  case Nil
  show ?case by (rule exI [of _ "[]"]) simp
next
  case (Cons b bs)
  then obtain pieces where "push_all bs m = Some (concat pieces)"
      "list_all2 (\<lambda>b rs. slices b (by1 b) (piece_height b m) rs) bs pieces" by auto
  moreover obtain rs where "push_box b m = Some rs" "slices b (by1 b) (piece_height b m) rs"
    using push_box_slices [of b m] Cons.prems assms(2) by auto
  ultimately show ?case by (intro exI [of _ "rs # pieces"]) simp
qed

lemma push_all_whole:
  "\<forall>b \<in> set bs. box_ok b \<Longrightarrow> push_all bs 0 = Some (map (\<lambda>b. mkRect (bx1 b) (by1 b) (bx2 b) (by2 b)) bs)"
  by (induction bs) (auto simp: push_box_whole)

lemma set_ordered: "set (ordered l t bs) = set (flat bs)"
  by (auto simp: ordered_def in_order_def flat_def)

lemma wf_region_boxes:
  assumes "wf_region r"
  shows "good_bands (bands_of (rects r))" and "flat (bands_of (rects r)) = rects r" and "\<forall>b \<in> set (rects r). box_ok b"
  using assms wf_rects_yx_sorted [of "rects r"] by (auto simp: wf_region_def wf_rects_def yx_sorted_def)

lemma box_rpts_pts: "(\<Union>b \<in> set (rects r). box_rpts b) = pts r"
  by (auto simp: box_rpts_def pts_def INBOX_def)

lemma sorted_wrt_concat:
  assumes "\<And>xs. xs \<in> set xss \<Longrightarrow> sorted_wrt R xs"
    and "sorted_wrt (\<lambda>xs ys. \<forall>x \<in> set xs. \<forall>y \<in> set ys. R x y) xss"
  shows "sorted_wrt R (concat xss)"
  using assms by (induction xss) (auto simp: sorted_wrt_append)

lemma sorted_wrt_in_order:
  assumes "if forward then sorted_wrt R xs else sorted_wrt (\<lambda>x y. R y x) xs"
  shows "sorted_wrt R (in_order forward xs)"
  using assms by (auto simp: in_order_def sorted_wrt_rev split: if_splits)

text \<open>
  An order of the boxes in which \<open>R\<close> holds between an earlier and a later one: what has to be
  shown for two boxes of one band and for two of different bands.
\<close>

lemma sorted_wrt_ordered:
  assumes g: "good_bands bs"
    and same: "\<And>a b. by1 a = by1 b \<Longrightarrow> by2 a = by2 b \<Longrightarrow> if l then bx2 a < bx1 b else bx2 b < bx1 a \<Longrightarrow> R a b"
    and diff: "\<And>a b. if t then by2 a \<le> by1 b else by2 b \<le> by1 a \<Longrightarrow> R a b"
  shows "sorted_wrt R (ordered l t bs)"
  unfolding ordered_def
proof (rule sorted_wrt_concat)
  fix cs
  assume "cs \<in> set (map (\<lambda>b. in_order l (boxes_of b)) (in_order t bs))"
  then obtain b where b: "b \<in> set bs" "cs = in_order l (boxes_of b)" by (auto simp: in_order_def split: if_splits)
  obtain y1 y2 xs where e: "b = (y1, y2, xs)" by (cases b)
  have "sep xs" using g b(1) e by (auto simp: good_bands_def)
  then have "sorted_wrt (\<lambda>p q. snd p < fst q) xs" by (simp add: sep_def)
  then have "if l then sorted_wrt R (map (box_at y1 y2) xs) else sorted_wrt (\<lambda>x y. R y x) (map (box_at y1 y2) xs)"
    unfolding sorted_wrt_map by (cases l) (auto intro!: same elim!: sorted_wrt_mono_rel [rotated])
  then show "sorted_wrt R cs" unfolding b(2) by (intro sorted_wrt_in_order) (simp add: e)
next
  have "sorted_wrt (\<lambda>b c. \<forall>x \<in> set (boxes_of b). \<forall>y \<in> set (boxes_of c). by2 x \<le> by1 y) bs"
    using g
  proof (induction bs)
    case (Cons b bs)
    obtain y1 y2 xs where e: "b = (y1, y2, xs)" by (cases b)
    have "\<forall>c \<in> set bs. \<forall>x \<in> set (boxes_of b). \<forall>y \<in> set (boxes_of c). by2 x \<le> by1 y"
      using good_bands_Cons_below [of y1 y2 xs bs] Cons.prems by (auto simp: e boxes_of_def)
    with Cons show ?case by (simp add: good_bands_Cons)
  qed simp
  then have "if t then sorted_wrt (\<lambda>b c. \<forall>x \<in> set (boxes_of b). \<forall>y \<in> set (boxes_of c). R x y) bs
      else sorted_wrt (\<lambda>b c. \<forall>x \<in> set (boxes_of c). \<forall>y \<in> set (boxes_of b). R x y) bs"
    by (cases t) (auto intro!: diff elim!: sorted_wrt_mono_rel [rotated])
  then have "sorted_wrt (\<lambda>b c. \<forall>x \<in> set (boxes_of b). \<forall>y \<in> set (boxes_of c). R x y) (in_order t bs)"
    by (intro sorted_wrt_in_order)
  then show "sorted_wrt (\<lambda>xs ys. \<forall>x \<in> set xs. \<forall>y \<in> set ys. R x y) (map (\<lambda>b. in_order l (boxes_of b)) (in_order t bs))"
    by (cases t) (simp_all add: sorted_wrt_map in_order_def)
qed

subsection \<open>Copying rectangle by rectangle\<close>

text \<open>What a client does with one CopyRect rectangle, overlapping source or not.\<close>

definition copy_rect :: "int \<Rightarrow> int \<Rightarrow> (int \<times> int \<Rightarrow> 'p) \<Rightarrow> Rect \<Rightarrow> int \<times> int \<Rightarrow> 'p" where
  "copy_rect dx dy fb R = (\<lambda>(x, y). if (x, y) \<in> rpts R then fb (x - dx, y - dy) else fb (x, y))"

text \<open>Writing \<open>R\<close> before \<open>S\<close> does not disturb the source of \<open>S\<close>.\<close>

definition copy_safe :: "int \<Rightarrow> int \<Rightarrow> Rect \<Rightarrow> Rect \<Rightarrow> bool" where
  "copy_safe dx dy R S \<longleftrightarrow> (\<forall>x y. (x, y) \<in> rpts S \<longrightarrow> (x - dx, y - dy) \<notin> rpts R)"

lemma copy_in_sequence:
  "sorted_wrt (copy_safe dx dy) rs \<Longrightarrow>
   foldl (copy_rect dx dy) fb rs (x, y) = (if (x, y) \<in> (\<Union>r \<in> set rs. rpts r) then fb (x - dx, y - dy) else fb (x, y))"
proof (induction rs arbitrary: fb)
  case (Cons R rs)
  have safe: "(x - dx, y - dy) \<notin> rpts R" if "(x, y) \<in> (\<Union>r \<in> set rs. rpts r)"
    using Cons.prems that by (auto simp: copy_safe_def)
  have "foldl (copy_rect dx dy) fb (R # rs) (x, y) =
      (if (x, y) \<in> (\<Union>r \<in> set rs. rpts r) then copy_rect dx dy fb R (x - dx, y - dy) else copy_rect dx dy fb R (x, y))"
    using Cons.IH [of "copy_rect dx dy fb R"] Cons.prems by simp
  also have "\<dots> = (if (x, y) \<in> (\<Union>r \<in> set (R # rs). rpts r) then fb (x - dx, y - dy) else fb (x, y))"
    using safe by (cases "(x, y) \<in> (\<Union>r \<in> set rs. rpts r)") (simp_all add: copy_rect_def)
  finally show ?case .
qed simp

lemma get_rects_copy_order:
  assumes wf: "wf_region r"
  shows "\<exists>rs. get_rects r (dx \<le> 0) (dy \<le> 0) 0 = Some rs \<and> (\<Union>r \<in> set rs. rpts r) = pts r \<and> sorted_wrt (copy_safe dx dy) rs"
proof -
  define bs where "bs = bands_of (rects r)"
  define rect where "rect = (\<lambda>b :: box. mkRect (bx1 b) (by1 b) (bx2 b) (by2 b))"
  have bs: "good_bands bs" "flat bs = rects r" "\<forall>b \<in> set (rects r). box_ok b"
    using wf_region_boxes [OF wf] by (simp_all add: bs_def)
  let ?rs = "map rect (ordered (dx \<le> 0) (dy \<le> 0) bs)"
  have "get_rects r (dx \<le> 0) (dy \<le> 0) 0 = Some ?rs"
    using push_all_whole [of "ordered (dx \<le> 0) (dy \<le> 0) bs"] bs(2,3)
    by (simp add: get_rects_ordered [OF wf] bs_def [symmetric] set_ordered rect_def)
  moreover have "(\<Union>R \<in> set ?rs. rpts R) = pts r"
    using box_rpts_pts [of r] by (simp add: set_ordered bs(2) rect_def box_rpts_def)
  moreover have "sorted_wrt (copy_safe dx dy) ?rs"
    unfolding sorted_wrt_map
  proof (rule sorted_wrt_ordered [OF bs(1)])
    fix a b :: box
    assume "by1 a = by1 b" "by2 a = by2 b" "if dx \<le> 0 then bx2 a < bx1 b else bx2 b < bx1 a"
    then show "copy_safe dx dy (rect a) (rect b)" by (auto simp: copy_safe_def rect_def split: if_splits)
  next
    fix a b :: box
    assume "if dy \<le> 0 then by2 a \<le> by1 b else by2 b \<le> by1 a"
    then show "copy_safe dx dy (rect a) (rect b)" by (auto simp: copy_safe_def rect_def split: if_splits)
  qed
  ultimately show ?thesis by blast
qed

lemma get_rects_whole:
  assumes wf: "wf_region r"
  obtains rs where "get_rects r l t 0 = Some rs" and "length rs = numRects r" and "(\<Union>R \<in> set rs. rpts R) = pts r"
    and "\<forall>R \<in> set rs. 0 < rect_width R \<and> 0 < rect_height R \<and> rpts R \<subseteq> pts r"
proof
  let ?rect = "\<lambda>b :: box. mkRect (bx1 b) (by1 b) (bx2 b) (by2 b)"
  let ?bs = "bands_of (rects r)"
  let ?rs = "map ?rect (ordered l t ?bs)"
  note wb = wf_region_boxes [OF wf]
  show "get_rects r l t 0 = Some ?rs"
    using push_all_whole [of "ordered l t ?bs"] wb(2,3) by (simp add: get_rects_ordered [OF wf] set_ordered)
  have "length (ordered l t ?bs) = length (flat ?bs)"
    by (cases t; cases l) (simp_all add: ordered_def in_order_def flat_def length_concat comp_def sum_list_rev rev_map [symmetric])
  then show "length ?rs = numRects r"
    using wb(2) wf by (simp add: wf_region_def size_ok_def)
  have u: "(\<Union>R \<in> set ?rs. rpts R) = pts r"
    using box_rpts_pts [of r] by (simp add: set_ordered wb(2) box_rpts_def)
  then show "(\<Union>R \<in> set ?rs. rpts R) = pts r" .
  have "0 < rect_width R \<and> 0 < rect_height R" if "R \<in> set ?rs" for R
    using that wb(2,3) by (auto simp: set_ordered box_ok_def mkRect_def rect_width_def rect_height_def)
  then show "\<forall>R \<in> set ?rs. 0 < rect_width R \<and> 0 < rect_height R \<and> rpts R \<subseteq> pts r" using u by blast
qed

lemma rect_corners:
  assumes "0 < rect_width r" and "0 < rect_height r" and "rpts r \<subseteq> {0..<W} \<times> {0..<H}"
  shows "0 \<le> px (r_tl r) \<and> px (r_br r) \<le> W \<and> 0 \<le> py (r_tl r) \<and> py (r_br r) \<le> H"
proof -
  have "(px (r_tl r), py (r_tl r)) \<in> rpts r" "(px (r_br r) - 1, py (r_br r) - 1) \<in> rpts r"
    using assms(1,2) by (simp_all add: rpts_iff rect_width_def rect_height_def)
  from subsetD [OF assms(3) this(1)] subsetD [OF assms(3) this(2)] show ?thesis by auto
qed

subsection \<open>What the callers rely on\<close>

text \<open>An object that represents a set of pixels.\<close>

definition denotes :: "region \<Rightarrow> (int \<times> int) set \<Rightarrow> bool" where
  "denotes r P \<longleftrightarrow> wf_region r \<and> pts r = P"

locale set_operators =
  fixes den :: "'r \<Rightarrow> 'p set \<Rightarrow> bool"
    and intersect_op union_op subtract_op :: "'r \<Rightarrow> 'r \<Rightarrow> 'r option"
  assumes intersect_law: "den r P \<Longrightarrow> den s Q \<Longrightarrow> \<exists>t. intersect_op r s = Some t \<and> den t (P \<inter> Q)"
    and union_law: "den r P \<Longrightarrow> den s Q \<Longrightarrow> \<exists>t. union_op r s = Some t \<and> den t (P \<union> Q)"
    and subtract_law: "den r P \<Longrightarrow> den s Q \<Longrightarrow> \<exists>t. subtract_op r s = Some t \<and> den t (P - Q)"
begin

lemma intersectE:
  assumes "den r P" and "den s Q"
  obtains t where "intersect_op r s = Some t" and "den t (P \<inter> Q)"
  using intersect_law [OF assms] by blast

lemma unionE:
  assumes "den r P" and "den s Q"
  obtains t where "union_op r s = Some t" and "den t (P \<union> Q)"
  using union_law [OF assms] by blast

lemma subtractE:
  assumes "den r P" and "den s Q"
  obtains t where "subtract_op r s = Some t" and "den t (P - Q)"
  using subtract_law [OF assms] by blast

end

lemma cells_simps [simp]: "cells [a, b] 0 = a" "cells [a, b] (Suc 0) = b"
  by (simp_all add: cells_def)

lemma stores_value:
  assumes "stores res h p P"
  shows "\<exists>t. map_option (\<lambda>h. h p) res = Some t \<and> denotes t P"
  using assms by (auto simp: stores_def denotes_def)

lemma denotes_wf: "denotes r P \<Longrightarrow> wf_region r" and denotes_pts: "denotes r P \<Longrightarrow> pts r = P"
  by (simp_all add: denotes_def)

lemma denotes_clear [simp]: "size_ok r \<Longrightarrow> denotes (region_clear r) {}"
  by (simp add: denotes_def region_clear_def wf_region_def size_ok_def pts_def)

lemma denotes_XCreateRegion [simp]: "denotes XCreateRegion {}"
  by (simp add: denotes_def)

lemma denotes_cells: "denotes r P \<Longrightarrow> denotes s Q \<Longrightarrow> wf_region (cells [r, s] 0) \<and> wf_region (cells [r, s] 1)"
  by (simp add: denotes_def)

interpretation assign_ops: set_operators denotes assign_intersect assign_union assign_subtract
proof
  fix r s P Q
  assume d: "denotes r P" "denotes s Q"
  note wf = denotes_wf [OF d(1)] denotes_wf [OF d(2)] wf_region_size [OF denotes_wf [OF d(1)]]
  show "\<exists>t. assign_intersect r s = Some t \<and> denotes t (P \<inter> Q)"
    using stores_value [OF XIntersectRegion_stores [of "cells [r, s]" 0 1 0]] wf
    by (simp add: assign_intersect_def on_two_def assign_intersect_at_def denotes_pts [OF d(1)] denotes_pts [OF d(2)])
  show "\<exists>t. assign_union r s = Some t \<and> denotes t (P \<union> Q)"
    using stores_value [OF XUnionRegion_stores [of "cells [r, s]" 0 1 0]] wf
    by (simp add: assign_union_def on_two_def assign_union_at_def denotes_pts [OF d(1)] denotes_pts [OF d(2)])
  show "\<exists>t. assign_subtract r s = Some t \<and> denotes t (P - Q)"
    using stores_value [OF XSubtractRegion_stores [of "cells [r, s]" 0 1 0]] wf
    by (simp add: assign_subtract_def on_two_def assign_subtract_at_def denotes_pts [OF d(1)] denotes_pts [OF d(2)])
qed

interpretation new_ops: set_operators denotes region_intersect region_union region_subtract
proof
  fix r s P Q
  assume d: "denotes r P" "denotes s Q"
  define h where "h = (cells [r, s])(2 := XCreateRegion)"
  have wf: "wf_region (h 0)" "wf_region (h 1)" "size_ok (h 2)" and p: "pts (h 0) = P" "pts (h 1) = Q"
    using d by (simp_all add: h_def wf_region_size denotes_def)
  have "region_intersect r s = map_option (\<lambda>h. h 2) (XIntersectRegion h 0 1 2)"
    "region_union r s = map_option (\<lambda>h. h 2) (XUnionRegion h 0 1 2)"
    "region_subtract r s = map_option (\<lambda>h. h 2) (XSubtractRegion h 0 1 2)"
    by (simp_all add: region_intersect_def region_union_def region_subtract_def into_new_def
        intersect_at_def union_at_def subtract_at_def h_def)
  then show "\<exists>t. region_intersect r s = Some t \<and> denotes t (P \<inter> Q)"
    and "\<exists>t. region_union r s = Some t \<and> denotes t (P \<union> Q)"
    and "\<exists>t. region_subtract r s = Some t \<and> denotes t (P - Q)"
    using stores_value [OF XIntersectRegion_stores [OF wf]] stores_value [OF XUnionRegion_stores [OF wf]]
      stores_value [OF XSubtractRegion_stores [OF wf]] unfolding p by simp_all
qed

subsection \<open>Copying and conversion\<close>

lemma op_assign_denotes:
  assumes "size_ok this" and "denotes r P"
  shows "\<exists>t. op_assign this r = Some t \<and> denotes t P"
proof -
  let ?h = "(cells [this, r])(0 := region_clear this)"
  have "stores (XUnionRegion ?h 0 1 0) ?h 0 (pts (?h 0) \<union> pts (?h 1))"
    using denotes_clear [OF assms(1)] assms(2) by (intro XUnionRegion_stores) (auto simp: denotes_def wf_region_size)
  from stores_value [OF this] show ?thesis
    using denotes_clear [OF assms(1)] assms(2) by (simp add: op_assign_def on_two_def op_assign_at_def denotes_def)
qed

lemma Region_copy_denotes:
  assumes "denotes r P"
  shows "\<exists>t. Region_copy r = Some t \<and> denotes t P"
proof -
  let ?h = "(cells [XCreateRegion, r])(0 := XCreateRegion)"
  have "stores (XUnionRegion ?h 0 1 0) ?h 0 (pts (?h 0) \<union> pts (?h 1))"
    using assms by (intro XUnionRegion_stores) (auto simp: denotes_def wf_region_size)
  from stores_value [OF this] show ?thesis
    using assms by (simp add: Region_copy_def on_two_def Region_copy_at_def denotes_def)
qed

definition short_rect :: "Rect \<Rightarrow> bool" where
  "short_rect r \<longleftrightarrow> is_short (px (r_tl r)) \<and> is_short (py (r_tl r)) \<and> is_short (px (r_br r)) \<and> is_short (py (r_br r))"

lemma region_reset_denotes:
  assumes "size_ok this" and "short_rect r"
  shows "\<exists>t. region_reset this r = Some t \<and> denotes t (rpts r)"
proof (cases "rect_is_empty r")
  case True
  then show ?thesis using assms rpts_empty [of r] by (simp add: region_reset_def)
next
  case False
  let ?e = "\<lparr>bx1 = px (r_tl r), bx2 = px (r_br r), by1 = py (r_tl r), by2 = py (r_br r)\<rparr>"
  have e: "region_reset this r = Some (this\<lparr>rects := [?e], extents := ?e\<rparr>)"
    using False assms by (simp add: region_reset_def Let_def size_ok_def short_rect_def)
  have "bx1 ?e < bx2 ?e" "by1 ?e < by2 ?e" using False by (auto simp: rect_is_empty_def)
  note one = single_box_region [OF this]
  have "pts (this\<lparr>rects := [?e], extents := ?e\<rparr>) = rpts r" using one(2) by (simp add: pts_def rpts_def)
  moreover have "wf_region (this\<lparr>rects := [?e], extents := ?e\<rparr>)"
    using one(1) assms(1) by (simp add: wf_region_def size_ok_def)
  ultimately show ?thesis using e by (simp add: denotes_def)
qed

lemma Region_of_rect_denotes:
  "short_rect r \<Longrightarrow> \<exists>t. Region_of_rect r = Some t \<and> denotes t (rpts r)"
  unfolding Region_of_rect_def by (rule region_reset_denotes) (simp_all add: wf_region_size)

lemma region_is_empty_iff: "denotes r P \<Longrightarrow> region_is_empty r \<longleftrightarrow> P = {}"
  using XEmptyRegion_iff [of r]
  by (simp add: denotes_def region_is_empty_def region_numRects_def XEmptyRegion_def split: if_splits)

lemma bounding_rect:
  assumes "denotes r P" and "P \<noteq> {}"
  shows "P \<subseteq> rpts (get_bounding_rect r)"
proof -
  have ne: "rects r \<noteq> []" and wf: "wf_region r" and p: "pts r = P" using assms by (auto simp: denotes_def pts_def)
  show ?thesis using is_bboxD(1) [OF wf_region_bbox [OF wf ne]]
    by (auto simp: p get_bounding_rect_def)
qed

text \<open>Points that a \<open>short\<close> box can hold.\<close>

definition short_pts :: "(int \<times> int) set \<Rightarrow> bool" where
  "short_pts P \<longleftrightarrow> in_box \<lparr>bx1 = - 32768, bx2 = 32767, by1 = - 32768, by2 = 32767\<rparr> P"

lemma short_pts_subset: "short_pts Q \<Longrightarrow> P \<subseteq> Q \<Longrightarrow> short_pts P"
  by (auto simp: short_pts_def in_box_def)

lemma region_translate_denotes:
  assumes "denotes r P" and "short_pts (shift_pts (px d) (py d) P)"
  shows "denotes (region_translate r d) (shift_pts (px d) (py d) P)"
proof -
  have wf: "wf_region r" and p: "pts r = P" using assms(1) by (auto simp: denotes_def)
  have "fits_short (move_box (px d) (py d) (extents r))" if ne: "rects r \<noteq> []"
  proof -
    note b = is_bboxD(2-5) [OF is_bbox_move [OF wf_region_bbox [OF wf ne], of "px d" "py d"]]
    have s: "\<And>x y. (x, y) \<in> shift_pts (px d) (py d) (pts r) \<Longrightarrow> - 32768 \<le> x \<and> x < 32767 \<and> - 32768 \<le> y \<and> y < 32767"
      using assms(2) p by (auto simp: short_pts_def in_box_def)
    have "- 32768 \<le> bx1 (move_box (px d) (py d) (extents r))" "bx1 (move_box (px d) (py d) (extents r)) < 32767" using b(1) s by blast+
    moreover have "- 32768 \<le> bx2 (move_box (px d) (py d) (extents r)) - 1" "bx2 (move_box (px d) (py d) (extents r)) - 1 < 32767" using b(2) s by blast+
    moreover have "- 32768 \<le> by1 (move_box (px d) (py d) (extents r))" "by1 (move_box (px d) (py d) (extents r)) < 32767" using b(3) s by blast+
    moreover have "- 32768 \<le> by2 (move_box (px d) (py d) (extents r)) - 1" "by2 (move_box (px d) (py d) (extents r)) - 1 < 32767" using b(4) s by blast+
    ultimately show ?thesis by (simp add: fits_short_def is_short_def)
  qed
  then show ?thesis using XOffsetRegion_move [OF wf] p by (simp add: denotes_def region_translate_def)
qed

lemma RectRegion_wf:
  assumes "short_rect r"
  shows "wf_region (RectRegion r)" and "pts (RectRegion r) = rpts r"
proof -
  let ?e = "\<lparr>bx1 = px (r_tl r), bx2 = px (r_br r), by1 = py (r_tl r), by2 = py (r_br r)\<rparr>"
  have e: "RectRegion r = \<lparr>rsize = 1, rects = (if rect_is_empty r then [] else [?e]), extents = ?e\<rparr>"
    using assms by (simp add: RectRegion_def Let_def short_rect_def)
  have "wf_region (RectRegion r) \<and> pts (RectRegion r) = rpts r"
  proof (cases "rect_is_empty r")
    case True
    then show ?thesis using rpts_empty [of r] by (simp add: e wf_region_def size_ok_def pts_def)
  next
    case False
    then have "bx1 ?e < bx2 ?e" "by1 ?e < by2 ?e" by (auto simp: rect_is_empty_def)
    from single_box_region [OF this] show ?thesis using False by (simp add: e rpts_def)
  qed
  then show "wf_region (RectRegion r)" and "pts (RectRegion r) = rpts r" by auto
qed

lemma add_ordered_pts:
  "this \<noteq> rr \<Longrightarrow> wf_region (h this) \<Longrightarrow> \<forall>r \<in> set rs. short_rect r \<Longrightarrow>
   \<exists>h'. add_ordered h this rs rr = Some h' \<and> wf_region (h' this) \<and>
     pts (h' this) = pts (h this) \<union> (\<Union>r \<in> set rs. rpts r) \<and> (\<forall>q. q \<notin> {this, rr} \<longrightarrow> h' q = h q)"
proof (induction rs arbitrary: h)
  case (Cons r rs)
  let ?h = "h(rr := RectRegion r)"
  have "stores (XUnionRegion ?h this rr this) ?h this (pts (?h this) \<union> pts (?h rr))"
    using Cons.prems RectRegion_wf [of r] by (intro XUnionRegion_stores) (auto simp: wf_region_size)
  then obtain h1 where h1: "XUnionRegion ?h this rr this = Some h1" "wf_region (h1 this)"
      "pts (h1 this) = pts (?h this) \<union> pts (?h rr)" "\<And>q. q \<noteq> this \<Longrightarrow> h1 q = ?h q"
    by (erule storesE)
  have p1: "pts (h1 this) = pts (h this) \<union> rpts r" using h1(3) Cons.prems RectRegion_wf(2) [of r] by simp
  obtain h' where h': "add_ordered h1 this rs rr = Some h'" "wf_region (h' this)"
      "pts (h' this) = pts (h1 this) \<union> (\<Union>r \<in> set rs. rpts r)" "\<forall>q. q \<notin> {this, rr} \<longrightarrow> h' q = h1 q"
    using Cons.IH [of h1] Cons.prems h1(2) by auto
  then show ?case using h1(1,4) p1 by (intro exI [of _ h']) (simp add: Un_assoc)
qed simp

subsection \<open>The contract of the class\<close>

text \<open>
  C23: listing a region for CopyRect with \<open>left2right\<close> and \<open>topdown\<close> chosen by the signs of the
  displacement is safe: a client that copies one listed rectangle after the other, each from its
  current frame buffer, ends with the whole region moved at once from the old frame buffer.
\<close>

theorem get_rects_copyrect_order:
  assumes "wf_region r"
  shows "\<exists>rs. get_rects r (dx \<le> 0) (dy \<le> 0) 0 = Some rs \<and>
    foldl (copy_rect dx dy) fb rs = (\<lambda>(x, y). if (x, y) \<in> pts r then fb (x - dx, y - dy) else fb (x, y))"
proof -
  obtain rs where rs: "get_rects r (dx \<le> 0) (dy \<le> 0) 0 = Some rs" "(\<Union>r \<in> set rs. rpts r) = pts r"
      "sorted_wrt (copy_safe dx dy) rs"
    using get_rects_copy_order [OF assms] by blast
  then show ?thesis using copy_in_sequence [OF rs(3), of fb] by (auto simp: fun_eq_iff)
qed

lemma get_rects_copyrect_order_witness:
  "\<exists>rs. get_rects (demo_store 0) (3 \<le> (0 :: int)) (- 1 \<le> (0 :: int)) 0 = Some rs \<and>
    foldl (copy_rect 3 (- 1)) fst rs = (\<lambda>(x, y). if (x, y) \<in> pts (demo_store 0) then x - 3 else x)"
  using get_rects_copyrect_order [of "demo_store 0" 3 "- 1" fst] demo_store_wf unfolding fst_conv by simp

lemma pieces_of_box:
  assumes "slices b (by1 b) (piece_height b m) rs" and "box_ok b" and "r \<in> set rs" and "0 \<le> m"
  shows "rpts r \<noteq> {}" and "rpts r \<subseteq> box_rpts b"
    and "rect_width r * rect_height r \<le> m \<or> m < rect_width r"
proof -
  have r: "px (r_tl r) = bx1 b" "px (r_br r) = bx2 b" "0 < rect_height r" "rect_height r \<le> piece_height b m"
    "by1 b \<le> py (r_tl r)" "py (r_br r) \<le> by2 b" using assms(1,3) by (auto simp: slices_def)
  have w: "0 < rect_width r" "rect_width r = bx2 b - bx1 b" using assms(2) r by (simp_all add: box_ok_def rect_width_def)
  show "rpts r \<noteq> {}" using r w by (simp add: rpts_empty rect_is_empty_def rect_width_def rect_height_def)
  show "rpts r \<subseteq> box_rpts b" using r by (auto simp: rpts_def box_rpts_def)
  show "rect_width r * rect_height r \<le> m \<or> m < rect_width r"
  proof (cases "m < rect_width r")
    case False
    then have "rect_width r * rect_height r \<le> rect_width r * (m div rect_width r)"
      using r(4) w by (intro mult_left_mono) (auto simp: piece_height_def)
    also have "\<dots> \<le> m"
      using mult_div_mod_eq [of "rect_width r" m] pos_mod_sign [OF w(1), of m] by linarith
    finally show ?thesis ..
  qed simp
qed

lemma slices_disjoint:
  "slices b y h rs \<Longrightarrow> sorted_wrt (\<lambda>r s. rpts r \<inter> rpts s = {}) rs"
  by (auto simp: slices_def rpts_def elim!: sorted_wrt_mono_rel [rotated])

lemma list_all2_member: "list_all2 P xs ys \<Longrightarrow> y \<in> set ys \<Longrightarrow> \<exists>x \<in> set xs. P x y"
  by (induction rule: list_all2_induct) auto

lemma list_all2_slices_disjoint:
  assumes "list_all2 (\<lambda>b rs. slices b (by1 b) (piece_height b m) rs) bs pieces"
    and "sorted_wrt (\<lambda>a b. box_rpts a \<inter> box_rpts b = {}) bs"
  shows "sorted_wrt (\<lambda>r s. rpts r \<inter> rpts s = {}) (concat pieces)"
  using assms
proof (induction bs pieces rule: list_all2_induct)
  case (Cons b bs rs pieces)
  have rest: "(\<Union>s \<in> set (concat pieces). rpts s) = (\<Union>b \<in> set bs. box_rpts b)"
    using Cons.hyps(2) slices_rpts by (induction rule: list_all2_induct) auto
  have "rpts r \<inter> rpts s = {}" if "r \<in> set rs" "s \<in> set (concat pieces)" for r s
  proof -
    have "rpts r \<subseteq> box_rpts b" "rpts s \<subseteq> (\<Union>b \<in> set bs. box_rpts b)"
      using slices_rpts [OF Cons.hyps(1)] rest that by blast+
    moreover have "box_rpts b \<inter> (\<Union>b \<in> set bs. box_rpts b) = {}" using Cons.prems by auto
    ultimately show ?thesis by blast
  qed
  then show ?case using Cons slices_disjoint [OF Cons.hyps(1)] by (simp add: sorted_wrt_append)
qed simp

text \<open>
  in every order and for every \<open>maxArea\<close>, \<open>get_rects\<close> lists non-empty, pairwise disjoint
  rectangles that together cover exactly the region; none has more than \<open>maxArea\<close> pixels unless
  it is a box wider than that.
\<close>

theorem get_rects_partition:
  assumes "wf_region r" and "0 \<le> m"
  shows "\<exists>rs. get_rects r l t m = Some rs \<and> (\<Union>R \<in> set rs. rpts R) = pts r \<and>
    sorted_wrt (\<lambda>R S. rpts R \<inter> rpts S = {}) rs \<and>
    (\<forall>R \<in> set rs. rpts R \<noteq> {} \<and> (rect_width R * rect_height R \<le> m \<or> m < rect_width R))"
proof -
  define bs where "bs = ordered l t (bands_of (rects r))"
  note wf = wf_region_boxes [OF assms(1)]
  have set: "set bs = set (rects r)" using wf(2) by (simp add: bs_def set_ordered)
  then obtain pieces where p: "push_all bs m = Some (concat pieces)"
      "list_all2 (\<lambda>b rs. slices b (by1 b) (piece_height b m) rs) bs pieces"
    using push_all_pieces [OF _ assms(2), of bs] wf(3) by auto
  have "(\<Union>R \<in> set (concat pieces). rpts R) = (\<Union>b \<in> set bs. box_rpts b)"
    using p(2) slices_rpts by (induction rule: list_all2_induct) auto
  then have cover: "(\<Union>R \<in> set (concat pieces). rpts R) = pts r" using set box_rpts_pts [of r] by simp
  have "sorted_wrt (\<lambda>a b. box_rpts a \<inter> box_rpts b = {}) bs"
    unfolding bs_def by (rule sorted_wrt_ordered [OF wf(1)]) (auto simp: box_rpts_def split: if_splits)
  then have disj: "sorted_wrt (\<lambda>R S. rpts R \<inter> rpts S = {}) (concat pieces)"
    by (rule list_all2_slices_disjoint [OF p(2)])
  have "rpts R \<noteq> {} \<and> (rect_width R * rect_height R \<le> m \<or> m < rect_width R)" if R: "R \<in> set (concat pieces)" for R
  proof -
    obtain rs where rs: "rs \<in> set pieces" "R \<in> set rs" using R by auto
    then obtain b where "b \<in> set bs" "slices b (by1 b) (piece_height b m) rs"
      using list_all2_member [OF p(2)] by blast
    then show ?thesis using pieces_of_box [of b m rs R] rs(2) wf(3) set assms(2) by auto
  qed
  then show ?thesis using p(1) cover disj get_rects_ordered [OF assms(1)] by (auto simp: bs_def)
qed

lemma get_rects_partition_witness:
  "\<exists>rs. get_rects (demo_store 0) True False 10 = Some rs \<and> (\<Union>R \<in> set rs. rpts R) = pts (demo_store 0) \<and>
    sorted_wrt (\<lambda>R S. rpts R \<inter> rpts S = {}) rs \<and>
    (\<forall>R \<in> set rs. rpts R \<noteq> {} \<and> (rect_width R * rect_height R \<le> 10 \<or> 10 < rect_width R))"
  by (rule get_rects_partition) (use demo_store_wf in simp_all)

text \<open>
  \<open>operator=\<close> makes a region equal to another one, but assigning a region to itself
  empties it: the target is cleared before the source is read.
\<close>

theorem op_assign_distinct_or_empty:
  assumes "size_ok (h this)" and "wf_region (h r)"
  shows "\<exists>h'. op_assign_at h this r = Some h' \<and> wf_region (h' this) \<and>
    pts (h' this) = (if this = r then {} else pts (h r)) \<and> (\<forall>q. q \<noteq> this \<longrightarrow> h' q = h q)"
proof -
  define h0 where "h0 = h(this := region_clear (h this))"
  have c: "wf_region (h0 this)" "pts (h0 this) = {}" using denotes_clear [OF assms(1)] by (simp_all add: h0_def denotes_def)
  have r: "wf_region (h0 r)" "pts (h0 r) = (if this = r then {} else pts (h r))" using c assms(2) by (auto simp: h0_def)
  have "stores (XUnionRegion h0 this r this) h0 this (pts (h0 this) \<union> pts (h0 r))"
    using c r by (intro XUnionRegion_stores) (auto simp: wf_region_size)
  then obtain h' where "XUnionRegion h0 this r this = Some h'" "wf_region (h' this)"
      "pts (h' this) = pts (h0 this) \<union> pts (h0 r)" "\<And>q. q \<noteq> this \<Longrightarrow> h' q = h0 q"
    by (erule storesE)
  then show ?thesis using c r by (simp add: op_assign_at_def h0_def)
qed

lemma op_assign_distinct_or_empty_witness:
  "\<exists>h'. op_assign_at demo_store 0 0 = Some h' \<and> wf_region (h' 0) \<and>
    pts (h' 0) = (if (0 :: ptr) = 0 then {} else pts (demo_store 0)) \<and> (\<forall>q. q \<noteq> 0 \<longrightarrow> h' q = demo_store q)"
  by (rule op_assign_distinct_or_empty) (use demo_store_wf in simp_all)

text \<open>
  \<open>setOrderedRects\<close> leaves exactly the pixels of the given rectangles, whatever the region
  held before and whether or not they overlap.
\<close>

theorem setOrderedRects_union:
  assumes "this \<noteq> rr" and "size_ok (h this)" and "\<forall>r \<in> set rs. short_rect r"
  shows "\<exists>h'. setOrderedRects_at h this rs rr = Some h' \<and> wf_region (h' this) \<and>
     pts (h' this) = (\<Union>r \<in> set rs. rpts r) \<and> (\<forall>q. q \<notin> {this, rr} \<longrightarrow> h' q = h q)"
proof -
  define h0 where "h0 = h(this := region_clear (h this))"
  have c: "wf_region (h0 this)" "pts (h0 this) = {}" using denotes_clear [OF assms(2)] by (simp_all add: h0_def denotes_def)
  then show ?thesis
    using add_ordered_pts [of this rr h0 rs] assms by (auto simp: setOrderedRects_at_def h0_def)
qed

lemma setOrderedRects_union_witness:
  "\<exists>h'. setOrderedRects_at demo_store 0 [mkRect 1 1 3 3, mkRect 2 2 5 4] 2 = Some h' \<and> wf_region (h' 0) \<and>
     pts (h' 0) = (\<Union>r \<in> set [mkRect 1 1 3 3, mkRect 2 2 5 4]. rpts r) \<and> (\<forall>q. q \<notin> {0, 2} \<longrightarrow> h' q = demo_store q)"
  by (rule setOrderedRects_union) (use demo_store_wf in \<open>simp_all add: short_rect_def mkRect_def is_short_def\<close>)

text \<open>
  Three equal arguments: the destination is emptied before the capacity of the result is computed,
  so the result has room for nothing and the first box added reallocates to zero bytes.
\<close>

lemma intersect_self_loop:
  assumes r: "rects reg \<noteq> []" "\<forall>b \<in> set (rects reg). box_ok b" and n: "rsize new = 0" "rects new = []"
  shows "op_loop miIntersectO fn1 fn2 (rects reg) (rects reg) ybot prevBand new = None"
proof -
  obtain b bs where b: "rects reg = b # bs" using r(1) by (cases "rects reg") auto
  have ok: "bx1 b < bx2 b" "by1 b < by2 b" using r(2) by (auto simp: b box_ok_def)
  obtain cs where c: "band_of (b # bs) = b # cs" by (simp add: band_of_def)
  have add: "add_box new c = None" for c using n by (simp add: add_box_def MEMCHECK_def Xrealloc_ok_def)
  then have "op_body miIntersectO fn1 fn2 (b # cs) (b # cs) ybot prevBand new = None"
    using ok n by (simp add: op_body_def nonoverlap_step_def coalesce_new_def Let_def add)
  then show ?thesis unfolding b by (simp add: op_loop.simps c)
qed

text \<open>
  \<open>assign_intersect\<close> of a non-empty region with itself loses the array of rectangles (the
  reallocation to zero bytes returns NULL), although the result should be the region itself.
\<close>

theorem assign_intersect_self_fails:
  assumes "wf_region (h this)" and "pts (h this) \<noteq> {}"
  shows "assign_intersect_at h this this = None"
proof -
  have ne: "rects (h this) \<noteq> []" using assms(2) by (auto simp: pts_def)
  have ext: "bx1 (extents (h this)) < bx2 (extents (h this)) \<and> by1 (extents (h this)) < by2 (extents (h this))"
    using in_box_extents [OF assms(1) ne, of "extents (h this)"] is_bboxD(1) [OF wf_region_bbox [OF assms(1) ne]]
    by (auto simp: in_box_def)
  then have "EXTENTCHECK (extents (h this)) (extents (h this))" by (simp add: EXTENTCHECK_def)
  moreover have "miRegionOp h this this this miIntersectO None None = None"
    using intersect_self_loop [OF ne wf_region_boxes(3) [OF assms(1)],
        of "(h this)\<lparr>rects := [], rsize := 0\<rparr>" None None "by1 (extents (h this))" 0] ne
    by (simp add: miRegionOp_def Let_def Xmalloc_ok_def)
  ultimately show ?thesis using ne by (simp add: assign_intersect_at_def XIntersectRegion_def)
qed

lemma assign_intersect_self_fails_witness: "assign_intersect_at demo_store 0 0 = None"
proof (rule assign_intersect_self_fails)
  have "(0, 0) \<in> pts (demo_store 0)" by (simp add: demo_store_def pts_def INBOX_def)
  then show "pts (demo_store 0) \<noteq> {}" by auto
qed (use demo_store_wf in simp)

text \<open>
  subtracting a region from itself empties it but leaves it without any capacity, against
  what \<open>Region.cxx\<close> assumes: a later \<open>reset\<close> to a rectangle writes behind the array.
\<close>

theorem assign_subtract_self_capacity:
  "\<exists>h'. assign_subtract_at demo_store 1 1 = Some h' \<and> rects (h' 1) = [] \<and> rsize (h' 1) = 0 \<and>
     region_reset (h' 1) (mkRect 0 0 1 1) = None"
  by (simp add: assign_subtract_at_def XSubtractRegion_def demo_store_def EXTENTCHECK_def miRegionOp_def Let_def
      Xmalloc_ok_def op_loop.simps op_body_def nonoverlap_step_def coalesce_new_def band_of_def after_band_def
      miSubtractO_def next_fence_def op_tail_def op_cleanup_def miSetExtents_def region_reset_def rect_is_empty_def mkRect_def)

end
