(* ===== verification/Rfb_UpdateTracker.thy ===== *)
theory Rfb_UpdateTracker
  imports Rfb_Region
begin

text \<open>
  The update trackers of \<open>common/rfb/UpdateTracker.cxx\<close>. A tracker summarises how the server's
  frame buffer differs from what the client shows as a changed region and one copied region with
  its displacement. The specification is the pixel relation \<open>tracks\<close>: outside the changed region
  the client gets the server's picture by performing the copy. The abstract class
  \<open>UpdateTracker\<close> is the locale below.
\<close>

subsection \<open>The simple tracker\<close>

record SimpleUpdateTracker =
  changed :: region
  copied :: region
  copy_delta :: Point
  copy_enabled :: bool
  video_area :: Rect

record UpdateInfo =
  ui_changed :: region
  ui_copied :: region
  ui_copy_delta :: Point
  ui_video_area :: Rect

text \<open>The fields \<open>copy_delta\<close> and \<open>video_area\<close> are not set by the constructor of the C++ class
  (a \<open>Point\<close> starts at the origin, the corners of a \<open>Rect\<close> too).\<close>

definition newSimpleUpdateTracker :: "bool \<Rightarrow> SimpleUpdateTracker" where
  "newSimpleUpdateTracker use_copyrect =
     \<lparr>changed = XCreateRegion, copied = XCreateRegion, copy_delta = \<lparr>px = 0, py = 0\<rparr>,
      copy_enabled = use_copyrect, video_area = rect_clear\<rparr>"

definition ui_is_empty :: "UpdateInfo \<Rightarrow> bool" where
  "ui_is_empty ui \<longleftrightarrow>
     region_is_empty (ui_copied ui) \<and> region_is_empty (ui_changed ui) \<and> rect_is_empty (ui_video_area ui)"

definition add_changed :: "SimpleUpdateTracker \<Rightarrow> region \<Rightarrow> SimpleUpdateTracker option" where
  "add_changed t rgn = do { c \<leftarrow> assign_union (changed t) rgn; Some (t\<lparr>changed := c\<rparr>) }"

definition enable_copyrect :: "SimpleUpdateTracker \<Rightarrow> bool \<Rightarrow> SimpleUpdateTracker option" where
  "enable_copyrect t enable =
     do {
       t \<leftarrow> (if \<not> enable \<and> copy_enabled t
            then do { t \<leftarrow> add_changed t (copied t); Some (t\<lparr>copied := region_clear (copied t)\<rparr>) }
            else Some t);
       Some (t\<lparr>copy_enabled := enable\<rparr>)
     }"

text \<open>The case of \<open>add_copied\<close> whose source does not meet the region copied so far.\<close>

definition add_copied_separate ::
  "SimpleUpdateTracker \<Rightarrow> region \<Rightarrow> region \<Rightarrow> Point \<Rightarrow> SimpleUpdateTracker option" where
  "add_copied_separate t dest src delta =
     (let newbr = get_bounding_rect dest; oldbr = get_bounding_rect (copied t)
      in if rect_area oldbr > rect_area newbr
         then do { c \<leftarrow> assign_union (changed t) dest; Some (t\<lparr>changed := c\<rparr>) }
         else do {
           invalid_src \<leftarrow> region_intersect src (changed t);
           let invalid_src = region_translate invalid_src delta;
           c \<leftarrow> assign_union (changed t) invalid_src;
           c \<leftarrow> assign_union c (copied t);
           k \<leftarrow> op_assign (copied t) dest;
           Some (t\<lparr>changed := c, copied := k, copy_delta := delta\<rparr>)
         })"

text \<open>The case where part of the copy continues an earlier one.\<close>

definition add_copied_chained ::
  "SimpleUpdateTracker \<Rightarrow> region \<Rightarrow> region \<Rightarrow> Point \<Rightarrow> SimpleUpdateTracker option" where
  "add_copied_chained t dest overlap delta =
     do {
       invalid_src \<leftarrow> region_intersect overlap (changed t);
       let invalid_src = region_translate invalid_src delta;
       c \<leftarrow> assign_union (changed t) invalid_src;
       let overlap = region_translate overlap delta;
       both \<leftarrow> region_union dest (copied t);
       nonoverlapped_copied \<leftarrow> region_subtract both overlap;
       c \<leftarrow> assign_union c nonoverlapped_copied;
       k \<leftarrow> op_assign (copied t) overlap;
       Some (t\<lparr>changed := c, copied := k, copy_delta := point_translate (copy_delta t) delta\<rparr>)
     }"

definition add_copied :: "SimpleUpdateTracker \<Rightarrow> region \<Rightarrow> Point \<Rightarrow> SimpleUpdateTracker option" where
  "add_copied t dest delta =
     (if \<not> copy_enabled t then add_changed t dest
      else if region_is_empty dest then Some t
      else do {
        src \<leftarrow> Region_copy dest;
        let src = region_translate src (point_negate delta);
        overlap \<leftarrow> region_intersect src (copied t);
        (if region_is_empty overlap then add_copied_separate t dest src delta
         else add_copied_chained t dest overlap delta)
      })"

definition set_video_area :: "SimpleUpdateTracker \<Rightarrow> Rect \<Rightarrow> SimpleUpdateTracker option" where
  "set_video_area t rect = Some (t\<lparr>video_area := rect\<rparr>)"

definition sut_subtract :: "SimpleUpdateTracker \<Rightarrow> region \<Rightarrow> SimpleUpdateTracker option" where
  "sut_subtract t rgn =
     do {
       k \<leftarrow> assign_subtract (copied t) rgn;
       c \<leftarrow> assign_subtract (changed t) rgn;
       Some (t\<lparr>copied := k, changed := c\<rparr>)
     }"

definition getUpdateInfo :: "SimpleUpdateTracker \<Rightarrow> region \<Rightarrow> (SimpleUpdateTracker \<times> UpdateInfo) option" where
  "getUpdateInfo t clip =
     do {
       video \<leftarrow> Region_of_rect (video_area t);
       c \<leftarrow> assign_subtract (changed t) video;
       busy \<leftarrow> region_union c video;
       k \<leftarrow> assign_subtract (copied t) busy;
       uc \<leftarrow> region_intersect c clip;
       uk \<leftarrow> region_intersect k clip;
       Some (t\<lparr>changed := c, copied := k\<rparr>,
             \<lparr>ui_changed = uc, ui_copied = uk, ui_copy_delta = copy_delta t,
              ui_video_area = rect_intersect (video_area t) (get_bounding_rect clip)\<rparr>)
     }"

text \<open>\<open>copyTo\<close>, for a target given by its three virtual functions.\<close>

definition copyTo ::
  "('s \<Rightarrow> region \<Rightarrow> 's option) \<Rightarrow> ('s \<Rightarrow> region \<Rightarrow> Point \<Rightarrow> 's option) \<Rightarrow> ('s \<Rightarrow> Rect \<Rightarrow> 's option)
   \<Rightarrow> SimpleUpdateTracker \<Rightarrow> 's \<Rightarrow> 's option" where
  "copyTo to_changed to_copied to_video t to =
     do {
       to \<leftarrow> (if \<not> region_is_empty (copied t) then to_copied to (copied t) (copy_delta t) else Some to);
       to \<leftarrow> (if \<not> region_is_empty (changed t) then to_changed to (changed t) else Some to);
       to_video to (video_area t)
     }"

text \<open>\<open>Rect::translate\<close> returns the moved rectangle and \<open>translate\<close> of the tracker drops it.\<close>

definition sut_translate :: "SimpleUpdateTracker \<Rightarrow> Point \<Rightarrow> SimpleUpdateTracker" where
  "sut_translate t p =
     (let t = t\<lparr>changed := region_translate (changed t) p\<rparr>;
          t = t\<lparr>copied := region_translate (copied t) p\<rparr>;
          _ = rect_translate (video_area t) p
      in t)"

definition sut_is_empty :: "SimpleUpdateTracker \<Rightarrow> bool" where
  "sut_is_empty t \<longleftrightarrow> region_is_empty (changed t) \<and> region_is_empty (copied t) \<and> rect_is_empty (video_area t)"

definition sut_clear :: "SimpleUpdateTracker \<Rightarrow> SimpleUpdateTracker" where
  "sut_clear t = t\<lparr>changed := region_clear (changed t), copied := region_clear (copied t)\<rparr>"

subsection \<open>The clipping tracker\<close>

text \<open>It forwards to a child given by its virtual functions; its own state is \<open>clipRect\<close>.\<close>

definition clip_add_changed :: "('s \<Rightarrow> region \<Rightarrow> 's option) \<Rightarrow> Rect \<Rightarrow> 's \<Rightarrow> region \<Rightarrow> 's option" where
  "clip_add_changed ut_changed clipRect ut rgn =
     do { c \<leftarrow> Region_of_rect clipRect; r \<leftarrow> region_intersect rgn c; ut_changed ut r }"

definition clip_add_copied ::
  "('s \<Rightarrow> region \<Rightarrow> 's option) \<Rightarrow> ('s \<Rightarrow> region \<Rightarrow> Point \<Rightarrow> 's option) \<Rightarrow> Rect
   \<Rightarrow> 's \<Rightarrow> region \<Rightarrow> Point \<Rightarrow> 's option" where
  "clip_add_copied ut_changed ut_copied clipRect ut dest delta =
     do {
       c \<leftarrow> Region_of_rect clipRect;
       clipdest \<leftarrow> region_intersect dest c;
       (if region_is_empty clipdest then Some ut
        else do {
          tmp \<leftarrow> Region_copy clipdest;
          let tmp = region_translate tmp (point_negate delta);
          c \<leftarrow> Region_of_rect clipRect;
          tmp \<leftarrow> assign_intersect tmp c;
          (tmp, ut) \<leftarrow>
            (if \<not> region_is_empty tmp
             then do {
               let tmp = region_translate tmp delta;
               ut \<leftarrow> ut_copied ut tmp delta;
               Some (tmp, ut)
             }
             else Some (tmp, ut));
          rest \<leftarrow> region_subtract clipdest tmp;
          tmp \<leftarrow> op_assign tmp rest;
          (if \<not> region_is_empty tmp then ut_changed ut tmp else Some ut)
        })
     }"

definition clip_set_video_area :: "('s \<Rightarrow> Rect \<Rightarrow> 's option) \<Rightarrow> Rect \<Rightarrow> 's \<Rightarrow> Rect \<Rightarrow> 's option" where
  "clip_set_video_area ut_video clipRect ut rect = ut_video ut (rect_intersect rect clipRect)"

subsection \<open>What a tracker has to achieve\<close>

text \<open>A frame buffer after part of it was moved onto \<open>D\<close>.\<close>

definition moved :: "(int \<times> int) set \<Rightarrow> Point \<Rightarrow> (int \<times> int \<Rightarrow> 'p) \<Rightarrow> int \<times> int \<Rightarrow> 'p" where
  "moved D delta fb = (\<lambda>(x, y). if (x, y) \<in> D then fb (x - px delta, y - py delta) else fb (x, y))"

text \<open>\<open>fb'\<close> differs from \<open>fb\<close> only inside \<open>D\<close>.\<close>

definition differs_in :: "(int \<times> int) set \<Rightarrow> (int \<times> int \<Rightarrow> 'p) \<Rightarrow> (int \<times> int \<Rightarrow> 'p) \<Rightarrow> bool" where
  "differs_in D fb fb' \<longleftrightarrow> (\<forall>p. p \<notin> D \<longrightarrow> fb' p = fb p)"

text \<open>
  The contract of \<open>UpdateTracker\<close>: \<open>tracks s client server\<close> says that the state \<open>s\<close> accounts for
  the difference of the two frame buffers on the pixels \<open>screen\<close>.
\<close>

locale update_tracker =
  fixes tracks :: "'s \<Rightarrow> (int \<times> int \<Rightarrow> 'p) \<Rightarrow> (int \<times> int \<Rightarrow> 'p) \<Rightarrow> bool"
    and to_changed :: "'s \<Rightarrow> region \<Rightarrow> 's option"
    and to_copied :: "'s \<Rightarrow> region \<Rightarrow> Point \<Rightarrow> 's option"
    and to_video :: "'s \<Rightarrow> Rect \<Rightarrow> 's option"
  assumes changed_law: "tracks s client server \<Longrightarrow> denotes r D \<Longrightarrow> differs_in D server server' \<Longrightarrow>
      \<exists>s'. to_changed s r = Some s' \<and> tracks s' client server'"
    and copied_law: "tracks s client server \<Longrightarrow> denotes r D \<Longrightarrow> short_pts D \<Longrightarrow>
      short_pts (shift_pts (- px delta) (- py delta) D) \<Longrightarrow>
      \<exists>s'. to_copied s r delta = Some s' \<and> tracks s' client (moved D delta server)"
    and video_law: "tracks s client server \<Longrightarrow> \<exists>s'. to_video s R = Some s' \<and> tracks s' client server"

subsection \<open>The simple tracker keeps the contract\<close>

definition sut_tracks :: "SimpleUpdateTracker \<Rightarrow> (int \<times> int \<Rightarrow> 'p) \<Rightarrow> (int \<times> int \<Rightarrow> 'p) \<Rightarrow> bool" where
  "sut_tracks t client server \<longleftrightarrow>
     (\<exists>C K. denotes (changed t) C \<and> denotes (copied t) K \<and>
        (\<forall>p. p \<notin> C \<longrightarrow> server p = moved K (copy_delta t) client p))"

lemma sut_tracksI:
  "denotes (changed t) C \<Longrightarrow> denotes (copied t) K \<Longrightarrow>
   (\<And>p. p \<notin> C \<Longrightarrow> server p = moved K (copy_delta t) client p) \<Longrightarrow> sut_tracks t client server"
  unfolding sut_tracks_def by blast

lemma sut_tracksE:
  assumes "sut_tracks t client server"
  obtains C K where "denotes (changed t) C" and "denotes (copied t) K"
    and "\<And>p. p \<notin> C \<Longrightarrow> server p = moved K (copy_delta t) client p"
  using assms unfolding sut_tracks_def by blast

lemma moved_iff: "moved D d fb (x, y) = (if (x, y) \<in> D then fb (x - px d, y - py d) else fb (x, y))"
  by (simp add: moved_def)

lemma denotes_size: "denotes r P \<Longrightarrow> size_ok r"
  by (simp add: denotes_def wf_region_size)

lemma add_changed_tracks:
  assumes "sut_tracks t client server" and "denotes r D" and "differs_in D server server'"
  shows "\<exists>t'. add_changed t r = Some t' \<and> sut_tracks t' client server'"
proof -
  obtain C K where t: "denotes (changed t) C" "denotes (copied t) K"
    "\<And>p. p \<notin> C \<Longrightarrow> server p = moved K (copy_delta t) client p" using assms(1) by (elim sut_tracksE) blast
  obtain c where c: "assign_union (changed t) r = Some c" "denotes c (C \<union> D)"
    using t(1) assms(2) by (rule assign_ops.unionE)
  have "sut_tracks (t\<lparr>changed := c\<rparr>) client server'"
    by (rule sut_tracksI [of _ "C \<union> D" K]) (use c t assms(3) in \<open>simp_all add: differs_in_def del: split_paired_All\<close>)
  then show ?thesis using c(1) by (simp add: add_changed_def)
qed

lemma shift_back: "shift_pts (px d) (py d) (shift_pts (- px d) (- py d) D) = D"
  by (auto simp: shift_pts_def)

lemma shift_mono: "P \<subseteq> Q \<Longrightarrow> shift_pts x y P \<subseteq> shift_pts x y Q"
  by (auto simp: shift_pts_def)

text \<open>Part of the source of a copy, moved to its destination.\<close>

lemma translate_source:
  assumes "denotes r P" and "P \<subseteq> shift_pts (- px d) (- py d) D" and "short_pts D"
  shows "denotes (region_translate r d) (shift_pts (px d) (py d) P)"
proof (rule region_translate_denotes [OF assms(1)])
  have "shift_pts (px d) (py d) P \<subseteq> D" using shift_mono [OF assms(2), of "px d" "py d"] by (simp add: shift_back)
  then show "short_pts (shift_pts (px d) (py d) P)" by (rule short_pts_subset [OF assms(3)])
qed

lemma add_copied_separate_sets:
  assumes t: "denotes (changed t) C" "denotes (copied t) K" and d: "denotes dest D" "short_pts D"
    and src: "denotes src S" "S = shift_pts (- px delta) (- py delta) D"
  shows "\<exists>t' C' K'. add_copied_separate t dest src delta = Some t' \<and> denotes (changed t') C' \<and> denotes (copied t') K' \<and>
    (C' = C \<union> D \<and> K' = K \<and> copy_delta t' = copy_delta t \<or>
     C' = C \<union> shift_pts (px delta) (py delta) (S \<inter> C) \<union> K \<and> K' = D \<and> copy_delta t' = delta)"
proof (cases "rect_area (get_bounding_rect (copied t)) > rect_area (get_bounding_rect dest)")
  case True
  obtain c where "assign_union (changed t) dest = Some c" "denotes c (C \<union> D)"
    using t(1) d(1) by (rule assign_ops.unionE)
  then show ?thesis using True t(2) by (auto simp: add_copied_separate_def)
next
  case False
  obtain i where i: "region_intersect src (changed t) = Some i" "denotes i (S \<inter> C)"
    using src(1) t(1) by (rule new_ops.intersectE)
  have i': "denotes (region_translate i delta) (shift_pts (px delta) (py delta) (S \<inter> C))"
    using translate_source [OF i(2) _ d(2), of delta] src(2) by blast
  obtain c where c: "assign_union (changed t) (region_translate i delta) = Some c"
      "denotes c (C \<union> shift_pts (px delta) (py delta) (S \<inter> C))"
    using t(1) i' by (rule assign_ops.unionE)
  obtain c' where c': "assign_union c (copied t) = Some c'"
      "denotes c' (C \<union> shift_pts (px delta) (py delta) (S \<inter> C) \<union> K)"
    using c(2) t(2) by (rule assign_ops.unionE)
  obtain k where "op_assign (copied t) dest = Some k" "denotes k D"
    using op_assign_denotes [OF denotes_size [OF t(2)] d(1)] by blast
  then show ?thesis using False i(1) c(1) c' by (auto simp: add_copied_separate_def)
qed

lemma add_copied_chained_sets:
  assumes t: "denotes (changed t) C" "denotes (copied t) K" and d: "denotes dest D" "short_pts D"
    and o: "denotes overlap (S \<inter> K)" "S = shift_pts (- px delta) (- py delta) D"
  shows "\<exists>t'. add_copied_chained t dest overlap delta = Some t' \<and>
    denotes (changed t') (C \<union> shift_pts (px delta) (py delta) (S \<inter> K \<inter> C) \<union>
      (D \<union> K - shift_pts (px delta) (py delta) (S \<inter> K))) \<and>
    denotes (copied t') (shift_pts (px delta) (py delta) (S \<inter> K)) \<and>
    copy_delta t' = point_translate (copy_delta t) delta"
proof -
  obtain i where i: "region_intersect overlap (changed t) = Some i" "denotes i (S \<inter> K \<inter> C)"
    using o(1) t(1) by (rule new_ops.intersectE)
  have i': "denotes (region_translate i delta) (shift_pts (px delta) (py delta) (S \<inter> K \<inter> C))"
    by (rule translate_source [OF i(2) _ d(2)]) (use o(2) in blast)
  have o': "denotes (region_translate overlap delta) (shift_pts (px delta) (py delta) (S \<inter> K))"
    by (rule translate_source [OF o(1) _ d(2)]) (use o(2) in blast)
  obtain c where c: "assign_union (changed t) (region_translate i delta) = Some c"
      "denotes c (C \<union> shift_pts (px delta) (py delta) (S \<inter> K \<inter> C))"
    using t(1) i' by (rule assign_ops.unionE)
  obtain b where b: "region_union dest (copied t) = Some b" "denotes b (D \<union> K)"
    using d(1) t(2) by (rule new_ops.unionE)
  obtain n where n: "region_subtract b (region_translate overlap delta) = Some n"
      "denotes n (D \<union> K - shift_pts (px delta) (py delta) (S \<inter> K))"
    using b(2) o' by (rule new_ops.subtractE)
  obtain c' where c': "assign_union c n = Some c'" "denotes c' (C \<union> shift_pts (px delta) (py delta) (S \<inter> K \<inter> C) \<union>
      (D \<union> K - shift_pts (px delta) (py delta) (S \<inter> K)))"
    using c(2) n(2) by (rule assign_ops.unionE)
  obtain k where "op_assign (copied t) (region_translate overlap delta) = Some k"
      "denotes k (shift_pts (px delta) (py delta) (S \<inter> K))"
    using op_assign_denotes [OF denotes_size [OF t(2)] o'] by blast
  then show ?thesis using i(1) c(1) b(1) n(1) c' by (simp add: add_copied_chained_def)
qed

lemma add_copied_tracks:
  assumes tr: "sut_tracks t client server" and d: "denotes dest D" "short_pts D"
    and s: "short_pts (shift_pts (- px delta) (- py delta) D)"
  shows "\<exists>t'. add_copied t dest delta = Some t' \<and> sut_tracks t' client (moved D delta server)"
proof (cases "copy_enabled t \<and> D \<noteq> {}")
  case False
  have "differs_in D server (moved D delta server)" by (auto simp: differs_in_def moved_def)
  then show ?thesis
    using False add_changed_tracks [OF tr d(1)] region_is_empty_iff [OF d(1)] tr
    by (auto simp: add_copied_def moved_def)
next
  case True
  obtain C K where t: "denotes (changed t) C" "denotes (copied t) K"
    and eq: "\<And>p. p \<notin> C \<Longrightarrow> server p = moved K (copy_delta t) client p" using tr by (elim sut_tracksE) blast
  define S where "S = shift_pts (- px delta) (- py delta) D"
  obtain r where r: "Region_copy dest = Some r" "denotes r D" using Region_copy_denotes [OF d(1)] by blast
  define src where "src = region_translate r (point_negate delta)"
  have src: "denotes src S"
    using region_translate_denotes [OF r(2), of "point_negate delta"] s by (simp add: src_def S_def point_negate_def)
  obtain ov where ov: "region_intersect src (copied t) = Some ov" "denotes ov (S \<inter> K)"
    using src t(2) by (rule new_ops.intersectE)
  have run: "add_copied t dest delta =
      (if region_is_empty ov then add_copied_separate t dest src delta else add_copied_chained t dest ov delta)"
    using True region_is_empty_iff [OF d(1)] r(1) ov(1) by (simp add: add_copied_def src_def)
  have inS: "(x - px delta, y - py delta) \<in> S \<longleftrightarrow> (x, y) \<in> D" for x y by (simp add: S_def)
  show ?thesis
  proof (cases "S \<inter> K = {}")
    case sep: True
    obtain t' C' K' where t': "add_copied_separate t dest src delta = Some t'" "denotes (changed t') C'" "denotes (copied t') K'"
      and which: "C' = C \<union> D \<and> K' = K \<and> copy_delta t' = copy_delta t \<or>
        C' = C \<union> shift_pts (px delta) (py delta) (S \<inter> C) \<union> K \<and> K' = D \<and> copy_delta t' = delta"
      using add_copied_separate_sets [OF t d src S_def] by blast
    have "moved D delta server (x, y) = moved K' (copy_delta t') client (x, y)" if n: "(x, y) \<notin> C'" for x y
      using which
    proof
      assume "C' = C \<union> D \<and> K' = K \<and> copy_delta t' = copy_delta t"
      then show ?thesis using n eq [of "(x, y)"] by (simp add: moved_iff)
    next
      assume w: "C' = C \<union> shift_pts (px delta) (py delta) (S \<inter> C) \<union> K \<and> K' = D \<and> copy_delta t' = delta"
      show ?thesis
      proof (cases "(x, y) \<in> D")
        case True
        then have "(x - px delta, y - py delta) \<notin> C" "(x - px delta, y - py delta) \<notin> K"
          using n w sep inS [of x y] by auto
        then show ?thesis using True w eq [of "(x - px delta, y - py delta)"] by (simp add: moved_iff)
      next
        case False
        then show ?thesis using n w eq [of "(x, y)"] by (simp add: moved_iff)
      qed
    qed
    then have "sut_tracks t' client (moved D delta server)" using t'(2,3) by (intro sut_tracksI) auto
    then show ?thesis using run sep t'(1) region_is_empty_iff [OF ov(2)] by simp
  next
    case chain: False
    define OV where "OV = shift_pts (px delta) (py delta) (S \<inter> K)"
    obtain t' where t': "add_copied_chained t dest ov delta = Some t'"
      "denotes (changed t') (C \<union> shift_pts (px delta) (py delta) (S \<inter> K \<inter> C) \<union> (D \<union> K - OV))"
      "denotes (copied t') OV" "copy_delta t' = point_translate (copy_delta t) delta"
      using add_copied_chained_sets [OF t d ov(2) S_def] unfolding OV_def by blast
    have inO: "(x, y) \<in> OV \<longleftrightarrow> (x, y) \<in> D \<and> (x - px delta, y - py delta) \<in> K" for x y
      by (simp add: OV_def inS)
    have "moved D delta server (x, y) = moved OV (copy_delta t') client (x, y)"
      if n: "(x, y) \<notin> C \<union> shift_pts (px delta) (py delta) (S \<inter> K \<inter> C) \<union> (D \<union> K - OV)" for x y
    proof (cases "(x, y) \<in> OV")
      case True
      then have "(x - px delta, y - py delta) \<notin> C" "(x - px delta, y - py delta) \<in> K" "(x, y) \<in> D"
        using n inO [of x y] inS [of x y] by auto
      then show ?thesis
        using True eq [of "(x - px delta, y - py delta)"]
        by (simp add: moved_iff t'(4) point_translate_def diff_diff_eq add.commute)
    next
      case False
      then show ?thesis using n eq [of "(x, y)"] by (auto simp: moved_iff)
    qed
    then have "moved D delta server p = moved OV (copy_delta t') client p"
      if "p \<notin> C \<union> shift_pts (px delta) (py delta) (S \<inter> K \<inter> C) \<union> (D \<union> K - OV)" for p
      using that by (cases p) blast
    then have "sut_tracks t' client (moved D delta server)" by (rule sut_tracksI [OF t'(2,3)])
    then show ?thesis using run chain t'(1) region_is_empty_iff [OF ov(2)] by simp
  qed
qed

lemma set_video_area_tracks:
  "sut_tracks t client server \<Longrightarrow> \<exists>t'. set_video_area t R = Some t' \<and> sut_tracks t' client server"
  by (simp add: set_video_area_def sut_tracks_def)

interpretation simple_tracker: update_tracker sut_tracks add_changed add_copied set_video_area
  by unfold_locales (simp_all add: add_changed_tracks add_copied_tracks set_video_area_tracks)

subsection \<open>Clipping\<close>

text \<open>What a clipping tracker lets its child see of the server: the pixels inside the rectangle.\<close>

definition seen :: "Rect \<Rightarrow> (int \<times> int \<Rightarrow> 'p) \<Rightarrow> (int \<times> int \<Rightarrow> 'p) \<Rightarrow> int \<times> int \<Rightarrow> 'p" where
  "seen R client server = (\<lambda>p. if p \<in> rpts R then server p else client p)"

lemma short_rect_pts: "short_rect R \<Longrightarrow> short_pts (rpts R)"
  by (auto simp: short_rect_def short_pts_def in_box_def rpts_iff is_short_def)

context update_tracker
begin

lemma clipped_changed:
  assumes "tracks s client (seen R client server)" and "short_rect R" and "denotes r D" and "differs_in D server server'"
  shows "\<exists>s'. clip_add_changed to_changed R s r = Some s' \<and> tracks s' client (seen R client server')"
proof -
  obtain c where c: "Region_of_rect R = Some c" "denotes c (rpts R)" using Region_of_rect_denotes [OF assms(2)] by blast
  obtain i where i: "region_intersect r c = Some i" "denotes i (D \<inter> rpts R)"
    using assms(3) c(2) by (rule new_ops.intersectE)
  have "differs_in (D \<inter> rpts R) (seen R client server) (seen R client server')"
    using assms(4) by (auto simp: differs_in_def seen_def)
  then show ?thesis using changed_law [OF assms(1) i(2)] c(1) i(1) by (simp add: clip_add_changed_def)
qed

lemma clipped_copied:
  assumes tr: "tracks s client (seen R client server)" and R: "short_rect R" and d: "denotes r D" "short_pts D"
    and s: "short_pts (shift_pts (- px delta) (- py delta) D)"
  shows "\<exists>s'. clip_add_copied to_changed to_copied R s r delta = Some s' \<and>
    tracks s' client (seen R client (moved D delta server))"
proof -
  obtain c where c: "Region_of_rect R = Some c" "denotes c (rpts R)" using Region_of_rect_denotes [OF R] by blast
  obtain cd where cd: "region_intersect r c = Some cd" "denotes cd (D \<inter> rpts R)"
    using d(1) c(2) by (rule new_ops.intersectE)
  show ?thesis
  proof (cases "D \<inter> rpts R = {}")
    case True
    have "seen R client (moved D delta server) = seen R client server"
      using True by (auto simp: seen_def moved_def fun_eq_iff)
    then show ?thesis using tr c(1) cd region_is_empty_iff [OF cd(2)] True by (simp add: clip_add_copied_def)
  next
    case False
    define A where "A = D \<inter> rpts R"
    define S where "S = shift_pts (- px delta) (- py delta) A"
    obtain u where u: "Region_copy cd = Some u" "denotes u A" using Region_copy_denotes [OF cd(2)] by (auto simp: A_def)
    have SD: "S \<subseteq> shift_pts (- px delta) (- py delta) D" unfolding S_def A_def by (rule shift_mono) blast
    have u': "denotes (region_translate u (point_negate delta)) S"
      using region_translate_denotes [OF u(2), of "point_negate delta"] short_pts_subset [OF s SD]
      by (simp add: S_def point_negate_def)
    obtain v where v: "assign_intersect (region_translate u (point_negate delta)) c = Some v" "denotes v (S \<inter> rpts R)"
      using u' c(2) by (rule assign_ops.intersectE)
    define T where "T = shift_pts (px delta) (py delta) (S \<inter> rpts R)"
    have T: "denotes (region_translate v delta) T"
      unfolding T_def by (rule translate_source [OF v(2) _ d(2)]) (use SD in blast)
    have inT: "(x, y) \<in> T \<longleftrightarrow> (x, y) \<in> A \<and> (x - px delta, y - py delta) \<in> rpts R" for x y
      by (simp add: T_def S_def)
    have TA: "T \<subseteq> A" and AD: "A \<subseteq> D" using inT by (auto simp: A_def)
    define w where "w = (if region_is_empty v then v else region_translate v delta)"
    have "S \<inter> rpts R = {} \<Longrightarrow> T = {}" by (simp add: T_def shift_pts_def)
    then have w: "denotes w T"
      using T v(2) region_is_empty_iff [OF v(2)] by (cases "S \<inter> rpts R = {}") (simp_all add: w_def)
    have "\<exists>s1. (if \<not> region_is_empty v
             then do { s1 \<leftarrow> to_copied s (region_translate v delta) delta; Some (region_translate v delta, s1) }
             else Some (v, s)) = Some (w, s1) \<and> tracks s1 client (moved T delta (seen R client server))"
    proof (cases "region_is_empty v")
      case True
      then have "T = {}" using region_is_empty_iff [OF v(2)] by (auto simp: T_def shift_pts_def)
      then have "moved T delta (seen R client server) = seen R client server" by (auto simp: moved_def fun_eq_iff)
      then show ?thesis using True tr by (simp add: w_def)
    next
      case False
      have "short_pts T" using short_pts_subset [OF d(2)] TA AD by blast
      moreover have "short_pts (shift_pts (- px delta) (- py delta) T)"
        by (rule short_pts_subset [OF s]) (use TA AD in \<open>auto simp: shift_pts_def\<close>)
      ultimately show ?thesis using copied_law [OF tr T, of delta] False by (auto simp: w_def)
    qed
    then obtain s1 where s1: "(if \<not> region_is_empty v
             then do { s1 \<leftarrow> to_copied s (region_translate v delta) delta; Some (region_translate v delta, s1) }
             else Some (v, s)) = Some (w, s1)" "tracks s1 client (moved T delta (seen R client server))" by blast
    obtain q where q: "region_subtract cd w = Some q" "denotes q (A - T)"
      using cd(2) [folded A_def] w by (rule new_ops.subtractE)
    obtain z where z: "op_assign w q = Some z" "denotes z (A - T)"
      using op_assign_denotes [OF denotes_size [OF w] q(2)] by blast
    have diff: "differs_in (A - T) (moved T delta (seen R client server)) (seen R client (moved D delta server))"
    proof -
      have "seen R client (moved D delta server) (x, y) = moved T delta (seen R client server) (x, y)"
        if "(x, y) \<notin> A - T" for x y
        using that inT [of x y] by (auto simp: seen_def moved_iff A_def)
      then show ?thesis by (simp add: differs_in_def)
    qed
    obtain s2 where s2: "(if \<not> region_is_empty z then to_changed s1 z else Some s1) = Some s2"
        "tracks s2 client (seen R client (moved D delta server))"
    proof (cases "region_is_empty z")
      case True
      then have "A - T = {}" using region_is_empty_iff [OF z(2)] by simp
      then have "seen R client (moved D delta server) = moved T delta (seen R client server)"
        using diff unfolding differs_in_def by (intro ext) blast
      then show ?thesis using that s1(2) True by simp
    next
      case False
      then show ?thesis using that changed_law [OF s1(2) z(2) diff] by auto
    qed
    have "clip_add_copied to_changed to_copied R s r delta = Some s2"
      using False c(1) cd region_is_empty_iff [OF cd(2)] u(1) v(1) s1(1) q(1) z(1) s2(1)
      by (cases "region_is_empty v") (auto simp: clip_add_copied_def Let_def Option.bind_eq_Some_conv)
    then show ?thesis using s2(2) by blast
  qed
qed

text \<open>
  Copying one tracker into another composes what they account for: the target got the picture from
  \<open>client\<close> to \<open>base\<close>, the copied tracker from \<open>base\<close> to \<open>server\<close>.
\<close>

lemma copyTo_composes:
  assumes to: "tracks s client base" and t: "denotes (changed t) C" "denotes (copied t) K"
    and eq: "\<And>p. p \<notin> C \<Longrightarrow> server p = moved K (copy_delta t) base p"
    and fit: "short_pts K" "short_pts (shift_pts (- px (copy_delta t)) (- py (copy_delta t)) K)"
  shows "\<exists>s'. copyTo to_changed to_copied to_video t s = Some s' \<and> tracks s' client server"
proof -
  obtain s1 where s1: "(if \<not> region_is_empty (copied t) then to_copied s (copied t) (copy_delta t) else Some s) = Some s1"
      "tracks s1 client (moved K (copy_delta t) base)"
  proof (cases "region_is_empty (copied t)")
    case True
    then have "K = {}" using region_is_empty_iff [OF t(2)] by simp
    then have "moved K (copy_delta t) base = base" by (auto simp: moved_def)
    then show ?thesis using True to that by simp
  next
    case False
    then show ?thesis using copied_law [OF to t(2) fit] that by auto
  qed
  have diff: "differs_in C (moved K (copy_delta t) base) server" using eq unfolding differs_in_def by blast
  obtain s2 where s2: "(if \<not> region_is_empty (changed t) then to_changed s1 (changed t) else Some s1) = Some s2"
      "tracks s2 client server"
  proof (cases "region_is_empty (changed t)")
    case True
    then have "C = {}" using region_is_empty_iff [OF t(1)] by simp
    then have "server = moved K (copy_delta t) base" using diff unfolding differs_in_def by (intro ext) blast
    then show ?thesis using True s1(2) that by simp
  next
    case False
    then show ?thesis using changed_law [OF s1(2) t(1) diff] that by auto
  qed
  then show ?thesis using s1(1) video_law [OF s2(2), of "video_area t"] by (simp add: copyTo_def)
qed

end

subsection \<open>Handing out an update\<close>

text \<open>A client that performs the copy of an update and then receives the pixels of the rest.\<close>

definition apply_update :: "UpdateInfo \<Rightarrow> (int \<times> int \<Rightarrow> 'p) \<Rightarrow> (int \<times> int \<Rightarrow> 'p) \<Rightarrow> int \<times> int \<Rightarrow> 'p" where
  "apply_update ui server client =
     (\<lambda>p. if p \<in> pts (ui_changed ui) \<union> rpts (ui_video_area ui) then server p
          else moved (pts (ui_copied ui)) (ui_copy_delta ui) client p)"

text \<open>The tracker accounts for the difference except inside the video area.\<close>

definition tracks_but_video :: "SimpleUpdateTracker \<Rightarrow> (int \<times> int \<Rightarrow> 'p) \<Rightarrow> (int \<times> int \<Rightarrow> 'p) \<Rightarrow> bool" where
  "tracks_but_video t client server \<longleftrightarrow>
     (\<exists>C K. denotes (changed t) C \<and> denotes (copied t) K \<and>
        (\<forall>p. p \<notin> C \<union> rpts (video_area t) \<longrightarrow> server p = moved K (copy_delta t) client p))"

lemma getUpdateInfo_update:
  assumes tr: "tracks_but_video t client server" and V: "short_rect (video_area t)" and cl: "denotes clip P"
  shows "\<exists>t' ui. getUpdateInfo t clip = Some (t', ui) \<and>
    (\<forall>p \<in> P. apply_update ui server client p = server p) \<and>
    (\<forall>p. p \<notin> P \<longrightarrow> p \<notin> rpts (ui_video_area ui) \<longrightarrow> apply_update ui server client p = client p) \<and>
    pts (ui_changed ui) \<inter> pts (ui_copied ui) = {} \<and>
    (pts (ui_changed ui) \<union> pts (ui_copied ui)) \<inter> rpts (video_area t) = {} \<and> tracks_but_video t' client server"
proof -
  obtain C K where t: "denotes (changed t) C" "denotes (copied t) K"
    and eq: "\<And>p. p \<notin> C \<union> rpts (video_area t) \<Longrightarrow> server p = moved K (copy_delta t) client p"
    using tr unfolding tracks_but_video_def by blast
  define Vp where "Vp = rpts (video_area t)"
  obtain v where v: "Region_of_rect (video_area t) = Some v" "denotes v Vp" using Region_of_rect_denotes [OF V] by (auto simp: Vp_def)
  obtain c where c: "assign_subtract (changed t) v = Some c" "denotes c (C - Vp)" using t(1) v(2) by (rule assign_ops.subtractE)
  obtain b where b: "region_union c v = Some b" "denotes b (C - Vp \<union> Vp)" using c(2) v(2) by (rule new_ops.unionE)
  obtain k where k: "assign_subtract (copied t) b = Some k" "denotes k (K - (C - Vp \<union> Vp))" using t(2) b(2) by (rule assign_ops.subtractE)
  obtain uc where uc: "region_intersect c clip = Some uc" "denotes uc ((C - Vp) \<inter> P)" using c(2) cl by (rule new_ops.intersectE)
  obtain uk where uk: "region_intersect k clip = Some uk" "denotes uk ((K - (C - Vp \<union> Vp)) \<inter> P)" using k(2) cl by (rule new_ops.intersectE)
  define ui where "ui = \<lparr>ui_changed = uc, ui_copied = uk, ui_copy_delta = copy_delta t,
              ui_video_area = rect_intersect (video_area t) (get_bounding_rect clip)\<rparr>"
  have run: "getUpdateInfo t clip = Some (t\<lparr>changed := c, copied := k\<rparr>, ui)"
    using v(1) c(1) b(1) k(1) uc(1) uk(1) by (simp add: getUpdateInfo_def ui_def)
  have p: "pts (ui_changed ui) = (C - Vp) \<inter> P" "pts (ui_copied ui) = (K - (C - Vp \<union> Vp)) \<inter> P"
    "rpts (ui_video_area ui) = Vp \<inter> rpts (get_bounding_rect clip)" "ui_copy_delta ui = copy_delta t"
    using uc(2) uk(2) by (simp_all add: ui_def denotes_def rpts_intersect Vp_def)
  have vis: "Vp \<inter> P \<subseteq> rpts (ui_video_area ui)"
    using bounding_rect [OF cl] by (auto simp: p(3))
  have "apply_update ui server client (x, y) = server (x, y)" if xy: "(x, y) \<in> P" for x y
  proof (cases "(x, y) \<in> C \<union> Vp")
    case True
    then show ?thesis using xy vis by (auto simp: apply_update_def p(1))
  next
    case False
    then show ?thesis using xy eq [of "(x, y)"] by (auto simp: apply_update_def p moved_iff Vp_def)
  qed
  moreover have "apply_update ui server client (x, y) = client (x, y)"
    if "(x, y) \<notin> P" "(x, y) \<notin> rpts (ui_video_area ui)" for x y
    using that by (auto simp: apply_update_def p moved_iff)
  moreover have "tracks_but_video (t\<lparr>changed := c, copied := k\<rparr>) client server"
  proof -
    have "server (x, y) = moved (K - (C - Vp \<union> Vp)) (copy_delta t) client (x, y)" if "(x, y) \<notin> C - Vp \<union> Vp" for x y
      using eq [of "(x, y)"] that by (simp add: moved_iff Vp_def)
    then show ?thesis using c(2) k(2) by (auto simp: tracks_but_video_def Vp_def)
  qed
  ultimately show ?thesis using run p by (intro exI [of _ ui] exI) (auto simp: Vp_def)
qed

subsection \<open>The contract of the trackers\<close>

text \<open>
  C10: \<open>SimpleUpdateTracker::add_copied\<close> accounts for a move of part of the server's picture in
  every case it distinguishes: copying disabled, a source apart from the region copied so far
  (keeping the larger of the two), and a source that continues an earlier copy.
\<close>

theorem add_copied_accounts:
  assumes "sut_tracks t client server" and "denotes dest D" and "short_pts D"
    and "short_pts (shift_pts (- px delta) (- py delta) D)"
  shows "\<exists>t'. add_copied t dest delta = Some t' \<and> sut_tracks t' client (moved D delta server)"
  by (rule simple_tracker.copied_law) (fact assms)+

lemma new_tracker_tracks: "sut_tracks (newSimpleUpdateTracker b) client client"
  by (rule sut_tracksI [of _ "{}" "{}"]) (simp_all add: newSimpleUpdateTracker_def moved_def)

lemma small_region: "denotes \<lparr>rsize = 1, rects = [\<lparr>bx1 = 5, bx2 = 7, by1 = 0, by2 = 2\<rparr>],
    extents = \<lparr>bx1 = 5, bx2 = 7, by1 = 0, by2 = 2\<rparr>\<rparr> ({5..<7} \<times> {0..<2})"
  unfolding denotes_def using single_box_region [of "\<lparr>bx1 = 5, bx2 = 7, by1 = 0, by2 = 2\<rparr>"] by simp

lemma add_copied_accounts_witness:
  "\<exists>t'. add_copied (newSimpleUpdateTracker True) \<lparr>rsize = 1, rects = [\<lparr>bx1 = 5, bx2 = 7, by1 = 0, by2 = 2\<rparr>],
      extents = \<lparr>bx1 = 5, bx2 = 7, by1 = 0, by2 = 2\<rparr>\<rparr> \<lparr>px = 5, py = 0\<rparr> = Some t' \<and>
    sut_tracks t' fst (moved ({5..<7} \<times> {0..<2}) \<lparr>px = 5, py = 0\<rparr> fst)"
  by (rule add_copied_accounts [OF new_tracker_tracks small_region]) (auto simp: short_pts_def in_box_def)

text \<open>
  a \<open>ClippingUpdateTracker\<close> in front of a simple tracker makes it account for the pixels
  inside the clip rectangle only: the part of a copy whose source or destination lies outside is
  reported as changed or dropped.
\<close>

theorem clip_add_copied_accounts:
  assumes "sut_tracks t client (seen R client server)" and "short_rect R" and "denotes r D" and "short_pts D"
    and "short_pts (shift_pts (- px delta) (- py delta) D)"
  shows "\<exists>t'. clip_add_copied add_changed add_copied R t r delta = Some t' \<and>
    sut_tracks t' client (seen R client (moved D delta server))"
  by (rule simple_tracker.clipped_copied) (fact assms)+

lemma seen_same: "seen R client client = client"
  by (auto simp: seen_def)

lemma clip_add_copied_accounts_witness:
  "\<exists>t'. clip_add_copied add_changed add_copied (mkRect 1 1 6 9) (newSimpleUpdateTracker True)
      \<lparr>rsize = 1, rects = [\<lparr>bx1 = 5, bx2 = 7, by1 = 0, by2 = 2\<rparr>],
       extents = \<lparr>bx1 = 5, bx2 = 7, by1 = 0, by2 = 2\<rparr>\<rparr> \<lparr>px = 5, py = 0\<rparr> = Some t' \<and>
    sut_tracks t' fst (seen (mkRect 1 1 6 9) fst (moved ({5..<7} \<times> {0..<2}) \<lparr>px = 5, py = 0\<rparr> fst))"
proof (rule clip_add_copied_accounts)
  show "sut_tracks (newSimpleUpdateTracker True) fst (seen (mkRect 1 1 6 9) fst fst)"
    by (simp add: seen_same new_tracker_tracks)
qed (use small_region in \<open>auto simp: short_pts_def in_box_def short_rect_def mkRect_def is_short_def\<close>)

text \<open>
  C22: an update handed out by \<open>getUpdateInfo\<close> is complete for the requested region: a client that
  performs its copy and then receives the changed and video pixels shows the server's picture
  there, and nothing else of its picture changes outside the video area. The three parts of the
  normalised tracker do not overlap.
\<close>

theorem getUpdateInfo_complete:
  assumes "tracks_but_video t client server" and "short_rect (video_area t)" and "denotes clip P"
  shows "\<exists>t' ui. getUpdateInfo t clip = Some (t', ui) \<and>
    (\<forall>p \<in> P. apply_update ui server client p = server p) \<and>
    (\<forall>p. p \<notin> P \<longrightarrow> p \<notin> rpts (ui_video_area ui) \<longrightarrow> apply_update ui server client p = client p) \<and>
    pts (ui_changed ui) \<inter> pts (ui_copied ui) = {} \<and>
    (pts (ui_changed ui) \<union> pts (ui_copied ui)) \<inter> rpts (video_area t) = {} \<and> tracks_but_video t' client server"
  by (rule getUpdateInfo_update) (fact assms)+

lemma new_tracker_but_video: "tracks_but_video (newSimpleUpdateTracker b) client client"
  unfolding tracks_but_video_def
  by (intro exI [of _ "{}"]) (simp add: newSimpleUpdateTracker_def moved_def)

lemma getUpdateInfo_complete_witness:
  "\<exists>t' ui. getUpdateInfo (newSimpleUpdateTracker True) \<lparr>rsize = 1, rects = [\<lparr>bx1 = 5, bx2 = 7, by1 = 0, by2 = 2\<rparr>],
       extents = \<lparr>bx1 = 5, bx2 = 7, by1 = 0, by2 = 2\<rparr>\<rparr> = Some (t', ui) \<and>
    (\<forall>p \<in> {5..<7} \<times> {0..<2}. apply_update ui fst fst p = fst p) \<and>
    (\<forall>p. p \<notin> {5..<7} \<times> {0..<2} \<longrightarrow> p \<notin> rpts (ui_video_area ui) \<longrightarrow> apply_update ui fst fst p = fst p) \<and>
    pts (ui_changed ui) \<inter> pts (ui_copied ui) = {} \<and>
    (pts (ui_changed ui) \<union> pts (ui_copied ui)) \<inter> rpts (video_area (newSimpleUpdateTracker True)) = {} \<and>
    tracks_but_video t' fst fst"
  by (rule getUpdateInfo_complete [OF new_tracker_but_video _ small_region])
    (simp add: newSimpleUpdateTracker_def rect_clear_def short_rect_def is_short_def)

text \<open>
  \<open>copyTo\<close> composes two trackers: the target then accounts for both differences.
\<close>

theorem copyTo_accounts:
  assumes "sut_tracks s client base" and "denotes (changed t) C" and "denotes (copied t) K"
    and "\<forall>p. p \<notin> C \<longrightarrow> server p = moved K (copy_delta t) base p"
    and "short_pts K" and "short_pts (shift_pts (- px (copy_delta t)) (- py (copy_delta t)) K)"
  shows "\<exists>s'. copyTo add_changed add_copied set_video_area t s = Some s' \<and> sut_tracks s' client server"
  by (rule simple_tracker.copyTo_composes [OF assms(1-3) _ assms(5,6)]) (use assms(4) in blast)

lemma copyTo_accounts_witness:
  "\<exists>s'. copyTo add_changed add_copied set_video_area (newSimpleUpdateTracker True) (newSimpleUpdateTracker False) = Some s' \<and>
     sut_tracks s' fst fst"
  by (rule copyTo_accounts [OF new_tracker_tracks, of _ "{}" "{}"])
    (simp_all add: newSimpleUpdateTracker_def moved_def short_pts_def in_box_def shift_pts_def)

definition video_tracker :: SimpleUpdateTracker where
  "video_tracker = (newSimpleUpdateTracker True)\<lparr>video_area := mkRect 0 0 2 2\<rparr>"

definition video_frame :: "int \<times> int \<Rightarrow> nat" where
  "video_frame p = (if p \<in> rpts (mkRect 0 0 2 2) then 1 else 0)"

text \<open>
  a copy whose source lies in the video area is not accounted for: the pixels there differ
  from what the client shows, yet \<open>add_copied\<close> only checks the source against the changed region,
  so the client keeps the stale pixels it copies.
\<close>

theorem copy_from_video_lost:
  "tracks_but_video video_tracker (\<lambda>_. 0) video_frame \<and>
   (\<exists>dest t'. denotes dest ({5..<7} \<times> {0..<2}) \<and>
      add_copied video_tracker dest \<lparr>px = 5, py = 0\<rparr> = Some t' \<and>
      \<not> tracks_but_video t' (\<lambda>_. 0) (moved ({5..<7} \<times> {0..<2}) \<lparr>px = 5, py = 0\<rparr> video_frame))"
proof (intro conjI exI)
  let ?D = "{5..<7 :: int} \<times> {0..<2 :: int}" and ?d = "\<lparr>px = 5, py = 0\<rparr>"
  let ?dest = "\<lparr>rsize = 1, rects = [\<lparr>bx1 = 5, bx2 = 7, by1 = 0, by2 = 2\<rparr>],
    extents = \<lparr>bx1 = 5, bx2 = 7, by1 = 0, by2 = 2\<rparr>\<rparr>"
  show "tracks_but_video video_tracker (\<lambda>_. 0) video_frame"
    unfolding tracks_but_video_def
    by (intro exI [of _ "{}"]) (auto simp: video_tracker_def newSimpleUpdateTracker_def moved_def video_frame_def)
  show "denotes ?dest ?D" by (rule small_region)
  let ?t = "video_tracker\<lparr>copied := ?dest, copy_delta := ?d\<rparr>"
  show "add_copied video_tracker ?dest ?d = Some ?t"
    by (simp add: add_copied_def video_tracker_def newSimpleUpdateTracker_def XCreateRegion_def region_is_empty_def
        region_numRects_def Region_copy_def on_two_def Region_copy_at_def XUnionRegion_def miRegionCopy_def
        region_translate_def XOffsetRegion_def offset_box_def point_negate_def is_short_def region_intersect_def
        into_new_def intersect_at_def XIntersectRegion_def miSetExtents_def cells_def Let_def
        add_copied_separate_def get_bounding_rect_def mkRect_def rect_area_def rect_is_empty_def empty_box_def
        assign_union_def assign_union_at_def op_assign_def op_assign_at_def region_clear_def)
  show "\<not> tracks_but_video ?t (\<lambda>_. 0) (moved ?D ?d video_frame)"
  proof
    assume "tracks_but_video ?t (\<lambda>_. 0) (moved ?D ?d video_frame)"
    then obtain C K where "denotes (changed ?t) C"
      "\<forall>p. p \<notin> C \<union> rpts (video_area ?t) \<longrightarrow> moved ?D ?d video_frame p = moved K (copy_delta ?t) (\<lambda>_. 0) p"
      unfolding tracks_but_video_def by blast
    moreover have "C = {}" using calculation(1) by (simp add: video_tracker_def newSimpleUpdateTracker_def denotes_def)
    ultimately have "moved ?D ?d video_frame (5, 0) = moved K ?d (\<lambda>_. 0) (5, 0)"
      by (simp add: video_tracker_def mkRect_def rpts_iff del: split_paired_All)
    then show False by (simp add: moved_iff video_frame_def)
  qed
qed

text \<open>
  \<open>SimpleUpdateTracker::translate\<close> moves both regions but leaves the video area where it was.
\<close>

theorem sut_translate_forgets_video:
  assumes "denotes (changed t) C" and "denotes (copied t) K"
    and "short_pts (shift_pts (px p) (py p) C)" and "short_pts (shift_pts (px p) (py p) K)"
  shows "denotes (changed (sut_translate t p)) (shift_pts (px p) (py p) C) \<and>
    denotes (copied (sut_translate t p)) (shift_pts (px p) (py p) K) \<and>
    video_area (sut_translate t p) = video_area t"
  using region_translate_denotes [OF assms(1,3)] region_translate_denotes [OF assms(2,4)]
  by (simp add: sut_translate_def Let_def)

lemma sut_translate_forgets_video_witness:
  "denotes (changed (sut_translate video_tracker \<lparr>px = 3, py = 4\<rparr>)) (shift_pts 3 4 {}) \<and>
   denotes (copied (sut_translate video_tracker \<lparr>px = 3, py = 4\<rparr>)) (shift_pts 3 4 {}) \<and>
   video_area (sut_translate video_tracker \<lparr>px = 3, py = 4\<rparr>) = video_area video_tracker"
  using sut_translate_forgets_video [of video_tracker "{}" "{}" "\<lparr>px = 3, py = 4\<rparr>"]
  by (simp add: video_tracker_def newSimpleUpdateTracker_def short_pts_def in_box_def shift_pts_def)

end
