(* ===== verification/D3des.thy ===== *)
theory D3des
  imports Prelude
begin

text \<open>
  The DES code of \<open>common/rfb/d3des.c\<close>: key schedule, block permutations and rounds, with the
  internal key register \<open>KnL\<close> as an explicit argument. \<open>unsigned long\<close> is 64 bits wide, as on the
  64-bit Unix platforms; the rounds leave bits above the 32nd in the halves, which the code only
  drops when it writes the bytes out.
\<close>

unbundle bit_operations_syntax

type_synonym ulong = "64 word"
type_synonym U8 = "8 word"

subsection \<open>Key schedule\<close>

datatype edf = EN0 | DE1

definition bytebit :: "U8 list" where
  "bytebit = [1, 2, 4, 8, 16, 32, 64, 128]"

definition bigbyte :: "ulong list" where
  "bigbyte = [
    0x800000, 0x400000, 0x200000, 0x100000, 0x80000, 0x40000, 0x20000, 0x10000,
    0x8000, 0x4000, 0x2000, 0x1000, 0x800, 0x400, 0x200, 0x100,
    0x80, 0x40, 0x20, 0x10, 0x8, 0x4, 0x2, 0x1]"

definition pc1 :: "nat list" where
  "pc1 = [
    56, 48, 40, 32, 24, 16, 8, 0, 57, 49, 41, 33, 25, 17, 9, 1, 58, 50, 42, 34, 26, 18, 10, 2, 59, 51, 43, 35,
    62, 54, 46, 38, 30, 22, 14, 6, 61, 53, 45, 37, 29, 21, 13, 5, 60, 52, 44, 36, 28, 20, 12, 4, 27, 19, 11, 3]"

definition totrot :: "nat list" where
  "totrot = [1, 2, 4, 6, 8, 10, 12, 14, 15, 17, 19, 21, 23, 25, 27, 28]"

definition pc2 :: "nat list" where
  "pc2 = [
    13, 16, 10, 23, 0, 4, 2, 27, 14, 5, 20, 9, 22, 18, 11, 3, 25, 7, 15, 6, 26, 19, 12, 1,
    40, 51, 30, 36, 46, 54, 29, 39, 50, 44, 32, 47, 43, 48, 38, 55, 33, 52, 45, 41, 49, 35, 28, 31]"

text \<open>The 56 key bits, and their rotation for round \<open>i\<close>.\<close>

definition pc1m :: "U8 list \<Rightarrow> bool list" where
  "pc1m key = map (\<lambda>j. let l = pc1 ! j; m = l AND 7 in key ! (drop_bit 3 l) AND bytebit ! m \<noteq> 0) [0..<56]"

definition pcr :: "bool list \<Rightarrow> nat \<Rightarrow> bool list" where
  "pcr pm i =
     map (\<lambda>j. let l = j + totrot ! i in if l < 28 then pm ! l else pm ! (l - 28)) [0..<28] @
     map (\<lambda>j. let l = j + totrot ! i in if l < 56 then pm ! l else pm ! (l - 28)) [28..<56]"

definition kn_word :: "bool list \<Rightarrow> nat \<Rightarrow> ulong" where
  "kn_word pr offset = foldl (\<lambda>w j. if pr ! (pc2 ! (j + offset)) then w OR bigbyte ! j else w) 0 [0..<24]"

fun cookey :: "ulong list \<Rightarrow> ulong list" where
  "cookey (raw0 # raw1 # raw) =
     (push_bit 6 (raw0 AND 0x00fc0000) OR push_bit 10 (raw0 AND 0x00000fc0) OR
      drop_bit 10 (raw1 AND 0x00fc0000) OR drop_bit 6 (raw1 AND 0x00000fc0)) #
     (push_bit 12 (raw0 AND 0x0003f000) OR push_bit 16 (raw0 AND 0x0000003f) OR
      drop_bit 4 (raw1 AND 0x0003f000) OR (raw1 AND 0x0000003f)) #
     cookey raw"
| "cookey _ = []"

text \<open>\<open>deskey\<close> yields the new contents of \<open>KnL\<close>: \<open>cookey\<close> ends with \<open>usekey\<close> on all 32 words.\<close>

definition deskey :: "U8 list \<Rightarrow> edf \<Rightarrow> ulong list" where
  "deskey key edf =
     (let pm = pc1m key;
          kn = foldl (\<lambda>kn i.
                 let m = (if edf = DE1 then (15 - i) * 2 else i * 2);
                     n = m + 1;
                     pr = pcr pm i
                 in kn[m := kn_word pr 0, n := kn_word pr 24]) (replicate 32 0) [0..<16]
      in cookey kn)"

text \<open>The copies into and out of the register.\<close>

definition usekey :: "ulong list \<Rightarrow> ulong list" where
  "usekey from_keys = take 32 from_keys"

definition cpkey :: "ulong list \<Rightarrow> ulong list" where
  "cpkey KnL = take 32 KnL"

subsection \<open>Blocks\<close>

definition scrunch :: "U8 list \<Rightarrow> ulong \<times> ulong" where
  "scrunch outof =
     (let b = (\<lambda>i. ucast (outof ! i) AND 0xff :: ulong)
      in (push_bit 24 (b 0) OR push_bit 16 (b 1) OR push_bit 8 (b 2) OR b 3,
          push_bit 24 (b 4) OR push_bit 16 (b 5) OR push_bit 8 (b 6) OR b 7))"

definition unscrun :: "ulong \<times> ulong \<Rightarrow> U8 list" where
  "unscrun outof =
     (let byte = (\<lambda>w. ucast (w AND 0xff) :: U8)
      in [byte (drop_bit 24 (fst outof)), byte (drop_bit 16 (fst outof)), byte (drop_bit 8 (fst outof)), byte (fst outof),
          byte (drop_bit 24 (snd outof)), byte (drop_bit 16 (snd outof)), byte (drop_bit 8 (snd outof)), byte (snd outof)])"

subsection \<open>Substitution tables\<close>

definition SP1 :: "ulong list" where
  "SP1 = [
    0x01010400, 0x00000000, 0x00010000, 0x01010404, 0x01010004, 0x00010404, 0x00000004, 0x00010000,
    0x00000400, 0x01010400, 0x01010404, 0x00000400, 0x01000404, 0x01010004, 0x01000000, 0x00000004,
    0x00000404, 0x01000400, 0x01000400, 0x00010400, 0x00010400, 0x01010000, 0x01010000, 0x01000404,
    0x00010004, 0x01000004, 0x01000004, 0x00010004, 0x00000000, 0x00000404, 0x00010404, 0x01000000,
    0x00010000, 0x01010404, 0x00000004, 0x01010000, 0x01010400, 0x01000000, 0x01000000, 0x00000400,
    0x01010004, 0x00010000, 0x00010400, 0x01000004, 0x00000400, 0x00000004, 0x01000404, 0x00010404,
    0x01010404, 0x00010004, 0x01010000, 0x01000404, 0x01000004, 0x00000404, 0x00010404, 0x01010400,
    0x00000404, 0x01000400, 0x01000400, 0x00000000, 0x00010004, 0x00010400, 0x00000000, 0x01010004]"

definition SP2 :: "ulong list" where
  "SP2 = [
    0x80108020, 0x80008000, 0x00008000, 0x00108020, 0x00100000, 0x00000020, 0x80100020, 0x80008020,
    0x80000020, 0x80108020, 0x80108000, 0x80000000, 0x80008000, 0x00100000, 0x00000020, 0x80100020,
    0x00108000, 0x00100020, 0x80008020, 0x00000000, 0x80000000, 0x00008000, 0x00108020, 0x80100000,
    0x00100020, 0x80000020, 0x00000000, 0x00108000, 0x00008020, 0x80108000, 0x80100000, 0x00008020,
    0x00000000, 0x00108020, 0x80100020, 0x00100000, 0x80008020, 0x80100000, 0x80108000, 0x00008000,
    0x80100000, 0x80008000, 0x00000020, 0x80108020, 0x00108020, 0x00000020, 0x00008000, 0x80000000,
    0x00008020, 0x80108000, 0x00100000, 0x80000020, 0x00100020, 0x80008020, 0x80000020, 0x00100020,
    0x00108000, 0x00000000, 0x80008000, 0x00008020, 0x80000000, 0x80100020, 0x80108020, 0x00108000]"

definition SP3 :: "ulong list" where
  "SP3 = [
    0x00000208, 0x08020200, 0x00000000, 0x08020008, 0x08000200, 0x00000000, 0x00020208, 0x08000200,
    0x00020008, 0x08000008, 0x08000008, 0x00020000, 0x08020208, 0x00020008, 0x08020000, 0x00000208,
    0x08000000, 0x00000008, 0x08020200, 0x00000200, 0x00020200, 0x08020000, 0x08020008, 0x00020208,
    0x08000208, 0x00020200, 0x00020000, 0x08000208, 0x00000008, 0x08020208, 0x00000200, 0x08000000,
    0x08020200, 0x08000000, 0x00020008, 0x00000208, 0x00020000, 0x08020200, 0x08000200, 0x00000000,
    0x00000200, 0x00020008, 0x08020208, 0x08000200, 0x08000008, 0x00000200, 0x00000000, 0x08020008,
    0x08000208, 0x00020000, 0x08000000, 0x08020208, 0x00000008, 0x00020208, 0x00020200, 0x08000008,
    0x08020000, 0x08000208, 0x00000208, 0x08020000, 0x00020208, 0x00000008, 0x08020008, 0x00020200]"

definition SP4 :: "ulong list" where
  "SP4 = [
    0x00802001, 0x00002081, 0x00002081, 0x00000080, 0x00802080, 0x00800081, 0x00800001, 0x00002001,
    0x00000000, 0x00802000, 0x00802000, 0x00802081, 0x00000081, 0x00000000, 0x00800080, 0x00800001,
    0x00000001, 0x00002000, 0x00800000, 0x00802001, 0x00000080, 0x00800000, 0x00002001, 0x00002080,
    0x00800081, 0x00000001, 0x00002080, 0x00800080, 0x00002000, 0x00802080, 0x00802081, 0x00000081,
    0x00800080, 0x00800001, 0x00802000, 0x00802081, 0x00000081, 0x00000000, 0x00000000, 0x00802000,
    0x00002080, 0x00800080, 0x00800081, 0x00000001, 0x00802001, 0x00002081, 0x00002081, 0x00000080,
    0x00802081, 0x00000081, 0x00000001, 0x00002000, 0x00800001, 0x00002001, 0x00802080, 0x00800081,
    0x00002001, 0x00002080, 0x00800000, 0x00802001, 0x00000080, 0x00800000, 0x00002000, 0x00802080]"

definition SP5 :: "ulong list" where
  "SP5 = [
    0x00000100, 0x02080100, 0x02080000, 0x42000100, 0x00080000, 0x00000100, 0x40000000, 0x02080000,
    0x40080100, 0x00080000, 0x02000100, 0x40080100, 0x42000100, 0x42080000, 0x00080100, 0x40000000,
    0x02000000, 0x40080000, 0x40080000, 0x00000000, 0x40000100, 0x42080100, 0x42080100, 0x02000100,
    0x42080000, 0x40000100, 0x00000000, 0x42000000, 0x02080100, 0x02000000, 0x42000000, 0x00080100,
    0x00080000, 0x42000100, 0x00000100, 0x02000000, 0x40000000, 0x02080000, 0x42000100, 0x40080100,
    0x02000100, 0x40000000, 0x42080000, 0x02080100, 0x40080100, 0x00000100, 0x02000000, 0x42080000,
    0x42080100, 0x00080100, 0x42000000, 0x42080100, 0x02080000, 0x00000000, 0x40080000, 0x42000000,
    0x00080100, 0x02000100, 0x40000100, 0x00080000, 0x00000000, 0x40080000, 0x02080100, 0x40000100]"

definition SP6 :: "ulong list" where
  "SP6 = [
    0x20000010, 0x20400000, 0x00004000, 0x20404010, 0x20400000, 0x00000010, 0x20404010, 0x00400000,
    0x20004000, 0x00404010, 0x00400000, 0x20000010, 0x00400010, 0x20004000, 0x20000000, 0x00004010,
    0x00000000, 0x00400010, 0x20004010, 0x00004000, 0x00404000, 0x20004010, 0x00000010, 0x20400010,
    0x20400010, 0x00000000, 0x00404010, 0x20404000, 0x00004010, 0x00404000, 0x20404000, 0x20000000,
    0x20004000, 0x00000010, 0x20400010, 0x00404000, 0x20404010, 0x00400000, 0x00004010, 0x20000010,
    0x00400000, 0x20004000, 0x20000000, 0x00004010, 0x20000010, 0x20404010, 0x00404000, 0x20400000,
    0x00404010, 0x20404000, 0x00000000, 0x20400010, 0x00000010, 0x00004000, 0x20400000, 0x00404010,
    0x00004000, 0x00400010, 0x20004010, 0x00000000, 0x20404000, 0x20000000, 0x00400010, 0x20004010]"

definition SP7 :: "ulong list" where
  "SP7 = [
    0x00200000, 0x04200002, 0x04000802, 0x00000000, 0x00000800, 0x04000802, 0x00200802, 0x04200800,
    0x04200802, 0x00200000, 0x00000000, 0x04000002, 0x00000002, 0x04000000, 0x04200002, 0x00000802,
    0x04000800, 0x00200802, 0x00200002, 0x04000800, 0x04000002, 0x04200000, 0x04200800, 0x00200002,
    0x04200000, 0x00000800, 0x00000802, 0x04200802, 0x00200800, 0x00000002, 0x04000000, 0x00200800,
    0x04000000, 0x00200800, 0x00200000, 0x04000802, 0x04000802, 0x04200002, 0x04200002, 0x00000002,
    0x00200002, 0x04000000, 0x04000800, 0x00200000, 0x04200800, 0x00000802, 0x00200802, 0x04200800,
    0x00000802, 0x04000002, 0x04200802, 0x04200000, 0x00200800, 0x00000000, 0x00000002, 0x04200802,
    0x00000000, 0x00200802, 0x04200000, 0x00000800, 0x04000002, 0x04000800, 0x00000800, 0x00200002]"

definition SP8 :: "ulong list" where
  "SP8 = [
    0x10001040, 0x00001000, 0x00040000, 0x10041040, 0x10000000, 0x10001040, 0x00000040, 0x10000000,
    0x00040040, 0x10040000, 0x10041040, 0x00041000, 0x10041000, 0x00041040, 0x00001000, 0x00000040,
    0x10040000, 0x10000040, 0x10001000, 0x00001040, 0x00041000, 0x00040040, 0x10040040, 0x10041000,
    0x00001040, 0x00000000, 0x00000000, 0x10040040, 0x10000040, 0x10001000, 0x00041040, 0x00040000,
    0x00041040, 0x00040000, 0x10041000, 0x00001000, 0x00000040, 0x10040040, 0x00001000, 0x00041040,
    0x10001000, 0x00000040, 0x10000040, 0x10040000, 0x10040040, 0x10000000, 0x00040000, 0x10001040,
    0x00000000, 0x10041040, 0x00040040, 0x10000040, 0x10040000, 0x10001000, 0x10001040, 0x00000000,
    0x10041040, 0x00041000, 0x00041000, 0x00001040, 0x00001040, 0x00040040, 0x10000000, 0x10041000]"

subsection \<open>The block function\<close>

text \<open>\<open>work = ((a >> k) ^ b) & mask; b ^= work; a ^= (work << k)\<close>\<close>

definition swap_bits :: "nat \<Rightarrow> ulong \<Rightarrow> ulong \<times> ulong \<Rightarrow> ulong \<times> ulong" where
  "swap_bits k msk ab =
     (let a = fst ab; b = snd ab;
          work = (drop_bit k a XOR b) AND msk;
          b = b XOR work;
          a = a XOR push_bit k work
      in (a, b))"

text \<open>\<open>work = (leftt ^ right) & mask; leftt ^= work; right ^= work\<close>\<close>

definition exchange_bits :: "ulong \<Rightarrow> ulong \<times> ulong \<Rightarrow> ulong \<times> ulong" where
  "exchange_bits msk lr =
     (let leftt = fst lr; right = snd lr; work = (leftt XOR right) AND msk in (leftt XOR work, right XOR work))"

definition flip :: "'a \<times> 'b \<Rightarrow> 'b \<times> 'a" where
  "flip p = (snd p, fst p)"

definition rotate_left :: "ulong \<Rightarrow> ulong" where
  "rotate_left x = (push_bit 1 x OR (drop_bit 31 x AND 1)) AND 0xffffffff"

definition rotate_right :: "ulong \<Rightarrow> ulong" where
  "rotate_right x = push_bit 31 x OR drop_bit 1 x"

definition initial_perm :: "ulong \<times> ulong \<Rightarrow> ulong \<times> ulong" where
  "initial_perm lr =
     (let lr = swap_bits 4 0x0f0f0f0f lr;
          lr = swap_bits 16 0x0000ffff lr;
          lr = flip (swap_bits 2 0x33333333 (flip lr));
          lr = flip (swap_bits 8 0x00ff00ff (flip lr));
          lr = (fst lr, rotate_left (snd lr));
          lr = exchange_bits 0xaaaaaaaa lr
      in (rotate_left (fst lr), snd lr))"

text \<open>The value the halves are changed by in one step, from the other half and two key words.\<close>

definition sp_value :: "ulong \<Rightarrow> ulong \<Rightarrow> ulong \<Rightarrow> ulong" where
  "sp_value right key0 key1 =
     (let work = push_bit 28 right OR drop_bit 4 right;
          work = work XOR key0;
          fval = SP7 ! unat (work AND 0x3f);
          fval = fval OR SP5 ! unat (drop_bit 8 work AND 0x3f);
          fval = fval OR SP3 ! unat (drop_bit 16 work AND 0x3f);
          fval = fval OR SP1 ! unat (drop_bit 24 work AND 0x3f);
          work = right XOR key1;
          fval = fval OR SP8 ! unat (work AND 0x3f);
          fval = fval OR SP6 ! unat (drop_bit 8 work AND 0x3f);
          fval = fval OR SP4 ! unat (drop_bit 16 work AND 0x3f);
          fval = fval OR SP2 ! unat (drop_bit 24 work AND 0x3f)
      in fval)"

fun des_rounds :: "nat \<Rightarrow> ulong list \<Rightarrow> ulong \<times> ulong \<Rightarrow> ulong \<times> ulong" where
  "des_rounds (Suc n) (k0 # k1 # k2 # k3 # keys) (leftt, right) =
     (let leftt = leftt XOR sp_value right k0 k1;
          right = right XOR sp_value leftt k2 k3
      in des_rounds n keys (leftt, right))"
| "des_rounds _ _ lr = lr"

definition final_perm :: "ulong \<times> ulong \<Rightarrow> ulong \<times> ulong" where
  "final_perm lr =
     (let lr = (fst lr, rotate_right (snd lr));
          lr = exchange_bits 0xaaaaaaaa lr;
          lr = (rotate_right (fst lr), snd lr);
          lr = swap_bits 8 0x00ff00ff lr;
          lr = swap_bits 2 0x33333333 lr;
          lr = flip (swap_bits 16 0x0000ffff (flip lr));
          lr = flip (swap_bits 4 0x0f0f0f0f (flip lr))
      in lr)"

text \<open>The block is written back with the halves exchanged.\<close>

definition desfunc :: "ulong \<times> ulong \<Rightarrow> ulong list \<Rightarrow> ulong \<times> ulong" where
  "desfunc block keys = flip (final_perm (des_rounds 8 keys (initial_perm block)))"

definition des :: "ulong list \<Rightarrow> U8 list \<Rightarrow> U8 list" where
  "des KnL inblock = unscrun (desfunc (scrunch inblock) KnL)"

end
