(* ===== verification/D3des_Correct.thy ===== *)
theory D3des_Correct
  imports D3des
begin

text \<open>
  The DES code decrypts what it encrypts: the initial and final permutations are built from
  involutions and rotations, the rounds are a Feistel network, and the key schedule of
  \<open>DE1\<close> is that of \<open>EN0\<close> in reverse order of the rounds.
\<close>

unbundle bit_operations_syntax

subsection \<open>Halves of 32 bits\<close>

definition low32 :: "ulong \<Rightarrow> ulong" where
  "low32 x = take_bit 32 x"

definition fits32 :: "ulong \<Rightarrow> bool" where
  "fits32 x \<longleftrightarrow> low32 x = x"

named_theorems fits32_simps \<open>words that fit 32 bits\<close>

lemma bit_low32: "bit (low32 x) n \<longleftrightarrow> n < 32 \<and> bit x n"
  by (simp add: low32_def bit_take_bit_iff)

lemma fits32_iff: "fits32 x \<longleftrightarrow> (\<forall>n. bit x n \<longrightarrow> n < 32)"
  unfolding fits32_def by (metis bit_low32 bit_word_eqI)

lemma fits32_bit: "fits32 x \<Longrightarrow> bit x n \<Longrightarrow> n < 32"
  by (simp add: fits32_iff)

lemma fits32_id: "fits32 x \<Longrightarrow> low32 x = x"
  by (simp add: fits32_def)

lemma fits32_closed [fits32_simps]:
  "fits32 (low32 x)"
  "fits32 x \<Longrightarrow> fits32 y \<Longrightarrow> fits32 (x XOR y)"
  "fits32 x \<Longrightarrow> fits32 y \<Longrightarrow> fits32 (x OR y)"
  "fits32 y \<Longrightarrow> fits32 (x AND y)"
  by (auto simp: fits32_iff bit_low32 bit_xor_iff bit_or_iff bit_and_iff)

lemma low32_xor: "low32 (x XOR y) = low32 x XOR low32 y"
  by (simp add: low32_def take_bit_xor)

subsection \<open>The permutation steps\<close>

text \<open>A mask that a shift by \<open>k\<close> keeps inside 32 bits.\<close>

definition mask_ok :: "nat \<Rightarrow> ulong \<Rightarrow> bool" where
  "mask_ok k m \<longleftrightarrow> fits32 (push_bit k m) \<and> drop_bit k (push_bit k m) = m"

lemma mask_ok_bit: "mask_ok k m \<Longrightarrow> bit m n \<Longrightarrow> n + k < 32"
proof -
  assume ok: "mask_ok k m" and b: "bit m n"
  then have "bit (drop_bit k (push_bit k m)) n" by (simp add: mask_ok_def)
  then have "bit (push_bit k m) (k + n)" by (simp add: bit_drop_bit_eq)
  then show "n + k < 32" using ok fits32_bit [of "push_bit k m" "k + n"] by (simp add: mask_ok_def)
qed

lemma mask_push:
  assumes "mask_ok k m"
  shows "drop_bit k (push_bit k (v AND m)) = v AND m" and "fits32 (push_bit k (v AND m))" and "fits32 (v AND m)"
    and "drop_bit k x AND m = drop_bit k (low32 x) AND m"
proof -
  show "drop_bit k (push_bit k (v AND m)) = v AND m"
    by (rule bit_word_eqI) (use mask_ok_bit [OF assms] in \<open>force simp: bit_drop_bit_eq bit_push_bit_iff bit_and_iff\<close>)
  show "fits32 (push_bit k (v AND m))" unfolding fits32_def
    by (rule bit_word_eqI) (use mask_ok_bit [OF assms] in \<open>force simp: bit_low32 bit_push_bit_iff bit_and_iff\<close>)
  show "fits32 (v AND m)" unfolding fits32_def
    by (rule bit_word_eqI) (use mask_ok_bit [OF assms] in \<open>force simp: bit_low32 bit_and_iff\<close>)
  show "drop_bit k x AND m = drop_bit k (low32 x) AND m"
    by (rule bit_word_eqI) (use mask_ok_bit [OF assms] in \<open>force simp: bit_low32 bit_and_iff bit_drop_bit_eq\<close>)
qed

lemma drop_bit_xor': "drop_bit k (a XOR b) = drop_bit k a XOR drop_bit k (b :: ulong)"
  by (rule drop_bit_xor)

lemma swap_bits_eq:
  "w = (drop_bit k (fst p) XOR snd p) AND m \<Longrightarrow> swap_bits k m p = (fst p XOR push_bit k w, snd p XOR w)"
  unfolding swap_bits_def Let_def by blast

lemma swap_bits_inverse:
  assumes "mask_ok k m"
  shows "swap_bits k m (swap_bits k m p) = p"
proof (cases p)
  case (Pair a b)
  define w where "w = (drop_bit k a XOR b) AND m"
  have "drop_bit k (push_bit k w) = w" unfolding w_def by (rule mask_push(1) [OF assms])
  then have "drop_bit k (a XOR push_bit k w) XOR (b XOR w) = drop_bit k a XOR b"
    by (simp only: drop_bit_xor') (simp add: ac_simps)
  then have w2: "w = (drop_bit k (a XOR push_bit k w) XOR (b XOR w)) AND m" unfolding w_def by (rule arg_cong [OF sym])
  have "swap_bits k m p = (a XOR push_bit k w, b XOR w)" using swap_bits_eq [of w k p m] w_def by (simp only: Pair fst_conv snd_conv)
  moreover have "swap_bits k m (a XOR push_bit k w, b XOR w) = ((a XOR push_bit k w) XOR push_bit k w, (b XOR w) XOR w)"
    using swap_bits_eq [of w k "(a XOR push_bit k w, b XOR w)" m] w2 by (simp only: fst_conv snd_conv)
  ultimately show ?thesis by (simp add: Pair xor.assoc)
qed

definition low_pair :: "ulong \<times> ulong \<Rightarrow> ulong \<times> ulong" where
  "low_pair p = (low32 (fst p), low32 (snd p))"

definition fits_pair :: "ulong \<times> ulong \<Rightarrow> bool" where
  "fits_pair p \<longleftrightarrow> fits32 (fst p) \<and> fits32 (snd p)"

lemma low_pair_fits: "fits_pair p \<Longrightarrow> low_pair p = p"
  by (cases p) (simp add: fits_pair_def low_pair_def fits32_id)

lemma low_pair_flip [simp]: "low_pair (flip p) = flip (low_pair p)"
  by (simp add: low_pair_def flip_def)

lemma fits_pair_flip [simp]: "fits_pair (flip p) = fits_pair p"
  by (auto simp: fits_pair_def flip_def)

lemma flip_flip [simp]: "flip (flip p) = p"
  by (simp add: flip_def)

lemma swap_bits_low:
  assumes "mask_ok k m"
  shows "low_pair (swap_bits k m p) = swap_bits k m (low_pair p)"
proof (cases p)
  case (Pair a b)
  define w where "w = (drop_bit k a XOR b) AND m"
  have "w = (drop_bit k (low32 a) XOR low32 b) AND m" unfolding w_def
    by (intro bit_word_eqI) (use mask_ok_bit [OF assms] in \<open>force simp: bit_low32 bit_and_iff bit_drop_bit_eq bit_xor_iff\<close>)
  then have "swap_bits k m (low_pair p) = (low32 a XOR push_bit k w, low32 b XOR w)"
    using swap_bits_eq [of w k "low_pair p" m] by (simp only: Pair low_pair_def fst_conv snd_conv)
  moreover have "swap_bits k m p = (a XOR push_bit k w, b XOR w)"
    using swap_bits_eq [of w k p m] w_def by (simp only: Pair fst_conv snd_conv)
  moreover have "fits32 (push_bit k w)" "fits32 w" unfolding w_def by (rule mask_push [OF assms])+
  ultimately show ?thesis
    by (simp add: low_pair_def low32_xor fits32_id)
qed

lemma swap_bits_fits:
  assumes "mask_ok k m" and "fits_pair p"
  shows "fits_pair (swap_bits k m p)"
proof -
  define w where "w = (drop_bit k (fst p) XOR snd p) AND m"
  have "fits32 (push_bit k w)" "fits32 w" unfolding w_def by (rule mask_push [OF assms(1)])+
  then show ?thesis using assms(2) by (simp add: swap_bits_eq [OF w_def] fits_pair_def fits32_simps)
qed

lemma exchange_bits_inverse: "exchange_bits m (exchange_bits m p) = p"
proof (cases p)
  case (Pair a b)
  define w where "w = (a XOR b) AND m"
  have "(a XOR w) XOR (b XOR w) = a XOR b" by (simp add: ac_simps)
  then have "((a XOR w) XOR (b XOR w)) AND m = w" by (simp add: w_def)
  then show ?thesis by (simp add: Pair exchange_bits_def Let_def w_def [symmetric] xor.assoc)
qed

lemma exchange_bits_low:
  assumes "fits32 m"
  shows "low_pair (exchange_bits m p) = exchange_bits m (low_pair p)"
proof -
  have "low32 ((x XOR y) AND m) = (low32 x XOR low32 y) AND m" for x y
    by (rule bit_word_eqI) (use fits32_bit [OF assms] in \<open>auto simp: bit_low32 bit_and_iff bit_xor_iff\<close>)
  then show ?thesis by (simp add: exchange_bits_def Let_def low_pair_def low32_xor)
qed

lemma exchange_bits_fits: "fits32 m \<Longrightarrow> fits_pair p \<Longrightarrow> fits_pair (exchange_bits m p)"
  by (simp add: exchange_bits_def Let_def fits_pair_def fits32_simps)

lemma exchange_bits_flip: "exchange_bits m (flip p) = flip (exchange_bits m p)"
  by (simp add: exchange_bits_def Let_def flip_def ac_simps)

lemma bit_rotate_left: "bit (rotate_left x) n \<longleftrightarrow> n < 32 \<and> (if n = 0 then bit x 31 else bit x (n - 1))"
proof -
  have m: "(0xffffffff :: ulong) = mask 32" by (simp add: mask_eq_exp_minus_1)
  show ?thesis
    unfolding rotate_left_def m bit_and_iff bit_or_iff bit_push_bit_iff bit_drop_bit_eq bit_mask_iff bit_1_iff
    by (cases n) auto
qed

lemma rotate_left_fits: "fits32 (rotate_left x)"
  unfolding fits32_def by (rule bit_word_eqI) (auto simp: bit_low32 bit_rotate_left)

lemma bit_rotate_right: "bit (rotate_right x) n \<longleftrightarrow> n < 64 \<and> (31 \<le> n \<and> bit x (n - 31) \<or> bit x (n + 1))"
  by (auto simp: rotate_right_def bit_or_iff bit_push_bit_iff bit_drop_bit_eq add.commute dest: bit_imp_le_length)

lemma rotate_inverse:
  assumes "fits32 x"
  shows "low32 (rotate_right (rotate_left x)) = x" and "rotate_left (rotate_right x) = x"
    and "rotate_left (low32 (rotate_right x)) = x"
proof -
  show "low32 (rotate_right (rotate_left x)) = x"
    by (rule bit_word_eqI) (use assms in \<open>force simp: fits32_iff bit_low32 bit_rotate_left bit_rotate_right le_Suc_eq\<close>)
  show "rotate_left (rotate_right x) = x"
    by (rule bit_word_eqI) (use assms in \<open>force simp: fits32_iff bit_rotate_left bit_rotate_right\<close>)
  show "rotate_left (low32 (rotate_right x)) = x"
    by (rule bit_word_eqI) (use assms in \<open>force simp: fits32_iff bit_low32 bit_rotate_left bit_rotate_right\<close>)
qed

lemma masks_ok:
  "mask_ok 4 0x0f0f0f0f" "mask_ok 16 0x0000ffff" "mask_ok 2 0x33333333" "mask_ok 8 0x00ff00ff" "fits32 0xaaaaaaaa"
  by (simp_all add: mask_ok_def fits32_def low32_def)

subsection \<open>Initial and final permutation\<close>

text \<open>The final permutation as far as its low bits go.\<close>

definition final_low :: "ulong \<times> ulong \<Rightarrow> ulong \<times> ulong" where
  "final_low lr =
     (let lr = (fst lr, low32 (rotate_right (snd lr)));
          lr = exchange_bits 0xaaaaaaaa lr;
          lr = (low32 (rotate_right (fst lr)), snd lr);
          lr = swap_bits 8 0x00ff00ff lr;
          lr = swap_bits 2 0x33333333 lr;
          lr = flip (swap_bits 16 0x0000ffff (flip lr))
      in flip (swap_bits 4 0x0f0f0f0f (flip lr)))"

lemma exchange_fst_low:
  "fst (exchange_bits 0xaaaaaaaa (a, b)) = fst (exchange_bits 0xaaaaaaaa (a, low32 b))"
proof -
  have "(a XOR b) AND 0xaaaaaaaa = (a XOR low32 b) AND 0xaaaaaaaa"
    by (rule bit_word_eqI) (use fits32_bit [OF masks_ok(5)] in \<open>auto simp: bit_low32 bit_and_iff bit_xor_iff\<close>)
  then show ?thesis by (simp add: exchange_bits_def Let_def)
qed

lemma final_perm_low:
  assumes "fits_pair p"
  shows "low_pair (final_perm p) = final_low p"
proof (cases p)
  case (Pair a b)
  let ?e = "exchange_bits 0xaaaaaaaa (a, rotate_right b)" and ?e' = "exchange_bits 0xaaaaaaaa (a, low32 (rotate_right b))"
  have a: "low32 a = a" using assms by (simp add: Pair fits_pair_def fits32_id)
  have "low_pair ?e = ?e'"
    using exchange_bits_low [OF masks_ok(5), of "(a, rotate_right b)"] a by (simp add: low_pair_def)
  moreover have "fst ?e = fst ?e'" by (rule exchange_fst_low)
  ultimately have "low_pair (rotate_right (fst ?e), snd ?e) = (low32 (rotate_right (fst ?e')), snd ?e')"
    by (simp add: low_pair_def prod_eq_iff)
  then show ?thesis
    by (simp add: Pair final_perm_def final_low_def Let_def swap_bits_low masks_ok del: flip_flip)
qed

lemma initial_perm_fits: "fits_pair p \<Longrightarrow> fits_pair (initial_perm p)"
proof -
  assume "fits_pair p"
  then have "fits_pair (flip (swap_bits 8 0x00ff00ff (flip (flip (swap_bits 2 0x33333333 (flip (swap_bits 16 0x0000ffff (swap_bits 4 0x0f0f0f0f p))))))))"
    by (simp add: swap_bits_fits masks_ok)
  then have "fits_pair (exchange_bits 0xaaaaaaaa (fst (flip (swap_bits 8 0x00ff00ff (flip (flip (swap_bits 2 0x33333333 (flip (swap_bits 16 0x0000ffff (swap_bits 4 0x0f0f0f0f p)))))))),
      rotate_left (snd (flip (swap_bits 8 0x00ff00ff (flip (flip (swap_bits 2 0x33333333 (flip (swap_bits 16 0x0000ffff (swap_bits 4 0x0f0f0f0f p)))))))))))"
    by (intro exchange_bits_fits masks_ok) (simp add: fits_pair_def rotate_left_fits)
  then show ?thesis by (simp add: initial_perm_def Let_def fits_pair_def rotate_left_fits)
qed

text \<open>The outer swaps of the initial permutation, and the rotations and exchange inside.\<close>

definition outer_swaps :: "ulong \<times> ulong \<Rightarrow> ulong \<times> ulong" where
  "outer_swaps lr =
     flip (swap_bits 8 0x00ff00ff (swap_bits 2 0x33333333 (flip (swap_bits 16 0x0000ffff (swap_bits 4 0x0f0f0f0f lr)))))"

definition undo_swaps :: "ulong \<times> ulong \<Rightarrow> ulong \<times> ulong" where
  "undo_swaps lr =
     swap_bits 4 0x0f0f0f0f (swap_bits 16 0x0000ffff (flip (swap_bits 2 0x33333333 (swap_bits 8 0x00ff00ff (flip lr)))))"

definition inner_rotations :: "ulong \<times> ulong \<Rightarrow> ulong \<times> ulong" where
  "inner_rotations lr =
     (let lr = exchange_bits 0xaaaaaaaa (fst lr, rotate_left (snd lr)) in (rotate_left (fst lr), snd lr))"

definition undo_rotations :: "ulong \<times> ulong \<Rightarrow> ulong \<times> ulong" where
  "undo_rotations lr =
     (let lr = exchange_bits 0xaaaaaaaa (low32 (rotate_right (fst lr)), snd lr) in (fst lr, low32 (rotate_right (snd lr))))"

lemma initial_perm_parts: "initial_perm p = inner_rotations (outer_swaps p)"
  by (simp add: initial_perm_def inner_rotations_def outer_swaps_def Let_def)

lemma final_low_parts: "flip (final_low p) = undo_swaps (undo_rotations (flip p))"
proof -
  have "exchange_bits 0xaaaaaaaa (fst p, low32 (rotate_right (snd p))) =
      flip (exchange_bits 0xaaaaaaaa (low32 (rotate_right (snd p)), fst p))"
    using exchange_bits_flip [of _ "(low32 (rotate_right (snd p)), fst p)"] by (simp add: flip_def)
  then show ?thesis
    by (simp add: final_low_def undo_swaps_def undo_rotations_def Let_def) (simp add: flip_def)
qed

lemma swaps_inverse: "undo_swaps (outer_swaps p) = p" "outer_swaps (undo_swaps p) = p"
  by (simp_all add: undo_swaps_def outer_swaps_def swap_bits_inverse masks_ok)

lemma rotations_inverse:
  assumes "fits_pair p"
  shows "undo_rotations (inner_rotations p) = p" and "inner_rotations (undo_rotations p) = p"
proof -
  have p: "fits32 (fst p)" "fits32 (snd p)" using assms by (simp_all add: fits_pair_def)
  let ?e = "exchange_bits 0xaaaaaaaa (fst p, rotate_left (snd p))"
  have "fits_pair ?e" using p by (intro exchange_bits_fits masks_ok) (simp add: fits_pair_def rotate_left_fits)
  then have "low32 (rotate_right (rotate_left (fst ?e))) = fst ?e" by (simp add: rotate_inverse fits_pair_def)
  then have "exchange_bits 0xaaaaaaaa (low32 (rotate_right (rotate_left (fst ?e))), snd ?e) = (fst p, rotate_left (snd p))"
    by (simp add: exchange_bits_inverse)
  then show "undo_rotations (inner_rotations p) = p"
    using p by (simp add: undo_rotations_def inner_rotations_def Let_def rotate_inverse)
  let ?f = "exchange_bits 0xaaaaaaaa (low32 (rotate_right (fst p)), snd p)"
  have "fits_pair ?f" using p by (intro exchange_bits_fits masks_ok) (simp add: fits_pair_def fits32_simps)
  then have "rotate_left (low32 (rotate_right (snd ?f))) = snd ?f" by (simp add: rotate_inverse fits_pair_def)
  then have "exchange_bits 0xaaaaaaaa (fst ?f, rotate_left (low32 (rotate_right (snd ?f)))) = (low32 (rotate_right (fst p)), snd p)"
    by (simp add: exchange_bits_inverse)
  then show "inner_rotations (undo_rotations p) = p"
    using p by (simp add: undo_rotations_def inner_rotations_def Let_def rotate_inverse)
qed

lemma outer_swaps_fits: "fits_pair p \<Longrightarrow> fits_pair (outer_swaps p)"
  by (simp add: outer_swaps_def swap_bits_fits masks_ok)

lemma permutations_inverse:
  assumes "fits_pair p"
  shows "flip (final_low (flip (initial_perm p))) = p" and "initial_perm (flip (final_low p)) = flip p"
proof -
  show "flip (final_low (flip (initial_perm p))) = p"
    using assms by (simp add: final_low_parts initial_perm_parts rotations_inverse swaps_inverse outer_swaps_fits)
  show "initial_perm (flip (final_low p)) = flip p"
    using assms by (simp add: final_low_parts initial_perm_parts rotations_inverse swaps_inverse)
qed

subsection \<open>The rounds\<close>

lemma tables_fit:
  "list_all fits32 SP1" "list_all fits32 SP2" "list_all fits32 SP3" "list_all fits32 SP4"
  "list_all fits32 SP5" "list_all fits32 SP6" "list_all fits32 SP7" "list_all fits32 SP8"
  by (simp_all add: SP1_def SP2_def SP3_def SP4_def SP5_def SP6_def SP7_def SP8_def fits32_def low32_def)

lemma tables_length:
  "length SP1 = 64" "length SP2 = 64" "length SP3 = 64" "length SP4 = 64"
  "length SP5 = 64" "length SP6 = 64" "length SP7 = 64" "length SP8 = 64"
  by (simp_all add: SP1_def SP2_def SP3_def SP4_def SP5_def SP6_def SP7_def SP8_def)

lemma sbox_index_less: "unat (w AND 0x3f :: ulong) < 64"
proof -
  have "w AND 0x3f \<le> 0x3f" by (rule word_and_le1)
  then show ?thesis by (simp add: word_le_nat_alt)
qed

lemma sp_value_fits: "fits32 (sp_value r k0 k1)"
proof -
  have t: "list_all fits32 T \<Longrightarrow> length T = 64 \<Longrightarrow> fits32 (T ! unat (w AND 0x3f))" for T and w :: ulong
    using sbox_index_less [of w] by (simp add: list_all_length)
  show ?thesis
    unfolding sp_value_def Let_def by (intro fits32_simps t tables_fit tables_length)
qed

definition half_round :: "ulong \<times> ulong \<Rightarrow> ulong \<times> ulong \<Rightarrow> ulong \<times> ulong" where
  "half_round lr k = (snd lr, fst lr XOR sp_value (snd lr) (fst k) (snd k))"

definition key_words :: "(ulong \<times> ulong) list \<Rightarrow> ulong list" where
  "key_words ks = concat (map (\<lambda>k. [fst k, snd k]) ks)"

lemma des_rounds_halves:
  "length ks = 2 * n \<Longrightarrow> des_rounds n (key_words ks) lr = foldl half_round lr ks"
proof (induction n arbitrary: ks lr)
  case (Suc n)
  obtain k1 k2 ks' where ks: "ks = k1 # k2 # ks'" using Suc.prems by (metis length_Suc_conv mult_Suc_right numeral_2_eq_2 add_Suc)
  have "foldl half_round lr ks = des_rounds n (key_words ks') (half_round (half_round lr k1) k2)"
    using Suc.IH [of ks'] Suc.prems by (simp add: ks)
  moreover have "des_rounds (Suc n) (key_words ks) lr = des_rounds n (key_words ks') (half_round (half_round lr k1) k2)"
    by (cases lr) (simp add: ks key_words_def half_round_def Let_def)
  ultimately show ?case by simp
qed (cases lr; simp)

lemma half_round_undo: "half_round (flip (half_round lr k)) k = flip lr"
  by (simp add: half_round_def flip_def xor.assoc)

lemma rounds_undo: "foldl half_round (flip (foldl half_round lr ks)) (rev ks) = flip lr"
  by (induction ks arbitrary: lr) (simp_all add: half_round_undo)

lemma half_round_fits: "fits_pair lr \<Longrightarrow> fits_pair (half_round lr k)"
  by (simp add: half_round_def fits_pair_def fits32_simps sp_value_fits)

lemma rounds_fit: "fits_pair lr \<Longrightarrow> fits_pair (foldl half_round lr ks)"
  by (induction ks arbitrary: lr) (simp_all add: half_round_fits)

text \<open>With the rounds' keys in reverse order the block function undoes itself, up to the high bits.\<close>

lemma desfunc_undo:
  assumes "fits_pair p" and "length ks = 16"
  shows "low_pair (desfunc (low_pair (desfunc p (key_words ks))) (key_words (rev ks))) = p"
proof -
  define q where "q = foldl half_round (initial_perm p) ks"
  have q: "fits_pair q" unfolding q_def by (intro rounds_fit initial_perm_fits assms)
  have "low_pair (desfunc p (key_words ks)) = flip (final_low q)"
    using assms(2) q by (simp add: desfunc_def des_rounds_halves q_def [symmetric] final_perm_low)
  moreover have "initial_perm (flip (final_low q)) = flip q" using q by (rule permutations_inverse)
  moreover have "foldl half_round (flip q) (rev ks) = flip (initial_perm p)" unfolding q_def by (rule rounds_undo)
  moreover have "fits_pair (flip (initial_perm p))" using assms by (simp add: initial_perm_fits)
  ultimately show ?thesis
    using assms by (simp add: desfunc_def des_rounds_halves final_perm_low permutations_inverse)
qed

subsection \<open>Bytes\<close>

text \<open>The masks with \<open>0xff\<close> only repeat what the conversions do.\<close>

lemma ff_mask: "(0xff :: ulong) = mask 8"
  by (simp add: mask_eq_exp_minus_1)

lemma byte_to_word: "ucast (x :: U8) AND 0xff = (ucast x :: ulong)"
  unfolding ff_mask by (rule bit_word_eqI) (auto simp: bit_and_iff bit_mask_iff bit_ucast_iff dest: bit_imp_le_length)

lemma word_to_byte: "ucast (w AND 0xff :: ulong) = (ucast w :: U8)"
  unfolding ff_mask by (rule bit_word_eqI) (auto simp: bit_and_iff bit_mask_iff bit_ucast_iff)

definition join_bytes :: "U8 \<Rightarrow> U8 \<Rightarrow> U8 \<Rightarrow> U8 \<Rightarrow> ulong" where
  "join_bytes x0 x1 x2 x3 = push_bit 24 (ucast x0) OR push_bit 16 (ucast x1) OR push_bit 8 (ucast x2) OR ucast x3"

lemma bit_join_bytes:
  "bit (join_bytes x0 x1 x2 x3) n \<longleftrightarrow>
     (if n < 8 then bit x3 n else if n < 16 then bit x2 (n - 8) else if n < 24 then bit x1 (n - 16)
      else bit x0 (n - 24))"
  by (auto simp: join_bytes_def bit_or_iff bit_push_bit_iff bit_ucast_iff dest: bit_imp_le_length)

lemma scrunch_join:
  "scrunch b = (join_bytes (b ! 0) (b ! 1) (b ! 2) (b ! 3), join_bytes (b ! 4) (b ! 5) (b ! 6) (b ! 7))"
  unfolding scrunch_def Let_def byte_to_word join_bytes_def ..

lemma unscrun_bytes:
  "unscrun p = [ucast (drop_bit 24 (fst p)), ucast (drop_bit 16 (fst p)), ucast (drop_bit 8 (fst p)), ucast (fst p),
     ucast (drop_bit 24 (snd p)), ucast (drop_bit 16 (snd p)), ucast (drop_bit 8 (snd p)), ucast (snd p)]"
  unfolding unscrun_def Let_def word_to_byte ..

lemma byte_low32: "k \<le> 24 \<Longrightarrow> (ucast (drop_bit k (low32 w)) :: U8) = ucast (drop_bit k w)"
  by (rule bit_word_eqI) (auto simp: bit_ucast_iff bit_drop_bit_eq bit_low32)

lemma unscrun_low: "unscrun (low_pair p) = unscrun p"
  using byte_low32 [of 0] by (simp add: unscrun_bytes low_pair_def byte_low32)

lemma bytes_of_join:
  "ucast (drop_bit 24 (join_bytes x0 x1 x2 x3)) = x0" "ucast (drop_bit 16 (join_bytes x0 x1 x2 x3)) = x1"
  "ucast (drop_bit 8 (join_bytes x0 x1 x2 x3)) = x2" "ucast (join_bytes x0 x1 x2 x3) = x3"
  by (rule bit_word_eqI, simp add: bit_ucast_iff bit_drop_bit_eq bit_join_bytes)+

lemma unscrun_scrunch: "length bs = 8 \<Longrightarrow> unscrun (scrunch bs) = bs"
proof -
  assume l: "length bs = 8"
  then have "bs = [bs ! 0, bs ! 1, bs ! 2, bs ! 3, bs ! 4, bs ! 5, bs ! 6, bs ! 7]"
    by (intro nth_equalityI) (auto simp: less_Suc_eq numeral_eq_Suc)
  then show ?thesis by (simp add: unscrun_bytes scrunch_join bytes_of_join)
qed

lemma join_of_bytes:
  "join_bytes (ucast (drop_bit 24 w)) (ucast (drop_bit 16 w)) (ucast (drop_bit 8 w)) (ucast w) = low32 w"
proof (rule bit_word_eqI)
  fix n assume "n < LENGTH(64)"
  then show "bit (join_bytes (ucast (drop_bit 24 w)) (ucast (drop_bit 16 w)) (ucast (drop_bit 8 w)) (ucast w)) n \<longleftrightarrow> bit (low32 w) n"
    by (simp add: bit_join_bytes bit_ucast_iff bit_drop_bit_eq bit_low32) linarith
qed

lemma scrunch_unscrun: "scrunch (unscrun p) = low_pair p"
  by (simp add: unscrun_bytes scrunch_join low_pair_def join_of_bytes)

lemma scrunch_fits: "fits_pair (scrunch bs)"
  by (auto simp: scrunch_join fits_pair_def fits32_iff bit_join_bytes dest: bit_imp_le_length split: if_splits)

lemma length_unscrun [simp]: "length (unscrun p) = 8"
  by (simp add: unscrun_def)

subsection \<open>The key schedule\<close>

text \<open>\<open>cookey\<close> works on the two words of one round at a time.\<close>

definition cook :: "ulong \<times> ulong \<Rightarrow> ulong \<times> ulong" where
  "cook k = (cookey [fst k, snd k] ! 0, cookey [fst k, snd k] ! 1)"

lemma cookey_key_words: "cookey (key_words ks) = key_words (map cook ks)"
  by (induction ks) (simp_all add: key_words_def cook_def)

definition round_key :: "U8 list \<Rightarrow> nat \<Rightarrow> ulong \<times> ulong" where
  "round_key key i = cook (kn_word (pcr (pc1m key) i) 0, kn_word (pcr (pc1m key) i) 24)"

lemma upt_16: "[0..<16] = [0, 1, 2, 3, 4, 5, 6, 7, 8, 9, 10, 11, 12, 13, 14, 15 :: nat]"
  by (simp add: upt_rec)

lemma deskey_EN0: "deskey key EN0 = key_words (map (round_key key) [0..<16])"
proof -
  have "foldl (\<lambda>kn i. kn[i * 2 := a i, i * 2 + 1 := b i]) (replicate 32 0) [0..<16] =
      key_words (map (\<lambda>i. (a i, b i)) [0..<16])" for a b :: "nat \<Rightarrow> ulong"
    unfolding upt_16 key_words_def by (simp add: numeral_eq_Suc)
  then show ?thesis by (simp add: deskey_def Let_def cookey_key_words comp_def round_key_def [abs_def])
qed

lemma deskey_DE1: "deskey key DE1 = key_words (rev (map (round_key key) [0..<16]))"
proof -
  have "foldl (\<lambda>kn i. kn[(15 - i) * 2 := a i, (15 - i) * 2 + 1 := b i]) (replicate 32 0) [0..<16] =
      key_words (rev (map (\<lambda>i. (a i, b i)) [0..<16]))" for a b :: "nat \<Rightarrow> ulong"
    unfolding upt_16 key_words_def by (simp add: numeral_eq_Suc)
  then show ?thesis by (simp add: deskey_def Let_def cookey_key_words comp_def round_key_def [abs_def] rev_map)
qed

lemma des_undo:
  assumes "length ks = 16" and "length bs = 8"
  shows "des (key_words (rev ks)) (des (key_words ks) bs) = bs"
proof -
  have "unscrun (desfunc (low_pair (desfunc (scrunch bs) (key_words ks))) (key_words (rev ks))) =
      unscrun (low_pair (desfunc (low_pair (desfunc (scrunch bs) (key_words ks))) (key_words (rev ks))))"
    by (rule unscrun_low [symmetric])
  also have "\<dots> = unscrun (scrunch bs)"
    using desfunc_undo [OF scrunch_fits assms(1), of bs] by simp
  finally show ?thesis using assms(2) by (simp add: des_def scrunch_unscrun unscrun_scrunch)
qed

lemma length_des [simp]: "length (des k bs) = 8"
  by (simp add: des_def)

subsection \<open>The contract\<close>

text \<open>
  C17: with the same key, a block encrypted under \<open>EN0\<close> is recovered under \<open>DE1\<close> and the other
  way round, for every key and block.
\<close>

theorem des_decrypts:
  assumes "length block = 8"
  shows "des (deskey key DE1) (des (deskey key EN0) block) = block \<and>
    des (deskey key EN0) (des (deskey key DE1) block) = block"
  using des_undo [of "map (round_key key) [0..<16]" block] des_undo [of "rev (map (round_key key) [0..<16])" block] assms
  by (simp add: deskey_EN0 deskey_DE1)

lemma des_decrypts_witness:
  "des (deskey [1, 2, 3, 4, 5, 6, 7, 8] DE1) (des (deskey [1, 2, 3, 4, 5, 6, 7, 8] EN0) [8, 7, 6, 5, 4, 3, 2, 1]) = [8, 7, 6, 5, 4, 3, 2, 1] \<and>
   des (deskey [1, 2, 3, 4, 5, 6, 7, 8] EN0) (des (deskey [1, 2, 3, 4, 5, 6, 7, 8] DE1) [8, 7, 6, 5, 4, 3, 2, 1]) = [8, 7, 6, 5, 4, 3, 2, 1]"
  by (rule des_decrypts) simp

end
