(* ===== verification/Rdr_InStream.thy ===== *)
theory Rdr_InStream
  imports Prelude
begin

text \<open>
  Buffered input (\<open>common/rdr/InStream.h\<close>, \<open>InStream.cxx\<close>) with the derived classes
  \<open>MemInStream\<close> and \<open>FdInStream\<close>. The methods of the base class are written once over the virtual
  function \<open>overrun\<close>; what they rely on is the locale \<open>in_stream\<close>, and inside it every read is
  shown to depend only on the bytes still to come, not on how they arrive in the buffer.
\<close>

unbundle bit_operations_syntax

type_synonym u8 = "8 word"
type_synonym u16 = "16 word"
type_synonym u32 = "32 word"

subsection \<open>Results\<close>

text \<open>
  An operation yields the exception it throws or its value. \<open>Stuck\<close> stands for a loop that makes
  no progress because \<open>overrun\<close> returned 0 items though it was told to wait, against its contract.
\<close>

datatype rdr_error = EndOfStream | TimedOut | StringTooLong | ItemTooBig | Stuck

definition andthen :: "'e + 'a \<Rightarrow> ('a \<Rightarrow> 'e + 'b) \<Rightarrow> 'e + 'b" where
  "andthen m f = (case m of Inl e \<Rightarrow> Inl e | Inr x \<Rightarrow> f x)"

lemma andthen_simps [simp]: "andthen (Inl e) f = Inl e" "andthen (Inr x) f = f x"
  by (simp_all add: andthen_def)

subsection \<open>InStream\<close>

text \<open>The bytes between \<open>ptr\<close> and \<open>end\<close>, and the state of the derived class.\<close>

record 's istream =
  ibuf :: "u8 list"
  src :: 's

type_synonym 's overrun = "'s istream \<Rightarrow> nat \<Rightarrow> nat \<Rightarrow> bool \<Rightarrow> rdr_error + (nat \<times> 's istream)"

definition icheck :: "'s overrun \<Rightarrow> 's istream \<Rightarrow> nat \<Rightarrow> nat \<Rightarrow> bool \<Rightarrow> rdr_error + (nat \<times> 's istream)" where
  "icheck overrun st itemSize nItems wait =
     (if itemSize * nItems > length (ibuf st)
      then if itemSize > length (ibuf st) then overrun st itemSize nItems wait
           else Inr (length (ibuf st) div itemSize, st)
      else Inr (nItems, st))"

definition checkNoWait :: "'s overrun \<Rightarrow> 's istream \<Rightarrow> nat \<Rightarrow> rdr_error + (bool \<times> 's istream)" where
  "checkNoWait overrun st n = andthen (icheck overrun st n 1 False) (\<lambda>(k, st). Inr (k \<noteq> 0, st))"

text \<open>\<open>*ptr++\<close> \<open>k\<close> times.\<close>

definition advance :: "nat \<Rightarrow> 's istream \<Rightarrow> 's istream" where
  "advance k st = st\<lparr>ibuf := drop k (ibuf st)\<rparr>"

definition readU8 :: "'s overrun \<Rightarrow> 's istream \<Rightarrow> rdr_error + (u8 \<times> 's istream)" where
  "readU8 overrun st = andthen (icheck overrun st 1 1 True) (\<lambda>(_, st). Inr (ibuf st ! 0, advance 1 st))"

definition readU16 :: "'s overrun \<Rightarrow> 's istream \<Rightarrow> rdr_error + (u16 \<times> 's istream)" where
  "readU16 overrun st =
     andthen (icheck overrun st 2 1 True)
       (\<lambda>(_, st). let b0 = ibuf st ! 0; b1 = ibuf st ! 1
                  in Inr (push_bit 8 (ucast b0) OR ucast b1, advance 2 st))"

definition readU32 :: "'s overrun \<Rightarrow> 's istream \<Rightarrow> rdr_error + (u32 \<times> 's istream)" where
  "readU32 overrun st =
     andthen (icheck overrun st 4 1 True)
       (\<lambda>(_, st). let b0 = ibuf st ! 0; b1 = ibuf st ! 1; b2 = ibuf st ! 2; b3 = ibuf st ! 3
                  in Inr (push_bit 24 (ucast b0) OR push_bit 16 (ucast b1) OR push_bit 8 (ucast b2) OR ucast b3,
                          advance 4 st))"

text \<open>The signed reads, as the integers the words stand for in two's complement.\<close>

definition readS8 :: "'s overrun \<Rightarrow> 's istream \<Rightarrow> rdr_error + (int \<times> 's istream)" where
  "readS8 overrun st = andthen (readU8 overrun st) (\<lambda>(u, st). Inr (sint u, st))"

definition readS16 :: "'s overrun \<Rightarrow> 's istream \<Rightarrow> rdr_error + (int \<times> 's istream)" where
  "readS16 overrun st = andthen (readU16 overrun st) (\<lambda>(u, st). Inr (sint u, st))"

definition readS32 :: "'s overrun \<Rightarrow> 's istream \<Rightarrow> rdr_error + (int \<times> 's istream)" where
  "readS32 overrun st = andthen (readU32 overrun st) (\<lambda>(u, st). Inr (sint u, st))"

definition readCompactLength :: "'s overrun \<Rightarrow> 's istream \<Rightarrow> rdr_error + (nat \<times> 's istream)" where
  "readCompactLength overrun st =
     andthen (readU8 overrun st) (\<lambda>(b, st).
       let result = unat (b AND 0x7f)
       in if b AND 0x80 \<noteq> 0
          then andthen (readU8 overrun st) (\<lambda>(b, st).
            let result = result OR push_bit 7 (unat (b AND 0x7f))
            in if b AND 0x80 \<noteq> 0
               then andthen (readU8 overrun st) (\<lambda>(b, st). Inr (result OR push_bit 14 (unat (b AND 0xff)), st))
               else Inr (result, st))
          else Inr (result, st))"

function iskip :: "'s overrun \<Rightarrow> 's istream \<Rightarrow> nat \<Rightarrow> rdr_error + 's istream" where
  "iskip overrun st bytes =
     (if bytes > 0
      then case icheck overrun st 1 bytes True of
             Inl e \<Rightarrow> Inl e
           | Inr (n, st) \<Rightarrow> if n = 0 then Inl Stuck else iskip overrun (advance n st) (bytes - n)
      else Inr st)"
  by pat_completeness auto

termination iskip
  by (relation "measure (\<lambda>(_, _, n). n)") auto

declare iskip.simps [simp del]

function readBytes :: "'s overrun \<Rightarrow> 's istream \<Rightarrow> nat \<Rightarrow> rdr_error + (u8 list \<times> 's istream)" where
  "readBytes overrun st n =
     (if n > 0
      then case icheck overrun st 1 n True of
             Inl e \<Rightarrow> Inl e
           | Inr (k, st) \<Rightarrow>
               if k = 0 then Inl Stuck
               else andthen (readBytes overrun (advance k st) (n - k)) (\<lambda>(rest, st'). Inr (take k (ibuf st) @ rest, st'))
      else Inr ([], st))"
  by pat_completeness auto

termination readBytes
  by (relation "measure (\<lambda>(_, _, n). n)") auto

declare readBytes.simps [simp del]

definition maxStringLength :: u32 where
  "maxStringLength = 65535"

text \<open>\<open>bytes\<close> is the stream's own \<open>readBytes\<close>, which is virtual.\<close>

definition readString :: "'s overrun \<Rightarrow> ('s istream \<Rightarrow> nat \<Rightarrow> rdr_error + (u8 list \<times> 's istream)) \<Rightarrow>
    's istream \<Rightarrow> rdr_error + (u8 list \<times> 's istream)" where
  "readString overrun bytes st =
     andthen (readU32 overrun st) (\<lambda>(len, st).
       if len > maxStringLength then Inl StringTooLong else bytes st (unat len))"

text \<open>
  The opaque reads keep the byte order of memory; on a little-endian machine the first byte of the
  stream is the lowest of the result.
\<close>

definition readOpaque16 :: "'s overrun \<Rightarrow> 's istream \<Rightarrow> rdr_error + (u16 \<times> 's istream)" where
  "readOpaque16 overrun st =
     andthen (icheck overrun st 2 1 True)
       (\<lambda>(_, st). Inr (ucast (ibuf st ! 0) OR push_bit 8 (ucast (ibuf st ! 1)), advance 2 st))"

definition readOpaque32 :: "'s overrun \<Rightarrow> 's istream \<Rightarrow> rdr_error + (u32 \<times> 's istream)" where
  "readOpaque32 overrun st =
     andthen (icheck overrun st 4 1 True)
       (\<lambda>(_, st). Inr (ucast (ibuf st ! 0) OR push_bit 8 (ucast (ibuf st ! 1)) OR
                      push_bit 16 (ucast (ibuf st ! 2)) OR push_bit 24 (ucast (ibuf st ! 3)), advance 4 st))"

definition readOpaque24A :: "'s overrun \<Rightarrow> 's istream \<Rightarrow> rdr_error + (u32 \<times> 's istream)" where
  "readOpaque24A overrun st =
     andthen (icheck overrun st 3 1 True)
       (\<lambda>(_, st). Inr (ucast (ibuf st ! 0) OR push_bit 8 (ucast (ibuf st ! 1)) OR
                      push_bit 16 (ucast (ibuf st ! 2)), advance 3 st))"

definition readOpaque24B :: "'s overrun \<Rightarrow> 's istream \<Rightarrow> rdr_error + (u32 \<times> 's istream)" where
  "readOpaque24B overrun st =
     andthen (icheck overrun st 3 1 True)
       (\<lambda>(_, st). Inr (push_bit 8 (ucast (ibuf st ! 0)) OR push_bit 16 (ucast (ibuf st ! 1)) OR
                      push_bit 24 (ucast (ibuf st ! 2)), advance 3 st))"

subsection \<open>The derived classes\<close>

text \<open>\<open>MemInStream\<close>: all there is lies in the buffer.\<close>

definition MemInStream :: "u8 list \<Rightarrow> unit istream" where
  "MemInStream data = \<lparr>ibuf = data, src = ()\<rparr>"

definition mem_overrun :: "unit overrun" where
  "mem_overrun st itemSize nItems wait = Inl EndOfStream"

text \<open>
  \<open>FdInStream\<close>: the file descriptor has the bytes \<open>pending\<close> still to deliver (none left is end of
  file). When and in what portions they arrive is up to the system: each entry of \<open>arrivals\<close> is one
  return of \<open>select\<close>, 0 when it found nothing to read and otherwise the bytes there for the next
  \<open>read\<close>; past its end everything pending is there. \<open>timeout\<close> is \<open>timeoutms != -1\<close>, \<open>callback\<close> that a
  block callback is set.
\<close>

record fd_state =
  pending :: "u8 list"
  arrivals :: "nat list"
  bufSize :: nat
  timing :: bool
  timeout :: bool
  callback :: bool

definition newFdInStream :: "u8 list \<Rightarrow> nat list \<Rightarrow> bool \<Rightarrow> nat \<Rightarrow> fd_state istream" where
  "newFdInStream bs arr tmo n =
     \<lparr>ibuf = [], src = \<lparr>pending = bs, arrivals = arr, bufSize = (if n = 0 then 8192 else n),
                       timing = False, timeout = tmo, callback = False\<rparr>\<rparr>"

definition setBlockCallback :: "fd_state istream \<Rightarrow> fd_state istream" where
  "setBlockCallback st = st\<lparr>src := (src st)\<lparr>callback := True, timeout := True\<rparr>\<rparr>"

text \<open>The \<open>while (true)\<close> loop around \<open>select\<close>: whether the descriptor became readable. Without a
  timeout \<open>select\<close> itself waits.\<close>

fun select_loop :: "bool \<Rightarrow> bool \<Rightarrow> bool \<Rightarrow> nat list \<Rightarrow> rdr_error + (bool \<times> nat list)" where
  "select_loop wait tmo cb [] = Inr (True, [])"
| "select_loop wait tmo cb (a # as) =
     (if a > 0 then Inr (True, a # as)
      else if \<not> wait then Inr (False, as)
      else if \<not> tmo then select_loop wait tmo cb as
      else if \<not> cb then Inl TimedOut
      else select_loop wait tmo cb as)"

definition readWithTimeoutOrCallback :: "fd_state \<Rightarrow> nat \<Rightarrow> bool \<Rightarrow> rdr_error + (u8 list \<times> fd_state)" where
  "readWithTimeoutOrCallback s len wait =
     andthen (select_loop wait (timeout s) (callback s) (arrivals s)) (\<lambda>(ready, as).
       if \<not> ready then Inr ([], s\<lparr>arrivals := as\<rparr>)
       else let n = (if as = [] then len else min len (hd as))
            in if pending s = [] then Inl EndOfStream
               else Inr (take n (pending s), s\<lparr>pending := drop n (pending s), arrivals := tl as\<rparr>))"

text \<open>The loop of \<open>overrun\<close> that fills the buffer; \<open>False\<close> for its early \<open>return 0\<close>.\<close>

definition bytes_to_read :: "fd_state istream \<Rightarrow> nat \<Rightarrow> nat \<Rightarrow> nat" where
  "bytes_to_read st itemSize nItems =
     (let room = bufSize (src st) - length (ibuf st)
      in if \<not> timing (src st) then min room (max (itemSize * nItems) 8) else room)"

function fd_fill :: "fd_state istream \<Rightarrow> nat \<Rightarrow> nat \<Rightarrow> bool \<Rightarrow> rdr_error + (bool \<times> fd_state istream)" where
  "fd_fill st itemSize nItems wait =
     (if length (ibuf st) < itemSize
      then case readWithTimeoutOrCallback (src st) (bytes_to_read st itemSize nItems) wait of
             Inl e \<Rightarrow> Inl e
           | Inr (bs, s) \<Rightarrow>
               if bs = [] then Inr (False, st\<lparr>src := s\<rparr>)
               else fd_fill (st\<lparr>ibuf := ibuf st @ bs, src := s\<rparr>) itemSize nItems wait
      else Inr (True, st))"
  by pat_completeness auto

termination fd_fill
proof (relation "measure (\<lambda>(st, itemSize, _). itemSize - length (ibuf st))", goal_cases)
  case (2 st itemSize nItems wait a bs s)
  then show ?case by (cases bs) simp_all
qed simp

declare fd_fill.simps [simp del]

definition fd_overrun :: "fd_state overrun" where
  "fd_overrun st itemSize nItems wait =
     (if itemSize > bufSize (src st) then Inl ItemTooBig
      else andthen (fd_fill st itemSize nItems wait) (\<lambda>(filled, st).
        Inr (if \<not> filled then 0
             else if itemSize * nItems > length (ibuf st) then length (ibuf st) div itemSize
             else nItems, st)))"

text \<open>\<open>FdInStream::readBytes\<close> reads long data past the buffer.\<close>

function fd_bulk :: "fd_state \<Rightarrow> nat \<Rightarrow> rdr_error + (u8 list \<times> fd_state)" where
  "fd_bulk s n =
     (if n > 0
      then case readWithTimeoutOrCallback s n True of
             Inl e \<Rightarrow> Inl e
           | Inr (bs, s) \<Rightarrow>
               if bs = [] then Inl Stuck
               else andthen (fd_bulk s (n - length bs)) (\<lambda>(rest, s). Inr (bs @ rest, s))
      else Inr ([], s))"
  by pat_completeness auto

termination fd_bulk
proof (relation "measure (\<lambda>(_, n). n)", goal_cases)
  case (2 s n a bs s')
  then show ?case by (cases bs) simp_all
qed simp

declare fd_bulk.simps [simp del]

definition fd_readBytes :: "fd_state istream \<Rightarrow> nat \<Rightarrow> rdr_error + (u8 list \<times> fd_state istream)" where
  "fd_readBytes st len =
     (if len < 1024 then readBytes fd_overrun st len
      else let n = min (length (ibuf st)) len
           in andthen (fd_bulk (src st) (len - n)) (\<lambda>(rest, s).
                Inr (take n (ibuf st) @ rest, (advance n st)\<lparr>src := s\<rparr>)))"

subsection \<open>What the reads promise: functions of the bytes to come\<close>

text \<open>The abstract specification: a parser of the list of bytes still to be delivered.\<close>

type_synonym 'a parser = "u8 list \<Rightarrow> rdr_error + ('a \<times> u8 list)"

definition p_take :: "nat \<Rightarrow> (u8 list \<Rightarrow> 'a) \<Rightarrow> 'a parser" where
  "p_take n f bs = (if length bs < n then Inl EndOfStream else Inr (f bs, drop n bs))"

definition p_U8 :: "u8 parser" where "p_U8 = p_take 1 (\<lambda>bs. bs ! 0)"

definition p_U16 :: "u16 parser" where
  "p_U16 = p_take 2 (\<lambda>bs. push_bit 8 (ucast (bs ! 0)) OR ucast (bs ! 1))"

definition p_U32 :: "u32 parser" where
  "p_U32 = p_take 4 (\<lambda>bs. push_bit 24 (ucast (bs ! 0)) OR push_bit 16 (ucast (bs ! 1)) OR
                          push_bit 8 (ucast (bs ! 2)) OR ucast (bs ! 3))"

definition p_bytes :: "nat \<Rightarrow> u8 list parser" where "p_bytes n = p_take n (take n)"

definition p_skip :: "nat \<Rightarrow> unit parser" where "p_skip n = p_take n (\<lambda>_. ())"

definition p_string :: "u8 list parser" where
  "p_string bs = andthen (p_U32 bs) (\<lambda>(len, bs).
     if len > maxStringLength then Inl StringTooLong else p_bytes (unat len) bs)"

definition p_compact :: "nat parser" where
  "p_compact bs = andthen (p_U8 bs) (\<lambda>(b0, bs).
     if b0 AND 0x80 \<noteq> 0
     then andthen (p_U8 bs) (\<lambda>(b1, bs).
       if b1 AND 0x80 \<noteq> 0
       then andthen (p_U8 bs) (\<lambda>(b2, bs).
         Inr (unat (b0 AND 0x7f) OR push_bit 7 (unat (b1 AND 0x7f)) OR push_bit 14 (unat (b2 AND 0xff)), bs))
       else Inr (unat (b0 AND 0x7f) OR push_bit 7 (unat (b1 AND 0x7f)), bs))
     else Inr (unat (b0 AND 0x7f), bs))"

definition p_Opaque16 :: "u16 parser" where
  "p_Opaque16 = p_take 2 (\<lambda>bs. ucast (bs ! 0) OR push_bit 8 (ucast (bs ! 1)))"

definition p_Opaque32 :: "u32 parser" where
  "p_Opaque32 = p_take 4 (\<lambda>bs. ucast (bs ! 0) OR push_bit 8 (ucast (bs ! 1)) OR
                              push_bit 16 (ucast (bs ! 2)) OR push_bit 24 (ucast (bs ! 3)))"

definition p_Opaque24A :: "u32 parser" where
  "p_Opaque24A = p_take 3 (\<lambda>bs. ucast (bs ! 0) OR push_bit 8 (ucast (bs ! 1)) OR push_bit 16 (ucast (bs ! 2)))"

definition p_Opaque24B :: "u32 parser" where
  "p_Opaque24B = p_take 3 (\<lambda>bs. push_bit 8 (ucast (bs ! 0)) OR push_bit 16 (ucast (bs ! 1)) OR
                               push_bit 24 (ucast (bs ! 2)))"

definition p_S8 :: "int parser" where "p_S8 bs = andthen (p_U8 bs) (\<lambda>(u, bs). Inr (sint u, bs))"
definition p_S16 :: "int parser" where "p_S16 bs = andthen (p_U16 bs) (\<lambda>(u, bs). Inr (sint u, bs))"
definition p_S32 :: "int parser" where "p_S32 bs = andthen (p_U32 bs) (\<lambda>(u, bs). Inr (sint u, bs))"

text \<open>An operation on the stream implements a parser of what the stream has still to deliver.\<close>

definition yields :: "('s istream \<Rightarrow> bool) \<Rightarrow> ('s istream \<Rightarrow> u8 list) \<Rightarrow>
    ('s istream \<Rightarrow> rdr_error + ('a \<times> 's istream)) \<Rightarrow> 'a parser \<Rightarrow> bool" where
  "yields ok content m p \<longleftrightarrow> (\<forall>st. ok st \<longrightarrow>
     (case p (content st) of
        Inl e \<Rightarrow> m st = Inl e
      | Inr (v, bs) \<Rightarrow> \<exists>st'. m st = Inr (v, st') \<and> ok st' \<and> content st' = bs))"

lemma yieldsI:
  assumes "\<And>st. ok st \<Longrightarrow> case p (content st) of Inl e \<Rightarrow> m st = Inl e
             | Inr (v, bs) \<Rightarrow> \<exists>st'. m st = Inr (v, st') \<and> ok st' \<and> content st' = bs"
  shows "yields ok content m p"
  unfolding yields_def using assms by (intro allI impI)

lemma yieldsD: "yields ok content m p \<Longrightarrow> ok st \<Longrightarrow>
    case p (content st) of Inl e \<Rightarrow> m st = Inl e
    | Inr (v, bs) \<Rightarrow> \<exists>st'. m st = Inr (v, st') \<and> ok st' \<and> content st' = bs"
  unfolding yields_def by (drule spec, drule mp)

lemma yields_Inl: "yields ok content m p \<Longrightarrow> ok st \<Longrightarrow> p (content st) = Inl e \<Longrightarrow> m st = Inl e"
  by (drule (1) yieldsD) simp

lemma yields_Inr:
  assumes "yields ok content m p" and "ok st" and "p (content st) = Inr (v, bs)"
  obtains st' where "m st = Inr (v, st')" and "ok st'" and "content st' = bs"
  using yieldsD [OF assms(1,2)] assms(3) that by auto

lemma yields_andthen:
  assumes "yields ok content m p" and "\<And>v. yields ok content (f v) (g v)"
  shows "yields ok content (\<lambda>st. andthen (m st) (\<lambda>(v, st). f v st)) (\<lambda>bs. andthen (p bs) (\<lambda>(v, bs). g v bs))"
proof (rule yieldsI)
  fix st assume ok: "ok st"
  show "case andthen (p (content st)) (\<lambda>(v, bs). g v bs) of
          Inl e \<Rightarrow> andthen (m st) (\<lambda>(v, st). f v st) = Inl e
        | Inr (v, bs) \<Rightarrow> \<exists>st'. andthen (m st) (\<lambda>(v, st). f v st) = Inr (v, st') \<and> ok st' \<and> content st' = bs"
  proof (cases "p (content st)")
    case (Inl e)
    then show ?thesis using yields_Inl [OF assms(1) ok] by simp
  next
    case (Inr a)
    then obtain v bs where p: "p (content st) = Inr (v, bs)" by (cases a) simp
    obtain st1 where m: "m st = Inr (v, st1)" "ok st1" "content st1 = bs"
      using yields_Inr [OF assms(1) ok p] .
    have "case g v (content st1) of Inl e \<Rightarrow> f v st1 = Inl e
        | Inr (w, bs) \<Rightarrow> \<exists>st'. f v st1 = Inr (w, st') \<and> ok st' \<and> content st' = bs"
      by (rule yieldsD [OF assms(2) m(2)])
    then show ?thesis using p m by (simp split: sum.splits prod.splits)
  qed
qed

lemma yields_return: "yields ok content (\<lambda>st. Inr (v, st)) (\<lambda>bs. Inr (v, bs))"
  by (simp add: yields_def)

lemma yields_throw: "yields ok content (\<lambda>st. Inl e) (\<lambda>bs. Inl e)"
  by (simp add: yields_def)

lemma yields_if:
  "(c \<Longrightarrow> yields ok content m p) \<Longrightarrow> (\<not> c \<Longrightarrow> yields ok content m' p') \<Longrightarrow>
   yields ok content (\<lambda>st. if c then m st else m' st) (\<lambda>bs. if c then p bs else p' bs)"
  by (cases c) simp_all


subsection \<open>The interface of a derived class, and the reads over it\<close>

text \<open>
  What the methods of \<open>InStream\<close> rely on: \<open>overrun\<close> with \<open>wait\<close> keeps the bytes to come, brings at
  least one whole item into the buffer when there are enough of them, and throws otherwise.
\<close>

locale in_stream =
  fixes overrun :: "'s overrun"
    and later :: "'s istream \<Rightarrow> u8 list"
    and ok :: "'s istream \<Rightarrow> bool"
  assumes overrun_enough: "\<lbrakk>ok st; 1 \<le> k; k \<le> 4; 1 \<le> n; length (ibuf st) < k;
      k \<le> length (ibuf st @ later st)\<rbrakk> \<Longrightarrow>
      \<exists>i st'. overrun st k n True = Inr (i, st') \<and> 1 \<le> i \<and> i \<le> n \<and> i * k \<le> length (ibuf st') \<and> ok st' \<and>
              ibuf st' @ later st' = ibuf st @ later st"
    and overrun_end: "\<lbrakk>ok st; 1 \<le> k; k \<le> 4; 1 \<le> n; length (ibuf st @ later st) < k\<rbrakk> \<Longrightarrow>
      overrun st k n True = Inl EndOfStream"
    and advance_ok: "\<lbrakk>ok st; k \<le> length (ibuf st)\<rbrakk> \<Longrightarrow> ok (advance k st)"
    and advance_later: "\<lbrakk>ok st; k \<le> length (ibuf st)\<rbrakk> \<Longrightarrow> later (advance k st) = later st"
begin

definition content :: "'s istream \<Rightarrow> u8 list" where
  "content st = ibuf st @ later st"

lemma content_advance:
  "ok st \<Longrightarrow> k \<le> length (ibuf st) \<Longrightarrow> content (advance k st) = drop k (content st)"
  using advance_later [of st k] by (simp add: content_def advance_def)

lemma icheck_enough:
  assumes "ok st" and "1 \<le> k" and "k \<le> 4" and "1 \<le> n" and "k \<le> length (content st)"
  obtains i st' where "icheck overrun st k n True = Inr (i, st')" and "1 \<le> i" and "i \<le> n"
    and "i * k \<le> length (ibuf st')" and "ok st'" and "content st' = content st"
proof (cases "length (ibuf st) < k")
  case True
  then have "k < Suc 0 \<or> length (ibuf st) < k * n" using assms(4)
    by (metis Suc_le_eq assms(4) less_le_trans mult.commute mult_le_mono1 nat_mult_1 One_nat_def)
  then have "icheck overrun st k n True = overrun st k n True"
    using True assms(2) by (simp add: icheck_def)
  moreover obtain i st' where "overrun st k n True = Inr (i, st')" "1 \<le> i" "i \<le> n"
    "i * k \<le> length (ibuf st')" "ok st'" "ibuf st' @ later st' = ibuf st @ later st"
    using overrun_enough [OF assms(1-4) True] assms(5) unfolding content_def by blast
  ultimately show thesis using that [of i st'] by (simp add: content_def)
next
  case False
  show thesis
  proof (cases "k * n > length (ibuf st)")
    case True
    have "length (ibuf st) div k * k \<le> length (ibuf st)" by simp
    moreover have "1 \<le> length (ibuf st) div k"
      using False assms(2) by (simp add: div_greater_zero_iff Suc_le_eq)
    moreover have "length (ibuf st) div k \<le> n"
      using True assms(2) by (metis div_le_mono less_imp_le nonzero_mult_div_cancel_left not_one_le_zero)
    ultimately show thesis
      using that [of "length (ibuf st) div k" st] False True assms(1) by (simp add: icheck_def)
  next
    case no: False
    then show thesis using that [of n st] assms by (simp add: icheck_def mult.commute)
  qed
qed

lemma icheck_end:
  assumes "ok st" and "1 \<le> k" and "k \<le> 4" and "1 \<le> n" and "length (content st) < k"
  shows "icheck overrun st k n True = Inl EndOfStream"
proof -
  have l: "length (ibuf st) < k" using assms(5) by (simp add: content_def)
  have "k \<le> k * n" using assms(4) by simp
  then have "length (ibuf st) < k * n" using l by linarith
  then show ?thesis
    using l overrun_end [OF assms(1-4)] assms(5) by (simp add: icheck_def content_def)
qed

lemma read_item:
  assumes k: "1 \<le> k" "k \<le> 4" and f: "\<And>xs ys. k \<le> length xs \<Longrightarrow> f (xs @ ys) = f xs"
  shows "yields ok content (\<lambda>st. andthen (icheck overrun st k 1 True) (\<lambda>(_, st). Inr (f (ibuf st), advance k st)))
           (p_take k f)"
proof (rule yieldsI)
  fix st assume ok: "ok st"
  show "case p_take k f (content st) of
          Inl e \<Rightarrow> andthen (icheck overrun st k 1 True) (\<lambda>(_, st). Inr (f (ibuf st), advance k st)) = Inl e
        | Inr (v, bs) \<Rightarrow> \<exists>st'. andthen (icheck overrun st k 1 True) (\<lambda>(_, st). Inr (f (ibuf st), advance k st))
            = Inr (v, st') \<and> ok st' \<and> content st' = bs"
  proof (cases "length (content st) < k")
    case True
    then show ?thesis using icheck_end [OF ok k _ True, of 1] by (simp add: p_take_def)
  next
    case False
    obtain i st' where i: "icheck overrun st k 1 True = Inr (i, st')" "1 \<le> i" "i \<le> 1"
      "i * k \<le> length (ibuf st')" "ok st'" "content st' = content st"
      using icheck_enough [OF ok k, of 1] False by auto
    then have l: "k \<le> length (ibuf st')" by simp
    then have "f (ibuf st') = f (content st)"
      using f [OF l, of "later st'"] i(6) by (simp add: content_def)
    then show ?thesis
      using False i l advance_ok [OF i(5) l] content_advance [OF i(5) l] by (simp add: p_take_def)
  qed
qed

lemma readU8_yields: "yields ok content (readU8 overrun) p_U8"
  unfolding readU8_def p_U8_def by (rule read_item) (auto simp: nth_append)

lemma readU16_yields: "yields ok content (readU16 overrun) p_U16"
  unfolding readU16_def p_U16_def Let_def by (rule read_item) (auto simp: nth_append)

lemma readU32_yields: "yields ok content (readU32 overrun) p_U32"
  unfolding readU32_def p_U32_def Let_def by (rule read_item) (auto simp: nth_append)

lemma readOpaque16_yields: "yields ok content (readOpaque16 overrun) p_Opaque16"
  unfolding readOpaque16_def p_Opaque16_def by (rule read_item) (auto simp: nth_append)

lemma readOpaque32_yields: "yields ok content (readOpaque32 overrun) p_Opaque32"
  unfolding readOpaque32_def p_Opaque32_def by (rule read_item) (auto simp: nth_append)

lemma readOpaque24A_yields: "yields ok content (readOpaque24A overrun) p_Opaque24A"
  unfolding readOpaque24A_def p_Opaque24A_def by (rule read_item) (auto simp: nth_append)

lemma readOpaque24B_yields: "yields ok content (readOpaque24B overrun) p_Opaque24B"
  unfolding readOpaque24B_def p_Opaque24B_def by (rule read_item) (auto simp: nth_append)

lemma readS8_yields: "yields ok content (readS8 overrun) p_S8"
  unfolding readS8_def p_S8_def by (intro yields_andthen readU8_yields yields_return)

lemma readS16_yields: "yields ok content (readS16 overrun) p_S16"
  unfolding readS16_def p_S16_def by (intro yields_andthen readU16_yields yields_return)

lemma readS32_yields: "yields ok content (readS32 overrun) p_S32"
  unfolding readS32_def p_S32_def by (intro yields_andthen readU32_yields yields_return)

lemma readCompactLength_yields: "yields ok content (readCompactLength overrun) p_compact"
  unfolding readCompactLength_def p_compact_def Let_def or.assoc
  by (intro yields_andthen readU8_yields yields_return yields_if)

text \<open>The loops.\<close>

lemma readBytes_loop:
  "ok st \<Longrightarrow> if n \<le> length (content st)
     then \<exists>st'. readBytes overrun st n = Inr (take n (content st), st') \<and> ok st' \<and> content st' = drop n (content st)
     else readBytes overrun st n = Inl EndOfStream"
proof (induction n arbitrary: st rule: less_induct)
  case (less n)
  show ?case
  proof (cases "n = 0")
    case True
    then show ?thesis using less.prems by (simp add: readBytes.simps)
  next
    case False
    then have n: "1 \<le> n" by simp
    show ?thesis
    proof (cases "content st = []")
      case True
      have "icheck overrun st 1 n True = Inl EndOfStream"
        by (rule icheck_end [OF less.prems]) (use n True in simp_all)
      then show ?thesis using n True by (simp add: readBytes.simps [of overrun st n])
    next
      case ne: False
      then have l: "1 \<le> length (content st)" by (cases "content st") simp_all
      obtain i st' where i: "icheck overrun st 1 n True = Inr (i, st')" "1 \<le> i" "i \<le> n"
        "i * 1 \<le> length (ibuf st')" "ok st'" "content st' = content st"
        using icheck_enough [OF less.prems _ _ n l] by auto
      let ?st = "advance i st'"
      have il: "i \<le> length (ibuf st')" and ok: "ok ?st" and c: "content ?st = drop i (content st)"
        using i(4) advance_ok [OF i(5)] content_advance [OF i(5)] i(6) by simp_all
      have "length (ibuf st') \<le> length (content st')" by (simp add: content_def)
      then have ic: "i \<le> length (content st)" using il i(6) by simp
      have t: "take i (ibuf st') = take i (content st)"
        using il i(6) by (metis content_def take_append diff_is_0_eq take_0 append_Nil2)
      have eq: "readBytes overrun st n =
          andthen (readBytes overrun ?st (n - i)) (\<lambda>(rest, st''). Inr (take i (ibuf st') @ rest, st''))"
        using i(1,2) n by (simp add: readBytes.simps [of overrun st n])
      have s: "take i xs @ take (n - i) (drop i xs) = take n xs" for xs :: "u8 list"
        using i(3) by (metis le_add_diff_inverse take_add)
      have "if n - i \<le> length (content ?st)
            then \<exists>st'. readBytes overrun ?st (n - i) = Inr (take (n - i) (content ?st), st') \<and> ok st' \<and>
                   content st' = drop (n - i) (content ?st)
            else readBytes overrun ?st (n - i) = Inl EndOfStream"
        by (rule less.IH) (use i(2) n ok in simp_all)
      moreover have "n - i \<le> length (content ?st) \<longleftrightarrow> n \<le> length (content st)"
        using i(3) ic unfolding c by auto
      ultimately show ?thesis
        using eq t s i(3) unfolding c by (auto split: if_splits)
    qed
  qed
qed

lemma readBytes_yields: "yields ok content (\<lambda>st. readBytes overrun st n) (p_bytes n)"
  by (rule yieldsI, drule readBytes_loop [of _ n]) (auto simp: p_bytes_def p_take_def split: if_splits)

lemma readString_yields:
  assumes "\<And>n. yields ok content (\<lambda>st. bytes st n) (p_bytes n)"
  shows "yields ok content (readString overrun bytes) p_string"
  unfolding readString_def p_string_def
  by (intro yields_andthen readU32_yields yields_if yields_throw assms)

lemma iskip_loop:
  "ok st \<Longrightarrow> if n \<le> length (content st)
     then \<exists>st'. iskip overrun st n = Inr st' \<and> ok st' \<and> content st' = drop n (content st)
     else iskip overrun st n = Inl EndOfStream"
proof (induction n arbitrary: st rule: less_induct)
  case (less n)
  show ?case
  proof (cases "n = 0")
    case True
    then show ?thesis using less.prems by (simp add: iskip.simps)
  next
    case False
    then have n: "1 \<le> n" by simp
    show ?thesis
    proof (cases "content st = []")
      case True
      have "icheck overrun st 1 n True = Inl EndOfStream"
        by (rule icheck_end [OF less.prems]) (use n True in simp_all)
      then show ?thesis using n True by (simp add: iskip.simps [of overrun st n])
    next
      case ne: False
      then have l: "1 \<le> length (content st)" by (cases "content st") simp_all
      obtain i st' where i: "icheck overrun st 1 n True = Inr (i, st')" "1 \<le> i" "i \<le> n"
        "i * 1 \<le> length (ibuf st')" "ok st'" "content st' = content st"
        using icheck_enough [OF less.prems _ _ n l] by auto
      let ?st = "advance i st'"
      have il: "i \<le> length (ibuf st')" and ok: "ok ?st" and c: "content ?st = drop i (content st)"
        using i(4) advance_ok [OF i(5)] content_advance [OF i(5)] i(6) by simp_all
      have "length (ibuf st') \<le> length (content st')" by (simp add: content_def)
      then have ic: "i \<le> length (content st)" using il i(6) by simp
      have eq: "iskip overrun st n = iskip overrun ?st (n - i)"
        using i(1,2) n by (simp add: iskip.simps [of overrun st n])
      have "if n - i \<le> length (content ?st)
            then \<exists>st'. iskip overrun ?st (n - i) = Inr st' \<and> ok st' \<and> content st' = drop (n - i) (content ?st)
            else iskip overrun ?st (n - i) = Inl EndOfStream"
        by (rule less.IH) (use i(2) n ok in simp_all)
      moreover have "n - i \<le> length (content ?st) \<longleftrightarrow> n \<le> length (content st)"
        using i(3) ic unfolding c by auto
      ultimately show ?thesis using eq i(3) unfolding c by (auto split: if_splits)
    qed
  qed
qed

end


subsection \<open>The interface of the two derived classes\<close>

interpretation mem: in_stream mem_overrun "\<lambda>_. []" "\<lambda>_. True"
  by unfold_locales (simp_all add: mem_overrun_def)

lemma mem_content [simp]: "mem.content st = ibuf st"
  by (simp add: mem.content_def)

text \<open>A descriptor that waits, or calls back, as long as nothing arrives.\<close>

definition fd_ok :: "fd_state istream \<Rightarrow> bool" where
  "fd_ok st \<longleftrightarrow> 4 \<le> bufSize (src st) \<and> length (ibuf st) \<le> bufSize (src st) \<and>
                (timeout (src st) \<longrightarrow> callback (src st))"

definition fd_later :: "fd_state istream \<Rightarrow> u8 list" where
  "fd_later st = pending (src st)"

lemma select_loop_waits:
  "(tmo \<longrightarrow> cb) \<Longrightarrow> \<exists>as'. select_loop True tmo cb as = Inr (True, as') \<and> (as' \<noteq> [] \<longrightarrow> hd as' > 0)"
  by (induction as) auto

lemma readWithTimeout_waits:
  assumes "timeout s \<longrightarrow> callback s" and "0 < len"
  shows "if pending s = [] then readWithTimeoutOrCallback s len True = Inl EndOfStream
         else \<exists>bs s'. readWithTimeoutOrCallback s len True = Inr (bs, s') \<and> bs \<noteq> [] \<and> length bs \<le> len \<and>
              pending s = bs @ pending s' \<and> bufSize s' = bufSize s \<and> timing s' = timing s \<and>
              timeout s' = timeout s \<and> callback s' = callback s"
proof -
  obtain as' where as': "select_loop True (timeout s) (callback s) (arrivals s) = Inr (True, as')"
    "as' \<noteq> [] \<Longrightarrow> hd as' > 0" using select_loop_waits [OF assms(1)] by blast
  define n where "n = (if as' = [] then len else min len (hd as'))"
  have n: "1 \<le> n" "n \<le> len" using as'(2) assms(2) by (auto simp: n_def)
  show ?thesis using n as'(1) assms(2)
    by (auto simp: readWithTimeoutOrCallback_def Let_def n_def [symmetric])
qed

lemma fd_fill_waits:
  assumes "fd_ok st" and "k \<le> 4" and "1 \<le> n"
  shows "if length (ibuf st @ fd_later st) < k then fd_fill st k n True = Inl EndOfStream
         else \<exists>st'. fd_fill st k n True = Inr (True, st') \<and> k \<le> length (ibuf st') \<and> fd_ok st' \<and>
              ibuf st' @ fd_later st' = ibuf st @ fd_later st"
  using assms(1)
proof (induction "k - length (ibuf st)" arbitrary: st rule: less_induct)
  case less
  show ?case
  proof (cases "length (ibuf st) < k")
    case False
    then show ?thesis using less.prems by (simp add: fd_fill.simps [of st])
  next
    case True
    let ?len = "bytes_to_read st k n"
    have len: "0 < ?len" "?len \<le> bufSize (src st) - length (ibuf st)"
      using True less.prems assms(2) by (auto simp: bytes_to_read_def Let_def fd_ok_def)
    have w: "timeout (src st) \<longrightarrow> callback (src st)" using less.prems by (simp add: fd_ok_def)
    note r = readWithTimeout_waits [OF w len(1)]
    show ?thesis
    proof (cases "pending (src st) = []")
      case e: True
      then show ?thesis using r True by (simp add: fd_fill.simps [of st] fd_later_def)
    next
      case ne: False
      then obtain bs s where b: "readWithTimeoutOrCallback (src st) ?len True = Inr (bs, s)" "bs \<noteq> []"
        "length bs \<le> ?len" "pending (src st) = bs @ pending s" "bufSize s = bufSize (src st)"
        "timing s = timing (src st)" "timeout s = timeout (src st)" "callback s = callback (src st)"
        using r by auto
      let ?st = "st\<lparr>ibuf := ibuf st @ bs, src := s\<rparr>"
      have eq: "fd_fill st k n True = fd_fill ?st k n True"
        using True b(1,2) by (simp add: fd_fill.simps [of st])
      have ok: "fd_ok ?st" using less.prems b(3,5,7,8) len(2) by (auto simp: fd_ok_def)
      have c: "ibuf ?st @ fd_later ?st = ibuf st @ fd_later st" using b(4) by (simp add: fd_later_def)
      have m: "k - length (ibuf ?st) < k - length (ibuf st)" using True b(2) by (cases bs) simp_all
      show ?thesis using less.hyps [OF m ok] unfolding eq c .
    qed
  qed
qed

lemma fd_overrun_waits:
  assumes "fd_ok st" and "1 \<le> k" and "k \<le> 4" and "1 \<le> n" and "k \<le> length (ibuf st @ fd_later st)"
  shows "\<exists>i st'. fd_overrun st k n True = Inr (i, st') \<and> 1 \<le> i \<and> i \<le> n \<and> i * k \<le> length (ibuf st') \<and> fd_ok st' \<and>
              ibuf st' @ fd_later st' = ibuf st @ fd_later st"
proof -
  obtain st' where f: "fd_fill st k n True = Inr (True, st')" "k \<le> length (ibuf st')" "fd_ok st'"
    "ibuf st' @ fd_later st' = ibuf st @ fd_later st"
    using fd_fill_waits [OF assms(1,3,4)] assms(5) by auto
  have b: "k \<le> bufSize (src st)" using assms(1,3) by (simp add: fd_ok_def)
  show ?thesis
  proof (cases "k * n > length (ibuf st')")
    case True
    have "length (ibuf st') div k \<le> n"
      using True assms(2) by (metis div_le_mono less_imp_le nonzero_mult_div_cancel_left not_one_le_zero)
    moreover have "1 \<le> length (ibuf st') div k"
      using f(2) assms(2) by (simp add: div_greater_zero_iff Suc_le_eq)
    ultimately show ?thesis using f True b by (simp add: fd_overrun_def)
  next
    case False
    then show ?thesis using f b assms(4) by (simp add: fd_overrun_def mult.commute)
  qed
qed

interpretation fd: in_stream fd_overrun fd_later fd_ok
proof (unfold_locales, goal_cases)
  case (1 st k n)
  then show ?case by (intro fd_overrun_waits)
next
  case (2 st k n)
  then show ?case
    using fd_fill_waits [of st k n] by (auto simp: fd_overrun_def fd_ok_def)
next
  case (3 st k)
  then show ?case by (auto simp: fd_ok_def advance_def)
next
  case (4 st k)
  then show ?case by (simp add: fd_later_def advance_def)
qed

lemma fd_content: "fd.content st = ibuf st @ pending (src st)"
  by (simp add: fd.content_def fd_later_def)

text \<open>The bulk read.\<close>

lemma fd_bulk_waits:
  assumes "timeout s \<longrightarrow> callback s"
  shows "if n \<le> length (pending s)
         then \<exists>s'. fd_bulk s n = Inr (take n (pending s), s') \<and> pending s' = drop n (pending s) \<and>
                bufSize s' = bufSize s \<and> timeout s' = timeout s \<and> callback s' = callback s
         else fd_bulk s n = Inl EndOfStream"
  using assms
proof (induction n arbitrary: s rule: less_induct)
  case (less n)
  show ?case
  proof (cases "n = 0")
    case True
    then show ?thesis by (simp add: fd_bulk.simps)
  next
    case False
    then have n: "0 < n" by simp
    note r = readWithTimeout_waits [OF less.prems n]
    show ?thesis
    proof (cases "pending s = []")
      case e: True
      then show ?thesis using r n by (simp add: fd_bulk.simps [of s])
    next
      case ne: False
      then obtain bs s' where b: "readWithTimeoutOrCallback s n True = Inr (bs, s')" "bs \<noteq> []"
        "length bs \<le> n" "pending s = bs @ pending s'" "bufSize s' = bufSize s"
        "timing s' = timing s" "timeout s' = timeout s" "callback s' = callback s"
        using r by auto
      have m: "n - length bs < n" using n b(2) by (cases bs) simp_all
      have "if n - length bs \<le> length (pending s')
         then \<exists>s''. fd_bulk s' (n - length bs) = Inr (take (n - length bs) (pending s'), s'') \<and>
                pending s'' = drop (n - length bs) (pending s') \<and>
                bufSize s'' = bufSize s' \<and> timeout s'' = timeout s' \<and> callback s'' = callback s'
         else fd_bulk s' (n - length bs) = Inl EndOfStream"
        by (rule less.IH [OF m]) (use less.prems b(7,8) in simp)
      then show ?thesis using b n by (auto simp: fd_bulk.simps [of s] split: if_splits)
    qed
  qed
qed

lemma fd_readBytes_yields: "yields fd_ok fd.content (\<lambda>st. fd_readBytes st n) (p_bytes n)"
proof (cases "n < 1024")
  case True
  then show ?thesis using fd.readBytes_yields [of n] by (simp add: fd_readBytes_def)
next
  case False
  show ?thesis
  proof (rule yieldsI)
    fix st assume ok: "fd_ok st"
    let ?k = "min (length (ibuf st)) n"
    have "timeout (src st) \<longrightarrow> callback (src st)" using ok by (simp add: fd_ok_def)
    note r = fd_bulk_waits [OF this, of "n - ?k"]
    have eq: "fd_readBytes st n = andthen (fd_bulk (src st) (n - ?k)) (\<lambda>(rest, s).
                Inr (take ?k (ibuf st) @ rest, (advance ?k st)\<lparr>src := s\<rparr>))"
      using False by (simp add: fd_readBytes_def Let_def)
    have e1: "take ?k (ibuf st) @ take (n - ?k) (pending (src st)) = take n (fd.content st)"
      by (simp add: fd_content min_def)
    have e2: "drop ?k (ibuf st) @ drop (n - ?k) (pending (src st)) = drop n (fd.content st)"
      by (simp add: fd_content min_def)
    have ln: "n - ?k \<le> length (pending (src st)) \<longleftrightarrow> n \<le> length (fd.content st)"
      by (auto simp: fd_content)
    show "case p_bytes n (fd.content st) of Inl e \<Rightarrow> fd_readBytes st n = Inl e
       | Inr (v, bs) \<Rightarrow> \<exists>st'. fd_readBytes st n = Inr (v, st') \<and> fd_ok st' \<and> fd.content st' = bs"
    proof (cases "n \<le> length (fd.content st)")
      case True
      then obtain s' where s': "fd_bulk (src st) (n - ?k) = Inr (take (n - ?k) (pending (src st)), s')"
        "pending s' = drop (n - ?k) (pending (src st))" "bufSize s' = bufSize (src st)"
        "timeout s' = timeout (src st)" "callback s' = callback (src st)"
        using r ln by auto
      let ?st = "(advance ?k st)\<lparr>src := s'\<rparr>"
      have "fd_ok ?st" using ok s'(3-5) by (auto simp: fd_ok_def advance_def)
      moreover have "fd.content ?st = drop n (fd.content st)"
        unfolding e2 [symmetric] by (simp add: s'(2) fd_content advance_def)
      ultimately show ?thesis
        using True s'(1) e1 by (simp add: eq p_bytes_def p_take_def)
    next
      case no: False
      then show ?thesis using r ln by (auto simp: eq p_bytes_def p_take_def split: if_splits)
    qed
  qed
qed


subsection \<open>Polling\<close>

lemma fd_fill_poll:
  "fd_fill st k n False = Inr (filled, st') \<Longrightarrow>
   ibuf st' @ fd_later st' = ibuf st @ fd_later st \<and> (filled \<longrightarrow> k \<le> length (ibuf st'))"
proof (induction st k n False rule: fd_fill.induct)
  case (1 st k n)
  show ?case
  proof (cases "length (ibuf st) < k")
    case False
    then show ?thesis using 1(2) by (auto simp: fd_fill.simps [of st])
  next
    case True
    obtain bs s where r: "readWithTimeoutOrCallback (src st) (bytes_to_read st k n) False = Inr (bs, s)"
      using 1(2) True by (auto simp: fd_fill.simps [of st] split: sum.splits)
    have p: "pending (src st) = bs @ pending s"
      using r by (auto simp: readWithTimeoutOrCallback_def andthen_def Let_def split: sum.splits if_splits)
    show ?thesis
    proof (cases "bs = []")
      case e: True
      then show ?thesis using 1(2) True r p by (auto simp: fd_fill.simps [of st] fd_later_def)
    next
      case ne: False
      let ?st = "st\<lparr>ibuf := ibuf st @ bs, src := s\<rparr>"
      have "fd_fill ?st k n False = Inr (filled, st')"
        using 1(2) True r ne by (simp add: fd_fill.simps [of st])
      then have "ibuf st' @ fd_later st' = ibuf ?st @ fd_later ?st \<and> (filled \<longrightarrow> k \<le> length (ibuf st'))"
        using 1(1) [OF True r refl ne] by simp
      then show ?thesis using p by (simp add: fd_later_def)
    qed
  qed
qed

subsection \<open>Properties\<close>

definition outcome :: "('s istream \<Rightarrow> u8 list) \<Rightarrow> rdr_error + ('a \<times> 's istream) \<Rightarrow> rdr_error + ('a \<times> u8 list)" where
  "outcome content r = (case r of Inl e \<Rightarrow> Inl e | Inr (v, st) \<Rightarrow> Inr (v, content st))"

lemma yields_outcome: "yields ok content m p \<Longrightarrow> ok st \<Longrightarrow> outcome content (m st) = p (content st)"
  by (drule (1) yieldsD) (auto simp: outcome_def split: sum.splits prod.splits)

text \<open>
  C26: Buffering and the portions in which a descriptor delivers its bytes do not show: strings,
  compact lengths, words and bulk data read from an \<open>FdInStream\<close> have the value, or throw the
  exception, and leave the bytes that the same read from a \<open>MemInStream\<close> over the whole input has.
\<close>

theorem fd_reads_like_memory:
  assumes "fd_ok st" and "bs = ibuf st @ pending (src st)"
  shows "outcome fd.content (readString fd_overrun fd_readBytes st) = outcome ibuf (readString mem_overrun (readBytes mem_overrun) (MemInStream bs)) \<and>
         outcome fd.content (readCompactLength fd_overrun st) = outcome ibuf (readCompactLength mem_overrun (MemInStream bs)) \<and>
         outcome fd.content (readU32 fd_overrun st) = outcome ibuf (readU32 mem_overrun (MemInStream bs)) \<and>
         outcome fd.content (fd_readBytes st n) = outcome ibuf (readBytes mem_overrun (MemInStream bs) n)"
proof -
  have m: "ibuf = mem.content" by (rule ext) simp
  have c: "fd.content st = mem.content (MemInStream bs)" using assms(2) by (simp add: fd_content MemInStream_def)
  show ?thesis
    unfolding m
    using yields_outcome [OF fd.readString_yields [OF fd_readBytes_yields] assms(1)] yields_outcome [OF mem.readString_yields [OF mem.readBytes_yields] TrueI]
      yields_outcome [OF fd.readCompactLength_yields assms(1)] yields_outcome [OF mem.readCompactLength_yields TrueI]
      yields_outcome [OF fd.readU32_yields assms(1)] yields_outcome [OF mem.readU32_yields TrueI]
      yields_outcome [OF fd_readBytes_yields assms(1)] yields_outcome [OF mem.readBytes_yields TrueI] c
    by metis
qed

theorem fd_reads_like_memory_witness:
  "\<exists>st. length (pending (src st)) = 7 \<and> arrivals (src st) = [0, 1, 3, 0, 2] \<and>
        outcome fd.content (readString fd_overrun fd_readBytes st) = Inr ([104, 105], [9])"
proof -
  let ?bs = "[0, 0, 0, 2, 104, 105, 9] :: u8 list"
  let ?st = "newFdInStream ?bs [0, 1, 3, 0, 2] False 0"
  have ok: "fd_ok ?st" by (simp add: fd_ok_def newFdInStream_def)
  have "outcome ibuf (readString mem_overrun (readBytes mem_overrun) (MemInStream ?bs)) = Inr ([104, 105], [9])"
    by (simp add: outcome_def readString_def readU32_def icheck_def MemInStream_def advance_def
        readBytes.simps maxStringLength_def)
  then have "outcome fd.content (readString fd_overrun fd_readBytes ?st) = Inr ([104, 105], [9])"
    using fd_reads_like_memory [OF ok refl] by (simp add: newFdInStream_def)
  then show ?thesis by (intro exI [of _ ?st]) (simp add: newFdInStream_def)
qed

text \<open>
  Polling with \<open>checkNoWait\<close> loses nothing: whatever it answers, the bytes still to be read
  are the same, and when it answers true the item can be read from the buffer.
\<close>

theorem checkNoWait_keeps:
  assumes "checkNoWait fd_overrun st k = Inr (b, st')" and "1 \<le> k"
  shows "fd.content st' = fd.content st \<and> (b \<longrightarrow> k \<le> length (ibuf st'))"
proof -
  obtain i where i: "icheck fd_overrun st k 1 False = Inr (i, st')" "b = (i \<noteq> 0)"
    using assms(1) by (auto simp: checkNoWait_def andthen_def split: sum.splits)
  show ?thesis
  proof (cases "k > length (ibuf st)")
    case False
    then show ?thesis using i by (auto simp: icheck_def)
  next
    case True
    then have "fd_overrun st k 1 False = Inr (i, st')" using i(1) by (simp add: icheck_def)
    then have ov: "andthen (fd_fill st k 1 False) (\<lambda>(filled, st).
        Inr (if \<not> filled then 0 else if k * 1 > length (ibuf st) then length (ibuf st) div k else 1, st)) = Inr (i, st')"
      unfolding fd_overrun_def by (meson Inl_Inr_False)
    obtain filled st1 where f1: "fd_fill st k 1 False = Inr (filled, st1)"
      using ov by (cases "fd_fill st k 1 False") auto
    then have f: "fd_fill st k 1 False = Inr (filled, st')" "\<not> filled \<Longrightarrow> i = 0"
      using ov by (simp_all split: if_splits)
    show ?thesis using fd_fill_poll [OF f(1)] f(2) i(2) by (auto simp: fd.content_def)
  qed
qed

theorem checkNoWait_keeps_witness:
  "\<exists>st'. checkNoWait fd_overrun (newFdInStream [7, 8] [1, 0] True 16) 2 = Inr (False, st') \<and>
         fd.content st' = [7, 8]"
proof -
  let ?st = "newFdInStream [7, 8] [1, 0] True 16"
  have d: "(2 :: nat) = Suc (Suc 0)" by simp
  have "fd_fill ?st 2 1 False = Inr (False, ?st\<lparr>ibuf := [7], src := (src ?st)\<lparr>pending := [8], arrivals := []\<rparr>\<rparr>)"
    by (simp add: fd_fill.simps [of _ 2] newFdInStream_def bytes_to_read_def readWithTimeoutOrCallback_def)
  then have "\<exists>st'. checkNoWait fd_overrun ?st 2 = Inr (False, st')"
    by (simp add: checkNoWait_def icheck_def fd_overrun_def) (simp add: newFdInStream_def)
  then obtain st' where st': "checkNoWait fd_overrun ?st 2 = Inr (False, st')" by blast
  have "fd.content ?st = [7, 8]" by (simp add: fd_content newFdInStream_def)
  then have "fd.content st' = [7, 8]" using checkNoWait_keeps [OF st'] by simp
  then show ?thesis using st' by blast
qed

end
