(* ===== verification/Rdr_OutStream.thy ===== *)
theory Rdr_OutStream
  imports Rdr_InStream
begin

text \<open>
  Buffered output (\<open>common/rdr/OutStream.h\<close>) with the derived classes \<open>MemOutStream\<close>,
  \<open>FixedMemOutStream\<close> and \<open>FdOutStream\<close>. As for input, the methods of the base class are written
  once over the virtual \<open>overrun\<close>, the locale \<open>out_stream\<close> states what they rely on, and every write
  is shown to append exactly its encoding. The last part puts both directions together.
\<close>

unbundle bit_operations_syntax

subsection \<open>OutStream\<close>

text \<open>The bytes between the start of the buffer and \<open>ptr\<close>, the space up to \<open>end\<close>, and the state of
  the derived class.\<close>

record 's ostream =
  obuf :: "u8 list"
  room :: nat
  dst :: 's

type_synonym 's oresult = "rdr_error + 's ostream"
type_synonym 's ooverrun = "'s ostream \<Rightarrow> nat \<Rightarrow> nat \<Rightarrow> rdr_error + (nat \<times> 's ostream)"

definition ocheck :: "'s ooverrun \<Rightarrow> 's ostream \<Rightarrow> nat \<Rightarrow> nat \<Rightarrow> rdr_error + (nat \<times> 's ostream)" where
  "ocheck overrun st itemSize nItems =
     (if itemSize * nItems > room st
      then if itemSize > room st then overrun st itemSize nItems
           else Inr (room st div itemSize, st)
      else Inr (nItems, st))"

text \<open>\<open>*ptr++ = b\<close> for each of the bytes.\<close>

definition put :: "u8 list \<Rightarrow> 's ostream \<Rightarrow> 's ostream" where
  "put bs st = st\<lparr>obuf := obuf st @ bs, room := room st - length bs\<rparr>"

definition writeU8 :: "'s ooverrun \<Rightarrow> u8 \<Rightarrow> 's ostream \<Rightarrow> 's oresult" where
  "writeU8 overrun u st = andthen (ocheck overrun st 1 1) (\<lambda>(_, st). Inr (put [u] st))"

definition writeU16 :: "'s ooverrun \<Rightarrow> u16 \<Rightarrow> 's ostream \<Rightarrow> 's oresult" where
  "writeU16 overrun u st =
     andthen (ocheck overrun st 2 1) (\<lambda>(_, st). Inr (put [ucast (drop_bit 8 u), ucast u] st))"

definition writeU32 :: "'s ooverrun \<Rightarrow> u32 \<Rightarrow> 's ostream \<Rightarrow> 's oresult" where
  "writeU32 overrun u st =
     andthen (ocheck overrun st 4 1) (\<lambda>(_, st).
       Inr (put [ucast (drop_bit 24 u), ucast (drop_bit 16 u), ucast (drop_bit 8 u), ucast u] st))"

text \<open>The signed writes convert their argument, given as an integer, to the unsigned word.\<close>

definition writeS8 :: "'s ooverrun \<Rightarrow> int \<Rightarrow> 's ostream \<Rightarrow> 's oresult" where
  "writeS8 overrun i = writeU8 overrun (word_of_int i)"

definition writeS16 :: "'s ooverrun \<Rightarrow> int \<Rightarrow> 's ostream \<Rightarrow> 's oresult" where
  "writeS16 overrun i = writeU16 overrun (word_of_int i)"

definition writeS32 :: "'s ooverrun \<Rightarrow> int \<Rightarrow> 's ostream \<Rightarrow> 's oresult" where
  "writeS32 overrun i = writeU32 overrun (word_of_int i)"

definition writeCompactLength :: "'s ooverrun \<Rightarrow> u32 \<Rightarrow> 's ostream \<Rightarrow> 's oresult" where
  "writeCompactLength overrun len st =
     (let b = ucast (len AND 0x7f) :: u8
      in if len \<le> 0x7f then writeU8 overrun b st
         else andthen (writeU8 overrun (b OR 0x80) st) (\<lambda>st.
           let b = ucast (drop_bit 7 len AND 0x7f)
           in if len \<le> 0x3fff then writeU8 overrun b st
              else andthen (writeU8 overrun (b OR 0x80) st) (\<lambda>st.
                writeU8 overrun (ucast (drop_bit 14 len AND 0xff)) st)))"

function writeBytes :: "'s ooverrun \<Rightarrow> u8 list \<Rightarrow> 's ostream \<Rightarrow> 's oresult" where
  "writeBytes overrun bs st =
     (if bs \<noteq> []
      then case ocheck overrun st 1 (length bs) of
             Inl e \<Rightarrow> Inl e
           | Inr (n, st) \<Rightarrow>
               if n = 0 then Inl Stuck else writeBytes overrun (drop n bs) (put (take n bs) st)
      else Inr st)"
  by pat_completeness auto

termination writeBytes
  by (relation "measure (\<lambda>(_, bs, _). length bs)") auto

declare writeBytes.simps [simp del]

text \<open>The string is given as memory from its first byte on, up to and past the terminating null.\<close>

definition strlen :: "u8 list \<Rightarrow> nat" where
  "strlen s = length (takeWhile (\<lambda>c. c \<noteq> 0) s)"

definition writeString :: "'s ooverrun \<Rightarrow> u8 list \<Rightarrow> 's ostream \<Rightarrow> 's oresult" where
  "writeString overrun str st =
     (let len = of_nat (strlen str) :: u32
      in andthen (writeU32 overrun len st) (writeBytes overrun (take (unat len) str)))"

fun pad :: "'s ooverrun \<Rightarrow> nat \<Rightarrow> 's ostream \<Rightarrow> 's oresult" where
  "pad overrun 0 st = Inr st"
| "pad overrun (Suc n) st = andthen (writeU8 overrun 0 st) (pad overrun n)"

definition writeOpaque16 :: "'s ooverrun \<Rightarrow> u16 \<Rightarrow> 's ostream \<Rightarrow> 's oresult" where
  "writeOpaque16 overrun u st =
     andthen (ocheck overrun st 2 1) (\<lambda>(_, st). Inr (put [ucast u, ucast (drop_bit 8 u)] st))"

definition writeOpaque32 :: "'s ooverrun \<Rightarrow> u32 \<Rightarrow> 's ostream \<Rightarrow> 's oresult" where
  "writeOpaque32 overrun u st =
     andthen (ocheck overrun st 4 1) (\<lambda>(_, st).
       Inr (put [ucast u, ucast (drop_bit 8 u), ucast (drop_bit 16 u), ucast (drop_bit 24 u)] st))"

definition writeOpaque24A :: "'s ooverrun \<Rightarrow> u32 \<Rightarrow> 's ostream \<Rightarrow> 's oresult" where
  "writeOpaque24A overrun u st =
     andthen (ocheck overrun st 3 1) (\<lambda>(_, st).
       Inr (put [ucast u, ucast (drop_bit 8 u), ucast (drop_bit 16 u)] st))"

definition writeOpaque24B :: "'s ooverrun \<Rightarrow> u32 \<Rightarrow> 's ostream \<Rightarrow> 's oresult" where
  "writeOpaque24B overrun u st =
     andthen (ocheck overrun st 3 1) (\<lambda>(_, st).
       Inr (put [ucast (drop_bit 8 u), ucast (drop_bit 16 u), ucast (drop_bit 24 u)] st))"

subsection \<open>The derived classes\<close>

text \<open>\<open>MemOutStream\<close>: the buffer grows.\<close>

definition newMemOutStream :: "nat \<Rightarrow> unit ostream" where
  "newMemOutStream len = \<lparr>obuf = [], room = len, dst = ()\<rparr>"

definition mem_ooverrun :: "unit ooverrun" where
  "mem_ooverrun st itemSize nItems =
     (let cap = length (obuf st) + room st;
          len = length (obuf st) + itemSize * nItems;
          len = (if len < cap * 2 then cap * 2 else len)
      in Inr (nItems, st\<lparr>room := len - length (obuf st)\<rparr>))"

definition mem_writeBytes :: "u8 list \<Rightarrow> unit ostream \<Rightarrow> unit oresult" where
  "mem_writeBytes bs st = andthen (ocheck mem_ooverrun st (length bs) 1) (\<lambda>(_, st). Inr (put bs st))"

definition mem_clear :: "unit ostream \<Rightarrow> unit ostream" where
  "mem_clear st = st\<lparr>obuf := [], room := length (obuf st) + room st\<rparr>"

text \<open>\<open>FixedMemOutStream\<close>: the buffer has the size it has.\<close>

definition newFixedMemOutStream :: "nat \<Rightarrow> unit ostream" where
  "newFixedMemOutStream len = \<lparr>obuf = [], room = len, dst = ()\<rparr>"

definition fixed_ooverrun :: "unit ooverrun" where
  "fixed_ooverrun st itemSize nItems = Inl EndOfStream"

text \<open>
  \<open>FdOutStream\<close>: \<open>sent\<close> is what the descriptor has taken. Each entry of \<open>portions\<close> is one return of
  \<open>select\<close>, 0 when its timeout (\<open>otimeout\<close>: \<open>timeoutms != -1\<close>) expired and otherwise the bytes the
  next \<open>write\<close> takes; past its end all are taken.
\<close>

record fdout_state =
  sent :: "u8 list"
  portions :: "nat list"
  obufSize :: nat
  otimeout :: bool

definition newFdOutStream :: "nat list \<Rightarrow> bool \<Rightarrow> nat \<Rightarrow> fdout_state ostream" where
  "newFdOutStream ps tmo n =
     (let sz = (if n = 0 then 16384 else n)
      in \<lparr>obuf = [], room = sz, dst = \<lparr>sent = [], portions = ps, obufSize = sz, otimeout = tmo\<rparr>\<rparr>)"

text \<open>\<open>writeWithTimeout\<close>: the number of bytes taken from the front of the data.\<close>

fun select_write :: "bool \<Rightarrow> nat list \<Rightarrow> rdr_error + nat list" where
  "select_write tmo [] = Inr []"
| "select_write tmo (p # ps) = (if p > 0 then Inr (p # ps) else if tmo then Inl TimedOut else select_write tmo ps)"

definition writeWithTimeout :: "fdout_state \<Rightarrow> u8 list \<Rightarrow> rdr_error + (nat \<times> fdout_state)" where
  "writeWithTimeout s bs =
     andthen (select_write (otimeout s) (portions s)) (\<lambda>ps.
       let n = (if ps = [] then length bs else min (hd ps) (length bs))
       in Inr (n, s\<lparr>sent := sent s @ take n bs, portions := tl ps\<rparr>))"

function flush_loop :: "u8 list \<Rightarrow> fdout_state \<Rightarrow> rdr_error + fdout_state" where
  "flush_loop bs s =
     (if bs \<noteq> []
      then case writeWithTimeout s bs of
             Inl e \<Rightarrow> Inl e
           | Inr (n, s) \<Rightarrow> if n = 0 then Inl Stuck else flush_loop (drop n bs) s
      else Inr s)"
  by pat_completeness auto

termination flush_loop
  by (relation "measure (\<lambda>(bs, _). length bs)") auto

declare flush_loop.simps [simp del]

definition flush :: "fdout_state ostream \<Rightarrow> fdout_state oresult" where
  "flush st = andthen (flush_loop (obuf st) (dst st)) (\<lambda>s.
     Inr (st\<lparr>obuf := [], room := room st + length (obuf st), dst := s\<rparr>))"

definition fd_ooverrun :: "fdout_state ooverrun" where
  "fd_ooverrun st itemSize nItems =
     (if itemSize > obufSize (dst st) then Inl ItemTooBig
      else andthen (flush st) (\<lambda>st.
        Inr (if itemSize * nItems > room st then room st div itemSize else nItems, st)))"

subsection \<open>The encodings\<close>

definition e_U16 :: "u16 \<Rightarrow> u8 list" where "e_U16 u = [ucast (drop_bit 8 u), ucast u]"

definition e_U32 :: "u32 \<Rightarrow> u8 list" where
  "e_U32 u = [ucast (drop_bit 24 u), ucast (drop_bit 16 u), ucast (drop_bit 8 u), ucast u]"

definition e_compact :: "u32 \<Rightarrow> u8 list" where
  "e_compact len =
     (if len \<le> 0x7f then [ucast (len AND 0x7f)]
      else if len \<le> 0x3fff then [ucast (len AND 0x7f) OR 0x80, ucast (drop_bit 7 len AND 0x7f)]
      else [ucast (len AND 0x7f) OR 0x80, ucast (drop_bit 7 len AND 0x7f) OR 0x80,
            ucast (drop_bit 14 len AND 0xff)])"

definition e_string :: "u8 list \<Rightarrow> u8 list" where
  "e_string str = (let len = of_nat (strlen str) :: u32 in e_U32 len @ take (unat len) str)"

text \<open>An operation on the stream appends the bytes.\<close>

definition appends :: "('s ostream \<Rightarrow> bool) \<Rightarrow> ('s ostream \<Rightarrow> u8 list) \<Rightarrow>
    ('s ostream \<Rightarrow> 's oresult) \<Rightarrow> u8 list \<Rightarrow> bool" where
  "appends ok written m bs \<longleftrightarrow> (\<forall>st. ok st \<longrightarrow> (\<exists>st'. m st = Inr st' \<and> ok st' \<and> written st' = written st @ bs))"

lemma appendsI:
  "(\<And>st. ok st \<Longrightarrow> \<exists>st'. m st = Inr st' \<and> ok st' \<and> written st' = written st @ bs) \<Longrightarrow> appends ok written m bs"
  unfolding appends_def by blast

lemma appendsE:
  assumes "appends ok written m bs" and "ok st"
  obtains st' where "m st = Inr st'" and "ok st'" and "written st' = written st @ bs"
  using assms unfolding appends_def by blast

lemma appends_andthen:
  assumes "appends ok written m as" and "appends ok written f bs"
  shows "appends ok written (\<lambda>st. andthen (m st) f) (as @ bs)"
proof (rule appendsI)
  fix st assume "ok st"
  obtain st1 where m: "m st = Inr st1" "ok st1" "written st1 = written st @ as"
    using appendsE [OF assms(1) \<open>ok st\<close>] .
  obtain st2 where "f st1 = Inr st2" "ok st2" "written st2 = written st1 @ bs"
    using appendsE [OF assms(2) m(2)] .
  then show "\<exists>st'. andthen (m st) f = Inr st' \<and> ok st' \<and> written st' = written st @ as @ bs" using m by simp
qed

lemma appends_return: "appends ok written Inr []"
  by (simp add: appends_def)

subsection \<open>The interface of a derived class, and the writes over it\<close>

locale out_stream =
  fixes overrun :: "'s ooverrun"
    and before :: "'s ostream \<Rightarrow> u8 list"
    and ok :: "'s ostream \<Rightarrow> bool"
  assumes overrun_room: "\<lbrakk>ok st; 1 \<le> k; k \<le> 4; 1 \<le> n; room st < k\<rbrakk> \<Longrightarrow>
      \<exists>i st'. overrun st k n = Inr (i, st') \<and> 1 \<le> i \<and> i \<le> n \<and> i * k \<le> room st' \<and> ok st' \<and>
              before st' @ obuf st' = before st @ obuf st"
    and put_ok: "\<lbrakk>ok st; length bs \<le> room st\<rbrakk> \<Longrightarrow> ok (put bs st)"
    and put_before: "\<lbrakk>ok st; length bs \<le> room st\<rbrakk> \<Longrightarrow> before (put bs st) = before st"
begin

definition written :: "'s ostream \<Rightarrow> u8 list" where
  "written st = before st @ obuf st"

lemma written_put: "ok st \<Longrightarrow> length bs \<le> room st \<Longrightarrow> written (put bs st) = written st @ bs"
  using put_before [of st bs] by (simp add: written_def put_def)

lemma ocheck_room:
  assumes "ok st" and "1 \<le> k" and "k \<le> 4" and "1 \<le> n"
  obtains i st' where "ocheck overrun st k n = Inr (i, st')" and "1 \<le> i" and "i \<le> n"
    and "i * k \<le> room st'" and "ok st'" and "written st' = written st"
proof (cases "room st < k")
  case True
  have "k \<le> k * n" using assms(4) by simp
  then have "room st < k * n" using True by linarith
  then have "ocheck overrun st k n = overrun st k n"
    using True by (simp add: ocheck_def)
  then show thesis using overrun_room [OF assms True] that by (auto simp: written_def)
next
  case False
  show thesis
  proof (cases "k * n > room st")
    case True
    have "room st div k \<le> n"
      using True assms(2) by (metis div_le_mono less_imp_le nonzero_mult_div_cancel_left not_one_le_zero)
    moreover have "1 \<le> room st div k"
      using False assms(2) by (simp add: div_greater_zero_iff Suc_le_eq)
    ultimately show thesis
      using that [of "room st div k" st] False True assms(1) by (simp add: ocheck_def)
  next
    case no: False
    then show thesis using that [of n st] assms by (simp add: ocheck_def mult.commute)
  qed
qed

lemma write_item:
  assumes "1 \<le> length bs" and "length bs \<le> 4"
  shows "appends ok written (\<lambda>st. andthen (ocheck overrun st (length bs) 1) (\<lambda>(_, st). Inr (put bs st))) bs"
proof (rule appendsI)
  fix st assume ok: "ok st"
  obtain i st' where i: "ocheck overrun st (length bs) 1 = Inr (i, st')" "1 \<le> i" "i \<le> 1"
    "i * length bs \<le> room st'" "ok st'" "written st' = written st"
    using ocheck_room [OF ok assms, of 1] by auto
  then have l: "length bs \<le> room st'" by simp
  show "\<exists>st'. andthen (ocheck overrun st (length bs) 1) (\<lambda>(_, st). Inr (put bs st)) = Inr st' \<and>
              ok st' \<and> written st' = written st @ bs"
    using i put_ok [OF i(5) l] written_put [OF i(5) l] by simp
qed

lemma writeU8_appends: "appends ok written (writeU8 overrun u) [u]"
  using write_item [of "[u]"] unfolding writeU8_def by simp

lemma writeU16_appends: "appends ok written (writeU16 overrun u) (e_U16 u)"
  using write_item [of "e_U16 u"] unfolding writeU16_def e_U16_def by (simp add: numeral_2_eq_2)

lemma writeU32_appends: "appends ok written (writeU32 overrun u) (e_U32 u)"
  using write_item [of "e_U32 u"] unfolding writeU32_def e_U32_def by (simp add: numeral_eq_Suc)

lemma writeOpaque16_appends: "appends ok written (writeOpaque16 overrun u) [ucast u, ucast (drop_bit 8 u)]"
  using write_item [of "[ucast u, ucast (drop_bit 8 u)]"]
  unfolding writeOpaque16_def by (simp add: numeral_2_eq_2)

lemma writeOpaque32_appends:
  "appends ok written (writeOpaque32 overrun u)
     [ucast u, ucast (drop_bit 8 u), ucast (drop_bit 16 u), ucast (drop_bit 24 u)]"
  using write_item [of "[ucast u, ucast (drop_bit 8 u), ucast (drop_bit 16 u), ucast (drop_bit 24 u)]"]
  unfolding writeOpaque32_def by (simp add: numeral_eq_Suc)

lemma writeCompactLength_appends: "appends ok written (writeCompactLength overrun len) (e_compact len)"
proof -
  have two: "appends ok written (\<lambda>st. andthen (writeU8 overrun a st) (writeU8 overrun b)) [a, b]" for a b
    using appends_andthen [OF writeU8_appends [of a] writeU8_appends [of b]] by simp
  have three: "appends ok written (\<lambda>st. andthen (writeU8 overrun a st) (\<lambda>st. andthen (writeU8 overrun b st)
      (writeU8 overrun c))) [a, b, c]" for a b c
    using appends_andthen [OF writeU8_appends [of a] two [of b c]] by simp
  show ?thesis
    unfolding writeCompactLength_def e_compact_def Let_def
    by (simp add: writeU8_appends two three)
qed

lemma writeBytes_appends: "appends ok written (writeBytes overrun bs) bs"
proof (rule appendsI)
  fix st assume "ok st"
  then show "\<exists>st'. writeBytes overrun bs st = Inr st' \<and> ok st' \<and> written st' = written st @ bs"
  proof (induction "length bs" arbitrary: bs st rule: less_induct)
    case less
    show ?case
    proof (cases "bs = []")
      case True
      then show ?thesis using less.prems by (simp add: writeBytes.simps)
    next
      case False
      then have n: "1 \<le> length bs" by (cases bs) simp_all
      obtain i st' where i: "ocheck overrun st 1 (length bs) = Inr (i, st')" "1 \<le> i" "i \<le> length bs"
        "i * 1 \<le> room st'" "ok st'" "written st' = written st"
        using ocheck_room [OF less.prems _ _ n, of 1] by auto
      let ?st = "put (take i bs) st'"
      have l: "length (take i bs) \<le> room st'" using i(4) by simp
      have eq: "writeBytes overrun bs st = writeBytes overrun (drop i bs) ?st"
        using i(1,2) False by (simp add: writeBytes.simps [of overrun bs st])
      have "\<exists>st'. writeBytes overrun (drop i bs) ?st = Inr st' \<and> ok st' \<and> written st' = written ?st @ drop i bs"
        by (rule less.hyps) (use i(2) n put_ok [OF i(5) l] in simp_all)
      then show ?thesis using eq written_put [OF i(5) l] i(6) by simp
    qed
  qed
qed

lemma writeString_appends: "appends ok written (writeString overrun str) (e_string str)"
  unfolding writeString_def e_string_def Let_def
  by (intro appends_andthen writeU32_appends writeBytes_appends)

lemma pad_appends: "appends ok written (pad overrun n) (replicate n 0)"
proof (induction n)
  case 0
  then show ?case by (simp add: appends_def)
next
  case (Suc n)
  have eq: "pad overrun (Suc n) = (\<lambda>st. andthen (writeU8 overrun 0 st) (pad overrun n))"
    by (rule ext) simp
  show ?case
    using appends_andthen [OF writeU8_appends [of 0] Suc] unfolding eq by simp
qed

end


subsection \<open>The interface of the derived classes\<close>

interpretation memo: out_stream mem_ooverrun "\<lambda>_. []" "\<lambda>_. True"
  by unfold_locales (simp_all add: mem_ooverrun_def Let_def mult.commute)

lemma memo_written [simp]: "memo.written st = obuf st"
  by (simp add: memo.written_def)

lemma mem_writeBytes_appends: "appends (\<lambda>_. True) memo.written (mem_writeBytes bs) bs"
  by (rule appendsI)
    (auto simp: mem_writeBytes_def ocheck_def mem_ooverrun_def put_def Let_def)

definition fdo_ok :: "fdout_state ostream \<Rightarrow> bool" where
  "fdo_ok st \<longleftrightarrow> 4 \<le> obufSize (dst st) \<and> length (obuf st) + room st = obufSize (dst st) \<and> \<not> otimeout (dst st)"

lemma select_write_waits: "\<exists>ps'. select_write False ps = Inr ps' \<and> (ps' \<noteq> [] \<longrightarrow> hd ps' > 0)"
  by (induction ps) auto

lemma flush_loop_sends:
  "\<not> otimeout s \<Longrightarrow> \<exists>s'. flush_loop bs s = Inr s' \<and> sent s' = sent s @ bs \<and> obufSize s' = obufSize s \<and> \<not> otimeout s'"
proof (induction "length bs" arbitrary: bs s rule: less_induct)
  case less
  show ?case
  proof (cases "bs = []")
    case True
    then show ?thesis using less.prems by (simp add: flush_loop.simps)
  next
    case False
    obtain ps' where ps': "select_write False (portions s) = Inr ps'" "ps' \<noteq> [] \<Longrightarrow> hd ps' > 0"
      using select_write_waits by blast
    define n where "n = (if ps' = [] then length bs else min (hd ps') (length bs))"
    have n: "0 < n" using ps'(2) False by (auto simp: n_def)
    let ?s = "s\<lparr>sent := sent s @ take n bs, portions := tl ps'\<rparr>"
    have w: "writeWithTimeout s bs = Inr (n, ?s)"
      using less.prems ps'(1) by (simp add: writeWithTimeout_def n_def Let_def)
    have "\<exists>s'. flush_loop (drop n bs) ?s = Inr s' \<and> sent s' = sent ?s @ drop n bs \<and>
            obufSize s' = obufSize ?s \<and> \<not> otimeout s'"
      by (rule less.hyps) (use False n less.prems in simp_all)
    then show ?thesis using False w n by (simp add: flush_loop.simps [of bs s])
  qed
qed

lemma flush_sends:
  "fdo_ok st \<Longrightarrow> \<exists>st'. flush st = Inr st' \<and> obuf st' = [] \<and> room st' = obufSize (dst st) \<and>
     sent (dst st') = sent (dst st) @ obuf st \<and> fdo_ok st'"
  using flush_loop_sends [of "dst st" "obuf st"] by (auto simp: flush_def fdo_ok_def)

interpretation fdo: out_stream fd_ooverrun "\<lambda>st. sent (dst st)" fdo_ok
proof (unfold_locales, goal_cases)
  case (1 st k n)
  obtain st' where st': "flush st = Inr st'" "obuf st' = []" "room st' = obufSize (dst st)"
     "sent (dst st') = sent (dst st) @ obuf st" "fdo_ok st'"
    using flush_sends [OF 1(1)] by blast
  have k: "k \<le> room st'" using 1(1,3) st'(3) by (simp add: fdo_ok_def)
  have nk: "\<not> obufSize (dst st) < k" using k st'(3) by simp
  show ?case
  proof (cases "k * n > room st'")
    case True
    have "room st' div k \<le> n"
      using True 1(2) by (metis div_le_mono less_imp_le nonzero_mult_div_cancel_left not_one_le_zero)
    moreover have "1 \<le> room st' div k"
      using k 1(2) by (simp add: div_greater_zero_iff Suc_le_eq)
    moreover have "fd_ooverrun st k n = Inr (room st' div k, st')"
      using nk st'(1) True by (simp add: fd_ooverrun_def)
    ultimately show ?thesis using st' by simp
  next
    case False
    have "fd_ooverrun st k n = Inr (n, st')"
      using nk st'(1) False by (simp add: fd_ooverrun_def)
    then show ?thesis using st' False 1(4) by (simp add: mult.commute)
  qed
next
  case (2 st bs)
  then show ?case by (auto simp: fdo_ok_def put_def)
next
  case (3 st bs)
  then show ?case by (simp add: put_def)
qed

subsection \<open>Decoding what was encoded\<close>

lemma p_U8_e [simp]: "p_U8 (u # bs) = Inr (u, bs)"
  by (simp add: p_U8_def p_take_def)

lemma join_U16: "push_bit 8 (ucast (ucast (drop_bit 8 u) :: u8)) OR ucast (ucast u :: u8) = (u :: u16)"
  by (rule bit_eqI) (auto simp: bit_simps)

lemma p_U16_e [simp]: "p_U16 (e_U16 u @ bs) = Inr (u, bs)"
  using join_U16 [of u] by (simp add: p_U16_def p_take_def e_U16_def)

lemma join_U32:
  "push_bit 24 (ucast (ucast (drop_bit 24 u) :: u8)) OR push_bit 16 (ucast (ucast (drop_bit 16 u) :: u8)) OR
   push_bit 8 (ucast (ucast (drop_bit 8 u) :: u8)) OR ucast (ucast u :: u8) = (u :: u32)"
  by (rule bit_eqI, auto simp: bit_simps) (rule ccontr, simp)+

lemma p_U32_e [simp]: "p_U32 (e_U32 u @ bs) = Inr (u, bs)"
  using join_U32 [of u] by (simp add: p_U32_def p_take_def e_U32_def)

lemma p_bytes_e [simp]: "p_bytes (length bs) (bs @ rest) = Inr (bs, rest)"
  by (simp add: p_bytes_def p_take_def)

lemma p_string_e:
  assumes "strlen str \<le> 65535"
  shows "p_string (e_string str @ bs) = Inr (takeWhile (\<lambda>c. c \<noteq> 0) str, bs)"
proof -
  let ?n = "strlen str"
  have n: "unat (of_nat ?n :: u32) = ?n" using assms by (simp add: unat_of_nat)
  have le: "\<not> maxStringLength < (of_nat ?n :: u32)"
    using assms n by (simp add: maxStringLength_def word_less_nat_alt)
  have t: "take ?n str = takeWhile (\<lambda>c. c \<noteq> 0) str"
    by (simp add: strlen_def takeWhile_eq_take [symmetric])
  have l: "length (takeWhile (\<lambda>c. c \<noteq> 0) str) = ?n" by (simp add: strlen_def)
  show ?thesis
    using p_bytes_e [of "takeWhile (\<lambda>c. c \<noteq> 0) str" bs] le
    by (simp add: p_string_def e_string_def Let_def n t l)
qed

text \<open>The compact length has 22 bits.\<close>

lemma masks_u8: "(0x7f :: u8) = mask 7" "(0xff :: u8) = mask 8"
  by (simp_all add: mask_eq_exp_minus_1)

lemma masks_u32: "(0x7f :: u32) = mask 7" "(0xff :: u32) = mask 8" "(0x3fff :: u32) = mask 14"
  by (simp_all add: mask_eq_exp_minus_1)

lemma compact_join:
  fixes len :: u32
  shows "unat ((ucast (len AND 0x7f) OR 0x80 :: u8) AND 0x7f) OR
         push_bit 7 (unat ((ucast (drop_bit 7 len AND 0x7f) OR 0x80 :: u8) AND 0x7f)) OR
         push_bit 14 (unat ((ucast (drop_bit 14 len AND 0xff) :: u8) AND 0xff)) = take_bit 22 (unat len)" (is ?three)
    and "unat ((ucast (len AND 0x7f) OR 0x80 :: u8) AND 0x7f) OR
         push_bit 7 (unat ((ucast (drop_bit 7 len AND 0x7f) :: u8) AND 0x7f)) = take_bit 14 (unat len)" (is ?two)
    and "unat ((ucast (len AND 0x7f) :: u8) AND 0x7f) = take_bit 7 (unat len)" (is ?one)
proof -
  have m: "((ucast x OR 0x80 :: u8) AND mask 7) = ucast x AND mask 7" for x :: u32
    by (rule bit_eqI) (auto simp: bit_simps numeral_eq_Suc less_Suc_eq)
  show ?one
    unfolding masks_u8 masks_u32 by (rule bit_eqI) (auto simp: bit_simps)
  show ?two
    unfolding masks_u8 masks_u32 m by (rule bit_eqI, auto simp: bit_simps) (rule ccontr, simp)+
  show ?three
    unfolding masks_u8 masks_u32 m by (rule bit_eqI, auto simp: bit_simps) (rule ccontr, simp)+
qed

lemma continuation_bit:
  "(ucast (x AND 0x7f) OR 0x80 :: u8) AND 0x80 \<noteq> 0" "(ucast ((x :: u32) AND 0x7f) :: u8) AND 0x80 = 0"
proof -
  have "bit ((ucast (x AND 0x7f) OR 0x80 :: u8) AND 0x80) 7"
    by (simp add: bit_simps)
  then show "(ucast (x AND 0x7f) OR 0x80 :: u8) AND 0x80 \<noteq> 0" by (metis bit_0_eq bot_apply bot_bool_def)
  show "(ucast (x AND 0x7f) :: u8) AND 0x80 = 0"
    by (rule bit_eqI) (auto simp: bit_simps numeral_eq_Suc less_Suc_eq)
qed

lemma take_bit_unat_small: "unat (len :: u32) < 2 ^ k \<Longrightarrow> take_bit k (unat len) = unat len"
  by (simp add: take_bit_nat_eq_self)

lemma p_compact_e: "p_compact (e_compact len @ bs) = Inr (take_bit 22 (unat len), bs)"
proof -
  consider "len \<le> 0x7f" | "\<not> len \<le> 0x7f" "len \<le> 0x3fff" | "\<not> len \<le> 0x7f" "\<not> len \<le> 0x3fff" by blast
  then show ?thesis
  proof cases
    case 1
    then have "unat len < 2 ^ 7" and l: "unat len < 2 ^ 22" by (simp_all add: word_le_nat_alt)
    then have "unat ((ucast (len AND 0x7f) :: u8) AND 0x7f) = take_bit 22 (unat len)"
      unfolding compact_join(3) by (simp add: take_bit_unat_small)
    then show ?thesis using 1 by (simp add: p_compact_def e_compact_def continuation_bit)
  next
    case 2
    then have l: "unat len < 2 ^ 14" "unat len < 2 ^ 22" by (simp_all add: word_le_nat_alt)
    have "take_bit 14 (unat len) = take_bit 22 (unat len)"
      unfolding take_bit_unat_small [OF l(1)] take_bit_unat_small [OF l(2)] ..
    then show ?thesis using 2 compact_join(2) [of len]
      by (simp only: p_compact_def e_compact_def continuation_bit if_False if_True append_Cons append_Nil
          p_U8_e andthen_simps prod.case simp_thms)
  next
    case 3
    then show ?thesis using compact_join(1) [of len]
      by (simp only: p_compact_def e_compact_def continuation_bit if_False if_True append_Cons append_Nil
          p_U8_e andthen_simps prod.case simp_thms)
  qed
qed

lemma p_Opaque16_e [simp]: "p_Opaque16 (ucast u # ucast (drop_bit 8 u) # bs) = Inr (u, bs)"
proof -
  have "ucast (ucast u :: u8) OR push_bit 8 (ucast (ucast (drop_bit 8 u) :: u8)) = u"
    using join_U16 [of u] by (simp add: or.commute)
  then show ?thesis by (simp add: p_Opaque16_def p_take_def)
qed

lemma p_Opaque32_e [simp]:
  "p_Opaque32 (ucast u # ucast (drop_bit 8 u) # ucast (drop_bit 16 u) # ucast (drop_bit 24 u) # bs) = Inr (u, bs)"
proof -
  have "ucast (ucast u :: u8) OR push_bit 8 (ucast (ucast (drop_bit 8 u) :: u8)) OR
    push_bit 16 (ucast (ucast (drop_bit 16 u) :: u8)) OR push_bit 24 (ucast (ucast (drop_bit 24 u) :: u8)) = u"
    using join_U32 [of u] by (simp add: or.commute or.left_commute or.assoc)
  then show ?thesis by (simp add: p_Opaque32_def p_take_def)
qed

subsection \<open>Both ends of a connection\<close>

text \<open>A message as the items its writer and its reader agree on; \<open>str\<close> is without its null.\<close>

datatype item =
    IU8 u8 | IU16 u16 | IU32 u32 | IS16 int | IS32 int | ICompact u32 | IString "u8 list" | IBytes "u8 list"
  | IOpaque16 u16 | IOpaque32 u32

fun valid_item :: "item \<Rightarrow> bool" where
  "valid_item (IS16 i) \<longleftrightarrow> - 32768 \<le> i \<and> i < 32768"
| "valid_item (IS32 i) \<longleftrightarrow> - 2147483648 \<le> i \<and> i < 2147483648"
| "valid_item (ICompact len) \<longleftrightarrow> len < 0x400000"
| "valid_item (IString str) \<longleftrightarrow> 0 \<notin> set str \<and> length str \<le> 65535"
| "valid_item _ \<longleftrightarrow> True"

fun send_item :: "item \<Rightarrow> fdout_state ostream \<Rightarrow> fdout_state oresult" where
  "send_item (IU8 u) = writeU8 fd_ooverrun u"
| "send_item (IU16 u) = writeU16 fd_ooverrun u"
| "send_item (IU32 u) = writeU32 fd_ooverrun u"
| "send_item (IS16 i) = writeS16 fd_ooverrun i"
| "send_item (IS32 i) = writeS32 fd_ooverrun i"
| "send_item (ICompact len) = writeCompactLength fd_ooverrun len"
| "send_item (IString str) = writeString fd_ooverrun (str @ [0])"
| "send_item (IBytes bs) = writeBytes fd_ooverrun bs"
| "send_item (IOpaque16 u) = writeOpaque16 fd_ooverrun u"
| "send_item (IOpaque32 u) = writeOpaque32 fd_ooverrun u"

definition tagged :: "('a \<Rightarrow> item) \<Rightarrow> rdr_error + ('a \<times> 's) \<Rightarrow> rdr_error + (item \<times> 's)" where
  "tagged c r = andthen r (\<lambda>(v, st). Inr (c v, st))"

fun recv_item :: "item \<Rightarrow> fd_state istream \<Rightarrow> rdr_error + (item \<times> fd_state istream)" where
  "recv_item (IU8 _) st = tagged IU8 (readU8 fd_overrun st)"
| "recv_item (IU16 _) st = tagged IU16 (readU16 fd_overrun st)"
| "recv_item (IU32 _) st = tagged IU32 (readU32 fd_overrun st)"
| "recv_item (IS16 _) st = tagged IS16 (readS16 fd_overrun st)"
| "recv_item (IS32 _) st = tagged IS32 (readS32 fd_overrun st)"
| "recv_item (ICompact _) st = tagged (\<lambda>n. ICompact (of_nat n)) (readCompactLength fd_overrun st)"
| "recv_item (IString _) st = tagged IString (readString fd_overrun fd_readBytes st)"
| "recv_item (IBytes bs) st = tagged IBytes (fd_readBytes st (length bs))"
| "recv_item (IOpaque16 _) st = tagged IOpaque16 (readOpaque16 fd_overrun st)"
| "recv_item (IOpaque32 _) st = tagged IOpaque32 (readOpaque32 fd_overrun st)"

fun send_items :: "item list \<Rightarrow> fdout_state ostream \<Rightarrow> fdout_state oresult" where
  "send_items [] st = Inr st"
| "send_items (it # its) st = andthen (send_item it st) (send_items its)"

fun recv_items :: "item list \<Rightarrow> fd_state istream \<Rightarrow> rdr_error + (item list \<times> fd_state istream)" where
  "recv_items [] st = Inr ([], st)"
| "recv_items (it # its) st = andthen (recv_item it st) (\<lambda>(v, st). andthen (recv_items its st) (\<lambda>(vs, st). Inr (v # vs, st)))"

text \<open>The bytes of an item, and the parser that reads it.\<close>

fun e_item :: "item \<Rightarrow> u8 list" where
  "e_item (IU8 u) = [u]"
| "e_item (IU16 u) = e_U16 u"
| "e_item (IU32 u) = e_U32 u"
| "e_item (IS16 i) = e_U16 (word_of_int i)"
| "e_item (IS32 i) = e_U32 (word_of_int i)"
| "e_item (ICompact len) = e_compact len"
| "e_item (IString str) = e_string (str @ [0])"
| "e_item (IBytes bs) = bs"
| "e_item (IOpaque16 u) = [ucast u, ucast (drop_bit 8 u)]"
| "e_item (IOpaque32 u) = [ucast u, ucast (drop_bit 8 u), ucast (drop_bit 16 u), ucast (drop_bit 24 u)]"

fun p_item :: "item \<Rightarrow> item parser" where
  "p_item (IU8 _) bs = tagged IU8 (p_U8 bs)"
| "p_item (IU16 _) bs = tagged IU16 (p_U16 bs)"
| "p_item (IU32 _) bs = tagged IU32 (p_U32 bs)"
| "p_item (IS16 _) bs = tagged IS16 (p_S16 bs)"
| "p_item (IS32 _) bs = tagged IS32 (p_S32 bs)"
| "p_item (ICompact _) bs = tagged (\<lambda>n. ICompact (of_nat n)) (p_compact bs)"
| "p_item (IString _) bs = tagged IString (p_string bs)"
| "p_item (IBytes v) bs = tagged IBytes (p_bytes (length v) bs)"
| "p_item (IOpaque16 _) bs = tagged IOpaque16 (p_Opaque16 bs)"
| "p_item (IOpaque32 _) bs = tagged IOpaque32 (p_Opaque32 bs)"

lemma send_item_appends: "appends fdo_ok fdo.written (send_item it) (e_item it)"
  by (cases it)
    (simp_all add: fdo.writeU8_appends fdo.writeU16_appends fdo.writeU32_appends fdo.writeCompactLength_appends
      fdo.writeString_appends fdo.writeBytes_appends fdo.writeOpaque16_appends fdo.writeOpaque32_appends
      writeS16_def writeS32_def)

lemma send_items_appends: "appends fdo_ok fdo.written (send_items its) (concat (map e_item its))"
proof (induction its)
  case Nil
  have "send_items [] = Inr" by (rule ext) simp
  then show ?case using appends_return by simp
next
  case (Cons it its)
  have "send_items (it # its) = (\<lambda>st. andthen (send_item it st) (send_items its))" by (rule ext) simp
  then show ?case using appends_andthen [OF send_item_appends Cons] by simp
qed

lemma yields_tagged: "yields ok content m p \<Longrightarrow> yields ok content (\<lambda>st. tagged c (m st)) (\<lambda>bs. tagged c (p bs))"
  unfolding tagged_def by (intro yields_andthen yields_return)

lemma recv_item_yields: "yields fd_ok fd.content (recv_item it) (p_item it)"
  by (cases it; simp only: recv_item.simps [abs_def] p_item.simps [abs_def])
    (intro yields_tagged fd.readU8_yields fd.readU16_yields fd.readU32_yields fd.readS16_yields fd.readS32_yields
      fd.readCompactLength_yields fd.readString_yields [OF fd_readBytes_yields] fd_readBytes_yields fd.readOpaque16_yields fd.readOpaque32_yields)+

lemma of_nat_take_bit_22: "(len :: u32) < 0x400000 \<Longrightarrow> of_nat (take_bit 22 (unat len)) = len"
  by (simp add: take_bit_nat_eq_self word_less_nat_alt)

lemma sint_u16_u32:
  "- 32768 \<le> i \<Longrightarrow> i < 32768 \<Longrightarrow> sint (word_of_int i :: u16) = i"
  "- 2147483648 \<le> i \<Longrightarrow> i < 2147483648 \<Longrightarrow> sint (word_of_int i :: u32) = i"
  by (simp_all add: signed_of_int signed_take_bit_int_eq_self)

lemma p_item_e: "valid_item it \<Longrightarrow> p_item it (e_item it @ bs) = Inr (it, bs)"
proof (cases it)
  case (IString str)
  assume v: "valid_item it"
  have "\<forall>c \<in> set str. c \<noteq> 0" using v IString by auto
  then have t: "takeWhile (\<lambda>c. c \<noteq> 0) (str @ [0]) = str" by (simp add: takeWhile_append_all)
  have "strlen (str @ [0]) \<le> 65535" unfolding strlen_def t using v IString by simp
  from p_string_e [OF this, of bs] show ?thesis unfolding t using IString by (simp add: tagged_def)
qed (auto simp: tagged_def p_compact_e of_nat_take_bit_22 p_S16_def p_S32_def sint_u16_u32)

lemma recv_items_yields:
  "fd_ok st \<Longrightarrow> fd.content st = concat (map e_item its) @ bs \<Longrightarrow> (\<forall>it \<in> set its. valid_item it) \<Longrightarrow>
   \<exists>st'. recv_items its st = Inr (its, st') \<and> fd_ok st' \<and> fd.content st' = bs"
proof (induction its arbitrary: st)
  case Nil
  then show ?case by simp
next
  case (Cons it its)
  have "p_item it (fd.content st) = Inr (it, concat (map e_item its) @ bs)"
    using p_item_e [of it "concat (map e_item its) @ bs"] Cons.prems(2,3) by simp
  then obtain st1 where st1: "recv_item it st = Inr (it, st1)" "fd_ok st1" "fd.content st1 = concat (map e_item its) @ bs"
    using yields_Inr [OF recv_item_yields Cons.prems(1)] by blast
  obtain st' where "recv_items its st1 = Inr (its, st')" "fd_ok st'" "fd.content st' = bs"
    using Cons.IH [OF st1(2,3)] Cons.prems(3) by auto
  then show ?case using st1(1) by simp
qed

text \<open>
  C15: What one end of a connection writes the other reads: any sequence of integers, compact lengths
  below 2 to the 22, strings up to the maximal length and byte arrays, written to an
  \<open>FdOutStream\<close> and flushed, is read back item by item from an \<open>FdInStream\<close> on the bytes sent, and
  nothing is left over; whatever the buffer sizes, and in whatever portions the descriptors take and
  deliver the bytes.
\<close>

theorem stream_roundtrip:
  assumes "\<forall>it \<in> set its. valid_item it" and "n = 0 \<or> 4 \<le> n" and "m = 0 \<or> 4 \<le> m"
  shows "\<exists>st st'. send_items its (newFdOutStream ps False n) = Inr st \<and> flush st = Inr st' \<and>
    outcome fd.content (recv_items its (newFdInStream (sent (dst st')) arr False m)) = Inr (its, [])"
proof -
  let ?st0 = "newFdOutStream ps False n"
  have ok: "fdo_ok ?st0" using assms(2) by (auto simp: fdo_ok_def newFdOutStream_def Let_def)
  have w: "fdo.written ?st0 = []" by (simp add: fdo.written_def newFdOutStream_def Let_def)
  obtain st where st: "send_items its ?st0 = Inr st" "fdo_ok st" "fdo.written st = concat (map e_item its)"
    using appendsE [OF send_items_appends ok, of its] unfolding w by auto
  obtain st' where st': "flush st = Inr st'" "sent (dst st') = sent (dst st) @ obuf st"
    using flush_sends [OF st(2)] by blast
  have s: "sent (dst st') = concat (map e_item its)" using st'(2) st(3) by (simp add: fdo.written_def)
  let ?in = "newFdInStream (sent (dst st')) arr False m"
  have iok: "fd_ok ?in" using assms(3) by (auto simp: fd_ok_def newFdInStream_def)
  have c: "fd.content ?in = concat (map e_item its) @ []" using s by (simp add: fd_content newFdInStream_def)
  obtain si where "recv_items its ?in = Inr (its, si)" "fd.content si = []"
    using recv_items_yields [OF iok c assms(1)] by blast
  then show ?thesis using st(1) st'(1) by (auto simp: outcome_def)
qed

theorem stream_roundtrip_witness:
  "\<exists>st st'. send_items [IU8 0, IString [104, 105], ICompact 300, IS16 (- 2)] (newFdOutStream [3, 0, 1] False 4) = Inr st \<and>
    flush st = Inr st' \<and>
    outcome fd.content (recv_items [IU8 0, IString [104, 105], ICompact 300, IS16 (- 2)]
      (newFdInStream (sent (dst st')) [0, 2] False 0)) = Inr ([IU8 0, IString [104, 105], ICompact 300, IS16 (- 2)], [])"
  by (rule stream_roundtrip) simp_all

text \<open>
  The compact length keeps 22 bits: any 32-bit length written with \<open>writeCompactLength\<close> and read
  back with \<open>readCompactLength\<close> comes out modulo 2 to the 22, so exactly the lengths below that survive.
\<close>

theorem compact_length_22_bits:
  "\<exists>st. writeCompactLength mem_ooverrun len (newMemOutStream 1024) = Inr st \<and>
        outcome ibuf (readCompactLength mem_overrun (MemInStream (obuf st))) = Inr (unat len mod 4194304, [])"
proof -
  obtain st where st: "writeCompactLength mem_ooverrun len (newMemOutStream 1024) = Inr st"
    "memo.written st = memo.written (newMemOutStream 1024) @ e_compact len"
    using appendsE [OF memo.writeCompactLength_appends TrueI] by blast
  then have b: "obuf st = e_compact len" by (simp add: newMemOutStream_def)
  have m: "ibuf = mem.content" by (rule ext) simp
  have "outcome mem.content (readCompactLength mem_overrun (MemInStream (obuf st))) = p_compact (e_compact len @ [])"
    using yields_outcome [OF mem.readCompactLength_yields TrueI, of "MemInStream (obuf st)"] b
    by (simp add: MemInStream_def)
  then show ?thesis using st(1) unfolding m p_compact_e by (simp add: take_bit_eq_mod)
qed

text \<open>
  A \<open>FixedMemOutStream\<close> never writes past its buffer: bytes that fit are appended and take their
  space, bytes that do not fit raise the end-of-stream exception.
\<close>

theorem fixed_write_bounds:
  "writeBytes fixed_ooverrun bs st =
     (if length bs \<le> room st then Inr (put bs st) else Inl EndOfStream)"
proof (cases "length bs \<le> room st")
  case True
  then show ?thesis
    by (cases "bs = []") (simp_all add: writeBytes.simps ocheck_def put_def)
next
  case False
  then have ne: "bs \<noteq> []" by (cases bs) simp_all
  show ?thesis
  proof (cases "room st = 0")
    case True
    then show ?thesis using False ne by (simp add: writeBytes.simps [of _ bs] ocheck_def fixed_ooverrun_def)
  next
    case pos: False
    let ?st = "put (take (room st) bs) st" and ?bs = "drop (room st) bs"
    have e: "writeBytes fixed_ooverrun bs st = writeBytes fixed_ooverrun ?bs ?st"
      using False ne pos by (simp add: writeBytes.simps [of _ bs] ocheck_def)
    have "?bs \<noteq> []" and "room ?st = 0" using False by (simp_all add: put_def)
    then show ?thesis using False unfolding e
      by (simp add: writeBytes.simps [of _ ?bs] ocheck_def fixed_ooverrun_def)
  qed
qed

end
