(* ===== verification/Rfb_Subrect.thy ===== *)
theory Rfb_Subrect
  imports Rfb_Rect Rdr_OutStream
begin

text \<open>
  What the RRE and hextile encodings (\<open>common/rfb/rreEncode.h\<close>, \<open>hextileEncode.h\<close> and their decoders)
  share: pixel arrays in row-major order, the rectangle fills, the pixel reads and writes of the three
  pixel widths, the loops that look for the largest uniform rectangle, and the invariant of a scan that
  cuts an array into uniform rectangles over a background. An image on the client side is a function
  of the coordinates.
\<close>

unbundle bit_operations_syntax

subsection \<open>Pixels on the wire\<close>

text \<open>\<open>WRITE_PIXEL\<close> and \<open>READ_PIXEL\<close> for \<open>BPP\<close> 8, 16 and 32; the stream is the bytes it delivers.\<close>

definition wp8 :: "u8 \<Rightarrow> u8 list" where "wp8 p = [p]"
definition wp16 :: "u16 \<Rightarrow> u8 list" where "wp16 p = [ucast p, ucast (drop_bit 8 p)]"
definition wp32 :: "u32 \<Rightarrow> u8 list" where
  "wp32 p = [ucast p, ucast (drop_bit 8 p), ucast (drop_bit 16 p), ucast (drop_bit 24 p)]"

locale pixel_io =
  fixes wp :: "'p \<Rightarrow> u8 list" and rp :: "'p parser" and bytes :: nat
  assumes read_written: "rp (wp p @ bs) = Inr (p, bs)"
    and length_wp: "length (wp p) = bytes"
    and bytes_bounds: "1 \<le> bytes \<and> bytes \<le> 4"
begin

lemma read_written_nil: "rp (wp p) = Inr (p, [])"
  using read_written [of p "[]"] by simp

text \<open>Pixels in sequence, as in a raw rectangle.\<close>

lemma length_concat_wp: "length (concat (map wp ps)) = length ps * bytes"
  by (induction ps) (simp_all add: length_wp)

end

text \<open>\<open>readBytes\<close> into an array of \<open>n\<close> pixels.\<close>

fun p_pixels :: "'p parser \<Rightarrow> nat \<Rightarrow> 'p list parser" where
  "p_pixels rp 0 bs = Inr ([], bs)"
| "p_pixels rp (Suc n) bs = andthen (rp bs) (\<lambda>(p, bs). andthen (p_pixels rp n bs) (\<lambda>(ps, bs). Inr (p # ps, bs)))"

context pixel_io begin

lemma p_pixels_written: "p_pixels rp (length ps) (concat (map wp ps) @ bs) = Inr (ps, bs)"
  by (induction ps) (simp_all add: read_written)

end

interpretation px8: pixel_io wp8 p_U8 1
  by unfold_locales (simp_all add: wp8_def)

interpretation px16: pixel_io wp16 p_Opaque16 2
  by unfold_locales (simp_all add: wp16_def)

interpretation px32: pixel_io wp32 p_Opaque32 4
  by unfold_locales (simp_all add: wp32_def)

subsection \<open>Loops over the pixels\<close>

text \<open>\<open>while (i < n && P(i)) i++\<close>\<close>

function first_fail :: "(nat \<Rightarrow> bool) \<Rightarrow> nat \<Rightarrow> nat \<Rightarrow> nat" where
  "first_fail P i n = (if i < n \<and> P i then first_fail P (i + 1) n else i)"
  by pat_completeness auto
termination by (relation "measure (\<lambda>(_, i, n). n - i)") auto

declare first_fail.simps [simp del]

lemma first_fail_ge: "i \<le> first_fail P i n"
  by (induction P i n rule: first_fail.induct) (subst first_fail.simps, auto)

lemma first_fail_le: "i \<le> n \<Longrightarrow> first_fail P i n \<le> n"
  by (induction P i n rule: first_fail.induct) (subst first_fail.simps, auto)

lemma first_fail_holds: "i \<le> j \<Longrightarrow> j < first_fail P i n \<Longrightarrow> P j"
proof (induction P i n rule: first_fail.induct)
  case (1 P i n)
  show ?case
  proof (cases "i < n \<and> P i")
    case True
    then show ?thesis using 1 by (cases "i = j") (simp_all add: first_fail.simps [of P i])
  next
    case False
    then have "first_fail P i n = i" by (subst first_fail.simps) auto
    then show ?thesis using 1(2,3) by simp
  qed
qed

lemma first_fail_stop: "first_fail P i n < n \<Longrightarrow> \<not> P (first_fail P i n)"
proof (induction P i n rule: first_fail.induct)
  case (1 P i n)
  then show ?case by (cases "i < n \<and> P i") (auto simp: first_fail.simps [of P i n])
qed

text \<open>\<open>while (len-- > 0) *ptr++ = v\<close>, and the same for each of \<open>rows\<close> lines \<open>stride\<close> apart.\<close>

fun fill_run :: "'p list \<Rightarrow> nat \<Rightarrow> nat \<Rightarrow> 'p \<Rightarrow> 'p list" where
  "fill_run a i 0 v = a"
| "fill_run a i (Suc n) v = fill_run (a[i := v]) (i + 1) n v"

fun fill_rows :: "'p list \<Rightarrow> nat \<Rightarrow> nat \<Rightarrow> nat \<Rightarrow> nat \<Rightarrow> 'p \<Rightarrow> 'p list" where
  "fill_rows a i n stride 0 v = a"
| "fill_rows a i n stride (Suc rows) v = fill_rows (fill_run a i n v) (i + stride) n stride rows v"

lemma length_fill_run [simp]: "length (fill_run a i n v) = length a"
  by (induction a i n v rule: fill_run.induct) simp_all

lemma length_fill_rows [simp]: "length (fill_rows a i n stride rows v) = length a"
  by (induction a i n stride rows v rule: fill_rows.induct) simp_all

lemma nth_fill_run:
  "q < length a \<Longrightarrow> fill_run a i n v ! q = (if i \<le> q \<and> q < i + n then v else a ! q)"
  by (induction a i n v rule: fill_run.induct) (auto simp: nth_list_update)

text \<open>Row and column of an index.\<close>

lemma row_span:
  fixes w :: nat
  assumes "i < w" and "x + n \<le> w"
  shows "k * w + x \<le> j * w + i \<and> j * w + i < k * w + x + n \<longleftrightarrow> j = k \<and> x \<le> i \<and> i < x + n"
proof (cases j k rule: linorder_cases)
  case less
  then have "(j + 1) * w \<le> k * w" by (intro mult_le_mono1) simp
  then show ?thesis using less assms by auto
next
  case greater
  then have "(k + 1) * w \<le> j * w" by (intro mult_le_mono1) simp
  then show ?thesis using greater assms by auto
qed auto

lemma index_less: "i < w \<Longrightarrow> j < h \<Longrightarrow> j * w + i < w * (h :: nat)"
proof -
  assume "i < w" "j < h"
  then have "(j + 1) * w \<le> h * w" by (intro mult_le_mono1) simp
  then show ?thesis using \<open>i < w\<close> by (simp add: mult.commute)
qed

lemma index_inj:
  fixes w :: nat
  assumes "i < w" and "i' < w" and "j * w + i = j' * w + i'"
  shows "j = j' \<and> i = i'"
  using row_span [OF assms(1), of i' 1 j' j] assms by simp

lemma nth_fill_rows:
  assumes "w * h \<le> length a" and "i < w" and "j < h" and "x + n \<le> w"
  shows "fill_rows a (y * w + x) n w rows v ! (j * w + i) =
    (if y \<le> j \<and> j < y + rows \<and> x \<le> i \<and> i < x + n then v else a ! (j * w + i))"
  using assms(1)
proof (induction rows arbitrary: a y)
  case (Suc rows)
  let ?a = "fill_run a (y * w + x) n v"
  have "fill_rows a (y * w + x) n w (Suc rows) v = fill_rows ?a (Suc y * w + x) n w rows v"
    by (simp add: algebra_simps)
  moreover have "fill_rows ?a (Suc y * w + x) n w rows v ! (j * w + i) =
      (if Suc y \<le> j \<and> j < Suc y + rows \<and> x \<le> i \<and> i < x + n then v else ?a ! (j * w + i))"
    by (rule Suc.IH) (simp add: Suc.prems)
  moreover have "?a ! (j * w + i) = (if j = y \<and> x \<le> i \<and> i < x + n then v else a ! (j * w + i))"
    using nth_fill_run [of "j * w + i" a "y * w + x" n v] index_less [OF assms(2,3)] Suc.prems
      row_span [OF assms(2,4), of y j] by simp
  ultimately show ?case by auto
qed auto

subsection \<open>Subrectangles\<close>

record 'p subrect =
  s_x :: nat
  s_y :: nat
  s_w :: nat
  s_h :: nat
  s_pix :: 'p

definition covers :: "'p subrect \<Rightarrow> nat \<Rightarrow> nat \<Rightarrow> bool" where
  "covers s i j \<longleftrightarrow> s_x s \<le> i \<and> i < s_x s + s_w s \<and> s_y s \<le> j \<and> j < s_y s + s_h s"

text \<open>The pixel a background with subrectangles (the newest first) has at column \<open>i\<close>, row \<open>j\<close>.\<close>

fun painted :: "'p \<Rightarrow> 'p subrect list \<Rightarrow> nat \<Rightarrow> nat \<Rightarrow> 'p" where
  "painted bg [] i j = bg"
| "painted bg (s # ss) i j = (if covers s i j then s_pix s else painted bg ss i j)"

text \<open>
  The horizontal subrectangle both encoders look for first: the run to the right of the pixel, and the
  rows below that have the same run. \<open>p\<close> is the index of the pixel at column \<open>x\<close>, row \<open>y\<close>.
\<close>

definition horiz_width :: "'p list \<Rightarrow> nat \<Rightarrow> nat \<Rightarrow> nat \<Rightarrow> nat" where
  "horiz_width a w p x = first_fail (\<lambda>i. a ! (p + i) = a ! p) 1 (w - x)"

definition horiz_height :: "'p list \<Rightarrow> nat \<Rightarrow> nat \<Rightarrow> nat \<Rightarrow> nat \<Rightarrow> nat \<Rightarrow> nat" where
  "horiz_height a w h p y sw =
     first_fail (\<lambda>j. first_fail (\<lambda>i. a ! (p + j * w + i) = a ! p) 0 sw = sw) 1 (h - y)"

text \<open>The pixels of the subrectangle below its first row become background.\<close>

definition clear_below :: "'p list \<Rightarrow> nat \<Rightarrow> nat \<Rightarrow> nat \<Rightarrow> nat \<Rightarrow> 'p \<Rightarrow> 'p list" where
  "clear_below a w p sw sh bg = fill_rows a (p + w) sw w (sh - 1) bg"

lemma length_clear_below [simp]: "length (clear_below a w p n m bg) = length a"
  by (simp add: clear_below_def)

lemma nth_clear_below:
  assumes "w * h \<le> length a" and "i < w" and "j < h" and "x + n \<le> w"
  shows "clear_below a w (y * w + x) n m bg ! (j * w + i) =
    (if y < j \<and> j < y + m \<and> x \<le> i \<and> i < x + n then bg else a ! (j * w + i))"
  using nth_fill_rows [OF assms, of "Suc y" "m - 1" bg] by (auto simp: clear_below_def algebra_simps)

text \<open>A rectangle inside the array whose pixels all have the same value.\<close>

definition uniform_rect :: "'p list \<Rightarrow> nat \<Rightarrow> nat \<Rightarrow> nat \<Rightarrow> nat \<Rightarrow> nat \<Rightarrow> nat \<Rightarrow> 'p \<Rightarrow> bool" where
  "uniform_rect a w h x y n m v \<longleftrightarrow> 1 \<le> n \<and> 1 \<le> m \<and> x + n \<le> w \<and> y + m \<le> h \<and>
     (\<forall>j i. y \<le> j \<longrightarrow> j < y + m \<longrightarrow> x \<le> i \<longrightarrow> i < x + n \<longrightarrow> a ! (j * w + i) = v)"

lemma uniform_bounds:
  assumes "uniform_rect a w h x y n m v"
  shows "1 \<le> n" and "1 \<le> m" and "x + n \<le> w" and "y + m \<le> h"
  using assms unfolding uniform_rect_def by blast+

lemma uniform_rectD:
  "uniform_rect a w h x y n m v \<Longrightarrow> y \<le> j \<Longrightarrow> j < y + m \<Longrightarrow> x \<le> i \<Longrightarrow> i < x + n \<Longrightarrow> a ! (j * w + i) = v"
  unfolding uniform_rect_def by blast

lemma uniform_rectI:
  assumes "1 \<le> n" and "1 \<le> m" and "x + n \<le> w" and "y + m \<le> h"
    and "\<And>j i. j < m \<Longrightarrow> i < n \<Longrightarrow> a ! (y * w + x + j * w + i) = v"
  shows "uniform_rect a w h x y n m v"
  unfolding uniform_rect_def
proof (intro conjI allI impI assms(1-4))
  fix j i assume "y \<le> j" "j < y + m" "x \<le> i" "i < x + n"
  then obtain j' i' where "j = y + j'" "i = x + i'" "j' < m" "i' < n"
    by (metis add_less_cancel_left le_Suc_ex)
  then show "a ! (j * w + i) = v" using assms(5) [of j' i'] by (simp add: algebra_simps)
qed

lemma horiz_uniform:
  fixes a :: "'p list"
  assumes "x < w" and "y < h"
  defines "n \<equiv> horiz_width a w (y * w + x) x"
  defines "m \<equiv> horiz_height a w h (y * w + x) y n"
  shows "uniform_rect a w h x y n m (a ! (y * w + x))"
proof (rule uniform_rectI)
  let ?v = "a ! (y * w + x)"
  show "1 \<le> n" "1 \<le> m" by (simp_all add: n_def m_def horiz_width_def horiz_height_def first_fail_ge)
  have "n \<le> w - x" unfolding n_def horiz_width_def by (rule first_fail_le) (use assms(1) in simp)
  then show "x + n \<le> w" using assms(1) by simp
  have "m \<le> h - y" unfolding m_def horiz_height_def by (rule first_fail_le) (use assms(2) in simp)
  then show "y + m \<le> h" using assms(2) by simp
  have row0: "a ! (y * w + x + i) = ?v" if "i < n" for i
    using that first_fail_holds [of 1 i "\<lambda>i. a ! (y * w + x + i) = ?v" "w - x"]
    by (cases "i = 0") (simp_all add: n_def horiz_width_def)
  fix j i assume "j < m" "i < n"
  show "a ! (y * w + x + j * w + i) = ?v"
  proof (cases "j = 0")
    case True
    then show ?thesis using row0 [OF \<open>i < n\<close>] by simp
  next
    case False
    then have "first_fail (\<lambda>i. a ! (y * w + x + j * w + i) = ?v) 0 n = n"
      using \<open>j < m\<close> first_fail_holds [of 1 j "\<lambda>j. first_fail (\<lambda>i. a ! (y * w + x + j * w + i) = ?v) 0 n = n" "h - y"]
      by (simp add: m_def horiz_height_def)
    then show ?thesis using \<open>i < n\<close> first_fail_holds [of 0 i "\<lambda>i. a ! (y * w + x + j * w + i) = ?v" n] by simp
  qed
qed

subsection \<open>The invariant of a scan\<close>

text \<open>
  The scan at column \<open>x\<close> of row \<open>y\<close> has the subrectangles \<open>ss\<close> behind it and the array \<open>a\<close> left of the
  image \<open>img\<close>: what it passed is painted as in the image, and every other pixel is either still in the
  array and not painted, or cleared in the array and painted.
\<close>

definition passed :: "nat \<Rightarrow> nat \<Rightarrow> nat \<Rightarrow> nat \<Rightarrow> bool" where
  "passed y x j i \<longleftrightarrow> j < y \<or> (j = y \<and> i < x)"

definition scan_inv :: "'p list \<Rightarrow> nat \<Rightarrow> nat \<Rightarrow> 'p \<Rightarrow> 'p list \<Rightarrow> 'p subrect list \<Rightarrow> nat \<Rightarrow> nat \<Rightarrow> bool" where
  "scan_inv img w h bg a ss y x \<longleftrightarrow> length img = w * h \<and> length a = w * h \<and>
     (\<forall>j<h. \<forall>i<w. if passed y x j i then painted bg ss i j = img ! (j * w + i)
        else (a ! (j * w + i) = img ! (j * w + i) \<and> painted bg ss i j = bg) \<or>
             (a ! (j * w + i) = bg \<and> painted bg ss i j = img ! (j * w + i)))"

lemma scan_init: "length img = w * h \<Longrightarrow> scan_inv img w h bg img [] 0 0"
  by (simp add: scan_inv_def passed_def)

lemma scan_skip:
  assumes "scan_inv img w h bg a ss y x" and "a ! (y * w + x) = bg"
  shows "scan_inv img w h bg a ss y (x + 1)"
  unfolding scan_inv_def
proof (intro conjI allI impI)
  fix j i assume ji: "j < h" "i < w"
  have inv: "if passed y x j i then painted bg ss i j = img ! (j * w + i)
        else (a ! (j * w + i) = img ! (j * w + i) \<and> painted bg ss i j = bg) \<or>
             (a ! (j * w + i) = bg \<and> painted bg ss i j = img ! (j * w + i))"
    using assms(1) ji unfolding scan_inv_def by blast
  have "passed y (x + 1) j i \<longleftrightarrow> passed y x j i \<or> (j = y \<and> i = x)" by (auto simp: passed_def)
  then show "if passed y (x + 1) j i then painted bg ss i j = img ! (j * w + i)
        else (a ! (j * w + i) = img ! (j * w + i) \<and> painted bg ss i j = bg) \<or>
             (a ! (j * w + i) = bg \<and> painted bg ss i j = img ! (j * w + i))"
    using inv assms(2) by (auto split: if_splits)
qed (use assms(1) in \<open>simp_all add: scan_inv_def\<close>)

lemma scan_take:
  assumes "scan_inv img w h bg a ss y x" and "uniform_rect a w h x y n m v" and "v \<noteq> bg"
  shows "scan_inv img w h bg (clear_below a w (y * w + x) n m bg)
     (\<lparr>s_x = x, s_y = y, s_w = n, s_h = m, s_pix = v\<rparr> # ss) y (x + n)"
  unfolding scan_inv_def
proof (intro conjI allI impI)
  let ?s = "\<lparr>s_x = x, s_y = y, s_w = n, s_h = m, s_pix = v\<rparr>"
  fix j i assume ji: "j < h" "i < w"
  have inv: "if passed y x j i then painted bg ss i j = img ! (j * w + i)
        else (a ! (j * w + i) = img ! (j * w + i) \<and> painted bg ss i j = bg) \<or>
             (a ! (j * w + i) = bg \<and> painted bg ss i j = img ! (j * w + i))"
    using assms(1) ji unfolding scan_inv_def by blast
  have u: "1 \<le> n" "x + n \<le> w" "y \<le> j \<Longrightarrow> j < y + m \<Longrightarrow> x \<le> i \<Longrightarrow> i < x + n \<Longrightarrow> a ! (j * w + i) = v" "1 \<le> m"
    using uniform_bounds [OF assms(2)] uniform_rectD [OF assms(2)] by blast+
  have la: "length a = w * h" using assms(1) by (simp add: scan_inv_def)
  note nth = nth_clear_below [OF eq_refl [OF la [symmetric]] ji(2,1) u(2), of y m bg]
  show "if passed y (x + n) j i then painted bg (?s # ss) i j = img ! (j * w + i)
        else (clear_below a w (y * w + x) n m bg ! (j * w + i) = img ! (j * w + i) \<and> painted bg (?s # ss) i j = bg) \<or>
             (clear_below a w (y * w + x) n m bg ! (j * w + i) = bg \<and> painted bg (?s # ss) i j = img ! (j * w + i))"
  proof (cases "covers ?s i j")
    case True
    then have c: "y \<le> j" "j < y + m" "x \<le> i" "i < x + n" by (simp_all add: covers_def)
    have np: "\<not> passed y x j i" using c by (auto simp: passed_def)
    have "a ! (j * w + i) = v" using u(3) c by blast
    then have "img ! (j * w + i) = v" using inv np assms(3) by auto
    then have p: "painted bg (?s # ss) i j = img ! (j * w + i)" using True by simp
    have "passed y (x + n) j i \<or> y < j" using c by (auto simp: passed_def)
    then show ?thesis using p nth c by auto
  next
    case False
    then have nc: "\<not> (y < j \<and> j < y + m \<and> x \<le> i \<and> i < x + n)" by (auto simp: covers_def)
    have "passed y (x + n) j i = passed y x j i" using False u(1,4) by (auto simp: passed_def covers_def)
    moreover have "clear_below a w (y * w + x) n m bg ! (j * w + i) = a ! (j * w + i)"
      unfolding nth using nc by (rule if_not_P)
    ultimately show ?thesis using inv False by simp
  qed
qed (use assms(1) in \<open>simp_all add: scan_inv_def\<close>)

lemma scan_row: "scan_inv img w h bg a ss y x \<Longrightarrow> w \<le> x \<Longrightarrow> scan_inv img w h bg a ss (y + 1) 0"
proof -
  assume i: "scan_inv img w h bg a ss y x" and x: "w \<le> x"
  have "passed (y + 1) 0 j i = passed y x j i" if "i < w" for j i using that x by (auto simp: passed_def)
  then show ?thesis using i unfolding scan_inv_def by simp
qed

lemma scan_done: "scan_inv img w h bg a ss h 0 \<Longrightarrow> i < w \<Longrightarrow> j < h \<Longrightarrow> painted bg ss i j = img ! (j * w + i)"
  by (simp add: scan_inv_def passed_def)

subsection \<open>The client's image\<close>

type_synonym 'p image = "int \<times> int \<Rightarrow> 'p"

definition fill_rect :: "'p image \<Rightarrow> Rect \<Rightarrow> 'p \<Rightarrow> 'p image" where
  "fill_rect img r p = (\<lambda>(x, y). if rect_contains r \<lparr>px = x, py = y\<rparr> then p else img (x, y))"

definition image_rect :: "'p image \<Rightarrow> Rect \<Rightarrow> 'p list \<Rightarrow> 'p image" where
  "image_rect img r ps = (\<lambda>(x, y). if rect_contains r \<lparr>px = x, py = y\<rparr>
     then ps ! (nat (y - py (r_tl r)) * nat (rect_width r) + nat (x - px (r_tl r))) else img (x, y))"

text \<open>The indices at which the subrectangles start ascend, and the image is not background there.\<close>

definition scan_starts :: "'p list \<Rightarrow> nat \<Rightarrow> 'p \<Rightarrow> 'p subrect list \<Rightarrow> nat \<Rightarrow> bool" where
  "scan_starts img w bg ss q \<longleftrightarrow> sorted_wrt (>) (map (\<lambda>s. s_y s * w + s_x s) ss) \<and>
     (\<forall>s \<in> set ss. s_y s * w + s_x s < q \<and> s_y s * w + s_x s < length img \<and> img ! (s_y s * w + s_x s) \<noteq> bg)"

lemma scan_starts_init: "scan_starts img w bg [] q"
  by (simp add: scan_starts_def)

lemma scan_starts_skip: "scan_starts img w bg ss q \<Longrightarrow> q \<le> q' \<Longrightarrow> scan_starts img w bg ss q'"
  unfolding scan_starts_def by (meson order_less_le_trans)

lemma scan_starts_take:
  assumes "scan_starts img w bg ss (y * w + x)" and "scan_inv img w h bg a ss y x" and "x < w" and "y < h"
    and "a ! (y * w + x) \<noteq> bg" and "1 \<le> n"
  shows "scan_starts img w bg (\<lparr>s_x = x, s_y = y, s_w = n, s_h = m, s_pix = v\<rparr> # ss) (y * w + (x + n))"
proof -
  have "\<not> passed y x y x" by (simp add: passed_def)
  moreover have "if passed y x y x then painted bg ss x y = img ! (y * w + x)
        else (a ! (y * w + x) = img ! (y * w + x) \<and> painted bg ss x y = bg) \<or>
             (a ! (y * w + x) = bg \<and> painted bg ss x y = img ! (y * w + x))"
    using assms(2,3,4) unfolding scan_inv_def by blast
  ultimately have "img ! (y * w + x) \<noteq> bg" using assms(5) by simp
  moreover have "y * w + x < length img" using index_less [OF assms(3,4)] assms(2) by (simp add: scan_inv_def)
  ultimately show ?thesis using assms(1,6) scan_starts_skip [OF assms(1), of "y * w + (x + n)"]
    by (auto simp: scan_starts_def)
qed

lemma descending_distinct: "sorted_wrt (>) (xs :: nat list) \<Longrightarrow> distinct xs"
  by (induction xs) auto

lemma scan_starts_few:
  assumes "scan_starts img w bg ss q"
  shows "length ss \<le> length (filter (\<lambda>p. p \<noteq> bg) img)"
proof -
  let ?q = "\<lambda>s. s_y s * w + s_x s"
  have "sorted_wrt (>) (map ?q ss)" using assms by (simp add: scan_starts_def)
  then have d: "distinct (map ?q ss)" by (rule descending_distinct)
  have "set (map ?q ss) \<subseteq> {i. i < length img \<and> img ! i \<noteq> bg}" using assms by (auto simp: scan_starts_def)
  then have "card (set (map ?q ss)) \<le> card {i. i < length img \<and> img ! i \<noteq> bg}" by (intro card_mono) simp_all
  then show ?thesis using distinct_card [OF d] by (simp add: length_filter_conv_card)
qed

text \<open>A subrectangle of the rectangle \<open>r\<close>, and filling a background and subrectangles one after the
  other.\<close>

definition place :: "Rect \<Rightarrow> 'p subrect \<Rightarrow> Rect" where
  "place r s = (let x0 = px (r_tl r) + int (s_x s); y0 = py (r_tl r) + int (s_y s)
                in mkRect x0 y0 (x0 + int (s_w s)) (y0 + int (s_h s)))"

definition fill_subrect :: "Rect \<Rightarrow> 'p image \<Rightarrow> 'p subrect \<Rightarrow> 'p image" where
  "fill_subrect r img s = fill_rect img (place r s) (s_pix s)"

definition inside :: "nat \<Rightarrow> nat \<Rightarrow> 'p subrect \<Rightarrow> bool" where
  "inside w h s \<longleftrightarrow> s_x s + s_w s \<le> w \<and> s_y s + s_h s \<le> h"

lemma rect_contains_place:
  "rect_contains (place r s) \<lparr>px = x, py = y\<rparr> \<longleftrightarrow>
   px (r_tl r) \<le> x \<and> py (r_tl r) \<le> y \<and> covers s (nat (x - px (r_tl r))) (nat (y - py (r_tl r)))"
  by (auto simp: rect_contains_def place_def mkRect_def covers_def Let_def)

lemma filled_painted:
  assumes "\<forall>s \<in> set ss. inside w h s" and "rect_width r = int w" and "rect_height r = int h"
  shows "foldr (\<lambda>s img. fill_subrect r img s) ss (fill_rect img r bg) (x, y) =
    (if rect_contains r \<lparr>px = x, py = y\<rparr> then painted bg ss (nat (x - px (r_tl r))) (nat (y - py (r_tl r)))
     else img (x, y))"
  using assms(1)
proof (induction ss)
  case Nil
  then show ?case by (simp add: fill_rect_def)
next
  case (Cons s ss)
  have "rect_contains r \<lparr>px = x, py = y\<rparr>" if "rect_contains (place r s) \<lparr>px = x, py = y\<rparr>"
    using that Cons.prems assms(2,3)
    by (auto simp: rect_contains_def place_def mkRect_def Let_def inside_def rect_width_def rect_height_def)
  then show ?case using Cons
    by (auto simp: fill_subrect_def fill_rect_def rect_contains_place) (auto simp: rect_contains_def)
qed

text \<open>A finished scan filled over a background is the image.\<close>

lemma filled_image:
  assumes "scan_inv img w h bg a ss h 0" and "\<forall>s \<in> set ss. inside w h s"
    and "rect_width r = int w" and "rect_height r = int h"
  shows "foldl (fill_subrect r) (fill_rect fb r bg) (rev ss) = image_rect fb r img"
proof (rule ext)
  fix p :: "int \<times> int"
  obtain x y where p: "p = (x, y)" by (cases p)
  have "painted bg ss (nat (x - px (r_tl r))) (nat (y - py (r_tl r))) =
      img ! (nat (y - py (r_tl r)) * nat (rect_width r) + nat (x - px (r_tl r)))"
    if "rect_contains r \<lparr>px = x, py = y\<rparr>"
    using that assms(3,4)
    by (subst scan_done [OF assms(1)]) (auto simp: rect_contains_def rect_width_def rect_height_def)
  then show "foldl (fill_subrect r) (fill_rect fb r bg) (rev ss) p = image_rect fb r img p"
    using filled_painted [OF assms(2-4), of fb bg x y] by (simp add: p foldl_conv_foldr image_rect_def)
qed

text \<open>The same fills in an array of pixels of the rectangle.\<close>

definition fill_sub :: "nat \<Rightarrow> 'p list \<Rightarrow> 'p subrect \<Rightarrow> 'p list" where
  "fill_sub w a s = fill_rows a (s_y s * w + s_x s) (s_w s) w (s_h s) (s_pix s)"

lemma filled_array:
  assumes "\<forall>s \<in> set ss. inside w h s" and "w * h \<le> length a" and "i < w" and "j < h"
    and "a ! (j * w + i) = bg"
  shows "length (foldr (\<lambda>s a. fill_sub w a s) ss a) = length a \<and>
    foldr (\<lambda>s a. fill_sub w a s) ss a ! (j * w + i) = painted bg ss i j"
  using assms(1)
proof (induction ss)
  case (Cons s ss)
  then have IH: "length (foldr (\<lambda>s a. fill_sub w a s) ss a) = length a"
    "foldr (\<lambda>s a. fill_sub w a s) ss a ! (j * w + i) = painted bg ss i j" by simp_all
  have "s_x s + s_w s \<le> w" using Cons.prems by (simp add: inside_def)
  from nth_fill_rows [of w h "foldr (\<lambda>s a. fill_sub w a s) ss a", OF _ assms(3,4) this]
  show ?case using IH assms(2) by (auto simp: fill_sub_def covers_def)
qed (simp add: assms(5))

lemma image_rect_cong:
  assumes "rect_width r = int w" and "rect_height r = int h"
    and "\<And>i j. i < w \<Longrightarrow> j < h \<Longrightarrow> ps ! (j * w + i) = ps' ! (j * w + i)"
  shows "image_rect fb r ps = image_rect fb r ps'"
proof (rule ext)
  fix p :: "int \<times> int"
  obtain x y where p: "p = (x, y)" by (cases p)
  show "image_rect fb r ps p = image_rect fb r ps' p"
  proof (cases "rect_contains r \<lparr>px = x, py = y\<rparr>")
    case True
    then have "nat (x - px (r_tl r)) < w" "nat (y - py (r_tl r)) < h"
      using assms(1,2) by (auto simp: rect_contains_def rect_width_def rect_height_def)
    then show ?thesis using assms(1,3) by (simp add: image_rect_def p)
  qed (simp add: image_rect_def p)
qed

end
