(* ===== verification/Rfb_RRE.thy ===== *)
theory Rfb_RRE
  imports Rfb_Subrect
begin

text \<open>
  The RRE encoding: \<open>common/rfb/rreEncode.h\<close>, \<open>RREEncoder.cxx\<close> and \<open>rreDecode.h\<close>. The encoder works on
  an array of pixels, which it clears as it goes, and gives up when its output exceeds \<open>w * h\<close> bytes; its
  output stream, a \<open>MemOutStream\<close>, is the list of the bytes written. One text of the code serves the
  three pixel widths, here through the pixel writer \<open>wp\<close> and reader \<open>rp\<close>.
\<close>

subsection \<open>The background colour\<close>

text \<open>\<open>count\<close> and \<open>pix\<close> as one list of pairs; \<open>None\<close> when all slots hold other colours.\<close>

fun note_colour :: "'p \<Rightarrow> (nat \<times> 'p) list \<Rightarrow> (nat \<times> 'p) list option" where
  "note_colour p [] = None"
| "note_colour p ((count, pix) # cols) =
     (let pix = (if count = 0 then p else pix)
      in if pix = p then Some ((count + 1, pix) # cols)
         else map_option ((#) (count, pix)) (note_colour p cols))"

fun count_colours :: "'p list \<Rightarrow> (nat \<times> 'p) list \<Rightarrow> (nat \<times> 'p) list" where
  "count_colours [] cols = cols"
| "count_colours (p # ps) cols =
     (case note_colour p cols of None \<Rightarrow> cols | Some cols \<Rightarrow> count_colours ps cols)"

text \<open>The colour counted most often, the first of them; \<open>d\<close> is what the array holds before it is set.\<close>

definition rre_background :: "'p \<Rightarrow> 'p list \<Rightarrow> 'p" where
  "rre_background d data =
     (let cols = count_colours data (replicate 4 (0, d))
      in snd (foldl (\<lambda>best col. if fst col > fst best then col else best) (hd cols) (tl cols)))"

subsection \<open>The encoder\<close>

text \<open>The size of the next subrectangle: the horizontal one, or the vertical one when that is bigger.\<close>

definition vert_height :: "'p list \<Rightarrow> nat \<Rightarrow> nat \<Rightarrow> nat \<Rightarrow> nat \<Rightarrow> nat \<Rightarrow> nat" where
  "vert_height a w h p y m = first_fail (\<lambda>j. a ! (p + j * w) = a ! p) m (h - y)"

definition vert_width :: "'p list \<Rightarrow> nat \<Rightarrow> nat \<Rightarrow> nat \<Rightarrow> nat \<Rightarrow> nat" where
  "vert_width a w p vh n =
     first_fail (\<lambda>k. first_fail (\<lambda>i. a ! (p + k + i * w) = a ! p) 0 vh = vh) 1 n"

definition rre_subrect :: "'p list \<Rightarrow> nat \<Rightarrow> nat \<Rightarrow> nat \<Rightarrow> nat \<Rightarrow> nat \<times> nat" where
  "rre_subrect a w h x y =
     (let p = y * w + x;
          n = horiz_width a w p x;
          m = horiz_height a w h p y n;
          vh = vert_height a w h p y m
      in if vh \<noteq> m
         then let vw = vert_width a w p vh n
              in if n * m < vw * vh then (vw, vh) else (n, m)
         else (n, m))"

definition e_subrect :: "('p \<Rightarrow> u8 list) \<Rightarrow> 'p subrect \<Rightarrow> u8 list" where
  "e_subrect wp s = wp (s_pix s) @ e_U16 (of_nat (s_x s)) @ e_U16 (of_nat (s_y s)) @
                    e_U16 (of_nat (s_w s)) @ e_U16 (of_nat (s_h s))"

lemma rre_subrect_pos: "1 \<le> fst (rre_subrect a w h x y)"
  by (simp add: rre_subrect_def Let_def horiz_width_def vert_width_def first_fail_ge)

text \<open>The loop over a row; \<open>None\<close> is the return value -1.\<close>

function rre_row :: "('p \<Rightarrow> u8 list) \<Rightarrow> 'p \<Rightarrow> nat \<Rightarrow> nat \<Rightarrow> nat \<Rightarrow> nat \<Rightarrow> nat \<Rightarrow> 'p list \<Rightarrow> nat \<Rightarrow> u8 list \<Rightarrow>
    ('p list \<times> nat \<times> u8 list) option" where
  "rre_row wp bg w h limit y x a nSubrects os =
     (if x < w
      then if a ! (y * w + x) = bg then rre_row wp bg w h limit y (x + 1) a nSubrects os
           else let (n, m) = rre_subrect a w h x y;
                    os = os @ e_subrect wp \<lparr>s_x = x, s_y = y, s_w = n, s_h = m, s_pix = a ! (y * w + x)\<rparr>
                in if length os > limit then None
                   else rre_row wp bg w h limit y (x + n) (clear_below a w (y * w + x) n m bg) (nSubrects + 1) os
      else Some (a, nSubrects, os))"
  by pat_completeness auto

termination
proof (relation "measure (\<lambda>(wp, bg, w, h, limit, y, x, _). w - x)", goal_cases)
  case (3 wp bg w h limit y x a nSubrects os s n m)
  from 3(3,4) have "1 \<le> n" using rre_subrect_pos [of a w h x y] by (metis fst_conv)
  then show ?case using 3(1) by simp
qed simp_all

declare rre_row.simps [simp del]

function rre_rows :: "('p \<Rightarrow> u8 list) \<Rightarrow> 'p \<Rightarrow> nat \<Rightarrow> nat \<Rightarrow> nat \<Rightarrow> nat \<Rightarrow> 'p list \<Rightarrow> nat \<Rightarrow> u8 list \<Rightarrow> (nat \<times> u8 list) option" where
  "rre_rows wp bg w h limit y a nSubrects os =
     (if y < h
      then case rre_row wp bg w h limit y 0 a nSubrects os of
             None \<Rightarrow> None
           | Some (a, nSubrects, os) \<Rightarrow> rre_rows wp bg w h limit (y + 1) a nSubrects os
      else Some (nSubrects, os))"
  by pat_completeness auto

termination
  by (relation "measure (\<lambda>(wp, bg, w, h, limit, y, _). h - y)") auto

declare rre_rows.simps [simp del]

definition rreEncode_bg :: "('p \<Rightarrow> u8 list) \<Rightarrow> 'p list \<Rightarrow> nat \<Rightarrow> nat \<Rightarrow> u8 list \<Rightarrow> 'p \<Rightarrow> (nat \<times> u8 list) option" where
  "rreEncode_bg wp data w h os bg = rre_rows wp bg w h (length os + w * h) 0 data 0 (os @ wp bg)"

definition rreEncode :: "('p \<Rightarrow> u8 list) \<Rightarrow> 'p \<Rightarrow> 'p list \<Rightarrow> nat \<Rightarrow> nat \<Rightarrow> u8 list \<Rightarrow> (nat \<times> u8 list) option" where
  "rreEncode wp d data w h os = rreEncode_bg wp data w h os (rre_background d data)"

text \<open>\<open>RREEncoder::writeRect\<close>: the bytes after the rectangle's header, or \<open>None\<close> when the rectangle is
  sent raw instead.\<close>

definition rre_writeRect :: "('p \<Rightarrow> u8 list) \<Rightarrow> 'p \<Rightarrow> 'p list \<Rightarrow> nat \<Rightarrow> nat \<Rightarrow> u8 list option" where
  "rre_writeRect wp d data w h =
     (case rreEncode wp d data w h [] of
        None \<Rightarrow> None
      | Some (nSubrects, mos) \<Rightarrow> Some (e_U32 (of_nat nSubrects) @ mos))"

subsection \<open>The decoder\<close>

fun rre_subrects :: "'p parser \<Rightarrow> Rect \<Rightarrow> nat \<Rightarrow> 'p image \<Rightarrow> u8 list \<Rightarrow> rdr_error + ('p image \<times> u8 list)" where
  "rre_subrects rp r 0 img bs = Inr (img, bs)"
| "rre_subrects rp r (Suc n) img bs =
     andthen (rp bs) (\<lambda>(pix, bs).
     andthen (p_U16 bs) (\<lambda>(x, bs).
     andthen (p_U16 bs) (\<lambda>(y, bs).
     andthen (p_U16 bs) (\<lambda>(w, bs).
     andthen (p_U16 bs) (\<lambda>(h, bs).
       let x0 = px (r_tl r) + uint x; y0 = py (r_tl r) + uint y
       in rre_subrects rp r n (fill_rect img (mkRect x0 y0 (x0 + uint w) (y0 + uint h)) pix) bs)))))"

definition rreDecode :: "'p parser \<Rightarrow> Rect \<Rightarrow> 'p image \<Rightarrow> u8 list \<Rightarrow> rdr_error + ('p image \<times> u8 list)" where
  "rreDecode rp r img bs =
     andthen (p_U32 bs) (\<lambda>(n, bs).
     andthen (rp bs) (\<lambda>(bg, bs).
       rre_subrects rp r (nat (sint n)) (fill_rect img r bg) bs))"

subsection \<open>The subrectangles are uniform\<close>

lemma rre_subrect_uniform:
  assumes xy: "x < w" "y < h"
  shows "case rre_subrect a w h x y of (n, m) \<Rightarrow> uniform_rect a w h x y n m (a ! (y * w + x))"
proof -
  let ?p = "y * w + x" and ?v = "a ! (y * w + x)"
  define n where "n = horiz_width a w ?p x"
  define m where "m = horiz_height a w h ?p y n"
  define vh where "vh = vert_height a w h ?p y m"
  define vw where "vw = vert_width a w ?p vh n"
  have hz: "uniform_rect a w h x y n m ?v" using horiz_uniform [OF xy] by (simp add: n_def m_def)
  note nm = uniform_bounds [OF hz]
  have vh: "m \<le> vh" by (simp add: vh_def vert_height_def first_fail_ge)
  have "vh \<le> h - y" unfolding vh_def vert_height_def by (rule first_fail_le) (use nm in simp)
  then have vhh: "y + vh \<le> h" using xy by simp
  have vw: "1 \<le> vw" by (simp add: vw_def vert_width_def first_fail_ge)
  have vwn: "vw \<le> n" unfolding vw_def vert_width_def by (rule first_fail_le) (rule nm)
  have col0: "a ! (?p + j * w) = ?v" if "j < vh" for j
  proof (cases "j < m")
    case True
    then have "a ! ((y + j) * w + x) = ?v" using nm by (intro uniform_rectD [OF hz]) simp_all
    then show ?thesis by (simp add: algebra_simps)
  next
    case False
    then show ?thesis
      using that first_fail_holds [of m j "\<lambda>j. a ! (?p + j * w) = ?v" "h - y"] by (simp add: vh_def vert_height_def)
  qed
  have vt: "uniform_rect a w h x y vw vh ?v"
  proof (rule uniform_rectI)
    show "1 \<le> vh" "x + vw \<le> w" using vh nm vwn by linarith+
    show "1 \<le> vw" "y + vh \<le> h" by (rule vw, rule vhh)
    fix j i assume ji: "j < vh" "i < vw"
    show "a ! (?p + j * w + i) = ?v"
    proof (cases "i = 0")
      case True
      then show ?thesis using col0 [OF ji(1)] by simp
    next
      case False
      then have "first_fail (\<lambda>j. a ! (?p + i + j * w) = ?v) 0 vh = vh"
        using ji(2) first_fail_holds [of 1 i "\<lambda>k. first_fail (\<lambda>i. a ! (?p + k + i * w) = ?v) 0 vh = vh" n]
        by (simp add: vw_def vert_width_def)
      then have "a ! (?p + i + j * w) = ?v"
        using ji(1) first_fail_holds [of 0 j "\<lambda>j. a ! (?p + i + j * w) = ?v" vh] by simp
      then show ?thesis by (simp add: algebra_simps)
    qed
  qed
  show ?thesis using hz vt unfolding rre_subrect_def Let_def n_def [symmetric] m_def [symmetric] vh_def [symmetric]
      vw_def [symmetric] by simp
qed

text \<open>The subrectangles a part of the scan emits, the newest first, lie inside the array.\<close>

definition emitted :: "('p \<Rightarrow> u8 list) \<Rightarrow> nat \<Rightarrow> nat \<Rightarrow> nat \<Rightarrow> 'p subrect list \<Rightarrow> nat \<Rightarrow> u8 list \<Rightarrow> nat \<Rightarrow> u8 list \<Rightarrow> bool" where
  "emitted wp w h limit ss n os n' os' \<longleftrightarrow>
     n' = n + length ss \<and> os' = os @ concat (map (e_subrect wp) (rev ss)) \<and> (\<forall>s \<in> set ss. inside w h s) \<and>
     (ss \<noteq> [] \<longrightarrow> length os' \<le> limit)"

lemma emitted_none: "emitted wp w h limit [] n os n os"
  by (simp add: emitted_def)

lemma emitted_more:
  "emitted wp w h limit ss (n + 1) (os @ e_subrect wp s) n' os' \<Longrightarrow> inside w h s \<Longrightarrow>
   length (os @ e_subrect wp s) \<le> limit \<Longrightarrow> emitted wp w h limit (ss @ [s]) n os n' os'"
  by (cases ss) (auto simp: emitted_def)

lemma emitted_trans:
  "emitted wp w h limit ss1 n os n1 os1 \<Longrightarrow> emitted wp w h limit ss2 n1 os1 n2 os2 \<Longrightarrow>
   emitted wp w h limit (ss2 @ ss1) n os n2 os2"
  by (cases ss2) (auto simp: emitted_def)

lemma rre_row_emits:
  assumes "rre_row wp bg w h limit y x a n os = Some (a', n', os')" and "scan_inv img w h bg a ss y x" and "y < h"
    and "x \<le> w"
  shows "\<exists>ss'. emitted wp w h limit ss' n os n' os' \<and> scan_inv img w h bg a' (ss' @ ss) y w"
  using assms(1,2,4)
proof (induction "w - x" arbitrary: x a n os ss rule: less_induct)
  case less
  show ?case
  proof (cases "x < w")
    case False
    then have "rre_row wp bg w h limit y x a n os = Some (a, n, os)" by (subst rre_row.simps) simp
    then have "a' = a" "n' = n" "os' = os" and "x = w" using less.prems False by simp_all
    then show ?thesis using less.prems(2) emitted_none by (intro exI [of _ "[]"]) simp
  next
    case x: True
    show ?thesis
    proof (cases "a ! (y * w + x) = bg")
      case True
      have "rre_row wp bg w h limit y (x + 1) a n os = Some (a', n', os')"
        using less.prems(1) x True by (simp add: rre_row.simps [of _ _ _ _ _ _ x])
      moreover have "scan_inv img w h bg a ss y (x + 1)" by (rule scan_skip [OF less.prems(2) True])
      ultimately show ?thesis using less.hyps [of "x + 1"] x by simp
    next
      case False
      obtain n1 m1 where nm: "rre_subrect a w h x y = (n1, m1)" by (cases "rre_subrect a w h x y") simp
      let ?v = "a ! (y * w + x)" and ?a = "clear_below a w (y * w + x) n1 m1 bg"
      let ?s = "\<lparr>s_x = x, s_y = y, s_w = n1, s_h = m1, s_pix = ?v\<rparr>"
      have u: "uniform_rect a w h x y n1 m1 ?v" using rre_subrect_uniform [OF x assms(3), of a] nm by simp
      have r: "rre_row wp bg w h limit y (x + n1) ?a (n + 1) (os @ e_subrect wp ?s) = Some (a', n', os')"
        and l: "length (os @ e_subrect wp ?s) \<le> limit"
        using less.prems(1) x False nm by (simp_all add: rre_row.simps [of _ _ _ _ _ _ x] Let_def split: if_splits)
      have inv: "scan_inv img w h bg ?a (?s # ss) y (x + n1)" by (rule scan_take [OF less.prems(2) u False])
      note b = uniform_bounds(1,3,4) [OF u]
      have less_x: "w - (x + n1) < w - x" using b(1) x by simp
      obtain ss' where ss': "emitted wp w h limit ss' (n + 1) (os @ e_subrect wp ?s) n' os'"
        "scan_inv img w h bg a' (ss' @ ?s # ss) y w"
        using less.hyps [of "x + n1", OF _ r inv b(2)] less_x by blast
      have "inside w h ?s" using b by (simp add: inside_def)
      then have "emitted wp w h limit (ss' @ [?s]) n os n' os'" by (rule emitted_more [OF ss'(1) _ l])
      then show ?thesis using ss'(2) by (intro exI [of _ "ss' @ [?s]"]) simp
    qed
  qed
qed

lemma rre_rows_emits:
  assumes "rre_rows wp bg w h limit y a n os = Some (n', os')" and "scan_inv img w h bg a ss y 0" and "y \<le> h"
  shows "\<exists>a' ss'. emitted wp w h limit ss' n os n' os' \<and> scan_inv img w h bg a' (ss' @ ss) h 0"
  using assms
proof (induction "h - y" arbitrary: y a n os ss rule: less_induct)
  case less
  show ?case
  proof (cases "y < h")
    case False
    then have "rre_rows wp bg w h limit y a n os = Some (n, os)" by (subst rre_rows.simps) simp
    then have "n' = n" "os' = os" "y = h" using less.prems False by simp_all
    then show ?thesis using less.prems(2) emitted_none by (intro exI [of _ a] exI [of _ "[]"]) simp
  next
    case True
    obtain a1 n1 os1 where r: "rre_row wp bg w h limit y 0 a n os = Some (a1, n1, os1)"
      "rre_rows wp bg w h limit (y + 1) a1 n1 os1 = Some (n', os')"
      using less.prems(1) True by (auto simp: rre_rows.simps [of _ _ _ _ _ y] split: option.splits)
    obtain ss1 where ss1: "emitted wp w h limit ss1 n os n1 os1" "scan_inv img w h bg a1 (ss1 @ ss) y w"
      using rre_row_emits [OF r(1) less.prems(2) True] by auto
    have inv: "scan_inv img w h bg a1 (ss1 @ ss) (y + 1) 0" by (rule scan_row [OF ss1(2)]) simp
    have less_y: "h - (y + 1) < h - y" using True by simp
    obtain a' ss' where "emitted wp w h limit ss' n1 os1 n' os'" "scan_inv img w h bg a' (ss' @ ss1 @ ss) h 0"
      using less.hyps [of "y + 1", OF less_y r(2) inv] True by auto
    then show ?thesis using emitted_trans [OF ss1(1)] by (intro exI [of _ a'] exI [of _ "ss' @ ss1"]) auto
  qed
qed

subsection \<open>Decoding what was encoded\<close>

lemma uint_u16: "n < 65536 \<Longrightarrow> uint (of_nat n :: u16) = int n"
  by (simp add: uint_nat unat_of_nat)

context pixel_io begin

lemma rre_subrects_decodes:
  assumes "\<forall>s \<in> set ts. inside w h s" and "w < 65536" and "h < 65536"
  shows "rre_subrects rp r (length ts) img (concat (map (e_subrect wp) ts) @ bs) = Inr (foldl (fill_subrect r) img ts, bs)"
  using assms(1)
proof (induction ts arbitrary: img)
  case (Cons s ts)
  then have "s_x s < 65536" "s_y s < 65536" "s_w s < 65536" "s_h s < 65536"
    using assms(2,3) by (auto simp: inside_def)
  then show ?case using Cons
    by (simp add: e_subrect_def read_written uint_u16 Let_def fill_subrect_def place_def)
qed simp

lemma length_e_subrect: "length (e_subrect wp s) = bytes + 8"
  by (simp add: e_subrect_def length_wp e_U16_def)

lemma length_e_subrects: "length (concat (map (e_subrect wp) ts)) = length ts * (bytes + 8)"
  by (induction ts) (simp_all add: length_e_subrect)

lemma rre_roundtrip:
  assumes "length data = w * h" and "w < 65536" and "h < 65536"
    and "rect_width r = int w" and "rect_height r = int h" and "rre_writeRect wp d data w h = Some bs"
  shows "rreDecode rp r fb (bs @ rest) = Inr (image_rect fb r data, rest)"
proof -
  define bg where "bg = rre_background d data"
  obtain n os where e: "rre_rows wp bg w h (w * h) 0 data 0 (wp bg) = Some (n, os)" and bs: "bs = e_U32 (of_nat n) @ os"
    using assms(6) by (auto simp: rre_writeRect_def rreEncode_def rreEncode_bg_def bg_def split: option.splits)
  obtain a ss where ss: "emitted wp w h (w * h) ss 0 (wp bg) n os" and inv: "scan_inv data w h bg a ss h 0"
    using rre_rows_emits [OF e scan_init [OF assms(1)]] by auto
  have n: "n = length ss" and os: "os = wp bg @ concat (map (e_subrect wp) (rev ss))"
    and ins: "\<forall>s \<in> set ss. inside w h s" and lim: "ss \<noteq> [] \<Longrightarrow> length os \<le> w * h"
    using ss by (auto simp: emitted_def)
  have "n < 2147483648"
  proof (cases "ss = []")
    case False
    have "w * h \<le> 65535 * 65535" using assms(2,3) by (intro mult_le_mono) simp_all
    moreover have "length os = bytes + n * (bytes + 8)"
      unfolding os n using length_e_subrects [of "rev ss"] by (simp add: length_wp)
    moreover have "n * 8 \<le> n * (bytes + 8)" by simp
    ultimately show ?thesis using lim [OF False] by linarith
  qed (simp add: n)
  then have n32: "nat (sint (of_nat n :: u32)) = n"
    using sint_u16_u32(2) [of "int n"] by simp
  have "rreDecode rp r fb (bs @ rest) = Inr (foldl (fill_subrect r) (fill_rect fb r bg) (rev ss), rest)"
    using rre_subrects_decodes [of "rev ss", OF _ assms(2,3)] ins
    by (simp add: rreDecode_def bs os read_written n32 [unfolded n] n)
  then show ?thesis unfolding filled_image [OF inv ins assms(4,5)] .
qed

end

subsection \<open>The contract\<close>

text \<open>
  C19: RRE is lossless: whenever \<open>RREEncoder::writeRect\<close> encodes a rectangle at all (and does not
  fall back to raw), \<open>rreDecode\<close> consumes exactly the bytes written and leaves the client with the
  encoder's pixels in the rectangle and its own outside; for the pixels of 8, 16 and 32 bits.
\<close>

theorem rre_lossless:
  assumes "w < 65536" and "h < 65536" and "rect_width r = int w" and "rect_height r = int h"
  shows "(length data8 = w * h \<and> rre_writeRect wp8 d8 data8 w h = Some bs8 \<longrightarrow>
            rreDecode p_U8 r fb8 (bs8 @ rest) = Inr (image_rect fb8 r data8, rest)) \<and>
         (length data16 = w * h \<and> rre_writeRect wp16 d16 data16 w h = Some bs16 \<longrightarrow>
            rreDecode p_Opaque16 r fb16 (bs16 @ rest) = Inr (image_rect fb16 r data16, rest)) \<and>
         (length data32 = w * h \<and> rre_writeRect wp32 d32 data32 w h = Some bs32 \<longrightarrow>
            rreDecode p_Opaque32 r fb32 (bs32 @ rest) = Inr (image_rect fb32 r data32, rest))"
  using px8.rre_roundtrip [OF _ assms] px16.rre_roundtrip [OF _ assms] px32.rre_roundtrip [OF _ assms] by blast

theorem rre_lossless_witness:
  "rre_writeRect wp8 0 [1, 1, 1, 1, 1, 2, 2, 1, 1, 2, 2, 1] 4 3 = Some [0, 0, 0, 1, 1, 2, 0, 1, 0, 1, 0, 2, 0, 2] \<and>
   rreDecode p_U8 (mkRect 10 20 14 23) (\<lambda>_. 0) ([0, 0, 0, 1, 1, 2, 0, 1, 0, 1, 0, 2, 0, 2] @ [7]) =
     Inr (image_rect (\<lambda>_. 0) (mkRect 10 20 14 23) [1, 1, 1, 1, 1, 2, 2, 1, 1, 2, 2, 1], [7])"
proof -
  have e: "rre_writeRect wp8 0 [1, 1, 1, 1, 1, 2, 2, 1, 1, 2, 2, 1] 4 3 = Some [0, 0, 0, 1, 1, 2, 0, 1, 0, 1, 0, 2, 0, 2]"
    by code_simp
  show ?thesis
    using e rre_lossless [of 4 3 "mkRect 10 20 14 23" "[1, 1, 1, 1, 1, 2, 2, 1, 1, 2, 2, 1]" 0
        "[0, 0, 0, 1, 1, 2, 0, 1, 0, 1, 0, 2, 0, 2]" "\<lambda>_. 0" "[7]"]
    by (simp add: rect_width_def rect_height_def mkRect_def)
qed

end
