(* ===== verification/Rfb_Hextile.thy ===== *)
theory Rfb_Hextile
  imports Rfb_Subrect
begin

text \<open>
  The hextile encoding: \<open>common/rfb/hextileConstants.h\<close>, \<open>hextileEncode.h\<close> and \<open>hextileDecode.h\<close>. A
  rectangle is cut into tiles of 16 by 16 pixels; the background and foreground colours are remembered
  from tile to tile on both sides, and the theorems show that the two memories agree where it matters.
\<close>

unbundle bit_operations_syntax

definition hextileRaw :: u8 where "hextileRaw = push_bit 0 1"
definition hextileBgSpecified :: u8 where "hextileBgSpecified = push_bit 1 1"
definition hextileFgSpecified :: u8 where "hextileFgSpecified = push_bit 2 1"
definition hextileAnySubrects :: u8 where "hextileAnySubrects = push_bit 3 1"
definition hextileSubrectsColoured :: u8 where "hextileSubrectsColoured = push_bit 4 1"

lemmas hextile_flags = hextileRaw_def hextileBgSpecified_def hextileFgSpecified_def hextileAnySubrects_def
  hextileSubrectsColoured_def

subsection \<open>The tiles of a rectangle\<close>

text \<open>The two \<open>for\<close> loops over the tiles: the intervals \<open>t.tl.x .. t.br.x\<close>, then the rectangles \<open>t\<close>.\<close>

function tile_spans :: "int \<Rightarrow> int \<Rightarrow> (int \<times> int) list" where
  "tile_spans z br = (if z < br then (z, min br (z + 16)) # tile_spans (z + 16) br else [])"
  by pat_completeness auto

termination
  by (relation "measure (\<lambda>(z, br). nat (br - z))") auto

declare tile_spans.simps [simp del]

definition tiles :: "Rect \<Rightarrow> Rect list" where
  "tiles r = concat (map (\<lambda>(y1, y2). map (\<lambda>(x1, x2). mkRect x1 y1 x2 y2)
     (tile_spans (px (r_tl r)) (px (r_br r)))) (tile_spans (py (r_tl r)) (py (r_br r))))"

subsection \<open>The encoder\<close>

text \<open>
  \<open>TEST_TILE_TYPE\<close>: the tile type with the background and foreground it stores; \<open>fg\<close> is what the
  caller's variable holds before. The loop counts two colours up to the first third one.
\<close>

fun count_two :: "'p \<Rightarrow> 'p \<Rightarrow> 'p list \<Rightarrow> nat \<Rightarrow> nat \<Rightarrow> nat \<times> nat \<times> bool" where
  "count_two pix1 pix2 [] count1 count2 = (count1, count2, False)"
| "count_two pix1 pix2 (p # ps) count1 count2 =
     (if p = pix1 then count_two pix1 pix2 ps (count1 + 1) count2
      else if p = pix2 then count_two pix1 pix2 ps count1 (count2 + 1)
      else (count1, count2, True))"

definition hextileTestTileType :: "'p list \<Rightarrow> nat \<Rightarrow> nat \<Rightarrow> 'p \<Rightarrow> u8 \<times> 'p \<times> 'p" where
  "hextileTestTileType data w h fg =
     (let pix1 = data ! 0;
          k = first_fail (\<lambda>i. data ! i = pix1) 1 (w * h)
      in if k = w * h then (0, pix1, fg)
         else let pix2 = data ! k;
                  (count1, count2, more) = count_two pix1 pix2 (drop (k + 1) data) k 1;
                  tileType = (if more then hextileAnySubrects OR hextileSubrectsColoured else hextileAnySubrects)
              in if count1 \<ge> count2 then (tileType, pix1, pix2) else (tileType, pix2, pix1))"

text \<open>
  \<open>HEXTILE_ENCODE_TILE\<close>: \<open>nSubrects\<close> is the byte the buffer starts with, \<open>enc\<close> what follows it;
  \<open>None\<close> is the return value -1, before anything is written past \<open>w * h\<close> pixels' worth of bytes.
\<close>

definition e_sub :: "nat \<Rightarrow> nat \<Rightarrow> nat \<Rightarrow> nat \<Rightarrow> u8 list" where
  "e_sub x y n m = [push_bit 4 (of_nat x) OR of_nat y, push_bit 4 (of_nat (n - 1)) OR of_nat (m - 1)]"

definition emit_sub :: "('p \<Rightarrow> u8 list) \<Rightarrow> nat \<Rightarrow> bool \<Rightarrow> nat \<Rightarrow> nat \<Rightarrow> 'p subrect \<Rightarrow> u8 list \<Rightarrow> u8 list option" where
  "emit_sub wp bytes coloured w h s enc =
     (if coloured \<and> 1 + length enc + bytes > w * h * bytes then None
      else let enc = (if coloured then enc @ wp (s_pix s) else enc)
           in if 1 + length enc + 2 > w * h * bytes then None
              else Some (enc @ e_sub (s_x s) (s_y s) (s_w s) (s_h s)))"

function hextile_row :: "('p \<Rightarrow> u8 list) \<Rightarrow> nat \<Rightarrow> bool \<Rightarrow> 'p \<Rightarrow> nat \<Rightarrow> nat \<Rightarrow> nat \<Rightarrow> nat \<Rightarrow> 'p list \<Rightarrow> u8 \<Rightarrow> u8 list \<Rightarrow>
    ('p list \<times> u8 \<times> u8 list) option" where
  "hextile_row wp bytes coloured bg w h y x a nSubrects enc =
     (if x < w
      then if a ! (y * w + x) = bg then hextile_row wp bytes coloured bg w h y (x + 1) a nSubrects enc
           else let p = y * w + x;
                    n = horiz_width a w p x;
                    m = horiz_height a w h p y n
                in case emit_sub wp bytes coloured w h \<lparr>s_x = x, s_y = y, s_w = n, s_h = m, s_pix = a ! p\<rparr> enc of
                     None \<Rightarrow> None
                   | Some enc \<Rightarrow> hextile_row wp bytes coloured bg w h y (x + n) (clear_below a w p n m bg) (nSubrects + 1) enc
      else Some (a, nSubrects, enc))"
  by pat_completeness auto

termination
proof (relation "measure (\<lambda>(wp, bytes, coloured, bg, w, h, y, x, _). w - x)", goal_cases)
  case (3 wp bytes coloured bg w h y x a nSubrects enc p n m enc')
  have "1 \<le> n" using 3(4) by (simp add: horiz_width_def first_fail_ge)
  then show ?case using 3(1) by simp
qed simp_all

declare hextile_row.simps [simp del]

function hextile_rows :: "('p \<Rightarrow> u8 list) \<Rightarrow> nat \<Rightarrow> bool \<Rightarrow> 'p \<Rightarrow> nat \<Rightarrow> nat \<Rightarrow> nat \<Rightarrow> 'p list \<Rightarrow> u8 \<Rightarrow> u8 list \<Rightarrow> u8 list option" where
  "hextile_rows wp bytes coloured bg w h y a nSubrects enc =
     (if y < h
      then case hextile_row wp bytes coloured bg w h y 0 a nSubrects enc of
             None \<Rightarrow> None
           | Some (a, nSubrects, enc) \<Rightarrow> hextile_rows wp bytes coloured bg w h (y + 1) a nSubrects enc
      else Some (nSubrects # enc))"
  by pat_completeness auto

termination
  by (relation "measure (\<lambda>(wp, bytes, coloured, bg, w, h, y, _). h - y)") auto

declare hextile_rows.simps [simp del]

definition hextileEncodeTile :: "('p \<Rightarrow> u8 list) \<Rightarrow> nat \<Rightarrow> 'p list \<Rightarrow> nat \<Rightarrow> nat \<Rightarrow> u8 \<Rightarrow> 'p \<Rightarrow> u8 list option" where
  "hextileEncodeTile wp bytes data w h tileType bg =
     hextile_rows wp bytes (tileType AND hextileSubrectsColoured \<noteq> 0) bg w h 0 data 0 []"

text \<open>The colours the encoder remembers, and its handling of one tile.\<close>

record 'p hextile_enc =
  oldBg :: 'p
  oldFg :: 'p
  oldBgValid :: bool
  oldFgValid :: bool

definition hextile_tile :: "('p \<Rightarrow> u8 list) \<Rightarrow> nat \<Rightarrow> 'p list \<Rightarrow> nat \<Rightarrow> nat \<Rightarrow> 'p \<Rightarrow> 'p hextile_enc \<Rightarrow> u8 list \<times> 'p hextile_enc" where
  "hextile_tile wp bytes buf w h d st =
     (let (tileType, bg, fg) = hextileTestTileType buf w h d;
          (tileType, st) = (if \<not> oldBgValid st \<or> oldBg st \<noteq> bg
                            then (tileType OR hextileBgSpecified, st\<lparr>oldBg := bg, oldBgValid := True\<rparr>)
                            else (tileType, st));
          header = (\<lambda>tileType. tileType # (if tileType AND hextileBgSpecified \<noteq> 0 then wp bg else []) @
                                         (if tileType AND hextileFgSpecified \<noteq> 0 then wp fg else []))
      in if tileType AND hextileAnySubrects \<noteq> 0
         then let (tileType, st) =
                    (if tileType AND hextileSubrectsColoured \<noteq> 0 then (tileType, st\<lparr>oldFgValid := False\<rparr>)
                     else if \<not> oldFgValid st \<or> oldFg st \<noteq> fg
                     then (tileType OR hextileFgSpecified, st\<lparr>oldFg := fg, oldFgValid := True\<rparr>)
                     else (tileType, st))
              in case hextileEncodeTile wp bytes buf w h tileType bg of
                   None \<Rightarrow> (hextileRaw # concat (map wp buf), st\<lparr>oldBgValid := False, oldFgValid := False\<rparr>)
                 | Some encoded \<Rightarrow> (header tileType @ encoded, st)
         else (header tileType, st))"

text \<open>\<open>GET_IMAGE_INTO_BUF\<close>: the pixels of a rectangle, row by row.\<close>

definition get_image :: "'p image \<Rightarrow> Rect \<Rightarrow> 'p list" where
  "get_image img t = concat (map (\<lambda>y. map (\<lambda>x. img (x, y)) [px (r_tl t)..px (r_br t) - 1]) [py (r_tl t)..py (r_br t) - 1])"

fun hextile_tiles :: "('p \<Rightarrow> u8 list) \<Rightarrow> nat \<Rightarrow> 'p image \<Rightarrow> 'p \<Rightarrow> Rect list \<Rightarrow> 'p hextile_enc \<Rightarrow> u8 list" where
  "hextile_tiles wp bytes img d [] st = []"
| "hextile_tiles wp bytes img d (t # ts) st =
     (let (os, st) = hextile_tile wp bytes (get_image img t) (nat (rect_width t)) (nat (rect_height t)) d st
      in os @ hextile_tiles wp bytes img d ts st)"

text \<open>\<open>z\<close> is the pixel 0 the colours start with.\<close>

definition hextileEncode :: "('p \<Rightarrow> u8 list) \<Rightarrow> nat \<Rightarrow> 'p \<Rightarrow> 'p image \<Rightarrow> Rect \<Rightarrow> u8 list" where
  "hextileEncode wp bytes z img r =
     hextile_tiles wp bytes img z (tiles r) \<lparr>oldBg = z, oldFg = z, oldBgValid = False, oldFgValid = False\<rparr>"

subsection \<open>The decoder\<close>

text \<open>Column, row, width and height of a subrectangle from its two bytes.\<close>

definition hextile_geom :: "u8 \<Rightarrow> u8 \<Rightarrow> nat \<times> nat \<times> nat \<times> nat" where
  "hextile_geom xy wh = (unat (drop_bit 4 xy AND 15), unat (xy AND 15),
                         unat (drop_bit 4 wh AND 15) + 1, unat (wh AND 15) + 1)"

text \<open>The subrectangles of a tile, drawn into the buffer; the foreground is carried on.\<close>

fun hextile_subrects :: "'p parser \<Rightarrow> bool \<Rightarrow> nat \<Rightarrow> nat \<Rightarrow> 'p \<Rightarrow> 'p list \<Rightarrow> u8 list \<Rightarrow> rdr_error + (('p \<times> 'p list) \<times> u8 list)" where
  "hextile_subrects rp coloured tw 0 fg buf bs = Inr ((fg, buf), bs)"
| "hextile_subrects rp coloured tw (Suc n) fg buf bs =
     andthen (if coloured then rp bs else Inr (fg, bs)) (\<lambda>(fg, bs).
     andthen (p_U8 bs) (\<lambda>(xy, bs).
     andthen (p_U8 bs) (\<lambda>(wh, bs).
       let (x, y, w, h) = hextile_geom xy wh
       in hextile_subrects rp coloured tw n fg (fill_rows buf (y * tw + x) w tw h fg) bs)))"

text \<open>The state kept from tile to tile: \<open>bg\<close>, \<open>fg\<close> and the buffer.\<close>

record 'p hextile_dec =
  hbg :: 'p
  hfg :: 'p
  hbuf :: "'p list"

definition hextile_decode_tile :: "'p parser \<Rightarrow> Rect \<Rightarrow> 'p hextile_dec \<Rightarrow> 'p image \<Rightarrow> u8 list \<Rightarrow>
    rdr_error + (('p hextile_dec \<times> 'p image) \<times> u8 list)" where
  "hextile_decode_tile rp t st img bs =
     andthen (p_U8 bs) (\<lambda>(tileType, bs).
       let tw = nat (rect_width t); area = nat (rect_area t)
       in if tileType AND hextileRaw \<noteq> 0
          then andthen (p_pixels rp area bs) (\<lambda>(ps, bs).
            let buf = ps @ drop area (hbuf st) in Inr ((st\<lparr>hbuf := buf\<rparr>, image_rect img t buf), bs))
          else
            andthen (if tileType AND hextileBgSpecified \<noteq> 0 then rp bs else Inr (hbg st, bs)) (\<lambda>(bg, bs).
            let buf = fill_run (hbuf st) 0 area bg in
            andthen (if tileType AND hextileFgSpecified \<noteq> 0 then rp bs else Inr (hfg st, bs)) (\<lambda>(fg, bs).
            andthen (if tileType AND hextileAnySubrects \<noteq> 0
                     then andthen (p_U8 bs) (\<lambda>(nSubrects, bs).
                       hextile_subrects rp (tileType AND hextileSubrectsColoured \<noteq> 0) tw (unat nSubrects) fg buf bs)
                     else Inr ((fg, buf), bs)) (\<lambda>((fg, buf), bs).
              Inr ((\<lparr>hbg = bg, hfg = fg, hbuf = buf\<rparr>, image_rect img t buf), bs)))))"

fun hextile_decode_tiles :: "'p parser \<Rightarrow> Rect list \<Rightarrow> 'p hextile_dec \<Rightarrow> 'p image \<Rightarrow> u8 list \<Rightarrow> rdr_error + ('p image \<times> u8 list)" where
  "hextile_decode_tiles rp [] st img bs = Inr (img, bs)"
| "hextile_decode_tiles rp (t # ts) st img bs =
     andthen (hextile_decode_tile rp t st img bs) (\<lambda>((st, img), bs). hextile_decode_tiles rp ts st img bs)"

definition hextileDecode :: "'p parser \<Rightarrow> 'p \<Rightarrow> Rect \<Rightarrow> 'p list \<Rightarrow> 'p image \<Rightarrow> u8 list \<Rightarrow> rdr_error + ('p image \<times> u8 list)" where
  "hextileDecode rp z r buf img bs = hextile_decode_tiles rp (tiles r) \<lparr>hbg = z, hfg = z, hbuf = buf\<rparr> img bs"

subsection \<open>The tile type\<close>

lemma count_two_few:
  "count_two p1 p2 ps c1 c2 = (d1, d2, False) \<Longrightarrow> p1 \<noteq> p2 \<Longrightarrow>
   set ps \<subseteq> {p1, p2} \<and> d1 = c1 + length (filter (\<lambda>p. p \<noteq> p2) ps) \<and> d2 = c2 + length (filter (\<lambda>p. p \<noteq> p1) ps)"
  by (induction p1 p2 ps c1 c2 rule: count_two.induct) (auto split: if_splits)

lemma tile_type_cases:
  assumes "hextileTestTileType data w h d = (tileType, bg, fg)" and "length data = w * h" and "1 \<le> w * h"
  shows "(tileType = 0 \<and> set data \<subseteq> {bg}) \<or>
    (tileType = hextileAnySubrects \<and> set data \<subseteq> {bg, fg} \<and> 2 * length (filter (\<lambda>p. p \<noteq> bg) data) \<le> w * h) \<or>
    (tileType = hextileAnySubrects OR hextileSubrectsColoured)"
proof -
  define p1 where "p1 = data ! 0"
  define k where "k = first_fail (\<lambda>i. data ! i = p1) 1 (w * h)"
  define p2 where "p2 = data ! k"
  have eq: "hextileTestTileType data w h d = (if k = w * h then (0, p1, d)
      else case count_two p1 p2 (drop (k + 1) data) k 1 of (count1, count2, third) \<Rightarrow>
        let tileType = (if third then hextileAnySubrects OR hextileSubrectsColoured else hextileAnySubrects)
        in if count1 \<ge> count2 then (tileType, p1, p2) else (tileType, p2, p1))"
    unfolding hextileTestTileType_def k_def p1_def p2_def Let_def ..
  have kb: "1 \<le> k" "k \<le> w * h" using assms(3) by (simp_all add: k_def first_fail_ge first_fail_le)
  have pre: "data ! i = p1" if "i < k" for i
    using that first_fail_holds [of 1 i "\<lambda>i. data ! i = p1" "w * h"] by (cases "i = 0") (simp_all add: k_def p1_def)
  show ?thesis
  proof (cases "k = w * h")
    case True
    then have "set data \<subseteq> {p1}" using pre assms(2) by (auto simp: in_set_conv_nth)
    moreover have "tileType = 0" "bg = p1" using assms(1) True unfolding eq by simp_all
    ultimately show ?thesis by simp
  next
    case False
    then have kl: "k < w * h" using kb by simp
    have p2: "p1 \<noteq> p2" using first_fail_stop [of "\<lambda>i. data ! i = p1" 1 "w * h"] kl by (simp add: k_def p2_def)
    obtain c1 c2 third where c: "count_two p1 p2 (drop (k + 1) data) k 1 = (c1, c2, third)"
      by (cases "count_two p1 p2 (drop (k + 1) data) k 1") auto
    have t: "(if third then hextileAnySubrects OR hextileSubrectsColoured else hextileAnySubrects) = tileType"
        "(bg, fg) = (if c1 \<ge> c2 then (p1, p2) else (p2, p1))"
      using assms(1) False c unfolding eq by (auto simp: Let_def split: if_splits)
    show ?thesis
    proof (cases third)
      case True
      then show ?thesis using t(1) by simp
    next
      case few: False
      have "take k data = replicate k p1"
        using pre kl assms(2) by (intro nth_equalityI) simp_all
      then have d: "data = replicate k p1 @ p2 # drop (k + 1) data"
        using id_take_nth_drop [of k data] kl assms(2) by (simp add: p2_def)
      have two: "set (drop (k + 1) data) \<subseteq> {p1, p2} \<and> c1 = k + length (filter (\<lambda>p. p \<noteq> p2) (drop (k + 1) data)) \<and>
          c2 = 1 + length (filter (\<lambda>p. p \<noteq> p1) (drop (k + 1) data))"
        using count_two_few [of p1 p2 "drop (k + 1) data" k 1 c1 c2] c few p2 by simp
      have s: "set data \<subseteq> {p1, p2}" using two by (subst d) auto
      have c1: "length (filter (\<lambda>p. p \<noteq> p2) data) = c1" using two p2 by (subst d) simp
      have c2: "length (filter (\<lambda>p. p \<noteq> p1) data) = c2" using two p2 by (subst d) simp
      have "filter (\<lambda>p. \<not> p \<noteq> p1) data = filter (\<lambda>p. p \<noteq> p2) data"
        using s p2 by (intro filter_cong) auto
      then have "c1 + c2 = w * h"
        using sum_length_filter_compl [of "\<lambda>p. p \<noteq> p1" data] c1 c2 assms(2) by simp
      then show ?thesis using t s c1 c2 few by (auto split: if_splits)
    qed
  qed
qed

subsection \<open>The scan of a tile\<close>

definition e_hex :: "('p \<Rightarrow> u8 list) \<Rightarrow> bool \<Rightarrow> 'p subrect \<Rightarrow> u8 list" where
  "e_hex wp coloured s = (if coloured then wp (s_pix s) else []) @ e_sub (s_x s) (s_y s) (s_w s) (s_h s)"

definition hex_sub :: "'p list \<Rightarrow> nat \<Rightarrow> nat \<Rightarrow> 'p subrect \<Rightarrow> bool" where
  "hex_sub img w h s \<longleftrightarrow> inside w h s \<and> 1 \<le> s_w s \<and> 1 \<le> s_h s \<and> s_pix s = img ! (s_y s * w + s_x s)"

lemma emit_sub_Some:
  "emit_sub wp bytes coloured w h s enc = Some enc' \<Longrightarrow>
   enc' = enc @ e_hex wp coloured s \<and> 1 + length enc' \<le> w * h * bytes"
  by (auto simp: emit_sub_def Let_def e_hex_def e_sub_def split: if_splits)

text \<open>The state after a part of the scan, with the subrectangles \<open>ss\<close> so far.\<close>

definition hex_inv :: "('p \<Rightarrow> u8 list) \<Rightarrow> nat \<Rightarrow> bool \<Rightarrow> 'p list \<Rightarrow> nat \<Rightarrow> nat \<Rightarrow> 'p \<Rightarrow> 'p list \<Rightarrow> 'p subrect list \<Rightarrow> u8 \<Rightarrow> u8 list \<Rightarrow>
    nat \<Rightarrow> nat \<Rightarrow> bool" where
  "hex_inv wp bytes coloured img w h bg a ss n enc y x \<longleftrightarrow>
     scan_inv img w h bg a ss y x \<and> scan_starts img w bg ss (y * w + x) \<and> n = of_nat (length ss) \<and>
     enc = concat (map (e_hex wp coloured) (rev ss)) \<and> (\<forall>s \<in> set ss. hex_sub img w h s) \<and>
     (ss \<noteq> [] \<longrightarrow> 1 + length enc \<le> w * h * bytes)"

lemma hex_inv_init: "length img = w * h \<Longrightarrow> hex_inv wp bytes coloured img w h bg img [] 0 [] 0 0"
  by (simp add: hex_inv_def scan_init scan_starts_init)

lemma hex_inv_take:
  assumes i: "hex_inv wp bytes coloured img w h bg a ss n enc y x" and xy: "x < w" "y < h"
    and v: "a ! (y * w + x) \<noteq> bg" and u: "uniform_rect a w h x y k m (a ! (y * w + x))"
    and e: "emit_sub wp bytes coloured w h \<lparr>s_x = x, s_y = y, s_w = k, s_h = m, s_pix = a ! (y * w + x)\<rparr> enc = Some enc'"
  shows "hex_inv wp bytes coloured img w h bg (clear_below a w (y * w + x) k m bg)
    (\<lparr>s_x = x, s_y = y, s_w = k, s_h = m, s_pix = a ! (y * w + x)\<rparr> # ss) (n + 1) enc' y (x + k)"
proof -
  let ?s = "\<lparr>s_x = x, s_y = y, s_w = k, s_h = m, s_pix = a ! (y * w + x)\<rparr>"
  have si: "scan_inv img w h bg a ss y x" and st: "scan_starts img w bg ss (y * w + x)"
    and n: "n = of_nat (length ss)" and enc: "enc = concat (map (e_hex wp coloured) (rev ss))"
    and sub: "\<forall>s \<in> set ss. hex_sub img w h s" using i by (simp_all add: hex_inv_def)
  note b = uniform_bounds [OF u]
  have "\<not> passed y x y x" by (simp add: passed_def)
  moreover have "if passed y x y x then painted bg ss x y = img ! (y * w + x)
        else (a ! (y * w + x) = img ! (y * w + x) \<and> painted bg ss x y = bg) \<or>
             (a ! (y * w + x) = bg \<and> painted bg ss x y = img ! (y * w + x))"
    using si xy unfolding scan_inv_def by blast
  ultimately have "a ! (y * w + x) = img ! (y * w + x)" using v by simp
  then have "hex_sub img w h ?s" using b by (simp add: hex_sub_def inside_def)
  moreover have ee: "enc' = enc @ e_hex wp coloured ?s" and le: "1 + length enc' \<le> w * h * bytes"
    using emit_sub_Some [OF e] by blast+
  have c: "concat (map (e_hex wp coloured) (rev (?s # ss))) = enc'" using ee enc by simp
  ultimately show ?thesis
    unfolding hex_inv_def c using scan_take [OF si u v] scan_starts_take [OF st si xy v b(1)] n sub le by simp
qed

lemma hex_inv_skip:
  assumes "hex_inv wp bytes coloured img w h bg a ss n enc y x" and "a ! (y * w + x) = bg"
  shows "hex_inv wp bytes coloured img w h bg a ss n enc y (x + 1)"
  using assms(1) scan_skip [OF _ assms(2)] scan_starts_skip [of img w bg ss "y * w + x" "y * w + (x + 1)"]
  unfolding hex_inv_def by auto

lemma hex_inv_row:
  assumes "hex_inv wp bytes coloured img w h bg a ss n enc y w"
  shows "hex_inv wp bytes coloured img w h bg a ss n enc (y + 1) 0"
  using assms scan_row [of img w h bg a ss y w] unfolding hex_inv_def by (auto simp: add.commute)

lemma hextile_row_inv:
  assumes "hextile_row wp bytes coloured bg w h y x a n enc = Some (a', n', enc')"
    and "hex_inv wp bytes coloured img w h bg a ss n enc y x" and "y < h" and "x \<le> w"
  shows "\<exists>ss'. hex_inv wp bytes coloured img w h bg a' ss' n' enc' y w"
  using assms(1,2,4)
proof (induction "w - x" arbitrary: x a n enc ss rule: less_induct)
  case less
  show ?case
  proof (cases "x < w")
    case False
    then have "hextile_row wp bytes coloured bg w h y x a n enc = Some (a, n, enc)" by (subst hextile_row.simps) simp
    then have "a' = a" "n' = n" "enc' = enc" "x = w" using less.prems False by simp_all
    then show ?thesis using less.prems(2) by blast
  next
    case x: True
    show ?thesis
    proof (cases "a ! (y * w + x) = bg")
      case True
      have "hextile_row wp bytes coloured bg w h y (x + 1) a n enc = Some (a', n', enc')"
        using less.prems(1) x True by (simp add: hextile_row.simps [of _ _ _ _ _ _ _ x])
      then show ?thesis using less.hyps [of "x + 1", OF _ _ hex_inv_skip [OF less.prems(2) True]] x by simp
    next
      case False
      let ?p = "y * w + x"
      define k where "k = horiz_width a w ?p x"
      define m where "m = horiz_height a w h ?p y k"
      let ?s = "\<lparr>s_x = x, s_y = y, s_w = k, s_h = m, s_pix = a ! ?p\<rparr>"
      have u: "uniform_rect a w h x y k m (a ! ?p)" unfolding k_def m_def by (rule horiz_uniform [OF x assms(3)])
      obtain enc1 where e: "emit_sub wp bytes coloured w h ?s enc = Some enc1"
        and r: "hextile_row wp bytes coloured bg w h y (x + k) (clear_below a w ?p k m bg) (n + 1) enc1 = Some (a', n', enc')"
        using less.prems(1) x False
        by (auto simp: hextile_row.simps [of _ _ _ _ _ _ _ x] Let_def k_def [symmetric] m_def [symmetric] split: option.splits)
      note b = uniform_bounds [OF u]
      have less_x: "w - (x + k) < w - x" using b(1) x by simp
      show ?thesis by (rule less.hyps [OF less_x r hex_inv_take [OF less.prems(2) x assms(3) False u e] b(3)])
    qed
  qed
qed

lemma hextile_rows_inv:
  assumes "hextile_rows wp bytes coloured bg w h y a n enc = Some encoded"
    and "hex_inv wp bytes coloured img w h bg a ss n enc y 0" and "y \<le> h"
  shows "\<exists>a' ss' n' enc'. hex_inv wp bytes coloured img w h bg a' ss' n' enc' h 0 \<and> encoded = n' # enc'"
  using assms
proof (induction "h - y" arbitrary: y a n enc ss rule: less_induct)
  case less
  show ?case
  proof (cases "y < h")
    case False
    then have "hextile_rows wp bytes coloured bg w h y a n enc = Some (n # enc)" by (subst hextile_rows.simps) simp
    then have "encoded = n # enc" "y = h" using less.prems False by simp_all
    then show ?thesis using less.prems(2) by blast
  next
    case True
    obtain a1 n1 enc1 where r: "hextile_row wp bytes coloured bg w h y 0 a n enc = Some (a1, n1, enc1)"
      "hextile_rows wp bytes coloured bg w h (y + 1) a1 n1 enc1 = Some encoded"
      using less.prems(1) True by (auto simp: hextile_rows.simps [of _ _ _ _ _ _ y] split: option.splits)
    obtain ss1 where "hex_inv wp bytes coloured img w h bg a1 ss1 n1 enc1 y w"
      using hextile_row_inv [OF r(1) less.prems(2) True] by auto
    then have inv: "hex_inv wp bytes coloured img w h bg a1 ss1 n1 enc1 (y + 1) 0" by (rule hex_inv_row)
    have less_y: "h - (y + 1) < h - y" using True by simp
    show ?thesis using less.hyps [OF less_y r(2) inv] True by simp
  qed
qed

subsection \<open>Tiles and images\<close>

lemma tile_spans_bounds: "(a, b) \<in> set (tile_spans z br) \<Longrightarrow> z \<le> a \<and> a < b \<and> b \<le> a + 16 \<and> b \<le> br"
proof (induction z br rule: tile_spans.induct)
  case (1 z br)
  show ?case
  proof (cases "z < br")
    case True
    then have "(a, b) = (z, min br (z + 16)) \<or> (a, b) \<in> set (tile_spans (z + 16) br)"
      using 1(2) by (subst (asm) tile_spans.simps) auto
    then show ?thesis using 1(1) [OF True] True by auto
  next
    case False
    then show ?thesis using 1(2) by (subst (asm) tile_spans.simps) simp
  qed
qed

lemma tile_spans_cover: "(\<exists>(a, b) \<in> set (tile_spans z br). a \<le> x \<and> x < b) \<longleftrightarrow> z \<le> x \<and> x < br"
proof (induction z br rule: tile_spans.induct)
  case (1 z br)
  show ?case
  proof (cases "z < br")
    case True
    have "(\<exists>(a, b) \<in> set (tile_spans z br). a \<le> x \<and> x < b) \<longleftrightarrow>
        (z \<le> x \<and> x < min br (z + 16)) \<or> (\<exists>(a, b) \<in> set (tile_spans (z + 16) br). a \<le> x \<and> x < b)"
      using True by (subst tile_spans.simps) simp
    also have "\<dots> \<longleftrightarrow> z \<le> x \<and> x < br" unfolding 1 [OF True] by auto
    finally show ?thesis .
  next
    case False
    then have "tile_spans z br = []" by (subst tile_spans.simps) simp
    then show ?thesis using False by auto
  qed
qed

lemma tiles_size:
  "t \<in> set (tiles r) \<Longrightarrow> 1 \<le> rect_width t \<and> rect_width t \<le> 16 \<and> 1 \<le> rect_height t \<and> rect_height t \<le> 16"
  by (auto simp: tiles_def mkRect_def rect_width_def rect_height_def dest!: tile_spans_bounds)

lemma tiles_cover: "(\<exists>t \<in> set (tiles r). rect_contains t \<lparr>px = x, py = y\<rparr>) \<longleftrightarrow> rect_contains r \<lparr>px = x, py = y\<rparr>"
proof -
  let ?X = "tile_spans (px (r_tl r)) (px (r_br r))" and ?Y = "tile_spans (py (r_tl r)) (py (r_br r))"
  have "(\<exists>t \<in> set (tiles r). rect_contains t \<lparr>px = x, py = y\<rparr>) \<longleftrightarrow>
      (\<exists>ab \<in> set ?Y. \<exists>cd \<in> set ?X. rect_contains (mkRect (fst cd) (fst ab) (snd cd) (snd ab)) \<lparr>px = x, py = y\<rparr>)"
    by (simp add: tiles_def case_prod_unfold)
  also have "\<dots> \<longleftrightarrow> (\<exists>ab \<in> set ?Y. fst ab \<le> y \<and> y < snd ab) \<and> (\<exists>cd \<in> set ?X. fst cd \<le> x \<and> x < snd cd)"
    by (simp add: rect_contains_def mkRect_def) blast
  also have "\<dots> \<longleftrightarrow> rect_contains r \<lparr>px = x, py = y\<rparr>"
    using tile_spans_cover [of "py (r_tl r)" "py (r_br r)" y] tile_spans_cover [of "px (r_tl r)" "px (r_br r)" x]
    by (simp add: case_prod_unfold rect_contains_def) blast
  finally show ?thesis .
qed

lemma nth_concat_rows:
  "(\<And>xs. xs \<in> set xss \<Longrightarrow> length xs = w) \<Longrightarrow> i < w \<Longrightarrow> j < length xss \<Longrightarrow> concat xss ! (j * w + i) = xss ! j ! i"
proof (induction xss arbitrary: j)
  case (Cons xs xss)
  then show ?case by (cases j) (auto simp: nth_append)
qed simp

lemma length_get_image: "length (get_image img t) = nat (rect_width t) * nat (rect_height t)"
  by (simp add: get_image_def length_concat rect_width_def rect_height_def comp_def sum_list_triv mult.commute)

lemma nth_get_image:
  "i < nat (rect_width t) \<Longrightarrow> j < nat (rect_height t) \<Longrightarrow>
   get_image img t ! (j * nat (rect_width t) + i) = img (px (r_tl t) + int i, py (r_tl t) + int j)"
  unfolding get_image_def by (subst nth_concat_rows) (auto simp: rect_width_def rect_height_def)

lemma image_get_image:
  "image_rect fb t (get_image img t) (x, y) = (if rect_contains t \<lparr>px = x, py = y\<rparr> then img (x, y) else fb (x, y))"
proof (cases "rect_contains t \<lparr>px = x, py = y\<rparr>")
  case True
  then have "nat (x - px (r_tl t)) < nat (rect_width t)" "nat (y - py (r_tl t)) < nat (rect_height t)"
    "px (r_tl t) \<le> x" "py (r_tl t) \<le> y"
    by (auto simp: rect_contains_def rect_width_def rect_height_def)
  then show ?thesis using True nth_get_image [of "nat (x - px (r_tl t))" t "nat (y - py (r_tl t))" img]
    by (simp add: image_rect_def)
qed (simp add: image_rect_def)

subsection \<open>Decoding a tile\<close>

lemma u8_small: "n < 16 \<Longrightarrow> (of_nat n :: u8) AND mask 4 = of_nat n" "n < 16 \<Longrightarrow> unat (of_nat n :: u8) = n"
  by (simp_all add: take_bit_eq_mask [symmetric] word_unat_eq_iff unsigned_take_bit_eq unat_of_nat take_bit_nat_eq_self)

lemma nibbles:
  assumes "a < 16" and "b < 16"
  shows "unat (drop_bit 4 (push_bit 4 (of_nat a) OR of_nat b :: u8) AND 15) = a"
    and "unat ((push_bit 4 (of_nat a) OR of_nat b :: u8) AND 15) = b"
proof -
  have m: "(15 :: u8) = mask 4" by (simp add: mask_eq_exp_minus_1)
  have "drop_bit 4 (push_bit 4 (A AND mask 4) OR (B AND mask 4)) AND mask 4 = A AND mask 4"
    "(push_bit 4 (A AND mask 4) OR (B AND mask 4)) AND mask 4 = B AND mask 4" for A B :: u8
    by (rule bit_eqI; auto simp: bit_simps)+
  from this [of "of_nat a" "of_nat b"]
  show "unat (drop_bit 4 (push_bit 4 (of_nat a) OR of_nat b :: u8) AND 15) = a"
    "unat ((push_bit 4 (of_nat a) OR of_nat b :: u8) AND 15) = b"
    unfolding m u8_small(1) [OF assms(1)] u8_small(1) [OF assms(2)]
    by (simp_all add: u8_small(2) [OF assms(1)] u8_small(2) [OF assms(2)])
qed

definition hex_agree :: "'p hextile_enc \<Rightarrow> 'p hextile_dec \<Rightarrow> bool" where
  "hex_agree st ds \<longleftrightarrow> (oldBgValid st \<longrightarrow> hbg ds = oldBg st) \<and> (oldFgValid st \<longrightarrow> hfg ds = oldFg st)"

context pixel_io begin

lemma hextile_subrects_decodes:
  assumes "w \<le> 16" and "h \<le> 16" and "\<forall>s \<in> set ts. hex_sub img w h s" and "\<not> coloured \<Longrightarrow> \<forall>s \<in> set ts. s_pix s = fg"
  shows "\<exists>fg'. hextile_subrects rp coloured w (length ts) fg buf (concat (map (e_hex wp coloured) ts) @ bs) =
      Inr ((fg', foldl (fill_sub w) buf ts), bs) \<and> (\<not> coloured \<longrightarrow> fg' = fg)"
  using assms(3,4)
proof (induction ts arbitrary: fg buf)
  case (Cons s ts)
  have s: "s_x s < 16" "s_y s < 16" "s_w s - 1 < 16" "s_h s - 1 < 16" "1 \<le> s_w s" "1 \<le> s_h s"
    using Cons.prems(1) assms(1,2) by (auto simp: hex_sub_def inside_def)
  have n: "unat (drop_bit 4 (push_bit 4 (of_nat (s_x s)) OR of_nat (s_y s) :: u8) AND 15) = s_x s"
    "unat ((push_bit 4 (of_nat (s_x s)) OR of_nat (s_y s) :: u8) AND 15) = s_y s"
    "unat (drop_bit 4 (push_bit 4 (of_nat (s_w s - 1)) OR of_nat (s_h s - 1) :: u8) AND 15) + 1 = s_w s"
    "unat ((push_bit 4 (of_nat (s_w s - 1)) OR of_nat (s_h s - 1) :: u8) AND 15) + 1 = s_h s"
    using nibbles [OF s(1,2)] nibbles [OF s(3,4)] s(5,6) by simp_all
  let ?bs = "concat (map (e_hex wp coloured) ts) @ bs"
  have step: "hextile_subrects rp coloured w (length (s # ts)) fg buf (concat (map (e_hex wp coloured) (s # ts)) @ bs) =
      hextile_subrects rp coloured w (length ts) (s_pix s) (fill_sub w buf s) ?bs"
    using Cons.prems(2)
    by (cases coloured) (simp_all only: hextile_subrects.simps(2) list.size(4) add_0_right add_Suc_right list.map(2)
        concat.simps(2) e_hex_def e_sub_def if_True if_False append_Nil append_Cons append_assoc read_written p_U8_e
        andthen_simps prod.case Let_def hextile_geom_def n fill_sub_def list.set_intros(1) simp_thms list.set(2) insert_iff ball_simps)
  obtain fg' where "hextile_subrects rp coloured w (length ts) (s_pix s) (fill_sub w buf s) ?bs =
      Inr ((fg', foldl (fill_sub w) (fill_sub w buf s) ts), bs)" "\<not> coloured \<Longrightarrow> fg' = s_pix s"
    using Cons.IH [of "s_pix s" "fill_sub w buf s"] Cons.prems by auto
  then show ?case using step Cons.prems(2) by auto
qed simp

lemma decode_header:
  assumes "tt AND hextileRaw = 0" and "tt AND hextileBgSpecified = 0 \<Longrightarrow> hbg ds = bg"
  shows "hextile_decode_tile rp t ds fb ((tt # (if tt AND hextileBgSpecified \<noteq> 0 then wp bg else []) @
            (if tt AND hextileFgSpecified \<noteq> 0 then wp fg else [])) @ body) =
    andthen (let fg = (if tt AND hextileFgSpecified \<noteq> 0 then fg else hfg ds);
                 buf = fill_run (hbuf ds) 0 (nat (rect_area t)) bg
             in if tt AND hextileAnySubrects \<noteq> 0
                then andthen (p_U8 body) (\<lambda>(n, bs). hextile_subrects rp (tt AND hextileSubrectsColoured \<noteq> 0)
                       (nat (rect_width t)) (unat n) fg buf bs)
                else Inr ((fg, buf), body))
      (\<lambda>((fg, buf), bs). Inr ((\<lparr>hbg = bg, hfg = fg, hbuf = buf\<rparr>, image_rect fb t buf), bs))"
  using assms(2)
  by (cases "tt AND hextileBgSpecified = 0"; cases "tt AND hextileFgSpecified = 0")
    (simp_all add: hextile_decode_tile_def assms(1) Let_def read_written)

lemma length_e_hexs:
  "length (concat (map (e_hex wp True) ts)) = length ts * (bytes + 2)"
  by (induction ts) (simp_all add: e_hex_def e_sub_def length_wp)

text \<open>The count of the subrectangles fits its byte: in a coloured tile for the length of the buffer, in
  a tile of two colours because the background is the more frequent one.\<close>

lemma hex_count:
  assumes "hex_inv wp bytes coloured img w h bg a ss n enc y x" and "w \<le> 16" and "h \<le> 16"
    and "\<not> coloured \<Longrightarrow> 2 * length (filter (\<lambda>p. p \<noteq> bg) img) \<le> w * h"
  shows "unat n = length ss"
proof -
  have wh: "w * h \<le> 256" using mult_le_mono [OF assms(2,3)] by simp
  have "length ss < 256"
  proof (cases coloured)
    case True
    show ?thesis
    proof (cases "ss = []")
      case False
      then have "1 + length ss * (bytes + 2) \<le> w * h * bytes"
        using assms(1) length_e_hexs [of "rev ss"] True by (auto simp: hex_inv_def)
      also have "\<dots> \<le> 256 * bytes" using wh by simp
      finally have "length ss * (bytes + 2) < 256 * (bytes + 2)" by simp
      then show ?thesis unfolding mult_less_cancel2 by simp
    qed simp
  next
    case False
    have "length ss \<le> length (filter (\<lambda>p. p \<noteq> bg) img)"
      using assms(1) scan_starts_few by (auto simp: hex_inv_def)
    then show ?thesis using assms(4) False wh by simp
  qed
  then show ?thesis using assms(1) by (simp add: hex_inv_def unat_of_nat)
qed

text \<open>A tile with subrectangles, decoded over the background.\<close>

lemma hextile_subtile_decodes:
  assumes inv: "hex_inv wp bytes coloured img w h bg a ss n enc h 0"
    and w: "1 \<le> w" "w \<le> 16" and h: "1 \<le> h" "h \<le> 16" and l: "w * h \<le> length buf"
    and mono: "\<not> coloured \<Longrightarrow> set img \<subseteq> {bg, fg} \<and> 2 * length (filter (\<lambda>p. p \<noteq> bg) img) \<le> w * h"
    and t: "rect_width t = int w" "rect_height t = int h"
  shows "\<exists>fg' buf'. andthen (p_U8 ((n # enc) @ bs)) (\<lambda>(n, bs). hextile_subrects rp coloured w (unat n) fg
        (fill_run buf 0 (w * h) bg) bs) = Inr ((fg', buf'), bs) \<and> (\<not> coloured \<longrightarrow> fg' = fg) \<and>
      image_rect fb t buf' = image_rect fb t img \<and> length buf' = length buf"
proof -
  let ?buf = "fill_run buf 0 (w * h) bg"
  have sub: "\<forall>s \<in> set (rev ss). hex_sub img w h s" and enc: "enc = concat (map (e_hex wp coloured) (rev ss))"
    and si: "scan_inv img w h bg a ss h 0" and st: "scan_starts img w bg ss (h * w + 0)"
    using inv by (simp_all add: hex_inv_def)
  have n: "unat n = length (rev ss)" using hex_count [OF inv w(2) h(2)] mono by simp
  have fgs: "\<forall>s \<in> set (rev ss). s_pix s = fg" if "\<not> coloured"
  proof
    fix s assume "s \<in> set (rev ss)"
    then have p: "s_pix s = img ! (s_y s * w + s_x s)" "s_y s * w + s_x s < length img" "s_pix s \<noteq> bg"
      using sub st by (auto simp: hex_sub_def scan_starts_def)
    have "s_pix s \<in> set img" unfolding p(1) by (rule nth_mem [OF p(2)])
    then show "s_pix s = fg" using mono [OF that] p(3) by auto
  qed
  obtain fg' where d: "hextile_subrects rp coloured w (length (rev ss)) fg ?buf (enc @ bs) =
      Inr ((fg', foldl (fill_sub w) ?buf (rev ss)), bs)" "\<not> coloured \<Longrightarrow> fg' = fg"
    using hextile_subrects_decodes [OF w(2) h(2) sub fgs, where bs=bs and buf="?buf"] enc by auto
  have f: "foldl (fill_sub w) ?buf (rev ss) = foldr (\<lambda>s a. fill_sub w a s) ss ?buf" by (simp add: foldl_conv_foldr)
  have ins: "\<forall>s \<in> set ss. inside w h s" using sub by (auto simp: hex_sub_def)
  have px: "?buf ! (j * w + i) = bg" if "i < w" "j < h" for i j
    using nth_fill_run [of "j * w + i" buf 0 "w * h" bg] index_less [OF that] l by simp
  have lb: "w * h \<le> length ?buf" using l by simp
  have "foldr (\<lambda>s a. fill_sub w a s) ss ?buf ! (j * w + i) = img ! (j * w + i)" if "i < w" "j < h" for i j
    using filled_array [OF ins lb that px [OF that]] scan_done [OF si that] by simp
  then have "image_rect fb t (foldr (\<lambda>s a. fill_sub w a s) ss ?buf) = image_rect fb t img"
    by (rule image_rect_cong [OF t])
  moreover have "length (foldr (\<lambda>s a. fill_sub w a s) ss ?buf) = length buf"
    using filled_array [OF ins lb _ _ px [of 0 0]] w(1) h(1) by simp
  ultimately show ?thesis using d n f by simp
qed

lemma hextile_tile_roundtrip:
  assumes e: "hextile_tile wp bytes img w h d st = (os, st')" and l: "length img = w * h"
    and w: "1 \<le> w" "w \<le> 16" and h: "1 \<le> h" "h \<le> 16" and t: "rect_width t = int w" "rect_height t = int h"
    and ag: "hex_agree st ds" and buf: "w * h \<le> length (hbuf ds)"
  shows "\<exists>ds'. hextile_decode_tile rp t ds fb (os @ bs) = Inr ((ds', image_rect fb t img), bs) \<and>
    hex_agree st' ds' \<and> length (hbuf ds') = length (hbuf ds)"
proof -
  obtain tt bg fg where tt: "hextileTestTileType img w h d = (tt, bg, fg)" by (cases "hextileTestTileType img w h d") auto
  have wh: "1 \<le> w * h" using mult_le_mono [OF w(1) h(1)] by simp
  have wh256: "int (w * h) < 4294967296" using mult_le_mono [OF w(2) h(2)] by linarith
  have "rect_area t = int (w * h) mod 4294967296"
    using t w(1) h(1) by (auto simp: rect_area_def rect_is_empty_def rect_width_def rect_height_def)
  also have "\<dots> = int (w * h)" by (rule mod_pos_pos_trivial) (use wh256 in simp_all)
  finally have area: "nat (rect_area t) = w * h" "nat (rect_width t) = w"
    using t by (simp_all only: nat_int)
  note cases = tile_type_cases [OF tt l wh]
  define newBg where "newBg \<longleftrightarrow> \<not> oldBgValid st \<or> oldBg st \<noteq> bg"
  define st1 where "st1 = (if newBg then st\<lparr>oldBg := bg, oldBgValid := True\<rparr> else st)"
  define tt1 where "tt1 = (if newBg then tt OR hextileBgSpecified else tt)"
  define hdr where "hdr = (\<lambda>tt. tt # (if tt AND hextileBgSpecified \<noteq> 0 then wp bg else []) @
                                  (if tt AND hextileFgSpecified \<noteq> 0 then wp fg else []))"
  have bg1: "oldBgValid st1" "oldBg st1 = bg" "oldFgValid st1 = oldFgValid st" "oldFg st1 = oldFg st"
    by (simp_all add: st1_def newBg_def)
  have hbg: "\<not> newBg \<Longrightarrow> hbg ds = bg" using ag by (simp add: newBg_def hex_agree_def)
  have e1: "hextile_tile wp bytes img w h d st =
     (if tt1 AND hextileAnySubrects \<noteq> 0
      then let (tt2, st2) = (if tt1 AND hextileSubrectsColoured \<noteq> 0 then (tt1, st1\<lparr>oldFgValid := False\<rparr>)
                     else if \<not> oldFgValid st1 \<or> oldFg st1 \<noteq> fg
                     then (tt1 OR hextileFgSpecified, st1\<lparr>oldFg := fg, oldFgValid := True\<rparr>)
                     else (tt1, st1))
           in case hextileEncodeTile wp bytes img w h tt2 bg of
                None \<Rightarrow> (hextileRaw # concat (map wp img), st2\<lparr>oldBgValid := False, oldFgValid := False\<rparr>)
              | Some encoded \<Rightarrow> (hdr tt2 @ encoded, st2)
      else (hdr tt1, st1))"
    unfolding hextile_tile_def tt prod.case Let_def st1_def tt1_def newBg_def [symmetric] hdr_def by (cases newBg) simp_all
  show ?thesis
  proof (cases "tt = 0")
    case True
    have os: "os = hdr tt1" "st' = st1" using e unfolding e1 by (auto simp: tt1_def True hextile_flags split: if_splits)
    have solid: "set img \<subseteq> {bg}" using cases True by (auto simp: hextile_flags)
    let ?b = "fill_run (hbuf ds) 0 (w * h) bg"
    have "?b ! (j * w + i) = img ! (j * w + i)" if ji: "i < w" "j < h" for i j
    proof -
      have q: "j * w + i < length img" using index_less [OF ji] l by simp
      have "img ! (j * w + i) \<in> set img" by (rule nth_mem [OF q])
      then have "img ! (j * w + i) = bg" using solid by blast
      then show ?thesis using nth_fill_run [of "j * w + i" "hbuf ds" 0 "w * h" bg] q buf l by simp
    qed
    then have im: "image_rect fb t ?b = image_rect fb t img" by (rule image_rect_cong [OF t])
    have "hextile_decode_tile rp t ds fb (hdr tt1 @ bs) = Inr ((\<lparr>hbg = bg, hfg = hfg ds, hbuf = ?b\<rparr>, image_rect fb t ?b), bs)"
      using decode_header [of tt1 ds bg t fb fg bs] hbg area unfolding hdr_def
      by (auto simp: tt1_def True hextile_flags Let_def)
    then show ?thesis using im os ag bg1 by (simp add: hex_agree_def)
  next
    case False
    define coloured where "coloured \<longleftrightarrow> tt = hextileAnySubrects OR hextileSubrectsColoured"
    have tt_or: "tt = (if coloured then hextileAnySubrects OR hextileSubrectsColoured else hextileAnySubrects)"
      using cases False by (auto simp: coloured_def)
    define newFg where "newFg \<longleftrightarrow> \<not> coloured \<and> (\<not> oldFgValid st1 \<or> oldFg st1 \<noteq> fg)"
    define tt2 where "tt2 = (if newFg then tt1 OR hextileFgSpecified else tt1)"
    define st2 where "st2 = (if coloured then st1\<lparr>oldFgValid := False\<rparr>
       else if newFg then st1\<lparr>oldFg := fg, oldFgValid := True\<rparr> else st1)"
    have fl1: "tt1 AND hextileAnySubrects \<noteq> 0" "tt1 AND hextileSubrectsColoured \<noteq> 0 \<longleftrightarrow> coloured"
      by (auto simp: tt1_def tt_or hextile_flags)
    have fl2: "tt2 AND hextileAnySubrects \<noteq> 0" "tt2 AND hextileSubrectsColoured \<noteq> 0 \<longleftrightarrow> coloured"
      "tt2 AND hextileRaw = 0" "tt2 AND hextileBgSpecified \<noteq> 0 \<longleftrightarrow> newBg" "tt2 AND hextileFgSpecified \<noteq> 0 \<longleftrightarrow> newFg"
      by (auto simp: tt2_def tt1_def tt_or hextile_flags newFg_def)
    have pair: "(if tt1 AND hextileSubrectsColoured \<noteq> 0 then (tt1, st1\<lparr>oldFgValid := False\<rparr>)
         else if \<not> oldFgValid st1 \<or> oldFg st1 \<noteq> fg
         then (tt1 OR hextileFgSpecified, st1\<lparr>oldFg := fg, oldFgValid := True\<rparr>) else (tt1, st1)) = (tt2, st2)"
      unfolding fl1(2) tt2_def st2_def newFg_def by (cases coloured) simp_all
    have e2: "hextile_tile wp bytes img w h d st = (case hextileEncodeTile wp bytes img w h tt2 bg of
         None \<Rightarrow> (hextileRaw # concat (map wp img), st2\<lparr>oldBgValid := False, oldFgValid := False\<rparr>)
       | Some encoded \<Rightarrow> (hdr tt2 @ encoded, st2))"
      unfolding e1 if_P [OF fl1(1)] pair Let_def prod.case ..
    show ?thesis
    proof (cases "hextileEncodeTile wp bytes img w h tt2 bg")
      case None
      have os: "os = hextileRaw # concat (map wp img)" "st' = st2\<lparr>oldBgValid := False, oldFgValid := False\<rparr>"
        using e None unfolding e2 by simp_all
      have "image_rect fb t (img @ drop (w * h) (hbuf ds)) = image_rect fb t img"
        by (rule image_rect_cong [OF t]) (simp add: nth_append l index_less)
      then show ?thesis
        using p_pixels_written [of img bs] l buf
        by (simp add: os hextile_decode_tile_def hextile_flags area hex_agree_def)
    next
      case (Some encoded)
      have os: "os = hdr tt2 @ encoded" "st' = st2" using e Some unfolding e2 by simp_all
      have rows: "hextile_rows wp bytes coloured bg w h 0 img 0 [] = Some encoded"
        using Some fl2(2) by (simp add: hextileEncodeTile_def)
      obtain a ss n enc where inv: "hex_inv wp bytes coloured img w h bg a ss n enc h 0" and enc: "encoded = n # enc"
        using hextile_rows_inv [OF rows hex_inv_init [OF l]] by auto
      define fg2 where "fg2 = (if newFg then fg else hfg ds)"
      have fg2: "\<not> coloured \<Longrightarrow> fg2 = fg" using ag bg1 by (auto simp: fg2_def newFg_def hex_agree_def)
      have mono: "set img \<subseteq> {bg, fg2} \<and> 2 * length (filter (\<lambda>p. p \<noteq> bg) img) \<le> w * h" if "\<not> coloured"
        using cases False that fg2 by (auto simp: coloured_def)
      obtain fg' buf' where d: "andthen (p_U8 ((n # enc) @ bs)) (\<lambda>(n, bs). hextile_subrects rp coloured w (unat n) fg2
            (fill_run (hbuf ds) 0 (w * h) bg) bs) = Inr ((fg', buf'), bs)" "\<not> coloured \<Longrightarrow> fg' = fg2"
          "image_rect fb t buf' = image_rect fb t img" "length buf' = length (hbuf ds)"
        using hextile_subtile_decodes [OF inv w h buf mono t] by blast
      have hb: "tt2 AND hextileBgSpecified = 0 \<Longrightarrow> hbg ds = bg" using fl2(4) hbg by blast
      have "hextile_decode_tile rp t ds fb (hdr tt2 @ encoded @ bs) =
          Inr ((\<lparr>hbg = bg, hfg = fg', hbuf = buf'\<rparr>, image_rect fb t img), bs)"
        using decode_header [OF fl2(3) hb, of t fb fg "encoded @ bs"] fl2 d
        unfolding hdr_def enc by (simp add: area Let_def fg2_def)
      moreover have "hex_agree st2 \<lparr>hbg = bg, hfg = fg', hbuf = buf'\<rparr>"
        using bg1 d(2) fg2 by (auto simp: hex_agree_def st2_def newFg_def)
      ultimately show ?thesis using d(4) os by simp
    qed
  qed
qed

text \<open>Tile after tile.\<close>

lemma hextile_tiles_roundtrip:
  assumes "\<And>t. t \<in> set ts \<Longrightarrow> 1 \<le> rect_width t \<and> rect_width t \<le> 16 \<and> 1 \<le> rect_height t \<and> rect_height t \<le> 16"
    and "hex_agree st ds" and "256 \<le> length (hbuf ds)"
  shows "hextile_decode_tiles rp ts ds fb (hextile_tiles wp bytes img d ts st @ bs) =
    Inr ((\<lambda>(x, y). if \<exists>t \<in> set ts. rect_contains t \<lparr>px = x, py = y\<rparr> then img (x, y) else fb (x, y)), bs)"
  using assms
proof (induction ts arbitrary: st ds fb)
  case (Cons t ts)
  let ?w = "nat (rect_width t)" and ?h = "nat (rect_height t)"
  have t: "1 \<le> rect_width t" "rect_width t \<le> 16" "1 \<le> rect_height t" "rect_height t \<le> 16"
    using Cons.prems(1) [of t] by simp_all
  then have wh: "1 \<le> ?w" "?w \<le> 16" "1 \<le> ?h" "?h \<le> 16" "rect_width t = int ?w" "rect_height t = int ?h" by simp_all
  have b: "?w * ?h \<le> length (hbuf ds)" using mult_le_mono [OF wh(2,4)] Cons.prems(3) by simp
  obtain os st' where e: "hextile_tile wp bytes (get_image img t) ?w ?h d st = (os, st')"
    by (cases "hextile_tile wp bytes (get_image img t) ?w ?h d st")
  obtain ds' where d: "hextile_decode_tile rp t ds fb (os @ hextile_tiles wp bytes img d ts st' @ bs) =
      Inr ((ds', image_rect fb t (get_image img t)), hextile_tiles wp bytes img d ts st' @ bs)"
    "hex_agree st' ds'" "length (hbuf ds') = length (hbuf ds)"
    using hextile_tile_roundtrip [OF e _ wh Cons.prems(2) b] length_get_image [of img t] by blast
  have "256 \<le> length (hbuf ds')" using d(3) Cons.prems(3) by simp
  note IH = Cons.IH [OF Cons.prems(1) d(2) this, of "image_rect fb t (get_image img t)"]
  have "(\<lambda>(x, y). if \<exists>t \<in> set ts. rect_contains t \<lparr>px = x, py = y\<rparr> then img (x, y)
          else image_rect fb t (get_image img t) (x, y)) =
        (\<lambda>(x, y). if \<exists>t \<in> set (t # ts). rect_contains t \<lparr>px = x, py = y\<rparr> then img (x, y) else fb (x, y))"
    by (auto simp: fun_eq_iff image_get_image)
  then show ?case using IH d(1) e by simp
qed (simp add: fun_eq_iff)

lemma hextile_roundtrip:
  assumes "256 \<le> length buf"
  shows "hextileDecode rp z r buf fb (hextileEncode wp bytes z img r @ rest) =
    Inr ((\<lambda>(x, y). if rect_contains r \<lparr>px = x, py = y\<rparr> then img (x, y) else fb (x, y)), rest)"
proof -
  have "hextileDecode rp z r buf fb (hextileEncode wp bytes z img r @ rest) =
    Inr ((\<lambda>(x, y). if \<exists>t \<in> set (tiles r). rect_contains t \<lparr>px = x, py = y\<rparr> then img (x, y) else fb (x, y)), rest)"
    unfolding hextileDecode_def hextileEncode_def
    by (rule hextile_tiles_roundtrip [OF tiles_size]) (use assms in \<open>simp_all add: hex_agree_def\<close>)
  then show ?thesis unfolding tiles_cover .
qed

end

subsection \<open>The contract\<close>

text \<open>
  C12: Hextile is lossless: decoding what \<open>HEXTILE_ENCODE\<close> writes for a rectangle consumes exactly those
  bytes and leaves the client with the server's pixels in the rectangle and its own outside; for every
  rectangle and image, the pixels of 8, 16 and 32 bits, and whatever the decoder's buffer held.
\<close>

theorem hextile_lossless:
  assumes "256 \<le> length buf8" and "256 \<le> length buf16" and "256 \<le> length buf32"
  shows "hextileDecode p_U8 0 r buf8 fb8 (hextileEncode wp8 1 0 img8 r @ rest) =
           Inr ((\<lambda>(x, y). if rect_contains r \<lparr>px = x, py = y\<rparr> then img8 (x, y) else fb8 (x, y)), rest) \<and>
         hextileDecode p_Opaque16 0 r buf16 fb16 (hextileEncode wp16 2 0 img16 r @ rest) =
           Inr ((\<lambda>(x, y). if rect_contains r \<lparr>px = x, py = y\<rparr> then img16 (x, y) else fb16 (x, y)), rest) \<and>
         hextileDecode p_Opaque32 0 r buf32 fb32 (hextileEncode wp32 4 0 img32 r @ rest) =
           Inr ((\<lambda>(x, y). if rect_contains r \<lparr>px = x, py = y\<rparr> then img32 (x, y) else fb32 (x, y)), rest)"
  using px8.hextile_roundtrip [OF assms(1)] px16.hextile_roundtrip [OF assms(2)] px32.hextile_roundtrip [OF assms(3)]
  by blast

theorem hextile_lossless_witness:
  "hextileDecode p_U8 0 (mkRect 3 4 40 30) (replicate 256 7) (\<lambda>_. 9)
     (hextileEncode wp8 1 0 (\<lambda>p. of_int (fst p * snd p)) (mkRect 3 4 40 30) @ [1]) =
   Inr ((\<lambda>(x, y). if rect_contains (mkRect 3 4 40 30) \<lparr>px = x, py = y\<rparr> then of_int (fst (x, y) * snd (x, y)) else 9), [1])"
proof -
  have l: "256 \<le> length (replicate 256 7 :: u8 list)" "256 \<le> length (replicate 256 0 :: u16 list)"
    "256 \<le> length (replicate 256 0 :: u32 list)" by simp_all
  show ?thesis by (rule hextile_lossless [OF l, THEN conjunct1])
qed

text \<open>
  Whatever bytes arrive, also ones no encoder writes, the subrectangles of a tile are drawn inside the
  decoder's buffer of 16 * 16 * 4 pixels, though they may leave the tile.
\<close>

theorem hextile_geom_in_buffer:
  "tw \<le> 16 \<Longrightarrow> hextile_geom xy wh = (x, y, w, h) \<Longrightarrow> j < h \<Longrightarrow> i < w \<Longrightarrow> y * tw + x + j * tw + i < 16 * 16 * 4"
proof -
  assume tw: "tw \<le> 16" and g: "hextile_geom xy wh = (x, y, w, h)" and ji: "j < h" "i < w"
  have m: "unat (v AND 15) \<le> 15" for v :: u8
  proof -
    have "v AND 15 \<le> 15" by (simp add: word_and_le1)
    then show ?thesis by (simp add: word_le_nat_alt)
  qed
  have "x \<le> 15" "y \<le> 15" "w \<le> 16" "h \<le> 16"
    using g m [of "drop_bit 4 xy"] m [of xy] m [of "drop_bit 4 wh"] m [of wh] by (auto simp: hextile_geom_def)
  moreover have "y * tw \<le> 15 * 16" "j * tw \<le> 15 * 16"
    using mult_le_mono [OF calculation(2) tw] mult_le_mono [of j 15 tw 16] tw ji(1) calculation(4) by simp_all
  ultimately show ?thesis using ji(2) by linarith
qed

theorem hextile_geom_in_buffer_witness:
  "hextile_geom 0xff 0xff = (15, 15, 16, 16) \<and> 15 * 16 + 15 + 15 * 16 + 15 < (16 * 16 * 4 :: nat)"
proof -
  have g: "hextile_geom 0xff 0xff = (15, 15, 16, 16)" by (simp add: hextile_geom_def)
  show ?thesis using g hextile_geom_in_buffer [OF order_refl g, of 15 15] by simp
qed

end
