(* ===== verification/Rfb_TightPalette.thy ===== *)
theory Rfb_TightPalette
  imports Prelude
begin

text \<open>
  \<open>common/rfb/TightPalette.h\<close> and \<open>TightPalette.cxx\<close>: the palette of colours with their pixel counts, the
  most frequent first, that the Tight and hextile encoders build for a rectangle. The code keeps an array
  of entries, a pool of list nodes and a hash table of chains of nodes; the abstract palette is a list of
  colours and counts, and the operations are shown to implement it.
\<close>

unbundle bit_operations_syntax

subsection \<open>The data\<close>

record tp_node =
  nxt :: "nat option"
  nidx :: nat
  nrgb :: "32 word"

text \<open>An entry holds the index of its node in \<open>m_list\<close> and its pixel count.\<close>

record tight_palette =
  maxColors :: nat
  numColors :: nat
  tentry :: "(nat \<times> int) list"
  thash :: "nat option list"
  tlist :: "tp_node list"

definition hashFunc :: "32 word \<Rightarrow> nat" where
  "hashFunc rgb = unat ((rgb XOR drop_bit 13 rgb) AND 0xff)"

definition tp_setMaxColors :: "tight_palette \<Rightarrow> int \<Rightarrow> tight_palette" where
  "tp_setMaxColors p n = p\<lparr>maxColors := (if n < 0 then 0 else if n > 254 then 254 else nat n)\<rparr>"

definition tp_reset :: "tight_palette \<Rightarrow> tight_palette" where
  "tp_reset p = p\<lparr>numColors := 0, thash := replicate 256 None\<rparr>"

text \<open>The arrays \<open>m_entry\<close> and \<open>m_list\<close> start with whatever memory holds, here zeros.\<close>

definition newTightPalette :: "int \<Rightarrow> tight_palette" where
  "newTightPalette n = tp_reset (tp_setMaxColors
     \<lparr>maxColors = 0, numColors = 0, tentry = replicate 256 (0, 0), thash = replicate 256 None,
      tlist = replicate 256 \<lparr>nxt = None, nidx = 0, nrgb = 0\<rparr>\<rparr> n)"

subsection \<open>Operations\<close>

text \<open>
  The loop along a hash chain, with \<open>prev_pnode\<close>; the second component of the result is the node of the
  colour, if any. The fuel is the size of the pool; \<open>None\<close> is a chain with a cycle.
\<close>

fun walk :: "nat \<Rightarrow> tp_node list \<Rightarrow> 32 word \<Rightarrow> nat option \<Rightarrow> nat option \<Rightarrow> (nat option \<times> nat option) option" where
  "walk fuel l rgb prev None = Some (prev, None)"
| "walk 0 l rgb prev (Some pnode) = None"
| "walk (Suc fuel) l rgb prev (Some pnode) =
     (if nrgb (l ! pnode) = rgb then Some (prev, Some pnode)
      else walk fuel l rgb (Some pnode) (nxt (l ! pnode)))"

text \<open>Moving entries with lesser counts one place down, from index \<open>k\<close> on; the third component is the
  index of the slot left free.\<close>

fun move_down :: "(nat \<times> int) list \<Rightarrow> tp_node list \<Rightarrow> nat \<Rightarrow> int \<Rightarrow> (nat \<times> int) list \<times> tp_node list \<times> nat" where
  "move_down e l 0 count = (e, l, 0)"
| "move_down e l (Suc k) count =
     (if snd (e ! k) < count
      then move_down (e[Suc k := e ! k]) (l[fst (e ! k) := (l ! fst (e ! k))\<lparr>nidx := Suc k\<rparr>]) k count
      else (e, l, Suc k))"

definition tp_insert :: "tight_palette \<Rightarrow> 32 word \<Rightarrow> int \<Rightarrow> (int \<times> tight_palette) option" where
  "tp_insert p rgb numPixels =
     do {
       (prev, found) \<leftarrow> walk 256 (tlist p) rgb None (thash p ! hashFunc rgb);
       (case found of
          Some pnode \<Rightarrow>
            let idx = nidx (tlist p ! pnode);
                count = snd (tentry p ! idx) + numPixels;
                (e, l, new_idx) = move_down (tentry p) (tlist p) idx count;
                (e, l) = (if new_idx \<noteq> idx
                          then (e[new_idx := (pnode, snd (e ! new_idx))], l[pnode := (l ! pnode)\<lparr>nidx := new_idx\<rparr>])
                          else (e, l));
                e = e[new_idx := (fst (e ! new_idx), count)]
            in Some (int (numColors p), p\<lparr>tentry := e, tlist := l\<rparr>)
        | None \<Rightarrow>
            if numColors p = 256 \<or> numColors p = maxColors p then Some (0, p\<lparr>numColors := 0\<rparr>)
            else
              let (e, l, idx) = move_down (tentry p) (tlist p) (numColors p) numPixels;
                  pnode = numColors p;
                  (l, h) = (case prev of
                              Some q \<Rightarrow> (l[q := (l ! q)\<lparr>nxt := Some pnode\<rparr>], thash p)
                            | None \<Rightarrow> (l, (thash p)[hashFunc rgb := Some pnode]));
                  l = l[pnode := \<lparr>nxt = None, nidx = idx, nrgb = rgb\<rparr>];
                  e = e[idx := (pnode, numPixels)]
              in Some (int (numColors p + 1),
                       p\<lparr>tentry := e, tlist := l, thash := h, numColors := numColors p + 1\<rparr>))
     }"

definition tp_getEntry :: "tight_palette \<Rightarrow> nat \<Rightarrow> 32 word" where
  "tp_getEntry p i = (if i < numColors p then nrgb (tlist p ! fst (tentry p ! i)) else - 1)"

definition tp_getCount :: "tight_palette \<Rightarrow> nat \<Rightarrow> int" where
  "tp_getCount p i = (if i < numColors p then snd (tentry p ! i) else 0)"

definition tp_getIndex :: "tight_palette \<Rightarrow> 32 word \<Rightarrow> 8 word option" where
  "tp_getIndex p rgb =
     map_option (\<lambda>(_, found). case found of Some pnode \<Rightarrow> of_nat (nidx (tlist p ! pnode)) | None \<Rightarrow> 0xff)
       (walk 256 (tlist p) rgb None (thash p ! hashFunc rgb))"

subsection \<open>The abstract palette\<close>

text \<open>Colours with counts; a colour whose count grows to \<open>c\<close> moves up behind those counted at least
  as often.\<close>

type_synonym palette = "(32 word \<times> int) list"

definition pal_put :: "32 word \<Rightarrow> int \<Rightarrow> palette \<Rightarrow> palette" where
  "pal_put rgb c pal = takeWhile (\<lambda>e. c \<le> snd e) pal @ (rgb, c) # dropWhile (\<lambda>e. c \<le> snd e) pal"

definition pal_insert :: "nat \<Rightarrow> palette \<Rightarrow> 32 word \<Rightarrow> int \<Rightarrow> palette option" where
  "pal_insert mx pal rgb n =
     (case map_of pal rgb of
        Some c \<Rightarrow> Some (pal_put rgb (c + n) (filter (\<lambda>e. fst e \<noteq> rgb) pal))
      | None \<Rightarrow> if length pal = mx then None else Some (pal_put rgb n pal))"

definition pal_of :: "tight_palette \<Rightarrow> palette" where
  "pal_of p = map (\<lambda>(k, c). (nrgb (tlist p ! k), c)) (take (numColors p) (tentry p))"

subsection \<open>The invariant\<close>

fun chain :: "tp_node list \<Rightarrow> nat option \<Rightarrow> nat list \<Rightarrow> bool" where
  "chain l cur [] \<longleftrightarrow> cur = None"
| "chain l cur (q # qs) \<longleftrightarrow> cur = Some q \<and> chain l (nxt (l ! q)) qs"

definition bucket :: "tp_node list \<Rightarrow> nat \<Rightarrow> nat \<Rightarrow> nat list" where
  "bucket l n k = filter (\<lambda>j. hashFunc (nrgb (l ! j)) = k) [0..<n]"

definition ents_ok :: "(nat \<times> int) list \<Rightarrow> tp_node list \<Rightarrow> bool" where
  "ents_ok es l \<longleftrightarrow> distinct (map fst es) \<and> fst ` set es = {..<length es} \<and>
     (\<forall>i < length es. nidx (l ! fst (es ! i)) = i) \<and> sorted_wrt (\<lambda>a b. snd a \<ge> snd b) es"

definition tp_inv :: "tight_palette \<Rightarrow> bool" where
  "tp_inv p \<longleftrightarrow> numColors p \<le> maxColors p \<and> maxColors p \<le> 254 \<and>
     length (tentry p) = 256 \<and> length (thash p) = 256 \<and> length (tlist p) = 256 \<and>
     ents_ok (take (numColors p) (tentry p)) (tlist p) \<and>
     inj_on (\<lambda>j. nrgb (tlist p ! j)) {..<numColors p} \<and>
     (\<forall>k < 256. chain (tlist p) (thash p ! k) (bucket (tlist p) (numColors p) k))"

lemma hashFunc_less: "hashFunc rgb < 256"
proof -
  have "(rgb XOR drop_bit 13 rgb) AND 0xff \<le> 0xff" by (simp add: word_and_le1)
  then show ?thesis by (simp add: hashFunc_def word_le_nat_alt)
qed

subsection \<open>Chains\<close>

lemma walk_found:
  "chain l cur qs \<Longrightarrow> length qs \<le> fuel \<Longrightarrow> q \<in> set qs \<Longrightarrow> nrgb (l ! q) = rgb \<Longrightarrow>
   inj_on (\<lambda>j. nrgb (l ! j)) (set qs) \<Longrightarrow> \<exists>pr. walk fuel l rgb prev cur = Some (pr, Some q)"
proof (induction qs arbitrary: fuel prev cur)
  case (Cons a qs)
  then obtain f where f: "fuel = Suc f" by (cases fuel) simp_all
  show ?case
  proof (cases "nrgb (l ! a) = rgb")
    case True
    then have "a = q" using Cons.prems(3-5) by (auto simp: inj_on_def)
    then show ?thesis using Cons.prems(1) True f by simp
  next
    case False
    then show ?thesis using Cons.prems f Cons.IH [of "nxt (l ! a)" f "Some a"] by (auto simp: inj_on_def)
  qed
qed simp

lemma walk_missing:
  "chain l cur qs \<Longrightarrow> length qs \<le> fuel \<Longrightarrow> \<forall>q \<in> set qs. nrgb (l ! q) \<noteq> rgb \<Longrightarrow>
   walk fuel l rgb prev cur = Some (if qs = [] then prev else Some (last qs), None)"
proof (induction qs arbitrary: fuel prev cur)
  case (Cons a qs)
  then obtain f where f: "fuel = Suc f" by (cases fuel) simp_all
  show ?case using Cons.prems Cons.IH [of "nxt (l ! a)" f "Some a"] f by simp
qed simp

lemma chain_cong:
  "(\<And>q. q \<in> set qs \<Longrightarrow> nxt (l' ! q) = nxt (l ! q)) \<Longrightarrow> chain l' cur qs = chain l cur qs"
  by (induction qs arbitrary: cur) simp_all

lemma chain_snoc:
  "chain l cur qs \<Longrightarrow> qs \<noteq> [] \<Longrightarrow> n \<notin> set qs \<Longrightarrow> distinct qs \<Longrightarrow> nxt (l' ! n) = None \<Longrightarrow>
   (\<And>q. q \<in> set qs \<Longrightarrow> nxt (l' ! q) = (if q = last qs then Some n else nxt (l ! q))) \<Longrightarrow> chain l' cur (qs @ [n])"
proof (induction qs arbitrary: cur)
  case (Cons a qs)
  show ?case
  proof (cases "qs = []")
    case True
    then show ?thesis using Cons.prems by simp
  next
    case False
    then have "a \<noteq> last qs" using Cons.prems(4) by auto
    then have "nxt (l' ! a) = nxt (l ! a)" using Cons.prems(6) [of a] False by simp
    moreover have "chain l' (nxt (l ! a)) (qs @ [n])"
      by (rule Cons.IH) (use Cons.prems False in auto)
    ultimately show ?thesis using Cons.prems(1) by simp
  qed
qed simp

subsection \<open>Moving entries\<close>

lemma move_down_entries:
  assumes "move_down e l k c = (e', l', k')" and "k < length e"
  shows "k' \<le> k \<and> (\<forall>i. k' \<le> i \<longrightarrow> i < k \<longrightarrow> snd (e ! i) < c) \<and> (0 < k' \<longrightarrow> c \<le> snd (e ! (k' - 1))) \<and>
    length e' = length e \<and> (\<forall>v. e'[k' := v] = take k' e @ v # drop k' (take k e) @ drop (Suc k) e) \<and>
    (k' = k \<longrightarrow> e' = e)"
  using assms
proof (induction e l k c rule: move_down.induct)
  case (1 e l c)
  then show ?case by (cases e) auto
next
  case (2 e l k c)
  show ?case
  proof (cases "snd (e ! k) < c")
    case False
    then have r: "e' = e" "k' = Suc k" using 2(2) by simp_all
    have "e[Suc k := v] = take (Suc k) e @ v # drop (Suc (Suc k)) e" for v
      using 2(3) by (rule upd_conv_take_nth_drop)
    then show ?thesis using False r 2(3) by simp
  next
    case True
    let ?e = "e[Suc k := e ! k]"
    have IH: "k' \<le> k" "\<And>i. k' \<le> i \<Longrightarrow> i < k \<Longrightarrow> snd (?e ! i) < c" "0 < k' \<Longrightarrow> c \<le> snd (?e ! (k' - 1))"
      "length e' = length ?e" "\<And>v. e'[k' := v] = take k' ?e @ v # drop k' (take k ?e) @ drop (Suc k) ?e"
      using 2(1) [OF True] 2(2,3) True by auto
    have d: "drop (Suc k) ?e = e ! k # drop (Suc (Suc k)) e"
      using 2(3) by (simp add: drop_update_swap Cons_nth_drop_Suc [symmetric])
    have t: "take k' ?e = take k' e" "take k ?e = take k e" using IH(1) by simp_all
    have t2: "drop k' (take (Suc k) e) = drop k' (take k e) @ [e ! k]"
      using IH(1) 2(3) by (simp add: take_Suc_conv_app_nth)
    have i: "snd (e ! i) < c" if "k' \<le> i" "i < Suc k" for i
      using IH(2) [of i] that True by (cases "i = k") auto
    have n: "c \<le> snd (e ! (k' - 1))" if "0 < k'" using IH(1,3) that by simp
    show ?thesis using IH(1,4,5) d t t2 i n by simp
  qed
qed

lemma move_down_nodes:
  assumes "move_down e l k c = (e', l', k')" and "k < length e" and "distinct (map fst (take k e))"
    and "\<forall>i < k. fst (e ! i) < length l"
  shows "length l' = length l \<and> map nxt l' = map nxt l \<and> map nrgb l' = map nrgb l \<and>
    (\<forall>i. k' \<le> i \<longrightarrow> i < k \<longrightarrow> nidx (l' ! fst (e ! i)) = Suc i) \<and>
    (\<forall>j. (\<forall>i. k' \<le> i \<longrightarrow> i < k \<longrightarrow> j \<noteq> fst (e ! i)) \<longrightarrow> l' ! j = l ! j)"
  using assms
proof (induction e l k c rule: move_down.induct)
  case (2 e l k c)
  show ?case
  proof (cases "snd (e ! k) < c")
    case False
    then show ?thesis using 2(2) by auto
  next
    case True
    let ?e = "e[Suc k := e ! k]" and ?q = "fst (e ! k)"
    let ?l = "l[?q := (l ! ?q)\<lparr>nidx := Suc k\<rparr>]"
    have q: "?q < length l" using 2(5) by simp
    have nth: "?e ! i = e ! i" if "i \<le> k" for i using that by simp
    have dis: "distinct (map fst (take (Suc k) e))" using 2(4) .
    have ne: "fst (e ! i) \<noteq> ?q" if "i < k" for i
      using dis that 2(3) by (auto simp: distinct_conv_nth)
    have m: "move_down ?e ?l k c = (e', l', k')" using 2(2) True by simp
    have dk: "distinct (map fst (take k ?e))" using dis 2(3) by (simp add: take_Suc_conv_app_nth)
    have IH: "length l' = length ?l" "map nxt l' = map nxt ?l" "map nrgb l' = map nrgb ?l"
      "\<And>i. k' \<le> i \<Longrightarrow> i < k \<Longrightarrow> nidx (l' ! fst (?e ! i)) = Suc i"
      "\<And>j. (\<forall>i. k' \<le> i \<longrightarrow> i < k \<longrightarrow> j \<noteq> fst (?e ! i)) \<Longrightarrow> l' ! j = ?l ! j"
      using 2(1) [OF True m _ dk] 2(3,5) by auto
    have kk: "k' \<le> k" using move_down_entries [OF m] 2(3) by simp
    have mp: "map nxt ?l = map nxt l" "map nrgb ?l = map nrgb l"
      using q by (simp_all add: map_update list_update_same_conv)
    have iq: "nidx (l' ! fst (e ! i)) = Suc i" if "k' \<le> i" "i < Suc k" for i
    proof (cases "i = k")
      case True
      have "\<forall>i. k' \<le> i \<longrightarrow> i < k \<longrightarrow> ?q \<noteq> fst (?e ! i)" using ne [symmetric] by simp
      then have "l' ! ?q = ?l ! ?q" by (rule IH(5))
      then show ?thesis using True q by simp
    next
      case False
      then show ?thesis using IH(4) [of i] that by simp
    qed
    have un: "l' ! j = l ! j" if j: "\<forall>i. k' \<le> i \<longrightarrow> i < Suc k \<longrightarrow> j \<noteq> fst (e ! i)" for j
    proof -
      have "j \<noteq> ?q" using j kk by auto
      moreover have "l' ! j = ?l ! j" by (rule IH(5)) (use j in auto)
      ultimately show ?thesis by simp
    qed
    show ?thesis using IH(1-3) mp iq un by simp
  qed
qed simp

text \<open>Putting an entry into the slot left free keeps the entries in order.\<close>

lemma sorted_move:
  assumes "sorted_wrt (\<lambda>a b. snd a \<ge> snd b) (xs :: ('a \<times> int) list)" and "k' \<le> length xs"
    and "\<And>i. k' \<le> i \<Longrightarrow> i < length xs \<Longrightarrow> snd (xs ! i) < c" and "0 < k' \<Longrightarrow> c \<le> snd (xs ! (k' - 1))"
  shows "take k' xs = takeWhile (\<lambda>e. c \<le> snd e) xs" and "drop k' xs = dropWhile (\<lambda>e. c \<le> snd e) xs"
proof -
  have ge: "c \<le> snd e" if e: "e \<in> set (take k' xs)" for e
  proof -
    obtain i where "i < length (take k' xs)" "take k' xs ! i = e" using e unfolding in_set_conv_nth by blast
    then have i: "e = xs ! i" "i < k'" by simp_all
    have "snd (xs ! (k' - 1)) \<le> snd (xs ! i)"
      using assms(1,2) i(2) by (cases "i = k' - 1") (auto simp: sorted_wrt_iff_nth_less)
    then show ?thesis using assms(4) i by simp
  qed
  have hd: "drop k' xs = [] \<or> \<not> c \<le> snd (hd (drop k' xs))"
    using assms(2,3) by (cases "k' < length xs") (auto simp: hd_drop_conv_nth not_le)
  have s: "xs = take k' xs @ drop k' xs" by simp
  have "takeWhile (\<lambda>e. c \<le> snd e) xs = take k' xs @ takeWhile (\<lambda>e. c \<le> snd e) (drop k' xs)"
    using takeWhile_append_all [of "take k' xs" "\<lambda>e. c \<le> snd e" "drop k' xs"] ge by simp
  then show "take k' xs = takeWhile (\<lambda>e. c \<le> snd e) xs" using takeWhile_hd_neg [of "drop k' xs" "\<lambda>e. c \<le> snd e"] hd by simp
  have "dropWhile (\<lambda>e. c \<le> snd e) xs = dropWhile (\<lambda>e. c \<le> snd e) (drop k' xs)"
    using dropWhile_append_all [of "take k' xs" "\<lambda>e. c \<le> snd e" "drop k' xs"] ge by simp
  then show "drop k' xs = dropWhile (\<lambda>e. c \<le> snd e) xs" using dropWhile_hd_neg [of "drop k' xs" "\<lambda>e. c \<le> snd e"] hd by simp
qed

lemma sorted_put:
  assumes "sorted_wrt (\<lambda>a b. snd a \<ge> snd b) (xs :: ('a \<times> int) list)"
  shows "sorted_wrt (\<lambda>a b. snd a \<ge> snd b)
    (takeWhile (\<lambda>e. c \<le> snd e) xs @ (v, c) # dropWhile (\<lambda>e. c \<le> snd e) xs)"
proof -
  let ?t = "takeWhile (\<lambda>e. c \<le> snd e) xs" and ?d = "dropWhile (\<lambda>e. c \<le> snd e) xs"
  have s: "sorted_wrt (\<lambda>a b. snd a \<ge> snd b) (?t @ ?d)" using assms by simp
  have t: "\<forall>y \<in> set ?t. c \<le> snd y" by (auto dest: set_takeWhileD)
  have d: "\<forall>y \<in> set ?d. snd y \<le> c"
  proof (cases ?d)
    case Nil
    show ?thesis unfolding Nil by simp
  next
    case (Cons y ys)
    have "\<not> c \<le> snd y" using Cons hd_dropWhile [of "\<lambda>e. c \<le> snd e" xs] by simp
    moreover have "sorted_wrt (\<lambda>a b. snd a \<ge> snd b) (y # ys)" using s unfolding sorted_wrt_append Cons by blast
    ultimately show ?thesis unfolding Cons by auto
  qed
  show ?thesis using s t d unfolding sorted_wrt_append by simp
qed

text \<open>The entries and nodes after a move, with the entry \<open>(q, c)\<close> put into the free slot \<open>k'\<close>: the
  prefix \<open>A\<close> stays, the moved part \<open>B\<close> is one place further, the rest \<open>C\<close> stays.\<close>

lemma ents_ok_put:
  assumes "distinct (map fst (A @ (q, c) # B @ C))" and "fst ` set (A @ (q, c) # B @ C) = {..<length (A @ (q, c) # B @ C)}"
    and "sorted_wrt (\<lambda>a b. snd a \<ge> snd b) (A @ (q, c) # B @ C)"
    and "\<And>i. i < length A \<Longrightarrow> nidx (l ! fst (A ! i)) = i" and "nidx (l ! q) = length A"
    and "\<And>i. i < length B \<Longrightarrow> nidx (l ! fst (B ! i)) = Suc (length A + i)"
    and "\<And>i. i < length C \<Longrightarrow> nidx (l ! fst (C ! i)) = Suc (length A + length B + i)"
  shows "ents_ok (A @ (q, c) # B @ C) l"
proof -
  have "nidx (l ! fst ((A @ (q, c) # B @ C) ! i)) = i" if il: "i < length (A @ (q, c) # B @ C)" for i
  proof -
    consider "i < length A" | "i = length A" | j where "i = Suc (length A + j)" "j < length B"
      | j where "i = Suc (length A + length B + j)" "j < length C"
    proof -
      assume a: "i < length A \<Longrightarrow> thesis" "i = length A \<Longrightarrow> thesis"
        "\<And>j. i = Suc (length A + j) \<Longrightarrow> j < length B \<Longrightarrow> thesis"
        "\<And>j. i = Suc (length A + length B + j) \<Longrightarrow> j < length C \<Longrightarrow> thesis"
      show thesis
      proof (cases "i \<le> length A")
        case True
        then show thesis using a(1,2) by linarith
      next
        case False
        then obtain j where j: "i = Suc (length A + j)" by (metis add_Suc_right less_imp_Suc_add not_le)
        show thesis
        proof (cases "j < length B")
          case True
          then show thesis using a(3) j by blast
        next
          case False
          then obtain j' where "j = length B + j'" by (metis le_Suc_ex not_less)
          then show thesis using a(4) [of j'] j il by simp
        qed
      qed
    qed
    then show ?thesis by cases (use assms(4-7) in \<open>simp_all add: nth_append\<close>)
  qed
  then show ?thesis using assms(1-3) unfolding ents_ok_def by blast
qed

lemma sorted_drop_nth:
  "sorted_wrt P (A @ B @ e # C) \<Longrightarrow> sorted_wrt P (A @ B @ C)"
  by (auto simp: sorted_wrt_append)

text \<open>Both cases of \<open>insert\<close>: entry \<open>k\<close> is the old entry of the node \<open>q\<close>, or \<open>k\<close> is the first free
  slot and \<open>q\<close> the first free node.\<close>

lemma ents_moved:
  fixes e :: "(nat \<times> int) list"
  assumes ok: "ents_ok (take n e) l" and m: "move_down e l k c = (e', l', k')" and k: "k \<le> n" "n < length e"
    and ll: "n \<le> length l" and old: "k < n \<Longrightarrow> q = fst (e ! k) \<and> snd (e ! k) < c" and new: "k = n \<Longrightarrow> q = n"
    and l2: "\<And>j. j \<noteq> q \<Longrightarrow> nidx (l2 ! j) = nidx (l' ! j)" "nidx (l2 ! q) = k'"
  defines "A \<equiv> take k' e" and "B \<equiv> drop k' (take k e)" and "C \<equiv> drop (Suc k) (take n e)"
  shows "take (max n (Suc k)) (e'[k' := (q, c)]) = A @ (q, c) # B @ C" and "ents_ok (A @ (q, c) # B @ C) l2"
    and "A = takeWhile (\<lambda>x. c \<le> snd x) (A @ B @ C)" and "B @ C = dropWhile (\<lambda>x. c \<le> snd x) (A @ B @ C)"
    and "take n e = (if k < n then A @ B @ e ! k # C else A @ B @ C)"
proof -
  have kl: "k < length e" using k by simp
  note mv = move_down_entries [OF m kl]
  have kk: "k' \<le> k" and low: "\<And>i. k' \<le> i \<Longrightarrow> i < k \<Longrightarrow> snd (e ! i) < c" and hi: "0 < k' \<Longrightarrow> c \<le> snd (e ! (k' - 1))"
    using mv by blast+
  have upd: "e'[k' := v] = A @ v # B @ drop (Suc k) e" for v using mv unfolding A_def B_def by blast
  have lA: "length A = k'" and lB: "length B = k - k'" using kk k by (simp_all add: A_def B_def)
  have AB: "A @ B = take k e" unfolding A_def B_def using kk by (metis append_take_drop_id min.absorb1 take_take)
  show dec: "take n e = (if k < n then A @ B @ e ! k # C else A @ B @ C)"
  proof (cases "k < n")
    case True
    have "take n e = take k (take n e) @ take n e ! k # drop (Suc k) (take n e)"
      using True k by (intro id_take_nth_drop) simp
    then have "take n e = (A @ B) @ e ! k # C" unfolding AB C_def using True by (simp add: min_absorb1)
    then show ?thesis using True by simp
  next
    case False
    then show ?thesis using AB k(1) by (simp add: C_def)
  qed
  have Ce: "C = take (n - Suc k) (drop (Suc k) e)" by (simp add: C_def drop_take)
  show tk: "take (max n (Suc k)) (e'[k' := (q, c)]) = A @ (q, c) # B @ C"
    unfolding upd using k lA lB kk by (cases "k < n") (auto simp: Ce take_Cons' max_def)
  have srt: "sorted_wrt (\<lambda>a b. snd a \<ge> snd b) (A @ B @ C)"
    using ok dec sorted_drop_nth unfolding ents_ok_def by (cases "k < n") auto
  have nth: "(A @ B @ C) ! i = (if i < k then e ! i else e ! Suc i)" if "i < length (A @ B @ C)" for i
  proof (cases "i < k")
    case True
    have "(A @ B @ C) ! i = ((A @ B) @ C) ! i" by simp
    then show ?thesis unfolding AB using True k by (simp add: nth_append)
  next
    case False
    have "(A @ B @ C) ! i = ((A @ B) @ C) ! i" by simp
    then show ?thesis unfolding AB using False k that lA lB kk by (simp add: nth_append C_def)
  qed
  have lC: "length C = n - Suc k" using k by (simp add: C_def)
  have small: "snd ((A @ B @ C) ! i) < c" if i: "k' \<le> i" "i < length (A @ B @ C)" for i
  proof (cases "i < k")
    case True
    then show ?thesis using nth [OF i(2)] low [OF i(1)] by simp
  next
    case False
    then have kn: "k < n" "Suc i < n" using i(2) lA lB lC kk by auto
    have "snd (take n e ! Suc i) \<le> snd (take n e ! k)"
      using ok kn False k by (auto simp: ents_ok_def sorted_wrt_iff_nth_less)
    then show ?thesis using nth [OF i(2)] False kn old k by simp
  qed
  have big: "c \<le> snd ((A @ B @ C) ! (k' - 1))" if "0 < k'"
  proof -
    have "k' - 1 < k" "k' - 1 < length (A @ B @ C)" using that kk lA by auto
    then show ?thesis using nth [of "k' - 1"] hi [OF that] by simp
  qed
  have kl: "k' \<le> length (A @ B @ C)" using lA by simp
  have tA: "take k' (A @ B @ C) = A" "drop k' (A @ B @ C) = B @ C" using lA by simp_all
  show "A = takeWhile (\<lambda>x. c \<le> snd x) (A @ B @ C)" "B @ C = dropWhile (\<lambda>x. c \<le> snd x) (A @ B @ C)"
    using sorted_move [OF srt kl small big] unfolding tA by simp_all
  moreover have "sorted_wrt (\<lambda>a b. snd a \<ge> snd b)
      (takeWhile (\<lambda>x. c \<le> snd x) (A @ B @ C) @ (q, c) # dropWhile (\<lambda>x. c \<le> snd x) (A @ B @ C))"
    by (rule sorted_put [OF srt])
  ultimately have srt2: "sorted_wrt (\<lambda>a b. snd a \<ge> snd b) (A @ (q, c) # B @ C)" by simp
  have len: "length (take n e) = n" using k by simp
  have dis: "distinct (map fst (A @ (q, c) # B @ C)) \<and>
      fst ` set (A @ (q, c) # B @ C) = {..<length (A @ (q, c) # B @ C)}"
  proof (cases "k < n")
    case True
    then have "map fst (take n e) = map fst A @ map fst B @ q # map fst C" using dec old by simp
    moreover have "length (A @ (q, c) # B @ C) = n" using True lA lB lC kk by simp
    moreover have "fst ` set (take n e) = {..<n}" "distinct (map fst (take n e))"
      using ok len by (simp_all add: ents_ok_def)
    ultimately show ?thesis using dec old True by auto
  next
    case False
    then have kn: "k = n" using k by simp
    then have C: "C = []" by (simp add: C_def)
    have "take n e = A @ B" using dec kn C by simp
    moreover have "length (A @ (q, c) # B @ C) = Suc n" using lA lB kk kn C by simp
    moreover have "fst ` set (take n e) = {..<n}" "distinct (map fst (take n e))"
      using ok len by (simp_all add: ents_ok_def)
    ultimately show ?thesis using new [OF kn] C by auto
  qed
  have fd: "fst (e ! i) \<noteq> fst (e ! j)" if "i < n" "j < n" "i \<noteq> j" for i j
  proof -
    have "map fst (take n e) ! i \<noteq> map fst (take n e) ! j"
      using ok that len unfolding ents_ok_def by (simp add: distinct_conv_nth)
    then show ?thesis using that k by simp
  qed
  have fl: "fst (e ! i) < n" if "i < n" for i
  proof -
    have "take n e ! i \<in> set (take n e)" using that len by (intro nth_mem) simp
    then have "fst (take n e ! i) \<in> {..<n}" using ok len unfolding ents_ok_def by (metis imageI)
    then show ?thesis using that by simp
  qed
  have qd: "fst (e ! i) \<noteq> q" if "i < n" "i \<noteq> k" for i
  proof (cases "k < n")
    case True
    then show ?thesis using old fd [of i k] that by simp
  next
    case False
    then show ?thesis using new k fl [OF that(1)] by simp
  qed
  have dk: "distinct (map fst (take k e))"
    using ok k unfolding ents_ok_def by (metis distinct_take min.absorb1 take_map take_take)
  have fk: "\<forall>i<k. fst (e ! i) < length l" using fl ll k by (meson less_le_trans)
  note mn = move_down_nodes [OF m _ dk fk]
  have mvd: "nidx (l' ! fst (e ! i)) = Suc i" if "k' \<le> i" "i < k" for i using mn that k by simp
  have kept: "nidx (l' ! fst (e ! i)) = i" if i: "i < n" "i < k' \<or> k < i" for i
  proof -
    have "l' ! fst (e ! i) = l ! fst (e ! i)"
    proof -
      have "fst (e ! i) \<noteq> fst (e ! i')" if "k' \<le> i'" "i' < k" for i'
        using fd [of i i'] i that k by auto
      moreover have "k < length e" using k by simp
      ultimately show ?thesis using mn by blast
    qed
    moreover have "nidx (l ! fst (take n e ! i)) = i" using ok i len unfolding ents_ok_def by simp
    ultimately show ?thesis using i by simp
  qed
  show "ents_ok (A @ (q, c) # B @ C) l2"
  proof (rule ents_ok_put)
    show "distinct (map fst (A @ (q, c) # B @ C))" "fst ` set (A @ (q, c) # B @ C) = {..<length (A @ (q, c) # B @ C)}"
      using dis by blast+
    show "sorted_wrt (\<lambda>a b. snd a \<ge> snd b) (A @ (q, c) # B @ C)" by (rule srt2)
    show "nidx (l2 ! q) = length A" using l2(2) lA by simp
    show "nidx (l2 ! fst (A ! i)) = i" if "i < length A" for i
      using that lA kk k qd [of i] kept [of i] l2(1) [of "fst (e ! i)"] by (simp add: A_def)
    show "nidx (l2 ! fst (B ! i)) = Suc (length A + i)" if "i < length B" for i
      using that lA lB kk k qd [of "k' + i"] mvd [of "k' + i"] l2(1) [of "fst (e ! (k' + i))"] by (simp add: B_def)
    show "nidx (l2 ! fst (C ! i)) = Suc (length A + length B + i)" if "i < length C" for i
      using that lA lB lC kk k qd [of "Suc (k + i)"] kept [of "Suc (k + i)"] l2(1) [of "fst (e ! Suc (k + i))"]
      by (simp add: C_def)
  qed
qed

subsection \<open>The operations implement the abstract palette\<close>

lemma pal_of_take: "pal_of p = map (\<lambda>x. (nrgb (tlist p ! fst x), snd x)) (take (numColors p) (tentry p))"
  by (simp add: pal_of_def case_prod_unfold)

lemma tp_inv_node:
  assumes "tp_inv p" and "j < numColors p"
  shows "nidx (tlist p ! j) < numColors p" and "fst (tentry p ! nidx (tlist p ! j)) = j"
proof -
  have len: "length (take (numColors p) (tentry p)) = numColors p" using assms(1) by (simp add: tp_inv_def)
  have "j \<in> fst ` set (take (numColors p) (tentry p))"
    using assms len by (simp add: tp_inv_def ents_ok_def)
  then obtain x where x: "x \<in> set (take (numColors p) (tentry p))" "j = fst x" by auto
  obtain i where i: "i < length (take (numColors p) (tentry p))" "take (numColors p) (tentry p) ! i = x"
    using x(1) unfolding in_set_conv_nth by blast
  have "nidx (tlist p ! fst (take (numColors p) (tentry p) ! i)) = i"
    using assms(1) i(1) by (simp add: tp_inv_def ents_ok_def)
  then show "nidx (tlist p ! j) < numColors p" "fst (tentry p ! nidx (tlist p ! j)) = j"
    using i x(2) len by auto
qed

lemma pal_of_keys: "tp_inv p \<Longrightarrow> fst ` set (pal_of p) = (\<lambda>j. nrgb (tlist p ! j)) ` {..<numColors p}"
proof -
  assume i: "tp_inv p"
  have "fst ` set (pal_of p) = (\<lambda>j. nrgb (tlist p ! j)) ` fst ` set (take (numColors p) (tentry p))"
    by (simp add: pal_of_take image_image)
  then show ?thesis using i by (simp add: tp_inv_def ents_ok_def min_absorb2)
qed

lemma bucket_props:
  "set (bucket l n k) = {j. j < n \<and> hashFunc (nrgb (l ! j)) = k}" "distinct (bucket l n k)" "length (bucket l n k) \<le> n"
  using length_filter_le [of _ "[0..<n]"] by (auto simp: bucket_def)

lemma walk_present:
  assumes i: "tp_inv p" and j: "j < numColors p" "nrgb (tlist p ! j) = rgb"
  shows "\<exists>pr. walk 256 (tlist p) rgb prev (thash p ! hashFunc rgb) = Some (pr, Some j)"
proof (rule walk_found)
  let ?b = "bucket (tlist p) (numColors p) (hashFunc rgb)"
  show "chain (tlist p) (thash p ! hashFunc rgb) ?b" using i hashFunc_less by (simp add: tp_inv_def)
  show "length ?b \<le> 256" using i bucket_props(3) [of "tlist p" "numColors p" "hashFunc rgb"] by (simp add: tp_inv_def)
  show "j \<in> set ?b" using j by (simp add: bucket_props(1))
  show "nrgb (tlist p ! j) = rgb" by (rule j)
  show "inj_on (\<lambda>j. nrgb (tlist p ! j)) (set ?b)"
    using i by (auto simp: tp_inv_def bucket_props(1) intro: inj_on_subset)
qed

lemma walk_absent:
  assumes i: "tp_inv p" and a: "rgb \<notin> fst ` set (pal_of p)"
  defines "b \<equiv> bucket (tlist p) (numColors p) (hashFunc rgb)"
  shows "walk 256 (tlist p) rgb None (thash p ! hashFunc rgb) = Some (if b = [] then None else Some (last b), None)"
proof (rule walk_missing)
  show "chain (tlist p) (thash p ! hashFunc rgb) b" using i hashFunc_less by (simp add: tp_inv_def b_def)
  show "length b \<le> 256" using i bucket_props(3) [of "tlist p" "numColors p" "hashFunc rgb"] by (simp add: tp_inv_def b_def)
  show "\<forall>q \<in> set b. nrgb (tlist p ! q) \<noteq> rgb"
    using a unfolding pal_of_keys [OF i] b_def bucket_props(1) by auto
qed

lemma map_of_entry:
  assumes "distinct (map fst xs)" and "i < length xs"
  shows "map_of xs (fst (xs ! i)) = Some (snd (xs ! i))"
  using assms by (simp add: map_of_eq_Some_iff)

lemma pal_of_distinct: "tp_inv p \<Longrightarrow> distinct (map fst (pal_of p))"
proof -
  assume i: "tp_inv p"
  have "map fst (pal_of p) = map (\<lambda>j. nrgb (tlist p ! j)) (map fst (take (numColors p) (tentry p)))"
    by (simp add: pal_of_take)
  moreover have "inj_on (\<lambda>j. nrgb (tlist p ! j)) (set (map fst (take (numColors p) (tentry p))))"
    using i by (simp add: tp_inv_def ents_ok_def min_absorb2)
  moreover have "distinct (map fst (take (numColors p) (tentry p)))" using i by (simp add: tp_inv_def ents_ok_def)
  ultimately show ?thesis by (simp add: distinct_map del: map_map)
qed

lemma pal_put_moved:
  assumes "A = takeWhile (\<lambda>x. c \<le> snd x) (A @ B @ C)" and "B @ C = dropWhile (\<lambda>x. c \<le> snd x) (A @ B @ C)"
  shows "pal_put rgb c (map (\<lambda>x. (g (fst x), snd x)) (A @ B @ C)) =
    map (\<lambda>x. (g (fst x), snd x)) A @ (rgb, c) # map (\<lambda>x. (g (fst x), snd x)) (B @ C)"
proof -
  let ?f = "\<lambda>x. (g (fst x), snd x)" and ?P = "\<lambda>x. c \<le> snd x"
  have o: "(\<lambda>x. ?P (?f x)) = ?P" by simp
  have "takeWhile ?P (map ?f (A @ B @ C)) = map ?f (takeWhile ?P (A @ B @ C))"
    "dropWhile ?P (map ?f (A @ B @ C)) = map ?f (dropWhile ?P (A @ B @ C))"
    by (simp_all only: takeWhile_map dropWhile_map comp_def o snd_conv)
  then show ?thesis unfolding pal_put_def assms [symmetric] by simp
qed

lemma same_nodes:
  assumes "map f l' = map f l" and "i < length l" and "length l' = length l"
  shows "f (l' ! i) = f (l ! i)"
  using assms by (metis nth_map)

lemma filter_key:
  assumes "distinct (map fst (xs @ (k, v) # ys))"
  shows "filter (\<lambda>e. fst e \<noteq> k) (xs @ (k, v) # ys) = xs @ ys"
proof -
  have "fst e \<noteq> k" if "e \<in> set xs \<or> e \<in> set ys" for e using assms that by auto
  then show ?thesis by (simp add: filter_id_conv)
qed

lemma tp_insert_present:
  assumes i: "tp_inv p" and c: "map_of (pal_of p) rgb = Some c" and n: "0 < n"
  shows "\<exists>p'. tp_insert p rgb n = Some (int (numColors p), p') \<and> tp_inv p' \<and> maxColors p' = maxColors p \<and>
    numColors p' = numColors p \<and> pal_of p' = pal_put rgb (c + n) (filter (\<lambda>e. fst e \<noteq> rgb) (pal_of p))"
proof -
  let ?N = "numColors p" and ?e = "tentry p" and ?l = "tlist p"
  have N: "?N \<le> 254" "length ?e = 256" "length ?l = 256" and ok: "ents_ok (take ?N ?e) ?l"
    using i by (auto simp: tp_inv_def)
  have "rgb \<in> fst ` set (pal_of p)" using map_of_SomeD [OF c] by force
  then obtain j where j: "j < ?N" "nrgb (?l ! j) = rgb" unfolding pal_of_keys [OF i] by auto
  define k where "k = nidx (?l ! j)"
  have k: "k < ?N" "fst (?e ! k) = j" using tp_inv_node [OF i j(1)] by (simp_all add: k_def)
  have pk: "pal_of p ! k = (rgb, snd (?e ! k))" and lp: "length (pal_of p) = ?N"
    using k j N by (simp_all add: pal_of_take)
  have ck: "c = snd (?e ! k)" using map_of_entry [OF pal_of_distinct [OF i], of k] pk lp k c by simp
  obtain e' l' k' where m: "move_down ?e ?l k (c + n) = (e', l', k')" by (cases "move_down ?e ?l k (c + n)") auto
  have kl: "k < length ?e" using k N by simp
  note mv = move_down_entries [OF m kl]
  define l2 where "l2 = (if k' \<noteq> k then l'[j := (l' ! j)\<lparr>nidx := k'\<rparr>] else l')"
  have len: "length (take ?N ?e) = ?N" using N by simp
  have fl: "fst (?e ! a) < ?N" if "a < ?N" for a
  proof -
    have "fst (take ?N ?e ! a) \<in> fst ` set (take ?N ?e)" using that len by (intro imageI nth_mem) simp
    then show ?thesis using ok that len by (simp add: ents_ok_def)
  qed
  have dk: "distinct (map fst (take k ?e))"
    using ok k unfolding ents_ok_def by (metis distinct_take min.absorb1 less_imp_le take_map take_take)
  have fk: "\<forall>a<k. fst (?e ! a) < length ?l"
  proof (intro allI impI)
    fix a assume "a < k"
    then have "fst (?e ! a) < ?N" using fl k by simp
    then show "fst (?e ! a) < length ?l" using N by simp
  qed
  note mn = move_down_nodes [OF m kl dk fk]
  have jl: "j < length l'" using mn j N by simp
  have lj: "nidx (l2 ! j) = k'"
  proof (cases "k' = k")
    case True
    then have "l' ! j = ?l ! j" using mn by auto
    then show ?thesis using True by (simp add: l2_def k_def)
  qed (simp add: l2_def jl)
  have lo: "a \<noteq> j \<Longrightarrow> nidx (l2 ! a) = nidx (l' ! a)" for a by (simp add: l2_def)
  have sn: "nrgb (l' ! j) = nrgb (?l ! j)" "nxt (l' ! j) = nxt (?l ! j)" using mn jl by (auto intro: same_nodes)
  have maps: "map nrgb l2 = map nrgb ?l" "map nxt l2 = map nxt ?l" "length l2 = length ?l"
    using mn jl sn by (auto simp: l2_def map_update list_update_same_conv)
  let ?A = "take k' ?e" and ?B = "drop k' (take k ?e)" and ?C = "drop (Suc k) (take ?N ?e)"
  have kN: "k \<le> ?N" "?N < length ?e" "?N \<le> length ?l" using k N by simp_all
  have em: "take (max ?N (Suc k)) (e'[k' := (j, c + n)]) = ?A @ (j, c + n) # ?B @ ?C"
      "ents_ok (?A @ (j, c + n) # ?B @ ?C) l2"
      "?A = takeWhile (\<lambda>x. c + n \<le> snd x) (?A @ ?B @ ?C)" "?B @ ?C = dropWhile (\<lambda>x. c + n \<le> snd x) (?A @ ?B @ ?C)"
      "take ?N ?e = (if k < ?N then ?A @ ?B @ ?e ! k # ?C else ?A @ ?B @ ?C)"
    using ents_moved [OF ok m kN _ _ lo lj] k ck n by simp_all
  have mx: "max ?N (Suc k) = ?N" using k by simp
  let ?p = "p\<lparr>tentry := e'[k' := (j, c + n)], tlist := l2\<rparr>"
  have e3: "(if k' \<noteq> k then e'[k' := (j, snd (e' ! k'))] else e')[k' := (fst ((if k' \<noteq> k then e'[k' := (j, snd (e' ! k'))] else e') ! k'), c + n)] =
      e'[k' := (j, c + n)]"
  proof (cases "k' = k")
    case True
    then show ?thesis using mv k by simp
  next
    case False
    have "k' < length e'" using mv kl by simp
    then show ?thesis using False by simp
  qed
  obtain pr where w: "walk 256 ?l rgb None (thash p ! hashFunc rgb) = Some (pr, Some j)"
    using walk_present [OF i j] by blast
  have ins: "tp_insert p rgb n = Some (int ?N, ?p)"
    unfolding tp_insert_def w using m e3 ck
    by (cases "k' = k") (simp_all add: Let_def k_def [symmetric] l2_def)
  have nr: "nrgb (l2 ! a) = nrgb (?l ! a)" "nxt (l2 ! a) = nxt (?l ! a)" if "a < 256" for a
    using same_nodes [OF maps(1)] same_nodes [OF maps(2)] maps(3) that N by simp_all
  have bk: "bucket l2 ?N h = bucket ?l ?N h" for h
    unfolding bucket_def by (rule filter_cong) (use nr N in simp_all)
  have ch: "chain l2 cur (bucket ?l ?N h) = chain ?l cur (bucket ?l ?N h)" for cur h
    by (rule chain_cong) (use nr N bucket_props(1) in auto)
  have inj: "inj_on (\<lambda>j. nrgb (l2 ! j)) {..<?N}"
  proof -
    have "inj_on (\<lambda>j. nrgb (l2 ! j)) {..<?N} \<longleftrightarrow> inj_on (\<lambda>j. nrgb (?l ! j)) {..<?N}"
      by (rule inj_on_cong) (use nr N in simp_all)
    then show ?thesis using i by (simp add: tp_inv_def)
  qed
  have tk: "take ?N (e'[k' := (j, c + n)]) = ?A @ (j, c + n) # ?B @ ?C" using em(1) mx by simp
  have "length e' = length ?e" using mv by blast
  then have "length (e'[k' := (j, c + n)]) = 256" by (simp only: length_list_update N)
  then have inv: "tp_inv ?p"
    using i em(2) tk maps(3) inj unfolding tp_inv_def by (simp add: bk ch)
  have "map (\<lambda>x. (nrgb (l2 ! fst x), snd x)) (?A @ (j, c + n) # ?B @ ?C) =
      map (\<lambda>x. (nrgb (?l ! fst x), snd x)) (?A @ (j, c + n) # ?B @ ?C)"
  proof (rule map_cong [OF refl])
    fix x assume "x \<in> set (?A @ (j, c + n) # ?B @ ?C)"
    moreover have "set (take ?N ?e) = set (?A @ ?B @ ?e ! k # ?C)" using em(5) k(1) by (simp only: if_True)
    ultimately have "x = (j, c + n) \<or> x \<in> set (take ?N ?e)" unfolding set_append list.set(2) by blast
    then have "fst x < ?N" using ok len j unfolding ents_ok_def by auto
    then show "(nrgb (l2 ! fst x), snd x) = (nrgb (?l ! fst x), snd x)" using nr N by simp
  qed
  then have pal': "pal_of ?p = map (\<lambda>x. (nrgb (?l ! fst x), snd x)) (?A @ (j, c + n) # ?B @ ?C)"
    using em(1) mx by (simp add: pal_of_take)
  have pal: "pal_of p = map (\<lambda>x. (nrgb (?l ! fst x), snd x)) (?A @ ?B) @ (rgb, snd (?e ! k)) # map (\<lambda>x. (nrgb (?l ! fst x), snd x)) ?C"
  proof -
    have "map (\<lambda>x. (nrgb (?l ! fst x), snd x)) (take ?N ?e) = map (\<lambda>x. (nrgb (?l ! fst x), snd x)) (?A @ ?B @ ?e ! k # ?C)"
      by (rule arg_cong [OF em(5) [unfolded if_P [OF k(1)]]])
    then show ?thesis unfolding pal_of_take map_append list.map(2) using k j by (simp only: append_assoc)
  qed
  have "filter (\<lambda>e. fst e \<noteq> rgb) (pal_of p) = map (\<lambda>x. (nrgb (?l ! fst x), snd x)) (?A @ ?B @ ?C)"
    using filter_key [OF pal_of_distinct [OF i, unfolded pal]] unfolding pal by simp
  then have "pal_put rgb (c + n) (filter (\<lambda>e. fst e \<noteq> rgb) (pal_of p)) = pal_of ?p"
    using pal_put_moved [OF em(3,4), of rgb "\<lambda>j. nrgb (?l ! j)"] pal' j by simp
  then show ?thesis using ins inv by (intro exI [of _ ?p]) simp
qed

lemma tp_insert_full:
  assumes i: "tp_inv p" and a: "rgb \<notin> fst ` set (pal_of p)" and f: "numColors p = maxColors p"
  shows "tp_insert p rgb n = Some (0, p\<lparr>numColors := 0\<rparr>)"
  unfolding tp_insert_def walk_absent [OF i a] using f by simp

lemma tp_insert_new:
  assumes i: "tp_inv p" and a: "rgb \<notin> fst ` set (pal_of p)" and f: "numColors p < maxColors p"
  shows "\<exists>p'. tp_insert p rgb n = Some (int (numColors p + 1), p') \<and> tp_inv p' \<and> maxColors p' = maxColors p \<and>
    numColors p' = numColors p + 1 \<and> pal_of p' = pal_put rgb n (pal_of p)"
proof -
  let ?N = "numColors p" and ?e = "tentry p" and ?l = "tlist p" and ?h = "hashFunc rgb"
  let ?b = "bucket ?l ?N ?h"
  have N: "?N < 254" "length ?e = 256" "length ?l = 256" "length (thash p) = 256" and ok: "ents_ok (take ?N ?e) ?l"
    using i f by (auto simp: tp_inv_def)
  obtain e' l' k' where m: "move_down ?e ?l ?N n = (e', l', k')" by (cases "move_down ?e ?l ?N n") auto
  have kl: "?N < length ?e" using N by simp
  note mv = move_down_entries [OF m kl]
  have len: "length (take ?N ?e) = ?N" using N by simp
  have fl: "fst (?e ! a) < ?N" if "a < ?N" for a
  proof -
    have "fst (take ?N ?e ! a) \<in> fst ` set (take ?N ?e)" using that len by (intro imageI nth_mem) simp
    then show ?thesis using ok that len by (simp add: ents_ok_def)
  qed
  have dk: "distinct (map fst (take ?N ?e))" using ok unfolding ents_ok_def by blast
  have fk: "\<forall>a<?N. fst (?e ! a) < length ?l"
  proof (intro allI impI)
    fix a assume "a < ?N"
    then have "fst (?e ! a) < ?N" by (rule fl)
    then show "fst (?e ! a) < length ?l" using N by simp
  qed
  note mn = move_down_nodes [OF m kl dk fk]
  define l1 where "l1 = (if ?b = [] then l' else l'[last ?b := (l' ! last ?b)\<lparr>nxt := Some ?N\<rparr>])"
  define hs where "hs = (if ?b = [] then (thash p)[?h := Some ?N] else thash p)"
  define l2 where "l2 = l1[?N := \<lparr>nxt = None, nidx = k', nrgb = rgb\<rparr>]"
  have lb: "last ?b < ?N" if "?b \<noteq> []" using last_in_set [OF that] by (simp add: bucket_props(1))
  have len2: "length l' = 256" "length l1 = 256" "length l2 = 256" using mn N by (simp_all add: l1_def l2_def)
  have lN: "l2 ! ?N = \<lparr>nxt = None, nidx = k', nrgb = rgb\<rparr>" using len2 N by (simp add: l2_def)
  have lo: "nidx (l2 ! a) = nidx (l' ! a)" if "a \<noteq> ?N" for a
    using that lb len2 N by (cases "?b = []") (auto simp: l2_def l1_def nth_list_update)
  let ?p = "p\<lparr>tentry := e'[k' := (?N, n)], tlist := l2, thash := hs, numColors := ?N + 1\<rparr>"
  have ins: "tp_insert p rgb n = Some (int (?N + 1), ?p)"
    unfolding tp_insert_def walk_absent [OF i a] using m f N
    by (cases "?b = []") (simp_all add: Let_def l1_def l2_def hs_def)
  let ?A = "take k' ?e" and ?B = "drop k' (take ?N ?e)" and ?C = "drop (Suc ?N) (take ?N ?e)"
  have kN: "?N \<le> ?N" "?N < length ?e" "?N \<le> length ?l" using N by simp_all
  have em: "take (max ?N (Suc ?N)) (e'[k' := (?N, n)]) = ?A @ (?N, n) # ?B @ ?C"
      "ents_ok (?A @ (?N, n) # ?B @ ?C) l2"
      "?A = takeWhile (\<lambda>x. n \<le> snd x) (?A @ ?B @ ?C)" "?B @ ?C = dropWhile (\<lambda>x. n \<le> snd x) (?A @ ?B @ ?C)"
      "take ?N ?e = (if ?N < ?N then ?A @ ?B @ ?e ! ?N # ?C else ?A @ ?B @ ?C)"
    using ents_moved [OF ok m kN _ _ lo, of ?N] lN by simp_all
  have nr: "nrgb (l2 ! a) = nrgb (?l ! a)" "nxt (l2 ! a) = (if ?b \<noteq> [] \<and> a = last ?b then Some ?N else nxt (?l ! a))"
    if "a < ?N" for a
  proof -
    have "nrgb (l' ! a) = nrgb (?l ! a)" "nxt (l' ! a) = nxt (?l ! a)"
      using mn that N by (auto intro: same_nodes)
    then show "nrgb (l2 ! a) = nrgb (?l ! a)" "nxt (l2 ! a) = (if ?b \<noteq> [] \<and> a = last ?b then Some ?N else nxt (?l ! a))"
      using that len2 N lb by (auto simp: l2_def l1_def nth_list_update)
  qed
  have bk: "bucket l2 (Suc ?N) h = bucket ?l ?N h @ (if h = ?h then [?N] else [])" for h
  proof -
    have "filter (\<lambda>j. hashFunc (nrgb (l2 ! j)) = h) [0..<?N] = bucket ?l ?N h"
      unfolding bucket_def by (rule filter_cong) (use nr in simp_all)
    then show ?thesis using lN by (auto simp: bucket_def)
  qed
  have ch: "chain l2 (hs ! h) (bucket l2 (Suc ?N) h)" if h: "h < 256" for h
  proof -
    have c0: "chain ?l (thash p ! h) (bucket ?l ?N h)" using i h by (simp add: tp_inv_def)
    show ?thesis
    proof (cases "h = ?h")
      case False
      have "chain l2 (thash p ! h) (bucket ?l ?N h) = chain ?l (thash p ! h) (bucket ?l ?N h)"
      proof (rule chain_cong)
        fix q assume q: "q \<in> set (bucket ?l ?N h)"
        have "q \<noteq> last ?b" if "?b \<noteq> []"
          using q last_in_set [OF that] False by (auto simp: bucket_props(1))
        then show "nxt (l2 ! q) = nxt (?l ! q)" using q nr(2) [of q] by (auto simp: bucket_props(1))
      qed
      then show ?thesis using False c0 by (auto simp: bk hs_def)
    next
      case True
      show ?thesis
      proof (cases "?b = []")
        case True
        then show ?thesis using \<open>h = ?h\<close> lN N h by (simp add: bk hs_def)
      next
        case False
        have "chain l2 (thash p ! h) (?b @ [?N])"
        proof (rule chain_snoc)
          show "chain ?l (thash p ! h) ?b" using c0 True by simp
          show "?N \<notin> set ?b" "distinct ?b" by (simp_all add: bucket_props)
          show "nxt (l2 ! ?N) = None" using lN by simp
          show "nxt (l2 ! q) = (if q = last ?b then Some ?N else nxt (?l ! q))" if "q \<in> set ?b" for q
            using nr(2) [of q] that False by (simp add: bucket_props(1))
        qed (rule False)
        then show ?thesis using True False by (simp add: bk hs_def)
      qed
    qed
  qed
  have new: "nrgb (?l ! j) \<noteq> rgb" if "j < ?N" for j using a that unfolding pal_of_keys [OF i] by auto
  have inj: "inj_on (\<lambda>j. nrgb (l2 ! j)) {..<Suc ?N}"
  proof -
    have "inj_on (\<lambda>j. nrgb (l2 ! j)) {..<?N} \<longleftrightarrow> inj_on (\<lambda>j. nrgb (?l ! j)) {..<?N}"
      by (rule inj_on_cong) (simp add: nr)
    then have "inj_on (\<lambda>j. nrgb (l2 ! j)) {..<?N}" using i by (simp add: tp_inv_def)
    moreover have "nrgb (l2 ! ?N) \<notin> (\<lambda>j. nrgb (l2 ! j)) ` {..<?N}" using lN nr(1) new by force
    ultimately show ?thesis unfolding lessThan_Suc by simp
  qed
  have tk: "take (Suc ?N) (e'[k' := (?N, n)]) = ?A @ (?N, n) # ?B @ ?C" using em(1) by simp
  have le: "length (e'[k' := (?N, n)]) = 256" "length hs = 256" using mv N by (simp_all add: hs_def)
  have inv: "tp_inv ?p"
    using em(2) tk le len2 f i inj ch unfolding tp_inv_def by simp
  have AB: "?A @ ?B @ ?C = take ?N ?e" using em(5) by simp
  have "map (\<lambda>x. (nrgb (l2 ! fst x), snd x)) xs = map (\<lambda>x. (nrgb (?l ! fst x), snd x)) xs"
    if "set xs \<subseteq> set (take ?N ?e)" for xs
  proof (rule map_cong [OF refl])
    fix x assume "x \<in> set xs"
    then have "x \<in> set (take ?N ?e)" using that by blast
    then have "fst x < ?N" using ok len unfolding ents_ok_def by auto
    then show "(nrgb (l2 ! fst x), snd x) = (nrgb (?l ! fst x), snd x)" using nr by simp
  qed
  moreover have "set (?A @ ?B @ ?C) = set (take ?N ?e)" by (simp only: AB)
  then have "set ?A \<subseteq> set (take ?N ?e)" "set (?B @ ?C) \<subseteq> set (take ?N ?e)" unfolding set_append by blast+
  ultimately have "map (\<lambda>x. (nrgb (l2 ! fst x), snd x)) ?A = map (\<lambda>x. (nrgb (?l ! fst x), snd x)) ?A"
    "map (\<lambda>x. (nrgb (l2 ! fst x), snd x)) (?B @ ?C) = map (\<lambda>x. (nrgb (?l ! fst x), snd x)) (?B @ ?C)"
    by blast+
  then have "pal_of ?p = map (\<lambda>x. (nrgb (?l ! fst x), snd x)) ?A @ (rgb, n) # map (\<lambda>x. (nrgb (?l ! fst x), snd x)) (?B @ ?C)"
    using tk lN by (simp add: pal_of_take)
  then have "pal_of ?p = pal_put rgb n (pal_of p)"
    using pal_put_moved [OF em(3,4), of rgb "\<lambda>j. nrgb (?l ! j)", unfolded AB] unfolding pal_of_take by metis
  then show ?thesis using ins inv by (intro exI [of _ ?p]) simp
qed

lemma tp_reset_inv:
  assumes "length (tentry p) = 256" and "length (tlist p) = 256" and "maxColors p \<le> 254"
  shows "tp_inv (tp_reset p)" and "pal_of (tp_reset p) = []" and "maxColors (tp_reset p) = maxColors p"
proof -
  have "bucket l 0 k = []" for l k by (simp add: bucket_def)
  then show "tp_inv (tp_reset p)" using assms by (simp add: tp_inv_def tp_reset_def ents_ok_def)
qed (simp_all add: tp_reset_def pal_of_def)

lemma newTightPalette_inv:
  "tp_inv (newTightPalette n) \<and> pal_of (newTightPalette n) = [] \<and> maxColors (newTightPalette n) = nat (min n 254)"
  unfolding newTightPalette_def by (intro conjI tp_reset_inv) (auto simp: tp_setMaxColors_def tp_reset_def pal_of_def)

lemma tp_insert_abstract:
  assumes i: "tp_inv p" and n: "0 < n"
  shows "\<exists>r p'. tp_insert p rgb n = Some (r, p') \<and>
    (case pal_insert (maxColors p) (pal_of p) rgb n of
       Some pal \<Rightarrow> r = int (length pal) \<and> tp_inv p' \<and> pal_of p' = pal \<and> maxColors p' = maxColors p
     | None \<Rightarrow> r = 0 \<and> p' = p\<lparr>numColors := 0\<rparr>)"
proof -
  have len: "length (pal_of q) = numColors q" if "tp_inv q" for q
    using that by (simp add: pal_of_take tp_inv_def)
  show ?thesis
  proof (cases "map_of (pal_of p) rgb")
    case (Some c)
    then obtain p' where p': "tp_insert p rgb n = Some (int (numColors p), p')" "tp_inv p'"
      "maxColors p' = maxColors p" "numColors p' = numColors p"
      "pal_of p' = pal_put rgb (c + n) (filter (\<lambda>e. fst e \<noteq> rgb) (pal_of p))"
      using tp_insert_present [OF i Some n] by blast
    then show ?thesis using len [OF p'(2)] Some by (simp add: pal_insert_def)
  next
    case None
    then have a: "rgb \<notin> fst ` set (pal_of p)" by (simp add: map_of_eq_None_iff)
    show ?thesis
    proof (cases "numColors p = maxColors p")
      case True
      then show ?thesis using tp_insert_full [OF i a True] None len [OF i] by (simp add: pal_insert_def)
    next
      case False
      then have "numColors p < maxColors p" using i by (simp add: tp_inv_def)
      then obtain p' where p': "tp_insert p rgb n = Some (int (numColors p + 1), p')" "tp_inv p'"
        "maxColors p' = maxColors p" "numColors p' = numColors p + 1" "pal_of p' = pal_put rgb n (pal_of p)"
        using tp_insert_new [OF i a, of n] by blast
      then show ?thesis using len [OF p'(2)] None len [OF i] False by (simp add: pal_insert_def)
    qed
  qed
qed

subsection \<open>Facts on the abstract palette\<close>

definition pal_inv :: "palette \<Rightarrow> bool" where
  "pal_inv pal \<longleftrightarrow> distinct (map fst pal) \<and> sorted_wrt (\<lambda>a b. snd a \<ge> snd b) pal"

lemma pal_put_set: "set (pal_put rgb c pal) = insert (rgb, c) (set pal)"
proof -
  have "set (takeWhile (\<lambda>e. c \<le> snd e) pal) \<union> set (dropWhile (\<lambda>e. c \<le> snd e) pal) = set pal"
    by (metis set_append takeWhile_dropWhile_id)
  then show ?thesis by (auto simp: pal_put_def)
qed

lemma pal_put_inv: "pal_inv pal \<Longrightarrow> rgb \<notin> fst ` set pal \<Longrightarrow> pal_inv (pal_put rgb c pal)"
proof -
  let ?t = "takeWhile (\<lambda>e. c \<le> snd e) pal" and ?d = "dropWhile (\<lambda>e. c \<le> snd e) pal"
  assume i: "pal_inv pal" and n: "rgb \<notin> fst ` set pal"
  have "distinct (map fst ?t @ map fst ?d)"
    using i by (simp only: pal_inv_def map_append [symmetric] takeWhile_dropWhile_id)
  moreover have "rgb \<notin> fst ` set ?t" "rgb \<notin> fst ` set ?d" using n by (auto dest: set_takeWhileD set_dropWhileD)
  ultimately have "distinct (map fst (pal_put rgb c pal))" by (simp add: pal_put_def)
  moreover have "sorted_wrt (\<lambda>a b. snd a \<ge> snd b) (pal_put rgb c pal)"
    unfolding pal_put_def by (rule sorted_put) (use i in \<open>simp add: pal_inv_def\<close>)
  ultimately show ?thesis by (simp add: pal_inv_def)
qed

lemma pal_inv_filter: "pal_inv pal \<Longrightarrow> pal_inv (filter P pal)"
  by (simp add: pal_inv_def distinct_map_filter sorted_wrt_filter)

lemma pal_insert_inv:
  assumes "pal_inv pal" and "pal_insert mx pal rgb n = Some pal'"
  shows "pal_inv pal' \<and> map_of pal' = (map_of pal)(rgb \<mapsto> (case map_of pal rgb of Some c \<Rightarrow> c | None \<Rightarrow> 0) + n)"
proof -
  let ?q = "filter (\<lambda>e. fst e \<noteq> rgb) pal" and ?c = "(case map_of pal rgb of Some c \<Rightarrow> c | None \<Rightarrow> 0) + n"
  have q: "?q = pal" if "map_of pal rgb = None"
    using that by (auto simp: map_of_eq_None_iff filter_id_conv)
  have p: "pal' = pal_put rgb ?c ?q"
    using assms(2) q by (auto simp: pal_insert_def split: option.splits if_splits)
  have i: "pal_inv pal'" unfolding p by (rule pal_put_inv [OF pal_inv_filter [OF assms(1)]]) auto
  moreover have "map_of pal' k = ((map_of pal)(rgb \<mapsto> ?c)) k" for k
  proof (cases "k = rgb")
    case True
    then show ?thesis using i by (simp add: pal_inv_def p pal_put_set)
  next
    case False
    have "(k, c) \<in> set pal' \<longleftrightarrow> (k, c) \<in> set pal" for c using False by (auto simp: p pal_put_set)
    moreover have "distinct (map fst pal')" "distinct (map fst pal)" using i assms(1) by (simp_all only: pal_inv_def)
    ultimately have "map_of pal' k = Some c \<longleftrightarrow> map_of pal k = Some c" for c
      by (simp only: map_of_eq_Some_iff)
    then have "map_of pal' k = map_of pal k" by (metis not_Some_eq)
    then show ?thesis using False by simp
  qed
  ultimately show ?thesis by blast
qed

lemma pal_of_inv: "tp_inv p \<Longrightarrow> pal_inv (pal_of p)"
  using pal_of_distinct [of p] by (simp add: pal_inv_def tp_inv_def ents_ok_def pal_of_take sorted_wrt_map)

text \<open>Reading the palette.\<close>

lemma tp_get:
  assumes "tp_inv p"
  shows "numColors p = length (pal_of p)" and "i < length (pal_of p) \<Longrightarrow> tp_getEntry p i = fst (pal_of p ! i)"
    and "i < length (pal_of p) \<Longrightarrow> tp_getCount p i = snd (pal_of p ! i)"
  using assms by (auto simp: pal_of_take tp_inv_def tp_getEntry_def tp_getCount_def)

lemma tp_getIndex_entry:
  assumes i: "tp_inv p" and k: "k < numColors p"
  shows "tp_getIndex p (tp_getEntry p k) = Some (of_nat k)"
proof -
  have len: "length (take (numColors p) (tentry p)) = numColors p" using i by (simp add: tp_inv_def)
  let ?j = "fst (tentry p ! k)"
  have "fst (take (numColors p) (tentry p) ! k) \<in> fst ` set (take (numColors p) (tentry p))"
    using k len by (intro imageI nth_mem) simp
  then have j: "?j < numColors p" using i k len by (simp add: tp_inv_def ents_ok_def)
  have "ents_ok (take (numColors p) (tentry p)) (tlist p)" using i by (simp add: tp_inv_def)
  then have "nidx (tlist p ! fst (take (numColors p) (tentry p) ! k)) = k"
    unfolding ents_ok_def len using k by blast
  then have "nidx (tlist p ! ?j) = k" using k by simp
  then show ?thesis
    using walk_present [OF i j refl, of None] k by (auto simp: tp_getIndex_def tp_getEntry_def)
qed

subsection \<open>The contract\<close>

text \<open>
  C13: \<open>TightPalette::insert\<close> implements the abstract palette: on a palette whose chains and entries are
  in order it ends, returns the number of colours or 0 when the palette is full, and leaves the colours
  with their counts, the most frequent first, exactly as the list with the colour's count increased and
  moved up; the hash chains, indices and entries stay in order.
\<close>

theorem TightPalette_insert_refines:
  assumes "tp_inv p" and "0 < numPixels"
  shows "\<exists>r p'. tp_insert p rgb numPixels = Some (r, p') \<and>
    (case pal_insert (maxColors p) (pal_of p) rgb numPixels of
       Some pal \<Rightarrow> r = int (length pal) \<and> tp_inv p' \<and> pal_of p' = pal \<and> maxColors p' = maxColors p
     | None \<Rightarrow> r = 0 \<and> p' = p\<lparr>numColors := 0\<rparr>)"
  by (rule tp_insert_abstract [OF assms])

theorem TightPalette_insert_refines_witness:
  "\<exists>r p'. tp_insert (newTightPalette 64) 7 2 = Some (r, p') \<and>
    (case pal_insert (maxColors (newTightPalette 64)) (pal_of (newTightPalette 64)) 7 2 of
       Some pal \<Rightarrow> r = int (length pal) \<and> tp_inv p' \<and> pal_of p' = pal \<and> maxColors p' = maxColors (newTightPalette 64)
     | None \<Rightarrow> r = 0 \<and> p' = (newTightPalette 64)\<lparr>numColors := 0\<rparr>)"
  by (rule TightPalette_insert_refines) (simp_all add: newTightPalette_inv)

text \<open>
  The index the palette gives for its \<open>k\<close>-th entry is \<open>k\<close>, and it never collides with the answer 255
  for a colour that is not there.
\<close>

theorem TightPalette_index_roundtrip:
  assumes "tp_inv p" and "k < numColors p"
  shows "tp_getIndex p (tp_getEntry p k) = Some (of_nat k) \<and> (of_nat k :: 8 word) \<noteq> 0xff \<and>
    (rgb \<notin> fst ` set (pal_of p) \<longrightarrow> tp_getIndex p rgb = Some 0xff)"
proof -
  have "k < 254" using assms by (simp add: tp_inv_def)
  then have "unat (of_nat k :: 8 word) = k" by (simp add: unat_of_nat)
  then have "(of_nat k :: 8 word) \<noteq> 0xff" using \<open>k < 254\<close> by auto
  moreover have "tp_getIndex p rgb = Some 0xff" if "rgb \<notin> fst ` set (pal_of p)"
    unfolding tp_getIndex_def walk_absent [OF assms(1) that] by simp
  ultimately show ?thesis using tp_getIndex_entry [OF assms] by blast
qed

theorem TightPalette_index_roundtrip_witness:
  "let p = snd (the (tp_insert (newTightPalette 64) 7 2))
   in tp_getIndex p (tp_getEntry p 0) = Some (of_nat 0) \<and> (of_nat 0 :: 8 word) \<noteq> 0xff \<and>
      (9 \<notin> fst ` set (pal_of p) \<longrightarrow> tp_getIndex p 9 = Some 0xff)"
proof -
  obtain r p' where p: "tp_insert (newTightPalette 64) 7 2 = Some (r, p')" "tp_inv p'" "pal_of p' = [(7, 2)]"
    using tp_insert_abstract [of "newTightPalette 64" 2 7] newTightPalette_inv [of 64]
    by (auto simp: pal_insert_def pal_put_def)
  have "0 < numColors p'" using tp_get(1) [OF p(2)] p(3) by simp
  from TightPalette_index_roundtrip [OF p(2) this, of 9] show ?thesis by (simp add: p(1))
qed

end
