(* ===== verification/Rfb_HextileBetter.thy ===== *)
theory Rfb_HextileBetter
  imports Rfb_Hextile Rfb_TightPalette
begin

text \<open>
  The hextile encoder with a palette, \<open>common/rfb/hextileEncodeBetter.h\<close>: a tile is cut into uniform
  rectangles without a background in mind, the palette counts the rectangles of each colour, and the most
  frequent one becomes the background. The decoder is the one of \<open>hextileDecode.h\<close>.
\<close>

unbundle bit_operations_syntax

subsection \<open>The tile\<close>

text \<open>
  The class \<open>HEXTILE_TILE\<close>. Of the arrays \<open>m_coords\<close> and \<open>m_colors\<close> the part written since the last
  \<open>analyze\<close> is kept; \<open>m_processed\<close> is the matrix of 16 by 16 in row-major order.
\<close>

record 'p HextileTile =
  m_size :: int
  m_flags :: u8
  m_background :: 'p
  m_foreground :: 'p
  m_numSubrects :: nat
  m_coords :: "u8 list"
  m_colors :: "'p list"
  m_processed :: "bool list"
  m_pal :: tight_palette

definition newHextileTile :: "nat \<Rightarrow> 'a::len word HextileTile" where
  "newHextileTile bytes = \<lparr>m_size = 0, m_flags = 0, m_background = 0, m_foreground = 0, m_numSubrects = 0,
     m_coords = [], m_colors = [], m_processed = replicate 256 False,
     m_pal = newTightPalette (48 + 2 * (8 * int bytes))\<rparr>"

definition save_subrect :: "'p \<Rightarrow> nat \<Rightarrow> nat \<Rightarrow> nat \<Rightarrow> nat \<Rightarrow> 'p HextileTile \<Rightarrow> 'p HextileTile" where
  "save_subrect color x y sw sh t =
     t\<lparr>m_colors := m_colors t @ [color], m_coords := m_coords t @ e_sub x y sw sh\<rparr>"

text \<open>The loop over a row. \<open>None\<close> stands for a palette whose chains do not end; the flag of the result
  says that the palette overflowed.\<close>

function better_row :: "'a::len word list \<Rightarrow> nat \<Rightarrow> nat \<Rightarrow> nat \<Rightarrow> nat \<Rightarrow> 'a word HextileTile \<Rightarrow>
    ('a word HextileTile \<times> bool) option" where
  "better_row data w h y x t =
     (if x < w
      then if m_processed t ! (y * 16 + x) then better_row data w h y (x + 1) t
           else let color = data ! (y * w + x);
                    sw = horiz_width data w (y * w + x) x;
                    sh = horiz_height data w h (y * w + x) y sw;
                    t = save_subrect color x y sw sh t
                in case tp_insert (m_pal t) (ucast color) 1 of
                     None \<Rightarrow> None
                   | Some (n, pal) \<Rightarrow>
                       if n = 0 then Some (t\<lparr>m_pal := pal, m_flags := hextileRaw, m_size := 0\<rparr>, True)
                       else better_row data w h y (x + sw)
                              (t\<lparr>m_pal := pal, m_numSubrects := m_numSubrects t + 1,
                                 m_processed := fill_rows (m_processed t) ((y + 1) * 16 + x) sw 16 (sh - 1) True\<rparr>)
      else Some (t, False))"
  by pat_completeness auto

termination
proof (relation "measure (\<lambda>(data, w, h, y, x, t). w - x)", goal_cases)
  case (3 data w h y x t color sw sh t' a n pal)
  have "1 \<le> sw" using 3(4) by (simp add: horiz_width_def first_fail_ge)
  then show ?case using 3(1) by simp
qed simp_all

declare better_row.simps [simp del]

function better_rows :: "'a::len word list \<Rightarrow> nat \<Rightarrow> nat \<Rightarrow> nat \<Rightarrow> 'a word HextileTile \<Rightarrow>
    ('a word HextileTile \<times> bool) option" where
  "better_rows data w h y t =
     (if y < h
      then case better_row data w h y 0 t of
             None \<Rightarrow> None
           | Some (t, overflow) \<Rightarrow> if overflow then Some (t, True) else better_rows data w h (y + 1) t
      else Some (t, False))"
  by pat_completeness auto

termination
  by (relation "measure (\<lambda>(data, w, h, y, t). h - y)") auto

declare better_rows.simps [simp del]

text \<open>The end of \<open>analyze\<close>: the background, the foreground and the size of the encoded subrectangles.\<close>

definition better_finish :: "nat \<Rightarrow> 'a::len word HextileTile \<Rightarrow> 'a word HextileTile" where
  "better_finish bytes t =
     (let colours = numColors (m_pal t);
          subrects = int (m_numSubrects t) - tp_getCount (m_pal t) 0;
          t = t\<lparr>m_background := ucast (tp_getEntry (m_pal t) 0), m_flags := hextileAnySubrects\<rparr>
      in if colours = 2
         then t\<lparr>m_foreground := ucast (tp_getEntry (m_pal t) 1), m_size := 1 + 2 * subrects\<rparr>
         else t\<lparr>m_flags := m_flags t OR hextileSubrectsColoured, m_size := 1 + (2 + int bytes) * subrects\<rparr>)"

definition better_start :: "'a::len word \<Rightarrow> nat \<Rightarrow> nat \<Rightarrow> 'a word HextileTile \<Rightarrow> 'a word HextileTile option" where
  "better_start color w y t =
     (let t = t\<lparr>m_colors := [], m_coords := [], m_pal := tp_reset (m_pal t), m_numSubrects := 0\<rparr>
      in if 0 < y
         then map_option (\<lambda>(_, pal). (save_subrect color 0 0 w y t)\<lparr>m_pal := pal, m_numSubrects := 1\<rparr>)
                (tp_insert (m_pal t) (ucast color) 1)
         else Some t)"

definition better_analyze :: "nat \<Rightarrow> 'a::len word list \<Rightarrow> nat \<Rightarrow> nat \<Rightarrow> 'a word HextileTile \<Rightarrow> 'a word HextileTile option" where
  "better_analyze bytes data w h t =
     (let k = first_fail (\<lambda>i. data ! i = data ! 0) 1 (w * h)
      in if k = w * h then Some (t\<lparr>m_background := data ! 0, m_flags := 0, m_size := 0\<rparr>)
         else do {
           t \<leftarrow> better_start (data ! 0) w (k div w) t;
           (t, overflow) \<leftarrow> better_rows data w h (k div w) (t\<lparr>m_processed := replicate 256 False\<rparr>);
           Some (if overflow then t else better_finish bytes t)
         })"

text \<open>\<open>HEXTILE_TILE::encode\<close>; the first byte is the count of the subrectangles written.\<close>

definition better_encode :: "('p \<Rightarrow> u8 list) \<Rightarrow> 'p HextileTile \<Rightarrow> u8 list" where
  "better_encode wp t =
     (let (n, out) = foldl (\<lambda>(n, out) i.
            if m_colors t ! i = m_background t then (n, out)
            else (n + 1, out @ (if m_flags t AND hextileSubrectsColoured \<noteq> 0 then wp (m_colors t ! i) else []) @
                         [m_coords t ! (i * 2), m_coords t ! (i * 2 + 1)]))
          (0 :: u8, []) [0..<m_numSubrects t]
      in n # out)"

subsection \<open>The encoder\<close>

definition better_tile :: "('a::len word \<Rightarrow> u8 list) \<Rightarrow> nat \<Rightarrow> 'a word list \<Rightarrow> nat \<Rightarrow> nat \<Rightarrow>
    'a word HextileTile \<Rightarrow> 'a word hextile_enc \<Rightarrow> (u8 list \<times> 'a word HextileTile \<times> 'a word hextile_enc) option" where
  "better_tile wp bytes buf w h tile st =
     map_option (\<lambda>tile.
       let tileType = m_flags tile; encodedLen = m_size tile
       in if tileType AND hextileRaw \<noteq> 0 \<or> encodedLen \<ge> int (w * h * bytes)
          then (hextileRaw # concat (map wp buf), tile, st\<lparr>oldBgValid := False, oldFgValid := False\<rparr>)
          else
            let bg = m_background tile; fg = m_foreground tile;
                (tileType, st) = (if \<not> oldBgValid st \<or> oldBg st \<noteq> bg
                                  then (tileType OR hextileBgSpecified, st\<lparr>oldBg := bg, oldBgValid := True\<rparr>)
                                  else (tileType, st));
                (tileType, st) = (if tileType AND hextileAnySubrects \<noteq> 0
                                  then if tileType AND hextileSubrectsColoured \<noteq> 0 then (tileType, st\<lparr>oldFgValid := False\<rparr>)
                                       else if \<not> oldFgValid st \<or> oldFg st \<noteq> fg
                                       then (tileType OR hextileFgSpecified, st\<lparr>oldFg := fg, oldFgValid := True\<rparr>)
                                       else (tileType, st)
                                  else (tileType, st))
            in ((tileType # (if tileType AND hextileBgSpecified \<noteq> 0 then wp bg else []) @
                            (if tileType AND hextileFgSpecified \<noteq> 0 then wp fg else [])) @
                (if tileType AND hextileAnySubrects \<noteq> 0 then take (nat encodedLen) (better_encode wp tile) else []),
                tile, st))
       (better_analyze bytes buf w h tile)"

fun better_tiles :: "('a::len word \<Rightarrow> u8 list) \<Rightarrow> nat \<Rightarrow> 'a word image \<Rightarrow> Rect list \<Rightarrow>
    'a word HextileTile \<Rightarrow> 'a word hextile_enc \<Rightarrow> u8 list option" where
  "better_tiles wp bytes img [] tile st = Some []"
| "better_tiles wp bytes img (t # ts) tile st =
     do {
       (os, tile, st) \<leftarrow> better_tile wp bytes (get_image img t) (nat (rect_width t)) (nat (rect_height t)) tile st;
       rest \<leftarrow> better_tiles wp bytes img ts tile st;
       Some (os @ rest)
     }"

definition hextileEncodeBetter :: "('a::len word \<Rightarrow> u8 list) \<Rightarrow> nat \<Rightarrow> 'a word image \<Rightarrow> Rect \<Rightarrow> u8 list option" where
  "hextileEncodeBetter wp bytes img r =
     better_tiles wp bytes img (tiles r) (newHextileTile bytes)
       \<lparr>oldBg = 0, oldFg = 0, oldBgValid = False, oldFgValid = False\<rparr>"

subsection \<open>The rectangles counted by the palette\<close>

definition pix_count :: "'a::len word subrect list \<Rightarrow> 32 word \<Rightarrow> nat" where
  "pix_count ss k = length (filter (\<lambda>s. ucast (s_pix s) = k) ss)"

definition better_pal :: "nat \<Rightarrow> 'a::len word subrect list \<Rightarrow> tight_palette \<Rightarrow> bool" where
  "better_pal mx ss p \<longleftrightarrow> tp_inv p \<and> maxColors p = mx \<and>
     map_of (pal_of p) = (\<lambda>k. if pix_count ss k = 0 then None else Some (int (pix_count ss k)))"

definition tp_wf :: "nat \<Rightarrow> tight_palette \<Rightarrow> bool" where
  "tp_wf mx p \<longleftrightarrow> length (tentry p) = 256 \<and> length (tlist p) = 256 \<and> maxColors p = mx \<and> 1 \<le> mx \<and> mx \<le> 254"

lemma better_pal_wf: "better_pal mx ss p \<Longrightarrow> 1 \<le> mx \<Longrightarrow> tp_wf mx p"
  by (auto simp: better_pal_def tp_inv_def tp_wf_def)

lemma better_pal_reset: "tp_wf mx p \<Longrightarrow> better_pal mx [] (tp_reset p)"
  using tp_reset_inv [of p] by (simp add: tp_wf_def better_pal_def pix_count_def)

lemma better_pal_insert:
  assumes b: "better_pal mx ss p" and mx: "1 \<le> mx"
  obtains n p' where "tp_insert p (ucast (s_pix s)) 1 = Some (n, p')" "tp_wf mx p'" "n \<noteq> 0 \<Longrightarrow> better_pal mx (s # ss) p'"
    "ss = [] \<Longrightarrow> n \<noteq> 0"
proof -
  let ?k = "ucast (s_pix s) :: 32 word"
  have i: "tp_inv p" "maxColors p = mx"
    and m: "map_of (pal_of p) = (\<lambda>k. if pix_count ss k = 0 then None else Some (int (pix_count ss k)))"
    using b by (simp_all add: better_pal_def)
  obtain n p' where r: "tp_insert p ?k 1 = Some (n, p')"
    and c: "case pal_insert (maxColors p) (pal_of p) ?k 1 of
       Some pal \<Rightarrow> n = int (length pal) \<and> tp_inv p' \<and> pal_of p' = pal \<and> maxColors p' = maxColors p
     | None \<Rightarrow> n = 0 \<and> p' = p\<lparr>numColors := 0\<rparr>"
    using tp_insert_abstract [OF i(1), of 1 ?k] by auto
  show ?thesis
  proof (cases "pal_insert (maxColors p) (pal_of p) ?k 1")
    case None
    have "ss \<noteq> []"
    proof
      assume "ss = []"
      then have "pal_of p = []" using m by (simp add: pix_count_def fun_eq_iff map_of_eq_None_iff [symmetric]) (metis map_of_eq_None_iff
          image_eqI list.set_intros(1) neq_Nil_conv)
      then show False using None mx i(2) by (simp add: pal_insert_def)
    qed
    then show ?thesis using that [OF r] c None i(1) mx i(2) by (auto simp: tp_wf_def tp_inv_def)
  next
    case (Some pal)
    then have q: "n = int (length pal)" "tp_inv p'" "pal_of p' = pal" "maxColors p' = mx" using c i(2) by simp_all
    have up: "map_of pal = (map_of (pal_of p))(?k \<mapsto> (case map_of (pal_of p) ?k of Some c \<Rightarrow> c | None \<Rightarrow> 0) + 1)"
      using pal_insert_inv [OF pal_of_inv [OF i(1)] Some] by blast
    have "map_of pal = (\<lambda>k. if pix_count (s # ss) k = 0 then None else Some (int (pix_count (s # ss) k)))"
      unfolding up m by (auto simp: pix_count_def fun_eq_iff)
    then have "better_pal mx (s # ss) p'" using q by (simp add: better_pal_def)
    moreover have "pal \<noteq> []" using up by (auto dest: fun_cong [of _ _ ?k])
    ultimately show ?thesis using that [OF r] q better_pal_wf mx by fastforce
  qed
qed

subsection \<open>The invariant of the scan\<close>

definition better_inv :: "nat \<Rightarrow> 'a::len word list \<Rightarrow> nat \<Rightarrow> nat \<Rightarrow> 'a word subrect list \<Rightarrow> 'a word HextileTile \<Rightarrow> bool" where
  "better_inv mx data w h ss t \<longleftrightarrow> m_colors t = map s_pix (rev ss) \<and>
     m_coords t = concat (map (\<lambda>s. e_sub (s_x s) (s_y s) (s_w s) (s_h s)) (rev ss)) \<and>
     m_numSubrects t = length ss \<and> better_pal mx ss (m_pal t) \<and>
     (\<forall>s \<in> set ss. uniform_rect data w h (s_x s) (s_y s) (s_w s) (s_h s) (s_pix s))"

definition better_pos :: "nat \<Rightarrow> nat \<Rightarrow> 'p subrect list \<Rightarrow> bool list \<Rightarrow> nat \<Rightarrow> nat \<Rightarrow> bool" where
  "better_pos w h ss pr y x \<longleftrightarrow> length pr = 256 \<and>
     (\<forall>j < h. \<forall>i < w. passed y x j i \<or> pr ! (j * 16 + i) \<longrightarrow> (\<exists>s \<in> set ss. covers s i j)) \<and>
     sorted_wrt (>) (map (\<lambda>s. s_y s * w + s_x s) ss) \<and> (\<forall>s \<in> set ss. s_y s * w + s_x s < y * w + x)"

lemma better_pos_skip:
  "better_pos w h ss pr y x \<Longrightarrow> pr ! (y * 16 + x) \<Longrightarrow> better_pos w h ss pr y (x + 1)"
  unfolding better_pos_def
proof (elim conjE, intro conjI)
  assume c: "\<forall>j < h. \<forall>i < w. passed y x j i \<or> pr ! (j * 16 + i) \<longrightarrow> (\<exists>s \<in> set ss. covers s i j)" and p: "pr ! (y * 16 + x)"
  have "passed y (x + 1) j i \<longleftrightarrow> passed y x j i \<or> (j = y \<and> i = x)" for j i by (auto simp: passed_def)
  then show "\<forall>j < h. \<forall>i < w. passed y (x + 1) j i \<or> pr ! (j * 16 + i) \<longrightarrow> (\<exists>s \<in> set ss. covers s i j)"
    using c p by metis
qed auto

lemma better_pos_row: "better_pos w h ss pr y w \<Longrightarrow> better_pos w h ss pr (y + 1) 0"
proof -
  have "passed (y + 1) 0 j i = passed y w j i" if "i < w" for j i using that by (auto simp: passed_def)
  then show "better_pos w h ss pr y w \<Longrightarrow> better_pos w h ss pr (y + 1) 0"
    by (simp add: better_pos_def add.commute)
qed

lemma better_pos_take:
  fixes s :: "'p subrect"
  assumes p: "better_pos w h ss pr y x" and s: "s_x s = x" "s_y s = y" and b: "1 \<le> s_w s" "1 \<le> s_h s" "x + s_w s \<le> w" "y + s_h s \<le> h"
    and w: "w \<le> 16" "h \<le> 16"
  shows "better_pos w h (s # ss) (fill_rows pr ((y + 1) * 16 + x) (s_w s) 16 (s_h s - 1) True) y (x + s_w s)"
proof -
  have l: "16 * 16 \<le> length pr" using p by (simp add: better_pos_def)
  have "\<exists>s \<in> set (s # ss). covers s i j"
    if ji: "j < h" "i < w" and q: "passed y (x + s_w s) j i \<or> fill_rows pr ((y + 1) * 16 + x) (s_w s) 16 (s_h s - 1) True ! (j * 16 + i)" for j i
  proof -
    have "fill_rows pr ((y + 1) * 16 + x) (s_w s) 16 (s_h s - 1) True ! (j * 16 + i) =
        (if y + 1 \<le> j \<and> j < y + 1 + (s_h s - 1) \<and> x \<le> i \<and> i < x + s_w s then True else pr ! (j * 16 + i))"
      by (rule nth_fill_rows [OF l]) (use ji w b in simp_all)
    then have "covers s i j \<or> passed y x j i \<or> pr ! (j * 16 + i)"
      using q s b by (auto simp: covers_def passed_def split: if_splits)
    then show ?thesis using p ji unfolding better_pos_def by auto
  qed
  then show ?thesis using p s b(1) unfolding better_pos_def by auto
qed

lemma better_inv_take:
  assumes "better_inv mx data w h ss t" and "better_pal mx (s # ss) pal"
    and "uniform_rect data w h (s_x s) (s_y s) (s_w s) (s_h s) (s_pix s)"
  shows "better_inv mx data w h (s # ss) ((save_subrect (s_pix s) (s_x s) (s_y s) (s_w s) (s_h s) t)
     \<lparr>m_pal := pal, m_numSubrects := m_numSubrects t + 1, m_processed := pr\<rparr>)"
  using assms by (simp add: better_inv_def save_subrect_def)

definition better_over :: "nat \<Rightarrow> 'a::len word HextileTile \<Rightarrow> bool" where
  "better_over mx t \<longleftrightarrow> m_flags t = hextileRaw \<and> tp_wf mx (m_pal t)"

lemma better_row_inv:
  assumes "better_inv mx data w h ss t" and "better_pos w h ss (m_processed t) y x"
    and "y < h" and "x \<le> w" and "w \<le> 16" and "h \<le> 16" and "1 \<le> mx"
  shows "\<exists>t' ov. better_row data w h y x t = Some (t', ov) \<and> (ov \<longrightarrow> better_over mx t') \<and>
    (\<not> ov \<longrightarrow> (\<exists>ss'. better_inv mx data w h ss' t' \<and> better_pos w h ss' (m_processed t') y w))"
  using assms(1,2,4)
proof (induction "w - x" arbitrary: x t ss rule: less_induct)
  case less
  show ?case
  proof (cases "x < w")
    case False
    then have "better_row data w h y x t = Some (t, False)" "x = w"
      using less.prems by (subst better_row.simps, simp_all)
    then show ?thesis using less.prems by auto
  next
    case x: True
    show ?thesis
    proof (cases "m_processed t ! (y * 16 + x)")
      case True
      have "better_row data w h y x t = better_row data w h y (x + 1) t"
        using x True by (simp add: better_row.simps [of _ _ _ _ x])
      then show ?thesis
        using less.hyps [of "x + 1", OF _ less.prems(1) better_pos_skip [OF less.prems(2) True]] x by simp
    next
      case False
      let ?p = "y * w + x"
      define k where "k = horiz_width data w ?p x"
      define m where "m = horiz_height data w h ?p y k"
      let ?s = "\<lparr>s_x = x, s_y = y, s_w = k, s_h = m, s_pix = data ! ?p\<rparr>"
      have u: "uniform_rect data w h x y k m (data ! ?p)" unfolding k_def m_def by (rule horiz_uniform [OF x assms(3)])
      note b = uniform_bounds [OF u]
      have bp: "better_pal mx ss (m_pal t)" using less.prems(1) by (simp add: better_inv_def)
      obtain n pal where ins: "tp_insert (m_pal t) (ucast (s_pix ?s)) 1 = Some (n, pal)"
        and wf: "tp_wf mx pal" and bp': "n \<noteq> 0 \<Longrightarrow> better_pal mx (?s # ss) pal"
        using better_pal_insert [OF bp assms(7), of ?s] by blast
      have row: "better_row data w h y x t =
          (if n = 0 then Some ((save_subrect (data ! ?p) x y k m t)\<lparr>m_pal := pal, m_flags := hextileRaw, m_size := 0\<rparr>, True)
           else better_row data w h y (x + k) ((save_subrect (data ! ?p) x y k m t)
             \<lparr>m_pal := pal, m_numSubrects := m_numSubrects t + 1,
              m_processed := fill_rows (m_processed t) ((y + 1) * 16 + x) k 16 (m - 1) True\<rparr>))"
        using x False ins
        by (simp add: better_row.simps [of _ _ _ _ x] Let_def k_def [symmetric] m_def [symmetric] save_subrect_def)
      show ?thesis
      proof (cases "n = 0")
        case True
        then show ?thesis using row wf by (auto simp: better_over_def)
      next
        case n: False
        let ?pr = "fill_rows (m_processed t) ((y + 1) * 16 + x) k 16 (m - 1) True"
        let ?t = "(save_subrect (data ! ?p) x y k m t)\<lparr>m_pal := pal, m_numSubrects := m_numSubrects t + 1, m_processed := ?pr\<rparr>"
        have i: "better_inv mx data w h (?s # ss) ?t"
          using better_inv_take [OF less.prems(1) bp' [OF n], of ?pr] u by simp
        have ps: "better_pos w h (?s # ss) (m_processed ?t) y (x + k)"
          using better_pos_take [OF less.prems(2), of ?s] b assms(5,6) by simp
        have "w - (x + k) < w - x" using b(1) x by simp
        from less.hyps [OF this i ps b(3)] show ?thesis unfolding row if_not_P [OF n] .
      qed
    qed
  qed
qed

lemma better_rows_inv:
  assumes "better_inv mx data w h ss t" and "better_pos w h ss (m_processed t) y 0"
    and "y \<le> h" and "w \<le> 16" and "h \<le> 16" and "1 \<le> mx"
  shows "\<exists>t' ov. better_rows data w h y t = Some (t', ov) \<and> (ov \<longrightarrow> better_over mx t') \<and>
    (\<not> ov \<longrightarrow> (\<exists>ss'. better_inv mx data w h ss' t' \<and> better_pos w h ss' (m_processed t') h 0))"
  using assms(1-3)
proof (induction "h - y" arbitrary: y t ss rule: less_induct)
  case less
  show ?case
  proof (cases "y < h")
    case False
    then have "better_rows data w h y t = Some (t, False)" "y = h"
      using less.prems by (subst better_rows.simps, simp_all)
    then show ?thesis using less.prems by auto
  next
    case True
    obtain t1 ov where r: "better_row data w h y 0 t = Some (t1, ov)" and o: "ov \<longrightarrow> better_over mx t1"
      and n: "\<not> ov \<longrightarrow> (\<exists>ss'. better_inv mx data w h ss' t1 \<and> better_pos w h ss' (m_processed t1) y w)"
      using better_row_inv [OF less.prems(1,2) True _ assms(4-6)] by auto
    have rows: "better_rows data w h y t = (if ov then Some (t1, True) else better_rows data w h (y + 1) t1)"
      using True r by (simp add: better_rows.simps [of _ _ _ y])
    show ?thesis
    proof (cases ov)
      case True
      then show ?thesis using rows o by auto
    next
      case False
      then obtain ss' where "better_inv mx data w h ss' t1" "better_pos w h ss' (m_processed t1) (y + 1) 0"
        using n better_pos_row by blast
      then show ?thesis using less.hyps [of "y + 1" ss' t1] True rows False by simp
    qed
  qed
qed

text \<open>The rectangle of the complete rows at the top, found before the scan.\<close>

lemma solid_prefix:
  assumes "length data = w * h" and "1 \<le> w * h"
  defines "k \<equiv> first_fail (\<lambda>i. data ! i = data ! 0) 1 (w * h)"
  shows "k \<le> w * h" and "i < k \<Longrightarrow> data ! i = data ! 0" and "k < w * h \<Longrightarrow> data ! k \<noteq> data ! 0"
    and "k = w * h \<Longrightarrow> set data \<subseteq> {data ! 0}"
proof -
  show k: "k \<le> w * h" using assms(2) unfolding k_def by (rule first_fail_le)
  show p: "data ! i = data ! 0" if "i < k" for i
    using that first_fail_holds [of 1 i "\<lambda>i. data ! i = data ! 0" "w * h"] by (cases "i = 0") (simp_all add: k_def)
  show "data ! k \<noteq> data ! 0" if "k < w * h"
    using that first_fail_stop [of "\<lambda>i. data ! i = data ! 0" 1 "w * h"] unfolding k_def by blast
  show "set data \<subseteq> {data ! 0}" if "k = w * h" using p that assms(1) by (auto simp: in_set_conv_nth)
qed

lemma better_start_inv:
  assumes w: "1 \<le> w" "w \<le> 16" "h \<le> 16" and wf: "tp_wf mx (m_pal t)"
    and y: "y * w \<le> k" "k < w * h" and same: "\<And>i. i < k \<Longrightarrow> data ! i = data ! 0"
  shows "\<exists>t' ss. better_start (data ! 0) w y t = Some t' \<and> better_inv mx data w h ss (t'\<lparr>m_processed := replicate 256 False\<rparr>) \<and>
    better_pos w h ss (replicate 256 False) y 0"
proof -
  let ?t = "t\<lparr>m_colors := [], m_coords := [], m_pal := tp_reset (m_pal t), m_numSubrects := 0\<rparr>"
  have mx: "1 \<le> mx" using wf by (simp add: tp_wf_def)
  have r: "better_pal mx [] (tp_reset (m_pal t))" by (rule better_pal_reset [OF wf])
  have pr: "\<not> replicate 256 False ! (j * 16 + i)" if "j < h" "i < w" for i j
    using that index_less [of i 16 j 16] w by simp
  have yh: "y < h"
  proof (rule ccontr)
    assume "\<not> y < h"
    then have "h * w \<le> y * w" by (intro mult_le_mono1) simp
    then show False using y mult.commute [of h w] by linarith
  qed
  show ?thesis
  proof (cases "0 < y")
    case False
    then have "better_start (data ! 0) w y t = Some ?t" by (simp add: better_start_def)
    moreover have "better_inv mx data w h [] (?t\<lparr>m_processed := replicate 256 False\<rparr>)"
      using r by (simp add: better_inv_def)
    moreover have "better_pos w h [] (replicate 256 False) y 0"
      using False pr by (simp add: better_pos_def passed_def)
    ultimately show ?thesis by blast
  next
    case True
    let ?s = "\<lparr>s_x = 0, s_y = 0, s_w = w, s_h = y, s_pix = data ! 0\<rparr>"
    obtain n pal where i: "tp_insert (m_pal ?t) (ucast (s_pix ?s)) 1 = Some (n, pal)" and bp: "better_pal mx [?s] pal"
    proof -
      obtain n p' where "tp_insert (tp_reset (m_pal t)) (ucast (s_pix ?s)) 1 = Some (n, p')"
          "n \<noteq> 0 \<Longrightarrow> better_pal mx [?s] p'" "([] :: 'a word subrect list) = [] \<Longrightarrow> n \<noteq> 0"
        using better_pal_insert [OF r mx, of ?s] by blast
      then show thesis using that by simp
    qed
    have "data ! (0 * w + 0 + j * w + i) = data ! 0" if "j < y" "i < w" for j i
    proof -
      have "j * w + i < w * y" by (rule index_less [OF that(2,1)])
      then show ?thesis using same [of "j * w + i"] y(1) by (simp add: mult.commute)
    qed
    then have u: "uniform_rect data w h 0 0 w y (data ! 0)"
      by (intro uniform_rectI) (use w True yh in simp_all)
    let ?t1 = "(save_subrect (data ! 0) 0 0 w y ?t)\<lparr>m_pal := pal, m_numSubrects := 1\<rparr>"
    have st: "better_start (data ! 0) w y t = Some ?t1" using True i by (simp add: better_start_def)
    moreover have "better_inv mx data w h [?s] (?t1\<lparr>m_processed := replicate 256 False\<rparr>)"
      using bp u by (simp add: better_inv_def save_subrect_def)
    moreover have "better_pos w h [?s] (replicate 256 False) y 0"
      using True pr w by (auto simp: better_pos_def passed_def covers_def)
    ultimately show ?thesis by blast
  qed
qed

text \<open>The result of \<open>analyze\<close>: raw, solid, or the rectangles \<open>ss\<close> with at least two colours.\<close>

definition better_split :: "nat \<Rightarrow> 'a::len word list \<Rightarrow> nat \<Rightarrow> nat \<Rightarrow> 'a word subrect list \<Rightarrow> 'a word HextileTile \<Rightarrow> bool" where
  "better_split mx data w h ss t \<longleftrightarrow> better_inv mx data w h ss t \<and>
     (\<forall>j < h. \<forall>i < w. \<exists>s \<in> set ss. covers s i j) \<and> length ss \<le> w * h \<and> (\<exists>v. set data - {v} \<noteq> {} \<and> v \<in> set data)"

lemma better_finish_inv: "better_split mx data w h ss t \<Longrightarrow> better_split mx data w h ss (better_finish bytes t)"
  by (simp add: better_split_def better_inv_def better_finish_def Let_def)

lemma better_pos_done:
  assumes "better_pos w h ss pr h 0"
  shows "length ss \<le> w * h"
proof -
  let ?q = "\<lambda>s. s_y s * w + s_x s"
  have "distinct (map ?q ss)" using assms(1) by (intro descending_distinct) (simp add: better_pos_def)
  moreover have "set (map ?q ss) \<subseteq> {..<w * h}" using assms(1) by (auto simp: better_pos_def mult.commute)
  ultimately show ?thesis using card_mono [of "{..<w * h}" "set (map ?q ss)"] distinct_card [of "map ?q ss"] by simp
qed

lemma better_analyze_inv:
  assumes l: "length data = w * h" and w: "1 \<le> w" "w \<le> 16" and h: "1 \<le> h" "h \<le> 16" and wf: "tp_wf mx (m_pal t)"
  shows "\<exists>t'. better_analyze bytes data w h t = Some t' \<and> tp_wf mx (m_pal t') \<and>
    (m_flags t' = hextileRaw \<or> (m_flags t' = 0 \<and> m_size t' = 0 \<and> set data \<subseteq> {m_background t'}) \<or>
     (\<exists>t1 ss. t' = better_finish bytes t1 \<and> better_split mx data w h ss t1))"
proof -
  have wh: "1 \<le> w * h" using mult_le_mono [OF w(1) h(1)] by simp
  have mx: "1 \<le> mx" using wf by (simp add: tp_wf_def)
  define k where "k = first_fail (\<lambda>i. data ! i = data ! 0) 1 (w * h)"
  note pre = solid_prefix [OF l wh, folded k_def]
  have eq: "better_analyze bytes data w h t =
     (if k = w * h then Some (t\<lparr>m_background := data ! 0, m_flags := 0, m_size := 0\<rparr>)
         else do {
           t \<leftarrow> better_start (data ! 0) w (k div w) t;
           (t, overflow) \<leftarrow> better_rows data w h (k div w) (t\<lparr>m_processed := replicate 256 False\<rparr>);
           Some (if overflow then t else better_finish bytes t)
         })"
    unfolding better_analyze_def k_def Let_def ..
  show ?thesis
  proof (cases "k = w * h")
    case True
    then show ?thesis using pre(4) wf unfolding eq by simp
  next
    case False
    then have kl: "k < w * h" using pre(1) by simp
    have y: "k div w * w \<le> k" by simp
    have "k div w < h" using kl w(1) by (simp add: less_mult_imp_div_less mult.commute)
    then have yh: "k div w \<le> h" by simp
    obtain t1 ss where t1: "better_start (data ! 0) w (k div w) t = Some t1"
        "better_inv mx data w h ss (t1\<lparr>m_processed := replicate 256 False\<rparr>)" "better_pos w h ss (replicate 256 False) (k div w) 0"
      using better_start_inv [OF w h(2) wf y kl pre(2)] by blast
    obtain t2 ov where t2: "better_rows data w h (k div w) (t1\<lparr>m_processed := replicate 256 False\<rparr>) = Some (t2, ov)"
        "ov \<longrightarrow> better_over mx t2"
        "\<not> ov \<longrightarrow> (\<exists>ss'. better_inv mx data w h ss' t2 \<and> better_pos w h ss' (m_processed t2) h 0)"
      using better_rows_inv [OF t1(2) _ yh w(2) h(2) mx] t1(3) by auto
    have an: "better_analyze bytes data w h t = Some (if ov then t2 else better_finish bytes t2)"
      unfolding eq if_not_P [OF False] t1(1) by (simp add: t2(1))
    show ?thesis
    proof (cases ov)
      case True
      then show ?thesis using an t2(2) by (simp add: better_over_def)
    next
      case ov: False
      then obtain ss' where i: "better_inv mx data w h ss' t2" and p: "better_pos w h ss' (m_processed t2) h 0"
        using t2(3) by blast
      have "data ! k \<in> set data" "data ! 0 \<in> set data" using kl l wh by (intro nth_mem; simp)+
      then have two: "\<exists>v. set data - {v} \<noteq> {} \<and> v \<in> set data" using pre(3) [OF kl] by blast
      have "better_split mx data w h ss' t2"
        unfolding better_split_def
      proof (intro conjI allI impI i two)
        show "length ss' \<le> w * h" by (rule better_pos_done [OF p])
        fix j i' assume "j < h" "i' < w"
        then show "\<exists>s \<in> set ss'. covers s i' j" using p by (simp add: better_pos_def passed_def)
      qed
      moreover have "tp_wf mx (m_pal (better_finish bytes t2))"
        using i better_pal_wf [OF _ mx] by (auto simp: better_inv_def better_finish_def Let_def)
      ultimately show ?thesis using an ov by auto
    qed
  qed
qed

subsection \<open>What the tile says of its rectangles\<close>

lemma ucast_32_id: "LENGTH('a::len) \<le> 32 \<Longrightarrow> (ucast (ucast (x :: 'a word) :: 32 word) :: 'a word) = x"
  by (rule bit_word_eqI) (simp add: bit_simps)

definition others :: "'p \<Rightarrow> 'p subrect list \<Rightarrow> 'p subrect list" where
  "others bg ss = filter (\<lambda>s. s_pix s \<noteq> bg) ss"

lemma better_split_pixel:
  assumes "better_split mx data w h ss t" and "j < h" and "i < w"
  shows "\<exists>s \<in> set ss. covers s i j \<and> s_pix s = data ! (j * w + i)"
proof -
  obtain s where s: "s \<in> set ss" "covers s i j" using assms unfolding better_split_def by blast
  then have "uniform_rect data w h (s_x s) (s_y s) (s_w s) (s_h s) (s_pix s)"
    using assms(1) by (simp add: better_split_def better_inv_def)
  then have "data ! (j * w + i) = s_pix s" by (rule uniform_rectD) (use s(2) in \<open>simp_all add: covers_def\<close>)
  then show ?thesis using s by auto
qed

lemma better_split_keys:
  assumes "better_split mx data w h ss (t :: 'a::len word HextileTile)"
  shows "tp_inv (m_pal t)" and "k \<in> fst ` set (pal_of (m_pal t)) \<longleftrightarrow> (\<exists>s \<in> set ss. ucast (s_pix s) = k)"
    and "(k, c) \<in> set (pal_of (m_pal t)) \<Longrightarrow> c = int (pix_count ss k)"
proof -
  have b: "better_pal mx ss (m_pal t)" using assms by (simp add: better_split_def better_inv_def)
  then show i: "tp_inv (m_pal t)" by (simp add: better_pal_def)
  have m: "map_of (pal_of (m_pal t)) = (\<lambda>k. if pix_count ss k = 0 then None else Some (int (pix_count ss k)))"
    using b by (simp add: better_pal_def)
  have "k \<in> fst ` set (pal_of (m_pal t)) \<longleftrightarrow> pix_count ss k \<noteq> 0"
    using fun_cong [OF m, of k] map_of_eq_None_iff [of "pal_of (m_pal t)" k] by (cases "pix_count ss k = 0") simp_all
  then show "k \<in> fst ` set (pal_of (m_pal t)) \<longleftrightarrow> (\<exists>s \<in> set ss. ucast (s_pix s) = k)"
    by (simp add: pix_count_def filter_empty_conv)
  assume "(k, c) \<in> set (pal_of (m_pal t))"
  then have "map_of (pal_of (m_pal t)) k = Some c" using pal_of_distinct [OF i] by (simp add: map_of_eq_Some_iff)
  then show "c = int (pix_count ss k)" unfolding m by (simp split: if_splits)
qed

lemma better_split_colours:
  assumes sp: "better_split mx data w h ss (t :: 'a::len word HextileTile)" and l: "length data = w * h"
    and len: "LENGTH('a) \<le> 32"
  shows "2 \<le> numColors (m_pal t)"
proof -
  have pix: "\<exists>s \<in> set ss. s_pix s = v" if "v \<in> set data" for v
  proof -
    have "\<exists>i < w * h. data ! i = v" using that unfolding in_set_conv_nth l .
    then obtain i where i: "i < w * h" "data ! i = v" by blast
    then have w: "0 < w" by (cases w) auto
    have "i div w < h" "i mod w < w" using i w by (simp_all add: less_mult_imp_div_less mult.commute)
    from better_split_pixel [OF sp this] show ?thesis using i by auto
  qed
  obtain v v' where v: "v \<in> set data" "v' \<in> set data" "v \<noteq> v'" using sp unfolding better_split_def by blast
  obtain s s' where s: "s \<in> set ss" "s' \<in> set ss" "s_pix s \<noteq> s_pix s'" using pix [OF v(1)] pix [OF v(2)] v(3) by metis
  let ?k = "ucast (s_pix s) :: 32 word" and ?k' = "ucast (s_pix s') :: 32 word"
  have "?k \<noteq> ?k'" using s(3) ucast_32_id [OF len] by metis
  moreover have "{?k, ?k'} \<subseteq> set (map fst (pal_of (m_pal t)))" using better_split_keys(2) [OF sp] s(1,2) by auto
  then have "card {?k, ?k'} \<le> length (map fst (pal_of (m_pal t)))"
    by (meson card_length card_mono finite_set order_trans)
  ultimately show ?thesis using tp_get(1) [OF better_split_keys(1) [OF sp]] by simp
qed

lemma better_finish_facts:
  fixes t :: "'a::len word HextileTile" and bytes :: nat
  assumes sp: "better_split mx data w h ss t" and l: "length data = w * h" and len: "LENGTH('a) \<le> 32"
  defines "t' \<equiv> better_finish bytes t"
  defines "bts \<equiv> others (m_background t') ss" and "coloured \<equiv> numColors (m_pal t) \<noteq> 2"
  shows "m_flags t' = (if coloured then hextileAnySubrects OR hextileSubrectsColoured else hextileAnySubrects)"
    and "m_size t' = 1 + (if coloured then 2 + int bytes else 2) * int (length bts)"
    and "length bts < length ss"
    and "\<not> coloured \<Longrightarrow> \<forall>s \<in> set bts. s_pix s = m_foreground t'"
proof -
  let ?p = "pal_of (m_pal t)"
  note i = better_split_keys(1) [OF sp] and keys = better_split_keys(2) [OF sp] and counts = better_split_keys(3) [OF sp]
  have n: "numColors (m_pal t) = length ?p" "2 \<le> length ?p"
    using better_split_colours [OF sp l len] tp_get(1) [OF i] by simp_all
  have get: "tp_getEntry (m_pal t) j = fst (?p ! j)" "tp_getCount (m_pal t) j = snd (?p ! j)" if "j < length ?p" for j
    using tp_get(2,3) [OF i that] by simp_all
  have ne: "0 < length ?p" using n(2) by linarith
  then have mem: "?p ! 0 \<in> set ?p" by (rule nth_mem)
  obtain s0 where s0: "s0 \<in> set ss" "ucast (s_pix s0) = fst (?p ! 0)" using keys mem by (metis imageI)
  have bg: "m_background t' = s_pix s0"
    using get(1) [OF ne] s0(2) ucast_32_id [OF len, of "s_pix s0"] by (auto simp: t'_def better_finish_def Let_def)
  have same: "ucast x = (ucast y :: 32 word) \<longleftrightarrow> x = y" for x y :: "'a word" using ucast_32_id [OF len] by metis
  have c0: "snd (?p ! 0) = int (pix_count ss (fst (?p ! 0)))" by (rule counts) (use mem in simp)
  have sum: "pix_count ss (fst (?p ! 0)) + length bts = length ss"
    using sum_length_filter_compl [of "\<lambda>s. s_pix s = s_pix s0" ss]
    by (simp add: pix_count_def bts_def others_def bg s0(2) [symmetric] same)
  then have sub: "int (m_numSubrects t) - tp_getCount (m_pal t) 0 = int (length bts)"
    using sp c0 get(2) [OF ne] by (simp add: better_split_def better_inv_def)
  show "m_flags t' = (if coloured then hextileAnySubrects OR hextileSubrectsColoured else hextileAnySubrects)"
    by (simp add: t'_def better_finish_def Let_def coloured_def)
  show "m_size t' = 1 + (if coloured then 2 + int bytes else 2) * int (length bts)"
    unfolding t'_def better_finish_def Let_def coloured_def sub by simp
  have "s_pix s0 = m_background t'" using bg by simp
  then have "filter (\<lambda>s. s_pix s \<noteq> m_background t') ss \<noteq> ss" using s0(1) by (auto simp: filter_id_conv)
  then show "length bts < length ss" unfolding bts_def others_def
    by (metis filter_True length_filter_less s0(1) bg)
  show "\<forall>s \<in> set bts. s_pix s = m_foreground t'" if "\<not> coloured"
  proof
    fix s assume s: "s \<in> set bts"
    have two: "length ?p = 2" using that n by (simp add: coloured_def)
    then have p: "?p = [?p ! 0, ?p ! 1]" by (intro nth_equalityI) (auto simp: less_2_cases_iff)
    have "s \<in> set ss" "s_pix s \<noteq> s_pix s0" using s by (simp_all add: bts_def others_def bg)
    then have "ucast (s_pix s) \<in> fst ` set ?p" "ucast (s_pix s) \<noteq> fst (?p ! 0)"
      using keys same s0(2) by (auto simp flip: s0(2))
    then have "ucast (s_pix s) = fst (?p ! 1)" by (subst (asm) p) auto
    then have "s_pix s = ucast (fst (?p ! 1))" using ucast_32_id [OF len, of "s_pix s"] by simp
    then show "s_pix s = m_foreground t'"
      using get(1) [of 1] two that by (simp add: t'_def better_finish_def Let_def coloured_def)
  qed
qed

text \<open>The bytes of the rectangles that are not background.\<close>

lemma better_encode_eq:
  assumes "m_colors t = map s_pix ss" and "m_coords t = concat (map (\<lambda>s. e_sub (s_x s) (s_y s) (s_w s) (s_h s)) ss)"
    and "m_numSubrects t = length ss"
  shows "better_encode wp t = of_nat (length (others (m_background t) ss)) #
    concat (map (e_hex wp (m_flags t AND hextileSubrectsColoured \<noteq> 0)) (others (m_background t) ss))"
proof -
  let ?c = "m_flags t AND hextileSubrectsColoured \<noteq> 0"
  define f where "f = (\<lambda>(n :: u8, out) i.
            if m_colors t ! i = m_background t then (n, out)
            else (n + 1, out @ (if ?c then wp (m_colors t ! i) else []) @
                         [m_coords t ! (i * 2), m_coords t ! (i * 2 + 1)]))"
  have "foldl f (0 :: u8, []) [0..<k] = (of_nat (length (others (m_background t) (take k ss))),
      concat (map (e_hex wp ?c) (others (m_background t) (take k ss))))" if "k \<le> length ss" for k
    using that
  proof (induction k)
    case 0
    then show ?case by (simp add: others_def)
  next
    case (Suc k)
    then have k: "k < length ss" by simp
    have co: "m_coords t ! (k * 2 + i) = e_sub (s_x (ss ! k)) (s_y (ss ! k)) (s_w (ss ! k)) (s_h (ss ! k)) ! i" if "i < 2" for i
      unfolding assms(2) by (subst nth_concat_rows [of _ 2]) (use k that in \<open>auto simp: e_sub_def\<close>)
    have "[m_coords t ! (k * 2), m_coords t ! (k * 2 + 1)] = e_sub (s_x (ss ! k)) (s_y (ss ! k)) (s_w (ss ! k)) (s_h (ss ! k))"
      using co [of 0] co [of 1] by (simp add: e_sub_def)
    moreover have "m_colors t ! k = s_pix (ss ! k)" using k by (simp add: assms(1))
    ultimately show ?case
      using Suc by (simp add: f_def take_Suc_conv_app_nth others_def e_hex_def)
  qed
  from this [of "length ss"] show ?thesis
    unfolding better_encode_def f_def assms(3) by simp
qed

lemma painted_others:
  assumes "\<forall>s \<in> set ss. covers s i j \<longrightarrow> s_pix s = v" and "\<exists>s \<in> set ss. covers s i j"
  shows "painted bg (others bg ss) i j = v"
proof -
  have a: "painted bg (others bg ss) i j \<in> {bg, v}" if "\<forall>s \<in> set ss. covers s i j \<longrightarrow> s_pix s = v" for ss
    using that by (induction ss) (auto simp: others_def)
  have "painted bg (others bg ss) i j = v" if "v \<noteq> bg"
    using assms that by (induction ss) (auto simp: others_def)
  then show ?thesis using a [OF assms(1)] by (cases "v = bg") auto
qed

subsection \<open>The tile on the wire\<close>

text \<open>The type byte and the remembered colours, from the flags \<open>tt\<close> of the tile.\<close>

definition better_type :: "u8 \<Rightarrow> 'p \<Rightarrow> 'p \<Rightarrow> 'p hextile_enc \<Rightarrow> u8 \<times> 'p hextile_enc" where
  "better_type tt bg fg st =
     (let (tileType, st) = (if \<not> oldBgValid st \<or> oldBg st \<noteq> bg
                            then (tt OR hextileBgSpecified, st\<lparr>oldBg := bg, oldBgValid := True\<rparr>)
                            else (tt, st))
      in if tileType AND hextileAnySubrects \<noteq> 0
         then if tileType AND hextileSubrectsColoured \<noteq> 0 then (tileType, st\<lparr>oldFgValid := False\<rparr>)
              else if \<not> oldFgValid st \<or> oldFg st \<noteq> fg
              then (tileType OR hextileFgSpecified, st\<lparr>oldFg := fg, oldFgValid := True\<rparr>)
              else (tileType, st)
         else (tileType, st))"

lemma better_tile_eq:
  assumes "better_analyze bytes buf w h tile = Some tile'"
  shows "better_tile wp bytes buf w h tile st =
    (if m_flags tile' AND hextileRaw \<noteq> 0 \<or> m_size tile' \<ge> int (w * h * bytes)
     then Some (hextileRaw # concat (map wp buf), tile', st\<lparr>oldBgValid := False, oldFgValid := False\<rparr>)
     else let (tt, st') = better_type (m_flags tile') (m_background tile') (m_foreground tile') st
          in Some ((tt # (if tt AND hextileBgSpecified \<noteq> 0 then wp (m_background tile') else []) @
                         (if tt AND hextileFgSpecified \<noteq> 0 then wp (m_foreground tile') else [])) @
                   (if tt AND hextileAnySubrects \<noteq> 0 then take (nat (m_size tile')) (better_encode wp tile') else []), tile', st'))"
  unfolding better_tile_def assms better_type_def Let_def by (simp add: case_prod_unfold)

lemma better_type_flags:
  assumes t: "better_type tt bg fg st = (tt', st')" and ag: "hex_agree st ds"
    and tt: "tt = (if sub then if coloured then hextileAnySubrects OR hextileSubrectsColoured else hextileAnySubrects else 0)"
  shows "tt' AND hextileRaw = 0" and "tt' AND hextileAnySubrects \<noteq> 0 \<longleftrightarrow> sub"
    and "sub \<Longrightarrow> tt' AND hextileSubrectsColoured \<noteq> 0 \<longleftrightarrow> coloured"
    and "tt' AND hextileBgSpecified = 0 \<Longrightarrow> hbg ds = bg"
    and "sub \<Longrightarrow> \<not> coloured \<Longrightarrow> (if tt' AND hextileFgSpecified \<noteq> 0 then fg else hfg ds) = fg"
    and "\<not> sub \<Longrightarrow> tt' AND hextileFgSpecified = 0"
    and "(sub \<Longrightarrow> \<not> coloured \<Longrightarrow> fg' = fg) \<Longrightarrow> (\<not> sub \<Longrightarrow> fg' = hfg ds) \<Longrightarrow> hex_agree st' \<lparr>hbg = bg, hfg = fg', hbuf = b\<rparr>"
proof -
  have a: "oldBgValid st \<Longrightarrow> hbg ds = oldBg st" "oldFgValid st \<Longrightarrow> hfg ds = oldFg st" using ag by (simp_all add: hex_agree_def)
  consider "\<not> sub" | "sub" "coloured" | "sub" "\<not> coloured" by blast
  note cases = this
  show "tt' AND hextileRaw = 0" using t tt
    by (cases rule: cases; auto simp: better_type_def hextile_flags split: if_splits)
  show "tt' AND hextileAnySubrects \<noteq> 0 \<longleftrightarrow> sub" using t tt
    by (cases rule: cases; auto simp: better_type_def hextile_flags split: if_splits)
  show "tt' AND hextileSubrectsColoured \<noteq> 0 \<longleftrightarrow> coloured" if "sub" using t tt that
    by (cases rule: cases; auto simp: better_type_def hextile_flags split: if_splits)
  show "hbg ds = bg" if "tt' AND hextileBgSpecified = 0" using t tt that a(1)
    by (cases rule: cases; auto simp: better_type_def hextile_flags split: if_splits)
  show "(if tt' AND hextileFgSpecified \<noteq> 0 then fg else hfg ds) = fg" if "sub" "\<not> coloured" using t tt that a(2)
    by (auto simp: better_type_def hextile_flags split: if_splits)
  show "tt' AND hextileFgSpecified = 0" if "\<not> sub" using t tt that
    by (auto simp: better_type_def hextile_flags split: if_splits)
  show "hex_agree st' \<lparr>hbg = bg, hfg = fg', hbuf = b\<rparr>" if "sub \<Longrightarrow> \<not> coloured \<Longrightarrow> fg' = fg" "\<not> sub \<Longrightarrow> fg' = hfg ds"
    using t tt that a by (cases rule: cases; auto simp: better_type_def hextile_flags hex_agree_def split: if_splits)
qed

text \<open>The assertions on what \<open>analyze\<close> leaves, with a bound on the number of rectangles.\<close>

definition better_asserts :: "nat \<Rightarrow> ('a::len word \<Rightarrow> u8 list) \<Rightarrow> 'a word HextileTile option \<Rightarrow> bool" where
  "better_asserts n wp r = (case r of None \<Rightarrow> False
     | Some t \<Rightarrow> m_flags t AND hextileAnySubrects \<noteq> 0 \<longrightarrow>
         2 \<le> numColors (m_pal t) \<and> int (length (better_encode wp t)) = m_size t \<and> 1 \<le> m_numSubrects t \<and> m_numSubrects t \<le> n)"

locale word_pixel_io = pixel_io wp rp bytes for wp :: "'a::len word \<Rightarrow> u8 list" and rp and bytes +
  assumes word_bytes: "LENGTH('a) = 8 * bytes"
begin

lemma pixel_len: "LENGTH('a) \<le> 32"
  using word_bytes bytes_bounds by simp

text \<open>The size that \<open>analyze\<close> computes is the number of bytes \<open>encode\<close> writes.\<close>

lemma better_size:
  fixes bts :: "'a word subrect list"
  shows "int (length (x # concat (map (e_hex wp coloured) bts))) = 1 + (if coloured then 2 + int bytes else 2) * int (length bts)"
  by (induction bts) (auto simp: e_hex_def e_sub_def length_wp algebra_simps)

lemma better_encoded:
  assumes sp: "better_split mx img w h ss t" and l: "length img = w * h"
  defines "t' \<equiv> better_finish bytes t"
  defines "bts \<equiv> others (m_background t') ss"
  shows "better_encode wp t' = of_nat (length bts) # concat (map (e_hex wp (numColors (m_pal t) \<noteq> 2)) (rev bts))"
    and "int (length (better_encode wp t')) = m_size t'"
proof -
  note facts = better_finish_facts [OF sp l pixel_len, of bytes, folded t'_def, folded bts_def]
  have inv: "better_inv mx img w h ss t'" using better_finish_inv [OF sp] by (simp add: better_split_def t'_def)
  have c: "m_flags t' AND hextileSubrectsColoured \<noteq> 0 \<longleftrightarrow> numColors (m_pal t) \<noteq> 2"
    unfolding facts(1) by (auto simp: hextile_flags)
  have o: "others (m_background t') (rev ss) = rev bts" by (simp add: bts_def others_def rev_filter)
  show e: "better_encode wp t' = of_nat (length bts) # concat (map (e_hex wp (numColors (m_pal t) \<noteq> 2)) (rev bts))"
    using better_encode_eq [of t' "rev ss" wp] inv unfolding o c by (simp add: better_inv_def)
  show "int (length (better_encode wp t')) = m_size t'"
    unfolding e better_size facts(2) by simp
qed

lemma better_subtile_decodes:
  assumes sp: "better_split mx img w h ss t" and l: "length img = w * h"
    and w: "1 \<le> w" "w \<le> 16" and h: "1 \<le> h" "h \<le> 16" and lb: "w * h \<le> length buf"
    and t: "rect_width r = int w" "rect_height r = int h"
  defines "t' \<equiv> better_finish bytes t" and "coloured \<equiv> numColors (m_pal t) \<noteq> 2"
  assumes fg: "\<not> coloured \<Longrightarrow> fg = m_foreground t'"
  shows "\<exists>fg' buf'. andthen (p_U8 (better_encode wp t' @ bs)) (\<lambda>(n, bs). hextile_subrects rp coloured w (unat n) fg
        (fill_run buf 0 (w * h) (m_background t')) bs) = Inr ((fg', buf'), bs) \<and> (\<not> coloured \<longrightarrow> fg' = fg) \<and>
      image_rect fb r buf' = image_rect fb r img \<and> length buf' = length buf"
proof -
  define bg where "bg = m_background t'"
  define bts where "bts = others bg ss"
  let ?buf = "fill_run buf 0 (w * h) bg"
  note facts = better_finish_facts [OF sp l pixel_len, of bytes, folded t'_def coloured_def, folded bg_def, folded bts_def]
  have u: "uniform_rect img w h (s_x s) (s_y s) (s_w s) (s_h s) (s_pix s)" if "s \<in> set ss" for s
    using sp that by (simp add: better_split_def better_inv_def)
  have sub: "hex_sub img w h s" if "s \<in> set ss" for s
    using uniform_bounds [OF u [OF that]] uniform_rectD [OF u [OF that], of "s_y s" "s_x s"]
    by (simp add: hex_sub_def inside_def)
  then have subs: "\<forall>s \<in> set (rev bts). hex_sub img w h s" by (simp add: bts_def others_def)
  have fgs: "\<forall>s \<in> set (rev bts). s_pix s = fg" if "\<not> coloured" using facts(4) [OF that] fg [OF that] by simp
  have "length ss \<le> w * h" using sp by (simp add: better_split_def)
  also have "\<dots> \<le> 256" using mult_le_mono [OF w(2) h(2)] by simp
  finally have "length bts < 256" using facts(3) by simp
  then have n: "unat (of_nat (length bts) :: u8) = length (rev bts)" by (simp add: unat_of_nat)
  obtain fg' where d: "hextile_subrects rp coloured w (length (rev bts)) fg ?buf (concat (map (e_hex wp coloured) (rev bts)) @ bs) =
      Inr ((fg', foldl (fill_sub w) ?buf (rev bts)), bs)" "\<not> coloured \<Longrightarrow> fg' = fg"
    using hextile_subrects_decodes [OF w(2) h(2) subs fgs, where bs=bs and buf="?buf"] by auto
  have f: "foldl (fill_sub w) ?buf (rev bts) = foldr (\<lambda>s a. fill_sub w a s) bts ?buf" by (simp add: foldl_conv_foldr)
  have ins: "\<forall>s \<in> set bts. inside w h s" using subs by (auto simp: hex_sub_def)
  have px: "?buf ! (j * w + i) = bg" if "i < w" "j < h" for i j
    using nth_fill_run [of "j * w + i" buf 0 "w * h" bg] index_less [OF that] lb by simp
  have lb2: "w * h \<le> length ?buf" using lb by simp
  have "painted bg bts i j = img ! (j * w + i)" if ji: "i < w" "j < h" for i j
    unfolding bts_def
  proof (rule painted_others)
    show "\<exists>s \<in> set ss. covers s i j" using better_split_pixel [OF sp ji(2,1)] by blast
    show "\<forall>s \<in> set ss. covers s i j \<longrightarrow> s_pix s = img ! (j * w + i)"
      using uniform_rectD [OF u] by (fastforce simp: covers_def)
  qed
  then have "foldr (\<lambda>s a. fill_sub w a s) bts ?buf ! (j * w + i) = img ! (j * w + i)" if "i < w" "j < h" for i j
    using filled_array [OF ins lb2 that px [OF that]] that by simp
  then have "image_rect fb r (foldr (\<lambda>s a. fill_sub w a s) bts ?buf) = image_rect fb r img"
    by (rule image_rect_cong [OF t])
  moreover have "length (foldr (\<lambda>s a. fill_sub w a s) bts ?buf) = length buf"
    using filled_array [OF ins lb2 _ _ px [of 0 0]] w(1) h(1) by simp
  moreover have "better_encode wp t' = of_nat (length bts) # concat (map (e_hex wp coloured) (rev bts))"
    using better_encoded(1) [OF sp l] unfolding bts_def bg_def t'_def coloured_def .
  ultimately show ?thesis using d n f unfolding bg_def by simp
qed

lemma better_tile_roundtrip:
  assumes l: "length img = w * h" and w: "1 \<le> w" "w \<le> 16" and h: "1 \<le> h" "h \<le> 16"
    and r: "rect_width r = int w" "rect_height r = int h"
    and ag: "hex_agree st ds" and buf: "w * h \<le> length (hbuf ds)" and wf: "tp_wf mx (m_pal tile)"
  shows "\<exists>os tile' st' ds'. better_tile wp bytes img w h tile st = Some (os, tile', st') \<and>
    hextile_decode_tile rp r ds fb (os @ bs) = Inr ((ds', image_rect fb r img), bs) \<and>
    hex_agree st' ds' \<and> length (hbuf ds') = length (hbuf ds) \<and> tp_wf mx (m_pal tile')"
proof -
  have wh256: "int (w * h) < 4294967296" using mult_le_mono [OF w(2) h(2)] by linarith
  have "rect_area r = int (w * h) mod 4294967296"
    using r w(1) h(1) by (auto simp: rect_area_def rect_is_empty_def rect_width_def rect_height_def)
  also have "\<dots> = int (w * h)" by (rule mod_pos_pos_trivial) (use wh256 in simp_all)
  finally have area: "nat (rect_area r) = w * h" "nat (rect_width r) = w" using r by (simp_all only: nat_int)
  obtain tile' where an: "better_analyze bytes img w h tile = Some tile'" and wf': "tp_wf mx (m_pal tile')"
    and cs: "m_flags tile' = hextileRaw \<or> (m_flags tile' = 0 \<and> m_size tile' = 0 \<and> set img \<subseteq> {m_background tile'}) \<or>
     (\<exists>t1 ss. tile' = better_finish bytes t1 \<and> better_split mx img w h ss t1)"
    using better_analyze_inv [OF l w h wf] by blast
  let ?bg = "m_background tile'" and ?fg = "m_foreground tile'"
  note eq = better_tile_eq [OF an, of wp st]
  show ?thesis
  proof (cases "m_flags tile' AND hextileRaw \<noteq> 0 \<or> m_size tile' \<ge> int (w * h * bytes)")
    case True
    have "image_rect fb r (img @ drop (w * h) (hbuf ds)) = image_rect fb r img"
      by (rule image_rect_cong [OF r]) (simp add: nth_append l index_less)
    then have "hextile_decode_tile rp r ds fb ((hextileRaw # concat (map wp img)) @ bs) =
        Inr ((ds\<lparr>hbuf := img @ drop (w * h) (hbuf ds)\<rparr>, image_rect fb r img), bs)"
      using p_pixels_written [of img bs] l buf by (simp add: hextile_decode_tile_def hextile_flags area)
    then show ?thesis using eq True wf' l buf by (simp add: hex_agree_def)
  next
    case False
    obtain tt st' where ty: "better_type (m_flags tile') ?bg ?fg st = (tt, st')" by (cases "better_type (m_flags tile') ?bg ?fg st")
    let ?hdr = "tt # (if tt AND hextileBgSpecified \<noteq> 0 then wp ?bg else []) @ (if tt AND hextileFgSpecified \<noteq> 0 then wp ?fg else [])"
    have raw: "m_flags tile' \<noteq> hextileRaw" using False by (auto simp: hextile_flags)
    show ?thesis
    proof (cases "m_flags tile' = 0")
      case True
      have "set img \<subseteq> {?bg}"
      proof -
        have "m_flags (better_finish bytes t1) \<noteq> 0" for t1 :: "'a word HextileTile"
          by (simp add: better_finish_def Let_def hextile_flags)
        then show ?thesis using cs True raw by auto
      qed
      note ft = better_type_flags [where sub = False and coloured = False, OF ty ag, unfolded True, simplified]
      let ?b = "fill_run (hbuf ds) 0 (w * h) ?bg"
      have "?b ! (j * w + i) = img ! (j * w + i)" if ji: "i < w" "j < h" for i j
      proof -
        have q: "j * w + i < length img" using index_less [OF ji] l by simp
        have "img ! (j * w + i) \<in> set img" by (rule nth_mem [OF q])
        then have "img ! (j * w + i) = ?bg" using \<open>set img \<subseteq> {?bg}\<close> by blast
        then show ?thesis using nth_fill_run [of "j * w + i" "hbuf ds" 0 "w * h" ?bg] q buf l by simp
      qed
      then have im: "image_rect fb r ?b = image_rect fb r img" by (rule image_rect_cong [OF r])
      have "hextile_decode_tile rp r ds fb (?hdr @ bs) = Inr ((\<lparr>hbg = ?bg, hfg = hfg ds, hbuf = ?b\<rparr>, image_rect fb r ?b), bs)"
        using decode_header [of tt ds ?bg r fb ?fg bs] ft area by (simp add: Let_def)
      then show ?thesis using eq False ty ft im wf' by (auto simp: Let_def)
    next
      case sub: False
      then obtain t1 ss where t1: "tile' = better_finish bytes t1" and sp: "better_split mx img w h ss t1" using cs raw by blast
      define coloured where "coloured \<longleftrightarrow> numColors (m_pal t1) \<noteq> 2"
      have tt: "m_flags tile' = (if True then if coloured then hextileAnySubrects OR hextileSubrectsColoured else hextileAnySubrects else 0)"
        using better_finish_facts(1) [OF sp l pixel_len] unfolding t1 coloured_def by simp
      note ft = better_type_flags [OF ty ag tt]
      let ?fg' = "if tt AND hextileFgSpecified \<noteq> 0 then ?fg else hfg ds"
      have fg: "\<not> coloured \<Longrightarrow> ?fg' = ?fg" by (rule ft(5)) simp_all
      obtain fg2 buf' where d: "andthen (p_U8 (better_encode wp tile' @ bs)) (\<lambda>(n, bs). hextile_subrects rp coloured w (unat n) ?fg'
            (fill_run (hbuf ds) 0 (w * h) ?bg) bs) = Inr ((fg2, buf'), bs)" "\<not> coloured \<Longrightarrow> fg2 = ?fg'"
          "image_rect fb r buf' = image_rect fb r img" "length buf' = length (hbuf ds)"
        using better_subtile_decodes [OF sp l w h buf r, of ?fg' bs fb] fg unfolding t1 [symmetric] coloured_def [symmetric] by blast
      have en: "take (nat (m_size tile')) (better_encode wp tile') = better_encode wp tile'"
        using better_encoded(2) [OF sp l] unfolding t1 by simp
      have any: "tt AND hextileAnySubrects \<noteq> 0" "tt AND hextileSubrectsColoured \<noteq> 0 \<longleftrightarrow> coloured" using ft(2,3) by blast+
      have os: "better_tile wp bytes img w h tile st = Some (?hdr @ better_encode wp tile', tile', st')"
        unfolding eq if_not_P [OF False] ty Let_def prod.case en if_P [OF any(1)] ..
      have "hextile_decode_tile rp r ds fb ((?hdr @ better_encode wp tile') @ bs) =
          Inr ((\<lparr>hbg = ?bg, hfg = fg2, hbuf = buf'\<rparr>, image_rect fb r img), bs)"
        using decode_header [OF ft(1,4), of r fb ?fg "better_encode wp tile' @ bs"] any d(1,3)
        by (simp add: area Let_def)
      moreover have "hex_agree st' \<lparr>hbg = ?bg, hfg = fg2, hbuf = buf'\<rparr>"
        by (rule ft(7)) (use d(2) fg in simp_all)
      ultimately show ?thesis using os wf' d(4) by auto
    qed
  qed
qed

text \<open>Tile after tile.\<close>

lemma better_tiles_roundtrip:
  assumes "\<And>t. t \<in> set ts \<Longrightarrow> 1 \<le> rect_width t \<and> rect_width t \<le> 16 \<and> 1 \<le> rect_height t \<and> rect_height t \<le> 16"
    and "hex_agree st ds" and "256 \<le> length (hbuf ds)" and "tp_wf mx (m_pal tile)"
  shows "\<exists>os. better_tiles wp bytes img ts tile st = Some os \<and> hextile_decode_tiles rp ts ds fb (os @ bs) =
    Inr ((\<lambda>(x, y). if \<exists>t \<in> set ts. rect_contains t \<lparr>px = x, py = y\<rparr> then img (x, y) else fb (x, y)), bs)"
  using assms
proof (induction ts arbitrary: st ds fb tile)
  case (Cons t ts)
  let ?w = "nat (rect_width t)" and ?h = "nat (rect_height t)"
  have t: "1 \<le> rect_width t" "rect_width t \<le> 16" "1 \<le> rect_height t" "rect_height t \<le> 16"
    using Cons.prems(1) [of t] by simp_all
  then have wh: "1 \<le> ?w" "?w \<le> 16" "1 \<le> ?h" "?h \<le> 16" "rect_width t = int ?w" "rect_height t = int ?h" by simp_all
  have b: "?w * ?h \<le> length (hbuf ds)" using mult_le_mono [OF wh(2,4)] Cons.prems(3) by simp
  note one = better_tile_roundtrip [OF length_get_image wh Cons.prems(2) b Cons.prems(4), of img fb]
  obtain os tile' st' where e: "better_tile wp bytes (get_image img t) ?w ?h tile st = Some (os, tile', st')"
    using one [of "[]"] by blast
  have d: "\<exists>ds'. hextile_decode_tile rp t ds fb (os @ bs') = Inr ((ds', image_rect fb t (get_image img t)), bs') \<and>
      hex_agree st' ds' \<and> length (hbuf ds') = length (hbuf ds)" "tp_wf mx (m_pal tile')" for bs'
    using one [of bs'] e by auto
  obtain ds0 where ds0: "hex_agree st' ds0" "256 \<le> length (hbuf ds0)" using d(1) [of "[]"] Cons.prems(3) by auto
  obtain os' where os': "better_tiles wp bytes img ts tile' st' = Some os'"
    using Cons.IH [OF Cons.prems(1) ds0 d(2)] by auto
  obtain ds' where ds': "hextile_decode_tile rp t ds fb (os @ os' @ bs) = Inr ((ds', image_rect fb t (get_image img t)), os' @ bs)"
    "hex_agree st' ds'" "256 \<le> length (hbuf ds')" using d(1) [of "os' @ bs"] Cons.prems(3) by auto
  have IH: "hextile_decode_tiles rp ts ds' (image_rect fb t (get_image img t)) (os' @ bs) =
    Inr ((\<lambda>(x, y). if \<exists>t \<in> set ts. rect_contains t \<lparr>px = x, py = y\<rparr> then img (x, y)
       else image_rect fb t (get_image img t) (x, y)), bs)"
    using Cons.IH [OF Cons.prems(1) ds'(2,3) d(2), of "image_rect fb t (get_image img t)"] os' by auto
  have "(\<lambda>(x, y). if \<exists>t \<in> set ts. rect_contains t \<lparr>px = x, py = y\<rparr> then img (x, y)
          else image_rect fb t (get_image img t) (x, y)) =
        (\<lambda>(x, y). if \<exists>t \<in> set (t # ts). rect_contains t \<lparr>px = x, py = y\<rparr> then img (x, y) else fb (x, y))"
    by (auto simp: fun_eq_iff image_get_image)
  then show ?case using IH ds'(1) e os' by simp
qed (simp add: fun_eq_iff)

lemma newHextileTile_wf: "tp_wf (nat (min (48 + 2 * (8 * int bytes)) 254)) (m_pal (newHextileTile bytes :: 'a word HextileTile))"
  using newTightPalette_inv [of "48 + 2 * (8 * int bytes)"] by (auto simp: newHextileTile_def tp_wf_def tp_inv_def)

lemma better_roundtrip:
  assumes "256 \<le> length buf"
  shows "\<exists>os. hextileEncodeBetter wp bytes img r = Some os \<and> hextileDecode rp z r buf fb (os @ rest) =
    Inr ((\<lambda>(x, y). if rect_contains r \<lparr>px = x, py = y\<rparr> then img (x, y) else fb (x, y)), rest)"
proof -
  have "hex_agree \<lparr>oldBg = 0, oldFg = 0, oldBgValid = False, oldFgValid = False\<rparr> \<lparr>hbg = z, hfg = z, hbuf = buf\<rparr>"
    by (simp add: hex_agree_def)
  from better_tiles_roundtrip [OF tiles_size [of _ r] this _ newHextileTile_wf, where img = img and fb = fb and bs = rest]
  have "\<exists>os. better_tiles wp bytes img (tiles r) (newHextileTile bytes) \<lparr>oldBg = 0, oldFg = 0, oldBgValid = False, oldFgValid = False\<rparr> = Some os \<and>
      hextile_decode_tiles rp (tiles r) \<lparr>hbg = z, hfg = z, hbuf = buf\<rparr> fb (os @ rest) =
      Inr ((\<lambda>(x, y). if \<exists>t \<in> set (tiles r). rect_contains t \<lparr>px = x, py = y\<rparr> then img (x, y) else fb (x, y)), rest)"
    using assms by simp
  then show ?thesis unfolding hextileDecode_def hextileEncodeBetter_def tiles_cover .
qed

lemma better_asserts_hold:
  assumes l: "length data = w * h" and w: "1 \<le> w" "w \<le> 16" and h: "1 \<le> h" "h \<le> 16"
  shows "better_asserts (w * h) wp (better_analyze bytes data w h (newHextileTile bytes))"
proof -
  let ?mx = "nat (min (48 + 2 * (8 * int bytes)) 254)"
  obtain t where t: "better_analyze bytes data w h (newHextileTile bytes) = Some t"
    and cs: "m_flags t = hextileRaw \<or> (m_flags t = 0 \<and> m_size t = 0 \<and> set data \<subseteq> {m_background t}) \<or>
     (\<exists>t1 ss. t = better_finish bytes t1 \<and> better_split ?mx data w h ss t1)"
    using better_analyze_inv [OF l w h newHextileTile_wf] by blast
  have "2 \<le> numColors (m_pal t) \<and> int (length (better_encode wp t)) = m_size t \<and> 1 \<le> m_numSubrects t \<and> m_numSubrects t \<le> w * h"
    if "m_flags t AND hextileAnySubrects \<noteq> 0"
  proof -
    have "m_flags t \<noteq> hextileRaw" "m_flags t \<noteq> 0" using that by (auto simp: hextile_flags)
    then obtain t1 ss where t1: "t = better_finish bytes t1" "better_split ?mx data w h ss t1" using cs by blast
    have "numColors (m_pal t) = numColors (m_pal t1)" "m_numSubrects t = m_numSubrects t1"
      by (simp_all add: t1(1) better_finish_def Let_def)
    moreover have "length (others (m_background (better_finish bytes t1)) ss) < length ss"
      by (rule better_finish_facts(3) [OF t1(2) l pixel_len])
    moreover have "m_numSubrects t1 = length ss" "length ss \<le> w * h"
      using t1(2) by (simp_all add: better_split_def better_inv_def)
    ultimately show ?thesis
      using better_split_colours [OF t1(2) l pixel_len] better_encoded(2) [OF t1(2) l] t1(1) by auto
  qed
  then show ?thesis unfolding t better_asserts_def by simp
qed

end

interpretation wpx8: word_pixel_io wp8 p_U8 1
  by unfold_locales simp

interpretation wpx16: word_pixel_io wp16 p_Opaque16 2
  by unfold_locales simp

interpretation wpx32: word_pixel_io wp32 p_Opaque32 4
  by unfold_locales simp

subsection \<open>The contract\<close>

text \<open>
  C9: The palette-based hextile encoder returns for every rectangle and image, and the common decoder
  restores the server's pixels from its bytes, consuming exactly those; for pixels of 8, 16 and 32 bits
  and whatever the decoder's buffer held.
\<close>

theorem hextile_better_lossless:
  assumes "256 \<le> length buf8" and "256 \<le> length buf16" and "256 \<le> length buf32"
  shows "(\<exists>os. hextileEncodeBetter wp8 1 img8 r = Some os \<and> hextileDecode p_U8 0 r buf8 fb8 (os @ rest) =
           Inr ((\<lambda>(x, y). if rect_contains r \<lparr>px = x, py = y\<rparr> then img8 (x, y) else fb8 (x, y)), rest)) \<and>
         (\<exists>os. hextileEncodeBetter wp16 2 img16 r = Some os \<and> hextileDecode p_Opaque16 0 r buf16 fb16 (os @ rest) =
           Inr ((\<lambda>(x, y). if rect_contains r \<lparr>px = x, py = y\<rparr> then img16 (x, y) else fb16 (x, y)), rest)) \<and>
         (\<exists>os. hextileEncodeBetter wp32 4 img32 r = Some os \<and> hextileDecode p_Opaque32 0 r buf32 fb32 (os @ rest) =
           Inr ((\<lambda>(x, y). if rect_contains r \<lparr>px = x, py = y\<rparr> then img32 (x, y) else fb32 (x, y)), rest))"
  using wpx8.better_roundtrip [OF assms(1)] wpx16.better_roundtrip [OF assms(2)] wpx32.better_roundtrip [OF assms(3)]
  by blast

theorem hextile_better_lossless_witness:
  "\<exists>os. hextileEncodeBetter wp32 4 (\<lambda>p. of_int (fst p div 3 * snd p)) (mkRect 3 4 40 30) = Some os \<and>
    hextileDecode p_Opaque32 0 (mkRect 3 4 40 30) (replicate 256 7) (\<lambda>_. 9) (os @ [1]) =
    Inr ((\<lambda>(x, y). if rect_contains (mkRect 3 4 40 30) \<lparr>px = x, py = y\<rparr> then of_int (fst (x, y) div 3 * snd (x, y)) else 9), [1])"
proof -
  have l: "256 \<le> length (replicate 256 7 :: u8 list)" "256 \<le> length (replicate 256 0 :: u16 list)"
    "256 \<le> length (replicate 256 7 :: u32 list)" by simp_all
  show ?thesis by (rule hextile_better_lossless [OF l, THEN conjunct2, THEN conjunct2])
qed

text \<open>
  The assertions of \<open>hextileEncodeBetter.h\<close> hold: a tile that is neither raw nor solid has at least two
  colours in its palette, and \<open>encode\<close> writes exactly the \<open>getSize\<close> bytes that the caller sends, at most
  255 rectangles.
\<close>

theorem hextile_better_asserts:
  assumes "length data8 = w * h" and "length data16 = w * h" and "length data32 = w * h"
    and "1 \<le> w" and "w \<le> 16" and "1 \<le> h" and "h \<le> 16"
  shows "better_asserts (w * h) wp8 (better_analyze 1 data8 w h (newHextileTile 1)) \<and>
    better_asserts (w * h) wp16 (better_analyze 2 data16 w h (newHextileTile 2)) \<and>
    better_asserts (w * h) wp32 (better_analyze 4 data32 w h (newHextileTile 4))"
  using wpx8.better_asserts_hold [OF assms(1,4-)] wpx16.better_asserts_hold [OF assms(2,4-)]
    wpx32.better_asserts_hold [OF assms(3,4-)] by blast

theorem hextile_better_asserts_witness:
  "better_asserts (2 * 1) wp8 (better_analyze 1 [5, 6] 2 1 (newHextileTile 1)) \<and>
    better_asserts (2 * 1) wp16 (better_analyze 2 [5, 5] 2 1 (newHextileTile 2)) \<and>
    better_asserts (2 * 1) wp32 (better_analyze 4 [7, 8] 2 1 (newHextileTile 4))"
  by (rule hextile_better_asserts) simp_all

end
