(* ===== verification/Libc_Scanf.thy ===== *)
theory Libc_Scanf
  imports Rdr_OutStream
begin

text \<open>
  What the sources use of \<open>sscanf\<close> and \<open>sprintf\<close>, on strings of bytes: white space, literal characters,
  \<open>%<width>d\<close>, \<open>%<width>s\<close> and \<open>%03d\<close>.
\<close>

definition is_space :: "u8 \<Rightarrow> bool" where
  "is_space c \<longleftrightarrow> c \<in> {0x20, 9, 10, 11, 12, 13}"

definition is_digit :: "u8 \<Rightarrow> bool" where
  "is_digit c \<longleftrightarrow> 48 \<le> c \<and> c \<le> 57"

text \<open>A C string ends at its first null byte.\<close>

definition cstr :: "u8 list \<Rightarrow> u8 list" where
  "cstr s = takeWhile (\<lambda>c. c \<noteq> 0) s"

definition scan_ws :: "u8 list \<Rightarrow> u8 list" where
  "scan_ws s = dropWhile is_space s"

fun scan_lit :: "u8 list \<Rightarrow> u8 list \<Rightarrow> u8 list option" where
  "scan_lit [] s = Some s"
| "scan_lit (c # cs) [] = None"
| "scan_lit (c # cs) (d # s) = (if c = d then scan_lit cs s else None)"

fun digits_value :: "u8 list \<Rightarrow> int \<Rightarrow> int" where
  "digits_value [] n = n"
| "digits_value (c # cs) n = digits_value cs (10 * n + (uint c - 48))"

text \<open>\<open>%<w>d\<close>: white space is skipped, a sign counts for the width, and there must be a digit.\<close>

definition scan_int :: "nat \<Rightarrow> u8 list \<Rightarrow> (int \<times> u8 list) option" where
  "scan_int w s =
     (let s = scan_ws s;
          (neg, sw, s) = (case s of
             c # s' \<Rightarrow> if c = 45 then (True, 1, s') else if c = 43 then (False, 1, s') else (False, 0, s)
           | [] \<Rightarrow> (False, 0, s));
          ds = takeWhile is_digit (take (w - sw) s)
      in if ds = [] then None
         else Some (if neg then - digits_value ds 0 else digits_value ds 0, drop (length ds) s))"

text \<open>\<open>%<w>s\<close>\<close>

definition scan_word :: "nat \<Rightarrow> u8 list \<Rightarrow> (u8 list \<times> u8 list) option" where
  "scan_word w s =
     (let s = scan_ws s; cs = takeWhile (\<lambda>c. \<not> is_space c) (take w s)
      in if cs = [] then None else Some (cs, drop (length cs) s))"

text \<open>\<open>%03d\<close>\<close>

fun decimal :: "nat \<Rightarrow> u8 list" where
  "decimal n = (if n < 10 then [48 + of_nat n] else decimal (n div 10) @ [48 + of_nat (n mod 10)])"

declare decimal.simps [simp del]

definition print_03d :: "int \<Rightarrow> u8 list" where
  "print_03d n =
     (let (sign, m) = (if n < 0 then ([45], nat (- n)) else ([], nat n)); ds = decimal m
      in sign @ replicate (3 - length sign - length ds) 48 @ ds)"

end
