(* ===== verification/Rfb_Security.thy ===== *)
theory Rfb_Security
  imports D3des_Correct Libc_Scanf
begin

text \<open>
  Passwords and the VNC challenge-response authentication: \<open>common/rfb/Password.cxx\<close>,
  \<open>SSecurityVncAuth.cxx\<close>, \<open>CSecurityVncAuth.cxx\<close>, and \<open>SSecurityFactoryStandard.cxx\<close>. The random
  bytes of the challenge and the configured password are parameters.
\<close>

subsection \<open>Errors and connections\<close>

text \<open>
  How a call of the connection's code can end without returning. The first four constructors are
  \<open>rdr::Exception\<close>s, which the handlers of a connection catch; \<open>BadAlloc\<close> is \<open>std::bad_alloc\<close>, which is none;
  \<open>NoReturn\<close> is no exception at all: a trap, an endless loop, or undefined behaviour.
\<close>

datatype conn_error =
    StreamError rdr_error
  | GeneralError string
  | ConnFailed "u8 list"
  | AuthFailure "u8 list"
  | BadAlloc
  | NoReturn string

fun rdr_exception :: "conn_error \<Rightarrow> bool" where
  "rdr_exception BadAlloc = False"
| "rdr_exception (NoReturn _) = False"
| "rdr_exception _ = True"

definition bytes_of :: "string \<Rightarrow> u8 list" where
  "bytes_of s = map of_char s"

text \<open>A step of a connection: what it throws or returns, with the state it leaves either way; \<open>w_in\<close> holds the
  bytes that have arrived, \<open>w_out\<close> those written.\<close>

type_synonym ('s, 'a) act = "'s \<Rightarrow> (conn_error + 'a) \<times> 's"

definition ret :: "'a \<Rightarrow> ('s, 'a) act" where "ret x = (\<lambda>s. (Inr x, s))"
definition throw :: "conn_error \<Rightarrow> ('s, 'a) act" where "throw e = (\<lambda>s. (Inl e, s))"
definition modify :: "('s \<Rightarrow> 's) \<Rightarrow> ('s, unit) act" where "modify f = (\<lambda>s. (Inr (), f s))"

definition bindA :: "('s, 'a) act \<Rightarrow> ('a \<Rightarrow> ('s, 'b) act) \<Rightarrow> ('s, 'b) act" where
  "bindA m k = (\<lambda>s. case m s of (Inl e, s') \<Rightarrow> (Inl e, s') | (Inr x, s') \<Rightarrow> k x s')"

definition getting :: "('s \<Rightarrow> 'a) \<Rightarrow> ('a \<Rightarrow> ('s, 'b) act) \<Rightarrow> ('s, 'b) act" where
  "getting f k = (\<lambda>s. k (f s) s)"

fun seqA :: "('s, unit) act list \<Rightarrow> ('s, unit) act" where
  "seqA [] = ret ()"
| "seqA (m # ms) = bindA m (\<lambda>_. seqA ms)"

lemmas act_simps = ret_def throw_def modify_def bindA_def getting_def

record wire =
  w_in :: "u8 list"
  w_out :: "u8 list"

definition rd :: "'a parser \<Rightarrow> ('m wire_scheme, 'a) act" where
  "rd p = (\<lambda>s. case p (w_in s) of Inl e \<Rightarrow> (Inl (StreamError e), s) | Inr (x, is) \<Rightarrow> (Inr x, s\<lparr>w_in := is\<rparr>))"

definition wr :: "u8 list \<Rightarrow> ('m wire_scheme, unit) act" where
  "wr bs = modify (\<lambda>s. s\<lparr>w_out := w_out s @ bs\<rparr>)"

subsection \<open>Passwords\<close>

text \<open>The key of a password is its first eight characters, filled up with null bytes.\<close>

definition key8 :: "u8 list \<Rightarrow> u8 list" where
  "key8 pwd = map (\<lambda>i. if i < strlen pwd then pwd ! i else 0) [0..<8]"

definition d3desObfuscationKey :: "u8 list" where
  "d3desObfuscationKey = [23, 82, 107, 6, 35, 78, 88, 7]"

definition ObfuscatedPasswd :: "u8 list \<Rightarrow> u8 list" where
  "ObfuscatedPasswd plainPwd = des (deskey d3desObfuscationKey EN0) (key8 plainPwd)"

definition PlainPasswd :: "u8 list \<Rightarrow> conn_error + u8 list" where
  "PlainPasswd obfPwd =
     (if length obfPwd < 8 then Inl (GeneralError ''bad obfuscated password length'')
      else Inr (des (deskey d3desObfuscationKey DE1) obfPwd @ [0]))"

text \<open>
  \<open>VncAuthPasswdParameter::getVncAuthPasswd\<close>: the parameter's value, or the first 128 bytes of the
  password file when the value is empty; \<open>None\<close> is the null pointer. \<open>file\<close> is the content of the file,
  \<open>None\<close> when no file is named or it cannot be opened.
\<close>

definition getVncAuthPasswd :: "u8 list \<Rightarrow> u8 list option \<Rightarrow> u8 list option" where
  "getVncAuthPasswd value file =
     (case (if value = [] then map_option (take 128) file else Some value) of
        None \<Rightarrow> None
      | Some obfuscated \<Rightarrow> (case PlainPasswd obfuscated of Inl e \<Rightarrow> None | Inr pwd \<Rightarrow> Some pwd))"

subsection \<open>The challenge and the response\<close>

definition vnc_response :: "u8 list \<Rightarrow> u8 list \<Rightarrow> u8 list" where
  "vnc_response pwd challenge =
     (let k = deskey (key8 pwd) EN0 in des k (take 8 challenge) @ des k (take 8 (drop 8 challenge)))"

text \<open>\<open>SSecurityVncAuth\<close>: \<open>response\<close> holds the \<open>responsePos\<close> bytes received.\<close>

record SSecurityVncAuth =
  challenge :: "u8 list"
  response :: "u8 list"
  sentChallenge :: bool

definition newSSecurityVncAuth :: SSecurityVncAuth where
  "newSSecurityVncAuth = \<lparr>challenge = replicate 16 0, response = [], sentChallenge = False\<rparr>"

text \<open>\<open>processMsg\<close>, which also encrypts the stored challenge in place; the result is whether the
  exchange is complete.\<close>

definition ssec_processMsg :: "u8 list \<Rightarrow> u8 list option \<Rightarrow> SSecurityVncAuth \<Rightarrow>
    ('m wire_scheme, (conn_error + bool) \<times> SSecurityVncAuth) act" where
  "ssec_processMsg random passwd sec =
     (if \<not> sentChallenge sec
      then bindA (wr random) (\<lambda>_. ret (Inr False, sec\<lparr>challenge := random, sentChallenge := True\<rparr>))
      else
        getting w_in (\<lambda>is.
          let n = 16 - length (response sec); sec = sec\<lparr>response := response sec @ take n is\<rparr>
          in bindA (modify (\<lambda>s. s\<lparr>w_in := drop n is\<rparr>)) (\<lambda>_.
            if length (response sec) < 16 then ret (Inr False, sec)
            else case passwd of
                   None \<Rightarrow> ret (Inl (AuthFailure (bytes_of ''No password configured for VNC Auth'')), sec)
                 | Some pwd \<Rightarrow>
                     let sec = sec\<lparr>challenge := vnc_response pwd (challenge sec)\<rparr>
                     in if challenge sec \<noteq> response sec
                        then ret (Inl (AuthFailure (bytes_of ''Authentication failure'')), sec)
                        else ret (Inr True, sec))))"

text \<open>\<open>CSecurityVncAuth::processMsg\<close>\<close>

definition csec_processMsg :: "u8 list \<Rightarrow> ('m wire_scheme, bool) act" where
  "csec_processMsg passwd =
     bindA (rd (p_bytes 16)) (\<lambda>challenge. bindA (wr (vnc_response passwd challenge)) (\<lambda>_. ret True))"

subsection \<open>The security types\<close>

definition secTypeInvalid :: int where "secTypeInvalid = 0"
definition secTypeNone :: int where "secTypeNone = 1"
definition secTypeVncAuth :: int where "secTypeVncAuth = 2"
definition secTypeTight :: int where "secTypeTight = 16"

definition isSecTypeSupported :: "int \<Rightarrow> bool" where
  "isSecTypeSupported t \<longleftrightarrow> t = secTypeNone \<or> t = secTypeVncAuth"

text \<open>\<open>getSecTypes\<close>, from the list of configured types that \<open>parseSecTypes\<close> gives.\<close>

definition getSecTypes :: "int list \<Rightarrow> int list" where
  "getSecTypes configured = filter isSecTypeSupported configured"

datatype SSecurity = SSecurityNone | SSecurityVnc SSecurityVncAuth

definition getSSecurity :: "int \<Rightarrow> string + SSecurity" where
  "getSSecurity secType =
     (if secType = secTypeNone then Inr SSecurityNone
      else if secType = secTypeVncAuth then Inr (SSecurityVnc newSSecurityVncAuth)
      else Inl ''Security type not supported'')"

definition ssec_type :: "SSecurity \<Rightarrow> int" where
  "ssec_type sec = (case sec of SSecurityNone \<Rightarrow> secTypeNone | SSecurityVnc _ \<Rightarrow> secTypeVncAuth)"

subsection \<open>Facts\<close>

lemma length_key8 [simp]: "length (key8 pwd) = 8"
  by (simp add: key8_def)

lemma length_vnc_response [simp]: "length (vnc_response pwd c) = 16"
  by (simp add: vnc_response_def Let_def)

lemma key8_cstr: "key8 pwd = take 8 (cstr pwd) @ replicate (8 - length (cstr pwd)) 0"
proof (rule nth_equalityI)
  show "length (key8 pwd) = length (take 8 (cstr pwd) @ replicate (8 - length (cstr pwd)) 0)" by simp
  fix i assume "i < length (key8 pwd)"
  then have i: "i < 8" by simp
  have "strlen pwd = length (cstr pwd)" by (simp add: strlen_def cstr_def)
  moreover have "cstr pwd ! i = pwd ! i" if "i < length (cstr pwd)"
    using that by (simp add: cstr_def takeWhile_nth)
  ultimately show "key8 pwd ! i = (take 8 (cstr pwd) @ replicate (8 - length (cstr pwd)) 0) ! i"
    using i by (auto simp: key8_def nth_append)
qed

lemma cstr_key8: "cstr (key8 pwd @ bs) = take 8 (cstr pwd)" if "length (cstr pwd) < 8 \<or> (\<exists>bs'. bs = 0 # bs')"
proof -
  have nz: "\<forall>c \<in> set (take 8 (cstr pwd)). c \<noteq> 0" using set_take_subset [of 8 "cstr pwd"] by (auto simp: cstr_def dest: set_takeWhileD)
  have "cstr (key8 pwd @ bs) = takeWhile (\<lambda>c. c \<noteq> 0) (take 8 (cstr pwd) @ replicate (8 - length (cstr pwd)) 0 @ bs)"
    by (simp only: key8_cstr append_assoc cstr_def [of "take 8 (cstr pwd) @ replicate (8 - length (cstr pwd)) 0 @ bs"])
  also have "\<dots> = take 8 (cstr pwd) @ takeWhile (\<lambda>c. c \<noteq> 0) (replicate (8 - length (cstr pwd)) 0 @ bs)"
    by (rule takeWhile_append_all) (use nz in simp)
  also have "takeWhile (\<lambda>c. c \<noteq> 0) (replicate (8 - length (cstr pwd)) 0 @ bs) = []"
    using that by (cases "8 - length (cstr pwd)") auto
  finally show ?thesis by simp
qed

text \<open>
  The obfuscated form of a password always has the eight bytes \<open>PlainPasswd\<close> asks for, and gives back
  exactly the first eight characters; the response to a challenge under the recovered password is that
  under the original one.
\<close>

theorem password_roundtrip:
  "\<exists>pwd'. PlainPasswd (ObfuscatedPasswd pwd) = Inr pwd' \<and> cstr pwd' = take 8 (cstr pwd) \<and>
    vnc_response pwd' c = vnc_response pwd c"
proof -
  have p: "PlainPasswd (ObfuscatedPasswd pwd) = Inr (key8 pwd @ [0])"
    using des_undo [of "map (round_key d3desObfuscationKey) [0..<16]" "key8 pwd"]
    by (simp add: PlainPasswd_def ObfuscatedPasswd_def deskey_EN0 deskey_DE1)
  have c: "cstr (key8 pwd @ [0]) = take 8 (cstr pwd)" by (rule cstr_key8) simp
  have "key8 (key8 pwd @ [0]) = take 8 (cstr (key8 pwd @ [0])) @ replicate (8 - length (cstr (key8 pwd @ [0]))) 0"
    by (rule key8_cstr)
  also have "\<dots> = key8 pwd" unfolding c unfolding key8_cstr [of pwd] by (simp add: min_def)
  finally have "key8 (key8 pwd @ [0]) = key8 pwd" .
  then show ?thesis using p c by (simp add: vnc_response_def)
qed

end
