(* ===== verification/Rfb_PixelFormat.thy ===== *)
theory Rfb_PixelFormat
  imports Libc_Scanf
begin

text \<open>
  \<open>common/rfb/PixelFormat.cxx\<close>: the pixel format as it travels in \<open>ServerInit\<close> and
  \<open>SetPixelFormat\<close> messages, its comparison, and the conversions between pixels and 16-bit RGB.
\<close>

unbundle bit_operations_syntax

text \<open>\<open>int\<close> members as integers; a colour map is a function of the index.\<close>

record PixelFormat =
  bpp :: int
  depth :: int
  bigEndian :: bool
  trueColour :: bool
  redMax :: int
  greenMax :: int
  blueMax :: int
  redShift :: int
  greenShift :: int
  blueShift :: int

definition newPixelFormat :: PixelFormat where
  "newPixelFormat = \<lparr>bpp = 8, depth = 8, bigEndian = False, trueColour = True,
     redMax = 7, greenMax = 7, blueMax = 3, redShift = 0, greenShift = 3, blueShift = 6\<rparr>"

definition pf_equal :: "PixelFormat \<Rightarrow> PixelFormat \<Rightarrow> bool" where
  "pf_equal p q \<longleftrightarrow> bpp p = bpp q \<and> depth p = depth q \<and> (bigEndian p = bigEndian q \<or> bpp p = 8) \<and>
     trueColour p = trueColour q \<and>
     (\<not> trueColour p \<or> (redMax p = redMax q \<and> greenMax p = greenMax q \<and> blueMax p = blueMax q \<and>
        redShift p = redShift q \<and> greenShift p = greenShift q \<and> blueShift p = blueShift q))"

text \<open>Eight bits make a \<open>bool\<close>, as in every assignment of \<open>readU8()\<close> to one.\<close>

definition bool_of :: "u8 \<Rightarrow> bool" where "bool_of u \<longleftrightarrow> u \<noteq> 0"
definition of_bool8 :: "bool \<Rightarrow> u8" where "of_bool8 b = (if b then 1 else 0)"

definition p_PixelFormat :: "PixelFormat parser" where
  "p_PixelFormat bs =
     andthen (p_U8 bs) (\<lambda>(b, bs). andthen (p_U8 bs) (\<lambda>(d, bs).
     andthen (p_U8 bs) (\<lambda>(e, bs). andthen (p_U8 bs) (\<lambda>(t, bs).
     andthen (p_U16 bs) (\<lambda>(rm, bs). andthen (p_U16 bs) (\<lambda>(gm, bs). andthen (p_U16 bs) (\<lambda>(bm, bs).
     andthen (p_U8 bs) (\<lambda>(rs, bs). andthen (p_U8 bs) (\<lambda>(gs, bs). andthen (p_U8 bs) (\<lambda>(bls, bs).
     andthen (p_skip 3 bs) (\<lambda>(_, bs).
       Inr (\<lparr>bpp = uint b, depth = uint d, bigEndian = bool_of e, trueColour = bool_of t,
             redMax = uint rm, greenMax = uint gm, blueMax = uint bm,
             redShift = uint rs, greenShift = uint gs, blueShift = uint bls\<rparr>, bs))))))))))))"

definition e_PixelFormat :: "PixelFormat \<Rightarrow> u8 list" where
  "e_PixelFormat pf =
     [of_int (bpp pf), of_int (depth pf), of_bool8 (bigEndian pf), of_bool8 (trueColour pf)] @
     e_U16 (of_int (redMax pf)) @ e_U16 (of_int (greenMax pf)) @ e_U16 (of_int (blueMax pf)) @
     [of_int (redShift pf), of_int (greenShift pf), of_int (blueShift pf)] @ replicate 3 0"

text \<open>
  \<open>pixelFromRGB\<close> and \<open>rgbFromPixel\<close>. The arithmetic of the components is that of \<open>U32\<close>; a shift by
  32 or more, undefined in C, gives 0 here. In a format without true colour, the nearest colour of the
  map is taken, the first one of several.
\<close>

definition scale_down :: "u16 \<Rightarrow> int \<Rightarrow> u32" where
  "scale_down c mx = (ucast c * of_int mx + 32767) div 65535"

definition nearest :: "(int \<Rightarrow> int \<times> int \<times> int) \<Rightarrow> int \<Rightarrow> int \<Rightarrow> int \<Rightarrow> nat \<Rightarrow> int" where
  "nearest cm red green blue colours =
     fst (foldl (\<lambda>(col, diff) i.
            let (r, g, b) = cm i; rd = drop_bit 8 (r - red); gd = drop_bit 8 (g - green); bd = drop_bit 8 (b - blue);
                d = rd * rd + gd * gd + bd * bd
            in if d < diff then (i, d) else (col, diff))
          (0, 256 * 256 * 4) (map int [0..<colours]))"

definition pixelFromRGB :: "PixelFormat \<Rightarrow> u16 \<Rightarrow> u16 \<Rightarrow> u16 \<Rightarrow> (int \<Rightarrow> int \<times> int \<times> int) option \<Rightarrow> u32" where
  "pixelFromRGB pf red green blue cm =
     (if trueColour pf
      then push_bit (nat (redShift pf)) (scale_down red (redMax pf)) OR
           push_bit (nat (greenShift pf)) (scale_down green (greenMax pf)) OR
           push_bit (nat (blueShift pf)) (scale_down blue (blueMax pf))
      else case cm of
             Some cm \<Rightarrow> of_int (nearest cm (uint red) (uint green) (uint blue) (2 ^ nat (depth pf)))
           | None \<Rightarrow> 0)"

definition scale_up :: "u32 \<Rightarrow> int \<Rightarrow> int \<Rightarrow> u32" where
  "scale_up p sh mx = ((drop_bit (nat sh) p AND of_int mx) * 65535 + of_int (mx div 2)) div of_int mx"

definition rgbFromPixel :: "PixelFormat \<Rightarrow> u32 \<Rightarrow> (int \<Rightarrow> int \<times> int \<times> int) \<Rightarrow> int \<times> int \<times> int" where
  "rgbFromPixel pf p cm =
     (if trueColour pf
      then (sint (scale_up p (redShift pf) (redMax pf)), sint (scale_up p (greenShift pf) (greenMax pf)),
            sint (scale_up p (blueShift pf) (blueMax pf)))
      else cm (uint p))"

text \<open>
  \<open>parse\<close>: a three-letter order of the colours with the bits of each, as in \<open>rgb332\<close>, compared without
  regard to case; the machine is little-endian. A string that is no format can leave the members half set.
\<close>

definition lower :: "u8 \<Rightarrow> u8" where
  "lower c = (if 65 \<le> c \<and> c \<le> 90 then c + 32 else c)"

definition scan_format :: "u8 list \<Rightarrow> (u8 list \<times> int \<times> int \<times> int) option" where
  "scan_format str =
     do {
       (rgbbgr, s) \<leftarrow> scan_word 3 (cstr str);
       (bits1, s) \<leftarrow> scan_int 1 s;
       (bits2, s) \<leftarrow> scan_int 1 s;
       (bits3, s) \<leftarrow> scan_int 1 s;
       Some (rgbbgr, bits1, bits2, bits3)
     }"

definition pf_parse :: "u8 list \<Rightarrow> PixelFormat \<Rightarrow> bool \<times> PixelFormat" where
  "pf_parse str pf =
     (case scan_format str of
        None \<Rightarrow> (False, pf)
      | Some (rgbbgr, bits1, bits2, bits3) \<Rightarrow>
          let d = bits1 + bits2 + bits3;
              pf = pf\<lparr>depth := d, bpp := (if d \<le> 8 then 8 else if d \<le> 16 then 16 else 32), trueColour := True,
                      bigEndian := False, greenShift := bits3, greenMax := 2 ^ nat bits2 - 1\<rparr>
          in if map lower rgbbgr = [98, 103, 114]
             then (True, pf\<lparr>redShift := 0, redMax := 2 ^ nat bits3 - 1, blueShift := bits3 + bits2, blueMax := 2 ^ nat bits1 - 1\<rparr>)
             else if map lower rgbbgr = [114, 103, 98]
             then (True, pf\<lparr>blueShift := 0, blueMax := 2 ^ nat bits3 - 1, redShift := bits3 + bits2, redMax := 2 ^ nat bits1 - 1\<rparr>)
             else (False, pf))"

subsection \<open>Facts\<close>

definition pf_on_wire :: "PixelFormat \<Rightarrow> bool" where
  "pf_on_wire pf \<longleftrightarrow> (\<forall>i \<in> {bpp pf, depth pf, redShift pf, greenShift pf, blueShift pf}. 0 \<le> i \<and> i < 256) \<and>
     (\<forall>i \<in> {redMax pf, greenMax pf, blueMax pf}. 0 \<le> i \<and> i < 65536)"

lemma uint_of_int_u8: "0 \<le> i \<Longrightarrow> i < 256 \<Longrightarrow> uint (of_int i :: u8) = i"
  by (simp add: uint_word_of_int)

lemma uint_of_int_u16: "0 \<le> i \<Longrightarrow> i < 65536 \<Longrightarrow> uint (of_int i :: u16) = i"
  by (simp add: uint_word_of_int)

lemma bool_of_bool8 [simp]: "bool_of (of_bool8 b) = b"
  by (simp add: bool_of_def of_bool8_def)

lemma p_skip_e: "length xs = n \<Longrightarrow> p_skip n (xs @ bs) = Inr ((), bs)"
  by (simp add: p_skip_def p_take_def)

lemma p_PixelFormat_e:
  assumes "pf_on_wire pf"
  shows "p_PixelFormat (e_PixelFormat pf @ bs) = Inr (pf, bs)"
  using assms p_skip_e [of "[0, 0, 0]" 3 bs]
  by (simp add: p_PixelFormat_def e_PixelFormat_def pf_on_wire_def uint_of_int_u8 uint_of_int_u16 numeral_3_eq_3)

lemma p_PixelFormat_on_wire:
  assumes "p_PixelFormat bs = Inr (pf, rest)"
  shows "pf_on_wire pf"
proof -
  have b: "uint (u :: u8) < 256" "uint (v :: u16) < 65536" for u v
    using uint_lt2p [of u] uint_lt2p [of v] by simp_all
  show ?thesis using assms b by (auto simp: p_PixelFormat_def pf_on_wire_def andthen_def split: sum.splits)
qed

text \<open>A component of \<open>mx + 1\<close> levels survives the way to 16 bits and back.\<close>

lemma scale_levels:
  fixes v mx :: int
  assumes "0 \<le> v" and "v \<le> mx" and "1 \<le> mx" and "mx \<le> 65535"
  shows "((v * 65535 + mx div 2) div mx * mx + 32767) div 65535 = v"
    and "0 \<le> (v * 65535 + mx div 2) div mx" and "(v * 65535 + mx div 2) div mx \<le> 65535"
proof -
  let ?n = "v * 65535 + mx div 2"
  have n: "?n div mx * mx + ?n mod mx = ?n" by simp
  have m: "0 \<le> ?n mod mx" "?n mod mx < mx" using assms(3) by simp_all
  have h: "2 * (mx div 2) \<le> mx" "mx \<le> 2 * (mx div 2) + 1" by linarith+
  define q where "q = ?n div mx * mx"
  have q: "q + ?n mod mx = v * 65535 + mx div 2" using n by (simp only: q_def)
  have l: "v * 65535 \<le> q + 32767" and u: "q + 32767 < v * 65535 + 65535" using q m h assms(4) by linarith+
  have "(q + 32767) div 65535 = v" using l u by linarith
  then show "(?n div mx * mx + 32767) div 65535 = v" unfolding q_def .
  show "0 \<le> ?n div mx" using assms by (simp add: pos_imp_zdiv_nonneg_iff)
  have "?n \<le> mx * 65535 + mx div 2" using assms(2) by simp
  then have "?n < 65536 * mx" using h assms(3) by linarith
  moreover have "65536 * mx \<le> ?n div mx * mx" if "65536 \<le> ?n div mx"
    using that assms(3) by (intro mult_right_mono) simp_all
  ultimately show "?n div mx \<le> 65535" using n m by linarith
qed

lemma uint_scale_up:
  fixes p :: u32 and sh mx :: int
  assumes "1 \<le> mx" and "mx \<le> 65535"
  defines "v \<equiv> uint (drop_bit (nat sh) p AND of_int mx)"
  shows "uint (scale_up p sh mx) = (v * 65535 + mx div 2) div mx" and "0 \<le> v" and "v \<le> mx"
proof -
  have m: "uint (of_int mx :: u32) = mx" using assms(1,2) by (simp add: uint_word_of_int)
  show v0: "0 \<le> v" by (simp add: v_def)
  have "drop_bit (nat sh) p AND of_int mx \<le> of_int mx" by (simp add: word_and_le1)
  then have "v \<le> uint (of_int mx :: u32)" unfolding v_def word_le_def .
  then show v: "v \<le> mx" unfolding m .
  have "v * 65535 \<le> 65535 * 65535" using v assms(2) by simp
  then have s: "v * 65535 + mx div 2 < 2 ^ 32" using assms(2) by simp
  have "v * 65535 < 2 ^ 32" using s assms(1) by linarith
  then have a: "uint ((drop_bit (nat sh) p AND of_int mx) * 65535) = v * 65535"
    using uint_mult_lem [of "drop_bit (nat sh) p AND of_int mx" 65535] by (simp add: v_def)
  have h: "uint (of_int (mx div 2) :: u32) = mx div 2" using assms(1,2) by (simp add: uint_word_of_int)
  have "uint ((drop_bit (nat sh) p AND of_int mx) * 65535 + of_int (mx div 2)) = v * 65535 + mx div 2"
    using s a h uint_add_lem [of "(drop_bit (nat sh) p AND of_int mx) * 65535" "of_int (mx div 2)"] by simp
  then show "uint (scale_up p sh mx) = (v * 65535 + mx div 2) div mx"
    unfolding scale_up_def uint_div m by simp
qed

lemma uint_scale_down:
  assumes "1 \<le> mx" and "mx \<le> 65535" and "0 \<le> c" and "c \<le> 65535"
  shows "uint (scale_down (of_int c) mx) = (c * mx + 32767) div 65535"
proof -
  have u: "uint (ucast (of_int c :: u16) :: u32) = c" "uint (of_int mx :: u32) = mx"
    using assms by (simp_all add: unsigned_ucast_eq uint_word_of_int take_bit_eq_mod)
  have "c * mx \<le> 65535 * 65535" using assms mult_mono [of c 65535 mx 65535] by simp
  then have s: "c * mx + 32767 < 2 ^ 32" by simp
  then have a: "uint (ucast (of_int c :: u16) * of_int mx :: u32) = c * mx"
    using u uint_mult_lem [of "ucast (of_int c :: u16) :: u32" "of_int mx"] by simp
  have "uint (ucast (of_int c :: u16) * of_int mx + 32767 :: u32) = c * mx + 32767"
    using s a uint_add_lem [of "ucast (of_int c :: u16) * of_int mx :: u32" 32767] by simp
  then show ?thesis unfolding scale_down_def uint_div by simp
qed

lemma sint_small: "uint (w :: u32) \<le> 65535 \<Longrightarrow> sint w = uint w"
proof -
  assume "uint w \<le> 65535"
  moreover have "- (2 ^ 31) \<le> uint w" by (rule order_trans [OF _ uint_ge_0]) simp
  ultimately show ?thesis by (simp add: sint_uint signed_take_bit_int_eq_self)
qed

lemma scale_component:
  assumes "1 \<le> mx" and "mx \<le> 65535"
  shows "push_bit (nat sh) (scale_down (of_int (sint (scale_up p sh mx))) mx) = p AND push_bit (nat sh) (of_int mx)"
proof -
  let ?v = "uint (drop_bit (nat sh) p AND of_int mx)"
  note up = uint_scale_up [OF assms, where sh = sh and p = p]
  note lv = scale_levels [OF up(2,3) assms]
  have "sint (scale_up p sh mx) = uint (scale_up p sh mx)"
    using lv(3) up(1) by (simp add: sint_small)
  then have c: "sint (scale_up p sh mx) = (?v * 65535 + mx div 2) div mx" using up(1) by simp
  have "uint (scale_down (of_int (sint (scale_up p sh mx))) mx) = ?v"
    unfolding c using uint_scale_down [OF assms lv(2,3)] lv(1) by simp
  then have "scale_down (of_int (sint (scale_up p sh mx))) mx = drop_bit (nat sh) p AND of_int mx"
    by (simp only: word_uint_eq_iff)
  then show ?thesis by (simp add: bit_eq_iff bit_simps) auto
qed

subsection \<open>The contract\<close>

text \<open>
  C31: In a true colour format with maxima between 1 and 65535, converting a pixel to 16-bit RGB and back
  gives the pixel, provided it has no bits outside the three colour fields; the rounding of the two
  conversions never moves a level, whatever the maxima and shifts are.
\<close>

theorem pixel_rgb_roundtrip:
  assumes "trueColour pf" and "1 \<le> redMax pf" and "redMax pf \<le> 65535" and "1 \<le> greenMax pf" and "greenMax pf \<le> 65535"
    and "1 \<le> blueMax pf" and "blueMax pf \<le> 65535"
    and "p AND (push_bit (nat (redShift pf)) (of_int (redMax pf)) OR push_bit (nat (greenShift pf)) (of_int (greenMax pf)) OR
                push_bit (nat (blueShift pf)) (of_int (blueMax pf))) = p"
    and "rgbFromPixel pf p cm = (r, g, b)"
  shows "pixelFromRGB pf (of_int r) (of_int g) (of_int b) cm' = p \<and>
    0 \<le> r \<and> r \<le> 65535 \<and> 0 \<le> g \<and> g \<le> 65535 \<and> 0 \<le> b \<and> b \<le> 65535"
proof -
  have rgb: "r = sint (scale_up p (redShift pf) (redMax pf))" "g = sint (scale_up p (greenShift pf) (greenMax pf))"
    "b = sint (scale_up p (blueShift pf) (blueMax pf))"
    using assms(1,9) by (simp_all add: rgbFromPixel_def)
  have range: "0 \<le> sint (scale_up p sh mx) \<and> sint (scale_up p sh mx) \<le> 65535" if "1 \<le> mx" "mx \<le> 65535" for sh mx
    using scale_levels(2,3) [OF uint_scale_up(2,3) [OF that, where sh = sh and p = p] that] uint_scale_up(1) [OF that, where sh = sh and p = p]
    by (simp add: sint_small)
  have "pixelFromRGB pf (of_int r) (of_int g) (of_int b) cm' =
      p AND (push_bit (nat (redShift pf)) (of_int (redMax pf)) OR push_bit (nat (greenShift pf)) (of_int (greenMax pf)) OR
             push_bit (nat (blueShift pf)) (of_int (blueMax pf)))"
    using assms(1) unfolding pixelFromRGB_def rgb
    by (simp only: if_True scale_component [OF assms(2,3)] scale_component [OF assms(4,5)] scale_component [OF assms(6,7)] bit.conj_disj_distrib)
  then show ?thesis using assms(8) range [OF assms(2,3)] range [OF assms(4,5)] range [OF assms(6,7)] rgb by metis
qed

theorem pixel_rgb_roundtrip_witness:
  "pixelFromRGB newPixelFormat (of_int 46811) (of_int 28086) (of_int 65535) None = (0xdd :: u32)"
proof -
  have r: "rgbFromPixel newPixelFormat 0xdd (\<lambda>_. (0, 0, 0)) = (46811, 28086, 65535)" by code_simp
  have m: "(0xdd :: u32) AND (push_bit (nat (redShift newPixelFormat)) (of_int (redMax newPixelFormat)) OR
      push_bit (nat (greenShift newPixelFormat)) (of_int (greenMax newPixelFormat)) OR
      push_bit (nat (blueShift newPixelFormat)) (of_int (blueMax newPixelFormat))) = 0xdd" by code_simp
  show ?thesis
    by (rule pixel_rgb_roundtrip [OF _ _ _ _ _ _ _ m r, THEN conjunct1]) (simp_all add: newPixelFormat_def)
qed

end
