(* ===== verification/Rfb_ConnParams.thy ===== *)
theory Rfb_ConnParams
  imports Rfb_PixelFormat
begin

text \<open>
  \<open>common/rfb/ConnParams.cxx\<close>, \<open>encodings.h\<close> and the registries of \<open>Encoder.cxx\<close> and
  \<open>Decoder.cxx\<close>: the parameters of a connection, the version handshake and the client's list of encodings.
\<close>

subsection \<open>Encodings\<close>

definition encodingRaw :: u32 where "encodingRaw = 0"
definition encodingCopyRect :: u32 where "encodingCopyRect = 1"
definition encodingRRE :: u32 where "encodingRRE = 2"
definition encodingCoRRE :: u32 where "encodingCoRRE = 4"
definition encodingHextile :: u32 where "encodingHextile = 5"
definition encodingTight :: u32 where "encodingTight = 7"
definition encodingZRLE :: u32 where "encodingZRLE = 16"
definition encodingMax :: u32 where "encodingMax = 255"
definition pseudoEncodingXCursor :: u32 where "pseudoEncodingXCursor = 0xffffff10"
definition pseudoEncodingCursor :: u32 where "pseudoEncodingCursor = 0xffffff11"
definition pseudoEncodingDesktopSize :: u32 where "pseudoEncodingDesktopSize = 0xffffff21"
definition pseudoEncodingDesktopName :: u32 where "pseudoEncodingDesktopName = 0xfffffecd"
definition pseudoEncodingLastRect :: u32 where "pseudoEncodingLastRect = 0xffffff20"
definition pseudoEncodingQualityLevel0 :: u32 where "pseudoEncodingQualityLevel0 = 0xffffffe0"
definition pseudoEncodingQualityLevel9 :: u32 where "pseudoEncodingQualityLevel9 = 0xffffffe9"
definition pseudoEncodingCompressLevel0 :: u32 where "pseudoEncodingCompressLevel0 = 0xffffff00"
definition pseudoEncodingCompressLevel9 :: u32 where "pseudoEncodingCompressLevel9 = 0xffffff09"

lemmas encoding_defs = encodingRaw_def encodingCopyRect_def encodingRRE_def encodingCoRRE_def encodingHextile_def
  encodingTight_def encodingZRLE_def encodingMax_def pseudoEncodingXCursor_def pseudoEncodingCursor_def
  pseudoEncodingDesktopSize_def pseudoEncodingDesktopName_def pseudoEncodingLastRect_def
  pseudoEncodingQualityLevel0_def pseudoEncodingQualityLevel9_def pseudoEncodingCompressLevel0_def
  pseudoEncodingCompressLevel9_def

text \<open>The encoders \<open>EncoderInit\<close> registers; the decoders \<open>DecoderInit\<close> registers are the same.\<close>

definition encoder_registered :: "u32 list" where
  "encoder_registered = [encodingRaw, encodingRRE, encodingHextile, encodingZRLE, encodingTight]"

definition decoder_registered :: "u32 list" where
  "decoder_registered = [encodingRaw, encodingRRE, encodingHextile, encodingZRLE, encodingTight]"

definition encoder_supported :: "u32 \<Rightarrow> bool" where
  "encoder_supported e \<longleftrightarrow> e \<le> encodingMax \<and> e \<in> set encoder_registered"

definition decoder_supported :: "u32 \<Rightarrow> bool" where
  "decoder_supported e \<longleftrightarrow> e \<le> encodingMax \<and> e \<in> set decoder_registered"

subsection \<open>The parameters\<close>

text \<open>\<open>verStr\<close> is the part of the version string received so far, of \<open>verStrPos\<close> bytes.\<close>

record ConnParams =
  majorVersion :: int
  minorVersion :: int
  tightExtensionsEnabled :: bool
  cp_width :: int
  cp_height :: int
  useCopyRect :: bool
  supportsLocalCursor :: bool
  supportsLocalXCursor :: bool
  supportsDesktopResize :: bool
  supportsDesktopRename :: bool
  supportsLastRect :: bool
  customCompressLevel :: bool
  compressLevel :: int
  noJpeg :: bool
  qualityLevel :: int
  cp_pf :: PixelFormat
  cp_name :: "u8 list"
  cp_encodings :: "u32 list"
  currentEncoding :: u32
  verStr :: "u8 list"

definition newConnParams :: ConnParams where
  "newConnParams = \<lparr>majorVersion = 0, minorVersion = 0, tightExtensionsEnabled = False, cp_width = 0, cp_height = 0,
     useCopyRect = False, supportsLocalCursor = False, supportsLocalXCursor = False, supportsDesktopResize = True,
     supportsDesktopRename = False, supportsLastRect = False, customCompressLevel = False, compressLevel = 6,
     noJpeg = False, qualityLevel = - 1, cp_pf = newPixelFormat, cp_name = [], cp_encodings = [],
     currentEncoding = encodingRaw, verStr = []\<rparr>"

definition setVersion :: "int \<Rightarrow> int \<Rightarrow> ConnParams \<Rightarrow> ConnParams" where
  "setVersion major minor cp = cp\<lparr>majorVersion := major, minorVersion := minor\<rparr>"

definition isVersion :: "ConnParams \<Rightarrow> int \<Rightarrow> int \<Rightarrow> bool" where
  "isVersion cp major minor \<longleftrightarrow> majorVersion cp = major \<and> minorVersion cp = minor"

definition beforeVersion :: "ConnParams \<Rightarrow> int \<Rightarrow> int \<Rightarrow> bool" where
  "beforeVersion cp major minor \<longleftrightarrow> majorVersion cp < major \<or> (majorVersion cp = major \<and> minorVersion cp < minor)"

definition afterVersion :: "ConnParams \<Rightarrow> int \<Rightarrow> int \<Rightarrow> bool" where
  "afterVersion cp major minor \<longleftrightarrow> \<not> beforeVersion cp major (minor + 1)"

text \<open>\<open>sscanf(verStr, "RFB %03d.%03d\n", ...)\<close>: the number of conversions, and the two variables.\<close>

definition scan_version :: "u8 list \<Rightarrow> int \<Rightarrow> int \<Rightarrow> nat \<times> int \<times> int" where
  "scan_version str major minor =
     (case scan_lit [0x52, 0x46, 0x42] (cstr str) of
        None \<Rightarrow> (0, major, minor)
      | Some s \<Rightarrow>
          case scan_int 3 (scan_ws s) of
            None \<Rightarrow> (0, major, minor)
          | Some (n, s) \<Rightarrow>
              case Option.bind (scan_lit [0x2e] s) (scan_int 3) of
                None \<Rightarrow> (1, n, minor)
              | Some (m, s) \<Rightarrow> (2, n, m))"

text \<open>\<open>readVersion\<close> with the bytes that have arrived: its result, \<open>*done\<close>, and what is left.\<close>

definition cp_readVersion :: "ConnParams \<Rightarrow> u8 list \<Rightarrow> (bool \<times> bool) \<times> ConnParams \<times> u8 list" where
  "cp_readVersion cp is =
     (if length (verStr cp) \<ge> 12 then ((False, False), cp, is)
      else
        let n = 12 - length (verStr cp);
            cp = cp\<lparr>verStr := verStr cp @ take n is\<rparr>;
            is = drop n is
        in if length (verStr cp) < 12 then ((True, False), cp, is)
           else let (k, major, minor) = scan_version (verStr cp) (majorVersion cp) (minorVersion cp)
                in ((k = 2, True), cp\<lparr>majorVersion := major, minorVersion := minor\<rparr>, is))"

definition cp_writeVersion :: "ConnParams \<Rightarrow> u8 list" where
  "cp_writeVersion cp = take 12 ([0x52, 0x46, 0x42, 0x20] @ print_03d (majorVersion cp) @ [0x2e] @ print_03d (minorVersion cp) @ [10])"

text \<open>\<open>setPF\<close> stores the format and then may throw; the flag says that it does not.\<close>

definition cp_setPF :: "PixelFormat \<Rightarrow> ConnParams \<Rightarrow> bool \<times> ConnParams" where
  "cp_setPF pf cp = (bpp pf = 8 \<or> bpp pf = 16 \<or> bpp pf = 32, cp\<lparr>cp_pf := pf\<rparr>)"

definition cp_setName :: "u8 list \<Rightarrow> ConnParams \<Rightarrow> ConnParams" where
  "cp_setName name cp = cp\<lparr>cp_name := cstr name\<rparr>"

text \<open>\<open>setEncodings\<close>: the loop runs from the last encoding to the first.\<close>

definition cp_encoding :: "u32 \<Rightarrow> ConnParams \<Rightarrow> ConnParams" where
  "cp_encoding e cp =
     (if e = encodingCopyRect then cp\<lparr>useCopyRect := True\<rparr>
      else if e = pseudoEncodingCursor then cp\<lparr>supportsLocalCursor := True\<rparr>
      else if e = pseudoEncodingXCursor then cp\<lparr>supportsLocalXCursor := True\<rparr>
      else if e = pseudoEncodingDesktopSize then cp\<lparr>supportsDesktopResize := True\<rparr>
      else if e = pseudoEncodingDesktopName then cp\<lparr>supportsDesktopRename := True\<rparr>
      else if e = pseudoEncodingLastRect then cp\<lparr>supportsLastRect := True\<rparr>
      else if e \<ge> pseudoEncodingCompressLevel0 \<and> e \<le> pseudoEncodingCompressLevel9
      then cp\<lparr>customCompressLevel := True, compressLevel := uint (e - pseudoEncodingCompressLevel0)\<rparr>
      else if e \<ge> pseudoEncodingQualityLevel0 \<and> e \<le> pseudoEncodingQualityLevel9
      then cp\<lparr>noJpeg := False, qualityLevel := uint (e - pseudoEncodingQualityLevel0)\<rparr>
      else if e \<le> encodingMax \<and> encoder_supported e then cp\<lparr>currentEncoding := e\<rparr>
      else cp)"

definition cp_setEncodings :: "u32 list \<Rightarrow> ConnParams \<Rightarrow> ConnParams" where
  "cp_setEncodings es cp =
     foldr cp_encoding es
       (cp\<lparr>useCopyRect := False, supportsLocalCursor := False, supportsDesktopResize := False, supportsLocalXCursor := False,
           supportsLastRect := False, customCompressLevel := False, compressLevel := - 1, noJpeg := True,
           qualityLevel := - 1, currentEncoding := encodingRaw, cp_encodings := es\<rparr>)"

subsection \<open>The version handshake\<close>

definition official :: "int \<times> int \<Rightarrow> bool" where
  "official v \<longleftrightarrow> v \<in> {(3, 3), (3, 7), (3, 8)}"

lemma writeVersion_official:
  "cp_writeVersion (setVersion 3 3 cp) = [0x52, 0x46, 0x42, 0x20, 48, 48, 51, 46, 48, 48, 51, 10]"
  "cp_writeVersion (setVersion 3 7 cp) = [0x52, 0x46, 0x42, 0x20, 48, 48, 51, 46, 48, 48, 55, 10]"
  "cp_writeVersion (setVersion 3 8 cp) = [0x52, 0x46, 0x42, 0x20, 48, 48, 51, 46, 48, 48, 56, 10]"
  by (simp_all add: cp_writeVersion_def setVersion_def print_03d_def decimal.simps numeral_3_eq_3)

lemma scan_version_official:
  "scan_version [0x52, 0x46, 0x42, 0x20, 48, 48, 51, 46, 48, 48, 51, 10] a b = (2, 3, 3)"
  "scan_version [0x52, 0x46, 0x42, 0x20, 48, 48, 51, 46, 48, 48, 55, 10] a b = (2, 3, 7)"
  "scan_version [0x52, 0x46, 0x42, 0x20, 48, 48, 51, 46, 48, 48, 56, 10] a b = (2, 3, 8)"
  by (simp_all add: scan_version_def scan_int_def scan_ws_def cstr_def is_space_def is_digit_def word_le_nat_alt)

lemma readVersion_written:
  assumes "verStr cp = []" and "official v" and "majorVersion cp' = fst v" and "minorVersion cp' = snd v"
  shows "cp_readVersion cp (cp_writeVersion cp' @ bs) =
    ((True, True), cp\<lparr>verStr := cp_writeVersion cp', majorVersion := fst v, minorVersion := snd v\<rparr>, bs)"
proof -
  have w: "cp_writeVersion cp' = cp_writeVersion (setVersion (fst v) (snd v) cp')"
    using assms(3,4) by (simp add: cp_writeVersion_def setVersion_def)
  have "length (cp_writeVersion cp') = 12 \<and> (\<forall>a b. scan_version (cp_writeVersion cp') a b = (2, fst v, snd v))"
    unfolding w using assms(2) by (auto simp: official_def writeVersion_official scan_version_official)
  then show ?thesis using assms(1) by (simp add: cp_readVersion_def Let_def case_prod_unfold)
qed

subsection \<open>The list of encodings\<close>

definition level_in :: "u32 \<Rightarrow> u32 \<Rightarrow> u32 \<Rightarrow> bool" where
  "level_in lo hi e \<longleftrightarrow> lo \<le> e \<and> e \<le> hi"

definition first_level :: "u32 \<Rightarrow> u32 \<Rightarrow> u32 list \<Rightarrow> int" where
  "first_level lo hi es = (case find (level_in lo hi) es of Some e \<Rightarrow> uint (e - lo) | None \<Rightarrow> - 1)"

lemma encoder_supported_iff: "encoder_supported e \<longleftrightarrow> e \<in> {0, 2, 5, 16, 7}"
  by (auto simp: encoder_supported_def encoder_registered_def encoding_defs)

lemma encodings_distinct:
  "distinct [encodingCopyRect, pseudoEncodingCursor, pseudoEncodingXCursor, pseudoEncodingDesktopSize,
     pseudoEncodingDesktopName, pseudoEncodingLastRect]"
  "distinct [pseudoEncodingLastRect, pseudoEncodingDesktopName, pseudoEncodingDesktopSize, pseudoEncodingXCursor,
     pseudoEncodingCursor, encodingCopyRect]"
  by (simp_all add: encoding_defs)

lemma special_encodings:
  assumes "e \<in> {encodingCopyRect, pseudoEncodingCursor, pseudoEncodingXCursor, pseudoEncodingDesktopSize,
     pseudoEncodingDesktopName, pseudoEncodingLastRect}"
  shows "\<not> level_in pseudoEncodingCompressLevel0 pseudoEncodingCompressLevel9 e"
    and "\<not> level_in pseudoEncodingQualityLevel0 pseudoEncodingQualityLevel9 e" and "\<not> encoder_supported e"
  using assms by (auto simp: level_in_def encoder_supported_iff encoding_defs word_le_nat_alt)

lemma level_encodings:
  "level_in pseudoEncodingCompressLevel0 pseudoEncodingCompressLevel9 e \<Longrightarrow>
     \<not> level_in pseudoEncodingQualityLevel0 pseudoEncodingQualityLevel9 e \<and> \<not> encoder_supported e"
  "level_in pseudoEncodingQualityLevel0 pseudoEncodingQualityLevel9 e \<Longrightarrow> \<not> encoder_supported e"
  by (auto simp: level_in_def encoder_supported_iff encoding_defs word_le_nat_alt)

text \<open>An encoding is one of the special ones, a level, one with an encoder, or unknown.\<close>

lemma cp_encoding_cases:
  "cp_encoding e cp =
     (if e = encodingCopyRect then cp\<lparr>useCopyRect := True\<rparr>
      else if e = pseudoEncodingCursor then cp\<lparr>supportsLocalCursor := True\<rparr>
      else if e = pseudoEncodingXCursor then cp\<lparr>supportsLocalXCursor := True\<rparr>
      else if e = pseudoEncodingDesktopSize then cp\<lparr>supportsDesktopResize := True\<rparr>
      else if e = pseudoEncodingDesktopName then cp\<lparr>supportsDesktopRename := True\<rparr>
      else if e = pseudoEncodingLastRect then cp\<lparr>supportsLastRect := True\<rparr>
      else if level_in pseudoEncodingCompressLevel0 pseudoEncodingCompressLevel9 e
      then cp\<lparr>customCompressLevel := True, compressLevel := uint (e - pseudoEncodingCompressLevel0)\<rparr>
      else if level_in pseudoEncodingQualityLevel0 pseudoEncodingQualityLevel9 e
      then cp\<lparr>noJpeg := False, qualityLevel := uint (e - pseudoEncodingQualityLevel0)\<rparr>
      else if encoder_supported e then cp\<lparr>currentEncoding := e\<rparr>
      else cp)"
  unfolding cp_encoding_def level_in_def by (simp add: encoder_supported_def)

lemma cp_encoding_fields:
  "useCopyRect (cp_encoding e cp) = (useCopyRect cp \<or> e = encodingCopyRect) \<and>
  supportsLocalCursor (cp_encoding e cp) = (supportsLocalCursor cp \<or> e = pseudoEncodingCursor) \<and>
  supportsLocalXCursor (cp_encoding e cp) = (supportsLocalXCursor cp \<or> e = pseudoEncodingXCursor) \<and>
  supportsDesktopResize (cp_encoding e cp) = (supportsDesktopResize cp \<or> e = pseudoEncodingDesktopSize) \<and>
  supportsDesktopRename (cp_encoding e cp) = (supportsDesktopRename cp \<or> e = pseudoEncodingDesktopName) \<and>
  supportsLastRect (cp_encoding e cp) = (supportsLastRect cp \<or> e = pseudoEncodingLastRect) \<and>
  currentEncoding (cp_encoding e cp) = (if encoder_supported e then e else currentEncoding cp) \<and>
  compressLevel (cp_encoding e cp) = (if level_in pseudoEncodingCompressLevel0 pseudoEncodingCompressLevel9 e
     then uint (e - pseudoEncodingCompressLevel0) else compressLevel cp) \<and>
  qualityLevel (cp_encoding e cp) = (if level_in pseudoEncodingQualityLevel0 pseudoEncodingQualityLevel9 e
     then uint (e - pseudoEncodingQualityLevel0) else qualityLevel cp) \<and>
  noJpeg (cp_encoding e cp) = (noJpeg cp \<and> \<not> level_in pseudoEncodingQualityLevel0 pseudoEncodingQualityLevel9 e) \<and>
  cp_encodings (cp_encoding e cp) = cp_encodings cp"
proof -
  note d = encodings_distinct special_encodings [of e]
  consider "e = encodingCopyRect" | "e = pseudoEncodingCursor" | "e = pseudoEncodingXCursor" | "e = pseudoEncodingDesktopSize"
    | "e = pseudoEncodingDesktopName" | "e = pseudoEncodingLastRect"
    | "e \<noteq> encodingCopyRect" "e \<noteq> pseudoEncodingCursor" "e \<noteq> pseudoEncodingXCursor" "e \<noteq> pseudoEncodingDesktopSize"
      "e \<noteq> pseudoEncodingDesktopName" "e \<noteq> pseudoEncodingLastRect" by blast
  then show ?thesis
  proof cases
    case 1 then show ?thesis using d unfolding cp_encoding_cases by simp
  next
    case 2 then show ?thesis using d unfolding cp_encoding_cases by simp
  next
    case 3 then show ?thesis using d unfolding cp_encoding_cases by simp
  next
    case 4 then show ?thesis using d unfolding cp_encoding_cases by simp
  next
    case 5 then show ?thesis using d unfolding cp_encoding_cases by simp
  next
    case 6 then show ?thesis using d unfolding cp_encoding_cases by simp
  next
    case 7 then show ?thesis using level_encodings [of e] unfolding cp_encoding_cases by simp
  qed
qed

lemma setEncodings_foldr:
  fixes es :: "u32 list" and cp :: ConnParams
  defines "cp' \<equiv> foldr cp_encoding es cp"
  shows "useCopyRect cp' = (useCopyRect cp \<or> encodingCopyRect \<in> set es)"
    and "supportsLocalCursor cp' = (supportsLocalCursor cp \<or> pseudoEncodingCursor \<in> set es)"
    and "supportsLocalXCursor cp' = (supportsLocalXCursor cp \<or> pseudoEncodingXCursor \<in> set es)"
    and "supportsDesktopResize cp' = (supportsDesktopResize cp \<or> pseudoEncodingDesktopSize \<in> set es)"
    and "supportsDesktopRename cp' = (supportsDesktopRename cp \<or> pseudoEncodingDesktopName \<in> set es)"
    and "supportsLastRect cp' = (supportsLastRect cp \<or> pseudoEncodingLastRect \<in> set es)"
    and "currentEncoding cp' = (case find encoder_supported es of Some e \<Rightarrow> e | None \<Rightarrow> currentEncoding cp)"
    and "compressLevel cp' = (case find (level_in pseudoEncodingCompressLevel0 pseudoEncodingCompressLevel9) es of
           Some e \<Rightarrow> uint (e - pseudoEncodingCompressLevel0) | None \<Rightarrow> compressLevel cp)"
    and "qualityLevel cp' = (case find (level_in pseudoEncodingQualityLevel0 pseudoEncodingQualityLevel9) es of
           Some e \<Rightarrow> uint (e - pseudoEncodingQualityLevel0) | None \<Rightarrow> qualityLevel cp)"
    and "noJpeg cp' = (noJpeg cp \<and> find (level_in pseudoEncodingQualityLevel0 pseudoEncodingQualityLevel9) es = None)"
    and "cp_encodings cp' = cp_encodings cp"
  unfolding cp'_def by (induction es) (auto simp: cp_encoding_fields)

text \<open>
  After \<open>setEncodings\<close> the preferred encoding is the first in the client's list that the server has an
  encoder for (raw when there is none), each capability holds exactly when its pseudo-encoding is listed,
  the compression and JPEG quality levels are the first ones listed (-1 when none is), and JPEG is off when
  no quality level is listed. Only the capability to rename the desktop is never taken back.
\<close>

theorem setEncodings_effect:
  "currentEncoding (cp_setEncodings es cp) = (case find encoder_supported es of Some e \<Rightarrow> e | None \<Rightarrow> encodingRaw) \<and>
   useCopyRect (cp_setEncodings es cp) = (encodingCopyRect \<in> set es) \<and>
   supportsLocalCursor (cp_setEncodings es cp) = (pseudoEncodingCursor \<in> set es) \<and>
   supportsLocalXCursor (cp_setEncodings es cp) = (pseudoEncodingXCursor \<in> set es) \<and>
   supportsDesktopResize (cp_setEncodings es cp) = (pseudoEncodingDesktopSize \<in> set es) \<and>
   supportsLastRect (cp_setEncodings es cp) = (pseudoEncodingLastRect \<in> set es) \<and>
   compressLevel (cp_setEncodings es cp) = first_level pseudoEncodingCompressLevel0 pseudoEncodingCompressLevel9 es \<and>
   qualityLevel (cp_setEncodings es cp) = first_level pseudoEncodingQualityLevel0 pseudoEncodingQualityLevel9 es \<and>
   noJpeg (cp_setEncodings es cp) = (qualityLevel (cp_setEncodings es cp) = - 1) \<and>
   cp_encodings (cp_setEncodings es cp) = es \<and>
   supportsDesktopRename (cp_setEncodings es cp) = (supportsDesktopRename cp \<or> pseudoEncodingDesktopName \<in> set es)"
proof -
  have "uint (e - pseudoEncodingQualityLevel0) \<noteq> - 1" for e using uint_ge_0 [of "e - pseudoEncodingQualityLevel0"] by linarith
  then show ?thesis unfolding cp_setEncodings_def setEncodings_foldr first_level_def
    by (simp split: option.split)
qed

end
