(* ===== verification/Rfb_Caps.thy ===== *)
theory Rfb_Caps
  imports Rfb_ConnParams
begin

text \<open>
  The capabilities of the TightVNC extensions: \<open>common/rfb/CapsContainer.cxx\<close> and \<open>CapsList.cxx\<close>.
\<close>

record CapabilityInfo =
  cap_code :: u32
  vendorSignature :: "u8 list"
  nameSignature :: "u8 list"

text \<open>\<open>m_infoMap\<close>, \<open>m_enableMap\<close>, \<open>m_descMap\<close> (a missing description is the null pointer), and the codes
  in the order they were enabled, at most \<open>m_maxSize\<close>.\<close>

record CapsContainer =
  m_maxSize :: nat
  m_plist :: "u32 list"
  m_infoMap :: "u32 \<rightharpoonup> CapabilityInfo"
  m_enableMap :: "u32 \<rightharpoonup> bool"
  m_descMap :: "u32 \<rightharpoonup> u8 list option"

definition newCapsContainer :: "nat \<Rightarrow> CapsContainer" where
  "newCapsContainer maxCaps = \<lparr>m_maxSize = maxCaps, m_plist = [], m_infoMap = Map.empty, m_enableMap = Map.empty, m_descMap = Map.empty\<rparr>"

definition caps_add :: "CapabilityInfo \<Rightarrow> u8 list option \<Rightarrow> CapsContainer \<Rightarrow> CapsContainer" where
  "caps_add capinfo desc c =
     c\<lparr>m_infoMap := (m_infoMap c)(cap_code capinfo \<mapsto> capinfo), m_enableMap := (m_enableMap c)(cap_code capinfo \<mapsto> False),
       m_descMap := (m_descMap c)(cap_code capinfo \<mapsto> desc)\<rparr>"

definition caps_isKnown :: "CapsContainer \<Rightarrow> u32 \<Rightarrow> bool" where
  "caps_isKnown c code \<longleftrightarrow> m_descMap c code \<noteq> None"

definition caps_getInfo :: "CapsContainer \<Rightarrow> u32 \<Rightarrow> CapabilityInfo option" where
  "caps_getInfo c code = (if caps_isKnown c code then m_infoMap c code else None)"

definition caps_enable :: "CapabilityInfo \<Rightarrow> CapsContainer \<Rightarrow> bool \<times> CapsContainer" where
  "caps_enable capinfo c =
     (if \<not> caps_isKnown c (cap_code capinfo) then (False, c)
      else case m_infoMap c (cap_code capinfo) of
             None \<Rightarrow> (False, c)
           | Some known \<Rightarrow>
               if vendorSignature known \<noteq> vendorSignature capinfo \<or> nameSignature known \<noteq> nameSignature capinfo
               then (False, c\<lparr>m_enableMap := (m_enableMap c)(cap_code capinfo \<mapsto> False)\<rparr>)
               else (True, c\<lparr>m_enableMap := (m_enableMap c)(cap_code capinfo \<mapsto> True),
                             m_plist := (if length (m_plist c) < m_maxSize c then m_plist c @ [cap_code capinfo] else m_plist c)\<rparr>))"

definition caps_isEnabled :: "CapsContainer \<Rightarrow> u32 \<Rightarrow> bool" where
  "caps_isEnabled c code \<longleftrightarrow> caps_isKnown c code \<and> m_enableMap c code = Some True"

definition caps_getByOrder :: "CapsContainer \<Rightarrow> nat \<Rightarrow> u32" where
  "caps_getByOrder c i = (if i < length (m_plist c) then m_plist c ! i else 0)"

text \<open>\<open>CapsList\<close>\<close>

definition vendor_std :: "u8 list" where "vendor_std = map of_char ''STDV''"
definition vendor_tight :: "u8 list" where "vendor_tight = map of_char ''TGHT''"

definition add3rdParty :: "u32 \<Rightarrow> string \<Rightarrow> u8 list \<Rightarrow> CapsContainer \<Rightarrow> CapsContainer" where
  "add3rdParty code name vendor c =
     (let c = caps_add \<lparr>cap_code = code, vendorSignature = take 4 vendor, nameSignature = take 8 (map of_char name)\<rparr> None c
      in case caps_getInfo c code of
           Some tmp \<Rightarrow> snd (caps_enable tmp c)
         | None \<Rightarrow> c)"

definition addStandard :: "u32 \<Rightarrow> string \<Rightarrow> CapsContainer \<Rightarrow> CapsContainer" where
  "addStandard code name = add3rdParty code name vendor_std"

definition addTightExt :: "u32 \<Rightarrow> string \<Rightarrow> CapsContainer \<Rightarrow> CapsContainer" where
  "addTightExt code name = add3rdParty code name vendor_tight"

definition includesOnly :: "CapsContainer \<Rightarrow> u32 \<Rightarrow> bool" where
  "includesOnly c code \<longleftrightarrow> length (m_plist c) = 1 \<and> caps_getByOrder c 0 = code"

text \<open>\<open>write\<close>: a code without information leaves the previous one in \<open>cap\<close>; that never happens to a
  listed code.\<close>

definition e_cap :: "CapabilityInfo \<Rightarrow> u8 list" where
  "e_cap cap = e_U32 (cap_code cap) @ take 4 (vendorSignature cap) @ take 8 (nameSignature cap)"

fun caps_write :: "CapsContainer \<Rightarrow> CapabilityInfo \<Rightarrow> u32 list \<Rightarrow> u8 list" where
  "caps_write c cap [] = []"
| "caps_write c cap (code # codes) =
     (let cap = (case caps_getInfo c code of Some i \<Rightarrow> i | None \<Rightarrow> cap) in e_cap cap @ caps_write c cap codes)"

definition CapsList_write :: "CapsContainer \<Rightarrow> u8 list" where
  "CapsList_write c = caps_write c \<lparr>cap_code = 0, vendorSignature = replicate 4 0, nameSignature = replicate 8 0\<rparr>
     (map (caps_getByOrder c) [0..<length (m_plist c)])"

subsection \<open>Facts\<close>

text \<open>What is enabled is known and in the list as it was added.\<close>

definition caps_inv :: "CapsContainer \<Rightarrow> bool" where
  "caps_inv c \<longleftrightarrow> length (m_plist c) \<le> m_maxSize c \<and> dom (m_infoMap c) = dom (m_descMap c) \<and> dom (m_enableMap c) = dom (m_descMap c) \<and>
     set (m_plist c) \<subseteq> dom (m_descMap c) \<and> (\<forall>code i. m_infoMap c code = Some i \<longrightarrow> cap_code i = code)"

lemma caps_inv_new: "caps_inv (newCapsContainer n)"
  by (simp add: caps_inv_def newCapsContainer_def)

lemma caps_inv_add: "caps_inv c \<Longrightarrow> caps_inv (caps_add i d c)"
  by (auto simp: caps_inv_def caps_add_def)

lemma caps_inv_enable: "caps_inv c \<Longrightarrow> caps_inv (snd (caps_enable i c))"
  by (auto simp: caps_inv_def caps_enable_def caps_isKnown_def split: option.splits)

text \<open>
  Over any sequence of additions and enablings the container stays consistent, a capability is enabled
  exactly by a record equal to the one it was last added with, and enabling one leaves the others as they are.
\<close>

theorem caps_enable_exact:
  assumes "caps_inv c"
  shows "caps_inv (snd (caps_enable i c)) \<and> fst (caps_enable i c) = (caps_getInfo c (cap_code i) = Some i) \<and>
    caps_isEnabled (snd (caps_enable i c)) code =
      (if code = cap_code i then caps_getInfo c code = Some i else caps_isEnabled c code) \<and>
    \<not> caps_isEnabled (caps_add i d c) (cap_code i)"
proof (intro conjI)
  show "caps_inv (snd (caps_enable i c))" by (rule caps_inv_enable [OF assms])
  show e: "fst (caps_enable i c) = (caps_getInfo c (cap_code i) = Some i)"
    using assms by (auto simp: caps_enable_def caps_getInfo_def caps_isKnown_def caps_inv_def split: option.splits)
  show "caps_isEnabled (snd (caps_enable i c)) code =
      (if code = cap_code i then caps_getInfo c code = Some i else caps_isEnabled c code)"
    using assms by (auto simp: caps_enable_def caps_getInfo_def caps_isEnabled_def caps_isKnown_def caps_inv_def split: option.splits)
  show "\<not> caps_isEnabled (caps_add i d c) (cap_code i)" by (simp add: caps_isEnabled_def caps_add_def)
qed

definition demo_caps :: CapsContainer where
  "demo_caps = addStandard 2 ''VNCAUTH_'' (newCapsContainer 64)"

theorem caps_enable_exact_witness:
  "caps_isEnabled demo_caps 2 \<and>
   \<not> fst (caps_enable \<lparr>cap_code = 2, vendorSignature = [1], nameSignature = []\<rparr> demo_caps)"
proof -
  let ?i = "\<lparr>cap_code = 2, vendorSignature = [1], nameSignature = []\<rparr>"
  have inv: "caps_inv demo_caps"
    unfolding demo_caps_def addStandard_def add3rdParty_def Let_def
    by (auto intro: caps_inv_new caps_inv_add caps_inv_enable split: option.split)
  have "caps_isEnabled demo_caps 2" by code_simp
  moreover have "caps_getInfo demo_caps 2 \<noteq> Some ?i" by code_simp
  ultimately show ?thesis using caps_enable_exact [OF inv, of ?i] by simp
qed

end
