(* ===== verification/Rfb_ClientMsg.thy ===== *)
theory Rfb_ClientMsg
  imports Rfb_ConnParams Rfb_Rect
begin

text \<open>
  The messages from the client: \<open>common/rfb/CMsgWriter.cxx\<close> and \<open>CMsgWriterV3.cxx\<close> write them,
  \<open>SMsgReader.cxx\<close> and \<open>SMsgReaderV3.cxx\<close> read them and call a method of the handler, here a value of a
  datatype with the method's arguments. Streams are the bytes they carry.
\<close>

definition msgTypeSetPixelFormat :: u8 where "msgTypeSetPixelFormat = 0"
definition msgTypeSetEncodings :: u8 where "msgTypeSetEncodings = 2"
definition msgTypeFramebufferUpdateRequest :: u8 where "msgTypeFramebufferUpdateRequest = 3"
definition msgTypeKeyEvent :: u8 where "msgTypeKeyEvent = 4"
definition msgTypePointerEvent :: u8 where "msgTypePointerEvent = 5"
definition msgTypeClientCutText :: u8 where "msgTypeClientCutText = 6"
definition msgTypeFileListRequest :: u8 where "msgTypeFileListRequest = 130"
definition msgTypeFileDeleteRequest :: u8 where "msgTypeFileDeleteRequest = 139"
definition msgTypeVideoRectangleSelection :: u8 where "msgTypeVideoRectangleSelection = 151"
definition msgTypeVideoFreeze :: u8 where "msgTypeVideoFreeze = 152"

lemmas client_msg_types = msgTypeSetPixelFormat_def msgTypeSetEncodings_def msgTypeFramebufferUpdateRequest_def
  msgTypeKeyEvent_def msgTypePointerEvent_def msgTypeClientCutText_def msgTypeFileListRequest_def
  msgTypeFileDeleteRequest_def msgTypeVideoRectangleSelection_def msgTypeVideoFreeze_def

subsection \<open>The writer\<close>

text \<open>\<open>g\<close> is the byte of the buffer that \<open>skip\<close> leaves as it is.\<close>

definition writeSetPixelFormat :: "PixelFormat \<Rightarrow> u8 list" where
  "writeSetPixelFormat pf = msgTypeSetPixelFormat # replicate 3 0 @ e_PixelFormat pf"

definition writeSetEncodings :: "u8 \<Rightarrow> u32 list \<Rightarrow> u8 list" where
  "writeSetEncodings g es = msgTypeSetEncodings # g # e_U16 (of_nat (length es)) @ concat (map e_U32 es)"

text \<open>The encodings asked for: \<open>preferred\<close> first, then the others the client decodes, the highest first.\<close>

definition supported_encodings :: "u32 \<Rightarrow> bool \<Rightarrow> ConnParams \<Rightarrow> u32 list" where
  "supported_encodings preferred copyRect cp =
     (if supportsLocalCursor cp then [pseudoEncodingCursor] else []) @
     (if supportsDesktopResize cp then [pseudoEncodingDesktopSize] else []) @
     (if supportsDesktopRename cp then [pseudoEncodingDesktopName] else []) @
     (if decoder_supported preferred then [preferred] else []) @
     (if copyRect then [encodingCopyRect] else []) @
     filter (\<lambda>i. i \<noteq> preferred \<and> decoder_supported i) (map of_nat (rev [0..<256])) @
     [pseudoEncodingLastRect] @
     (if customCompressLevel cp \<and> 0 \<le> compressLevel cp \<and> compressLevel cp \<le> 9
      then [pseudoEncodingCompressLevel0 + of_int (compressLevel cp)] else []) @
     (if \<not> noJpeg cp \<and> 1 \<le> qualityLevel cp \<and> qualityLevel cp \<le> 9
      then [pseudoEncodingQualityLevel0 + of_int (qualityLevel cp)] else [])"

definition writeFramebufferUpdateRequest :: "Rect \<Rightarrow> bool \<Rightarrow> u8 list" where
  "writeFramebufferUpdateRequest r incremental =
     [msgTypeFramebufferUpdateRequest, of_bool8 incremental] @ e_U16 (of_int (px (r_tl r))) @ e_U16 (of_int (py (r_tl r))) @
     e_U16 (of_int (rect_width r)) @ e_U16 (of_int (rect_height r))"

definition writeKeyEvent :: "u32 \<Rightarrow> bool \<Rightarrow> u8 list" where
  "writeKeyEvent key down = [msgTypeKeyEvent, of_bool8 down, 0, 0] @ e_U32 key"

text \<open>The pointer is kept inside the framebuffer.\<close>

definition clip_pointer :: "ConnParams \<Rightarrow> Point \<Rightarrow> Point" where
  "clip_pointer cp pos =
     (let x = (if px pos < 0 then 0 else px pos);
          y = (if py pos < 0 then 0 else py pos)
      in \<lparr>px = (if x \<ge> cp_width cp then cp_width cp - 1 else x), py = (if y \<ge> cp_height cp then cp_height cp - 1 else y)\<rparr>)"

definition writePointerEvent :: "ConnParams \<Rightarrow> Point \<Rightarrow> int \<Rightarrow> u8 list" where
  "writePointerEvent cp pos buttonMask =
     (let p = clip_pointer cp pos
      in [msgTypePointerEvent, of_int buttonMask] @ e_U16 (of_int (px p)) @ e_U16 (of_int (py p)))"

text \<open>\<open>str\<close> has \<open>len\<close> bytes.\<close>

definition writeClientCutText :: "u8 list \<Rightarrow> u8 list" where
  "writeClientCutText str = [msgTypeClientCutText, 0, 0, 0] @ e_U32 (of_nat (length str)) @ str"

definition writeClientInit :: "bool \<Rightarrow> u8 list" where
  "writeClientInit shared = [of_bool8 shared]"

subsection \<open>The reader\<close>

text \<open>
  The call of the handler a message ends in. \<open>CutTextIgnored\<close> is an oversized text that was skipped,
  \<open>CutTextCorrupts\<close> the null written in front of an array of no bytes, \<open>CutTextNoMemory\<close> the request of
  a negative number of bytes, which is not an \<open>rdr::Exception\<close>; \<open>FileTransfer\<close> hands the rest of the
  stream to the file transfer.
\<close>

datatype client_msg =
    SetPixelFormat PixelFormat
  | SetEncodings "u32 list"
  | FramebufferUpdateRequest Rect bool
  | KeyEvent u32 bool
  | PointerEvent Point int
  | ClientCutText "u8 list"
  | CutTextIgnored
  | CutTextCorrupts
  | CutTextNoMemory
  | FileTransfer u8
  | SetVideoRectangle Rect
  | FreezeVideo bool
  | UnknownMessage u8

fun p_list :: "'a parser \<Rightarrow> nat \<Rightarrow> 'a list parser" where
  "p_list p 0 bs = Inr ([], bs)"
| "p_list p (Suc n) bs = andthen (p bs) (\<lambda>(x, bs). andthen (p_list p n bs) (\<lambda>(xs, bs). Inr (x # xs, bs)))"

definition p_rect :: "Rect parser" where
  "p_rect bs = andthen (p_U16 bs) (\<lambda>(x, bs). andthen (p_U16 bs) (\<lambda>(y, bs).
     andthen (p_U16 bs) (\<lambda>(w, bs). andthen (p_U16 bs) (\<lambda>(h, bs).
       Inr (mkRect (uint x) (uint y) (uint x + uint w) (uint y + uint h), bs)))))"

definition readSetPixelFormat :: "client_msg parser" where
  "readSetPixelFormat bs = andthen (p_skip 3 bs) (\<lambda>(_, bs). andthen (p_PixelFormat bs) (\<lambda>(pf, bs). Inr (SetPixelFormat pf, bs)))"

definition readSetEncodings :: "client_msg parser" where
  "readSetEncodings bs = andthen (p_skip 1 bs) (\<lambda>(_, bs). andthen (p_U16 bs) (\<lambda>(n, bs).
     andthen (p_list p_U32 (unat n) bs) (\<lambda>(es, bs). Inr (SetEncodings es, bs))))"

definition readFramebufferUpdateRequest :: "client_msg parser" where
  "readFramebufferUpdateRequest bs = andthen (p_U8 bs) (\<lambda>(inc, bs). andthen (p_rect bs) (\<lambda>(r, bs).
     Inr (FramebufferUpdateRequest r (bool_of inc), bs)))"

definition readKeyEvent :: "client_msg parser" where
  "readKeyEvent bs = andthen (p_U8 bs) (\<lambda>(down, bs). andthen (p_skip 2 bs) (\<lambda>(_, bs).
     andthen (p_U32 bs) (\<lambda>(key, bs). Inr (KeyEvent key (bool_of down), bs))))"

definition readPointerEvent :: "client_msg parser" where
  "readPointerEvent bs = andthen (p_U8 bs) (\<lambda>(mask, bs). andthen (p_U16 bs) (\<lambda>(x, bs). andthen (p_U16 bs) (\<lambda>(y, bs).
     Inr (PointerEvent \<lparr>px = uint x, py = uint y\<rparr> (uint mask), bs))))"

text \<open>\<open>len\<close> is a signed \<open>int\<close>; \<open>maxCutText\<close> is the parameter of that name, by default 256 * 1024.\<close>

definition readClientCutText :: "int \<Rightarrow> client_msg parser" where
  "readClientCutText maxCutText bs = andthen (p_skip 3 bs) (\<lambda>(_, bs). andthen (p_U32 bs) (\<lambda>(l, bs).
     let len = sint l in
     if len > maxCutText then andthen (p_skip (nat len) bs) (\<lambda>(_, bs). Inr (CutTextIgnored, bs))
     else if len < - 1 then Inr (CutTextNoMemory, bs)
     else if len = - 1 then Inr (CutTextCorrupts, bs)
     else andthen (p_bytes (nat len) bs) (\<lambda>(str, bs). Inr (ClientCutText str, bs))))"

text \<open>An empty rectangle with any non-zero coordinate is cleared; \<open>Rect::clear\<close> sets all to 0.\<close>

definition readVideoRectangleSelection :: "client_msg parser" where
  "readVideoRectangleSelection bs = andthen (p_U8 bs) (\<lambda>(_, bs). andthen (p_rect bs) (\<lambda>(rect, bs).
     Inr (SetVideoRectangle (if \<not> rect_is_empty rect then rect
            else if px (r_tl rect) \<noteq> 0 \<or> py (r_tl rect) \<noteq> 0 \<or> rect_width rect \<noteq> 0 \<or> rect_height rect \<noteq> 0
            then mkRect 0 0 0 0 else rect), bs)))"

definition readVideoFreeze :: "client_msg parser" where
  "readVideoFreeze bs = andthen (p_U8 bs) (\<lambda>(param, bs). Inr (FreezeVideo (param \<noteq> 0), bs))"

definition readClientMsg :: "int \<Rightarrow> client_msg parser" where
  "readClientMsg maxCutText bs = andthen (p_U8 bs) (\<lambda>(msgType, bs).
     if msgType = msgTypeSetPixelFormat then readSetPixelFormat bs
     else if msgType = msgTypeSetEncodings then readSetEncodings bs
     else if msgType = msgTypeFramebufferUpdateRequest then readFramebufferUpdateRequest bs
     else if msgType = msgTypeKeyEvent then readKeyEvent bs
     else if msgType = msgTypePointerEvent then readPointerEvent bs
     else if msgType = msgTypeClientCutText then readClientCutText maxCutText bs
     else if msgTypeFileListRequest \<le> msgType \<and> msgType \<le> msgTypeFileDeleteRequest then Inr (FileTransfer msgType, bs)
     else if msgType = msgTypeVideoRectangleSelection then readVideoRectangleSelection bs
     else if msgType = msgTypeVideoFreeze then readVideoFreeze bs
     else Inr (UnknownMessage msgType, bs))"

subsection \<open>Round trips\<close>

text \<open>What a client writes, and the conditions under which the reader sees the same arguments.\<close>

fun e_client_msg :: "ConnParams \<Rightarrow> u8 \<Rightarrow> client_msg \<Rightarrow> u8 list" where
  "e_client_msg cp g (SetPixelFormat pf) = writeSetPixelFormat pf"
| "e_client_msg cp g (SetEncodings es) = writeSetEncodings g es"
| "e_client_msg cp g (FramebufferUpdateRequest r inc) = writeFramebufferUpdateRequest r inc"
| "e_client_msg cp g (KeyEvent key down) = writeKeyEvent key down"
| "e_client_msg cp g (PointerEvent p bm) = writePointerEvent cp p bm"
| "e_client_msg cp g (ClientCutText str) = writeClientCutText str"
| "e_client_msg cp g _ = []"

fun wire_msg :: "ConnParams \<Rightarrow> int \<Rightarrow> client_msg \<Rightarrow> bool" where
  "wire_msg cp maxCut (SetPixelFormat pf) = pf_on_wire pf"
| "wire_msg cp maxCut (SetEncodings es) = (length es < 65536)"
| "wire_msg cp maxCut (FramebufferUpdateRequest r inc) =
     (0 \<le> px (r_tl r) \<and> px (r_tl r) \<le> px (r_br r) \<and> px (r_br r) < 65536 \<and>
      0 \<le> py (r_tl r) \<and> py (r_tl r) \<le> py (r_br r) \<and> py (r_br r) < 65536)"
| "wire_msg cp maxCut (KeyEvent key down) = True"
| "wire_msg cp maxCut (PointerEvent p bm) =
     (0 \<le> bm \<and> bm < 256 \<and> 1 \<le> cp_width cp \<and> cp_width cp \<le> 65536 \<and> 1 \<le> cp_height cp \<and> cp_height cp \<le> 65536)"
| "wire_msg cp maxCut (ClientCutText str) = (int (length str) \<le> maxCut \<and> maxCut < 2 ^ 31)"
| "wire_msg cp maxCut _ = False"

fun received_msg :: "ConnParams \<Rightarrow> client_msg \<Rightarrow> client_msg" where
  "received_msg cp (PointerEvent p bm) = PointerEvent (clip_pointer cp p) bm"
| "received_msg cp m = m"

lemma p_list_e:
  assumes "\<And>x bs. x \<in> set xs \<Longrightarrow> p (e x @ bs) = Inr (x, bs)"
  shows "p_list p (length xs) (concat (map e xs) @ bs) = Inr (xs, bs)"
  using assms by (induction xs) simp_all

lemma p_rect_e:
  assumes "0 \<le> px (r_tl r)" "px (r_tl r) \<le> px (r_br r)" "px (r_br r) < 65536"
    and "0 \<le> py (r_tl r)" "py (r_tl r) \<le> py (r_br r)" "py (r_br r) < 65536"
  shows "p_rect (e_U16 (of_int (px (r_tl r))) @ e_U16 (of_int (py (r_tl r))) @ e_U16 (of_int (rect_width r)) @
    e_U16 (of_int (rect_height r)) @ bs) = Inr (r, bs)"
proof -
  have r: "mkRect (px (r_tl r)) (py (r_tl r)) (px (r_tl r) + rect_width r) (py (r_tl r) + rect_height r) = r"
    by (simp add: mkRect_def rect_width_def rect_height_def)
  have "uint (of_int (rect_width r) :: u16) = rect_width r" "uint (of_int (rect_height r) :: u16) = rect_height r"
    using assms by (intro uint_of_int_u16; simp add: rect_width_def rect_height_def)+
  then show ?thesis using assms r by (simp add: p_rect_def uint_of_int_u16)
qed

lemma clip_pointer_in:
  "1 \<le> cp_width cp \<Longrightarrow> 1 \<le> cp_height cp \<Longrightarrow>
   0 \<le> px (clip_pointer cp p) \<and> px (clip_pointer cp p) < cp_width cp \<and> 0 \<le> py (clip_pointer cp p) \<and> py (clip_pointer cp p) < cp_height cp"
  by (auto simp: clip_pointer_def Let_def)

lemma p_skip_Cons: "length xs = n \<Longrightarrow> p_skip (Suc n) (x # xs @ bs) = Inr ((), bs)"
  by (simp add: p_skip_def p_take_def)

lemma readClientMsg_e:
  assumes "wire_msg cp maxCut m"
  shows "readClientMsg maxCut (e_client_msg cp g m @ bs) = Inr (received_msg cp m, bs)"
proof (cases m)
  case (SetPixelFormat pf)
  then show ?thesis
    using assms p_PixelFormat_e [of pf bs] p_skip_e [of "[0, 0, 0]" 3 "e_PixelFormat pf @ bs"]
    by (simp add: readClientMsg_def writeSetPixelFormat_def readSetPixelFormat_def client_msg_types numeral_3_eq_3)
next
  case (SetEncodings es)
  have "p_skip 1 (g # xs) = Inr ((), xs)" for xs by (simp add: p_skip_def p_take_def)
  moreover have "unat (of_nat (length es) :: u16) = length es"
    using assms SetEncodings by (simp add: unat_of_nat)
  ultimately show ?thesis
    using SetEncodings p_list_e [of es p_U32 e_U32 bs]
    by (simp add: readClientMsg_def writeSetEncodings_def readSetEncodings_def client_msg_types)
next
  case (FramebufferUpdateRequest r inc)
  then show ?thesis using assms p_rect_e [of r bs]
    by (simp add: readClientMsg_def writeFramebufferUpdateRequest_def readFramebufferUpdateRequest_def client_msg_types)
next
  case (KeyEvent key down)
  then show ?thesis using p_skip_e [of "[0, 0]" 2 "e_U32 key @ bs"]
    by (simp add: readClientMsg_def writeKeyEvent_def readKeyEvent_def client_msg_types)
next
  case (PointerEvent p bm)
  then show ?thesis using assms clip_pointer_in [of cp p]
    by (simp add: readClientMsg_def writePointerEvent_def readPointerEvent_def client_msg_types Let_def
        uint_of_int_u8 uint_of_int_u16)
next
  case (ClientCutText str)
  have l: "length str < 2 ^ 31" using assms ClientCutText by simp
  then have u: "uint (of_nat (length str) :: u32) = int (length str)" by (simp add: uint_nat unat_of_nat)
  have "sint (of_nat (length str) :: u32) = int (length str)"
    unfolding sint_uint u using l by (intro signed_take_bit_int_eq_self) simp_all
  then show ?thesis using assms ClientCutText p_skip_e [of "[0, 0, 0]" 3 "e_U32 (of_nat (length str)) @ str @ bs"]
    by (simp add: readClientMsg_def writeClientCutText_def readClientCutText_def client_msg_types)
qed (use assms in simp_all)

subsection \<open>The contract\<close>

text \<open>
  C18: The server reads any sequence of client messages as it was sent: pixel formats, lists of encodings,
  update requests, keys, pointer positions (moved into the framebuffer) and clipboard texts, consuming exactly
  the bytes of the messages.
\<close>

theorem client_messages_roundtrip:
  assumes "\<forall>m \<in> set msgs. wire_msg cp maxCutText m"
  shows "p_list (readClientMsg maxCutText) (length msgs) (concat (map (e_client_msg cp g) msgs) @ bs) =
    Inr (map (received_msg cp) msgs, bs)"
  using assms by (induction msgs) (simp_all add: readClientMsg_e)

theorem client_messages_roundtrip_witness:
  "p_list (readClientMsg 262144) 3
     (concat (map (e_client_msg (newConnParams\<lparr>cp_width := 640, cp_height := 480\<rparr>) 7)
       [KeyEvent 65 True, PointerEvent \<lparr>px = 700, py = - 3\<rparr> 1, SetEncodings [5, 1, 0]]) @ [9]) =
   Inr ([KeyEvent 65 True, PointerEvent \<lparr>px = 639, py = 0\<rparr> 1, SetEncodings [5, 1, 0]], [9])"
  using client_messages_roundtrip [of "[KeyEvent 65 True, PointerEvent \<lparr>px = 700, py = - 3\<rparr> 1, SetEncodings [5, 1, 0]]"
    "newConnParams\<lparr>cp_width := 640, cp_height := 480\<rparr>" 262144 7 "[9]"]
  by (simp del: p_list.simps add: clip_pointer_def numeral_3_eq_3)

lemma negative_cut_text:
  assumes "0 \<le> maxCutText" and "0x80000000 \<le> len"
  shows "readClientMsg maxCutText (msgTypeClientCutText # [0, 0, 0] @ e_U32 len @ bs) =
    Inr (if len = 0xffffffff then CutTextCorrupts else CutTextNoMemory, bs)"
proof -
  have sk: "p_skip 3 (0 # 0 # 0 # e_U32 len @ bs) = Inr ((), e_U32 len @ bs)"
    using p_skip_e [of "[0, 0, 0]" 3 "e_U32 len @ bs"] by simp
  have l: "0x80000000 \<le> uint len" using assms(2) by (simp add: word_le_def)
  have u: "uint len < 0x100000000" using uint_lt2p [of len] by simp
  have "uint len div 2147483648 = 1" using l u by linarith
  then have "bit (uint len) 31" by (simp add: bit_iff_odd)
  then have s: "sint len = uint len - 0x100000000"
    using u by (simp add: sint_uint signed_take_bit_eq_take_bit_minus take_bit_int_eq_self)
  have e: "len = 0xffffffff \<longleftrightarrow> sint len = - 1" unfolding s by (auto simp: word_uint_eq_iff)
  show ?thesis using assms(1) u s sk unfolding e
    by (auto simp: readClientMsg_def readClientCutText_def client_msg_types Let_def)
qed

text \<open>
  C40: A clipboard message whose length has the top bit set passes the check against \<open>MaxCutText\<close>: length
  \<open>0xffffffff\<close> makes the reader write a null in front of an empty array, every other one asks for a
  negative number of bytes.
\<close>

theorem negative_cut_text_accepted:
  assumes "0 \<le> maxCutText" and "0x80000000 \<le> len"
  shows "readClientMsg maxCutText (msgTypeClientCutText # [0, 0, 0] @ e_U32 len @ bs) =
    Inr (if len = 0xffffffff then CutTextCorrupts else CutTextNoMemory, bs)"
  by (rule negative_cut_text [OF assms])

theorem negative_cut_text_accepted_witness:
  "readClientMsg 262144 (msgTypeClientCutText # [0, 0, 0] @ e_U32 0xffffffff @ [65]) = Inr (CutTextCorrupts, [65])"
  using negative_cut_text_accepted [where maxCutText = 262144 and len = "0xffffffff" and bs = "[65]"]
  by (simp add: word_le_nat_alt)

end
