(* ===== verification/Rfb_SConnection.thy ===== *)
theory Rfb_SConnection
  imports Rfb_Security Rfb_Caps Rfb_ClientMsg
begin

text \<open>
  The server side of a connection, \<open>common/rfb/SConnection.cxx\<close>: the states of the handshake, the
  TightVNC extensions, and the loop of \<open>VNCSConnectionST::processMessages\<close>. What the derived class decides
  in its virtual functions is a parameter.
\<close>

subsection \<open>The state\<close>

datatype sstate =
    S_UNINITIALISED | S_PROTOCOL_VERSION | S_SECURITY_TYPE | S_TIGHT_TUNN_TYPE | S_TIGHT_AUTH_TYPE | S_SECURITY
  | S_QUERYING | S_INITIALISATION | S_NORMAL | S_CLOSING | S_INVALID

record SConnection = wire +
  s_cp :: ConnParams
  s_state :: sstate
  s_security :: "SSecurity option"
  s_default :: "int \<times> int"
  s_streams :: bool
  s_readyForColourMap :: bool
  s_calls :: "client_msg list"

text \<open>
  The configuration: the security types, the password, the random bytes of the challenge, the refusal of
  \<open>versionReceived\<close> if any, the answer of \<open>queryConnection\<close> (pending, accepted, or rejected with a reason
  or the null pointer), the desktop that \<open>authSuccess\<close> announces, and \<open>m_videoSelectionEnabled\<close>.
\<close>

datatype query_answer = Pending | Accepted | Rejected "u8 list option"

record SEnv =
  env_types :: "int list"
  env_passwd :: "u8 list option"
  env_random :: "u8 list"
  env_refused :: "u8 list option"
  env_query :: query_answer
  env_width :: int
  env_height :: int
  env_pf :: PixelFormat
  env_name :: "u8 list"
  env_video :: bool

text \<open>\<open>reader_\<close> and \<open>writer_\<close> are there when \<open>s_streams\<close> is set.\<close>

definition newSConnection :: "bool \<Rightarrow> SConnection" where
  "newSConnection protocol3_3 =
     (let minor = (if protocol3_3 then 3 else 8)
      in \<lparr>w_in = [], w_out = [], s_cp = setVersion 3 minor newConnParams, s_state = S_UNINITIALISED,
          s_security = None, s_default = (3, minor), s_streams = False, s_readyForColourMap = False, s_calls = []\<rparr>)"

definition s_set_state :: "sstate \<Rightarrow> (SConnection, unit) act" where
  "s_set_state st = modify (\<lambda>s. s\<lparr>s_state := st\<rparr>)"

definition s_set_cp :: "(ConnParams \<Rightarrow> ConnParams) \<Rightarrow> (SConnection, unit) act" where
  "s_set_cp f = modify (\<lambda>s. s\<lparr>s_cp := f (s_cp s)\<rparr>)"

subsection \<open>Operations\<close>

definition s_initialiseProtocol :: "(SConnection, unit) act" where
  "s_initialiseProtocol = getting (\<lambda>s. cp_writeVersion (s_cp s)) (\<lambda>v. seqA [wr v, s_set_state S_PROTOCOL_VERSION])"

definition s_throwConnFailed :: "u8 list \<Rightarrow> (SConnection, unit) act" where
  "s_throwConnFailed msg =
     getting id (\<lambda>s. seqA [
       if s_state s = S_PROTOCOL_VERSION
       then if majorVersion (s_cp s) = 3 \<and> minorVersion (s_cp s) = 3 then wr (e_U32 0 @ e_string msg) else wr ([0] @ e_string msg)
       else ret (),
       s_set_state S_INVALID,
       throw (ConnFailed msg)])"

definition print_d :: "int \<Rightarrow> u8 list" where
  "print_d n = (if n < 0 then 45 # decimal (nat (- n)) else decimal (nat n))"

text \<open>\<open>approveConnection\<close>; a null reason stands for a default one.\<close>

definition secResultOK :: u32 where "secResultOK = 0"
definition secResultFailed :: u32 where "secResultFailed = 1"

definition s_authSuccess :: "SEnv \<Rightarrow> (SConnection, unit) act" where
  "s_authSuccess env =
     seqA [s_set_cp (\<lambda>cp. cp_setName (env_name env) (cp\<lparr>cp_width := env_width env, cp_height := env_height env\<rparr>)),
           s_set_cp (\<lambda>cp. snd (cp_setPF (env_pf env) cp)),
           if fst (cp_setPF (env_pf env) newConnParams) then ret () else throw (GeneralError ''setPF: not 8, 16 or 32 bpp?'')]"

definition s_approveConnection :: "SEnv \<Rightarrow> bool \<Rightarrow> u8 list option \<Rightarrow> (SConnection, unit) act" where
  "s_approveConnection env accept reason =
     getting id (\<lambda>s.
       if s_state s \<noteq> S_QUERYING then throw (GeneralError ''SConnection::approveConnection: invalid state'')
       else
         let reason = (case reason of Some r \<Rightarrow> r | None \<Rightarrow> bytes_of ''Authentication failure'');
             before38 = beforeVersion (s_cp s) 3 8
         in seqA [
           if \<not> before38 \<or> map_option ssec_type (s_security s) \<noteq> Some secTypeNone
           then if accept then wr (e_U32 secResultOK)
                else wr (e_U32 secResultFailed @ (if \<not> before38 then e_string reason else []))
           else ret (),
           if accept
           then seqA [s_set_state S_INITIALISATION, modify (\<lambda>s. s\<lparr>s_streams := True\<rparr>), s_authSuccess env]
           else seqA [s_set_state S_INVALID, throw (AuthFailure reason)]])"

definition s_queryConnection :: "SEnv \<Rightarrow> (SConnection, unit) act" where
  "s_queryConnection env =
     (case env_query env of
        Pending \<Rightarrow> ret ()
      | Accepted \<Rightarrow> s_approveConnection env True None
      | Rejected reason \<Rightarrow> s_approveConnection env False reason)"

text \<open>The \<open>try\<close> block of \<open>processSecurityMsg\<close> covers the query as well.\<close>

definition s_run_security :: "SEnv \<Rightarrow> (SConnection, bool) act" where
  "s_run_security env =
     getting s_security (\<lambda>security.
       case security of
         None \<Rightarrow> throw (NoReturn ''null pointer'')
       | Some SSecurityNone \<Rightarrow> ret True
       | Some (SSecurityVnc sec) \<Rightarrow>
           bindA (ssec_processMsg (env_random env) (env_passwd env) sec) (\<lambda>(r, sec).
           bindA (modify (\<lambda>s. s\<lparr>s_security := Some (SSecurityVnc sec)\<rparr>)) (\<lambda>_.
             case r of Inl e \<Rightarrow> throw e | Inr done \<Rightarrow> ret done)))"

definition catch_auth_failure :: "(SConnection, unit) act \<Rightarrow> (SConnection, unit) act" where
  "catch_auth_failure m =
     (\<lambda>s. case m s of
            (Inl (AuthFailure e), s) \<Rightarrow>
              bindA (wr (e_U32 secResultFailed @ (if \<not> beforeVersion (s_cp s) 3 8 then e_string e else [])))
                (\<lambda>_. throw (AuthFailure e)) s
          | r \<Rightarrow> r)"

definition s_processSecurityMsg :: "SEnv \<Rightarrow> (SConnection, unit) act" where
  "s_processSecurityMsg env =
     catch_auth_failure (bindA (s_run_security env) (\<lambda>done.
       if done then seqA [s_set_state S_QUERYING, s_queryConnection env] else ret ()))"

definition s_processSecurityType :: "SEnv \<Rightarrow> int \<Rightarrow> (SConnection, unit) act" where
  "s_processSecurityType env secType =
     (if secType \<notin> set (getSecTypes (env_types env)) then throw (GeneralError ''Requested security type not available'')
      else seqA [
        s_set_state S_SECURITY,
        case getSSecurity secType of
          Inl e \<Rightarrow> s_throwConnFailed (bytes_of e)
        | Inr security \<Rightarrow> modify (\<lambda>s. s\<lparr>s_security := Some security\<rparr>),
        s_processSecurityMsg env])"

definition sectype_caps :: "int list \<Rightarrow> CapsContainer" where
  "sectype_caps types =
     foldl (\<lambda>caps i. if i = secTypeNone then addStandard (of_int i) ''NOAUTH__'' caps
                      else if i = secTypeVncAuth then addStandard (of_int i) ''VNCAUTH_'' caps
                      else caps) (newCapsContainer 64) types"

definition s_offerAuthentication :: "SEnv \<Rightarrow> (SConnection, unit) act" where
  "s_offerAuthentication env =
     (let caps = sectype_caps (getSecTypes (env_types env)); size = length (m_plist caps)
      in if size < 1 then s_throwConnFailed (bytes_of ''No supported security types'')
         else if includesOnly caps (of_int secTypeNone)
         then seqA [wr (e_U32 0), s_processSecurityType env secTypeNone]
         else seqA [wr (e_U32 (of_nat size) @ CapsList_write caps), s_set_state S_TIGHT_AUTH_TYPE])"

definition s_offerTunneling :: "SEnv \<Rightarrow> (SConnection, unit) act" where
  "s_offerTunneling env = seqA [wr (e_U32 0), s_offerAuthentication env]"

definition s_processSecurityTypeMsg :: "SEnv \<Rightarrow> (SConnection, unit) act" where
  "s_processSecurityTypeMsg env =
     bindA (rd p_U8) (\<lambda>secType.
       if uint secType = secTypeTight
       then seqA [s_set_cp (\<lambda>cp. cp\<lparr>tightExtensionsEnabled := True\<rparr>), s_offerTunneling env]
       else s_processSecurityType env (uint secType))"

definition s_processTunnelTypeMsg :: "SEnv \<Rightarrow> (SConnection, unit) act" where
  "s_processTunnelTypeMsg env = bindA (rd p_U32) (\<lambda>_. s_offerAuthentication env)"

definition s_processAuthTypeMsg :: "SEnv \<Rightarrow> (SConnection, unit) act" where
  "s_processAuthTypeMsg env = bindA (rd p_U32) (\<lambda>secType. s_processSecurityType env (sint secType))"

text \<open>The security type for a 3.3 client, or the offer to a later one.\<close>

definition s_offerSecurity :: "SEnv \<Rightarrow> (SConnection, unit) act" where
  "s_offerSecurity env =
     (let secTypes = getSecTypes (env_types env)
      in getting s_cp (\<lambda>cp.
           if isVersion cp 3 3
           then case find (\<lambda>i. i = secTypeNone \<or> i = secTypeVncAuth) secTypes of
                  None \<Rightarrow> s_throwConnFailed (bytes_of ''No supported security type for '' @ print_d (majorVersion cp) @ [0x2e] @
                            print_d (minorVersion cp) @ bytes_of '' client'')
                | Some i \<Rightarrow> seqA [
                    wr (e_U32 (of_int i)),
                    s_set_state S_SECURITY,
                    case getSSecurity i of
                      Inl e \<Rightarrow> throw (GeneralError e)
                    | Inr security \<Rightarrow> modify (\<lambda>s. s\<lparr>s_security := Some security\<rparr>),
                    s_processSecurityMsg env]
           else let secTypes = secTypes @ [secTypeTight]
                in seqA [wr (of_nat (length secTypes) # map of_int secTypes), s_set_state S_SECURITY_TYPE]))"

definition compatible_minor :: "int \<Rightarrow> int" where
  "compatible_minor minor = (if minor \<noteq> 3 \<and> minor \<noteq> 7 \<and> minor \<noteq> 8 then if minor \<ge> 8 then 8 else if minor = 7 then 7 else 3 else minor)"

definition s_processVersionMsg :: "SEnv \<Rightarrow> (SConnection, unit) act" where
  "s_processVersionMsg env =
     getting id (\<lambda>s.
       let ((ok, done), cp, is) = cp_readVersion (s_cp s) (w_in s)
       in seqA [
         modify (\<lambda>s. s\<lparr>s_cp := cp, w_in := is\<rparr>),
         if \<not> ok then seqA [s_set_state S_INVALID, throw (GeneralError ''reading version failed: not an RFB client?'')]
         else if \<not> done then ret ()
         else seqA [
           if majorVersion cp \<noteq> 3
           then s_throwConnFailed (bytes_of ''Error: client needs protocol version '' @ print_d (majorVersion cp) @ [0x2e] @
                  print_d (minorVersion cp) @ bytes_of '', server has '' @ print_d (fst (s_default s)) @ [0x2e] @ print_d (snd (s_default s)))
           else ret (),
           s_set_cp (\<lambda>cp. cp\<lparr>minorVersion := compatible_minor (minorVersion cp)\<rparr>),
           case env_refused env of Some msg \<Rightarrow> s_throwConnFailed msg | None \<Rightarrow> ret (),
           s_offerSecurity env]])"

text \<open>\<open>sendInteractionCaps\<close>: the server messages (none), client messages and encodings announced.\<close>

definition client_caps :: "SEnv \<Rightarrow> CapsContainer" where
  "client_caps env = addTightExt 152 ''VD_FREEZ'' (if env_video env then addTightExt 151 ''VRECTSEL'' (newCapsContainer 64) else newCapsContainer 64)"

definition encoding_caps :: "CapsContainer" where
  "encoding_caps =
     (let encs = foldl (\<lambda>caps i.
            if encoder_supported i
            then if i = encodingRRE then addStandard i ''RRE_____'' caps
                 else if i = encodingCoRRE then addStandard i ''CORRE___'' caps
                 else if i = encodingHextile then addStandard i ''HEXTILE_'' caps
                 else if i = encodingZRLE then addStandard i ''ZRLE____'' caps
                 else if i = encodingTight then addTightExt i ''TIGHT___'' caps
                 else caps
            else caps) (newCapsContainer 64) (map of_nat [1..<256]);
          encs = addStandard encodingCopyRect ''COPYRECT'' encs;
          encs = addTightExt pseudoEncodingCompressLevel0 ''COMPRLVL'' encs;
          encs = addTightExt pseudoEncodingQualityLevel0 ''JPEGQLVL'' encs;
          encs = addTightExt pseudoEncodingXCursor ''X11CURSR'' encs;
          encs = addTightExt pseudoEncodingCursor ''RCHCURSR'' encs;
          encs = addTightExt pseudoEncodingLastRect ''LASTRECT'' encs
      in addStandard pseudoEncodingDesktopSize ''NEWFBSIZ'' encs)"

definition s_sendInteractionCaps :: "SEnv \<Rightarrow> (SConnection, unit) act" where
  "s_sendInteractionCaps env =
     wr (e_U16 0 @ e_U16 (of_nat (length (m_plist (client_caps env)))) @ e_U16 (of_nat (length (m_plist encoding_caps))) @ e_U16 0 @
         CapsList_write (client_caps env) @ CapsList_write encoding_caps)"

text \<open>\<open>writeServerInit\<close> of \<open>SMsgWriterV3\<close>, and \<open>clientInit\<close>.\<close>

definition e_ServerInit :: "ConnParams \<Rightarrow> u8 list" where
  "e_ServerInit cp = e_U16 (of_int (cp_width cp)) @ e_U16 (of_int (cp_height cp)) @ e_PixelFormat (cp_pf cp) @ e_string (cp_name cp)"

definition s_clientInit :: "SEnv \<Rightarrow> bool \<Rightarrow> (SConnection, unit) act" where
  "s_clientInit env shared =
     getting s_cp (\<lambda>cp. seqA [
       wr (e_ServerInit cp),
       if tightExtensionsEnabled cp then s_sendInteractionCaps env else ret (),
       s_set_state S_NORMAL])"

definition s_processInitMsg :: "SEnv \<Rightarrow> (SConnection, unit) act" where
  "s_processInitMsg env = bindA (rd p_U8) (\<lambda>shared. s_clientInit env (bool_of shared))"

text \<open>The handler's side of a message: \<open>SMsgHandler\<close> and \<open>SConnection\<close>; the calls are recorded for the
  derived class.\<close>

definition s_handle :: "client_msg \<Rightarrow> (SConnection, unit) act" where
  "s_handle m =
     (case m of
        SetPixelFormat pf \<Rightarrow> seqA [
          s_set_cp (\<lambda>cp. snd (cp_setPF pf cp)),
          if fst (cp_setPF pf newConnParams) then ret () else throw (GeneralError ''setPF: not 8, 16 or 32 bpp?''),
          modify (\<lambda>s. s\<lparr>s_readyForColourMap := True, s_calls := s_calls s @ [m]\<rparr>)]
      | SetEncodings es \<Rightarrow> seqA [s_set_cp (cp_setEncodings es), modify (\<lambda>s. s\<lparr>s_calls := s_calls s @ [m]\<rparr>)]
      | FramebufferUpdateRequest r inc \<Rightarrow> modify (\<lambda>s. s\<lparr>s_readyForColourMap := True, s_calls := s_calls s @ [m]\<rparr>)
      | UnknownMessage t \<Rightarrow> throw (GeneralError ''unknown message type'')
      | CutTextNoMemory \<Rightarrow> throw BadAlloc
      | CutTextCorrupts \<Rightarrow> throw (NoReturn ''heap corrupted'')
      | CutTextIgnored \<Rightarrow> ret ()
      | _ \<Rightarrow> modify (\<lambda>s. s\<lparr>s_calls := s_calls s @ [m]\<rparr>))"

definition s_readMsg :: "int \<Rightarrow> (SConnection, unit) act" where
  "s_readMsg maxCutText = bindA (rd (readClientMsg maxCutText)) s_handle"

definition s_processMsg :: "SEnv \<Rightarrow> int \<Rightarrow> (SConnection, unit) act" where
  "s_processMsg env maxCutText =
     getting s_state (\<lambda>st. case st of
        S_PROTOCOL_VERSION \<Rightarrow> s_processVersionMsg env
      | S_SECURITY_TYPE \<Rightarrow> s_processSecurityTypeMsg env
      | S_TIGHT_TUNN_TYPE \<Rightarrow> s_processTunnelTypeMsg env
      | S_TIGHT_AUTH_TYPE \<Rightarrow> s_processAuthTypeMsg env
      | S_SECURITY \<Rightarrow> s_processSecurityMsg env
      | S_INITIALISATION \<Rightarrow> s_processInitMsg env
      | S_NORMAL \<Rightarrow> s_readMsg maxCutText
      | S_QUERYING \<Rightarrow> throw (GeneralError ''SConnection::processMsg: bogus data from client while querying'')
      | S_UNINITIALISED \<Rightarrow> throw (GeneralError ''SConnection::processMsg: not initialised yet?'')
      | _ \<Rightarrow> throw (GeneralError ''SConnection::processMsg: invalid state''))"

subsection \<open>Reasoning on steps\<close>

text \<open>The weakest precondition of a step, for a normal return and for an exception.\<close>

definition wp :: "('s, 'a) act \<Rightarrow> ('a \<Rightarrow> 's \<Rightarrow> bool) \<Rightarrow> (conn_error \<Rightarrow> 's \<Rightarrow> bool) \<Rightarrow> 's \<Rightarrow> bool" where
  "wp m Q E s = (case m s of (Inr x, s') \<Rightarrow> Q x s' | (Inl e, s') \<Rightarrow> E e s')"

lemma wp_act [simp]:
  "wp (ret x) Q1 E s1 = Q1 x s1"
  "wp (throw e) Q2 E s2 = E e s2"
  "wp (modify f) Q3 E s3 = Q3 () (f s3)"
  "wp (getting g k) Q4 E s4 = wp (k (g s4)) Q4 E s4"
  "wp (bindA m k') Q5 E s5 = wp m (\<lambda>x. wp (k' x) Q5 E) E s5"
  by (auto simp: wp_def act_simps split: sum.split prod.split)

lemma wp_ret_fun [simp]: "wp (ret x) Q E = Q x"
  by (rule ext) simp

lemma wp_seqA [simp]: "wp (seqA []) Q E s = Q () s" "wp (seqA (m # ms)) Q E s = wp m (\<lambda>x. wp (seqA ms) Q E) E s"
  by simp_all

lemma wp_wire [simp]:
  "wp (wr bs) Q1 E1 s1 = Q1 () (s1\<lparr>w_out := w_out s1 @ bs\<rparr>)"
  "wp (rd p) Q2 E2 s2 = (case p (w_in s2) of Inl e \<Rightarrow> E2 (StreamError e) s2 | Inr (x, is) \<Rightarrow> Q2 x (s2\<lparr>w_in := is\<rparr>))"
  by (auto simp: wp_def wr_def rd_def act_simps split: sum.split prod.split)

lemma wp_set [simp]:
  "wp (s_set_state st) Q E s = Q () (s\<lparr>s_state := st\<rparr>)"
  "wp (s_set_cp f) Q E s = Q () (s\<lparr>s_cp := f (s_cp s)\<rparr>)"
  by (simp_all add: s_set_state_def s_set_cp_def)

lemma wp_catch [simp]:
  "wp (catch_auth_failure m) Q E s = wp m Q (\<lambda>e s. case e of
     AuthFailure r \<Rightarrow> E e (s\<lparr>w_out := w_out s @ e_U32 secResultFailed @ (if \<not> beforeVersion (s_cp s) 3 8 then e_string r else [])\<rparr>)
   | _ \<Rightarrow> E e s) s"
  unfolding catch_auth_failure_def wp_def [of "\<lambda>s. _ s"]
  by (auto simp: wp_def act_simps wr_def split: sum.split prod.split conn_error.split)

lemma wp_mono: "wp m Q E s \<Longrightarrow> (\<And>x s. Q x s \<Longrightarrow> Q' x s) \<Longrightarrow> (\<And>e s. E e s \<Longrightarrow> E' e s) \<Longrightarrow> wp m Q' E' s"
  by (auto simp: wp_def split: sum.splits prod.splits)

subsection \<open>Only an authenticated client is served\<close>

definition s_authed :: "SEnv \<Rightarrow> SConnection \<Rightarrow> bool" where
  "s_authed env s \<longleftrightarrow>
     (s_security s = Some SSecurityNone \<and> secTypeNone \<in> set (getSecTypes (env_types env))) \<or>
     (\<exists>sec pwd. s_security s = Some (SSecurityVnc sec) \<and> secTypeVncAuth \<in> set (getSecTypes (env_types env)) \<and>
        env_passwd env = Some pwd \<and> response sec = vnc_response pwd (env_random env))"

definition sec_ok :: "SEnv \<Rightarrow> SConnection \<Rightarrow> bool" where
  "sec_ok env s = (case s_security s of
     None \<Rightarrow> False
   | Some SSecurityNone \<Rightarrow> secTypeNone \<in> set (getSecTypes (env_types env))
   | Some (SSecurityVnc sec) \<Rightarrow> secTypeVncAuth \<in> set (getSecTypes (env_types env)) \<and>
       (if sentChallenge sec then challenge sec = env_random env else response sec = []))"

text \<open>In \<open>S_SECURITY\<close> the exchange is consistent; from the query on it has succeeded; no message has been
  handled before \<open>S_NORMAL\<close>.\<close>

definition s_inv :: "SEnv \<Rightarrow> SConnection \<Rightarrow> bool" where
  "s_inv env s \<longleftrightarrow> (s_state s \<in> {S_QUERYING, S_INITIALISATION, S_NORMAL} \<longrightarrow> s_authed env s) \<and>
     (s_state s = S_SECURITY \<longrightarrow> sec_ok env s) \<and>
     (s_state s \<notin> {S_NORMAL, S_CLOSING} \<longrightarrow> s_calls s = []) \<and> (s_calls s \<noteq> [] \<longrightarrow> s_authed env s)"

definition s_left :: "SEnv \<Rightarrow> SConnection \<Rightarrow> bool" where
  "s_left env s \<longleftrightarrow> (s_calls s \<noteq> [] \<longrightarrow> s_authed env s)"

lemma s_throwConnFailed_left: "s_left env s \<Longrightarrow> wp (s_throwConnFailed msg) Q (\<lambda>e. s_left env) s"
  by (simp add: s_throwConnFailed_def s_left_def s_authed_def)

lemma approve_inv:
  assumes "s_calls s = []" and "s_state s = S_QUERYING \<Longrightarrow> s_authed env s"
  shows "wp (s_approveConnection env accept reason) (\<lambda>_. s_inv env) (\<lambda>e. s_left env) s"
  using assms by (simp add: s_approveConnection_def s_authSuccess_def Let_def s_inv_def s_left_def s_authed_def)

lemma query_inv:
  assumes "s_calls s = []" and "s_state s = S_QUERYING" and "s_authed env s"
  shows "wp (s_queryConnection env) (\<lambda>_. s_inv env) (\<lambda>e. s_left env) s"
  using assms approve_inv [of s env] by (auto simp: s_queryConnection_def s_inv_def split: query_answer.split)

lemma s_left_out: "s_left env (s\<lparr>w_out := x\<rparr>) = s_left env s"
  by (simp add: s_left_def s_authed_def)

lemma run_security_inv:
  assumes "s_calls s = []" and "s_state s = S_SECURITY" and "sec_ok env s"
  shows "wp (s_run_security env) (\<lambda>b s'. s_calls s' = [] \<and> s_state s' = S_SECURITY \<and>
      (if b then s_authed env s' else sec_ok env s')) (\<lambda>e s'. s_calls s' = []) s"
proof -
  obtain security where security: "s_security s = Some security" using assms(3) by (auto simp: sec_ok_def split: option.splits)
  show ?thesis
  proof (cases security)
    case SSecurityNone
    then show ?thesis using assms security by (simp add: s_run_security_def s_authed_def sec_ok_def)
  next
    case (SSecurityVnc sec)
    show ?thesis
    proof (cases "sentChallenge sec")
      case False
      then show ?thesis using assms security SSecurityVnc
        by (simp add: s_run_security_def ssec_processMsg_def sec_ok_def)
    next
      case True
      then have ch: "challenge sec = env_random env" and t: "secTypeVncAuth \<in> set (getSecTypes (env_types env))"
        using assms(3) security SSecurityVnc by (simp_all add: sec_ok_def)
      show ?thesis using assms(1,2) security SSecurityVnc True ch t
        by (simp add: s_run_security_def ssec_processMsg_def sec_ok_def s_authed_def Let_def split: option.split)
    qed
  qed
qed

lemma security_inv:
  assumes "s_calls s = []" and "s_state s = S_SECURITY" and "sec_ok env s"
  shows "wp (s_processSecurityMsg env) (\<lambda>_. s_inv env) (\<lambda>e. s_left env) s"
proof -
  let ?k = "\<lambda>b. if b then seqA [s_set_state S_QUERYING, s_queryConnection env] else ret ()"
  let ?E = "\<lambda>e s. case e of
     AuthFailure r \<Rightarrow> s_left env (s\<lparr>w_out := w_out s @ e_U32 secResultFailed @ (if \<not> beforeVersion (s_cp s) 3 8 then e_string r else [])\<rparr>)
   | _ \<Rightarrow> s_left env s"
  have E: "?E = (\<lambda>e. s_left env)"
  proof (intro ext)
    show "?E e s = s_left env s" for e s by (cases e) (simp_all add: s_left_out)
  qed
  have body: "wp (?k b) (\<lambda>_. s_inv env) ?E s'"
    if "s_calls s' = [] \<and> s_state s' = S_SECURITY \<and> (if b then s_authed env s' else sec_ok env s')" for b s'
    unfolding E
  proof (cases b)
    case True
    with that show "wp (?k b) (\<lambda>_. s_inv env) (\<lambda>e. s_left env) s'"
      using query_inv [of "s'\<lparr>s_state := S_QUERYING\<rparr>" env] by (simp add: s_authed_def)
  next
    case False
    with that show "wp (?k b) (\<lambda>_. s_inv env) (\<lambda>e. s_left env) s'" by (simp add: s_inv_def)
  qed
  have "wp (s_run_security env) (\<lambda>b. wp (?k b) (\<lambda>_. s_inv env) ?E) ?E s"
  proof (rule wp_mono [OF run_security_inv [OF assms]])
    show "wp (?k b) (\<lambda>_. s_inv env) ?E s'"
      if "s_calls s' = [] \<and> s_state s' = S_SECURITY \<and> (if b then s_authed env s' else sec_ok env s')" for b s'
      using that by (rule body)
    show "?E e s'" if "s_calls s' = []" for e s'
      using that by (simp add: s_left_def split: conn_error.split)
  qed
  then show ?thesis unfolding s_processSecurityMsg_def wp_catch wp_act .
qed

lemma s_inv_left: "s_inv env s \<Longrightarrow> s_left env s"
  by (simp add: s_inv_def s_left_def)

lemma s_inv_upd [simp]:
  "s_inv env (s\<lparr>w_out := x\<rparr>) = s_inv env s" "s_inv env (s\<lparr>w_in := y\<rparr>) = s_inv env s" "s_inv env (s\<lparr>s_cp := c\<rparr>) = s_inv env s"
  "s_left env (s\<lparr>w_out := x\<rparr>) = s_left env s" "s_left env (s\<lparr>w_in := y\<rparr>) = s_left env s" "s_left env (s\<lparr>s_cp := c\<rparr>) = s_left env s"
  "s_left env (s\<lparr>s_state := st\<rparr>) = s_left env s"
  by (simp_all add: s_inv_def s_left_def s_authed_def sec_ok_def cong: option.case_cong)

lemma s_inv_swap: "s_inv env (s\<lparr>w_out := x, s_state := st\<rparr>) = s_inv env (s\<lparr>s_state := st\<rparr>)"
  by (simp add: s_inv_def s_authed_def sec_ok_def cong: option.case_cong)

lemma security_type_inv:
  assumes "s_calls s = []"
  shows "wp (s_processSecurityType env secType) (\<lambda>_. s_inv env) (\<lambda>e. s_left env) s"
proof (cases "secType \<in> set (getSecTypes (env_types env))")
  case False
  then show ?thesis using assms by (simp add: s_processSecurityType_def s_left_def)
next
  case True
  then have t: "secType = secTypeNone \<or> secType = secTypeVncAuth" by (simp add: getSecTypes_def isSecTypeSupported_def)
  then obtain sec where g: "getSSecurity secType = Inr sec" and
    ok: "sec = SSecurityNone \<and> secType = secTypeNone \<or> sec = SSecurityVnc newSSecurityVncAuth \<and> secType = secTypeVncAuth"
    by (auto simp: getSSecurity_def secTypeNone_def secTypeVncAuth_def)
  let ?s = "s\<lparr>s_state := S_SECURITY, s_security := Some sec\<rparr>"
  have "sec_ok env ?s" using ok True by (auto simp: sec_ok_def newSSecurityVncAuth_def)
  then have "wp (s_processSecurityMsg env) (\<lambda>_. s_inv env) (\<lambda>e. s_left env) ?s"
    by (intro security_inv) (use assms in simp_all)
  then show ?thesis using True g by (simp add: s_processSecurityType_def)
qed

lemma offer_authentication_inv:
  assumes "s_calls s = []"
  shows "wp (s_offerAuthentication env) (\<lambda>_. s_inv env) (\<lambda>e. s_left env) s"
proof -
  have "s_left env s" and "s_inv env (s\<lparr>s_state := S_TIGHT_AUTH_TYPE\<rparr>)"
    using assms by (simp_all add: s_left_def s_inv_def)
  then show ?thesis
    using assms security_type_inv [of "s\<lparr>w_out := w_out s @ e_U32 0\<rparr>" env secTypeNone]
    by (simp add: s_offerAuthentication_def Let_def s_throwConnFailed_left s_inv_swap)
qed

lemma offer_security_inv:
  assumes "s_calls s = []"
  shows "wp (s_offerSecurity env) (\<lambda>_. s_inv env) (\<lambda>e. s_left env) s"
proof (cases "isVersion (s_cp s) 3 3")
  case False
  then show ?thesis using assms by (simp add: s_offerSecurity_def Let_def s_inv_def)
next
  case True
  show ?thesis
  proof (cases "find (\<lambda>i. i = secTypeNone \<or> i = secTypeVncAuth) (getSecTypes (env_types env))")
    case None
    then show ?thesis using True assms s_throwConnFailed_left [of env s] by (simp add: s_offerSecurity_def Let_def s_left_def)
  next
    case (Some i)
    then have i: "i \<in> set (getSecTypes (env_types env))" "i = secTypeNone \<or> i = secTypeVncAuth"
      by (auto simp: find_Some_iff in_set_conv_nth)
    obtain sec where g: "getSSecurity i = Inr sec" and
      ok: "sec = SSecurityNone \<and> i = secTypeNone \<or> sec = SSecurityVnc newSSecurityVncAuth \<and> i = secTypeVncAuth"
      using i(2) by (auto simp: getSSecurity_def secTypeNone_def secTypeVncAuth_def)
    let ?s = "s\<lparr>w_out := w_out s @ e_U32 (of_int i), s_state := S_SECURITY, s_security := Some sec\<rparr>"
    have "sec_ok env ?s" using ok i by (auto simp: sec_ok_def newSSecurityVncAuth_def)
    then have "wp (s_processSecurityMsg env) (\<lambda>_. s_inv env) (\<lambda>e. s_left env) ?s"
      by (intro security_inv) (use assms in simp_all)
    then show ?thesis using True Some g by (simp add: s_offerSecurity_def Let_def)
  qed
qed

lemma version_inv:
  assumes "s_calls s = []" and "s_state s = S_PROTOCOL_VERSION"
  shows "wp (s_processVersionMsg env) (\<lambda>_. s_inv env) (\<lambda>e. s_left env) s"
proof -
  have l: "s_left env s'" if "s_calls s' = []" for s' using that by (simp add: s_left_def)
  have f: "wp (s_throwConnFailed msg) Q (\<lambda>e. s_left env) s'" if "s_calls s' = []" for msg Q s'
    by (rule s_throwConnFailed_left [OF l [OF that]])
  have "s_inv env s'" if "s_calls s' = []" and "s_state s' = S_PROTOCOL_VERSION" for s'
    using that by (simp add: s_inv_def)
  then show ?thesis
    using assms offer_security_inv f l
    by (auto simp: s_processVersionMsg_def Let_def split: prod.split option.split)
qed

lemma handle_inv:
  assumes "s_inv env s" and "s_state s = S_NORMAL"
  shows "wp (s_handle m) (\<lambda>_. s_inv env) (\<lambda>e. s_left env) s"
  using assms by (auto simp: s_handle_def s_inv_def s_left_def s_authed_def split: client_msg.split)

lemma process_inv:
  assumes "s_inv env s"
  shows "wp (s_processMsg env maxCutText) (\<lambda>_. s_inv env) (\<lambda>e. s_left env) s"
proof -
  note l = s_inv_left [OF assms]
  have c: "s_calls s = []" if "s_state s \<notin> {S_NORMAL, S_CLOSING}" using assms that by (simp add: s_inv_def)
  show ?thesis
  proof (cases "s_state s")
    case S_PROTOCOL_VERSION
    then show ?thesis using version_inv [of s env] c by (simp add: s_processMsg_def)
  next
    case S_SECURITY_TYPE
    then show ?thesis using c l
      by (auto simp: s_processMsg_def s_processSecurityTypeMsg_def s_offerTunneling_def security_type_inv offer_authentication_inv
          split: sum.split)
  next
    case S_TIGHT_TUNN_TYPE
    then show ?thesis using c l
      by (auto simp: s_processMsg_def s_processTunnelTypeMsg_def offer_authentication_inv split: sum.split)
  next
    case S_TIGHT_AUTH_TYPE
    then show ?thesis using c l
      by (auto simp: s_processMsg_def s_processAuthTypeMsg_def security_type_inv split: sum.split)
  next
    case S_SECURITY
    then show ?thesis using c assms security_inv [of s env] by (simp add: s_processMsg_def s_inv_def)
  next
    case S_INITIALISATION
    then show ?thesis using c assms l
      by (auto simp: s_processMsg_def s_processInitMsg_def s_clientInit_def s_sendInteractionCaps_def s_inv_def s_authed_def split: sum.split)
  next
    case S_NORMAL
    then show ?thesis using assms l
      by (auto simp: s_processMsg_def s_readMsg_def intro: handle_inv split: sum.split)
  qed (use l in \<open>simp_all add: s_processMsg_def\<close>)
qed

end
