(* ===== verification/Rfb_SConnectionRun.thy ===== *)
theory Rfb_SConnectionRun
  imports Rfb_SConnection
begin

text \<open>
  Runs of the server side of a connection: what \<open>VNCSConnectionST\<close> does around \<open>SConnection::processMsg\<close>
  (\<open>init\<close>, \<open>processMessages\<close>, \<open>approveConnectionOrClose\<close>, \<open>close\<close>), as a step relation and as
  a loop, with the facts that every run keeps.
\<close>

subsection \<open>The steps of a connection\<close>

definition s_close :: "SConnection \<Rightarrow> SConnection" where
  "s_close s = s\<lparr>s_state := S_CLOSING\<rparr>"

text \<open>
  A step that may throw. An \<open>rdr::Exception\<close> closes the connection; anything else, \<open>std::bad_alloc\<close> among it,
  passes the handlers and leaves the connection's code.
\<close>

definition or_close :: "(SConnection, unit) act \<Rightarrow> (SConnection, unit) act" where
  "or_close m = (\<lambda>s. case m s of
     (Inl e, s') \<Rightarrow> if rdr_exception e then (Inr (), s_close s') else (Inl e, s')
   | (Inr u, s') \<Rightarrow> (Inr u, s'))"

text \<open>
  A read that finds too few bytes waits for them in the code. Bytes may arrive at any moment here, so a message is a step
  once all of it is there; a step that runs out of bytes is the wait of that read ended by an exception, because the peer has
  closed or the time is up. A run ends where something escapes the handlers.
\<close>

inductive srv_reach :: "SEnv \<Rightarrow> bool \<Rightarrow> int \<Rightarrow> SConnection \<Rightarrow> bool" for env p33 maxCutText where
  init: "srv_reach env p33 maxCutText (newSConnection p33)"
| start: "srv_reach env p33 maxCutText s \<Longrightarrow> s_state s = S_UNINITIALISED \<Longrightarrow>
    or_close s_initialiseProtocol s = (Inr (), s') \<Longrightarrow> srv_reach env p33 maxCutText s'"
| arrive: "srv_reach env p33 maxCutText s \<Longrightarrow> srv_reach env p33 maxCutText (s\<lparr>w_in := w_in s @ bs\<rparr>)"
| message: "srv_reach env p33 maxCutText s \<Longrightarrow> w_in s \<noteq> [] \<Longrightarrow>
    or_close (s_processMsg env maxCutText) s = (Inr (), s') \<Longrightarrow> srv_reach env p33 maxCutText s'"
| approve: "srv_reach env p33 maxCutText s \<Longrightarrow>
    or_close (s_approveConnection env accept reason) s = (Inr (), s') \<Longrightarrow> srv_reach env p33 maxCutText s'"
| close: "srv_reach env p33 maxCutText s \<Longrightarrow> srv_reach env p33 maxCutText (s_close s)"

lemma or_close_wp:
  assumes "wp m (\<lambda>_. P) (\<lambda>e s. P (s_close s)) s" and "or_close m s = (Inr (), s')"
  shows "P s'"
  using assms by (auto simp: wp_def or_close_def split: sum.splits prod.splits if_splits)

lemma left_close: "s_left env s \<Longrightarrow> s_inv env (s_close s)"
  by (auto simp: s_left_def s_inv_def s_close_def s_authed_def)

lemma or_close_inv:
  assumes "or_close m s = (Inr (), s')" and "wp m (\<lambda>_. s_inv env) (\<lambda>e. s_left env) s"
  shows "s_inv env s'"
  by (rule or_close_wp [OF _ assms(1)], rule wp_mono [OF assms(2)]) (auto intro: left_close)

lemma srv_reach_inv: "srv_reach env p33 maxCutText s \<Longrightarrow> s_inv env s"
proof (induction rule: srv_reach.induct)
  case init
  then show ?case by (simp add: newSConnection_def s_inv_def Let_def)
next
  case (start s s')
  then show ?case by (intro or_close_inv [OF start.hyps(3)]) (simp add: s_initialiseProtocol_def s_inv_def)
next
  case (arrive s bs)
  then show ?case by simp
next
  case (message s s')
  then show ?case by (intro or_close_inv [OF message.hyps(3)] process_inv)
next
  case (approve s accept reason s')
  show ?case
  proof (cases "s_state s = S_QUERYING")
    case True
    with approve.IH show ?thesis by (intro or_close_inv [OF approve.hyps(2)] approve_inv) (simp_all add: s_inv_def)
  next
    case False
    with s_inv_left [OF approve.IH] show ?thesis
      by (intro or_close_inv [OF approve.hyps(2)]) (simp add: s_approveConnection_def)
  qed
next
  case (close s)
  then show ?case by (intro left_close s_inv_left)
qed

text \<open>C7: the server serves only authenticated clients. In every run, whatever the client sends and
  whenever it sends it, a connection that has reached the query, initialisation or normal state, or on whose behalf any message
  has been handled, has been through one of the security types the server is configured to offer: type None, or
  VNC authentication with the response that the configured password gives to this connection's challenge.\<close>

theorem server_authenticates:
  assumes "srv_reach env p33 maxCutText s"
    and "s_state s \<in> {S_QUERYING, S_INITIALISATION, S_NORMAL} \<or> s_calls s \<noteq> []"
  shows "s_authed env s"
  using assms(2) srv_reach_inv [OF assms(1)] by (auto simp: s_inv_def)

definition demo_env :: SEnv where
  "demo_env = \<lparr>env_types = [secTypeVncAuth, secTypeNone], env_passwd = None, env_random = replicate 16 7, env_refused = None,
     env_query = Accepted, env_width = 4, env_height = 3, env_pf = newPixelFormat, env_name = [], env_video = False\<rparr>"

definition demo_server :: SConnection where
  "demo_server =
     snd (or_close (s_processMsg demo_env 0) (snd (or_close (s_processMsg demo_env 0)
       ((snd (or_close s_initialiseProtocol (newSConnection False)))\<lparr>w_in := cp_writeVersion (setVersion 3 8 newConnParams) @ [1]\<rparr>))))"

lemma demo_server_reached: "srv_reach demo_env False 0 demo_server"
proof -
  let ?s1 = "snd (or_close s_initialiseProtocol (newSConnection False))"
  let ?s2 = "?s1\<lparr>w_in := w_in ?s1 @ cp_writeVersion (setVersion 3 8 newConnParams) @ [1]\<rparr>"
  let ?s3 = "snd (or_close (s_processMsg demo_env 0) ?s2)"
  have r: "x = (Inr (), snd x)" if "fst x = Inr ()" for x :: "(conn_error + unit) \<times> SConnection"
    using that by (cases x) simp
  have 0: "srv_reach demo_env False 0 ?s1"
    by (rule srv_reach.start [OF srv_reach.init], simp add: newSConnection_def Let_def, rule r) code_simp
  have 1: "srv_reach demo_env False 0 ?s2" by (rule srv_reach.arrive [OF 0])
  have 2: "srv_reach demo_env False 0 ?s3"
    by (rule srv_reach.message [OF 1 _ r]) code_simp+
  have "srv_reach demo_env False 0 (snd (or_close (s_processMsg demo_env 0) ?s3))"
    by (rule srv_reach.message [OF 2 _ r]) code_simp+
  moreover have "w_in ?s1 = []" by code_simp
  ultimately show ?thesis by (simp add: demo_server_def)
qed

theorem server_authenticates_witness:
  "s_state demo_server = S_INITIALISATION \<and> s_authed demo_env demo_server"
proof -
  have "s_state demo_server = S_INITIALISATION" by code_simp
  then show ?thesis using server_authenticates [OF demo_server_reached] by simp
qed

subsection \<open>The loop of \<open>processMessages\<close> ends\<close>

text \<open>Parsers never give back more than they are given.\<close>

definition within :: "nat \<Rightarrow> rdr_error + 'a \<times> u8 list \<Rightarrow> bool" where
  "within n r = (case r of Inr (_, bs) \<Rightarrow> length bs \<le> n | Inl _ \<Rightarrow> True)"

named_theorems within_intros

lemma within_Inr [within_intros]: "length bs \<le> n \<Longrightarrow> within n (Inr (x, bs))"
  by (simp add: within_def)

lemma within_andthen [within_intros]:
  "within n r \<Longrightarrow> (\<And>x bs. length bs \<le> n \<Longrightarrow> within n (k (x, bs))) \<Longrightarrow> within n (andthen r k)"
  by (cases r) (auto simp: within_def)

lemma within_p_take [within_intros]: "length bs \<le> n \<Longrightarrow> within n (p_take m f bs)"
  by (auto simp: within_def p_take_def)

lemma within_basic [within_intros]:
  assumes "length bs \<le> n"
  shows "within n (p_U8 bs)" "within n (p_U16 bs)" "within n (p_U32 bs)" "within n (p_skip m bs)" "within n (p_bytes m bs)"
  using assms by (simp_all add: p_U8_def p_U16_def p_U32_def p_skip_def p_bytes_def within_p_take)

lemma within_list [within_intros]:
  assumes "\<And>bs. length bs \<le> n \<Longrightarrow> within n (p bs)"
  shows "length bs \<le> n \<Longrightarrow> within n (p_list p k bs)"
  by (induction k arbitrary: bs) (auto intro!: within_intros assms)

lemma within_if [within_intros]: "(c \<Longrightarrow> within n r) \<Longrightarrow> (\<not> c \<Longrightarrow> within n r') \<Longrightarrow> within n (if c then r else r')"
  by simp

lemma within_rect [within_intros]: "length bs \<le> n \<Longrightarrow> within n (p_rect bs)"
  by (auto simp: p_rect_def intro!: within_intros)

lemma within_pf [within_intros]: "length bs \<le> n \<Longrightarrow> within n (p_PixelFormat bs)"
  by (auto simp: p_PixelFormat_def intro!: within_intros)

lemma within_bodies [within_intros]:
  assumes "length bs \<le> n"
  shows "within n (readSetPixelFormat bs)" "within n (readSetEncodings bs)" "within n (readFramebufferUpdateRequest bs)"
    "within n (readKeyEvent bs)" "within n (readPointerEvent bs)" "within n (readClientCutText maxCutText bs)"
    "within n (readVideoRectangleSelection bs)" "within n (readVideoFreeze bs)"
  using assms
  by (auto simp: readSetPixelFormat_def readSetEncodings_def readFramebufferUpdateRequest_def readKeyEvent_def
      readPointerEvent_def readClientCutText_def readVideoRectangleSelection_def readVideoFreeze_def Let_def
      intro!: within_intros)

lemma p_U8_shorter: "p_U8 bs = Inr (x, bs') \<Longrightarrow> length bs' < length bs"
  by (auto simp: p_U8_def p_take_def split: if_splits)

lemma p_U32_shorter: "p_U32 bs = Inr (x, bs') \<Longrightarrow> length bs' < length bs"
  by (auto simp: p_U32_def p_take_def split: if_splits)

lemma readClientMsg_shorter:
  assumes "readClientMsg maxCutText bs = Inr (m, bs')"
  shows "length bs' < length bs"
proof -
  obtain t bs1 where t: "p_U8 bs = Inr (t, bs1)"
    using assms by (cases "p_U8 bs") (auto simp: readClientMsg_def)
  have "within (length bs1) (readClientMsg maxCutText bs)"
    unfolding readClientMsg_def t by (auto intro!: within_intros)
  with assms p_U8_shorter [OF t] show ?thesis by (simp add: within_def)
qed

text \<open>Each message of the handshake consumes a byte or takes the connection to a later state.\<close>

fun s_rank :: "SConnection \<Rightarrow> nat" where
  "s_rank s = 3 * length (w_in s) + (if s_state s = S_SECURITY
     then (case s_security s of Some (SSecurityVnc sec) \<Rightarrow> if sentChallenge sec then 1 else 2 | _ \<Rightarrow> 1) else 0)"

declare s_rank.simps [simp del]

lemma s_rank_le: "s_rank s \<le> 3 * length (w_in s) + 2"
  by (simp add: s_rank.simps split: option.split SSecurity.split)

lemma s_rank_shorter: "length (w_in s') < length (w_in s) \<Longrightarrow> s_rank s' < s_rank s"
  using s_rank_le [of s'] by (simp add: s_rank.simps)

definition keeps :: "nat \<Rightarrow> (SConnection, 'a) act \<Rightarrow> bool" where
  "keeps n m \<longleftrightarrow> (\<forall>s. length (w_in s) \<le> n \<longrightarrow> wp m (\<lambda>_ s'. length (w_in s') \<le> n) (\<lambda>_ _. True) s)"

lemma keeps_seqA: "(\<And>m. m \<in> set ms \<Longrightarrow> keeps n m) \<Longrightarrow> keeps n (seqA ms)"
proof (induction ms)
  case Nil
  then show ?case by (simp add: keeps_def)
next
  case (Cons m ms)
  then have "keeps n m" and "keeps n (seqA ms)" by simp_all
  then show ?case by (auto simp: keeps_def intro: wp_mono)
qed

lemma keeps_basic [simp]:
  "keeps n (wr bs)" "keeps n (s_set_state st)" "keeps n (s_set_cp f)" "keeps n (ret x)" "keeps n (throw e)"
  "keeps n (modify (\<lambda>s. s\<lparr>s_security := sec\<rparr>))" "keeps n (modify (\<lambda>s. s\<lparr>s_streams := b\<rparr>))"
  by (simp_all add: keeps_def)

lemma keeps_getting: "(\<And>x. keeps n (k x)) \<Longrightarrow> keeps n (getting g k)"
  by (simp add: keeps_def)

lemma keeps_bindA: "keeps n m \<Longrightarrow> (\<And>x. keeps n (k x)) \<Longrightarrow> keeps n (bindA m k)"
  by (auto simp: keeps_def intro: wp_mono)

lemmas keeps_intros = keeps_seqA keeps_getting keeps_bindA

lemma keeps_throw [simp]: "keeps n (s_throwConnFailed msg)"
  by (simp add: s_throwConnFailed_def keeps_def)

lemma keeps_query [simp]: "keeps n (s_queryConnection env)"
  by (auto simp: s_queryConnection_def s_approveConnection_def s_authSuccess_def Let_def keeps_def split: query_answer.split)

lemma keeps_run [simp]: "keeps n (s_run_security env)"
  by (auto simp: s_run_security_def ssec_processMsg_def keeps_def Let_def split: option.split SSecurity.split)

lemma keeps_security [simp]: "keeps n (s_processSecurityMsg env)"
proof -
  let ?m = "bindA (s_run_security env) (\<lambda>b. if b then seqA [s_set_state S_QUERYING, s_queryConnection env] else ret ())"
  have "keeps n ?m" by (auto intro!: keeps_intros)
  then have "wp ?m (\<lambda>_ s'. length (w_in s') \<le> n) E s" if "length (w_in s) \<le> n" and "\<And>e s. E e s" for E s
    using that by (auto simp only: keeps_def elim!: wp_mono)
  then show ?thesis by (simp only: keeps_def s_processSecurityMsg_def wp_catch) (simp split: conn_error.split)
qed

lemma keeps_type [simp]: "keeps n (s_processSecurityType env t)"
  by (auto simp: s_processSecurityType_def intro!: keeps_intros split: sum.split)

lemma keeps_offer [simp]: "keeps n (s_offerAuthentication env)" "keeps n (s_offerSecurity env)"
  by (auto simp: s_offerAuthentication_def s_offerSecurity_def Let_def intro!: keeps_intros split: sum.split option.split)

lemma keeps_wp_less:
  assumes "keeps n m" and "length (w_in s) \<le> n" and "3 * n + 2 < k"
  shows "wp m (\<lambda>_ s'. s_rank s' < k) (\<lambda>_ _. True) s"
proof -
  have "s_rank s' < k" if "length (w_in s') \<le> n" for s'
    using that s_rank_le [of s'] assms(3) by linarith
  then show ?thesis using assms(1,2) by (auto simp only: keeps_def elim!: wp_mono)
qed

lemma rd_then_less:
  assumes "\<And>x bs. p (w_in s) = Inr (x, bs) \<Longrightarrow> length bs < length (w_in s)" and "\<And>n x. keeps n (k x)"
  shows "wp (bindA (rd p) k) (\<lambda>_ s'. s_rank s' < s_rank s) (\<lambda>_ _. True) s"
proof (cases "p (w_in s)")
  case Inl
  then show ?thesis by simp
next
  case (Inr xb)
  then obtain x bs where xb: "p (w_in s) = Inr (x, bs)" by (cases xb) auto
  have "3 * length bs + 2 < s_rank s" using assms(1) [OF xb] by (simp add: s_rank.simps)
  then have "wp (k x) (\<lambda>_ s'. s_rank s' < s_rank s) (\<lambda>_ _. True) (s\<lparr>w_in := bs\<rparr>)"
    by (intro keeps_wp_less [of "length bs"]) (simp_all add: assms(2))
  then show ?thesis using xb by simp
qed

lemma keeps_handle [simp]: "keeps n (s_handle m)"
  by (auto simp: s_handle_def keeps_def split: client_msg.split)

lemma keeps_init [simp]: "keeps n (s_clientInit env b)"
  by (auto simp: s_clientInit_def s_sendInteractionCaps_def intro!: keeps_intros)

lemma version_less:
  assumes "w_in s \<noteq> []"
  shows "wp (s_processVersionMsg env) (\<lambda>_ s'. s_rank s' < s_rank s) (\<lambda>_ _. True) s"
proof -
  obtain ok fin cp rest where v: "cp_readVersion (s_cp s) (w_in s) = ((ok, fin), cp, rest)" by (metis prod.collapse)
  show ?thesis
  proof (cases ok)
    case False
    then show ?thesis using v by (simp add: s_processVersionMsg_def)
  next
    case True
    then have "length rest < length (w_in s)"
      using v assms by (auto simp: cp_readVersion_def Let_def split: if_splits prod.splits)
    then have k: "3 * length rest + 2 < s_rank s" by (simp add: s_rank.simps)
    let ?rest = "if \<not> fin then ret () else seqA [
       if majorVersion cp \<noteq> 3
       then s_throwConnFailed (bytes_of ''Error: client needs protocol version '' @ print_d (majorVersion cp) @ [0x2e] @
              print_d (minorVersion cp) @ bytes_of '', server has '' @ print_d (fst (s_default s)) @ [0x2e] @ print_d (snd (s_default s)))
       else ret (),
       s_set_cp (\<lambda>cp. cp\<lparr>minorVersion := compatible_minor (minorVersion cp)\<rparr>),
       case env_refused env of Some msg \<Rightarrow> s_throwConnFailed msg | None \<Rightarrow> ret (),
       s_offerSecurity env]"
    have "keeps (length rest) ?rest" by (auto intro!: keeps_intros split: option.split)
    then have "wp ?rest (\<lambda>_ s'. s_rank s' < s_rank s) (\<lambda>_ _. True) (s\<lparr>s_cp := cp, w_in := rest\<rparr>)"
      using k by (intro keeps_wp_less) simp_all
    then show ?thesis using True
      by (simp only: s_processVersionMsg_def wp_act id_apply v Let_def prod.case not_True_eq_False if_False wp_seqA(2) seqA.simps(1) wp_ret_fun)
  qed
qed

lemma query_not_security:
  "s_state s = S_QUERYING \<Longrightarrow>
   wp (s_queryConnection env) (\<lambda>_ s'. s_state s' \<noteq> S_SECURITY \<and> w_in s' = w_in s) (\<lambda>_ _. True) s"
  by (auto simp: s_queryConnection_def s_approveConnection_def s_authSuccess_def Let_def split: query_answer.split)

lemma run_security_less:
  assumes "w_in s \<noteq> []" and "s_state s = S_SECURITY"
  shows "wp (s_run_security env) (\<lambda>b s'. s_state s' = S_SECURITY \<and> length (w_in s') \<le> length (w_in s) \<and>
    (b \<or> s_rank s' < s_rank s)) (\<lambda>_ _. True) s"
  using assms
  by (auto simp: s_run_security_def ssec_processMsg_def Let_def s_rank.simps split: option.split SSecurity.split)

lemma security_less:
  assumes "w_in s \<noteq> []" and "s_state s = S_SECURITY"
  shows "wp (s_processSecurityMsg env) (\<lambda>_ s'. s_rank s' < s_rank s) (\<lambda>_ _. True) s"
proof -
  let ?k = "\<lambda>b. if b then seqA [s_set_state S_QUERYING, s_queryConnection env] else ret ()"
  have r: "3 * length (w_in s) < s_rank s"
    using assms(2) by (simp add: s_rank.simps split: option.split SSecurity.split)
  have k: "wp (?k b) (\<lambda>_ s'. s_rank s' < s_rank s) (\<lambda>_ _. True) s'"
    if "s_state s' = S_SECURITY \<and> length (w_in s') \<le> length (w_in s) \<and> (b \<or> s_rank s' < s_rank s)" for b s'
  proof (cases b)
    case True
    have "wp (s_queryConnection env) (\<lambda>_ s''. s_rank s'' < s_rank s) (\<lambda>_ _. True) (s'\<lparr>s_state := S_QUERYING\<rparr>)"
      by (rule wp_mono [OF query_not_security]) (use that r in \<open>auto simp: s_rank.simps\<close>)
    then show ?thesis using True by simp
  next
    case False
    then show ?thesis using that by simp
  qed
  have "wp (s_run_security env) (\<lambda>b. wp (?k b) (\<lambda>_ s'. s_rank s' < s_rank s) (\<lambda>_ _. True)) (\<lambda>_ _. True) s"
    by (rule wp_mono [OF run_security_less [OF assms]]) (simp_all add: k del: wp_seqA)
  then show ?thesis unfolding s_processSecurityMsg_def wp_catch wp_act
    by (rule wp_mono) (auto elim!: wp_mono simp del: wp_seqA split: conn_error.split)
qed

lemma process_less:
  assumes "w_in s \<noteq> []"
  shows "wp (s_processMsg env maxCutText) (\<lambda>_ s'. s_rank s' < s_rank s) (\<lambda>_ _. True) s"
proof (cases "s_state s")
  case S_PROTOCOL_VERSION
  then show ?thesis using version_less [OF assms] by (simp add: s_processMsg_def)
next
  case S_SECURITY_TYPE
  then show ?thesis
    by (auto simp: s_processMsg_def s_processSecurityTypeMsg_def s_offerTunneling_def simp del: wp_act(5) wp_wire(2)
        intro!: rd_then_less keeps_intros p_U8_shorter)
next
  case S_TIGHT_TUNN_TYPE
  then show ?thesis
    by (auto simp: s_processMsg_def s_processTunnelTypeMsg_def simp del: wp_act(5) wp_wire(2) intro!: rd_then_less p_U32_shorter)
next
  case S_TIGHT_AUTH_TYPE
  then show ?thesis
    by (auto simp: s_processMsg_def s_processAuthTypeMsg_def simp del: wp_act(5) wp_wire(2) intro!: rd_then_less p_U32_shorter)
next
  case S_SECURITY
  then show ?thesis using security_less [OF assms] by (simp add: s_processMsg_def)
next
  case S_INITIALISATION
  then show ?thesis
    by (auto simp: s_processMsg_def s_processInitMsg_def simp del: wp_act(5) wp_wire(2) intro!: rd_then_less p_U8_shorter)
next
  case S_NORMAL
  then show ?thesis
    by (auto simp: s_processMsg_def s_readMsg_def simp del: wp_act(5) wp_wire(2) intro!: rd_then_less readClientMsg_shorter)
qed (simp_all add: s_processMsg_def)

lemma process_rank: "s_processMsg env maxCutText s = (Inr u, s') \<Longrightarrow> w_in s \<noteq> [] \<Longrightarrow> s_rank s' < s_rank s"
  using process_less [of s env maxCutText] by (simp add: wp_def)

text \<open>
  The \<open>while (checkNoWait(1)) processMsg()\<close> of \<open>processMessages\<close> on the bytes that have arrived: it drains them,
  is left by an exception, or waits in the middle of a message for bytes that are still to come. The reads of a message that
  can wait come before everything else it does (\<open>blocked_unchanged\<close>), so a message that waits is as one not yet
  begun. A file transfer message, with no file transfer manager, is a call without effect.
\<close>

datatype loop_end = Drained | Waits | Thrown conn_error

function s_loop :: "SEnv \<Rightarrow> int \<Rightarrow> SConnection \<Rightarrow> loop_end \<times> SConnection" where
  "s_loop env maxCutText s =
     (if w_in s = [] then (Drained, s)
      else case s_processMsg env maxCutText s of
             (Inl e, s') \<Rightarrow> if e = StreamError EndOfStream then (Waits, s) else (Thrown e, s')
           | (Inr _, s') \<Rightarrow> s_loop env maxCutText s')"
  by pat_completeness auto

termination
  by (relation "measure (\<lambda>(env, maxCutText, s). s_rank s)") (auto dest: process_rank process_rank [OF sym])

declare s_loop.simps [simp del]

text \<open>
  How a call of \<open>processMessages\<close> leaves the server: it has returned; it is in the middle of it, in a read that waits; or
  something that is not an \<open>rdr::Exception\<close> has passed its handlers. The update written after the loop is that of
  \<open>VNCSConnectionST\<close>.
\<close>

datatype s_call = Returned SConnection | Waiting SConnection | Escaped conn_error

definition s_try :: "SEnv \<Rightarrow> int \<Rightarrow> SConnection \<Rightarrow> s_call" where
  "s_try env maxCutText s =
     (case s_loop env maxCutText s of
        (Drained, s') \<Rightarrow> Returned s'
      | (Waits, s') \<Rightarrow> Waiting s'
      | (Thrown e, s') \<Rightarrow> if rdr_exception e then Returned (s_close s') else Escaped e)"

definition s_processMessages :: "SEnv \<Rightarrow> int \<Rightarrow> SConnection \<Rightarrow> s_call" where
  "s_processMessages env maxCutText s = (if s_state s = S_CLOSING then Returned s else s_try env maxCutText s)"

text \<open>
  What can happen next: some bytes arrive, the peer closes, or the time is up for a read. Bytes make the server call
  \<open>processMessages\<close>, or the read that waits in it go on. A closed connection is an \<open>EndOfStream\<close> of the read that waits, or else
  of the \<open>checkNoWait\<close> of the next call; \<open>TimedOut\<close> is thrown by a read that waits only.
\<close>

datatype arrival = Bytes "u8 list" | PeerCloses | TimeUp

definition s_arrive :: "u8 list \<Rightarrow> SConnection \<Rightarrow> SConnection" where
  "s_arrive bs s = s\<lparr>w_in := w_in s @ bs\<rparr>"

fun s_deliver :: "SEnv \<Rightarrow> int \<Rightarrow> s_call \<Rightarrow> arrival \<Rightarrow> s_call" where
  "s_deliver env maxCutText (Returned s) (Bytes bs) = s_processMessages env maxCutText (s_arrive bs s)"
| "s_deliver env maxCutText (Waiting s) (Bytes bs) = s_try env maxCutText (s_arrive bs s)"
| "s_deliver env maxCutText (Returned s) PeerCloses = Returned (if s_state s = S_CLOSING then s else s_close s)"
| "s_deliver env maxCutText (Waiting s) PeerCloses = Returned (s_close s)"
| "s_deliver env maxCutText (Returned s) TimeUp = Returned s"
| "s_deliver env maxCutText (Waiting s) TimeUp = Returned (s_close s)"
| "s_deliver env maxCutText (Escaped e) a = Escaped e"

text \<open>The whole loop is a run of message steps.\<close>

lemma s_loop_reach:
  assumes "srv_reach env p33 maxCutText s"
  shows "s_loop env maxCutText s = (r, s') \<Longrightarrow>
    (case r of Thrown e \<Rightarrow> rdr_exception e \<longrightarrow> srv_reach env p33 maxCutText (s_close s') | _ \<Rightarrow> srv_reach env p33 maxCutText s')"
  using assms
proof (induction env maxCutText s arbitrary: s' rule: s_loop.induct)
  case (1 env maxCutText s)
  show ?case
  proof (cases "w_in s = []")
    case True
    then show ?thesis using "1.prems" by (auto simp: s_loop.simps [of env maxCutText s])
  next
    case False
    obtain q s1 where p: "s_processMsg env maxCutText s = (q, s1)" by fastforce
    note step = srv_reach.message [OF "1.prems"(2) False, unfolded or_close_def p]
    show ?thesis
    proof (cases q)
      case (Inl e)
      then show ?thesis using "1.prems" step False p by (auto simp: s_loop.simps [of env maxCutText s] split: if_splits)
    next
      case (Inr u)
      then have "s_loop env maxCutText s1 = (r, s')"
        using "1.prems" False p by (simp add: s_loop.simps [of env maxCutText s])
      moreover have "srv_reach env p33 maxCutText s1" using step Inr by simp
      ultimately show ?thesis using "1.IH" [OF False p [symmetric] Inr] by blast
    qed
  qed
qed

definition call_reach :: "SEnv \<Rightarrow> bool \<Rightarrow> int \<Rightarrow> s_call \<Rightarrow> bool" where
  "call_reach env p33 maxCutText c = (case c of Escaped e \<Rightarrow> True | Returned s \<Rightarrow> srv_reach env p33 maxCutText s
     | Waiting s \<Rightarrow> srv_reach env p33 maxCutText s)"

lemma try_reach: "srv_reach env p33 maxCutText s \<Longrightarrow> call_reach env p33 maxCutText (s_try env maxCutText s)"
  using s_loop_reach [of env p33 maxCutText s]
  by (cases "s_loop env maxCutText s") (auto simp: s_try_def call_reach_def split: loop_end.splits)

lemma deliver_reach:
  "call_reach env p33 maxCutText c \<Longrightarrow> call_reach env p33 maxCutText (s_deliver env maxCutText c a)"
  by (cases "(env, maxCutText, c, a)" rule: s_deliver.cases)
    (auto simp: call_reach_def s_processMessages_def s_arrive_def
      intro: srv_reach.intros try_reach [unfolded call_reach_def])

subsection \<open>The result of a rejected query\<close>

lemma s_approve_reject:
  assumes "s_state s = S_QUERYING" and "\<not> beforeVersion (s_cp s) 3 8"
  shows "s_approveConnection env False (Some reason) s =
    (Inl (AuthFailure reason), s\<lparr>w_out := w_out s @ e_U32 secResultFailed @ e_string reason, s_state := S_INVALID\<rparr>)"
  using assms by (simp add: s_approveConnection_def act_simps wr_def s_set_state_def)

text \<open>when the server's user or policy rejects a client that has just authenticated with a 3.8 client's
  security type, the failure is written twice: \<open>approveConnection\<close> writes the result and the reason and throws
  the \<open>AuthFailureException\<close> from inside the \<open>try\<close> block of \<open>processSecurityMsg\<close>, whose handler
  writes both again.\<close>

theorem rejected_query_reported_twice:
  assumes "env_query env = Rejected (Some reason)"
    and "s_run_security env s = (Inr True, s')" and "\<not> beforeVersion (s_cp s') 3 8"
  shows "s_processSecurityMsg env s =
    (Inl (AuthFailure reason), s'\<lparr>s_state := S_INVALID,
       w_out := w_out s' @ e_U32 secResultFailed @ e_string reason @ e_U32 secResultFailed @ e_string reason\<rparr>)"
proof -
  let ?m = "bindA (s_run_security env) (\<lambda>b. if b then seqA [s_set_state S_QUERYING, s_queryConnection env] else ret ())"
  let ?s = "s'\<lparr>s_state := S_INVALID, w_out := w_out s' @ e_U32 secResultFailed @ e_string reason\<rparr>"
  have "?m s = (Inl (AuthFailure reason), ?s)"
    using assms s_approve_reject [of "s'\<lparr>s_state := S_QUERYING\<rparr>" env reason]
    by (simp add: bindA_def s_set_state_def modify_def s_queryConnection_def)
  then show ?thesis
    using assms(3) by (simp add: s_processSecurityMsg_def catch_auth_failure_def act_simps wr_def)
qed

definition demo_reject :: SEnv where
  "demo_reject = demo_env\<lparr>env_query := Rejected (Some [65])\<rparr>"

theorem rejected_query_reported_twice_witness:
  "w_out (snd (s_processSecurityMsg demo_reject ((newSConnection False)\<lparr>s_security := Some SSecurityNone\<rparr>))) =
    e_U32 1 @ e_string [65] @ e_U32 1 @ e_string [65]"
proof -
  let ?s = "(newSConnection False)\<lparr>s_security := Some SSecurityNone\<rparr>"
  have "s_run_security demo_reject ?s = (Inr True, ?s)"
    by (simp add: s_run_security_def act_simps)
  moreover have "\<not> beforeVersion (s_cp ?s) 3 8" and "w_out ?s = []" by code_simp+
  ultimately show ?thesis
    using rejected_query_reported_twice [of demo_reject "[65]" ?s ?s] by (simp add: demo_reject_def secResultFailed_def)
qed

end
