(* ===== verification/Rfb_CConnection.thy ===== *)
theory Rfb_CConnection
  imports Rfb_Security Rfb_Caps Rfb_ClientMsg
begin

text \<open>
  The client side of a connection, \<open>common/rfb/CConnection.cxx\<close>, with \<open>CMsgReaderV3::readServerInit\<close>,
  the handlers of \<open>CMsgHandler\<close> it calls, and \<open>getCSecurity\<close> of the viewers. The password that the user
  gives is a parameter.
\<close>

subsection \<open>The state\<close>

datatype cstate =
    C_UNINITIALISED | C_PROTOCOL_VERSION | C_SECURITY_TYPES | C_SECURITY | C_SECURITY_RESULT
  | C_INITIALISATION | C_NORMAL | C_INVALID

text \<open>\<open>security\<close> is the type of the \<open>CSecurity\<close> object, which keeps no state of its own.\<close>

record CConnection = wire +
  c_cp :: ConnParams
  c_state :: cstate
  c_security :: "int option"
  c_secTypes :: "u8 list"
  clientSecTypeOrder :: bool
  c_shared :: bool
  useProtocol3_3 :: bool
  c_streams :: bool

definition newCConnection :: CConnection where
  "newCConnection = \<lparr>w_in = [], w_out = [], c_cp = newConnParams, c_state = C_UNINITIALISED, c_security = None,
     c_secTypes = [], clientSecTypeOrder = False, c_shared = False, useProtocol3_3 = False, c_streams = False\<rparr>"

definition maxSecTypes :: nat where "maxSecTypes = 8"

definition addSecType :: "u8 \<Rightarrow> (CConnection, unit) act" where
  "addSecType secType = getting c_secTypes (\<lambda>ts.
     if length ts = maxSecTypes then throw (GeneralError ''too many security types'')
     else modify (\<lambda>c. c\<lparr>c_secTypes := ts @ [secType]\<rparr>))"

definition c_set_state :: "cstate \<Rightarrow> (CConnection, unit) act" where
  "c_set_state st = modify (\<lambda>c. c\<lparr>c_state := st\<rparr>)"

definition c_set_cp :: "(ConnParams \<Rightarrow> ConnParams) \<Rightarrow> (CConnection, unit) act" where
  "c_set_cp f = modify (\<lambda>c. c\<lparr>c_cp := f (c_cp c)\<rparr>)"

definition c_initialiseProtocol :: "(CConnection, unit) act" where
  "c_initialiseProtocol = c_set_state C_PROTOCOL_VERSION"

subsection \<open>The protocol version\<close>

definition client_version :: "bool \<Rightarrow> ConnParams \<Rightarrow> ConnParams" where
  "client_version use33 cp =
     (if use33 \<or> beforeVersion cp 3 7 then setVersion 3 3 cp
      else if afterVersion cp 3 8 then setVersion 3 8 cp
      else cp)"

definition c_processVersionMsg :: "(CConnection, unit) act" where
  "c_processVersionMsg =
     getting id (\<lambda>c.
       let ((ok, done), cp, is) = cp_readVersion (c_cp c) (w_in c)
       in seqA [
         modify (\<lambda>c. c\<lparr>c_cp := cp, w_in := is\<rparr>),
         if \<not> ok then seqA [c_set_state C_INVALID, throw (GeneralError ''reading version failed: not an RFB server?'')]
         else if \<not> done then ret ()
         else if beforeVersion cp 3 3
         then seqA [c_set_state C_INVALID, throw (GeneralError ''Server gave unsupported RFB protocol version'')]
         else let cp = client_version (useProtocol3_3 c) cp
              in seqA [c_set_cp (\<lambda>_. cp), wr (cp_writeVersion cp), c_set_state C_SECURITY_TYPES]])"

subsection \<open>The security type\<close>

definition c_throwConnFailed :: "(CConnection, 'a) act" where
  "c_throwConnFailed =
     bindA (c_set_state C_INVALID) (\<lambda>_. bindA (rd p_string) (\<lambda>reason. throw (ConnFailed reason)))"

text \<open>One round of the loop over the server's list: the type chosen so far and its position in ours.\<close>

definition consider_type :: "bool \<Rightarrow> u8 list \<Rightarrow> int \<times> nat \<Rightarrow> u8 \<Rightarrow> int \<times> nat" where
  "consider_type clientOrder secTypes chosen serverSecType =
     (let (secType, secTypePos) = chosen
      in if secType = secTypeInvalid \<or> clientOrder
         then case find (\<lambda>j. secTypes ! j = serverSecType \<and> j < secTypePos) [0..<length secTypes] of
                Some j \<Rightarrow> (uint (secTypes ! j), j)
              | None \<Rightarrow> chosen
         else chosen)"

definition chosen_type :: "bool \<Rightarrow> u8 list \<Rightarrow> u8 list \<Rightarrow> int" where
  "chosen_type clientOrder secTypes serverTypes =
     fst (foldl (consider_type clientOrder secTypes) (secTypeInvalid, length secTypes) serverTypes)"

definition c_readSecType33 :: "u8 list \<Rightarrow> (CConnection, int) act" where
  "c_readSecType33 secTypes =
     bindA (rd p_U32) (\<lambda>t.
       let secType = sint t
       in if secType = secTypeInvalid then c_throwConnFailed
          else if secType = secTypeNone \<or> secType = secTypeVncAuth
          then ret (if secType \<in> uint ` set secTypes then secType else secTypeInvalid)
          else throw (GeneralError ''Unknown 3.3 security type''))"

definition c_readSecTypes :: "bool \<Rightarrow> u8 list \<Rightarrow> (CConnection, int) act" where
  "c_readSecTypes clientOrder secTypes =
     bindA (rd p_U8) (\<lambda>nServerSecTypes.
       if nServerSecTypes = 0 then c_throwConnFailed
       else bindA (rd (p_list p_U8 (unat nServerSecTypes))) (\<lambda>serverTypes.
         let secType = chosen_type clientOrder secTypes serverTypes
         in bindA (if secType \<noteq> secTypeInvalid then wr [of_int secType] else ret ()) (\<lambda>_. ret secType)))"

definition getCSecurity :: "int \<Rightarrow> (CConnection, unit) act" where
  "getCSecurity secType =
     (if secType = secTypeNone \<or> secType = secTypeVncAuth then modify (\<lambda>c. c\<lparr>c_security := Some secType\<rparr>)
      else throw (GeneralError ''Unsupported secType?''))"

subsection \<open>Authentication and its result\<close>

definition secResultTooMany :: u32 where "secResultTooMany = 2"

definition writeClientInit_act :: "(CConnection, unit) act" where
  "writeClientInit_act = getting c_shared (\<lambda>shared. wr (writeClientInit shared))"

definition c_securityCompleted :: "(CConnection, unit) act" where
  "c_securityCompleted = seqA [c_set_state C_INITIALISATION, modify (\<lambda>c. c\<lparr>c_streams := True\<rparr>), writeClientInit_act]"

definition c_securityResult :: "u32 \<Rightarrow> (CConnection, unit) act" where
  "c_securityResult result =
     (if result = 0 then c_securityCompleted
      else if result = 1 \<or> result = secResultTooMany
      then getting c_cp (\<lambda>cp.
             bindA (if beforeVersion cp 3 8 then ret (bytes_of ''Authentication failure'') else rd p_string) (\<lambda>reason.
               seqA [c_set_state C_INVALID, throw (AuthFailure reason)]))
      else throw (GeneralError ''Unknown security result from server''))"

definition c_processSecurityResultMsg :: "(CConnection, unit) act" where
  "c_processSecurityResultMsg =
     getting id (\<lambda>c.
       if beforeVersion (c_cp c) 3 8 \<and> c_security c = Some secTypeNone then c_securityResult 0
       else if w_in c = [] then ret ()
       else bindA (rd p_U32) c_securityResult)"

definition c_security_step :: "u8 list \<Rightarrow> (CConnection, bool) act" where
  "c_security_step passwd =
     getting c_security (\<lambda>t. if t = Some secTypeVncAuth then csec_processMsg passwd else ret True)"

definition c_processSecurityMsg :: "u8 list \<Rightarrow> (CConnection, unit) act" where
  "c_processSecurityMsg passwd =
     bindA (c_security_step passwd) (\<lambda>completed.
       if completed then seqA [c_set_state C_SECURITY_RESULT, c_processSecurityResultMsg] else ret ())"

definition c_processSecurityTypesMsg :: "u8 list \<Rightarrow> (CConnection, unit) act" where
  "c_processSecurityTypesMsg passwd =
     getting id (\<lambda>c.
       bindA (if isVersion (c_cp c) 3 3 then c_readSecType33 (c_secTypes c)
              else c_readSecTypes (clientSecTypeOrder c) (c_secTypes c)) (\<lambda>secType.
         if secType = secTypeInvalid
         then seqA [c_set_state C_INVALID, throw (GeneralError ''No matching security types'')]
         else seqA [c_set_state C_SECURITY, getCSecurity secType, c_processSecurityMsg passwd]))"

subsection \<open>Initialisation\<close>

definition c_readServerInit :: "(CConnection, unit) act" where
  "c_readServerInit =
     bindA (rd p_U16) (\<lambda>width. bindA (rd p_U16) (\<lambda>height.
     bindA (c_set_cp (\<lambda>cp. cp\<lparr>cp_width := uint width, cp_height := uint height\<rparr>)) (\<lambda>_.
     bindA (rd p_PixelFormat) (\<lambda>pf.
     bindA (c_set_cp (\<lambda>cp. snd (cp_setPF pf cp))) (\<lambda>_.
     bindA (if fst (cp_setPF pf newConnParams) then ret () else throw (GeneralError ''setPF: not 8, 16 or 32 bpp?'')) (\<lambda>_.
     bindA (rd p_string) (\<lambda>name.
       seqA [c_set_cp (cp_setName name), c_set_state C_NORMAL])))))))"

text \<open>\<open>processMsg\<close>; a message in the normal state goes to the message reader, which is not in this theory.\<close>

definition c_processMsg :: "u8 list \<Rightarrow> (CConnection, unit) act \<Rightarrow> (CConnection, unit) act" where
  "c_processMsg passwd readMsg =
     getting c_state (\<lambda>st. case st of
        C_PROTOCOL_VERSION \<Rightarrow> c_processVersionMsg
      | C_SECURITY_TYPES \<Rightarrow> c_processSecurityTypesMsg passwd
      | C_SECURITY \<Rightarrow> c_processSecurityMsg passwd
      | C_SECURITY_RESULT \<Rightarrow> c_processSecurityResultMsg
      | C_INITIALISATION \<Rightarrow> c_readServerInit
      | C_NORMAL \<Rightarrow> readMsg
      | C_UNINITIALISED \<Rightarrow> throw (GeneralError ''CConnection::processMsg: not initialised yet?'')
      | C_INVALID \<Rightarrow> throw (GeneralError ''CConnection::processMsg: invalid state''))"

subsection \<open>The choice of the security type\<close>

lemma uint_0: "uint (t :: u8) = 0 \<longleftrightarrow> t = 0"
  by (simp add: uint_0_iff)

lemma consider_rest:
  assumes "secType \<noteq> secTypeInvalid"
  shows "foldl (consider_type False ts) (secType, p) ss = (secType, p)"
  using assms by (induction ss) (auto simp: consider_type_def)

text \<open>Without \<open>clientSecTypeOrder\<close> the client takes the first type of the server's list that it knows.\<close>

lemma chosen_server_order:
  assumes "0 \<notin> set ss"
  shows "chosen_type False ts ss = (case find (\<lambda>t. t \<in> set ts) ss of Some t \<Rightarrow> uint t | None \<Rightarrow> secTypeInvalid)"
  using assms
proof (induction ss)
  case Nil
  then show ?case by (simp add: chosen_type_def)
next
  case (Cons t ss)
  show ?case
  proof (cases "find (\<lambda>j. ts ! j = t \<and> j < length ts) [0..<length ts]")
    case None
    then have "t \<notin> set ts" by (auto simp: find_None_iff in_set_conv_nth)
    moreover have "consider_type False ts (secTypeInvalid, length ts) t = (secTypeInvalid, length ts)"
      using None by (simp add: consider_type_def)
    ultimately show ?thesis using Cons by (simp add: chosen_type_def)
  next
    case (Some j)
    then have j: "j < length ts" "ts ! j = t" unfolding find_Some_iff by auto
    then have "t \<in> set ts" by auto
    moreover have "consider_type False ts (secTypeInvalid, length ts) t = (uint t, j)"
      using Some j by (simp add: consider_type_def)
    moreover have "uint t \<noteq> secTypeInvalid" using Cons.prems by (simp add: secTypeInvalid_def uint_0)
    ultimately show ?thesis by (simp add: chosen_type_def consider_rest)
  qed
qed

text \<open>With it, the first type of its own list that the server offers.\<close>

definition chosen_at :: "u8 list \<Rightarrow> u8 set \<Rightarrow> int \<times> nat \<Rightarrow> bool" where
  "chosen_at ts S c \<longleftrightarrow> (\<forall>j < snd c. ts ! j \<notin> S) \<and>
     (if snd c < length ts then ts ! snd c \<in> S \<and> fst c = uint (ts ! snd c) else c = (secTypeInvalid, length ts))"

lemma chosen_at_step:
  assumes "chosen_at ts S c"
  shows "chosen_at ts (insert t S) (consider_type True ts c t)"
proof (cases "find (\<lambda>j. ts ! j = t \<and> j < snd c) [0..<length ts]")
  case None
  then have "consider_type True ts c t = c" by (simp add: consider_type_def case_prod_unfold)
  moreover have "ts ! j \<noteq> t" if "j < snd c" for j
    using None that assms by (auto simp: find_None_iff chosen_at_def split: if_splits)
  ultimately show ?thesis using assms by (auto simp: chosen_at_def)
next
  case (Some j)
  then have j: "j < length ts" "ts ! j = t" "j < snd c" "\<forall>i < j. ts ! i \<noteq> t" unfolding find_Some_iff by auto
  moreover have "consider_type True ts c t = (uint t, j)" using Some j by (simp add: consider_type_def case_prod_unfold)
  ultimately show ?thesis using assms by (simp add: chosen_at_def)
qed

lemma chosen_at_fold: "chosen_at ts S c \<Longrightarrow> chosen_at ts (S \<union> set ss) (foldl (consider_type True ts) c ss)"
proof (induction ss arbitrary: S c)
  case Nil
  then show ?case by simp
next
  case (Cons t ss)
  from Cons.IH [OF chosen_at_step [OF Cons.prems]] show ?case by simp
qed

lemma find_first:
  assumes "p < length ts" and "P (ts ! p)" and "\<forall>j < p. \<not> P (ts ! j)"
  shows "find P ts = Some (ts ! p)"
  using assms by (auto simp: find_Some_iff)

lemma chosen_client_order:
  "chosen_type True ts ss = (case find (\<lambda>t. t \<in> set ss) ts of Some t \<Rightarrow> uint t | None \<Rightarrow> secTypeInvalid)"
proof -
  define c where "c = foldl (consider_type True ts) (secTypeInvalid, length ts) ss"
  have "chosen_at ts {} (secTypeInvalid, length ts)" by (simp add: chosen_at_def)
  from chosen_at_fold [OF this, of ss] have c: "chosen_at ts (set ss) c" by (simp add: c_def)
  have f: "chosen_type True ts ss = fst c" by (simp add: chosen_type_def c_def)
  show ?thesis
  proof (cases "snd c < length ts")
    case True
    then have "find (\<lambda>t. t \<in> set ss) ts = Some (ts ! snd c)"
      using c by (intro find_first) (auto simp: chosen_at_def)
    then show ?thesis using c True f by (simp add: chosen_at_def)
  next
    case False
    then have l: "c = (secTypeInvalid, length ts)" using c by (simp add: chosen_at_def)
    then have "\<forall>j < length ts. ts ! j \<notin> set ss" using c by (simp add: chosen_at_def)
    then have "find (\<lambda>t. t \<in> set ss) ts = None" by (metis find_None_iff in_set_conv_nth)
    then show ?thesis using f l by simp
  qed
qed

text \<open>the loop of \<open>processSecurityTypesMsg\<close> chooses what the two orders mean: the first type of the
  server's list that the client knows, or, with \<open>clientSecTypeOrder\<close>, the first of the client's list that the
  server offers; the invalid type when they have none in common. The server's list does not hold the invalid type 0.\<close>

theorem chosen_type_correct:
  assumes "0 \<notin> set serverTypes"
  shows "chosen_type clientOrder secTypes serverTypes =
    (case (if clientOrder then find (\<lambda>t. t \<in> set serverTypes) secTypes else find (\<lambda>t. t \<in> set secTypes) serverTypes)
       of Some t \<Rightarrow> uint t | None \<Rightarrow> secTypeInvalid)"
  using assms by (simp add: chosen_server_order chosen_client_order)

theorem chosen_type_correct_witness:
  "chosen_type True [2, 1] [5, 1, 2] = 2 \<and> chosen_type False [2, 1] [5, 1, 2] = 1"
  using chosen_type_correct [of "[5, 1, 2]" True "[2, 1]"] chosen_type_correct [of "[5, 1, 2]" False "[2, 1]"] by simp

end
