(* ===== verification/Rfb_Handshake.thy ===== *)
theory Rfb_Handshake
  imports Rfb_SConnectionRun Rfb_CConnection
begin

text \<open>
  The handshake of a client and a server of this program: \<open>CConnection\<close> and \<open>SConnection\<close>, each reading
  what the other has written.
\<close>

subsection \<open>Two ends of a connection\<close>

text \<open>What the server has done after the bytes \<open>input\<close>.\<close>

definition server_on :: "SEnv \<Rightarrow> bool \<Rightarrow> int \<Rightarrow> u8 list \<Rightarrow> SConnection" where
  "server_on env p33 maxCutText input =
     snd (s_loop env maxCutText ((snd (s_initialiseProtocol (newSConnection p33)))\<lparr>w_in := input\<rparr>))"

text \<open>The client processes messages while there are bytes, at most \<open>n\<close> of them.\<close>

fun c_loop :: "u8 list \<Rightarrow> (CConnection, unit) act \<Rightarrow> nat \<Rightarrow> CConnection \<Rightarrow> CConnection" where
  "c_loop passwd readMsg 0 c = c"
| "c_loop passwd readMsg (Suc n) c =
     (if w_in c = [] then c
      else case c_processMsg passwd readMsg c of (Inl e, c') \<Rightarrow> c' | (Inr _, c') \<Rightarrow> c_loop passwd readMsg n c')"

record client_config =
  cfg_types :: "u8 list"
  cfg_order :: bool
  cfg_shared :: bool
  cfg_use33 :: bool
  cfg_passwd :: "u8 list"

definition client_start :: "client_config \<Rightarrow> CConnection" where
  "client_start cfg = snd (c_initialiseProtocol (newCConnection
     \<lparr>c_secTypes := cfg_types cfg, clientSecTypeOrder := cfg_order cfg, c_shared := cfg_shared cfg,
      useProtocol3_3 := cfg_use33 cfg\<rparr>))"

definition client_on :: "client_config \<Rightarrow> (CConnection, unit) act \<Rightarrow> nat \<Rightarrow> u8 list \<Rightarrow> CConnection" where
  "client_on cfg readMsg n input = c_loop (cfg_passwd cfg) readMsg n ((client_start cfg)\<lparr>w_in := input\<rparr>)"

text \<open>
  The bytes delivered to each end after \<open>n\<close> rounds, in each of which everything written so far is delivered.
  An end that waits for bytes in the middle of a message has written what it wrote before.
\<close>

fun exchange :: "(u8 list \<Rightarrow> u8 list) \<Rightarrow> (u8 list \<Rightarrow> u8 list) \<Rightarrow> nat \<Rightarrow> u8 list \<times> u8 list" where
  "exchange server client 0 = ([], [])"
| "exchange server client (Suc n) = (case exchange server client n of (ci, si) \<Rightarrow> (server si, client ci))"

lemma exchange_ladder:
  assumes "server [] = s0" "client [] = []" "client s0 = c1" "server c1 = s1" "client s1 = c2" "server c2 = s2"
    and "client s2 = c3" "server c3 = s3" "client s3 = c4" "server c4 = s4" "client s4 = c4"
  shows "exchange server client 10 = (s4, c4)"
  using assms by (simp add: eval_nat_numeral)

subsection \<open>The server's steps\<close>

definition env_cp :: "SEnv \<Rightarrow> ConnParams \<Rightarrow> ConnParams" where
  "env_cp env cp =
     snd (cp_setPF (env_pf env) (cp_setName (env_name env) (cp\<lparr>cp_width := env_width env, cp_height := env_height env\<rparr>)))"

definition env_accepts :: "SEnv \<Rightarrow> bool" where
  "env_accepts env \<longleftrightarrow> env_query env = Accepted \<and> env_refused env = None \<and> fst (cp_setPF (env_pf env) newConnParams)"

definition s_approved :: "SEnv \<Rightarrow> SConnection \<Rightarrow> SConnection" where
  "s_approved env s = s\<lparr>w_out := w_out s @ (if \<not> beforeVersion (s_cp s) 3 8 \<or> s_security s \<noteq> Some SSecurityNone then e_U32 0 else []),
     s_cp := env_cp env (s_cp s), s_state := S_INITIALISATION, s_streams := True\<rparr>"

lemma approve_accepts:
  assumes "env_accepts env" and "s_state s = S_QUERYING" and "s_security s = Some sec"
  shows "s_approveConnection env True r s = (Inr (), s_approved env s)"
proof -
  have "map_option ssec_type (s_security s) = Some secTypeNone \<longleftrightarrow> s_security s = Some SSecurityNone"
    using assms(3) by (cases sec) (simp_all add: ssec_type_def secTypeNone_def secTypeVncAuth_def)
  then show ?thesis using assms
    by (simp add: s_approveConnection_def s_approved_def s_authSuccess_def act_simps wr_def s_set_state_def s_set_cp_def
        env_cp_def env_accepts_def secResultOK_def Let_def)
qed

lemma security_accepts:
  assumes "env_accepts env" and "s_run_security env s = (Inr True, s')" and "s_security s' = Some sec"
  shows "s_processSecurityMsg env s = (Inr (), s_approved env (s'\<lparr>s_state := S_QUERYING\<rparr>))"
  using assms approve_accepts [of env "s'\<lparr>s_state := S_QUERYING\<rparr>" sec None]
  by (simp add: s_processSecurityMsg_def catch_auth_failure_def bindA_def s_set_state_def modify_def s_queryConnection_def
      env_accepts_def ret_def)

lemma s_approved_state [simp]: "s_approved env (s\<lparr>s_state := st\<rparr>) = s_approved env s"
  by (simp add: s_approved_def)

lemma security_accepts_none:
  assumes "env_accepts env" and "s_security s = Some SSecurityNone"
  shows "s_processSecurityMsg env s = (Inr (), s_approved env s)"
  using security_accepts [OF assms(1), of s s SSecurityNone] assms(2) by (simp add: s_run_security_def act_simps)

definition challenged :: "SEnv \<Rightarrow> SSecurity" where
  "challenged env = SSecurityVnc (newSSecurityVncAuth\<lparr>challenge := env_random env, sentChallenge := True\<rparr>)"

lemma security_challenges:
  assumes "s_security s = Some (SSecurityVnc newSSecurityVncAuth)"
  shows "s_processSecurityMsg env s =
    (Inr (), s\<lparr>w_out := w_out s @ env_random env, s_security := Some (challenged env)\<rparr>)"
  using assms
  by (simp add: s_processSecurityMsg_def catch_auth_failure_def s_run_security_def ssec_processMsg_def act_simps wr_def
      newSSecurityVncAuth_def challenged_def)

definition answered :: "SEnv \<Rightarrow> u8 list \<Rightarrow> SSecurity" where
  "answered env r = SSecurityVnc \<lparr>challenge = r, response = r, sentChallenge = True\<rparr>"

lemma security_accepts_vnc:
  assumes "env_accepts env" and "s_security s = Some (challenged env)" and "env_passwd env = Some pwd"
    and "w_in s = vnc_response pwd (env_random env) @ bs"
  shows "s_processSecurityMsg env s =
    (Inr (), s_approved env (s\<lparr>w_in := bs, s_security := Some (answered env (vnc_response pwd (env_random env)))\<rparr>))"
proof -
  let ?s = "s\<lparr>w_in := bs, s_security := Some (answered env (vnc_response pwd (env_random env)))\<rparr>"
  have "s_run_security env s = (Inr True, ?s)"
    using assms(2-4)
    by (simp add: s_run_security_def challenged_def answered_def ssec_processMsg_def act_simps newSSecurityVncAuth_def)
  from security_accepts [OF assms(1) this] show ?thesis by simp
qed

lemma s_loop_step:
  assumes "s_processMsg env maxCutText s = (Inr u, s')" and "w_in s \<noteq> []"
  shows "s_loop env maxCutText s = s_loop env maxCutText s'"
  using assms by (simp add: s_loop.simps [of env maxCutText s])

lemma s_loop_empty: "w_in s = [] \<Longrightarrow> s_loop env maxCutText s = (Drained, s)"
  by (simp add: s_loop.simps)

lemma init_message:
  assumes "s_state s = S_INITIALISATION" and "w_in s = b # bs" and "\<not> tightExtensionsEnabled (s_cp s)"
  shows "s_loop env maxCutText s =
    s_loop env maxCutText (s\<lparr>w_in := bs, w_out := w_out s @ e_ServerInit (s_cp s), s_state := S_NORMAL\<rparr>)"
  by (rule s_loop_step)
    (use assms in \<open>simp_all add: s_processMsg_def s_processInitMsg_def s_clientInit_def act_simps rd_def wr_def s_set_state_def\<close>)

definition version_bytes :: "int \<Rightarrow> u8 list" where
  "version_bytes minor = cp_writeVersion (setVersion 3 minor newConnParams)"

definition version_cp :: "int \<Rightarrow> int \<Rightarrow> ConnParams" where
  "version_cp minor received = newConnParams\<lparr>majorVersion := 3, minorVersion := minor, verStr := version_bytes received\<rparr>"

lemma writeVersion_bytes: "majorVersion cp = 3 \<Longrightarrow> minorVersion cp = m \<Longrightarrow> cp_writeVersion cp = version_bytes m"
  by (simp add: version_bytes_def cp_writeVersion_def setVersion_def)

definition default_minor :: "bool \<Rightarrow> int" where "default_minor p33 = (if p33 then 3 else 8)"

lemma read_version_bytes:
  assumes "verStr cp = []" and "m = 3 \<or> m = 8"
  shows "cp_readVersion cp (version_bytes m @ bs) =
    ((True, True), cp\<lparr>verStr := version_bytes m, majorVersion := 3, minorVersion := m\<rparr>, bs)"
  using readVersion_written [of cp "(3, m)" "setVersion 3 m newConnParams" bs] assms
  by (auto simp: version_bytes_def official_def setVersion_def)

definition server_start :: "bool \<Rightarrow> SConnection" where
  "server_start p33 = snd (s_initialiseProtocol (newSConnection p33))"

lemma server_start:
  "w_out (server_start p33) = version_bytes (default_minor p33)" "s_state (server_start p33) = S_PROTOCOL_VERSION"
  "s_cp (server_start p33) = setVersion 3 (default_minor p33) newConnParams" "s_security (server_start p33) = None"
  by (simp_all add: server_start_def s_initialiseProtocol_def newSConnection_def act_simps wr_def s_set_state_def Let_def
      version_bytes_def default_minor_def setVersion_def cp_writeVersion_def)

definition offer :: "SEnv \<Rightarrow> u8 list" where
  "offer env = map of_int (getSecTypes (env_types env) @ [secTypeTight])"

text \<open>The server in its states of the handshake, with \<open>bs\<close> still to read.\<close>

definition server_at :: "bool \<Rightarrow> int \<Rightarrow> sstate \<Rightarrow> SSecurity option \<Rightarrow> u8 list \<Rightarrow> u8 list \<Rightarrow> SConnection" where
  "server_at p33 m st sec written bs =
     (server_start p33)\<lparr>w_in := bs, w_out := version_bytes (default_minor p33) @ written, s_cp := version_cp m m,
        s_state := st, s_security := sec\<rparr>"

lemma setVersion_cp: "(setVersion 3 d newConnParams)\<lparr>verStr := version_bytes m, majorVersion := 3, minorVersion := m\<rparr> = version_cp m m"
  by (simp add: setVersion_def version_cp_def)

lemma verStr_setVersion: "verStr (setVersion a b newConnParams) = []"
  by (simp add: setVersion_def newConnParams_def)

lemma version_cp_simps [simp]: "majorVersion (version_cp m r) = 3" "minorVersion (version_cp m r) = m"
  "tightExtensionsEnabled (version_cp m r) = False" "verStr (version_cp m r) = version_bytes r"
  by (simp_all add: version_cp_def newConnParams_def)

lemma version_cp_same: "(version_cp m r)\<lparr>minorVersion := m\<rparr> = version_cp m r"
  by (simp add: version_cp_def)

lemma version_nonempty: "m = 3 \<or> m = 8 \<Longrightarrow> version_bytes m @ bs \<noteq> []"
  by (auto simp: version_bytes_def writeVersion_official)

lemma version_message:
  assumes "env_refused env = None" and "m = 3 \<or> m = 8"
    and "s_offerSecurity env (server_at p33 m S_PROTOCOL_VERSION None [] bs) = (Inr (), s')"
  shows "s_loop env maxCutText ((server_start p33)\<lparr>w_in := version_bytes m @ bs\<rparr>) = s_loop env maxCutText s'"
proof (rule s_loop_step)
  have "cp_readVersion (setVersion 3 (default_minor p33) newConnParams) (version_bytes m @ bs) =
      ((True, True), version_cp m m, bs)"
    using read_version_bytes [OF verStr_setVersion assms(2)] by (simp add: setVersion_cp)
  moreover have "compatible_minor m = m" using assms(2) by (auto simp: compatible_minor_def)
  moreover have "(server_start p33)\<lparr>w_in := bs, s_cp := version_cp m m\<rparr> = server_at p33 m S_PROTOCOL_VERSION None [] bs"
    by (simp add: server_at_def server_start SConnection.equality)
  ultimately show "s_processMsg env maxCutText ((server_start p33)\<lparr>w_in := version_bytes m @ bs\<rparr>) = (Inr (), s')"
    using assms
    by (simp add: s_processMsg_def s_processVersionMsg_def act_simps s_set_cp_def server_start version_cp_same)
  show "w_in ((server_start p33)\<lparr>w_in := version_bytes m @ bs\<rparr>) \<noteq> []"
    using version_nonempty [OF assms(2)] by simp
qed

lemma version_message_38:
  assumes "env_accepts env"
  shows "s_loop env maxCutText ((server_start p33)\<lparr>w_in := version_bytes 8 @ bs\<rparr>) =
    s_loop env maxCutText (server_at p33 8 S_SECURITY_TYPE None (of_nat (length (offer env)) # offer env) bs)"
  by (rule version_message)
    (use assms in \<open>simp_all add: env_accepts_def s_offerSecurity_def server_at_def act_simps isVersion_def wr_def s_set_state_def
      offer_def Let_def\<close>)

definition security_of :: "int \<Rightarrow> SSecurity" where
  "security_of t = (if t = secTypeNone then SSecurityNone else SSecurityVnc newSSecurityVncAuth)"

lemma getSecurity_of: "t = secTypeNone \<or> t = secTypeVncAuth \<Longrightarrow> getSSecurity t = Inr (security_of t)"
  by (auto simp: getSSecurity_def security_of_def secTypeNone_def secTypeVncAuth_def)

text \<open>The order in which fields are set is normalised.\<close>

lemma server_fields:
  "(s :: SConnection)\<lparr>w_out := b, w_in := a\<rparr> = s\<lparr>w_in := a, w_out := b\<rparr>"
  "(s :: SConnection)\<lparr>s_cp := c, w_in := a\<rparr> = s\<lparr>w_in := a, s_cp := c\<rparr>"
  "(s :: SConnection)\<lparr>s_state := d, w_in := a\<rparr> = s\<lparr>w_in := a, s_state := d\<rparr>"
  "(s :: SConnection)\<lparr>s_security := e, w_in := a\<rparr> = s\<lparr>w_in := a, s_security := e\<rparr>"
  "(s :: SConnection)\<lparr>s_cp := c, w_out := b\<rparr> = s\<lparr>w_out := b, s_cp := c\<rparr>"
  "(s :: SConnection)\<lparr>s_state := d, w_out := b\<rparr> = s\<lparr>w_out := b, s_state := d\<rparr>"
  "(s :: SConnection)\<lparr>s_security := e, w_out := b\<rparr> = s\<lparr>w_out := b, s_security := e\<rparr>"
  "(s :: SConnection)\<lparr>s_state := d, s_cp := c\<rparr> = s\<lparr>s_cp := c, s_state := d\<rparr>"
  "(s :: SConnection)\<lparr>s_security := e, s_cp := c\<rparr> = s\<lparr>s_cp := c, s_security := e\<rparr>"
  "(s :: SConnection)\<lparr>s_security := e, s_state := d\<rparr> = s\<lparr>s_state := d, s_security := e\<rparr>"
  by simp_all

lemma version_message_33:
  assumes "env_accepts env" and "getSecTypes (env_types env) = t # ts"
    and "s_processSecurityMsg env (server_at p33 3 S_SECURITY (Some (security_of t)) (e_U32 (of_int t)) bs) = (Inr (), s')"
  shows "s_loop env maxCutText ((server_start p33)\<lparr>w_in := version_bytes 3 @ bs\<rparr>) = s_loop env maxCutText s'"
proof (rule version_message)
  have "t \<in> set (getSecTypes (env_types env))" using assms(2) by simp
  then have t: "t = secTypeNone \<or> t = secTypeVncAuth" by (simp add: getSecTypes_def isSecTypeSupported_def)
  then show "s_offerSecurity env (server_at p33 3 S_PROTOCOL_VERSION None [] bs) = (Inr (), s')"
    using assms by (simp add: s_offerSecurity_def server_at_def act_simps isVersion_def wr_def s_set_state_def getSecurity_of Let_def
        server_fields)
qed (use assms(1) in \<open>simp_all add: env_accepts_def\<close>)

lemma type_message:
  assumes "t \<in> set (getSecTypes (env_types env))"
    and "s_processSecurityMsg env (server_at p33 8 S_SECURITY (Some (security_of t)) out bs) = (Inr (), s')"
  shows "s_loop env maxCutText (server_at p33 8 S_SECURITY_TYPE None out (of_int t # bs)) = s_loop env maxCutText s'"
proof (rule s_loop_step)
  have t: "t = secTypeNone \<or> t = secTypeVncAuth" using assms(1) by (simp add: getSecTypes_def isSecTypeSupported_def)
  then have u: "uint (of_int t :: u8) = t" "t \<noteq> secTypeTight"
    by (auto simp: secTypeNone_def secTypeVncAuth_def secTypeTight_def)
  then show "s_processMsg env maxCutText (server_at p33 8 S_SECURITY_TYPE None out (of_int t # bs)) = (Inr (), s')"
    using assms
    by (simp add: s_processMsg_def s_processSecurityTypeMsg_def s_processSecurityType_def server_at_def act_simps rd_def
        getSecurity_of [OF t] s_set_state_def server_fields)
qed (simp add: server_at_def)

text \<open>The server once it has accepted, and after the client's initialisation message.\<close>

definition served :: "SEnv \<Rightarrow> bool \<Rightarrow> int \<Rightarrow> SSecurity \<Rightarrow> u8 list \<Rightarrow> SConnection" where
  "served env p33 m sec out =
     (server_at p33 m S_NORMAL (Some sec) (out @ e_ServerInit (env_cp env (version_cp m m))) [])
       \<lparr>s_cp := env_cp env (version_cp m m), s_streams := True\<rparr>"

definition result_bytes :: "int \<Rightarrow> SSecurity \<Rightarrow> u8 list" where
  "result_bytes m sec = (if m = 8 \<or> sec \<noteq> SSecurityNone then e_U32 0 else [])"

lemma env_cp_simps [simp]: "tightExtensionsEnabled (env_cp env cp) = tightExtensionsEnabled cp"
  "majorVersion (env_cp env cp) = majorVersion cp" "minorVersion (env_cp env cp) = minorVersion cp"
  by (simp_all add: env_cp_def cp_setPF_def cp_setName_def)

lemma approved_waits:
  assumes "m = 3 \<or> m = 8"
  shows "w_out (snd (s_loop env maxCutText (s_approved env (server_at p33 m st (Some sec) out [])))) =
    version_bytes (default_minor p33) @ out @ result_bytes m sec"
  using assms
  by (auto simp: s_loop_empty s_approved_def server_at_def result_bytes_def beforeVersion_def)

lemma approved_serves:
  assumes "m = 3 \<or> m = 8"
  shows "snd (s_loop env maxCutText (s_approved env (server_at p33 m st (Some sec) out [b]))) =
    served env p33 m sec (out @ result_bytes m sec)"
proof -
  let ?s = "s_approved env (server_at p33 m st (Some sec) out [b])"
  have "s_loop env maxCutText ?s = s_loop env maxCutText
      (?s\<lparr>w_in := [], w_out := w_out ?s @ e_ServerInit (s_cp ?s), s_state := S_NORMAL\<rparr>)"
    by (rule init_message) (simp_all add: s_approved_def server_at_def)
  also have "\<dots> = (Drained, ?s\<lparr>w_in := [], w_out := w_out ?s @ e_ServerInit (s_cp ?s), s_state := S_NORMAL\<rparr>)"
    by (rule s_loop_empty) simp
  finally show ?thesis using assms
    by (auto simp: served_def s_approved_def server_at_def result_bytes_def beforeVersion_def server_fields)
qed

lemma server_on_start: "server_on env p33 maxCutText input = snd (s_loop env maxCutText ((server_start p33)\<lparr>w_in := input\<rparr>))"
  by (simp add: server_on_def server_start_def)

lemma server_on_nothing: "w_out (server_on env p33 maxCutText []) = version_bytes (default_minor p33)"
  by (simp add: server_on_start s_loop_empty server_start)

lemma server_on_38:
  assumes "env_accepts env"
  shows "w_out (server_on env p33 maxCutText (version_bytes 8)) =
    version_bytes (default_minor p33) @ of_nat (length (offer env)) # offer env"
  using version_message_38 [OF assms, of maxCutText "[]" p33]
  by (simp add: server_on_start s_loop_empty server_at_def)

text \<open>Everything the server writes before its initialisation, and reads, for each version and type.\<close>

definition server_offers :: "SEnv \<Rightarrow> int \<Rightarrow> int \<Rightarrow> u8 list" where
  "server_offers env m t = (if m = 8 then of_nat (length (offer env)) # offer env else e_U32 (of_int t))"

definition client_chooses :: "int \<Rightarrow> int \<Rightarrow> u8 list" where
  "client_chooses m t = version_bytes m @ (if m = 8 then [of_int t] else [])"

lemma server_security:
  assumes "env_accepts env" and "m = 3 \<or> m = 8" and "t \<in> set (getSecTypes (env_types env))"
    and "m = 3 \<Longrightarrow> hd (getSecTypes (env_types env)) = t"
    and "s_processSecurityMsg env (server_at p33 m S_SECURITY (Some (security_of t)) (server_offers env m t) bs) = (Inr (), s')"
  shows "server_on env p33 maxCutText (client_chooses m t @ bs) = snd (s_loop env maxCutText s')"
proof (cases "m = 8")
  case True
  then show ?thesis
    using type_message [OF assms(3), of p33 "server_offers env m t" bs s'] version_message_38 [OF assms(1)] assms(5)
    by (simp add: server_on_start client_chooses_def server_offers_def)
next
  case False
  then have m: "m = 3" using assms(2) by simp
  then obtain ts where "getSecTypes (env_types env) = t # ts" using assms(3,4) by (cases "getSecTypes (env_types env)") auto
  then show ?thesis
    using version_message_33 [OF assms(1), of t ts p33 bs s'] assms(5) m
    by (simp add: server_on_start client_chooses_def server_offers_def)
qed

lemma server_none:
  assumes "env_accepts env" and "m = 3 \<or> m = 8" and "secTypeNone \<in> set (getSecTypes (env_types env))"
    and "m = 3 \<Longrightarrow> hd (getSecTypes (env_types env)) = secTypeNone"
  shows "w_out (server_on env p33 maxCutText (client_chooses m secTypeNone)) =
      version_bytes (default_minor p33) @ server_offers env m secTypeNone @ result_bytes m SSecurityNone"
    and "server_on env p33 maxCutText (client_chooses m secTypeNone @ [b]) =
      served env p33 m SSecurityNone (server_offers env m secTypeNone @ result_bytes m SSecurityNone)"
proof -
  have s: "security_of secTypeNone = SSecurityNone" by (simp add: security_of_def)
  have a: "s_processSecurityMsg env (server_at p33 m S_SECURITY (Some SSecurityNone) out bs) =
      (Inr (), s_approved env (server_at p33 m S_SECURITY (Some SSecurityNone) out bs))" for out bs
    by (rule security_accepts_none [OF assms(1)]) (simp add: server_at_def)
  have on: "server_on env p33 maxCutText (client_chooses m secTypeNone @ bs) =
      snd (s_loop env maxCutText (s_approved env (server_at p33 m S_SECURITY (Some SSecurityNone) (server_offers env m secTypeNone) bs)))" for bs
    by (rule server_security [OF assms, unfolded s, OF _ a])
  show "w_out (server_on env p33 maxCutText (client_chooses m secTypeNone)) =
      version_bytes (default_minor p33) @ server_offers env m secTypeNone @ result_bytes m SSecurityNone"
    using on [of "[]"] approved_waits [OF assms(2)] by simp
  show "server_on env p33 maxCutText (client_chooses m secTypeNone @ [b]) =
      served env p33 m SSecurityNone (server_offers env m secTypeNone @ result_bytes m SSecurityNone)"
    using on [of "[b]"] approved_serves [OF assms(2)] by simp
qed

lemma server_vnc:
  assumes "env_accepts env" and "m = 3 \<or> m = 8" and "secTypeVncAuth \<in> set (getSecTypes (env_types env))"
    and "m = 3 \<Longrightarrow> hd (getSecTypes (env_types env)) = secTypeVncAuth" and "env_passwd env = Some pwd"
  defines "r \<equiv> vnc_response pwd (env_random env)"
  shows "w_out (server_on env p33 maxCutText (client_chooses m secTypeVncAuth)) =
      version_bytes (default_minor p33) @ server_offers env m secTypeVncAuth @ env_random env"
    and "w_out (server_on env p33 maxCutText (client_chooses m secTypeVncAuth @ r)) =
      version_bytes (default_minor p33) @ server_offers env m secTypeVncAuth @ env_random env @ e_U32 0"
    and "server_on env p33 maxCutText (client_chooses m secTypeVncAuth @ r @ [b]) =
      served env p33 m (answered env r) (server_offers env m secTypeVncAuth @ env_random env @ e_U32 0)"
proof -
  let ?out = "server_offers env m secTypeVncAuth"
  have s: "security_of secTypeVncAuth = SSecurityVnc newSSecurityVncAuth"
    by (simp add: security_of_def secTypeNone_def secTypeVncAuth_def)
  have a: "s_processSecurityMsg env (server_at p33 m S_SECURITY (Some (SSecurityVnc newSSecurityVncAuth)) out bs) =
      (Inr (), server_at p33 m S_SECURITY (Some (challenged env)) (out @ env_random env) bs)" for out bs
    using security_challenges [of "server_at p33 m S_SECURITY (Some (SSecurityVnc newSSecurityVncAuth)) out bs" env]
    by (simp add: server_at_def server_fields)
  have on: "server_on env p33 maxCutText (client_chooses m secTypeVncAuth @ bs) =
      snd (s_loop env maxCutText (server_at p33 m S_SECURITY (Some (challenged env)) (?out @ env_random env) bs))" for bs
    by (rule server_security [OF assms(1-4), unfolded s, OF _ a])
  have c: "s_loop env maxCutText (server_at p33 m S_SECURITY (Some (challenged env)) out (r @ bs)) =
      s_loop env maxCutText (s_approved env (server_at p33 m S_SECURITY (Some (answered env r)) out bs))" for out bs
  proof (rule s_loop_step)
    show "s_processMsg env maxCutText (server_at p33 m S_SECURITY (Some (challenged env)) out (r @ bs)) =
        (Inr (), s_approved env (server_at p33 m S_SECURITY (Some (answered env r)) out bs))"
      using security_accepts_vnc [OF assms(1), of "server_at p33 m S_SECURITY (Some (challenged env)) out (r @ bs)" pwd bs] assms(5)
      by (simp add: s_processMsg_def getting_def server_at_def r_def server_fields)
    have "r @ bs \<noteq> []" using length_vnc_response [of pwd "env_random env"] unfolding r_def by fastforce
    then show "w_in (server_at p33 m S_SECURITY (Some (challenged env)) out (r @ bs)) \<noteq> []" by (simp add: server_at_def)
  qed
  have ne: "result_bytes m (answered env r) = e_U32 0" by (simp add: result_bytes_def answered_def)
  show "w_out (server_on env p33 maxCutText (client_chooses m secTypeVncAuth)) =
      version_bytes (default_minor p33) @ ?out @ env_random env"
    using on [of "[]"] by (simp add: s_loop_empty server_at_def)
  show "w_out (server_on env p33 maxCutText (client_chooses m secTypeVncAuth @ r)) =
      version_bytes (default_minor p33) @ ?out @ env_random env @ e_U32 0"
    using on [of r] c [of _ "[]"] approved_waits [OF assms(2)] by (simp add: ne)
  show "server_on env p33 maxCutText (client_chooses m secTypeVncAuth @ r @ [b]) =
      served env p33 m (answered env r) (?out @ env_random env @ e_U32 0)"
    using on [of "r @ [b]"] c [of _ "[b]"] approved_serves [OF assms(2)] by (simp add: ne)
qed

subsection \<open>The client's steps\<close>

text \<open>The client in its states of the handshake: \<open>v\<close> is the server's version, \<open>m\<close> the agreed one.\<close>

definition client_at :: "client_config \<Rightarrow> int \<Rightarrow> int \<Rightarrow> cstate \<Rightarrow> int option \<Rightarrow> u8 list \<Rightarrow> u8 list \<Rightarrow> CConnection" where
  "client_at cfg v m st sec written bs =
     (client_start cfg)\<lparr>w_in := bs, w_out := version_bytes m @ written, c_cp := version_cp m v, c_state := st, c_security := sec\<rparr>"

lemma client_start:
  "w_out (client_start cfg) = []" "c_state (client_start cfg) = C_PROTOCOL_VERSION" "c_cp (client_start cfg) = newConnParams"
  "c_security (client_start cfg) = None" "c_secTypes (client_start cfg) = cfg_types cfg"
  "clientSecTypeOrder (client_start cfg) = cfg_order cfg" "c_shared (client_start cfg) = cfg_shared cfg"
  "useProtocol3_3 (client_start cfg) = cfg_use33 cfg"
  by (simp_all add: client_start_def c_initialiseProtocol_def c_set_state_def modify_def newCConnection_def)

lemma client_fields:
  "(c :: CConnection)\<lparr>w_out := b, w_in := a\<rparr> = c\<lparr>w_in := a, w_out := b\<rparr>"
  "(c :: CConnection)\<lparr>c_cp := d, w_in := a\<rparr> = c\<lparr>w_in := a, c_cp := d\<rparr>"
  "(c :: CConnection)\<lparr>c_cp := d, w_out := b\<rparr> = c\<lparr>w_out := b, c_cp := d\<rparr>"
  "(c :: CConnection)\<lparr>c_state := st, w_in := a\<rparr> = c\<lparr>w_in := a, c_state := st\<rparr>"
  "(c :: CConnection)\<lparr>c_state := st, w_out := b\<rparr> = c\<lparr>w_out := b, c_state := st\<rparr>"
  "(c :: CConnection)\<lparr>c_state := st, c_cp := d\<rparr> = c\<lparr>c_cp := d, c_state := st\<rparr>"
  "(c :: CConnection)\<lparr>c_security := sec, w_in := a\<rparr> = c\<lparr>w_in := a, c_security := sec\<rparr>"
  "(c :: CConnection)\<lparr>c_security := sec, w_out := b\<rparr> = c\<lparr>w_out := b, c_security := sec\<rparr>"
  "(c :: CConnection)\<lparr>c_security := sec, c_cp := d\<rparr> = c\<lparr>c_cp := d, c_security := sec\<rparr>"
  "(c :: CConnection)\<lparr>c_security := sec, c_state := st\<rparr> = c\<lparr>c_state := st, c_security := sec\<rparr>"
  by simp_all

lemma c_loop_step:
  assumes "c_processMsg passwd readMsg c = (Inr u, c')" and "w_in c \<noteq> []"
  shows "c_loop passwd readMsg (Suc n) c = c_loop passwd readMsg n c'"
  using assms by simp

lemma c_loop_stop:
  assumes "c_processMsg passwd readMsg c = (Inl e, c')" and "w_in c \<noteq> []"
  shows "c_loop passwd readMsg (Suc n) c = c'"
  using assms by simp

lemma c_loop_empty: "w_in c = [] \<Longrightarrow> c_loop passwd readMsg n c = c"
  by (cases n) simp_all

definition agreed_minor :: "client_config \<Rightarrow> bool \<Rightarrow> int" where
  "agreed_minor cfg p33 = (if p33 \<or> cfg_use33 cfg then 3 else 8)"

lemma client_version_message:
  shows "c_loop passwd readMsg (Suc n) ((client_start cfg)\<lparr>w_in := version_bytes (default_minor p33) @ bs\<rparr>) =
    c_loop passwd readMsg n (client_at cfg (default_minor p33) (agreed_minor cfg p33) C_SECURITY_TYPES None [] bs)"
proof (rule c_loop_step)
  let ?v = "default_minor p33" and ?m = "agreed_minor cfg p33"
  have v: "?v = 3 \<or> ?v = 8" by (simp add: default_minor_def)
  have "cp_readVersion newConnParams (version_bytes ?v @ bs) = ((True, True), version_cp ?v ?v, bs)"
    using read_version_bytes [OF _ v, of newConnParams bs] by (simp add: version_cp_def newConnParams_def)
  moreover have "client_version (cfg_use33 cfg) (version_cp ?v ?v) = version_cp ?m ?v"
    by (auto simp: client_version_def beforeVersion_def afterVersion_def agreed_minor_def default_minor_def)
       (simp_all add: version_cp_def setVersion_def)
  moreover have "\<not> beforeVersion (version_cp ?v ?v) 3 3" by (simp add: beforeVersion_def default_minor_def)
  ultimately show "c_processMsg passwd readMsg ((client_start cfg)\<lparr>w_in := version_bytes ?v @ bs\<rparr>) =
      (Inr (), client_at cfg ?v ?m C_SECURITY_TYPES None [] bs)"
    by (simp add: c_processMsg_def c_processVersionMsg_def act_simps client_start c_set_cp_def c_set_state_def wr_def
        client_at_def client_fields writeVersion_bytes SConnection.equality Let_def CConnection.equality)
  show "w_in ((client_start cfg)\<lparr>w_in := version_bytes ?v @ bs\<rparr>) \<noteq> []"
    using version_nonempty [OF v] by simp
qed

definition chose :: "int \<Rightarrow> int \<Rightarrow> u8 list" where
  "chose m t = (if m = 8 then [of_int t] else [])"

text \<open>The client agrees to type \<open>t\<close>, given what the server offers.\<close>

definition agrees :: "client_config \<Rightarrow> SEnv \<Rightarrow> int \<Rightarrow> int \<Rightarrow> bool" where
  "agrees cfg env m t \<longleftrightarrow>
     (if m = 8 then chosen_type (cfg_order cfg) (cfg_types cfg) (offer env) = t else t \<in> uint ` set (cfg_types cfg))"

lemma seqA_single [simp]: "seqA [m] = m"
  by (rule ext) (auto simp: act_simps split: prod.split sum.split)

lemma result_id [simp]:
  "(case r of (Inl e, s) \<Rightarrow> (Inl e, s) | (Inr x, s) \<Rightarrow> (Inr (), s)) = (r :: (conn_error + unit) \<times> 's)"
  by (auto split: prod.split sum.split)

lemma p_list_bytes: "p_list p_U8 (length xs) (xs @ bs) = Inr (xs, bs)"
  using p_list_e [of xs p_U8 "\<lambda>x. [x]" bs] by simp

lemma types_message:
  assumes "m = 3 \<or> m = 8" and "t = secTypeNone \<or> t = secTypeVncAuth" and "agrees cfg env m t" and "length (env_types env) < 255"
  shows "c_processMsg passwd readMsg (client_at cfg v m C_SECURITY_TYPES None [] (server_offers env m t @ bs)) =
    c_processSecurityMsg passwd (client_at cfg v m C_SECURITY (Some t) (chose m t) bs)"
proof -
  have t: "t \<noteq> secTypeInvalid" using assms(2) by (auto simp: secTypeNone_def secTypeVncAuth_def secTypeInvalid_def)
  show ?thesis
  proof (cases "m = 8")
    case True
    have "length (getSecTypes (env_types env)) \<le> length (env_types env)" by (simp add: getSecTypes_def)
    then have l: "length (offer env) < 256" "0 < length (offer env)" using assms(4) by (simp_all add: offer_def)
    then have n: "unat (of_nat (length (offer env)) :: u8) = length (offer env)" by (simp add: unat_of_nat)
    then have "(of_nat (length (offer env)) :: u8) \<noteq> 0" using l by (metis unat_0 less_irrefl)
    then show ?thesis using True assms t n
      by (simp add: c_processMsg_def c_processSecurityTypesMsg_def c_readSecTypes_def act_simps rd_def wr_def client_at_def
          isVersion_def server_offers_def p_list_bytes agrees_def client_start c_set_state_def getCSecurity_def chose_def
          client_fields Let_def)
  next
    case False
    then have m: "m = 3" using assms(1) by simp
    have "sint (of_int t :: u32) = t" using assms(2) by (auto simp: secTypeNone_def secTypeVncAuth_def)
    then show ?thesis using m assms t
      by (simp add: c_processMsg_def c_processSecurityTypesMsg_def c_readSecType33_def act_simps rd_def client_at_def
          isVersion_def server_offers_def agrees_def client_start c_set_state_def getCSecurity_def chose_def
          client_fields Let_def)
  qed
qed

definition completed :: "client_config \<Rightarrow> int \<Rightarrow> int \<Rightarrow> int \<Rightarrow> u8 list \<Rightarrow> u8 list \<Rightarrow> CConnection" where
  "completed cfg v m t written bs =
     (client_at cfg v m C_INITIALISATION (Some t) (written @ writeClientInit (cfg_shared cfg)) bs)\<lparr>c_streams := True\<rparr>"

lemma e_U32_nonempty: "e_U32 u @ bs \<noteq> []"
  by (simp add: e_U32_def)

lemma result_ok:
  assumes "m = 3 \<or> m = 8"
  shows "c_processSecurityResultMsg (client_at cfg v m C_SECURITY_RESULT (Some t) written (e_U32 0 @ bs)) =
    (Inr (), completed cfg v m t written (if m = 3 \<and> t = secTypeNone then e_U32 0 @ bs else bs))"
  using assms e_U32_nonempty [of 0 bs]
  by (auto simp: c_processSecurityResultMsg_def act_simps rd_def client_at_def c_securityResult_def c_securityCompleted_def
      c_set_state_def writeClientInit_act_def wr_def completed_def client_start beforeVersion_def client_fields)

lemma result_none_33:
  "c_processSecurityResultMsg (client_at cfg v 3 C_SECURITY_RESULT (Some secTypeNone) written bs) =
    (Inr (), completed cfg v 3 secTypeNone written bs)"
  by (simp add: c_processSecurityResultMsg_def act_simps rd_def client_at_def c_securityResult_def c_securityCompleted_def
      c_set_state_def writeClientInit_act_def wr_def completed_def client_start beforeVersion_def client_fields)

lemma result_waits:
  assumes "m = 8 \<or> m = 3 \<and> t \<noteq> secTypeNone"
  shows "c_processSecurityResultMsg (client_at cfg v m C_SECURITY_RESULT (Some t) written []) =
    (Inr (), client_at cfg v m C_SECURITY_RESULT (Some t) written [])"
  using assms by (auto simp: c_processSecurityResultMsg_def act_simps client_at_def beforeVersion_def)

lemma security_msg_none:
  "c_processSecurityMsg passwd (client_at cfg v m C_SECURITY (Some secTypeNone) written bs) =
   c_processSecurityResultMsg (client_at cfg v m C_SECURITY_RESULT (Some secTypeNone) written bs)"
  by (simp add: c_processSecurityMsg_def c_security_step_def act_simps client_at_def c_set_state_def client_fields
      secTypeNone_def secTypeVncAuth_def)

lemma security_msg_vnc:
  assumes "length r = 16"
  shows "c_processSecurityMsg passwd (client_at cfg v m C_SECURITY (Some secTypeVncAuth) written (r @ bs)) =
   c_processSecurityResultMsg (client_at cfg v m C_SECURITY_RESULT (Some secTypeVncAuth) (written @ vnc_response passwd r) bs)"
  using p_bytes_e [of r bs] assms
  by (simp add: c_processSecurityMsg_def c_security_step_def csec_processMsg_def act_simps rd_def wr_def client_at_def
      c_set_state_def client_fields)

lemma security_msg_vnc_waits:
  "c_processSecurityMsg passwd (client_at cfg v m C_SECURITY (Some secTypeVncAuth) written []) =
    (Inl (StreamError EndOfStream), client_at cfg v m C_SECURITY (Some secTypeVncAuth) written [])"
  by (simp add: c_processSecurityMsg_def c_security_step_def csec_processMsg_def act_simps rd_def client_at_def p_bytes_def p_take_def)

text \<open>What of the server's desktop can be sent.\<close>

definition env_on_wire :: "SEnv \<Rightarrow> bool" where
  "env_on_wire env \<longleftrightarrow> 0 \<le> env_width env \<and> env_width env < 65536 \<and> 0 \<le> env_height env \<and> env_height env < 65536 \<and>
     pf_on_wire (env_pf env) \<and> length (cstr (env_name env)) \<le> 65535 \<and> length (env_types env) < 255"

definition joined :: "client_config \<Rightarrow> SEnv \<Rightarrow> int \<Rightarrow> int \<Rightarrow> int \<Rightarrow> u8 list \<Rightarrow> CConnection" where
  "joined cfg env v m t written =
     (completed cfg v m t written [])\<lparr>c_cp := env_cp env (version_cp m v), c_state := C_NORMAL\<rparr>"

lemma cstr_idem: "cstr (cstr s) = cstr s"
  unfolding cstr_def by (subst takeWhile_eq_all_conv) (auto dest: set_takeWhileD)

lemma init_joins:
  assumes "env_accepts env" and "env_on_wire env"
  shows "c_loop passwd readMsg (Suc n) (completed cfg v m t written (e_ServerInit (env_cp env (version_cp m m)))) =
    joined cfg env v m t written"
proof -
  let ?cp = "env_cp env (version_cp m m)"
  have cp: "cp_width ?cp = env_width env" "cp_height ?cp = env_height env" "cp_pf ?cp = env_pf env" "cp_name ?cp = cstr (env_name env)"
    by (simp_all add: env_cp_def cp_setPF_def cp_setName_def)
  have w: "uint (of_int (env_width env) :: u16) = env_width env" "uint (of_int (env_height env) :: u16) = env_height env"
    using assms(2) by (simp_all add: env_on_wire_def uint_of_int_u16)
  have pf: "p_PixelFormat (e_PixelFormat (env_pf env) @ bs) = Inr (env_pf env, bs)" for bs
    using assms(2) by (intro p_PixelFormat_e) (simp add: env_on_wire_def)
  have n: "takeWhile (\<lambda>c. c \<noteq> 0) (cstr (env_name env)) = cstr (env_name env)"
    using cstr_idem [of "env_name env"] by (simp only: cstr_def [of "cstr _"])
  have "strlen (cstr (env_name env)) \<le> 65535" unfolding strlen_def n using assms(2) by (simp add: env_on_wire_def)
  then have name: "p_string (e_string (cstr (env_name env))) = Inr (cstr (env_name env), [])"
    using p_string_e [of "cstr (env_name env)" "[]"] unfolding n by simp
  have ok: "fst (cp_setPF (env_pf env) newConnParams)" using assms(1) by (simp add: env_accepts_def)
  have "c_processMsg passwd readMsg (completed cfg v m t written (e_ServerInit ?cp)) = (Inr (), joined cfg env v m t written)"
    by (simp add: c_processMsg_def c_readServerInit_def act_simps rd_def completed_def client_at_def e_ServerInit_def cp w pf name ok
        c_set_cp_def c_set_state_def joined_def client_fields)
       (simp add: env_cp_def cp_setPF_def cp_setName_def cstr_idem CConnection.equality)
  moreover have "e_ServerInit ?cp \<noteq> []" by (simp add: e_ServerInit_def e_U16_def)
  then have "w_in (completed cfg v m t written (e_ServerInit ?cp)) \<noteq> []" by (simp add: completed_def client_at_def)
  moreover have "w_in (joined cfg env v m t written) = []" by (simp add: joined_def completed_def client_at_def)
  ultimately show ?thesis by (simp add: c_loop_empty)
qed

lemma client_on_version:
  "client_on cfg readMsg (Suc n) (version_bytes (default_minor p33) @ bs) =
   c_loop (cfg_passwd cfg) readMsg n (client_at cfg (default_minor p33) (agreed_minor cfg p33) C_SECURITY_TYPES None [] bs)"
  by (simp only: client_on_def client_version_message)

lemma client_on_types:
  assumes "m = agreed_minor cfg p33" and "t = secTypeNone \<or> t = secTypeVncAuth" and "agrees cfg env m t" and "env_on_wire env"
    and "c_processSecurityMsg (cfg_passwd cfg) (client_at cfg (default_minor p33) m C_SECURITY (Some t) (chose m t) bs) = (r, c)"
  shows "client_on cfg readMsg (Suc (Suc n)) (version_bytes (default_minor p33) @ server_offers env m t @ bs) =
    (case r of Inr _ \<Rightarrow> c_loop (cfg_passwd cfg) readMsg n c | Inl _ \<Rightarrow> c)"
proof -
  have m: "m = 3 \<or> m = 8" using assms(1) by (simp add: agreed_minor_def)
  let ?c = "client_at cfg (default_minor p33) m C_SECURITY_TYPES None [] (server_offers env m t @ bs)"
  have "length (env_types env) < 255" using assms(4) by (simp add: env_on_wire_def)
  from types_message [OF m assms(2,3) this, where passwd = "cfg_passwd cfg" and v = "default_minor p33" and bs = bs] assms(5)
  have "c_processMsg (cfg_passwd cfg) readMsg ?c = (r, c)" by simp
  moreover have "w_in ?c \<noteq> []" by (simp add: client_at_def server_offers_def e_U32_def)
  ultimately have "c_loop (cfg_passwd cfg) readMsg (Suc n) ?c =
      (case r of Inr _ \<Rightarrow> c_loop (cfg_passwd cfg) readMsg n c | Inl _ \<Rightarrow> c)"
    by (cases r) simp_all
  then show ?thesis using client_on_version [of cfg readMsg "Suc n" p33] assms(1) by simp
qed

lemma completed_out [simp]: "w_out (completed cfg v m t written bs) = version_bytes m @ written @ writeClientInit (cfg_shared cfg)"
  "w_in (completed cfg v m t written bs) = bs"
  "w_out (joined cfg env v m t written) = version_bytes m @ written @ writeClientInit (cfg_shared cfg)"
  by (simp_all add: completed_def client_at_def joined_def)

lemma client_at_out [simp]: "w_out (client_at cfg v m st sec written bs) = version_bytes m @ written"
  "w_in (client_at cfg v m st sec written bs) = bs"
  by (simp_all add: client_at_def)

lemma client_on_nothing: "w_out (client_on cfg readMsg n []) = []"
  by (simp add: client_on_def c_loop_empty client_start)

lemma client_on_only_version: "w_out (client_on cfg readMsg (Suc n) (version_bytes (default_minor p33))) = version_bytes (agreed_minor cfg p33)"
  using client_on_version [of cfg readMsg n p33 "[]"] by (simp add: c_loop_empty)

subsection \<open>The two ends together\<close>

definition server_says :: "SEnv \<Rightarrow> bool \<Rightarrow> int \<Rightarrow> u8 list \<Rightarrow> u8 list" where
  "server_says env p33 maxCutText input = w_out (server_on env p33 maxCutText input)"

definition client_says :: "client_config \<Rightarrow> (CConnection, unit) act \<Rightarrow> u8 list \<Rightarrow> u8 list" where
  "client_says cfg readMsg input = w_out (client_on cfg readMsg 5 input)"

text \<open>The handshake ends with both ends in the normal state, \<open>joined\<close> and \<open>served\<close>.\<close>

definition meet :: "client_config \<Rightarrow> (CConnection, unit) act \<Rightarrow> SEnv \<Rightarrow> bool \<Rightarrow> int \<Rightarrow> int \<Rightarrow> int \<Rightarrow> bool" where
  "meet cfg readMsg env p33 maxCutText m t \<longleftrightarrow>
     (\<exists>ci si sec out out'. exchange (server_says env p33 maxCutText) (client_says cfg readMsg) 10 = (ci, si) \<and>
        client_on cfg readMsg 5 ci = joined cfg env (default_minor p33) m t out \<and>
        server_on env p33 maxCutText si = served env p33 m sec out' \<and> ssec_type sec = t)"

lemma chooses_chose: "client_chooses m t = version_bytes m @ chose m t"
  by (simp add: client_chooses_def chose_def)

lemma served_out: "w_out (served env p33 m sec out) = version_bytes (default_minor p33) @ out @ e_ServerInit (env_cp env (version_cp m m))"
  by (simp add: served_def server_at_def)

lemma client_after_result:
  assumes "env_accepts env" and "env_on_wire env"
    and "\<And>bs. client_on cfg readMsg 5 (pre @ bs) = c_loop (cfg_passwd cfg) readMsg (Suc n) (completed cfg v m t w bs)"
  shows "client_on cfg readMsg 5 (pre @ e_ServerInit (env_cp env (version_cp m m))) = joined cfg env v m t w"
    and "client_says cfg readMsg pre = version_bytes m @ w @ writeClientInit (cfg_shared cfg)"
    and "client_says cfg readMsg (pre @ e_ServerInit (env_cp env (version_cp m m))) =
      version_bytes m @ w @ writeClientInit (cfg_shared cfg)"
  using assms(3) [of "[]"] assms(3) [of "e_ServerInit (env_cp env (version_cp m m))"] init_joins [OF assms(1,2)]
  by (simp_all add: client_says_def c_loop_empty del: c_loop.simps)

lemma meet_none:
  assumes "env_accepts env" and "env_on_wire env" and m: "m = agreed_minor cfg p33"
    and "secTypeNone \<in> set (getSecTypes (env_types env))" and "m = 3 \<Longrightarrow> hd (getSecTypes (env_types env)) = secTypeNone"
    and "agrees cfg env m secTypeNone"
  shows "meet cfg readMsg env p33 maxCutText m secTypeNone"
proof -
  let ?F = "server_says env p33 maxCutText" and ?G = "client_says cfg readMsg" and ?v = "default_minor p33"
  let ?V = "version_bytes ?v" and ?S = "server_offers env m secTypeNone" and ?t = "secTypeNone"
  let ?R = "result_bytes m SSecurityNone" and ?SI = "e_ServerInit (env_cp env (version_cp m m))"
  have m38: "m = 3 \<or> m = 8" using m by (simp add: agreed_minor_def)
  have F0: "?F [] = ?V" by (simp add: server_says_def server_on_nothing)
  have G0: "?G [] = []" by (simp add: client_says_def client_on_nothing)
  have G1: "?G ?V = version_bytes m" using client_on_only_version [of cfg readMsg 4 p33] m by (simp add: client_says_def)
  note srv = server_none [OF assms(1) m38 assms(4,5), where maxCutText = maxCutText, of p33, unfolded chooses_chose]
  have F2: "?F (version_bytes m @ chose m ?t) = ?V @ ?S @ ?R" using srv(1) by (simp add: server_says_def)
  obtain b where b: "writeClientInit (cfg_shared cfg) = [b]" by (simp add: writeClientInit_def)
  have end_s: "server_on env p33 maxCutText (version_bytes m @ chose m ?t @ [b]) = served env p33 m SSecurityNone (?S @ ?R)"
    using srv(2) by simp
  then have F3: "?F (version_bytes m @ chose m ?t @ [b]) = ?V @ ?S @ ?R @ ?SI" by (simp add: server_says_def served_out)
  have done_c: "client_on cfg readMsg 5 ((?V @ ?S @ ?R) @ bs) =
      c_loop (cfg_passwd cfg) readMsg (Suc 2) (completed cfg ?v m ?t (chose m ?t) bs)" for bs
  proof -
    have "c_processSecurityMsg (cfg_passwd cfg) (client_at cfg ?v m C_SECURITY (Some ?t) (chose m ?t) (?R @ bs)) =
        (Inr (), completed cfg ?v m ?t (chose m ?t) bs)"
      using m38 by (auto simp: security_msg_none result_none_33 result_ok result_bytes_def)
    from client_on_types [OF m _ assms(6,2) this, of readMsg 3] show ?thesis
      by (simp add: numeral_3_eq_3 eval_nat_numeral del: c_loop.simps)
  qed
  note cl = client_after_result [OF assms(1,2) done_c]
  have G3: "?G (?V @ ?S @ ?R) = version_bytes m @ chose m ?t @ [b]" using cl(2) b by simp
  have G4: "?G (?V @ ?S @ ?R @ ?SI) = version_bytes m @ chose m ?t @ [b]" using cl(3) b by simp
  have end_c: "client_on cfg readMsg 5 (?V @ ?S @ ?R @ ?SI) = joined cfg env ?v m ?t (chose m ?t)" using cl(1) by simp
  have "exchange ?F ?G 10 = (?V @ ?S @ ?R @ ?SI, version_bytes m @ chose m ?t @ [b])"
  proof (cases "m = 8")
    case True
    have F1: "?F (version_bytes m) = ?V @ ?S" using server_on_38 [OF assms(1), of p33 maxCutText] True
      by (simp add: server_says_def server_offers_def)
    have "c_processSecurityMsg (cfg_passwd cfg) (client_at cfg ?v m C_SECURITY (Some ?t) (chose m ?t) []) =
        (Inr (), client_at cfg ?v m C_SECURITY_RESULT (Some ?t) (chose m ?t) [])"
      using True by (simp add: security_msg_none result_waits)
    from client_on_types [OF m _ assms(6,2) this, of readMsg 3]
    have G2: "?G (?V @ ?S) = version_bytes m @ chose m ?t"
      by (simp add: client_says_def c_loop_empty del: c_loop.simps)
    show ?thesis by (rule exchange_ladder [OF F0 G0 G1 F1 G2 F2 G3 F3 G4 F3 G4])
  next
    case False
    then have R: "?R = []" and ch: "chose m ?t = []" by (simp_all add: result_bytes_def chose_def)
    have F1: "?F (version_bytes m) = ?V @ ?S @ ?R" using F2 unfolding ch by simp
    show ?thesis by (rule exchange_ladder [OF F0 G0 G1 F1 G3 F3 G4 F3 G4 F3 G4])
  qed
  moreover have "ssec_type SSecurityNone = ?t" by (simp add: ssec_type_def)
  ultimately show ?thesis unfolding meet_def using end_c end_s by blast
qed

lemma meet_vnc:
  assumes "env_accepts env" and "env_on_wire env" and m: "m = agreed_minor cfg p33"
    and "secTypeVncAuth \<in> set (getSecTypes (env_types env))" and "m = 3 \<Longrightarrow> hd (getSecTypes (env_types env)) = secTypeVncAuth"
    and "agrees cfg env m secTypeVncAuth" and pwd: "env_passwd env = Some pwd" "key8 pwd = key8 (cfg_passwd cfg)"
    and random: "length (env_random env) = 16"
  shows "meet cfg readMsg env p33 maxCutText m secTypeVncAuth"
proof -
  let ?F = "server_says env p33 maxCutText" and ?G = "client_says cfg readMsg" and ?v = "default_minor p33"
  let ?V = "version_bytes ?v" and ?S = "server_offers env m secTypeVncAuth" and ?t = "secTypeVncAuth"
  let ?N = "env_random env" and ?R = "vnc_response pwd (env_random env)" and ?SI = "e_ServerInit (env_cp env (version_cp m m))"
  have m38: "m = 3 \<or> m = 8" using m by (simp add: agreed_minor_def)
  have resp: "vnc_response (cfg_passwd cfg) ?N = ?R" using pwd(2) by (simp add: vnc_response_def)
  have F0: "?F [] = ?V" by (simp add: server_says_def server_on_nothing)
  have G0: "?G [] = []" by (simp add: client_says_def client_on_nothing)
  have G1: "?G ?V = version_bytes m" using client_on_only_version [of cfg readMsg 4 p33] m by (simp add: client_says_def)
  note srv = server_vnc [OF assms(1) m38 assms(4,5) pwd(1), where maxCutText = maxCutText, of p33, unfolded chooses_chose]
  have F2: "?F (version_bytes m @ chose m ?t) = ?V @ ?S @ ?N" using srv(1) by (simp add: server_says_def)
  have F3: "?F (version_bytes m @ chose m ?t @ ?R) = ?V @ ?S @ ?N @ e_U32 0" using srv(2) by (simp add: server_says_def)
  obtain b where b: "writeClientInit (cfg_shared cfg) = [b]" by (simp add: writeClientInit_def)
  have end_s: "server_on env p33 maxCutText (version_bytes m @ chose m ?t @ ?R @ [b]) =
      served env p33 m (answered env ?R) (?S @ ?N @ e_U32 0)"
    using srv(3) by simp
  then have F4: "?F (version_bytes m @ chose m ?t @ ?R @ [b]) = ?V @ ?S @ ?N @ e_U32 0 @ ?SI"
    by (simp add: server_says_def served_out)
  have sec: "c_processSecurityMsg (cfg_passwd cfg) (client_at cfg ?v m C_SECURITY (Some ?t) (chose m ?t) (?N @ bs)) =
      c_processSecurityResultMsg (client_at cfg ?v m C_SECURITY_RESULT (Some ?t) (chose m ?t @ ?R) bs)" for bs
    using security_msg_vnc [OF random] by (simp add: resp)
  have t: "?t \<noteq> secTypeNone" by (simp add: secTypeNone_def secTypeVncAuth_def)
  have "c_processSecurityMsg (cfg_passwd cfg) (client_at cfg ?v m C_SECURITY (Some ?t) (chose m ?t) (?N @ [])) =
      (Inr (), client_at cfg ?v m C_SECURITY_RESULT (Some ?t) (chose m ?t @ ?R) [])"
    unfolding sec using m38 t by (intro result_waits) auto
  from client_on_types [OF m _ assms(6,2) this, of readMsg 3]
  have G3: "?G (?V @ ?S @ ?N) = version_bytes m @ chose m ?t @ ?R"
    by (simp add: client_says_def c_loop_empty del: c_loop.simps)
  have done_c: "client_on cfg readMsg 5 ((?V @ ?S @ ?N @ e_U32 0) @ bs) =
      c_loop (cfg_passwd cfg) readMsg (Suc 2) (completed cfg ?v m ?t (chose m ?t @ ?R) bs)" for bs
  proof -
    have "c_processSecurityMsg (cfg_passwd cfg) (client_at cfg ?v m C_SECURITY (Some ?t) (chose m ?t) (?N @ e_U32 0 @ bs)) =
        (Inr (), completed cfg ?v m ?t (chose m ?t @ ?R) bs)"
      unfolding sec using m38 t by (simp add: result_ok)
    from client_on_types [OF m _ assms(6,2) this, of readMsg 3] show ?thesis
      by (simp add: numeral_3_eq_3 eval_nat_numeral del: c_loop.simps)
  qed
  note cl = client_after_result [OF assms(1,2) done_c]
  have G4: "?G (?V @ ?S @ ?N @ e_U32 0) = version_bytes m @ chose m ?t @ ?R @ [b]" using cl(2) b by simp
  have G5: "?G (?V @ ?S @ ?N @ e_U32 0 @ ?SI) = version_bytes m @ chose m ?t @ ?R @ [b]" using cl(3) b by simp
  have end_c: "client_on cfg readMsg 5 (?V @ ?S @ ?N @ e_U32 0 @ ?SI) = joined cfg env ?v m ?t (chose m ?t @ ?R)"
    using cl(1) by simp
  have "exchange ?F ?G 10 = (?V @ ?S @ ?N @ e_U32 0 @ ?SI, version_bytes m @ chose m ?t @ ?R @ [b])"
  proof (cases "m = 8")
    case True
    have F1: "?F (version_bytes m) = ?V @ ?S" using server_on_38 [OF assms(1), of p33 maxCutText] True
      by (simp add: server_says_def server_offers_def)
    from client_on_types [OF m _ assms(6,2) security_msg_vnc_waits, of readMsg 3]
    have G2: "?G (?V @ ?S) = version_bytes m @ chose m ?t"
      by (simp add: client_says_def del: c_loop.simps)
    show ?thesis by (rule exchange_ladder [OF F0 G0 G1 F1 G2 F2 G3 F3 G4 F4 G5])
  next
    case False
    then have ch: "chose m ?t = []" by (simp add: chose_def)
    have F1: "?F (version_bytes m) = ?V @ ?S @ ?N" using F2 unfolding ch by simp
    show ?thesis by (rule exchange_ladder [OF F0 G0 G1 F1 G3 F3 G4 F4 G5 F4 G5])
  qed
  moreover have "ssec_type (answered env ?R) = ?t" by (simp add: ssec_type_def answered_def)
  ultimately show ?thesis unfolding meet_def using end_c end_s by blast
qed

text \<open>The type that a client and a server agree on.\<close>

definition negotiated :: "client_config \<Rightarrow> SEnv \<Rightarrow> bool \<Rightarrow> int" where
  "negotiated cfg env p33 =
     (if agreed_minor cfg p33 = 8 then chosen_type (cfg_order cfg) (cfg_types cfg) (offer env)
      else case getSecTypes (env_types env) of
             [] \<Rightarrow> secTypeInvalid
           | t # _ \<Rightarrow> if t \<in> uint ` set (cfg_types cfg) then t else secTypeInvalid)"

lemma foldl_consider_offered:
  "foldl (consider_type b ts) (t, p) ss = (t', p') \<Longrightarrow> t' = t \<or> t' \<in> uint ` set ss"
proof (induction ss arbitrary: t p)
  case Nil
  then show ?case by simp
next
  case (Cons x ss)
  obtain t1 p1 where 1: "consider_type b ts (t, p) x = (t1, p1)" by fastforce
  then have "t1 = t \<or> t1 = uint x"
    by (auto simp: consider_type_def find_Some_iff split: if_splits option.splits)
  then show ?case using Cons.IH [of t1 p1] Cons.prems 1 by auto
qed

lemma negotiated_offered:
  assumes t: "negotiated cfg env p33 = secTypeNone \<or> negotiated cfg env p33 = secTypeVncAuth"
  shows "negotiated cfg env p33 \<in> set (getSecTypes (env_types env)) \<and>
    (agreed_minor cfg p33 = 3 \<longrightarrow> hd (getSecTypes (env_types env)) = negotiated cfg env p33) \<and>
    agrees cfg env (agreed_minor cfg p33) (negotiated cfg env p33)"
proof (cases "agreed_minor cfg p33 = 8")
  case True
  let ?t = "negotiated cfg env p33"
  have c: "?t = chosen_type (cfg_order cfg) (cfg_types cfg) (offer env)" using True by (simp add: negotiated_def)
  obtain p where "foldl (consider_type (cfg_order cfg) (cfg_types cfg)) (secTypeInvalid, length (cfg_types cfg)) (offer env) = (?t, p)"
    unfolding c chosen_type_def by (metis prod.collapse)
  from foldl_consider_offered [OF this] have "?t \<in> uint ` set (offer env)"
    using t by (auto simp: secTypeInvalid_def secTypeNone_def secTypeVncAuth_def)
  moreover have "uint (of_int u :: u8) = u" if "u \<in> set (getSecTypes (env_types env))" for u
    using that by (auto simp: getSecTypes_def isSecTypeSupported_def secTypeNone_def secTypeVncAuth_def)
  ultimately have "?t \<in> set (getSecTypes (env_types env))"
    using t by (auto simp: offer_def secTypeNone_def secTypeVncAuth_def secTypeTight_def)
  then show ?thesis using True c by (simp add: agrees_def)
next
  case False
  then have "agreed_minor cfg p33 = 3" by (simp add: agreed_minor_def split: if_splits)
  moreover obtain u us where "getSecTypes (env_types env) = u # us" and "u \<in> uint ` set (cfg_types cfg)" and "negotiated cfg env p33 = u"
    using t False by (auto simp: negotiated_def secTypeInvalid_def secTypeNone_def secTypeVncAuth_def split: list.splits if_splits)
  ultimately show ?thesis by (simp add: agrees_def)
qed

text \<open>C3: a client and a server of this program complete the handshake. Whatever protocol either is limited to,
  if they agree on type None or VncAuth, the passwords have the same key when it is VncAuth, and the server lets the client in, then
  after ten rounds of delivering to each what the other has written both are in the normal state with nothing left
  unread, at the same protocol version and the same security type, and the client knows the server's desktop
  size, pixel format and name.\<close>

theorem handshake_completes:
  assumes "env_accepts env" and "env_on_wire env" and "length (env_random env) = 16"
    and "negotiated cfg env p33 = secTypeNone \<or>
         negotiated cfg env p33 = secTypeVncAuth \<and> (\<exists>pwd. env_passwd env = Some pwd \<and> key8 pwd = key8 (cfg_passwd cfg))"
    and "exchange (\<lambda>i. w_out (server_on env p33 maxCutText i)) (\<lambda>i. w_out (client_on cfg readMsg 5 i)) 10 = (ci, si)"
    and "c = client_on cfg readMsg 5 ci" and "s = server_on env p33 maxCutText si"
  shows "c_state c = C_NORMAL \<and> s_state s = S_NORMAL \<and> w_in c = [] \<and> w_in s = [] \<and>
    minorVersion (c_cp c) = minorVersion (s_cp s) \<and> c_security c = map_option ssec_type (s_security s) \<and>
    cp_width (c_cp c) = env_width env \<and> cp_height (c_cp c) = env_height env \<and>
    cp_pf (c_cp c) = env_pf env \<and> cp_name (c_cp c) = cstr (env_name env)"
proof -
  let ?m = "agreed_minor cfg p33" and ?t = "negotiated cfg env p33"
  have m: "?m = 3 \<or> ?m = 8" by (simp add: agreed_minor_def)
  have t: "?t = secTypeNone \<or> ?t = secTypeVncAuth" using assms(4) by blast
  have "?t \<in> set (getSecTypes (env_types env)) \<and> (?m = 3 \<longrightarrow> hd (getSecTypes (env_types env)) = ?t) \<and> agrees cfg env ?m ?t"
    by (rule negotiated_offered [OF t])
  then have "meet cfg readMsg env p33 maxCutText ?m ?t"
    using assms(1-4) meet_none [of env ?m cfg p33] meet_vnc [of env ?m cfg p33] by metis
  then obtain sec out out' where c: "c = joined cfg env (default_minor p33) ?m ?t out" and
    s: "s = served env p33 ?m sec out'" and sec: "ssec_type sec = ?t"
    using assms(5-7) unfolding meet_def server_says_def [abs_def] client_says_def [abs_def] by auto
  show ?thesis
    by (simp add: c s sec joined_def served_def completed_def client_at_def server_at_def env_cp_def cp_setPF_def cp_setName_def)
qed

definition demo_client :: client_config where
  "demo_client = \<lparr>cfg_types = [2, 1], cfg_order = False, cfg_shared = True, cfg_use33 = False, cfg_passwd = [115, 51, 99]\<rparr>"

definition demo_vnc :: SEnv where
  "demo_vnc = demo_env\<lparr>env_passwd := Some [115, 51, 99, 0], env_name := [104, 105]\<rparr>"

theorem handshake_completes_witness:
  "\<exists>ci si. exchange (\<lambda>i. w_out (server_on demo_vnc False 0 i)) (\<lambda>i. w_out (client_on demo_client (ret ()) 5 i)) 10 = (ci, si) \<and>
     c_state (client_on demo_client (ret ()) 5 ci) = C_NORMAL \<and> s_state (server_on demo_vnc False 0 si) = S_NORMAL \<and>
     cp_name (c_cp (client_on demo_client (ret ()) 5 ci)) = [104, 105]"
proof -
  have 1: "env_accepts demo_vnc" by code_simp
  have 2: "env_on_wire demo_vnc"
    by (simp add: env_on_wire_def demo_vnc_def demo_env_def pf_on_wire_def newPixelFormat_def cstr_def)
  have 3: "length (env_random demo_vnc) = 16" by code_simp
  have "negotiated demo_client demo_vnc False = secTypeVncAuth" by code_simp
  moreover have "env_passwd demo_vnc = Some [115, 51, 99, 0]" and "key8 [115, 51, 99, 0] = key8 (cfg_passwd demo_client)"
    by code_simp+
  ultimately have 4: "negotiated demo_client demo_vnc False = secTypeNone \<or> negotiated demo_client demo_vnc False = secTypeVncAuth \<and>
      (\<exists>pwd. env_passwd demo_vnc = Some pwd \<and> key8 pwd = key8 (cfg_passwd demo_client))" by blast
  obtain ci si where e: "exchange (\<lambda>i. w_out (server_on demo_vnc False 0 i)) (\<lambda>i. w_out (client_on demo_client (ret ()) 5 i)) 10 = (ci, si)"
    by fastforce
  have "cstr (env_name demo_vnc) = [104, 105]" by code_simp
  with e handshake_completes [OF 1 2 3 4 e refl refl] show ?thesis by auto
qed

end
