(* ===== verification/Rfb_Delivery.thy ===== *)
theory Rfb_Delivery
  imports Rfb_SConnectionRun
begin

text \<open>
  The bytes of a client reach the server in pieces that depend on the network. This theory shows that the pieces do not matter to
  \<open>processMessages\<close>: a reader that has found enough bytes is not disturbed by more of them (\<open>steady\<close>), and the two that
  take what there is, of the version and of the response to a challenge, go on where they stopped.
\<close>

subsection \<open>Readers and steps that more bytes do not disturb\<close>

definition steady :: "'a parser \<Rightarrow> bool" where
  "steady p \<longleftrightarrow> (\<forall>bs later. case p bs of
     Inl e \<Rightarrow> e = EndOfStream \<or> p (bs @ later) = Inl e
   | Inr (x, rest) \<Rightarrow> p (bs @ later) = Inr (x, rest @ later))"

named_theorems steady_intros

lemma steadyI:
  assumes "\<And>bs later x rest. p bs = Inr (x, rest) \<Longrightarrow> p (bs @ later) = Inr (x, rest @ later)"
    and "\<And>bs later e. p bs = Inl e \<Longrightarrow> e \<noteq> EndOfStream \<Longrightarrow> p (bs @ later) = Inl e"
  shows "steady p"
  using assms unfolding steady_def by (auto split: sum.split) blast

lemma steadyD: "steady p \<Longrightarrow> p bs = Inr (x, rest) \<Longrightarrow> p (bs @ later) = Inr (x, rest @ later)"
  unfolding steady_def by (metis (mono_tags, lifting) case_prod_conv sum.simps(6))

lemma steady_errorD: "steady p \<Longrightarrow> p bs = Inl e \<Longrightarrow> e \<noteq> EndOfStream \<Longrightarrow> p (bs @ later) = Inl e"
  unfolding steady_def by (metis (mono_tags, lifting) sum.simps(5))

lemma steady_take [steady_intros]: "(\<And>bs later. n \<le> length bs \<Longrightarrow> f (bs @ later) = f bs) \<Longrightarrow> steady (p_take n f)"
  by (rule steadyI) (auto simp: p_take_def split: if_splits)

lemma steady_basic [steady_intros]:
  "steady p_U8" "steady p_U16" "steady p_U32" "steady (p_bytes n)" "steady (p_skip n)"
  unfolding p_U8_def p_U16_def p_U32_def p_bytes_def p_skip_def
  by (auto intro!: steady_take simp: nth_append)

lemma steady_Inr [steady_intros]: "steady (\<lambda>bs. Inr (x, bs))"
  by (rule steadyI) simp_all

lemma steady_andthen [steady_intros]:
  assumes p: "steady p" and k: "\<And>x. steady (\<lambda>bs. k (x, bs))"
  shows "steady (\<lambda>bs. andthen (p bs) k)"
proof (rule steadyI)
  fix bs later x rest assume r: "andthen (p bs) k = Inr (x, rest)"
  then obtain y bs' where y: "p bs = Inr (y, bs')" by (cases "p bs") auto
  with r have "k (y, bs') = Inr (x, rest)" by simp
  from steadyD [OF k this] steadyD [OF p y] show "andthen (p (bs @ later)) k = Inr (x, rest @ later)" by simp
next
  fix bs later e assume r: "andthen (p bs) k = Inl e" and e: "e \<noteq> EndOfStream"
  show "andthen (p (bs @ later)) k = Inl e"
  proof (cases "p bs")
    case (Inl e')
    with r steady_errorD [OF p Inl] e show ?thesis by simp
  next
    case (Inr z)
    then obtain y bs' where y: "p bs = Inr (y, bs')" by (cases z) auto
    with r have "k (y, bs') = Inl e" by simp
    from steady_errorD [OF k this e] steadyD [OF p y] show ?thesis by simp
  qed
qed

lemma steady_list [steady_intros]: "steady p \<Longrightarrow> steady (p_list p n)"
proof (induction n)
  case 0
  have "p_list p 0 = (\<lambda>bs. Inr ([], bs))" by (rule ext) simp
  then show ?case by (simp add: steady_Inr)
next
  case (Suc n)
  have "p_list p (Suc n) = (\<lambda>bs. andthen (p bs) (\<lambda>(x, bs). andthen (p_list p n bs) (\<lambda>(xs, bs). Inr (x # xs, bs))))"
    by (rule ext) simp
  then show ?case using Suc by (auto intro!: steady_intros)
qed

lemma steady_if [steady_intros]: "(c \<Longrightarrow> steady p) \<Longrightarrow> (\<not> c \<Longrightarrow> steady q) \<Longrightarrow> steady (\<lambda>bs. if c then p bs else q bs)"
  by (cases c) simp_all

lemma steady_messages [steady_intros]:
  "steady p_rect" "steady p_PixelFormat" "steady readSetPixelFormat" "steady readSetEncodings" "steady readFramebufferUpdateRequest"
  "steady readKeyEvent" "steady readPointerEvent" "steady (readClientCutText maxCutText)" "steady readVideoRectangleSelection"
  "steady readVideoFreeze"
proof -
  show r: "steady p_rect" unfolding p_rect_def [abs_def] by (auto intro!: steady_intros)
  show f: "steady p_PixelFormat" unfolding p_PixelFormat_def [abs_def] by (auto intro!: steady_intros)
  show "steady readSetPixelFormat" unfolding readSetPixelFormat_def [abs_def] by (auto intro!: steady_intros f)
  show "steady readSetEncodings" unfolding readSetEncodings_def [abs_def] by (auto intro!: steady_intros)
  show "steady readFramebufferUpdateRequest" unfolding readFramebufferUpdateRequest_def [abs_def] by (auto intro!: steady_intros r)
  show "steady readKeyEvent" unfolding readKeyEvent_def [abs_def] by (auto intro!: steady_intros)
  show "steady readPointerEvent" unfolding readPointerEvent_def [abs_def] by (auto intro!: steady_intros)
  show "steady (readClientCutText maxCutText)" unfolding readClientCutText_def [abs_def] Let_def by (auto intro!: steady_intros)
  show "steady readVideoRectangleSelection" unfolding readVideoRectangleSelection_def [abs_def] by (auto intro!: steady_intros r)
  show "steady readVideoFreeze" unfolding readVideoFreeze_def [abs_def] by (auto intro!: steady_intros)
qed

lemma steady_client_msg: "steady (readClientMsg maxCutText)"
  unfolding readClientMsg_def [abs_def] by (auto intro!: steady_intros)

subsection \<open>The steps of a message\<close>

text \<open>A step that does not look at the bytes to come, and does not run out of them.\<close>

definition plain_at :: "(SConnection, 'a) act \<Rightarrow> SConnection \<Rightarrow> bool" where
  "plain_at m s \<longleftrightarrow> fst (m s) \<noteq> Inl (StreamError EndOfStream) \<and>
     (\<forall>bs. m (s_arrive bs s) = (fst (m s), s_arrive bs (snd (m s))))"

lemma s_arrive_simps [simp]:
  "w_in (s_arrive bs s) = w_in s @ bs" "w_out (s_arrive bs s) = w_out s" "s_cp (s_arrive bs s) = s_cp s"
  "s_state (s_arrive bs s) = s_state s" "s_security (s_arrive bs s) = s_security s" "s_default (s_arrive bs s) = s_default s"
  "s_streams (s_arrive bs s) = s_streams s" "s_calls (s_arrive bs s) = s_calls s"
  by (simp_all add: s_arrive_def)

lemma s_arrive_twice [simp]: "s_arrive cs (s_arrive bs s) = s_arrive (bs @ cs) s" "s_arrive [] s = s"
  by (simp_all add: s_arrive_def)

named_theorems plain_intros

lemma plain_basic [plain_intros]:
  "plain_at (ret x) s" "plain_at (wr bs) s" "plain_at (s_set_state st) s" "plain_at (s_set_cp f) s"
  "e \<noteq> StreamError EndOfStream \<Longrightarrow> plain_at (throw e) s"
  by (simp_all add: plain_at_def act_simps wr_def s_set_state_def s_set_cp_def s_arrive_def)

lemma plain_modify [plain_intros]: "(\<And>bs. f (s_arrive bs s) = s_arrive bs (f s)) \<Longrightarrow> plain_at (modify f) s"
  by (simp add: plain_at_def modify_def)

lemma plain_bindA [plain_intros]:
  assumes "plain_at m s" and "\<And>x s'. m s = (Inr x, s') \<Longrightarrow> plain_at (k x) s'"
  shows "plain_at (bindA m k) s"
proof (cases "m s")
  case (Pair r s')
  then show ?thesis using assms by (cases r) (auto simp: plain_at_def bindA_def)
qed

lemma plain_seqA [plain_intros]:
  "plain_at (seqA []) s"
  "plain_at m s \<Longrightarrow> (\<And>s'. m s = (Inr (), s') \<Longrightarrow> plain_at (seqA ms) s') \<Longrightarrow> plain_at (seqA (m # ms)) s"
  by (auto intro!: plain_intros)

lemma plain_getting [plain_intros]:
  "plain_at (k (g s)) s \<Longrightarrow> (\<And>bs. k (g (s_arrive bs s)) = k (g s)) \<Longrightarrow> plain_at (getting g k) s"
  by (simp add: plain_at_def getting_def)

lemma plain_if [plain_intros]: "(c \<Longrightarrow> plain_at m s) \<Longrightarrow> (\<not> c \<Longrightarrow> plain_at m' s) \<Longrightarrow> plain_at (if c then m else m') s"
  by simp

lemma plain_throwConnFailed [plain_intros]: "plain_at (s_throwConnFailed msg) s"
  unfolding s_throwConnFailed_def by (auto intro!: plain_intros)

lemma plain_approve [plain_intros]: "plain_at (s_approveConnection env accept reason) s"
  unfolding s_approveConnection_def s_authSuccess_def by (auto intro!: plain_intros simp: Let_def s_arrive_def)

lemma plain_query [plain_intros]: "plain_at (s_queryConnection env) s"
  unfolding s_queryConnection_def by (auto intro!: plain_intros split: query_answer.split)

lemma plain_catch [plain_intros]: "plain_at m s \<Longrightarrow> plain_at (catch_auth_failure m) s"
  by (cases "m s")
    (auto simp: plain_at_def catch_auth_failure_def bindA_def throw_def wr_def modify_def s_arrive_def split: sum.split conn_error.split)

text \<open>An incomplete response is the only thing the security exchange waits for.\<close>

definition response_open :: "SConnection \<Rightarrow> bool" where
  "response_open s \<longleftrightarrow> (case s_security s of
     Some (SSecurityVnc sec) \<Rightarrow> sentChallenge sec \<and> length (response sec) + length (w_in s) < 16 | _ \<Rightarrow> False)"

lemma plain_security:
  assumes "\<not> response_open s"
  shows "plain_at (s_run_security env) s"
  using assms
  by (auto simp: plain_at_def s_run_security_def ssec_processMsg_def act_simps wr_def s_arrive_def response_open_def Let_def
      split: option.splits SSecurity.splits)

lemma plain_processSecurityMsg: "\<not> response_open s \<Longrightarrow> plain_at (s_processSecurityMsg env) s"
  unfolding s_processSecurityMsg_def by (auto intro!: plain_intros plain_security)

lemma security_chosen: "getSSecurity t = Inr sec \<Longrightarrow> \<not> response_open (s\<lparr>s_security := Some sec\<rparr>)"
  by (auto simp: getSSecurity_def newSSecurityVncAuth_def response_open_def split: if_splits)

lemma modify_result: "modify f s = (Inr u, s') \<longleftrightarrow> s' = f s"
  by (auto simp: modify_def)

lemma throws: "throw e s \<noteq> (Inr u, s')" "s_throwConnFailed msg s \<noteq> (Inr u, s')"
  by (simp_all add: throw_def s_throwConnFailed_def act_simps wr_def s_set_state_def)

lemma plain_securityType [plain_intros]: "plain_at (s_processSecurityType env t) s"
  unfolding s_processSecurityType_def
  by (auto intro!: plain_intros plain_processSecurityMsg dest: security_chosen simp: s_arrive_def modify_result throws split: sum.splits)

lemma plain_offer [plain_intros]: "plain_at (s_offerAuthentication env) s" "plain_at (s_offerTunneling env) s"
  unfolding s_offerTunneling_def s_offerAuthentication_def by (auto intro!: plain_intros simp: Let_def)

lemma plain_offerSecurity [plain_intros]: "plain_at (s_offerSecurity env) s"
  unfolding s_offerSecurity_def
  by (auto intro!: plain_intros plain_processSecurityMsg dest: security_chosen simp: Let_def s_arrive_def modify_result throws
      split: option.split sum.splits) (use security_chosen in blast)

lemma plain_handle [plain_intros]: "plain_at (s_handle m) s"
  unfolding s_handle_def by (auto intro!: plain_intros simp: s_arrive_def split: client_msg.split)

lemma plain_clientInit [plain_intros]: "plain_at (s_clientInit env b) s"
  unfolding s_clientInit_def s_sendInteractionCaps_def by (auto intro!: plain_intros)

text \<open>A message whose first read may have to wait, and then nothing has happened.\<close>

definition orderly_at :: "(SConnection, unit) act \<Rightarrow> SConnection \<Rightarrow> bool" where
  "orderly_at m s \<longleftrightarrow> m s = (Inl (StreamError EndOfStream), s) \<or> plain_at m s"

lemma orderly_message:
  assumes "steady p" and "\<And>x s'. plain_at (k x) s'"
  shows "orderly_at (bindA (rd p) k) s"
proof (cases "p (w_in s)")
  case (Inl e)
  then show ?thesis using steady_errorD [OF assms(1) Inl]
    by (auto simp: orderly_at_def plain_at_def bindA_def rd_def)
next
  case (Inr z)
  then obtain x rest where x: "p (w_in s) = Inr (x, rest)" by (cases z) auto
  have "s_arrive bs (s\<lparr>w_in := rest\<rparr>) = (s_arrive bs s)\<lparr>w_in := rest @ bs\<rparr>" for bs by (simp add: s_arrive_def)
  then show ?thesis using assms(2) [of x "s\<lparr>w_in := rest\<rparr>"] steadyD [OF assms(1) x] x
    by (simp add: orderly_at_def plain_at_def bindA_def rd_def)
qed

lemma seqA_modify: "seqA (modify f # ms) s = seqA ms (f s)"
  by (simp add: bindA_def modify_def)

text \<open>The two messages that take what there is.\<close>

definition version_open :: "SConnection \<Rightarrow> bool" where
  "version_open s \<longleftrightarrow> length (verStr (s_cp s)) + length (w_in s) < 12"

definition takes_all :: "SConnection \<Rightarrow> bool" where
  "takes_all s \<longleftrightarrow> s_state s = S_PROTOCOL_VERSION \<and> version_open s \<or> s_state s = S_SECURITY \<and> response_open s"

lemma readVersion_more:
  "12 \<le> length (verStr cp) + length is \<Longrightarrow>
   cp_readVersion cp (is @ bs) = (case cp_readVersion cp is of (r, cp', rest) \<Rightarrow> (r, cp', rest @ bs))"
  by (auto simp: cp_readVersion_def Let_def split: prod.split)

lemma plain_version:
  assumes "\<not> version_open s"
  shows "plain_at (s_processVersionMsg env) s"
proof -
  obtain ok fin cp rest where v: "cp_readVersion (s_cp s) (w_in s) = ((ok, fin), cp, rest)" by (metis prod.collapse)
  then have v': "cp_readVersion (s_cp s) (w_in s @ bs) = ((ok, fin), cp, rest @ bs)" for bs
    using assms by (simp add: readVersion_more version_open_def)
  let ?s = "s\<lparr>s_cp := cp, w_in := rest\<rparr>"
  let ?R = "if \<not> ok then seqA [s_set_state S_INVALID, throw (GeneralError ''reading version failed: not an RFB client?'')]
         else if \<not> fin then ret ()
         else seqA [
           if majorVersion cp \<noteq> 3
           then s_throwConnFailed (bytes_of ''Error: client needs protocol version '' @ print_d (majorVersion cp) @ [0x2e] @
                  print_d (minorVersion cp) @ bytes_of '', server has '' @ print_d (fst (s_default s)) @ [0x2e] @ print_d (snd (s_default s)))
           else ret (),
           s_set_cp (\<lambda>cp. cp\<lparr>minorVersion := compatible_minor (minorVersion cp)\<rparr>),
           case env_refused env of Some msg \<Rightarrow> s_throwConnFailed msg | None \<Rightarrow> ret (),
           s_offerSecurity env]"
  have p: "plain_at (seqA [?R]) ?s" by (auto intro!: plain_intros split: option.split)
  have "s_processVersionMsg env s = seqA [?R] ?s"
    by (simp only: s_processVersionMsg_def getting_def id_apply v Let_def prod.case seqA_modify)
  moreover have "s_processVersionMsg env (s_arrive bs s) = seqA [?R] (s_arrive bs ?s)" for bs
    by (simp only: s_processVersionMsg_def getting_def id_apply s_arrive_simps v' Let_def prod.case seqA_modify)
      (simp add: s_arrive_def)
  ultimately show ?thesis using p by (simp only: plain_at_def) blast
qed

lemma process_orderly:
  assumes "\<not> takes_all s"
  shows "orderly_at (s_processMsg env maxCutText) s"
proof -
  have plain: "orderly_at m s" if "plain_at m s" for m using that by (simp add: orderly_at_def)
  have state: "orderly_at (s_processMsg env maxCutText) s = orderly_at m s" if "s_processMsg env maxCutText s = m s"
    "\<And>bs. s_processMsg env maxCutText (s_arrive bs s) = m (s_arrive bs s)" for m
    using that by (simp add: orderly_at_def plain_at_def)
  show ?thesis
  proof (cases "s_state s")
    case S_PROTOCOL_VERSION
    then show ?thesis using plain [OF plain_version] assms
      by (subst state [of "s_processVersionMsg env"]) (simp_all add: s_processMsg_def getting_def takes_all_def)
  next
    case S_SECURITY
    then show ?thesis using plain [OF plain_processSecurityMsg] assms
      by (subst state [of "s_processSecurityMsg env"]) (simp_all add: s_processMsg_def getting_def takes_all_def)
  next
    case S_SECURITY_TYPE
    then show ?thesis
      by (subst state [of "s_processSecurityTypeMsg env"], simp_all add: s_processMsg_def getting_def)
        (auto simp: s_processSecurityTypeMsg_def intro!: orderly_message steady_intros plain_intros simp: s_arrive_def)
  next
    case S_TIGHT_TUNN_TYPE
    then show ?thesis
      by (subst state [of "s_processTunnelTypeMsg env"], simp_all add: s_processMsg_def getting_def)
        (auto simp: s_processTunnelTypeMsg_def intro!: orderly_message steady_intros plain_intros)
  next
    case S_TIGHT_AUTH_TYPE
    then show ?thesis
      by (subst state [of "s_processAuthTypeMsg env"], simp_all add: s_processMsg_def getting_def)
        (auto simp: s_processAuthTypeMsg_def intro!: orderly_message steady_intros plain_intros)
  next
    case S_INITIALISATION
    then show ?thesis
      by (subst state [of "s_processInitMsg env"], simp_all add: s_processMsg_def getting_def)
        (auto simp: s_processInitMsg_def intro!: orderly_message steady_intros plain_intros)
  next
    case S_NORMAL
    then show ?thesis
      by (subst state [of "s_readMsg maxCutText"], simp_all add: s_processMsg_def getting_def)
        (auto simp: s_readMsg_def intro!: orderly_message steady_client_msg plain_intros)
  qed (auto simp: s_processMsg_def getting_def throw_def orderly_at_def plain_at_def)
qed

text \<open>The code reads before it does anything else: a message that waits has not changed the connection.\<close>

lemma version_goes_on:
  assumes "s_state s = S_PROTOCOL_VERSION" and "version_open s"
  defines "s1 \<equiv> s\<lparr>s_cp := (s_cp s)\<lparr>verStr := verStr (s_cp s) @ w_in s\<rparr>, w_in := []\<rparr>"
  shows "s_processMsg env maxCutText s = (Inr (), s1)"
    and "s_processMsg env maxCutText (s_arrive bs s1) = s_processMsg env maxCutText (s_arrive bs s)"
proof -
  have "cp_readVersion (s_cp s) (w_in s) = ((True, False), (s_cp s)\<lparr>verStr := verStr (s_cp s) @ w_in s\<rparr>, [])"
    using assms(2) by (simp add: cp_readVersion_def version_open_def Let_def)
  then show "s_processMsg env maxCutText s = (Inr (), s1)"
    using assms(1) by (simp add: s_processMsg_def s_processVersionMsg_def getting_def s1_def bindA_def modify_def ret_def)
  have "cp_readVersion (s_cp s1) (w_in s1 @ bs) = cp_readVersion (s_cp s) (w_in s @ bs)"
    using assms(2) by (simp add: cp_readVersion_def version_open_def s1_def Let_def)
  moreover have "(s_arrive bs s1)\<lparr>s_cp := cp, w_in := rest\<rparr> = (s_arrive bs s)\<lparr>s_cp := cp, w_in := rest\<rparr>" for cp rest
    by (simp add: s1_def s_arrive_def)
  moreover have "s_default s1 = s_default s" "s_state s1 = s_state s" by (simp_all add: s1_def)
  ultimately show "s_processMsg env maxCutText (s_arrive bs s1) = s_processMsg env maxCutText (s_arrive bs s)"
    using assms(1) by (simp only: s_processMsg_def s_processVersionMsg_def getting_def id_apply s_arrive_simps Let_def seqA_modify
        sstate.case split: prod.split) simp
qed

lemma security_goes_on:
  assumes "s_state s = S_SECURITY" and "response_open s" and "bs \<noteq> []"
  shows "\<exists>s1. s_processMsg env maxCutText s = (Inr (), s1) \<and> w_in s1 = [] \<and>
    s_processMsg env maxCutText (s_arrive bs s1) = s_processMsg env maxCutText (s_arrive bs s)"
proof -
  obtain sec where sec: "s_security s = Some (SSecurityVnc sec)" "sentChallenge sec" "length (response sec) + length (w_in s) < 16"
    using assms(2) by (auto simp: response_open_def split: option.splits SSecurity.splits)
  let ?s1 = "s\<lparr>s_security := Some (SSecurityVnc (sec\<lparr>response := response sec @ w_in s\<rparr>)), w_in := []\<rparr>"
  have m: "s_processMsg env maxCutText t = s_processSecurityMsg env t" if "s_state t = S_SECURITY" for t
    using that by (simp add: s_processMsg_def getting_def)
  have "s_run_security env s = (Inr False, ?s1)"
    using sec by (simp add: s_run_security_def ssec_processMsg_def act_simps)
  then have "s_processMsg env maxCutText s = (Inr (), ?s1)"
    using assms(1) by (simp add: m s_processSecurityMsg_def catch_auth_failure_def bindA_def ret_def)
  moreover have "s_run_security env (s_arrive bs ?s1) = s_run_security env (s_arrive bs s)"
    using sec by (cases "env_passwd env") (simp_all add: s_run_security_def ssec_processMsg_def act_simps s_arrive_def Let_def)
  then have "s_processMsg env maxCutText (s_arrive bs ?s1) = s_processMsg env maxCutText (s_arrive bs s)"
    using assms(1) by (simp add: m s_processSecurityMsg_def catch_auth_failure_def bindA_def)
  ultimately show ?thesis by (intro exI [of _ ?s1]) simp
qed

lemma takes_all_goes_on:
  assumes "takes_all s"
  shows "\<exists>s1. s_processMsg env maxCutText s = (Inr (), s1) \<and> w_in s1 = [] \<and>
    (bs \<noteq> [] \<longrightarrow> s_processMsg env maxCutText (s_arrive bs s1) = s_processMsg env maxCutText (s_arrive bs s))"
proof (cases "s_state s = S_SECURITY")
  case True
  then show ?thesis using assms security_goes_on [of s bs] security_goes_on [of s "[0]"] by (cases "bs = []") (auto simp: takes_all_def)
next
  case False
  then show ?thesis using assms version_goes_on(1) [of s env maxCutText] version_goes_on(2) [of s env maxCutText bs] by (auto simp: takes_all_def)
qed

lemma never_waits:
  assumes "s_state s = S_PROTOCOL_VERSION \<or> s_state s = S_SECURITY"
  shows "fst (s_processMsg env maxCutText s) \<noteq> Inl (StreamError EndOfStream)"
proof (cases "takes_all s")
  case True
  then show ?thesis using version_goes_on(1) [of s env maxCutText] security_goes_on [of s "[0]" env maxCutText]
    by (auto simp: takes_all_def)
next
  case False
  then show ?thesis using assms plain_version [of s env] plain_processSecurityMsg [of s env]
    by (auto simp: takes_all_def s_processMsg_def getting_def plain_at_def)
qed

lemma blocked_unchanged:
  assumes "s_processMsg env maxCutText s = (Inl (StreamError EndOfStream), s')"
  shows "s' = s"
proof -
  have "\<not> takes_all s" using never_waits [of s env maxCutText] assms by (auto simp: takes_all_def)
  then show ?thesis using process_orderly [of s env maxCutText] assms by (auto simp: orderly_at_def plain_at_def)
qed

subsection \<open>Any division of the bytes into pieces\<close>

lemma s_loop_Inr:
  "s_processMsg env maxCutText s = (Inr u, s') \<Longrightarrow> w_in s \<noteq> [] \<Longrightarrow> s_loop env maxCutText s = s_loop env maxCutText s'"
  by (simp add: s_loop.simps [of env maxCutText s])

lemma s_loop_Inl:
  "s_processMsg env maxCutText s = (Inl e, s') \<Longrightarrow> w_in s \<noteq> [] \<Longrightarrow>
   s_loop env maxCutText s = (if e = StreamError EndOfStream then (Waits, s) else (Thrown e, s'))"
  by (simp add: s_loop.simps [of env maxCutText s])

lemma s_loop_none: "w_in s = [] \<Longrightarrow> s_loop env maxCutText s = (Drained, s)"
  by (simp add: s_loop.simps)

lemma s_loop_same:
  assumes "s_processMsg env maxCutText s = s_processMsg env maxCutText t" and "w_in s \<noteq> []" "w_in t \<noteq> []"
    and "fst (s_processMsg env maxCutText t) \<noteq> Inl (StreamError EndOfStream)"
  shows "s_loop env maxCutText s = s_loop env maxCutText t"
  using assms by (simp add: s_loop.simps [of env maxCutText s] s_loop.simps [of env maxCutText t]) (auto split: prod.split sum.split)

lemma s_loop_more:
  "s_loop env maxCutText s = (r, s') \<Longrightarrow> s_loop env maxCutText (s_arrive bs s) =
     (case r of Thrown e \<Rightarrow> (Thrown e, s_arrive bs s') | _ \<Rightarrow> s_loop env maxCutText (s_arrive bs s'))"
proof (induction env maxCutText s arbitrary: r s' rule: s_loop.induct)
  case (1 env maxCutText s)
  show ?case
  proof (cases "w_in s = []")
    case True
    then show ?thesis using "1.prems" by (auto simp: s_loop_none)
  next
    case False
    then have ne: "w_in (s_arrive bs s) \<noteq> []" by simp
    obtain q s1 where p: "s_processMsg env maxCutText s = (q, s1)" by fastforce
    show ?thesis
    proof (cases "takes_all s")
      case True
      then obtain s2 where s2: "s_processMsg env maxCutText s = (Inr (), s2)" "w_in s2 = []"
          "bs \<noteq> [] \<Longrightarrow> s_processMsg env maxCutText (s_arrive bs s2) = s_processMsg env maxCutText (s_arrive bs s)"
        using takes_all_goes_on by blast
      have "s_loop env maxCutText s = (Drained, s2)" by (simp add: s_loop_Inr [OF s2(1) False] s_loop_none [OF s2(2)])
      with "1.prems" have r: "r = Drained" "s' = s2" by simp_all
      show ?thesis
      proof (cases "bs = []")
        case True
        then show ?thesis using r "1.prems" s2(2) by (simp add: s_loop_none)
      next
        case bs: False
        have "fst (s_processMsg env maxCutText (s_arrive bs s)) \<noteq> Inl (StreamError EndOfStream)"
          using True by (intro never_waits) (auto simp: takes_all_def)
        from s_loop_same [OF s2(3) [OF bs] _ _ this] bs
        have "s_loop env maxCutText (s_arrive bs s2) = s_loop env maxCutText (s_arrive bs s)" by simp
        then show ?thesis using r by simp
      qed
    next
      case takes: False
      show ?thesis
      proof (cases "q = Inl (StreamError EndOfStream)")
        case True
        then have "r = Waits" "s' = s" using "1.prems" s_loop_Inl [of env maxCutText s "StreamError EndOfStream" s1] p False by simp_all
        then show ?thesis by simp
      next
        case q: False
        then have m: "s_processMsg env maxCutText (s_arrive bs s) = (q, s_arrive bs s1)"
          using process_orderly [OF takes, of env maxCutText] p by (auto simp: orderly_at_def plain_at_def)
        show ?thesis
        proof (cases q)
          case (Inl e)
          then show ?thesis using "1.prems" s_loop_Inl [of env maxCutText s e s1] s_loop_Inl [OF m [unfolded Inl] ne] p q False by auto
        next
          case (Inr u)
          have "s_loop env maxCutText s1 = (r, s')" using "1.prems" s_loop_Inr [OF p [unfolded Inr] False] by simp
          from "1.IH" [OF False p [symmetric] Inr this] s_loop_Inr [OF m [unfolded Inr] ne] show ?thesis by simp
        qed
      qed
    qed
  qed
qed

lemma try_closing: "s_state s = S_CLOSING \<Longrightarrow> s_try env maxCutText s = Returned s"
proof (cases "w_in s = []")
  case False
  assume "s_state s = S_CLOSING"
  moreover from this have "s_close s = s" by (simp add: s_close_def)
  moreover have "s_processMsg env maxCutText s = (Inl (GeneralError ''SConnection::processMsg: invalid state''), s)"
    using \<open>s_state s = S_CLOSING\<close> by (simp add: s_processMsg_def getting_def throw_def)
  ultimately show ?thesis using False s_loop_Inl by (simp add: s_try_def)
qed (simp add: s_try_def s_loop_none)

lemma processMessages_try: "s_processMessages env maxCutText s = s_try env maxCutText s"
  by (simp add: s_processMessages_def try_closing)

lemma deliver_arrive: "s_deliver env maxCutText (Returned s) (Bytes bs) = s_deliver env maxCutText (Waiting s) (Bytes bs)"
  by (simp add: processMessages_try)

lemma try_again: "s_deliver env maxCutText (s_try env maxCutText s) (Bytes bs) = s_try env maxCutText (s_arrive bs s)"
proof -
  obtain r s' where r: "s_loop env maxCutText s = (r, s')" by fastforce
  have close: "s_arrive bs (s_close s') = s_close (s_arrive bs s')" "s_state (s_close s') = S_CLOSING"
    for s' by (simp_all add: s_arrive_def s_close_def)
  show ?thesis
  proof (cases r)
    case Drained
    then show ?thesis using s_loop_more [OF r, of bs] r by (simp add: s_try_def [of _ _ s] processMessages_try) (simp add: s_try_def)
  next
    case Waits
    then show ?thesis using s_loop_more [OF r, of bs] r by (simp add: s_try_def [of _ _ s]) (simp add: s_try_def)
  next
    case (Thrown e)
    then show ?thesis using s_loop_more [OF r, of bs] r close
      by (cases "rdr_exception e") (simp_all add: s_try_def [of _ _ s] s_try_def [of _ _ "s_arrive bs s"] s_processMessages_def)
  qed
qed

lemma deliver_twice:
  "s_deliver env maxCutText (s_deliver env maxCutText c (Bytes as)) (Bytes bs) = s_deliver env maxCutText c (Bytes (as @ bs))"
  by (cases c) (simp_all add: processMessages_try try_again)

lemma delivery_pieces:
  "foldl (s_deliver env maxCutText) c (map Bytes (bs # bss)) = s_deliver env maxCutText c (Bytes (concat (bs # bss)))"
  by (induction bss arbitrary: bs) (simp_all add: deliver_twice)


subsection \<open>What a served client sends\<close>

definition served_msg :: "ConnParams \<Rightarrow> int \<Rightarrow> client_msg \<Rightarrow> bool" where
  "served_msg cp maxCutText m \<longleftrightarrow> wire_msg cp maxCutText m \<and> (\<forall>pf. m = SetPixelFormat pf \<longrightarrow> bpp pf \<in> {8, 16, 32})"

lemma handle_served:
  assumes "served_msg cp maxCutText m"
  obtains s' where "s_handle (received_msg cp m) s = (Inr (), s')" "s_calls s' = s_calls s @ [received_msg cp m]"
    "w_in s' = w_in s" "s_state s' = s_state s"
  using assms
  by (cases m) (auto simp: served_msg_def s_handle_def act_simps s_set_cp_def cp_setPF_def)

lemma s_loop_served:
  assumes "s_state s = S_NORMAL" and "w_in s = concat (map (e_client_msg cp g) msgs)" and "\<forall>m \<in> set msgs. served_msg cp maxCutText m"
  shows "\<exists>s'. s_loop env maxCutText s = (Drained, s') \<and> s_state s' = S_NORMAL \<and> w_in s' = [] \<and>
    s_calls s' = s_calls s @ map (received_msg cp) msgs"
  using assms
proof (induction msgs arbitrary: s)
  case Nil
  then show ?case by (simp add: s_loop_none)
next
  case (Cons m msgs)
  let ?rest = "concat (map (e_client_msg cp g) msgs)"
  have m: "served_msg cp maxCutText m" using Cons.prems(3) by simp
  then have r: "readClientMsg maxCutText (w_in s) = Inr (received_msg cp m, ?rest)"
    using readClientMsg_e [of cp maxCutText m g ?rest] Cons.prems(2) by (simp add: served_msg_def)
  obtain s1 where s1: "s_handle (received_msg cp m) (s\<lparr>w_in := ?rest\<rparr>) = (Inr (), s1)"
      "s_calls s1 = s_calls s @ [received_msg cp m]" "w_in s1 = ?rest" "s_state s1 = S_NORMAL"
    using handle_served [OF m, of "s\<lparr>w_in := ?rest\<rparr>"] Cons.prems(1) by auto
  have p: "s_processMsg env maxCutText s = (Inr (), s1)"
    using Cons.prems(1) r s1(1) by (simp add: s_processMsg_def s_readMsg_def getting_def bindA_def rd_def)
  have "w_in s \<noteq> []" using readClientMsg_shorter [OF r] by auto
  from s_loop_Inr [OF p this] show ?case using Cons.IH [OF s1(4,3)] Cons.prems(3) s1(2) by auto
qed

text \<open>The messages of a client in the normal state, in whatever pieces they come, are handled as they were sent, one after the other.\<close>

theorem messages_in_pieces:
  assumes "s_state s = S_NORMAL" and "w_in s = []" and "\<forall>m \<in> set msgs. served_msg cp maxCutText m"
    and "concat (bs # bss) = concat (map (e_client_msg cp g) msgs)"
  shows "\<exists>s'. foldl (s_deliver env maxCutText) (Returned s) (map Bytes (bs # bss)) = Returned s' \<and> s_state s' = S_NORMAL \<and>
    w_in s' = [] \<and> s_calls s' = s_calls s @ map (received_msg cp) msgs"
proof -
  have "s_state (s_arrive (concat (bs # bss)) s) = S_NORMAL"
    "w_in (s_arrive (concat (bs # bss)) s) = concat (map (e_client_msg cp g) msgs)" "s_calls (s_arrive (concat (bs # bss)) s) = s_calls s"
    using assms(1,2,4) by simp_all
  with s_loop_served [OF this(1,2) assms(3), of env] show ?thesis
    unfolding delivery_pieces by (auto simp: processMessages_try s_try_def)
qed

text \<open>A clipboard text whose length has the top bit set asks for a negative number of bytes: \<open>std::bad_alloc\<close> passes the handlers of
  \<open>processMessages\<close>, and the connection is not closed.\<close>

theorem cut_text_escapes:
  assumes "s_state s = S_NORMAL" and "w_in s = []" and "0 \<le> maxCutText" and "0x80000000 \<le> len" and "len \<noteq> 0xffffffff"
  shows "s_deliver env maxCutText (Returned s) (Bytes (msgTypeClientCutText # [0, 0, 0] @ e_U32 len @ bs)) = Escaped BadAlloc"
proof -
  have b: "s_handle CutTextNoMemory t = (Inl BadAlloc, t)" for t by (simp add: s_handle_def throw_def)
  let ?s = "s_arrive (msgTypeClientCutText # [0, 0, 0] @ e_U32 len @ bs) s"
  have r: "readClientMsg maxCutText (w_in ?s) = Inr (CutTextNoMemory, bs)"
    using negative_cut_text [OF assms(3,4), of bs] assms(2,5) by simp
  have "s_processMsg env maxCutText ?s = (Inl BadAlloc, ?s\<lparr>w_in := bs\<rparr>)"
    using assms(1) b by (simp add: s_processMsg_def s_readMsg_def getting_def bindA_def rd_def r [simplified])
  then show ?thesis using s_loop_Inl [of env maxCutText ?s BadAlloc] by (simp add: processMessages_try s_try_def)
qed

end
