(* ===== verification/Rfb_Raw.thy ===== *)
theory Rfb_Raw
  imports Rfb_Hextile
begin

text \<open>
  Raw rectangles, \<open>common/rfb/RawEncoder.cxx\<close> and \<open>RawDecoder.cxx\<close>, and the image buffer that writer and
  reader share in their \<open>getImageBuf\<close> (\<open>SMsgWriter.cxx\<close>, \<open>CMsgReader.cxx\<close>).
\<close>

subsection \<open>The image buffer\<close>

text \<open>An \<open>int\<close> product, wrapped as two's complement.\<close>

definition to_int :: "int \<Rightarrow> int" where
  "to_int i = sint (of_int i :: 32 word)"

lemma to_int_id [simp]: "- 2147483648 \<le> i \<Longrightarrow> i < 2147483648 \<Longrightarrow> to_int i = i"
  by (simp add: to_int_def sint_sbintrunc' signed_take_bit_int_eq_self)

text \<open>\<open>getImageBuf\<close>: \<open>*nPixels\<close> and the new size of the buffer.\<close>

definition getImageBuf :: "int \<Rightarrow> int \<Rightarrow> int \<Rightarrow> int \<Rightarrow> int \<Rightarrow> int \<times> int" where
  "getImageBuf bytes idealSize required requested size0 =
     (let requiredBytes = to_int (required * bytes);
          requestedBytes = to_int (requested * bytes);
          size = (if requestedBytes > idealSize then idealSize else requestedBytes);
          size = (if size < requiredBytes then requiredBytes else size);
          size0 = (if size0 < size then size else size0)
      in (size0 div bytes, size0))"

text \<open>The buffer holds what is required, whatever the product for the requested size wraps to.\<close>

lemma getImageBuf_required:
  assumes "0 < bytes" and "0 \<le> required" and "required * bytes < 2147483648"
  shows "required \<le> fst (getImageBuf bytes idealSize required requested size0)"
    and "size0 \<le> snd (getImageBuf bytes idealSize required requested size0)"
proof -
  have "to_int (required * bytes) = required * bytes" using assms by (intro to_int_id) (simp_all add: order.trans [of _ 0])
  then have "required * bytes \<le> snd (getImageBuf bytes idealSize required requested size0)"
    by (simp add: getImageBuf_def Let_def)
  then have "(required * bytes) div bytes \<le> snd (getImageBuf bytes idealSize required requested size0) div bytes"
    using assms(1) by (intro zdiv_mono1) simp_all
  then show "required \<le> fst (getImageBuf bytes idealSize required requested size0)"
    using assms(1) by (simp add: getImageBuf_def Let_def)
  show "size0 \<le> snd (getImageBuf bytes idealSize required requested size0)"
    by (simp add: getImageBuf_def Let_def)
qed

subsection \<open>The loop over the rows\<close>

text \<open>
  Encoder and decoder cut the rectangle into bands of as many rows as fit in the buffer. The quotient
  \<open>nPixels / w\<close> traps for a width of 0, and the loop would not end if it were not positive.
\<close>

datatype raw_error = DivisionByZero | EndlessLoop

function raw_bands :: "int \<Rightarrow> int \<Rightarrow> int \<Rightarrow> int \<Rightarrow> int \<Rightarrow> raw_error + Rect list" where
  "raw_bands nPixels x y w h =
     (if h \<le> 0 then Inr []
      else if w = 0 then Inl DivisionByZero
      else let nRows = nPixels div w; nRows = (if nRows > h then h else nRows)
           in if nRows \<le> 0 then Inl EndlessLoop
              else case raw_bands nPixels x (y + nRows) w (h - nRows) of
                     Inl e \<Rightarrow> Inl e
                   | Inr bands \<Rightarrow> Inr (mkRect x y (x + w) (y + nRows) # bands))"
  by pat_completeness auto

termination
  by (relation "measure (\<lambda>(nPixels, x, y, w, h). nat h)") auto

declare raw_bands.simps [simp del]

definition raw_rect :: "int \<Rightarrow> Rect \<Rightarrow> raw_error + Rect list" where
  "raw_rect nPixels r = raw_bands nPixels (px (r_tl r)) (py (r_tl r)) (rect_width r) (rect_height r)"

definition rawEncode :: "('p \<Rightarrow> u8 list) \<Rightarrow> 'p image \<Rightarrow> Rect list \<Rightarrow> u8 list" where
  "rawEncode wp img bands = concat (map (\<lambda>t. concat (map wp (get_image img t))) bands)"

fun rawDecode :: "'p parser \<Rightarrow> Rect list \<Rightarrow> 'p image \<Rightarrow> u8 list \<Rightarrow> rdr_error + ('p image \<times> u8 list)" where
  "rawDecode rp [] fb bs = Inr (fb, bs)"
| "rawDecode rp (t # ts) fb bs =
     andthen (p_pixels rp (nat (rect_width t) * nat (rect_height t)) bs) (\<lambda>(ps, bs). rawDecode rp ts (image_rect fb t ps) bs)"

subsection \<open>Round trip\<close>

text \<open>What a client shows after the pixels of \<open>r\<close> have been drawn.\<close>

definition draw :: "Rect \<Rightarrow> 'p image \<Rightarrow> 'p image \<Rightarrow> 'p image" where
  "draw r img fb = (\<lambda>(x, y). if rect_contains r \<lparr>px = x, py = y\<rparr> then img (x, y) else fb (x, y))"

lemma draw_rpts: "draw r img fb p = (if p \<in> rpts r then img p else fb p)"
  by (cases p) (simp add: draw_def rect_contains_iff)

lemma raw_bands_ok:
  assumes "0 < w" and "w \<le> nPixels"
  shows "\<exists>bands. raw_bands nPixels x y w h = Inr bands \<and> (\<Union>t \<in> set bands. rpts t) = rpts (mkRect x y (x + w) (y + h))"
  using assms
proof (induction nPixels x y w h rule: raw_bands.induct)
  case (1 nPixels x y w h)
  show ?case
  proof (cases "h \<le> 0")
    case True
    then show ?thesis by (subst raw_bands.simps) (auto simp: rpts_iff)
  next
    case False
    define n where "n = (if nPixels div w > h then h else nPixels div w)"
    have "1 \<le> nPixels div w" using 1(2,3) by (simp add: pos_imp_zdiv_pos_iff int_one_le_iff_zero_less)
    then have n: "0 < n" "n \<le> h" using False by (auto simp: n_def)
    have w: "w \<noteq> 0" using 1(2) by simp
    obtain bands where b: "raw_bands nPixels x (y + n) w (h - n) = Inr bands"
      and u: "(\<Union>t \<in> set bands. rpts t) = rpts (mkRect x (y + n) (x + w) (y + n + (h - n)))"
      using 1(1) [OF False w _ n_def] 1(2,3) n(1) by auto
    have "raw_bands nPixels x y w h = Inr (mkRect x y (x + w) (y + n) # bands)"
      using False w n b by (subst raw_bands.simps) (simp add: n_def [symmetric] Let_def)
    moreover have "rpts (mkRect x y (x + w) (y + n)) \<union> rpts (mkRect x (y + n) (x + w) (y + h)) = rpts (mkRect x y (x + w) (y + h))"
      using n by (auto simp: rpts_iff)
    ultimately show ?thesis using u by simp
  qed
qed

lemma get_image_split:
  assumes "0 \<le> n" and "n \<le> h"
  shows "get_image img (mkRect x y x' (y + n)) @ get_image img (mkRect x (y + n) x' (y + h)) = get_image img (mkRect x y x' (y + h))"
proof -
  have "[y..y + n - 1] @ [y + n..y + h - 1] = [y..y + h - 1]"
    using upto_split1 [of y "y + n" "y + h - 1"] upto_split2 [of y "y + n - 1" "y + h - 1"] assms by (cases "n = 0") auto
  from arg_cong [OF this, of "\<lambda>l. concat (map (\<lambda>y. map (\<lambda>x. img (x, y)) [x..x' - 1]) l)"]
  show ?thesis by (simp add: get_image_def mkRect_def)
qed

lemma raw_bands_image:
  "raw_bands nPixels x y w h = Inr bands \<Longrightarrow> concat (map (get_image img) bands) = get_image img (mkRect x y (x + w) (y + h))"
proof (induction nPixels x y w h arbitrary: bands rule: raw_bands.induct)
  case (1 nPixels x y w h)
  show ?case
  proof (cases "h \<le> 0")
    case True
    then have "bands = []" using 1(2) by (simp add: raw_bands.simps [of nPixels x y w h])
    then show ?thesis using True by (simp add: get_image_def mkRect_def)
  next
    case False
    define n where "n = (if nPixels div w > h then h else nPixels div w)"
    have w: "w \<noteq> 0" and n: "\<not> n \<le> 0" using False 1(2)
      by (auto simp: raw_bands.simps [of nPixels x y w h] n_def [symmetric] Let_def split: if_splits)
    obtain bs where b: "raw_bands nPixels x (y + n) w (h - n) = Inr bs" and bands: "bands = mkRect x y (x + w) (y + n) # bs"
      using False w n 1(2) by (auto simp: raw_bands.simps [of nPixels x y w h] n_def [symmetric] Let_def split: sum.splits)
    have "concat (map (get_image img) bs) = get_image img (mkRect x (y + n) (x + w) (y + n + (h - n)))"
      using 1(1) [OF False w _ n_def n b] by simp
    moreover have "n \<le> h" by (simp add: n_def)
    ultimately show ?thesis using n get_image_split [of n h img x y "x + w"] by (simp add: bands)
  qed
qed

lemma raw_rect_ok:
  assumes "0 < rect_width r" and "rect_width r \<le> n"
  shows "\<exists>bands. raw_rect n r = Inr bands \<and> (\<Union>t \<in> set bands. rpts t) = rpts r"
  using raw_bands_ok [OF assms, of "px (r_tl r)" "py (r_tl r)" "rect_height r"]
  by (auto simp: raw_rect_def rpts_iff rect_width_def rect_height_def)

lemma rawEncode_image: "rawEncode wp img bands = concat (map wp (concat (map (get_image img) bands)))"
  by (induction bands) (simp_all add: rawEncode_def)

text \<open>A locale of the pixel reads and writes carries it: any list of bands, drawn one after the other.\<close>

context pixel_io begin

lemma raw_bands_roundtrip:
  "rawDecode rp bands fb (rawEncode wp img bands @ bs) =
   Inr (\<lambda>p. if p \<in> (\<Union>t \<in> set bands. rpts t) then img p else fb p, bs)"
proof (induction bands arbitrary: fb)
  case Nil
  then show ?case by (simp add: rawEncode_def)
next
  case (Cons t ts)
  have d: "image_rect fb t (get_image img t) = draw t img fb"
  proof (rule ext)
    show "image_rect fb t (get_image img t) p = draw t img fb p" for p
      by (cases p) (simp add: image_get_image draw_def)
  qed
  have "rawDecode rp (t # ts) fb (rawEncode wp img (t # ts) @ bs) =
      rawDecode rp ts (draw t img fb) (rawEncode wp img ts @ bs)"
    using p_pixels_written [of "get_image img t" "rawEncode wp img ts @ bs"]
    by (simp add: rawEncode_def length_get_image d)
  also have "\<dots> = Inr (\<lambda>p. if p \<in> (\<Union>t \<in> set ts. rpts t) then img p else draw t img fb p, bs)" by (rule Cons.IH)
  also have "(\<lambda>p. if p \<in> (\<Union>t \<in> set ts. rpts t) then img p else draw t img fb p) =
      (\<lambda>p. if p \<in> (\<Union>t \<in> set (t # ts). rpts t) then img p else fb p)"
    by (auto simp: fun_eq_iff draw_rpts)
  finally show ?case .
qed

text \<open>Writer and reader need not have buffers of the same size.\<close>

lemma raw_roundtrip:
  assumes "raw_rect n r = Inr bands" and "raw_rect n' r = Inr bands'" and "0 < rect_width r" and "rect_width r \<le> n'"
  shows "rawDecode rp bands' fb (rawEncode wp img bands @ bs) = Inr (draw r img fb, bs)"
proof -
  have "rawEncode wp img bands = rawEncode wp img bands'"
    using raw_bands_image [OF assms(1) [unfolded raw_rect_def], of img] raw_bands_image [OF assms(2) [unfolded raw_rect_def], of img]
    by (simp add: rawEncode_image)
  moreover have "(\<Union>t \<in> set bands'. rpts t) = rpts r" using raw_rect_ok [OF assms(3,4)] assms(2) by auto
  ultimately show ?thesis by (simp add: raw_bands_roundtrip draw_rpts [abs_def] fun_eq_iff)
qed

end

text \<open>A rectangle without columns divides by zero on either side.\<close>

lemma raw_rect_trap: "rect_width r = 0 \<Longrightarrow> 0 < rect_height r \<Longrightarrow> raw_rect n r = Inl DivisionByZero"
  by (simp add: raw_rect_def raw_bands.simps)

end
