(* ===== verification/Rfb_SMsgWriter.thy ===== *)
theory Rfb_SMsgWriter
  imports Rfb_UpdateTracker Rfb_Raw Rfb_RRE Rfb_HextileBetter Rfb_Security Rfb_ConnParams
begin

text \<open>
  The server's message writer: \<open>common/rfb/SMsgWriter.cxx\<close>, \<open>SMsgWriterV3.cxx\<close>, and the \<open>writeRect\<close> of
  \<open>RawEncoder.cxx\<close>, \<open>RREEncoder.cxx\<close> and \<open>HextileEncoder.cxx\<close>. The code has one text for the three pixel
  widths and chooses it by \<open>bpp\<close>; here the pixel type is the type variable, with its writer \<open>enc_wp\<close>.
\<close>

subsection \<open>The writer\<close>

text \<open>
  \<open>os\<close> is the connection's stream or the memory stream \<open>updateOS\<close> of a buffered update; both are the
  bytes written so far. Flushing has no effect on them. \<open>wsccb\<close> says that a cursor callback is waiting. The statistics
  are integers without the wrap-around of \<open>int\<close>.
\<close>

record SMsgWriter =
  sw_cp :: ConnParams
  realOS :: "u8 list"
  updateOS :: "u8 list"
  os_is_update :: bool
  wsccb :: bool
  needSetDesktopSize :: bool
  needSetDesktopName :: bool
  nRectsInUpdate :: int
  nRectsInHeader :: int
  rectEncoding :: u32
  lenBeforeRect :: nat
  bytesSent :: "u32 \<Rightarrow> int"
  rectsSent :: "u32 \<Rightarrow> int"
  rawBytesEquivalent :: int
  updatesSent :: int
  imageBufSize :: int
  imageBufIdealSize :: int

definition newSMsgWriter :: "ConnParams \<Rightarrow> u8 list \<Rightarrow> SMsgWriter" where
  "newSMsgWriter cp os = \<lparr>sw_cp = cp, realOS = os, updateOS = [], os_is_update = False, wsccb = False,
     needSetDesktopSize = False, needSetDesktopName = False, nRectsInUpdate = 0, nRectsInHeader = 0,
     rectEncoding = 0, lenBeforeRect = 0, bytesSent = (\<lambda>_. 0), rectsSent = (\<lambda>_. 0), rawBytesEquivalent = 0,
     updatesSent = 0, imageBufSize = 0, imageBufIdealSize = 0\<rparr>"

definition sw_os :: "SMsgWriter \<Rightarrow> u8 list" where
  "sw_os s = (if os_is_update s then updateOS s else realOS s)"

definition sw_wr :: "u8 list \<Rightarrow> (SMsgWriter, unit) act" where
  "sw_wr bs = modify (\<lambda>s. if os_is_update s then s\<lparr>updateOS := updateOS s @ bs\<rparr> else s\<lparr>realOS := realOS s @ bs\<rparr>)"

definition sw_startMsg :: "u8 \<Rightarrow> (SMsgWriter, unit) act" where
  "sw_startMsg type = getting os_is_update (\<lambda>b.
     if b then throw (GeneralError ''startMsg called while writing an update?'') else sw_wr [type])"

subsection \<open>Simple messages\<close>

definition msgTypeFramebufferUpdate :: u8 where "msgTypeFramebufferUpdate = 0"
definition msgTypeSetColourMapEntries :: u8 where "msgTypeSetColourMapEntries = 1"
definition msgTypeBell :: u8 where "msgTypeBell = 2"
definition msgTypeServerCutText :: u8 where "msgTypeServerCutText = 3"

definition writeSetColourMapEntries :: "int \<Rightarrow> int \<Rightarrow> (int \<Rightarrow> int \<times> int \<times> int) \<Rightarrow> (SMsgWriter, unit) act" where
  "writeSetColourMapEntries firstColour nColours lookup = seqA [
     sw_startMsg msgTypeSetColourMapEntries,
     sw_wr ([0] @ e_U16 (of_int firstColour) @ e_U16 (of_int nColours) @
       concat (map (\<lambda>i. case lookup i of (r, g, b) \<Rightarrow> e_U16 (of_int r) @ e_U16 (of_int g) @ e_U16 (of_int b))
         [firstColour..firstColour + nColours - 1]))]"

definition writeBell :: "(SMsgWriter, unit) act" where
  "writeBell = sw_startMsg msgTypeBell"

definition writeServerCutText :: "u8 list \<Rightarrow> (SMsgWriter, unit) act" where
  "writeServerCutText str = seqA [
     sw_startMsg msgTypeServerCutText, sw_wr ([0, 0, 0] @ e_U32 (of_nat (length str)) @ str)]"

text \<open>\<open>writeSetDesktopSize\<close> and \<open>writeSetDesktopName\<close> only note the request, if the client can take it.\<close>

definition writeSetDesktopSize :: "(SMsgWriter, bool) act" where
  "writeSetDesktopSize = getting sw_cp (\<lambda>cp.
     if \<not> supportsDesktopResize cp then ret False
     else bindA (modify (\<lambda>s. s\<lparr>needSetDesktopSize := True\<rparr>)) (\<lambda>_. ret True))"

definition writeSetDesktopName :: "(SMsgWriter, bool) act" where
  "writeSetDesktopName = getting sw_cp (\<lambda>cp.
     if \<not> supportsDesktopRename cp then ret False
     else bindA (modify (\<lambda>s. s\<lparr>needSetDesktopName := True\<rparr>)) (\<lambda>_. ret True))"

definition cursorChange :: "(SMsgWriter, unit) act" where
  "cursorChange = modify (\<lambda>s. s\<lparr>wsccb := True\<rparr>)"

definition needFakeUpdate :: "SMsgWriter \<Rightarrow> bool" where
  "needFakeUpdate s \<longleftrightarrow> wsccb s \<or> needSetDesktopSize s \<or> needSetDesktopName s"

subsection \<open>Rectangles of an update\<close>

text \<open>\<open>++nRectsInUpdate > nRectsInHeader && nRectsInHeader\<close>\<close>

definition count_rect :: "string \<Rightarrow> (SMsgWriter, unit) act" where
  "count_rect msg =
     bindA (modify (\<lambda>s. s\<lparr>nRectsInUpdate := nRectsInUpdate s + 1\<rparr>)) (\<lambda>_.
     getting id (\<lambda>s. if nRectsInUpdate s > nRectsInHeader s \<and> nRectsInHeader s \<noteq> 0 then throw (GeneralError msg) else ret ()))"

definition e_rect :: "int \<Rightarrow> int \<Rightarrow> int \<Rightarrow> int \<Rightarrow> u32 \<Rightarrow> u8 list" where
  "e_rect x y w h encoding = e_U16 (of_int x) @ e_U16 (of_int y) @ e_U16 (of_int w) @ e_U16 (of_int h) @ e_U32 encoding"

definition startRect :: "Rect \<Rightarrow> u32 \<Rightarrow> (SMsgWriter, unit) act" where
  "startRect r encoding = seqA [
     count_rect ''SMsgWriterV3::startRect: nRects out of sync'',
     modify (\<lambda>s. s\<lparr>rectEncoding := encoding, lenBeforeRect := length (sw_os s),
       rawBytesEquivalent := rawBytesEquivalent s + (if encoding \<noteq> encodingCopyRect
         then 12 + rect_width r * rect_height r * (bpp (cp_pf (sw_cp s)) div 8) else 0)\<rparr>),
     sw_wr (e_rect (px (r_tl r)) (py (r_tl r)) (rect_width r) (rect_height r) encoding)]"

definition endRect :: "(SMsgWriter, unit) act" where
  "endRect = modify (\<lambda>s. if rectEncoding s \<le> encodingMax
     then s\<lparr>bytesSent := (bytesSent s)(rectEncoding s := bytesSent s (rectEncoding s) + int (length (sw_os s)) - int (lenBeforeRect s)),
            rectsSent := (rectsSent s)(rectEncoding s := rectsSent s (rectEncoding s) + 1)\<rparr>
     else s)"

definition writeCopyRect :: "Rect \<Rightarrow> int \<Rightarrow> int \<Rightarrow> (SMsgWriter, unit) act" where
  "writeCopyRect r srcX srcY = seqA [
     startRect r encodingCopyRect, sw_wr (e_U16 (of_int srcX) @ e_U16 (of_int srcY)), endRect]"

definition writeSetCursor :: "int \<Rightarrow> int \<Rightarrow> Point \<Rightarrow> u8 list \<Rightarrow> u8 list \<Rightarrow> (SMsgWriter, unit) act" where
  "writeSetCursor width height hotspot bits mask_bits =
     getting id (\<lambda>s. if \<not> wsccb s then ret ()
       else seqA [
         count_rect ''SMsgWriterV3::writeSetCursor: nRects out of sync'',
         sw_wr (e_rect (px hotspot) (py hotspot) width height pseudoEncodingCursor @
                take (nat (width * height * (bpp (cp_pf (sw_cp s)) div 8))) bits @ take (nat ((width + 7) div 8 * height)) mask_bits)])"

definition writeSetXCursor :: "int \<Rightarrow> int \<Rightarrow> int \<Rightarrow> int \<Rightarrow> u8 list \<Rightarrow> u8 list \<Rightarrow> (SMsgWriter, unit) act" where
  "writeSetXCursor width height hotspotX hotspotY bits mask_bits =
     getting wsccb (\<lambda>cb. if \<not> cb then ret ()
       else seqA [
         count_rect ''SMsgWriterV3::writeSetXCursor: nRects out of sync'',
         sw_wr (e_rect hotspotX hotspotY width height pseudoEncodingXCursor @
                (if width * height \<noteq> 0
                 then [0, 0, 0, 255, 255, 255] @ take (nat ((width + 7) div 8 * height)) bits @ take (nat ((width + 7) div 8 * height)) mask_bits
                 else []))])"

subsection \<open>Start and end of an update\<close>

text \<open>\<open>cb\<close> is the callback \<open>writeSetCursorCallback\<close>, called when one is waiting.\<close>

definition writeFramebufferUpdateStart :: "(SMsgWriter, unit) act \<Rightarrow> int \<Rightarrow> (SMsgWriter, unit) act" where
  "writeFramebufferUpdateStart cb nRects = seqA [
     sw_startMsg msgTypeFramebufferUpdate,
     getting id (\<lambda>s.
       let nRects = nRects + (if wsccb s then 1 else 0) + (if needSetDesktopSize s then 1 else 0) + (if needSetDesktopName s then 1 else 0)
       in seqA [
         sw_wr ([0] @ e_U16 (of_int nRects)),
         modify (\<lambda>s. s\<lparr>nRectsInUpdate := 0, nRectsInHeader := nRects\<rparr>),
         if wsccb s then seqA [cb, modify (\<lambda>s. s\<lparr>wsccb := False\<rparr>)] else ret ()])]"

definition writeFramebufferUpdateStart_buffered :: "(SMsgWriter, unit) act" where
  "writeFramebufferUpdateStart_buffered =
     modify (\<lambda>s. s\<lparr>nRectsInUpdate := 0, nRectsInHeader := 0, os_is_update := True\<rparr>)"

definition writeDesktopSizeRect :: "(SMsgWriter, unit) act" where
  "writeDesktopSizeRect = getting id (\<lambda>s.
     if needSetDesktopSize s
     then if \<not> supportsDesktopResize (sw_cp s) then throw (GeneralError ''Client does not support desktop resize'')
       else seqA [
         count_rect ''SMsgWriterV3 setDesktopSize: nRects out of sync'',
         sw_wr (e_rect 0 0 (cp_width (sw_cp s)) (cp_height (sw_cp s)) pseudoEncodingDesktopSize),
         modify (\<lambda>s. s\<lparr>needSetDesktopSize := False\<rparr>)]
     else ret ())"

definition writeDesktopNameRect :: "(SMsgWriter, unit) act" where
  "writeDesktopNameRect = getting id (\<lambda>s.
     if needSetDesktopName s
     then seqA [
       count_rect ''SMsgWriterV3 setDesktopName: nRects out of sync'',
       sw_wr (e_rect 0 0 0 0 pseudoEncodingDesktopName @ e_string (cp_name (sw_cp s))),
       modify (\<lambda>s. s\<lparr>needSetDesktopName := False\<rparr>)]
     else ret ())"

definition writeFramebufferUpdateEnd :: "(SMsgWriter, unit) act" where
  "writeFramebufferUpdateEnd = seqA [
     writeDesktopSizeRect,
     writeDesktopNameRect,
     getting id (\<lambda>s. if nRectsInUpdate s \<noteq> nRectsInHeader s \<and> nRectsInHeader s \<noteq> 0
       then throw (GeneralError ''SMsgWriterV3::writeFramebufferUpdateEnd: nRects out of sync'') else ret ()),
     getting id (\<lambda>s. if os_is_update s
       then seqA [
         modify (\<lambda>s. s\<lparr>os_is_update := False\<rparr>),
         sw_startMsg msgTypeFramebufferUpdate,
         sw_wr ([0] @ e_U16 (of_int (nRectsInUpdate s)) @ updateOS s),
         modify (\<lambda>s. s\<lparr>updateOS := []\<rparr>)]
       else ret ()),
     modify (\<lambda>s. s\<lparr>updatesSent := updatesSent s + 1\<rparr>)]"

subsection \<open>The encoders\<close>

definition sw_getImageBuf :: "int \<Rightarrow> int \<Rightarrow> int \<Rightarrow> (SMsgWriter, int) act" where
  "sw_getImageBuf bytes required requested = getting id (\<lambda>s.
     let (nPixels, size) = getImageBuf bytes (imageBufIdealSize s) required requested (imageBufSize s)
     in bindA (modify (\<lambda>s. s\<lparr>imageBufSize := size\<rparr>)) (\<lambda>_. ret nPixels))"

text \<open>
  What the encoders depend on: the pixel writer and size, the parameter \<open>ImprovedHextile\<close>, the contents of the RRE encoder's
  uninitialised array, and the encoders of Tight and ZRLE. A \<open>writeRect\<close> returns the rectangle it has
  sent when that is not the whole one.
\<close>

record 'p encoders =
  enc_wp :: "'p \<Rightarrow> u8 list"
  enc_bytes :: nat
  improvedHextile :: bool
  enc_junk :: 'p
  enc_other :: "u32 \<Rightarrow> 'p image \<Rightarrow> Rect \<Rightarrow> (SMsgWriter, Rect option) act"

definition raw_error_act :: "raw_error \<Rightarrow> ('s, 'b) act" where
  "raw_error_act e = throw (NoReturn (case e of DivisionByZero \<Rightarrow> ''division by zero'' | EndlessLoop \<Rightarrow> ''endless loop''))"

definition Raw_writeRect :: "'a::len word encoders \<Rightarrow> 'a word image \<Rightarrow> Rect \<Rightarrow> (SMsgWriter, Rect option) act" where
  "Raw_writeRect E img r =
     bindA (sw_getImageBuf (int (enc_bytes E)) (rect_width r) (rect_width r * rect_height r)) (\<lambda>nPixels.
     bindA (startRect r encodingRaw) (\<lambda>_.
     bindA (case raw_rect nPixels r of Inl e \<Rightarrow> raw_error_act e | Inr bands \<Rightarrow> sw_wr (rawEncode (enc_wp E) img bands)) (\<lambda>_.
     bindA endRect (\<lambda>_. ret None))))"

text \<open>\<open>getImage\<close> fills the buffer with the rectangle: a buffer that is too small, because the product of the
  sizes has wrapped, is overrun.\<close>

definition RRE_writeRect :: "'a::len word encoders \<Rightarrow> 'a word image \<Rightarrow> Rect \<Rightarrow> (SMsgWriter, Rect option) act" where
  "RRE_writeRect E img r =
     bindA (sw_getImageBuf (int (enc_bytes E)) (rect_width r * rect_height r) 0) (\<lambda>nPixels.
       if nPixels < rect_width r * rect_height r then throw (NoReturn ''buffer overrun'') else
       case rre_writeRect (enc_wp E) (enc_junk E) (get_image img r) (nat (rect_width r)) (nat (rect_height r)) of
         None \<Rightarrow> Raw_writeRect E img r
       | Some bs \<Rightarrow> bindA (seqA [startRect r encodingRRE, sw_wr bs, endRect]) (\<lambda>_. ret None))"

definition Hextile_writeRect :: "'a::len word encoders \<Rightarrow> 'a word image \<Rightarrow> Rect \<Rightarrow> (SMsgWriter, Rect option) act" where
  "Hextile_writeRect E img r =
     bindA (startRect r encodingHextile) (\<lambda>_.
     bindA (if improvedHextile E
            then case hextileEncodeBetter (enc_wp E) (enc_bytes E) img r of
                   None \<Rightarrow> throw (NoReturn ''assertion failed'') | Some os \<Rightarrow> sw_wr os
            else sw_wr (hextileEncode (enc_wp E) (enc_bytes E) 0 img r)) (\<lambda>_.
     bindA endRect (\<lambda>_. ret None)))"

text \<open>\<open>createEncoder\<close> fails its assertion for an encoding without encoder.\<close>

definition sw_writeRect :: "'a::len word encoders \<Rightarrow> u32 \<Rightarrow> 'a word image \<Rightarrow> Rect \<Rightarrow> (SMsgWriter, Rect option) act" where
  "sw_writeRect E encoding img r =
     (if encoding = encodingRaw then Raw_writeRect E img r
      else if encoding = encodingRRE then RRE_writeRect E img r
      else if encoding = encodingHextile then Hextile_writeRect E img r
      else if encoding = encodingZRLE \<or> encoding = encodingTight then enc_other E encoding img r
      else throw (NoReturn ''assertion failed''))"

definition writeRect :: "'a::len word encoders \<Rightarrow> 'a word image \<Rightarrow> Rect \<Rightarrow> (SMsgWriter, Rect option) act" where
  "writeRect E img r = getting (\<lambda>s. currentEncoding (sw_cp s)) (\<lambda>e. sw_writeRect E e img r)"

text \<open>A failing region operation has run out of memory.\<close>

definition of_region :: "'b option \<Rightarrow> ('s, 'b) act" where
  "of_region x = (case x of None \<Rightarrow> throw BadAlloc | Some y \<Rightarrow> ret y)"

fun write_copied :: "Point \<Rightarrow> Rect list \<Rightarrow> (SMsgWriter, unit) act" where
  "write_copied delta [] = ret ()"
| "write_copied delta (i # todo) =
     bindA (writeCopyRect i (px (r_tl i) - px delta) (py (r_tl i) - py delta)) (\<lambda>_. write_copied delta todo)"

fun write_changed :: "'a::len word encoders \<Rightarrow> 'a word image \<Rightarrow> Rect list \<Rightarrow> region \<Rightarrow> (SMsgWriter, region) act" where
  "write_changed E img [] updatedRegion = ret updatedRegion"
| "write_changed E img (i # todo) updatedRegion =
     bindA (writeRect E img i) (\<lambda>actual.
     bindA (case actual of
              None \<Rightarrow> ret updatedRegion
            | Some actual \<Rightarrow> of_region (do {
                i \<leftarrow> Region_of_rect i; a \<leftarrow> Region_of_rect actual;
                u \<leftarrow> assign_subtract updatedRegion i; assign_union u a})) (\<lambda>updatedRegion.
     write_changed E img todo updatedRegion))"

definition writeRects :: "'a::len word encoders \<Rightarrow> 'a word image \<Rightarrow> UpdateInfo \<Rightarrow> (SMsgWriter, region) act" where
  "writeRects E img ui =
     bindA (of_region (do {u \<leftarrow> Region_copy (ui_changed ui); assign_union u (ui_copied ui)})) (\<lambda>updatedRegion.
     bindA (of_region (get_rects (ui_copied ui) (px (ui_copy_delta ui) \<le> 0) (py (ui_copy_delta ui) \<le> 0) 0)) (\<lambda>todo.
     bindA (write_copied (ui_copy_delta ui) todo) (\<lambda>_.
     bindA (of_region (get_rects (ui_changed ui) True True 0)) (\<lambda>todo.
       write_changed E img todo updatedRegion))))"

end
