(* ===== verification/Rfb_CMsgReader.thy ===== *)
theory Rfb_CMsgReader
  imports Rfb_SMsgWriter Rfb_ClientMsg Rfb_Raw Rfb_RRE
begin

text \<open>
  The client's message reader: \<open>common/rfb/CMsgReader.cxx\<close>, \<open>CMsgReaderV3.cxx\<close>, the \<open>readRect\<close> of
  \<open>RawDecoder.cxx\<close>, \<open>RREDecoder.cxx\<close> and \<open>HextileDecoder.cxx\<close>, and a handler that draws into a
  framebuffer, as the viewers' \<open>DesktopWindow\<close> does, and keeps a record of the other calls.
\<close>

subsection \<open>The reader and its handler\<close>

datatype handler_call =
    FramebufferUpdateStart
  | FramebufferUpdateEnd
  | BeginRect Rect u32
  | EndRect Rect u32
  | SetCursor int int Point "u8 list" "u8 list"
  | SetColourMapEntries int int "u16 list"
  | Bell
  | ServerCutText "u8 list"
  | ProcessFTMsg u8

record 'p CMsgReader = wire +
  cm_cp :: ConnParams
  nUpdateRectsLeft :: int
  cm_bufSize :: int
  cm_idealSize :: int
  framebuffer :: "'p image"
  cm_calls :: "handler_call list"

definition newCMsgReader :: "ConnParams \<Rightarrow> 'p image \<Rightarrow> 'p CMsgReader" where
  "newCMsgReader cp fb = \<lparr>w_in = [], w_out = [], cm_cp = cp, nUpdateRectsLeft = 0, cm_bufSize = 0, cm_idealSize = 0,
     framebuffer = fb, cm_calls = []\<rparr>"

text \<open>What the decoders depend on: the pixel reader and size, the pixel 0, what an image buffer holds before
  it is written, and the decoders of Tight and ZRLE.\<close>

record 'p decoders =
  dec_rp :: "'p parser"
  dec_bytes :: nat
  dec_zero :: 'p
  dec_junk :: "nat \<Rightarrow> 'p"
  dec_other :: "u32 \<Rightarrow> Rect \<Rightarrow> ('p CMsgReader, unit) act"

definition call_handler :: "handler_call \<Rightarrow> ('p CMsgReader, unit) act" where
  "call_handler c = modify (\<lambda>s. s\<lparr>cm_calls := cm_calls s @ [c]\<rparr>)"

definition cm_set_cp :: "(ConnParams \<Rightarrow> ConnParams) \<Rightarrow> ('p CMsgReader, unit) act" where
  "cm_set_cp f = modify (\<lambda>s. s\<lparr>cm_cp := f (cm_cp s)\<rparr>)"

definition cm_getImageBuf :: "int \<Rightarrow> int \<Rightarrow> int \<Rightarrow> ('p CMsgReader, int) act" where
  "cm_getImageBuf bytes required requested = getting id (\<lambda>s.
     let (nPixels, size) = getImageBuf bytes (cm_idealSize s) required requested (cm_bufSize s)
     in bindA (modify (\<lambda>s. s\<lparr>cm_bufSize := size\<rparr>)) (\<lambda>_. ret nPixels))"

text \<open>A decoder, which draws while it reads; what it has drawn before an exception is not kept, as the exception
  ends the connection.\<close>

definition rd_draw :: "('p image \<Rightarrow> u8 list \<Rightarrow> rdr_error + ('p image \<times> u8 list)) \<Rightarrow> ('p CMsgReader, unit) act" where
  "rd_draw f = (\<lambda>s. case f (framebuffer s) (w_in s) of
     Inl e \<Rightarrow> (Inl (StreamError e), s)
   | Inr (fb, bs) \<Rightarrow> (Inr (), s\<lparr>framebuffer := fb, w_in := bs\<rparr>))"

subsection \<open>The decoders\<close>

definition Raw_readRect :: "'p decoders \<Rightarrow> Rect \<Rightarrow> ('p CMsgReader, unit) act" where
  "Raw_readRect dec r =
     bindA (cm_getImageBuf (int (dec_bytes dec)) (rect_width r) (rect_width r * rect_height r)) (\<lambda>nPixels.
       case raw_rect nPixels r of Inl e \<Rightarrow> raw_error_act e | Inr bands \<Rightarrow> rd_draw (rawDecode (dec_rp dec) bands))"

definition RRE_readRect :: "'p decoders \<Rightarrow> Rect \<Rightarrow> ('p CMsgReader, unit) act" where
  "RRE_readRect dec r = rd_draw (rreDecode (dec_rp dec) r)"

definition Hextile_readRect :: "'p decoders \<Rightarrow> Rect \<Rightarrow> ('p CMsgReader, unit) act" where
  "Hextile_readRect dec r =
     bindA (cm_getImageBuf (int (dec_bytes dec)) (16 * 16 * 4) 0) (\<lambda>nPixels.
       rd_draw (hextileDecode (dec_rp dec) (dec_zero dec) r (map (dec_junk dec) [0..<nat nPixels])))"

definition cm_decode :: "'p decoders \<Rightarrow> u32 \<Rightarrow> Rect \<Rightarrow> ('p CMsgReader, unit) act" where
  "cm_decode dec encoding r =
     (if encoding > encodingMax then throw (GeneralError ''Unknown rect encoding'')
      else if encoding = encodingRaw then Raw_readRect dec r
      else if encoding = encodingRRE then RRE_readRect dec r
      else if encoding = encodingHextile then Hextile_readRect dec r
      else if encoding = encodingZRLE \<or> encoding = encodingTight then dec_other dec encoding r
      else throw (GeneralError ''Unknown rect encoding''))"

definition readCopyRect :: "Rect \<Rightarrow> ('p CMsgReader, unit) act" where
  "readCopyRect r =
     bindA (rd p_U16) (\<lambda>srcX. bindA (rd p_U16) (\<lambda>srcY.
       modify (\<lambda>s. s\<lparr>framebuffer := copy_rect (px (r_tl r) - uint srcX) (py (r_tl r) - uint srcY) (framebuffer s) r\<rparr>)))"

definition readRect :: "'p decoders \<Rightarrow> Rect \<Rightarrow> u32 \<Rightarrow> ('p CMsgReader, unit) act" where
  "readRect dec r encoding =
     getting cm_cp (\<lambda>cp.
       if px (r_br r) > cp_width cp \<or> py (r_br r) > cp_height cp then throw (GeneralError ''Rect too big'')
       else seqA [
         call_handler (BeginRect r encoding),
         if encoding = encodingCopyRect then readCopyRect r else cm_decode dec encoding r,
         call_handler (EndRect r encoding)])"

subsection \<open>Messages\<close>

definition readSetColourMapEntries :: "('p CMsgReader, unit) act" where
  "readSetColourMapEntries =
     bindA (rd (p_skip 1)) (\<lambda>_. bindA (rd p_U16) (\<lambda>firstColour. bindA (rd p_U16) (\<lambda>nColours.
     bindA (rd (p_list p_U16 (unat nColours * 3))) (\<lambda>rgbs.
       call_handler (SetColourMapEntries (uint firstColour) (uint nColours) rgbs)))))"

text \<open>The argument of \<open>skip\<close> is an \<open>int\<close>: of a text of 2147483648 bytes or more nothing is skipped.\<close>

definition readServerCutText :: "('p CMsgReader, unit) act" where
  "readServerCutText =
     bindA (rd (p_skip 3)) (\<lambda>_. bindA (rd p_U32) (\<lambda>len.
       if len > 256 * 1024 then rd (p_skip (nat (sint len)))
       else bindA (rd (p_bytes (unat len))) (\<lambda>str. call_handler (ServerCutText str))))"

text \<open>The lengths are \<open>int\<close>s; \<open>new\<close> of a negative size throws.\<close>

definition readSetCursor :: "int \<Rightarrow> int \<Rightarrow> Point \<Rightarrow> ('p CMsgReader, unit) act" where
  "readSetCursor width height hotspot =
     getting cm_cp (\<lambda>cp.
       let data_len = to_int (width * height * (bpp (cp_pf cp) div 8)); mask_len = to_int ((width + 7) div 8 * height)
       in if data_len < 0 \<or> mask_len < 0 then throw BadAlloc
          else bindA (rd (p_bytes (nat data_len))) (\<lambda>data_bits. bindA (rd (p_bytes (nat mask_len))) (\<lambda>mask_bits.
            call_handler (SetCursor width height hotspot data_bits mask_bits))))"

definition readSetDesktopName :: "int \<Rightarrow> int \<Rightarrow> int \<Rightarrow> int \<Rightarrow> ('p CMsgReader, unit) act" where
  "readSetDesktopName x y w h =
     bindA (rd p_string) (\<lambda>name. if x \<noteq> 0 \<or> y \<noteq> 0 \<or> w \<noteq> 0 \<or> h \<noteq> 0 then ret () else cm_set_cp (cp_setName name))"

definition readFramebufferUpdate :: "('p CMsgReader, unit) act" where
  "readFramebufferUpdate =
     bindA (rd (p_skip 1)) (\<lambda>_. bindA (rd p_U16) (\<lambda>n.
     bindA (modify (\<lambda>s. s\<lparr>nUpdateRectsLeft := uint n\<rparr>)) (\<lambda>_. call_handler FramebufferUpdateStart)))"

definition cm_readMsgType :: "('p CMsgReader, unit) act" where
  "cm_readMsgType =
     bindA (rd p_U8) (\<lambda>type.
       if type = msgTypeFramebufferUpdate then readFramebufferUpdate
       else if type = msgTypeSetColourMapEntries then readSetColourMapEntries
       else if type = msgTypeBell then call_handler Bell
       else if type = msgTypeServerCutText then readServerCutText
       else if 130 \<le> type \<and> type \<le> 135 then call_handler (ProcessFTMsg type)
       else throw (GeneralError ''unknown message type''))"

definition cm_readUpdateRect :: "'p decoders \<Rightarrow> ('p CMsgReader, unit) act" where
  "cm_readUpdateRect dec =
     bindA (rd p_U16) (\<lambda>x. bindA (rd p_U16) (\<lambda>y. bindA (rd p_U16) (\<lambda>w. bindA (rd p_U16) (\<lambda>h.
     bindA (rd p_U32) (\<lambda>encoding. seqA [
       if encoding = pseudoEncodingDesktopSize then cm_set_cp (\<lambda>cp. cp\<lparr>cp_width := uint w, cp_height := uint h\<rparr>)
       else if encoding = pseudoEncodingDesktopName then readSetDesktopName (uint x) (uint y) (uint w) (uint h)
       else if encoding = pseudoEncodingCursor then readSetCursor (uint w) (uint h) \<lparr>px = uint x, py = uint y\<rparr>
       else if encoding = pseudoEncodingLastRect then modify (\<lambda>s. s\<lparr>nUpdateRectsLeft := 1\<rparr>)
       else readRect dec (mkRect (uint x) (uint y) (uint x + uint w) (uint y + uint h)) encoding,
       modify (\<lambda>s. s\<lparr>nUpdateRectsLeft := nUpdateRectsLeft s - 1\<rparr>),
       getting nUpdateRectsLeft (\<lambda>n. if n = 0 then call_handler FramebufferUpdateEnd else ret ())])))))"

definition cm_readMsg :: "'p decoders \<Rightarrow> ('p CMsgReader, unit) act" where
  "cm_readMsg dec = getting nUpdateRectsLeft (\<lambda>n. if n = 0 then cm_readMsgType else cm_readUpdateRect dec)"

text \<open>\<open>readMsg\<close> repeated \<open>n\<close> times.\<close>

fun cm_readMsgs :: "'p decoders \<Rightarrow> nat \<Rightarrow> ('p CMsgReader, unit) act" where
  "cm_readMsgs dec 0 = ret ()"
| "cm_readMsgs dec (Suc n) = bindA (cm_readMsg dec) (\<lambda>_. cm_readMsgs dec n)"

subsection \<open>Two messages that bring a client down\<close>

text \<open>C38: A raw rectangle without columns but with rows, anywhere on the screen, makes the client divide by zero: the
  warning about its size is all the check there is.\<close>

theorem zero_width_rect_traps:
  assumes "rect_width r = 0" and "0 < rect_height r" and "px (r_br r) \<le> cp_width (cm_cp s)" and "py (r_br r) \<le> cp_height (cm_cp s)"
  shows "fst (readRect dec r encodingRaw s) = Inl (NoReturn ''division by zero'')"
  using assms raw_rect_trap [OF assms(1,2)]
  by (simp add: readRect_def act_simps call_handler_def encoding_defs cm_decode_def Raw_readRect_def cm_getImageBuf_def case_prod_unfold
      Let_def raw_error_act_def)

lemma zero_width_rect_traps_witness:
  "fst (readRect \<lparr>dec_rp = p_U8, dec_bytes = 1, dec_zero = 0, dec_junk = (\<lambda>_. 0), dec_other = (\<lambda>_ _. ret ())\<rparr> (mkRect 3 0 3 5) encodingRaw
     (newCMsgReader (newConnParams\<lparr>cp_width := 8, cp_height := 8\<rparr>) (\<lambda>_. 0))) =
   Inl (NoReturn ''division by zero'')"
  by (rule zero_width_rect_traps) (simp_all add: mkRect_def rect_width_def rect_height_def newCMsgReader_def)

text \<open>C39: The lengths of a cursor are computed in \<open>int\<close>: for 32768 by 32768 pixels of four bytes the length of the data wraps to 0,
  and the handler gets a cursor of that size with no pixels at all.\<close>

theorem cursor_data_wraps:
  assumes "bpp (cp_pf (cm_cp s)) = 32" and "w_in s = m @ rest" and "length m = 134217728"
  shows "readSetCursor 32768 32768 hotspot s =
    (Inr (), s\<lparr>w_in := rest, cm_calls := cm_calls s @ [SetCursor 32768 32768 hotspot [] m]\<rparr>)"
proof -
  have "to_int (32768 * 32768 * (bpp (cp_pf (cm_cp s)) div 8)) = 0" by (simp add: assms(1) to_int_def)
  moreover have "to_int ((32768 + 7) div 8 * 32768) = 134217728" by simp
  moreover have "p_bytes 0 (m @ rest) = Inr ([], m @ rest)" "p_bytes 134217728 (m @ rest) = Inr (m, rest)"
    using assms(3) by (simp_all add: p_bytes_def p_take_def)
  ultimately show ?thesis using assms(2) by (simp add: readSetCursor_def act_simps rd_def call_handler_def Let_def)
qed

lemma cursor_data_wraps_witness:
  "readSetCursor 32768 32768 \<lparr>px = 0, py = 0\<rparr>
     ((newCMsgReader (newConnParams\<lparr>cp_pf := newPixelFormat\<lparr>bpp := 32\<rparr>\<rparr>) (\<lambda>_. 0 :: nat))\<lparr>w_in := replicate 134217728 7 @ [1]\<rparr>) =
   (Inr (), (newCMsgReader (newConnParams\<lparr>cp_pf := newPixelFormat\<lparr>bpp := 32\<rparr>\<rparr>) (\<lambda>_. 0 :: nat))\<lparr>w_in := [1],
     cm_calls := [SetCursor 32768 32768 \<lparr>px = 0, py = 0\<rparr> [] (replicate 134217728 7)]\<rparr>)"
  by (subst cursor_data_wraps) (simp_all add: newCMsgReader_def)

end
