(* ===== verification/Rfb_Update.thy ===== *)
theory Rfb_Update
  imports Rfb_CMsgReader Rfb_Raw
begin

text \<open>
  A framebuffer update from the server's writer to the client's reader: what the writer puts on the stream, what
  the reader makes of it, and that the client then shows what the update was to show.
\<close>

subsection \<open>What the writer emits_rects\<close>

text \<open>\<open>s'\<close> has \<open>k\<close> more rectangles, \<open>bs\<close>, on the current stream.\<close>

definition emits_rects :: "SMsgWriter \<Rightarrow> u8 list \<Rightarrow> int \<Rightarrow> SMsgWriter \<Rightarrow> bool" where
  "emits_rects s bs k s' \<longleftrightarrow> sw_os s' = sw_os s @ bs \<and> nRectsInUpdate s' = nRectsInUpdate s + k \<and>
     sw_cp s' = sw_cp s \<and> wsccb s' = wsccb s \<and> needSetDesktopSize s' = needSetDesktopSize s \<and>
     needSetDesktopName s' = needSetDesktopName s \<and> nRectsInHeader s' = nRectsInHeader s \<and>
     os_is_update s' = os_is_update s \<and> (os_is_update s \<longrightarrow> realOS s' = realOS s) \<and>
     (\<not> os_is_update s \<longrightarrow> updateOS s' = updateOS s)"

text \<open>The header leaves room for \<open>k\<close> more rectangles, or does not count.\<close>

definition has_room :: "SMsgWriter \<Rightarrow> int \<Rightarrow> bool" where
  "has_room s k \<longleftrightarrow> nRectsInHeader s = 0 \<or> nRectsInUpdate s + k \<le> nRectsInHeader s"

lemma emits_rects_refl: "emits_rects s [] 0 s"
  by (simp add: emits_rects_def)

lemma emits_rects_trans: "emits_rects s a k s' \<Longrightarrow> emits_rects s' b l s'' \<Longrightarrow> emits_rects s (a @ b) (k + l) s''"
  by (auto simp: emits_rects_def)

lemma has_room_emits: "has_room s (k + l) \<Longrightarrow> emits_rects s a k s' \<Longrightarrow> has_room s' l"
  by (auto simp: has_room_def emits_rects_def)

lemma has_room_less: "has_room s k \<Longrightarrow> l \<le> k \<Longrightarrow> has_room s l"
  by (auto simp: has_room_def)

lemma seqA3: "bindA (seqA [a, b, c]) f = bindA a (\<lambda>_. bindA b (\<lambda>_. bindA c f))"
  by (auto simp: act_simps fun_eq_iff split: prod.splits sum.splits)

text \<open>A step that returns \<open>x\<close>, having written \<open>k\<close> rectangles.\<close>

definition puts :: "(SMsgWriter, 'a) act \<Rightarrow> SMsgWriter \<Rightarrow> 'a \<Rightarrow> u8 list \<Rightarrow> int \<Rightarrow> SMsgWriter \<Rightarrow> bool" where
  "puts m s x bs k s' \<longleftrightarrow> m s = (Inr x, s') \<and> emits_rects s bs k s'"

lemma puts_ret: "puts (ret x) s x [] 0 s"
  by (simp add: puts_def ret_def emits_rects_refl)

lemma puts_bindA: "puts m s x a k s' \<Longrightarrow> puts (f x) s' y b l s'' \<Longrightarrow> puts (bindA m f) s y (a @ b) (k + l) s''"
  by (auto simp: puts_def bindA_def intro: emits_rects_trans)

lemma puts_getting: "puts (k (f s)) s x bs n s' \<Longrightarrow> puts (getting f k) s x bs n s'"
  by (simp add: puts_def getting_def)

lemma puts_wr: "\<exists>s'. puts (sw_wr bs) s () bs 0 s'"
  by (simp add: puts_def emits_rects_def sw_wr_def modify_def sw_os_def)

lemma puts_endRect: "\<exists>s'. puts endRect s () [] 0 s'"
  by (simp add: puts_def emits_rects_def endRect_def modify_def sw_os_def)

lemma puts_getImageBuf:
  "\<exists>s'. puts (sw_getImageBuf bytes required requested) s
     (fst (getImageBuf bytes (imageBufIdealSize s) required requested (imageBufSize s))) [] 0 s'"
  by (simp add: puts_def emits_rects_def sw_getImageBuf_def act_simps case_prod_unfold Let_def sw_os_def)

definition rect_header :: "Rect \<Rightarrow> u32 \<Rightarrow> u8 list" where
  "rect_header r encoding = e_rect (px (r_tl r)) (py (r_tl r)) (rect_width r) (rect_height r) encoding"

lemma puts_startRect: "has_room s 1 \<Longrightarrow> \<exists>s'. puts (startRect r encoding) s () (rect_header r encoding) 1 s'"
  by (auto simp: puts_def emits_rects_def startRect_def count_rect_def act_simps sw_wr_def sw_os_def has_room_def rect_header_def)

lemma puts_rect:
  assumes "has_room s 1"
  shows "\<exists>s'. puts (bindA (startRect r encoding) (\<lambda>_. bindA (sw_wr bs) (\<lambda>_. bindA endRect (\<lambda>_. ret x)))) s x
    (rect_header r encoding @ bs) 1 s'"
proof -
  obtain s1 where 1: "puts (startRect r encoding) s () (rect_header r encoding) 1 s1" using puts_startRect [OF assms] by blast
  obtain s2 where 2: "puts (sw_wr bs) s1 () bs 0 s2" using puts_wr by blast
  obtain s3 where 3: "puts endRect s2 () [] 0 s3" using puts_endRect by blast
  from puts_bindA [OF 1 puts_bindA [OF 2 puts_bindA [OF 3 puts_ret [of x]]]] show ?thesis by auto
qed

lemma puts_copyRect:
  assumes "has_room s 1"
  shows "\<exists>s'. puts (writeCopyRect r x y) s () (rect_header r encodingCopyRect @ e_U16 (of_int x) @ e_U16 (of_int y)) 1 s'"
  using puts_rect [OF assms, of r encodingCopyRect "e_U16 (of_int x) @ e_U16 (of_int y)" "()"]
  by (simp add: writeCopyRect_def)


subsection \<open>What the reader makes of it\<close>

definition update_ends :: "'p CMsgReader \<Rightarrow> nat" where
  "update_ends c = length (filter ((=) FramebufferUpdateEnd) (cm_calls c))"

text \<open>The bytes \<open>body\<close> of a rectangle draw \<open>f\<close>.\<close>

definition draws :: "'p decoders \<Rightarrow> u32 \<Rightarrow> Rect \<Rightarrow> u8 list \<Rightarrow> ('p image \<Rightarrow> 'p image) \<Rightarrow> bool" where
  "draws dec e r body f \<longleftrightarrow> (\<forall>c rest. w_in c = body @ rest \<longrightarrow>
     (\<exists>b. (if e = encodingCopyRect then readCopyRect r else cm_decode dec e r) c =
        (Inr (), c\<lparr>w_in := rest, cm_bufSize := b, framebuffer := f (framebuffer c)\<rparr>)))"

text \<open>The bytes \<open>bs\<close> are \<open>n\<close> rectangles of an update, and draw \<open>f\<close>; the end of the update is announced with its last
  rectangle.\<close>

definition reads :: "'p decoders \<Rightarrow> ConnParams \<Rightarrow> nat \<Rightarrow> u8 list \<Rightarrow> ('p image \<Rightarrow> 'p image) \<Rightarrow> bool" where
  "reads dec cp n bs f \<longleftrightarrow> (\<forall>c rest. w_in c = bs @ rest \<longrightarrow> cm_cp c = cp \<longrightarrow> int n \<le> nUpdateRectsLeft c \<longrightarrow>
     (\<exists>c'. cm_readMsgs dec n c = (Inr (), c') \<and> w_in c' = rest \<and> w_out c' = w_out c \<and> cm_cp c' = cp \<and>
        framebuffer c' = f (framebuffer c) \<and> nUpdateRectsLeft c' = nUpdateRectsLeft c - int n \<and>
        update_ends c' = update_ends c + (if 0 < n \<and> nUpdateRectsLeft c = int n then 1 else 0)))"

lemma reads_0: "reads dec cp 0 [] (\<lambda>fb. fb)"
  by (simp add: reads_def ret_def)

lemma cm_readMsgs_add: "cm_readMsgs dec (m + n) c = bindA (cm_readMsgs dec m) (\<lambda>_. cm_readMsgs dec n) c"
  by (induction m arbitrary: c) (auto simp: act_simps split: prod.splits sum.splits)

lemma reads_add:
  assumes "reads dec cp m a f" and "reads dec cp n b g"
  shows "reads dec cp (m + n) (a @ b) (\<lambda>fb. g (f fb))"
  unfolding reads_def
proof (intro allI impI)
  fix c :: "'a CMsgReader" and rest
  assume c: "w_in c = (a @ b) @ rest" "cm_cp c = cp" "int (m + n) \<le> nUpdateRectsLeft c"
  obtain c1 where 1: "cm_readMsgs dec m c = (Inr (), c1)" "w_in c1 = b @ rest" "w_out c1 = w_out c" "cm_cp c1 = cp"
      "framebuffer c1 = f (framebuffer c)" "nUpdateRectsLeft c1 = nUpdateRectsLeft c - int m"
      "update_ends c1 = update_ends c + (if 0 < m \<and> nUpdateRectsLeft c = int m then 1 else 0)"
    using assms(1) [unfolded reads_def, rule_format, OF _ c(2), of "b @ rest"] c(1,3) by auto
  have "int n \<le> nUpdateRectsLeft c1" using c(3) 1(6) by simp
  then obtain c2 where 2: "cm_readMsgs dec n c1 = (Inr (), c2)" "w_in c2 = rest" "w_out c2 = w_out c1" "cm_cp c2 = cp"
      "framebuffer c2 = g (framebuffer c1)" "nUpdateRectsLeft c2 = nUpdateRectsLeft c1 - int n"
      "update_ends c2 = update_ends c1 + (if 0 < n \<and> nUpdateRectsLeft c1 = int n then 1 else 0)"
    using assms(2) 1(2,4) unfolding reads_def by blast
  have "update_ends c2 = update_ends c + (if 0 < m + n \<and> nUpdateRectsLeft c = int (m + n) then 1 else 0)"
    using c(3) 1(6,7) 2(7) by (cases "n = 0") auto
  then show "\<exists>c'. cm_readMsgs dec (m + n) c = (Inr (), c') \<and> w_in c' = rest \<and> w_out c' = w_out c \<and> cm_cp c' = cp \<and>
      framebuffer c' = g (f (framebuffer c)) \<and> nUpdateRectsLeft c' = nUpdateRectsLeft c - int (m + n) \<and>
      update_ends c' = update_ends c + (if 0 < m + n \<and> nUpdateRectsLeft c = int (m + n) then 1 else 0)"
    using 1 2 by (intro exI [of _ c2]) (simp add: cm_readMsgs_add bindA_def)
qed

text \<open>A rectangle on a screen.\<close>

definition on_screen :: "ConnParams \<Rightarrow> Rect \<Rightarrow> bool" where
  "on_screen cp r \<longleftrightarrow> 0 \<le> px (r_tl r) \<and> px (r_tl r) < px (r_br r) \<and> px (r_br r) \<le> cp_width cp \<and>
     0 \<le> py (r_tl r) \<and> py (r_tl r) < py (r_br r) \<and> py (r_br r) \<le> cp_height cp"

definition screen_ok :: "ConnParams \<Rightarrow> nat \<Rightarrow> bool" where
  "screen_ok cp bytes \<longleftrightarrow> 0 \<le> cp_width cp \<and> cp_width cp < 65536 \<and> 0 \<le> cp_height cp \<and> cp_height cp < 65536 \<and>
     cp_width cp * cp_height cp * int bytes < 2147483648"

definition real_encoding :: "u32 \<Rightarrow> bool" where
  "real_encoding e \<longleftrightarrow> e \<in> {encodingRaw, encodingCopyRect, encodingRRE, encodingHextile}"

lemma reads_rect:
  assumes scr: "screen_ok cp k" and r: "on_screen cp r" and e: "real_encoding e" and d: "draws dec e r body f"
  shows "reads dec cp 1 (rect_header r e @ body) f"
  unfolding reads_def
proof (intro allI impI)
  fix c :: "'a CMsgReader" and rest
  assume c: "w_in c = (rect_header r e @ body) @ rest" "cm_cp c = cp" "int 1 \<le> nUpdateRectsLeft c"
  have rr: "mkRect (px (r_tl r)) (py (r_tl r)) (px (r_tl r) + rect_width r) (py (r_tl r) + rect_height r) = r"
    by (simp add: mkRect_def rect_width_def rect_height_def)
  have u: "uint (of_int (px (r_tl r)) :: u16) = px (r_tl r)" "uint (of_int (py (r_tl r)) :: u16) = py (r_tl r)"
      "uint (of_int (rect_width r) :: u16) = rect_width r" "uint (of_int (rect_height r) :: u16) = rect_height r"
    using scr r by (intro uint_of_int_u16; simp add: on_screen_def screen_ok_def rect_width_def rect_height_def)+
  have ps: "e \<noteq> pseudoEncodingDesktopSize" "e \<noteq> pseudoEncodingDesktopName" "e \<noteq> pseudoEncodingCursor" "e \<noteq> pseudoEncodingLastRect"
    using e by (auto simp: real_encoding_def encoding_defs)
  define c1 where "c1 = c\<lparr>w_in := body @ rest, cm_calls := cm_calls c @ [BeginRect r e]\<rparr>"
  obtain b where b: "(if e = encodingCopyRect then readCopyRect r else cm_decode dec e r) c1 =
      (Inr (), c1\<lparr>w_in := rest, cm_bufSize := b, framebuffer := f (framebuffer c1)\<rparr>)"
    using d [unfolded draws_def, rule_format, of c1 rest] by (auto simp: c1_def)
  have "readRect dec r e (c\<lparr>w_in := body @ rest\<rparr>) = (Inr (), c1\<lparr>w_in := rest, cm_bufSize := b, framebuffer := f (framebuffer c1),
      cm_calls := cm_calls c1 @ [EndRect r e]\<rparr>)"
    using b r c(2) by (simp add: readRect_def act_simps on_screen_def call_handler_def c1_def)
  then have "cm_readUpdateRect dec c = (Inr (), c\<lparr>w_in := rest, cm_bufSize := b, framebuffer := f (framebuffer c),
      nUpdateRectsLeft := nUpdateRectsLeft c - 1, cm_calls := cm_calls c @ [BeginRect r e, EndRect r e] @
        (if nUpdateRectsLeft c = 1 then [FramebufferUpdateEnd] else [])\<rparr>)"
    using c(1) ps by (simp add: cm_readUpdateRect_def act_simps rd_def rect_header_def e_rect_def u rr c1_def call_handler_def)
  then show "\<exists>c'. cm_readMsgs dec 1 c = (Inr (), c') \<and> w_in c' = rest \<and> w_out c' = w_out c \<and> cm_cp c' = cp \<and>
      framebuffer c' = f (framebuffer c) \<and> nUpdateRectsLeft c' = nUpdateRectsLeft c - int 1 \<and>
      update_ends c' = update_ends c + (if 0 < (1 :: nat) \<and> nUpdateRectsLeft c = int 1 then 1 else 0)"
    using c by (auto simp: cm_readMsg_def act_simps update_ends_def)
qed

subsection \<open>The update and its message\<close>

text \<open>The regions of an update lie on the screen, and so do the sources of what is copied.\<close>

definition update_ok :: "ConnParams \<Rightarrow> UpdateInfo \<Rightarrow> bool" where
  "update_ok cp ui \<longleftrightarrow> wf_region (ui_changed ui) \<and> wf_region (ui_copied ui) \<and>
     pts (ui_changed ui) \<subseteq> {0..<cp_width cp} \<times> {0..<cp_height cp} \<and>
     (\<forall>(x, y) \<in> pts (ui_copied ui). 0 \<le> x \<and> x < cp_width cp \<and> 0 \<le> y \<and> y < cp_height cp \<and>
        0 \<le> x - px (ui_copy_delta ui) \<and> x - px (ui_copy_delta ui) < cp_width cp \<and>
        0 \<le> y - py (ui_copy_delta ui) \<and> y - py (ui_copy_delta ui) < cp_height cp)"

lemma on_screen_rpts:
  assumes "0 < rect_width r" and "0 < rect_height r" and "rpts r \<subseteq> {0..<cp_width cp} \<times> {0..<cp_height cp}"
  shows "on_screen cp r"
  using rect_corners [OF assms] assms(1,2) by (simp add: on_screen_def rect_width_def rect_height_def)

lemma region_on_screen:
  assumes wf: "wf_region r" and scr: "pts r \<subseteq> {0..<cp_width cp} \<times> {0..<cp_height cp}"
  obtains rs where "get_rects r l t 0 = Some rs" and "length rs = numRects r" and "(\<Union>R \<in> set rs. rpts R) = pts r"
    and "\<forall>R \<in> set rs. on_screen cp R \<and> (px (r_tl R), py (r_tl R)) \<in> pts r"
proof -
  obtain rs where rs: "get_rects r l t 0 = Some rs" "length rs = numRects r" "(\<Union>R \<in> set rs. rpts R) = pts r"
    "\<forall>R \<in> set rs. 0 < rect_width R \<and> 0 < rect_height R \<and> rpts R \<subseteq> pts r"
    by (rule get_rects_whole [OF wf])
  have "\<forall>R \<in> set rs. on_screen cp R \<and> (px (r_tl R), py (r_tl R)) \<in> pts r"
  proof
    fix R
    assume "R \<in> set rs"
    then have R: "0 < rect_width R" "0 < rect_height R" "rpts R \<subseteq> pts r" using rs(4) by simp_all
    then have "(px (r_tl R), py (r_tl R)) \<in> rpts R" by (simp add: rpts_iff rect_width_def rect_height_def)
    then show "on_screen cp R \<and> (px (r_tl R), py (r_tl R)) \<in> pts r"
      using on_screen_rpts [OF R(1,2) subset_trans [OF R(3) scr]] R(3) by blast
  qed
  with that rs show ?thesis by blast
qed

text \<open>The writer between two updates, with nothing of its own to add to the next.\<close>

definition writer_idle :: "SMsgWriter \<Rightarrow> bool" where
  "writer_idle s \<longleftrightarrow> \<not> os_is_update s \<and> \<not> needFakeUpdate s"

definition update_message :: "(SMsgWriter, unit) act \<Rightarrow> int \<Rightarrow> (SMsgWriter, 'b) act \<Rightarrow> (SMsgWriter, 'b) act" where
  "update_message cb n body =
     bindA (writeFramebufferUpdateStart cb n) (\<lambda>_. bindA body (\<lambda>x. bindA writeFramebufferUpdateEnd (\<lambda>_. ret x)))"

text \<open>After the header the writer has room for the rectangles announced.\<close>

definition writer_started :: "SMsgWriter \<Rightarrow> nat \<Rightarrow> SMsgWriter" where
  "writer_started s n = s\<lparr>realOS := realOS s @ [0, 0] @ e_U16 (of_nat n), nRectsInUpdate := 0, nRectsInHeader := int n\<rparr>"

lemma writer_started_room: "has_room (writer_started s n) (int n)"
  by (simp add: has_room_def writer_started_def)

lemma writer_started_cp: "sw_cp (writer_started s n) = sw_cp s"
  by (simp add: writer_started_def)

subsection \<open>The encodings\<close>

text \<open>Writer and reader with the same pixels.\<close>

locale update_link = word_pixel_io "enc_wp E" "dec_rp dec" "enc_bytes E"
  for E :: "'a::len word encoders" and dec :: "'a word decoders" +
  assumes same_bytes: "dec_bytes dec = enc_bytes E"
    and zero: "dec_zero dec = 0"
begin

text \<open>A step that sends the rectangle \<open>r\<close> of \<open>img\<close>.\<close>

definition sends :: "(SMsgWriter, Rect option) act \<Rightarrow> SMsgWriter \<Rightarrow> 'a word image \<Rightarrow> Rect \<Rightarrow> bool" where
  "sends m s img r \<longleftrightarrow> (\<exists>s' e body. puts m s None (rect_header r e @ body) 1 s' \<and> real_encoding e \<and> draws dec e r body (draw r img))"

lemma sends_puts: "puts m s x [] 0 s' \<Longrightarrow> sends (f x) s' img r \<Longrightarrow> sends (bindA m f) s img r"
  unfolding sends_def using puts_bindA [of m s x "[]" 0 s' f] by (metis append_Nil add_0)

lemma sends_rect:
  assumes "has_room s 1" and "real_encoding e" and "draws dec e r body (draw r img)"
  shows "sends (bindA (startRect r e) (\<lambda>_. bindA (sw_wr body) (\<lambda>_. bindA endRect (\<lambda>_. ret None)))) s img r"
  using puts_rect [OF assms(1), of r e body None] assms(2,3) unfolding sends_def by blast

lemma has_room_puts0: "has_room s 1 \<Longrightarrow> puts m s x a 0 s' \<Longrightarrow> has_room s' 1"
  by (auto simp: puts_def emits_rects_def has_room_def)

lemma screen_bounds:
  assumes "screen_ok cp (enc_bytes E)" and "on_screen cp r"
  shows "0 < rect_width r" and "0 < rect_height r" and "rect_width r < 65536" and "rect_height r < 65536"
    and "rect_width r * int (enc_bytes E) < 2147483648" and "rect_width r * rect_height r * int (enc_bytes E) < 2147483648"
proof -
  show 1: "0 < rect_width r" "0 < rect_height r" "rect_width r < 65536" "rect_height r < 65536"
    using assms by (auto simp: screen_ok_def on_screen_def rect_width_def rect_height_def)
  have "rect_width r * int (enc_bytes E) \<le> 65535 * 4" using 1 bytes_bounds by (intro mult_mono) auto
  then show "rect_width r * int (enc_bytes E) < 2147483648" by simp
  have "rect_width r * rect_height r * int (enc_bytes E) \<le> cp_width cp * cp_height cp * int (enc_bytes E)"
    using assms by (intro mult_right_mono mult_mono) (auto simp: screen_ok_def on_screen_def rect_width_def rect_height_def)
  then show "rect_width r * rect_height r * int (enc_bytes E) < 2147483648"
    using assms(1) by (simp add: screen_ok_def)
qed

lemma draws_raw:
  assumes scr: "screen_ok cp (enc_bytes E)" "on_screen cp r" and "raw_rect n r = Inr bands"
  shows "draws dec encodingRaw r (rawEncode (enc_wp E) img bands) (draw r img)"
  unfolding draws_def
proof (intro allI impI)
  fix c :: "'a word CMsgReader" and rest
  assume c: "w_in c = rawEncode (enc_wp E) img bands @ rest"
  note b = screen_bounds [OF scr]
  define i where "i = getImageBuf (int (enc_bytes E)) (cm_idealSize c) (rect_width r) (rect_width r * rect_height r) (cm_bufSize c)"
  have n: "rect_width r \<le> fst i" unfolding i_def by (rule getImageBuf_required) (use b bytes_bounds in auto)
  then obtain bands' where b': "raw_rect (fst i) r = Inr bands'" using raw_rect_ok [OF b(1)] by blast
  have "rawDecode (dec_rp dec) bands' (framebuffer c) (w_in c) = Inr (draw r img (framebuffer c), rest)"
    unfolding c by (rule raw_roundtrip [OF assms(3) b' b(1) n])
  then show "\<exists>b. (if encodingRaw = encodingCopyRect then readCopyRect r else cm_decode dec encodingRaw r) c =
      (Inr (), c\<lparr>w_in := rest, cm_bufSize := b, framebuffer := draw r img (framebuffer c)\<rparr>)"
    using b' by (intro exI [of _ "snd i"])
      (simp add: cm_decode_def encoding_defs Raw_readRect_def cm_getImageBuf_def act_simps same_bytes i_def [symmetric]
        case_prod_unfold Let_def rd_draw_def)
qed

lemma sends_raw:
  assumes "screen_ok cp (enc_bytes E)" and "on_screen cp r" and "has_room s 1"
  shows "sends (Raw_writeRect E img r) s img r"
proof -
  note b = screen_bounds [OF assms(1,2)]
  define i where "i = getImageBuf (int (enc_bytes E)) (imageBufIdealSize s) (rect_width r) (rect_width r * rect_height r) (imageBufSize s)"
  obtain s1 where 1: "puts (sw_getImageBuf (int (enc_bytes E)) (rect_width r) (rect_width r * rect_height r)) s (fst i) [] 0 s1"
    using puts_getImageBuf [of "int (enc_bytes E)" _ _ s] unfolding i_def by blast
  have "rect_width r \<le> fst i" unfolding i_def by (rule getImageBuf_required) (use b bytes_bounds in auto)
  then obtain bands where bands: "raw_rect (fst i) r = Inr bands" using raw_rect_ok [OF b(1)] by blast
  have "sends (bindA (startRect r encodingRaw) (\<lambda>_. bindA (sw_wr (rawEncode (enc_wp E) img bands)) (\<lambda>_. bindA endRect (\<lambda>_. ret None)))) s1 img r"
    by (rule sends_rect [OF has_room_puts0 [OF assms(3) 1] _ draws_raw [OF assms(1,2) bands]]) (simp add: real_encoding_def)
  then show ?thesis using bands by (simp add: Raw_writeRect_def sends_puts [OF 1])
qed

lemma draws_rre:
  assumes scr: "screen_ok cp (enc_bytes E)" "on_screen cp r"
    and "rre_writeRect (enc_wp E) d (get_image img r) (nat (rect_width r)) (nat (rect_height r)) = Some bs"
  shows "draws dec encodingRRE r bs (draw r img)"
  unfolding draws_def
proof (intro allI impI)
  fix c :: "'a word CMsgReader" and rest
  assume c: "w_in c = bs @ rest"
  note b = screen_bounds [OF scr]
  have "rreDecode (dec_rp dec) r (framebuffer c) (w_in c) = Inr (image_rect (framebuffer c) r (get_image img r), rest)"
    unfolding c by (rule rre_roundtrip [OF _ _ _ _ _ assms(3)]) (use b in \<open>simp_all add: length_get_image\<close>)
  moreover have "image_rect (framebuffer c) r (get_image img r) = draw r img (framebuffer c)"
    by (auto simp: fun_eq_iff image_get_image draw_def)
  ultimately show "\<exists>b. (if encodingRRE = encodingCopyRect then readCopyRect r else cm_decode dec encodingRRE r) c =
      (Inr (), c\<lparr>w_in := rest, cm_bufSize := b, framebuffer := draw r img (framebuffer c)\<rparr>)"
    by (intro exI [of _ "cm_bufSize c"]) (simp add: cm_decode_def encoding_defs RRE_readRect_def rd_draw_def)
qed

lemma sends_rre:
  assumes "screen_ok cp (enc_bytes E)" and "on_screen cp r" and "has_room s 1"
  shows "sends (RRE_writeRect E img r) s img r"
proof -
  note b = screen_bounds [OF assms(1,2)]
  define i where "i = getImageBuf (int (enc_bytes E)) (imageBufIdealSize s) (rect_width r * rect_height r) 0 (imageBufSize s)"
  obtain s1 where 1: "puts (sw_getImageBuf (int (enc_bytes E)) (rect_width r * rect_height r) 0) s (fst i) [] 0 s1"
    using puts_getImageBuf [of "int (enc_bytes E)" _ _ s] unfolding i_def by blast
  have n: "\<not> fst i < rect_width r * rect_height r"
    using getImageBuf_required(1) [of "int (enc_bytes E)" "rect_width r * rect_height r"] b bytes_bounds by (simp add: i_def not_less)
  have "sends (case rre_writeRect (enc_wp E) (enc_junk E) (get_image img r) (nat (rect_width r)) (nat (rect_height r)) of
      None \<Rightarrow> Raw_writeRect E img r | Some bs \<Rightarrow> bindA (seqA [startRect r encodingRRE, sw_wr bs, endRect]) (\<lambda>_. ret None)) s1 img r"
  proof (cases "rre_writeRect (enc_wp E) (enc_junk E) (get_image img r) (nat (rect_width r)) (nat (rect_height r))")
    case None
    then show ?thesis using sends_raw [OF assms(1,2) has_room_puts0 [OF assms(3) 1]] by simp
  next
    case (Some bs)
    have "sends (bindA (startRect r encodingRRE) (\<lambda>_. bindA (sw_wr bs) (\<lambda>_. bindA endRect (\<lambda>_. ret None)))) s1 img r"
      by (rule sends_rect [OF has_room_puts0 [OF assms(3) 1] _ draws_rre [OF assms(1,2) Some]]) (simp add: real_encoding_def)
    then show ?thesis unfolding Some option.case seqA3 .
  qed
  then show ?thesis using n unfolding RRE_writeRect_def by (intro sends_puts [OF 1]) simp
qed

lemma draws_hextile:
  assumes "\<And>buf fb rest. 256 \<le> length buf \<Longrightarrow>
    hextileDecode (dec_rp dec) (dec_zero dec) r buf fb (bs @ rest) = Inr (draw r img fb, rest)"
  shows "draws dec encodingHextile r bs (draw r img)"
  unfolding draws_def
proof (intro allI impI)
  fix c :: "'a word CMsgReader" and rest
  assume c: "w_in c = bs @ rest"
  define i where "i = getImageBuf (int (enc_bytes E)) (cm_idealSize c) (16 * 16 * 4) 0 (cm_bufSize c)"
  have "1024 \<le> fst i"
    using getImageBuf_required(1) [of "int (enc_bytes E)" "1024"] bytes_bounds by (simp add: i_def)
  then have "hextileDecode (dec_rp dec) (dec_zero dec) r (map (dec_junk dec) [0..<nat (fst i)]) (framebuffer c) (w_in c) =
      Inr (draw r img (framebuffer c), rest)"
    unfolding c by (intro assms) simp
  then show "\<exists>b. (if encodingHextile = encodingCopyRect then readCopyRect r else cm_decode dec encodingHextile r) c =
      (Inr (), c\<lparr>w_in := rest, cm_bufSize := b, framebuffer := draw r img (framebuffer c)\<rparr>)"
    by (intro exI [of _ "snd i"]) (simp add: cm_decode_def encoding_defs Hextile_readRect_def cm_getImageBuf_def act_simps
        same_bytes i_def [simplified, symmetric] i_def [symmetric] case_prod_unfold Let_def rd_draw_def)
qed

lemma sends_hextile:
  assumes "has_room s 1"
  shows "sends (Hextile_writeRect E img r) s img r"
proof -
  have "\<exists>bs. (if improvedHextile E
         then case hextileEncodeBetter (enc_wp E) (enc_bytes E) img r of
                None \<Rightarrow> throw (NoReturn ''assertion failed'') | Some os \<Rightarrow> sw_wr os
         else sw_wr (hextileEncode (enc_wp E) (enc_bytes E) 0 img r)) = sw_wr bs \<and> draws dec encodingHextile r bs (draw r img)"
  proof (cases "improvedHextile E")
    case True
    obtain bs where bs: "hextileEncodeBetter (enc_wp E) (enc_bytes E) img r = Some bs"
      using better_roundtrip [of "replicate 256 0" img r, where fb = img] by fastforce
    have "draws dec encodingHextile r bs (draw r img)"
      by (rule draws_hextile) (use better_roundtrip [of _ img r] bs in \<open>fastforce simp: draw_def\<close>)
    then show ?thesis using True bs by auto
  next
    case False
    have "draws dec encodingHextile r (hextileEncode (enc_wp E) (enc_bytes E) 0 img r) (draw r img)"
    proof (rule draws_hextile)
      fix buf :: "'a word list" and fb rest
      assume "256 \<le> length buf"
      from hextile_roundtrip [OF this]
      show "hextileDecode (dec_rp dec) (dec_zero dec) r buf fb (hextileEncode (enc_wp E) (enc_bytes E) 0 img r @ rest) =
          Inr (draw r img fb, rest)" by (simp add: draw_def zero)
    qed
    then show ?thesis using False by auto
  qed
  then obtain bs where bs: "(if improvedHextile E
         then case hextileEncodeBetter (enc_wp E) (enc_bytes E) img r of
                None \<Rightarrow> throw (NoReturn ''assertion failed'') | Some os \<Rightarrow> sw_wr os
         else sw_wr (hextileEncode (enc_wp E) (enc_bytes E) 0 img r)) = sw_wr bs"
    and d: "draws dec encodingHextile r bs (draw r img)" by blast
  show ?thesis unfolding Hextile_writeRect_def bs by (rule sends_rect [OF assms _ d]) (simp add: real_encoding_def)
qed

lemma sends_writeRect:
  assumes "screen_ok cp (enc_bytes E)" and "on_screen cp r" and "has_room s 1"
    and "currentEncoding (sw_cp s) \<in> {encodingRaw, encodingRRE, encodingHextile}"
  shows "sends (writeRect E img r) s img r"
  using assms(4) sends_raw [OF assms(1-3)] sends_rre [OF assms(1-3)] sends_hextile [OF assms(3)]
  by (auto simp: writeRect_def getting_def sw_writeRect_def encoding_defs sends_def puts_def)

subsection \<open>All rectangles of an update\<close>

text \<open>A step that returns \<open>x\<close> and sends \<open>n\<close> rectangles, which draw \<open>f\<close>.\<close>

definition updates :: "ConnParams \<Rightarrow> (SMsgWriter, 'b) act \<Rightarrow> SMsgWriter \<Rightarrow> 'b \<Rightarrow> nat \<Rightarrow> ('a word image \<Rightarrow> 'a word image) \<Rightarrow> SMsgWriter \<Rightarrow> bool" where
  "updates cp m s x n f s' \<longleftrightarrow> (\<exists>bs. puts m s x bs (int n) s' \<and> reads dec cp n bs f)"

lemma updates_bindA:
  "updates cp m s x k f s' \<Longrightarrow> updates cp (h x) s' y l g s'' \<Longrightarrow> updates cp (bindA m h) s y (k + l) (\<lambda>fb. g (f fb)) s''"
  unfolding updates_def using puts_bindA [of m s x _ _ s' h y _ _ s''] reads_add [of dec cp k _ f l _ g] by (metis of_nat_add)

lemma updates_ret: "updates cp (ret x) s x 0 (\<lambda>fb. fb) s"
  using puts_ret [of x s] reads_0 by (auto simp: updates_def)

lemma updates_room: "updates cp m s x k f s' \<Longrightarrow> has_room s (int k + l) \<Longrightarrow> has_room s' l"
  by (auto simp: updates_def puts_def simp: emits_rects_def has_room_def)

lemma updates_cp: "updates cp m s x k f s' \<Longrightarrow> sw_cp s' = sw_cp s"
  by (auto simp: updates_def puts_def emits_rects_def)

lemma updates_writeRect:
  assumes "screen_ok cp (enc_bytes E)" and "on_screen cp r" and "has_room s 1"
    and "currentEncoding (sw_cp s) \<in> {encodingRaw, encodingRRE, encodingHextile}"
  shows "\<exists>s'. updates cp (writeRect E img r) s None 1 (draw r img) s'"
  using sends_writeRect [OF assms, of img] reads_rect [OF assms(1,2)] unfolding sends_def updates_def by (metis of_nat_1)

lemma updates_copyRect:
  assumes "screen_ok cp (enc_bytes E)" and "on_screen cp r" and "has_room s 1"
    and "0 \<le> px (r_tl r) - px d" "px (r_tl r) - px d < 65536" "0 \<le> py (r_tl r) - py d" "py (r_tl r) - py d < 65536"
  shows "\<exists>s'. updates cp (writeCopyRect r (px (r_tl r) - px d) (py (r_tl r) - py d)) s () 1
    (\<lambda>fb. copy_rect (px d) (py d) fb r) s'"
proof -
  have "draws dec encodingCopyRect r (e_U16 (of_int (px (r_tl r) - px d)) @ e_U16 (of_int (py (r_tl r) - py d)))
      (\<lambda>fb. copy_rect (px d) (py d) fb r)"
    unfolding draws_def
  proof (intro allI impI)
    fix c :: "'a word CMsgReader" and rest
    note u = uint_of_int_u16 [OF assms(4,5)] uint_of_int_u16 [OF assms(6,7)]
    assume c: "w_in c = (e_U16 (of_int (px (r_tl r) - px d)) @ e_U16 (of_int (py (r_tl r) - py d))) @ rest"
    show "\<exists>b. (if encodingCopyRect = encodingCopyRect then readCopyRect r else cm_decode dec encodingCopyRect r) c =
        (Inr (), c\<lparr>w_in := rest, cm_bufSize := b, framebuffer := copy_rect (px d) (py d) (framebuffer c) r\<rparr>)"
      using c u by (intro exI [of _ "cm_bufSize c"]) (simp add: readCopyRect_def rd_def act_simps del: of_int_diff)
  qed
  then have "reads dec cp 1 (rect_header r encodingCopyRect @ e_U16 (of_int (px (r_tl r) - px d)) @ e_U16 (of_int (py (r_tl r) - py d)))
      (\<lambda>fb. copy_rect (px d) (py d) fb r)"
    by (intro reads_rect [OF assms(1,2)]) (simp_all add: real_encoding_def)
  with puts_copyRect [OF assms(3), of r "px (r_tl r) - px d" "py (r_tl r) - py d"] show ?thesis
    unfolding updates_def by (metis of_nat_1)
qed

lemma updates_changed:
  assumes "screen_ok cp (enc_bytes E)"
  shows "\<forall>r \<in> set rs. on_screen cp r \<Longrightarrow> has_room s (int (length rs)) \<Longrightarrow>
    currentEncoding (sw_cp s) \<in> {encodingRaw, encodingRRE, encodingHextile} \<Longrightarrow>
    \<exists>s'. updates cp (write_changed E img rs u) s u (length rs) (\<lambda>fb p. if p \<in> (\<Union>r \<in> set rs. rpts r) then img p else fb p) s'"
proof (induction rs arbitrary: s)
  case Nil
  then show ?case using updates_ret by (intro exI [of _ s]) simp
next
  case (Cons r rs)
  obtain s1 where 1: "updates cp (writeRect E img r) s None 1 (draw r img) s1"
    using updates_writeRect [OF assms, of r s img] Cons.prems has_room_less [OF Cons.prems(2), of 1] by auto
  have "has_room s1 (int (length rs))" using updates_room [OF 1] Cons.prems(2) by simp
  then obtain s2 where 2: "updates cp (write_changed E img rs u) s1 u (length rs)
      (\<lambda>fb p. if p \<in> (\<Union>r \<in> set rs. rpts r) then img p else fb p) s2"
    using Cons.IH [of s1] Cons.prems updates_cp [OF 1] by auto
  have "updates cp (bindA (case None of None \<Rightarrow> ret u | Some actual \<Rightarrow> h actual) (write_changed E img rs)) s1 u (0 + length rs)
      (\<lambda>fb p. if p \<in> (\<Union>r \<in> set rs. rpts r) then img p else fb p) s2" for h :: "Rect \<Rightarrow> (SMsgWriter, region) act"
    unfolding option.case by (rule updates_bindA [where h = "write_changed E img rs", OF updates_ret 2])
  note h = this
  have "updates cp (write_changed E img (r # rs) u) s u (1 + (0 + length rs))
      (\<lambda>fb p. if p \<in> (\<Union>r \<in> set rs. rpts r) then img p else draw r img fb p) s2"
    unfolding write_changed.simps by (rule updates_bindA [OF 1]) (rule h)
  moreover have "(\<lambda>fb p. if p \<in> (\<Union>r \<in> set rs. rpts r) then img p else draw r img fb p) =
      (\<lambda>fb p. if p \<in> (\<Union>r \<in> set (r # rs). rpts r) then img p else fb p)"
    by (auto simp: fun_eq_iff draw_rpts)
  ultimately show ?case by (intro exI [of _ s2]) simp
qed

lemma updates_copied:
  assumes "screen_ok cp (enc_bytes E)"
  shows "\<forall>r \<in> set rs. on_screen cp r \<and> 0 \<le> px (r_tl r) - px d \<and> px (r_tl r) - px d < 65536 \<and>
      0 \<le> py (r_tl r) - py d \<and> py (r_tl r) - py d < 65536 \<Longrightarrow> has_room s (int (length rs)) \<Longrightarrow>
    \<exists>s'. updates cp (write_copied d rs) s () (length rs) (\<lambda>fb. foldl (copy_rect (px d) (py d)) fb rs) s'"
proof (induction rs arbitrary: s)
  case Nil
  then show ?case using updates_ret by (intro exI [of _ s]) simp
next
  case (Cons r rs)
  obtain s1 where 1: "updates cp (writeCopyRect r (px (r_tl r) - px d) (py (r_tl r) - py d)) s () 1
      (\<lambda>fb. copy_rect (px d) (py d) fb r) s1"
    using updates_copyRect [OF assms, of r s d] Cons.prems has_room_less [OF Cons.prems(2), of 1] by auto
  have "has_room s1 (int (length rs))" using updates_room [OF 1] Cons.prems(2) by simp
  then obtain s2 where 2: "updates cp (write_copied d rs) s1 () (length rs) (\<lambda>fb. foldl (copy_rect (px d) (py d)) fb rs) s2"
    using Cons.IH [of s1] Cons.prems by auto
  from updates_bindA [OF 1 2] show ?case by auto
qed

lemma updates_of_region: "x = Some y \<Longrightarrow> updates cp (f y) s z n g s' \<Longrightarrow> updates cp (bindA (of_region x) f) s z n g s'"
  using updates_bindA [OF updates_ret, of cp f y s z n g s'] by (simp add: of_region_def)

lemma updates_writeRects:
  assumes "screen_ok cp (enc_bytes E)" and ui: "update_ok cp ui"
    and room: "has_room s (int (numRects (ui_copied ui)) + int (numRects (ui_changed ui)))"
    and enc: "currentEncoding (sw_cp s) \<in> {encodingRaw, encodingRRE, encodingHextile}"
  shows "\<exists>s' u. updates cp (writeRects E img ui) s u (numRects (ui_copied ui) + numRects (ui_changed ui))
      (\<lambda>fb p. if p \<in> pts (ui_changed ui) then img p else moved (pts (ui_copied ui)) (ui_copy_delta ui) fb p) s' \<and>
    denotes u (pts (ui_changed ui) \<union> pts (ui_copied ui))"
proof -
  define d where "d = ui_copy_delta ui"
  have wf: "wf_region (ui_changed ui)" "wf_region (ui_copied ui)"
    and src: "\<forall>(x, y) \<in> pts (ui_copied ui). 0 \<le> x \<and> x < cp_width cp \<and> 0 \<le> y \<and> y < cp_height cp \<and>
        0 \<le> x - px d \<and> x - px d < cp_width cp \<and> 0 \<le> y - py d \<and> y - py d < cp_height cp"
    using ui by (simp_all add: update_ok_def d_def)
  then have scr: "pts (ui_copied ui) \<subseteq> {0..<cp_width cp} \<times> {0..<cp_height cp}"
      "pts (ui_changed ui) \<subseteq> {0..<cp_width cp} \<times> {0..<cp_height cp}"
    using ui by (auto simp: update_ok_def)
  have den: "denotes (ui_changed ui) (pts (ui_changed ui))" "denotes (ui_copied ui) (pts (ui_copied ui))"
    using wf by (simp_all add: denotes_def)
  obtain u0 where u0: "Region_copy (ui_changed ui) = Some u0" "denotes u0 (pts (ui_changed ui))"
    using Region_copy_denotes [OF den(1)] by blast
  obtain u where u: "assign_union u0 (ui_copied ui) = Some u" "denotes u (pts (ui_changed ui) \<union> pts (ui_copied ui))"
    using u0(2) den(2) by (rule assign_ops.unionE)
  obtain rs where rs: "get_rects (ui_copied ui) (px d \<le> 0) (py d \<le> 0) 0 = Some rs" "length rs = numRects (ui_copied ui)"
      "(\<Union>R \<in> set rs. rpts R) = pts (ui_copied ui)" "\<forall>R \<in> set rs. on_screen cp R \<and> (px (r_tl R), py (r_tl R)) \<in> pts (ui_copied ui)"
    by (rule region_on_screen [OF wf(2) scr(1)])
  have safe: "sorted_wrt (copy_safe (px d) (py d)) rs"
    using get_rects_copy_order [OF wf(2), of "px d" "py d"] rs(1) by auto
  have "\<forall>r \<in> set rs. on_screen cp r \<and> 0 \<le> px (r_tl r) - px d \<and> px (r_tl r) - px d < 65536 \<and>
      0 \<le> py (r_tl r) - py d \<and> py (r_tl r) - py d < 65536"
    using rs(4) src assms(1) by (fastforce simp: screen_ok_def)
  moreover have "has_room s (int (length rs))" using has_room_less [OF room] rs(2) by simp
  ultimately obtain s1 where 1: "updates cp (write_copied d rs) s () (length rs) (\<lambda>fb. foldl (copy_rect (px d) (py d)) fb rs) s1"
    using updates_copied [OF assms(1)] by blast
  have moved: "foldl (copy_rect (px d) (py d)) fb rs = moved (pts (ui_copied ui)) d fb" for fb :: "'a word image"
    using copy_in_sequence [OF safe, of fb] rs(3) by (auto simp: fun_eq_iff moved_def)
  obtain qs where qs: "get_rects (ui_changed ui) True True 0 = Some qs" "length qs = numRects (ui_changed ui)"
      "(\<Union>R \<in> set qs. rpts R) = pts (ui_changed ui)" "\<forall>R \<in> set qs. on_screen cp R \<and> (px (r_tl R), py (r_tl R)) \<in> pts (ui_changed ui)"
    by (rule region_on_screen [OF wf(1) scr(2)])
  have "has_room s1 (int (length qs))" using updates_room [OF 1] room rs(2) qs(2) by simp
  then obtain s2 where 2: "updates cp (write_changed E img qs u) s1 u (length qs)
      (\<lambda>fb p. if p \<in> pts (ui_changed ui) then img p else fb p) s2"
    using updates_changed [OF assms(1), of qs s1 img u] qs(3,4) enc updates_cp [OF 1] by auto
  have "updates cp (writeRects E img ui) s u (length rs + length qs)
      (\<lambda>fb p. if p \<in> pts (ui_changed ui) then img p else foldl (copy_rect (px d) (py d)) fb rs p) s2"
    unfolding writeRects_def d_def [symmetric]
    using u0(1) u(1) by (intro updates_of_region [of _ u] updates_of_region [OF rs(1)]
        updates_bindA [OF 1, where h = "\<lambda>_. bindA (of_region (get_rects (ui_changed ui) True True 0)) (\<lambda>todo. write_changed E img todo u)"]
        updates_of_region [OF qs(1)] 2) simp
  then show ?thesis using u(2) unfolding rs(2) qs(2) moved unfolding d_def by blast
qed

subsection \<open>The whole message\<close>

lemma update_message_bytes:
  assumes s: "writer_idle s" and body: "updates cp body (writer_started s n) x n f s'"
  shows "\<exists>bs s''. update_message cb (int n) body s = (Inr x, s'') \<and> realOS s'' = realOS s @ [0, 0] @ e_U16 (of_nat n) @ bs \<and>
    writer_idle s'' \<and> sw_cp s'' = sw_cp s \<and> reads dec cp n bs f"
proof -
  have start: "writeFramebufferUpdateStart cb (int n) s = (Inr (), writer_started s n)"
    using s by (simp add: writeFramebufferUpdateStart_def act_simps sw_startMsg_def sw_wr_def writer_idle_def needFakeUpdate_def
        msgTypeFramebufferUpdate_def writer_started_def Let_def)
  obtain bs where b: "body (writer_started s n) = (Inr x, s')" "reads dec cp n bs f"
      "emits_rects (writer_started s n) bs (int n) s'"
    using body by (auto simp: updates_def puts_def)
  have s': "\<not> os_is_update s'" "\<not> needFakeUpdate s'" "nRectsInUpdate s' = nRectsInHeader s'" "sw_cp s' = sw_cp s"
      "realOS s' = realOS s @ [0, 0] @ e_U16 (of_nat n) @ bs"
    using b(3) s by (auto simp: emits_rects_def writer_started_def writer_idle_def needFakeUpdate_def sw_os_def)
  have "writeFramebufferUpdateEnd s' = (Inr (), s'\<lparr>updatesSent := updatesSent s' + 1\<rparr>)"
    using s' by (simp add: writeFramebufferUpdateEnd_def writeDesktopSizeRect_def writeDesktopNameRect_def act_simps needFakeUpdate_def)
  then show ?thesis
    using s' b start by (simp add: update_message_def bindA_def ret_def writer_idle_def needFakeUpdate_def)
qed

text \<open>The reader between two messages takes the whole of it.\<close>

lemma update_message_read:
  assumes "reads dec cp n bs f" and "w_in c = [0, 0] @ e_U16 (of_nat n) @ bs @ rest" and "cm_cp c = cp" and "nUpdateRectsLeft c = 0"
    and "n < 65536"
  shows "\<exists>c'. cm_readMsgs dec (Suc n) c = (Inr (), c') \<and> w_in c' = rest \<and> cm_cp c' = cp \<and> framebuffer c' = f (framebuffer c) \<and>
    nUpdateRectsLeft c' = 0 \<and> update_ends c' = update_ends c + (if n = 0 then 0 else 1)"
proof -
  define c1 where "c1 = c\<lparr>w_in := bs @ rest, nUpdateRectsLeft := int n, cm_calls := cm_calls c @ [FramebufferUpdateStart]\<rparr>"
  have skip: "p_skip 1 (0 # xs) = Inr ((), xs)" for xs by (simp add: p_skip_def p_take_def)
  have "uint (of_nat n :: u16) = int n" using assms(5) by (simp add: uint_nat unat_of_nat)
  then have "cm_readMsg dec c = (Inr (), c1)"
    using assms(2,4) skip by (simp add: cm_readMsg_def cm_readMsgType_def act_simps rd_def readFramebufferUpdate_def
        msgTypeFramebufferUpdate_def call_handler_def c1_def)
  moreover have "w_in c1 = bs @ rest" "cm_cp c1 = cp" "int n \<le> nUpdateRectsLeft c1" "nUpdateRectsLeft c1 = int n" "framebuffer c1 = framebuffer c"
      "update_ends c1 = update_ends c"
    using assms(3) by (simp_all add: c1_def update_ends_def)
  ultimately show ?thesis
    using assms(1) [unfolded reads_def, rule_format, of c1 rest] by (auto simp: bindA_def)
qed

end

subsection \<open>The pixel sizes of the code\<close>

definition encoders8 :: "bool \<Rightarrow> (u32 \<Rightarrow> 8 word image \<Rightarrow> Rect \<Rightarrow> (SMsgWriter, Rect option) act) \<Rightarrow> 8 word encoders" where
  "encoders8 improved other = \<lparr>enc_wp = wp8, enc_bytes = 1, improvedHextile = improved, enc_junk = 0, enc_other = other\<rparr>"

definition encoders16 :: "bool \<Rightarrow> (u32 \<Rightarrow> 16 word image \<Rightarrow> Rect \<Rightarrow> (SMsgWriter, Rect option) act) \<Rightarrow> 16 word encoders" where
  "encoders16 improved other = \<lparr>enc_wp = wp16, enc_bytes = 2, improvedHextile = improved, enc_junk = 0, enc_other = other\<rparr>"

definition encoders32 :: "bool \<Rightarrow> (u32 \<Rightarrow> 32 word image \<Rightarrow> Rect \<Rightarrow> (SMsgWriter, Rect option) act) \<Rightarrow> 32 word encoders" where
  "encoders32 improved other = \<lparr>enc_wp = wp32, enc_bytes = 4, improvedHextile = improved, enc_junk = 0, enc_other = other\<rparr>"

definition decoders8 :: "(u32 \<Rightarrow> Rect \<Rightarrow> (8 word CMsgReader, unit) act) \<Rightarrow> 8 word decoders" where
  "decoders8 other = \<lparr>dec_rp = p_U8, dec_bytes = 1, dec_zero = 0, dec_junk = (\<lambda>_. 0), dec_other = other\<rparr>"

definition decoders16 :: "(u32 \<Rightarrow> Rect \<Rightarrow> (16 word CMsgReader, unit) act) \<Rightarrow> 16 word decoders" where
  "decoders16 other = \<lparr>dec_rp = p_Opaque16, dec_bytes = 2, dec_zero = 0, dec_junk = (\<lambda>_. 0), dec_other = other\<rparr>"

definition decoders32 :: "(u32 \<Rightarrow> Rect \<Rightarrow> (32 word CMsgReader, unit) act) \<Rightarrow> 32 word decoders" where
  "decoders32 other = \<lparr>dec_rp = p_Opaque32, dec_bytes = 4, dec_zero = 0, dec_junk = (\<lambda>_. 0), dec_other = other\<rparr>"

interpretation link8: update_link "encoders8 improved other" "decoders8 other'" for improved other other'
  by (simp add: update_link_def update_link_axioms_def encoders8_def decoders8_def wpx8.word_pixel_io_axioms del: One_nat_def)

interpretation link16: update_link "encoders16 improved other" "decoders16 other'" for improved other other'
  by (simp add: update_link_def update_link_axioms_def encoders16_def decoders16_def wpx16.word_pixel_io_axioms)

interpretation link32: update_link "encoders32 improved other" "decoders32 other'" for improved other other'
  by (simp add: update_link_def update_link_axioms_def encoders32_def decoders32_def wpx32.word_pixel_io_axioms)

subsection \<open>The contract\<close>

lemma update_message_shown:
  assumes link: "update_link E dec" and s: "writer_idle s"
    and enc: "currentEncoding (sw_cp s) \<in> {encodingRaw, encodingRRE, encodingHextile}"
    and scr: "screen_ok cp (enc_bytes E)" and ui: "update_ok cp ui"
    and n: "n = numRects (ui_copied ui) + numRects (ui_changed ui)" "0 < n" "n < 65536"
  shows "\<exists>bs s' u. update_message cb (int n) (writeRects E img ui) s = (Inr u, s') \<and> writer_idle s' \<and> sw_cp s' = sw_cp s \<and>
    realOS s' = realOS s @ bs \<and> denotes u (pts (ui_changed ui) \<union> pts (ui_copied ui)) \<and>
    (\<forall>c rest. w_in c = bs @ rest \<longrightarrow> cm_cp c = cp \<longrightarrow> nUpdateRectsLeft c = 0 \<longrightarrow>
      (\<exists>c'. cm_readMsgs dec (Suc n) c = (Inr (), c') \<and> w_in c' = rest \<and> cm_cp c' = cp \<and> nUpdateRectsLeft c' = 0 \<and>
        update_ends c' = update_ends c + 1 \<and>
        framebuffer c' = (\<lambda>p. if p \<in> pts (ui_changed ui) then img p
          else moved (pts (ui_copied ui)) (ui_copy_delta ui) (framebuffer c) p)))"
proof -
  have "has_room (writer_started s n) (int (numRects (ui_copied ui)) + int (numRects (ui_changed ui)))"
    using writer_started_room [of s n] n(1) by simp
  then obtain s1 u where u: "update_link.updates dec cp (writeRects E img ui) (writer_started s n) u n
      (\<lambda>fb p. if p \<in> pts (ui_changed ui) then img p else moved (pts (ui_copied ui)) (ui_copy_delta ui) fb p) s1"
      "denotes u (pts (ui_changed ui) \<union> pts (ui_copied ui))"
    using update_link.updates_writeRects [OF link scr ui, of "writer_started s n" img] enc n(1) by (auto simp: writer_started_cp)
  from update_link.update_message_bytes [OF link s u(1), of cb] obtain bs s' where
    m: "update_message cb (int n) (writeRects E img ui) s = (Inr u, s')" "realOS s' = realOS s @ [0, 0] @ e_U16 (of_nat n) @ bs"
      "writer_idle s'" "sw_cp s' = sw_cp s" "reads dec cp n bs (\<lambda>fb p. if p \<in> pts (ui_changed ui) then img p
        else moved (pts (ui_copied ui)) (ui_copy_delta ui) fb p)" by blast
  have read: "\<exists>c'. cm_readMsgs dec (Suc n) c = (Inr (), c') \<and> w_in c' = rest \<and> cm_cp c' = cp \<and> nUpdateRectsLeft c' = 0 \<and>
      update_ends c' = update_ends c + 1 \<and>
      framebuffer c' = (\<lambda>p. if p \<in> pts (ui_changed ui) then img p
        else moved (pts (ui_copied ui)) (ui_copy_delta ui) (framebuffer c) p)"
    if "w_in c = ([0, 0] @ e_U16 (of_nat n) @ bs) @ rest" "cm_cp c = cp" "nUpdateRectsLeft c = 0" for c rest
    using update_link.update_message_read [OF link m(5), of c rest] n(2,3) that by auto
  have "realOS s' = realOS s @ ([0, 0] @ e_U16 (of_nat n) @ bs)" using m(2) by simp
  with m(1,3,4) u(2) read show ?thesis by blast
qed

text \<open>C6: An update whose regions lie on the screen, written by \<open>writeFramebufferUpdateStart\<close>, \<open>writeRects\<close> and
  \<open>writeFramebufferUpdateEnd\<close> in one of the encodings Raw, RRE and Hextile, never gets its rectangle count out of
  sync: the writer returns the regions sent and is idle again, and a reader of the same pixel size that takes the
  message and its rectangles shows the server's pixels in the changed region and the moved ones in the
  copied region, announces the end of the update once, and leaves what follows on the stream.\<close>

theorem update_shown:
  assumes link: "update_link E dec" and s: "writer_idle s"
    and enc: "currentEncoding (sw_cp s) \<in> {encodingRaw, encodingRRE, encodingHextile}"
    and scr: "screen_ok cp (enc_bytes E)" and ui: "update_ok cp ui"
    and n: "n = numRects (ui_copied ui) + numRects (ui_changed ui)" "0 < n" "n < 65536"
  shows "\<exists>bs s' u. update_message cb (int n) (writeRects E img ui) s = (Inr u, s') \<and> writer_idle s' \<and>
    realOS s' = realOS s @ bs \<and> denotes u (pts (ui_changed ui) \<union> pts (ui_copied ui)) \<and>
    (\<forall>c rest. w_in c = bs @ rest \<longrightarrow> cm_cp c = cp \<longrightarrow> nUpdateRectsLeft c = 0 \<longrightarrow>
      (\<exists>c'. cm_readMsgs dec (Suc n) c = (Inr (), c') \<and> w_in c' = rest \<and> cm_cp c' = cp \<and> nUpdateRectsLeft c' = 0 \<and>
        update_ends c' = update_ends c + 1 \<and>
        framebuffer c' = (\<lambda>p. if p \<in> pts (ui_changed ui) then img p
          else moved (pts (ui_copied ui)) (ui_copy_delta ui) (framebuffer c) p)))"
  using update_message_shown [OF assms, of cb img] by blast

definition small_update :: UpdateInfo where
  "small_update = \<lparr>
     ui_changed = \<lparr>rsize = 1, rects = [\<lparr>bx1 = 1, bx2 = 3, by1 = 0, by2 = 2\<rparr>], extents = \<lparr>bx1 = 1, bx2 = 3, by1 = 0, by2 = 2\<rparr>\<rparr>,
     ui_copied = \<lparr>rsize = 1, rects = [\<lparr>bx1 = 4, bx2 = 7, by1 = 3, by2 = 8\<rparr>], extents = \<lparr>bx1 = 4, bx2 = 7, by1 = 3, by2 = 8\<rparr>\<rparr>,
     ui_copy_delta = \<lparr>px = 2, py = 1\<rparr>, ui_video_area = rect_clear\<rparr>"

definition small_screen :: ConnParams where
  "small_screen = newConnParams\<lparr>cp_width := 8, cp_height := 8\<rparr>"

lemma small_update_pts:
  "pts (ui_changed small_update) = {1..<3} \<times> {0..<2}" "wf_region (ui_changed small_update)"
  "pts (ui_copied small_update) = {4..<7} \<times> {3..<8}" "wf_region (ui_copied small_update)"
  by (simp_all add: small_update_def single_box_region)

lemma small_update_ok: "update_ok small_screen small_update"
proof -
  have "ui_copy_delta small_update = \<lparr>px = 2, py = 1\<rparr>" "cp_width small_screen = 8" "cp_height small_screen = 8"
    by (simp_all add: small_update_def small_screen_def)
  then show ?thesis unfolding update_ok_def by (auto simp: small_update_pts)
qed

lemma update_shown_witness:
  "\<exists>bs s' u. update_message (ret ()) 2 (writeRects (encoders8 True (\<lambda>_ _ _. ret None)) (\<lambda>(x, y). of_int (x + y)) small_update)
      (newSMsgWriter small_screen []) = (Inr u, s') \<and> realOS s' = bs \<and>
    (\<exists>c'. cm_readMsgs (decoders8 (\<lambda>_ _. ret ())) 3 ((newCMsgReader small_screen (\<lambda>_. 0))\<lparr>w_in := bs\<rparr>) = (Inr (), c') \<and>
      framebuffer c' (2, 1) = 3 \<and> framebuffer c' (0, 0) = 0)"
proof -
  have h: "writer_idle (newSMsgWriter small_screen [])"
      "currentEncoding (sw_cp (newSMsgWriter small_screen [])) \<in> {encodingRaw, encodingRRE, encodingHextile}"
      "screen_ok small_screen (enc_bytes (encoders8 True (\<lambda>_ _ _. ret None)))"
      "2 = numRects (ui_copied small_update) + numRects (ui_changed small_update)" "(0 :: nat) < 2" "(2 :: nat) < 65536"
    by (simp_all add: newSMsgWriter_def writer_idle_def needFakeUpdate_def screen_ok_def small_screen_def small_update_def
        encoders8_def newConnParams_def)
  have of_2: "(2 :: int) = int 2" "3 = Suc 2" by simp_all
  define c where "c = (newCMsgReader small_screen (\<lambda>_. 0 :: 8 word))"
  have c: "w_in (c\<lparr>w_in := bs\<rparr>) = bs @ []" "cm_cp (c\<lparr>w_in := bs\<rparr>) = small_screen" "nUpdateRectsLeft (c\<lparr>w_in := bs\<rparr>) = 0"
      "framebuffer (c\<lparr>w_in := bs\<rparr>) = (\<lambda>_. 0)" "realOS (newSMsgWriter small_screen []) @ bs = bs" for bs
    by (simp_all add: c_def newCMsgReader_def newSMsgWriter_def)
  show ?thesis
    using update_shown [OF link8.update_link_axioms [where other' = "\<lambda>_ _. ret ()"] h(1-3) small_update_ok h(4-6), of "ret ()" "\<lambda>(x, y). of_int (x + y)"]
    unfolding of_2 c_def [symmetric] using c by (fastforce simp: small_update_pts moved_def)
qed

end
