(* ===== verification/Rfb_PixelBuffer.thy ===== *)
theory Rfb_PixelBuffer
  imports Rfb_Region Rfb_Raw
begin

text \<open>
  Pixel buffers in memory, \<open>common/rfb/PixelBuffer.cxx\<close>: filling, drawing, masking and moving rectangles of an
  array of pixels with a stride, and that these operations do on the array what the decoders and the
  trackers say of images. A pixel is an element of the array, so the byte counts of the code are
  pixel counts here.
\<close>

subsection \<open>Rows in memory\<close>

text \<open>\<open>memcpy\<close> from and to an array: an access outside is \<open>None\<close>, and copying nothing is no access. A negative count is
  an enormous one.\<close>

definition get_row :: "'p list \<Rightarrow> int \<Rightarrow> int \<Rightarrow> 'p list option" where
  "get_row data off n =
     (if n = 0 then Some []
      else if 0 < n \<and> 0 \<le> off \<and> off + n \<le> int (length data) then Some (take (nat n) (drop (nat off) data)) else None)"

definition put_row :: "'p list \<Rightarrow> int \<Rightarrow> 'p list \<Rightarrow> 'p list option" where
  "put_row data off rw =
     (if rw = [] then Some data
      else if 0 \<le> off \<and> off + int (length rw) \<le> int (length data)
      then Some (take (nat off) data @ rw @ drop (nat off + length rw) data) else None)"

fun get_rows :: "'p list \<Rightarrow> int \<Rightarrow> int \<Rightarrow> int \<Rightarrow> nat \<Rightarrow> 'p list list option" where
  "get_rows data off stride w 0 = Some []"
| "get_rows data off stride w (Suc n) =
     do { rw \<leftarrow> get_row data off w; rows \<leftarrow> get_rows data (off + stride) stride w n; Some (rw # rows) }"

fun put_rows :: "'p list \<Rightarrow> int \<Rightarrow> int \<Rightarrow> 'p list list \<Rightarrow> 'p list option" where
  "put_rows data off stride [] = Some data"
| "put_rows data off stride (rw # rows) =
     do { data \<leftarrow> put_row data off rw; put_rows data (off + stride) stride rows }"

fun move_rows :: "'p list \<Rightarrow> int \<Rightarrow> int \<Rightarrow> int \<Rightarrow> int \<Rightarrow> nat \<Rightarrow> 'p list option" where
  "move_rows data dest from w step 0 = Some data"
| "move_rows data dest from w step (Suc n) =
     do { rw \<leftarrow> get_row data from w; data \<leftarrow> put_row data dest rw; move_rows data (dest + step) (from + step) w step n }"

text \<open>How often a loop runs that starts at a pointer and adds the row size until \<open>h\<close> rows are behind it.\<close>

definition row_count :: "int \<Rightarrow> int \<Rightarrow> nat" where
  "row_count stride h = (if 0 < stride \<and> 0 < h then nat h else 0)"

subsection \<open>The buffer\<close>

record 'p PixelBuffer =
  pb_width :: int
  pb_height :: int
  pb_stride :: int
  pb_data :: "'p list"

definition pb_getRect :: "'p PixelBuffer \<Rightarrow> Rect" where
  "pb_getRect pb = mkRect 0 0 (pb_width pb) (pb_height pb)"

definition getPixels :: "'p PixelBuffer \<Rightarrow> Rect \<Rightarrow> int" where
  "getPixels pb r = px (r_tl r) + py (r_tl r) * pb_stride pb"

definition set_data :: "'p PixelBuffer \<Rightarrow> 'p list option \<Rightarrow> 'p PixelBuffer option" where
  "set_data pb data = map_option (\<lambda>d. pb\<lparr>pb_data := d\<rparr>) data"

text \<open>\<open>getImage\<close> of the base class, into a buffer of the caller.\<close>

definition pb_getImage :: "'p PixelBuffer \<Rightarrow> 'p list \<Rightarrow> Rect \<Rightarrow> int \<Rightarrow> 'p list option" where
  "pb_getImage pb imageBuf r outStride =
     (let outStride = (if outStride = 0 then rect_width r else outStride)
      in do { rows \<leftarrow> get_rows (pb_data pb) (getPixels pb r) (pb_stride pb) (rect_width r) (row_count (pb_stride pb) (rect_height r));
              put_rows imageBuf 0 outStride rows })"

text \<open>A negative width fills nothing, but for one-byte pixels, where \<open>memset\<close> gets it.\<close>

definition pb_fillRect :: "nat \<Rightarrow> 'p PixelBuffer \<Rightarrow> Rect \<Rightarrow> 'p \<Rightarrow> 'p PixelBuffer option" where
  "pb_fillRect bytes pb r pix =
     (let n = row_count (pb_stride pb) (rect_height r)
      in if rect_width r < 0 \<and> bytes = 1 \<and> 0 < n then None
         else set_data pb (put_rows (pb_data pb) (getPixels pb r) (pb_stride pb) (replicate n (replicate (nat (rect_width r)) pix))))"

definition pb_imageRect :: "'p PixelBuffer \<Rightarrow> Rect \<Rightarrow> 'p list \<Rightarrow> int \<Rightarrow> 'p PixelBuffer option" where
  "pb_imageRect pb r pixels srcStride =
     (let srcStride = (if srcStride = 0 then rect_width r else srcStride)
      in do { rows \<leftarrow> get_rows pixels 0 srcStride (rect_width r) (row_count (pb_stride pb) (rect_height r));
              set_data pb (put_rows (pb_data pb) (getPixels pb r) (pb_stride pb) rows) })"

definition pb_copyRect :: "'p PixelBuffer \<Rightarrow> Rect \<Rightarrow> Point \<Rightarrow> 'p PixelBuffer option" where
  "pb_copyRect pb rect move_by_delta =
     (let srect = rect_translate rect (point_negate move_by_delta);
          stride = pb_stride pb;
          n = nat (py (r_br rect) - py (r_tl rect))
      in set_data pb
        (if py move_by_delta \<le> 0
         then move_rows (pb_data pb) (px (r_tl rect) + py (r_tl rect) * stride) (px (r_tl srect) + py (r_tl srect) * stride)
                (rect_width rect) stride n
         else move_rows (pb_data pb) (px (r_tl rect) + (py (r_br rect) - 1) * stride) (px (r_tl srect) + (py (r_br srect) - 1) * stride)
                (rect_width rect) (- stride) n))"

subsection \<open>Masks\<close>

text \<open>One pixel of \<open>maskRect\<close>: \<open>pick\<close> is the pixel to write there.\<close>

definition mask_pixel :: "u8 list \<Rightarrow> int \<Rightarrow> int \<Rightarrow> ('p list \<Rightarrow> 'p list option) \<Rightarrow> 'p list \<Rightarrow> 'p list option" where
  "mask_pixel msk pos cx write data =
     (let i = pos + cx div 8
      in if i < 0 \<or> int (length msk) \<le> i then None
         else if bit (msk ! nat i) (7 - nat (cx mod 8)) then write data else Some data)"

fun mask_row :: "u8 list \<Rightarrow> int \<Rightarrow> int \<Rightarrow> int \<Rightarrow> (int \<Rightarrow> 'p option) \<Rightarrow> nat \<Rightarrow> 'p list \<Rightarrow> 'p list option" where
  "mask_row msk pos off cx pick 0 data = Some data"
| "mask_row msk pos off cx pick (Suc n) data =
     do { data \<leftarrow> mask_pixel msk pos cx (\<lambda>data. do { p \<leftarrow> pick cx; put_row data off [p] }) data;
          mask_row msk pos (off + 1) (cx + 1) pick n data }"

fun mask_rows :: "u8 list \<Rightarrow> int \<Rightarrow> int \<Rightarrow> int \<Rightarrow> int \<Rightarrow> int \<Rightarrow> int \<Rightarrow> (int \<Rightarrow> int \<Rightarrow> 'p option) \<Rightarrow> nat \<Rightarrow> nat \<Rightarrow> 'p list \<Rightarrow> 'p list option" where
  "mask_rows msk pos maskStride off stride cx cy pick w 0 data = Some data"
| "mask_rows msk pos maskStride off stride cx cy pick w (Suc n) data =
     do { data \<leftarrow> mask_row msk pos off cx (pick cy) w data;
          mask_rows msk (pos + maskStride) maskStride (off + stride) stride cx (cy + 1) pick w n data }"

definition mask_rect :: "'p PixelBuffer \<Rightarrow> Rect \<Rightarrow> (int \<Rightarrow> int \<Rightarrow> 'p option) \<Rightarrow> u8 list \<Rightarrow> 'p PixelBuffer option" where
  "mask_rect pb r pick msk =
     (let cr = rect_intersect (pb_getRect pb) r
      in if rect_is_empty cr then Some pb
         else
           let maskStride = (rect_width r + 7) div 8;
               offset = point_subtract (r_tl cr) (r_tl r)
           in set_data pb (mask_rows msk (py offset * maskStride) maskStride (getPixels pb cr) (pb_stride pb) (px offset) (py offset)
                pick (nat (rect_width cr)) (nat (rect_height cr)) (pb_data pb)))"

definition list_at :: "'p list \<Rightarrow> int \<Rightarrow> 'p option" where
  "list_at l i = (if 0 \<le> i \<and> i < int (length l) then Some (l ! nat i) else None)"

definition pb_maskRect :: "'p PixelBuffer \<Rightarrow> Rect \<Rightarrow> 'p list \<Rightarrow> u8 list \<Rightarrow> 'p PixelBuffer option" where
  "pb_maskRect pb r pixels msk = mask_rect pb r (\<lambda>cy cx. list_at pixels (cy * rect_width r + cx)) msk"

definition pb_maskRect_pixel :: "'p PixelBuffer \<Rightarrow> Rect \<Rightarrow> 'p \<Rightarrow> u8 list \<Rightarrow> 'p PixelBuffer option" where
  "pb_maskRect_pixel pb r pixel msk = mask_rect pb r (\<lambda>cy cx. Some pixel) msk"

subsection \<open>Pixels by coordinates\<close>

text \<open>The array holds rows of \<open>stride\<close> pixels, more than the width if need be.\<close>

definition wf_pb :: "'p PixelBuffer \<Rightarrow> bool" where
  "wf_pb pb \<longleftrightarrow> 0 \<le> pb_width pb \<and> pb_width pb \<le> pb_stride pb \<and> 0 \<le> pb_height pb \<and>
     int (length (pb_data pb)) = pb_stride pb * pb_height pb"

definition data_at :: "'p list \<Rightarrow> int \<Rightarrow> int \<times> int \<Rightarrow> 'p" where
  "data_at data stride = (\<lambda>(x, y). data ! nat (x + y * stride))"

definition pb_at :: "'p PixelBuffer \<Rightarrow> 'p image" where
  "pb_at pb = data_at (pb_data pb) (pb_stride pb)"

lemma row_index:
  fixes x y stride h :: int
  assumes "0 \<le> x" "x < stride" "0 \<le> y" "y < h"
  shows "0 \<le> x + y * stride" and "x + y * stride < stride * h"
proof -
  show "0 \<le> x + y * stride" using assms by simp
  have "x + y * stride < (y + 1) * stride" using assms by (simp add: distrib_right)
  also have "\<dots> \<le> h * stride" using assms by (intro mult_right_mono) auto
  finally show "x + y * stride < stride * h" by (simp add: mult.commute)
qed

lemma row_index_inj:
  fixes x y x' y' stride :: int
  assumes "0 \<le> x" "x < stride" "0 \<le> x'" "x' < stride"
  shows "x + y * stride = x' + y' * stride \<longleftrightarrow> x = x' \<and> y = y'"
proof -
  have "(x + y * stride) div stride = y" "(x' + y' * stride) div stride = y'"
    using assms by (simp_all add: div_add1_eq)
  then show ?thesis by auto
qed

lemma get_row_at:
  assumes "0 \<le> x" "0 \<le> w" "x + w \<le> stride" "0 \<le> y" "y < h" "int (length data) = stride * h"
  shows "get_row data (x + y * stride) w = Some (map (\<lambda>i. data_at data stride (x + int i, y)) [0..<nat w])"
proof (cases "w = 0")
  case False
  then have "x + (w - 1) + y * stride < stride * h" "0 \<le> x + y * stride" using assms row_index [of _ stride y h] by auto
  moreover obtain k where k: "int k = x + y * stride" "nat (x + y * stride) = k" using calculation(2) by (metis nat_0_le)
  moreover have kl: "k \<le> length data" using calculation assms False by linarith
  moreover have "take (nat w) (drop k data) = map (\<lambda>i. data_at data stride (x + int i, y)) [0..<nat w]"
  proof (rule nth_equalityI)
    show "length (take (nat w) (drop k data)) = length (map (\<lambda>i. data_at data stride (x + int i, y)) [0..<nat w])"
      using calculation(1) k assms by simp
    have "nat (x + int i + y * stride) = k + i" for i using k by simp
    then show "take (nat w) (drop k data) ! i = map (\<lambda>i. data_at data stride (x + int i, y)) [0..<nat w] ! i"
      if "i < length (take (nat w) (drop k data))" for i using that kl by (simp add: data_at_def)
  qed
  ultimately show ?thesis using False assms by (simp add: get_row_def)
qed (simp add: get_row_def)

lemma put_row_at:
  assumes "0 \<le> x" "x + int (length rw) \<le> stride" "0 \<le> y" "y < h" "int (length data) = stride * h"
  shows "\<exists>data'. put_row data (x + y * stride) rw = Some data' \<and> int (length data') = stride * h \<and>
    (\<forall>u v. 0 \<le> u \<longrightarrow> u < stride \<longrightarrow> 0 \<le> v \<longrightarrow> v < h \<longrightarrow> data_at data' stride (u, v) =
      (if v = y \<and> x \<le> u \<and> u < x + int (length rw) then rw ! nat (u - x) else data_at data stride (u, v)))"
proof (cases "rw = []")
  case True
  then show ?thesis using assms by (auto simp: put_row_def)
next
  case False
  define k0 where "k0 = nat (x + y * stride)"
  have b: "x + (int (length rw) - 1) + y * stride < stride * h" "0 \<le> x + y * stride"
    using assms False row_index [of _ stride y h] by (auto simp: Suc_le_eq)
  then have o: "int k0 = x + y * stride" "k0 + length rw \<le> length data" using assms(5) by (auto simp: k0_def)
  have "(take k0 data @ rw @ drop (k0 + length rw) data) ! nat (u + v * stride) =
      (if v = y \<and> x \<le> u \<and> u < x + int (length rw) then rw ! nat (u - x) else data ! nat (u + v * stride))"
    if u: "0 \<le> u" "u < stride" "0 \<le> v" "v < h" for u v
  proof -
    define k where "k = nat (u + v * stride)"
    have k: "int k = u + v * stride" "k < length data" using row_index [OF u] assms(5) by (auto simp: k_def)
    have "k0 \<le> k \<and> k < k0 + length rw \<longleftrightarrow> v = y \<and> x \<le> u \<and> u < x + int (length rw)"
    proof
      assume "k0 \<le> k \<and> k < k0 + length rw"
      then obtain i where i: "k = k0 + i" "i < length rw" by (metis add_less_cancel_left le_Suc_ex)
      then have "u + v * stride = (x + int i) + y * stride" using k o by simp
      then have "u = x + int i \<and> v = y" using row_index_inj [of u stride "x + int i" v y] u assms i(2) by simp
      then show "v = y \<and> x \<le> u \<and> u < x + int (length rw)" using i by simp
    next
      assume "v = y \<and> x \<le> u \<and> u < x + int (length rw)"
      then show "k0 \<le> k \<and> k < k0 + length rw" using k o by auto
    qed
    moreover have "k - k0 = nat (u - x)" if "v = y" using that k o by auto
    ultimately show ?thesis using k(2) o(2) unfolding k_def [symmetric] by (auto simp: nth_append)
  qed
  then show ?thesis using b assms(5) False o unfolding put_row_def data_at_def k0_def [symmetric] by auto
qed

lemma get_rows_at:
  assumes "0 \<le> x" "0 \<le> w" "x + w \<le> stride" "int (length data) = stride * h"
  shows "0 \<le> y \<Longrightarrow> y + int n \<le> h \<Longrightarrow> get_rows data (x + y * stride) stride w n =
    Some (map (\<lambda>j. map (\<lambda>i. data_at data stride (x + int i, y + int j)) [0..<nat w]) [0..<n])"
proof (induction n arbitrary: y)
  case (Suc n)
  have "x + y * stride + stride = x + (y + 1) * stride" by (simp add: distrib_right)
  then show ?case
    using Suc.IH [of "y + 1"] Suc.prems get_row_at [OF assms(1-3) Suc.prems(1) _ assms(4)]
    by (simp add: upt_conv_Cons map_Suc_upt [symmetric] comp_def algebra_simps del: upt_Suc)
qed simp

lemma put_rows_at:
  assumes "0 \<le> x" "x + int w \<le> stride"
  shows "0 \<le> y \<Longrightarrow> y + int (length rows) \<le> h \<Longrightarrow> int (length data) = stride * h \<Longrightarrow> \<forall>r \<in> set rows. length r = w \<Longrightarrow>
    \<exists>data'. put_rows data (x + y * stride) stride rows = Some data' \<and> int (length data') = stride * h \<and>
    (\<forall>u v. 0 \<le> u \<longrightarrow> u < stride \<longrightarrow> 0 \<le> v \<longrightarrow> v < h \<longrightarrow> data_at data' stride (u, v) =
      (if y \<le> v \<and> v < y + int (length rows) \<and> x \<le> u \<and> u < x + int w then rows ! nat (v - y) ! nat (u - x) else data_at data stride (u, v)))"
proof (induction rows arbitrary: y data)
  case (Cons r rows)
  obtain d1 where 1: "put_row data (x + y * stride) r = Some d1" "int (length d1) = stride * h"
    "\<And>u v. 0 \<le> u \<Longrightarrow> u < stride \<Longrightarrow> 0 \<le> v \<Longrightarrow> v < h \<Longrightarrow> data_at d1 stride (u, v) =
      (if v = y \<and> x \<le> u \<and> u < x + int w then r ! nat (u - x) else data_at data stride (u, v))"
    using put_row_at [of x r stride y h data] assms Cons.prems by auto
  obtain d2 where 2: "put_rows d1 (x + (y + 1) * stride) stride rows = Some d2" "int (length d2) = stride * h"
    "\<And>u v. 0 \<le> u \<Longrightarrow> u < stride \<Longrightarrow> 0 \<le> v \<Longrightarrow> v < h \<Longrightarrow> data_at d2 stride (u, v) =
      (if y + 1 \<le> v \<and> v < y + 1 + int (length rows) \<and> x \<le> u \<and> u < x + int w then rows ! nat (v - (y + 1)) ! nat (u - x)
       else data_at d1 stride (u, v))"
    using Cons.IH [of "y + 1" d1] Cons.prems 1(2) by auto
  have "put_rows data (x + y * stride) stride (r # rows) = Some d2" using 1(1) 2(1) by (simp add: algebra_simps)
  moreover have "data_at d2 stride (u, v) = (if y \<le> v \<and> v < y + int (length (r # rows)) \<and> x \<le> u \<and> u < x + int w
      then (r # rows) ! nat (v - y) ! nat (u - x) else data_at data stride (u, v))"
    if u: "0 \<le> u" "u < stride" "0 \<le> v" "v < h" for u v
  proof (cases "y + 1 \<le> v")
    case True
    then have "nat (v - y) = Suc (nat (v - (y + 1)))" by simp
    then show ?thesis using True 2(3) [OF u] 1(3) [OF u] by auto
  next
    case False
    then show ?thesis using 2(3) [OF u] 1(3) [OF u] by auto
  qed
  ultimately show ?case using 2(2) by blast
qed auto

text \<open>Moving rows, in the order that does not write a row before it is read.\<close>

lemma move_rows_step:
  assumes "0 \<le> x" "x + w \<le> stride" "0 \<le> x - dx" "x - dx + w \<le> stride" "0 \<le> w"
    and "0 \<le> y" "y < h" "0 \<le> y - dy" "y - dy < h" and "int (length data) = stride * h"
  shows "\<exists>rw data'. get_row data (x - dx + (y - dy) * stride) w = Some rw \<and> put_row data (x + y * stride) rw = Some data' \<and>
    int (length data') = stride * h \<and>
    (\<forall>u v. 0 \<le> u \<longrightarrow> u < stride \<longrightarrow> 0 \<le> v \<longrightarrow> v < h \<longrightarrow> data_at data' stride (u, v) =
      (if v = y \<and> x \<le> u \<and> u < x + w then data_at data stride (u - dx, v - dy) else data_at data stride (u, v)))"
proof -
  let ?rw = "map (\<lambda>i. data_at data stride (x - dx + int i, y - dy)) [0..<nat w]"
  have "get_row data (x - dx + (y - dy) * stride) w = Some ?rw" using get_row_at [of "x - dx" w stride "y - dy" h data] assms by simp
  then show ?thesis using put_row_at [of x ?rw stride y h data] assms by fastforce
qed

lemma move_rows_down:
  assumes "0 \<le> x" "x + w \<le> stride" "0 \<le> x - dx" "x - dx + w \<le> stride" "0 \<le> w" "dy \<le> 0"
  shows "0 \<le> y \<Longrightarrow> y + int n \<le> h \<Longrightarrow> y - dy + int n \<le> h \<Longrightarrow> int (length data) = stride * h \<Longrightarrow>
    \<exists>data'. move_rows data (x + y * stride) (x - dx + (y - dy) * stride) w stride n = Some data' \<and> int (length data') = stride * h \<and>
    (\<forall>u v. 0 \<le> u \<longrightarrow> u < stride \<longrightarrow> 0 \<le> v \<longrightarrow> v < h \<longrightarrow> data_at data' stride (u, v) =
      (if y \<le> v \<and> v < y + int n \<and> x \<le> u \<and> u < x + w then data_at data stride (u - dx, v - dy) else data_at data stride (u, v)))"
proof (induction n arbitrary: y data)
  case (Suc n)
  obtain rw d1 where 1: "get_row data (x - dx + (y - dy) * stride) w = Some rw" "put_row data (x + y * stride) rw = Some d1"
      "int (length d1) = stride * h"
      "\<And>u v. 0 \<le> u \<Longrightarrow> u < stride \<Longrightarrow> 0 \<le> v \<Longrightarrow> v < h \<Longrightarrow> data_at d1 stride (u, v) =
        (if v = y \<and> x \<le> u \<and> u < x + w then data_at data stride (u - dx, v - dy) else data_at data stride (u, v))"
    using move_rows_step [OF assms(1-5), of y h dy data] Suc.prems assms(6) by auto
  obtain d2 where 2: "move_rows d1 (x + (y + 1) * stride) (x - dx + (y + 1 - dy) * stride) w stride n = Some d2" "int (length d2) = stride * h"
      "\<And>u v. 0 \<le> u \<Longrightarrow> u < stride \<Longrightarrow> 0 \<le> v \<Longrightarrow> v < h \<Longrightarrow> data_at d2 stride (u, v) =
        (if y + 1 \<le> v \<and> v < y + 1 + int n \<and> x \<le> u \<and> u < x + w then data_at d1 stride (u - dx, v - dy) else data_at d1 stride (u, v))"
    using Suc.IH [of "y + 1" d1] Suc.prems 1(3) by auto
  have "move_rows data (x + y * stride) (x - dx + (y - dy) * stride) w stride (Suc n) = Some d2"
    using 1(1,2) 2(1) by (simp add: algebra_simps)
  moreover have "data_at d2 stride (u, v) =
      (if y \<le> v \<and> v < y + int (Suc n) \<and> x \<le> u \<and> u < x + w then data_at data stride (u - dx, v - dy) else data_at data stride (u, v))"
    if u: "0 \<le> u" "u < stride" "0 \<le> v" "v < h" for u v
  proof (cases "y + 1 \<le> v \<and> v < y + 1 + int n \<and> x \<le> u \<and> u < x + w")
    case True
    then have "data_at d1 stride (u - dx, v - dy) = data_at data stride (u - dx, v - dy)"
      using 1(4) [of "u - dx" "v - dy"] assms Suc.prems by auto
    then show ?thesis using True 2(3) [OF u] by auto
  next
    case False
    then show ?thesis using 2(3) [OF u] 1(4) [OF u] by auto
  qed
  ultimately show ?case using 2(2) by blast
qed auto

lemma move_rows_up:
  assumes "0 \<le> x" "x + w \<le> stride" "0 \<le> x - dx" "x - dx + w \<le> stride" "0 \<le> w" "0 \<le> dy"
  shows "0 \<le> y - dy - int n + 1 \<Longrightarrow> y < h \<Longrightarrow> int (length data) = stride * h \<Longrightarrow>
    \<exists>data'. move_rows data (x + y * stride) (x - dx + (y - dy) * stride) w (- stride) n = Some data' \<and> int (length data') = stride * h \<and>
    (\<forall>u v. 0 \<le> u \<longrightarrow> u < stride \<longrightarrow> 0 \<le> v \<longrightarrow> v < h \<longrightarrow> data_at data' stride (u, v) =
      (if y - int n < v \<and> v \<le> y \<and> x \<le> u \<and> u < x + w then data_at data stride (u - dx, v - dy) else data_at data stride (u, v)))"
proof (induction n arbitrary: y data)
  case (Suc n)
  obtain rw d1 where 1: "get_row data (x - dx + (y - dy) * stride) w = Some rw" "put_row data (x + y * stride) rw = Some d1"
      "int (length d1) = stride * h"
      "\<And>u v. 0 \<le> u \<Longrightarrow> u < stride \<Longrightarrow> 0 \<le> v \<Longrightarrow> v < h \<Longrightarrow> data_at d1 stride (u, v) =
        (if v = y \<and> x \<le> u \<and> u < x + w then data_at data stride (u - dx, v - dy) else data_at data stride (u, v))"
    using move_rows_step [OF assms(1-5), of y h dy data] Suc.prems assms(6) by auto
  obtain d2 where 2: "move_rows d1 (x + (y - 1) * stride) (x - dx + (y - 1 - dy) * stride) w (- stride) n = Some d2" "int (length d2) = stride * h"
      "\<And>u v. 0 \<le> u \<Longrightarrow> u < stride \<Longrightarrow> 0 \<le> v \<Longrightarrow> v < h \<Longrightarrow> data_at d2 stride (u, v) =
        (if y - 1 - int n < v \<and> v \<le> y - 1 \<and> x \<le> u \<and> u < x + w then data_at d1 stride (u - dx, v - dy) else data_at d1 stride (u, v))"
    using Suc.IH [of "y - 1" d1] Suc.prems 1(3) by auto
  have "move_rows data (x + y * stride) (x - dx + (y - dy) * stride) w (- stride) (Suc n) = Some d2"
    using 1(1,2) 2(1) by (simp add: algebra_simps)
  moreover have "data_at d2 stride (u, v) =
      (if y - int (Suc n) < v \<and> v \<le> y \<and> x \<le> u \<and> u < x + w then data_at data stride (u - dx, v - dy) else data_at data stride (u, v))"
    if u: "0 \<le> u" "u < stride" "0 \<le> v" "v < h" for u v
  proof (cases "y - 1 - int n < v \<and> v \<le> y - 1 \<and> x \<le> u \<and> u < x + w")
    case True
    then have "data_at d1 stride (u - dx, v - dy) = data_at data stride (u - dx, v - dy)"
      using 1(4) [of "u - dx" "v - dy"] assms Suc.prems by auto
    then show ?thesis using True 2(3) [OF u] by auto
  next
    case False
    then show ?thesis using 2(3) [OF u] 1(4) [OF u] by auto
  qed
  ultimately show ?case using 2(2) by blast
qed auto

subsection \<open>What a buffer shows\<close>

definition pb_shows :: "'p PixelBuffer \<Rightarrow> 'p image \<Rightarrow> bool" where
  "pb_shows pb img \<longleftrightarrow> wf_pb pb \<and> (\<forall>p \<in> rpts (pb_getRect pb). pb_at pb p = img p)"

text \<open>A rectangle, possibly an empty one, inside the buffer.\<close>

definition in_buffer :: "'p PixelBuffer \<Rightarrow> Rect \<Rightarrow> bool" where
  "in_buffer pb r \<longleftrightarrow> enclosed_by r (pb_getRect pb) \<and> px (r_tl r) \<le> px (r_br r) \<and> py (r_tl r) \<le> py (r_br r)"

lemma in_buffer_iff: "in_buffer pb r \<longleftrightarrow> 0 \<le> px (r_tl r) \<and> px (r_tl r) \<le> px (r_br r) \<and> px (r_br r) \<le> pb_width pb \<and>
    0 \<le> py (r_tl r) \<and> py (r_tl r) \<le> py (r_br r) \<and> py (r_br r) \<le> pb_height pb"
  by (auto simp: in_buffer_def enclosed_by_def pb_getRect_def mkRect_def)

definition same_shape :: "'p PixelBuffer \<Rightarrow> 'p PixelBuffer \<Rightarrow> bool" where
  "same_shape pb pb' \<longleftrightarrow> pb_width pb' = pb_width pb \<and> pb_height pb' = pb_height pb \<and> pb_stride pb' = pb_stride pb"

lemma set_data_shows:
  assumes "wf_pb pb" and "data = Some d" and "int (length d) = pb_stride pb * pb_height pb"
    and "\<And>u v. 0 \<le> u \<Longrightarrow> u < pb_width pb \<Longrightarrow> 0 \<le> v \<Longrightarrow> v < pb_height pb \<Longrightarrow> data_at d (pb_stride pb) (u, v) = img (u, v)"
  shows "\<exists>pb'. set_data pb data = Some pb' \<and> same_shape pb pb' \<and> pb_shows pb' img"
  using assms by (auto simp: set_data_def same_shape_def pb_shows_def wf_pb_def pb_getRect_def pb_at_def)

lemma shows_at:
  "pb_shows pb img \<Longrightarrow> 0 \<le> u \<Longrightarrow> u < pb_width pb \<Longrightarrow> 0 \<le> v \<Longrightarrow> v < pb_height pb \<Longrightarrow> data_at (pb_data pb) (pb_stride pb) (u, v) = img (u, v)"
  by (simp add: pb_shows_def pb_getRect_def pb_at_def)

lemma row_count_inside:
  "wf_pb pb \<Longrightarrow> in_buffer pb r \<Longrightarrow> px (r_tl r) < px (r_br r) \<Longrightarrow> row_count (pb_stride pb) (rect_height r) = nat (rect_height r)"
  by (auto simp: row_count_def wf_pb_def in_buffer_iff rect_height_def)

text \<open>Writing the rows of a rectangle draws it, whatever they come from.\<close>

lemma put_rows_shows:
  assumes "pb_shows pb img" and "in_buffer pb r" and n: "n = row_count (pb_stride pb) (rect_height r)"
  shows "\<exists>pb'. set_data pb (put_rows (pb_data pb) (getPixels pb r) (pb_stride pb)
      (map (\<lambda>j. map (\<lambda>i. source (px (r_tl r) + int i, py (r_tl r) + int j)) [0..<nat (rect_width r)]) [0..<n])) = Some pb' \<and>
    same_shape pb pb' \<and> pb_shows pb' (draw r source img)"
proof -
  have wf: "wf_pb pb" using assms(1) by (simp add: pb_shows_def)
  define W where "W = nat (rect_width r)"
  define rows where "rows = map (\<lambda>j. map (\<lambda>i. source (px (r_tl r) + int i, py (r_tl r) + int j)) [0..<W]) [0..<n]"
  have nn: "int n \<le> rect_height r" using assms(2) n by (auto simp: row_count_def in_buffer_iff rect_height_def)
  have w: "int W = px (r_br r) - px (r_tl r)" using assms(2) by (simp add: W_def in_buffer_iff rect_width_def)
  have f: "0 \<le> px (r_tl r)" "px (r_tl r) + int W \<le> pb_stride pb" "0 \<le> py (r_tl r)"
      "py (r_tl r) + int (length rows) \<le> pb_height pb" "int (length (pb_data pb)) = pb_stride pb * pb_height pb"
      "\<forall>r' \<in> set rows. length r' = W"
    using assms(2) wf w nn by (auto simp: in_buffer_iff wf_pb_def rect_height_def rows_def)
  obtain d where d: "put_rows (pb_data pb) (getPixels pb r) (pb_stride pb) rows = Some d" "int (length d) = pb_stride pb * pb_height pb"
    "\<And>u v. 0 \<le> u \<Longrightarrow> u < pb_stride pb \<Longrightarrow> 0 \<le> v \<Longrightarrow> v < pb_height pb \<Longrightarrow> data_at d (pb_stride pb) (u, v) =
      (if py (r_tl r) \<le> v \<and> v < py (r_tl r) + int (length rows) \<and> px (r_tl r) \<le> u \<and> u < px (r_tl r) + int W
       then rows ! nat (v - py (r_tl r)) ! nat (u - px (r_tl r)) else data_at (pb_data pb) (pb_stride pb) (u, v))"
    using put_rows_at [OF f] by (auto simp: getPixels_def)
  have "\<exists>pb'. set_data pb (put_rows (pb_data pb) (getPixels pb r) (pb_stride pb) rows) = Some pb' \<and> same_shape pb pb' \<and>
      pb_shows pb' (draw r source img)"
  proof (rule set_data_shows [OF wf d(1,2)])
    fix u v
    assume u: "0 \<le> u" "u < pb_width pb" "0 \<le> v" "v < pb_height pb"
    have st: "u < pb_stride pb" using u wf by (simp add: wf_pb_def)
    show "data_at d (pb_stride pb) (u, v) = draw r source img (u, v)"
    proof (cases "rect_contains r \<lparr>px = u, py = v\<rparr>")
      case True
      then have c: "px (r_tl r) \<le> u" "u < px (r_br r)" "py (r_tl r) \<le> v" "v < py (r_br r)" by (simp_all add: rect_contains_def)
      then have nn: "n = nat (rect_height r)" using row_count_inside [OF wf assms(2)] n by simp
      then have "nat (u - px (r_tl r)) < W" "nat (v - py (r_tl r)) < n" using c w by (auto simp: rect_height_def)
      then show ?thesis using d(3) [OF u(1) st u(3,4)] True c w nn by (simp add: draw_def rows_def rect_height_def)
    next
      case False
      then have "\<not> (py (r_tl r) \<le> v \<and> v < py (r_tl r) + int (length rows) \<and> px (r_tl r) \<le> u \<and> u < px (r_tl r) + int W)"
        using nn w by (auto simp: rect_contains_def rows_def rect_height_def)
      then show ?thesis using d(3) [OF u(1) st u(3,4)] False shows_at [OF assms(1) u] by (auto simp: draw_def)
    qed
  qed
  then show ?thesis unfolding rows_def W_def .
qed

lemma fillRect_shows:
  assumes "pb_shows pb img" and "in_buffer pb r"
  shows "\<exists>pb'. pb_fillRect bytes pb r pix = Some pb' \<and> same_shape pb pb' \<and> pb_shows pb' (fill_rect img r pix)"
proof -
  have "draw r (\<lambda>_. pix) img = fill_rect img r pix" by (simp add: draw_def fill_rect_def)
  moreover have "\<not> rect_width r < 0" using assms(2) by (simp add: in_buffer_iff rect_width_def)
  ultimately show ?thesis
    using put_rows_shows [OF assms refl, of "\<lambda>_. pix"] by (simp add: pb_fillRect_def map_replicate_const)
qed

lemma imageRect_rows:
  assumes "pb_shows pb img" and "in_buffer pb r" and "n = row_count (pb_stride pb) (rect_height r)"
    and "get_rows pixels 0 (if srcStride = 0 then rect_width r else srcStride) (rect_width r) n =
      Some (map (\<lambda>j. map (\<lambda>i. source (px (r_tl r) + int i, py (r_tl r) + int j)) [0..<nat (rect_width r)]) [0..<n])"
  shows "\<exists>pb'. pb_imageRect pb r pixels srcStride = Some pb' \<and> same_shape pb pb' \<and> pb_shows pb' (draw r source img)"
  using put_rows_shows [OF assms(1-3), of source] assms(4) by (simp add: pb_imageRect_def assms(3) [symmetric])

lemma imageRect_shows:
  assumes "pb_shows pb img" and "in_buffer pb r" and "int (length pixels) = rect_width r * rect_height r"
  shows "\<exists>pb'. pb_imageRect pb r pixels 0 = Some pb' \<and> same_shape pb pb' \<and> pb_shows pb' (image_rect img r pixels)"
proof -
  let ?source = "\<lambda>(x, y). pixels ! (nat (y - py (r_tl r)) * nat (rect_width r) + nat (x - px (r_tl r)))"
  define n where "n = row_count (pb_stride pb) (rect_height r)"
  have n: "int n \<le> rect_height r" and w: "0 \<le> rect_width r" using assms(2) by (auto simp: n_def row_count_def in_buffer_iff rect_height_def rect_width_def)
  have "data_at pixels (rect_width r) (int i, int j) = ?source (px (r_tl r) + int i, py (r_tl r) + int j)" for i j
    using w by (simp add: data_at_def nat_add_distrib nat_mult_distrib add.commute)
  then have "get_rows pixels 0 (rect_width r) (rect_width r) n =
      Some (map (\<lambda>j. map (\<lambda>i. ?source (px (r_tl r) + int i, py (r_tl r) + int j)) [0..<nat (rect_width r)]) [0..<n])"
    using get_rows_at [of 0 "rect_width r" "rect_width r" pixels "rect_height r" 0 n] n w assms(3) by simp
  then have "get_rows pixels 0 (if (0 :: int) = 0 then rect_width r else 0) (rect_width r) n =
      Some (map (\<lambda>j. map (\<lambda>i. ?source (px (r_tl r) + int i, py (r_tl r) + int j)) [0..<nat (rect_width r)]) [0..<n])" by simp
  moreover have "draw r ?source img = image_rect img r pixels" by (auto simp: draw_def image_rect_def fun_eq_iff)
  ultimately show ?thesis using imageRect_rows [OF assms(1,2) n_def, of pixels 0 ?source] by simp
qed

text \<open>An image taken from another buffer, by a pointer to the start of a row.\<close>

lemma imageRect_from:
  assumes "pb_shows pb img" and "in_buffer pb r" and "pb_shows from source" and "in_buffer from r" and x: "px (r_tl r) = 0"
  shows "\<exists>pb'. pb_imageRect pb r (drop (nat (getPixels from r)) (pb_data from)) (pb_stride from) = Some pb' \<and>
    same_shape pb pb' \<and> pb_shows pb' (draw r source img)"
proof (cases "0 < rect_width r")
  case False
  then have w0: "rect_width r = 0" using assms(2) by (simp add: in_buffer_iff rect_width_def)
  have "get_rows pixels off st 0 n = Some (replicate n [])" for off st n and pixels :: "'a list"
    by (induction n arbitrary: off) (simp_all add: get_row_def)
  then show ?thesis using imageRect_rows [OF assms(1,2) refl, of _ "pb_stride from" source] by (simp add: w0 map_replicate_const)
next
  case True
  define n where "n = row_count (pb_stride pb) (rect_height r)"
  have wf: "wf_pb from" using assms(3) by (simp add: pb_shows_def)
  have n: "int n \<le> rect_height r" using assms(2) by (auto simp: n_def row_count_def in_buffer_iff rect_height_def)
  have st: "0 < pb_stride from" "rect_width r \<le> pb_stride from" using True assms(4) wf x by (auto simp: in_buffer_iff wf_pb_def rect_width_def)
  define off where "off = nat (py (r_tl r) * pb_stride from)"
  have off: "int off = py (r_tl r) * pb_stride from" using st assms(4) by (simp add: off_def in_buffer_iff)
  have "int off \<le> pb_height from * pb_stride from" unfolding off using st assms(4) by (intro mult_right_mono) (auto simp: in_buffer_iff)
  then have offl: "off \<le> length (pb_data from)" using wf by (simp add: wf_pb_def mult.commute)
  have len: "int (length (drop off (pb_data from))) = pb_stride from * (pb_height from - py (r_tl r))"
    using wf off offl by (simp add: wf_pb_def of_nat_diff algebra_simps)
  have at: "data_at (drop off (pb_data from)) (pb_stride from) (int i, int j) = source (px (r_tl r) + int i, py (r_tl r) + int j)"
    if "i < nat (rect_width r)" "j < n" for i j
  proof -
    have ij: "int i < pb_width from" "py (r_tl r) + int j < pb_height from"
      using that n assms(4) x by (auto simp: in_buffer_iff rect_width_def rect_height_def)
    have "nat (int i + (py (r_tl r) + int j) * pb_stride from) = off + nat (int i + int j * pb_stride from)"
    proof -
      have "int i + (py (r_tl r) + int j) * pb_stride from = int off + (int i + int j * pb_stride from)" using off by (simp add: distrib_right)
      moreover have "0 \<le> int i + int j * pb_stride from" using st by simp
      ultimately show ?thesis by (simp only: nat_add_distrib of_nat_0_le_iff nat_int)
    qed
    then show ?thesis
      using shows_at [OF assms(3), of "int i" "py (r_tl r) + int j"] ij assms(4) x offl by (simp add: data_at_def in_buffer_iff)
  qed
  have "get_rows (drop off (pb_data from)) 0 (pb_stride from) (rect_width r) n =
      Some (map (\<lambda>j. map (\<lambda>i. source (px (r_tl r) + int i, py (r_tl r) + int j)) [0..<nat (rect_width r)]) [0..<n])"
    using get_rows_at [of 0 "rect_width r" "pb_stride from" "drop off (pb_data from)" "pb_height from - py (r_tl r)" 0 n] st True n len at assms(4)
    by (simp add: in_buffer_iff rect_height_def)
  moreover have "nat (getPixels from r) = off" by (simp add: getPixels_def x off_def)
  ultimately show ?thesis using imageRect_rows [OF assms(1,2) n_def, of _ "pb_stride from" source] st by simp
qed

lemma copyRect_shows:
  assumes "pb_shows pb img" and "in_buffer pb r" and "in_buffer pb (rect_translate r (point_negate delta))"
  shows "\<exists>pb'. pb_copyRect pb r delta = Some pb' \<and> same_shape pb pb' \<and> pb_shows pb' (copy_rect (px delta) (py delta) img r)"
proof -
  have wf: "wf_pb pb" using assms(1) by (simp add: pb_shows_def)
  define n where "n = nat (py (r_br r) - py (r_tl r))"
  have n: "int n = py (r_br r) - py (r_tl r)" using assms(2) by (simp add: n_def in_buffer_iff)
  let ?st = "pb_stride pb"
  have f: "0 \<le> px (r_tl r)" "px (r_tl r) + rect_width r \<le> ?st" "0 \<le> px (r_tl r) - px delta" "px (r_tl r) - px delta + rect_width r \<le> ?st"
      "0 \<le> rect_width r" "int (length (pb_data pb)) = ?st * pb_height pb"
    using assms(2,3) wf by (auto simp: in_buffer_iff rect_translate_def point_translate_def point_negate_def rect_width_def wf_pb_def)
  have g: "0 \<le> py (r_tl r)" "py (r_br r) \<le> pb_height pb" "0 \<le> py (r_tl r) - py delta" "py (r_br r) - py delta \<le> pb_height pb"
    using assms(2,3) by (auto simp: in_buffer_iff rect_translate_def point_translate_def point_negate_def)
  have "\<exists>d. (if py delta \<le> 0
         then move_rows (pb_data pb) (px (r_tl r) + py (r_tl r) * ?st) (px (r_tl r) - px delta + (py (r_tl r) - py delta) * ?st) (rect_width r) ?st n
         else move_rows (pb_data pb) (px (r_tl r) + (py (r_br r) - 1) * ?st) (px (r_tl r) - px delta + (py (r_br r) - 1 - py delta) * ?st)
                (rect_width r) (- ?st) n) = Some d \<and> int (length d) = ?st * pb_height pb \<and>
      (\<forall>u v. 0 \<le> u \<longrightarrow> u < ?st \<longrightarrow> 0 \<le> v \<longrightarrow> v < pb_height pb \<longrightarrow> data_at d ?st (u, v) =
        (if py (r_tl r) \<le> v \<and> v < py (r_br r) \<and> px (r_tl r) \<le> u \<and> u < px (r_br r)
         then data_at (pb_data pb) ?st (u - px delta, v - py delta) else data_at (pb_data pb) ?st (u, v)))"
  proof (cases "py delta \<le> 0")
    case True
    show ?thesis
      using move_rows_down [OF f(1-5) True g(1), of n "pb_height pb" "pb_data pb"] f(6) g n True by (simp add: rect_width_def)
  next
    case False
    have eq: "py (r_br r) - 1 - int n < v \<longleftrightarrow> py (r_tl r) \<le> v" "v \<le> py (r_br r) - 1 \<longleftrightarrow> v < py (r_br r)"
        "px (r_tl r) + rect_width r = px (r_br r)" for v using n by (auto simp: rect_width_def)
    have "0 \<le> py (r_br r) - 1 - py delta - int n + 1" "py (r_br r) - 1 < pb_height pb" using g n by simp_all
    from move_rows_up [OF f(1-5) _ this f(6)] False show ?thesis unfolding eq by simp
  qed
  then obtain d where d: "(if py delta \<le> 0
         then move_rows (pb_data pb) (px (r_tl r) + py (r_tl r) * ?st) (px (r_tl r) - px delta + (py (r_tl r) - py delta) * ?st) (rect_width r) ?st n
         else move_rows (pb_data pb) (px (r_tl r) + (py (r_br r) - 1) * ?st) (px (r_tl r) - px delta + (py (r_br r) - 1 - py delta) * ?st)
                (rect_width r) (- ?st) n) = Some d" "int (length d) = ?st * pb_height pb"
    and at: "\<And>u v. 0 \<le> u \<Longrightarrow> u < ?st \<Longrightarrow> 0 \<le> v \<Longrightarrow> v < pb_height pb \<Longrightarrow> data_at d ?st (u, v) =
        (if py (r_tl r) \<le> v \<and> v < py (r_br r) \<and> px (r_tl r) \<le> u \<and> u < px (r_br r)
         then data_at (pb_data pb) ?st (u - px delta, v - py delta) else data_at (pb_data pb) ?st (u, v))"
    by blast
  have "\<exists>pb'. set_data pb (Some d) = Some pb' \<and> same_shape pb pb' \<and> pb_shows pb' (copy_rect (px delta) (py delta) img r)"
  proof (rule set_data_shows [OF wf refl d(2)])
    fix u v
    assume u: "0 \<le> u" "u < pb_width pb" "0 \<le> v" "v < pb_height pb"
    have st: "u < ?st" using u wf by (simp add: wf_pb_def)
    show "data_at d ?st (u, v) = copy_rect (px delta) (py delta) img r (u, v)"
    proof (cases "(u, v) \<in> rpts r")
      case True
      then have "data_at (pb_data pb) ?st (u - px delta, v - py delta) = img (u - px delta, v - py delta)"
        using assms(2,3) by (intro shows_at [OF assms(1)])
          (auto simp: in_buffer_iff rect_translate_def point_translate_def point_negate_def rpts_iff)
      then show ?thesis using True at [OF u(1) st u(3,4)] by (auto simp: copy_rect_def rpts_iff)
    next
      case False
      then show ?thesis using at [OF u(1) st u(3,4)] shows_at [OF assms(1) u] by (auto simp: copy_rect_def rpts_iff)
    qed
  qed
  then show ?thesis
    using d(1) by (auto simp: pb_copyRect_def Let_def rect_translate_def point_translate_def point_negate_def n_def [symmetric] algebra_simps)
qed

lemma getImage_shows:
  assumes "pb_shows pb img" and "in_buffer pb r" and "0 < rect_width r" and "int (length buf) = rect_width r * rect_height r"
  shows "pb_getImage pb buf r 0 = Some (get_image img r)"
proof -
  have wf: "wf_pb pb" using assms(1) by (simp add: pb_shows_def)
  define W H where "W = nat (rect_width r)" and "H = nat (rect_height r)"
  have WH: "rect_width r = int W" "rect_height r = int H" using assms(2,3) by (simp_all add: W_def H_def in_buffer_iff rect_height_def)
  have n: "row_count (pb_stride pb) (rect_height r) = H"
    using row_count_inside [OF wf assms(2)] assms(3) by (simp add: H_def rect_width_def)
  define rows where "rows = map (\<lambda>j. map (\<lambda>i. data_at (pb_data pb) (pb_stride pb) (px (r_tl r) + int i, py (r_tl r) + int j)) [0..<W]) [0..<H]"
  have rows: "get_rows (pb_data pb) (getPixels pb r) (pb_stride pb) (rect_width r) H = Some rows"
    using get_rows_at [of "px (r_tl r)" "rect_width r" "pb_stride pb" "pb_data pb" "pb_height pb" "py (r_tl r)" H] assms(2) wf WH
    by (auto simp: rows_def getPixels_def in_buffer_iff wf_pb_def rect_width_def rect_height_def)
  have "\<forall>rw \<in> set rows. length rw = W" "length rows = H" by (auto simp: rows_def)
  then obtain d where d: "put_rows buf 0 (int W) rows = Some d" "int (length d) = int W * int H"
    "\<And>u v. 0 \<le> u \<Longrightarrow> u < int W \<Longrightarrow> 0 \<le> v \<Longrightarrow> v < int H \<Longrightarrow> data_at d (int W) (u, v) = rows ! nat v ! nat u"
    using put_rows_at [of 0 W "int W" 0 rows "int H" buf] assms(4) WH by auto
  have "d = get_image img r"
  proof (rule nth_equalityI)
    show len: "length d = length (get_image img r)"
      using d(2) by (simp add: length_get_image W_def [symmetric] H_def [symmetric] mult.commute flip: of_nat_mult)
    fix k
    assume "k < length d"
    then have k: "k < H * W" using len by (simp add: length_get_image W_def H_def mult.commute)
    define i j where "i = k mod W" and "j = k div W"
    have ij: "i < W" "j < H" "k = j * W + i" using k assms(3) by (simp_all add: i_def j_def W_def less_mult_imp_div_less)
    have "d ! k = rows ! j ! i"
      using d(3) [of "int i" "int j"] ij by (simp add: data_at_def nat_add_distrib nat_mult_distrib add.commute)
    also have "\<dots> = img (px (r_tl r) + int i, py (r_tl r) + int j)"
      using ij WH assms(2) by (simp add: rows_def) (intro shows_at [OF assms(1)]; simp add: in_buffer_iff rect_width_def rect_height_def)
    also have "\<dots> = get_image img r ! k"
      using nth_get_image [of i r j img] ij by (simp add: W_def H_def)
    finally show "d ! k = get_image img r ! k" .
  qed
  then show ?thesis using rows d(1) n WH by (simp add: pb_getImage_def)
qed

subsection \<open>Masked pixels\<close>

definition mask_bit :: "u8 list \<Rightarrow> int \<Rightarrow> int \<Rightarrow> int \<Rightarrow> bool" where
  "mask_bit msk maskStride cx cy = bit (msk ! nat (cy * maskStride + cx div 8)) (7 - nat (cx mod 8))"

definition masked :: "Rect \<Rightarrow> u8 list \<Rightarrow> 'p image \<Rightarrow> 'p image \<Rightarrow> 'p image" where
  "masked r msk source img = (\<lambda>(x, y). if (x, y) \<in> rpts r \<and> mask_bit msk ((rect_width r + 7) div 8) (x - px (r_tl r)) (y - py (r_tl r))
     then source (x - px (r_tl r), y - py (r_tl r)) else img (x, y))"

lemma mask_row_at:
  assumes "0 \<le> y" "y < h" and "\<And>i. i < n \<Longrightarrow> pick (cx + int i) = Some (f (cx + int i))"
    and "\<And>i. i < n \<Longrightarrow> 0 \<le> pos + (cx + int i) div 8 \<and> pos + (cx + int i) div 8 < int (length msk)"
  shows "0 \<le> x \<Longrightarrow> x + int n \<le> stride \<Longrightarrow> int (length data) = stride * h \<Longrightarrow>
    \<exists>data'. mask_row msk pos (x + y * stride) cx pick n data = Some data' \<and> int (length data') = stride * h \<and>
    (\<forall>u v. 0 \<le> u \<longrightarrow> u < stride \<longrightarrow> 0 \<le> v \<longrightarrow> v < h \<longrightarrow> data_at data' stride (u, v) =
      (if v = y \<and> x \<le> u \<and> u < x + int n \<and> bit (msk ! nat (pos + (cx + (u - x)) div 8)) (7 - nat ((cx + (u - x)) mod 8))
       then f (cx + (u - x)) else data_at data stride (u, v)))"
  using assms(3,4)
proof (induction n arbitrary: x cx data)
  case (Suc n)
  have i0: "0 \<le> pos + cx div 8" "pos + cx div 8 < int (length msk)" "pick cx = Some (f cx)"
    using Suc.prems(4) [of 0] Suc.prems(5) [of 0] by simp_all
  let ?b = "bit (msk ! nat (pos + cx div 8)) (7 - nat (cx mod 8))"
  obtain d0 where 0: "put_row data (x + y * stride) [f cx] = Some d0" "int (length d0) = stride * h"
      "\<And>u v. 0 \<le> u \<Longrightarrow> u < stride \<Longrightarrow> 0 \<le> v \<Longrightarrow> v < h \<Longrightarrow> data_at d0 stride (u, v) =
        (if v = y \<and> x \<le> u \<and> u < x + 1 then [f cx] ! nat (u - x) else data_at data stride (u, v))"
    using put_row_at [of x "[f cx]" stride y h data] assms(1,2) Suc.prems(1-3) by auto
  define d1 where "d1 = (if ?b then d0 else data)"
  have 1: "mask_pixel msk pos cx (\<lambda>data. do { p \<leftarrow> pick cx; put_row data (x + y * stride) [p] }) data = Some d1"
      "int (length d1) = stride * h"
    using 0(1,2) i0 Suc.prems(3) by (simp_all add: mask_pixel_def Let_def d1_def)
  have 13: "data_at d1 stride (u, v) = (if v = y \<and> u = x \<and> ?b then f cx else data_at data stride (u, v))"
    if "0 \<le> u" "u < stride" "0 \<le> v" "v < h" for u v
    using 0(3) [OF that] by (cases "u = x") (auto simp: d1_def)
  have "pick (cx + 1 + int i) = Some (f (cx + 1 + int i)) \<and> 0 \<le> pos + (cx + 1 + int i) div 8 \<and> pos + (cx + 1 + int i) div 8 < int (length msk)"
    if "i < n" for i using Suc.prems(4) [of "Suc i"] Suc.prems(5) [of "Suc i"] that by (simp add: add.assoc add.commute add.left_commute)
  then obtain d2 where 2: "mask_row msk pos (x + 1 + y * stride) (cx + 1) pick n d1 = Some d2" "int (length d2) = stride * h"
      "\<And>u v. 0 \<le> u \<Longrightarrow> u < stride \<Longrightarrow> 0 \<le> v \<Longrightarrow> v < h \<Longrightarrow> data_at d2 stride (u, v) =
        (if v = y \<and> x + 1 \<le> u \<and> u < x + 1 + int n \<and> bit (msk ! nat (pos + (cx + 1 + (u - (x + 1))) div 8)) (7 - nat ((cx + 1 + (u - (x + 1))) mod 8))
         then f (cx + 1 + (u - (x + 1))) else data_at d1 stride (u, v))"
    using Suc.IH [of "x + 1" d1 "cx + 1"] Suc.prems(1,2) 1(2) by auto
  have "mask_row msk pos (x + y * stride) cx pick (Suc n) data = Some d2" using 1(1) 2(1) by (simp add: algebra_simps)
  moreover have "data_at d2 stride (u, v) =
      (if v = y \<and> x \<le> u \<and> u < x + int (Suc n) \<and> bit (msk ! nat (pos + (cx + (u - x)) div 8)) (7 - nat ((cx + (u - x)) mod 8))
       then f (cx + (u - x)) else data_at data stride (u, v))"
    if u: "0 \<le> u" "u < stride" "0 \<le> v" "v < h" for u v
  proof -
    have e: "cx + 1 + (u - (x + 1)) = cx + (u - x)" by simp
    show ?thesis
    proof (cases "u = x")
      case True
      then show ?thesis using 2(3) [OF u] 13 [OF u] by simp
    next
      case False
      then have "x + 1 \<le> u \<longleftrightarrow> x \<le> u" by auto
      then show ?thesis using False 2(3) [OF u, unfolded e] 13 [OF u] by (simp add: add.commute add.left_commute)
    qed
  qed
  ultimately show ?case using 2(2) by blast
qed auto

lemma mask_rows_at:
  assumes "0 \<le> x" "x + int w \<le> stride"
    and pick: "\<And>i j. i < w \<Longrightarrow> cy0 \<le> j \<Longrightarrow> j < cy1 \<Longrightarrow> pick j (cx + int i) = Some (f j (cx + int i))"
    and msk: "\<And>i j. i < w \<Longrightarrow> cy0 \<le> j \<Longrightarrow> j < cy1 \<Longrightarrow> 0 \<le> j * ms + (cx + int i) div 8 \<and> j * ms + (cx + int i) div 8 < int (length msk)"
  shows "0 \<le> y \<Longrightarrow> y + int n \<le> h \<Longrightarrow> cy0 \<le> cy \<Longrightarrow> cy + int n \<le> cy1 \<Longrightarrow> int (length data) = stride * h \<Longrightarrow>
    \<exists>data'. mask_rows msk (cy * ms) ms (x + y * stride) stride cx cy pick w n data = Some data' \<and> int (length data') = stride * h \<and>
    (\<forall>u v. 0 \<le> u \<longrightarrow> u < stride \<longrightarrow> 0 \<le> v \<longrightarrow> v < h \<longrightarrow> data_at data' stride (u, v) =
      (if y \<le> v \<and> v < y + int n \<and> x \<le> u \<and> u < x + int w \<and> mask_bit msk ms (cx + (u - x)) (cy + (v - y))
       then f (cy + (v - y)) (cx + (u - x)) else data_at data stride (u, v)))"
proof (induction n arbitrary: y cy data)
  case (Suc n)
  obtain d1 where 1: "mask_row msk (cy * ms) (x + y * stride) cx (pick cy) w data = Some d1" "int (length d1) = stride * h"
      "\<And>u v. 0 \<le> u \<Longrightarrow> u < stride \<Longrightarrow> 0 \<le> v \<Longrightarrow> v < h \<Longrightarrow> data_at d1 stride (u, v) =
        (if v = y \<and> x \<le> u \<and> u < x + int w \<and> mask_bit msk ms (cx + (u - x)) cy then f cy (cx + (u - x)) else data_at data stride (u, v))"
    using mask_row_at [of y h w "pick cy" cx "f cy" "cy * ms" msk x stride data] assms(1,2) pick [of _ cy] msk [of _ cy] Suc.prems
    by (auto simp: mask_bit_def)
  obtain d2 where 2: "mask_rows msk ((cy + 1) * ms) ms (x + (y + 1) * stride) stride cx (cy + 1) pick w n d1 = Some d2" "int (length d2) = stride * h"
      "\<And>u v. 0 \<le> u \<Longrightarrow> u < stride \<Longrightarrow> 0 \<le> v \<Longrightarrow> v < h \<Longrightarrow> data_at d2 stride (u, v) =
        (if y + 1 \<le> v \<and> v < y + 1 + int n \<and> x \<le> u \<and> u < x + int w \<and> mask_bit msk ms (cx + (u - x)) (cy + 1 + (v - (y + 1)))
         then f (cy + 1 + (v - (y + 1))) (cx + (u - x)) else data_at d1 stride (u, v))"
    using Suc.IH [of "y + 1" "cy + 1" d1] Suc.prems 1(2) by auto
  have "mask_rows msk (cy * ms) ms (x + y * stride) stride cx cy pick w (Suc n) data = Some d2"
    using 1(1) 2(1) by (simp add: algebra_simps)
  moreover have "data_at d2 stride (u, v) =
      (if y \<le> v \<and> v < y + int (Suc n) \<and> x \<le> u \<and> u < x + int w \<and> mask_bit msk ms (cx + (u - x)) (cy + (v - y))
       then f (cy + (v - y)) (cx + (u - x)) else data_at data stride (u, v))"
    if u: "0 \<le> u" "u < stride" "0 \<le> v" "v < h" for u v
  proof -
    have e: "cy + 1 + (v - (y + 1)) = cy + (v - y)" by simp
    show ?thesis
    proof (cases "v = y")
      case True
      then show ?thesis using 2(3) [OF u] 1(3) [OF u] by simp
    next
      case False
      then have "y + 1 \<le> v \<longleftrightarrow> y \<le> v" by auto
      then show ?thesis using False 2(3) [OF u, unfolded e] 1(3) [OF u] by (simp add: add.commute add.left_commute)
    qed
  qed
  ultimately show ?case using 2(2) by blast
qed auto

lemma mask_index:
  fixes W :: int
  assumes "0 \<le> cx" "cx < W" "0 \<le> cy" "cy < H" "(W + 7) div 8 * H \<le> l"
  shows "0 \<le> cy * ((W + 7) div 8) + cx div 8" and "cy * ((W + 7) div 8) + cx div 8 < l"
proof -
  show "0 \<le> cy * ((W + 7) div 8) + cx div 8" using assms by simp
  have "cx div 8 < (W + 7) div 8" using assms by linarith
  then have "cy * ((W + 7) div 8) + cx div 8 < (cy + 1) * ((W + 7) div 8)" by (simp add: distrib_right)
  also have "\<dots> \<le> H * ((W + 7) div 8)" using assms by (intro mult_right_mono) auto
  finally show "cy * ((W + 7) div 8) + cx div 8 < l" using assms(5) by (simp add: mult.commute)
qed

text \<open>The rectangle may stick out of the buffer.\<close>

lemma mask_rect_shows:
  assumes "pb_shows pb img" and r: "px (r_tl r) \<le> px (r_br r)" "py (r_tl r) \<le> py (r_br r)"
    and msk: "(rect_width r + 7) div 8 * rect_height r \<le> int (length msk)"
    and pick: "\<And>cx cy. 0 \<le> cx \<Longrightarrow> cx < rect_width r \<Longrightarrow> 0 \<le> cy \<Longrightarrow> cy < rect_height r \<Longrightarrow> pick cy cx = Some (f (cx, cy))"
  shows "\<exists>pb'. mask_rect pb r pick msk = Some pb' \<and> same_shape pb pb' \<and>
    (\<forall>p \<in> rpts (pb_getRect pb). pb_at pb' p = masked r msk f img p) \<and> wf_pb pb'"
proof -
  have wf: "wf_pb pb" using assms(1) by (simp add: pb_shows_def)
  define cr where "cr = rect_intersect (pb_getRect pb) r"
  show ?thesis
  proof (cases "rect_is_empty cr")
    case True
    then have "p \<notin> rpts r" if "p \<in> rpts (pb_getRect pb)" for p
      using that rpts_intersect [of "pb_getRect pb" r] rpts_empty [of cr] by (auto simp: cr_def)
    then have "masked r msk f img p = img p" if "p \<in> rpts (pb_getRect pb)" for p
      using that by (cases p) (auto simp: masked_def)
    then show ?thesis using True assms(1) by (auto simp: mask_rect_def cr_def [symmetric] same_shape_def pb_shows_def)
  next
    case False
    define x y cx cy w n ms where "x = px (r_tl cr)" and "y = py (r_tl cr)" and "cx = px (r_tl cr) - px (r_tl r)"
      and "cy = py (r_tl cr) - py (r_tl r)" and "w = nat (rect_width cr)" and "n = nat (rect_height cr)" and "ms = (rect_width r + 7) div 8"
    have c: "x = max 0 (px (r_tl r))" "y = max 0 (py (r_tl r))" "px (r_br cr) = min (pb_width pb) (px (r_br r))"
        "py (r_br cr) = min (pb_height pb) (py (r_br r))"
      using False by (auto simp: cr_def x_def y_def rect_intersect_def pb_getRect_def mkRect_def rect_is_empty_def Let_def)
    have wn: "int w = px (r_br cr) - x" "int n = py (r_br cr) - y"
      using False by (auto simp: w_def n_def x_def y_def rect_width_def rect_height_def rect_is_empty_def)
    have b: "0 \<le> x" "x + int w \<le> pb_width pb" "x + int w \<le> pb_stride pb" "0 \<le> y" "y + int n \<le> pb_height pb" "0 \<le> cx" "0 \<le> cy"
        "cx + int w \<le> rect_width r" "cy + int n \<le> rect_height r"
      using c wn wf by (auto simp: cx_def cy_def x_def [symmetric] y_def [symmetric] wf_pb_def rect_width_def rect_height_def)
    have p1: "pick j (cx + int i) = Some (f (cx + int i, j))" if "i < w" "cy \<le> j" "j < cy + int n" for i j
      using that b by (intro pick) auto
    have p2: "0 \<le> j * ms + (cx + int i) div 8 \<and> j * ms + (cx + int i) div 8 < int (length msk)" if "i < w" "cy \<le> j" "j < cy + int n" for i j
      using that b msk mask_index [of "cx + int i" "rect_width r" j "rect_height r" "int (length msk)"] by (simp add: ms_def)
    have len: "int (length (pb_data pb)) = pb_stride pb * pb_height pb" using wf by (simp add: wf_pb_def)
    obtain d where d: "mask_rows msk (cy * ms) ms (x + y * pb_stride pb) (pb_stride pb) cx cy pick w n (pb_data pb) = Some d"
        "int (length d) = pb_stride pb * pb_height pb"
        "\<And>u v. 0 \<le> u \<Longrightarrow> u < pb_stride pb \<Longrightarrow> 0 \<le> v \<Longrightarrow> v < pb_height pb \<Longrightarrow> data_at d (pb_stride pb) (u, v) =
          (if y \<le> v \<and> v < y + int n \<and> x \<le> u \<and> u < x + int w \<and> mask_bit msk ms (cx + (u - x)) (cy + (v - y))
           then f (cx + (u - x), cy + (v - y)) else data_at (pb_data pb) (pb_stride pb) (u, v))"
      using mask_rows_at [OF b(1,3), of cy "cy + int n" pick cx "\<lambda>j i. f (i, j)" ms msk y n "pb_height pb" cy "pb_data pb"] p1 p2 b len by blast
    have "\<exists>pb'. set_data pb (Some d) = Some pb' \<and> same_shape pb pb' \<and> pb_shows pb' (masked r msk f img)"
    proof (rule set_data_shows [OF wf refl d(2)])
      fix u v
      assume u: "0 \<le> u" "u < pb_width pb" "0 \<le> v" "v < pb_height pb"
      have st: "u < pb_stride pb" using u wf by (simp add: wf_pb_def)
      have "(u, v) \<in> rpts r \<longleftrightarrow> y \<le> v \<and> v < y + int n \<and> x \<le> u \<and> u < x + int w"
        using c wn u by (auto simp: rpts_iff)
      moreover have e: "cx + (u - x) = u - px (r_tl r)" "cy + (v - y) = v - py (r_tl r)" by (simp_all add: cx_def cy_def x_def y_def)
      ultimately show "data_at d (pb_stride pb) (u, v) = masked r msk f img (u, v)"
        using d(3) [OF u(1) st u(3,4), unfolded e] shows_at [OF assms(1) u] by (simp add: masked_def ms_def)
    qed
    moreover have "mask_rect pb r pick msk = set_data pb (Some d)"
      using d(1) False by (simp add: mask_rect_def Let_def cr_def [symmetric] getPixels_def point_subtract_def x_def [symmetric]
          y_def [symmetric] cx_def [symmetric] cy_def [symmetric] w_def [symmetric] n_def [symmetric] ms_def [symmetric],
          simp add: cx_def cy_def x_def y_def)
    moreover have "pb_getRect pb' = pb_getRect pb" if "same_shape pb pb'" for pb' using that by (simp add: same_shape_def pb_getRect_def)
    ultimately show ?thesis unfolding pb_shows_def by metis
  qed
qed

subsection \<open>A canvas\<close>

text \<open>What the decoders draw with.\<close>

datatype 'p draw_op = Fill Rect 'p | Image Rect "'p list" | Copy Rect Point

fun drawn :: "'p draw_op \<Rightarrow> 'p image \<Rightarrow> 'p image" where
  "drawn (Fill r p) img = fill_rect img r p"
| "drawn (Image r ps) img = image_rect img r ps"
| "drawn (Copy r d) img = copy_rect (px d) (py d) img r"

text \<open>The operations on a canvas whose rectangles have to lie \<open>within\<close> it.\<close>

fun perform :: "('s \<Rightarrow> Rect \<Rightarrow> 'p \<Rightarrow> 's option) \<Rightarrow> ('s \<Rightarrow> Rect \<Rightarrow> 'p list \<Rightarrow> 's option) \<Rightarrow> ('s \<Rightarrow> Rect \<Rightarrow> Point \<Rightarrow> 's option)
    \<Rightarrow> 'p draw_op \<Rightarrow> 's \<Rightarrow> 's option" where
  "perform fill paint copy (Fill r p) s = fill s r p"
| "perform fill paint copy (Image r ps) s = paint s r ps"
| "perform fill paint copy (Copy r d) s = copy s r d"

fun performs :: "('s \<Rightarrow> Rect \<Rightarrow> 'p \<Rightarrow> 's option) \<Rightarrow> ('s \<Rightarrow> Rect \<Rightarrow> 'p list \<Rightarrow> 's option) \<Rightarrow> ('s \<Rightarrow> Rect \<Rightarrow> Point \<Rightarrow> 's option)
    \<Rightarrow> 'p draw_op list \<Rightarrow> 's \<Rightarrow> 's option" where
  "performs fill paint copy [] s = Some s"
| "performs fill paint copy (x # xs) s = do { s \<leftarrow> perform fill paint copy x s; performs fill paint copy xs s }"

fun fits :: "(Rect \<Rightarrow> bool) \<Rightarrow> 'p draw_op \<Rightarrow> bool" where
  "fits within (Fill r p) \<longleftrightarrow> within r"
| "fits within (Image r ps) \<longleftrightarrow> within r \<and> int (length ps) = rect_width r * rect_height r"
| "fits within (Copy r d) \<longleftrightarrow> within r \<and> within (rect_translate r (point_negate d))"

locale canvas =
  fixes displays :: "'s \<Rightarrow> 'p image \<Rightarrow> bool"
    and within :: "'s \<Rightarrow> Rect \<Rightarrow> bool"
    and fill :: "'s \<Rightarrow> Rect \<Rightarrow> 'p \<Rightarrow> 's option"
    and paint :: "'s \<Rightarrow> Rect \<Rightarrow> 'p list \<Rightarrow> 's option"
    and copy :: "'s \<Rightarrow> Rect \<Rightarrow> Point \<Rightarrow> 's option"
  assumes fill_law: "displays s img \<Longrightarrow> within s r \<Longrightarrow>
      \<exists>s'. fill s r p = Some s' \<and> displays s' (fill_rect img r p) \<and> within s' = within s"
    and image_law: "displays s img \<Longrightarrow> within s r \<Longrightarrow> int (length ps) = rect_width r * rect_height r \<Longrightarrow>
      \<exists>s'. paint s r ps = Some s' \<and> displays s' (image_rect img r ps) \<and> within s' = within s"
    and copy_law: "displays s img \<Longrightarrow> within s r \<Longrightarrow> within s (rect_translate r (point_negate d)) \<Longrightarrow>
      \<exists>s'. copy s r d = Some s' \<and> displays s' (copy_rect (px d) (py d) img r) \<and> within s' = within s"
begin

lemma perform_law:
  "displays s img \<Longrightarrow> fits (within s) x \<Longrightarrow>
   \<exists>s'. perform fill paint copy x s = Some s' \<and> displays s' (drawn x img) \<and> within s' = within s"
  by (cases x) (auto intro: fill_law image_law copy_law)

lemma performs_law:
  "displays s img \<Longrightarrow> \<forall>x \<in> set xs. fits (within s) x \<Longrightarrow>
   \<exists>s'. performs fill paint copy xs s = Some s' \<and> displays s' (fold drawn xs img) \<and> within s' = within s"
proof (induction xs arbitrary: s img)
  case (Cons x xs)
  obtain s1 where 1: "perform fill paint copy x s = Some s1" "displays s1 (drawn x img)" "within s1 = within s"
    using perform_law Cons.prems by (metis list.set_intros(1))
  then obtain s2 where "performs fill paint copy xs s1 = Some s2" "displays s2 (fold drawn xs (drawn x img))" "within s2 = within s1"
    using Cons.IH [OF 1(2)] Cons.prems(2) by auto
  then show ?case using 1 by auto
qed simp

end

interpretation pixel_buffer: canvas pb_shows in_buffer "pb_fillRect bytes" "\<lambda>pb r ps. pb_imageRect pb r ps 0" pb_copyRect for bytes
proof
  have shape: "same_shape pb pb' \<Longrightarrow> in_buffer pb' = in_buffer pb" for pb pb' :: "'b PixelBuffer"
    by (auto simp: fun_eq_iff in_buffer_iff same_shape_def)
  fix pb :: "'b PixelBuffer" and img r p ps d
  assume s: "pb_shows pb img" and i: "in_buffer pb r"
  show "\<exists>s'. pb_fillRect bytes pb r p = Some s' \<and> pb_shows s' (fill_rect img r p) \<and> in_buffer s' = in_buffer pb"
    using fillRect_shows [OF s i] shape by blast
  show "\<exists>s'. pb_imageRect pb r ps 0 = Some s' \<and> pb_shows s' (image_rect img r ps) \<and> in_buffer s' = in_buffer pb"
    if "int (length ps) = rect_width r * rect_height r"
    using imageRect_shows [OF s i that] shape by blast
  show "\<exists>s'. pb_copyRect pb r d = Some s' \<and> pb_shows s' (copy_rect (px d) (py d) img r) \<and> in_buffer s' = in_buffer pb"
    if "in_buffer pb (rect_translate r (point_negate d))"
    using copyRect_shows [OF s i that] shape by blast
qed

text \<open>C14: Any sequence of fills, images and moves inside a \<open>FullFramePixelBuffer\<close>, moves whose source and destination overlap
  included, does to its memory what the same operations do to an image, and never touches memory outside
  the buffer.\<close>

theorem pixel_buffer_draws:
  assumes "pb_shows pb img" and "\<forall>x \<in> set xs. fits (in_buffer pb) x"
  shows "\<exists>pb'. performs (pb_fillRect bytes) (\<lambda>pb r ps. pb_imageRect pb r ps 0) pb_copyRect xs pb = Some pb' \<and>
    pb_shows pb' (fold drawn xs img)"
  using pixel_buffer.performs_law [OF assms] by blast

lemma pixel_buffer_draws_witness:
  "\<exists>pb'. performs (pb_fillRect 1) (\<lambda>pb r ps. pb_imageRect pb r ps 0) pb_copyRect
      [Fill (mkRect 0 0 2 2) 5, Image (mkRect 1 0 3 1) [7, 8], Copy (mkRect 1 1 4 3) \<lparr>px = 1, py = 1\<rparr>]
      \<lparr>pb_width = 4, pb_height = 3, pb_stride = 5, pb_data = replicate 15 (0 :: nat)\<rparr> = Some pb' \<and>
    pb_shows pb' (fold drawn [Fill (mkRect 0 0 2 2) 5, Image (mkRect 1 0 3 1) [7, 8], Copy (mkRect 1 1 4 3) \<lparr>px = 1, py = 1\<rparr>] (\<lambda>_. 0))"
  by (rule pixel_buffer_draws)
    (auto simp: pb_shows_def wf_pb_def pb_getRect_def pb_at_def data_at_def row_index in_buffer_iff mkRect_def rect_width_def rect_height_def
      rect_translate_def point_translate_def point_negate_def rpts_iff intro!: nth_replicate)

text \<open>\<open>maskRect\<close> writes exactly the pixels of the rectangle, clipped to the buffer, whose bit is set in the mask, the
  most significant bit of a byte first and each row of the mask starting with a new byte.\<close>

theorem maskRect_exact:
  assumes "pb_shows pb img" and "px (r_tl r) \<le> px (r_br r)" "py (r_tl r) \<le> py (r_br r)"
    and "(rect_width r + 7) div 8 * rect_height r \<le> int (length msk)" and "rect_width r * rect_height r \<le> int (length pixels)"
  shows "\<exists>pb'. pb_maskRect pb r pixels msk = Some pb' \<and> same_shape pb pb' \<and> wf_pb pb' \<and>
    (\<forall>p \<in> rpts (pb_getRect pb). pb_at pb' p = masked r msk (\<lambda>(cx, cy). pixels ! nat (cy * rect_width r + cx)) img p)"
proof -
  have "list_at pixels (cy * rect_width r + cx) = Some ((\<lambda>(cx, cy). pixels ! nat (cy * rect_width r + cx)) (cx, cy))"
    if "0 \<le> cx" "cx < rect_width r" "0 \<le> cy" "cy < rect_height r" for cx cy
    using row_index [OF that] assms(5) by (simp add: list_at_def add.commute)
  with mask_rect_shows [OF assms(1-4), of "\<lambda>cy cx. list_at pixels (cy * rect_width r + cx)"
      "\<lambda>(cx, cy). pixels ! nat (cy * rect_width r + cx)"]
  show ?thesis unfolding pb_maskRect_def by blast
qed

lemma maskRect_exact_witness:
  "\<exists>pb'. pb_maskRect \<lparr>pb_width = 2, pb_height = 2, pb_stride = 2, pb_data = [0, 0, 0, 0 :: nat]\<rparr> (mkRect 1 0 3 2) [5, 6, 7, 8] [0x80, 0x40] = Some pb' \<and>
    pb_at pb' (1, 0) = 5 \<and> pb_at pb' (1, 1) = 0"
proof -
  have s: "pb_shows \<lparr>pb_width = 2, pb_height = 2, pb_stride = 2, pb_data = [0, 0, 0, 0 :: nat]\<rparr> (\<lambda>_. 0)"
    by (auto simp: pb_shows_def wf_pb_def pb_getRect_def pb_at_def data_at_def nth_Cons' row_index)
  have "(1, 0) \<in> rpts (pb_getRect \<lparr>pb_width = 2, pb_height = 2, pb_stride = 2, pb_data = [0, 0, 0, 0 :: nat]\<rparr>)"
      "(1, 1) \<in> rpts (pb_getRect \<lparr>pb_width = 2, pb_height = 2, pb_stride = 2, pb_data = [0, 0, 0, 0 :: nat]\<rparr>)"
    by (simp_all add: pb_getRect_def)
  with maskRect_exact [OF s, of "mkRect 1 0 3 2" "[0x80, 0x40]" "[5, 6, 7, 8]"] show ?thesis
    by (fastforce simp: mkRect_def rect_width_def rect_height_def masked_def rpts_iff mask_bit_def)
qed

end
