(* ===== verification/Rfb_ComparingTracker.thy ===== *)
theory Rfb_ComparingTracker
  imports Rfb_UpdateTracker Rfb_PixelBuffer
begin

text \<open>
  The update tracker of the server's framebuffer, \<open>common/rfb/ComparingUpdateTracker.cxx\<close>: it keeps a copy of the
  framebuffer and drops from the changed region the blocks in which nothing has changed.
\<close>

subsection \<open>The tracker\<close>

text \<open>The framebuffer \<open>fb\<close> is an argument, as it changes under the tracker.\<close>

record 'p ComparingUpdateTracker =
  ct_sut :: SimpleUpdateTracker
  oldFb :: "'p PixelBuffer"
  firstCompare :: bool

definition empty_buffer :: "'p PixelBuffer" where
  "empty_buffer = \<lparr>pb_width = 0, pb_height = 0, pb_stride = 0, pb_data = []\<rparr>"

definition newComparingUpdateTracker :: "'p PixelBuffer \<Rightarrow> 'p ComparingUpdateTracker option" where
  "newComparingUpdateTracker fb = do {
     r \<leftarrow> Region_of_rect (pb_getRect fb);
     c \<leftarrow> assign_union (changed (newSimpleUpdateTracker True)) r;
     Some \<lparr>ct_sut = (newSimpleUpdateTracker True)\<lparr>changed := c\<rparr>, oldFb = empty_buffer, firstCompare = True\<rparr> }"

text \<open>\<open>ManagedPixelBuffer::setSize\<close>; what the array holds afterwards is unspecified.\<close>

definition pb_setSize :: "(nat \<Rightarrow> 'p) \<Rightarrow> int \<Rightarrow> int \<Rightarrow> 'p PixelBuffer" where
  "pb_setSize junk w h = \<lparr>pb_width = w, pb_height = h, pb_stride = w, pb_data = map junk [0..<nat (w * h)]\<rparr>"

subsection \<open>Comparing a block\<close>

text \<open>Rows from \<open>y\<close> on, until one differs; from there on the rows are copied.\<close>

fun compare_rows :: "'p PixelBuffer \<Rightarrow> 'p PixelBuffer \<Rightarrow> int \<Rightarrow> int \<Rightarrow> int \<Rightarrow> nat \<Rightarrow> ('p PixelBuffer \<times> bool) option" where
  "compare_rows fb old x w y 0 = Some (old, False)"
| "compare_rows fb old x w y (Suc n) = do {
     a \<leftarrow> get_row (pb_data old) (x + y * pb_stride old) w;
     b \<leftarrow> get_row (pb_data fb) (x + y * pb_stride fb) w;
     (if a \<noteq> b
      then do {
        rows \<leftarrow> get_rows (pb_data fb) (x + y * pb_stride fb) (pb_stride fb) w (Suc n);
        old \<leftarrow> set_data old (put_rows (pb_data old) (x + y * pb_stride old) (pb_stride old) rows);
        Some (old, True) }
      else compare_rows fb old x w (y + 1) n) }"

fun compare_blocks :: "'p PixelBuffer \<Rightarrow> 'p PixelBuffer \<Rightarrow> Rect list \<Rightarrow> ('p PixelBuffer \<times> Rect list) option" where
  "compare_blocks fb old [] = Some (old, [])"
| "compare_blocks fb old (t # ts) = do {
     (old, differs) \<leftarrow> compare_rows fb old (px (r_tl t)) (rect_width t) (py (r_tl t)) (nat (rect_height t));
     (old, blocks) \<leftarrow> compare_blocks fb old ts;
     Some (old, if differs then t # blocks else blocks) }"

text \<open>\<open>compareRect\<close>; its blocks are those of the hextile encoding. \<open>temp\<close> is a new region.\<close>

definition compareRect :: "'p PixelBuffer \<Rightarrow> Rect \<Rightarrow> 'p PixelBuffer \<Rightarrow> region \<Rightarrow> ('p PixelBuffer \<times> region) option" where
  "compareRect fb r old newChanged =
     (if \<not> enclosed_by r (pb_getRect fb) then Some (old, newChanged)
      else do {
        (old, changedBlocks) \<leftarrow> compare_blocks fb old (tiles r);
        (if changedBlocks \<noteq> []
         then do {
           h \<leftarrow> setOrderedRects_at (\<lambda>_. XCreateRegion) 0 changedBlocks 1;
           newChanged \<leftarrow> assign_union newChanged (h 0);
           Some (old, newChanged) }
         else Some (old, newChanged)) })"

fun compare_rects :: "'p PixelBuffer \<Rightarrow> Rect list \<Rightarrow> 'p PixelBuffer \<Rightarrow> region \<Rightarrow> ('p PixelBuffer \<times> region) option" where
  "compare_rects fb [] old newChanged = Some (old, newChanged)"
| "compare_rects fb (r # rs) old newChanged =
     do { (old, newChanged) \<leftarrow> compareRect fb r old newChanged; compare_rects fb rs old newChanged }"

subsection \<open>Comparing\<close>

fun copy_rects :: "Point \<Rightarrow> Rect list \<Rightarrow> 'p PixelBuffer \<Rightarrow> 'p PixelBuffer option" where
  "copy_rects delta [] old = Some old"
| "copy_rects delta (r # rs) old = do { old \<leftarrow> pb_copyRect old r delta; copy_rects delta rs old }"

text \<open>The first time the whole framebuffer is copied, in strips of 16 rows.\<close>

fun copy_strips :: "'p PixelBuffer \<Rightarrow> Rect list \<Rightarrow> 'p PixelBuffer \<Rightarrow> 'p PixelBuffer option" where
  "copy_strips fb [] old = Some old"
| "copy_strips fb (r # rs) old = do {
     old \<leftarrow> pb_imageRect old r (drop (nat (getPixels fb r)) (pb_data fb)) (pb_stride fb);
     copy_strips fb rs old }"

definition strips :: "'p PixelBuffer \<Rightarrow> Rect list" where
  "strips fb = map (\<lambda>(y1, y2). mkRect 0 y1 (pb_width fb) y2) (tile_spans 0 (pb_height fb))"

definition exclude_video :: "SimpleUpdateTracker \<Rightarrow> SimpleUpdateTracker option" where
  "exclude_video t =
     (if rect_is_empty (video_area t) then Some t
      else do {
        v \<leftarrow> Region_of_rect (video_area t);
        c \<leftarrow> assign_subtract (changed t) v;
        k \<leftarrow> assign_subtract (copied t) v;
        Some (t\<lparr>changed := c, copied := k\<rparr>) })"

definition compare :: "(nat \<Rightarrow> 'p) \<Rightarrow> 'p PixelBuffer \<Rightarrow> 'p ComparingUpdateTracker \<Rightarrow> 'p ComparingUpdateTracker option" where
  "compare junk fb ct = do {
     t \<leftarrow> exclude_video (ct_sut ct);
     (if firstCompare ct
      then do {
        old \<leftarrow> copy_strips fb (strips fb) (pb_setSize junk (pb_width fb) (pb_height fb));
        Some \<lparr>ct_sut = t, oldFb = old, firstCompare = False\<rparr> }
      else do {
        rs \<leftarrow> get_rects (copied t) (px (copy_delta t) \<le> 0) (py (copy_delta t) \<le> 0) 0;
        old \<leftarrow> copy_rects (copy_delta t) rs (oldFb ct);
        to_check \<leftarrow> region_union (changed t) (copied t);
        rs \<leftarrow> get_rects to_check True True 0;
        (old, newChanged) \<leftarrow> compare_rects fb rs old XCreateRegion;
        k \<leftarrow> assign_subtract (copied t) newChanged;
        c \<leftarrow> op_assign (changed t) newChanged;
        Some \<lparr>ct_sut = t\<lparr>copied := k, changed := c\<rparr>, oldFb = old, firstCompare = False\<rparr> }) }"

subsection \<open>What comparing finds\<close>

definition same_size :: "'p PixelBuffer \<Rightarrow> 'p PixelBuffer \<Rightarrow> bool" where
  "same_size a b \<longleftrightarrow> pb_width a = pb_width b \<and> pb_height a = pb_height b"

lemma same_size_shape: "same_size fb old \<Longrightarrow> same_shape old old' \<Longrightarrow> same_size fb old'"
  by (simp add: same_size_def same_shape_def)

lemma same_shape_refl [simp]: "same_shape pb pb" and same_shape_trans: "same_shape a b \<Longrightarrow> same_shape b c \<Longrightarrow> same_shape a c"
  by (simp_all add: same_shape_def)

lemma same_size_in_buffer: "same_size fb old \<Longrightarrow> in_buffer old r \<longleftrightarrow> in_buffer fb r"
  by (simp add: same_size_def in_buffer_iff)

lemma shown_rows:
  assumes "pb_shows pb img" and "0 \<le> x" "x + int w \<le> pb_width pb" "0 \<le> y" "y + int n \<le> pb_height pb"
  shows "get_rows (pb_data pb) (x + y * pb_stride pb) (pb_stride pb) (int w) n =
    Some (map (\<lambda>j. map (\<lambda>i. img (x + int i, y + int j)) [0..<w]) [0..<n])"
proof -
  have "int (length (pb_data pb)) = pb_stride pb * pb_height pb" "x + int w \<le> pb_stride pb"
    using assms by (auto simp: pb_shows_def wf_pb_def)
  then show ?thesis
    using get_rows_at [of x "int w" "pb_stride pb" "pb_data pb" "pb_height pb" y n] assms shows_at [OF assms(1)] by simp
qed

lemma shown_row:
  assumes "pb_shows pb img" and "0 \<le> x" "x + int w \<le> pb_width pb" "0 \<le> y" "y < pb_height pb"
  shows "get_row (pb_data pb) (x + y * pb_stride pb) (int w) = Some (map (\<lambda>i. img (x + int i, y)) [0..<w])"
  using shown_rows [OF assms(1-4), of 1] assms(5) by (auto split: bind_splits)

definition row_span :: "int \<Rightarrow> nat \<Rightarrow> int \<Rightarrow> nat \<Rightarrow> (int \<times> int) set" where
  "row_span x w y n = {x..<x + int w} \<times> {y..<y + int n}"

lemma compare_rows_shows:
  assumes fb: "pb_shows fb F" and old: "pb_shows old G" and "same_size fb old"
    and x: "0 \<le> x" "0 < w" "x + int w \<le> pb_width fb"
  shows "0 \<le> y \<Longrightarrow> y + int n \<le> pb_height fb \<Longrightarrow>
    \<exists>old' differs. compare_rows fb old x (int w) y n = Some (old', differs) \<and> same_shape old old' \<and>
      pb_shows old' (\<lambda>p. if p \<in> row_span x w y n then F p else G p) \<and> (differs \<longleftrightarrow> (\<exists>p \<in> row_span x w y n. F p \<noteq> G p))"
proof (induction n arbitrary: y)
  case 0
  then show ?case using old by (intro exI [of _ old] exI [of _ False]) (simp add: row_span_def)
next
  case (Suc n)
  have size: "pb_width old = pb_width fb" "pb_height old = pb_height fb" using assms(3) by (simp_all add: same_size_def)
  have a: "get_row (pb_data old) (x + y * pb_stride old) (int w) = Some (map (\<lambda>i. G (x + int i, y)) [0..<w])"
    and b: "get_row (pb_data fb) (x + y * pb_stride fb) (int w) = Some (map (\<lambda>i. F (x + int i, y)) [0..<w])"
    using shown_row [OF old x(1)] shown_row [OF fb x(1)] Suc.prems x size by simp_all
  have first: "p \<in> row_span x w y (Suc n) \<longleftrightarrow> p \<in> row_span x w y 1 \<or> p \<in> row_span x w (y + 1) n" for p
    by (cases p) (auto simp: row_span_def)
  have row1: "p \<in> row_span x w y 1 \<longleftrightarrow> (\<exists>i < w. p = (x + int i, y))" for p
  proof (cases p)
    case (Pair u v)
    have "x \<le> u \<and> u < x + int w \<longleftrightarrow> (\<exists>i < w. u = x + int i)" by (metis add_less_cancel_left le_add_same_cancel1 of_nat_0_le_iff of_nat_less_iff zle_iff_zadd)
    then show ?thesis by (auto simp: Pair row_span_def)
  qed
  show ?case
  proof (cases "map (\<lambda>i. G (x + int i, y)) [0..<w] = map (\<lambda>i. F (x + int i, y)) [0..<w]")
    case True
    then have eq: "F p = G p" if "p \<in> row_span x w y 1" for p using that unfolding row1 by auto
    have "0 \<le> y + 1" "y + 1 + int n \<le> pb_height fb" using Suc.prems by simp_all
    from Suc.IH [OF this] obtain old' differs where "compare_rows fb old x (int w) (y + 1) n = Some (old', differs)" "same_shape old old'"
      "pb_shows old' (\<lambda>p. if p \<in> row_span x w (y + 1) n then F p else G p)" "differs \<longleftrightarrow> (\<exists>p \<in> row_span x w (y + 1) n. F p \<noteq> G p)"
      by blast
    moreover have "(\<lambda>p. if p \<in> row_span x w (y + 1) n then F p else G p) = (\<lambda>p. if p \<in> row_span x w y (Suc n) then F p else G p)"
      using eq by (auto simp: fun_eq_iff first simp del: split_paired_All)
    moreover have "(\<exists>p \<in> row_span x w (y + 1) n. F p \<noteq> G p) \<longleftrightarrow> (\<exists>p \<in> row_span x w y (Suc n). F p \<noteq> G p)"
      using eq first by blast
    ultimately show ?thesis using a b True by simp
  next
    case False
    then obtain i where "i < w" "F (x + int i, y) \<noteq> G (x + int i, y)" by auto
    then have "\<exists>p \<in> row_span x w y (Suc n). F p \<noteq> G p" unfolding first Bex_def row1 by blast
    moreover define r where "r = mkRect x y (x + int w) (y + int (Suc n))"
    have r: "in_buffer old r" "getPixels old r = x + y * pb_stride old" "rect_width r = int w" "rect_height r = int (Suc n)"
        "px (r_tl r) = x" "py (r_tl r) = y" "rpts r = row_span x w y (Suc n)"
      using Suc.prems x size by (simp_all add: r_def in_buffer_iff mkRect_def getPixels_def rect_width_def rect_height_def rpts_def row_span_def)
    have "0 < pb_stride old" using x size old by (auto simp: pb_shows_def wf_pb_def)
    then have "Suc n = row_count (pb_stride old) (rect_height r)" by (simp add: r(4) row_count_def)
    from put_rows_shows [OF old r(1) this, of F] obtain old' where o: "set_data old (put_rows (pb_data old) (x + y * pb_stride old) (pb_stride old)
        (map (\<lambda>j. map (\<lambda>i. F (x + int i, y + int j)) [0..<w]) [0..<Suc n])) = Some old'" "same_shape old old'" "pb_shows old' (draw r F G)"
      unfolding r by auto
    moreover have "draw r F G = (\<lambda>p. if p \<in> row_span x w y (Suc n) then F p else G p)"
      by (auto simp: fun_eq_iff draw_rpts r(7) simp del: split_paired_All)
    moreover have "get_rows (pb_data fb) (x + y * pb_stride fb) (pb_stride fb) (int w) (Suc n) =
        Some (map (\<lambda>j. map (\<lambda>i. F (x + int i, y + int j)) [0..<w]) [0..<Suc n])"
      by (rule shown_rows [OF fb x(1,3) Suc.prems])
    ultimately show ?thesis using a b False
      by (intro exI [of _ old'] exI [of _ True]) (simp del: get_rows.simps upt_Suc)
  qed
qed

text \<open>The blocks found contain all the changed pixels of the given ones, and each contains a changed pixel.\<close>

lemma compare_blocks_shows:
  assumes fb: "pb_shows fb F"
  shows "pb_shows old G \<Longrightarrow> same_size fb old \<Longrightarrow> \<forall>t \<in> set ts. in_buffer fb t \<and> 0 < rect_width t \<Longrightarrow>
    \<exists>old' cs. compare_blocks fb old ts = Some (old', cs) \<and> same_shape old old' \<and>
      pb_shows old' (\<lambda>p. if p \<in> (\<Union>t \<in> set ts. rpts t) then F p else G p) \<and> set cs \<subseteq> set ts \<and>
      {p \<in> (\<Union>t \<in> set ts. rpts t). F p \<noteq> G p} \<subseteq> (\<Union>t \<in> set cs. rpts t) \<and> (\<forall>t \<in> set cs. \<exists>p \<in> rpts t. F p \<noteq> G p)"
proof (induction ts arbitrary: old G)
  case (Cons t ts)
  have t: "in_buffer fb t" "0 < rect_width t" using Cons.prems(3) by simp_all
  have w: "int (nat (rect_width t)) = rect_width t" using t(2) by simp
  have span: "row_span (px (r_tl t)) (nat (rect_width t)) (py (r_tl t)) (nat (rect_height t)) = rpts t"
    using t by (auto simp: row_span_def rpts_def in_buffer_iff rect_width_def rect_height_def)
  obtain old1 d where 1: "compare_rows fb old (px (r_tl t)) (rect_width t) (py (r_tl t)) (nat (rect_height t)) = Some (old1, d)"
      "same_shape old old1" "pb_shows old1 (\<lambda>p. if p \<in> rpts t then F p else G p)" "d \<longleftrightarrow> (\<exists>p \<in> rpts t. F p \<noteq> G p)"
    using compare_rows_shows [OF fb Cons.prems(1,2), of "px (r_tl t)" "nat (rect_width t)" "py (r_tl t)" "nat (rect_height t)"] t
    unfolding span w by (auto simp: in_buffer_iff rect_width_def rect_height_def)
  obtain old2 cs where 2: "compare_blocks fb old1 ts = Some (old2, cs)" "same_shape old1 old2"
      "pb_shows old2 (\<lambda>p. if p \<in> (\<Union>t \<in> set ts. rpts t) then F p else if p \<in> rpts t then F p else G p)" "set cs \<subseteq> set ts"
      "{p \<in> (\<Union>t \<in> set ts. rpts t). F p \<noteq> (if p \<in> rpts t then F p else G p)} \<subseteq> (\<Union>t \<in> set cs. rpts t)"
      "\<forall>c \<in> set cs. \<exists>p \<in> rpts c. F p \<noteq> (if p \<in> rpts t then F p else G p)"
    using Cons.IH [OF 1(3) same_size_shape [OF Cons.prems(2) 1(2)]] Cons.prems(3) by auto
  have "(\<lambda>p. if p \<in> (\<Union>t \<in> set ts. rpts t) then F p else if p \<in> rpts t then F p else G p) =
      (\<lambda>p. if p \<in> (\<Union>t \<in> set (t # ts). rpts t) then F p else G p)" by (auto simp: fun_eq_iff)
  moreover have "{p \<in> (\<Union>t \<in> set (t # ts). rpts t). F p \<noteq> G p} \<subseteq> (\<Union>t \<in> set (if d then t # cs else cs). rpts t)"
  proof
    fix p
    assume p: "p \<in> {p \<in> (\<Union>t \<in> set (t # ts). rpts t). F p \<noteq> G p}"
    show "p \<in> (\<Union>t \<in> set (if d then t # cs else cs). rpts t)"
    proof (cases "p \<in> rpts t")
      case True
      then have d using p 1(4) by blast
      then show ?thesis using True by simp
    next
      case False
      then have "p \<in> (\<Union>t \<in> set cs. rpts t)" using p 2(5) by auto
      then show ?thesis by auto
    qed
  qed
  moreover have "\<exists>p \<in> rpts c. F p \<noteq> G p" if "c \<in> set (if d then t # cs else cs)" for c
  proof (cases "c \<in> set cs")
    case True
    then show ?thesis using 2(6) by (metis (full_types))
  next
    case False
    then have "c = t" d using that by (auto split: if_splits)
    then show ?thesis using 1(4) by simp
  qed
  ultimately show ?case
    using 1(1) 2(1-4) same_shape_trans [OF 1(2) 2(2)] by (intro exI [of _ old2] exI [of _ "if d then t # cs else cs"]) auto
qed simp

lemma tiles_rpts: "(\<Union>t \<in> set (tiles r). rpts t) = rpts r"
  using tiles_cover [of r, unfolded rect_contains_iff] by (simp add: set_eq_iff)

lemma tiles_in_buffer:
  assumes "in_buffer fb r" and "t \<in> set (tiles r)"
  shows "in_buffer fb t" and "0 < rect_width t" and "rpts t \<subseteq> rpts r"
proof -
  have sz: "0 < rect_width t" "0 < rect_height t" using tiles_size [OF assms(2)] by simp_all
  then show "0 < rect_width t" by simp
  show sub: "rpts t \<subseteq> rpts r" using assms(2) tiles_rpts [of r] by blast
  have "(px (r_tl t), py (r_tl t)) \<in> rpts t" "(px (r_br t) - 1, py (r_br t) - 1) \<in> rpts t"
    using sz by (simp_all add: rpts_iff rect_width_def rect_height_def)
  with sub have "(px (r_tl t), py (r_tl t)) \<in> rpts r" "(px (r_br t) - 1, py (r_br t) - 1) \<in> rpts r" by auto
  then show "in_buffer fb t" using sz assms(1) by (auto simp: in_buffer_iff rpts_iff rect_width_def rect_height_def)
qed

definition short_buffer :: "'p PixelBuffer \<Rightarrow> bool" where
  "short_buffer fb \<longleftrightarrow> pb_width fb \<le> 32767 \<and> pb_height fb \<le> 32767"

lemma short_in_buffer: "short_buffer fb \<Longrightarrow> in_buffer fb r \<Longrightarrow> short_rect r"
  by (auto simp: short_buffer_def in_buffer_iff short_rect_def is_short_def)

lemma compareRect_shows:
  assumes fb: "pb_shows fb F" "short_buffer fb" and old: "pb_shows old G" "same_size fb old" and r: "in_buffer fb r" and N: "denotes nc N"
  shows "\<exists>old' nc' D. compareRect fb r old nc = Some (old', nc') \<and> same_shape old old' \<and>
    pb_shows old' (\<lambda>p. if p \<in> rpts r then F p else G p) \<and> denotes nc' (N \<union> D) \<and> D \<subseteq> rpts r \<and> {p \<in> rpts r. F p \<noteq> G p} \<subseteq> D \<and>
    ((\<forall>p \<in> rpts r. F p = G p) \<longrightarrow> D = {})"
proof -
  obtain old' cs where c: "compare_blocks fb old (tiles r) = Some (old', cs)" "same_shape old old'"
      "pb_shows old' (\<lambda>p. if p \<in> rpts r then F p else G p)" "set cs \<subseteq> set (tiles r)"
      "{p \<in> rpts r. F p \<noteq> G p} \<subseteq> (\<Union>t \<in> set cs. rpts t)" "\<forall>t \<in> set cs. \<exists>p \<in> rpts t. F p \<noteq> G p"
    using compare_blocks_shows [OF fb(1) old, of "tiles r"] tiles_in_buffer(1,2) [OF r] unfolding tiles_rpts by auto
  have enc: "enclosed_by r (pb_getRect fb)" using r by (simp add: in_buffer_def)
  show ?thesis
  proof (cases "cs = []")
    case True
    then show ?thesis using c enc N by (intro exI [of _ old'] exI [of _ nc] exI [of _ "{}"]) (simp add: compareRect_def)
  next
    case False
    have "\<forall>t \<in> set cs. short_rect t" using c(4) tiles_in_buffer(1) [OF r] short_in_buffer [OF fb(2)] by blast
    then obtain h where h: "setOrderedRects_at (\<lambda>_. XCreateRegion) 0 cs 1 = Some h" "denotes (h 0) (\<Union>t \<in> set cs. rpts t)"
      using add_ordered_pts [of 0 1 "(\<lambda>_. XCreateRegion)(0 := region_clear XCreateRegion)" cs] denotes_clear [of XCreateRegion]
      by (auto simp: setOrderedRects_at_def denotes_def wf_region_size)
    obtain nc' where nc': "assign_union nc (h 0) = Some nc'" "denotes nc' (N \<union> (\<Union>t \<in> set cs. rpts t))"
      using N h(2) by (rule assign_ops.unionE)
    have sub: "(\<Union>t \<in> set cs. rpts t) \<subseteq> rpts r" using c(4) tiles_in_buffer(3) [OF r] by blast
    moreover have "\<not> (\<forall>p \<in> rpts r. F p = G p)" using False c(6) sub by (metis UN_subset_iff list.set_intros(1) neq_Nil_conv subsetD)
    ultimately show ?thesis
      using c h(1) nc' enc False by (intro exI [of _ old'] exI [of _ nc'] exI [of _ "\<Union>t \<in> set cs. rpts t"]) (simp add: compareRect_def, blast)
  qed
qed

lemma compare_rects_shows:
  assumes fb: "pb_shows fb F" "short_buffer fb"
  shows "pb_shows old G \<Longrightarrow> same_size fb old \<Longrightarrow> \<forall>r \<in> set rs. in_buffer fb r \<Longrightarrow> denotes nc N \<Longrightarrow>
    \<exists>old' nc' D. compare_rects fb rs old nc = Some (old', nc') \<and> same_shape old old' \<and>
      pb_shows old' (\<lambda>p. if p \<in> (\<Union>r \<in> set rs. rpts r) then F p else G p) \<and> denotes nc' (N \<union> D) \<and> D \<subseteq> (\<Union>r \<in> set rs. rpts r) \<and>
      {p \<in> (\<Union>r \<in> set rs. rpts r). F p \<noteq> G p} \<subseteq> D \<and> ((\<forall>p \<in> (\<Union>r \<in> set rs. rpts r). F p = G p) \<longrightarrow> D = {})"
proof (induction rs arbitrary: old G nc N)
  case Nil
  then show ?case by (intro exI [of _ old] exI [of _ nc] exI [of _ "{}"]) simp
next
  case (Cons r rs)
  obtain old1 nc1 D where 1: "compareRect fb r old nc = Some (old1, nc1)" "same_shape old old1"
      "pb_shows old1 (\<lambda>p. if p \<in> rpts r then F p else G p)" "denotes nc1 (N \<union> D)" "D \<subseteq> rpts r" "{p \<in> rpts r. F p \<noteq> G p} \<subseteq> D"
      "(\<forall>p \<in> rpts r. F p = G p) \<Longrightarrow> D = {}"
    using compareRect_shows [OF fb Cons.prems(1,2) _ Cons.prems(4), of r] Cons.prems(3) by auto
  let ?G = "\<lambda>p. if p \<in> rpts r then F p else G p"
  have rs: "\<forall>r \<in> set rs. in_buffer fb r" using Cons.prems(3) by simp
  obtain old2 nc2 D2 where 2: "compare_rects fb rs old1 nc1 = Some (old2, nc2)" "same_shape old1 old2"
      "pb_shows old2 (\<lambda>p. if p \<in> (\<Union>r \<in> set rs. rpts r) then F p else ?G p)" "denotes nc2 (N \<union> D \<union> D2)" "D2 \<subseteq> (\<Union>r \<in> set rs. rpts r)"
      "{p \<in> (\<Union>r \<in> set rs. rpts r). F p \<noteq> ?G p} \<subseteq> D2" "(\<forall>p \<in> (\<Union>r \<in> set rs. rpts r). F p = ?G p) \<longrightarrow> D2 = {}"
    using Cons.IH [OF 1(3) same_size_shape [OF Cons.prems(2) 1(2)] rs 1(4)] by - (elim exE conjE, rule that)
  have "(\<lambda>p. if p \<in> (\<Union>r \<in> set rs. rpts r) then F p else ?G p) = (\<lambda>p. if p \<in> (\<Union>r \<in> set (r # rs). rpts r) then F p else G p)"
    by (auto simp: fun_eq_iff)
  moreover have "{p \<in> (\<Union>r \<in> set (r # rs). rpts r). F p \<noteq> G p} \<subseteq> D \<union> D2"
  proof
    fix p
    assume "p \<in> {p \<in> (\<Union>r \<in> set (r # rs). rpts r). F p \<noteq> G p}"
    then show "p \<in> D \<union> D2" using 1(6) 2(6) by (cases "p \<in> rpts r") auto
  qed
  moreover have "D \<union> D2 = {}" if "\<forall>p \<in> (\<Union>r \<in> set (r # rs). rpts r). F p = G p" using 1(7) 2(7) that by auto
  ultimately show ?case
    using 1(1,5) 2(1-5) same_shape_trans [OF 1(2) 2(2)]
    by (intro exI [of _ old2] exI [of _ nc2] exI [of _ "D \<union> D2"]) (auto simp: Un_assoc)
qed

subsection \<open>Keeping the copy up to date\<close>

lemma copy_rects_shows:
  "pb_shows old G \<Longrightarrow> \<forall>r \<in> set rs. in_buffer old r \<and> in_buffer old (rect_translate r (point_negate d)) \<Longrightarrow>
   \<exists>old'. copy_rects d rs old = Some old' \<and> same_shape old old' \<and> pb_shows old' (foldl (copy_rect (px d) (py d)) G rs)"
proof (induction rs arbitrary: old G)
  case (Cons r rs)
  obtain old1 where 1: "pb_copyRect old r d = Some old1" "same_shape old old1" "pb_shows old1 (copy_rect (px d) (py d) G r)"
    using copyRect_shows [OF Cons.prems(1), of r d] Cons.prems(2) by auto
  have "\<forall>r \<in> set rs. in_buffer old1 r \<and> in_buffer old1 (rect_translate r (point_negate d))"
    using Cons.prems(2) 1(2) by (auto simp: in_buffer_iff same_shape_def)
  then obtain old2 where "copy_rects d rs old1 = Some old2" "same_shape old1 old2" "pb_shows old2 (foldl (copy_rect (px d) (py d)) (copy_rect (px d) (py d) G r) rs)"
    using Cons.IH [OF 1(3)] by blast
  then show ?case using 1(1) same_shape_trans [OF 1(2)] by auto
qed simp

definition screen_pts :: "'p PixelBuffer \<Rightarrow> (int \<times> int) set" where
  "screen_pts fb = rpts (pb_getRect fb)"

lemma screen_pts_iff: "screen_pts fb = {0..<pb_width fb} \<times> {0..<pb_height fb}"
  by (simp add: screen_pts_def pb_getRect_def)

lemma region_in_buffer:
  assumes "denotes r P" and "P \<subseteq> screen_pts fb"
  obtains rs where "get_rects r l t 0 = Some rs" and "(\<Union>R \<in> set rs. rpts R) = P"
    and "\<forall>R \<in> set rs. in_buffer fb R \<and> 0 < rect_width R \<and> 0 < rect_height R \<and> rpts R \<subseteq> P"
proof -
  obtain rs where rs: "get_rects r l t 0 = Some rs" "(\<Union>R \<in> set rs. rpts R) = P"
    "\<forall>R \<in> set rs. 0 < rect_width R \<and> 0 < rect_height R \<and> rpts R \<subseteq> P"
    using get_rects_whole [of r l t] assms(1) unfolding denotes_def by metis
  have "in_buffer fb R" if "R \<in> set rs" for R
  proof -
    have R: "0 < rect_width R" "0 < rect_height R" "rpts R \<subseteq> {0..<pb_width fb} \<times> {0..<pb_height fb}"
      using rs(3) that assms(2) by (auto simp: screen_pts_iff)
    from rect_corners [OF this] R(1,2) show ?thesis by (simp add: in_buffer_iff rect_width_def rect_height_def)
  qed
  with that rs show ?thesis by blast
qed

text \<open>The pixels \<open>K\<close> moved by \<open>d\<close> come from the screen.\<close>

definition from_screen :: "'p PixelBuffer \<Rightarrow> Point \<Rightarrow> (int \<times> int) set \<Rightarrow> bool" where
  "from_screen fb d K \<longleftrightarrow> (\<forall>(x, y) \<in> K. (x - px d, y - py d) \<in> screen_pts fb)"

lemma source_in_buffer:
  assumes "in_buffer fb R" and "0 < rect_width R" "0 < rect_height R" "rpts R \<subseteq> K" and "from_screen fb d K"
  shows "in_buffer fb (rect_translate R (point_negate d))"
proof -
  let ?S = "rect_translate R (point_negate d)"
  have "rpts ?S \<subseteq> {0..<pb_width fb} \<times> {0..<pb_height fb}"
  proof
    fix p
    assume p: "p \<in> rpts ?S"
    obtain x y where xy: "p = (x, y)" by (cases p)
    then have "(x + px d, y + py d) \<in> rpts R" using p by (auto simp: rpts_translate point_negate_def)
    then have "(x + px d - px d, y + py d - py d) \<in> screen_pts fb" using assms(4,5) unfolding from_screen_def by blast
    then show "p \<in> {0..<pb_width fb} \<times> {0..<pb_height fb}" by (simp add: xy screen_pts_iff)
  qed
  moreover have "0 < rect_width ?S" "0 < rect_height ?S"
    using assms(2,3) by (simp_all add: rect_width_def rect_height_def rect_translate_def point_translate_def)
  ultimately show ?thesis
    using rect_corners [of ?S "pb_width fb" "pb_height fb"] by (auto simp: in_buffer_iff rect_width_def rect_height_def)
qed

lemma exclude_video_denotes:
  assumes "denotes (changed t) C" and "denotes (copied t) K" and "short_rect (video_area t)"
  shows "\<exists>t'. exclude_video t = Some t' \<and> denotes (changed t') (C - rpts (video_area t)) \<and> denotes (copied t') (K - rpts (video_area t)) \<and>
    copy_delta t' = copy_delta t \<and> copy_enabled t' = copy_enabled t \<and> video_area t' = video_area t"
proof (cases "rect_is_empty (video_area t)")
  case True
  then show ?thesis using assms rpts_empty [of "video_area t"] by (simp add: exclude_video_def)
next
  case False
  obtain v where v: "Region_of_rect (video_area t) = Some v" "denotes v (rpts (video_area t))" using Region_of_rect_denotes [OF assms(3)] by blast
  obtain c where c: "assign_subtract (changed t) v = Some c" "denotes c (C - rpts (video_area t))" using assms(1) v(2) by (rule assign_ops.subtractE)
  obtain k where "assign_subtract (copied t) v = Some k" "denotes k (K - rpts (video_area t))" using assms(2) v(2) by (rule assign_ops.subtractE)
  then show ?thesis using False v(1) c by (simp add: exclude_video_def)
qed

lemma compare_again:
  assumes fb: "pb_shows fb F" "short_buffer fb" and ct: "\<not> firstCompare ct" "pb_shows (oldFb ct) G" "same_size fb (oldFb ct)"
    and t: "denotes (changed (ct_sut ct)) C" "denotes (copied (ct_sut ct)) K" "short_rect (video_area (ct_sut ct))"
    and C0: "C0 = C - rpts (video_area (ct_sut ct))" and K0: "K0 = K - rpts (video_area (ct_sut ct))"
    and scr: "C \<subseteq> screen_pts fb" "K \<subseteq> screen_pts fb" "from_screen fb (copy_delta (ct_sut ct)) K"
  shows "\<exists>ct' D. compare junk fb ct = Some ct' \<and> \<not> firstCompare ct' \<and> denotes (changed (ct_sut ct')) D \<and>
    denotes (copied (ct_sut ct')) (K0 - D) \<and> copy_delta (ct_sut ct') = copy_delta (ct_sut ct) \<and>
    copy_enabled (ct_sut ct') = copy_enabled (ct_sut ct) \<and> video_area (ct_sut ct') = video_area (ct_sut ct) \<and> D \<subseteq> C0 \<union> K0 \<and>
    {p \<in> C0 \<union> K0. F p \<noteq> moved K0 (copy_delta (ct_sut ct)) G p} \<subseteq> D \<and>
    ((\<forall>p \<in> C0 \<union> K0. F p = moved K0 (copy_delta (ct_sut ct)) G p) \<longrightarrow> D = {}) \<and>
    pb_shows (oldFb ct') (\<lambda>p. if p \<in> C0 \<union> K0 then F p else G p) \<and> same_size fb (oldFb ct')"
proof -
  obtain t' where t': "exclude_video (ct_sut ct) = Some t'" "denotes (changed t') C0" "denotes (copied t') K0"
      "copy_delta t' = copy_delta (ct_sut ct)" "copy_enabled t' = copy_enabled (ct_sut ct)" "video_area t' = video_area (ct_sut ct)"
    using exclude_video_denotes [OF t] by (auto simp: C0 K0)
  define d where "d = copy_delta (ct_sut ct)"
  have scr0: "C0 \<subseteq> screen_pts fb" "K0 \<subseteq> screen_pts fb" "from_screen fb d K0" using scr by (auto simp: C0 K0 d_def from_screen_def)
  obtain rs where rs: "get_rects (copied t') (px d \<le> 0) (py d \<le> 0) 0 = Some rs" "(\<Union>R \<in> set rs. rpts R) = K0"
    "\<forall>R \<in> set rs. in_buffer fb R \<and> 0 < rect_width R \<and> 0 < rect_height R \<and> rpts R \<subseteq> K0"
    by (rule region_in_buffer [OF t'(3) scr0(2)])
  have "\<forall>r \<in> set rs. in_buffer (oldFb ct) r \<and> in_buffer (oldFb ct) (rect_translate r (point_negate d))"
    using rs(3) source_in_buffer [OF _ _ _ _ scr0(3)] unfolding same_size_in_buffer [OF ct(3)] by blast
  then obtain old1 where o1: "copy_rects d rs (oldFb ct) = Some old1" "same_shape (oldFb ct) old1" "pb_shows old1 (foldl (copy_rect (px d) (py d)) G rs)"
    using copy_rects_shows [OF ct(2)] by blast
  have "sorted_wrt (copy_safe (px d) (py d)) rs"
    using get_rects_copy_order [OF denotes_wf [OF t'(3)], of "px d" "py d"] rs(1) by auto
  then have mv: "foldl (copy_rect (px d) (py d)) G rs = moved K0 d G"
    using copy_in_sequence [of "px d" "py d" rs G] rs(2) by (auto simp: fun_eq_iff moved_def)
  obtain tc where tc: "region_union (changed t') (copied t') = Some tc" "denotes tc (C0 \<union> K0)" using t'(2,3) by (rule new_ops.unionE)
  have cu: "C0 \<union> K0 \<subseteq> screen_pts fb" using scr0 by blast
  obtain qs where qs: "get_rects tc True True 0 = Some qs" "(\<Union>R \<in> set qs. rpts R) = C0 \<union> K0"
    "\<forall>R \<in> set qs. in_buffer fb R \<and> 0 < rect_width R \<and> 0 < rect_height R \<and> rpts R \<subseteq> C0 \<union> K0"
    by (rule region_in_buffer [OF tc(2) cu])
  have qin: "\<forall>r \<in> set qs. in_buffer fb r" using qs(3) by blast
  obtain old2 nc D where o2: "compare_rects fb qs old1 XCreateRegion = Some (old2, nc)" "same_shape old1 old2"
      "pb_shows old2 (\<lambda>p. if p \<in> C0 \<union> K0 then F p else moved K0 d G p)" "denotes nc ({} \<union> D)" "D \<subseteq> C0 \<union> K0"
      "{p \<in> C0 \<union> K0. F p \<noteq> moved K0 d G p} \<subseteq> D" "(\<forall>p \<in> C0 \<union> K0. F p = moved K0 d G p) \<longrightarrow> D = {}"
    using compare_rects_shows [OF fb o1(3) same_size_shape [OF ct(3) o1(2)] qin denotes_XCreateRegion] unfolding qs(2) mv
    by - (elim exE conjE, rule that)
  have D: "denotes nc D" using o2(4) by simp
  obtain k where k: "assign_subtract (copied t') nc = Some k" "denotes k (K0 - D)" using t'(3) D by (rule assign_ops.subtractE)
  obtain c where c: "op_assign (changed t') nc = Some c" "denotes c D" using op_assign_denotes [OF denotes_size [OF t'(2)] D] by blast
  have same: "(\<lambda>p. if p \<in> C0 \<union> K0 then F p else moved K0 d G p) = (\<lambda>p. if p \<in> C0 \<union> K0 then F p else G p)"
    by (auto simp: fun_eq_iff moved_def)
  define ct' where "ct' = \<lparr>ct_sut = t'\<lparr>copied := k, changed := c\<rparr>, oldFb = old2, firstCompare = False\<rparr>"
  have "compare junk fb ct = Some ct'"
    using t'(1,4) rs(1) o1(1) tc(1) qs(1) o2(1) k(1) c(1) ct(1) by (simp add: compare_def d_def ct'_def)
  moreover have "same_size fb old2" using same_size_shape [OF same_size_shape [OF ct(3) o1(2)] o2(2)] .
  ultimately show ?thesis
    using o2(3,5-7) k(2) c(2) t'(4-6) unfolding same d_def [symmetric] by (intro exI [of _ ct'] exI [of _ D]) (simp add: ct'_def d_def)
qed

lemma pb_setSize_shows: "0 \<le> w \<Longrightarrow> 0 \<le> h \<Longrightarrow> pb_shows (pb_setSize junk w h) (pb_at (pb_setSize junk w h))"
  by (simp add: pb_shows_def wf_pb_def pb_setSize_def)

lemma copy_strips_shows:
  assumes fb: "pb_shows fb F"
  shows "pb_shows old G \<Longrightarrow> same_size fb old \<Longrightarrow> \<forall>r \<in> set rs. in_buffer fb r \<and> px (r_tl r) = 0 \<Longrightarrow>
    \<exists>old'. copy_strips fb rs old = Some old' \<and> same_shape old old' \<and> pb_shows old' (\<lambda>p. if p \<in> (\<Union>r \<in> set rs. rpts r) then F p else G p)"
proof (induction rs arbitrary: old G)
  case (Cons r rs)
  have r: "in_buffer fb r" "in_buffer old r" "px (r_tl r) = 0" using Cons.prems(2,3) same_size_in_buffer by auto
  obtain old1 where 1: "pb_imageRect old r (drop (nat (getPixels fb r)) (pb_data fb)) (pb_stride fb) = Some old1" "same_shape old old1"
      "pb_shows old1 (draw r F G)"
    using imageRect_from [OF Cons.prems(1) r(2) fb r(1,3)] by blast
  obtain old2 where 2: "copy_strips fb rs old1 = Some old2" "same_shape old1 old2"
      "pb_shows old2 (\<lambda>p. if p \<in> (\<Union>r \<in> set rs. rpts r) then F p else draw r F G p)"
    using Cons.IH [OF 1(3) same_size_shape [OF Cons.prems(2) 1(2)]] Cons.prems(3) by auto
  have "(\<lambda>p. if p \<in> (\<Union>r \<in> set rs. rpts r) then F p else draw r F G p) = (\<lambda>p. if p \<in> (\<Union>r \<in> set (r # rs). rpts r) then F p else G p)"
    by (auto simp: fun_eq_iff draw_rpts)
  then show ?case using 1(1) 2 same_shape_trans [OF 1(2) 2(2)] by (intro exI [of _ old2]) simp
qed simp

lemma strips_cover: "(\<Union>r \<in> set (strips fb). rpts r) = screen_pts fb"
proof -
  have "(x, y) \<in> (\<Union>r \<in> set (strips fb). rpts r) \<longleftrightarrow>
      (0 \<le> x \<and> x < pb_width fb) \<and> (\<exists>(a, b) \<in> set (tile_spans 0 (pb_height fb)). a \<le> y \<and> y < b)" for x y
    by (simp add: strips_def case_prod_unfold Bex_def conj_left_commute)
  then show ?thesis unfolding tile_spans_cover by (simp add: screen_pts_iff set_eq_iff)
qed

lemma strips_in_buffer: "0 \<le> pb_width fb \<Longrightarrow> r \<in> set (strips fb) \<Longrightarrow> in_buffer fb r \<and> px (r_tl r) = 0"
  by (auto simp: strips_def in_buffer_iff mkRect_def dest!: tile_spans_bounds)

lemma pb_shows_cong: "pb_shows pb img \<Longrightarrow> (\<And>p. p \<in> screen_pts pb \<Longrightarrow> img p = img' p) \<Longrightarrow> pb_shows pb img'"
  by (simp add: pb_shows_def screen_pts_def del: split_paired_All)

lemma compare_first:
  assumes fb: "pb_shows fb F" and ct: "firstCompare ct"
    and t: "denotes (changed (ct_sut ct)) C" "denotes (copied (ct_sut ct)) K" "short_rect (video_area (ct_sut ct))"
  shows "\<exists>ct'. compare junk fb ct = Some ct' \<and> \<not> firstCompare ct' \<and> pb_shows (oldFb ct') F \<and> same_size fb (oldFb ct') \<and>
    denotes (changed (ct_sut ct')) (C - rpts (video_area (ct_sut ct))) \<and> denotes (copied (ct_sut ct')) (K - rpts (video_area (ct_sut ct))) \<and>
    copy_delta (ct_sut ct') = copy_delta (ct_sut ct) \<and> video_area (ct_sut ct') = video_area (ct_sut ct) \<and>
    copy_enabled (ct_sut ct') = copy_enabled (ct_sut ct)"
proof -
  obtain t' where t': "exclude_video (ct_sut ct) = Some t'" "denotes (changed t') (C - rpts (video_area (ct_sut ct)))"
      "denotes (copied t') (K - rpts (video_area (ct_sut ct)))" "copy_delta t' = copy_delta (ct_sut ct)"
      "copy_enabled t' = copy_enabled (ct_sut ct)" "video_area t' = video_area (ct_sut ct)"
    using exclude_video_denotes [OF t] by blast
  let ?new = "pb_setSize junk (pb_width fb) (pb_height fb)"
  have pos: "0 \<le> pb_width fb" "0 \<le> pb_height fb" using fb by (simp_all add: pb_shows_def wf_pb_def)
  obtain old where old: "copy_strips fb (strips fb) ?new = Some old" "same_shape ?new old"
      "pb_shows old (\<lambda>p. if p \<in> screen_pts fb then F p else pb_at ?new p)"
    using copy_strips_shows [OF fb pb_setSize_shows [OF pos], of junk "strips fb"] strips_in_buffer [OF pos(1)]
    unfolding strips_cover by (auto simp: same_size_def pb_setSize_def)
  have size: "same_size fb old" using old(2) by (simp add: same_size_def same_shape_def pb_setSize_def)
  have "screen_pts old = screen_pts fb" using size by (simp add: screen_pts_iff same_size_def)
  then have "pb_shows old F" using pb_shows_cong [OF old(3)] by simp
  then show ?thesis using t' old(1) size ct by (simp add: compare_def)
qed

subsection \<open>The contract\<close>

text \<open>On the screen and outside its video area the tracker accounts for the difference between \<open>G\<close> and \<open>F\<close>.\<close>

definition screen_tracks :: "SimpleUpdateTracker \<Rightarrow> 'p PixelBuffer \<Rightarrow> 'p image \<Rightarrow> 'p image \<Rightarrow> bool" where
  "screen_tracks t fb G F \<longleftrightarrow> short_rect (video_area t) \<and>
     (\<exists>C K. denotes (changed t) C \<and> denotes (copied t) K \<and> C \<subseteq> screen_pts fb \<and> K \<subseteq> screen_pts fb \<and> from_screen fb (copy_delta t) K \<and>
        (\<forall>p \<in> screen_pts fb. p \<notin> C \<union> rpts (video_area t) \<longrightarrow> F p = moved K (copy_delta t) G p))"

definition copy_current :: "'p ComparingUpdateTracker \<Rightarrow> 'p PixelBuffer \<Rightarrow> 'p image \<Rightarrow> bool" where
  "copy_current ct fb G \<longleftrightarrow> firstCompare ct \<or> pb_shows (oldFb ct) G \<and> same_size fb (oldFb ct)"

lemma compare_screen_tracks:
  assumes fb: "pb_shows fb F" "short_buffer fb" and t: "screen_tracks (ct_sut ct) fb G F" and cur: "copy_current ct fb G"
  shows "\<exists>ct' G'. compare junk fb ct = Some ct' \<and> screen_tracks (ct_sut ct') fb G F \<and> \<not> firstCompare ct' \<and>
    pb_shows (oldFb ct') G' \<and> same_size fb (oldFb ct') \<and> (\<forall>p \<in> screen_pts fb. p \<notin> rpts (video_area (ct_sut ct)) \<longrightarrow> G' p = F p) \<and>
    video_area (ct_sut ct') = video_area (ct_sut ct) \<and> copy_enabled (ct_sut ct') = copy_enabled (ct_sut ct) \<and>
    pts (changed (ct_sut ct')) \<union> pts (copied (ct_sut ct')) \<subseteq> pts (changed (ct_sut ct)) \<union> pts (copied (ct_sut ct)) - rpts (video_area (ct_sut ct))"
proof -
  define V where "V = rpts (video_area (ct_sut ct))"
  define d where "d = copy_delta (ct_sut ct)"
  obtain C K where CK: "denotes (changed (ct_sut ct)) C" "denotes (copied (ct_sut ct)) K" and scr: "C \<subseteq> screen_pts fb" "K \<subseteq> screen_pts fb"
      "from_screen fb d K" and eq: "\<And>p. p \<in> screen_pts fb \<Longrightarrow> p \<notin> C \<union> V \<Longrightarrow> F p = moved K d G p" and v: "short_rect (video_area (ct_sut ct))"
    using t unfolding screen_tracks_def V_def d_def by blast
  have pts: "pts (changed (ct_sut ct)) = C" "pts (copied (ct_sut ct)) = K" using CK by (simp_all add: denotes_def)
  show ?thesis
  proof (cases "firstCompare ct")
    case True
    obtain ct' where c: "compare junk fb ct = Some ct'" "\<not> firstCompare ct'" "pb_shows (oldFb ct') F" "same_size fb (oldFb ct')"
        "denotes (changed (ct_sut ct')) (C - V)" "denotes (copied (ct_sut ct')) (K - V)" "copy_delta (ct_sut ct') = d"
        "video_area (ct_sut ct') = video_area (ct_sut ct)" "copy_enabled (ct_sut ct') = copy_enabled (ct_sut ct)"
      using compare_first [OF fb(1) True CK v, of junk] unfolding V_def d_def by blast
    have "F p = moved (K - V) d G p" if "p \<in> screen_pts fb" "p \<notin> (C - V) \<union> V" for p
      using eq [of p] that by (cases p) (auto simp: moved_def)
    then have "screen_tracks (ct_sut ct') fb G F"
      using c(5-8) v scr unfolding screen_tracks_def V_def by (intro conjI exI [of _ "C - V"] exI [of _ "K - V"]) (auto simp: V_def from_screen_def)
    moreover have "pts (changed (ct_sut ct')) \<union> pts (copied (ct_sut ct')) \<subseteq> C \<union> K - V" using c(5,6) by (auto simp: denotes_def)
    ultimately show ?thesis using c unfolding pts V_def by blast
  next
    case False
    have cur: "pb_shows (oldFb ct) G" "same_size fb (oldFb ct)" using cur False by (simp_all add: copy_current_def)
    define C0 K0 where "C0 = C - V" and "K0 = K - V"
    obtain ct' D where c: "compare junk fb ct = Some ct'" "\<not> firstCompare ct'" "denotes (changed (ct_sut ct')) D"
        "denotes (copied (ct_sut ct')) (K0 - D)" "copy_delta (ct_sut ct') = d" "copy_enabled (ct_sut ct') = copy_enabled (ct_sut ct)"
        "video_area (ct_sut ct') = video_area (ct_sut ct)" "D \<subseteq> C0 \<union> K0" "{p \<in> C0 \<union> K0. F p \<noteq> moved K0 d G p} \<subseteq> D"
        "pb_shows (oldFb ct') (\<lambda>p. if p \<in> C0 \<union> K0 then F p else G p)" "same_size fb (oldFb ct')"
      using compare_again [OF fb False cur CK v C0_def [unfolded V_def] K0_def [unfolded V_def] scr(1,2) scr(3) [unfolded d_def], of junk]
      unfolding d_def [symmetric] by blast
    have "F p = moved (K0 - D) d G p" if p: "p \<in> screen_pts fb" "p \<notin> D \<union> V" for p
    proof (cases "p \<in> C0 \<union> K0")
      case True
      then have "F p = moved K0 d G p" using c(9) p(2) by blast
      then show ?thesis using p(2) by (cases p) (auto simp: moved_def)
    next
      case False
      then have "p \<notin> C" "p \<notin> K" using p(2) by (auto simp: C0_def K0_def)
      then show ?thesis using eq [OF p(1)] p(2) False by (cases p) (auto simp: moved_def)
    qed
    then have "screen_tracks (ct_sut ct') fb G F"
      using c(3-5,7,8) v scr unfolding screen_tracks_def
      by (intro conjI exI [of _ D] exI [of _ "K0 - D"]) (auto simp: V_def C0_def K0_def from_screen_def)
    moreover have "(if p \<in> C0 \<union> K0 then F p else G p) = F p" if "p \<in> screen_pts fb" "p \<notin> V" for p
      using eq [OF that(1)] that(2) by (cases p) (auto simp: C0_def K0_def moved_def)
    moreover have "pts (changed (ct_sut ct')) \<union> pts (copied (ct_sut ct')) \<subseteq> C \<union> K - V"
      using c(3,4,8) by (auto simp: denotes_def C0_def K0_def)
    ultimately show ?thesis using c(1,2,6,7,10,11) unfolding pts V_def by (intro exI conjI) (assumption | simp)+
  qed
qed

lemma new_comparing_tracks:
  assumes "pb_shows fb F" "short_buffer fb"
  shows "\<exists>ct. newComparingUpdateTracker fb = Some ct \<and> firstCompare ct \<and> screen_tracks (ct_sut ct) fb G F"
proof -
  have short: "short_rect (pb_getRect fb)" "short_rect rect_clear"
    using assms by (auto simp: short_rect_def is_short_def pb_getRect_def mkRect_def rect_clear_def short_buffer_def pb_shows_def wf_pb_def)
  obtain r where r: "Region_of_rect (pb_getRect fb) = Some r" "denotes r (screen_pts fb)"
    using Region_of_rect_denotes [OF short(1)] unfolding screen_pts_def by blast
  have e: "denotes (changed (newSimpleUpdateTracker True)) {}" "denotes (copied (newSimpleUpdateTracker True)) {}"
    by (simp_all add: newSimpleUpdateTracker_def)
  obtain c where c: "assign_union (changed (newSimpleUpdateTracker True)) r = Some c" "denotes c ({} \<union> screen_pts fb)"
    using e(1) r(2) by (rule assign_ops.unionE)
  have "screen_tracks ((newSimpleUpdateTracker True)\<lparr>changed := c\<rparr>) fb G F"
    using c(2) e(2) short(2) unfolding screen_tracks_def
    by (intro conjI exI [of _ "screen_pts fb"] exI [of _ "{}"]) (simp_all add: from_screen_def newSimpleUpdateTracker_def)
  then show ?thesis using r(1) c(1) by (simp add: newComparingUpdateTracker_def)
qed

text \<open>C8: \<open>compare\<close> keeps the account: what it reports as changed or copied, which is never more than before and never
  in the video area, still accounts for the difference between the framebuffer \<open>G\<close> of the last comparison and
  the present one, \<open>F\<close>, and its copy of the framebuffer is up to date everywhere but in the video area.\<close>

theorem compare_accounts:
  assumes "pb_shows fb F" "short_buffer fb" and "screen_tracks (ct_sut ct) fb G F" and "copy_current ct fb G"
  shows "\<exists>ct' G'. compare junk fb ct = Some ct' \<and> screen_tracks (ct_sut ct') fb G F \<and> \<not> firstCompare ct' \<and>
    pb_shows (oldFb ct') G' \<and> same_size fb (oldFb ct') \<and> (\<forall>p \<in> screen_pts fb. p \<notin> rpts (video_area (ct_sut ct)) \<longrightarrow> G' p = F p) \<and>
    pts (changed (ct_sut ct')) \<union> pts (copied (ct_sut ct')) \<subseteq> pts (changed (ct_sut ct)) \<union> pts (copied (ct_sut ct)) - rpts (video_area (ct_sut ct))"
  using compare_screen_tracks [OF assms, of junk] by blast

definition small_buffer :: "nat PixelBuffer" where
  "small_buffer = \<lparr>pb_width = 20, pb_height = 3, pb_stride = 20, pb_data = replicate 60 5\<rparr>"

lemma small_buffer_shows: "pb_shows small_buffer (\<lambda>_. 5)"
  using row_index [of _ 20 _ 3] by (auto simp: pb_shows_def wf_pb_def pb_getRect_def pb_at_def data_at_def small_buffer_def)

lemma small_buffer_short: "short_buffer small_buffer"
  by (simp add: short_buffer_def small_buffer_def)

lemma compare_accounts_witness:
  "\<exists>ct ct' G'. newComparingUpdateTracker small_buffer = Some ct \<and> compare (\<lambda>_. 0) small_buffer ct = Some ct' \<and>
    screen_tracks (ct_sut ct') small_buffer (\<lambda>_. 1) (\<lambda>_. 5) \<and> pb_shows (oldFb ct') G' \<and> G' (19, 2) = 5"
proof -
  obtain ct where ct: "newComparingUpdateTracker small_buffer = Some ct" "firstCompare ct" "screen_tracks (ct_sut ct) small_buffer (\<lambda>_. 1) (\<lambda>_. 5)"
    using new_comparing_tracks [OF small_buffer_shows small_buffer_short] by blast
  have "copy_current ct small_buffer (\<lambda>_. 1)" using ct(2) by (simp add: copy_current_def)
  from compare_accounts [OF small_buffer_shows small_buffer_short ct(3) this, of "\<lambda>_. 0"] obtain ct' G' where
    c: "compare (\<lambda>_. 0) small_buffer ct = Some ct'" "screen_tracks (ct_sut ct') small_buffer (\<lambda>_. 1) (\<lambda>_. 5)" "pb_shows (oldFb ct') G'"
      "\<forall>p \<in> screen_pts small_buffer. p \<notin> rpts (video_area (ct_sut ct)) \<longrightarrow> G' p = 5" by blast
  have "video_area (ct_sut ct) = rect_clear"
    using ct(1) by (auto simp: newComparingUpdateTracker_def newSimpleUpdateTracker_def split: bind_splits)
  then have "G' (19, 2) = 5" using c(4) by (auto simp: screen_pts_iff small_buffer_def rect_clear_def rpts_iff)
  with c ct(1) show ?thesis by blast
qed

text \<open>
  C35: A video area that ends is lost to the comparison. While it is set, the copy of the framebuffer is not kept up to
  date there; when it is cleared and the screen below, as it was before the video, is reported as changed, the
  comparison finds it equal to the old copy and reports nothing, though the viewers show the last frame of the
  video: \<open>B\<close> is what they were sent, \<open>A\<close> what the screen shows before and after.
\<close>

theorem video_end_lost:
  assumes A: "pb_shows fbA A" "short_buffer fbA" and B: "pb_shows fbB B" "same_size fbB fbA"
    and ct: "\<not> firstCompare ct" "pb_shows (oldFb ct) A" "same_size fbA (oldFb ct)"
    and t: "video_area (ct_sut ct) = V" "in_buffer fbA V" "denotes (changed (ct_sut ct)) C" "C \<subseteq> rpts V" "denotes (copied (ct_sut ct)) {}"
    and v: "denotes v (rpts V)"
  shows "\<exists>ct1 t2 ct3. compare junk fbB ct = Some ct1 \<and>
    do { t \<leftarrow> set_video_area (sut_clear (ct_sut ct1)) rect_clear; add_changed t v } = Some t2 \<and>
    compare junk fbA (ct1\<lparr>ct_sut := t2\<rparr>) = Some ct3 \<and> sut_is_empty (ct_sut ct3)"
proof -
  have B2: "short_buffer fbB" "same_size fbB (oldFb ct)" "screen_pts fbB = screen_pts fbA" "in_buffer fbB V"
    using A(2) B(2) ct(3) t(2) by (auto simp: short_buffer_def same_size_def screen_pts_iff in_buffer_iff)
  have Vs: "rpts V \<subseteq> screen_pts fbA" "short_rect V" using t(2) short_in_buffer [OF A(2)] by (auto simp: in_buffer_iff screen_pts_iff rpts_iff)
  have fs: "from_screen fb d {}" for fb :: "'a PixelBuffer" and d by (simp add: from_screen_def)
  have CV: "C - rpts V = {}" and Cs: "C \<subseteq> screen_pts fbB" using t(4) Vs(1) B2(3) by auto
  have video: "short_rect (video_area (ct_sut ct))" using Vs(2) t(1) by simp
  from compare_again [OF B(1) B2(1) ct(1,2) B2(2) t(3,5) video refl refl Cs _ fs, of junk, unfolded t(1) CV]
  obtain ct1 D1 where d1: "compare junk fbB ct = Some ct1" "\<not> firstCompare ct1" "denotes (changed (ct_sut ct1)) D1"
      "denotes (copied (ct_sut ct1)) ({} - rpts V - D1)" "D1 \<subseteq> {} \<union> ({} - rpts V)"
      "pb_shows (oldFb ct1) (\<lambda>p. if p \<in> {} \<union> ({} - rpts V) then B p else A p)" "same_size fbB (oldFb ct1)" by auto
  then have c1: "compare junk fbB ct = Some ct1" "\<not> firstCompare ct1" "denotes (changed (ct_sut ct1)) {}"
      "denotes (copied (ct_sut ct1)) {}" "pb_shows (oldFb ct1) A" "same_size fbB (oldFb ct1)" by simp_all
  define t2 where "t2 = (sut_clear (ct_sut ct1))\<lparr>video_area := rect_clear\<rparr>"
  have e: "denotes (changed t2) {}" "denotes (copied t2) {}"
    using denotes_clear [OF denotes_size [OF c1(3)]] denotes_clear [OF denotes_size [OF c1(4)]] by (simp_all add: t2_def sut_clear_def)
  obtain c where c: "assign_union (changed t2) v = Some c" "denotes c ({} \<union> rpts V)" using e(1) v by (rule assign_ops.unionE)
  define ct2 where "ct2 = ct1\<lparr>ct_sut := t2\<lparr>changed := c\<rparr>\<rparr>"
  have ct2: "\<not> firstCompare ct2" "pb_shows (oldFb ct2) A" "same_size fbA (oldFb ct2)" "denotes (changed (ct_sut ct2)) (rpts V)"
      "denotes (copied (ct_sut ct2)) {}" "short_rect (video_area (ct_sut ct2))" "rpts (video_area (ct_sut ct2)) = {}"
    using c1 c(2) e(2) B(2) by (auto simp: ct2_def same_size_def t2_def rect_clear_def short_rect_def is_short_def rpts_def)
  obtain ct3 D where c3: "compare junk fbA ct2 = Some ct3" "denotes (changed (ct_sut ct3)) D" "denotes (copied (ct_sut ct3)) ({} - D)"
      "video_area (ct_sut ct3) = video_area (ct_sut ct2)" "(\<forall>p \<in> rpts V. A p = moved {} (copy_delta (ct_sut ct2)) A p) \<longrightarrow> D = {}"
    using compare_again [OF A ct2(1-6) refl refl Vs(1) _ fs, of junk] unfolding ct2(7) by auto
  have "D = {}" using c3(5) by (auto simp: moved_def)
  then have "sut_is_empty (ct_sut ct3)"
    using c3(2-4) region_is_empty_iff by (auto simp: sut_is_empty_def ct2_def t2_def rect_clear_def rect_is_empty_def)
  then show ?thesis
    using c1(1) c(1) c3(1) by (intro exI [of _ ct1] exI [of _ "t2\<lparr>changed := c\<rparr>"] exI [of _ ct3])
      (simp add: set_video_area_def add_changed_def t2_def ct2_def)
qed

lemma video_end_lost_witness:
  "\<exists>v ct1 t2 ct3. Region_of_rect (mkRect 0 0 8 3) = Some v \<and>
    compare (\<lambda>_. 0) (small_buffer\<lparr>pb_data := replicate 60 7\<rparr>)
      \<lparr>ct_sut = (newSimpleUpdateTracker True)\<lparr>video_area := mkRect 0 0 8 3\<rparr>, oldFb = small_buffer, firstCompare = False\<rparr> = Some ct1 \<and>
    do { t \<leftarrow> set_video_area (sut_clear (ct_sut ct1)) rect_clear; add_changed t v } = Some t2 \<and>
    compare (\<lambda>_. 0) small_buffer (ct1\<lparr>ct_sut := t2\<rparr>) = Some ct3 \<and> sut_is_empty (ct_sut ct3)"
proof -
  have B: "pb_shows (small_buffer\<lparr>pb_data := replicate 60 7\<rparr>) (\<lambda>_. 7)" "same_size (small_buffer\<lparr>pb_data := replicate 60 7\<rparr>) small_buffer"
    using row_index [of _ 20 _ 3]
    by (auto simp: pb_shows_def wf_pb_def pb_getRect_def pb_at_def data_at_def small_buffer_def same_size_def)
  have V: "in_buffer small_buffer (mkRect 0 0 8 3)" by (simp add: in_buffer_iff small_buffer_def mkRect_def)
  obtain v where v: "Region_of_rect (mkRect 0 0 8 3) = Some v" "denotes v (rpts (mkRect 0 0 8 3))"
    using Region_of_rect_denotes [OF short_in_buffer [OF small_buffer_short V]] by blast
  have "\<exists>ct1 t2 ct3. compare (\<lambda>_. 0) (small_buffer\<lparr>pb_data := replicate 60 7\<rparr>)
      \<lparr>ct_sut = (newSimpleUpdateTracker True)\<lparr>video_area := mkRect 0 0 8 3\<rparr>, oldFb = small_buffer, firstCompare = False\<rparr> = Some ct1 \<and>
    do { t \<leftarrow> set_video_area (sut_clear (ct_sut ct1)) rect_clear; add_changed t v } = Some t2 \<and>
    compare (\<lambda>_. 0) small_buffer (ct1\<lparr>ct_sut := t2\<rparr>) = Some ct3 \<and> sut_is_empty (ct_sut ct3)"
    by (rule video_end_lost [OF small_buffer_shows small_buffer_short B _ _ _ _ V _ _ _ v(2), of _ "{}"])
      (simp_all add: small_buffer_shows same_size_def newSimpleUpdateTracker_def)
  with v(1) show ?thesis by blast
qed

end
