(* ===== verification/Rfb_VNCSConnection.thy ===== *)
theory Rfb_VNCSConnection
  imports Rfb_SConnection Rfb_ComparingTracker Rfb_Update
begin

text \<open>
  A client of the server after the handshake, \<open>common/rfb/VNCSConnectionST.cxx\<close>: what it does with the events of
  its viewer, and the updates it writes. What it asks of its server is an argument.
\<close>

subsection \<open>The connection\<close>

text \<open>The time of the last disconnection, which \<open>close\<close> notes in the server, is not kept. \<open>writer\<close> also holds the connection parameters \<open>cp\<close>. \<open>pressedKeys\<close> is a set, and \<open>vs_id\<close> stands for the address of the
  object.\<close>

record VNCSConnectionST =
  vs_id :: nat
  vs_state :: sstate
  vs_writer :: SMsgWriter
  vs_readyForColourMap :: bool
  vs_updates :: SimpleUpdateTracker
  requested :: region
  drawRenderedCursor :: bool
  removeRenderedCursor :: bool
  renderedCursorRect :: Rect
  pressedKeys :: "u32 set"
  lastEventTime :: int
  pointerEventTime :: int
  pointerEventPos :: Point
  accessRights :: u16
  closeReason :: "conn_error option"
  m_videoFrozen :: bool
  m_updateTypeCounter :: int
  m_fullUpdateRequested :: bool

definition AccessView :: u16 where "AccessView = 0x0001"
definition AccessKeyEvents :: u16 where "AccessKeyEvents = 0x0002"
definition AccessPtrEvents :: u16 where "AccessPtrEvents = 0x0004"
definition AccessCutText :: u16 where "AccessCutText = 0x0008"
definition AccessDefault :: u16 where "AccessDefault = 0x03ff"
definition AccessNoQuery :: u16 where "AccessNoQuery = 0x0400"

lemmas access_defs = AccessView_def AccessKeyEvents_def AccessPtrEvents_def AccessCutText_def AccessDefault_def AccessNoQuery_def

definition newVNCSConnectionST :: "nat \<Rightarrow> ConnParams \<Rightarrow> int \<Rightarrow> VNCSConnectionST" where
  "newVNCSConnectionST i cp now = \<lparr>vs_id = i, vs_state = S_UNINITIALISED, vs_writer = newSMsgWriter cp [],
     vs_readyForColourMap = False, vs_updates = newSimpleUpdateTracker False, requested = XCreateRegion,
     drawRenderedCursor = False, removeRenderedCursor = False, renderedCursorRect = rect_clear, pressedKeys = {},
     lastEventTime = now, pointerEventTime = 0, pointerEventPos = \<lparr>px = 0, py = 0\<rparr>, accessRights = AccessDefault,
     closeReason = None, m_videoFrozen = False, m_updateTypeCounter = 1, m_fullUpdateRequested = False\<rparr>"

definition vs_cp :: "VNCSConnectionST \<Rightarrow> ConnParams" where
  "vs_cp s = sw_cp (vs_writer s)"

definition vs_set_cp :: "(ConnParams \<Rightarrow> ConnParams) \<Rightarrow> VNCSConnectionST \<Rightarrow> VNCSConnectionST" where
  "vs_set_cp f s = s\<lparr>vs_writer := (vs_writer s)\<lparr>sw_cp := f (vs_cp s)\<rparr>\<rparr>"

definition authenticated :: "VNCSConnectionST \<Rightarrow> bool" where
  "authenticated s \<longleftrightarrow> vs_state s = S_INITIALISATION \<or> vs_state s = S_NORMAL"

text \<open>A step of the writer, and one of the tracker, in which memory may run out.\<close>

definition on_writer :: "(SMsgWriter, 'b) act \<Rightarrow> (VNCSConnectionST, 'b) act" where
  "on_writer m = (\<lambda>s. case m (vs_writer s) of (r, w) \<Rightarrow> (r, s\<lparr>vs_writer := w\<rparr>))"

definition on_updates :: "(SimpleUpdateTracker \<Rightarrow> SimpleUpdateTracker option) \<Rightarrow> (VNCSConnectionST, unit) act" where
  "on_updates f = getting vs_updates (\<lambda>t. bindA (of_region (f t)) (\<lambda>t. modify (\<lambda>s. s\<lparr>vs_updates := t\<rparr>)))"

definition set_requested :: "(region \<Rightarrow> region option) \<Rightarrow> (VNCSConnectionST, unit) act" where
  "set_requested f = getting requested (\<lambda>r. bindA (of_region (f r)) (\<lambda>r. modify (\<lambda>s. s\<lparr>requested := r\<rparr>)))"

subsection \<open>Closing\<close>

text \<open>Without a reason if it is the null pointer.\<close>

definition vs_close :: "conn_error option \<Rightarrow> VNCSConnectionST \<Rightarrow> VNCSConnectionST" where
  "vs_close reason s = s\<lparr>closeReason := (case closeReason s of None \<Rightarrow> reason | Some r \<Rightarrow> Some r), vs_state := S_CLOSING\<rparr>"

text \<open>The handlers catch \<open>rdr::Exception\<close>s only.\<close>

definition vs_or_close :: "(VNCSConnectionST, unit) act \<Rightarrow> (VNCSConnectionST, unit) act" where
  "vs_or_close m = (\<lambda>s. case m s of
     (Inl e, s) \<Rightarrow> if rdr_exception e then (Inr (), vs_close (Some e) s) else (Inl e, s)
   | (Inr u, s) \<Rightarrow> (Inr u, s))"

definition secsToMillis :: "int \<Rightarrow> int" where
  "secsToMillis secs = (if secs < 0 \<or> secs > 2147483647 div 1000 then 2147483647 else secs * 1000)"

definition checkIdleTimeout :: "int \<Rightarrow> int \<Rightarrow> VNCSConnectionST \<Rightarrow> int \<times> VNCSConnectionST" where
  "checkIdleTimeout idleTimeout now s =
     (if idleTimeout = 0 then (0, s)
      else
        let idleTimeout = (if vs_state s \<noteq> S_NORMAL \<and> idleTimeout < 15 then 15 else idleTimeout);
            s = (if now < lastEventTime s then s\<lparr>lastEventTime := now\<rparr> else s);
            timeLeft = lastEventTime s + idleTimeout - now
        in if timeLeft < - 60 then (secsToMillis idleTimeout, s\<lparr>lastEventTime := now\<rparr>)
           else if timeLeft \<le> 0 then (0, vs_close (Some (GeneralError ''Idle timeout'')) s)
           else (secsToMillis timeLeft, s))"

subsection \<open>Keys and pointer\<close>

text \<open>What the desktop is told, and the part of the server's state the handlers share.\<close>

datatype desktop_request =
    KeyPress u32 bool
  | PointerMove Point int
  | DesktopCutText "u8 list"

record Shared =
  pointerClient :: "nat option"
  lastUserInputTime :: int
  desktop_calls :: "desktop_request list"

record VConfig =
  acceptPointerEvents :: bool
  acceptKeyEvents :: bool
  acceptCutText :: bool
  sendCutText :: bool

definition XK_ISO_Left_Tab :: u32 where "XK_ISO_Left_Tab = 0xFE20"
definition XK_Tab :: u32 where "XK_Tab = 0xFF09"
definition XK_Shift_L :: u32 where "XK_Shift_L = 0xFFE1"
definition XK_Shift_R :: u32 where "XK_Shift_R = 0xFFE2"

lemmas keysym_defs = XK_ISO_Left_Tab_def XK_Tab_def XK_Shift_L_def XK_Shift_R_def

definition desktop_call :: "desktop_request \<Rightarrow> Shared \<Rightarrow> Shared" where
  "desktop_call c sh = sh\<lparr>desktop_calls := desktop_calls sh @ [c]\<rparr>"

definition vs_pointerEvent :: "VConfig \<Rightarrow> int \<Rightarrow> Point \<Rightarrow> int \<Rightarrow> VNCSConnectionST \<times> Shared \<Rightarrow> VNCSConnectionST \<times> Shared" where
  "vs_pointerEvent cfg now pos buttonMask = (\<lambda>(s, sh).
     let s = s\<lparr>pointerEventTime := now, lastEventTime := now\<rparr>; sh = sh\<lparr>lastUserInputTime := now\<rparr>
     in if accessRights s AND AccessPtrEvents = 0 then (s, sh)
        else if \<not> acceptPointerEvents cfg then (s, sh)
        else if pointerClient sh = None \<or> pointerClient sh = Some (vs_id s)
        then (s\<lparr>pointerEventPos := pos\<rparr>,
              desktop_call (PointerMove pos buttonMask) (sh\<lparr>pointerClient := (if buttonMask \<noteq> 0 then Some (vs_id s) else None)\<rparr>))
        else (s, sh))"

text \<open>The presser releases the shift key it has pressed when the handler returns, whichever way.\<close>

definition vs_pressKey :: "u32 \<Rightarrow> bool \<Rightarrow> VNCSConnectionST \<times> Shared \<Rightarrow> VNCSConnectionST \<times> Shared" where
  "vs_pressKey key down = (\<lambda>(s, sh).
     if down then (s\<lparr>pressedKeys := insert key (pressedKeys s)\<rparr>, desktop_call (KeyPress key down) sh)
     else if key \<in> pressedKeys s then (s\<lparr>pressedKeys := pressedKeys s - {key}\<rparr>, desktop_call (KeyPress key down) sh)
     else (s, sh))"

definition with_shift :: "u32 \<Rightarrow> u32 set \<Rightarrow> bool" where
  "with_shift key K \<longleftrightarrow> key = XK_ISO_Left_Tab \<and> XK_Shift_L \<notin> K \<and> XK_Shift_R \<notin> K"

definition vs_keyEvent :: "VConfig \<Rightarrow> int \<Rightarrow> (u32 \<Rightarrow> u32) \<Rightarrow> u32 \<Rightarrow> bool \<Rightarrow> VNCSConnectionST \<times> Shared \<Rightarrow> VNCSConnectionST \<times> Shared" where
  "vs_keyEvent cfg now remapKey key down = (\<lambda>(s, sh).
     let s = s\<lparr>lastEventTime := now\<rparr>; sh = sh\<lparr>lastUserInputTime := now\<rparr>
     in if accessRights s AND AccessKeyEvents = 0 then (s, sh)
        else if \<not> acceptKeyEvents cfg then (s, sh)
        else
          let key = remapKey key;
              press = with_shift key (pressedKeys s);
              sh = (if press then desktop_call (KeyPress XK_Shift_L True) sh else sh);
              key = (if key = XK_ISO_Left_Tab then XK_Tab else key);
              (s, sh) = vs_pressKey key down (s, sh)
          in (s, if press then desktop_call (KeyPress XK_Shift_L False) sh else sh))"

definition vs_clientCutText :: "VConfig \<Rightarrow> u8 list \<Rightarrow> VNCSConnectionST \<times> Shared \<Rightarrow> VNCSConnectionST \<times> Shared" where
  "vs_clientCutText cfg str = (\<lambda>(s, sh).
     if accessRights s AND AccessCutText = 0 then (s, sh)
     else if \<not> acceptCutText cfg then (s, sh)
     else (s, desktop_call (DesktopCutText str) sh))"

text \<open>The destructor: the keys still down are released in their order, and so is the pointer.\<close>

definition vs_release :: "VNCSConnectionST \<times> Shared \<Rightarrow> Shared" where
  "vs_release = (\<lambda>(s, sh).
     let sh = sh\<lparr>desktop_calls := desktop_calls sh @ map (\<lambda>k. KeyPress k False) (sorted_list_of_set (pressedKeys s))\<rparr>
     in if pointerClient sh = Some (vs_id s) then sh\<lparr>pointerClient := None\<rparr> else sh)"

text \<open>\<open>setStatus\<close> complements the rights with the logical \<open>!\<close>, which is 0 for anything but 0.\<close>

definition logical_not :: "u16 \<Rightarrow> u16" where
  "logical_not w = (if w = 0 then 1 else 0)"

definition status_rights :: "int \<Rightarrow> u16 \<Rightarrow> u16" where
  "status_rights status ar =
     (if status = 0 then ar OR AccessPtrEvents OR AccessKeyEvents OR AccessView
      else if status = 1 then (ar AND logical_not (AccessPtrEvents OR AccessKeyEvents)) OR AccessView
      else if status = 2 then ar AND logical_not (AccessPtrEvents OR AccessKeyEvents OR AccessView)
      else ar)"

definition getStatus :: "VNCSConnectionST \<Rightarrow> int" where
  "getStatus s =
     (let a = accessRights s AND (AccessPtrEvents OR AccessKeyEvents OR AccessView)
      in if a = 7 then 0 else if a = 1 then 1 else if a = 0 then 2 else 4)"

subsection \<open>Writing an update\<close>

text \<open>
  What the server shows a connection: the framebuffer as \<open>image_getter\<close> translates it, the position of the cursor and the
  rendered cursor, the cursor in the formats of the two cursor encodings (its two-colour bitmap if it has one), the video
  priority, the encoders of Tight and JPEG with the number of rectangles Tight makes of one, and what \<open>image_getter\<close>
  writes of its colour map when an entry changes and when it is given a new pixel format.
\<close>

record Cursor =
  cu_width :: int
  cu_height :: int
  cu_hotspot :: Point
  cu_bits :: "u8 list"
  cu_mask :: "u8 list"
  cu_bitmap :: "u8 list option"

record 'p VEnv =
  ve_enc :: "'p encoders"
  ve_pb :: Rect
  ve_trueColour :: bool
  ve_image :: "'p image"
  ve_now :: int
  ve_cursorPos :: Point
  ve_renderedRect :: Rect
  ve_renderedImage :: "'p image"
  ve_cursor :: Cursor
  ve_videoPriority :: int
  ve_tightRects :: "Rect \<Rightarrow> int"
  ve_jpegFormat :: bool
  ve_jpegRect :: "Rect \<Rightarrow> (SMsgWriter, unit) act"
  ve_setColourMap :: "int \<Rightarrow> int \<Rightarrow> (SMsgWriter, unit) act"
  ve_initGetter :: "PixelFormat \<Rightarrow> (SMsgWriter, unit) act"

definition needs_cursor :: "Point \<Rightarrow> int \<Rightarrow> VNCSConnectionST \<Rightarrow> bool" where
  "needs_cursor pos now s \<longleftrightarrow> vs_state s = S_NORMAL \<and>
     (\<not> supportsLocalCursor (vs_cp s) \<and> \<not> supportsLocalXCursor (vs_cp s) \<or>
      \<not> point_equals pos (pointerEventPos s) \<and> now - pointerEventTime s > 0)"

definition needRenderedCursor :: "'p VEnv \<Rightarrow> VNCSConnectionST \<Rightarrow> bool" where
  "needRenderedCursor env = needs_cursor (ve_cursorPos env) (ve_now env)"

definition writeSetCursorCallback :: "Cursor \<Rightarrow> (SMsgWriter, unit) act" where
  "writeSetCursorCallback cu = getting sw_cp (\<lambda>cp.
     let rich = writeSetCursor (cu_width cu) (cu_height cu) (cu_hotspot cu) (cu_bits cu) (cu_mask cu)
     in if supportsLocalXCursor cp
        then case cu_bitmap cu of
               Some bitmap \<Rightarrow> writeSetXCursor (cu_width cu) (cu_height cu) (px (cu_hotspot cu)) (py (cu_hotspot cu)) bitmap (cu_mask cu)
             | None \<Rightarrow> if \<not> supportsLocalCursor cp then ret () else rich
        else rich)"

text \<open>\<open>setupCurrentEncoder\<close> asserts that the encoding has an encoder; \<open>getNumRects\<close> is 1 but for Tight.\<close>

definition setupCurrentEncoder :: "(SMsgWriter, unit) act" where
  "setupCurrentEncoder = getting sw_cp (\<lambda>cp.
     if encoder_supported (currentEncoding cp) then ret () else throw (NoReturn ''assertion failed''))"

definition getNumRects :: "'p VEnv \<Rightarrow> SMsgWriter \<Rightarrow> Rect \<Rightarrow> int" where
  "getNumRects env w r = (if currentEncoding (sw_cp w) = encodingTight then ve_tightRects env r else 1)"

definition canUseJpegEncoder :: "'p VEnv \<Rightarrow> SMsgWriter \<Rightarrow> bool" where
  "canUseJpegEncoder env w \<longleftrightarrow> qualityLevel (sw_cp w) \<noteq> - 1 \<and> ve_jpegFormat env"

text \<open>The guard of \<open>writeFramebufferUpdate\<close> and \<open>enable_copyrect\<close>; \<open>False\<close> if there is nothing to do. \<open>checkUpdate\<close> of the server
  follows.\<close>

definition vs_beginUpdate :: "(VNCSConnectionST, bool) act" where
  "vs_beginUpdate = getting id (\<lambda>s.
     if vs_state s \<noteq> S_NORMAL \<or> region_is_empty (requested s) then ret False
     else bindA (on_updates (\<lambda>t. enable_copyrect t (useCopyRect (vs_cp s)))) (\<lambda>_. ret True))"

text \<open>With video priority 0 the video area is an ordinary change.\<close>

definition vs_convertVideo :: "'p VEnv \<Rightarrow> (VNCSConnectionST, unit) act" where
  "vs_convertVideo env =
     (if ve_videoPriority env = 0
      then on_updates (\<lambda>t. do { v \<leftarrow> Region_of_rect (video_area t); t \<leftarrow> add_changed t v; set_video_area t (mkRect 0 0 0 0) })
      else ret ())"

definition vs_getUpdateInfo :: "(VNCSConnectionST, UpdateInfo) act" where
  "vs_getUpdateInfo = getting id (\<lambda>s.
     bindA (of_region (getUpdateInfo (vs_updates s) (requested s))) (\<lambda>(t, ui).
     bindA (modify (\<lambda>s. s\<lparr>vs_updates := t\<rparr>)) (\<lambda>_. ret ui)))"

definition vs_add_changed_rect :: "Rect \<Rightarrow> (VNCSConnectionST, unit) act" where
  "vs_add_changed_rect r = on_updates (\<lambda>t. do { v \<leftarrow> Region_of_rect r; add_changed t v })"

text \<open>The old rendered cursor must not be copied, and has to go if it has changed; both tell whether the update information has
  to be fetched again.\<close>

definition vs_bogusCursor :: "'p VEnv \<Rightarrow> UpdateInfo \<Rightarrow> (VNCSConnectionST, bool) act" where
  "vs_bogusCursor env ui = getting renderedCursorRect (\<lambda>c.
     if \<not> region_is_empty (ui_copied ui) \<and> \<not> rect_is_empty c
     then
       let bogus = rect_intersect (rect_translate c (ui_copy_delta ui)) (ve_pb env)
       in bindA (of_region (do { b \<leftarrow> Region_of_rect bogus; region_intersect (ui_copied ui) b })) (\<lambda>x.
          if \<not> region_is_empty x then bindA (vs_add_changed_rect bogus) (\<lambda>_. ret True) else ret False)
     else ret False)"

definition vs_removeCursor :: "(VNCSConnectionST, bool) act" where
  "vs_removeCursor = getting id (\<lambda>s.
     if removeRenderedCursor s
     then bindA (vs_add_changed_rect (renderedCursorRect s)) (\<lambda>_.
          bindA (modify (\<lambda>s. s\<lparr>renderedCursorRect := rect_clear, removeRenderedCursor := False\<rparr>)) (\<lambda>_. ret True))
     else ret False)"

definition vs_renderCursor :: "'p VEnv \<Rightarrow> UpdateInfo \<Rightarrow> (VNCSConnectionST, unit) act" where
  "vs_renderCursor env ui = getting id (\<lambda>s.
     if needRenderedCursor env s
     then
       let r = rect_intersect (ve_renderedRect env) (get_bounding_rect (requested s))
       in bindA (modify (\<lambda>s. s\<lparr>renderedCursorRect := r\<rparr>)) (\<lambda>_.
          if rect_is_empty r then modify (\<lambda>s. s\<lparr>drawRenderedCursor := False\<rparr>)
          else bindA (of_region (do { u \<leftarrow> region_union (ui_changed ui) (ui_copied ui); c \<leftarrow> Region_of_rect r; region_intersect u c })) (\<lambda>x.
               if \<not> region_is_empty x then modify (\<lambda>s. s\<lparr>drawRenderedCursor := True\<rparr>) else ret ()))
     else ret ())"

definition writeRenderedCursorRect :: "'a::len word VEnv \<Rightarrow> (VNCSConnectionST, unit) act" where
  "writeRenderedCursorRect env = getting renderedCursorRect (\<lambda>r.
     bindA (on_writer (writeRect (ve_enc env) (ve_renderedImage env) r)) (\<lambda>_.
     modify (\<lambda>s. s\<lparr>drawRenderedCursor := False\<rparr>)))"

text \<open>\<open>--m_updateTypeCounter > 0\<close>: whether only video is sent this time.\<close>

definition vs_videoOnly :: "'p VEnv \<Rightarrow> bool \<Rightarrow> (VNCSConnectionST, bool) act" where
  "vs_videoOnly env willSendVideo =
     (if willSendVideo
      then bindA (modify (\<lambda>s. s\<lparr>m_updateTypeCounter := m_updateTypeCounter s - 1\<rparr>)) (\<lambda>_.
        getting id (\<lambda>s.
          if m_updateTypeCounter s > 0 \<and> \<not> m_fullUpdateRequested s then ret True
          else bindA (modify (\<lambda>s. s\<lparr>m_updateTypeCounter := ve_videoPriority env\<rparr>)) (\<lambda>_. ret False)))
      else ret False)"

definition count_changed :: "'p VEnv \<Rightarrow> SMsgWriter \<Rightarrow> Rect list \<Rightarrow> int" where
  "count_changed env w rs = sum_list (map (getNumRects env w) (filter (\<lambda>i. Rfb_Rect.rect_width i \<noteq> 0 \<and> Rfb_Rect.rect_height i \<noteq> 0) rs))"

definition vs_countRects :: "'p VEnv \<Rightarrow> UpdateInfo \<Rightarrow> bool \<Rightarrow> bool \<Rightarrow> (VNCSConnectionST, int) act" where
  "vs_countRects env ui willSendVideo sendVideoOnly = getting id (\<lambda>s.
     let w = vs_writer s;
         video = (if willSendVideo then if canUseJpegEncoder env w then 1 else getNumRects env w (ui_video_area ui) else 0)
     in if sendVideoOnly then ret video
        else bindA (of_region (get_rects (ui_changed ui) True True 0)) (\<lambda>rs.
          ret (video + int (region_numRects (ui_copied ui)) + (if drawRenderedCursor s then 1 else 0) + count_changed env w rs)))"

definition vs_writeVideo :: "'a::len word VEnv \<Rightarrow> UpdateInfo \<Rightarrow> (VNCSConnectionST, unit) act" where
  "vs_writeVideo env ui = getting vs_writer (\<lambda>w.
     if canUseJpegEncoder env w then on_writer (ve_jpegRect env (ui_video_area ui))
     else bindA (on_writer (writeRect (ve_enc env) (ve_image env) (ui_video_area ui))) (\<lambda>_. ret ()))"

definition vs_sendRects :: "'a::len word VEnv \<Rightarrow> UpdateInfo \<Rightarrow> (VNCSConnectionST, unit) act" where
  "vs_sendRects env ui =
     bindA (on_writer (writeRects (ve_enc env) (ve_image env) ui)) (\<lambda>updatedRegion.
     bindA (on_updates (\<lambda>t. sut_subtract t updatedRegion)) (\<lambda>_.
     getting drawRenderedCursor (\<lambda>c. if c then writeRenderedCursorRect env else ret ())))"

definition vs_sendUpdate :: "'a::len word VEnv \<Rightarrow> UpdateInfo \<Rightarrow> (VNCSConnectionST, unit) act" where
  "vs_sendUpdate env ui =
     bindA (on_writer setupCurrentEncoder) (\<lambda>_.
     getting id (\<lambda>s.
       let willSendVideo = ((\<not> m_videoFrozen s \<or> m_fullUpdateRequested s) \<and> \<not> rect_is_empty (ui_video_area ui))
       in bindA (vs_videoOnly env willSendVideo) (\<lambda>sendVideoOnly.
          bindA (vs_countRects env ui willSendVideo sendVideoOnly) (\<lambda>nRects. seqA [
            on_writer (writeFramebufferUpdateStart (writeSetCursorCallback (ve_cursor env)) nRects),
            if willSendVideo then vs_writeVideo env ui else ret (),
            if sendVideoOnly then ret () else vs_sendRects env ui,
            on_writer writeFramebufferUpdateEnd,
            modify (\<lambda>s. s\<lparr>requested := region_clear (requested s), m_fullUpdateRequested := False\<rparr>)]))))"

definition vs_finishUpdate :: "'a::len word VEnv \<Rightarrow> (VNCSConnectionST, unit) act" where
  "vs_finishUpdate env =
     bindA (vs_convertVideo env) (\<lambda>_.
     bindA vs_getUpdateInfo (\<lambda>ui.
     bindA (vs_bogusCursor env ui) (\<lambda>new1.
     bindA vs_removeCursor (\<lambda>new2.
     getting id (\<lambda>s.
       if sut_is_empty (vs_updates s) \<and> \<not> needFakeUpdate (vs_writer s) \<and> \<not> drawRenderedCursor s then ret ()
       else bindA (if new1 \<or> new2 then vs_getUpdateInfo else ret ui) (\<lambda>ui.
            bindA (vs_renderCursor env ui) (\<lambda>_.
            getting id (\<lambda>s.
              if \<not> ui_is_empty ui \<or> needFakeUpdate (vs_writer s) \<or> drawRenderedCursor s then vs_sendUpdate env ui else ret ()))))))))"

subsection \<open>Requests and changes of the server\<close>

text \<open>Of a handler that may be followed by \<open>writeFramebufferUpdate\<close> the result says whether it is; of
  \<open>framebufferUpdateRequest\<close> it is the region that the server's own tracker has to take as changed.\<close>

definition vs_setColourMapEntries :: "'p VEnv \<Rightarrow> int \<Rightarrow> int \<Rightarrow> (VNCSConnectionST, unit) act" where
  "vs_setColourMapEntries env firstColour nColours = getting id (\<lambda>s.
     if \<not> vs_readyForColourMap s then ret ()
     else if ve_trueColour env then ret ()
     else seqA [on_writer (ve_setColourMap env firstColour nColours),
                if trueColour (cp_pf (vs_cp s)) then vs_add_changed_rect (ve_pb env) else ret ()])"

definition vs_framebufferUpdateRequest :: "'p VEnv \<Rightarrow> Rect \<Rightarrow> bool \<Rightarrow> (VNCSConnectionST, region option) act" where
  "vs_framebufferUpdateRequest env r incremental = getting id (\<lambda>s.
     if accessRights s AND AccessView = 0 then ret None
     else
       bindA (if vs_readyForColourMap s then ret ()
              else seqA [modify (\<lambda>s. s\<lparr>vs_readyForColourMap := True\<rparr>),
                         if trueColour (cp_pf (vs_cp s)) then ret () else vs_setColourMapEntries env 0 0]) (\<lambda>_.
       bindA (of_region (Region_of_rect r)) (\<lambda>reqRgn.
       bindA (set_requested (\<lambda>q. assign_union q reqRgn)) (\<lambda>_.
         if incremental then ret None
         else bindA (on_updates (\<lambda>t. add_changed t reqRgn)) (\<lambda>_.
              bindA (modify (\<lambda>s. s\<lparr>m_fullUpdateRequested := True\<rparr>)) (\<lambda>_. ret (Some reqRgn)))))))"

definition vs_setCursor :: "(VNCSConnectionST, bool) act" where
  "vs_setCursor = getting id (\<lambda>s.
     if vs_state s \<noteq> S_NORMAL \<or> \<not> supportsLocalCursor (vs_cp s) then ret False
     else bindA (on_writer cursorChange) (\<lambda>_. getting vs_writer (\<lambda>w. ret (needFakeUpdate w))))"

definition vs_supportsLocalCursor :: "(VNCSConnectionST, bool) act" where
  "vs_supportsLocalCursor = getting vs_cp (\<lambda>cp.
     if supportsLocalCursor cp \<or> supportsLocalXCursor cp
     then bindA (modify (\<lambda>s. s\<lparr>removeRenderedCursor := True, drawRenderedCursor := False\<rparr>)) (\<lambda>_. vs_setCursor)
     else ret False)"

definition vs_setEncodings :: "u32 list \<Rightarrow> (VNCSConnectionST, bool) act" where
  "vs_setEncodings es = bindA (modify (vs_set_cp (cp_setEncodings es))) (\<lambda>_. vs_supportsLocalCursor)"

definition vs_setPixelFormat :: "'p VEnv \<Rightarrow> PixelFormat \<Rightarrow> (VNCSConnectionST, bool) act" where
  "vs_setPixelFormat env pf =
     bindA (seqA [
       modify (vs_set_cp (\<lambda>cp. snd (cp_setPF pf cp))),
       if fst (cp_setPF pf newConnParams) then ret () else throw (GeneralError ''setPF: not 8, 16 or 32 bpp?''),
       modify (\<lambda>s. s\<lparr>vs_readyForColourMap := True\<rparr>),
       on_writer (ve_initGetter env pf)]) (\<lambda>_. vs_setCursor)"

definition vs_freezeVideo :: "bool \<Rightarrow> VNCSConnectionST \<Rightarrow> VNCSConnectionST" where
  "vs_freezeVideo freeze s = (if freeze \<noteq> m_videoFrozen s then s\<lparr>m_videoFrozen := freeze\<rparr> else s)"

definition vs_setStatus :: "'p VEnv \<Rightarrow> int \<Rightarrow> (VNCSConnectionST, region option) act" where
  "vs_setStatus env status =
     bindA (modify (\<lambda>s. s\<lparr>accessRights := status_rights status (accessRights s)\<rparr>)) (\<lambda>_.
       vs_framebufferUpdateRequest env (ve_pb env) False)"

definition vs_bell :: "(VNCSConnectionST, unit) act" where
  "vs_bell = getting vs_state (\<lambda>st. if st = S_NORMAL then on_writer writeBell else ret ())"

definition vs_serverCutText :: "VConfig \<Rightarrow> u8 list \<Rightarrow> (VNCSConnectionST, unit) act" where
  "vs_serverCutText cfg str = getting id (\<lambda>s.
     if accessRights s AND AccessCutText = 0 then ret ()
     else if \<not> sendCutText cfg then ret ()
     else if vs_state s = S_NORMAL then on_writer (writeServerCutText str) else ret ())"

definition vs_setDesktopName :: "u8 list \<Rightarrow> (VNCSConnectionST, unit) act" where
  "vs_setDesktopName name =
     bindA (modify (vs_set_cp (cp_setName name))) (\<lambda>_.
     getting vs_state (\<lambda>st. if st = S_NORMAL then bindA (on_writer writeSetDesktopName) (\<lambda>_. ret ()) else ret ()))"

definition vs_renderedCursorChange :: "Point \<Rightarrow> int \<Rightarrow> VNCSConnectionST \<Rightarrow> VNCSConnectionST" where
  "vs_renderedCursorChange pos now s =
     (if vs_state s \<noteq> S_NORMAL then s
      else s\<lparr>removeRenderedCursor := True, drawRenderedCursor := (needs_cursor pos now s \<or> drawRenderedCursor s)\<rparr>)"

text \<open>The tracker is cleared, also when the framebuffer has kept its size.\<close>

definition vs_resetUpdates :: "'p VEnv \<Rightarrow> (VNCSConnectionST, bool) act" where
  "vs_resetUpdates env = bindA (seqA [
     on_updates (\<lambda>t. Some (sut_clear t)),
     vs_add_changed_rect (ve_pb env),
     getting vs_cp (\<lambda>cp. on_writer (ve_initGetter env (cp_pf cp)))])
     (\<lambda>_. getting vs_writer (\<lambda>w. ret (needFakeUpdate w)))"

definition vs_pixelBufferChange :: "'p VEnv \<Rightarrow> (VNCSConnectionST, bool) act" where
  "vs_pixelBufferChange env = getting id (\<lambda>s.
     let cp = vs_cp s; w = Rfb_Rect.rect_width (ve_pb env); h = Rfb_Rect.rect_height (ve_pb env)
     in if \<not> authenticated s then ret False
        else if cp_width cp \<noteq> 0 \<and> cp_height cp \<noteq> 0 \<and> (w \<noteq> cp_width cp \<or> h \<noteq> cp_height cp)
        then
          bindA (modify (\<lambda>s. vs_set_cp (\<lambda>cp. cp\<lparr>cp_width := w, cp_height := h\<rparr>)
                   (s\<lparr>renderedCursorRect := rect_intersect (renderedCursorRect s) (ve_pb env)\<rparr>))) (\<lambda>_.
            if vs_state s = S_NORMAL
            then bindA (on_writer writeSetDesktopSize) (\<lambda>ok.
                   if ok then vs_resetUpdates env
                   else bindA (modify (vs_close (Some (GeneralError ''Client does not support desktop resize'')))) (\<lambda>_. ret False))
            else vs_resetUpdates env)
        else vs_resetUpdates env)"

definition vs_authSuccess :: "'p VEnv \<Rightarrow> PixelFormat \<Rightarrow> u8 list \<Rightarrow> (VNCSConnectionST, unit) act" where
  "vs_authSuccess env pf name = seqA [
     modify (\<lambda>s. s\<lparr>lastEventTime := ve_now env\<rparr>),
     modify (vs_set_cp (\<lambda>cp. cp_setName name
       (cp\<lparr>cp_width := Rfb_Rect.rect_width (ve_pb env), cp_height := Rfb_Rect.rect_height (ve_pb env)\<rparr>))),
     modify (vs_set_cp (\<lambda>cp. snd (cp_setPF pf cp))),
     if fst (cp_setPF pf newConnParams) then ret () else throw (GeneralError ''setPF: not 8, 16 or 32 bpp?''),
     vs_add_changed_rect (ve_pb env)]"

end
