(* ===== verification/Rfb_Input.thy ===== *)
theory Rfb_Input
  imports Rfb_VNCSConnection
begin

text \<open>
  The input of the viewers as the desktop sees it: the keys and buttons that are held, and who may use the pointer.
\<close>

subsection \<open>What is held on the desktop\<close>

fun key_held :: "desktop_request \<Rightarrow> u32 set \<Rightarrow> u32 set" where
  "key_held (KeyPress k True) K = insert k K"
| "key_held (KeyPress k False) K = K - {k}"
| "key_held c K = K"

definition held :: "desktop_request list \<Rightarrow> u32 set" where
  "held cs = fold key_held cs {}"

lemma held_simps [simp]:
  "held [] = {}" "held (cs @ [c]) = key_held c (held cs)" "held (cs @ [c, c']) = key_held c' (key_held c (held cs))"
  by (simp_all add: held_def)

lemma held_calls [simp]: "desktop_calls (desktop_call c sh) = desktop_calls sh @ [c]"
  by (simp add: desktop_call_def)

lemma pointerClient_call [simp]: "pointerClient (desktop_call c sh) = pointerClient sh"
  by (simp add: desktop_call_def)

lemma held_release: "held (cs @ map (\<lambda>k. KeyPress k False) ks) = held cs - set ks"
  by (induction ks rule: rev_induct) (auto simp: held_def)

text \<open>What a viewer does, and what the server's user does about its rights.\<close>

datatype input =
    KeyInput u32 bool
  | PointerInput Point int
  | CutTextInput "u8 list"
  | StatusChange int

fun vs_input :: "VConfig \<Rightarrow> int \<Rightarrow> (u32 \<Rightarrow> u32) \<Rightarrow> input \<Rightarrow> VNCSConnectionST \<times> Shared \<Rightarrow> VNCSConnectionST \<times> Shared" where
  "vs_input cfg now remapKey (KeyInput key down) s = vs_keyEvent cfg now remapKey key down s"
| "vs_input cfg now remapKey (PointerInput pos buttons) s = vs_pointerEvent cfg now pos buttons s"
| "vs_input cfg now remapKey (CutTextInput str) s = vs_clientCutText cfg str s"
| "vs_input cfg now remapKey (StatusChange status) (s, sh) = (s\<lparr>accessRights := status_rights status (accessRights s)\<rparr>, sh)"

definition vs_inputs :: "VConfig \<Rightarrow> (u32 \<Rightarrow> u32) \<Rightarrow> (int \<times> input) list \<Rightarrow> VNCSConnectionST \<times> Shared \<Rightarrow> VNCSConnectionST \<times> Shared" where
  "vs_inputs cfg remapKey evs = fold (\<lambda>(now, ev). vs_input cfg now remapKey ev) evs"

subsection \<open>Keys\<close>

definition keys_agree :: "VNCSConnectionST \<times> Shared \<Rightarrow> bool" where
  "keys_agree = (\<lambda>(s, sh). pressedKeys s = held (desktop_calls sh))"

text \<open>Both parts of a key event keep the agreement; the shift is only given where it is not held.\<close>

lemma pressKey_agree: "keys_agree x \<Longrightarrow> keys_agree (vs_pressKey key down x)"
  by (cases x; cases down) (auto simp: keys_agree_def vs_pressKey_def)

lemma pressKey_keeps:
  assumes "vs_pressKey key down (s, sh) = (s', sh')"
  shows "vs_id s' = vs_id s" and "accessRights s' = accessRights s" and "pointerClient sh' = pointerClient sh"
    and "k \<noteq> key \<Longrightarrow> k \<in> pressedKeys s' \<longleftrightarrow> k \<in> pressedKeys s"
    and "\<exists>cs. desktop_calls sh' = desktop_calls sh @ cs \<and> set cs \<subseteq> {KeyPress key down}"
  using assms by (cases down; auto simp: vs_pressKey_def desktop_call_def split: if_splits)+

lemma keyEvent_cases:
  assumes "vs_keyEvent cfg now remapKey key down (s, sh) = (s', sh')"
  obtains "s' = s\<lparr>lastEventTime := now\<rparr>" and "sh' = sh\<lparr>lastUserInputTime := now\<rparr>"
  | k where "vs_pressKey k down (s\<lparr>lastEventTime := now\<rparr>, sh\<lparr>lastUserInputTime := now\<rparr>) = (s', sh')"
  | sh1 where "XK_Shift_L \<notin> pressedKeys s"
    and "vs_pressKey XK_Tab down (s\<lparr>lastEventTime := now\<rparr>, desktop_call (KeyPress XK_Shift_L True) (sh\<lparr>lastUserInputTime := now\<rparr>)) = (s', sh1)"
    and "sh' = desktop_call (KeyPress XK_Shift_L False) sh1"
proof (cases "accessRights s AND AccessKeyEvents = 0 \<or> \<not> acceptKeyEvents cfg")
  case True
  then show ?thesis using assms that(1) by (auto simp: vs_keyEvent_def Let_def split: if_splits)
next
  case False
  show ?thesis
  proof (cases "with_shift (remapKey key) (pressedKeys s)")
    case True
    then have w: "remapKey key = XK_ISO_Left_Tab" "XK_Shift_L \<notin> pressedKeys s" by (simp_all add: with_shift_def)
    obtain s1 sh1 where p: "vs_pressKey XK_Tab down (s\<lparr>lastEventTime := now\<rparr>, desktop_call (KeyPress XK_Shift_L True) (sh\<lparr>lastUserInputTime := now\<rparr>)) = (s1, sh1)"
      by (metis surj_pair)
    show ?thesis using that(3) [OF w(2)] assms False True w(1) p by (simp add: vs_keyEvent_def Let_def)
  next
    case no: False
    then show ?thesis
      using that(2) [of "if remapKey key = XK_ISO_Left_Tab then XK_Tab else remapKey key"] assms False
      by (simp add: vs_keyEvent_def Let_def split: prod.splits)
  qed
qed

lemma keyEvent_agree:
  assumes "keys_agree (s, sh)" and "vs_keyEvent cfg now remapKey key down (s, sh) = (s', sh')"
  shows "keys_agree (s', sh')" and "vs_id s' = vs_id s"
proof -
  have K: "held (desktop_calls sh) = pressedKeys s" using assms(1) by (simp add: keys_agree_def)
  have "keys_agree (s', sh') \<and> vs_id s' = vs_id s"
    using assms(2)
  proof (cases rule: keyEvent_cases)
    case 1
    then show ?thesis using K by (simp add: keys_agree_def)
  next
    case (2 k)
    have "keys_agree (s\<lparr>lastEventTime := now\<rparr>, sh\<lparr>lastUserInputTime := now\<rparr>)" using K by (simp add: keys_agree_def)
    from pressKey_agree [OF this, of k down] show ?thesis using pressKey_keeps(1) [OF 2] 2 by simp
  next
    case (3 sh1)
    let ?s = "s\<lparr>lastEventTime := now, pressedKeys := insert XK_Shift_L (pressedKeys s)\<rparr>"
    let ?sh = "desktop_call (KeyPress XK_Shift_L True) (sh\<lparr>lastUserInputTime := now\<rparr>)"
    have tab: "XK_Shift_L \<noteq> XK_Tab" by (simp add: keysym_defs)
    have "held (desktop_calls sh1) = insert XK_Shift_L (pressedKeys s')"
    proof (cases down)
      case True
      then show ?thesis using 3(2) K by (simp add: vs_pressKey_def split: prod.splits) (elim conjE, hypsubst, simp add: insert_commute)
    next
      case False
      then show ?thesis using 3(2) K tab
        by (cases "XK_Tab \<in> pressedKeys s"; simp add: vs_pressKey_def; elim conjE; hypsubst; simp add: insert_Diff_if)
    qed
    moreover have "XK_Shift_L \<notin> pressedKeys s'" using pressKey_keeps(4) [OF 3(2) tab] 3(1) by simp
    ultimately show ?thesis using 3(3) pressKey_keeps(1) [OF 3(2)] by (auto simp: keys_agree_def)
  qed
  then show "keys_agree (s', sh')" "vs_id s' = vs_id s" by simp_all
qed

text \<open>What the other inputs leave alone.\<close>

lemma pointerEvent_keeps:
  assumes "vs_pointerEvent cfg now pos buttons (s, sh) = (s', sh')"
  shows "pressedKeys s' = pressedKeys s" and "vs_id s' = vs_id s" and "accessRights s' = accessRights s"
    and "held (desktop_calls sh') = held (desktop_calls sh)"
  using assms by (auto simp: vs_pointerEvent_def Let_def split: if_splits)

lemma cutText_keeps:
  assumes "vs_clientCutText cfg str (s, sh) = (s', sh')"
  shows "s' = s" and "held (desktop_calls sh') = held (desktop_calls sh)" and "pointerClient sh' = pointerClient sh"
  using assms by (auto simp: vs_clientCutText_def split: if_splits)

lemma input_agree:
  assumes "keys_agree x"
  shows "keys_agree (vs_input cfg now remapKey ev x) \<and> vs_id (fst (vs_input cfg now remapKey ev x)) = vs_id (fst x)"
proof -
  obtain s sh s' sh' where x: "x = (s, sh)" "vs_input cfg now remapKey ev (s, sh) = (s', sh')" by (metis surj_pair)
  show ?thesis
  proof (cases ev)
    case (KeyInput key down)
    then have "vs_keyEvent cfg now remapKey key down (s, sh) = (s', sh')" using x(2) by simp
    from keyEvent_agree [OF _ this] assms x show ?thesis by simp
  next
    case (PointerInput pos buttons)
    then have "vs_pointerEvent cfg now pos buttons (s, sh) = (s', sh')" using x(2) by simp
    from pointerEvent_keeps [OF this] assms x show ?thesis by (simp add: keys_agree_def)
  next
    case (CutTextInput str)
    then have "vs_clientCutText cfg str (s, sh) = (s', sh')" using x(2) by simp
    from cutText_keeps [OF this] assms x show ?thesis by (simp add: keys_agree_def)
  next
    case (StatusChange status)
    then have "s' = s\<lparr>accessRights := status_rights status (accessRights s)\<rparr>" "sh' = sh" using x(2) by simp_all
    then show ?thesis using assms unfolding x by (simp add: keys_agree_def)
  qed
qed

lemma inputs_agree:
  "keys_agree x \<Longrightarrow> keys_agree (vs_inputs cfg remapKey evs x) \<and> vs_id (fst (vs_inputs cfg remapKey evs x)) = vs_id (fst x)"
  unfolding vs_inputs_def
proof (induction evs arbitrary: x)
  case (Cons e evs)
  obtain now ev where e: "e = (now, ev)" by (cases e)
  show ?case using Cons.IH [of "vs_input cfg now remapKey ev x"] input_agree [OF Cons.prems, of cfg now remapKey ev] by (simp add: e)
qed simp

lemma pressed_finite:
  assumes "keys_agree (s, sh)"
  shows "finite (pressedKeys s)"
proof -
  have "finite (key_held c K)" if "finite K" for c K
  proof (cases c)
    case (KeyPress k b)
    then show ?thesis using that by (cases b) simp_all
  qed (use that in simp_all)
  then have "finite (fold key_held cs K)" if "finite K" for cs K
    using that by (induction cs arbitrary: K) simp_all
  then show ?thesis using assms by (simp add: keys_agree_def held_def)
qed

text \<open>C16: Whatever a viewer sends and however its rights are changed meanwhile, the keys held down on the desktop are those
  the connection has noted, a backward tab gives its shift back, and when the connection is deleted no key is left
  down and the pointer is free for the others.\<close>

theorem no_key_left_down:
  assumes "held (desktop_calls sh) = {}"
    and "vs_inputs cfg remapKey evs (newVNCSConnectionST i cp t0, sh) = (s', sh')"
  shows "held (desktop_calls sh') = pressedKeys s' \<and> held (desktop_calls (vs_release (s', sh'))) = {} \<and>
    pointerClient (vs_release (s', sh')) \<noteq> Some i"
proof -
  have "keys_agree (newVNCSConnectionST i cp t0, sh)" using assms(1) by (simp add: keys_agree_def newVNCSConnectionST_def)
  from inputs_agree [OF this, of cfg remapKey evs] assms(2) have a: "keys_agree (s', sh')" "vs_id s' = i"
    by (simp_all add: newVNCSConnectionST_def)
  then have "held (desktop_calls sh') = pressedKeys s'" by (simp add: keys_agree_def)
  with pressed_finite [OF a(1)] a(2) show ?thesis by (simp add: vs_release_def held_release Let_def)
qed

definition quiet_desktop :: Shared where
  "quiet_desktop = \<lparr>pointerClient = None, lastUserInputTime = 0, desktop_calls = []\<rparr>"

definition accept_all :: VConfig where
  "accept_all = \<lparr>acceptPointerEvents = True, acceptKeyEvents = True, acceptCutText = True, sendCutText = True\<rparr>"

lemma no_key_left_down_witness:
  "\<exists>s' sh'. vs_inputs accept_all (\<lambda>k. k) [(1, KeyInput 0xFE20 True), (2, KeyInput 0x41 True), (3, StatusChange 1), (4, KeyInput 0x41 False)]
      (newVNCSConnectionST 7 newConnParams 0, quiet_desktop) = (s', sh') \<and>
    desktop_calls sh' = [KeyPress 0xFFE1 True, KeyPress 0xFF09 True, KeyPress 0xFFE1 False, KeyPress 0x41 True] \<and>
    held (desktop_calls sh') = pressedKeys s' \<and> held (desktop_calls (vs_release (s', sh'))) = {} \<and>
    pointerClient (vs_release (s', sh')) \<noteq> Some 7"
proof -
  obtain s' sh' where r: "vs_inputs accept_all (\<lambda>k. k) [(1, KeyInput 0xFE20 True), (2, KeyInput 0x41 True), (3, StatusChange 1), (4, KeyInput 0x41 False)]
      (newVNCSConnectionST 7 newConnParams 0, quiet_desktop) = (s', sh')" by (metis surj_pair)
  then have "desktop_calls sh' = [KeyPress 0xFFE1 True, KeyPress 0xFF09 True, KeyPress 0xFFE1 False, KeyPress 0x41 True]"
    by (auto simp: vs_inputs_def vs_keyEvent_def vs_pressKey_def with_shift_def newVNCSConnectionST_def quiet_desktop_def accept_all_def keysym_defs access_defs
        desktop_call_def status_rights_def logical_not_def Let_def)
  with no_key_left_down [OF _ r] r show ?thesis by (auto simp: quiet_desktop_def)
qed

subsection \<open>The pointer\<close>

text \<open>The connections of a server, by their numbers.\<close>

definition clients_input ::
  "VConfig \<Rightarrow> (u32 \<Rightarrow> u32) \<Rightarrow> (nat \<times> int \<times> input) list \<Rightarrow> (nat \<Rightarrow> VNCSConnectionST) \<times> Shared \<Rightarrow> (nat \<Rightarrow> VNCSConnectionST) \<times> Shared" where
  "clients_input cfg remapKey evs = fold (\<lambda>(i, now, ev) (cs, sh).
     case vs_input cfg now remapKey ev (cs i, sh) of (s, sh) \<Rightarrow> (cs(i := s), sh)) evs"

definition pointer_calls :: "desktop_request list \<Rightarrow> desktop_request list" where
  "pointer_calls cs = filter (\<lambda>c. case c of PointerMove pos buttons \<Rightarrow> True | _ \<Rightarrow> False) cs"

lemma pointer_calls_append [simp]: "pointer_calls (cs @ ds) = pointer_calls cs @ pointer_calls ds"
  by (simp add: pointer_calls_def)

lemma pointer_calls_other [simp]:
  "pointer_calls [] = []" "pointer_calls [KeyPress k b] = []" "pointer_calls [DesktopCutText str] = []"
  by (simp_all add: pointer_calls_def)

lemma pressKey_pointer:
  assumes "vs_pressKey key down (s, sh) = (s', sh')"
  shows "pointer_calls (desktop_calls sh') = pointer_calls (desktop_calls sh)"
  using assms by (cases down) (auto simp: vs_pressKey_def split: if_splits)

lemma keyEvent_pointer:
  assumes "vs_keyEvent cfg now remapKey key down (s, sh) = (s', sh')"
  shows "pointer_calls (desktop_calls sh') = pointer_calls (desktop_calls sh)" and "pointerClient sh' = pointerClient sh"
    and "vs_id s' = vs_id s" and "accessRights s' = accessRights s"
proof -
  have "pointer_calls (desktop_calls sh') = pointer_calls (desktop_calls sh) \<and> pointerClient sh' = pointerClient sh \<and>
      vs_id s' = vs_id s \<and> accessRights s' = accessRights s"
    using assms
  proof (cases rule: keyEvent_cases)
    case (2 k)
    then show ?thesis using pressKey_keeps [OF 2] pressKey_pointer [OF 2] by simp
  next
    case (3 sh1)
    then show ?thesis using pressKey_keeps [OF 3(2)] pressKey_pointer [OF 3(2)] by simp
  qed simp
  then show "pointer_calls (desktop_calls sh') = pointer_calls (desktop_calls sh)" "pointerClient sh' = pointerClient sh"
    "vs_id s' = vs_id s" "accessRights s' = accessRights s" by simp_all
qed

text \<open>As long as client \<open>a\<close> has the pointer and may not use it, nobody may.\<close>

definition pointer_stuck :: "nat \<Rightarrow> (nat \<Rightarrow> VNCSConnectionST) \<times> Shared \<Rightarrow> bool" where
  "pointer_stuck a = (\<lambda>(cs, sh). (\<forall>i. vs_id (cs i) = i) \<and> accessRights (cs a) AND AccessPtrEvents = 0 \<and> pointerClient sh = Some a)"

lemma input_stuck:
  assumes "pointer_stuck a (cs, sh)" and "\<forall>status. ev = StatusChange status \<longrightarrow> i \<noteq> a"
    and "vs_input cfg now remapKey ev (cs i, sh) = (s', sh')"
  shows "pointer_stuck a (cs(i := s'), sh')" and "pointer_calls (desktop_calls sh') = pointer_calls (desktop_calls sh)"
proof -
  have a: "vs_id (cs i) = i" "accessRights (cs a) AND AccessPtrEvents = 0" "pointerClient sh = Some a"
    using assms(1) by (simp_all add: pointer_stuck_def)
  have "vs_id s' = i \<and> (i = a \<longrightarrow> accessRights s' = accessRights (cs a)) \<and> pointerClient sh' = Some a \<and>
      pointer_calls (desktop_calls sh') = pointer_calls (desktop_calls sh)"
  proof (cases ev)
    case (KeyInput key down)
    then have "vs_keyEvent cfg now remapKey key down (cs i, sh) = (s', sh')" using assms(3) by simp
    from keyEvent_pointer [OF this] a show ?thesis by auto
  next
    case (PointerInput pos buttons)
    then have p: "vs_pointerEvent cfg now pos buttons (cs i, sh) = (s', sh')" using assms(3) by simp
    have "accessRights (cs i) AND AccessPtrEvents = 0 \<or> Some a \<noteq> Some i" using a(2) by auto
    then show ?thesis using p pointerEvent_keeps [OF p] a by (auto simp: vs_pointerEvent_def Let_def split: if_splits)
  next
    case (CutTextInput str)
    then have "vs_clientCutText cfg str (cs i, sh) = (s', sh')" using assms(3) by simp
    then show ?thesis using a by (auto simp: vs_clientCutText_def split: if_splits)
  next
    case (StatusChange status)
    then show ?thesis using a assms(2,3) by auto
  qed
  then show "pointer_stuck a (cs(i := s'), sh')" "pointer_calls (desktop_calls sh') = pointer_calls (desktop_calls sh)"
    using assms(1) by (auto simp: pointer_stuck_def)
qed

lemma inputs_stuck:
  "pointer_stuck a (cs, sh) \<Longrightarrow> \<forall>(i, now, ev) \<in> set evs. \<forall>status. ev = StatusChange status \<longrightarrow> i \<noteq> a \<Longrightarrow>
   clients_input cfg remapKey evs (cs, sh) = (cs', sh') \<Longrightarrow>
   pointer_stuck a (cs', sh') \<and> pointer_calls (desktop_calls sh') = pointer_calls (desktop_calls sh)"
  unfolding clients_input_def
proof (induction evs arbitrary: cs sh)
  case (Cons e evs)
  obtain i now ev where e: "e = (i, now, ev)" by (cases e)
  obtain s2 sh2 where s2: "vs_input cfg now remapKey ev (cs i, sh) = (s2, sh2)" by (metis surj_pair)
  have "\<forall>status. ev = StatusChange status \<longrightarrow> i \<noteq> a" using Cons.prems(2) by (simp add: e)
  from input_stuck [OF Cons.prems(1) this s2] Cons.IH [of "cs(i := s2)" sh2] Cons.prems(2,3) show ?case
    by (simp add: e s2 del: fun_upd_apply)
qed simp

text \<open>C36: If the rights of a client are taken while it holds a button down, the pointer stays its own: whatever it and the
  other clients send from then on, no pointer event reaches the desktop, until its rights change again or it leaves.\<close>

theorem pointer_never_freed:
  assumes "\<forall>i. vs_id (cs i) = i" and "pointerClient sh = Some a" and "status \<in> {1, 2}"
    and "vs_input cfg now remapKey (StatusChange status) (cs a, sh) = (s1, sh1)"
    and "\<forall>(i, now, ev) \<in> set evs. \<forall>status. ev = StatusChange status \<longrightarrow> i \<noteq> a"
    and "clients_input cfg remapKey evs (cs(a := s1), sh1) = (cs', sh')"
  shows "pointerClient sh' = Some a \<and> pointer_calls (desktop_calls sh') = pointer_calls (desktop_calls sh)"
proof -
  have "status_rights status r AND AccessPtrEvents = 0" for r
    using assms(3) by (auto simp: status_rights_def logical_not_def access_defs)
  then have "pointer_stuck a (cs(a := s1), sh1)" "sh1 = sh" using assms(1,2,4) by (auto simp: pointer_stuck_def)
  from inputs_stuck [OF this(1) assms(5,6)] this(2) show ?thesis by (simp add: pointer_stuck_def)
qed

lemma pointer_never_freed_witness:
  "\<exists>cs sh s1 sh1 cs' sh'. clients_input accept_all (\<lambda>k. k) [(0, 1, PointerInput \<lparr>px = 3, py = 3\<rparr> 1)]
      (\<lambda>i. newVNCSConnectionST i newConnParams 0, quiet_desktop) = (cs, sh) \<and>
    vs_input accept_all 2 (\<lambda>k. k) (StatusChange 1) (cs 0, sh) = (s1, sh1) \<and>
    clients_input accept_all (\<lambda>k. k) [(0, 3, PointerInput \<lparr>px = 3, py = 3\<rparr> 0), (1, 4, PointerInput \<lparr>px = 5, py = 5\<rparr> 1)]
      (cs(0 := s1), sh1) = (cs', sh') \<and>
    pointerClient sh' = Some 0 \<and> pointer_calls (desktop_calls sh') = [PointerMove \<lparr>px = 3, py = 3\<rparr> 1]"
proof -
  obtain cs sh where 1: "clients_input accept_all (\<lambda>k. k) [(0, 1, PointerInput \<lparr>px = 3, py = 3\<rparr> 1)]
      (\<lambda>i. newVNCSConnectionST i newConnParams 0, quiet_desktop) = (cs, sh)" by (metis surj_pair)
  obtain s1 sh1 where 2: "vs_input accept_all 2 (\<lambda>k. k) (StatusChange 1) (cs 0, sh) = (s1, sh1)" by (metis surj_pair)
  obtain cs' sh' where 3: "clients_input accept_all (\<lambda>k. k)
      [(0, 3, PointerInput \<lparr>px = 3, py = 3\<rparr> 0), (1, 4, PointerInput \<lparr>px = 5, py = 5\<rparr> 1)] (cs(0 := s1), sh1) = (cs', sh')"
    by (metis surj_pair)
  have "\<forall>i. vs_id (cs i) = i" "pointerClient sh = Some 0" "desktop_calls sh = [PointerMove \<lparr>px = 3, py = 3\<rparr> 1]"
    using 1 by (auto simp: clients_input_def vs_pointerEvent_def newVNCSConnectionST_def quiet_desktop_def accept_all_def access_defs
        desktop_call_def Let_def)
  with pointer_never_freed [OF _ _ _ 2 _ 3] 1 2 3 show ?thesis by (auto simp: pointer_calls_def)
qed

subsection \<open>The rights\<close>

text \<open>C37: \<open>setStatus\<close> sets the status it is asked for, as \<open>getStatus\<close> reports it, but a client that was made a viewer or
  blocked for a while and then given full control again cannot use the clipboard any more, in neither
  direction, whatever it was allowed before: the logical \<open>!\<close> leaves none of the other rights.\<close>

theorem status_loses_clipboard:
  assumes "status \<in> {1, 2}"
  shows "getStatus (s\<lparr>accessRights := status_rights status ar\<rparr>) = status \<and>
    getStatus (s\<lparr>accessRights := status_rights 0 (status_rights status ar)\<rparr>) = 0 \<and>
    vs_clientCutText cfg str (s\<lparr>accessRights := status_rights 0 (status_rights status ar)\<rparr>, sh) =
      (s\<lparr>accessRights := status_rights 0 (status_rights status ar)\<rparr>, sh) \<and>
    vs_serverCutText cfg str (s\<lparr>accessRights := status_rights 0 (status_rights status ar)\<rparr>) =
      (Inr (), s\<lparr>accessRights := status_rights 0 (status_rights status ar)\<rparr>)"
proof -
  have r: "status_rights 1 ar = 1" "status_rights 2 ar = 0" "status_rights 0 1 = 7" "status_rights 0 0 = 7"
    by (simp_all add: status_rights_def logical_not_def access_defs)
  have "status = 1 \<or> status = 2" using assms by simp
  then show ?thesis
    by (elim disjE) (simp_all add: r getStatus_def vs_clientCutText_def vs_serverCutText_def access_defs getting_def ret_def)
qed

lemma status_loses_clipboard_witness:
  "vs_clientCutText accept_all [1, 2] (newVNCSConnectionST 0 newConnParams 0, quiet_desktop) \<noteq>
     (newVNCSConnectionST 0 newConnParams 0, quiet_desktop) \<and>
   vs_clientCutText accept_all [1, 2] ((newVNCSConnectionST 0 newConnParams 0)\<lparr>accessRights := status_rights 0 (status_rights 1 AccessDefault)\<rparr>, quiet_desktop) =
     ((newVNCSConnectionST 0 newConnParams 0)\<lparr>accessRights := status_rights 0 (status_rights 1 AccessDefault)\<rparr>, quiet_desktop)"
  using status_loses_clipboard [of 1 AccessDefault _ accept_all "[1, 2]" quiet_desktop]
  by (simp add: vs_clientCutText_def newVNCSConnectionST_def quiet_desktop_def accept_all_def access_defs desktop_call_def
      status_rights_def logical_not_def)

end
