(* ===== verification/Rfb_ServeUpdate.thy ===== *)
theory Rfb_ServeUpdate
  imports Rfb_VNCSConnection
begin

text \<open>
  What a viewer shows after the updates of \<open>VNCSConnectionST::writeFramebufferUpdate\<close>, and where they go wrong.
\<close>

subsection \<open>The account of a connection\<close>

text \<open>On the pixels \<open>A\<close> and outside its video area the tracker accounts for the difference between \<open>G\<close>, which the
  viewer shows, and \<open>F\<close>.\<close>

definition within :: "(int \<times> int) set \<Rightarrow> Point \<Rightarrow> (int \<times> int) set \<Rightarrow> bool" where
  "within A d K \<longleftrightarrow> (\<forall>(x, y) \<in> K. (x - px d, y - py d) \<in> A)"

definition area_tracks :: "SimpleUpdateTracker \<Rightarrow> (int \<times> int) set \<Rightarrow> 'p image \<Rightarrow> 'p image \<Rightarrow> bool" where
  "area_tracks t A G F \<longleftrightarrow> short_rect (video_area t) \<and>
     (\<exists>C K. denotes (changed t) C \<and> denotes (copied t) K \<and> C \<subseteq> A \<and> K \<subseteq> A \<and> within A (copy_delta t) K \<and>
        (\<forall>p \<in> A. p \<notin> C \<union> rpts (video_area t) \<longrightarrow> F p = moved K (copy_delta t) G p))"

lemma screen_area_tracks: "screen_tracks t fb G F \<Longrightarrow> area_tracks t (screen_pts fb) G F"
  by (simp add: screen_tracks_def area_tracks_def from_screen_def within_def)

text \<open>Translating both pictures keeps the account.\<close>

lemma area_tracks_map: "area_tracks t A G F \<Longrightarrow> area_tracks t A (\<lambda>p. f (G p)) (\<lambda>p. f (F p))"
  unfolding area_tracks_def
proof (elim conjE exE)
  fix C K
  assume *: "short_rect (video_area t)" "denotes (changed t) C" "denotes (copied t) K" "C \<subseteq> A" "K \<subseteq> A" "within A (copy_delta t) K"
    "\<forall>p \<in> A. p \<notin> C \<union> rpts (video_area t) \<longrightarrow> F p = moved K (copy_delta t) G p"
  have "moved K d (\<lambda>p. f (G p)) p = f (moved K d G p)" for d p by (cases p) (simp add: moved_iff)
  with * show "short_rect (video_area t) \<and> (\<exists>C K. denotes (changed t) C \<and> denotes (copied t) K \<and> C \<subseteq> A \<and> K \<subseteq> A \<and>
      within A (copy_delta t) K \<and>
      (\<forall>p \<in> A. p \<notin> C \<union> rpts (video_area t) \<longrightarrow> f (F p) = moved K (copy_delta t) (\<lambda>p. f (G p)) p))"
    by (intro conjI exI [of _ C] exI [of _ K]) auto
qed

text \<open>The update handed out without a video area: its parts, disjoint, and what is left of the tracker.\<close>

lemma getUpdateInfo_parts:
  assumes t: "area_tracks t A G F" and V: "rect_is_empty (video_area t)" and cl: "denotes clip P"
  shows "\<exists>t' ui C K. getUpdateInfo t clip = Some (t', ui) \<and> denotes (changed t') C \<and> denotes (copied t') K \<and>
    copy_delta t' = copy_delta t \<and> video_area t' = video_area t \<and> copy_enabled t' = copy_enabled t \<and>
    denotes (ui_changed ui) (C \<inter> P) \<and> denotes (ui_copied ui) (K \<inter> P) \<and> ui_copy_delta ui = copy_delta t \<and>
    rect_is_empty (ui_video_area ui) \<and> C = pts (changed t) \<and> K = pts (copied t) - C \<and> C \<subseteq> A \<and> K \<subseteq> A \<and> within A (copy_delta t) K \<and>
    (\<forall>p \<in> A. p \<notin> C \<longrightarrow> F p = moved K (copy_delta t) G p)"
proof -
  obtain C K where ck: "short_rect (video_area t)" "denotes (changed t) C" "denotes (copied t) K" "C \<subseteq> A" "K \<subseteq> A" "within A (copy_delta t) K"
    "\<forall>p \<in> A. p \<notin> C \<union> rpts (video_area t) \<longrightarrow> F p = moved K (copy_delta t) G p"
    using t unfolding area_tracks_def by - (elim exE conjE, rule that)
  have V0: "rpts (video_area t) = {}" using V by (simp add: rpts_empty)
  obtain v where v: "Region_of_rect (video_area t) = Some v" "denotes v {}" using Region_of_rect_denotes [OF ck(1)] unfolding V0 by blast
  obtain c where c: "assign_subtract (changed t) v = Some c" "denotes c (C - {})" using ck(2) v(2) by (rule assign_ops.subtractE)
  obtain b where b: "region_union c v = Some b" "denotes b (C - {} \<union> {})" using c(2) v(2) by (rule new_ops.unionE)
  obtain k where k: "assign_subtract (copied t) b = Some k" "denotes k (K - (C - {} \<union> {}))" using ck(3) b(2) by (rule assign_ops.subtractE)
  obtain uc where uc: "region_intersect c clip = Some uc" "denotes uc ((C - {}) \<inter> P)" using c(2) cl by (rule new_ops.intersectE)
  obtain uk where uk: "region_intersect k clip = Some uk" "denotes uk ((K - (C - {} \<union> {})) \<inter> P)" using k(2) cl by (rule new_ops.intersectE)
  have "rect_is_empty (rect_intersect (video_area t) (get_bounding_rect clip))"
    using V0 by (simp add: rpts_empty [symmetric] rpts_intersect)
  moreover have "\<forall>p \<in> A. p \<notin> C \<longrightarrow> F p = moved (K - C) (copy_delta t) G p"
    using ck(7) V0 by (auto simp: moved_def)
  moreover have "within A (copy_delta t) (K - C)" "pts (changed t) = C" "pts (copied t) = K"
    using ck(2,3,6) by (auto simp: within_def denotes_def)
  ultimately show ?thesis
    using v(1) b(1) uc uk c k ck(4,5)
    by (intro exI [of _ "t\<lparr>changed := c, copied := k\<rparr>"] exI [of _ C] exI [of _ "K - C"]) (auto simp: getUpdateInfo_def)
qed

text \<open>The copied pixels that are not sent now must not come from pixels that are.\<close>

definition copy_apart :: "SimpleUpdateTracker \<Rightarrow> (int \<times> int) set \<Rightarrow> bool" where
  "copy_apart t P \<longleftrightarrow> (\<forall>(x, y) \<in> pts (copied t) - pts (changed t).
     (x, y) \<notin> P \<longrightarrow> (x - px (copy_delta t), y - py (copy_delta t)) \<notin> P)"

lemma sent_part_tracks:
  assumes C: "denotes (changed t) C" and K: "denotes (copied t) K" and "C \<subseteq> A" "K \<subseteq> A" "within A (copy_delta t) K" "C \<inter> K = {}"
    and V: "short_rect (video_area t)" and u: "denotes u (C \<inter> P \<union> K \<inter> P)"
    and apart: "\<And>x y. (x, y) \<in> K \<Longrightarrow> (x, y) \<notin> P \<Longrightarrow> (x - px (copy_delta t), y - py (copy_delta t)) \<notin> P"
    and eq: "\<forall>p \<in> A. p \<notin> C \<longrightarrow> F p = moved K (copy_delta t) G p"
    and G': "G' = (\<lambda>p. if p \<in> C \<inter> P then F p else moved (K \<inter> P) (copy_delta t) G p)"
  shows "\<exists>t'. sut_subtract t u = Some t' \<and> area_tracks t' A G' F \<and> video_area t' = video_area t \<and> copy_delta t' = copy_delta t \<and>
    copy_enabled t' = copy_enabled t \<and> pts (changed t') = C - P \<and> pts (copied t') = K - P"
proof -
  define d where "d = copy_delta t"
  obtain k where k: "assign_subtract (copied t) u = Some k" "denotes k (K - (C \<inter> P \<union> K \<inter> P))" using K u by (rule assign_ops.subtractE)
  obtain c where c: "assign_subtract (changed t) u = Some c" "denotes c (C - (C \<inter> P \<union> K \<inter> P))" using C u by (rule assign_ops.subtractE)
  have parts: "K - (C \<inter> P \<union> K \<inter> P) = K - P" "C - (C \<inter> P \<union> K \<inter> P) = C - P" using assms(6) by auto
  have "F (x, y) = moved (K - P) d G' (x, y)" if "(x, y) \<in> A" "(x, y) \<notin> C - P" for x y
  proof (cases "(x, y) \<in> K - P")
    case True
    then have "(x - px d, y - py d) \<notin> P" "(x, y) \<notin> C" using apart assms(6) by (auto simp: d_def)
    then show ?thesis using True eq that by (simp add: moved_iff G' d_def)
  next
    case False
    then show ?thesis using eq that by (auto simp: moved_iff G' d_def)
  qed
  then have "\<forall>p \<in> A. p \<notin> C - P \<longrightarrow> F p = moved (K - P) d G' p" by auto
  moreover have "within A d (K - P)" using assms(5) by (auto simp: within_def d_def)
  ultimately have "area_tracks (t\<lparr>copied := k, changed := c\<rparr>) A G' F"
    using V k(2) c(2) assms(3,4) unfolding area_tracks_def parts
    by (intro conjI exI [of _ "C - P"] exI [of _ "K - P"]) (auto simp: d_def)
  then show ?thesis using k c parts by (simp add: sut_subtract_def denotes_def)
qed

subsection \<open>The steps of an update\<close>

text \<open>A viewer that draws its own cursor, in one of the encodings of this development, and shows no video.\<close>

definition plain_client :: "'p VEnv \<Rightarrow> VNCSConnectionST \<Rightarrow> bool" where
  "plain_client env s \<longleftrightarrow> writer_idle (vs_writer s) \<and> currentEncoding (vs_cp s) \<in> {encodingRaw, encodingRRE, encodingHextile} \<and>
     rect_is_empty (video_area (vs_updates s)) \<and> rect_is_empty (renderedCursorRect s) \<and> \<not> removeRenderedCursor s \<and>
     \<not> drawRenderedCursor s \<and> \<not> needRenderedCursor env s"

lemma plain_updates [simp]: "plain_client env (s\<lparr>vs_updates := t\<rparr>) \<longleftrightarrow>
    writer_idle (vs_writer s) \<and> currentEncoding (vs_cp s) \<in> {encodingRaw, encodingRRE, encodingHextile} \<and>
     rect_is_empty (video_area t) \<and> rect_is_empty (renderedCursorRect s) \<and> \<not> removeRenderedCursor s \<and>
     \<not> drawRenderedCursor s \<and> \<not> needRenderedCursor env s"
  by (simp add: plain_client_def needRenderedCursor_def needs_cursor_def vs_cp_def)

lemma on_updates_run: "f (vs_updates s) = Some t \<Longrightarrow> on_updates f s = (Inr (), s\<lparr>vs_updates := t\<rparr>)"
  by (simp add: on_updates_def act_simps of_region_def)

lemma on_writer_run: "m (vs_writer s) = (Inr x, w) \<Longrightarrow> on_writer m s = (Inr x, s\<lparr>vs_writer := w\<rparr>)"
  by (simp add: on_writer_def)

lemma bindA_run: "m s = (Inr x, s') \<Longrightarrow> bindA m f s = f x s'"
  by (simp add: bindA_def)

lemma convertVideo_run:
  assumes t: "area_tracks (vs_updates s) A G F" and V: "rect_is_empty (video_area (vs_updates s))"
  shows "\<exists>t. vs_convertVideo env s = (Inr (), s\<lparr>vs_updates := t\<rparr>) \<and> area_tracks t A G F \<and> rect_is_empty (video_area t) \<and>
    pts (changed t) = pts (changed (vs_updates s)) \<and> pts (copied t) = pts (copied (vs_updates s)) \<and>
    copy_delta t = copy_delta (vs_updates s) \<and> copy_enabled t = copy_enabled (vs_updates s)"
proof (cases "ve_videoPriority env = 0")
  case False
  then show ?thesis using t V by (intro exI [of _ "vs_updates s"]) (simp add: vs_convertVideo_def ret_def)
next
  case True
  define t0 where "t0 = vs_updates s"
  obtain C K where ck: "short_rect (video_area t0)" "denotes (changed t0) C" "denotes (copied t0) K" "C \<subseteq> A" "K \<subseteq> A" "within A (copy_delta t0) K"
    "\<forall>p \<in> A. p \<notin> C \<union> rpts (video_area t0) \<longrightarrow> F p = moved K (copy_delta t0) G p"
    using t unfolding area_tracks_def t0_def [symmetric] by - (elim exE conjE, rule that)
  have V0: "rpts (video_area t0) = {}" "rpts (mkRect 0 0 0 0) = {}" using V by (simp_all add: rpts_empty t0_def)
  obtain v where v: "Region_of_rect (video_area t0) = Some v" "denotes v {}" using Region_of_rect_denotes [OF ck(1)] unfolding V0 by blast
  obtain c where c: "assign_union (changed t0) v = Some c" "denotes c (C \<union> {})" using ck(2) v(2) by (rule assign_ops.unionE)
  define t1 where "t1 = t0\<lparr>changed := c, video_area := mkRect 0 0 0 0\<rparr>"
  have "vs_convertVideo env s = (Inr (), s\<lparr>vs_updates := t1\<rparr>)"
    using True v(1) c(1) by (simp add: vs_convertVideo_def on_updates_run add_changed_def set_video_area_def t0_def t1_def)
  moreover have "area_tracks t1 A G F"
    using ck(3-7) c(2) V0 unfolding area_tracks_def t1_def
    by (intro conjI exI [of _ C] exI [of _ K]) (simp_all add: mkRect_def short_rect_def is_short_def)
  moreover have "rect_is_empty (video_area t1)" by (simp add: t1_def rect_is_empty_def mkRect_def)
  ultimately show ?thesis using c(2) ck(2) by (intro exI [of _ t1]) (simp add: t1_def t0_def [symmetric] denotes_def)
qed

lemma count_changed_run:
  assumes "currentEncoding (sw_cp w) \<noteq> encodingTight" and "wf_region r"
  shows "\<exists>rs. get_rects r True True 0 = Some rs \<and> count_changed env w rs = int (numRects r)"
proof -
  obtain rs where rs: "get_rects r True True 0 = Some rs" "length rs = numRects r"
    "\<forall>R \<in> set rs. 0 < Rfb_Rect.rect_width R \<and> 0 < Rfb_Rect.rect_height R \<and> rpts R \<subseteq> pts r"
    by (rule get_rects_whole [OF assms(2)])
  have "filter (\<lambda>i. Rfb_Rect.rect_width i \<noteq> 0 \<and> Rfb_Rect.rect_height i \<noteq> 0) rs = rs"
    using rs(3) by (auto simp: filter_id_conv)
  moreover have "getNumRects env w = (\<lambda>_. 1)" using assms(1) by (auto simp: getNumRects_def)
  ultimately have "count_changed env w rs = int (numRects r)" using rs(2) by (simp add: count_changed_def sum_list_triv)
  with rs(1) show ?thesis by blast
qed

lemma real_encoders: "e \<in> {encodingRaw, encodingRRE, encodingHextile} \<Longrightarrow> encoder_supported e \<and> e \<noteq> encodingTight"
  by (auto simp: encoder_supported_iff encoding_defs)

text \<open>The message of an update that sends no video and no rendered cursor.\<close>

lemma sendUpdate_run:
  assumes pc: "currentEncoding (vs_cp s) \<in> {encodingRaw, encodingRRE, encodingHextile}" "\<not> drawRenderedCursor s"
    and V: "m_videoFrozen s \<and> \<not> m_fullUpdateRequested s \<or> rect_is_empty (ui_video_area ui)"
    and wf: "wf_region (ui_changed ui)" "wf_region (ui_copied ui)"
    and msg: "update_message (writeSetCursorCallback (ve_cursor env)) (int (numRects (ui_copied ui) + numRects (ui_changed ui)))
        (writeRects (ve_enc env) (ve_image env) ui) (vs_writer s) = (Inr u, w)"
    and sub: "sut_subtract (vs_updates s) u = Some t"
  shows "vs_sendUpdate env ui s =
    (Inr (), s\<lparr>vs_writer := w, vs_updates := t, requested := region_clear (requested s), m_fullUpdateRequested := False\<rparr>)"
proof -
  let ?n = "int (numRects (ui_copied ui) + numRects (ui_changed ui))"
  have enc: "encoder_supported (currentEncoding (vs_cp s))" "currentEncoding (vs_cp s) \<noteq> encodingTight" and nodraw: "\<not> drawRenderedCursor s"
    using pc real_encoders [of "currentEncoding (vs_cp s)"] by simp_all
  have enc_ok: "on_writer setupCurrentEncoder s = (Inr (), s)"
    using enc(1) by (simp add: on_writer_def setupCurrentEncoder_def act_simps vs_cp_def)
  obtain rs where rs: "get_rects (ui_changed ui) True True 0 = Some rs" "count_changed env (vs_writer s) rs = int (numRects (ui_changed ui))"
    using count_changed_run [OF _ wf(1), of "vs_writer s" env] enc(2) by (auto simp: vs_cp_def)
  have count: "vs_countRects env ui False False s = (Inr ?n, s)"
    using rs nodraw by (simp add: vs_countRects_def act_simps of_region_def region_numRects_def)
  from msg obtain w1 w2 where w: "writeFramebufferUpdateStart (writeSetCursorCallback (ve_cursor env)) ?n (vs_writer s) = (Inr (), w1)"
      "writeRects (ve_enc env) (ve_image env) ui w1 = (Inr u, w2)" "writeFramebufferUpdateEnd w2 = (Inr (), w)"
    unfolding update_message_def bindA_def ret_def by (auto split: prod.splits sum.splits)
  have rects: "vs_sendRects env ui (s\<lparr>vs_writer := w1\<rparr>) = (Inr (), s\<lparr>vs_writer := w2, vs_updates := t\<rparr>)"
    using w(2) sub nodraw unfolding vs_sendRects_def
    by (subst bindA_run [OF on_writer_run [of _ _ u w2]], simp, subst bindA_run [OF on_updates_run [of _ _ t]])
      (simp_all add: getting_def ret_def)
  have start: "on_writer (writeFramebufferUpdateStart (writeSetCursorCallback (ve_cursor env)) ?n) s = (Inr (), s\<lparr>vs_writer := w1\<rparr>)"
    using w(1) by (rule on_writer_run)
  have fin: "on_writer writeFramebufferUpdateEnd (s\<lparr>vs_writer := w2, vs_updates := t\<rparr>) = (Inr (), s\<lparr>vs_writer := w, vs_updates := t\<rparr>)"
    using on_writer_run [where m = writeFramebufferUpdateEnd and s = "s\<lparr>vs_writer := w2, vs_updates := t\<rparr>"] w(3) by simp
  show ?thesis
    using V enc_ok count start rects fin by (elim disjE) (simp_all add: vs_sendUpdate_def vs_videoOnly_def act_simps)
qed

subsection \<open>What the viewer shows\<close>

text \<open>The guards of \<open>writeFramebufferUpdate\<close> for a plain client, up to the message.\<close>

lemma finishUpdate_plain:
  assumes conv: "vs_convertVideo env s = (Inr (), s\<lparr>vs_updates := t1\<rparr>)"
    and get: "getUpdateInfo t1 (requested s) = Some (t2, ui)" and V: "rect_is_empty (ui_video_area ui)" "rect_is_empty (video_area t2)"
    and pc: "plain_client env s"
  shows "vs_finishUpdate env s = (let s2 = s\<lparr>vs_updates := t2\<rparr> in
    if region_is_empty (ui_changed ui) \<and> region_is_empty (ui_copied ui) then (Inr (), s2) else
    if sut_is_empty t2 then (Inr (), s2) else vs_sendUpdate env ui s2)"
proof -
  define s2 where "s2 = s\<lparr>vs_updates := t2\<rparr>"
  have p: "plain_client env s2" using pc V(2) by (simp add: s2_def) (simp add: plain_client_def)
  have info: "vs_getUpdateInfo (s\<lparr>vs_updates := t1\<rparr>) = (Inr ui, s2)"
    using get by (simp add: vs_getUpdateInfo_def act_simps of_region_def s2_def)
  have "vs_bogusCursor env ui s2 = (Inr False, s2)" "vs_removeCursor s2 = (Inr False, s2)" "vs_renderCursor env ui s2 = (Inr (), s2)"
      "\<not> needFakeUpdate (vs_writer s2)" "\<not> drawRenderedCursor s2"
    using p by (simp_all add: plain_client_def vs_bogusCursor_def vs_removeCursor_def vs_renderCursor_def act_simps writer_idle_def)
  then have "vs_finishUpdate env s = (if sut_is_empty (vs_updates s2) then (Inr (), s2)
      else if \<not> ui_is_empty ui then vs_sendUpdate env ui s2 else (Inr (), s2))"
    using conv info by (simp add: vs_finishUpdate_def act_simps)
  moreover have "vs_updates s2 = t2" by (simp add: s2_def)
  ultimately show ?thesis using V(1) by (auto simp: s2_def [symmetric] Let_def ui_is_empty_def)
qed

lemma area_tracksI:
  "short_rect (video_area t) \<Longrightarrow> denotes (changed t) C \<Longrightarrow> denotes (copied t) K \<Longrightarrow> C \<subseteq> A \<Longrightarrow> K \<subseteq> A \<Longrightarrow> within A (copy_delta t) K \<Longrightarrow>
   \<forall>p \<in> A. p \<notin> C \<longrightarrow> F p = moved K (copy_delta t) G p \<Longrightarrow> area_tracks t A G F"
  unfolding area_tracks_def by (intro conjI exI [of _ C] exI [of _ K]) auto

definition viewer_shows :: "'p decoders \<Rightarrow> (int \<times> int) set \<Rightarrow> (int \<times> int) set \<Rightarrow> 'p image \<Rightarrow> SimpleUpdateTracker \<Rightarrow> u8 list \<Rightarrow> 'p CMsgReader \<Rightarrow> bool" where
  "viewer_shows dec A P F t rest c \<longleftrightarrow> (\<exists>n c'. cm_readMsgs dec n c = (Inr (), c') \<and> w_in c' = rest \<and> cm_cp c' = cm_cp c \<and> nUpdateRectsLeft c' = 0 \<and>
     update_ends c' = update_ends c + (if w_in c = rest then 0 else 1) \<and>
     (\<forall>p \<in> P. framebuffer c' p = F p) \<and> (\<forall>p. p \<notin> P \<longrightarrow> framebuffer c' p = framebuffer c p) \<and> area_tracks t A (framebuffer c') F)"

lemma finishUpdate_shows:
  assumes link: "update_link (ve_enc env) dec" and pc: "plain_client env s" and scr: "screen_ok (vs_cp s) (enc_bytes (ve_enc env))"
    and A: "A = {0..<cp_width (vs_cp s)} \<times> {0..<cp_height (vs_cp s)}"
    and t: "area_tracks (vs_updates s) A G (ve_image env)" and P: "denotes (requested s) P" "P \<subseteq> A" and apart: "copy_apart (vs_updates s) P"
    and few: "\<And>ui s1. bindA (vs_convertVideo env) (\<lambda>_. vs_getUpdateInfo) s = (Inr ui, s1) \<Longrightarrow>
      numRects (ui_copied ui) + numRects (ui_changed ui) < 65536"
  shows "\<exists>bs s'. vs_finishUpdate env s = (Inr (), s') \<and> realOS (vs_writer s') = realOS (vs_writer s) @ bs \<and> plain_client env s' \<and>
    (if bs = [] then requested s' = requested s else denotes (requested s') {}) \<and> vs_cp s' = vs_cp s \<and> vs_state s' = vs_state s \<and>
    vs_id s' = vs_id s \<and>
    (\<forall>c rest. w_in c = bs @ rest \<longrightarrow> cm_cp c = vs_cp s \<longrightarrow> nUpdateRectsLeft c = 0 \<longrightarrow> framebuffer c = G \<longrightarrow>
      viewer_shows dec A P (ve_image env) (vs_updates s') rest c)"
proof -
  let ?F = "ve_image env" and ?w = "vs_writer s"
  obtain t1 where t1: "vs_convertVideo env s = (Inr (), s\<lparr>vs_updates := t1\<rparr>)" "area_tracks t1 A G ?F" "rect_is_empty (video_area t1)"
      "pts (changed t1) = pts (changed (vs_updates s))" "pts (copied t1) = pts (copied (vs_updates s))" "copy_delta t1 = copy_delta (vs_updates s)"
    using convertVideo_run [OF t, of env] pc by (auto simp: plain_client_def)
  obtain t2 ui C K where g: "getUpdateInfo t1 (requested s) = Some (t2, ui)" "denotes (changed t2) C" "denotes (copied t2) K"
      "copy_delta t2 = copy_delta t1" "video_area t2 = video_area t1" "denotes (ui_changed ui) (C \<inter> P)" "denotes (ui_copied ui) (K \<inter> P)"
      "ui_copy_delta ui = copy_delta t1" "rect_is_empty (ui_video_area ui)" "C = pts (changed t1)" "K = pts (copied t1) - C"
      "C \<subseteq> A" "K \<subseteq> A" "within A (copy_delta t1) K" "\<forall>p \<in> A. p \<notin> C \<longrightarrow> ?F p = moved K (copy_delta t1) G p"
    using getUpdateInfo_parts [OF t1(2,3) P(1)] by - (elim exE conjE, rule that)
  define d where "d = copy_delta t1"
  have short: "short_rect (video_area t2)" using t1(2) by (simp add: g(5) area_tracks_def)
  have t2: "area_tracks t2 A G ?F" using short g by (intro area_tracksI) (simp_all add: d_def)
  have src: "(x - px d, y - py d) \<notin> P" if "(x, y) \<in> K" "(x, y) \<notin> P" for x y
    using apart that by (auto simp: copy_apart_def g(10,11) t1 d_def)
  have pts: "pts (ui_changed ui) = C \<inter> P" "pts (ui_copied ui) = K \<inter> P" "wf_region (ui_changed ui)" "wf_region (ui_copied ui)"
    using g(6,7) by (simp_all add: denotes_def)
  have V2: "rect_is_empty (video_area t2)" by (simp add: g(5) t1(3))
  note run = finishUpdate_plain [OF t1(1) g(1,9) V2 pc, unfolded Let_def]
  have emp: "region_is_empty (ui_changed ui) \<longleftrightarrow> C \<inter> P = {}" "region_is_empty (ui_copied ui) \<longleftrightarrow> K \<inter> P = {}"
    "sut_is_empty t2 \<longleftrightarrow> C = {} \<and> K = {}"
    using region_is_empty_iff [OF g(6)] region_is_empty_iff [OF g(7)] region_is_empty_iff [OF g(2)] region_is_empty_iff [OF g(3)] V2
    by (simp_all add: sut_is_empty_def)
  define s2 where "s2 = s\<lparr>vs_updates := t2\<rparr>"
  have pc2: "plain_client env s2" using pc V2 by (simp add: s2_def) (simp add: plain_client_def)
  show ?thesis
  proof (cases "C \<inter> P = {} \<and> K \<inter> P = {}")
    case True
    then have fin: "vs_finishUpdate env s = (Inr (), s2)" using run emp by (simp add: s2_def)
    have same: "?F p = G p" if "p \<in> P" for p
    proof -
      have "p \<in> A" "p \<notin> C" "p \<notin> K" using True that P(2) by auto
      then show ?thesis using g(15) by (cases p) (simp add: moved_iff)
    qed
    have "viewer_shows dec A P ?F t2 rest c" if "w_in c = [] @ rest" "nUpdateRectsLeft c = 0" "framebuffer c = G" for c rest
      unfolding viewer_shows_def using that same t2 by (intro exI [of _ "0 :: nat"] exI [of _ c]) (simp add: ret_def)
    then show ?thesis using fin pc2 by (intro exI [of _ "[]"] exI [of _ s2]) (simp add: s2_def vs_cp_def)
  next
    case False
    define n where "n = numRects (ui_copied ui) + numRects (ui_changed ui)"
    have "bindA (vs_convertVideo env) (\<lambda>_. vs_getUpdateInfo) s = (Inr ui, s2)"
      using t1(1) g(1) by (simp add: bindA_def vs_getUpdateInfo_def getting_def of_region_def modify_def ret_def s2_def)
    from few [OF this] have n: "n < 65536" by (simp add: n_def)
    have n0: "0 < n" using False emp(1,2) by (auto simp: n_def region_is_empty_def region_numRects_def)
    have ui: "update_ok (vs_cp s) ui"
      using g(12-14) pts unfolding update_ok_def g(8) by (fastforce simp: A within_def)
    have w: "writer_idle ?w" "currentEncoding (sw_cp ?w) \<in> {encodingRaw, encodingRRE, encodingHextile}"
      using pc by (simp_all add: plain_client_def vs_cp_def)
    obtain bs w' u where m: "update_message (writeSetCursorCallback (ve_cursor env)) (int n) (writeRects (ve_enc env) ?F ui) ?w = (Inr u, w')"
        "writer_idle w'" "sw_cp w' = sw_cp ?w" "realOS w' = realOS ?w @ bs" "denotes u (C \<inter> P \<union> K \<inter> P)"
        "\<And>c rest. w_in c = bs @ rest \<Longrightarrow> cm_cp c = vs_cp s \<Longrightarrow> nUpdateRectsLeft c = 0 \<Longrightarrow>
          \<exists>c'. cm_readMsgs dec (Suc n) c = (Inr (), c') \<and> w_in c' = rest \<and> cm_cp c' = vs_cp s \<and> nUpdateRectsLeft c' = 0 \<and>
            update_ends c' = update_ends c + 1 \<and>
            framebuffer c' = (\<lambda>p. if p \<in> C \<inter> P then ?F p else moved (K \<inter> P) d (framebuffer c) p)"
      using update_message_shown [OF link w(1) w(2) scr ui n_def n0 n, of "writeSetCursorCallback (ve_cursor env)" ?F]
      unfolding pts g(8) d_def [symmetric] by (elim exE conjE) (rule that; (assumption | blast))
    define G' where "G' = (\<lambda>p. if p \<in> C \<inter> P then ?F p else moved (K \<inter> P) d G p)"
    have d2: "copy_delta t2 = d" by (simp add: g(4) d_def)
    have h1: "within A (copy_delta t2) K" using g(14) by (simp add: g(4))
    have h2: "C \<inter> K = {}" using g(11) by auto
    have h3: "\<forall>p \<in> A. p \<notin> C \<longrightarrow> ?F p = moved K (copy_delta t2) G p" using g(15) by (simp add: g(4))
    have h4: "G' = (\<lambda>p. if p \<in> C \<inter> P then ?F p else moved (K \<inter> P) (copy_delta t2) G p)" unfolding G'_def d2 by (rule refl)
    have h5: "(x - px (copy_delta t2), y - py (copy_delta t2)) \<notin> P" if "(x, y) \<in> K" "(x, y) \<notin> P" for x y
      using src [OF that] by (simp add: d2)
    obtain t3 where t3: "sut_subtract t2 u = Some t3" "area_tracks t3 A G' ?F" "video_area t3 = video_area t2"
      using sent_part_tracks [OF g(2,3,12,13) h1 h2 short m(5) h5 h3 h4] by blast
    define s3 where "s3 = s2\<lparr>vs_writer := w', vs_updates := t3, requested := region_clear (requested s2), m_fullUpdateRequested := False\<rparr>"
    have "vs_sendUpdate env ui s2 = (Inr (), s3)"
      unfolding s3_def using m(1) t3(1) pc2 g(9) pts(3,4) by (intro sendUpdate_run) (simp_all add: s2_def n_def plain_client_def vs_cp_def)
    then have fin: "vs_finishUpdate env s = (Inr (), s3)" using run emp False by (auto simp: s2_def)
    have "bs \<noteq> []"
    proof
      assume "bs = []"
      from m(6) [of "newCMsgReader (vs_cp s) G" "[]"] this show False
        by (simp add: newCMsgReader_def cm_readMsg_def cm_readMsgType_def act_simps rd_def p_U8_def p_take_def)
    qed
    moreover have "plain_client env s3"
      using pc m(2,3) t3(3) V2 by (simp add: s3_def s2_def plain_client_def needRenderedCursor_def needs_cursor_def vs_cp_def)
    moreover have "viewer_shows dec A P ?F t3 rest c"
      if c: "w_in c = bs @ rest" "cm_cp c = vs_cp s" "nUpdateRectsLeft c = 0" "framebuffer c = G" for c rest
    proof -
      obtain c' where c': "cm_readMsgs dec (Suc n) c = (Inr (), c')" "w_in c' = rest" "cm_cp c' = vs_cp s" "nUpdateRectsLeft c' = 0"
          "update_ends c' = update_ends c + 1" "framebuffer c' = G'"
        using m(6) [OF c(1-3)] c(4) by (auto simp: G'_def)
      have "G' p = ?F p" if "p \<in> P" for p
      proof -
        have "p \<in> A" using that P(2) by blast
        then show ?thesis using g(15) that by (cases p) (auto simp: G'_def moved_iff d_def)
      qed
      moreover have "G' p = G p" if "p \<notin> P" for p using that by (cases p) (simp add: G'_def moved_iff)
      ultimately show ?thesis
        unfolding viewer_shows_def using c c' t3(2) \<open>bs \<noteq> []\<close> by (intro exI [of _ "Suc n"] exI [of _ c']) simp
    qed
    moreover have "denotes (requested s3) {}" using denotes_clear [OF denotes_size [OF P(1)]] by (simp add: s3_def s2_def)
    ultimately show ?thesis using fin m(3,4) by (intro exI [of _ bs] exI [of _ s3]) (simp add: s3_def s2_def vs_cp_def)
  qed
qed

text \<open>On a small screen the rectangles of an update can be counted in 16 bits.\<close>

lemma disjoint_count:
  "sorted_wrt (\<lambda>a b. f a \<inter> f b = {}) xs \<Longrightarrow> \<forall>x \<in> set xs. f x \<noteq> {} \<and> finite (f x) \<Longrightarrow> length xs \<le> card (\<Union>x \<in> set xs. f x)"
proof (induction xs)
  case (Cons x xs)
  have "f x \<inter> (\<Union>y \<in> set xs. f y) = {}" using Cons.prems(1) by auto
  then have "card (\<Union>y \<in> set (x # xs). f y) = card (f x) + card (\<Union>y \<in> set xs. f y)"
    using Cons.prems(2) by (simp add: card_Un_disjoint)
  moreover have "0 < card (f x)" using Cons.prems(2) by (simp add: card_gt_0_iff)
  ultimately show ?case using Cons by auto
qed simp

lemma numRects_card:
  assumes "wf_region r" and "finite (pts r)"
  shows "numRects r \<le> card (pts r)"
proof -
  note wb = wf_region_boxes [OF assms(1)]
  let ?bs = "ordered True True (bands_of (rects r))"
  have "sorted_wrt (\<lambda>a b. box_rpts a \<inter> box_rpts b = {}) ?bs"
    by (rule sorted_wrt_ordered [OF wb(1)]) (auto simp: box_rpts_def split: if_splits)
  moreover have set: "set ?bs = set (rects r)" by (simp add: set_ordered wb(2))
  moreover have "\<forall>b \<in> set (rects r). box_rpts b \<noteq> {} \<and> finite (box_rpts b)"
    using wb(3) by (auto simp: box_rpts_def box_ok_def)
  ultimately have "length ?bs \<le> card (\<Union>b \<in> set ?bs. box_rpts b)" by (intro disjoint_count) simp_all
  moreover have "length ?bs = length (flat (bands_of (rects r)))"
    by (simp add: ordered_def in_order_def flat_def length_concat comp_def)
  ultimately show ?thesis unfolding set box_rpts_pts by (simp add: wb(2))
qed

lemma few_rects:
  assumes t: "area_tracks (vs_updates s) A G F" and V: "rect_is_empty (video_area (vs_updates s))" and P: "denotes (requested s) P"
    and A: "finite A" "card A < 32768"
    and run: "bindA (vs_convertVideo env) (\<lambda>_. vs_getUpdateInfo) s = (Inr ui, s1)"
  shows "numRects (ui_copied ui) + numRects (ui_changed ui) < 65536"
proof -
  obtain t1 where t1: "vs_convertVideo env s = (Inr (), s\<lparr>vs_updates := t1\<rparr>)" "area_tracks t1 A G F" "rect_is_empty (video_area t1)"
    using convertVideo_run [OF t V, of env] by auto
  obtain t2 ui' C K where g: "getUpdateInfo t1 (requested s) = Some (t2, ui')" "denotes (ui_changed ui') (C \<inter> P)" "denotes (ui_copied ui') (K \<inter> P)"
      "C \<subseteq> A" "K \<subseteq> A"
    using getUpdateInfo_parts [OF t1(2,3) P] by blast
  have "ui' = ui" using run t1(1) g(1) by (simp add: bindA_def vs_getUpdateInfo_def getting_def of_region_def modify_def ret_def)
  have few: "numRects r < 32768" if "denotes r D" "D \<subseteq> A" for r D
  proof -
    have "wf_region r" "pts r = D" using that(1) by (simp_all add: denotes_def)
    then have "numRects r \<le> card D" using numRects_card [of r] finite_subset [OF that(2) A(1)] by simp
    also have "\<dots> \<le> card A" by (rule card_mono [OF A(1) that(2)])
    finally show ?thesis using A(2) by simp
  qed
  have "numRects (ui_changed ui') < 32768" "numRects (ui_copied ui') < 32768"
    using g(4,5) by (auto intro!: few [OF g(2)] few [OF g(3)])
  then show ?thesis using \<open>ui' = ui\<close> by simp
qed

text \<open>C5: A request of a viewer that draws its own cursor is answered in full: the message that \<open>writeFramebufferUpdate\<close> writes for it, if any,
  is taken by the viewer's reader, after which it shows the server's pixels in the requested part of the screen and its own elsewhere,
  and the connection's tracker accounts for what it shows now. The request is done with when something was sent, and
  stays pending otherwise. What is still to be copied must not come from what is requested.\<close>

theorem request_served:
  assumes "update_link (ve_enc env) dec" and "plain_client env s" and "screen_ok (vs_cp s) (enc_bytes (ve_enc env))"
    and "A = {0..<cp_width (vs_cp s)} \<times> {0..<cp_height (vs_cp s)}"
    and "area_tracks (vs_updates s) A G (ve_image env)" and "denotes (requested s) P" "P \<subseteq> A" and "copy_apart (vs_updates s) P"
    and "\<forall>ui s1. bindA (vs_convertVideo env) (\<lambda>_. vs_getUpdateInfo) s = (Inr ui, s1) \<longrightarrow>
      numRects (ui_copied ui) + numRects (ui_changed ui) < 65536"
  shows "\<exists>bs s'. vs_finishUpdate env s = (Inr (), s') \<and> realOS (vs_writer s') = realOS (vs_writer s) @ bs \<and> plain_client env s' \<and>
    (if bs = [] then requested s' = requested s else denotes (requested s') {}) \<and> vs_cp s' = vs_cp s \<and> vs_state s' = vs_state s \<and>
    vs_id s' = vs_id s \<and>
    (\<forall>c rest. w_in c = bs @ rest \<longrightarrow> cm_cp c = vs_cp s \<longrightarrow> nUpdateRectsLeft c = 0 \<longrightarrow> framebuffer c = G \<longrightarrow>
      viewer_shows dec A P (ve_image env) (vs_updates s') rest c)"
  by (rule finishUpdate_shows [OF assms(1-8)]) (use assms(9) in blast)

definition small_tracker :: SimpleUpdateTracker where
  "small_tracker = (newSimpleUpdateTracker True)\<lparr>changed := ui_changed small_update, copied := ui_copied small_update,
     copy_delta := \<lparr>px = 2, py = 1\<rparr>\<rparr>"

definition small_image :: "8 word image" where
  "small_image p = (if p \<in> {1..<3} \<times> {0..<2} then 5 else 0)"

definition small_env :: "8 word VEnv" where
  "small_env = \<lparr>ve_enc = encoders8 True (\<lambda>_ _ _. ret None), ve_pb = mkRect 0 0 8 8, ve_trueColour = True, ve_image = small_image,
     ve_now = 0, ve_cursorPos = \<lparr>px = 0, py = 0\<rparr>, ve_renderedRect = rect_clear, ve_renderedImage = (\<lambda>_. 0),
     ve_cursor = \<lparr>cu_width = 0, cu_height = 0, cu_hotspot = \<lparr>px = 0, py = 0\<rparr>, cu_bits = [], cu_mask = [], cu_bitmap = None\<rparr>,
     ve_videoPriority = 1, ve_tightRects = (\<lambda>_. 1), ve_jpegFormat = True, ve_jpegRect = (\<lambda>_. ret ()), ve_setColourMap = (\<lambda>_ _. ret ()),
     ve_initGetter = (\<lambda>_. ret ())\<rparr>"

definition small_decoders :: "8 word decoders" where
  "small_decoders = decoders8 (\<lambda>_ _. ret ())"

definition small_client :: VNCSConnectionST where
  "small_client = (newVNCSConnectionST 0 (small_screen\<lparr>supportsLocalCursor := True\<rparr>) 0)\<lparr>vs_state := S_NORMAL, vs_updates := small_tracker,
     requested := \<lparr>rsize = 1, rects = [\<lparr>bx1 = 0, bx2 = 8, by1 = 0, by2 = 8\<rparr>], extents = \<lparr>bx1 = 0, bx2 = 8, by1 = 0, by2 = 8\<rparr>\<rparr>\<rparr>"

lemma small_tracker_tracks: "area_tracks small_tracker ({0..<8} \<times> {0..<8}) (\<lambda>_. 0) small_image"
proof (rule area_tracksI)
  show "denotes (changed small_tracker) ({1..<3} \<times> {0..<2})" "denotes (copied small_tracker) ({4..<7} \<times> {3..<8})"
    by (simp_all add: denotes_def small_tracker_def small_update_pts)
qed (auto simp: small_tracker_def newSimpleUpdateTracker_def within_def small_image_def moved_def rect_clear_def short_rect_def is_short_def)

lemma small_client_plain: "plain_client small_env small_client"
  by (simp add: plain_client_def small_client_def newVNCSConnectionST_def newSMsgWriter_def writer_idle_def needFakeUpdate_def vs_cp_def
      small_screen_def newConnParams_def needRenderedCursor_def needs_cursor_def small_env_def small_tracker_def newSimpleUpdateTracker_def rect_clear_def
      rect_is_empty_def point_equals_def)

lemma small_client_requested: "denotes (requested small_client) ({0..<8} \<times> {0..<8})"
  unfolding denotes_def small_client_def using single_box_region [of "\<lparr>bx1 = 0, bx2 = 8, by1 = 0, by2 = 8\<rparr>"] by simp

lemma small_client_cp: "cp_width (vs_cp small_client) = 8" "cp_height (vs_cp small_client) = 8" "vs_updates small_client = small_tracker"
  by (simp_all add: small_client_def newVNCSConnectionST_def newSMsgWriter_def vs_cp_def small_screen_def)

lemma request_served_witness:
  "\<exists>bs s'. vs_finishUpdate small_env small_client = (Inr (), s') \<and> realOS (vs_writer s') = bs \<and>
    (\<exists>n c'. cm_readMsgs small_decoders n ((newCMsgReader (vs_cp small_client) (\<lambda>_. 0))\<lparr>w_in := bs\<rparr>) = (Inr (), c') \<and>
      framebuffer c' (2, 1) = 5 \<and> framebuffer c' (5, 5) = 0)"
proof -
  let ?A = "{0..<8 :: int} \<times> {0..<8 :: int}"
  have link: "update_link (ve_enc small_env) small_decoders"
    unfolding small_env_def small_decoders_def by (simp add: link8.update_link_axioms)
  have scr: "screen_ok (vs_cp small_client) (enc_bytes (ve_enc small_env))"
    by (simp add: screen_ok_def small_client_cp small_env_def encoders8_def)
  have A: "?A = {0..<cp_width (vs_cp small_client)} \<times> {0..<cp_height (vs_cp small_client)}" by (simp add: small_client_cp)
  have im: "ve_image small_env = small_image" by (simp add: small_env_def)
  have t: "area_tracks (vs_updates small_client) ?A (\<lambda>_. 0) (ve_image small_env)"
    unfolding im small_client_cp by (rule small_tracker_tracks)
  have V: "rect_is_empty (video_area (vs_updates small_client))"
    using small_client_plain by (simp add: plain_client_def)
  have cop: "copy_apart (vs_updates small_client) ?A"
    by (auto simp: copy_apart_def small_client_cp small_tracker_def small_update_pts)
  have few: "\<forall>ui s1. bindA (vs_convertVideo small_env) (\<lambda>_. vs_getUpdateInfo) small_client = (Inr ui, s1) \<longrightarrow>
      numRects (ui_copied ui) + numRects (ui_changed ui) < 65536"
    by (intro allI impI few_rects [OF t V small_client_requested]) simp_all
  obtain bs s' where r: "vs_finishUpdate small_env small_client = (Inr (), s')"
      "realOS (vs_writer s') = realOS (vs_writer small_client) @ bs"
      "\<forall>c rest. w_in c = bs @ rest \<longrightarrow> cm_cp c = vs_cp small_client \<longrightarrow> nUpdateRectsLeft c = 0 \<longrightarrow> framebuffer c = (\<lambda>_. 0) \<longrightarrow>
        viewer_shows small_decoders ?A ?A (ve_image small_env) (vs_updates s') rest c"
    using request_served [OF link small_client_plain scr A t small_client_requested subset_refl cop few] by blast
  have "viewer_shows small_decoders ?A ?A small_image (vs_updates s') [] ((newCMsgReader (vs_cp small_client) (\<lambda>_. 0))\<lparr>w_in := bs\<rparr>)"
    using r(3) [rule_format, of _ "[]"] by (simp add: im newCMsgReader_def)
  then obtain n c' where run: "cm_readMsgs small_decoders n ((newCMsgReader (vs_cp small_client) (\<lambda>_. 0))\<lparr>w_in := bs\<rparr>) = (Inr (), c')"
      and fb: "\<forall>p \<in> ?A. framebuffer c' p = small_image p" unfolding viewer_shows_def by blast
  have v: "framebuffer c' (2, 1) = 5" "framebuffer c' (5, 5) = 0" using fb by (simp_all add: small_image_def)
  have "realOS (vs_writer small_client) = []" by (simp add: small_client_def newVNCSConnectionST_def newSMsgWriter_def)
  then show ?thesis using r(1,2) run v by auto
qed

subsection \<open>Two ways to lose the viewer\<close>




text \<open>An update without rectangles.\<close>

lemma empty_numRects: "denotes r {} \<Longrightarrow> numRects r = 0"
  using region_is_empty_iff [of r "{}"] by (simp add: region_is_empty_def region_numRects_def)

lemma get_rects_none: "denotes r {} \<Longrightarrow> get_rects r l t 0 = Some []"
  using get_rects_whole [of r l t] empty_numRects [of r] by (metis denotes_wf length_0_conv)

lemma writeRects_empty:
  assumes "denotes (ui_changed ui) {}" and "denotes (ui_copied ui) {}"
  shows "\<exists>u. writeRects E img ui w = (Inr u, w) \<and> denotes u {}"
proof -
  obtain u0 where u0: "Region_copy (ui_changed ui) = Some u0" "denotes u0 {}" using Region_copy_denotes [OF assms(1)] by blast
  obtain u where u: "assign_union u0 (ui_copied ui) = Some u" "denotes u ({} \<union> {})" using u0(2) assms(2) by (rule assign_ops.unionE)
  then show ?thesis using u0(1) get_rects_none [OF assms(1)] get_rects_none [OF assms(2)]
    by (simp add: writeRects_def of_region_def act_simps)
qed

lemma empty_message:
  assumes w: "writer_idle w" and "denotes (ui_changed ui) {}" "denotes (ui_copied ui) {}"
  shows "\<exists>u w'. update_message cb 0 (writeRects E img ui) w = (Inr u, w') \<and> denotes u {} \<and> realOS w' = realOS w @ [0, 0, 0, 0]"
proof -
  have start: "writeFramebufferUpdateStart cb 0 w = (Inr (), writer_started w 0)"
    using w by (simp add: writeFramebufferUpdateStart_def act_simps sw_startMsg_def sw_wr_def writer_idle_def needFakeUpdate_def
        msgTypeFramebufferUpdate_def writer_started_def Let_def)
  obtain u where u: "writeRects E img ui (writer_started w 0) = (Inr u, writer_started w 0)" "denotes u {}"
    using writeRects_empty [OF assms(2,3)] by blast
  let ?w = "writer_started w 0"
  have "writeFramebufferUpdateEnd ?w = (Inr (), ?w\<lparr>updatesSent := updatesSent ?w + 1\<rparr>)"
    using w by (simp add: writeFramebufferUpdateEnd_def writeDesktopSizeRect_def writeDesktopNameRect_def act_simps writer_idle_def
        needFakeUpdate_def writer_started_def)
  then show ?thesis using start u by (simp add: update_message_def act_simps writer_started_def e_U16_def)
qed

text \<open>C33: With the video frozen, an update in which only the video area could be sent is sent all the same: a message announcing 0
  rectangles. The request is taken as answered, but the viewer's reader never announces the end of such an update,
  and a viewer that asks for the next update at the end of one, as the Unix viewer does, asks no more.\<close>

theorem frozen_video_stalls:
  assumes w: "writer_idle (vs_writer s)" "currentEncoding (vs_cp s) \<in> {encodingRaw, encodingRRE, encodingHextile}"
    and fr: "m_videoFrozen s" "\<not> m_fullUpdateRequested s" "ve_videoPriority env \<noteq> 0"
    and cur: "\<not> removeRenderedCursor s" "\<not> drawRenderedCursor s" "\<not> needRenderedCursor env s"
    and t: "denotes (changed (vs_updates s)) {}" "denotes (copied (vs_updates s)) {}" "short_rect (video_area (vs_updates s))"
    and P: "denotes (requested s) P"
    and V: "\<not> rect_is_empty (rect_intersect (video_area (vs_updates s)) (get_bounding_rect (requested s)))"
  shows "\<exists>s'. vs_finishUpdate env s = (Inr (), s') \<and> realOS (vs_writer s') = realOS (vs_writer s) @ [0, 0, 0, 0] \<and>
    region_is_empty (requested s') \<and>
    (\<forall>c rest. w_in c = [0, 0, 0, 0] @ rest \<longrightarrow> nUpdateRectsLeft c = 0 \<longrightarrow>
      (\<exists>c'. cm_readMsg dec c = (Inr (), c') \<and> w_in c' = rest \<and> nUpdateRectsLeft c' = 0 \<and> framebuffer c' = framebuffer c \<and>
        update_ends c' = update_ends c))"
proof -
  define t0 where "t0 = vs_updates s"
  note t = t [folded t0_def] and V = V [folded t0_def]
  obtain v where v: "Region_of_rect (video_area t0) = Some v" "denotes v (rpts (video_area t0))" using Region_of_rect_denotes [OF t(3)] by blast
  obtain c where c: "assign_subtract (changed t0) v = Some c" "denotes c ({} - rpts (video_area t0))" using t(1) v(2) by (rule assign_ops.subtractE)
  obtain b where b: "region_union c v = Some b" "denotes b ({} - rpts (video_area t0) \<union> rpts (video_area t0))"
    using c(2) v(2) by (rule new_ops.unionE)
  obtain k where k: "assign_subtract (copied t0) b = Some k" "denotes k ({} - ({} - rpts (video_area t0) \<union> rpts (video_area t0)))"
    using t(2) b(2) by (rule assign_ops.subtractE)
  have e: "denotes c {}" "denotes k {}" using c(2) k(2) by simp_all
  obtain uc where uc: "region_intersect c (requested s) = Some uc" "denotes uc ({} \<inter> P)" using e(1) P by (rule new_ops.intersectE)
  obtain uk where uk: "region_intersect k (requested s) = Some uk" "denotes uk ({} \<inter> P)" using e(2) P by (rule new_ops.intersectE)
  define ui where "ui = \<lparr>ui_changed = uc, ui_copied = uk, ui_copy_delta = copy_delta t0,
    ui_video_area = rect_intersect (video_area t0) (get_bounding_rect (requested s))\<rparr>"
  define s2 where "s2 = s\<lparr>vs_updates := t0\<lparr>changed := c, copied := k\<rparr>\<rparr>"
  have ui: "denotes (ui_changed ui) {}" "denotes (ui_copied ui) {}" using uc(2) uk(2) by (simp_all add: ui_def)
  have "getUpdateInfo t0 (requested s) = Some (t0\<lparr>changed := c, copied := k\<rparr>, ui)"
    using v(1) c(1) b(1) k(1) uc(1) uk(1) by (simp add: getUpdateInfo_def ui_def)
  then have info: "vs_getUpdateInfo s = (Inr ui, s2)"
    by (simp add: vs_getUpdateInfo_def act_simps of_region_def s2_def t0_def)
  have conv: "vs_convertVideo env s = (Inr (), s)" using fr(3) by (simp add: vs_convertVideo_def ret_def)
  have same: "removeRenderedCursor s2 = removeRenderedCursor s" "drawRenderedCursor s2 = drawRenderedCursor s" "vs_writer s2 = vs_writer s"
      "needRenderedCursor env s2 = needRenderedCursor env s" "vs_cp s2 = vs_cp s" "requested s2 = requested s"
    by (simp_all add: s2_def needRenderedCursor_def needs_cursor_def vs_cp_def)
  have ne: "\<not> sut_is_empty (vs_updates s2)" "\<not> ui_is_empty ui"
    using V by (auto simp: s2_def sut_is_empty_def ui_is_empty_def ui_def rpts_empty [symmetric] rpts_intersect)
  have "region_is_empty (ui_copied ui)" using region_is_empty_iff [OF ui(2)] by simp
  then have steps: "vs_bogusCursor env ui s2 = (Inr False, s2)" "vs_removeCursor s2 = (Inr False, s2)" "vs_renderCursor env ui s2 = (Inr (), s2)"
    using cur by (simp_all add: vs_bogusCursor_def vs_removeCursor_def vs_renderCursor_def act_simps same)
  obtain u w' where m: "update_message (writeSetCursorCallback (ve_cursor env)) 0 (writeRects (ve_enc env) (ve_image env) ui) (vs_writer s) = (Inr u, w')"
      "denotes u {}" "realOS w' = realOS (vs_writer s) @ [0, 0, 0, 0]"
    using empty_message [OF w(1) ui] by blast
  obtain k2 where k2: "assign_subtract k u = Some k2" "denotes k2 ({} - {})" using e(2) m(2) by (rule assign_ops.subtractE)
  obtain c2 where c2: "assign_subtract c u = Some c2" "denotes c2 ({} - {})" using e(1) m(2) by (rule assign_ops.subtractE)
  have "vs_sendUpdate env ui s2 = (Inr (), s2\<lparr>vs_writer := w', vs_updates := t0\<lparr>copied := k2, changed := c2\<rparr>,
      requested := region_clear (requested s2), m_fullUpdateRequested := False\<rparr>)"
    using w(2) cur(2) fr(1,2) ui m(1) k2(1) c2(1) empty_numRects [OF ui(1)] empty_numRects [OF ui(2)]
    by (intro sendUpdate_run [where u = u]) (simp_all add: same denotes_wf sut_subtract_def s2_def vs_cp_def)
  then have fin: "vs_finishUpdate env s = (Inr (), s2\<lparr>vs_writer := w', vs_updates := t0\<lparr>copied := k2, changed := c2\<rparr>,
      requested := region_clear (requested s2), m_fullUpdateRequested := False\<rparr>)"
    using conv info steps ne cur(2) by (simp add: vs_finishUpdate_def act_simps same)
  have read: "\<exists>c'. cm_readMsg dec c = (Inr (), c') \<and> w_in c' = rest \<and> nUpdateRectsLeft c' = 0 \<and> framebuffer c' = framebuffer c \<and>
      update_ends c' = update_ends c" if "w_in c = [0, 0, 0, 0] @ rest" "nUpdateRectsLeft c = 0" for c :: "'b CMsgReader" and rest
  proof -
    have skip: "p_skip 1 (0 # xs) = Inr ((), xs)" for xs by (simp add: p_skip_def p_take_def)
    have u16: "p_U16 (0 # 0 # xs) = Inr (0, xs)" for xs by (simp add: p_U16_def p_take_def)
    show ?thesis using that skip u16
      by (simp add: cm_readMsg_def cm_readMsgType_def act_simps rd_def readFramebufferUpdate_def msgTypeFramebufferUpdate_def
          call_handler_def update_ends_def)
  qed
  show ?thesis using fin m(3) read by (intro exI) (auto simp: region_is_empty_def region_numRects_def region_clear_def)
qed

definition frozen_client :: VNCSConnectionST where
  "frozen_client = small_client\<lparr>vs_updates := (newSimpleUpdateTracker True)\<lparr>video_area := mkRect 0 0 4 4\<rparr>, m_videoFrozen := True\<rparr>"

lemma frozen_video_stalls_witness:
  "\<exists>s'. vs_finishUpdate small_env frozen_client = (Inr (), s') \<and> realOS (vs_writer s') = [0, 0, 0, 0] \<and>
    (\<exists>c'. cm_readMsg small_decoders ((newCMsgReader small_screen (\<lambda>_. 0))\<lparr>w_in := [0, 0, 0, 0]\<rparr>) = (Inr (), c') \<and>
      w_in c' = [] \<and> update_ends c' = 0)"
proof -
  have f: "vs_writer frozen_client = vs_writer small_client" "vs_cp frozen_client = vs_cp small_client" "requested frozen_client = requested small_client"
      "vs_updates frozen_client = (newSimpleUpdateTracker True)\<lparr>video_area := mkRect 0 0 4 4\<rparr>" "m_videoFrozen frozen_client"
    by (simp_all add: frozen_client_def vs_cp_def)
  have pc: "writer_idle (vs_writer small_client)" "currentEncoding (vs_cp small_client) \<in> {encodingRaw, encodingRRE, encodingHextile}"
      "\<not> removeRenderedCursor frozen_client" "\<not> drawRenderedCursor frozen_client" "\<not> needRenderedCursor small_env frozen_client"
    using small_client_plain by (simp_all add: plain_client_def frozen_client_def needRenderedCursor_def needs_cursor_def vs_cp_def)
  have full: "\<not> m_fullUpdateRequested frozen_client" "ve_videoPriority small_env \<noteq> 0"
    by (simp_all add: frozen_client_def small_client_def newVNCSConnectionST_def small_env_def)
  have "get_bounding_rect (requested small_client) = mkRect 0 0 8 8"
    by (simp add: small_client_def get_bounding_rect_def)
  then have V: "\<not> rect_is_empty (rect_intersect (video_area (vs_updates frozen_client)) (get_bounding_rect (requested frozen_client)))"
    by (simp add: f rect_is_empty_def rect_intersect_def mkRect_def Let_def)
  have t: "denotes (changed (vs_updates frozen_client)) {}" "denotes (copied (vs_updates frozen_client)) {}"
      "short_rect (video_area (vs_updates frozen_client))"
    by (simp_all add: f newSimpleUpdateTracker_def mkRect_def short_rect_def is_short_def)
  obtain s' where s': "vs_finishUpdate small_env frozen_client = (Inr (), s')" "realOS (vs_writer s') = realOS (vs_writer frozen_client) @ [0, 0, 0, 0]"
      "\<forall>c rest. w_in c = [0, 0, 0, 0] @ rest \<longrightarrow> nUpdateRectsLeft c = 0 \<longrightarrow>
        (\<exists>c'. cm_readMsg small_decoders c = (Inr (), c') \<and> w_in c' = rest \<and> nUpdateRectsLeft c' = 0 \<and> framebuffer c' = framebuffer c \<and>
          update_ends c' = update_ends c)"
    using frozen_video_stalls [OF pc(1,2) [folded f(1,2)] f(5) full pc(3-5) t small_client_requested [folded f(3)] V, where dec = "small_decoders"]
    by blast
  moreover have "realOS (vs_writer frozen_client) = []" by (simp add: f small_client_def newVNCSConnectionST_def newSMsgWriter_def)
  ultimately show ?thesis
    using s'(3) [rule_format, of "(newCMsgReader small_screen (\<lambda>_. 0))\<lparr>w_in := [0, 0, 0, 0]\<rparr>" "[]"]
    by (auto simp: newCMsgReader_def update_ends_def)
qed

end
