(* ===== verification/Rfb_Cursor.thy ===== *)
theory Rfb_Cursor
  imports Rfb_ComparingTracker
begin

text \<open>
  The server's cursor, \<open>common/rfb/Cursor.cxx\<close>: a pixel buffer with a mask, a row of which starts with a new byte.
\<close>

unbundle bit_operations_syntax

record 'p ServerCursor =
  sc_pb :: "'p PixelBuffer"
  sc_mask :: "u8 list"
  sc_hotspot :: Point

definition sc_getRect :: "'p PixelBuffer \<Rightarrow> Point \<Rightarrow> Rect" where
  "sc_getRect pb pos = \<lparr>r_tl = pos, r_br = point_translate pos \<lparr>px = pb_width pb, py = pb_height pb\<rparr>\<rparr>"

definition maskBytesPerRow :: "int \<Rightarrow> int" where
  "maskBytesPerRow w = (w + 7) div 8"

definition maskLen :: "'p PixelBuffer \<Rightarrow> int" where
  "maskLen pb = maskBytesPerRow (pb_width pb) * pb_height pb"

text \<open>The bit of a pixel; \<open>None\<close> outside the mask.\<close>

definition cursor_bit :: "u8 list \<Rightarrow> int \<Rightarrow> int \<times> int \<Rightarrow> bool option" where
  "cursor_bit msk perRow = (\<lambda>(x, y). map_option (\<lambda>b. bit b (7 - nat (x mod 8))) (list_at msk (y * perRow + x div 8)))"

definition set_cursor_bit :: "int \<Rightarrow> int \<times> int \<Rightarrow> u8 list \<Rightarrow> u8 list option" where
  "set_cursor_bit perRow = (\<lambda>(x, y) msk. map_option
     (\<lambda>b. msk[nat (y * perRow + x div 8) := b OR push_bit (7 - nat (x mod 8)) 1]) (list_at msk (y * perRow + x div 8)))"

text \<open>The pixels in the order of the loops.\<close>

definition grid :: "int \<Rightarrow> int \<Rightarrow> (int \<times> int) list" where
  "grid w h = concat (map (\<lambda>y. map (\<lambda>x. (int x, int y)) [0..<nat w]) [0..<nat h])"

subsection \<open>Cropping\<close>

definition grow :: "int \<times> int \<Rightarrow> Rect \<Rightarrow> Rect" where
  "grow = (\<lambda>(x, y) busy. \<lparr>r_tl = \<lparr>px = min x (px (r_tl busy)), py = min y (py (r_tl busy))\<rparr>,
                          r_br = \<lparr>px = max (x + 1) (px (r_br busy)), py = max (y + 1) (py (r_br busy))\<rparr>\<rparr>)"

fun crop_busy :: "u8 list \<Rightarrow> int \<Rightarrow> (int \<times> int) list \<Rightarrow> Rect \<Rightarrow> Rect option" where
  "crop_busy msk perRow [] busy = Some busy"
| "crop_busy msk perRow (p # ps) busy =
     do { b \<leftarrow> cursor_bit msk perRow p; crop_busy msk perRow ps (if b then grow p busy else busy) }"

fun crop_mask :: "u8 list \<Rightarrow> int \<Rightarrow> Point \<Rightarrow> int \<Rightarrow> (int \<times> int) list \<Rightarrow> u8 list \<Rightarrow> u8 list option" where
  "crop_mask msk perRow origin newPerRow [] newMask = Some newMask"
| "crop_mask msk perRow origin newPerRow (p # ps) newMask =
     do { b \<leftarrow> cursor_bit msk perRow (fst p + px origin, snd p + py origin);
          newMask \<leftarrow> (if b then set_cursor_bit newPerRow p newMask else Some newMask);
          crop_mask msk perRow origin newPerRow ps newMask }"

definition sc_crop :: "(nat \<Rightarrow> 'p) \<Rightarrow> 'p ServerCursor \<Rightarrow> 'p ServerCursor option" where
  "sc_crop junk c =
     (let pb = sc_pb c; hs = sc_hotspot c; w = pb_width pb; h = pb_height pb
      in do {
        busy \<leftarrow> crop_busy (sc_mask c) (maskBytesPerRow w) (grid w h)
                  (rect_intersect (pb_getRect pb) (mkRect (px hs) (py hs) (px hs + 1) (py hs + 1)));
        (let bw = rect_width busy; bh = rect_height busy
         in if w = bw \<and> h = bh then Some c
            else do {
              newData \<leftarrow> pb_getImage pb (map junk [0..<nat (bw * bh)]) busy 0;
              newMask \<leftarrow> crop_mask (sc_mask c) (maskBytesPerRow w) (r_tl busy) (maskBytesPerRow bw) (grid bw bh)
                           (replicate (nat (maskBytesPerRow bw * bh)) 0);
              Some \<lparr>sc_pb = \<lparr>pb_width = bw, pb_height = bh, pb_stride = bw, pb_data = newData\<rparr>, sc_mask = newMask,
                    sc_hotspot = point_subtract hs (r_tl busy)\<rparr> }) })"

subsection \<open>The bitmap\<close>

text \<open>\<open>getBitmap\<close>: the two pixels found so far, if any, and the bitmap; \<open>Some None\<close> if there is a third. A pixel not found is 0.\<close>

fun bitmap_pixels :: "'p ServerCursor \<Rightarrow> (int \<times> int) list \<Rightarrow> 'p option \<Rightarrow> 'p option \<Rightarrow> u8 list
    \<Rightarrow> ('p option \<times> 'p option \<times> u8 list) option option" where
  "bitmap_pixels c [] pix0 pix1 source = Some (Some (pix0, pix1, source))"
| "bitmap_pixels c (p # ps) pix0 pix1 source =
     (let perRow = maskBytesPerRow (pb_width (sc_pb c))
      in do {
        b \<leftarrow> cursor_bit (sc_mask c) perRow p;
        (if \<not> b then bitmap_pixels c ps pix0 pix1 source
         else do {
           pix \<leftarrow> list_at (pb_data (sc_pb c)) (snd p * pb_width (sc_pb c) + fst p);
           (if pix0 = None \<or> pix0 = Some pix then bitmap_pixels c ps (Some pix) pix1 source
            else if pix1 = None \<or> pix1 = Some pix
            then do { source \<leftarrow> set_cursor_bit perRow p source; bitmap_pixels c ps pix0 (Some pix) source }
            else Some None) }) })"

definition sc_getBitmap :: "'p ServerCursor \<Rightarrow> ('p option \<times> 'p option \<times> u8 list) option option" where
  "sc_getBitmap c = bitmap_pixels c (grid (pb_width (sc_pb c)) (pb_height (sc_pb c))) None None
     (replicate (nat (maskLen (sc_pb c))) 0)"


subsection \<open>The outline\<close>

text \<open>A byte of the new mask, from the byte, those above and below it, and those before and after it.\<close>

definition outline_byte :: "u8 list \<Rightarrow> int \<Rightarrow> int \<Rightarrow> int \<times> int \<Rightarrow> u8 option" where
  "outline_byte msk perRow h = (\<lambda>(b, y). do {
     m \<leftarrow> list_at msk (y * perRow + b);
     above \<leftarrow> (if y > 0 then list_at msk ((y - 1) * perRow + b) else Some 0);
     below \<leftarrow> (if y < h - 1 then list_at msk ((y + 1) * perRow + b) else Some 0);
     after \<leftarrow> (if b < perRow - 1 then list_at msk (y * perRow + b + 1) else Some 0);
     before \<leftarrow> (if b > 0 then list_at msk (y * perRow + b - 1) else Some 0);
     Some (m OR above OR below OR push_bit 1 m OR (drop_bit 7 after AND 1) OR drop_bit 1 m OR (push_bit 7 before AND 128)) })"

definition outline_mask :: "u8 list \<Rightarrow> int \<Rightarrow> int \<Rightarrow> u8 list option" where
  "outline_mask msk perRow h = those (map (outline_byte msk perRow h) (grid perRow h))"

definition sc_drawOutline :: "(nat \<Rightarrow> 'p) \<Rightarrow> nat \<Rightarrow> 'p \<Rightarrow> 'p ServerCursor \<Rightarrow> 'p ServerCursor option" where
  "sc_drawOutline junk bytes pix c =
     (let pb = sc_pb c
      in do {
        outlined \<leftarrow> pb_fillRect bytes (pb_setSize junk (pb_width pb) (pb_height pb)) (pb_getRect pb) pix;
        outlined \<leftarrow> pb_maskRect outlined (pb_getRect pb) (pb_data pb) (sc_mask c);
        msk \<leftarrow> outline_mask (sc_mask c) (maskBytesPerRow (pb_width pb)) (pb_height pb);
        Some (c\<lparr>sc_pb := outlined, sc_mask := msk\<rparr>) })"

subsection \<open>What a cursor shows\<close>

definition wf_cursor :: "'p ServerCursor \<Rightarrow> bool" where
  "wf_cursor c \<longleftrightarrow> wf_pb (sc_pb c) \<and> pb_stride (sc_pb c) = pb_width (sc_pb c) \<and> maskLen (sc_pb c) \<le> int (length (sc_mask c)) \<and>
     0 \<le> px (sc_hotspot c) \<and> px (sc_hotspot c) \<le> pb_width (sc_pb c) \<and>
     0 \<le> py (sc_hotspot c) \<and> py (sc_hotspot c) \<le> pb_height (sc_pb c)"

definition opaque :: "'p ServerCursor \<Rightarrow> int \<times> int \<Rightarrow> bool" where
  "opaque c p \<longleftrightarrow> p \<in> rpts (pb_getRect (sc_pb c)) \<and> mask_bit (sc_mask c) (maskBytesPerRow (pb_width (sc_pb c))) (fst p) (snd p)"

text \<open>The pixel at a distance from the hotspot, if there is one.\<close>

definition cursor_pixel :: "'p ServerCursor \<Rightarrow> int \<times> int \<Rightarrow> 'p option" where
  "cursor_pixel c = (\<lambda>(x, y). let p = (x + px (sc_hotspot c), y + py (sc_hotspot c)) in if opaque c p then Some (pb_at (sc_pb c) p) else None)"

lemma set_grid: "set (grid w h) = {0..<w} \<times> {0..<h}"
proof -
  have "(x, y) \<in> set (grid w h) \<longleftrightarrow> (x, y) \<in> {0..<w} \<times> {0..<h}" for x y
  proof
    assume "(x, y) \<in> {0..<w} \<times> {0..<h}"
    then have "nat x < nat w" "nat y < nat h" "x = int (nat x)" "y = int (nat y)" by auto
    then show "(x, y) \<in> set (grid w h)" unfolding grid_def by (auto intro!: bexI [of _ "nat y"] image_eqI [of _ _ "nat x"])
  qed (auto simp: grid_def)
  then show ?thesis by auto
qed

text \<open>The bits of a mask that is long enough.\<close>

lemma cursor_mask_index:
  fixes x y w h :: int
  assumes "0 \<le> x" "x < w" "0 \<le> y" "y < h"
  shows "0 \<le> y * maskBytesPerRow w + x div 8" and "y * maskBytesPerRow w + x div 8 < maskBytesPerRow w * h"
    and "x div 8 < maskBytesPerRow w" and "0 \<le> x div 8"
proof -
  show x: "x div 8 < maskBytesPerRow w" "0 \<le> x div 8" using assms(1,2) by (simp_all add: maskBytesPerRow_def)
  show "0 \<le> y * maskBytesPerRow w + x div 8" "y * maskBytesPerRow w + x div 8 < maskBytesPerRow w * h"
    using row_index [OF x(2,1) assms(3,4)] by (simp_all add: add.commute)
qed

lemma cursor_bit_at:
  assumes "0 \<le> fst p" "fst p < w" "0 \<le> snd p" "snd p < h" and "maskBytesPerRow w * h \<le> int (length msk)"
  shows "cursor_bit msk (maskBytesPerRow w) p = Some (mask_bit msk (maskBytesPerRow w) (fst p) (snd p))"
  using cursor_mask_index [OF assms(1-4)] assms(5) by (simp add: cursor_bit_def list_at_def mask_bit_def case_prod_unfold)

lemma bit_or_one: "(b :: nat) < 8 \<Longrightarrow> bit ((v :: u8) OR push_bit b 1) k \<longleftrightarrow> bit v k \<or> k = b"
  by (auto simp: bit_or_iff bit_exp_iff)

lemma set_cursor_bit_at:
  fixes w h :: int
  assumes p: "0 \<le> fst p" "fst p < w" "0 \<le> snd p" "snd p < h" and len: "int (length msk) = maskBytesPerRow w * h"
  shows "\<exists>msk'. set_cursor_bit (maskBytesPerRow w) p msk = Some msk' \<and> length msk' = length msk \<and>
    (\<forall>x y. 0 \<le> x \<longrightarrow> x < w \<longrightarrow> 0 \<le> y \<longrightarrow> y < h \<longrightarrow>
      mask_bit msk' (maskBytesPerRow w) x y = ((x, y) = p \<or> mask_bit msk (maskBytesPerRow w) x y))"
proof -
  let ?r = "maskBytesPerRow w" and ?x0 = "fst p" and ?y0 = "snd p"
  define i where "i = nat (?y0 * ?r + ?x0 div 8)"
  define b where "b = 7 - nat (?x0 mod 8)"
  define msk' where "msk' = msk[i := (msk ! i) OR push_bit b 1]"
  note i0 = cursor_mask_index [OF p]
  have run: "set_cursor_bit ?r p msk = Some msk'"
    using i0(1,2) len by (simp add: set_cursor_bit_def list_at_def case_prod_unfold msk'_def i_def b_def)
  have "mask_bit msk' ?r x y = ((x, y) = p \<or> mask_bit msk ?r x y)" if q: "0 \<le> x" "x < w" "0 \<le> y" "y < h" for x y
  proof -
    note j0 = cursor_mask_index [OF q]
    have i: "i < length msk" using i0(1,2) len by (simp add: i_def)
    have b8: "7 - nat (x mod 8) < 8" "7 - nat (?x0 mod 8) < 8" by simp_all
    have same: "nat (y * ?r + x div 8) = i \<longleftrightarrow> x div 8 = ?x0 div 8 \<and> y = ?y0"
      using row_index_inj [OF j0(4,3) i0(4,3), of y ?y0] i0(1) j0(1) by (auto simp: i_def add.commute)
    have m: "x = ?x0" if "x div 8 = ?x0 div 8" "7 - nat (x mod 8) = 7 - nat (?x0 mod 8)"
    proof -
      have "nat (x mod 8) \<le> 7" "nat (?x0 mod 8) \<le> 7" by (simp_all add: nat_le_iff)
      then have "nat (x mod 8) = nat (?x0 mod 8)" using that(2) by linarith
      then have "x mod 8 = ?x0 mod 8" by simp
      then show ?thesis using that(1) by (metis div_mult_mod_eq)
    qed
    show ?thesis
    proof (cases "nat (y * ?r + x div 8) = i")
      case True
      then have "bit (msk' ! i) (7 - nat (x mod 8)) \<longleftrightarrow> bit (msk ! i) (7 - nat (x mod 8)) \<or> 7 - nat (x mod 8) = b"
        using i bit_or_one [OF b8(2), of "msk ! i" "7 - nat (x mod 8)"] by (simp add: msk'_def b_def)
      moreover have "(x, y) = p \<longleftrightarrow> 7 - nat (x mod 8) = b" using True same m by (auto simp: b_def prod_eq_iff)
      ultimately show ?thesis using True by (auto simp: mask_bit_def)
    next
      case False
      then have "(x, y) \<noteq> p" using same by auto
      then show ?thesis using False by (simp add: mask_bit_def msk'_def)
    qed
  qed
  then show ?thesis using run by (auto simp: msk'_def)
qed


subsection \<open>The busy rectangle\<close>

definition rect_within :: "Rect \<Rightarrow> Rect \<Rightarrow> bool" where
  "rect_within a b \<longleftrightarrow> px (r_tl b) \<le> px (r_tl a) \<and> py (r_tl b) \<le> py (r_tl a) \<and> px (r_br a) \<le> px (r_br b) \<and> py (r_br a) \<le> py (r_br b)"

lemma rect_within_trans: "rect_within a b \<Longrightarrow> rect_within b c \<Longrightarrow> rect_within a c"
  by (auto simp: rect_within_def)

lemma grow_within: "rect_within busy (grow p busy)"
  and grow_adds: "p \<in> rpts (grow p busy)"
  and grow_least: "rect_within busy R \<Longrightarrow> p \<in> rpts R \<Longrightarrow> rect_within (grow p busy) R"
  by (cases p, auto simp: rect_within_def grow_def rpts_iff)+

lemma rect_within_rpts: "rect_within a b \<Longrightarrow> p \<in> rpts a \<Longrightarrow> p \<in> rpts b"
  by (cases p) (auto simp: rect_within_def rpts_iff)

definition busy_of :: "(int \<times> int \<Rightarrow> bool) \<Rightarrow> (int \<times> int) list \<Rightarrow> Rect \<Rightarrow> Rect" where
  "busy_of B ps busy = fold (\<lambda>p. if B p then grow p else id) ps busy"

lemma busy_of_simps [simp]:
  "busy_of B [] busy = busy"
  "busy_of B (p # ps) busy = busy_of B ps (if B p then grow p busy else busy)"
  by (simp_all add: busy_of_def)

lemma busy_within: "rect_within b (busy_of B ps b)"
proof (induction ps arbitrary: b)
  case (Cons q ps)
  then show ?case using rect_within_trans [OF grow_within [of b q]] by auto
qed (simp add: rect_within_def)

lemma busy_contains: "p \<in> set ps \<Longrightarrow> B p \<Longrightarrow> p \<in> rpts (busy_of B ps b)"
proof (induction ps arbitrary: b)
  case (Cons q ps)
  then show ?case using rect_within_rpts [OF busy_within grow_adds] by (cases "p = q") auto
qed simp

lemma busy_least: "rect_within b R \<Longrightarrow> \<forall>p \<in> set ps. B p \<longrightarrow> p \<in> rpts R \<Longrightarrow> rect_within (busy_of B ps b) R"
  by (induction ps arbitrary: b) (auto intro: grow_least)

lemma crop_busy_run:
  "\<forall>p \<in> set ps. cursor_bit msk r p = Some (B p) \<Longrightarrow> crop_busy msk r ps busy = Some (busy_of B ps busy)"
  by (induction ps arbitrary: busy) auto

subsection \<open>The cropped mask\<close>

lemma crop_mask_run:
  assumes old: "\<And>p. p \<in> {0..<w} \<times> {0..<h} \<Longrightarrow> cursor_bit msk r (fst p + px origin, snd p + py origin) = Some (B p)"
  shows "set ps \<subseteq> {0..<w} \<times> {0..<h} \<Longrightarrow> int (length new) = maskBytesPerRow w * h \<Longrightarrow>
    \<exists>new'. crop_mask msk r origin (maskBytesPerRow w) ps new = Some new' \<and> length new' = length new \<and>
      (\<forall>x y. 0 \<le> x \<longrightarrow> x < w \<longrightarrow> 0 \<le> y \<longrightarrow> y < h \<longrightarrow> mask_bit new' (maskBytesPerRow w) x y =
        ((x, y) \<in> set ps \<and> B (x, y) \<or> mask_bit new (maskBytesPerRow w) x y))"
proof (induction ps arbitrary: new)
  case (Cons p ps)
  have p: "0 \<le> fst p" "fst p < w" "0 \<le> snd p" "snd p < h" using Cons.prems(1) by auto
  have b: "cursor_bit msk r (fst p + px origin, snd p + py origin) = Some (B p)" using old Cons.prems(1) by simp
  obtain m where m: "(if B p then set_cursor_bit (maskBytesPerRow w) p new else Some new) = Some m" "length m = length new"
      "\<forall>x y. 0 \<le> x \<longrightarrow> x < w \<longrightarrow> 0 \<le> y \<longrightarrow> y < h \<longrightarrow>
        mask_bit m (maskBytesPerRow w) x y = ((x, y) = p \<and> B p \<or> mask_bit new (maskBytesPerRow w) x y)"
    using set_cursor_bit_at [OF p Cons.prems(2)] by (cases "B p") auto
  obtain new' where new': "crop_mask msk r origin (maskBytesPerRow w) ps m = Some new'" "length new' = length m"
      "\<forall>x y. 0 \<le> x \<longrightarrow> x < w \<longrightarrow> 0 \<le> y \<longrightarrow> y < h \<longrightarrow> mask_bit new' (maskBytesPerRow w) x y =
        ((x, y) \<in> set ps \<and> B (x, y) \<or> mask_bit m (maskBytesPerRow w) x y)"
    using Cons.IH [of m] Cons.prems m(2) by auto
  show ?case
  proof (intro exI conjI allI impI)
    show "crop_mask msk r origin (maskBytesPerRow w) (p # ps) new = Some new'" using b m(1) new'(1) by simp
    show "length new' = length new" using new'(2) m(2) by simp
    fix x y assume "0 \<le> x" "x < w" "0 \<le> y" "y < h"
    then show "mask_bit new' (maskBytesPerRow w) x y = ((x, y) \<in> set (p # ps) \<and> B (x, y) \<or> mask_bit new (maskBytesPerRow w) x y)"
      using m(3) new'(3) by auto
  qed
qed simp

lemma zero_mask: "\<not> mask_bit (replicate n 0) r x y" if "0 \<le> y * r + x div 8" "y * r + x div 8 < int n"
  using that by (simp add: mask_bit_def)


subsection \<open>Cropping keeps the cursor\<close>

lemma put_rows_nil: "\<forall>rw \<in> set rows. rw = [] \<Longrightarrow> put_rows data off stride rows = Some data"
  by (induction rows arbitrary: off) (auto simp: put_row_def)

lemma get_rows_nil: "get_rows data off stride 0 n = Some (replicate n [])"
  by (induction n arbitrary: off) (auto simp: get_row_def)

lemma getImage_narrow: "rect_width r = 0 \<Longrightarrow> pb_getImage pb buf r 0 = Some buf"
  by (simp add: pb_getImage_def get_rows_nil put_rows_nil)

lemma pb_shows_at: "wf_pb pb \<Longrightarrow> pb_shows pb (pb_at pb)"
  by (simp add: pb_shows_def)

lemma getImage_data:
  assumes pb: "pb_shows pb img" and r: "in_buffer pb r" and len: "int (length buf) = rect_width r * rect_height r"
  obtains data where "pb_getImage pb buf r 0 = Some data" and "int (length data) = rect_width r * rect_height r"
    and "\<And>x y. 0 \<le> x \<Longrightarrow> x < rect_width r \<Longrightarrow> 0 \<le> y \<Longrightarrow> y < rect_height r \<Longrightarrow>
      data_at data (rect_width r) (x, y) = img (x + px (r_tl r), y + py (r_tl r))"
proof (cases "0 < rect_width r")
  case True
  have pos: "0 \<le> rect_height r" using r by (simp add: in_buffer_iff rect_height_def)
  have "pb_getImage pb buf r 0 = Some (get_image img r)" by (rule getImage_shows [OF pb r True len])
  moreover have "int (length (get_image img r)) = rect_width r * rect_height r" using pos True by (simp add: length_get_image mult.commute)
  moreover have "data_at (get_image img r) (rect_width r) (x, y) = img (x + px (r_tl r), y + py (r_tl r))"
    if "0 \<le> x" "x < rect_width r" "0 \<le> y" "y < rect_height r" for x y
    using nth_get_image [of "nat x" r "nat y" img] that by (simp add: data_at_def nat_add_distrib nat_mult_distrib add.commute)
  ultimately show ?thesis by (rule that)
next
  case False
  then have "rect_width r = 0" using r by (simp add: in_buffer_iff rect_width_def)
  then show ?thesis using that [of buf] getImage_narrow [of r pb buf] len by simp
qed

text \<open>Proved for the busy rectangle of any cursor.\<close>

lemma crop_to_busy:
  assumes wf: "wf_cursor c"
  defines "b0 \<equiv> rect_intersect (pb_getRect (sc_pb c)) (mkRect (px (sc_hotspot c)) (py (sc_hotspot c)) (px (sc_hotspot c) + 1) (py (sc_hotspot c) + 1))"
  shows "\<exists>busy. crop_busy (sc_mask c) (maskBytesPerRow (pb_width (sc_pb c))) (grid (pb_width (sc_pb c)) (pb_height (sc_pb c))) b0 = Some busy \<and>
    in_buffer (sc_pb c) busy \<and> rect_within b0 busy \<and> (\<forall>p. opaque c p \<longrightarrow> p \<in> rpts busy) \<and>
    (\<forall>R. rect_within b0 R \<longrightarrow> (\<forall>p. opaque c p \<longrightarrow> p \<in> rpts R) \<longrightarrow> rect_within busy R)"
proof -
  let ?pb = "sc_pb c" and ?msk = "sc_mask c"
  let ?w = "pb_width ?pb" and ?h = "pb_height ?pb"
  let ?B = "\<lambda>p. mask_bit ?msk (maskBytesPerRow ?w) (fst p) (snd p)"
  have "cursor_bit ?msk (maskBytesPerRow ?w) p = Some (?B p)" if "p \<in> {0..<?w} \<times> {0..<?h}" for p
    using that wf by (intro cursor_bit_at [where h = ?h]) (auto simp: wf_cursor_def maskLen_def)
  then have "\<forall>p \<in> set (grid ?w ?h). cursor_bit ?msk (maskBytesPerRow ?w) p = Some (?B p)" unfolding set_grid by blast
  then have run: "crop_busy ?msk (maskBytesPerRow ?w) (grid ?w ?h) b0 = Some (busy_of ?B (grid ?w ?h) b0)"
    by (rule crop_busy_run)
  have op: "opaque c p \<longleftrightarrow> p \<in> set (grid ?w ?h) \<and> ?B p" for p
    unfolding opaque_def set_grid pb_getRect_def by simp
  have b0: "0 \<le> px (r_tl b0)" "0 \<le> py (r_tl b0)" "px (r_tl b0) \<le> px (r_br b0)" "py (r_tl b0) \<le> py (r_br b0)"
    "px (r_br b0) \<le> ?w" "py (r_br b0) \<le> ?h"
    using wf unfolding wf_cursor_def wf_pb_def b0_def rect_intersect_def Let_def pb_getRect_def mkRect_def by simp_all
  define busy where "busy = busy_of ?B (grid ?w ?h) b0"
  have w0: "rect_within b0 busy" unfolding busy_def by (rule busy_within)
  have all: "opaque c p \<Longrightarrow> p \<in> rpts busy" for p unfolding op busy_def by (auto intro: busy_contains)
  have least: "rect_within busy R" if "rect_within b0 R" "\<forall>p. opaque c p \<longrightarrow> p \<in> rpts R" for R
    unfolding busy_def by (rule busy_least [OF that(1)]) (use that(2) op in blast)
  have "rect_within busy (mkRect 0 0 ?w ?h)"
  proof (rule least)
    show "rect_within b0 (mkRect 0 0 ?w ?h)" using b0 by (simp add: rect_within_def mkRect_def)
    show "\<forall>p. opaque c p \<longrightarrow> p \<in> rpts (mkRect 0 0 ?w ?h)" unfolding op set_grid rpts_mkRect by blast
  qed
  then have "in_buffer ?pb busy" using w0 b0 by (simp add: in_buffer_iff rect_within_def mkRect_def)
  with run w0 all least show ?thesis unfolding busy_def [symmetric] by blast
qed

lemma crop_cuts:
  assumes wf: "wf_cursor c"
    and run: "crop_busy (sc_mask c) (maskBytesPerRow (pb_width (sc_pb c))) (grid (pb_width (sc_pb c)) (pb_height (sc_pb c)))
      (rect_intersect (pb_getRect (sc_pb c)) (mkRect (px (sc_hotspot c)) (py (sc_hotspot c)) (px (sc_hotspot c) + 1) (py (sc_hotspot c) + 1))) = Some busy"
    and inb: "in_buffer (sc_pb c) busy"
    and w0: "rect_within (rect_intersect (pb_getRect (sc_pb c)) (mkRect (px (sc_hotspot c)) (py (sc_hotspot c)) (px (sc_hotspot c) + 1) (py (sc_hotspot c) + 1))) busy"
    and all: "\<forall>p. opaque c p \<longrightarrow> p \<in> rpts busy" and cut: "\<not> (pb_width (sc_pb c) = rect_width busy \<and> pb_height (sc_pb c) = rect_height busy)"
  shows "\<exists>c'. sc_crop junk c = Some c' \<and> wf_cursor c' \<and> cursor_pixel c' = cursor_pixel c \<and>
    pb_width (sc_pb c') = rect_width busy \<and> pb_height (sc_pb c') = rect_height busy"
proof -
  let ?pb = "sc_pb c" and ?msk = "sc_mask c" and ?hs = "sc_hotspot c"
  let ?w = "pb_width ?pb" and ?h = "pb_height ?pb"
  define bw bh where "bw = rect_width busy" and "bh = rect_height busy"
  have pb: "wf_pb ?pb" "pb_stride ?pb = ?w" using wf by (simp_all add: wf_cursor_def)
  have pos: "0 \<le> bw" "0 \<le> bh" "0 \<le> px (r_tl busy)" "px (r_tl busy) + bw \<le> ?w" "0 \<le> py (r_tl busy)" "py (r_tl busy) + bh \<le> ?h"
    using inb by (simp_all add: in_buffer_iff bw_def bh_def rect_width_def rect_height_def)
  define buf where "buf = map junk [0..<nat (bw * bh)]"
  have len: "int (length buf) = bw * bh" using pos(1,2) by (simp add: buf_def)
  obtain data where data: "pb_getImage ?pb buf busy 0 = Some data" "int (length data) = bw * bh"
      "\<And>x y. 0 \<le> x \<Longrightarrow> x < bw \<Longrightarrow> 0 \<le> y \<Longrightarrow> y < bh \<Longrightarrow> data_at data bw (x, y) = pb_at ?pb (x + px (r_tl busy), y + py (r_tl busy))"
    using getImage_data [OF pb_shows_at [OF pb(1)] inb, of buf] len unfolding bw_def bh_def by blast
  have old: "cursor_bit ?msk (maskBytesPerRow ?w) (fst p + px (r_tl busy), snd p + py (r_tl busy)) =
      Some (mask_bit ?msk (maskBytesPerRow ?w) (fst p + px (r_tl busy)) (snd p + py (r_tl busy)))"
    if "p \<in> {0..<bw} \<times> {0..<bh}" for p
    using cursor_bit_at [of "(fst p + px (r_tl busy), snd p + py (r_tl busy))" ?w ?h ?msk] that wf pos by (auto simp: wf_cursor_def maskLen_def)
  define zero where "zero = replicate (nat (maskBytesPerRow bw * bh)) (0 :: u8)"
  have zlen: "int (length zero) = maskBytesPerRow bw * bh" using pos(1,2) by (simp add: zero_def maskBytesPerRow_def)
  obtain new where new: "crop_mask ?msk (maskBytesPerRow ?w) (r_tl busy) (maskBytesPerRow bw) (grid bw bh) zero = Some new" "length new = length zero"
      "\<forall>x y. 0 \<le> x \<longrightarrow> x < bw \<longrightarrow> 0 \<le> y \<longrightarrow> y < bh \<longrightarrow> mask_bit new (maskBytesPerRow bw) x y =
        ((x, y) \<in> set (grid bw bh) \<and> mask_bit ?msk (maskBytesPerRow ?w) (fst (x, y) + px (r_tl busy)) (snd (x, y) + py (r_tl busy)) \<or>
         mask_bit zero (maskBytesPerRow bw) x y)"
    using crop_mask_run [OF old _ zlen, where ps = "grid bw bh"] unfolding set_grid by blast
  have bits: "mask_bit new (maskBytesPerRow bw) x y = mask_bit ?msk (maskBytesPerRow ?w) (x + px (r_tl busy)) (y + py (r_tl busy))"
    if "0 \<le> x" "x < bw" "0 \<le> y" "y < bh" for x y
    using new(3) that zero_mask [of y "maskBytesPerRow bw" x "length zero"] cursor_mask_index [OF that] zlen
    by (simp add: set_grid) (simp add: zero_def)
  define c' where "c' = \<lparr>sc_pb = \<lparr>pb_width = bw, pb_height = bh, pb_stride = bw, pb_data = data\<rparr>, sc_mask = new,
      sc_hotspot = point_subtract ?hs (r_tl busy)\<rparr>"
  have crop: "sc_crop junk c = Some c'"
    using run cut data(1) new(1) by (auto simp: sc_crop_def Let_def bw_def [symmetric] bh_def [symmetric] buf_def [symmetric] zero_def [symmetric] c'_def)
  have hs: "px (r_tl busy) \<le> px ?hs" "py (r_tl busy) \<le> py ?hs" "px ?hs \<le> px (r_br busy)" "py ?hs \<le> py (r_br busy)"
    using w0 wf by (simp_all add: rect_within_def rect_intersect_def Let_def pb_getRect_def mkRect_def wf_cursor_def)
  have "wf_cursor c'"
    using pos data(2) new(2) zlen hs by (simp add: wf_cursor_def c'_def wf_pb_def maskLen_def point_subtract_def bw_def bh_def rect_width_def rect_height_def)
  moreover have "cursor_pixel c' (x, y) = cursor_pixel c (x, y)" for x y
  proof -
    define u v where "u = x + px ?hs - px (r_tl busy)" and "v = y + py ?hs - py (r_tl busy)"
    have uv: "x + px ?hs = u + px (r_tl busy)" "y + py ?hs = v + py (r_tl busy)" by (simp_all add: u_def v_def)
    have h': "x + px (sc_hotspot c') = u" "y + py (sc_hotspot c') = v" by (simp_all add: c'_def point_subtract_def u_def v_def)
    have inside: "(u + px (r_tl busy), v + py (r_tl busy)) \<in> rpts busy \<longleftrightarrow> 0 \<le> u \<and> u < bw \<and> 0 \<le> v \<and> v < bh"
      by (auto simp: rpts_iff bw_def bh_def rect_width_def rect_height_def)
    have op: "opaque c' (u, v) \<longleftrightarrow> opaque c (u + px (r_tl busy), v + py (r_tl busy))"
    proof (cases "0 \<le> u \<and> u < bw \<and> 0 \<le> v \<and> v < bh")
      case True
      then show ?thesis using bits [of u v] pos by (simp add: opaque_def c'_def pb_getRect_def)
    next
      case False
      then show ?thesis using all inside by (auto simp: opaque_def c'_def pb_getRect_def)
    qed
    have "pb_at (sc_pb c') (u, v) = pb_at ?pb (u + px (r_tl busy), v + py (r_tl busy))" if "opaque c' (u, v)"
      using data(3) [of u v] that by (simp add: opaque_def c'_def pb_getRect_def pb_at_def)
    then show ?thesis using op by (simp add: cursor_pixel_def Let_def uv h')
  qed
  then have "cursor_pixel c' = cursor_pixel c" by (simp add: fun_eq_iff)
  ultimately show ?thesis using crop by (auto simp: c'_def bw_def bh_def)
qed

text \<open>C24: \<open>crop\<close> never reads outside the cursor, as long as its hotspot is not beyond it, and does not change what the cursor shows:
  at every distance from the hotspot there is the same pixel as before, or none. The new cursor lies within every
  rectangle that holds the old one's pixels and its hotspot.\<close>

theorem crop_keeps_cursor:
  assumes wf: "wf_cursor c"
  shows "\<exists>c'. sc_crop junk c = Some c' \<and> wf_cursor c' \<and> cursor_pixel c' = cursor_pixel c \<and>
    (\<forall>R. (\<forall>p. opaque c p \<longrightarrow> p \<in> rpts R) \<longrightarrow> (px (sc_hotspot c), py (sc_hotspot c)) \<in> rpts R \<longrightarrow>
      pb_width (sc_pb c') \<le> rect_width R \<and> pb_height (sc_pb c') \<le> rect_height R)"
proof -
  let ?pb = "sc_pb c" and ?msk = "sc_mask c" and ?hs = "sc_hotspot c"
  let ?w = "pb_width ?pb" and ?h = "pb_height ?pb"
  define b0 where "b0 = rect_intersect (pb_getRect ?pb) (mkRect (px ?hs) (py ?hs) (px ?hs + 1) (py ?hs + 1))"
  obtain busy where run: "crop_busy ?msk (maskBytesPerRow ?w) (grid ?w ?h) b0 = Some busy" and inb: "in_buffer ?pb busy"
      and w0: "rect_within b0 busy" and all: "\<forall>p. opaque c p \<longrightarrow> p \<in> rpts busy"
      and least: "\<And>R. rect_within b0 R \<Longrightarrow> \<forall>p. opaque c p \<longrightarrow> p \<in> rpts R \<Longrightarrow> rect_within busy R"
    using crop_to_busy [OF wf] unfolding b0_def [symmetric] by blast
  have b0: "px (r_tl b0) = px ?hs" "py (r_tl b0) = py ?hs" "px ?hs \<le> px (r_br b0)" "py ?hs \<le> py (r_br b0)"
      "px (r_br b0) \<le> px ?hs + 1" "py (r_br b0) \<le> py ?hs + 1"
    using wf by (simp_all add: b0_def rect_intersect_def Let_def pb_getRect_def mkRect_def wf_cursor_def)
  have min: "rect_width busy \<le> rect_width R \<and> rect_height busy \<le> rect_height R"
    if "\<forall>p. opaque c p \<longrightarrow> p \<in> rpts R" "(px ?hs, py ?hs) \<in> rpts R" for R
    using least [OF _ that(1)] that(2) b0 by (auto simp: rect_within_def rpts_iff rect_width_def rect_height_def)
  show ?thesis
  proof (cases "?w = rect_width busy \<and> ?h = rect_height busy")
    case True
    then have "sc_crop junk c = Some c" using run by (simp add: sc_crop_def Let_def b0_def [symmetric])
    then show ?thesis using wf min True by auto
  next
    case False
    obtain c' where c': "sc_crop junk c = Some c'" "wf_cursor c'" "cursor_pixel c' = cursor_pixel c"
        "pb_width (sc_pb c') = rect_width busy" "pb_height (sc_pb c') = rect_height busy"
      using crop_cuts [OF wf run [unfolded b0_def] inb w0 [unfolded b0_def] all False] by blast
    then show ?thesis using min by auto
  qed
qed

lemma crop_keeps_cursor_witness:
  "\<exists>c'. sc_crop (\<lambda>_. 0) \<lparr>sc_pb = \<lparr>pb_width = 3, pb_height = 2, pb_stride = 3, pb_data = [1, 2, 3, 4, 5, 6 :: nat]\<rparr>, sc_mask = [0, 0x40],
      sc_hotspot = \<lparr>px = 1, py = 1\<rparr>\<rparr> = Some c' \<and> wf_cursor c' \<and> cursor_pixel c' (0, 0) = Some 5 \<and> cursor_pixel c' (-1, -1) = None \<and>
      pb_width (sc_pb c') \<le> 1"
proof -
  let ?c = "\<lparr>sc_pb = \<lparr>pb_width = 3, pb_height = 2, pb_stride = 3, pb_data = [1, 2, 3, 4, 5, 6 :: nat]\<rparr>, sc_mask = [0, 0x40 :: u8],
      sc_hotspot = \<lparr>px = 1, py = 1\<rparr>\<rparr>"
  have "wf_cursor ?c" by (simp add: wf_cursor_def wf_pb_def maskLen_def maskBytesPerRow_def)
  from crop_keeps_cursor [OF this, of "\<lambda>_. 0"]
  obtain c' where c: "sc_crop (\<lambda>_. 0) ?c = Some c'" "wf_cursor c'" "cursor_pixel c' = cursor_pixel ?c"
      "\<forall>R. (\<forall>p. opaque ?c p \<longrightarrow> p \<in> rpts R) \<longrightarrow> (1, 1) \<in> rpts R \<longrightarrow> pb_width (sc_pb c') \<le> rect_width R"
    by auto
  have "p = (1, 1)" if "opaque ?c p" for p
  proof -
    obtain x y where p: "p = (x, y)" by (cases p)
    have "x \<in> {0, 1, 2}" "y \<in> {0, 1}" using that by (auto simp: opaque_def pb_getRect_def p)
    then show ?thesis using that by (auto simp: opaque_def mask_bit_def maskBytesPerRow_def p)
  qed
  moreover have "(1, 1) \<in> rpts (mkRect 1 1 2 2)" by simp
  moreover from this have "\<forall>p. opaque ?c p \<longrightarrow> p \<in> rpts (mkRect 1 1 2 2)" using calculation by metis
  ultimately have "pb_width (sc_pb c') \<le> rect_width (mkRect 1 1 2 2)" using c(4) by blast
  then have "pb_width (sc_pb c') \<le> 1" by (simp add: rect_width_def mkRect_def)
  moreover have "cursor_pixel ?c (0, 0) = Some 5" "cursor_pixel ?c (-1, -1) = None"
    by (simp_all add: cursor_pixel_def opaque_def pb_getRect_def mask_bit_def maskBytesPerRow_def pb_at_def data_at_def)
  ultimately show ?thesis using c(1-3) by auto
qed

subsection \<open>Two-coloured cursors\<close>

lemma distinct_grid: "distinct (grid w h)"
proof -
  have "grid w h = map (\<lambda>(y, x). (int x, int y)) (List.product [0..<nat h] [0..<nat w])"
    by (simp add: grid_def product_concat_map map_concat comp_def)
  then show ?thesis by (auto simp: distinct_map distinct_product inj_on_def)
qed

definition two_colours :: "'p ServerCursor \<Rightarrow> (int \<times> int) set \<Rightarrow> 'p option \<times> 'p option \<times> u8 list \<Rightarrow> bool" where
  "two_colours c D = (\<lambda>(pix0, pix1, source). \<forall>p \<in> D. opaque c p \<longrightarrow>
     Some (pb_at (sc_pb c) p) = (if mask_bit source (maskBytesPerRow (pb_width (sc_pb c))) (fst p) (snd p) then pix1 else pix0))"

definition bitmap_right :: "'p ServerCursor \<Rightarrow> (int \<times> int) set \<Rightarrow> ('p option \<times> 'p option \<times> u8 list) option \<Rightarrow> bool" where
  "bitmap_right c D r \<longleftrightarrow> (case r of Some x \<Rightarrow> two_colours c D x
     | None \<Rightarrow> \<exists>a b d. {a, b, d} \<subseteq> pb_at (sc_pb c) ` {p. opaque c p} \<and> a \<noteq> b \<and> b \<noteq> d \<and> a \<noteq> d)"

lemma bitmap_pixels_run:
  assumes wf: "wf_cursor c"
  shows "set ps \<subseteq> set (grid (pb_width (sc_pb c)) (pb_height (sc_pb c))) \<Longrightarrow> distinct ps \<Longrightarrow> set ps \<inter> D = {} \<Longrightarrow>
    int (length source) = maskLen (sc_pb c) \<Longrightarrow> two_colours c D (pix0, pix1, source) \<Longrightarrow>
    \<forall>p \<in> set ps. \<not> mask_bit source (maskBytesPerRow (pb_width (sc_pb c))) (fst p) (snd p) \<Longrightarrow>
    set_option pix0 \<union> set_option pix1 \<subseteq> pb_at (sc_pb c) ` {p. opaque c p} \<Longrightarrow> pix1 \<noteq> None \<longrightarrow> pix0 \<noteq> None \<and> pix0 \<noteq> pix1 \<Longrightarrow>
    \<exists>r. bitmap_pixels c ps pix0 pix1 source = Some r \<and> bitmap_right c (D \<union> set ps) r"
proof (induction ps arbitrary: D pix0 pix1 source)
  case (Cons q ps)
  let ?pb = "sc_pb c" and ?r = "maskBytesPerRow (pb_width (sc_pb c))"
  let ?w = "pb_width ?pb" and ?h = "pb_height ?pb"
  have q: "0 \<le> fst q" "fst q < ?w" "0 \<le> snd q" "snd q < ?h" using Cons.prems(1) by (auto simp: set_grid)
  have bit: "cursor_bit (sc_mask c) ?r q = Some (opaque c q)"
    using cursor_bit_at [OF q, of "sc_mask c"] wf q by (simp add: wf_cursor_def maskLen_def opaque_def pb_getRect_def mem_Times_iff)
  have nq: "q \<notin> set ps" "q \<notin> D" "\<not> mask_bit source ?r (fst q) (snd q)" using Cons.prems(2,3,6) by auto
  note prem = Cons.prems
  show ?case
  proof (cases "opaque c q")
    case False
    then have "two_colours c (insert q D) (pix0, pix1, source)" using prem(5) by (simp add: two_colours_def)
    then show ?thesis using Cons.IH [of "insert q D" source pix0 pix1] prem nq False bit by auto
  next
    case True
    have pix: "list_at (pb_data ?pb) (snd q * ?w + fst q) = Some (pb_at ?pb q)"
      using row_index [OF q] wf by (simp add: list_at_def wf_cursor_def wf_pb_def pb_at_def data_at_def case_prod_unfold add.commute)
    let ?p = "pb_at ?pb q"
    have img: "?p \<in> pb_at ?pb ` {p. opaque c p}" using True by blast
    consider "pix0 = None \<or> pix0 = Some ?p" | "pix0 \<noteq> None" "pix0 \<noteq> Some ?p" "pix1 = None \<or> pix1 = Some ?p"
      | a b where "pix0 = Some a" "pix1 = Some b" "a \<noteq> ?p" "b \<noteq> ?p" by fastforce
    then show ?thesis
    proof cases
      case 1
      have "two_colours c (insert q D) (Some ?p, pix1, source)" using prem(5,8) nq(3) 1 by (auto simp: two_colours_def)
      then show ?thesis using Cons.IH [of "insert q D" source "Some ?p" pix1] prem nq True 1 bit pix img by auto
    next
      case 2
      obtain source' where s: "set_cursor_bit ?r q source = Some source'" "length source' = length source"
          "\<forall>x y. 0 \<le> x \<longrightarrow> x < ?w \<longrightarrow> 0 \<le> y \<longrightarrow> y < ?h \<longrightarrow> mask_bit source' ?r x y = ((x, y) = q \<or> mask_bit source ?r x y)"
        using set_cursor_bit_at [OF q] prem(4) unfolding maskLen_def by blast
      have in_grid: "mask_bit source' ?r (fst p) (snd p) = (p = q \<or> mask_bit source ?r (fst p) (snd p))" if "p \<in> set (grid ?w ?h)" for p
        using s(3) that by (auto simp: set_grid)
      have og: "opaque c p \<Longrightarrow> p \<in> set (grid ?w ?h)" for p by (simp add: opaque_def set_grid pb_getRect_def)
      have t: "two_colours c (insert q D) (pix0, Some ?p, source')"
        using prem(5,8) 2 nq in_grid og True by (auto simp: two_colours_def)
      have "\<forall>p \<in> set ps. \<not> mask_bit source' ?r (fst p) (snd p)" using in_grid prem(1,6) nq by auto
      then show ?thesis using Cons.IH [of "insert q D" source' pix0 "Some ?p"] prem nq True 2 bit pix img s(1,2) t by auto
    next
      case 3
      then have "{a, b, ?p} \<subseteq> pb_at ?pb ` {p. opaque c p}" "a \<noteq> b" using prem(7,8) img by auto
      then have "bitmap_right c (D \<union> set (q # ps)) None" using 3(3,4) unfolding bitmap_right_def option.case by blast
      then show ?thesis using bit pix True 3 by auto
    qed
  qed
qed (simp add: bitmap_right_def)

text \<open>\<open>getBitmap\<close> reads nothing outside the cursor. It gives up exactly when the cursor has three different pixels; otherwise a set bit
  stands for the second and a clear one for the first of the two pixels it finds.\<close>

theorem getBitmap_exact:
  assumes wf: "wf_cursor c"
  shows "\<exists>r. sc_getBitmap c = Some r \<and> bitmap_right c UNIV r"
proof -
  let ?pb = "sc_pb c"
  let ?w = "pb_width ?pb" and ?h = "pb_height ?pb"
  define zero where "zero = replicate (nat (maskLen ?pb)) (0 :: u8)"
  have wh: "0 \<le> ?w" "0 \<le> ?h" using wf by (simp_all add: wf_cursor_def wf_pb_def)
  then have len: "int (length zero) = maskLen ?pb" by (simp add: zero_def maskLen_def maskBytesPerRow_def)
  have z: "\<not> mask_bit zero (maskBytesPerRow ?w) (fst p) (snd p)" if "p \<in> set (grid ?w ?h)" for p
    using zero_mask [of "snd p" "maskBytesPerRow ?w" "fst p" "length zero"] cursor_mask_index [of "fst p" ?w "snd p" ?h] that len
    by (auto simp: set_grid maskLen_def) (auto simp: zero_def)
  obtain r where r: "sc_getBitmap c = Some r" "bitmap_right c ({} \<union> set (grid ?w ?h)) r"
    using bitmap_pixels_run [OF wf subset_refl distinct_grid _ len, of "{}" None None] z
    by (auto simp: sc_getBitmap_def zero_def [symmetric] two_colours_def)
  have "two_colours c (set (grid ?w ?h)) x \<Longrightarrow> two_colours c UNIV x" for x
    unfolding two_colours_def by (auto simp: opaque_def set_grid pb_getRect_def)
  then have "bitmap_right c UNIV r" using r(2) by (auto simp: bitmap_right_def split: option.splits)
  then show ?thesis using r(1) by blast
qed

lemma getBitmap_exact_witness:
  "\<exists>r. sc_getBitmap \<lparr>sc_pb = \<lparr>pb_width = 3, pb_height = 2, pb_stride = 3, pb_data = [1, 2, 3, 4, 5, 6 :: nat]\<rparr>, sc_mask = [0, 0x40],
      sc_hotspot = \<lparr>px = 1, py = 1\<rparr>\<rparr> = Some r \<and>
    bitmap_right \<lparr>sc_pb = \<lparr>pb_width = 3, pb_height = 2, pb_stride = 3, pb_data = [1, 2, 3, 4, 5, 6 :: nat]\<rparr>, sc_mask = [0, 0x40],
      sc_hotspot = \<lparr>px = 1, py = 1\<rparr>\<rparr> UNIV r"
  by (rule getBitmap_exact) (simp add: wf_cursor_def wf_pb_def maskLen_def maskBytesPerRow_def)

subsection \<open>Outlined cursors\<close>

lemma those_map: "(\<And>x. x \<in> set xs \<Longrightarrow> f x = Some (g x)) \<Longrightarrow> those (map f xs) = Some (map g xs)"
  by (induction xs) auto

lemma length_grid: "length (grid w h) = nat w * nat h"
  by (simp add: grid_def length_concat comp_def sum_list_triv)

lemma nth_grid:
  assumes "0 \<le> x" "x < w" "0 \<le> y" "y < h"
  shows "grid w h ! nat (y * w + x) = (x, y)"
proof -
  have g: "grid w h = map (\<lambda>(y, x). (int x, int y)) (List.product [0..<nat h] [0..<nat w])"
    by (simp add: grid_def product_concat_map map_concat comp_def)
  have n: "nat x < nat w" "nat y < nat h" "nat (y * w + x) = nat y * nat w + nat x" using assms by (simp_all add: nat_add_distrib nat_mult_distrib)
  have lt: "nat y * nat w + nat x < nat h * nat w"
  proof -
    have "nat y * nat w + nat x < Suc (nat y) * nat w" using n(1) by simp
    also have "\<dots> \<le> nat h * nat w" using n(2) by (intro mult_le_mono1) (rule Suc_leI)
    finally show ?thesis .
  qed
  have "List.product [0..<nat h] [0..<nat w] ! (nat y * nat w + nat x) = ([0..<nat h] ! nat y, [0..<nat w] ! nat x)"
    using product_nth [of "nat y * nat w + nat x" "[0..<nat h]" "[0..<nat w]"] lt n(1) by (simp add: div_add1_eq)
  then show ?thesis using lt n assms by (simp add: g)
qed

text \<open>The bits of the mask at a pixel, which are 0 above and below the cursor and before and after a row's bytes.\<close>

definition neighbour :: "u8 list \<Rightarrow> int \<Rightarrow> int \<Rightarrow> int \<times> int \<Rightarrow> bool" where
  "neighbour msk perRow h = (\<lambda>(x, y). 0 \<le> y \<and> y < h \<and> 0 \<le> x \<and> x < 8 * perRow \<and> mask_bit msk perRow x y)"

lemma outline_mask_bit:
  assumes len: "perRow * h \<le> int (length msk)" and p: "0 \<le> x" "x < 8 * perRow" "0 \<le> y" "y < h"
  shows "\<exists>v. outline_byte msk perRow h (x div 8, y) = Some v \<and>
    (bit v (7 - nat (x mod 8)) \<longleftrightarrow> (\<exists>q \<in> {(x, y), (x, y - 1), (x, y + 1), (x - 1, y), (x + 1, y)}. neighbour msk perRow h q))"
proof -
  define b where "b = x div 8"
  define k where "k = nat (x mod 8)"
  have x: "x = 8 * b + int k" "k < 8" using p(1) by (simp_all add: b_def k_def)
  have b: "0 \<le> b" "b < perRow" using p(1,2) by (simp_all add: b_def)
  define at where "at b y = (if 0 \<le> b \<and> b < perRow \<and> 0 \<le> y \<and> y < h then msk ! nat (y * perRow + b) else 0)" for b y
  have rd: "list_at msk (y' * perRow + b') = Some (at b' y')" if "0 \<le> b'" "b' < perRow" "0 \<le> y'" "y' < h" for b' y'
    using row_index [OF that] len that by (simp add: list_at_def at_def add.commute)
  have run: "outline_byte msk perRow h (b, y) =
      Some (at b y OR at b (y - 1) OR at b (y + 1) OR push_bit 1 (at b y) OR (drop_bit 7 (at (b + 1) y) AND 1) OR drop_bit 1 (at b y) OR
        (push_bit 7 (at (b - 1) y) AND 128))"
  proof -
    have "list_at msk (y * perRow + b) = Some (at b y)" using rd [OF b p(3,4)] .
    moreover have "(if y > 0 then list_at msk ((y - 1) * perRow + b) else Some 0) = Some (at b (y - 1))"
      using rd [of b "y - 1"] b p(3,4) by (auto simp: at_def)
    moreover have "(if y < h - 1 then list_at msk ((y + 1) * perRow + b) else Some 0) = Some (at b (y + 1))"
      using rd [of b "y + 1"] b p(3,4) by (auto simp: at_def)
    moreover have "(if b < perRow - 1 then list_at msk (y * perRow + b + 1) else Some 0) = Some (at (b + 1) y)"
      using rd [of "b + 1" y] b p(3,4) by (auto simp: at_def add.assoc)
    moreover have "(if b > 0 then list_at msk (y * perRow + b - 1) else Some 0) = Some (at (b - 1) y)"
    proof -
      have e: "y * perRow + b - 1 = y * perRow + (b - 1)" by simp
      show ?thesis unfolding e using rd [of "b - 1" y] b p(3,4) by (auto simp: at_def)
    qed
    ultimately show ?thesis by (simp only: outline_byte_def prod.case bind.simps)
  qed
  have nb: "neighbour msk perRow h (8 * b' + int k', y') \<longleftrightarrow> bit (at b' y') (7 - k')" if "k' < 8" for b' k' y'
  proof -
    have "(8 * b' + int k') div 8 = b'" "(8 * b' + int k') mod 8 = int k'" using that by simp_all
    moreover have "0 \<le> 8 * b' + int k' \<and> 8 * b' + int k' < 8 * perRow \<longleftrightarrow> 0 \<le> b' \<and> b' < perRow" using that by auto
    ultimately show ?thesis by (auto simp: neighbour_def at_def mask_bit_def)
  qed
  have left: "neighbour msk perRow h (x - 1, y) \<longleftrightarrow> (if k = 0 then bit (at (b - 1) y) 0 else bit (at b y) (8 - k))"
  proof (cases "k = 0")
    case True
    then have "x - 1 = 8 * (b - 1) + int 7" by (simp add: x(1))
    then show ?thesis using nb [of 7 "b - 1" y] True by simp
  next
    case False
    then have e: "x - 1 = 8 * b + int (k - 1)" "7 - (k - 1) = 8 - k" "k - 1 < 8" using x(2) by (simp_all add: x(1) of_nat_diff)
    show ?thesis unfolding e(1) nb [OF e(3)] e(2) using False by simp
  qed
  have right: "neighbour msk perRow h (x + 1, y) \<longleftrightarrow> (if k = 7 then bit (at (b + 1) y) 7 else bit (at b y) (6 - k))"
  proof (cases "k = 7")
    case True
    then have e: "x + 1 = 8 * (b + 1) + int 0" by (simp add: x(1))
    have "(0 :: nat) < 8" by simp
    then show ?thesis unfolding e nb [OF \<open>0 < 8\<close>] using True by simp
  next
    case False
    then have e: "x + 1 = 8 * b + int (k + 1)" "k + 1 < 8" using x(2) by (simp_all add: x(1))
    show ?thesis unfolding e(1) nb [OF e(2)] using False by simp
  qed
  have here: "neighbour msk perRow h (x, y') \<longleftrightarrow> bit (at b y') (7 - k)" for y' using nb [OF x(2), of b y'] by (simp add: x(1))
  let ?v = "at b y OR at b (y - 1) OR at b (y + 1) OR push_bit 1 (at b y) OR (drop_bit 7 (at (b + 1) y) AND 1) OR drop_bit 1 (at b y) OR
        (push_bit 7 (at (b - 1) y) AND 128)"
  have "bit (push_bit 1 a) (7 - k) \<longleftrightarrow> k \<noteq> 7 \<and> bit a (6 - k)" for a :: u8
  proof -
    have "1 \<le> 7 - k \<longleftrightarrow> k \<noteq> 7" "7 - k < 8" using x(2) by linarith+
    then show ?thesis unfolding bit_push_bit_iff by simp
  qed
  moreover have "bit (drop_bit 7 a AND 1) (7 - k) \<longleftrightarrow> k = 7 \<and> bit a 7" for a :: u8
    using x(2) by (cases "k = 7") (simp_all add: bit_and_iff bit_1_iff bit_drop_bit_eq)
  moreover have "bit (drop_bit 1 a) (7 - k) \<longleftrightarrow> k \<noteq> 0 \<and> bit a (8 - k)" for a :: u8
  proof -
    have "1 + (7 - k) = 8 - k" using x(2) by linarith
    then show ?thesis using bit_imp_le_length [of a 8] by (cases "k = 0") (auto simp: bit_drop_bit_eq)
  qed
  moreover have "bit (push_bit 7 a AND 128) (7 - k) \<longleftrightarrow> k = 0 \<and> bit a 0" for a :: u8
  proof (cases "k = 0")
    case True
    have "bit (128 :: u8) 7" by (simp add: bit_iff_odd)
    then show ?thesis using True by (simp add: bit_and_iff bit_push_bit_iff)
  qed (simp add: bit_and_iff bit_push_bit_iff)
  ultimately have "bit ?v (7 - k) \<longleftrightarrow> bit (at b y) (7 - k) \<or> bit (at b (y - 1)) (7 - k) \<or> bit (at b (y + 1)) (7 - k) \<or>
      (if k = 7 then bit (at (b + 1) y) 7 else bit (at b y) (6 - k)) \<or> (if k = 0 then bit (at (b - 1) y) 0 else bit (at b y) (8 - k))"
    unfolding bit_or_iff by auto
  then show ?thesis using run left right here [of y] here [of "y - 1"] here [of "y + 1"] unfolding b_def [symmetric] k_def [symmetric] by auto
qed

text \<open>\<open>drawOutline\<close> keeps size, hotspot and the pixels that were set, and sets those beside them, above and below, in the colour of the
  outline. Right of the last pixel the unused bits of a row count as pixels.\<close>

theorem drawOutline_exact:
  assumes wf: "wf_cursor c"
  shows "\<exists>c'. sc_drawOutline junk bytes pix c = Some c' \<and> wf_cursor c' \<and> same_shape (sc_pb c) (sc_pb c') \<and> sc_hotspot c' = sc_hotspot c \<and>
    (\<forall>x y. (x, y) \<in> rpts (pb_getRect (sc_pb c)) \<longrightarrow>
      pb_at (sc_pb c') (x, y) = (if opaque c (x, y) then pb_at (sc_pb c) (x, y) else pix) \<and>
      opaque c' (x, y) = (\<exists>q \<in> {(x, y), (x, y - 1), (x, y + 1), (x - 1, y), (x + 1, y)}.
        neighbour (sc_mask c) (maskBytesPerRow (pb_width (sc_pb c))) (pb_height (sc_pb c)) q))"
proof -
  let ?pb = "sc_pb c" and ?w = "pb_width (sc_pb c)" and ?h = "pb_height (sc_pb c)" and ?msk = "sc_mask c"
  let ?r = "maskBytesPerRow ?w" and ?R = "pb_getRect (sc_pb c)"
  have w: "0 \<le> ?w" "0 \<le> ?h" "pb_stride ?pb = ?w" "int (length (pb_data ?pb)) = ?w * ?h" "?r * ?h \<le> int (length ?msk)"
    using wf by (simp_all add: wf_cursor_def wf_pb_def maskLen_def)
  define b0 where "b0 = pb_setSize junk ?w ?h"
  have b0: "pb_shows b0 (pb_at b0)" "same_shape ?pb b0" "pb_getRect b0 = ?R" "in_buffer b0 ?R"
    using w by (simp_all add: b0_def pb_setSize_def pb_shows_def wf_pb_def same_shape_def pb_getRect_def in_buffer_iff mkRect_def)
  obtain b1 where b1: "pb_fillRect bytes b0 ?R pix = Some b1" "same_shape b0 b1" "pb_shows b1 (fill_rect (pb_at b0) ?R pix)"
    using fillRect_shows [OF b0(1,4)] by blast
  have R: "px (r_tl ?R) \<le> px (r_br ?R)" "py (r_tl ?R) \<le> py (r_br ?R)" "rect_width ?R = ?w" "rect_height ?R = ?h" "px (r_tl ?R) = 0" "py (r_tl ?R) = 0"
    using w(1,2) by (simp_all add: pb_getRect_def mkRect_def rect_width_def rect_height_def)
  obtain b2 where b2: "pb_maskRect b1 ?R (pb_data ?pb) ?msk = Some b2" "same_shape b1 b2" "wf_pb b2"
      "\<forall>p \<in> rpts (pb_getRect b1). pb_at b2 p = masked ?R ?msk (\<lambda>(cx, cy). pb_data ?pb ! nat (cy * ?w + cx)) (fill_rect (pb_at b0) ?R pix) p"
    using maskRect_exact [OF b1(3) R(1,2), of ?msk "pb_data ?pb"] w(4,5) unfolding R(3,4) by (auto simp: maskBytesPerRow_def mult.commute)
  have rect: "pb_getRect b1 = ?R" "same_shape ?pb b2" using b0(2) b1(2) b2(2) by (simp_all add: pb_getRect_def same_shape_def)
  define new where "new = (\<lambda>(b, y). the (outline_byte ?msk ?r ?h (b, y)))"
  have byte: "\<exists>v. outline_byte ?msk ?r ?h (b, y) = Some v" if "0 \<le> b" "b < ?r" "0 \<le> y" "y < ?h" for b y
    using outline_mask_bit [OF w(5), of "8 * b" y] that by auto
  have "outline_mask ?msk ?r ?h = Some (map new (grid ?r ?h))"
    unfolding outline_mask_def by (rule those_map) (use byte in \<open>fastforce simp: set_grid new_def\<close>)
  then have run: "sc_drawOutline junk bytes pix c = Some (c\<lparr>sc_pb := b2, sc_mask := map new (grid ?r ?h)\<rparr>)"
    using b1(1) b2(1) by (simp add: sc_drawOutline_def Let_def b0_def)
  let ?c = "c\<lparr>sc_pb := b2, sc_mask := map new (grid ?r ?h)\<rparr>"
  have r0: "0 \<le> ?r" using w(1) by (simp add: maskBytesPerRow_def)
  have sizes: "pb_width b2 = ?w" "pb_height b2 = ?h" "pb_stride b2 = ?w" using rect(2) w(3) by (simp_all add: same_shape_def)
  have len: "int (length (map new (grid ?r ?h))) = ?r * ?h" using r0 w(2) by (simp add: length_grid)
  then have wf': "wf_cursor ?c" using wf b2(3) by (simp add: wf_cursor_def maskLen_def sizes)
  have pix: "pb_at b2 (x, y) = (if opaque c (x, y) then pb_at ?pb (x, y) else pix)"
    and bits: "opaque ?c (x, y) \<longleftrightarrow> (\<exists>q \<in> {(x, y), (x, y - 1), (x, y + 1), (x - 1, y), (x + 1, y)}. neighbour ?msk ?r ?h q)"
    if p: "(x, y) \<in> rpts ?R" for x y
  proof -
    have xy: "0 \<le> x" "x < ?w" "0 \<le> y" "y < ?h" using p by (simp_all add: pb_getRect_def)
    show "pb_at b2 (x, y) = (if opaque c (x, y) then pb_at ?pb (x, y) else pix)"
    proof -
      have "fill_rect (pb_at b0) ?R pix (x, y) = pix" using p by (simp add: fill_rect_def rpts_def rect_contains_def)
      then have "pb_at b2 (x, y) = (if mask_bit ?msk ?r x y then pb_data ?pb ! nat (y * ?w + x) else pix)"
        using b2(4) p rect(1) R(3,5,6) by (simp add: masked_def maskBytesPerRow_def)
      then show ?thesis using p by (simp add: opaque_def pb_at_def data_at_def w(3) add.commute)
    qed
    have x8: "0 \<le> x div 8" "x div 8 < ?r" "x < 8 * ?r" using xy(1,2) by (simp_all add: maskBytesPerRow_def)
    obtain v where v: "outline_byte ?msk ?r ?h (x div 8, y) = Some v"
        "bit v (7 - nat (x mod 8)) \<longleftrightarrow> (\<exists>q \<in> {(x, y), (x, y - 1), (x, y + 1), (x - 1, y), (x + 1, y)}. neighbour ?msk ?r ?h q)"
      using outline_mask_bit [OF w(5) xy(1) x8(3) xy(3,4)] by blast
    have "nat (y * ?r + x div 8) < length (grid ?r ?h)"
      using row_index [OF x8(1,2) xy(3,4)] len by (simp add: add.commute)
    then have "map new (grid ?r ?h) ! nat (y * ?r + x div 8) = v" using nth_grid [OF x8(1,2) xy(3,4)] v(1) by (simp add: new_def)
    then show "opaque ?c (x, y) \<longleftrightarrow> (\<exists>q \<in> {(x, y), (x, y - 1), (x, y + 1), (x - 1, y), (x + 1, y)}. neighbour ?msk ?r ?h q)"
      using v(2) p by (simp add: opaque_def mask_bit_def sizes pb_getRect_def)
  qed
  show ?thesis
    by (intro exI [of _ ?c] conjI allI impI run wf') (simp_all add: rect(2) pix bits)
qed

end
