(* ===== verification/Rfb_VNCServer.thy ===== *)
theory Rfb_VNCServer
  imports Rfb_ServeUpdate Rfb_Cursor
begin

text \<open>
  The server of all connections, \<open>common/rfb/VNCServerST.cxx\<close>: the framebuffer and its tracker, the clients, the cursor,
  the video area and the timeouts.
\<close>

subsection \<open>The server\<close>

text \<open>A socket is a number, which is also the \<open>vs_id\<close> of the client on it. The part of the state the input handlers of the
  clients use is \<open>Shared\<close>.\<close>

record 'p VNCServerST =
  vn_pb :: "'p PixelBuffer option"
  comparer :: "'p ComparingUpdateTracker option"
  clients :: "VNCSConnectionST list"
  closingSockets :: "nat list"
  vn_shared :: Shared
  vn_name :: "u8 list"
  desktopStarted :: bool
  cursorPos :: Point
  cursor :: "'p ServerCursor"
  renderedCursorTL :: Point
  renderedCursor :: "'p PixelBuffer"
  renderedCursorInvalid :: bool
  lastDisconnectTime :: int
  lastConnectionTime :: int
  disableclients :: bool
  m_videoSelectionEnabled :: bool
  m_videoRect :: Rect
  m_defaultVideoRect :: Rect

definition newVNCServerST :: "u8 list \<Rightarrow> int \<Rightarrow> 'p VNCServerST" where
  "newVNCServerST name now = \<lparr>vn_pb = None, comparer = None, clients = [], closingSockets = [],
     vn_shared = \<lparr>pointerClient = None, lastUserInputTime = now, desktop_calls = []\<rparr>, vn_name = name, desktopStarted = False,
     cursorPos = \<lparr>px = 0, py = 0\<rparr>, cursor = \<lparr>sc_pb = empty_buffer, sc_mask = [], sc_hotspot = \<lparr>px = 0, py = 0\<rparr>\<rparr>,
     renderedCursorTL = \<lparr>px = 0, py = 0\<rparr>, renderedCursor = empty_buffer, renderedCursorInvalid = False,
     lastDisconnectTime = now, lastConnectionTime = 0, disableclients = False, m_videoSelectionEnabled = False,
     m_videoRect = rect_clear, m_defaultVideoRect = rect_clear\<rparr>"

text \<open>What the operations take from outside: the contents of fresh memory, \<open>grabRegion\<close> of the desktop's framebuffer, the parameter
  \<open>CompareFB\<close> and the time. And of every client, how its \<open>image_getter\<close> translates pixels, with the rest of what
  \<open>VEnv\<close> holds, for the three pixel sizes.\<close>

record 'p ServerEnv =
  junk :: "nat \<Rightarrow> 'p"
  grabRegion :: "region \<Rightarrow> 'p PixelBuffer \<Rightarrow> 'p PixelBuffer"
  compareFB :: bool
  se_now :: int

record ('p, 'q) View =
  vw_env :: "'q VEnv"
  vw_translate :: "'p \<Rightarrow> 'q"

record 'p Views =
  view8 :: "nat \<Rightarrow> ('p, 8 word) View"
  view16 :: "nat \<Rightarrow> ('p, 16 word) View"
  view32 :: "nat \<Rightarrow> ('p, 32 word) View"

definition client_env :: "'p ServerEnv \<Rightarrow> 'p VNCServerST \<Rightarrow> 'p PixelBuffer \<Rightarrow> ('p, 'q) View \<Rightarrow> 'q VEnv" where
  "client_env E vn fb w = (vw_env w)\<lparr>
     ve_pb := pb_getRect fb,
     ve_image := (\<lambda>p. vw_translate w (pb_at fb p)),
     ve_now := se_now E,
     ve_cursorPos := cursorPos vn,
     ve_renderedRect := sc_getRect (renderedCursor vn) (renderedCursorTL vn),
     ve_renderedImage := (\<lambda>(x, y). vw_translate w (pb_at (renderedCursor vn) (x - px (renderedCursorTL vn), y - py (renderedCursorTL vn))))\<rparr>"

definition on_client :: "nat \<Rightarrow> (VNCSConnectionST, 'b) act \<Rightarrow> ('p VNCServerST, 'b) act" where
  "on_client k m = (\<lambda>vn. case m (clients vn ! k) of (r, c) \<Rightarrow> (r, vn\<lparr>clients := (clients vn)[k := c]\<rparr>))"

text \<open>\<open>close\<close> of a client notes the time if it was authenticated.\<close>

definition vn_close :: "int \<Rightarrow> conn_error option \<Rightarrow> nat \<Rightarrow> 'p VNCServerST \<Rightarrow> 'p VNCServerST" where
  "vn_close now reason k vn =
     (let c = clients vn ! k
      in vn\<lparr>clients := (clients vn)[k := vs_close reason c],
            lastDisconnectTime := (if authenticated c then now else lastDisconnectTime vn)\<rparr>)"

text \<open>An \<open>rdr::Exception\<close> closes the client; what is not one goes on to the caller.\<close>

definition vn_or_close :: "int \<Rightarrow> nat \<Rightarrow> ('p VNCServerST, unit) act \<Rightarrow> ('p VNCServerST, unit) act" where
  "vn_or_close now k m = (\<lambda>vn. case m vn of
     (Inl e, vn) \<Rightarrow> if rdr_exception e then (Inr (), vn_close now (Some e) k vn) else (Inl e, vn)
   | (Inr u, vn) \<Rightarrow> (Inr u, vn))"

text \<open>A call to every client.\<close>

definition every_client :: "(nat \<Rightarrow> ('p VNCServerST, unit) act) \<Rightarrow> ('p VNCServerST, unit) act" where
  "every_client m = getting clients (\<lambda>cs. seqA (map m [0..<length cs]))"

subsection \<open>The tracker\<close>

definition on_comparer :: "(SimpleUpdateTracker \<Rightarrow> SimpleUpdateTracker option) \<Rightarrow> 'p VNCServerST \<Rightarrow> 'p VNCServerST option" where
  "on_comparer f vn =
     (case comparer vn of
        None \<Rightarrow> Some vn
      | Some ct \<Rightarrow> do { t \<leftarrow> f (ct_sut ct); Some (vn\<lparr>comparer := Some (ct\<lparr>ct_sut := t\<rparr>)\<rparr>) })"

definition vn_add_changed :: "region \<Rightarrow> 'p VNCServerST \<Rightarrow> 'p VNCServerST option" where
  "vn_add_changed rgn = on_comparer (\<lambda>t. add_changed t rgn)"

definition vn_add_copied :: "region \<Rightarrow> Point \<Rightarrow> 'p VNCServerST \<Rightarrow> 'p VNCServerST option" where
  "vn_add_copied dest delta = on_comparer (\<lambda>t. add_copied t dest delta)"

definition vn_set_video_area :: "Rect \<Rightarrow> 'p VNCServerST \<Rightarrow> 'p VNCServerST option" where
  "vn_set_video_area r = on_comparer (\<lambda>t. set_video_area t r)"

definition applyVideoRectangle :: "'p VNCServerST \<Rightarrow> 'p VNCServerST option" where
  "applyVideoRectangle vn =
     (if vn_pb vn = None then Some vn
      else if m_videoSelectionEnabled vn \<and> \<not> rect_is_empty (m_videoRect vn) then vn_set_video_area (m_videoRect vn) vn
      else vn_set_video_area (m_defaultVideoRect vn) vn)"

definition enableVideoSelection :: "bool \<Rightarrow> 'p VNCServerST \<Rightarrow> 'p VNCServerST option" where
  "enableVideoSelection enable vn = applyVideoRectangle (vn\<lparr>m_videoSelectionEnabled := enable\<rparr>)"

definition setVideoRectangle :: "Rect \<Rightarrow> 'p VNCServerST \<Rightarrow> 'p VNCServerST option" where
  "setVideoRectangle r vn = applyVideoRectangle (vn\<lparr>m_videoRect := r\<rparr>)"

definition setDefaultVideoRectangle :: "Rect \<Rightarrow> 'p VNCServerST \<Rightarrow> 'p VNCServerST option" where
  "setDefaultVideoRectangle r vn = applyVideoRectangle (vn\<lparr>m_defaultVideoRect := r\<rparr>)"

subsection \<open>Checking for an update\<close>

definition cursorTL :: "'p VNCServerST \<Rightarrow> Point" where
  "cursorTL vn = point_subtract (cursorPos vn) (sc_hotspot (cursor vn))"

definition vn_needRenderedCursor :: "int \<Rightarrow> 'p VNCServerST \<Rightarrow> bool" where
  "vn_needRenderedCursor now vn \<longleftrightarrow> list_ex (needs_cursor (cursorPos vn) now) (clients vn)"

text \<open>Where the rendered cursor has to be drawn anew, if at all, and the region to check with it.\<close>

definition place_cursor :: "'p ServerEnv \<Rightarrow> 'p PixelBuffer \<Rightarrow> region \<Rightarrow> 'p VNCServerST \<Rightarrow> (bool \<times> region \<times> 'p VNCServerST) option" where
  "place_cursor E fb toCheck vn =
     (if \<not> vn_needRenderedCursor (se_now E) vn then Some (False, toCheck, vn)
      else
        let r = rect_intersect (sc_getRect (sc_pb (cursor vn)) (cursorTL vn)) (pb_getRect fb)
        in do {
          c \<leftarrow> Region_of_rect r;
          x \<leftarrow> region_intersect toCheck c;
          (if \<not> renderedCursorInvalid vn \<and> region_is_empty x then Some (False, toCheck, vn)
           else do {
             toCheck \<leftarrow> assign_union toCheck c;
             Some (True, toCheck, vn\<lparr>renderedCursorTL := r_tl r, renderedCursor := pb_setSize (junk E) (Rfb_Rect.rect_width r) (Rfb_Rect.rect_height r)\<rparr>) }) })"

definition render_cursor :: "'p PixelBuffer \<Rightarrow> 'p VNCServerST \<Rightarrow> 'p VNCServerST option" where
  "render_cursor fb vn =
     (let rc = renderedCursor vn; c = cursor vn
      in do {
        data \<leftarrow> pb_getImage fb (pb_data rc) (sc_getRect rc (renderedCursorTL vn)) 0;
        rc \<leftarrow> pb_maskRect (rc\<lparr>pb_data := data\<rparr>) (sc_getRect (sc_pb c) (point_subtract (cursorTL vn) (renderedCursorTL vn)))
                (pb_data (sc_pb c)) (sc_mask c);
        Some (vn\<lparr>renderedCursor := rc, renderedCursorInvalid := False\<rparr>) })"

definition tell_client :: "UpdateInfo \<Rightarrow> VNCSConnectionST \<Rightarrow> VNCSConnectionST option" where
  "tell_client ui c = do {
     t \<leftarrow> add_copied (vs_updates c) (ui_copied ui) (ui_copy_delta ui);
     t \<leftarrow> add_changed t (ui_changed ui);
     t \<leftarrow> set_video_area t (ui_video_area ui);
     Some (c\<lparr>vs_updates := t\<rparr>) }"

fun tell_clients :: "UpdateInfo \<Rightarrow> VNCSConnectionST list \<Rightarrow> VNCSConnectionST list option" where
  "tell_clients ui [] = Some []"
| "tell_clients ui (c # cs) = do { c \<leftarrow> tell_client ui c; cs \<leftarrow> tell_clients ui cs; Some (c # cs) }"

definition compare_screen :: "'p ServerEnv \<Rightarrow> 'p PixelBuffer \<Rightarrow> region \<Rightarrow> 'p ComparingUpdateTracker \<Rightarrow> UpdateInfo
    \<Rightarrow> ('p ComparingUpdateTracker \<times> UpdateInfo) option" where
  "compare_screen E fb screen ct ui =
     (if compareFB E
      then do {
        ct \<leftarrow> compare (junk E) fb ct;
        (t, ui) \<leftarrow> getUpdateInfo (ct_sut ct) screen;
        Some (ct\<lparr>ct_sut := t\<rparr>, ui) }
      else Some (ct, ui))"

definition pass_on :: "'p ServerEnv \<Rightarrow> 'p VNCServerST \<Rightarrow> 'p PixelBuffer \<Rightarrow> region \<Rightarrow> 'p ComparingUpdateTracker \<Rightarrow> UpdateInfo
    \<Rightarrow> 'p VNCServerST option" where
  "pass_on E vn fb screen ct ui = do {
     toCheck \<leftarrow> region_union (ui_changed ui) (ui_copied ui);
     video \<leftarrow> Region_of_rect (ui_video_area ui);
     toCheck \<leftarrow> region_union toCheck video;
     (draw, toCheck, vn) \<leftarrow> place_cursor E fb toCheck vn;
     let fb = grabRegion E toCheck fb;
     (ct, ui) \<leftarrow> compare_screen E fb screen ct ui;
     vn \<leftarrow> (if draw then render_cursor fb vn else Some vn);
     cs \<leftarrow> tell_clients ui (clients vn);
     Some (vn\<lparr>vn_pb := Some fb, comparer := Some (ct\<lparr>ct_sut := sut_clear (ct_sut ct)\<rparr>), clients := cs\<rparr>) }"

definition checkUpdate :: "'p ServerEnv \<Rightarrow> 'p VNCServerST \<Rightarrow> 'p VNCServerST option" where
  "checkUpdate E vn = do {
     fb \<leftarrow> vn_pb vn;
     ct \<leftarrow> comparer vn;
     screen \<leftarrow> Region_of_rect (pb_getRect fb);
     (t, ui) \<leftarrow> getUpdateInfo (ct_sut ct) screen;
     (if ui_is_empty ui \<and> \<not> (vn_needRenderedCursor (se_now E) vn \<and> renderedCursorInvalid vn)
      then Some (vn\<lparr>comparer := Some (ct\<lparr>ct_sut := t\<rparr>)\<rparr>)
      else pass_on E vn fb screen (ct\<lparr>ct_sut := t\<rparr>) ui) }"

subsection \<open>Updates of the clients\<close>

definition vn_checkUpdate :: "'p ServerEnv \<Rightarrow> ('p VNCServerST, unit) act" where
  "vn_checkUpdate E = (\<lambda>vn. case checkUpdate E vn of None \<Rightarrow> (Inl BadAlloc, vn) | Some vn \<Rightarrow> (Inr (), vn))"

definition finish_client :: "'p ServerEnv \<Rightarrow> 'p Views \<Rightarrow> 'p VNCServerST \<Rightarrow> 'p PixelBuffer \<Rightarrow> (VNCSConnectionST, unit) act" where
  "finish_client E V vn fb = getting id (\<lambda>s.
     let b = bpp (cp_pf (vs_cp s))
     in if b = 8 then vs_finishUpdate (client_env E vn fb (view8 V (vs_id s)))
        else if b = 16 then vs_finishUpdate (client_env E vn fb (view16 V (vs_id s)))
        else vs_finishUpdate (client_env E vn fb (view32 V (vs_id s))))"

definition vn_writeUpdate :: "'p ServerEnv \<Rightarrow> 'p Views \<Rightarrow> nat \<Rightarrow> ('p VNCServerST, unit) act" where
  "vn_writeUpdate E V k =
     bindA (on_client k vs_beginUpdate) (\<lambda>go.
       if go
       then bindA (vn_checkUpdate E) (\<lambda>_. getting id (\<lambda>vn.
              case vn_pb vn of Some fb \<Rightarrow> on_client k (finish_client E V vn fb) | None \<Rightarrow> throw (NoReturn ''null pointer'')))
       else ret ())"

definition vn_updateOrClose :: "'p ServerEnv \<Rightarrow> 'p Views \<Rightarrow> nat \<Rightarrow> ('p VNCServerST, unit) act" where
  "vn_updateOrClose E V k = vn_or_close (se_now E) k (vn_writeUpdate E V k)"

definition clientsReadyForUpdate :: "'p VNCServerST \<Rightarrow> bool" where
  "clientsReadyForUpdate vn \<longleftrightarrow> list_ex (\<lambda>c. \<not> region_is_empty (requested c)) (clients vn)"

definition tryUpdate :: "'p ServerEnv \<Rightarrow> 'p Views \<Rightarrow> ('p VNCServerST, unit) act" where
  "tryUpdate E V = every_client (vn_updateOrClose E V)"

definition vn_tell_comparer :: "region option \<Rightarrow> ('p VNCServerST, unit) act" where
  "vn_tell_comparer rgn =
     (case rgn of
        None \<Rightarrow> ret ()
      | Some rgn \<Rightarrow> (\<lambda>vn.
          if comparer vn = None then (Inl (NoReturn ''null pointer''), vn)
          else case vn_add_changed rgn vn of None \<Rightarrow> (Inl BadAlloc, vn) | Some vn \<Rightarrow> (Inr (), vn)))"

text \<open>The request of a client: what is not incremental is a change for the server's tracker too.\<close>

definition vn_request :: "'q VEnv \<Rightarrow> nat \<Rightarrow> Rect \<Rightarrow> bool \<Rightarrow> ('p VNCServerST, unit) act" where
  "vn_request env k r incremental =
     bindA (on_client k (vs_framebufferUpdateRequest env r incremental)) (\<lambda>rgn. vn_tell_comparer rgn)"

subsection \<open>Sockets\<close>

text \<open>The position of the client on a socket.\<close>

definition client_on :: "nat \<Rightarrow> 'p VNCServerST \<Rightarrow> nat option" where
  "client_on sock vn = find (\<lambda>k. vs_id (clients vn ! k) = sock) [0..<length (clients vn)]"

text \<open>\<open>addSocket\<close>: \<open>blackmarked\<close> is what the black list says of the peer; the new client goes to the front.\<close>

definition addSocket :: "int \<Rightarrow> bool \<Rightarrow> nat \<Rightarrow> ConnParams \<Rightarrow> 'p VNCServerST \<Rightarrow> 'p VNCServerST" where
  "addSocket now blackmarked sock cp vn =
     (if blackmarked then vn\<lparr>closingSockets := closingSockets vn @ [sock]\<rparr>
      else
        let vn = (if clients vn = [] then vn\<lparr>lastConnectionTime := now\<rparr> else vn)
        in vn\<lparr>clients := newVNCSConnectionST sock cp now # clients vn\<rparr>)"

definition authClientCount :: "'p VNCServerST \<Rightarrow> nat" where
  "authClientCount vn = length (filter authenticated (clients vn))"

text \<open>\<open>removeSocket\<close>: the destructor of the client releases its keys; the desktop stops with the last authenticated client.\<close>

definition removeSocket :: "nat \<Rightarrow> 'p VNCServerST \<Rightarrow> 'p VNCServerST option" where
  "removeSocket sock vn =
     (case client_on sock vn of
        Some k \<Rightarrow>
          let vn = vn\<lparr>vn_shared := vs_release (clients vn ! k, vn_shared vn),
                      clients := take k (clients vn) @ drop (Suc k) (clients vn)\<rparr>
          in if authClientCount vn = 0 \<and> desktopStarted vn
             then setVideoRectangle (mkRect 0 0 0 0) (vn\<lparr>desktopStarted := False\<rparr>)
             else Some vn
      | None \<Rightarrow> Some (vn\<lparr>closingSockets := filter (\<lambda>s. s \<noteq> sock) (closingSockets vn)\<rparr>))"

definition getSockets :: "'p VNCServerST \<Rightarrow> nat list" where
  "getSockets vn = map vs_id (clients vn) @ closingSockets vn"

definition closeClients :: "int \<Rightarrow> conn_error option \<Rightarrow> nat option \<Rightarrow> 'p VNCServerST \<Rightarrow> 'p VNCServerST" where
  "closeClients now reason except vn =
     fold (\<lambda>k vn. if Some (vs_id (clients vn ! k)) = except then vn else vn_close now reason k vn) [0..<length (clients vn)] vn"

text \<open>\<open>start\<close> is the desktop's \<open>start\<close>, which is to call \<open>setPixelBuffer\<close>.\<close>

definition startDesktop :: "('p VNCServerST \<Rightarrow> 'p VNCServerST) \<Rightarrow> ('p VNCServerST, unit) act" where
  "startDesktop start = getting desktopStarted (\<lambda>st.
     if st then ret ()
     else bindA (modify (\<lambda>vn. (start vn)\<lparr>desktopStarted := True\<rparr>)) (\<lambda>_. getting vn_pb (\<lambda>pb.
            if pb = None then throw (GeneralError ''SDesktop::start() did not set a valid PixelBuffer'') else ret ())))"

subsection \<open>Timeouts\<close>

definition soonestTimeout :: "int \<Rightarrow> int \<Rightarrow> int" where
  "soonestTimeout tmo newTimeout = (if newTimeout \<noteq> 0 \<and> (tmo = 0 \<or> newTimeout < tmo) then newTimeout else tmo)"

text \<open>A limit on the time since \<open>since\<close>: the time left, or \<open>None\<close> if it is up, and the time to count from.\<close>

definition timeLimit :: "int \<Rightarrow> int \<Rightarrow> int \<Rightarrow> int option \<times> int" where
  "timeLimit limit now since =
     (let since = (if now < since then now else since);
          timeLeft = since + limit - now;
          (timeLeft, since) = (if timeLeft < - 60 then (limit, now) else (timeLeft, since))
      in (if timeLeft \<le> 0 then None else Some timeLeft, since))"

record TimeConfig =
  idleTimeout :: int
  maxDisconnectionTime :: int
  maxConnectionTime :: int
  maxIdleTime :: int

text \<open>\<open>checkTimeouts\<close>: \<open>None\<close> is \<open>exit\<close>. The clients that are idle for too long are closed first.\<close>

fun idle_clients :: "int \<Rightarrow> int \<Rightarrow> VNCSConnectionST list \<Rightarrow> int \<Rightarrow> int \<times> VNCSConnectionST list" where
  "idle_clients limit now [] tmo = (tmo, [])"
| "idle_clients limit now (c # cs) tmo =
     (let (t, c) = checkIdleTimeout limit now c; (tmo, cs) = idle_clients limit now cs (soonestTimeout tmo t) in (tmo, c # cs))"

text \<open>The product is an \<open>int\<close>.\<close>

definition in_millis :: "int \<Rightarrow> int" where
  "in_millis t = sint (of_int (t * 1000) :: 32 word)"

definition limited :: "bool \<Rightarrow> int \<Rightarrow> int \<Rightarrow> int \<Rightarrow> int \<Rightarrow> (int \<times> int) option" where
  "limited applies limit now since tmo =
     (if \<not> applies then Some (tmo, since)
      else case timeLimit limit now since of (None, since) \<Rightarrow> None | (Some t, since) \<Rightarrow> Some (soonestTimeout tmo (in_millis t), since))"

definition checkTimeouts :: "TimeConfig \<Rightarrow> int \<Rightarrow> 'p VNCServerST \<Rightarrow> (int \<times> 'p VNCServerST) option" where
  "checkTimeouts cfg now vn =
     (let (tmo, cs) = idle_clients (idleTimeout cfg) now (clients vn) 0;
          closed = list_ex (\<lambda>(c, c'). authenticated c \<and> \<not> authenticated c') (zip (clients vn) cs);
          vn = vn\<lparr>clients := cs, lastDisconnectTime := (if closed then now else lastDisconnectTime vn)\<rparr>
      in do {
        (tmo, since) \<leftarrow> limited (maxDisconnectionTime cfg \<noteq> 0 \<and> clients vn = []) (maxDisconnectionTime cfg) now (lastDisconnectTime vn) tmo;
        let vn = vn\<lparr>lastDisconnectTime := since\<rparr>;
        (tmo, since) \<leftarrow> limited (maxConnectionTime cfg \<noteq> 0 \<and> lastConnectionTime vn \<noteq> 0 \<and> clients vn \<noteq> [])
                             (maxConnectionTime cfg) now (lastConnectionTime vn) tmo;
        let vn = vn\<lparr>lastConnectionTime := since\<rparr>;
        (tmo, since) \<leftarrow> limited (maxIdleTime cfg \<noteq> 0) (maxIdleTime cfg) now (lastUserInputTime (vn_shared vn)) tmo;
        Some (tmo, vn\<lparr>vn_shared := (vn_shared vn)\<lparr>lastUserInputTime := since\<rparr>\<rparr>) })"

subsection \<open>What the desktop changes\<close>

text \<open>\<open>setPixelBuffer\<close>: every client that has to tell its viewer of the new size writes an update, and one that cannot is closed.\<close>

definition resize_client :: "'p ServerEnv \<Rightarrow> 'p Views \<Rightarrow> 'p VNCServerST \<Rightarrow> 'p PixelBuffer \<Rightarrow> (VNCSConnectionST, bool) act" where
  "resize_client E V vn fb = getting id (\<lambda>s.
     let b = bpp (cp_pf (vs_cp s))
     in if b = 8 then vs_pixelBufferChange (client_env E vn fb (view8 V (vs_id s)))
        else if b = 16 then vs_pixelBufferChange (client_env E vn fb (view16 V (vs_id s)))
        else vs_pixelBufferChange (client_env E vn fb (view32 V (vs_id s))))"

definition pixelBufferChange :: "'p ServerEnv \<Rightarrow> 'p Views \<Rightarrow> nat \<Rightarrow> ('p VNCServerST, unit) act" where
  "pixelBufferChange E V k = getting id (\<lambda>vn.
     case vn_pb vn of
       None \<Rightarrow> throw (NoReturn ''null pointer'')
     | Some fb \<Rightarrow>
         let auth = authenticated (clients vn ! k)
         in bindA (on_client k (resize_client E V vn fb)) (\<lambda>fake.
            bindA (modify (\<lambda>vn. if auth \<and> \<not> authenticated (clients vn ! k) then vn\<lparr>lastDisconnectTime := se_now E\<rparr> else vn)) (\<lambda>_.
            if fake then vn_writeUpdate E V k else ret ())))"

definition setPixelBuffer :: "'p ServerEnv \<Rightarrow> 'p Views \<Rightarrow> 'p PixelBuffer option \<Rightarrow> ('p VNCServerST, unit) act" where
  "setPixelBuffer E V pb = (\<lambda>vn.
     let vn = vn\<lparr>vn_pb := pb, comparer := None\<rparr>
     in case pb of
          None \<Rightarrow> if desktopStarted vn
                   then (Inl (GeneralError ''setPixelBuffer: null PixelBuffer when desktopStarted?''), vn) else (Inr (), vn)
        | Some fb \<Rightarrow>
            (case do { ct \<leftarrow> newComparingUpdateTracker fb; applyVideoRectangle (vn\<lparr>comparer := Some ct\<rparr>) } of
               None \<Rightarrow> (Inl BadAlloc, vn)
             | Some vn \<Rightarrow> every_client (\<lambda>k. vn_or_close (se_now E) k (pixelBufferChange E V k)) vn))"

definition all_clients :: "int \<Rightarrow> (nat \<Rightarrow> ('p VNCServerST, unit) act) \<Rightarrow> ('p VNCServerST, unit) act" where
  "all_clients now m = every_client (\<lambda>k. vn_or_close now k (m k))"

definition vn_bell :: "int \<Rightarrow> ('p VNCServerST, unit) act" where
  "vn_bell now = all_clients now (\<lambda>k. on_client k vs_bell)"

definition vn_serverCutText :: "int \<Rightarrow> VConfig \<Rightarrow> u8 list \<Rightarrow> ('p VNCServerST, unit) act" where
  "vn_serverCutText now cfg str = all_clients now (\<lambda>k. on_client k (vs_serverCutText cfg str))"

definition vn_setName :: "int \<Rightarrow> u8 list \<Rightarrow> ('p VNCServerST, unit) act" where
  "vn_setName now name = seqA [modify (\<lambda>vn. vn\<lparr>vn_name := name\<rparr>), all_clients now (\<lambda>k. on_client k (vs_setDesktopName name))]"

text \<open>\<open>setCursor\<close>, with the cursor's pixels and mask; cropping cannot fail when these are as long as the size says.\<close>

definition vn_setCursor :: "'p ServerEnv \<Rightarrow> 'p Views \<Rightarrow> int \<Rightarrow> int \<Rightarrow> Point \<Rightarrow> 'p list \<Rightarrow> u8 list \<Rightarrow> ('p VNCServerST, unit) act" where
  "vn_setCursor E V width height hotspot data msk =
     (let pb = \<lparr>pb_width = width, pb_height = height, pb_stride = width, pb_data = take (nat (width * height)) data\<rparr>
      in case sc_crop (junk E) \<lparr>sc_pb = pb, sc_mask = take (nat (maskLen pb)) msk, sc_hotspot = hotspot\<rparr> of
           None \<Rightarrow> throw (NoReturn ''read past the end of a buffer'')
         | Some c \<Rightarrow> seqA [
             modify (\<lambda>vn. vn\<lparr>cursor := c, renderedCursorInvalid := True\<rparr>),
             every_client (\<lambda>k. seqA [
               modify (\<lambda>vn. vn\<lparr>clients := (clients vn)[k := vs_renderedCursorChange (cursorPos vn) (se_now E) (clients vn ! k)]\<rparr>),
               vn_or_close (se_now E) k (bindA (on_client k vs_setCursor) (\<lambda>fake. if fake then vn_writeUpdate E V k else ret ()))])])"

definition vn_setCursorPos :: "int \<Rightarrow> Point \<Rightarrow> 'p VNCServerST \<Rightarrow> 'p VNCServerST" where
  "vn_setCursorPos now pos vn =
     (if point_equals (cursorPos vn) pos then vn
      else vn\<lparr>cursorPos := pos, renderedCursorInvalid := True, clients := map (vs_renderedCursorChange pos now) (clients vn)\<rparr>)"

subsection \<open>The list of connections\<close>

definition recolour_client :: "'p ServerEnv \<Rightarrow> 'p Views \<Rightarrow> int \<Rightarrow> int \<Rightarrow> 'p VNCServerST \<Rightarrow> 'p PixelBuffer \<Rightarrow> (VNCSConnectionST, unit) act" where
  "recolour_client E V firstColour nColours vn fb = getting id (\<lambda>s.
     let b = bpp (cp_pf (vs_cp s))
     in if b = 8 then vs_setColourMapEntries (client_env E vn fb (view8 V (vs_id s))) firstColour nColours
        else if b = 16 then vs_setColourMapEntries (client_env E vn fb (view16 V (vs_id s))) firstColour nColours
        else vs_setColourMapEntries (client_env E vn fb (view32 V (vs_id s))) firstColour nColours)"

definition vn_setColourMapEntries :: "'p ServerEnv \<Rightarrow> 'p Views \<Rightarrow> int \<Rightarrow> int \<Rightarrow> ('p VNCServerST, unit) act" where
  "vn_setColourMapEntries E V firstColour nColours =
     all_clients (se_now E) (\<lambda>k. getting id (\<lambda>vn.
       case vn_pb vn of
         None \<Rightarrow> if vs_readyForColourMap (clients vn ! k) then throw (NoReturn ''null pointer'') else ret ()
       | Some fb \<Rightarrow> on_client k (recolour_client E V firstColour nColours vn fb)))"

text \<open>\<open>getConnInfo\<close> without the addresses and times; an entry of the list is a client and its status.\<close>

definition getConnInfo :: "'p VNCServerST \<Rightarrow> bool \<times> (nat \<times> int) list" where
  "getConnInfo vn = (disableclients vn, map (\<lambda>c. (vs_id c, getStatus c)) (clients vn))"

definition status_client :: "'p ServerEnv \<Rightarrow> 'p Views \<Rightarrow> int \<Rightarrow> 'p VNCServerST \<Rightarrow> 'p PixelBuffer \<Rightarrow> (VNCSConnectionST, region option) act" where
  "status_client E V status vn fb = getting id (\<lambda>s.
     let b = bpp (cp_pf (vs_cp s))
     in if b = 8 then vs_setStatus (client_env E vn fb (view8 V (vs_id s))) status
        else if b = 16 then vs_setStatus (client_env E vn fb (view16 V (vs_id s))) status
        else vs_setStatus (client_env E vn fb (view32 V (vs_id s))) status)"

definition setConnStatus_entry :: "'p ServerEnv \<Rightarrow> 'p Views \<Rightarrow> nat \<times> int \<Rightarrow> ('p VNCServerST, unit) act" where
  "setConnStatus_entry E V = (\<lambda>(i, status). getting id (\<lambda>vn.
     case client_on i vn of
       None \<Rightarrow> ret ()
     | Some k \<Rightarrow>
         if status = 3 then modify (vn_close (se_now E) None k)
         else case vn_pb vn of
                None \<Rightarrow> throw (NoReturn ''null pointer'')
              | Some fb \<Rightarrow> bindA (on_client k (status_client E V status vn fb)) vn_tell_comparer))"

definition setConnStatus :: "'p ServerEnv \<Rightarrow> 'p Views \<Rightarrow> bool \<times> (nat \<times> int) list \<Rightarrow> ('p VNCServerST, unit) act" where
  "setConnStatus E V = (\<lambda>(disable, l).
     bindA (modify (\<lambda>vn. vn\<lparr>disableclients := disable\<rparr>)) (\<lambda>_.
     getting clients (\<lambda>cs. if l = [] \<or> cs = [] then ret () else seqA (map (setConnStatus_entry E V) l))))"

end
