(* ===== verification/Rfb_AreaTracks.thy ===== *)
theory Rfb_AreaTracks
  imports Rfb_ServeUpdate
begin

text \<open>
  The trackers on the pixels of the screen: every operation keeps the account and stays within the screen.
\<close>

definition tracker_ok :: "SimpleUpdateTracker \<Rightarrow> (int \<times> int) set \<Rightarrow> bool" where
  "tracker_ok t A \<longleftrightarrow> short_rect (video_area t) \<and> rect_is_empty (video_area t) \<and>
     (\<exists>C K. denotes (changed t) C \<and> denotes (copied t) K \<and> C \<subseteq> A \<and> K \<subseteq> A \<and> within A (copy_delta t) K)"

lemma tracker_okE:
  assumes "tracker_ok t A"
  obtains C K where "denotes (changed t) C" "denotes (copied t) K" "C \<subseteq> A" "K \<subseteq> A" "within A (copy_delta t) K"
    "short_rect (video_area t)" "rpts (video_area t) = {}" "C = pts (changed t)" "K = pts (copied t)"
  using assms unfolding tracker_ok_def rpts_empty by (auto simp: denotes_def)

lemma area_tracks_iff:
  assumes "tracker_ok t A"
  shows "area_tracks t A G F \<longleftrightarrow> (\<forall>p \<in> A. p \<notin> pts (changed t) \<longrightarrow> F p = moved (pts (copied t)) (copy_delta t) G p)"
proof -
  obtain C K where ck: "denotes (changed t) C" "denotes (copied t) K" "C \<subseteq> A" "K \<subseteq> A" "within A (copy_delta t) K"
    "short_rect (video_area t)" "rpts (video_area t) = {}" "C = pts (changed t)" "K = pts (copied t)" using assms by (rule tracker_okE)
  show ?thesis
  proof
    assume "area_tracks t A G F"
    then obtain C' K' where "denotes (changed t) C'" "denotes (copied t) K'"
        "\<forall>p \<in> A. p \<notin> C' \<union> rpts (video_area t) \<longrightarrow> F p = moved K' (copy_delta t) G p" unfolding area_tracks_def by blast
    then show "\<forall>p \<in> A. p \<notin> pts (changed t) \<longrightarrow> F p = moved (pts (copied t)) (copy_delta t) G p"
      using ck(7) by (simp add: denotes_def del: split_paired_Ball_Sigma split_paired_All)
  next
    assume "\<forall>p \<in> A. p \<notin> pts (changed t) \<longrightarrow> F p = moved (pts (copied t)) (copy_delta t) G p"
    then show "area_tracks t A G F" using ck by (intro area_tracksI [of _ C K]) simp_all
  qed
qed

lemma area_tracks_cong: "area_tracks t A G F \<Longrightarrow> (\<And>p. p \<in> A \<Longrightarrow> F p = F' p) \<Longrightarrow> area_tracks t A G F'"
  unfolding area_tracks_def by metis

lemma tracker_ok_empty: "tracker_ok (newSimpleUpdateTracker b) A"
  unfolding tracker_ok_def
  by (intro conjI exI [of _ "{}"]) (simp_all add: newSimpleUpdateTracker_def within_def rect_clear_def short_rect_def is_short_def rect_is_empty_def)

text \<open>Adding a change, and a copy within the screen.\<close>

lemma add_changed_area:
  assumes t: "tracker_ok t A" and r: "denotes r D" "D \<subseteq> A"
  shows "\<exists>t'. add_changed t r = Some t' \<and> tracker_ok t' A \<and> copy_enabled t' = copy_enabled t \<and>
    (\<forall>G F F'. area_tracks t A G F \<longrightarrow> (\<forall>p \<in> A. p \<notin> D \<longrightarrow> F' p = F p) \<longrightarrow> area_tracks t' A G F') \<and>
    pts (changed t') = pts (changed t) \<union> D \<and> pts (copied t') = pts (copied t) \<and> copy_delta t' = copy_delta t"
proof -
  obtain C K where ck: "denotes (changed t) C" "denotes (copied t) K" "C \<subseteq> A" "K \<subseteq> A" "within A (copy_delta t) K"
    "short_rect (video_area t)" "rpts (video_area t) = {}" "C = pts (changed t)" "K = pts (copied t)" using t by (rule tracker_okE)
  obtain c where c: "assign_union (changed t) r = Some c" "denotes c (C \<union> D)" using ck(1) r(1) by (rule assign_ops.unionE)
  define t' where "t' = t\<lparr>changed := c\<rparr>"
  have ok: "tracker_ok t' A"
    using ck c(2) r(2) unfolding tracker_ok_def rpts_empty [symmetric]
    by (intro conjI exI [of _ "C \<union> D"] exI [of _ K]) (simp_all add: t'_def)
  have pts: "pts (changed t') = C \<union> D" "pts (copied t') = K" "copy_delta t' = copy_delta t" "copy_enabled t' = copy_enabled t"
    using c(2) ck(9) by (simp_all add: t'_def denotes_def)
  have "area_tracks t' A G F'" if "area_tracks t A G F" "\<forall>p \<in> A. p \<notin> D \<longrightarrow> F' p = F p" for G F F'
    using that unfolding area_tracks_iff [OF t] area_tracks_iff [OF ok] pts ck(8) [symmetric] ck(9) [symmetric] by auto
  moreover have "add_changed t r = Some t'" using c(1) by (simp add: add_changed_def t'_def)
  ultimately show ?thesis using ok pts [unfolded ck(8,9)] by blast
qed

lemma add_copied_fields:
  "add_copied t dest delta = Some t' \<Longrightarrow> video_area t' = video_area t \<and> copy_enabled t' = copy_enabled t"
  by (auto simp: add_copied_def add_changed_def add_copied_separate_def add_copied_chained_def Let_def split: if_splits bind_splits)

lemma add_copied_within:
  assumes ck: "denotes (changed t) C" "denotes (copied t) K" "C \<subseteq> A" "K \<subseteq> A" "within A (copy_delta t) K"
    and d: "denotes dest D" "D \<subseteq> A" "within A delta D" and A: "short_pts A"
  shows "\<exists>t' C' K'. add_copied t dest delta = Some t' \<and> denotes (changed t') C' \<and> denotes (copied t') K' \<and> C' \<subseteq> A \<and> K' \<subseteq> A \<and>
    within A (copy_delta t') K' \<and> C \<union> K \<union> D \<subseteq> C' \<union> K'"
proof (cases "copy_enabled t \<and> D \<noteq> {}")
  case False
  obtain c where c: "assign_union (changed t) dest = Some c" "denotes c (C \<union> D)" using ck(1) d(1) by (rule assign_ops.unionE)
  show ?thesis
  proof (cases "copy_enabled t")
    case True
    then have "add_copied t dest delta = Some t" using False region_is_empty_iff [OF d(1)] by (simp add: add_copied_def)
    then show ?thesis using ck True False by blast
  next
    case False
    then have "add_copied t dest delta = Some (t\<lparr>changed := c\<rparr>)" using c(1) by (simp add: add_copied_def add_changed_def)
    then show ?thesis using c(2) ck d(2) by (intro exI [of _ "t\<lparr>changed := c\<rparr>"] exI [of _ "C \<union> D"] exI [of _ K]) auto
  qed
next
  case True
  define S where "S = shift_pts (- px delta) (- py delta) D"
  have SA: "S \<subseteq> A" using d(3) by (fastforce simp: S_def within_def)
  obtain r where r: "Region_copy dest = Some r" "denotes r D" using Region_copy_denotes [OF d(1)] by blast
  define src where "src = region_translate r (point_negate delta)"
  have src: "denotes src S"
    using region_translate_denotes [OF r(2), of "point_negate delta"] short_pts_subset [OF A SA] by (simp add: src_def S_def point_negate_def)
  obtain ov where ov: "region_intersect src (copied t) = Some ov" "denotes ov (S \<inter> K)" using src ck(2) by (rule new_ops.intersectE)
  have sD: "short_pts D" by (rule short_pts_subset [OF A d(2)])
  have shifted: "shift_pts (px delta) (py delta) X \<subseteq> D" if "X \<subseteq> S" for X
    using that shift_mono [of X S "px delta" "py delta"] by (simp add: S_def shift_back)
  have run: "add_copied t dest delta =
      (if region_is_empty ov then add_copied_separate t dest src delta else add_copied_chained t dest ov delta)"
    using True region_is_empty_iff [OF d(1)] r(1) ov(1) by (simp add: add_copied_def src_def)
  show ?thesis
  proof (cases "S \<inter> K = {}")
    case sep: True
    obtain t' C' K' where t': "add_copied_separate t dest src delta = Some t'" "denotes (changed t') C'" "denotes (copied t') K'"
      and which: "C' = C \<union> D \<and> K' = K \<and> copy_delta t' = copy_delta t \<or>
        C' = C \<union> shift_pts (px delta) (py delta) (S \<inter> C) \<union> K \<and> K' = D \<and> copy_delta t' = delta"
      using add_copied_separate_sets [OF ck(1,2) d(1) sD src S_def] by blast
    have "C' \<subseteq> A \<and> K' \<subseteq> A \<and> within A (copy_delta t') K' \<and> C \<union> K \<union> D \<subseteq> C' \<union> K'" using which ck(3-5) d(2,3) shifted [of "S \<inter> C"] by auto
    then show ?thesis using run sep region_is_empty_iff [OF ov(2)] t' by auto
  next
    case False
    obtain t' where t': "add_copied_chained t dest ov delta = Some t'"
        "denotes (changed t') (C \<union> shift_pts (px delta) (py delta) (S \<inter> K \<inter> C) \<union> (D \<union> K - shift_pts (px delta) (py delta) (S \<inter> K)))"
        "denotes (copied t') (shift_pts (px delta) (py delta) (S \<inter> K))" "copy_delta t' = point_translate (copy_delta t) delta"
      using add_copied_chained_sets [OF ck(1,2) d(1) sD ov(2) S_def] by blast
    have "within A (copy_delta t') (shift_pts (px delta) (py delta) (S \<inter> K))"
      using ck(5) by (fastforce simp: within_def t'(4) point_translate_def diff_diff_eq add.commute)
    moreover have "shift_pts (px delta) (py delta) (S \<inter> K) \<subseteq> A" "shift_pts (px delta) (py delta) (S \<inter> K \<inter> C) \<subseteq> A"
      using shifted [of "S \<inter> K"] shifted [of "S \<inter> K \<inter> C"] d(2) by auto
    moreover have "add_copied t dest delta = Some t'" using run False region_is_empty_iff [OF ov(2)] t'(1) by simp
    moreover have "C \<union> shift_pts (px delta) (py delta) (S \<inter> K \<inter> C) \<union> (D \<union> K - shift_pts (px delta) (py delta) (S \<inter> K)) \<subseteq> A"
      using calculation(3) ck(3,4) d(2) by auto
    moreover have "C \<union> K \<union> D \<subseteq> (C \<union> shift_pts (px delta) (py delta) (S \<inter> K \<inter> C) \<union> (D \<union> K - shift_pts (px delta) (py delta) (S \<inter> K))) \<union>
      shift_pts (px delta) (py delta) (S \<inter> K)" by blast
    ultimately show ?thesis using t'(2,3) by blast
  qed
qed

lemma add_copied_area:
  assumes t: "tracker_ok t A" and d: "denotes dest D" "D \<subseteq> A" "within A delta D" and A: "short_pts A"
  shows "\<exists>t'. add_copied t dest delta = Some t' \<and> tracker_ok t' A \<and> copy_enabled t' = copy_enabled t \<and>
    (\<forall>G F F'. area_tracks t A G F \<longrightarrow> (\<forall>p \<in> A. F' p = moved D delta F p) \<longrightarrow> area_tracks t' A G F') \<and>
    pts (changed t) \<union> pts (copied t) \<union> D \<subseteq> pts (changed t') \<union> pts (copied t')"
proof -
  obtain C K where ck: "denotes (changed t) C" "denotes (copied t) K" "C \<subseteq> A" "K \<subseteq> A" "within A (copy_delta t) K"
    "short_rect (video_area t)" "rpts (video_area t) = {}" "C = pts (changed t)" "K = pts (copied t)" using t by (rule tracker_okE)
  obtain t' C' K' where t': "add_copied t dest delta = Some t'" "denotes (changed t') C'" "denotes (copied t') K'" "C' \<subseteq> A" "K' \<subseteq> A"
      "within A (copy_delta t') K'" "C \<union> K \<union> D \<subseteq> C' \<union> K'" using add_copied_within [OF ck(1-5) d A] by blast
  note fields = add_copied_fields [OF t'(1)]
  have ok: "tracker_ok t' A"
    using t' fields ck(6,7) unfolding tracker_ok_def rpts_empty [symmetric] by (intro conjI exI [of _ C'] exI [of _ K']) simp_all
  have sD: "short_pts D" by (rule short_pts_subset [OF A d(2)])
  have "shift_pts (- px delta) (- py delta) D \<subseteq> A" using d(3) by (fastforce simp: within_def)
  then have sS: "short_pts (shift_pts (- px delta) (- py delta) D)" by (rule short_pts_subset [OF A])
  have "area_tracks t' A G F'" if tr: "area_tracks t A G F" and F': "\<forall>p \<in> A. F' p = moved D delta F p" for G F F'
  proof -
    define H where "H p = (if p \<in> A then F p else G p)" for p
    have "H p = moved K (copy_delta t) G p" if "p \<notin> C" for p
      using tr that ck(4) unfolding area_tracks_iff [OF t] ck(8,9) [symmetric] by (cases p) (auto simp: H_def moved_iff)
    then have "sut_tracks t G H" by (rule sut_tracksI [OF ck(1,2)])
    then have "sut_tracks t' G (moved D delta H)" using add_copied_tracks [OF _ d(1) sD sS] t'(1) by fastforce
    then have eq: "\<And>p. p \<notin> C' \<Longrightarrow> moved D delta H p = moved K' (copy_delta t') G p"
      using t'(2,3) unfolding sut_tracks_def denotes_def by blast
    have "moved D delta H p = F' p" if "p \<in> A" for p
      using F' that d(3) by (cases p) (fastforce simp: moved_iff H_def within_def)
    then have "\<forall>p \<in> A. p \<notin> C' \<longrightarrow> F' p = moved K' (copy_delta t') G p" using eq by metis
    then show ?thesis using t'(2,3) unfolding area_tracks_iff [OF ok] by (simp add: denotes_def)
  qed
  moreover have "pts (changed t') = C'" "pts (copied t') = K'" using t'(2,3) by (simp_all add: denotes_def)
  ultimately show ?thesis using t'(1,7) ok fields unfolding ck(8,9) by blast
qed

text \<open>Switching copies on or off.\<close>

lemma enable_copyrect_area:
  assumes t: "tracker_ok t A"
  shows "\<exists>t'. enable_copyrect t e = Some t' \<and> tracker_ok t' A \<and> (\<forall>G F. area_tracks t A G F \<longrightarrow> area_tracks t' A G F)"
proof -
  obtain C K where ck: "denotes (changed t) C" "denotes (copied t) K" "C \<subseteq> A" "K \<subseteq> A" "within A (copy_delta t) K"
    "short_rect (video_area t)" "rpts (video_area t) = {}" "C = pts (changed t)" "K = pts (copied t)" using t by (rule tracker_okE)
  show ?thesis
  proof (cases "\<not> e \<and> copy_enabled t")
    case False
    define t' where "t' = t\<lparr>copy_enabled := e\<rparr>"
    have "tracker_ok t' A" using t by (simp add: t'_def tracker_ok_def)
    moreover have "area_tracks t A G F \<longrightarrow> area_tracks t' A G F" for G F by (simp add: t'_def area_tracks_def)
    moreover have "enable_copyrect t e = Some t'" using False by (auto simp: enable_copyrect_def t'_def)
    ultimately show ?thesis by blast
  next
    case True
    obtain c where c: "assign_union (changed t) (copied t) = Some c" "denotes c (C \<union> K)" using ck(1,2) by (rule assign_ops.unionE)
    define t' where "t' = t\<lparr>changed := c, copied := region_clear (copied t), copy_enabled := e\<rparr>"
    have k: "denotes (region_clear (copied t)) {}" by (rule denotes_clear) (rule denotes_size [OF ck(2)])
    have ok: "tracker_ok t' A"
      using ck c(2) k unfolding tracker_ok_def rpts_empty [symmetric]
      by (intro conjI exI [of _ "C \<union> K"] exI [of _ "{}"]) (simp_all add: t'_def within_def)
    have pts: "pts (changed t') = C \<union> K" "pts (copied t') = {}" using c(2) k by (simp_all add: t'_def denotes_def)
    have "area_tracks t' A G F" if "area_tracks t A G F" for G F
      using that unfolding area_tracks_iff [OF t] area_tracks_iff [OF ok] pts ck(8,9) [symmetric] by (auto simp: moved_def)
    moreover have "enable_copyrect t e = Some t'" using True c(1) by (simp add: enable_copyrect_def add_changed_def t'_def)
    ultimately show ?thesis using ok by blast
  qed
qed

end
