(* ===== verification/Rfb_ServerCorrect.thy ===== *)
theory Rfb_ServerCorrect
  imports Rfb_VNCServer Rfb_AreaTracks
begin

text \<open>
  \<open>VNCServerST::checkUpdate\<close> keeps every client's account of the screen.
\<close>

subsection \<open>The server and the screen\<close>

text \<open>\<open>grabRegion\<close> brings the pixels of a region up to date with the screen \<open>F\<close>.\<close>

definition grabs :: "'p ServerEnv \<Rightarrow> 'p image \<Rightarrow> bool" where
  "grabs E F \<longleftrightarrow> (\<forall>fb r Q M. denotes r Q \<longrightarrow> pb_shows fb M \<longrightarrow>
     pb_shows (grabRegion E r fb) (\<lambda>p. if p \<in> Q then F p else M p) \<and> same_shape fb (grabRegion E r fb))"

text \<open>The tracker accounts for the difference between \<open>F0\<close>, the screen the clients were told of, and \<open>F\<close>, the screen now; the framebuffer
  shows the screen outside of what was reported; and the tracker's copy of the framebuffer shows \<open>F0\<close>, if it is used.\<close>

definition server_ok :: "bool \<Rightarrow> 'p VNCServerST \<Rightarrow> 'p PixelBuffer \<Rightarrow> 'p ComparingUpdateTracker \<Rightarrow> 'p image \<Rightarrow> 'p image \<Rightarrow> bool" where
  "server_ok comparing vn fb ct F0 F \<longleftrightarrow> vn_pb vn = Some fb \<and> comparer vn = Some ct \<and> short_buffer fb \<and> screen_pts fb \<noteq> {} \<and>
     (\<exists>M. pb_shows fb M \<and> (\<forall>p \<in> screen_pts fb. p \<notin> pts (changed (ct_sut ct)) \<union> pts (copied (ct_sut ct)) \<longrightarrow> M p = F p)) \<and>
     tracker_ok (ct_sut ct) (screen_pts fb) \<and> area_tracks (ct_sut ct) (screen_pts fb) F0 F \<and>
     (firstCompare ct \<or> comparing \<and> pb_shows (oldFb ct) F0 \<and> same_size fb (oldFb ct)) \<and>
     wf_cursor (cursor vn) \<and> px (cursorTL vn) \<le> pb_width fb \<and> py (cursorTL vn) \<le> pb_height fb \<and>
     (\<forall>c \<in> set (clients vn). tracker_ok (vs_updates c) (screen_pts fb))"

lemma area_screen_tracks: "area_tracks t (screen_pts fb) G F \<longleftrightarrow> screen_tracks t fb G F"
  by (simp add: area_tracks_def screen_tracks_def within_def from_screen_def)

lemma same_shape_screen: "same_shape fb fb' \<Longrightarrow> screen_pts fb' = screen_pts fb \<and> (short_buffer fb' = short_buffer fb) \<and>
    pb_getRect fb' = pb_getRect fb \<and> (same_size fb' o' = same_size fb o') \<and> (in_buffer fb' r = in_buffer fb r)"
  by (simp add: same_shape_def screen_pts_def pb_getRect_def short_buffer_def same_size_def in_buffer_iff)

lemma short_screen: "short_buffer fb \<Longrightarrow> short_pts (screen_pts fb)"
  by (auto simp: screen_pts_iff short_pts_def short_buffer_def in_box_def is_short_def)

lemma screen_region:
  assumes "short_buffer fb" and "pb_shows fb M"
  obtains s where "Region_of_rect (pb_getRect fb) = Some s" and "denotes s (screen_pts fb)"
proof -
  have "short_rect (pb_getRect fb)"
    using assms by (auto simp: short_buffer_def pb_shows_def wf_pb_def short_rect_def is_short_def pb_getRect_def mkRect_def)
  then show ?thesis using that Region_of_rect_denotes unfolding screen_pts_def by blast
qed

lemma bounding_rect_short:
  assumes s: "denotes s A" and A: "short_pts A" "A \<noteq> {}"
  shows "short_rect (get_bounding_rect s)"
proof -
  have "rects s \<noteq> []" "wf_region s" "pts s = A" using s A(2) by (auto simp: denotes_def pts_def)
  then have "is_bbox (extents s) A" using wf_region_bbox [of s] by simp
  then show ?thesis using A(1)
    unfolding is_bbox_def short_pts_def in_box_def get_bounding_rect_def by (fastforce simp: short_rect_def is_short_def mkRect_def)
qed

text \<open>The update of a tracker that stays on the screen.\<close>

lemma screen_update:
  assumes t: "tracker_ok t A" and tr: "area_tracks t A G F" and s: "denotes s A" and A: "short_pts A" "A \<noteq> {}"
  obtains t' ui C K where "getUpdateInfo t s = Some (t', ui)" "denotes (ui_changed ui) C" "denotes (ui_copied ui) K"
    "C \<subseteq> A" "K \<subseteq> A" "within A (ui_copy_delta ui) K" "rect_is_empty (ui_video_area ui)" "C = pts (changed t)" "K = pts (copied t) - C"
    "\<forall>p \<in> A. p \<notin> C \<longrightarrow> F p = moved K (ui_copy_delta ui) G p" "tracker_ok t' A" "area_tracks t' A G F"
    "pts (changed t') = C" "pts (copied t') = K" "short_rect (ui_video_area ui)"
proof -
  have V: "rect_is_empty (video_area t)" "short_rect (video_area t)" using t by (simp_all add: tracker_ok_def)
  obtain t' ui C K where g: "getUpdateInfo t s = Some (t', ui)" "denotes (changed t') C" "denotes (copied t') K"
      "copy_delta t' = copy_delta t" "video_area t' = video_area t" "denotes (ui_changed ui) (C \<inter> A)" "denotes (ui_copied ui) (K \<inter> A)"
      "ui_copy_delta ui = copy_delta t" "rect_is_empty (ui_video_area ui)" "C = pts (changed t)" "K = pts (copied t) - C"
      "C \<subseteq> A" "K \<subseteq> A" "within A (copy_delta t) K" "\<forall>p \<in> A. p \<notin> C \<longrightarrow> F p = moved K (copy_delta t) G p"
    using getUpdateInfo_parts [OF tr V(1) s] by - (elim exE conjE, rule that)
  have CA: "C \<inter> A = C" "K \<inter> A = K" using g(12,13) by auto
  have ok: "tracker_ok t' A" using g(2-5,12-14) V unfolding tracker_ok_def by auto
  have p: "pts (changed t') = C" "pts (copied t') = K" using g(2,3) by (simp_all add: denotes_def)
  have "area_tracks t' A G F" using g(15) unfolding area_tracks_iff [OF ok] p g(4) .
  moreover have "short_rect (ui_video_area ui)"
  proof -
    have "ui_video_area ui = rect_intersect (video_area t) (get_bounding_rect s)" using g(1) by (auto simp: getUpdateInfo_def split: bind_splits)
    moreover have "short_rect (get_bounding_rect s)" by (rule bounding_rect_short [OF s A])
    ultimately show ?thesis using V(2) by (auto simp: short_rect_def is_short_def rect_intersect_def Let_def)
  qed
  moreover have "within A (ui_copy_delta ui) K" "\<forall>p \<in> A. p \<notin> C \<longrightarrow> F p = moved K (ui_copy_delta ui) G p" using g(8,14,15) by simp_all
  ultimately show ?thesis using g(1,6,7,9-13) ok p unfolding CA by (intro that)
qed


subsection \<open>Telling the clients\<close>

text \<open>An update that accounts for the difference of two screens.\<close>

definition accounts :: "UpdateInfo \<Rightarrow> (int \<times> int) set \<Rightarrow> 'p image \<Rightarrow> 'p image \<Rightarrow> bool" where
  "accounts ui A F0 F \<longleftrightarrow> short_rect (ui_video_area ui) \<and> rect_is_empty (ui_video_area ui) \<and>
     (\<exists>C K. denotes (ui_changed ui) C \<and> denotes (ui_copied ui) K \<and> C \<subseteq> A \<and> K \<subseteq> A \<and> within A (ui_copy_delta ui) K \<and>
        (\<forall>p \<in> A. p \<notin> C \<longrightarrow> F p = moved K (ui_copy_delta ui) F0 p))"

lemma tell_client_area:
  fixes G :: "'q image" and f :: "'p \<Rightarrow> 'q"
  assumes c: "tracker_ok (vs_updates c) A" and ui: "accounts ui A F0 F" and A: "short_pts A"
  shows "\<exists>t. tell_client ui c = Some (c\<lparr>vs_updates := t\<rparr>) \<and> tracker_ok t A \<and>
    (area_tracks (vs_updates c) A G (\<lambda>p. f (F0 p)) \<longrightarrow> area_tracks t A G (\<lambda>p. f (F p)))"
proof -
  obtain C K where u: "denotes (ui_changed ui) C" "denotes (ui_copied ui) K" "C \<subseteq> A" "K \<subseteq> A" "within A (ui_copy_delta ui) K"
      "\<forall>p \<in> A. p \<notin> C \<longrightarrow> F p = moved K (ui_copy_delta ui) F0 p" "short_rect (ui_video_area ui)" "rect_is_empty (ui_video_area ui)"
    using ui unfolding accounts_def by blast
  define M where "M = moved K (ui_copy_delta ui) F0"
  obtain t1 where t1: "add_copied (vs_updates c) (ui_copied ui) (ui_copy_delta ui) = Some t1" "tracker_ok t1 A"
      "\<forall>(G :: 'q image) F F'. area_tracks (vs_updates c) A G F \<longrightarrow> (\<forall>p \<in> A. F' p = moved K (ui_copy_delta ui) F p) \<longrightarrow> area_tracks t1 A G F'"
    using add_copied_area [OF c u(2,4,5) A] by blast
  obtain t2 where t2: "add_changed t1 (ui_changed ui) = Some t2" "tracker_ok t2 A"
      "\<forall>(G :: 'q image) F F'. area_tracks t1 A G F \<longrightarrow> (\<forall>p \<in> A. p \<notin> C \<longrightarrow> F' p = F p) \<longrightarrow> area_tracks t2 A G F'"
    using add_changed_area [OF t1(2) u(1,3)] by blast
  define t3 where "t3 = t2\<lparr>video_area := ui_video_area ui\<rparr>"
  have ok: "tracker_ok t3 A" using t2(2) u(7,8) by (simp add: tracker_ok_def t3_def)
  have "area_tracks t3 A G (\<lambda>p. f (F p))" if "area_tracks (vs_updates c) A G (\<lambda>p. f (F0 p))"
  proof -
    have "f (M p) = moved K (ui_copy_delta ui) (\<lambda>p. f (F0 p)) p" for p by (cases p) (simp add: M_def moved_iff)
    then have "area_tracks t1 A G (\<lambda>p. f (M p))" using t1(3) [rule_format, of G "\<lambda>p. f (F0 p)" "\<lambda>p. f (M p)"] that by blast
    moreover have "\<forall>p \<in> A. p \<notin> C \<longrightarrow> f (F p) = f (M p)" using u(6) by (simp add: M_def)
    ultimately have "area_tracks t2 A G (\<lambda>p. f (F p))" using t2(3) [rule_format, of G "\<lambda>p. f (M p)" "\<lambda>p. f (F p)"] by blast
    then show ?thesis unfolding area_tracks_iff [OF t2(2)] area_tracks_iff [OF ok] by (simp add: t3_def)
  qed
  moreover have "tell_client ui c = Some (c\<lparr>vs_updates := t3\<rparr>)" using t1(1) t2(1) by (simp add: tell_client_def set_video_area_def t3_def)
  ultimately show ?thesis using ok by blast
qed

definition told :: "(int \<times> int) set \<Rightarrow> 'q image \<Rightarrow> ('p \<Rightarrow> 'q) \<Rightarrow> 'p image \<Rightarrow> 'p image \<Rightarrow> VNCSConnectionST \<Rightarrow> VNCSConnectionST \<Rightarrow> bool" where
  "told A G f F0 F c c' \<longleftrightarrow> (\<exists>t. c' = c\<lparr>vs_updates := t\<rparr> \<and> tracker_ok t A \<and>
     (area_tracks (vs_updates c) A G (\<lambda>p. f (F0 p)) \<longrightarrow> area_tracks t A G (\<lambda>p. f (F p))))"

lemma tell_clients_area:
  assumes "accounts ui A F0 F" and "short_pts A"
  shows "\<forall>c \<in> set cs. tracker_ok (vs_updates c) A \<Longrightarrow>
    \<exists>cs'. tell_clients ui cs = Some cs' \<and> list_all2 (told A G f F0 F) cs cs'"
proof (induction cs)
  case (Cons c cs)
  obtain t where "tell_client ui c = Some (c\<lparr>vs_updates := t\<rparr>)" "told A G f F0 F c (c\<lparr>vs_updates := t\<rparr>)"
    using tell_client_area [OF _ assms, of c G f] Cons.prems unfolding told_def by auto
  then show ?case using Cons by auto
qed simp

subsection \<open>Comparing\<close>

lemma compare_screen_accounts:
  assumes fb: "pb_shows fb F" "short_buffer fb" "screen_pts fb \<noteq> {}" and s: "denotes screen (screen_pts fb)"
    and t: "tracker_ok (ct_sut ct) (screen_pts fb)" "area_tracks (ct_sut ct) (screen_pts fb) F0 F"
    and cur: "firstCompare ct \<or> compareFB E \<and> pb_shows (oldFb ct) F0 \<and> same_size fb (oldFb ct)"
    and ui: "accounts ui (screen_pts fb) F0 F"
  shows "\<exists>ct' ui'. compare_screen E fb screen ct ui = Some (ct', ui') \<and> accounts ui' (screen_pts fb) F0 F \<and> tracker_ok (ct_sut ct') (screen_pts fb) \<and>
    (firstCompare ct' \<or> compareFB E \<and> pb_shows (oldFb ct') F \<and> same_size fb (oldFb ct'))"
proof (cases "compareFB E")
  case False
  then show ?thesis using cur ui t by (intro exI [of _ ct] exI [of _ ui]) (simp add: compare_screen_def)
next
  case True
  let ?A = "screen_pts fb"
  have "copy_current ct fb F0" using cur by (auto simp: copy_current_def)
  then obtain ct1 G' where c: "compare (junk E) fb ct = Some ct1" "screen_tracks (ct_sut ct1) fb F0 F" "\<not> firstCompare ct1"
      "pb_shows (oldFb ct1) G'" "same_size fb (oldFb ct1)" "\<forall>p \<in> ?A. p \<notin> rpts (video_area (ct_sut ct)) \<longrightarrow> G' p = F p"
      "video_area (ct_sut ct1) = video_area (ct_sut ct)"
    using compare_screen_tracks [OF fb(1,2), of ct F0 "junk E"] t(2) unfolding area_screen_tracks by blast
  have V: "rpts (video_area (ct_sut ct)) = {}" using t(1) by (simp add: tracker_ok_def rpts_empty)
  have ok: "tracker_ok (ct_sut ct1) ?A"
    using c(2) t(1) unfolding screen_tracks_def from_screen_def tracker_ok_def within_def c(7) by blast
  obtain t' ui' C K where g: "getUpdateInfo (ct_sut ct1) screen = Some (t', ui')" "denotes (ui_changed ui') C" "denotes (ui_copied ui') K"
      "C \<subseteq> ?A" "K \<subseteq> ?A" "within ?A (ui_copy_delta ui') K" "rect_is_empty (ui_video_area ui')"
      "\<forall>p \<in> ?A. p \<notin> C \<longrightarrow> F p = moved K (ui_copy_delta ui') F0 p" "tracker_ok t' ?A" "short_rect (ui_video_area ui')"
    using screen_update [OF ok c(2) [folded area_screen_tracks] s short_screen [OF fb(2)] fb(3)] by metis
  have same: "screen_pts (oldFb ct1) = ?A" using c(5) by (simp add: same_size_def screen_pts_iff)
  have "pb_shows (oldFb ct1) F" using pb_shows_cong [OF c(4)] c(6) V unfolding same by blast
  moreover have "accounts ui' ?A F0 F" using g unfolding accounts_def by blast
  ultimately show ?thesis using True c(1,5) g(1,9)
    by (intro exI [of _ "ct1\<lparr>ct_sut := t'\<rparr>"] exI [of _ ui']) (simp add: compare_screen_def)
qed


subsection \<open>The rendered cursor\<close>

definition cursor_rect :: "'p PixelBuffer \<Rightarrow> 'p VNCServerST \<Rightarrow> Rect" where
  "cursor_rect fb vn = rect_intersect (sc_getRect (sc_pb (cursor vn)) (cursorTL vn)) (pb_getRect fb)"

lemma cursor_rect_in_buffer:
  assumes "pb_shows fb M" and "wf_cursor (cursor vn)" and "px (cursorTL vn) \<le> pb_width fb" "py (cursorTL vn) \<le> pb_height fb"
  shows "in_buffer fb (cursor_rect fb vn)"
  using assms by (simp add: in_buffer_iff cursor_rect_def rect_intersect_def Let_def sc_getRect_def point_translate_def pb_getRect_def mkRect_def
      wf_cursor_def wf_pb_def pb_shows_def)

text \<open>A buffer of the size of the cursor's visible part, which is where it is placed.\<close>

definition cursor_buffer :: "'p PixelBuffer \<Rightarrow> 'p VNCServerST \<Rightarrow> 'p VNCServerST \<Rightarrow> bool" where
  "cursor_buffer fb vn vn' \<longleftrightarrow> (\<exists>b. vn' = vn\<lparr>renderedCursorTL := r_tl (cursor_rect fb vn), renderedCursor := b\<rparr> \<and>
     sc_getRect b (r_tl (cursor_rect fb vn)) = cursor_rect fb vn \<and> pb_stride b = pb_width b \<and>
     int (length (pb_data b)) = pb_width b * pb_height b)"

lemma place_cursor_run:
  assumes fb: "pb_shows fb M" "short_buffer fb" and c: "wf_cursor (cursor vn)" "px (cursorTL vn) \<le> pb_width fb" "py (cursorTL vn) \<le> pb_height fb"
    and r: "denotes r Q"
  shows "\<exists>draw r' Q' vn'. place_cursor E fb r vn = Some (draw, r', vn') \<and> denotes r' Q' \<and> Q \<subseteq> Q' \<and>
    (if draw then cursor_buffer fb vn vn' else vn' = vn) \<and>
    draw = (vn_needRenderedCursor (se_now E) vn \<and> (renderedCursorInvalid vn \<or> Q \<inter> rpts (cursor_rect fb vn) \<noteq> {}))"
proof -
  let ?R = "cursor_rect fb vn"
  have inb: "in_buffer fb ?R" using cursor_rect_in_buffer [OF fb(1) c] .
  obtain rr where rr: "Region_of_rect ?R = Some rr" "denotes rr (rpts ?R)" using Region_of_rect_denotes [OF short_in_buffer [OF fb(2) inb]] by blast
  obtain x where x: "region_intersect r rr = Some x" "denotes x (Q \<inter> rpts ?R)" using r rr(2) by (rule new_ops.intersectE)
  have x_empty: "region_is_empty x \<longleftrightarrow> Q \<inter> rpts ?R = {}" using region_is_empty_iff [OF x(2)] .
  obtain u where u: "assign_union r rr = Some u" "denotes u (Q \<union> rpts ?R)" using r rr(2) by (rule assign_ops.unionE)
  define b where "b = pb_setSize (junk E) (Rfb_Rect.rect_width ?R) (Rfb_Rect.rect_height ?R)"
  have wh: "0 \<le> Rfb_Rect.rect_width ?R" "0 \<le> Rfb_Rect.rect_height ?R" using inb by (simp_all add: in_buffer_iff Rfb_Rect.rect_width_def Rfb_Rect.rect_height_def)
  have b: "sc_getRect b (r_tl ?R) = ?R" "pb_stride b = pb_width b" "int (length (pb_data b)) = pb_width b * pb_height b"
    using wh by (simp_all add: b_def sc_getRect_def pb_setSize_def point_translate_def Rfb_Rect.rect_width_def Rfb_Rect.rect_height_def)
  show ?thesis
  proof (cases "vn_needRenderedCursor (se_now E) vn \<and> (renderedCursorInvalid vn \<or> \<not> region_is_empty x)")
    case True
    define vn' where "vn' = vn\<lparr>renderedCursorTL := r_tl ?R, renderedCursor := b\<rparr>"
    have "place_cursor E fb r vn = Some (True, u, vn')"
      using True rr(1) x(1) u(1) by (auto simp: place_cursor_def Let_def cursor_rect_def [symmetric] vn'_def b_def)
    moreover have "cursor_buffer fb vn vn'" using b unfolding cursor_buffer_def vn'_def by blast
    ultimately show ?thesis using u(2) True unfolding x_empty
      by (intro exI [of _ True] exI [of _ u] exI [of _ "Q \<union> rpts ?R"] exI [of _ vn']) simp
  next
    case False
    then have "place_cursor E fb r vn = Some (False, r, vn)"
      using rr(1) x(1) by (auto simp: place_cursor_def Let_def cursor_rect_def [symmetric])
    then show ?thesis using r False unfolding x_empty by (intro exI [of _ False] exI [of _ r] exI [of _ Q] exI [of _ vn]) simp
  qed
qed

text \<open>The screen with the cursor over it.\<close>

definition with_cursor :: "'p ServerCursor \<Rightarrow> Point \<Rightarrow> 'p image \<Rightarrow> 'p image" where
  "with_cursor c pos F = (\<lambda>(x, y). case cursor_pixel c (x - px pos, y - py pos) of Some q \<Rightarrow> q | None \<Rightarrow> F (x, y))"

definition rendered_image :: "'p VNCServerST \<Rightarrow> 'p image" where
  "rendered_image vn = (\<lambda>(x, y). pb_at (renderedCursor vn) (x - px (renderedCursorTL vn), y - py (renderedCursorTL vn)))"

lemma render_cursor_shows:
  assumes fb: "pb_shows fb F" and c: "wf_cursor (cursor vn)" and R: "in_buffer fb (cursor_rect fb vn)" and b: "cursor_buffer fb vn vn'"
  shows "\<exists>rc. render_cursor fb vn' = Some (vn'\<lparr>renderedCursor := rc, renderedCursorInvalid := False\<rparr>) \<and>
    sc_getRect rc (renderedCursorTL vn') = cursor_rect fb vn \<and>
    (\<forall>p \<in> rpts (cursor_rect fb vn). rendered_image (vn'\<lparr>renderedCursor := rc\<rparr>) p = with_cursor (cursor vn) (cursorPos vn) F p)"
proof -
  define TL where "TL = r_tl (cursor_rect fb vn)"
  obtain b0 where vn': "vn' = vn\<lparr>renderedCursorTL := TL, renderedCursor := b0\<rparr>" "sc_getRect b0 TL = cursor_rect fb vn"
      "pb_stride b0 = pb_width b0" "int (length (pb_data b0)) = pb_width b0 * pb_height b0"
    using b unfolding cursor_buffer_def TL_def by blast
  let ?R = "cursor_rect fb vn" and ?c = "cursor vn"
  have wh: "pb_width b0 = Rfb_Rect.rect_width ?R" "pb_height b0 = Rfb_Rect.rect_height ?R" "0 \<le> pb_width b0" "0 \<le> pb_height b0"
    using R unfolding vn'(2) [symmetric] by (auto simp: sc_getRect_def point_translate_def Rfb_Rect.rect_width_def Rfb_Rect.rect_height_def in_buffer_iff)
  obtain data where data: "pb_getImage fb (pb_data b0) ?R 0 = Some data" "int (length data) = pb_width b0 * pb_height b0"
      "\<And>x y. 0 \<le> x \<Longrightarrow> x < pb_width b0 \<Longrightarrow> 0 \<le> y \<Longrightarrow> y < pb_height b0 \<Longrightarrow> data_at data (pb_width b0) (x, y) = F (x + px TL, y + py TL)"
    using getImage_data [OF fb R, of "pb_data b0"] vn'(4) unfolding wh TL_def by blast
  define b1 where "b1 = b0\<lparr>pb_data := data\<rparr>"
  have b1: "pb_shows b1 (\<lambda>(x, y). F (x + px TL, y + py TL))"
    using data(2,3) vn'(3) wh(3,4) by (auto simp: b1_def pb_shows_def wf_pb_def pb_getRect_def pb_at_def)
  define r where "r = sc_getRect (sc_pb ?c) (point_subtract (cursorTL vn) TL)"
  have r: "Rfb_Rect.rect_width r = pb_width (sc_pb ?c)" "Rfb_Rect.rect_height r = pb_height (sc_pb ?c)" "r_tl r = point_subtract (cursorTL vn) TL"
    by (simp_all add: r_def sc_getRect_def point_translate_def Rfb_Rect.rect_width_def Rfb_Rect.rect_height_def)
  have cw: "wf_pb (sc_pb ?c)" "pb_stride (sc_pb ?c) = pb_width (sc_pb ?c)" "maskLen (sc_pb ?c) \<le> int (length (sc_mask ?c))"
    using c by (simp_all add: wf_cursor_def)
  have "px (r_tl r) \<le> px (r_br r)" "py (r_tl r) \<le> py (r_br r)"
    using cw(1) by (simp_all add: r_def sc_getRect_def point_translate_def wf_pb_def)
  then obtain rc where rc: "pb_maskRect b1 r (pb_data (sc_pb ?c)) (sc_mask ?c) = Some rc" "same_shape b1 rc" "wf_pb rc"
      "\<forall>p \<in> rpts (pb_getRect b1). pb_at rc p =
        masked r (sc_mask ?c) (\<lambda>(cx, cy). pb_data (sc_pb ?c) ! nat (cy * Rfb_Rect.rect_width r + cx)) (\<lambda>(x, y). F (x + px TL, y + py TL)) p"
    using maskRect_exact [OF b1, of r "sc_mask ?c" "pb_data (sc_pb ?c)"] cw unfolding r(1,2) by (auto simp: maskLen_def maskBytesPerRow_def wf_pb_def mult.commute)
  have "render_cursor fb vn' = Some (vn'\<lparr>renderedCursor := rc, renderedCursorInvalid := False\<rparr>)"
    using data(1) rc(1) by (simp add: render_cursor_def vn'(1,2) Let_def b1_def [symmetric] cursorTL_def r_def)
  moreover have "sc_getRect rc TL = ?R"
    using rc(2) unfolding vn'(2) [symmetric] by (simp add: sc_getRect_def same_shape_def b1_def)
  moreover have "rendered_image (vn'\<lparr>renderedCursor := rc\<rparr>) (x, y) = with_cursor ?c (cursorPos vn) F (x, y)" if p: "(x, y) \<in> rpts ?R" for x y
  proof -
    define u v where "u = x - px (cursorTL vn)" and "v = y - py (cursorTL vn)"
    have "(x - px TL, y - py TL) \<in> rpts (pb_getRect b1)"
      using p vn'(2) unfolding vn'(2) [symmetric] by (auto simp: rpts_iff b1_def pb_getRect_def sc_getRect_def point_translate_def)
    then have at: "pb_at rc (x - px TL, y - py TL) =
        masked r (sc_mask ?c) (\<lambda>(cx, cy). pb_data (sc_pb ?c) ! nat (cy * pb_width (sc_pb ?c) + cx)) (\<lambda>(x, y). F (x + px TL, y + py TL)) (x - px TL, y - py TL)"
      using rc(4) unfolding r(1) by blast
    have uv: "x - px TL - px (r_tl r) = u" "y - py TL - py (r_tl r) = v" by (simp_all add: r(3) point_subtract_def u_def v_def)
    have "(x - px TL, y - py TL) \<in> rpts r \<longleftrightarrow> (u, v) \<in> rpts (pb_getRect (sc_pb ?c))"
      by (auto simp: rpts_iff r_def sc_getRect_def point_translate_def point_subtract_def pb_getRect_def mkRect_def u_def v_def)
    then have "opaque ?c (u, v) \<longleftrightarrow> (x - px TL, y - py TL) \<in> rpts r \<and> mask_bit (sc_mask ?c) ((pb_width (sc_pb ?c) + 7) div 8) u v"
      by (simp add: opaque_def maskBytesPerRow_def)
    moreover have "pb_at (sc_pb ?c) (u, v) = pb_data (sc_pb ?c) ! nat (v * pb_width (sc_pb ?c) + u)"
      by (simp add: pb_at_def data_at_def cw(2) add.commute)
    moreover have "cursor_pixel ?c (x - px (cursorPos vn), y - py (cursorPos vn)) = (if opaque ?c (u, v) then Some (pb_at (sc_pb ?c) (u, v)) else None)"
      by (simp add: cursor_pixel_def Let_def u_def v_def cursorTL_def point_subtract_def algebra_simps)
    ultimately show ?thesis
      by (simp add: rendered_image_def with_cursor_def vn'(1) at masked_def uv r(1))
  qed
  ultimately show ?thesis by (intro exI [of _ rc] conjI ballI) (auto simp: vn'(1) del: split_paired_All)
qed

text \<open>The rendered cursor is the one for the screen \<open>F\<close>.\<close>

definition cursor_drawn :: "'p PixelBuffer \<Rightarrow> 'p VNCServerST \<Rightarrow> 'p image \<Rightarrow> bool" where
  "cursor_drawn fb vn F \<longleftrightarrow> sc_getRect (renderedCursor vn) (renderedCursorTL vn) = cursor_rect fb vn \<and>
     (\<forall>p \<in> rpts (cursor_rect fb vn). rendered_image vn p = with_cursor (cursor vn) (cursorPos vn) F p)"

lemma cursor_drawn_cong:
  "cursor_drawn fb vn F \<Longrightarrow> (\<And>p. p \<in> rpts (cursor_rect fb vn) \<Longrightarrow> F p = F' p) \<Longrightarrow> cursor_drawn fb vn F'"
  unfolding cursor_drawn_def with_cursor_def by (auto split: option.splits)


subsection \<open>Checking for an update\<close>

lemma list_all2_told_refl:
  assumes "\<And>p. p \<in> A \<Longrightarrow> F0 p = F p"
  shows "\<forall>c \<in> set cs. tracker_ok (vs_updates c) A \<Longrightarrow> list_all2 (told A G f F0 F) cs cs"
proof (induction cs)
  case (Cons c cs)
  have "area_tracks (vs_updates c) A G (\<lambda>p. f (F p))" if "area_tracks (vs_updates c) A G (\<lambda>p. f (F0 p))"
    by (rule area_tracks_cong [OF that]) (simp add: assms)
  moreover have "c = c\<lparr>vs_updates := vs_updates c\<rparr>" by simp
  ultimately have "told A G f F0 F c c" using Cons.prems unfolding told_def by (metis list.set_intros(1))
  then show ?case using Cons by simp
qed simp

lemma told_ok: "list_all2 (told A G f F0 F) cs cs' \<Longrightarrow> \<forall>c \<in> set cs'. tracker_ok (vs_updates c) A"
  by (induction rule: list_all2_induct) (auto simp: told_def)

text \<open>A check draws the rendered cursor anew if a client needs it and it is invalid or something is reported under it. In every other
  case, also where something is reported under it while no client needs it, what is drawn and the flag stay as they are.\<close>

definition reported :: "'p ComparingUpdateTracker \<Rightarrow> (int \<times> int) set" where
  "reported ct = pts (changed (ct_sut ct)) \<union> pts (copied (ct_sut ct))"

definition cursor_step :: "bool \<Rightarrow> (int \<times> int) set \<Rightarrow> 'p PixelBuffer \<Rightarrow> 'p VNCServerST \<Rightarrow> 'p PixelBuffer \<Rightarrow> 'p VNCServerST \<Rightarrow> 'p image \<Rightarrow> bool" where
  "cursor_step need R fb vn fb' vn' F \<longleftrightarrow>
     (if need \<and> (renderedCursorInvalid vn \<or> R \<inter> rpts (cursor_rect fb vn) \<noteq> {})
      then \<not> renderedCursorInvalid vn' \<and> cursor_drawn fb' vn' F
      else renderedCursor vn' = renderedCursor vn \<and> renderedCursorTL vn' = renderedCursorTL vn \<and> renderedCursorInvalid vn' = renderedCursorInvalid vn)"

lemma cursor_drawn_same:
  "pb_getRect fb' = pb_getRect fb \<Longrightarrow> cursor vn' = cursor vn \<Longrightarrow> cursorPos vn' = cursorPos vn \<Longrightarrow> renderedCursor vn' = renderedCursor vn \<Longrightarrow>
   renderedCursorTL vn' = renderedCursorTL vn \<Longrightarrow> cursor_drawn fb' vn' F \<longleftrightarrow> cursor_drawn fb vn F"
  by (simp add: cursor_drawn_def cursor_rect_def cursorTL_def rendered_image_def)

lemma unreported_same:
  assumes "server_ok comparing vn fb ct F0 F" and "p \<in> screen_pts fb" and "p \<notin> reported ct"
  shows "F0 p = F p"
  using assms area_tracks_iff [of "ct_sut ct" "screen_pts fb" F0 F] unfolding server_ok_def reported_def
  by (cases p) (auto simp: moved_iff)

lemma cursor_stays_drawn:
  assumes ok: "server_ok comparing vn fb ct F0 F" and step: "cursor_step need (reported ct) fb vn fb' vn' F"
    and same: "pb_getRect fb' = pb_getRect fb" "cursor vn' = cursor vn" "cursorPos vn' = cursorPos vn"
    and need: "need" and drawn: "renderedCursorInvalid vn \<or> cursor_drawn fb vn F0"
  shows "\<not> renderedCursorInvalid vn' \<and> cursor_drawn fb' vn' F"
proof (cases "renderedCursorInvalid vn \<or> reported ct \<inter> rpts (cursor_rect fb vn) \<noteq> {}")
  case True
  then show ?thesis using step need by (simp add: cursor_step_def)
next
  case False
  obtain M where "pb_shows fb M" using ok by (auto simp: server_ok_def)
  then have "in_buffer fb (cursor_rect fb vn)" using ok cursor_rect_in_buffer [of fb M vn] by (simp add: server_ok_def)
  then have "p \<in> rpts (cursor_rect fb vn) \<Longrightarrow> p \<in> screen_pts fb" for p by (cases p) (auto simp: in_buffer_iff rpts_iff screen_pts_iff)
  then have "F0 p = F p" if "p \<in> rpts (cursor_rect fb vn)" for p using unreported_same [OF ok] False that by blast
  then have "cursor_drawn fb vn F" using drawn False cursor_drawn_cong [of fb vn F0 F] by simp
  then show ?thesis using step False cursor_drawn_same [OF same] by (simp add: cursor_step_def)
qed

text \<open>With nothing to report, the screen is still the one the clients know.\<close>

lemma checkUpdate_idle:
  assumes ok: "server_ok comparing vn fb ct F0 F" and g: "getUpdateInfo (ct_sut ct) screen = Some (t, ui)" "tracker_ok t (screen_pts fb)"
      "area_tracks t (screen_pts fb) F0 F" "pts (changed t) = {}" "pts (copied t) = {}"
    and emp: "pts (changed (ct_sut ct)) \<union> pts (copied (ct_sut ct)) = {}"
  shows "server_ok comparing (vn\<lparr>comparer := Some (ct\<lparr>ct_sut := t\<rparr>)\<rparr>) fb (ct\<lparr>ct_sut := t\<rparr>) F F" and "\<And>p. p \<in> screen_pts fb \<Longrightarrow> F0 p = F p"
    and "pb_shows fb F"
proof -
  let ?A = "screen_pts fb"
  show same: "F0 p = F p" if "p \<in> ?A" for p
    using g(3) that unfolding area_tracks_iff [OF g(2)] g(4,5) by (cases p) (simp add: moved_iff)
  obtain M where "pb_shows fb M" "\<forall>p \<in> ?A. M p = F p" using ok emp unfolding server_ok_def by auto
  then show fb: "pb_shows fb F" using pb_shows_cong by blast
  have "area_tracks t ?A F F" unfolding area_tracks_iff [OF g(2)] g(4,5) by (simp add: moved_def case_prod_unfold)
  moreover have "pb_shows (oldFb ct) F0 \<Longrightarrow> same_size fb (oldFb ct) \<Longrightarrow> pb_shows (oldFb ct) F"
    using pb_shows_cong [of "oldFb ct" F0 F] same by (simp add: same_size_def screen_pts_iff)
  ultimately show "server_ok comparing (vn\<lparr>comparer := Some (ct\<lparr>ct_sut := t\<rparr>)\<rparr>) fb (ct\<lparr>ct_sut := t\<rparr>) F F"
    using ok fb g(2) by (auto simp: server_ok_def cursorTL_def)
qed

lemma checkUpdate_run:
  assumes ok: "server_ok (compareFB E) vn fb ct F0 F" and grab: "grabs E F"
  shows "\<exists>vn' fb' ct'. checkUpdate E vn = Some vn' \<and> server_ok (compareFB E) vn' fb' ct' F F \<and> same_shape fb fb' \<and> pb_shows fb' F \<and>
    pts (changed (ct_sut ct')) = {} \<and> pts (copied (ct_sut ct')) = {} \<and> cursor vn' = cursor vn \<and> cursorPos vn' = cursorPos vn \<and>
    cursor_step (vn_needRenderedCursor (se_now E) vn) (reported ct) fb vn fb' vn' F \<and>
    list_all2 (told (screen_pts fb) G f F0 F) (clients vn) (clients vn')"
proof -
  let ?A = "screen_pts fb"
  obtain M where M: "pb_shows fb M" "\<forall>p \<in> ?A. p \<notin> pts (changed (ct_sut ct)) \<union> pts (copied (ct_sut ct)) \<longrightarrow> M p = F p"
    using ok unfolding server_ok_def by blast
  have fb: "vn_pb vn = Some fb" "comparer vn = Some ct" "short_buffer fb" "?A \<noteq> {}" "tracker_ok (ct_sut ct) ?A" "area_tracks (ct_sut ct) ?A F0 F"
    and cur: "firstCompare ct \<or> compareFB E \<and> pb_shows (oldFb ct) F0 \<and> same_size fb (oldFb ct)"
    and c: "wf_cursor (cursor vn)" "px (cursorTL vn) \<le> pb_width fb" "py (cursorTL vn) \<le> pb_height fb"
    and cs: "\<forall>c \<in> set (clients vn). tracker_ok (vs_updates c) ?A"
    using ok by (simp_all add: server_ok_def)
  note short = short_screen [OF fb(3)]
  obtain screen where s: "Region_of_rect (pb_getRect fb) = Some screen" "denotes screen ?A" using screen_region [OF fb(3) M(1)] .
  obtain t ui C K where g: "getUpdateInfo (ct_sut ct) screen = Some (t, ui)" "denotes (ui_changed ui) C" "denotes (ui_copied ui) K"
      "C \<subseteq> ?A" "K \<subseteq> ?A" "within ?A (ui_copy_delta ui) K" "rect_is_empty (ui_video_area ui)" "C = pts (changed (ct_sut ct))"
      "K = pts (copied (ct_sut ct)) - C" "\<forall>p \<in> ?A. p \<notin> C \<longrightarrow> F p = moved K (ui_copy_delta ui) F0 p" "tracker_ok t ?A" "area_tracks t ?A F0 F"
      "pts (changed t) = C" "pts (copied t) = K" "short_rect (ui_video_area ui)"
    using screen_update [OF fb(5,6) s(2) short fb(4)] by metis
  define ct1 where "ct1 = ct\<lparr>ct_sut := t\<rparr>"
  have emp: "ui_is_empty ui \<longleftrightarrow> C = {} \<and> K = {}"
    using region_is_empty_iff [OF g(2)] region_is_empty_iff [OF g(3)] g(7) by (auto simp: ui_is_empty_def)
  have head: "checkUpdate E vn = (if ui_is_empty ui \<and> \<not> (vn_needRenderedCursor (se_now E) vn \<and> renderedCursorInvalid vn)
      then Some (vn\<lparr>comparer := Some ct1\<rparr>)
      else pass_on E vn fb screen ct1 ui)"
    using fb(1,2) s(1) g(1) by (auto simp: checkUpdate_def ct1_def)
  show ?thesis
  proof (cases "ui_is_empty ui \<and> \<not> (vn_needRenderedCursor (se_now E) vn \<and> renderedCursorInvalid vn)")
    case True
    then have z: "C = {}" "K = {}" "pts (changed (ct_sut ct)) \<union> pts (copied (ct_sut ct)) = {}" using emp g(8,9) by auto
    note idle = checkUpdate_idle [OF ok g(1,11,12) g(13) [unfolded z] g(14) [unfolded z] z(3), folded ct1_def]
    have "list_all2 (told ?A G f F0 F) (clients vn) (clients vn)" by (rule list_all2_told_refl [OF idle(2) cs])
    moreover have "cursor_step (vn_needRenderedCursor (se_now E) vn) (reported ct) fb vn fb (vn\<lparr>comparer := Some ct1\<rparr>) F"
      using True z(3) by (auto simp: cursor_step_def reported_def)
    moreover have "checkUpdate E vn = Some (vn\<lparr>comparer := Some ct1\<rparr>)" using head True by simp
    ultimately show ?thesis using idle(1,3) g(13,14) z(1,2)
      by (intro exI [of _ "vn\<lparr>comparer := Some ct1\<rparr>"] exI [of _ fb] exI [of _ ct1]) (simp add: ct1_def)
  next
    case False
    obtain r1 where r1: "region_union (ui_changed ui) (ui_copied ui) = Some r1" "denotes r1 (C \<union> K)" using g(2,3) by (rule new_ops.unionE)
    have V: "rpts (ui_video_area ui) = {}" using g(7) by (simp add: rpts_empty)
    obtain v where v: "Region_of_rect (ui_video_area ui) = Some v" "denotes v {}" using Region_of_rect_denotes [OF g(15)] unfolding V by blast
    obtain r2 where r2: "region_union r1 v = Some r2" "denotes r2 (C \<union> K \<union> {})" using r1(2) v(2) by (rule new_ops.unionE)
    obtain draw r3 Q vn1 where pc: "place_cursor E fb r2 vn = Some (draw, r3, vn1)" "denotes r3 Q" "C \<union> K \<subseteq> Q"
        "if draw then cursor_buffer fb vn vn1 else vn1 = vn"
        "draw = (vn_needRenderedCursor (se_now E) vn \<and> (renderedCursorInvalid vn \<or> (C \<union> K) \<inter> rpts (cursor_rect fb vn) \<noteq> {}))"
      using place_cursor_run [OF M(1) fb(3) c r2(2), of E] unfolding Un_empty_right by - (elim exE conjE, rule that)
    define fb2 where "fb2 = grabRegion E r3 fb"
    have fb2: "pb_shows fb2 (\<lambda>p. if p \<in> Q then F p else M p)" "same_shape fb fb2"
      using grab pc(2) M(1) unfolding grabs_def fb2_def by blast+
    have sh: "screen_pts fb2 = ?A" "short_buffer fb2" "pb_getRect fb2 = pb_getRect fb" "\<And>o'. same_size fb2 o' = same_size fb o'"
      "\<And>r. in_buffer fb2 r = in_buffer fb r"
      using same_shape_screen [OF fb2(2)] fb(3) by simp_all
    have "(if p \<in> Q then F p else M p) = F p" if "p \<in> ?A" for p using M(2) that pc(3) g(8,9) by auto
    then have shows_F: "pb_shows fb2 F" using pb_shows_cong [OF fb2(1)] sh(1) by blast
    have acc: "accounts ui (screen_pts fb2) F0 F" using g(2-7,10,15) unfolding accounts_def sh(1) by blast
    obtain ct2 ui2 where cmp: "compare_screen E fb2 screen ct1 ui = Some (ct2, ui2)" "accounts ui2 ?A F0 F" "tracker_ok (ct_sut ct2) ?A"
        "firstCompare ct2 \<or> compareFB E \<and> pb_shows (oldFb ct2) F \<and> same_size fb2 (oldFb ct2)"
      using compare_screen_accounts [OF shows_F sh(2) _ _ _ _ _ acc, of screen ct1 E] fb(4) s(2) g(11,12) cur
      unfolding sh(1) sh(4) by (auto simp: ct1_def)
    have cl1: "clients vn1 = clients vn" "cursor vn1 = cursor vn" "cursorPos vn1 = cursorPos vn"
      using pc(4) by (auto simp: cursor_buffer_def split: if_splits)
    have CK: "C \<union> K = reported ct" using g(8,9) by (auto simp: reported_def)
    obtain vn2 where vn2: "(if draw then render_cursor fb2 vn1 else Some vn1) = Some vn2" "clients vn2 = clients vn" "cursor vn2 = cursor vn"
        "cursorPos vn2 = cursorPos vn" "cursor_step (vn_needRenderedCursor (se_now E) vn) (reported ct) fb vn fb2 vn2 F"
    proof (cases draw)
      case True
      have e: "cursor_rect fb2 vn = cursor_rect fb vn" by (simp add: cursor_rect_def sh(3))
      have cb: "cursor_buffer fb2 vn vn1" using pc(4) True by (simp add: cursor_buffer_def e)
      have "in_buffer fb2 (cursor_rect fb2 vn)" using cursor_rect_in_buffer [OF M(1) c] by (simp add: e sh(5))
      from render_cursor_shows [OF shows_F c(1) this cb]
      obtain rc where rc: "render_cursor fb2 vn1 = Some (vn1\<lparr>renderedCursor := rc, renderedCursorInvalid := False\<rparr>)"
        "sc_getRect rc (renderedCursorTL vn1) = cursor_rect fb vn"
        "\<forall>p \<in> rpts (cursor_rect fb vn). rendered_image (vn1\<lparr>renderedCursor := rc\<rparr>) p = with_cursor (cursor vn) (cursorPos vn) F p"
        unfolding e by blast
      define vn2 where "vn2 = vn1\<lparr>renderedCursor := rc, renderedCursorInvalid := False\<rparr>"
      have "cursor_rect fb2 vn2 = cursor_rect fb vn" by (simp add: cursor_rect_def sh(3) vn2_def cursorTL_def cl1)
      moreover have "rendered_image vn2 = rendered_image (vn1\<lparr>renderedCursor := rc\<rparr>)" by (simp add: rendered_image_def vn2_def)
      moreover have "cursor vn2 = cursor vn" "cursorPos vn2 = cursorPos vn" "renderedCursorTL vn2 = renderedCursorTL vn1" "renderedCursor vn2 = rc"
        by (simp_all add: vn2_def cl1)
      ultimately have "cursor_drawn fb2 vn2 F" unfolding cursor_drawn_def using rc(2,3) by simp
      then have "cursor_step (vn_needRenderedCursor (se_now E) vn) (reported ct) fb vn fb2 vn2 F" using True pc(5) CK by (simp add: cursor_step_def vn2_def)
      moreover have "render_cursor fb2 vn1 = Some vn2" using rc(1) by (simp add: vn2_def)
      ultimately show ?thesis using that [of vn2] True cl1 by (simp add: vn2_def)
    next
      case False
      then have "cursor_step (vn_needRenderedCursor (se_now E) vn) (reported ct) fb vn fb2 vn F" using pc(5) CK by (auto simp: cursor_step_def)
      then show ?thesis using that [of vn1] cl1 pc(4) False by simp
    qed
    obtain cs' where cs': "tell_clients ui2 (clients vn) = Some cs'" "list_all2 (told ?A G f F0 F) (clients vn) cs'"
      using tell_clients_area [OF cmp(2) short cs, of G f] by blast
    define ct3 where "ct3 = ct2\<lparr>ct_sut := sut_clear (ct_sut ct2)\<rparr>"
    define vn3 where "vn3 = vn2\<lparr>vn_pb := Some fb2, comparer := Some ct3, clients := cs'\<rparr>"
    have run: "checkUpdate E vn = Some vn3"
      using head False r1(1) v(1) r2(1) pc(1) cmp(1) vn2(1,2) cs'(1) by (auto simp: pass_on_def fb2_def [symmetric] vn3_def ct3_def)
    obtain C2 K2 where ct2: "denotes (changed (ct_sut ct2)) C2" "denotes (copied (ct_sut ct2)) K2" using cmp(3) by (rule tracker_okE)
    have e3: "denotes (changed (ct_sut ct3)) {}" "denotes (copied (ct_sut ct3)) {}"
      using denotes_size [OF ct2(1)] denotes_size [OF ct2(2)] by (simp_all add: ct3_def sut_clear_def)
    have ok3: "tracker_ok (ct_sut ct3) ?A"
      using cmp(3) e3 unfolding tracker_ok_def by (intro conjI exI [of _ "{}"]) (simp_all add: ct3_def sut_clear_def within_def)
    have p3: "pts (changed (ct_sut ct3)) = {}" "pts (copied (ct_sut ct3)) = {}" using e3 by (simp_all add: denotes_def)
    have tr3: "area_tracks (ct_sut ct3) ?A F F" unfolding area_tracks_iff [OF ok3] p3 by (simp add: moved_def case_prod_unfold)
    have "firstCompare ct3 = firstCompare ct2" "oldFb ct3 = oldFb ct2" by (simp_all add: ct3_def)
    then have "server_ok (compareFB E) vn3 fb2 ct3 F F"
      using sh(2) fb(4) shows_F ok3 tr3 cmp(4) c fb2(2) told_ok [OF cs'(2)] vn2
      unfolding server_ok_def sh(1) by (auto simp: vn3_def cursorTL_def same_shape_def)
    moreover have "cursor_step (vn_needRenderedCursor (se_now E) vn) (reported ct) fb vn fb2 vn3 F"
      using vn2(5) cursor_drawn_same [of fb2 fb2 vn3 vn2 F] by (simp add: cursor_step_def vn3_def)
    ultimately show ?thesis using run fb2(2) shows_F p3 cs'(2) vn2(2-4)
      by (intro exI [of _ vn3] exI [of _ fb2] exI [of _ ct3]) (simp add: vn3_def)
  qed
qed


subsection \<open>Serving a client\<close>

text \<open>The view a client's updates are made with.\<close>

definition uses_view :: "'p Views \<Rightarrow> VNCSConnectionST \<Rightarrow> ('p, 'a::len word) View \<Rightarrow> bool" where
  "uses_view V c w \<longleftrightarrow> (\<forall>E vn fb s. vs_id s = vs_id c \<longrightarrow> vs_cp s = vs_cp c \<longrightarrow>
     finish_client E V vn fb s = vs_finishUpdate (client_env E vn fb w) s)"

lemma uses_view_at:
  "bpp (cp_pf (vs_cp c)) = 8 \<Longrightarrow> uses_view V c (view8 V (vs_id c))"
  "bpp (cp_pf (vs_cp c)) = 16 \<Longrightarrow> uses_view V c (view16 V (vs_id c))"
  "bpp (cp_pf (vs_cp c)) = 32 \<Longrightarrow> uses_view V c (view32 V (vs_id c))"
  by (simp_all add: uses_view_def finish_client_def getting_def)

text \<open>The update that is due to a client.\<close>

definition update_due :: "'p ServerEnv \<Rightarrow> ('p, 'a::len word) View \<Rightarrow> nat \<Rightarrow> 'p VNCServerST \<Rightarrow> UpdateInfo option" where
  "update_due E w k vn =
     (case on_client k vs_beginUpdate vn of
        (Inr True, vn) \<Rightarrow> do {
          vn \<leftarrow> checkUpdate E vn;
          fb \<leftarrow> vn_pb vn;
          (case bindA (vs_convertVideo (client_env E vn fb w)) (\<lambda>_. vs_getUpdateInfo) (clients vn ! k) of
             (Inr ui, _) \<Rightarrow> Some ui
           | _ \<Rightarrow> None) }
      | _ \<Rightarrow> None)"

text \<open>A client that asks for the whole screen and can be sent an update of it.\<close>

definition servable :: "'p ServerEnv \<Rightarrow> 'p Views \<Rightarrow> 'p PixelBuffer \<Rightarrow> ('p, 'a::len word) View \<Rightarrow> nat \<Rightarrow> 'p VNCServerST \<Rightarrow> bool" where
  "servable E V fb w k vn \<longleftrightarrow> k < length (clients vn) \<and> (let c = clients vn ! k in
     vs_state c = S_NORMAL \<and> uses_view V c w \<and> plain_client (client_env E vn fb w) c \<and> screen_ok (vs_cp c) (enc_bytes (ve_enc (vw_env w))) \<and>
     cp_width (vs_cp c) = pb_width fb \<and> cp_height (vs_cp c) = pb_height fb \<and> denotes (requested c) (screen_pts fb) \<and>
     (\<forall>ui. update_due E w k vn = Some ui \<longrightarrow> numRects (ui_copied ui) + numRects (ui_changed ui) < 65536))"

lemma client_env_simps [simp]:
  "ve_enc (client_env E vn fb w) = ve_enc (vw_env w)"
  "ve_image (client_env E vn fb w) = (\<lambda>p. vw_translate w (pb_at fb p))"
  "ve_now (client_env E vn fb w) = se_now E"
  "ve_cursorPos (client_env E vn fb w) = cursorPos vn"
  by (simp_all add: client_env_def)

lemma plain_client_env:
  "plain_client (client_env E vn fb w) c \<Longrightarrow> cursorPos vn' = cursorPos vn \<Longrightarrow> tracker_ok t A \<Longrightarrow>
   plain_client (client_env E vn' fb' w) (c\<lparr>vs_updates := t\<rparr>)"
  by (simp add: plain_client_def needRenderedCursor_def needs_cursor_def tracker_ok_def vs_cp_def)

lemma server_ok_client:
  assumes "server_ok b vn fb ct F0 F" and "tracker_ok (vs_updates c) (screen_pts fb)"
  shows "server_ok b (vn\<lparr>clients := (clients vn)[k := c]\<rparr>) fb ct F0 F"
  using assms set_update_subset_insert [of "clients vn" k c] by (auto simp: server_ok_def cursorTL_def)

lemma beginUpdate_run:
  assumes "vs_state c = S_NORMAL" and "denotes (requested c) A" "A \<noteq> {}" and "tracker_ok (vs_updates c) A"
  shows "\<exists>t. vs_beginUpdate c = (Inr True, c\<lparr>vs_updates := t\<rparr>) \<and> tracker_ok t A \<and>
    (area_tracks (vs_updates c) A G F \<longrightarrow> area_tracks t A G F)"
proof -
  obtain t where t: "enable_copyrect (vs_updates c) (useCopyRect (vs_cp c)) = Some t" "tracker_ok t A"
      "area_tracks (vs_updates c) A G F \<longrightarrow> area_tracks t A G F" using enable_copyrect_area [OF assms(4)] by blast
  have "vs_beginUpdate c = (Inr True, c\<lparr>vs_updates := t\<rparr>)"
    using assms(1) region_is_empty_iff [OF assms(2)] assms(3)
      on_updates_run [where s = c and t = t and f = "\<lambda>u. enable_copyrect u (useCopyRect (vs_cp c))"] t(1)
    by (simp add: vs_beginUpdate_def getting_def bindA_def ret_def)
  with t show ?thesis by blast
qed

text \<open>The first half of \<open>writeFramebufferUpdate\<close>: the client's tracker comes to account for the screen as it is now.\<close>

lemma begin_check:
  fixes f :: "'p \<Rightarrow> 'q"
  assumes ok: "server_ok (compareFB E) vn fb ct F0 F" and grab: "grabs E F" and k: "k < length (clients vn)"
    and c: "vs_state (clients vn ! k) = S_NORMAL" "denotes (requested (clients vn ! k)) (screen_pts fb)"
    and G: "area_tracks (vs_updates (clients vn ! k)) (screen_pts fb) G (\<lambda>p. f (F0 p))"
  obtains vn1 vn2 fb2 ct2 t where "on_client k vs_beginUpdate vn = (Inr True, vn1)" "checkUpdate E vn1 = Some vn2"
    "server_ok (compareFB E) vn2 fb2 ct2 F F" "same_shape fb fb2" "pb_shows fb2 F" "cursorPos vn2 = cursorPos vn"
    "length (clients vn2) = length (clients vn)" "clients vn2 ! k = (clients vn ! k)\<lparr>vs_updates := t\<rparr>" "tracker_ok t (screen_pts fb)"
    "area_tracks t (screen_pts fb) G (\<lambda>p. f (F p))"
    "\<And>j (H :: 'r image) h. j < length (clients vn) \<Longrightarrow> j \<noteq> k \<Longrightarrow> told (screen_pts fb) H h F0 F (clients vn ! j) (clients vn2 ! j)"
proof -
  let ?A = "screen_pts fb" and ?c = "clients vn ! k"
  have ne: "?A \<noteq> {}" and tk: "tracker_ok (vs_updates ?c) ?A" using ok k by (simp_all add: server_ok_def)
  obtain t0 where t0: "vs_beginUpdate ?c = (Inr True, ?c\<lparr>vs_updates := t0\<rparr>)" "tracker_ok t0 ?A" "area_tracks t0 ?A G (\<lambda>p. f (F0 p))"
    using beginUpdate_run [OF c ne tk, of G "\<lambda>p. f (F0 p)"] G by blast
  define vn1 where "vn1 = vn\<lparr>clients := (clients vn)[k := ?c\<lparr>vs_updates := t0\<rparr>]\<rparr>"
  have start: "on_client k vs_beginUpdate vn = (Inr True, vn1)" using t0(1) by (simp add: on_client_def vn1_def)
  have ok1: "server_ok (compareFB E) vn1 fb ct F0 F" unfolding vn1_def by (rule server_ok_client [OF ok]) (simp add: t0(2))
  obtain vn2 fb2 ct2 where c2: "checkUpdate E vn1 = Some vn2" "server_ok (compareFB E) vn2 fb2 ct2 F F" "same_shape fb fb2" "pb_shows fb2 F"
      "cursorPos vn2 = cursorPos vn1" "list_all2 (told ?A G f F0 F) (clients vn1) (clients vn2)"
    using checkUpdate_run [OF ok1 grab, of G f] by blast
  have len: "length (clients vn2) = length (clients vn)" using list_all2_lengthD [OF c2(6)] by (simp add: vn1_def)
  have "told ?A G f F0 F (clients vn1 ! k) (clients vn2 ! k)" by (rule list_all2_nthD [OF c2(6)]) (simp add: vn1_def k)
  then obtain t where t: "clients vn2 ! k = ?c\<lparr>vs_updates := t\<rparr>" "tracker_ok t ?A" "area_tracks t ?A G (\<lambda>p. f (F p))"
    using k t0(3) by (auto simp: told_def vn1_def)
  have others: "told ?A H h F0 F (clients vn ! j) (clients vn2 ! j)" if "j < length (clients vn)" "j \<noteq> k" for j and H :: "'r image" and h
  proof -
    obtain vn' where "checkUpdate E vn1 = Some vn'" "list_all2 (told ?A H h F0 F) (clients vn1) (clients vn')"
      using checkUpdate_run [OF ok1 grab, of H h] by blast
    then show ?thesis using c2(1) that by (auto simp: list_all2_conv_all_nth vn1_def)
  qed
  have "cursorPos vn2 = cursorPos vn" using c2(5) by (simp add: vn1_def)
  then show ?thesis using that [OF start c2(1-4) _ len t others] by blast
qed

text \<open>On a small screen the rectangles of the update can be counted in 16 bits.\<close>

lemma update_due_few:
  fixes w :: "('p, 'a::len word) View"
  assumes ok: "server_ok (compareFB E) vn fb ct F0 F" and grab: "grabs E F" and k: "k < length (clients vn)"
    and c: "vs_state (clients vn ! k) = S_NORMAL" "denotes (requested (clients vn ! k)) (screen_pts fb)"
    and G: "area_tracks (vs_updates (clients vn ! k)) (screen_pts fb) G (\<lambda>p. vw_translate w (F0 p))"
    and A: "finite (screen_pts fb)" "card (screen_pts fb) < 32768" and due: "update_due E w k vn = Some ui"
  shows "numRects (ui_copied ui) + numRects (ui_changed ui) < 65536"
proof -
  obtain vn1 vn2 fb2 ct2 t where b: "on_client k vs_beginUpdate vn = (Inr True, vn1)" "checkUpdate E vn1 = Some vn2"
      "server_ok (compareFB E) vn2 fb2 ct2 F F" "clients vn2 ! k = (clients vn ! k)\<lparr>vs_updates := t\<rparr>" "tracker_ok t (screen_pts fb)"
      "area_tracks t (screen_pts fb) G (\<lambda>p. vw_translate w (F p))"
    by (rule begin_check [where f = "vw_translate w", OF ok grab k c G]) (rule that; assumption)
  have pb: "vn_pb vn2 = Some fb2" using b(3) by (simp add: server_ok_def)
  obtain s1 where run: "bindA (vs_convertVideo (client_env E vn2 fb2 w)) (\<lambda>_. vs_getUpdateInfo) (clients vn2 ! k) = (Inr ui, s1)"
    using due b(1,2) pb by (auto simp: update_due_def split: prod.splits sum.splits)
  have V: "rect_is_empty (video_area (vs_updates (clients vn2 ! k)))" using b(4,5) by (simp add: tracker_ok_def)
  have t: "area_tracks (vs_updates (clients vn2 ! k)) (screen_pts fb) G (\<lambda>p. vw_translate w (F p))" using b(4,6) by simp
  have q: "denotes (requested (clients vn2 ! k)) (screen_pts fb)" using c(2) b(4) by simp
  show ?thesis by (rule few_rects [OF t V q A run])
qed

text \<open>Serving keeps what makes a client servable, and clears its request if anything was sent.\<close>

definition client_kept :: "'q VEnv \<Rightarrow> VNCSConnectionST \<Rightarrow> VNCSConnectionST \<Rightarrow> bool" where
  "client_kept env c c' \<longleftrightarrow> vs_cp c' = vs_cp c \<and> vs_state c' = vs_state c \<and> vs_id c' = vs_id c \<and> plain_client env c' \<and>
     (requested c' = requested c \<or> denotes (requested c') {})"

lemma writeUpdate_shows:
  fixes w :: "('p, 'a::len word) View" and G' :: "nat \<Rightarrow> 'r image"
  assumes ok: "server_ok (compareFB E) vn fb ct F0 F" and grab: "grabs E F" and sv: "servable E V fb w k vn"
    and link: "update_link (ve_enc (vw_env w)) dec"
    and G: "area_tracks (vs_updates (clients vn ! k)) (screen_pts fb) G (\<lambda>p. vw_translate w (F0 p))"
  shows "\<exists>bs vn' fb' ct'. vn_writeUpdate E V k vn = (Inr (), vn') \<and> server_ok (compareFB E) vn' fb' ct' F F \<and> same_shape fb fb' \<and>
    realOS (vs_writer (clients vn' ! k)) = realOS (vs_writer (clients vn ! k)) @ bs \<and>
    length (clients vn') = length (clients vn) \<and> cursorPos vn' = cursorPos vn \<and>
    client_kept (client_env E vn fb w) (clients vn ! k) (clients vn' ! k) \<and>
    (\<forall>j < length (clients vn). j \<noteq> k \<longrightarrow> told (screen_pts fb) (G' j) (f j) F0 F (clients vn ! j) (clients vn' ! j)) \<and>
    (\<forall>c rest. w_in c = bs @ rest \<longrightarrow> cm_cp c = vs_cp (clients vn ! k) \<longrightarrow> nUpdateRectsLeft c = 0 \<longrightarrow> framebuffer c = G \<longrightarrow>
      viewer_shows dec (screen_pts fb) (screen_pts fb) (\<lambda>p. vw_translate w (F p)) (vs_updates (clients vn' ! k)) rest c)"
proof -
  let ?A = "screen_pts fb" and ?c = "clients vn ! k" and ?f = "vw_translate w"
  have sc: "k < length (clients vn)" "vs_state ?c = S_NORMAL" "uses_view V ?c w" "plain_client (client_env E vn fb w) ?c"
      "screen_ok (vs_cp ?c) (enc_bytes (ve_enc (vw_env w)))" "cp_width (vs_cp ?c) = pb_width fb" "cp_height (vs_cp ?c) = pb_height fb"
      "denotes (requested ?c) ?A" "\<forall>ui. update_due E w k vn = Some ui \<longrightarrow> numRects (ui_copied ui) + numRects (ui_changed ui) < 65536"
    using sv by (simp_all add: servable_def Let_def)
  obtain vn1 vn2 fb2 ct2 t2 where start: "on_client k vs_beginUpdate vn = (Inr True, vn1)"
    and c2: "checkUpdate E vn1 = Some vn2" "server_ok (compareFB E) vn2 fb2 ct2 F F" "same_shape fb fb2" "pb_shows fb2 F" "cursorPos vn2 = cursorPos vn"
    and len: "length (clients vn2) = length (clients vn)"
    and t2: "clients vn2 ! k = ?c\<lparr>vs_updates := t2\<rparr>" "tracker_ok t2 ?A" "area_tracks t2 ?A G (\<lambda>p. ?f (F p))"
    and others: "\<And>j (H :: 'r image) h. j < length (clients vn) \<Longrightarrow> j \<noteq> k \<Longrightarrow> told ?A H h F0 F (clients vn ! j) (clients vn2 ! j)"
    by (rule begin_check [where f = ?f, OF ok grab sc(1,2,8) G]) (rule that; assumption)
  let ?c2 = "?c\<lparr>vs_updates := t2\<rparr>" and ?env = "client_env E vn2 fb2 w"
  have A2: "screen_pts fb2 = ?A" using same_shape_screen [OF c2(3)] by blast
  have img: "?f (pb_at fb2 p) = ?f (F p)" if "p \<in> ?A" for p
    using c2(4) that unfolding A2 [symmetric] by (simp add: pb_shows_def screen_pts_def del: split_paired_All)
  have pl: "plain_client ?env ?c2" by (rule plain_client_env [OF sc(4) c2(5) t2(2)])
  have cp2: "vs_cp ?c2 = vs_cp ?c" "requested ?c2 = requested ?c" "vs_updates ?c2 = t2" by (simp_all add: vs_cp_def)
  have scr: "screen_ok (vs_cp ?c2) (enc_bytes (ve_enc ?env))" using sc(5) by (simp add: cp2)
  have A: "?A = {0..<cp_width (vs_cp ?c2)} \<times> {0..<cp_height (vs_cp ?c2)}" unfolding cp2 sc(6,7) by (rule screen_pts_iff)
  have tr: "area_tracks (vs_updates ?c2) ?A G (ve_image ?env)"
    unfolding cp2 client_env_simps by (rule area_tracks_cong [OF t2(3)]) (simp add: img)
  have req: "denotes (requested ?c2) ?A" using sc(8) by simp
  have apart: "copy_apart (vs_updates ?c2) ?A" using t2(2) unfolding cp2 by (auto simp: copy_apart_def elim!: tracker_okE)
  have few: "numRects (ui_copied ui) + numRects (ui_changed ui) < 65536"
    if "bindA (vs_convertVideo ?env) (\<lambda>_. vs_getUpdateInfo) ?c2 = (Inr ui, s1)" for ui s1
    using sc(9) that start c2(1,2) t2(1) by (simp add: update_due_def server_ok_def)
  have link': "update_link (ve_enc ?env) dec" using link by simp
  obtain bs s' where fin: "vs_finishUpdate ?env ?c2 = (Inr (), s')" "realOS (vs_writer s') = realOS (vs_writer ?c2) @ bs" "plain_client ?env s'"
      "if bs = [] then requested s' = requested ?c2 else denotes (requested s') {}" "vs_cp s' = vs_cp ?c2" "vs_state s' = vs_state ?c2"
      "vs_id s' = vs_id ?c2"
      "\<forall>c rest. w_in c = bs @ rest \<longrightarrow> cm_cp c = vs_cp ?c2 \<longrightarrow> nUpdateRectsLeft c = 0 \<longrightarrow> framebuffer c = G \<longrightarrow>
        viewer_shows dec ?A ?A (ve_image ?env) (vs_updates s') rest c"
    by (rule exE [OF finishUpdate_shows [OF link' pl scr A tr req subset_refl apart]]) (erule few, elim exE conjE, rule that)
  define vn3 where "vn3 = vn2\<lparr>clients := (clients vn2)[k := s']\<rparr>"
  have "vn_pb vn2 = Some fb2" using c2(2) by (simp add: server_ok_def)
  moreover have "finish_client E V vn2 fb2 ?c2 = vs_finishUpdate ?env ?c2"
    using sc(3) [unfolded uses_view_def, rule_format, of ?c2 E vn2 fb2] by (simp add: vs_cp_def)
  ultimately have run: "vn_writeUpdate E V k vn = (Inr (), vn3)"
    using start c2(1) fin(1) t2(1) by (simp add: vn_writeUpdate_def bindA_def vn_checkUpdate_def getting_def on_client_def [of k "finish_client E V vn2 fb2"] vn3_def)
  define r0 where "r0 = (newCMsgReader (vs_cp ?c) G)\<lparr>w_in := bs @ []\<rparr>"
  have "viewer_shows dec ?A ?A (ve_image ?env) (vs_updates s') [] r0"
    using fin(8) [rule_format, of r0 "[]"] unfolding cp2 by (simp add: r0_def newCMsgReader_def)
  then have tk': "tracker_ok (vs_updates s') ?A"
    using fin(3) unfolding viewer_shows_def area_tracks_def plain_client_def tracker_ok_def by blast
  have ok3: "server_ok (compareFB E) vn3 fb2 ct2 F F" unfolding vn3_def by (rule server_ok_client [OF c2(2)]) (simp add: tk' A2)
  have at3: "clients vn3 ! k = s'" "length (clients vn3) = length (clients vn)" using sc(1) len by (simp_all add: vn3_def)
  have others: "told ?A (G' j) (f j) F0 F (clients vn ! j) (clients vn3 ! j)" if "j < length (clients vn)" "j \<noteq> k" for j
    using others [OF that] that by (simp add: vn3_def)
  have shows_F: "viewer_shows dec ?A ?A (\<lambda>p. ?f (F p)) (vs_updates s') rest c" if "viewer_shows dec ?A ?A (ve_image ?env) (vs_updates s') rest c" for c rest
    using that img area_tracks_cong [of "vs_updates s'" ?A _ "\<lambda>p. ?f (pb_at fb2 p)" "\<lambda>p. ?f (F p)"]
    unfolding viewer_shows_def client_env_simps by metis
  have "realOS (vs_writer s') = realOS (vs_writer ?c) @ bs" using fin(2) by simp
  moreover have "\<forall>c rest. w_in c = bs @ rest \<longrightarrow> cm_cp c = vs_cp ?c \<longrightarrow> nUpdateRectsLeft c = 0 \<longrightarrow> framebuffer c = G \<longrightarrow>
      viewer_shows dec ?A ?A (\<lambda>p. ?f (F p)) (vs_updates s') rest c"
    using fin(8) shows_F unfolding cp2 by blast
  moreover have "client_kept (client_env E vn fb w) ?c (clients vn3 ! k)"
    using fin(3-7) unfolding client_kept_def at3 cp2 plain_client_def needRenderedCursor_def client_env_simps c2(5) by (simp split: if_splits)
  moreover have "cursorPos vn3 = cursorPos vn" using c2(5) by (simp add: vn3_def)
  ultimately show ?thesis using run ok3 c2(3) at3 others
    by (intro exI [of _ bs] exI [of _ vn3] exI [of _ fb2] exI [of _ ct2]) blast
qed

subsection \<open>What the clients are told\<close>

text \<open>C4: \<open>checkUpdate\<close> keeps every client's account of the screen. Once the framebuffer is grabbed, with or without comparing, what is
  passed on to the clients accounts for what changed on the screen since the last time: a client whose tracker accounted
  for the difference between what its viewer shows and the old screen now does so for the new one. The framebuffer then
  shows the screen and nothing is left to report. The rendered cursor is drawn over the new screen in exactly this case: a client needs
  it, and it was marked invalid or something was reported under it; in every other case it and its flag are left alone. So, while a
  client needs it, a cursor that was invalid or correctly drawn over the old screen is correctly drawn over the new one. Of a cursor that was
  neither nothing is claimed: that case occurs (C32).\<close>

theorem checkUpdate_accounts:
  assumes "server_ok (compareFB E) vn fb ct F0 F" and "grabs E F"
  shows "\<exists>vn' fb' ct'. checkUpdate E vn = Some vn' \<and> server_ok (compareFB E) vn' fb' ct' F F \<and> same_shape fb fb' \<and> pb_shows fb' F \<and>
    pts (changed (ct_sut ct')) = {} \<and> pts (copied (ct_sut ct')) = {} \<and> cursor vn' = cursor vn \<and> cursorPos vn' = cursorPos vn \<and>
    cursor_step (vn_needRenderedCursor (se_now E) vn) (reported ct) fb vn fb' vn' F \<and>
    (vn_needRenderedCursor (se_now E) vn \<and> (renderedCursorInvalid vn \<or> cursor_drawn fb vn F0) \<longrightarrow>
       \<not> renderedCursorInvalid vn' \<and> cursor_drawn fb' vn' F) \<and>
    list_all2 (told (screen_pts fb) G f F0 F) (clients vn) (clients vn')"
proof -
  obtain vn' fb' ct' where r: "checkUpdate E vn = Some vn'" "server_ok (compareFB E) vn' fb' ct' F F" "same_shape fb fb'" "pb_shows fb' F"
      "pts (changed (ct_sut ct')) = {}" "pts (copied (ct_sut ct')) = {}" "cursor vn' = cursor vn" "cursorPos vn' = cursorPos vn"
      "cursor_step (vn_needRenderedCursor (se_now E) vn) (reported ct) fb vn fb' vn' F"
      "list_all2 (told (screen_pts fb) G f F0 F) (clients vn) (clients vn')"
    using checkUpdate_run [OF assms, of G f] by blast
  have "pb_getRect fb' = pb_getRect fb" using same_shape_screen [OF r(3)] by simp
  from cursor_stays_drawn [OF assms(1) r(9) this r(7,8)] r show ?thesis by blast
qed

text \<open>A desktop whose screen shows \<open>F\<close>.\<close>

definition image_grab :: "'p image \<Rightarrow> region \<Rightarrow> 'p PixelBuffer \<Rightarrow> 'p PixelBuffer" where
  "image_grab F r fb = fb\<lparr>pb_data := map (\<lambda>i.
     let p = (int i mod pb_stride fb, int i div pb_stride fb)
     in if list_ex (\<lambda>b. INBOX b (fst p) (snd p)) (rects r) then F p else pb_data fb ! i) [0..<length (pb_data fb)]\<rparr>"

definition image_env :: "'p \<Rightarrow> bool \<Rightarrow> 'p image \<Rightarrow> 'p ServerEnv" where
  "image_env q comparing F = \<lparr>junk = (\<lambda>_. q), grabRegion = image_grab F, compareFB = comparing, se_now = 0\<rparr>"

lemma image_env_grabs:
  fixes F :: "'p image"
  shows "grabs (image_env q comparing F) F"
  unfolding grabs_def
proof (intro allI impI)
  fix fb :: "'p PixelBuffer" and r Q M assume r: "denotes r Q" and fb: "pb_shows fb M"
  let ?fb = "image_grab F r fb"
  have same: "same_shape fb ?fb" "length (pb_data ?fb) = length (pb_data fb)" by (simp_all add: same_shape_def image_grab_def)
  then have wf: "wf_pb ?fb" using fb by (simp add: pb_shows_def wf_pb_def same_shape_def)
  have "pb_at ?fb (x, y) = (if (x, y) \<in> Q then F (x, y) else M (x, y))" if p: "(x, y) \<in> rpts (pb_getRect fb)" for x y
  proof -
    have b: "0 \<le> x" "x < pb_stride fb" "0 \<le> y" "y < pb_height fb" and len: "int (length (pb_data fb)) = pb_stride fb * pb_height fb"
      using p fb by (simp_all add: pb_getRect_def pb_shows_def wf_pb_def)
    define i where "i = nat (x + y * pb_stride fb)"
    have i: "i < length (pb_data fb)" "int i = x + y * pb_stride fb" using row_index [OF b] len by (simp_all add: i_def)
    have xy: "int i mod pb_stride fb = x" "int i div pb_stride fb = y" using b by (simp_all add: i(2))
    have q: "list_ex (\<lambda>b. INBOX b x y) (rects r) \<longleftrightarrow> (x, y) \<in> Q" using r by (auto simp: denotes_def pts_def list_ex_iff)
    have "pb_data fb ! i = M (x, y)" using fb p by (auto simp: pb_shows_def pb_at_def data_at_def i_def)
    moreover have "pb_at ?fb (x, y) = pb_data ?fb ! i" by (simp add: pb_at_def data_at_def image_grab_def i_def)
    ultimately show ?thesis using i(1) by (simp add: image_grab_def xy q Let_def)
  qed
  then show "pb_shows (grabRegion (image_env q comparing F) r fb) (\<lambda>p. if p \<in> Q then F p else M p) \<and> same_shape fb (grabRegion (image_env q comparing F) r fb)"
    using wf same(1) same_shape_screen [OF same(1)] by (auto simp: pb_shows_def image_env_def)
qed

text \<open>A server with a black screen of 8 by 8 pixels that has become \<open>small_image\<close>, and one client.\<close>

definition small_fb :: "8 word PixelBuffer" where
  "small_fb = \<lparr>pb_width = 8, pb_height = 8, pb_stride = 8, pb_data = replicate 64 0\<rparr>"

definition small_comparer :: "8 word ComparingUpdateTracker" where
  "small_comparer = \<lparr>ct_sut = small_tracker, oldFb = empty_buffer, firstCompare = True\<rparr>"

definition waiting_client :: VNCSConnectionST where
  "waiting_client = small_client\<lparr>vs_updates := newSimpleUpdateTracker True\<rparr>"

definition small_server :: "8 word VNCServerST" where
  "small_server = (newVNCServerST [] 0)\<lparr>vn_pb := Some small_fb, comparer := Some small_comparer, clients := [waiting_client]\<rparr>"

lemma small_fb_facts: "pb_shows small_fb (\<lambda>_. 0)" "short_buffer small_fb" "screen_pts small_fb = {0..<8} \<times> {0..<8}" "pb_width small_fb = 8" "pb_height small_fb = 8"
proof -
  show "pb_shows small_fb (\<lambda>_. 0)"
    using row_index [of _ 8 _ 8] by (auto simp: pb_shows_def wf_pb_def pb_getRect_def pb_at_def data_at_def small_fb_def)
qed (simp_all add: small_fb_def short_buffer_def screen_pts_iff)

lemma small_tracker_ok: "tracker_ok small_tracker ({0..<8} \<times> {0..<8})"
proof -
  have "denotes (changed small_tracker) ({1..<3} \<times> {0..<2})" "denotes (copied small_tracker) ({4..<7} \<times> {3..<8})"
    by (simp_all add: denotes_def small_tracker_def small_update_pts)
  moreover have "within ({0..<8} \<times> {0..<8}) (copy_delta small_tracker) ({4..<7} \<times> {3..<8})"
    "short_rect (video_area small_tracker)" "rect_is_empty (video_area small_tracker)"
    by (auto simp: within_def small_tracker_def newSimpleUpdateTracker_def rect_clear_def short_rect_def is_short_def rect_is_empty_def)
  moreover have "{1..<3 :: int} \<times> {0..<2} \<subseteq> {0..<8} \<times> {0..<8 :: int}" "{4..<7 :: int} \<times> {3..<8} \<subseteq> {0..<8} \<times> {0..<8 :: int}" by auto
  ultimately show ?thesis unfolding tracker_ok_def by blast
qed

lemma new_cursor: "cursor (newVNCServerST name now) = \<lparr>sc_pb = empty_buffer, sc_mask = [], sc_hotspot = \<lparr>px = 0, py = 0\<rparr>\<rparr>"
  "cursorTL (newVNCServerST name now) = \<lparr>px = 0, py = 0\<rparr>" "cursorPos (newVNCServerST name now) = \<lparr>px = 0, py = 0\<rparr>"
  "wf_cursor (cursor (newVNCServerST name now))"
  by (simp_all add: newVNCServerST_def cursorTL_def point_subtract_def wf_cursor_def wf_pb_def empty_buffer_def maskLen_def)

lemma small_server_ok: "server_ok comparing small_server small_fb small_comparer (\<lambda>_. 0) small_image"
proof -
  have "\<forall>p \<in> screen_pts small_fb. p \<notin> pts (changed small_tracker) \<union> pts (copied small_tracker) \<longrightarrow> 0 = small_image p"
    by (auto simp: small_image_def small_tracker_def small_update_pts)
  moreover have "cursorTL small_server = \<lparr>px = 0, py = 0\<rparr>" "wf_cursor (cursor small_server)"
    using new_cursor [of "[]" 0] by (simp_all add: small_server_def cursorTL_def)
  ultimately show ?thesis
    using small_fb_facts small_tracker_ok small_tracker_tracks tracker_ok_empty unfolding server_ok_def
    by (auto simp: small_server_def small_comparer_def waiting_client_def)
qed

lemma checkUpdate_accounts_witness:
  "\<exists>vn' fb'. checkUpdate (image_env 0 True small_image) small_server = Some vn' \<and> vn_pb vn' = Some fb' \<and> pb_at fb' (2, 1) = 5 \<and>
    area_tracks (vs_updates (clients vn' ! 0)) ({0..<8} \<times> {0..<8}) (\<lambda>_. 0) small_image"
proof -
  have ok: "server_ok (compareFB (image_env 0 True small_image)) small_server small_fb small_comparer (\<lambda>_. 0) small_image"
    by (rule small_server_ok)
  obtain vn' fb' ct' where r: "checkUpdate (image_env 0 True small_image) small_server = Some vn'"
      "server_ok (compareFB (image_env 0 True small_image)) vn' fb' ct' small_image small_image" "same_shape small_fb fb'" "pb_shows fb' small_image"
      "list_all2 (told (screen_pts small_fb) (\<lambda>_. 0) id (\<lambda>_. 0) small_image) (clients small_server) (clients vn')"
    using checkUpdate_accounts [OF ok image_env_grabs, of "\<lambda>_. 0" id] by blast
  have "clients small_server = [waiting_client]" by (simp add: small_server_def)
  then have t: "told ({0..<8} \<times> {0..<8}) (\<lambda>_. 0) id (\<lambda>_. 0) small_image waiting_client (clients vn' ! 0)"
    using r(5) small_fb_facts(3) by (auto simp: list_all2_Cons1)
  have "area_tracks (vs_updates waiting_client) ({0..<8} \<times> {0..<8}) (\<lambda>_. 0) (\<lambda>_. 0 :: 8 word)"
    by (rule area_tracksI [of _ "{}" "{}"])
      (auto simp: waiting_client_def newSimpleUpdateTracker_def rect_clear_def short_rect_def is_short_def within_def moved_def)
  then have "area_tracks (vs_updates (clients vn' ! 0)) ({0..<8} \<times> {0..<8}) (\<lambda>_. 0) small_image"
    using t by (auto simp: told_def)
  moreover have "vn_pb vn' = Some fb'" using r(2) by (simp add: server_ok_def)
  moreover have "pb_at fb' (2, 1) = 5"
    using r(3,4) by (auto simp: pb_shows_def pb_getRect_def same_shape_def small_fb_def small_image_def)
  ultimately show ?thesis using r(1) by blast
qed

subsection \<open>A stale rendered cursor\<close>

lemma told_needs_cursor:
  "list_all2 (told A G f F0 F) cs cs' \<Longrightarrow> list_ex (needs_cursor pos t) cs' \<longleftrightarrow> list_ex (needs_cursor pos t) cs"
  by (induction rule: list_all2_induct) (auto simp: told_def needs_cursor_def vs_cp_def)

lemma checkUpdate_nothing:
  assumes ok: "server_ok b vn fb ct F0 F" and none: "pts (changed (ct_sut ct)) \<union> pts (copied (ct_sut ct)) = {}"
    and still: "\<not> (vn_needRenderedCursor (se_now E) vn \<and> renderedCursorInvalid vn)"
  shows "\<exists>ct'. checkUpdate E vn = Some (vn\<lparr>comparer := Some ct'\<rparr>)"
proof -
  have s: "vn_pb vn = Some fb" "comparer vn = Some ct" "short_buffer fb" "screen_pts fb \<noteq> {}" "tracker_ok (ct_sut ct) (screen_pts fb)"
      "area_tracks (ct_sut ct) (screen_pts fb) F0 F" "\<exists>M. pb_shows fb M"
    using ok by (auto simp: server_ok_def)
  obtain screen where screen: "Region_of_rect (pb_getRect fb) = Some screen" "denotes screen (screen_pts fb)" using s(3,7) screen_region by blast
  obtain t ui C K where g: "getUpdateInfo (ct_sut ct) screen = Some (t, ui)" "denotes (ui_changed ui) C" "denotes (ui_copied ui) K"
      "rect_is_empty (ui_video_area ui)" "C = pts (changed (ct_sut ct))" "K = pts (copied (ct_sut ct)) - C"
    using screen_update [OF s(5,6) screen(2) short_screen [OF s(3)] s(4)] by metis
  have "ui_is_empty ui"
    using region_is_empty_iff [OF g(2)] region_is_empty_iff [OF g(3)] g(4-6) none by (auto simp: ui_is_empty_def)
  then show ?thesis using s(1,2) screen(1) g(1) still by (auto simp: checkUpdate_def)
qed

text \<open>C32: The rendered cursor can go stale. While no client needs it, which is so for a second after each move of a client's pointer, an
  update under it is passed on, also to a client that will need it again, but the cursor is neither drawn anew nor marked
  invalid. When a client needs it again later, a check finds nothing to do, and what is drawn to that client has the old
  background where the cursor is transparent.\<close>

theorem rendered_cursor_goes_stale:
  assumes ok: "server_ok (compareFB E) vn fb ct F0 F" and grab: "grabs E F"
    and idle: "\<not> vn_needRenderedCursor (se_now E) vn" and drawn: "\<not> renderedCursorInvalid vn" "cursor_drawn fb vn F0"
    and p: "p \<in> rpts (cursor_rect fb vn)" "cursor_pixel (cursor vn) (fst p - px (cursorPos vn), snd p - py (cursorPos vn)) = None" "F p \<noteq> F0 p"
  shows "\<exists>vn1 vn2 fb'. checkUpdate E vn = Some vn1 \<and> checkUpdate E' vn1 = Some vn2 \<and> vn_pb vn2 = Some fb' \<and> same_shape fb fb' \<and> pb_shows fb' F \<and>
    (\<forall>t. vn_needRenderedCursor t vn2 = vn_needRenderedCursor t vn) \<and> \<not> renderedCursorInvalid vn2 \<and>
    p \<in> rpts (sc_getRect (renderedCursor vn2) (renderedCursorTL vn2)) \<and> rendered_image vn2 p = F0 p"
proof -
  obtain vn1 fb1 ct1 where c: "checkUpdate E vn = Some vn1" "server_ok (compareFB E) vn1 fb1 ct1 F F" "same_shape fb fb1" "pb_shows fb1 F"
      "pts (changed (ct_sut ct1)) = {}" "pts (copied (ct_sut ct1)) = {}" "cursor vn1 = cursor vn" "cursorPos vn1 = cursorPos vn"
      "cursor_step (vn_needRenderedCursor (se_now E) vn) (reported ct) fb vn fb1 vn1 F"
      "list_all2 (told (screen_pts fb) (\<lambda>_. ()) (\<lambda>_. ()) F0 F) (clients vn) (clients vn1)"
    using checkUpdate_run [OF ok grab, of "\<lambda>_. ()" "\<lambda>_. ()"] by blast
  have same: "renderedCursor vn1 = renderedCursor vn" "renderedCursorTL vn1 = renderedCursorTL vn" "\<not> renderedCursorInvalid vn1"
    using c(9) idle drawn(1) by (simp_all add: cursor_step_def)
  obtain ct2 where again: "checkUpdate E' vn1 = Some (vn1\<lparr>comparer := Some ct2\<rparr>)"
    using checkUpdate_nothing [OF c(2), of E'] c(5,6) same(3) by auto
  define vn2 where "vn2 = vn1\<lparr>comparer := Some ct2\<rparr>"
  have r2: "renderedCursor vn2 = renderedCursor vn" "renderedCursorTL vn2 = renderedCursorTL vn" "\<not> renderedCursorInvalid vn2"
    by (simp_all add: vn2_def same)
  have "with_cursor (cursor vn) (cursorPos vn) F0 p = F0 p" using p(2) by (simp add: with_cursor_def case_prod_unfold)
  then have "rendered_image vn2 p = F0 p" "p \<in> rpts (sc_getRect (renderedCursor vn2) (renderedCursorTL vn2))"
    using drawn(2) p(1) by (simp_all add: cursor_drawn_def rendered_image_def r2)
  moreover have "vn_needRenderedCursor t vn2 = vn_needRenderedCursor t vn" for t
    using told_needs_cursor [OF c(10)] by (simp add: vn_needRenderedCursor_def vn2_def c(8))
  moreover have "vn_pb vn2 = Some fb1" using c(2) by (simp add: vn2_def server_ok_def)
  ultimately show ?thesis using c(1,3,4) again r2(3) unfolding vn2_def [symmetric] by blast
qed

definition pointed_server :: "8 word VNCServerST" where
  "pointed_server = small_server\<lparr>cursorPos := \<lparr>px = 2, py = 1\<rparr>,
     cursor := \<lparr>sc_pb = \<lparr>pb_width = 1, pb_height = 1, pb_stride = 1, pb_data = [7]\<rparr>, sc_mask = [0], sc_hotspot = \<lparr>px = 0, py = 0\<rparr>\<rparr>,
     renderedCursorTL := \<lparr>px = 2, py = 1\<rparr>, renderedCursor := \<lparr>pb_width = 1, pb_height = 1, pb_stride = 1, pb_data = [0]\<rparr>\<rparr>"

lemma rendered_cursor_goes_stale_witness:
  "\<exists>vn1 vn2 fb'. checkUpdate (image_env 0 True small_image) pointed_server = Some vn1 \<and>
    checkUpdate ((image_env 0 True small_image)\<lparr>se_now := 2\<rparr>) vn1 = Some vn2 \<and> vn_needRenderedCursor 2 vn2 \<and> \<not> renderedCursorInvalid vn2 \<and>
    vn_pb vn2 = Some fb' \<and> pb_at fb' (2, 1) = 5 \<and> rendered_image vn2 (2, 1) = 0"
proof -
  let ?E = "image_env 0 True small_image"
  have cl: "clients pointed_server = [waiting_client]" "clients small_server = [waiting_client]" "cursorPos pointed_server = \<lparr>px = 2, py = 1\<rparr>"
      "cursorTL pointed_server = \<lparr>px = 2, py = 1\<rparr>" "\<not> renderedCursorInvalid pointed_server"
    by (simp_all add: pointed_server_def small_server_def cursorTL_def point_subtract_def newVNCServerST_def)
  have "wf_cursor (cursor pointed_server)" by (simp add: pointed_server_def wf_cursor_def wf_pb_def maskLen_def maskBytesPerRow_def)
  then have ok: "server_ok (compareFB ?E) pointed_server small_fb small_comparer (\<lambda>_. 0) small_image"
    using small_server_ok [of True] small_fb_facts(4,5) unfolding server_ok_def cl
    by (simp add: pointed_server_def image_env_def)
  have need: "vn_needRenderedCursor t pointed_server \<longleftrightarrow> t > 0" for t
    by (simp add: vn_needRenderedCursor_def cl needs_cursor_def waiting_client_def small_client_def newVNCSConnectionST_def newSMsgWriter_def
        vs_cp_def small_screen_def point_equals_def)
  have R: "cursor_rect small_fb pointed_server = mkRect 2 1 3 2"
    unfolding cursor_rect_def cl
    by (simp add: pointed_server_def sc_getRect_def point_translate_def small_fb_def pb_getRect_def rect_intersect_def Let_def mkRect_def)
  have none: "cursor_pixel (cursor pointed_server) (0, 0) = None"
    by (simp add: cursor_pixel_def opaque_def pointed_server_def mask_bit_def maskBytesPerRow_def)
  have "rendered_image pointed_server p = with_cursor (cursor pointed_server) (cursorPos pointed_server) (\<lambda>_. 0) p"
    if "p \<in> rpts (mkRect 2 1 3 2)" for p
  proof -
    have "p = (2, 1)" using that by (cases p) auto
    then show ?thesis using none by (simp add: with_cursor_def cl) (simp add: rendered_image_def pointed_server_def pb_at_def data_at_def)
  qed
  then have drawn: "cursor_drawn small_fb pointed_server (\<lambda>_. 0)"
    unfolding cursor_drawn_def R by (simp add: pointed_server_def sc_getRect_def point_translate_def mkRect_def)
  have p: "(2, 1) \<in> rpts (cursor_rect small_fb pointed_server)" by (simp add: R)
  have "small_image (2, 1) \<noteq> (0 :: 8 word)" by (simp add: small_image_def)
  then obtain vn1 vn2 fb' where r: "checkUpdate ?E pointed_server = Some vn1" "checkUpdate (?E\<lparr>se_now := 2\<rparr>) vn1 = Some vn2"
      "vn_pb vn2 = Some fb'" "pb_shows fb' small_image" "\<forall>t. vn_needRenderedCursor t vn2 = vn_needRenderedCursor t pointed_server"
      "\<not> renderedCursorInvalid vn2" "rendered_image vn2 (2, 1) = 0" "same_shape small_fb fb'"
    using rendered_cursor_goes_stale [OF ok image_env_grabs _ cl(5) drawn p, of "?E\<lparr>se_now := 2\<rparr>"] need none
    by (auto simp: cl image_env_def)
  have "pb_at fb' (2, 1) = 5" using r(4,8) by (auto simp: pb_shows_def pb_getRect_def same_shape_def small_fb_def small_image_def)
  then show ?thesis using r need by (intro exI [of _ vn1] exI [of _ vn2] exI [of _ fb']) simp
qed

end
