(* ===== verification/Rfb_System.thy ===== *)
theory Rfb_System
  imports Rfb_ServerCorrect
begin

text \<open>
  The desktop, the server and its viewers together: the desktop draws and copies, the viewers ask, and the server answers
  them, in any order. The bytes of every connection are read by \<open>CMsgReader\<close>.
\<close>

subsection \<open>The viewers\<close>

text \<open>A viewer has the pixels the server makes for it, its decoders, and what it was when the server had sent it
  the bytes \<open>vr_before\<close>.\<close>

record ('p, 'q) Viewer =
  vr_view :: "('p, 'q) View"
  vr_dec :: "'q decoders"
  vr_start :: "'q CMsgReader"
  vr_before :: "u8 list"

text \<open>After the bytes \<open>bs\<close>, whatever follows them, the viewer shows \<open>G\<close>.\<close>

definition shown_after :: "('p, 'q) Viewer \<Rightarrow> u8 list \<Rightarrow> 'q image \<Rightarrow> bool" where
  "shown_after v bs G \<longleftrightarrow> (\<forall>rest. \<exists>n c. cm_readMsgs (vr_dec v) n ((vr_start v)\<lparr>w_in := bs @ rest\<rparr>) = (Inr (), c) \<and> w_in c = rest \<and>
     cm_cp c = cm_cp (vr_start v) \<and> nUpdateRectsLeft c = 0 \<and> framebuffer c = G)"

lemma shown_after_update:
  assumes old: "shown_after v bs G" and cp: "cm_cp (vr_start v) = cp"
    and new: "\<And>c rest. w_in c = bs' @ rest \<Longrightarrow> cm_cp c = cp \<Longrightarrow> nUpdateRectsLeft c = 0 \<Longrightarrow> framebuffer c = G \<Longrightarrow>
      viewer_shows (vr_dec v) A P F t rest c"
  shows "shown_after v (bs @ bs') (\<lambda>p. if p \<in> P then F p else G p) \<and> area_tracks t A (\<lambda>p. if p \<in> P then F p else G p) F"
proof -
  let ?G' = "\<lambda>p. if p \<in> P then F p else G p"
  have run: "\<exists>n c. cm_readMsgs (vr_dec v) n ((vr_start v)\<lparr>w_in := (bs @ bs') @ rest\<rparr>) = (Inr (), c) \<and> w_in c = rest \<and>
     cm_cp c = cm_cp (vr_start v) \<and> nUpdateRectsLeft c = 0 \<and> framebuffer c = ?G' \<and> area_tracks t A ?G' F" for rest
  proof -
    obtain n1 c1 where 1: "cm_readMsgs (vr_dec v) n1 ((vr_start v)\<lparr>w_in := bs @ bs' @ rest\<rparr>) = (Inr (), c1)" "w_in c1 = bs' @ rest"
        "cm_cp c1 = cp" "nUpdateRectsLeft c1 = 0" "framebuffer c1 = G"
      using old cp unfolding shown_after_def by blast
    obtain n2 c2 where 2: "cm_readMsgs (vr_dec v) n2 c1 = (Inr (), c2)" "w_in c2 = rest" "cm_cp c2 = cm_cp c1" "nUpdateRectsLeft c2 = 0"
        "\<forall>p \<in> P. framebuffer c2 p = F p" "\<forall>p. p \<notin> P \<longrightarrow> framebuffer c2 p = framebuffer c1 p" "area_tracks t A (framebuffer c2) F"
      using new [OF 1(2-5)] unfolding viewer_shows_def by blast
    have "framebuffer c2 = ?G'"
    proof (rule ext)
      show "framebuffer c2 p = ?G' p" for p
        by (cases "p \<in> P") (use 2(5) 2(6) [rule_format, of p] 1(5) in simp_all)
    qed
    moreover have "cm_readMsgs (vr_dec v) (n1 + n2) ((vr_start v)\<lparr>w_in := (bs @ bs') @ rest\<rparr>) = (Inr (), c2)"
      using 1(1) 2(1) by (simp add: cm_readMsgs_add bindA_def)
    ultimately show ?thesis using 2 1(3) cp by (intro exI [of _ "n1 + n2"] exI [of _ c2]) simp
  qed
  show ?thesis unfolding shown_after_def using run by blast
qed

text \<open>A client that draws its own cursor, shows no video, asks for the whole screen or for nothing, and needs no colour map.\<close>

definition viewer_fits :: "'p Views \<Rightarrow> 'p PixelBuffer \<Rightarrow> ('p, 'a::len word) Viewer \<Rightarrow> VNCSConnectionST \<Rightarrow> bool" where
  "viewer_fits V fb v c \<longleftrightarrow> vs_state c = S_NORMAL \<and> uses_view V c (vr_view v) \<and> update_link (ve_enc (vw_env (vr_view v))) (vr_dec v) \<and>
     screen_ok (vs_cp c) (enc_bytes (ve_enc (vw_env (vr_view v)))) \<and> cp_width (vs_cp c) = pb_width fb \<and> cp_height (vs_cp c) = pb_height fb \<and>
     trueColour (cp_pf (vs_cp c)) \<and> cm_cp (vr_start v) = vs_cp c \<and>
     (denotes (requested c) {} \<or> denotes (requested c) (screen_pts fb)) \<and>
     writer_idle (vs_writer c) \<and> currentEncoding (vs_cp c) \<in> {encodingRaw, encodingRRE, encodingHextile} \<and>
     rect_is_empty (video_area (vs_updates c)) \<and> rect_is_empty (renderedCursorRect c) \<and> \<not> removeRenderedCursor c \<and> \<not> drawRenderedCursor c"

text \<open>The viewer has been sent what shows \<open>G\<close>, and the client's tracker accounts for the rest.\<close>

definition viewer_follows :: "'p PixelBuffer \<Rightarrow> 'p image \<Rightarrow> ('p, 'q) Viewer \<Rightarrow> VNCSConnectionST \<Rightarrow> bool" where
  "viewer_follows fb F0 v c \<longleftrightarrow> (\<exists>bs G. realOS (vs_writer c) = vr_before v @ bs \<and> shown_after v bs G \<and>
     area_tracks (vs_updates c) (screen_pts fb) G (\<lambda>p. vw_translate (vr_view v) (F0 p)))"

definition viewer_ok :: "'p Views \<Rightarrow> 'p PixelBuffer \<Rightarrow> 'p image \<Rightarrow> ('p, 'a::len word) Viewer \<Rightarrow> VNCSConnectionST \<Rightarrow> bool" where
  "viewer_ok V fb F0 v c \<longleftrightarrow> viewer_fits V fb v c \<and> viewer_follows fb F0 v c"

subsection \<open>The steps\<close>

text \<open>The state is the server and the screen. The desktop reports what it draws and copies; a viewer's request is for the whole
  screen; \<open>serve\<close> is \<open>writeFramebufferUpdate\<close>, at a time at which the client needs no rendered cursor, for an update whose
  rectangles can be counted in 16 bits.\<close>

inductive sys_step :: "bool \<Rightarrow> 'p Views \<Rightarrow> ('p, 'a::len word) Viewer list \<Rightarrow> 'p VNCServerST \<times> 'p image \<Rightarrow> 'p VNCServerST \<times> 'p image \<Rightarrow> bool"
  for comparing :: bool and V :: "'p Views" and vs :: "('p, 'a word) Viewer list" where
  draw: "sys_step comparing V vs (vn, F) (vn', F')"
    if "vn_pb vn = Some fb" "denotes r D" "D \<subseteq> screen_pts fb" "\<forall>p \<in> screen_pts fb. p \<notin> D \<longrightarrow> F' p = F p" "vn_add_changed r vn = Some vn'"
| copy: "sys_step comparing V vs (vn, F) (vn', F')"
    if "vn_pb vn = Some fb" "denotes r D" "D \<subseteq> screen_pts fb" "within (screen_pts fb) d D" "\<forall>p \<in> screen_pts fb. F' p = moved D d F p"
      "vn_add_copied r d vn = Some vn'"
| request: "sys_step comparing V vs (vn, F) (vn', F)"
    if "vn_pb vn = Some fb" "k < length (clients vn)"
      "vn_request (client_env E vn fb (vr_view (vs ! k))) k (pb_getRect fb) incremental vn = (Inr (), vn')"
| serve: "sys_step comparing V vs (vn, F) (vn', F)"
    if "grabs E F" "compareFB E = comparing" "k < length (clients vn)" "\<not> needs_cursor (cursorPos vn) (se_now E) (clients vn ! k)"
      "\<forall>ui. update_due E (vr_view (vs ! k)) k vn = Some ui \<longrightarrow> numRects (ui_copied ui) + numRects (ui_changed ui) < 65536"
      "vn_writeUpdate E V k vn = (Inr (), vn')"

inductive_cases sys_stepE: "sys_step comparing V vs (vn, F) (vn', F')"

abbreviation sys_run :: "bool \<Rightarrow> 'p Views \<Rightarrow> ('p, 'a::len word) Viewer list \<Rightarrow> 'p VNCServerST \<times> 'p image \<Rightarrow> 'p VNCServerST \<times> 'p image \<Rightarrow> bool" where
  "sys_run comparing V vs \<equiv> rtranclp (sys_step comparing V vs)"

text \<open>The invariant: server and viewers account for the screen \<open>F\<close>.\<close>

definition sys_ok :: "bool \<Rightarrow> 'p Views \<Rightarrow> ('p, 'a::len word) Viewer list \<Rightarrow> 'p PixelBuffer \<Rightarrow> 'p VNCServerST \<times> 'p image \<Rightarrow> bool" where
  "sys_ok comparing V vs fb0 = (\<lambda>(vn, F). \<exists>fb ct F0. same_shape fb0 fb \<and> server_ok comparing vn fb ct F0 F \<and> list_all2 (viewer_ok V fb F0) vs (clients vn))"

text \<open>At the start the desktop has set its framebuffer and every viewer has just been let in: all of the screen is reported as
  changed, to the server's tracker by its constructor and to a client's by \<open>authSuccess\<close>.\<close>

definition fresh_viewer :: "'p Views \<Rightarrow> 'p PixelBuffer \<Rightarrow> ('p, 'a::len word) Viewer \<Rightarrow> VNCSConnectionST \<Rightarrow> bool" where
  "fresh_viewer V fb v c \<longleftrightarrow> viewer_fits V fb v c \<and> realOS (vs_writer c) = vr_before v \<and> nUpdateRectsLeft (vr_start v) = 0 \<and>
     denotes (changed (vs_updates c)) (screen_pts fb) \<and> denotes (copied (vs_updates c)) {} \<and> short_rect (video_area (vs_updates c))"

definition sys_start :: "'p Views \<Rightarrow> ('p, 'a::len word) Viewer list \<Rightarrow> 'p PixelBuffer \<Rightarrow> 'p VNCServerST \<Rightarrow> bool" where
  "sys_start V vs fb vn \<longleftrightarrow> vn_pb vn = Some fb \<and> comparer vn = newComparingUpdateTracker fb \<and> wf_pb fb \<and> short_buffer fb \<and> screen_pts fb \<noteq> {} \<and>
     wf_cursor (cursor vn) \<and> px (cursorTL vn) \<le> pb_width fb \<and> py (cursorTL vn) \<le> pb_height fb \<and> list_all2 (fresh_viewer V fb) vs (clients vn)"

subsection \<open>What the desktop does\<close>

lemma server_ok_report:
  assumes ok: "server_ok b vn fb ct F0 F" and t: "tracker_ok t (screen_pts fb)" "area_tracks t (screen_pts fb) F0 F'"
    and grow: "pts (changed (ct_sut ct)) \<union> pts (copied (ct_sut ct)) \<union> D \<subseteq> pts (changed t) \<union> pts (copied t)"
    and F': "\<forall>p \<in> screen_pts fb. p \<notin> D \<longrightarrow> F' p = F p"
  shows "server_ok b (vn\<lparr>comparer := Some (ct\<lparr>ct_sut := t\<rparr>)\<rparr>) fb (ct\<lparr>ct_sut := t\<rparr>) F0 F'"
proof -
  obtain M where M: "pb_shows fb M" "\<forall>p \<in> screen_pts fb. p \<notin> pts (changed (ct_sut ct)) \<union> pts (copied (ct_sut ct)) \<longrightarrow> M p = F p"
    using ok unfolding server_ok_def by blast
  have "M p = F' p" if "p \<in> screen_pts fb" "p \<notin> pts (changed t) \<union> pts (copied t)" for p
  proof -
    have "p \<notin> pts (changed (ct_sut ct)) \<union> pts (copied (ct_sut ct))" "p \<notin> D" using grow that(2) by blast+
    then show ?thesis using M(2) F' that(1) by metis
  qed
  then show ?thesis using ok t M(1) unfolding server_ok_def by (auto simp: cursorTL_def)
qed

lemma draw_ok:
  fixes F :: "'p image"
  assumes ok: "server_ok b vn fb ct F0 F" and r: "denotes r D" "D \<subseteq> screen_pts fb"
    and F': "\<forall>p \<in> screen_pts fb. p \<notin> D \<longrightarrow> F' p = F p" and run: "vn_add_changed r vn = Some vn'"
  shows "\<exists>ct'. server_ok b vn' fb ct' F0 F' \<and> clients vn' = clients vn"
proof -
  have s: "comparer vn = Some ct" "tracker_ok (ct_sut ct) (screen_pts fb)" "area_tracks (ct_sut ct) (screen_pts fb) F0 F"
    using ok by (simp_all add: server_ok_def)
  obtain t where t: "add_changed (ct_sut ct) r = Some t" "tracker_ok t (screen_pts fb)"
      "\<forall>(G :: 'p image) F F'. area_tracks (ct_sut ct) (screen_pts fb) G F \<longrightarrow> (\<forall>p \<in> screen_pts fb. p \<notin> D \<longrightarrow> F' p = F p) \<longrightarrow> area_tracks t (screen_pts fb) G F'"
      "pts (changed t) = pts (changed (ct_sut ct)) \<union> D" "pts (copied t) = pts (copied (ct_sut ct))"
    using add_changed_area [OF s(2) r] by blast
  have "vn' = vn\<lparr>comparer := Some (ct\<lparr>ct_sut := t\<rparr>)\<rparr>" using run s(1) t(1) by (simp add: vn_add_changed_def on_comparer_def)
  then show ?thesis using server_ok_report [OF ok t(2) t(3) [rule_format, OF s(3)] _ F'] F' t(4,5) by auto
qed

lemma copy_ok:
  fixes F :: "'p image"
  assumes ok: "server_ok b vn fb ct F0 F" and r: "denotes r D" "D \<subseteq> screen_pts fb" "within (screen_pts fb) d D"
    and F': "\<forall>p \<in> screen_pts fb. F' p = moved D d F p" and run: "vn_add_copied r d vn = Some vn'"
  shows "\<exists>ct'. server_ok b vn' fb ct' F0 F' \<and> clients vn' = clients vn"
proof -
  have s: "comparer vn = Some ct" "tracker_ok (ct_sut ct) (screen_pts fb)" "area_tracks (ct_sut ct) (screen_pts fb) F0 F" "short_buffer fb"
    using ok by (simp_all add: server_ok_def)
  obtain t where t: "add_copied (ct_sut ct) r d = Some t" "tracker_ok t (screen_pts fb)"
      "\<forall>(G :: 'p image) F F'. area_tracks (ct_sut ct) (screen_pts fb) G F \<longrightarrow> (\<forall>p \<in> screen_pts fb. F' p = moved D d F p) \<longrightarrow> area_tracks t (screen_pts fb) G F'"
      "pts (changed (ct_sut ct)) \<union> pts (copied (ct_sut ct)) \<union> D \<subseteq> pts (changed t) \<union> pts (copied t)"
    using add_copied_area [OF s(2) r short_screen [OF s(4)]] by blast
  have off: "\<forall>p \<in> screen_pts fb. p \<notin> D \<longrightarrow> F' p = F p" using F' by (auto simp: moved_iff)
  have "vn' = vn\<lparr>comparer := Some (ct\<lparr>ct_sut := t\<rparr>)\<rparr>" using run s(1) t(1) by (simp add: vn_add_copied_def on_comparer_def)
  then show ?thesis using server_ok_report [OF ok t(2) t(3) [rule_format, OF s(3)] t(4) off] F' by auto
qed

subsection \<open>What a viewer asks for\<close>

lemma set_requested_run: "f (requested s) = Some q \<Longrightarrow> set_requested f s = (Inr (), s\<lparr>requested := q\<rparr>)"
  by (simp add: set_requested_def getting_def bindA_def of_region_def modify_def ret_def)

text \<open>What a request changes in the connection.\<close>

definition asked :: "(int \<times> int) set \<Rightarrow> VNCSConnectionST \<Rightarrow> VNCSConnectionST \<Rightarrow> bool" where
  "asked A c c' \<longleftrightarrow> (\<exists>q t b f X. c' = c\<lparr>vs_readyForColourMap := b, requested := q, vs_updates := t, m_fullUpdateRequested := f\<rparr> \<and>
     (q = requested c \<or> denotes q A) \<and> tracker_ok t A \<and> pts (changed t) = pts (changed (vs_updates c)) \<union> X \<and>
     pts (copied t) = pts (copied (vs_updates c)) \<and> copy_delta t = copy_delta (vs_updates c))"

lemma asked_tracks:
  "asked A c c' \<Longrightarrow> tracker_ok (vs_updates c) A \<Longrightarrow> area_tracks (vs_updates c) A G F \<Longrightarrow> area_tracks (vs_updates c') A G F"
  by (auto simp: asked_def area_tracks_iff)

lemma asked_refl: "tracker_ok (vs_updates c) A \<Longrightarrow> asked A c c"
  unfolding asked_def by (intro exI [of _ "requested c"] exI [of _ "vs_updates c"] exI [of _ "vs_readyForColourMap c"]
    exI [of _ "m_fullUpdateRequested c"] exI [of _ "{}"]) simp

lemma request_client:
  assumes tc: "trueColour (cp_pf (vs_cp c))" and q: "denotes (requested c) Q" "Q \<subseteq> A" and t: "tracker_ok (vs_updates c) A"
    and s: "Region_of_rect R = Some s" "denotes s A"
  shows "\<exists>rgn c'. vs_framebufferUpdateRequest env R incremental c = (Inr rgn, c') \<and> (rgn = None \<or> rgn = Some s) \<and> asked A c c'"
proof (cases "accessRights c AND AccessView = 0")
  case True
  then have "vs_framebufferUpdateRequest env R incremental c = (Inr None, c)" by (simp add: vs_framebufferUpdateRequest_def getting_def ret_def)
  then show ?thesis using asked_refl [OF t] by blast
next
  case False
  obtain u where u: "assign_union (requested c) s = Some u" "denotes u (Q \<union> A)" using q(1) s(2) by (rule assign_ops.unionE)
  then have uA: "denotes u A" using q(2) by (simp add: Un_absorb1)
  define c1 where "c1 = c\<lparr>vs_readyForColourMap := True\<rparr>"
  define colours where "colours = (if vs_readyForColourMap c then ret ()
      else seqA [modify (\<lambda>s. s\<lparr>vs_readyForColourMap := True\<rparr>), if trueColour (cp_pf (vs_cp c)) then ret () else vs_setColourMapEntries env 0 0])"
  have ready: "colours c = (Inr (), c1)" using tc by (simp add: act_simps c1_def colours_def)
  have reg: "of_region (Region_of_rect R) c1 = (Inr s, c1)" by (simp add: of_region_def s ret_def)
  have req: "set_requested (\<lambda>q. assign_union q s) c1 = (Inr (), c1\<lparr>requested := u\<rparr>)"
    using set_requested_run [of "\<lambda>q. assign_union q s" c1 u] u(1) by (simp add: c1_def)
  have "vs_framebufferUpdateRequest env R incremental c =
      bindA colours (\<lambda>_.
      bindA (of_region (Region_of_rect R)) (\<lambda>reqRgn.
      bindA (set_requested (\<lambda>q. assign_union q reqRgn)) (\<lambda>_.
        if incremental then ret None
        else bindA (on_updates (\<lambda>t. add_changed t reqRgn)) (\<lambda>_.
             bindA (modify (\<lambda>s. s\<lparr>m_fullUpdateRequested := True\<rparr>)) (\<lambda>_. ret (Some reqRgn)))))) c"
    using False by (simp add: vs_framebufferUpdateRequest_def getting_def colours_def)
  then have run: "vs_framebufferUpdateRequest env R incremental c =
      (if incremental then ret None
       else bindA (on_updates (\<lambda>t. add_changed t s)) (\<lambda>_. bindA (modify (\<lambda>s. s\<lparr>m_fullUpdateRequested := True\<rparr>)) (\<lambda>_. ret (Some s))))
      (c1\<lparr>requested := u\<rparr>)"
    by (simp only: bindA_run [where m = colours, OF ready] bindA_run [where m = "of_region (Region_of_rect R)", OF reg]
        bindA_run [where m = "set_requested (\<lambda>q. assign_union q s)", OF req])
  obtain t' where t': "add_changed (vs_updates c) s = Some t'" "tracker_ok t' A" "pts (changed t') = pts (changed (vs_updates c)) \<union> A"
      "pts (copied t') = pts (copied (vs_updates c))" "copy_delta t' = copy_delta (vs_updates c)"
    using add_changed_area [OF t s(2) subset_refl] by blast
  show ?thesis
  proof (cases incremental)
    case True
    have "asked A c (c1\<lparr>requested := u\<rparr>)" using t uA unfolding asked_def c1_def
      by (intro exI [of _ u] exI [of _ "vs_updates c"] exI [of _ "True"] exI [of _ "m_fullUpdateRequested c"] exI [of _ "{}"]) simp
    then show ?thesis using run True by (auto simp: ret_def)
  next
    case False
    have "asked A c (c1\<lparr>requested := u, vs_updates := t', m_fullUpdateRequested := True\<rparr>)" using t' uA unfolding asked_def c1_def
      by (intro exI [of _ u] exI [of _ t'] exI [of _ "True"] exI [of _ A]) simp
    moreover have "on_updates (\<lambda>t. add_changed t s) (c1\<lparr>requested := u\<rparr>) = (Inr (), c1\<lparr>requested := u, vs_updates := t'\<rparr>)"
      using on_updates_run [of "\<lambda>t. add_changed t s" "c1\<lparr>requested := u\<rparr>" t'] t'(1) by (simp add: c1_def)
    ultimately show ?thesis using run False by (auto simp: bindA_def modify_def ret_def)
  qed
qed

lemma uses_view_cong: "vs_id c' = vs_id c \<Longrightarrow> vs_cp c' = vs_cp c \<Longrightarrow> uses_view V c' w \<longleftrightarrow> uses_view V c w"
  by (simp add: uses_view_def)

lemma request_ok:
  assumes ok: "server_ok b vn fb ct F0 F" and vs: "list_all2 (viewer_ok V fb F0) vs (clients vn)" and k: "k < length (clients vn)"
    and run: "vn_request env k (pb_getRect fb) incremental vn = (Inr (), vn')"
  shows "\<exists>ct'. server_ok b vn' fb ct' F0 F \<and> list_all2 (viewer_ok V fb F0) vs (clients vn')"
proof -
  let ?A = "screen_pts fb" and ?c = "clients vn ! k"
  have s: "comparer vn = Some ct" "tracker_ok (vs_updates ?c) ?A" "short_buffer fb" "\<exists>M. pb_shows fb M"
    using ok k by (auto simp: server_ok_def)
  obtain screen where screen: "Region_of_rect (pb_getRect fb) = Some screen" "denotes screen ?A" using s(3,4) screen_region by blast
  have v: "viewer_ok V fb F0 (vs ! k) ?c" using list_all2_nthD2 [OF vs k] .
  then have fits: "viewer_fits V fb (vs ! k) ?c" by (simp add: viewer_ok_def)
  then obtain Q where Q: "denotes (requested ?c) Q" "Q \<subseteq> ?A" unfolding viewer_fits_def by blast
  have tc: "trueColour (cp_pf (vs_cp ?c))" using fits by (simp add: viewer_fits_def)
  obtain rgn c' where c': "vs_framebufferUpdateRequest env (pb_getRect fb) incremental ?c = (Inr rgn, c')" "rgn = None \<or> rgn = Some screen"
      "asked ?A ?c c'" using request_client [OF tc Q s(2) screen] by blast
  define vn1 where "vn1 = vn\<lparr>clients := (clients vn)[k := c']\<rparr>"
  have ok1: "server_ok b vn1 fb ct F0 F" unfolding vn1_def by (rule server_ok_client [OF ok]) (use c'(3) in \<open>auto simp: asked_def\<close>)
  have "viewer_ok V fb F0 (vs ! k) c'"
  proof -
    obtain q t b' f where eq: "c' = ?c\<lparr>vs_readyForColourMap := b', requested := q, vs_updates := t, m_fullUpdateRequested := f\<rparr>"
        "q = requested ?c \<or> denotes q ?A" "rect_is_empty (video_area t)"
      using c'(3) unfolding asked_def tracker_ok_def by blast
    have "viewer_fits V fb (vs ! k) c'"
      using fits eq(2,3) uses_view_cong [of c' ?c] unfolding viewer_fits_def by (auto simp: vs_cp_def eq(1))
    moreover have "viewer_follows fb F0 (vs ! k) c'"
    proof -
      have "realOS (vs_writer c') = realOS (vs_writer ?c)" using c'(3) by (auto simp: asked_def)
      then show ?thesis using v asked_tracks [OF c'(3) s(2)] unfolding viewer_ok_def viewer_follows_def by metis
    qed
    ultimately show ?thesis by (simp add: viewer_ok_def)
  qed
  then have vs1: "list_all2 (viewer_ok V fb F0) vs (clients vn1)"
    using vs k by (auto simp: list_all2_conv_all_nth vn1_def nth_list_update)
  have tell: "vn_tell_comparer rgn vn1 = (Inr (), vn')" using run c'(1) by (simp add: vn_request_def bindA_def on_client_def vn1_def)
  show ?thesis
  proof (cases rgn)
    case None
    then have "vn' = vn1" using tell by (simp add: vn_tell_comparer_def ret_def)
    then show ?thesis using ok1 vs1 by blast
  next
    case (Some r)
    then have "r = screen" "vn_add_changed screen vn1 = Some vn'" using c'(2) tell by (auto simp: vn_tell_comparer_def split: if_splits option.splits)
    then show ?thesis using draw_ok [OF ok1 screen(2) subset_refl, of F vn'] vs1 by auto
  qed
qed

subsection \<open>What the server sends\<close>

lemma fits_env:
  assumes "viewer_fits V fb v c" and "\<not> needs_cursor (cursorPos vn) (se_now E) c"
  shows "plain_client (client_env E vn fb (vr_view v)) c"
  using assms by (simp add: viewer_fits_def plain_client_def needRenderedCursor_def)

lemma fits_updates:
  "viewer_fits V fb v c \<Longrightarrow> tracker_ok t A \<Longrightarrow> same_shape fb fb' \<Longrightarrow> viewer_fits V fb' v (c\<lparr>vs_updates := t\<rparr>)"
  using uses_view_cong [of "c\<lparr>vs_updates := t\<rparr>" c V "vr_view v"] same_shape_screen [of fb fb']
  by (simp add: viewer_fits_def vs_cp_def tracker_ok_def same_shape_def)

lemma fits_kept:
  assumes "viewer_fits V fb v c" and "client_kept env c c'" and "same_shape fb fb'"
  shows "viewer_fits V fb' v c'"
  using assms uses_view_cong [of c' c V "vr_view v"] same_shape_screen [OF assms(3)]
  unfolding viewer_fits_def client_kept_def plain_client_def same_shape_def vs_cp_def by auto

lemma serve_ok:
  fixes vs :: "('p, 'a::len word) Viewer list"
  assumes ok: "server_ok (compareFB E) vn fb ct F0 F" and vs: "list_all2 (viewer_ok V fb F0) vs (clients vn)" and grab: "grabs E F"
    and k: "k < length (clients vn)" and nc: "\<not> needs_cursor (cursorPos vn) (se_now E) (clients vn ! k)"
    and few: "\<forall>ui. update_due E (vr_view (vs ! k)) k vn = Some ui \<longrightarrow> numRects (ui_copied ui) + numRects (ui_changed ui) < 65536"
    and req: "denotes (requested (clients vn ! k)) (screen_pts fb)"
  shows "\<exists>vn' fb' ct'. vn_writeUpdate E V k vn = (Inr (), vn') \<and> server_ok (compareFB E) vn' fb' ct' F F \<and> same_shape fb fb' \<and>
    list_all2 (viewer_ok V fb' F) vs (clients vn') \<and>
    (\<exists>bs G. realOS (vs_writer (clients vn' ! k)) = vr_before (vs ! k) @ bs \<and> shown_after (vs ! k) bs G \<and>
      (\<forall>p \<in> screen_pts fb. G p = vw_translate (vr_view (vs ! k)) (F p)))"
proof -
  let ?A = "screen_pts fb" and ?w = "vr_view (vs ! k)" and ?c = "clients vn ! k"
  have v: "viewer_ok V fb F0 (vs ! j) (clients vn ! j)" if "j < length (clients vn)" for j using list_all2_nthD2 [OF vs that] .
  then have fol: "\<forall>j. j < length (clients vn) \<longrightarrow> (\<exists>G bs. realOS (vs_writer (clients vn ! j)) = vr_before (vs ! j) @ bs \<and> shown_after (vs ! j) bs G \<and>
      area_tracks (vs_updates (clients vn ! j)) ?A G (\<lambda>p. vw_translate (vr_view (vs ! j)) (F0 p)))"
    unfolding viewer_ok_def viewer_follows_def by blast
  then obtain G where G: "\<And>j. j < length (clients vn) \<Longrightarrow> \<exists>bs. realOS (vs_writer (clients vn ! j)) = vr_before (vs ! j) @ bs \<and>
      shown_after (vs ! j) bs (G j) \<and> area_tracks (vs_updates (clients vn ! j)) ?A (G j) (\<lambda>p. vw_translate (vr_view (vs ! j)) (F0 p))" by metis
  have fits: "viewer_fits V fb (vs ! k) ?c" using v [OF k] by (simp add: viewer_ok_def)
  have sv: "servable E V fb ?w k vn"
    using fits fits_env [OF fits nc] few req k unfolding servable_def Let_def viewer_fits_def by simp
  have link: "update_link (ve_enc (vw_env ?w)) (vr_dec (vs ! k))" using fits by (simp add: viewer_fits_def)
  obtain bk where bk: "realOS (vs_writer ?c) = vr_before (vs ! k) @ bk" "shown_after (vs ! k) bk (G k)"
      "area_tracks (vs_updates ?c) ?A (G k) (\<lambda>p. vw_translate ?w (F0 p))" using G [OF k] by blast
  obtain bs vn' fb' ct' where w: "vn_writeUpdate E V k vn = (Inr (), vn')" "server_ok (compareFB E) vn' fb' ct' F F" "same_shape fb fb'"
      "realOS (vs_writer (clients vn' ! k)) = realOS (vs_writer ?c) @ bs" "length (clients vn') = length (clients vn)"
      "client_kept (client_env E vn fb ?w) ?c (clients vn' ! k)"
      "\<forall>j < length (clients vn). j \<noteq> k \<longrightarrow> told ?A (G j) (vw_translate (vr_view (vs ! j))) F0 F (clients vn ! j) (clients vn' ! j)"
      "\<forall>c rest. w_in c = bs @ rest \<longrightarrow> cm_cp c = vs_cp ?c \<longrightarrow> nUpdateRectsLeft c = 0 \<longrightarrow> framebuffer c = G k \<longrightarrow>
        viewer_shows (vr_dec (vs ! k)) ?A ?A (\<lambda>p. vw_translate ?w (F p)) (vs_updates (clients vn' ! k)) rest c"
    using writeUpdate_shows [OF ok grab sv link bk(3), of G "\<lambda>j. vw_translate (vr_view (vs ! j))"] by blast
  have A': "screen_pts fb' = ?A" using same_shape_screen [OF w(3)] by blast
  let ?G = "\<lambda>p. if p \<in> ?A then vw_translate ?w (F p) else G k p"
  have cp: "cm_cp (vr_start (vs ! k)) = vs_cp ?c" using fits by (simp add: viewer_fits_def)
  have shown: "shown_after (vs ! k) (bk @ bs) ?G" "area_tracks (vs_updates (clients vn' ! k)) ?A ?G (\<lambda>p. vw_translate ?w (F p))"
    using shown_after_update [OF bk(2) cp, of bs ?A ?A "\<lambda>p. vw_translate ?w (F p)"] w(8) by blast+
  have all: "viewer_ok V fb' F (vs ! j) (clients vn' ! j)" if j: "j < length (clients vn)" for j
  proof (cases "j = k")
    case True
    have "viewer_fits V fb' (vs ! k) (clients vn' ! k)" using fits_kept [OF fits w(6,3)] .
    moreover have "viewer_follows fb' F (vs ! k) (clients vn' ! k)"
      unfolding viewer_follows_def A' using shown bk(1) w(4) by (intro exI [of _ "bk @ bs"] exI [of _ ?G]) simp
    ultimately show ?thesis using True by (simp add: viewer_ok_def)
  next
    case False
    then obtain t where t: "clients vn' ! j = (clients vn ! j)\<lparr>vs_updates := t\<rparr>" "tracker_ok t ?A"
        "area_tracks (vs_updates (clients vn ! j)) ?A (G j) (\<lambda>p. vw_translate (vr_view (vs ! j)) (F0 p)) \<longrightarrow>
         area_tracks t ?A (G j) (\<lambda>p. vw_translate (vr_view (vs ! j)) (F p))"
      using w(7) j unfolding told_def by blast
    have "viewer_fits V fb' (vs ! j) (clients vn' ! j)" using fits_updates [OF _ t(2) w(3), of V "vs ! j" "clients vn ! j"] v [OF j] t(1) by (simp add: viewer_ok_def)
    moreover have "viewer_follows fb' F (vs ! j) (clients vn' ! j)"
      using G [OF j] t(3) unfolding viewer_follows_def A' t(1) by auto
    ultimately show ?thesis by (simp add: viewer_ok_def)
  qed
  have "length vs = length (clients vn)" using list_all2_lengthD [OF vs] .
  then have "list_all2 (viewer_ok V fb' F) vs (clients vn')" using all w(5) by (simp add: list_all2_conv_all_nth)
  moreover have "realOS (vs_writer (clients vn' ! k)) = vr_before (vs ! k) @ bk @ bs" using bk(1) w(4) by simp
  ultimately show ?thesis using w(1-3) shown(1)
    by (intro exI [of _ vn'] exI [of _ fb'] exI [of _ ct']) (auto intro!: exI [of _ "bk @ bs"] exI [of _ ?G])
qed

text \<open>With nothing asked for, nothing is sent.\<close>

lemma serve_idle:
  assumes "denotes (requested (clients vn ! k)) {}"
  shows "vn_writeUpdate E V k vn = (Inr (), vn)"
proof -
  have "vs_beginUpdate (clients vn ! k) = (Inr False, clients vn ! k)"
    using region_is_empty_iff [OF assms] by (simp add: vs_beginUpdate_def getting_def ret_def)
  then show ?thesis by (simp add: vn_writeUpdate_def bindA_def on_client_def ret_def)
qed

subsection \<open>Every execution\<close>

lemma same_shape_trans: "same_shape a b \<Longrightarrow> same_shape b c \<Longrightarrow> same_shape a c"
  by (simp add: same_shape_def)

text \<open>The tracker of a new framebuffer reports all of it.\<close>

lemma new_comparing_reports:
  assumes "pb_shows fb F" "short_buffer fb"
  shows "\<exists>ct. newComparingUpdateTracker fb = Some ct \<and> firstCompare ct \<and> denotes (changed (ct_sut ct)) (screen_pts fb) \<and>
    denotes (copied (ct_sut ct)) {} \<and> video_area (ct_sut ct) = rect_clear"
proof -
  obtain r where r: "Region_of_rect (pb_getRect fb) = Some r" "denotes r (screen_pts fb)" using screen_region [OF assms(2,1)] .
  have e: "denotes (changed (newSimpleUpdateTracker True)) {}" "denotes (copied (newSimpleUpdateTracker True)) {}"
    by (simp_all add: newSimpleUpdateTracker_def)
  obtain c where c: "assign_union (changed (newSimpleUpdateTracker True)) r = Some c" "denotes c ({} \<union> screen_pts fb)"
    using e(1) r(2) by (rule assign_ops.unionE)
  then show ?thesis using r(1) e(2) by (simp add: newComparingUpdateTracker_def) (simp add: newSimpleUpdateTracker_def)
qed

lemma step_ok:
  fixes V :: "'p Views"
  assumes ok: "sys_ok comparing V vs fb0 (vn, F)" and step: "sys_step comparing V vs (vn, F) (vn', F')"
  shows "sys_ok comparing V vs fb0 (vn', F')"
proof -
  obtain fb ct F0 where s: "server_ok comparing vn fb ct F0 F" "list_all2 (viewer_ok V fb F0) vs (clients vn)" and shape: "same_shape fb0 fb"
    using ok by (auto simp: sys_ok_def)
  have fb: "vn_pb vn = Some fb" using s(1) by (simp add: server_ok_def)
  from step show ?thesis
  proof (rule sys_stepE)
    fix fb' r D
    assume draw: "vn_pb vn = Some fb'" "denotes r D" "D \<subseteq> screen_pts fb'" "\<forall>p \<in> screen_pts fb'. p \<notin> D \<longrightarrow> F' p = F p" "vn_add_changed r vn = Some vn'"
    have "fb' = fb" using draw(1) fb by simp
    then show ?thesis using draw_ok [OF s(1) draw(2) _ _ draw(5)] draw(3,4) s(2) shape unfolding sys_ok_def prod.case by metis
  next
    fix fb' r D d
    assume copy: "vn_pb vn = Some fb'" "denotes r D" "D \<subseteq> screen_pts fb'" "within (screen_pts fb') d D" "\<forall>p \<in> screen_pts fb'. F' p = moved D d F p"
      "vn_add_copied r d vn = Some vn'"
    have "fb' = fb" using copy(1) fb by simp
    then show ?thesis using copy_ok [OF s(1) copy(2) _ _ _ copy(6)] copy(3-5) s(2) shape unfolding sys_ok_def prod.case by metis
  next
    fix fb' k and E :: "'p ServerEnv" and incremental
    assume request: "F' = F" "vn_pb vn = Some fb'" "k < length (clients vn)"
      "vn_request (client_env E vn fb' (vr_view (vs ! k))) k (pb_getRect fb') incremental vn = (Inr (), vn')"
    have e: "fb' = fb" using request(2) fb by simp
    show ?thesis using request_ok [OF s request(3) request(4) [unfolded e]] request(1) shape unfolding sys_ok_def prod.case by blast
  next
    fix E k
    assume serve: "F' = F" "grabs E F" "compareFB E = comparing" "k < length (clients vn)" "\<not> needs_cursor (cursorPos vn) (se_now E) (clients vn ! k)"
      "\<forall>ui. update_due E (vr_view (vs ! k)) k vn = Some ui \<longrightarrow> numRects (ui_copied ui) + numRects (ui_changed ui) < 65536"
      "vn_writeUpdate E V k vn = (Inr (), vn')"
    have cmp: "server_ok (compareFB E) vn fb ct F0 F" using s(1) serve(3) by simp
    have "viewer_fits V fb (vs ! k) (clients vn ! k)" using list_all2_nthD2 [OF s(2) serve(4)] by (simp add: viewer_ok_def)
    then consider "denotes (requested (clients vn ! k)) {}" | "denotes (requested (clients vn ! k)) (screen_pts fb)"
      unfolding viewer_fits_def by blast
    then show ?thesis
    proof cases
      case 1
      then have "vn' = vn" using serve_idle serve(7) by (metis prod.inject)
      then show ?thesis using ok serve(1) by simp
    next
      case 2
      show ?thesis using serve_ok [OF cmp s(2) serve(2,4-6) 2] serve(1,3,7) same_shape_trans [OF shape] unfolding sys_ok_def prod.case by auto
    qed
  qed
qed

lemma run_ok: "sys_run comparing V vs s s' \<Longrightarrow> sys_ok comparing V vs fb0 s \<Longrightarrow> sys_ok comparing V vs fb0 s'"
  by (induction rule: rtranclp_induct) (auto intro: step_ok)

lemma fresh_ok:
  assumes "fresh_viewer V fb v c"
  shows "viewer_ok V fb F0 v c" and "tracker_ok (vs_updates c) (screen_pts fb)"
proof -
  have c: "viewer_fits V fb v c" "realOS (vs_writer c) = vr_before v" "nUpdateRectsLeft (vr_start v) = 0"
      "denotes (changed (vs_updates c)) (screen_pts fb)" "denotes (copied (vs_updates c)) {}" "short_rect (video_area (vs_updates c))"
    using assms by (simp_all add: fresh_viewer_def)
  have "rect_is_empty (video_area (vs_updates c))" using c(1) by (simp add: viewer_fits_def)
  then show ok: "tracker_ok (vs_updates c) (screen_pts fb)"
    using c(4-6) unfolding tracker_ok_def within_def by blast
  have "shown_after v [] (framebuffer (vr_start v))"
    unfolding shown_after_def using c(3)
    by (intro allI exI [of _ "0 :: nat"]) (simp add: ret_def)
  moreover have "area_tracks (vs_updates c) (screen_pts fb) G F" for G F
    using c(4) unfolding area_tracks_iff [OF ok] by (simp add: denotes_def)
  ultimately show "viewer_ok V fb F0 v c"
    using c(1,2) unfolding viewer_ok_def viewer_follows_def by (intro conjI exI [of _ "[]"] exI [of _ "framebuffer (vr_start v)"]) simp_all
qed

lemma start_ok:
  assumes "sys_start V vs fb vn"
  shows "sys_ok comparing V vs fb (vn, F)"
proof -
  let ?A = "screen_pts fb"
  have s: "vn_pb vn = Some fb" "comparer vn = newComparingUpdateTracker fb" "wf_pb fb" "short_buffer fb" "?A \<noteq> {}" "wf_cursor (cursor vn)"
      "px (cursorTL vn) \<le> pb_width fb" "py (cursorTL vn) \<le> pb_height fb" "list_all2 (fresh_viewer V fb) vs (clients vn)"
    using assms by (simp_all add: sys_start_def)
  have M: "pb_shows fb (pb_at fb)" by (rule pb_shows_at [OF s(3)])
  obtain ct where ct: "newComparingUpdateTracker fb = Some ct" "firstCompare ct" "denotes (changed (ct_sut ct)) ?A" "denotes (copied (ct_sut ct)) {}"
      "video_area (ct_sut ct) = rect_clear"
    using new_comparing_reports [OF M s(4)] by blast
  have ok: "tracker_ok (ct_sut ct) ?A"
    using ct(3-5) unfolding tracker_ok_def by (auto simp: within_def rect_clear_def short_rect_def is_short_def rect_is_empty_def)
  have cover: "area_tracks (ct_sut ct) ?A F F" "\<forall>p \<in> ?A. p \<in> pts (changed (ct_sut ct))"
    using ct(3) unfolding area_tracks_iff [OF ok] by (simp_all add: denotes_def)
  have cs: "\<forall>c \<in> set (clients vn). tracker_ok (vs_updates c) ?A"
    using s(9) fresh_ok(2) by (metis in_set_conv_nth list_all2_nthD2)
  have "server_ok comparing vn fb ct F F"
    using s(1,2,4-8) ct(1,2) ok cover cs M unfolding server_ok_def by auto
  moreover have "list_all2 (viewer_ok V fb F) vs (clients vn)" using s(9) fresh_ok(1) by (rule list_all2_mono)
  ultimately show ?thesis unfolding sys_ok_def prod.case by (intro exI [of _ fb] exI [of _ ct] exI [of _ F]) (simp add: same_shape_def)
qed

text \<open>C1: Whatever the desktop has drawn and copied and whichever viewers have asked and been served before, in any order, a pending
  request is answered with the screen: \<open>writeFramebufferUpdate\<close> does not fail, and the viewer, when it has read all the
  bytes it was ever sent, shows every pixel of the screen as it is now, translated to the viewer's pixels, with nothing left over.
  The viewers draw their own cursors, use the encodings Raw, RRE, Hextile and copies, and ask for the whole screen.\<close>

theorem viewer_shows_screen:
  fixes vs :: "('p, 'a::len word) Viewer list"
  assumes start: "sys_start V vs fb vn0" and run: "sys_run comparing V vs (vn0, F0) (vn, F)"
    and E: "grabs E F" "compareFB E = comparing" and k: "k < length (clients vn)" and req: "\<not> region_is_empty (requested (clients vn ! k))"
    and nc: "\<not> needs_cursor (cursorPos vn) (se_now E) (clients vn ! k)"
    and few: "\<forall>ui. update_due E (vr_view (vs ! k)) k vn = Some ui \<longrightarrow> numRects (ui_copied ui) + numRects (ui_changed ui) < 65536"
  shows "\<exists>vn' bs n c. vn_writeUpdate E V k vn = (Inr (), vn') \<and> realOS (vs_writer (clients vn' ! k)) = vr_before (vs ! k) @ bs \<and>
    cm_readMsgs (vr_dec (vs ! k)) n ((vr_start (vs ! k))\<lparr>w_in := bs\<rparr>) = (Inr (), c) \<and> w_in c = [] \<and>
    (\<forall>p \<in> screen_pts fb. framebuffer c p = vw_translate (vr_view (vs ! k)) (F p))"
proof -
  have "sys_ok comparing V vs fb (vn, F)" using run_ok [OF run start_ok [OF start]] .
  then obtain fb1 ct F1 where s: "same_shape fb fb1" "server_ok (compareFB E) vn fb1 ct F1 F" "list_all2 (viewer_ok V fb1 F1) vs (clients vn)"
    by (auto simp: sys_ok_def E(2))
  have A: "screen_pts fb1 = screen_pts fb" using same_shape_screen [OF s(1)] by blast
  have "viewer_fits V fb1 (vs ! k) (clients vn ! k)" using list_all2_nthD2 [OF s(3) k] by (simp add: viewer_ok_def)
  then have q: "denotes (requested (clients vn ! k)) (screen_pts fb1)" using req region_is_empty_iff unfolding viewer_fits_def by blast
  obtain vn' bs G where r: "vn_writeUpdate E V k vn = (Inr (), vn')" "realOS (vs_writer (clients vn' ! k)) = vr_before (vs ! k) @ bs"
      "shown_after (vs ! k) bs G" "\<forall>p \<in> screen_pts fb1. G p = vw_translate (vr_view (vs ! k)) (F p)"
    using serve_ok [OF s(2,3) E(1) k nc few q] by blast
  obtain n c where "cm_readMsgs (vr_dec (vs ! k)) n ((vr_start (vs ! k))\<lparr>w_in := bs @ []\<rparr>) = (Inr (), c)" "w_in c = []" "framebuffer c = G"
    using r(3) unfolding shown_after_def by blast
  then show ?thesis using r(1,2,4) unfolding A by auto
qed

text \<open>C11: At every moment of such an execution the two trackers account for what a viewer does not show yet: there are a picture \<open>G\<close>, which
  the viewer shows when it has read all it was sent, and a picture \<open>F1\<close> such that the client's tracker accounts for the difference
  between \<open>G\<close> and \<open>F1\<close> and the server's tracker for the one between \<open>F1\<close> and the screen.\<close>

theorem viewers_accounted:
  fixes vs :: "('p, 'a::len word) Viewer list"
  assumes start: "sys_start V vs fb vn0" and run: "sys_run comparing V vs (vn0, F0) (vn, F)" and k: "k < length (clients vn)"
  shows "\<exists>ct F1 bs G. comparer vn = Some ct \<and> area_tracks (ct_sut ct) (screen_pts fb) F1 F \<and>
    area_tracks (vs_updates (clients vn ! k)) (screen_pts fb) G (\<lambda>p. vw_translate (vr_view (vs ! k)) (F1 p)) \<and>
    realOS (vs_writer (clients vn ! k)) = vr_before (vs ! k) @ bs \<and> shown_after (vs ! k) bs G"
proof -
  have "sys_ok comparing V vs fb (vn, F)" using run_ok [OF run start_ok [OF start]] .
  then obtain fb1 ct F1 where s: "same_shape fb fb1" "server_ok comparing vn fb1 ct F1 F" "list_all2 (viewer_ok V fb1 F1) vs (clients vn)"
    by (auto simp: sys_ok_def)
  have A: "screen_pts fb1 = screen_pts fb" using same_shape_screen [OF s(1)] by blast
  have "viewer_follows fb1 F1 (vs ! k) (clients vn ! k)" using list_all2_nthD2 [OF s(3) k] by (simp add: viewer_ok_def)
  moreover have "comparer vn = Some ct" "area_tracks (ct_sut ct) (screen_pts fb1) F1 F" using s(2) by (simp_all add: server_ok_def)
  ultimately show ?thesis unfolding viewer_follows_def A by blast
qed

text \<open>The small server at the start, with one viewer of 8-bit pixels.\<close>

definition small_view :: "(8 word, 8 word) View" where
  "small_view = \<lparr>vw_env = small_env, vw_translate = id\<rparr>"

definition fresh_client :: VNCSConnectionST where
  "fresh_client = small_client\<lparr>vs_updates := (newSimpleUpdateTracker True)\<lparr>changed := requested small_client\<rparr>\<rparr>"

definition small_viewer :: "(8 word, 8 word) Viewer" where
  "small_viewer = \<lparr>vr_view = small_view, vr_dec = small_decoders, vr_start = newCMsgReader (vs_cp small_client) (\<lambda>_. 0), vr_before = []\<rparr>"

definition fresh_server :: "8 word VNCServerST" where
  "fresh_server = (newVNCServerST [] 0)\<lparr>vn_pb := Some small_fb, comparer := newComparingUpdateTracker small_fb, clients := [fresh_client]\<rparr>"

lemma fresh_client_fits: "fresh_viewer \<lparr>view8 = \<lambda>_. small_view, view16 = v16, view32 = v32\<rparr> small_fb small_viewer fresh_client"
proof -
  have same: "vs_cp fresh_client = vs_cp small_client" "vs_writer fresh_client = vs_writer small_client" "requested fresh_client = requested small_client"
    by (simp_all add: fresh_client_def vs_cp_def)
  have "cp_pf (vs_cp fresh_client) = newPixelFormat"
    by (simp add: same small_client_def newVNCSConnectionST_def newSMsgWriter_def vs_cp_def small_screen_def newConnParams_def)
  then have pf: "bpp (cp_pf (vs_cp fresh_client)) = 8" "trueColour (cp_pf (vs_cp fresh_client))" by (simp_all add: newPixelFormat_def)
  have link: "update_link (ve_enc small_env) small_decoders"
    unfolding small_env_def small_decoders_def by (simp add: link8.update_link_axioms)
  have scr: "screen_ok (vs_cp small_client) (enc_bytes (ve_enc small_env))"
    by (simp add: screen_ok_def small_client_cp small_env_def encoders8_def)
  have pc: "writer_idle (vs_writer small_client)" "currentEncoding (vs_cp small_client) \<in> {encodingRaw, encodingRRE, encodingHextile}"
      "rect_is_empty (renderedCursorRect small_client)" "\<not> removeRenderedCursor small_client" "\<not> drawRenderedCursor small_client"
    using small_client_plain by (simp_all add: plain_client_def)
  have view: "uses_view \<lparr>view8 = \<lambda>_. small_view, view16 = v16, view32 = v32\<rparr> fresh_client small_view"
    using uses_view_at(1) [OF pf(1), of "\<lparr>view8 = \<lambda>_. small_view, view16 = v16, view32 = v32\<rparr>"] by simp
  have q: "denotes (requested small_client) (screen_pts small_fb)" using small_client_requested small_fb_facts(3) by simp
  have e: "video_area (vs_updates fresh_client) = rect_clear" "changed (vs_updates fresh_client) = requested small_client"
      "denotes (copied (vs_updates fresh_client)) {}" "vs_state fresh_client = S_NORMAL" "realOS (vs_writer small_client) = []"
      "renderedCursorRect fresh_client = renderedCursorRect small_client" "removeRenderedCursor fresh_client = removeRenderedCursor small_client"
      "drawRenderedCursor fresh_client = drawRenderedCursor small_client"
    by (simp_all add: fresh_client_def newSimpleUpdateTracker_def) (simp_all add: small_client_def newVNCSConnectionST_def newSMsgWriter_def)
  have "viewer_fits \<lparr>view8 = \<lambda>_. small_view, view16 = v16, view32 = v32\<rparr> small_fb small_viewer fresh_client"
    using view link scr pc pf(2) small_fb_facts(4,5) small_client_cp(1,2) q e
    unfolding viewer_fits_def same by (simp add: small_viewer_def newCMsgReader_def small_view_def rect_clear_def rect_is_empty_def)
  then show ?thesis
    using q e unfolding fresh_viewer_def same by (simp add: small_viewer_def newCMsgReader_def rect_clear_def short_rect_def is_short_def)
qed

lemma fresh_server_starts: "sys_start \<lparr>view8 = \<lambda>_. small_view, view16 = v16, view32 = v32\<rparr> [small_viewer] small_fb fresh_server"
proof -
  have "cursorTL fresh_server = \<lparr>px = 0, py = 0\<rparr>" "wf_cursor (cursor fresh_server)"
    using new_cursor [of "[]" 0] by (simp_all add: fresh_server_def cursorTL_def)
  moreover have "wf_pb small_fb" using small_fb_facts(1) by (simp add: pb_shows_def)
  ultimately show ?thesis
    using fresh_client_fits small_fb_facts(2-5) unfolding sys_start_def by (simp add: fresh_server_def)
qed

text \<open>The desktop draws a rectangle.\<close>

lemma drawn_server:
  obtains vn where "sys_run True \<lparr>view8 = \<lambda>_. small_view, view16 = v16, view32 = v32\<rparr> [small_viewer] (fresh_server, \<lambda>_. 0) (vn, small_image)"
    "clients vn = [fresh_client]" "cursorPos vn = \<lparr>px = 0, py = 0\<rparr>"
proof -
  let ?V = "\<lparr>view8 = \<lambda>_. small_view, view16 = v16, view32 = v32\<rparr>"
  obtain ct where ct: "newComparingUpdateTracker small_fb = Some ct" "denotes (changed (ct_sut ct)) (screen_pts small_fb)"
      "denotes (copied (ct_sut ct)) {}" "video_area (ct_sut ct) = rect_clear"
    using new_comparing_reports [OF small_fb_facts(1,2)] by blast
  have r: "denotes (ui_changed small_update) ({1..<3} \<times> {0..<2})" by (simp add: denotes_def small_update_pts)
  obtain u where u: "assign_union (changed (ct_sut ct)) (ui_changed small_update) = Some u" using ct(2) r by (rule assign_ops.unionE)
  define vn where "vn = fresh_server\<lparr>comparer := Some (ct\<lparr>ct_sut := (ct_sut ct)\<lparr>changed := u\<rparr>\<rparr>)\<rparr>"
  have run: "vn_add_changed (ui_changed small_update) fresh_server = Some vn"
    using ct(1) u by (simp add: vn_add_changed_def on_comparer_def add_changed_def fresh_server_def vn_def)
  have pb: "vn_pb fresh_server = Some small_fb" by (simp add: fresh_server_def)
  have "sys_step True ?V [small_viewer] (fresh_server, \<lambda>_. 0) (vn, small_image)"
    by (rule sys_step.draw [OF pb r _ _ run]) (auto simp: small_fb_facts(3) small_image_def)
  moreover have "clients vn = [fresh_client]" "cursorPos vn = \<lparr>px = 0, py = 0\<rparr>"
    using new_cursor(3) [of "[]" 0] by (simp_all add: vn_def fresh_server_def)
  ultimately show ?thesis by (intro that [of vn]) auto
qed

lemma fresh_client_plain: "\<not> needs_cursor \<lparr>px = 0, py = 0\<rparr> t fresh_client"
  using small_client_plain by (simp add: fresh_client_def needs_cursor_def vs_cp_def) (simp add: small_client_def newVNCSConnectionST_def newSMsgWriter_def
    small_screen_def point_equals_def)

lemma viewer_shows_screen_witness:
  "\<forall>v16 v32. \<exists>vn vn' bs n c. let V = \<lparr>view8 = \<lambda>_. small_view, view16 = v16, view32 = v32\<rparr> in
    sys_run True V [small_viewer] (fresh_server, \<lambda>_. 0) (vn, small_image) \<and>
    vn_writeUpdate (image_env 0 True small_image) V 0 vn = (Inr (), vn') \<and> realOS (vs_writer (clients vn' ! 0)) = bs \<and>
    cm_readMsgs small_decoders n ((newCMsgReader (vs_cp small_client) (\<lambda>_. 0))\<lparr>w_in := bs\<rparr>) = (Inr (), c) \<and> w_in c = [] \<and>
    framebuffer c (2, 1) = 5 \<and> framebuffer c (5, 5) = 0"
proof (intro allI)
  fix v16 v32
  let ?V = "\<lparr>view8 = \<lambda>_. small_view, view16 = v16, view32 = v32\<rparr>" and ?E = "image_env 0 True small_image" and ?vs = "[small_viewer]"
  obtain vn where vn: "sys_run True ?V ?vs (fresh_server, \<lambda>_. 0) (vn, small_image)" "clients vn = [fresh_client]" "cursorPos vn = \<lparr>px = 0, py = 0\<rparr>"
    by (rule drawn_server)
  have v: "vr_view small_viewer = small_view" "vr_dec small_viewer = small_decoders" "vr_before small_viewer = []"
    "vr_start small_viewer = newCMsgReader (vs_cp small_client) (\<lambda>_. 0)" "requested fresh_client = requested small_client"
    "vs_state fresh_client = S_NORMAL"
    by (simp_all add: small_viewer_def fresh_client_def small_client_def)
  have q: "denotes (requested (clients vn ! 0)) ({0..<8} \<times> {0..<8})" using small_client_requested by (simp add: vn v)
  have req: "\<not> region_is_empty (requested (clients vn ! 0))" using region_is_empty_iff [OF q] by auto
  have nc: "\<not> needs_cursor (cursorPos vn) (se_now ?E) (clients vn ! 0)" using fresh_client_plain by (simp add: vn)
  have k: "0 < length (clients vn)" by (simp add: vn)
  have cmp: "compareFB ?E = True" by (simp add: image_env_def)
  have few: "\<forall>ui. update_due ?E (vr_view (?vs ! 0)) 0 vn = Some ui \<longrightarrow> numRects (ui_copied ui) + numRects (ui_changed ui) < 65536"
  proof (intro allI impI)
    fix ui assume due: "update_due ?E (vr_view (?vs ! 0)) 0 vn = Some ui"
    obtain fb1 ct F1 where s: "same_shape small_fb fb1" "server_ok True vn fb1 ct F1 small_image" "list_all2 (viewer_ok ?V fb1 F1) ?vs (clients vn)"
      using run_ok [OF vn(1) start_ok [OF fresh_server_starts]] by (auto simp: sys_ok_def)
    have A: "screen_pts fb1 = {0..<8} \<times> {0..<8}" using same_shape_screen [OF s(1)] small_fb_facts(3) by simp
    have "viewer_follows fb1 F1 small_viewer (clients vn ! 0)" using s(3) vn(2) by (simp add: viewer_ok_def)
    then obtain G where G: "area_tracks (vs_updates (clients vn ! 0)) (screen_pts fb1) G (\<lambda>p. vw_translate small_view (F1 p))"
      unfolding viewer_follows_def v by blast
    have st: "vs_state (clients vn ! 0) = S_NORMAL" by (simp add: vn v)
    have due': "update_due ?E small_view 0 vn = Some ui" using due v(1) by simp
    have ok: "server_ok (compareFB ?E) vn fb1 ct F1 small_image" unfolding cmp by (rule s(2))
    show "numRects (ui_copied ui) + numRects (ui_changed ui) < 65536"
      by (rule update_due_few [OF ok image_env_grabs k st _ G _ _ due']) (use q in \<open>simp_all add: A\<close>)
  qed
  obtain vn' bs n c where r: "vn_writeUpdate ?E ?V 0 vn = (Inr (), vn')" "realOS (vs_writer (clients vn' ! 0)) = bs"
      "cm_readMsgs small_decoders n ((newCMsgReader (vs_cp small_client) (\<lambda>_. 0))\<lparr>w_in := bs\<rparr>) = (Inr (), c)" "w_in c = []"
      "\<forall>p \<in> screen_pts small_fb. framebuffer c p = vw_translate small_view (small_image p)"
    using viewer_shows_screen [OF fresh_server_starts vn(1) image_env_grabs cmp k req nc few] by (auto simp: v)
  have "framebuffer c (2, 1) = 5" "framebuffer c (5, 5) = 0"
    using r(5) by (simp_all add: small_fb_facts(3) small_view_def small_image_def)
  then show "\<exists>vn vn' bs n c. let V = ?V in sys_run True V ?vs (fresh_server, \<lambda>_. 0) (vn, small_image) \<and>
    vn_writeUpdate ?E V 0 vn = (Inr (), vn') \<and> realOS (vs_writer (clients vn' ! 0)) = bs \<and>
    cm_readMsgs small_decoders n ((newCMsgReader (vs_cp small_client) (\<lambda>_. 0))\<lparr>w_in := bs\<rparr>) = (Inr (), c) \<and> w_in c = [] \<and>
    framebuffer c (2, 1) = 5 \<and> framebuffer c (5, 5) = 0"
    using vn(1) r(1-4) unfolding Let_def by blast
qed

lemma viewers_accounted_witness:
  "\<forall>v16 v32. \<exists>vn ct F1 bs G. sys_run True \<lparr>view8 = \<lambda>_. small_view, view16 = v16, view32 = v32\<rparr> [small_viewer] (fresh_server, \<lambda>_. 0) (vn, small_image) \<and>
    comparer vn = Some ct \<and> area_tracks (ct_sut ct) ({0..<8} \<times> {0..<8}) F1 small_image \<and>
    area_tracks (vs_updates (clients vn ! 0)) ({0..<8} \<times> {0..<8}) G F1 \<and> shown_after small_viewer bs G"
proof (intro allI)
  fix v16 v32
  obtain vn where vn: "sys_run True \<lparr>view8 = \<lambda>_. small_view, view16 = v16, view32 = v32\<rparr> [small_viewer] (fresh_server, \<lambda>_. 0) (vn, small_image)"
      "clients vn = [fresh_client]"
    by (rule drawn_server)
  have k: "0 < length (clients vn)" by (simp add: vn)
  have v: "vw_translate (vr_view small_viewer) = id" by (simp add: small_viewer_def small_view_def)
  show "\<exists>vn ct F1 bs G. sys_run True \<lparr>view8 = \<lambda>_. small_view, view16 = v16, view32 = v32\<rparr> [small_viewer] (fresh_server, \<lambda>_. 0) (vn, small_image) \<and>
    comparer vn = Some ct \<and> area_tracks (ct_sut ct) ({0..<8} \<times> {0..<8}) F1 small_image \<and>
    area_tracks (vs_updates (clients vn ! 0)) ({0..<8} \<times> {0..<8}) G F1 \<and> shown_after small_viewer bs G"
  proof -
    obtain ct F1 bs G where "comparer vn = Some ct" "area_tracks (ct_sut ct) ({0..<8} \<times> {0..<8}) F1 small_image"
        "area_tracks (vs_updates (clients vn ! 0)) ({0..<8} \<times> {0..<8}) G F1" "shown_after small_viewer bs G"
      using viewers_accounted [OF fresh_server_starts vn(1) k] by (auto simp: v small_fb_facts(3))
    then show ?thesis using vn(1) by blast
  qed
qed

end
