(* ===== verification/Rfb_ServerLife.thy ===== *)
theory Rfb_ServerLife
  imports Rfb_VNCServer
begin

text \<open>
  The life of the server: which sockets it has, when the desktop stops, and when it exits.
\<close>

subsection \<open>Timeouts\<close>

text \<open>A limit is up when it has passed, but not by more than a minute.\<close>

definition expired :: "int \<Rightarrow> int \<Rightarrow> int \<Rightarrow> bool" where
  "expired limit now since \<longleftrightarrow> since + limit \<le> now \<and> now \<le> since + limit + 60"

lemma timeLimit_cases:
  assumes "0 < limit"
  shows "case timeLimit limit now since of
      (None, s) \<Rightarrow> expired limit now since \<and> s = since
    | (Some t, s) \<Rightarrow> \<not> expired limit now since \<and> s \<le> now \<and> t = s + limit - now \<and> 0 < t \<and> t \<le> limit"
  using assms by (auto simp: timeLimit_def Let_def expired_def)

lemma limited_none:
  "0 < limit \<or> \<not> applies \<Longrightarrow> limited applies limit now since tmo = None \<longleftrightarrow> applies \<and> expired limit now since"
  using timeLimit_cases [of limit now since] by (auto simp: limited_def split: prod.splits option.splits)

lemma limited_some:
  "limited applies limit now since tmo = Some (tmo', since') \<Longrightarrow> 0 < limit \<or> \<not> applies \<Longrightarrow> applies \<longrightarrow> since' \<le> now"
  using timeLimit_cases [of limit now since] by (auto simp: limited_def split: prod.splits option.splits if_splits)

lemma idle_clients_length: "idle_clients limit now cs tmo = (t, cs') \<Longrightarrow> length cs' = length cs"
  by (induction cs arbitrary: tmo t cs') (auto simp: Let_def split: prod.splits)

text \<open>C29: \<open>checkTimeouts\<close> makes the server exit exactly if a limit that is set is up: there has been no client for
  \<open>MaxDisconnectionTime\<close>, there have been clients for \<open>MaxConnectionTime\<close>, or there has been no input for \<open>MaxIdleTime\<close>. A clock that
  has gone backwards, or forwards by more than a minute past the limit, starts the time anew instead.\<close>

theorem checkTimeouts_exits:
  assumes "0 \<le> maxDisconnectionTime cfg" "0 \<le> maxConnectionTime cfg" "0 \<le> maxIdleTime cfg"
  shows "checkTimeouts cfg now vn = None \<longleftrightarrow>
    maxDisconnectionTime cfg \<noteq> 0 \<and> clients vn = [] \<and> expired (maxDisconnectionTime cfg) now (lastDisconnectTime vn) \<or>
    maxConnectionTime cfg \<noteq> 0 \<and> lastConnectionTime vn \<noteq> 0 \<and> clients vn \<noteq> [] \<and> expired (maxConnectionTime cfg) now (lastConnectionTime vn) \<or>
    maxIdleTime cfg \<noteq> 0 \<and> expired (maxIdleTime cfg) now (lastUserInputTime (vn_shared vn))"
proof -
  obtain t cs where idle: "idle_clients (idleTimeout cfg) now (clients vn) 0 = (t, cs)" by fastforce
  have emp: "cs = [] \<longleftrightarrow> clients vn = []" using idle_clients_length [OF idle] by (cases cs; cases "clients vn") simp_all
  have kept: "clients vn = [] \<Longrightarrow> \<not> list_ex (\<lambda>(c, c'). authenticated c \<and> \<not> authenticated c') (zip (clients vn) cs)" by simp
  let ?d = "if list_ex (\<lambda>(c, c'). authenticated c \<and> \<not> authenticated c') (zip (clients vn) cs) then now else lastDisconnectTime vn"
  have p: "0 < limit \<or> \<not> (limit \<noteq> 0 \<and> P)" if "0 \<le> limit" for limit :: int and P using that by auto
  let ?l1 = "limited (maxDisconnectionTime cfg \<noteq> 0 \<and> cs = []) (maxDisconnectionTime cfg) now ?d t"
  have l1: "?l1 = None \<longleftrightarrow> maxDisconnectionTime cfg \<noteq> 0 \<and> clients vn = [] \<and> expired (maxDisconnectionTime cfg) now (lastDisconnectTime vn)"
    using limited_none [OF p [OF assms(1)], of "cs = []" now ?d t] emp kept by auto
  show ?thesis
  proof (cases ?l1)
    case None
    then have "checkTimeouts cfg now vn = None" unfolding checkTimeouts_def idle Let_def prod.case by simp
    then show ?thesis using l1 None by simp
  next
    case (Some r1)
    obtain t1 d1 where r1: "r1 = (t1, d1)" by fastforce
    let ?l2 = "limited (maxConnectionTime cfg \<noteq> 0 \<and> lastConnectionTime vn \<noteq> 0 \<and> cs \<noteq> []) (maxConnectionTime cfg) now (lastConnectionTime vn) t1"
    have l2: "?l2 = None \<longleftrightarrow> maxConnectionTime cfg \<noteq> 0 \<and> lastConnectionTime vn \<noteq> 0 \<and> clients vn \<noteq> [] \<and>
        expired (maxConnectionTime cfg) now (lastConnectionTime vn)"
      using limited_none [OF p [OF assms(2)], of "lastConnectionTime vn \<noteq> 0 \<and> cs \<noteq> []" now "lastConnectionTime vn" t1] emp by auto
    show ?thesis
    proof (cases ?l2)
      case None
      then have "checkTimeouts cfg now vn = None" using Some unfolding checkTimeouts_def idle Let_def prod.case r1 by simp
      then show ?thesis using l2 None by simp
    next
      case s2: (Some r2)
      obtain t2 d2 where r2: "r2 = (t2, d2)" by fastforce
      have l3: "limited (maxIdleTime cfg \<noteq> 0) (maxIdleTime cfg) now (lastUserInputTime (vn_shared vn)) t2 = None \<longleftrightarrow>
          maxIdleTime cfg \<noteq> 0 \<and> expired (maxIdleTime cfg) now (lastUserInputTime (vn_shared vn))"
        using limited_none [OF p [OF assms(3)], of True] by simp
      have run: "checkTimeouts cfg now vn = None \<longleftrightarrow> limited (maxIdleTime cfg \<noteq> 0) (maxIdleTime cfg) now (lastUserInputTime (vn_shared vn)) t2 = None"
        using Some s2 unfolding checkTimeouts_def idle Let_def prod.case r1 r2 by (auto split: bind_splits)
      have n1: "(?l1 = None) = False" and n2: "(?l2 = None) = False" using Some s2 by simp_all
      show ?thesis unfolding run l3 l1 [symmetric] l2 [symmetric] n1 n2 by simp
    qed
  qed
qed

lemma checkTimeouts_exits_witness:
  "checkTimeouts \<lparr>idleTimeout = 0, maxDisconnectionTime = 0, maxConnectionTime = 0, maxIdleTime = 10\<rparr> 1010 (newVNCServerST [] 1000 :: nat VNCServerST) = None \<and>
   checkTimeouts \<lparr>idleTimeout = 0, maxDisconnectionTime = 0, maxConnectionTime = 0, maxIdleTime = 10\<rparr> 1071 (newVNCServerST [] 1000 :: nat VNCServerST) \<noteq> None"
  using checkTimeouts_exits [of "\<lparr>idleTimeout = 0, maxDisconnectionTime = 0, maxConnectionTime = 0, maxIdleTime = 10\<rparr>" 1010 "newVNCServerST [] 1000 :: nat VNCServerST"]
    checkTimeouts_exits [of "\<lparr>idleTimeout = 0, maxDisconnectionTime = 0, maxConnectionTime = 0, maxIdleTime = 10\<rparr>" 1071 "newVNCServerST [] 1000 :: nat VNCServerST"]
  by (simp add: expired_def newVNCServerST_def)

subsection \<open>Sockets\<close>

lemma client_on_some:
  "client_on sock vn = Some k \<Longrightarrow> k < length (clients vn) \<and> vs_id (clients vn ! k) = sock"
  by (auto simp: client_on_def find_Some_iff)

lemma client_on_none: "client_on sock vn = None \<longleftrightarrow> sock \<notin> vs_id ` set (clients vn)"
  by (auto simp: client_on_def find_None_iff set_conv_nth)

lemma applyVideo_keeps:
  "\<exists>vn'. applyVideoRectangle vn = Some vn' \<and> clients vn' = clients vn \<and> closingSockets vn' = closingSockets vn \<and> vn_shared vn' = vn_shared vn \<and>
    desktopStarted vn' = desktopStarted vn"
  by (auto simp: applyVideoRectangle_def vn_set_video_area_def on_comparer_def set_video_area_def split: option.splits)

lemma filter_remove:
  assumes "distinct (map f xs)" and "k < length xs"
  shows "filter (\<lambda>x. f x \<noteq> f (xs ! k)) xs = take k xs @ drop (Suc k) xs"
proof -
  have x: "xs = take k xs @ xs ! k # drop (Suc k) xs" using assms(2) by (rule id_take_nth_drop)
  have "distinct (map f (take k xs @ xs ! k # drop (Suc k) xs))" using assms(1) x by simp
  then have "f (xs ! k) \<notin> f ` set (take k xs) \<union> f ` set (drop (Suc k) xs)" by auto
  then have "filter (\<lambda>y. f y \<noteq> f (xs ! k)) (take k xs) = take k xs" "filter (\<lambda>y. f y \<noteq> f (xs ! k)) (drop (Suc k) xs) = drop (Suc k) xs"
    by (auto intro!: filter_True simp: image_iff)
  then have "filter (\<lambda>y. f y \<noteq> f (xs ! k)) (take k xs @ xs ! k # drop (Suc k) xs) = take k xs @ drop (Suc k) xs" by simp
  then show ?thesis using x by simp
qed

text \<open>C30: \<open>removeSocket\<close> forgets the socket and nothing else: the other clients and sockets stay in their order, the keys its client holds down
  are released, and the desktop is stopped with the last authenticated client: it never runs without one if it did not before.\<close>

theorem removeSocket_forgets:
  assumes d: "distinct (getSockets vn)"
  shows "\<exists>vn'. removeSocket sock vn = Some vn' \<and> clients vn' = filter (\<lambda>c. vs_id c \<noteq> sock) (clients vn) \<and>
    closingSockets vn' = filter (\<lambda>s. s \<noteq> sock) (closingSockets vn) \<and>
    (case client_on sock vn of
       Some k \<Rightarrow> vn_shared vn' = vs_release (clients vn ! k, vn_shared vn) \<and> (desktopStarted vn' \<longleftrightarrow> desktopStarted vn \<and> 0 < authClientCount vn')
     | None \<Rightarrow> vn_shared vn' = vn_shared vn \<and> desktopStarted vn' = desktopStarted vn)"
proof (cases "client_on sock vn")
  case None
  then have "filter (\<lambda>c. vs_id c \<noteq> sock) (clients vn) = clients vn" by (auto simp: client_on_none intro!: filter_True)
  then show ?thesis using None by (simp add: removeSocket_def)
next
  case (Some k)
  have k: "k < length (clients vn)" "vs_id (clients vn ! k) = sock" using client_on_some [OF Some] by simp_all
  define vn1 where "vn1 = vn\<lparr>vn_shared := vs_release (clients vn ! k, vn_shared vn), clients := take k (clients vn) @ drop (Suc k) (clients vn)\<rparr>"
  have run: "removeSocket sock vn =
      (if authClientCount vn1 = 0 \<and> desktopStarted vn1 then setVideoRectangle (mkRect 0 0 0 0) (vn1\<lparr>desktopStarted := False\<rparr>) else Some vn1)"
    using Some by (simp add: removeSocket_def vn1_def Let_def)
  have "sock \<in> vs_id ` set (clients vn)" using k by (metis image_eqI nth_mem)
  then have dc: "distinct (map vs_id (clients vn))" "sock \<notin> set (closingSockets vn)" using d by (auto simp: getSockets_def)
  have left: "clients vn1 = filter (\<lambda>c. vs_id c \<noteq> sock) (clients vn)"
    using filter_remove [OF dc(1) k(1)] k(2) by (simp add: vn1_def)
  have closing: "filter (\<lambda>s. s \<noteq> sock) (closingSockets vn) = closingSockets vn" using dc(2) by (auto intro!: filter_True)
  have same: "vn_shared vn1 = vs_release (clients vn ! k, vn_shared vn)" "desktopStarted vn1 = desktopStarted vn" "closingSockets vn1 = closingSockets vn"
    by (simp_all add: vn1_def)
  show ?thesis
  proof (cases "authClientCount vn1 = 0 \<and> desktopStarted vn1")
    case False
    then show ?thesis using run left closing same Some by auto
  next
    case True
    obtain vn2 where vn2: "setVideoRectangle (mkRect 0 0 0 0) (vn1\<lparr>desktopStarted := False\<rparr>) = Some vn2" "clients vn2 = clients vn1"
        "closingSockets vn2 = closingSockets vn1" "vn_shared vn2 = vn_shared vn1" "\<not> desktopStarted vn2"
      using applyVideo_keeps [of "vn1\<lparr>desktopStarted := False, m_videoRect := mkRect 0 0 0 0\<rparr>"] by (auto simp: setVideoRectangle_def)
    have "authClientCount vn2 = authClientCount vn1" using vn2(2) by (simp add: authClientCount_def)
    then show ?thesis using run True vn2 left closing same Some by simp
  qed
qed

definition two_clients :: "nat VNCServerST" where
  "two_clients = (newVNCServerST [] 0)\<lparr>clients := [newVNCSConnectionST 3 newConnParams 0, (newVNCSConnectionST 5 newConnParams 0)\<lparr>vs_state := S_NORMAL\<rparr>],
     desktopStarted := True\<rparr>"

lemma removeSocket_forgets_witness:
  "\<exists>vn'. removeSocket 5 two_clients = Some vn' \<and> getSockets vn' = [3] \<and> \<not> desktopStarted vn'"
proof -
  have c: "clients two_clients = [newVNCSConnectionST 3 newConnParams 0, (newVNCSConnectionST 5 newConnParams 0)\<lparr>vs_state := S_NORMAL\<rparr>]"
    "closingSockets two_clients = []" "desktopStarted two_clients"
    by (simp_all add: two_clients_def newVNCServerST_def)
  have i: "vs_id (newVNCSConnectionST i newConnParams 0) = i" "vs_state (newVNCSConnectionST i newConnParams 0) = S_UNINITIALISED" for i
    by (simp_all add: newVNCSConnectionST_def)
  have d: "distinct (getSockets two_clients)" by (simp add: getSockets_def c i)
  have k: "client_on 5 two_clients = Some 1" by (simp add: client_on_def c i upt_rec)
  obtain vn' where r: "removeSocket 5 two_clients = Some vn'" "clients vn' = [newVNCSConnectionST 3 newConnParams 0]" "closingSockets vn' = []"
      "desktopStarted vn' \<longleftrightarrow> 0 < authClientCount vn'"
    using removeSocket_forgets [OF d, of 5] by (auto simp: k c i)
  then show ?thesis by (simp add: getSockets_def i authClientCount_def authenticated_def)
qed

end
