(* ===== verification/Spec2Isabelle.thy ===== *)
theory Spec2Isabelle
  imports Rfb_UpdateTracker D3des_Correct Rfb_RRE Rfb_HextileBetter Rfb_Handshake Rfb_Delivery Rfb_Update Rfb_ComparingTracker Rfb_Input Rfb_System
    Rfb_ServerLife
begin

text \<open>
  \<^bold>\<open>TightVNC: regions, encodings, connections and updates.\<close>
  The program is a server that shows a framebuffer to viewers over the RFB protocol, and the viewers. The theories model
  the library both are built from, \<open>src/common\<close>: \<open>Xregion\<close> (C) and \<open>rfb\<close>, \<open>rdr\<close> (C++). A definition has the
  name of the function it models, with a prefix for the class where names would clash.

  \<^bold>\<open>How the parts interact.\<close> A desktop reports changed and moved regions to the server's \<open>ComparingUpdateTracker\<close>, which
  compares them with a copy of the framebuffer; what is left goes to the \<open>SimpleUpdateTracker\<close> of every connection. A viewer asks
  for part of the screen; the connection hands out what is due there, and its \<open>SMsgWriter\<close> writes a message of rectangles, each
  by one of the encoders. The viewer's \<open>CMsgReader\<close> reads the message and draws into a \<open>PixelBuffer\<close>. Over all
  connections the server checks for updates before it answers a client, and passes what it finds on to every client. Before that
  the two sides run the handshake of \<open>SConnection\<close> and \<open>CConnection\<close>. Regions are the banded lists of boxes of Xregion.

  \<^bold>\<open>The theories.\<close>
  \<^item> \<open>Prelude\<close>: the collection \<open>region_simps\<close>, 16-bit coordinates, lists.
  \<^item> \<open>Xregion_Box\<close>, \<open>Xregion_Band\<close> (\<open>Xregion/region.h\<close>): boxes, regions, the invariant \<open>wf_region\<close> and the points \<open>pts\<close>. \<open>Xregion_Callbacks\<close>,
    \<open>Xregion_Op\<close>, \<open>Xregion_OpCorrect\<close>, \<open>Xregion_Set\<close>, \<open>Xregion_Query\<close>, \<open>Xregion_Shrink\<close> (\<open>Xregion/Region.c\<close>): \<open>miRegionOp\<close> with its callbacks,
    the set operations, queries and shrinking. Every operation keeps the invariant and is the set operation on the points, also when
    the destination is one of the sources.
  \<^item> \<open>Rfb_Rect\<close> (\<open>Rect.h\<close>), \<open>Rfb_Region\<close> (\<open>Region.cxx\<close>): rectangles and the class \<open>Region\<close>. The locales \<open>set_operators\<close> state its contract over
    point sets; \<open>denotes r P\<close> is the abstraction all later theories use. \<open>get_rects\<close> lists the rectangles in an order safe for copying.
  \<^item> \<open>Rfb_UpdateTracker\<close> (\<open>UpdateTracker.cxx\<close>): the trackers. The locale \<open>update_tracker\<close> is the contract of \<open>UpdateTracker\<close>: the state accounts for
    the difference of two pictures. \<open>Rfb_ComparingTracker\<close> (\<open>ComparingUpdateTracker.cxx\<close>): the tracker of the server.
  \<^item> \<open>D3des\<close>, \<open>D3des_Correct\<close> (\<open>d3des.c\<close>): DES, and that decryption inverts it.
  \<^item> \<open>Rdr_InStream\<close>, \<open>Rdr_OutStream\<close> (\<open>rdr/*Stream*\<close>): streams with their buffers and overruns; a stream over a file descriptor reads
    like memory. The parsers of \<open>Rdr_InStream\<close> are what the later theories read with.
  \<^item> \<open>Rfb_Raw\<close>, \<open>Rfb_Subrect\<close>, \<open>Rfb_RRE\<close>, \<open>Rfb_Hextile\<close>, \<open>Rfb_TightPalette\<close>, \<open>Rfb_HextileBetter\<close> (\<open>rawEncode\<close>, \<open>rre*.h\<close>, \<open>hextile*.h\<close>, \<open>TightPalette.cxx\<close>): the
    encodings, each with its decoder. They are lossless for the pixel sizes 8, 16 and 32, stated once in the locale \<open>word_pixel_io\<close> and
    interpreted at the three sizes.
  \<^item> \<open>Libc_Scanf\<close>, \<open>Rfb_PixelFormat\<close>, \<open>Rfb_ConnParams\<close>, \<open>Rfb_ClientMsg\<close>, \<open>Rfb_Security\<close>, \<open>Rfb_Caps\<close>: pixel formats, parameters, the messages of the
    viewer with their round trip, the security types, the TightVNC capabilities.
  \<^item> \<open>Rfb_SConnection\<close>, \<open>Rfb_SConnectionRun\<close>, \<open>Rfb_CConnection\<close>, \<open>Rfb_Handshake\<close> (\<open>SConnection.cxx\<close>, \<open>CConnection.cxx\<close>): the state machines of both sides as
    steps of type \<open>act\<close> (state passing with exceptions as \<open>Inl\<close>); safety by an invariant of all runs, and the whole handshake run to the end.
    \<open>Rfb_Delivery\<close>: what \<open>processMessages\<close> does does not depend on the pieces in which the network delivers the bytes of the client.
  \<^item> \<open>Rfb_SMsgWriter\<close>, \<open>Rfb_CMsgReader\<close>, \<open>Rfb_Update\<close> (\<open>SMsgWriter*.cxx\<close>, \<open>CMsgReader*.cxx\<close>): updates on the wire. The locale \<open>update_link\<close> is a writer and
    a reader with the same pixels.
  \<^item> \<open>Rfb_PixelBuffer\<close> (\<open>PixelBuffer.cxx\<close>): the memory of a framebuffer; the locale \<open>canvas\<close> is what the decoders draw with.
  \<^item> \<open>Rfb_VNCSConnection\<close> (\<open>VNCSConnectionST.cxx\<close>): a served connection. \<open>Rfb_Input\<close>: keys, pointer and rights over any sequence of inputs.
    \<open>Rfb_ServeUpdate\<close>: what the viewer shows after an update, from the tracker of the connection to the viewer's framebuffer.
  \<^item> \<open>Rfb_Cursor\<close> (\<open>Cursor.cxx\<close>): the cursor of the server, its mask, cropping, outline and bitmap.
  \<^item> \<open>Rfb_VNCServer\<close> (\<open>VNCServerST.cxx\<close>): the server of all connections, with its framebuffer, tracker, rendered cursor, sockets and timeouts; what
    the desktop and the viewers' pixel formats determine is in the records \<open>ServerEnv\<close> and \<open>Views\<close>. \<open>Rfb_AreaTracks\<close>: the trackers restricted to the
    screen. \<open>Rfb_ServerCorrect\<close>: \<open>checkUpdate\<close> keeps every client's account of the screen (\<open>server_ok\<close>, \<open>told\<close>). \<open>Rfb_ServerLife\<close>: timeouts and sockets.
  \<^item> \<open>Rfb_System\<close>: desktop, server and viewers as a step relation (\<open>sys_step\<close>): the desktop draws and copies, viewers ask and are served in any order.
    The invariant \<open>sys_ok\<close> holds in every execution, and a served viewer shows the screen.

  \<^bold>\<open>Conventions.\<close> Coordinates are \<open>int\<close>; where the code stores them in 16 bits (\<open>BOX\<close>) the operations take \<open>short_rect\<close> or \<open>short_pts\<close>
  arguments and say what happens beyond. Failing allocations and reads or writes outside a buffer are \<open>None\<close>; exceptions are values.
  The handlers of a connection catch \<open>rdr::Exception\<close>s only (\<open>rdr_exception\<close>): \<open>std::bad_alloc\<close> (\<open>BadAlloc\<close>), traps, failed assertions and undefined
  behaviour (\<open>NoReturn\<close>) pass them. A read that waits for bytes is an outcome of its own (\<open>Waiting\<close>), not an exception. Shifts of a pixel by 32 bits or more,
  undefined in C, give 0 in \<open>Rfb_PixelFormat\<close>.
  Pixels on the wire are words. Structures reached through several pointers are passed by index into a heap of two or three regions
  where the aliasing matters (\<open>on_two\<close>). The heaps never run out of memory, except where \<open>None\<close> says so.

  \<^bold>\<open>Bounds and fuel.\<close> No definition takes fuel: loops recurse on lists, counters or measures. \<open>handshake_completes\<close> runs 10 rounds of 5 messages
  each, more than any version and security type takes. Screens are below 65536 by 65536 pixels and their images below 2147483648 bytes where an image
  buffer is allocated, as the code's \<open>int\<close> products need.

  \<^bold>\<open>Not modelled.\<close> The encoders of Tight, ZRLE and JPEG and zlib itself (parameters of writer and reader), the translation of pixels between formats and
  colour maps (a parameter of the views), key remapping and the black list, file transfer, the HTTP server, configuration and
  logging, sockets and other system calls, the user interfaces under \<open>unix\<close> and \<open>win\<close>, the X server hooks, the Java viewer, and the vendored
  JPEG and zlib: they are system calls, third-party code, or do not bear on the protocol. The manifest lists them with their reasons.
\<close>

end
